(* ===== verification/Ono_Prelude.thy ===== *)
theory Ono_Prelude
  imports Main "HOL-Library.Word"
begin

text \<open>
  The prelude of the development: the result type every fallible operation of the
  program answers with, the checked and saturating arithmetic of the machine integers,
  event runs of a partial step function, closed vocabularies (an enumeration with a
  spelling per member), and the generic facts about them that the component theories
  share.  The two locales at the end are the interfaces of state machines and of
  vocabularies; every state machine and every closed vocabulary of the program
  interprets them in its own theory.
\<close>

unbundle bit_operations_syntax

section \<open>Collections of facts\<close>

named_theorems machine_simps \<open>checked and saturating machine arithmetic\<close>
named_theorems result_simps \<open>sequencing of fallible operations\<close>

section \<open>Results\<close>

type_synonym u8 = "8 word"
type_synonym u32 = "32 word"
type_synonym bytes = "u8 list"

text \<open>The \<open>?\<close> operator of the source: the first error ends the computation.\<close>

definition and_then :: "'e + 'a \<Rightarrow> ('a \<Rightarrow> 'e + 'b) \<Rightarrow> 'e + 'b" where
  "and_then r f = (case r of Inl e \<Rightarrow> Inl e | Inr a \<Rightarrow> f a)"

text \<open>\<open>Option::ok_or_else\<close>.\<close>

definition ok_or :: "'e \<Rightarrow> 'a option \<Rightarrow> 'e + 'a" where
  "ok_or e x = (case x of None \<Rightarrow> Inl e | Some a \<Rightarrow> Inr a)"

lemma and_then_simps [simp, result_simps]:
  "and_then (Inl e) f = Inl e"
  "and_then (Inr a) f = f a"
  by (simp_all add: and_then_def)

lemma and_then_eq_Inr [result_simps]:
  "and_then r f = Inr b \<longleftrightarrow> (\<exists>a. r = Inr a \<and> f a = Inr b)"
  by (cases r) auto

lemma and_then_eq_Inl [result_simps]:
  "and_then r f = Inl e \<longleftrightarrow> r = Inl e \<or> (\<exists>a. r = Inr a \<and> f a = Inl e)"
  by (cases r) auto

lemma ok_or_simps [simp, result_simps]:
  "ok_or e None = Inl e"
  "ok_or e (Some a) = Inr a"
  by (simp_all add: ok_or_def)

lemma ok_or_eq_Inr [result_simps]: "ok_or e x = Inr a \<longleftrightarrow> x = Some a"
  by (cases x) auto

lemma ok_or_eq_Inl [result_simps]: "ok_or e x = Inl e' \<longleftrightarrow> x = None \<and> e' = e"
  by (cases x) auto

text \<open>The kinds of \<open>std::io::Error\<close> the program tells apart.\<close>

datatype io_kind = NotFound | PermissionDenied | OtherKind

section \<open>Machine integers\<close>

text \<open>
  Signed 128-bit integers are kept as \<open>int\<close> with the range written out, because every
  use of them in the program is through the checked operations; unsigned 64-bit
  consumption counters are \<open>nat\<close> with the ceiling written out, because the program
  only ever saturates them.
\<close>

definition i128_min :: int where "i128_min = - (2 ^ 127)"
definition i128_max :: int where "i128_max = 2 ^ 127 - 1"
definition u64_max :: nat where "u64_max = 2 ^ 64 - 1"

definition in_i128 :: "int \<Rightarrow> bool" where
  "in_i128 x \<longleftrightarrow> i128_min \<le> x \<and> x \<le> i128_max"

definition checked_i128 :: "int \<Rightarrow> int option" where
  "checked_i128 x = (if in_i128 x then Some x else None)"

definition sat_add_u64 :: "nat \<Rightarrow> nat \<Rightarrow> nat" where
  "sat_add_u64 a b = min u64_max (a + b)"

lemma checked_i128_eq_Some [machine_simps]:
  "checked_i128 x = Some y \<longleftrightarrow> y = x \<and> in_i128 x"
  by (auto simp: checked_i128_def)

lemma checked_i128_eq_None [machine_simps]: "checked_i128 x = None \<longleftrightarrow> \<not> in_i128 x"
  by (simp add: checked_i128_def)

lemma in_i128_zero [simp]: "in_i128 0"
  by (simp add: in_i128_def i128_min_def i128_max_def)

lemma in_i128_bounds: "in_i128 x \<longleftrightarrow> - (2 ^ 127) \<le> x \<and> x < 2 ^ 127"
  by (auto simp: in_i128_def i128_min_def i128_max_def)

lemma in_i128_minus: "in_i128 x \<Longrightarrow> x \<noteq> i128_min \<Longrightarrow> in_i128 (- x)"
  by (auto simp: in_i128_def i128_min_def i128_max_def)

lemma sat_add_u64_le [simp]: "sat_add_u64 a b \<le> u64_max"
  by (simp add: sat_add_u64_def)

lemma sat_add_u64_exact [machine_simps]:
  "a + b \<le> u64_max \<Longrightarrow> sat_add_u64 a b = a + b"
  by (simp add: sat_add_u64_def)

lemma sat_add_u64_below [machine_simps]:
  "sat_add_u64 a b \<le> c \<Longrightarrow> c < u64_max \<Longrightarrow> sat_add_u64 a b = a + b"
  by (auto simp: sat_add_u64_def min_def split: if_splits)

section \<open>Runs of a partial step function\<close>

text \<open>
  Feeding a list of events to a machine whose step may refuse; the run refuses as soon
  as one step does.
\<close>

fun run_events :: "('s \<Rightarrow> 'e \<Rightarrow> 's option) \<Rightarrow> 's \<Rightarrow> 'e list \<Rightarrow> 's option" where
  "run_events step s [] = Some s"
| "run_events step s (e # es) =
     (case step s e of None \<Rightarrow> None | Some s' \<Rightarrow> run_events step s' es)"

lemma run_events_append:
  "run_events step s (xs @ ys) =
     (case run_events step s xs of None \<Rightarrow> None | Some s' \<Rightarrow> run_events step s' ys)"
  by (induction xs arbitrary: s) (auto split: option.splits)

lemma run_events_snoc:
  "run_events step s (xs @ [e]) = Some s' \<longleftrightarrow>
     (\<exists>u. run_events step s xs = Some u \<and> step u e = Some s')"
  by (auto simp: run_events_append split: option.splits)

section \<open>Interfaces\<close>

text \<open>
  A closed vocabulary: \<open>all_members\<close> lists every member of the enumeration and
  \<open>as_str\<close> spells each one.  The two laws are what the registry relies on; the reader
  \<open>find (\<lambda>x. as_str x = name) all_members\<close> is the inverse of the spelling.
\<close>

locale vocabulary =
  fixes all_members :: "'a list"
    and spell :: "'a \<Rightarrow> 'w"
  assumes every_member: "x \<in> set all_members"
    and spelling_inj: "spell x = spell y \<Longrightarrow> x = y"
begin

lemma read_spelling: "find (\<lambda>x. spell x = spell y) all_members = Some y"
proof -
  obtain x where x: "find (\<lambda>x. spell x = spell y) all_members = Some x"
    using every_member[of y] by (cases "find (\<lambda>x. spell x = spell y) all_members")
      (auto simp: find_None_iff)
  then have "spell x = spell y"
    by (auto simp: find_Some_iff)
  then show ?thesis
    using x spelling_inj by blast
qed

lemma read_sound: "find (\<lambda>x. spell x = w) all_members = Some y \<Longrightarrow> spell y = w"
  by (auto simp: find_Some_iff)

lemma read_refuses: "(\<forall>y. spell y \<noteq> w) \<Longrightarrow> find (\<lambda>x. spell x = w) all_members = None"
  by (auto simp: find_None_iff)

end

text \<open>
  A machine that keeps an invariant: \<open>step\<close> may refuse, \<open>good\<close> survives every accepted
  step, and \<open>settled\<close> is a property that, once entered, is never left.
\<close>

locale guarded_machine =
  fixes step :: "'s \<Rightarrow> 'e \<Rightarrow> 's option"
    and good :: "'s \<Rightarrow> bool"
    and settled :: "'s \<Rightarrow> bool"
  assumes step_good: "good s \<Longrightarrow> step s e = Some s' \<Longrightarrow> good s'"
    and step_settled: "good s \<Longrightarrow> settled s \<Longrightarrow> step s e = Some s' \<Longrightarrow> settled s'"
begin

lemma run_good: "good s \<Longrightarrow> run_events step s es = Some s' \<Longrightarrow> good s'"
  by (induction es arbitrary: s) (auto split: option.splits dest: step_good)

lemma run_settled:
  "good s \<Longrightarrow> settled s \<Longrightarrow> run_events step s es = Some s' \<Longrightarrow> settled s'"
  by (induction es arbitrary: s)
    (auto split: option.splits dest: step_good step_settled)

text \<open>
  A property entered only by one event and never left is entered exactly by the runs
  that hold the event.
\<close>

lemma run_settled_iff:
  assumes "\<And>s e s'. step s e = Some s' \<Longrightarrow> good s \<Longrightarrow> \<not> settled s \<Longrightarrow> settled s' \<longleftrightarrow> e = k"
    and "good s" and "\<not> settled s"
    and "run_events step s es = Some s'"
  shows "settled s' \<longleftrightarrow> k \<in> set es"
  using assms(2-4)
proof (induction es arbitrary: s)
  case Nil
  then show ?case by simp
next
  case (Cons e es)
  then obtain u where u: "step s e = Some u" and rest: "run_events step u es = Some s'"
    by (auto split: option.splits)
  have "good u" using step_good[OF Cons.prems(1) u] .
  show ?case
  proof (cases "settled u")
    case True
    then have "e = k" using assms(1)[OF u Cons.prems(1,2)] by simp
    moreover have "settled s'" using run_settled[OF \<open>good u\<close> True rest] .
    ultimately show ?thesis by simp
  next
    case False
    then have "e \<noteq> k" using assms(1)[OF u Cons.prems(1,2)] by simp
    with Cons.IH[OF \<open>good u\<close> False rest] show ?thesis by simp
  qed
qed

end

text \<open>
  Functional refinement: \<open>abs\<close> reads the abstract state off a concrete one, and every
  accepted concrete step is the abstract step on what \<open>abs\<close> reads.
\<close>

locale functional_refinement =
  fixes cstep :: "'c \<Rightarrow> 'e \<Rightarrow> 'c option"
    and astep :: "'a \<Rightarrow> 'e \<Rightarrow> 'a option"
    and abs :: "'c \<Rightarrow> 'a"
    and good :: "'c \<Rightarrow> bool"
  assumes keeps_good: "good c \<Longrightarrow> cstep c e = Some c' \<Longrightarrow> good c'"
    and simulates: "good c \<Longrightarrow> cstep c e = Some c' \<Longrightarrow> astep (abs c) e = Some (abs c')"
begin

lemma run_simulates:
  "good c \<Longrightarrow> run_events cstep c es = Some c' \<Longrightarrow>
     good c' \<and> run_events astep (abs c) es = Some (abs c')"
proof (induction es arbitrary: c)
  case Nil
  then show ?case by simp
next
  case (Cons e es)
  then obtain u where u: "cstep c e = Some u" "run_events cstep u es = Some c'"
    by (auto split: option.splits)
  show ?case
    using Cons.IH[OF keeps_good[OF Cons.prems(1) u(1)] u(2)] simulates[OF Cons.prems(1) u(1)] by simp
qed

end

end
