(* ===== verification/Plan_State.thy ===== *)
theory Plan_State
  imports Ono_Prelude
begin

text \<open>
  The plan lifecycle of \<open>crates/ono-change-core/src/state.rs\<close>: the nineteen plan states
  with their spellings and predicates, the nineteen lifecycle events, and the total
  transition function \<open>after\<close>.  The lemmas lift the one-step facts to whole event
  histories through the \<open>guarded_machine\<close> interface.
\<close>

section \<open>States and events\<close>

datatype PlanState =
    Draft | Resolved | Sealed | Expired | Preparing | PrepareFailed | Protected
  | Applying | ApplyFailed | Verifying | Verified | Degraded | Failed | Closed
  | RecoveryPlanned | Recovering | Recovered | RecoveryFailed | RecoveryVerified

datatype LifecycleEvent =
    EvResolve | EvSeal | EvExpire | EvBeginPrepare | EvPrepareFailed | EvProtected
  | EvBeginApply | EvApplyFailed | EvBeginVerify | EvVerified | EvDegraded
  | EvVerificationFailed | EvClose | EvPlanRecovery | EvBeginRecovery | EvRecovered
  | EvRecoveryFailed | EvRecoveryVerified | EvRecoveryVerificationFailed

definition PlanState_ALL :: "PlanState list" where
  "PlanState_ALL =
     [Draft, Resolved, Sealed, Expired, Preparing, PrepareFailed, Protected, Applying,
      ApplyFailed, Verifying, Verified, Degraded, Failed, Closed, RecoveryPlanned,
      Recovering, Recovered, RecoveryFailed, RecoveryVerified]"

fun PlanState_as_str :: "PlanState \<Rightarrow> string" where
  "PlanState_as_str Draft = ''draft''"
| "PlanState_as_str Resolved = ''resolved''"
| "PlanState_as_str Sealed = ''sealed''"
| "PlanState_as_str Expired = ''expired''"
| "PlanState_as_str Preparing = ''preparing''"
| "PlanState_as_str PrepareFailed = ''prepare-failed''"
| "PlanState_as_str Protected = ''protected''"
| "PlanState_as_str Applying = ''applying''"
| "PlanState_as_str ApplyFailed = ''apply-failed''"
| "PlanState_as_str Verifying = ''verifying''"
| "PlanState_as_str Verified = ''verified''"
| "PlanState_as_str Degraded = ''degraded''"
| "PlanState_as_str Failed = ''failed''"
| "PlanState_as_str Closed = ''closed''"
| "PlanState_as_str RecoveryPlanned = ''recovery-planned''"
| "PlanState_as_str Recovering = ''recovering''"
| "PlanState_as_str Recovered = ''recovered''"
| "PlanState_as_str RecoveryFailed = ''recovery-failed''"
| "PlanState_as_str RecoveryVerified = ''recovery-verified''"

definition PlanState_from_name :: "string \<Rightarrow> PlanState option" where
  "PlanState_from_name name = find (\<lambda>s. PlanState_as_str s = name) PlanState_ALL"

section \<open>Predicates\<close>

definition is_editable :: "PlanState \<Rightarrow> bool" where
  "is_editable s \<longleftrightarrow> s \<in> {Draft}"

definition is_sealed :: "PlanState \<Rightarrow> bool" where
  "is_sealed s \<longleftrightarrow> s \<notin> {Draft, Resolved}"

definition is_appliable :: "PlanState \<Rightarrow> bool" where
  "is_appliable s \<longleftrightarrow> s \<in> {Sealed, Protected}"

definition has_mutated :: "PlanState \<Rightarrow> bool" where
  "has_mutated s \<longleftrightarrow>
     s \<in> {Applying, ApplyFailed, Verifying, Verified, Degraded, Failed, Closed,
          RecoveryPlanned, Recovering, Recovered, RecoveryFailed, RecoveryVerified}"

definition is_terminal :: "PlanState \<Rightarrow> bool" where
  "is_terminal s \<longleftrightarrow> s \<in> {Expired, Closed, PrepareFailed, RecoveryVerified}"

definition is_verdict :: "PlanState \<Rightarrow> bool" where
  "is_verdict s \<longleftrightarrow> s \<in> {Verified, Degraded, Failed, Recovered, RecoveryFailed}"

definition retains_assets_indefinitely :: "PlanState \<Rightarrow> bool" where
  "retains_assets_indefinitely s \<longleftrightarrow>
     s \<in> {Failed, Degraded, ApplyFailed, PrepareFailed, RecoveryFailed}"

definition is_recoverable :: "PlanState \<Rightarrow> bool" where
  "is_recoverable s \<longleftrightarrow>
     s \<in> {Verified, Degraded, Failed, ApplyFailed, Closed, RecoveryPlanned, RecoveryFailed}"

lemmas plan_predicates =
  is_editable_def is_sealed_def is_appliable_def has_mutated_def is_terminal_def
  is_verdict_def retains_assets_indefinitely_def is_recoverable_def

section \<open>Transitions\<close>

definition after :: "PlanState \<Rightarrow> LifecycleEvent \<Rightarrow> PlanState option" where
  "after s e =
    (if s = Draft \<and> e = EvResolve then Some Resolved
     else if s \<in> {Draft, Resolved} \<and> e = EvSeal then Some Sealed
     else if s = Sealed \<and> e = EvExpire then Some Expired
     else if s \<in> {Sealed, Protected} \<and> e = EvBeginPrepare then Some Preparing
     else if s = Preparing \<and> e = EvPrepareFailed then Some PrepareFailed
     else if s = Preparing \<and> e = EvProtected then Some Protected
     else if s \<in> {Preparing, Protected} \<and> e = EvBeginApply then Some Applying
     else if s = Applying \<and> e = EvApplyFailed then Some ApplyFailed
     else if s = Applying \<and> e = EvBeginVerify then Some Verifying
     else if s = Verifying \<and> e = EvVerified then Some Verified
     else if s = Verifying \<and> e = EvDegraded then Some Degraded
     else if s = Verifying \<and> e = EvVerificationFailed then Some Failed
     else if s \<in> {Verified, Degraded, Failed} \<and> e = EvClose then Some Closed
     else if s \<in> {Verified, Degraded, Failed, ApplyFailed, Closed, RecoveryFailed} \<and>
             e = EvPlanRecovery then Some RecoveryPlanned
     else if s = RecoveryPlanned \<and> e = EvBeginRecovery then Some Recovering
     else if s = Recovering \<and> e = EvRecovered then Some Recovered
     else if s = Recovering \<and> e = EvRecoveryFailed then Some RecoveryFailed
     else if s = Recovered \<and> e = EvRecoveryVerified then Some RecoveryVerified
     else if s = Recovered \<and> e = EvRecoveryVerificationFailed then Some RecoveryFailed
     else None)"

text \<open>The edges of the state graph, one elimination case per edge.\<close>

lemma after_edges:
  assumes "after s e = Some s'"
  shows "(s, e, s') \<in>
    {(Draft, EvResolve, Resolved), (Draft, EvSeal, Sealed), (Resolved, EvSeal, Sealed),
     (Sealed, EvExpire, Expired), (Sealed, EvBeginPrepare, Preparing),
     (Protected, EvBeginPrepare, Preparing), (Preparing, EvPrepareFailed, PrepareFailed),
     (Preparing, EvProtected, Protected), (Preparing, EvBeginApply, Applying),
     (Protected, EvBeginApply, Applying), (Applying, EvApplyFailed, ApplyFailed),
     (Applying, EvBeginVerify, Verifying), (Verifying, EvVerified, Verified),
     (Verifying, EvDegraded, Degraded), (Verifying, EvVerificationFailed, Failed),
     (Verified, EvClose, Closed), (Degraded, EvClose, Closed), (Failed, EvClose, Closed),
     (Verified, EvPlanRecovery, RecoveryPlanned), (Degraded, EvPlanRecovery, RecoveryPlanned),
     (Failed, EvPlanRecovery, RecoveryPlanned), (ApplyFailed, EvPlanRecovery, RecoveryPlanned),
     (Closed, EvPlanRecovery, RecoveryPlanned),
     (RecoveryFailed, EvPlanRecovery, RecoveryPlanned),
     (RecoveryPlanned, EvBeginRecovery, Recovering), (Recovering, EvRecovered, Recovered),
     (Recovering, EvRecoveryFailed, RecoveryFailed),
     (Recovered, EvRecoveryVerified, RecoveryVerified),
     (Recovered, EvRecoveryVerificationFailed, RecoveryFailed)}"
  using assms unfolding after_def by (simp split: if_splits; elim disjE; simp)

lemmas after_cases = after_edges [unfolded insert_iff empty_iff prod.inject simp_thms]

section \<open>One-step facts\<close>

lemma after_has_mutated: "has_mutated s \<Longrightarrow> after s e = Some s' \<Longrightarrow> has_mutated s'"
  by (drule after_cases) (elim disjE conjE; simp add: has_mutated_def)

lemma after_enters_mutation:
  "after s e = Some s' \<Longrightarrow> \<not> has_mutated s \<Longrightarrow> has_mutated s' \<longleftrightarrow> e = EvBeginApply"
  by (drule after_cases) (elim disjE conjE; simp add: has_mutated_def)

lemma after_is_sealed: "is_sealed s \<Longrightarrow> after s e = Some s' \<Longrightarrow> is_sealed s'"
  by (drule after_cases) (elim disjE conjE; simp add: is_sealed_def)

lemma after_enters_seal:
  "after s e = Some s' \<Longrightarrow> \<not> is_sealed s \<Longrightarrow> is_sealed s' \<longleftrightarrow> e = EvSeal"
  by (drule after_cases) (elim disjE conjE; simp add: is_sealed_def)

interpretation mutation: guarded_machine after "\<lambda>_. True" has_mutated
  by unfold_locales (auto intro: after_has_mutated)

interpretation sealing: guarded_machine after "\<lambda>_. True" is_sealed
  by unfold_locales (auto intro: after_is_sealed)

interpretation plan_words: vocabulary PlanState_ALL PlanState_as_str
proof unfold_locales
  fix x :: PlanState
  show "x \<in> set PlanState_ALL" by (cases x) (simp_all add: PlanState_ALL_def)
next
  fix x y assume "PlanState_as_str x = PlanState_as_str y"
  then show "x = y" by (cases x; cases y; simp)
qed

section \<open>Progress of a plan\<close>

text \<open>
  How far a state is along the graph.  Every event moves a plan strictly forward except
  the two that start an attempt again: preparing a protected plan a second time and
  planning another recovery after a failed one.
\<close>

fun plan_rank :: "PlanState \<Rightarrow> nat" where
  "plan_rank Draft = 0"
| "plan_rank Resolved = 1"
| "plan_rank Sealed = 2"
| "plan_rank Expired = 3"
| "plan_rank Preparing = 3"
| "plan_rank PrepareFailed = 4"
| "plan_rank Protected = 4"
| "plan_rank Applying = 5"
| "plan_rank ApplyFailed = 6"
| "plan_rank Verifying = 6"
| "plan_rank Verified = 7"
| "plan_rank Degraded = 7"
| "plan_rank Failed = 7"
| "plan_rank Closed = 8"
| "plan_rank RecoveryPlanned = 9"
| "plan_rank Recovering = 10"
| "plan_rank Recovered = 11"
| "plan_rank RecoveryFailed = 12"
| "plan_rank RecoveryVerified = 12"

lemma plan_rank_le: "plan_rank s \<le> 12"
  by (cases s) simp_all

definition restarts :: "LifecycleEvent list \<Rightarrow> nat" where
  "restarts es = 2 * count_list es EvBeginPrepare + 4 * count_list es EvPlanRecovery"

lemma after_rank:
  "after s e = Some s' \<Longrightarrow> Suc (plan_rank s) \<le> plan_rank s' + restarts [e]"
  by (drule after_cases) (elim disjE conjE; simp add: restarts_def)

lemma restarts_Cons: "restarts (e # es) = restarts [e] + restarts es"
  by (simp add: restarts_def)

lemma run_rank:
  "run_events after s es = Some s' \<Longrightarrow>
     length es + plan_rank s \<le> plan_rank s' + restarts es"
proof (induction es arbitrary: s)
  case Nil
  then show ?case by (simp add: restarts_def)
next
  case (Cons e es)
  then obtain u where u: "after s e = Some u" and rest: "run_events after u es = Some s'"
    by (auto split: option.splits)
  show ?case
    using Cons.IH[OF rest] after_rank[OF u] by (simp add: restarts_Cons[of e es])
qed

lemma begin_apply_source:
  "after s EvBeginApply = Some s' \<Longrightarrow> s = Preparing \<or> s = Protected"
  by (drule after_cases) (elim disjE conjE; simp)

lemma prepared_run:
  "run_events after s es = Some s' \<Longrightarrow> s' \<in> {Preparing, Protected} \<Longrightarrow>
     s \<in> {Draft, Resolved, Sealed} \<Longrightarrow> EvBeginPrepare \<in> set es"
proof (induction es arbitrary: s)
  case Nil
  then show ?case by auto
next
  case (Cons e es)
  then obtain u where u: "after s e = Some u" and rest: "run_events after u es = Some s'"
    by (auto split: option.splits)
  from u Cons.prems(3) have "e = EvBeginPrepare \<or> u \<in> {Draft, Resolved, Sealed} \<or> u = Expired"
    by (auto dest!: after_cases)
  moreover have "u \<noteq> Expired"
    using rest Cons.prems(2) by (cases es) (auto simp: after_def)
  ultimately show ?case
    using Cons.IH[OF rest Cons.prems(2)] by auto
qed

section \<open>Properties\<close>

text \<open>
  C26: A plan has begun changing the system exactly when its history holds the event that
  starts the mutating actions.  Over every sequence of events the state machine accepts
  from a draft, \<open>has_mutated\<close> of the state reached holds if and only if
  \<open>BeginApply\<close> occurred, so everything before it is told to the operator as "nothing
  happened" and everything after it as "something may have".
\<close>

theorem plan_mutated_iff_begin_apply:
  assumes "run_events after Draft es = Some s"
  shows "has_mutated s \<longleftrightarrow> EvBeginApply \<in> set es"
proof (rule mutation.run_settled_iff[OF _ _ _ assms])
  show "\<not> has_mutated Draft" by (simp add: has_mutated_def)
qed (simp_all add: after_enters_mutation)

theorem plan_mutated_iff_begin_apply_witness:
  "has_mutated Verifying \<longleftrightarrow>
     EvBeginApply \<in> set [EvSeal, EvBeginPrepare, EvBeginApply, EvBeginVerify]"
  by (rule plan_mutated_iff_begin_apply) (simp add: after_def)

text \<open>
  No mutating action starts on a plan that was not sealed and prepared first.  In
  every accepted history from a draft that ends in \<open>BeginApply\<close>, the plan was sealed
  and preparation was begun before it, and no failed preparation and no expiry is among
  the events before it.
\<close>

theorem plan_apply_needs_seal_and_prepare:
  assumes run: "run_events after Draft (es @ [EvBeginApply]) = Some s"
  shows "EvSeal \<in> set es \<and> EvBeginPrepare \<in> set es \<and>
    (\<forall>ps qs u. es = ps @ qs \<longrightarrow> run_events after Draft ps = Some u \<longrightarrow>
       u \<noteq> PrepareFailed \<and> u \<noteq> Expired)"
proof -
  from run obtain v where v: "run_events after Draft es = Some v"
    and "after v EvBeginApply = Some s"
    by (auto simp: run_events_snoc)
  then have vs: "v \<in> {Preparing, Protected}" using begin_apply_source by blast
  have "\<not> is_sealed Draft" by (simp add: is_sealed_def)
  moreover have "is_sealed v" using vs by (auto simp: is_sealed_def)
  ultimately have "EvSeal \<in> set es"
    using sealing.run_settled_iff[OF _ _ _ v, of EvSeal] after_enters_seal by blast
  moreover have "EvBeginPrepare \<in> set es" using prepared_run[OF v vs] by simp
  moreover have "u \<noteq> PrepareFailed \<and> u \<noteq> Expired"
    if "es = ps @ qs" "run_events after Draft ps = Some u" for ps qs u
  proof -
    from that v have "run_events after u qs = Some v"
      by (simp add: run_events_append)
    then show ?thesis using vs by (cases qs) (auto simp: after_def)
  qed
  ultimately show ?thesis by blast
qed

theorem plan_apply_needs_seal_and_prepare_witness:
  "EvSeal \<in> set [EvResolve, EvSeal, EvBeginPrepare, EvProtected] \<and>
   EvBeginPrepare \<in> set [EvResolve, EvSeal, EvBeginPrepare, EvProtected]"
  using plan_apply_needs_seal_and_prepare
    [of "[EvResolve, EvSeal, EvBeginPrepare, EvProtected]" Applying]
  by (simp add: after_def)

text \<open>
  A plan whose state says its recovery was verified got there through a completed
  recovery followed at once by a passed recovery verification: the history of every
  accepted run from a draft to \<open>RecoveryVerified\<close> ends in \<open>Recovered\<close>,
  \<open>RecoveryVerified\<close>, and a failed recovery verification never claims a recovered
  state.
\<close>

theorem recovery_verified_was_verified:
  assumes "run_events after Draft es = Some RecoveryVerified"
  shows "\<exists>ps. es = ps @ [EvRecovered, EvRecoveryVerified] \<and>
     run_events after Draft ps = Some Recovering"
proof -
  have "es \<noteq> []" using assms by auto
  then obtain fs e where es: "es = fs @ [e]" by (metis rev_exhaust)
  with assms obtain u where u: "run_events after Draft fs = Some u"
    and "after u e = Some RecoveryVerified"
    by (auto simp: run_events_snoc)
  then have ue: "u = Recovered" "e = EvRecoveryVerified" by (auto dest!: after_cases)
  have "fs \<noteq> []" using u ue by auto
  then obtain gs d where fs: "fs = gs @ [d]" by (metis rev_exhaust)
  with u ue obtain v where "run_events after Draft gs = Some v" "after v d = Some Recovered"
    by (auto simp: run_events_snoc)
  moreover from this have "v = Recovering" "d = EvRecovered" by (auto dest!: after_cases)
  ultimately show ?thesis using es fs ue by auto
qed

theorem recovery_verified_was_verified_witness:
  "\<exists>ps. [EvSeal, EvBeginPrepare, EvBeginApply, EvApplyFailed, EvPlanRecovery,
         EvBeginRecovery, EvRecovered, EvRecoveryVerified] =
        ps @ [EvRecovered, EvRecoveryVerified] \<and>
     run_events after Draft ps = Some Recovering"
  by (rule recovery_verified_was_verified) (simp add: after_def)

text \<open>
  Every plan comes to rest.  A history accepted from a draft is at most twelve events
  long, plus two for every time preparation was begun and four for every recovery that
  was planned: only an operator starting an attempt again lengthens it, and no sequence
  of the other events can keep a plan moving.
\<close>

theorem plan_history_bounded:
  assumes "run_events after Draft es = Some s"
  shows "length es \<le>
    12 + 2 * count_list es EvBeginPrepare + 4 * count_list es EvPlanRecovery"
  using run_rank[OF assms] plan_rank_le[of s] by (simp add: restarts_def)

theorem plan_history_bounded_witness:
  "length [EvResolve, EvSeal, EvBeginPrepare, EvProtected, EvBeginPrepare] \<le>
    12 + 2 * count_list [EvResolve, EvSeal, EvBeginPrepare, EvProtected, EvBeginPrepare]
           EvBeginPrepare
       + 4 * count_list [EvResolve, EvSeal, EvBeginPrepare, EvProtected, EvBeginPrepare]
           EvPlanRecovery"
  by (rule plan_history_bounded[of _ Preparing]) (simp add: after_def)

text \<open>
  A recovery plan may be built only where the plan changed something, and the state
  graph has the edge to \<open>RecoveryPlanned\<close> from exactly the recoverable states other
  than \<open>RecoveryPlanned\<close> itself, for which \<open>is_recoverable\<close> also answers yes.
\<close>

theorem plan_recovery_edge:
  "(is_recoverable s \<longrightarrow> has_mutated s) \<and>
   (after s EvPlanRecovery = Some RecoveryPlanned \<longleftrightarrow>
      is_recoverable s \<and> s \<noteq> RecoveryPlanned) \<and>
   (after s EvPlanRecovery = None \<longleftrightarrow> \<not> is_recoverable s \<or> s = RecoveryPlanned)"
  by (cases s) (simp_all add: is_recoverable_def has_mutated_def after_def)

theorem plan_recovery_edge_witness:
  "is_recoverable RecoveryPlanned \<and> after RecoveryPlanned EvPlanRecovery = None \<and>
   has_mutated RecoveryPlanned"
  using plan_recovery_edge[of RecoveryPlanned] by (simp add: is_recoverable_def)

end
