(* ===== verification/Ono_Text.thy ===== *)
theory Ono_Text
  imports Ono_Prelude
begin

text \<open>
  Text as the program sees it: a Rust \<open>str\<close> is a list of Unicode scalar values, here
  code points, and its byte offsets are sums of UTF-8 widths.  The theory models the
  standard-library operations the source uses on it (\<open>trim\<close>, \<open>strip_prefix\<close>,
  \<open>split_once\<close>, \<open>split_whitespace\<close>, integer display and integer parsing) and shows
  that reading back the printed form of a number gives the number.
\<close>

type_synonym ustr = "nat list"

text \<open>An ASCII literal of the source.\<close>

definition asc :: "string \<Rightarrow> ustr" where
  "asc s = map of_char s"

lemma asc_Nil [simp]: "asc [] = []"
  and asc_Cons [simp]: "asc (c # cs) = of_char c # asc cs"
  and asc_append [simp]: "asc (xs @ ys) = asc xs @ asc ys"
  by (simp_all add: asc_def)

text \<open>The Unicode \<open>White_Space\<close> property, as \<open>char::is_whitespace\<close> decides it.\<close>

definition is_whitespace :: "nat \<Rightarrow> bool" where
  "is_whitespace c \<longleftrightarrow>
     (9 \<le> c \<and> c \<le> 13) \<or> c = 32 \<or> c = 0x85 \<or> c = 0xA0 \<or> c = 0x1680 \<or>
     (0x2000 \<le> c \<and> c \<le> 0x200A) \<or> c = 0x2028 \<or> c = 0x2029 \<or> c = 0x202F \<or>
     c = 0x205F \<or> c = 0x3000"

definition trim :: "ustr \<Rightarrow> ustr" where
  "trim s = rev (dropWhile is_whitespace (rev (dropWhile is_whitespace s)))"

definition strip_prefix :: "ustr \<Rightarrow> ustr \<Rightarrow> ustr option" where
  "strip_prefix p s =
     (if take (length p) s = p then Some (drop (length p) s) else None)"

fun split_once :: "nat \<Rightarrow> ustr \<Rightarrow> (ustr \<times> ustr) option" where
  "split_once c [] = None"
| "split_once c (x # xs) =
     (if x = c then Some ([], xs)
      else map_option (\<lambda>(a, b). (x # a, b)) (split_once c xs))"

function split_whitespace :: "ustr \<Rightarrow> ustr list" where
  "split_whitespace s =
     (let s' = dropWhile is_whitespace s
      in if s' = [] then []
         else takeWhile (\<lambda>c. \<not> is_whitespace c) s' #
              split_whitespace (dropWhile (\<lambda>c. \<not> is_whitespace c) s'))"
  by pat_completeness auto
termination
proof (relation "measure length", goal_cases)
  case 1
  then show ?case by simp
next
  case (2 s s')
  obtain x xs where s': "s' = x # xs" using 2(2) by (meson neq_Nil_conv)
  then have "\<not> is_whitespace x" using 2(1) by (metis hd_dropWhile list.discI list.sel(1))
  have "length (dropWhile (\<lambda>c. \<not> is_whitespace c) s') \<le> length xs"
    using s' \<open>\<not> is_whitespace x\<close> by (simp add: length_dropWhile_le)
  also have "\<dots> < length s" using s' 2(1) length_dropWhile_le[of is_whitespace s] by simp
  finally show ?case by simp
qed

declare split_whitespace.simps [simp del]

lemma strip_prefix_append [simp]: "strip_prefix p (p @ s) = Some s"
  by (simp add: strip_prefix_def)

lemma strip_prefix_Some: "strip_prefix p s = Some r \<longleftrightarrow> s = p @ r"
  unfolding strip_prefix_def by (metis append_eq_conv_conj append_take_drop_id option.inject option.discI)

lemma strip_prefix_single:
  "strip_prefix [p] s = (case s of [] \<Rightarrow> None | c # r \<Rightarrow> if c = p then Some r else None)"
  by (auto simp: strip_prefix_def split: list.splits)

lemma split_once_append: "c \<notin> set xs \<Longrightarrow> split_once c (xs @ c # ys) = Some (xs, ys)"
  by (induction xs) auto

lemma split_once_None: "split_once c xs = None \<longleftrightarrow> c \<notin> set xs"
  by (induction xs) auto

lemma split_once_Some:
  "split_once c s = Some (a, b) \<longleftrightarrow> s = a @ c # b \<and> c \<notin> set a"
  by (induction s arbitrary: a b) (auto simp: Cons_eq_append_conv)

lemma trim_no_space:
  assumes "\<forall>c \<in> set s. \<not> is_whitespace c"
  shows "trim s = s"
proof -
  have keep: "dropWhile is_whitespace t = t" if "set t \<subseteq> set s" for t
    using that assms by (cases t) auto
  show ?thesis by (simp add: trim_def keep)
qed

section \<open>Decimal digits\<close>

definition is_ascii_digit :: "nat \<Rightarrow> bool" where
  "is_ascii_digit c \<longleftrightarrow> 48 \<le> c \<and> c \<le> 57"

text \<open>Integer display: the digits of the number, most significant first.\<close>

fun show_nat :: "nat \<Rightarrow> ustr" where
  "show_nat n = (if n < 10 then [48 + n] else show_nat (n div 10) @ [48 + n mod 10])"

declare show_nat.simps [simp del]

definition digits_value :: "ustr \<Rightarrow> nat" where
  "digits_value s = foldl (\<lambda>a c. a * 10 + (c - 48)) 0 s"

lemma digits_value_Nil [simp]: "digits_value [] = 0"
  and digits_value_snoc [simp]: "digits_value (s @ [c]) = digits_value s * 10 + (c - 48)"
  by (simp_all add: digits_value_def)

lemma digits_value_append:
  "digits_value (s @ t) = digits_value s * 10 ^ length t + digits_value t"
proof (induction t rule: rev_induct)
  case Nil
  then show ?case by simp
next
  case (snoc c t)
  have "digits_value (s @ t @ [c]) = digits_value (s @ t) * 10 + (c - 48)"
    by (metis append_assoc digits_value_snoc)
  then show ?case using snoc by (simp add: algebra_simps)
qed

lemma digits_value_Cons:
  "int (digits_value (c # cs)) = int (c - 48) * 10 ^ length cs + int (digits_value cs)"
  using digits_value_append[of "[c]" cs] by (simp add: digits_value_def)

lemma is_ascii_digit_48 [simp]: "is_ascii_digit 48"
  by (simp add: is_ascii_digit_def)

lemma digits_value_zeros [simp]: "digits_value (replicate k 48) = 0"
  by (induction k) (simp_all add: replicate_append_same[symmetric] del: replicate_append_same)

lemma digits_value_zeros_append [simp]:
  "digits_value (replicate k 48 @ s) = digits_value s"
  by (simp add: digits_value_append)

lemma show_nat_value [simp]: "digits_value (show_nat n) = n"
proof (induction n rule: show_nat.induct)
  case (1 n)
  show ?case
  proof (cases "n < 10")
    case True
    then show ?thesis by (subst show_nat.simps) (simp add: digits_value_def)
  next
    case False
    then show ?thesis using 1 by (subst show_nat.simps) simp
  qed
qed

lemma show_nat_digits: "c \<in> set (show_nat n) \<Longrightarrow> is_ascii_digit c"
proof (induction n rule: show_nat.induct)
  case (1 n)
  show ?case
  proof (cases "n < 10")
    case True
    then show ?thesis using "1.prems" by (simp add: show_nat.simps[of n] is_ascii_digit_def)
  next
    case False
    moreover have "n mod 10 < 10" by simp
    ultimately show ?thesis
      using 1 by (auto simp: show_nat.simps[of n] is_ascii_digit_def)
  qed
qed

lemma show_nat_nonempty [simp]: "show_nat n \<noteq> []"
  by (subst show_nat.simps) simp

lemma show_nat_inj: "show_nat m = show_nat n \<longleftrightarrow> m = n"
  by (metis show_nat_value)

lemma digit_not_space: "is_ascii_digit c \<Longrightarrow> \<not> is_whitespace c"
  by (auto simp: is_ascii_digit_def is_whitespace_def)

lemma show_nat_free: "\<not> is_ascii_digit c \<Longrightarrow> c \<notin> set (show_nat n)"
  using show_nat_digits by blast

section \<open>Reading an unsigned integer\<close>

text \<open>
  \<open>str::parse::<u32>\<close>: an optional plus sign, then at least one digit and nothing else,
  with the value below the ceiling of the type.
\<close>

definition parse_u32 :: "ustr \<Rightarrow> nat option" where
  "parse_u32 s =
     (let d = (case s of c # r \<Rightarrow> if c = 43 then r else s | [] \<Rightarrow> s)
      in if d \<noteq> [] \<and> (\<forall>c \<in> set d. is_ascii_digit c) \<and> digits_value d < 2 ^ 32
         then Some (digits_value d) else None)"

lemma parse_show_u32 [simp]: "n < 2 ^ 32 \<Longrightarrow> parse_u32 (show_nat n) = Some n"
proof -
  assume n: "n < 2 ^ 32"
  obtain c r where cr: "show_nat n = c # r" by (cases "show_nat n") auto
  then have "is_ascii_digit c" using show_nat_digits[of c n] by simp
  then have "c \<noteq> 43" by (simp add: is_ascii_digit_def)
  then have "(case show_nat n of c # r \<Rightarrow> if c = 43 then r else show_nat n | [] \<Rightarrow> show_nat n)
      = show_nat n"
    using cr by simp
  then show ?thesis using n by (simp add: parse_u32_def Let_def show_nat_digits)
qed

section \<open>Byte offsets\<close>

definition len_utf8 :: "nat \<Rightarrow> nat" where
  "len_utf8 c = (if c < 0x80 then 1 else if c < 0x800 then 2 else if c < 0x10000 then 3 else 4)"

definition blen :: "ustr \<Rightarrow> nat" where
  "blen s = sum_list (map len_utf8 s)"

text \<open>\<open>str::split_at_checked\<close>: the text on both sides of a boundary.\<close>

fun split_at :: "nat \<Rightarrow> ustr \<Rightarrow> (ustr \<times> ustr) option" where
  "split_at off [] = (if off = 0 then Some ([], []) else None)"
| "split_at off (c # s) =
     (if off = 0 then Some ([], c # s)
      else if off < len_utf8 c then None
      else map_option (\<lambda>(a, b). (c # a, b)) (split_at (off - len_utf8 c) s))"

definition is_char_boundary :: "ustr \<Rightarrow> nat \<Rightarrow> bool" where
  "is_char_boundary s off \<longleftrightarrow> split_at off s \<noteq> None"

text \<open>\<open>str::get\<close> of a byte range: \<open>None\<close> out of range or off a boundary.\<close>

definition str_slice :: "nat \<Rightarrow> nat \<Rightarrow> ustr \<Rightarrow> ustr option" where
  "str_slice i j s =
     (if i > j then None
      else case split_at j s of
             None \<Rightarrow> None
           | Some (a, b) \<Rightarrow> (case split_at i a of None \<Rightarrow> None | Some (p, q) \<Rightarrow> Some q))"

lemma len_utf8_pos [simp]: "0 < len_utf8 c" "len_utf8 c \<noteq> 0"
  by (simp_all add: len_utf8_def)

lemma blen_simps [simp]:
  "blen [] = 0" "blen (c # s) = len_utf8 c + blen s" "blen (a @ b) = blen a + blen b"
  by (simp_all add: blen_def)

lemma blen_0 [simp]: "blen s = 0 \<longleftrightarrow> s = []"
  by (cases s) simp_all

lemma split_at_Some: "split_at off s = Some (a, b) \<longleftrightarrow> s = a @ b \<and> off = blen a"
proof (induction off s arbitrary: a b rule: split_at.induct)
  case (1 off)
  then show ?case by auto
next
  case (2 off c s)
  show ?case
  proof (cases "off = 0 \<or> off < len_utf8 c")
    case True
    then show ?thesis by (cases a) auto
  next
    case False
    then show ?thesis using 2 by (cases a) (auto simp: not_less)
  qed
qed

lemma boundary_iff: "is_char_boundary s off \<longleftrightarrow> (\<exists>a b. s = a @ b \<and> off = blen a)"
  unfolding is_char_boundary_def using split_at_Some by (metis not_Some_eq surj_pair)

lemma boundary_0 [simp]: "is_char_boundary s 0"
  unfolding boundary_iff by (metis append_Nil blen_simps(1))

lemma boundary_end [simp]: "is_char_boundary s (blen s)"
  unfolding boundary_iff by (metis append_Nil2)

lemma boundary_append [simp]: "is_char_boundary (a @ b) (blen a)"
  unfolding boundary_iff by blast

lemma boundary_le: "is_char_boundary s off \<Longrightarrow> off \<le> blen s"
  by (auto simp: boundary_iff)

text \<open>\<open>str::as_bytes\<close>: the UTF-8 form of a code point and of a text.\<close>

definition utf8_char :: "nat \<Rightarrow> bytes" where
  "utf8_char c =
     (if c < 0x80 then [of_nat c]
      else if c < 0x800 then [of_nat (0xC0 + c div 64), of_nat (0x80 + c mod 64)]
      else if c < 0x10000 then
        [of_nat (0xE0 + c div 4096), of_nat (0x80 + c div 64 mod 64), of_nat (0x80 + c mod 64)]
      else
        [of_nat (0xF0 + c div 262144), of_nat (0x80 + c div 4096 mod 64),
         of_nat (0x80 + c div 64 mod 64), of_nat (0x80 + c mod 64)])"

definition utf8 :: "ustr \<Rightarrow> bytes" where
  "utf8 s = concat (map utf8_char s)"

lemma utf8_length: "length (utf8 s) = blen s"
  by (induction s) (simp_all add: utf8_def utf8_char_def len_utf8_def)

section \<open>Lines and separated lists\<close>

text \<open>\<open>str::split\<close> at a character, and \<open>join\<close>.\<close>

fun split_on :: "nat \<Rightarrow> ustr \<Rightarrow> ustr list" where
  "split_on c [] = [[]]"
| "split_on c (x # xs) =
     (if x = c then [] # split_on c xs
      else (case split_on c xs of [] \<Rightarrow> [[x]] | y # ys \<Rightarrow> (x # y) # ys))"

fun join_with :: "nat \<Rightarrow> ustr list \<Rightarrow> ustr" where
  "join_with c [] = []"
| "join_with c [w] = w"
| "join_with c (w # w' # ws) = w @ c # join_with c (w' # ws)"

definition strip_cr :: "ustr \<Rightarrow> ustr" where
  "strip_cr l = (if l \<noteq> [] \<and> last l = 13 then butlast l else l)"

text \<open>\<open>str::lines\<close>: a final piece with no newline behind it is a line only when it holds something.\<close>

definition str_lines :: "ustr \<Rightarrow> ustr list" where
  "str_lines s =
     (let ps = split_on 10 s
      in map strip_cr (butlast ps) @ (if last ps = [] then [] else [last ps]))"

lemma split_on_ne [simp]: "split_on c s \<noteq> []"
  by (induction s) (auto split: list.splits)

lemma split_on_free: "c \<notin> set w \<Longrightarrow> split_on c w = [w]"
  by (induction w) auto

lemma split_on_sep: "c \<notin> set w \<Longrightarrow> split_on c (w @ c # s) = w # split_on c s"
  by (induction w) auto

lemma split_on_join:
  "ws \<noteq> [] \<Longrightarrow> \<forall>w \<in> set ws. c \<notin> set w \<Longrightarrow> split_on c (join_with c ws) = ws"
  by (induction c ws rule: join_with.induct) (auto simp: split_on_free split_on_sep)

lemma str_lines_Nil [simp]: "str_lines [] = []"
  by (simp add: str_lines_def)

lemma str_lines_line:
  "10 \<notin> set l \<Longrightarrow> str_lines (l @ 10 # s) = strip_cr l # str_lines s"
  by (simp add: str_lines_def split_on_sep Let_def)

lemma str_lines_concat:
  "\<forall>l \<in> set ls. 10 \<notin> set l \<Longrightarrow>
     str_lines (concat (map (\<lambda>l. l @ [10]) ls) @ s) = map strip_cr ls @ str_lines s"
  by (induction ls) (auto simp: str_lines_line)

lemma strip_cr_id: "l = [] \<or> last l \<noteq> 13 \<Longrightarrow> strip_cr l = l"
  by (auto simp: strip_cr_def)

section \<open>Words\<close>

definition no_space :: "ustr \<Rightarrow> bool" where
  "no_space w \<longleftrightarrow> list_all (\<lambda>c. \<not> is_whitespace c) w"

lemma no_space_simps [simp]:
  "no_space []" "no_space (c # w) \<longleftrightarrow> \<not> is_whitespace c \<and> no_space w"
  "no_space (v @ w) \<longleftrightarrow> no_space v \<and> no_space w"
  by (simp_all add: no_space_def)

lemma is_whitespace_controls [simp]:
  "is_whitespace 10" "is_whitespace 13" "is_whitespace 32"
  by (simp_all add: is_whitespace_def)

lemma no_space_newline: "no_space w \<Longrightarrow> 10 \<notin> set w" "no_space w \<Longrightarrow> 13 \<notin> set w"
  by (induction w) auto

lemma split_whitespace_Nil [simp]: "split_whitespace [] = []"
  by (subst split_whitespace.simps) simp

lemma split_whitespace_blank: "is_whitespace c \<Longrightarrow> split_whitespace (c # s) = split_whitespace s"
  unfolding split_whitespace.simps[of "c # s"] split_whitespace.simps[of s] by simp

lemma split_whitespace_space [simp]: "split_whitespace (32 # s) = split_whitespace s"
  by (rule split_whitespace_blank) (simp add: is_whitespace_def)

lemma split_whitespace_word:
  assumes "no_space w" and "w \<noteq> []" and "s = [] \<or> is_whitespace (hd s)"
  shows "split_whitespace (w @ s) = w # split_whitespace s"
proof -
  have w: "\<forall>c \<in> set w. \<not> is_whitespace c" using assms(1) by (simp add: no_space_def list_all_iff)
  have "dropWhile is_whitespace (w @ s) = w @ s" using w assms(2) by (cases w) auto
  moreover have "takeWhile (\<lambda>c. \<not> is_whitespace c) (w @ s) = w"
    and "dropWhile (\<lambda>c. \<not> is_whitespace c) (w @ s) = s"
    using w assms(3) by (cases s; auto simp: takeWhile_append dropWhile_append)+
  ultimately show ?thesis using assms(2) by (subst split_whitespace.simps) (simp add: Let_def)
qed

lemma split_whitespace_join_sep:
  assumes "is_whitespace c" and "\<forall>w \<in> set ws. no_space w \<and> w \<noteq> []"
  shows "split_whitespace (join_with c ws) = ws"
  using assms
proof (induction c ws rule: join_with.induct)
  case (1 c)
  then show ?case by simp
next
  case (2 c w)
  then show ?case using split_whitespace_word[of w "[]"] by simp
next
  case (3 c w w' ws)
  have "split_whitespace (w @ c # join_with c (w' # ws))
      = w # split_whitespace (c # join_with c (w' # ws))"
    by (rule split_whitespace_word) (use 3 in auto)
  then show ?case using 3 by (simp add: split_whitespace_blank)
qed

lemma split_whitespace_join:
  "\<forall>w \<in> set ws. no_space w \<and> w \<noteq> [] \<Longrightarrow> split_whitespace (join_with 32 ws) = ws"
  by (rule split_whitespace_join_sep) (simp_all add: is_whitespace_def)

lemma trim_ends:
  "s = [] \<or> (\<not> is_whitespace (hd s) \<and> \<not> is_whitespace (last s)) \<Longrightarrow> trim s = s"
proof -
  assume s: "s = [] \<or> (\<not> is_whitespace (hd s) \<and> \<not> is_whitespace (last s))"
  have "dropWhile is_whitespace s = s" using s by (cases s) auto
  moreover have "dropWhile is_whitespace (rev s) = rev s"
    using s by (cases s rule: rev_cases) auto
  ultimately show ?thesis by (simp add: trim_def)
qed

lemma no_space_ends:
  "no_space w \<Longrightarrow> w \<noteq> [] \<Longrightarrow> \<not> is_whitespace (hd w)"
  "no_space w \<Longrightarrow> w \<noteq> [] \<Longrightarrow> \<not> is_whitespace (last w)"
  by (auto simp: no_space_def list_all_iff)

lemma join_ends:
  assumes "ws \<noteq> []" and "\<forall>w \<in> set ws. w \<noteq> []"
  shows "hd (join_with c ws) = hd (hd ws)" and "last (join_with c ws) = last (last ws)"
    and "join_with c ws \<noteq> []"
  using assms by (induction c ws rule: join_with.induct) auto

lemma join_set: "set (join_with c ws) \<subseteq> insert c (\<Union>w \<in> set ws. set w)"
  by (induction c ws rule: join_with.induct) auto

lemma split_whitespace_words: "w \<in> set (split_whitespace s) \<Longrightarrow> no_space w \<and> w \<noteq> []"
proof (induction s rule: split_whitespace.induct)
  case (1 s)
  let ?s = "dropWhile is_whitespace s"
  show ?case
  proof (cases "?s = []")
    case True
    then show ?thesis using "1.prems" by (subst (asm) split_whitespace.simps) simp
  next
    case False
    then have "\<not> is_whitespace (hd ?s)" by (rule hd_dropWhile)
    then have first: "takeWhile (\<lambda>c. \<not> is_whitespace c) ?s \<noteq> []" using False by (cases ?s) auto
    have "no_space (takeWhile (\<lambda>c. \<not> is_whitespace c) ?s)"
      by (auto simp: no_space_def list_all_iff dest: set_takeWhileD)
    moreover have "w = takeWhile (\<lambda>c. \<not> is_whitespace c) ?s \<or>
        w \<in> set (split_whitespace (dropWhile (\<lambda>c. \<not> is_whitespace c) ?s))"
      using "1.prems" False by (subst (asm) split_whitespace.simps)
        (auto simp: Let_def split: if_splits)
    ultimately show ?thesis using first "1.IH"[OF refl False] by auto
  qed
qed

lemma trim_keeps_head:
  assumes "l \<noteq> []" and "\<not> is_whitespace (hd l)"
  shows "trim l \<noteq> [] \<and> hd (trim l) = hd l"
proof -
  obtain c r where l: "l = c # r" using assms(1) by (cases l) auto
  have "dropWhile is_whitespace (rev r @ [c]) = dropWhile is_whitespace (rev r) @ [c]"
    using assms(2) l by (simp add: dropWhile_append)
  then show ?thesis using assms(2) l by (simp add: trim_def)
qed

text \<open>A line of words with one blank between them is read back as those words.\<close>

lemma word_line_sep:
  assumes "ws \<noteq> []" and "\<forall>w \<in> set ws. no_space w \<and> w \<noteq> []" and "c \<noteq> 10"
  shows "10 \<notin> set (join_with c ws)" and "strip_cr (join_with c ws) = join_with c ws"
    and "trim (join_with c ws) = join_with c ws" and "join_with c ws \<noteq> []"
    and "hd (join_with c ws) = hd (hd ws)"
proof -
  note ends = join_ends[OF assms(1), of c]
  have hd_ok: "\<not> is_whitespace (hd (join_with c ws))"
    using ends assms no_space_ends(1)[of "hd ws"] by (simp add: hd_in_set)
  have last_ok: "\<not> is_whitespace (last (join_with c ws))"
    using ends assms no_space_ends(2)[of "last ws"] by simp
  show "trim (join_with c ws) = join_with c ws" using hd_ok last_ok by (simp add: trim_ends)
  show "strip_cr (join_with c ws) = join_with c ws"
    using last_ok by (intro strip_cr_id) (auto simp: is_whitespace_def)
  show "10 \<notin> set (join_with c ws)"
  proof
    assume "10 \<in> set (join_with c ws)"
    then obtain w where "w \<in> set ws" "10 \<in> set w" using join_set[of c ws] assms(3) by auto
    then show False using assms(2) no_space_newline(1) by blast
  qed
  show "join_with c ws \<noteq> []" "hd (join_with c ws) = hd (hd ws)" using ends assms by auto
qed

lemmas word_line = word_line_sep[where c = 32, simplified]

lemma split_on_pieces: "w \<in> set (split_on c s) \<Longrightarrow> c \<notin> set w"
  by (induction s arbitrary: w) (auto split: if_splits list.splits)

lemma str_lines_pieces: "l \<in> set (str_lines s) \<Longrightarrow> 10 \<notin> set l"
proof -
  assume "l \<in> set (str_lines s)"
  then have "l \<in> strip_cr ` set (split_on 10 s) \<union> set (split_on 10 s)"
    by (auto simp: str_lines_def Let_def dest: in_set_butlastD split: if_splits)
  then show ?thesis
    using split_on_pieces[of _ 10 s] by (auto simp: strip_cr_def dest: in_set_butlastD split: if_splits)
qed

lemma split_on_append:
  "split_on c (a @ c # b) = split_on c a @ split_on c b"
proof (induction a)
  case (Cons x a)
  show ?case
  proof (cases "split_on c a")
    case Nil
    then show ?thesis by simp
  next
    case (Cons y ys)
    then show ?thesis using Cons.IH Cons_eq_appendI by simp
  qed
qed simp

text \<open>What is appended behind a final newline is lines of its own.\<close>

lemma str_lines_append:
  assumes "s = [] \<or> last s = 10"
  shows "str_lines (s @ r) = str_lines s @ str_lines r"
proof (cases s rule: rev_cases)
  case Nil
  then show ?thesis by simp
next
  case (snoc a x)
  then have s: "s = a @ [10]" using assms by simp
  have "split_on 10 (s @ r) = split_on 10 a @ split_on 10 r" using s split_on_append[of 10 a r] by simp
  moreover have "split_on 10 s = split_on 10 a @ [[]]" using s split_on_append[of 10 a "[]"] by simp
  ultimately show ?thesis by (simp add: str_lines_def butlast_append Let_def)
qed

lemma str_lines_single:
  "10 \<notin> set l \<Longrightarrow> str_lines (l @ [10]) = [strip_cr l]"
  using str_lines_line[of l "[]"] by simp

lemma str_lines_joined:
  assumes "ls \<noteq> []" and "\<forall>l \<in> set ls. 10 \<notin> set l"
  shows "str_lines (join_with 10 ls @ [10]) = map strip_cr ls"
proof -
  have "join_with 10 ls @ [10] = concat (map (\<lambda>l. l @ [10]) ls)"
    using assms(1) by (induction "10::nat" ls rule: join_with.induct) auto
  then show ?thesis using str_lines_concat[OF assms(2), of "[]"] by simp
qed

lemma trim_strip_cr: "trim (strip_cr l) = trim l"
proof (cases l rule: rev_cases)
  case (snoc a x)
  show ?thesis
  proof (cases "x = 13")
    case True
    have "trim (a @ [x]) = trim a" if "is_whitespace x" for a
    proof (cases "dropWhile is_whitespace a = []")
      case True
      then show ?thesis using that by (auto simp: trim_def dropWhile_append dest: set_dropWhileD)
    next
      case False
      then show ?thesis using that by (auto simp: trim_def dropWhile_append)
    qed
    then show ?thesis using snoc True by (simp add: strip_cr_def is_whitespace_def)
  next
    case False
    then show ?thesis using snoc by (simp add: strip_cr_def)
  qed
qed (simp add: strip_cr_def)

end
