(* ===== verification/Plan_Action.thy ===== *)
theory Plan_Action
  imports Plan_State Ono_Text "HOL-Library.Product_Lexorder"
begin

text \<open>
  Plan actions (\<open>crates/ono-change-core/src/action.rs\<close>): roles, idempotency classes,
  action statuses, the resume rule of one action, and the dependency ordering the
  executor runs a plan in.  \<open>topological_order\<close> is Kahn's algorithm over index arrays;
  its counters are kept exactly, so an underflow of the source's \<open>-= 1\<close> is the panic
  value \<open>None\<close>, and the theory shows that it never happens.  The verdict a plan's
  verification composes to (\<open>verification.rs\<close>) is here too.
\<close>

section \<open>Vocabularies\<close>

datatype ActionRole = Prepare | Mutate | Verify | Recover | Cleanup

definition mutates_target :: "ActionRole \<Rightarrow> bool" where
  "mutates_target r \<longleftrightarrow> r \<in> {Mutate, Recover}"

definition is_preparation :: "ActionRole \<Rightarrow> bool" where
  "is_preparation r \<longleftrightarrow> r \<in> {Prepare}"

fun role_rank :: "ActionRole \<Rightarrow> nat" where
  "role_rank Prepare = 0"
| "role_rank Mutate = 1"
| "role_rank Verify = 2"
| "role_rank Recover = 3"
| "role_rank Cleanup = 4"

datatype Idempotency = Idempotent | RetrySafeWithToken | NonIdempotent | IdemUnknown

definition permits_blind_retry :: "Idempotency \<Rightarrow> bool" where
  "permits_blind_retry i \<longleftrightarrow> i \<in> {Idempotent}"

definition permits_token_retry :: "Idempotency \<Rightarrow> bool" where
  "permits_token_retry i \<longleftrightarrow> i \<in> {Idempotent, RetrySafeWithToken}"

datatype ActionStatus =
  ActPending | ActRunning | ActSucceeded | ActFailed | ActSkipped | ActUnknown

definition may_have_mutated :: "ActionStatus \<Rightarrow> bool" where
  "may_have_mutated s \<longleftrightarrow> s \<in> {ActRunning, ActSucceeded, ActFailed, ActUnknown}"

definition is_settled :: "ActionStatus \<Rightarrow> bool" where
  "is_settled s \<longleftrightarrow> s \<in> {ActSucceeded, ActFailed, ActSkipped, ActUnknown}"

section \<open>Actions\<close>

text \<open>
  The execution, the preconditions and the effects of an action are opaque here: the
  operations of this theory and of the executor theories only carry them.
\<close>

record ('ex, 'pre, 'eff) PlanAction =
  act_id :: ustr
  ordinal :: nat
  role :: ActionRole
  summary :: ustr
  target :: "ustr option"
  execution :: 'ex
  depends_on :: "ustr list"
  preconditions :: "'pre list"
  idempotency :: Idempotency
  effects :: "'eff list"
  recovery_semantics :: "ustr option"
  requires_privilege :: bool
  act_status :: ActionStatus

fun may_resume :: "('ex, 'pre, 'eff) PlanAction \<Rightarrow> bool" where
  "may_resume a =
     (case act_status a of
        ActPending \<Rightarrow> True
      | ActSkipped \<Rightarrow> True
      | ActRunning \<Rightarrow> permits_blind_retry (idempotency a)
      | ActUnknown \<Rightarrow> permits_blind_retry (idempotency a)
      | ActFailed \<Rightarrow> permits_token_retry (idempotency a)
      | ActSucceeded \<Rightarrow> False)"

section \<open>Ordering by dependencies\<close>

fun position :: "('a \<Rightarrow> bool) \<Rightarrow> 'a list \<Rightarrow> nat option" where
  "position P [] = None"
| "position P (x # xs) = (if P x then Some 0 else map_option Suc (position P xs))"

text \<open>The source of a dependency: the first action that carries the identity.\<close>

definition dep_source :: "('ex, 'pre, 'eff) PlanAction list \<Rightarrow> ustr \<Rightarrow> nat option" where
  "dep_source actions d = position (\<lambda>candidate. act_id candidate = d) actions"

fun add_dependencies ::
    "('ex, 'pre, 'eff) PlanAction list \<Rightarrow> nat \<Rightarrow> ustr list \<Rightarrow>
     nat list \<times> nat list list \<Rightarrow> nat list \<times> nat list list" where
  "add_dependencies actions i [] acc = acc"
| "add_dependencies actions i (d # ds) (indegree, edges) =
     (case dep_source actions d of
        None \<Rightarrow> add_dependencies actions i ds (indegree, edges)
      | Some s \<Rightarrow> add_dependencies actions i ds
                   (indegree[i := indegree ! i + 1], edges[s := edges ! s @ [i]]))"

definition dependency_graph ::
    "('ex, 'pre, 'eff) PlanAction list \<Rightarrow> nat list \<times> nat list list" where
  "dependency_graph actions =
     fold (\<lambda>i acc. add_dependencies actions i (depends_on (actions ! i)) acc)
       [0..<length actions] (replicate (length actions) 0, replicate (length actions) [])"

text \<open>
  One popped action releases its dependents; \<open>None\<close> is the panic of a counter that would
  fall below zero or of an index out of range.
\<close>

fun release :: "nat list \<Rightarrow> nat list \<Rightarrow> nat list \<Rightarrow> (nat list \<times> nat list) option" where
  "release [] indegree ready = Some (indegree, ready)"
| "release (t # ts) indegree ready =
     (if t \<ge> length indegree \<or> indegree ! t = 0 then None
      else let indegree' = indegree[t := indegree ! t - 1]
           in release ts indegree' (if indegree' ! t = 0 then ready @ [t] else ready))"

lemma sum_list_dec:
  "t < length xs \<Longrightarrow> xs ! t \<noteq> 0 \<Longrightarrow> Suc (sum_list (xs[t := xs ! t - 1])) = sum_list (xs :: nat list)"
  by (induction xs arbitrary: t) (auto split: nat.splits)

lemma release_measure:
  "release ts ind r = Some (ind', r') \<Longrightarrow>
     sum_list ind' + length r' \<le> sum_list ind + length r"
proof (induction ts arbitrary: ind r)
  case (Cons t ts)
  let ?i = "ind[t := ind ! t - 1]"
  from Cons.prems have t: "t < length ind" "ind ! t \<noteq> 0"
    and "release ts ?i (if ?i ! t = 0 then r @ [t] else r) = Some (ind', r')"
    by (auto simp: Let_def not_le split: if_splits)
  from Cons.IH[OF this(3)] sum_list_dec[OF t] show ?case by (auto split: if_splits)
qed simp

function kahn ::
    "nat list list \<Rightarrow> (nat \<Rightarrow> nat \<times> nat) \<Rightarrow> nat list \<Rightarrow> nat list \<Rightarrow> nat list \<Rightarrow> nat list option" where
  "kahn edges key [] indegree order = Some order"
| "kahn edges key (next # ready) indegree order =
     (if next \<ge> length edges then None
      else case release (edges ! next) indegree ready of
             None \<Rightarrow> None
           | Some (indegree', ready') \<Rightarrow>
               kahn edges key (sort_key key ready') indegree' (order @ [next]))"
  by pat_completeness auto
termination
  by (relation "measure (\<lambda>(edges, key, ready, ind, order). sum_list ind + length ready)")
    (auto dest: release_measure)

definition action_key :: "('ex, 'pre, 'eff) PlanAction list \<Rightarrow> nat \<Rightarrow> nat \<times> nat" where
  "action_key actions i = (role_rank (role (actions ! i)), ordinal (actions ! i))"

text \<open>\<open>None\<close> is a panic; \<open>Inl\<close> names the actions that could not be ordered.\<close>

definition topological_order ::
    "('ex, 'pre, 'eff) PlanAction list \<Rightarrow> (ustr list + nat list) option" where
  "topological_order actions =
     (let (indegree, edges) = dependency_graph actions;
          ready = sort_key (action_key actions)
                    (filter (\<lambda>i. indegree ! i = 0) [0..<length actions])
      in case kahn edges (action_key actions) ready indegree [] of
           None \<Rightarrow> None
         | Some order \<Rightarrow>
             Some (if length order = length actions then Inr order
                   else Inl (map (\<lambda>i. act_id (actions ! i))
                          (filter (\<lambda>i. i \<notin> set order) [0..<length actions]))))"

section \<open>Verdicts\<close>

datatype VerificationClass = Required | Advisory | Observational
datatype VerificationStatus = CheckPassed | CheckFailed | CheckUnknown | CheckSkipped
datatype Verdict = VVerified | VDegraded | VFailed

fun worse_of :: "Verdict \<Rightarrow> Verdict \<Rightarrow> Verdict" where
  "worse_of VFailed _ = VFailed"
| "worse_of _ VFailed = VFailed"
| "worse_of VDegraded _ = VDegraded"
| "worse_of _ VDegraded = VDegraded"
| "worse_of VVerified VVerified = VVerified"

fun verdict_event :: "Verdict \<Rightarrow> LifecycleEvent" where
  "verdict_event VVerified = EvVerified"
| "verdict_event VDegraded = EvDegraded"
| "verdict_event VFailed = EvVerificationFailed"

fun contribution :: "VerificationClass \<Rightarrow> VerificationStatus \<Rightarrow> Verdict" where
  "contribution _ CheckPassed = VVerified"
| "contribution _ CheckSkipped = VVerified"
| "contribution Required CheckFailed = VFailed"
| "contribution Required CheckUnknown = VDegraded"
| "contribution Advisory CheckFailed = VDegraded"
| "contribution Advisory CheckUnknown = VDegraded"
| "contribution Observational _ = VVerified"

definition verdict :: "(VerificationClass \<times> VerificationStatus) list \<Rightarrow> Verdict" where
  "verdict results = foldl (\<lambda>v (c, s). worse_of v (contribution c s)) VVerified results"

section \<open>The dependency graph is built exactly\<close>

definition dep_rel :: "('ex, 'pre, 'eff) PlanAction list \<Rightarrow> (nat \<times> nat) set" where
  "dep_rel actions =
     {(s, i). i < length actions \<and>
        (\<exists>d \<in> set (depends_on (actions ! i)). dep_source actions d = Some s)}"

text \<open>
  The counters agree with the edge lists, and the edge lists hold exactly the pairs of
  \<open>R\<close>.
\<close>

definition graph_ok :: "nat \<Rightarrow> (nat \<times> nat) set \<Rightarrow> nat list \<times> nat list list \<Rightarrow> bool" where
  "graph_ok n R g \<longleftrightarrow>
     length (fst g) = n \<and> length (snd g) = n \<and>
     (\<forall>i < n. fst g ! i = (\<Sum>s < n. count_list (snd g ! s) i)) \<and>
     (\<forall>s < n. \<forall>i. i \<in> set (snd g ! s) \<longleftrightarrow> (s, i) \<in> R)"

lemma position_bound: "position P xs = Some k \<Longrightarrow> k < length xs"
  by (induction xs arbitrary: k) (auto split: if_splits)

lemma dep_source_bound: "dep_source actions d = Some s \<Longrightarrow> s < length actions"
  by (simp add: dep_source_def position_bound)

lemma count_list_snoc: "count_list (xs @ [y]) x = count_list xs x + (if x = y then 1 else 0)"
  by simp

lemma graph_ok_add_edge:
  assumes g: "graph_ok n R (ind, ed)" and "i < n" "s < n"
  shows "graph_ok n (insert (s, i) R) (ind[i := ind ! i + 1], ed[s := ed ! s @ [i]])"
proof -
  note g' = g[unfolded graph_ok_def fst_conv snd_conv]
  have len: "length ind = n" "length ed = n" using g' by blast+
  have cnt: "count_list (ed[s := ed ! s @ [i]] ! u) j =
      count_list (ed ! u) j + (if u = s then (if j = i then 1 else 0) else 0)"
    if "u < n" for u j
    using that len assms(3) by (auto simp: nth_list_update)
  have "(\<Sum>u < n. count_list (ed[s := ed ! s @ [i]] ! u) j) =
      (\<Sum>u < n. count_list (ed ! u) j) + (if j = i then 1 else 0)" for j
    using assms(3) by (simp add: cnt sum.distrib sum.delta)
  moreover have "ind[i := ind ! i + 1] ! j = ind ! j + (if j = i then 1 else 0)" if "j < n" for j
    using that len by (auto simp: nth_list_update)
  ultimately have "\<forall>j < n. ind[i := ind ! i + 1] ! j =
      (\<Sum>u < n. count_list (ed[s := ed ! s @ [i]] ! u) j)"
    using g' by auto
  moreover have "\<forall>u < n. \<forall>j. j \<in> set (ed[s := ed ! s @ [i]] ! u) \<longleftrightarrow> (u, j) \<in> insert (s, i) R"
    using g' len assms(3) by (auto simp: nth_list_update)
  ultimately show ?thesis using len by (simp add: graph_ok_def)
qed

lemma graph_ok_add_dependencies:
  assumes "graph_ok (length actions) R g" "i < length actions"
  shows "graph_ok (length actions)
    (R \<union> {(s, i) | s. \<exists>d \<in> set ds. dep_source actions d = Some s})
    (add_dependencies actions i ds g)"
  using assms
proof (induction actions i ds g arbitrary: R rule: add_dependencies.induct)
  case (1 actions i acc)
  then show ?case by simp
next
  case (2 actions i d ds ind ed)
  show ?case
  proof (cases "dep_source actions d")
    case None
    then show ?thesis using "2.IH"(1)[OF None "2.prems"] by simp
  next
    case (Some s)
    have "graph_ok (length actions) (insert (s, i) R)
        (ind[i := ind ! i + 1], ed[s := ed ! s @ [i]])"
      using graph_ok_add_edge[OF "2.prems"(1) "2.prems"(2) dep_source_bound[OF Some]] .
    note ok = "2.IH"(2)[OF Some this "2.prems"(2)]
    have "insert (s, i) R \<union> {(s, i) | s. \<exists>d \<in> set ds. dep_source actions d = Some s} =
        R \<union> {(s, i) | s. \<exists>d \<in> set (d # ds). dep_source actions d = Some s}"
      using Some by auto
    with ok show ?thesis using Some by simp
  qed
qed

lemma graph_ok_dependency_graph:
  "graph_ok (length actions) (dep_rel actions) (dependency_graph actions)"
proof -
  let ?n = "length actions"
  let ?step = "\<lambda>i acc. add_dependencies actions i (depends_on (actions ! i)) acc"
  let ?init = "(replicate ?n 0, replicate ?n ([] :: nat list))"
  have "graph_ok ?n {(s, i). (s, i) \<in> dep_rel actions \<and> i < k} (fold ?step [0..<k] ?init)"
    if "k \<le> ?n" for k
    using that
  proof (induction k)
    case 0
    then show ?case by (simp add: graph_ok_def)
  next
    case (Suc k)
    have "{(s, i). (s, i) \<in> dep_rel actions \<and> i < Suc k} =
        {(s, i). (s, i) \<in> dep_rel actions \<and> i < k} \<union>
        {(s, k) | s. \<exists>d \<in> set (depends_on (actions ! k)). dep_source actions d = Some s}"
      using Suc.prems by (auto simp: dep_rel_def less_Suc_eq)
    then show ?case
      using graph_ok_add_dependencies[OF Suc.IH] Suc.prems by simp
  qed
  from this[of ?n] show ?thesis
    by (auto simp: dependency_graph_def graph_ok_def dep_rel_def)
qed

section \<open>The ordering loop\<close>

lemma release_exact:
  assumes "set ts \<subseteq> {..<length ind}" "\<forall>t < length ind. count_list ts t \<le> ind ! t"
  shows "\<exists>new. release ts ind r =
      Some (map (\<lambda>t. ind ! t - count_list ts t) [0..<length ind], r @ new) \<and>
    distinct new \<and> set new = {t \<in> set ts. ind ! t = count_list ts t}"
  using assms
proof (induction ts arbitrary: ind r)
  case Nil
  have "map ((!) ind) [0..<length ind] = ind" by (rule map_nth)
  then show ?case by auto
next
  case (Cons t ts)
  let ?i = "ind[t := ind ! t - 1]"
  have t: "t < length ind" "Suc (count_list ts t) \<le> ind ! t"
    using Cons.prems by force+
  have c: "\<forall>u < length ?i. count_list ts u \<le> ?i ! u"
    using Cons.prems(2) t by (auto simp: nth_list_update split: if_splits)
  obtain new where new: "release ts ?i (if ?i ! t = 0 then r @ [t] else r) =
      Some (map (\<lambda>u. ?i ! u - count_list ts u) [0..<length ?i],
            (if ?i ! t = 0 then r @ [t] else r) @ new)"
    "distinct new" "set new = {u \<in> set ts. ?i ! u = count_list ts u}"
    using Cons.IH[OF _ c] Cons.prems(1) by force
  have ind': "map (\<lambda>u. ?i ! u - count_list ts u) [0..<length ?i] =
      map (\<lambda>u. ind ! u - count_list (t # ts) u) [0..<length ind]"
    using t by (auto simp: nth_list_update)
  have rel: "release (t # ts) ind r = release ts ?i (if ?i ! t = 0 then r @ [t] else r)"
    using t by (simp add: Let_def)
  have tin: "t \<in> set new \<longleftrightarrow> t \<in> set ts \<and> ind ! t = Suc (count_list ts t)"
    using new(3) t by auto
  have other: "u \<noteq> t \<Longrightarrow> ?i ! u = ind ! u" for u by (auto simp: nth_list_update_neq)
  show ?case
  proof (cases "?i ! t = 0")
    case True
    then have one: "ind ! t = 1" "count_list ts t = 0" using t by auto
    then have nt: "t \<notin> set ts" by (simp add: count_list_0_iff)
    have "u \<in> set (t # new) \<longleftrightarrow> u \<in> set (t # ts) \<and> ind ! u = count_list (t # ts) u" for u
    proof (cases "u = t")
      case True
      then show ?thesis using one by simp
    next
      case False
      then show ?thesis using new(3) other[OF False] by simp
    qed
    then have "set (t # new) = {u \<in> set (t # ts). ind ! u = count_list (t # ts) u}" by blast
    moreover have "distinct (t # new)" using new(2) tin nt by simp
    ultimately show ?thesis using rel new(1) True ind' by (intro exI[of _ "t # new"]) simp
  next
    case False
    then have two: "ind ! t \<noteq> 1" using t(1) by simp
    have "u \<in> set new \<longleftrightarrow> u \<in> set (t # ts) \<and> ind ! u = count_list (t # ts) u" for u
    proof (cases "u = t")
      case True
      show ?thesis
      proof (cases "t \<in> set ts")
        case True
        then show ?thesis using tin \<open>u = t\<close> by simp
      next
        case False
        then have "count_list ts t = 0" by (rule count_notin)
        then show ?thesis using tin two False \<open>u = t\<close> by simp
      qed
    next
      case False
      then show ?thesis using new(3) other[OF False] by simp
    qed
    then have "set new = {u \<in> set (t # ts). ind ! u = count_list (t # ts) u}" by blast
    then show ?thesis using rel new(1,2) False ind' by (intro exI[of _ new]) simp
  qed
qed

text \<open>
  What the loop keeps: every ready or ordered index is in range and listed once, each
  counter is the number of edges from actions not ordered yet, the counters that are zero
  belong exactly to the ready and the ordered actions, and an ordered action comes after
  everything it depends on.
\<close>

definition kahn_inv ::
    "nat list list \<Rightarrow> nat list \<Rightarrow> nat list \<Rightarrow> nat list \<Rightarrow> bool" where
  "kahn_inv edges ready ind order \<longleftrightarrow>
     set (ready @ order) \<subseteq> {..<length edges} \<and> distinct (ready @ order) \<and>
     length ind = length edges \<and>
     (\<forall>i < length edges. ind ! i = (\<Sum>s \<in> {..<length edges} - set order. count_list (edges ! s) i)) \<and>
     (\<forall>i < length edges. ind ! i = 0 \<longleftrightarrow> i \<in> set (ready @ order)) \<and>
     (\<forall>ps i qs. order = ps @ i # qs \<longrightarrow>
        (\<forall>s < length edges. i \<in> set (edges ! s) \<longrightarrow> s \<in> set ps))"

lemma kahn_inv_range: "kahn_inv ed r ind ord \<Longrightarrow> set (r @ ord) \<subseteq> {..<length ed}"
  and kahn_inv_distinct: "kahn_inv ed r ind ord \<Longrightarrow> distinct (r @ ord)"
  and kahn_inv_len: "kahn_inv ed r ind ord \<Longrightarrow> length ind = length ed"
  and kahn_inv_ind: "kahn_inv ed r ind ord \<Longrightarrow> i < length ed \<Longrightarrow>
    ind ! i = (\<Sum>s \<in> {..<length ed} - set ord. count_list (ed ! s) i)"
  and kahn_inv_zero: "kahn_inv ed r ind ord \<Longrightarrow> i < length ed \<Longrightarrow>
    ind ! i = 0 \<longleftrightarrow> i \<in> set (r @ ord)"
  and kahn_inv_before: "kahn_inv ed r ind ord \<Longrightarrow> ord = ps @ i # qs \<Longrightarrow> s < length ed \<Longrightarrow>
    i \<in> set (ed ! s) \<Longrightarrow> s \<in> set ps"
  unfolding kahn_inv_def by blast+

lemma kahn_inv_sort: "kahn_inv ed (sort_key key r) ind ord = kahn_inv ed r ind ord"
  by (simp add: kahn_inv_def)

lemma kahn_inv_zero_preds:
  assumes "kahn_inv ed r ind ord" "i < length ed" "ind ! i = 0" "s < length ed" "i \<in> set (ed ! s)"
  shows "s \<in> set ord"
proof (rule ccontr)
  assume "s \<notin> set ord"
  moreover have "(\<Sum>s \<in> {..<length ed} - set ord. count_list (ed ! s) i) = 0"
    using kahn_inv_ind[OF assms(1,2)] assms(3) by simp
  ultimately have "count_list (ed ! s) i = 0" using assms(4) by simp
  then show False using assms(5) by (simp add: count_list_0_iff)
qed

text \<open>The counters after one action was released count the edges of the rest.\<close>

lemma kahn_inv_cut:
  assumes inv: "kahn_inv ed (x # r) ind ord" and t: "t < length ed"
  shows "ind ! t = count_list (ed ! x) t +
      (\<Sum>s \<in> {..<length ed} - set (ord @ [x]). count_list (ed ! s) t)"
proof -
  have x: "x < length ed" "x \<notin> set ord"
    using kahn_inv_range[OF inv] kahn_inv_distinct[OF inv] by auto
  let ?B = "{..<length ed} - set (ord @ [x])"
  have "{..<length ed} - set ord = insert x ?B" using x by auto
  moreover have "(\<Sum>s \<in> insert x ?B. count_list (ed ! s) t) =
      count_list (ed ! x) t + (\<Sum>s \<in> ?B. count_list (ed ! s) t)"
    by (rule sum.insert) auto
  ultimately show ?thesis using kahn_inv_ind[OF inv t] by presburger
qed

lemma kahn_release:
  assumes inv: "kahn_inv ed (x # r) ind ord" and ed: "\<forall>s < length ed. set (ed ! s) \<subseteq> {..<length ed}"
  obtains new ind' where "release (ed ! x) ind r = Some (ind', r @ new)" "distinct new"
    "length ind' = length ed" "set new \<subseteq> {..<length ed}" "set new \<inter> set (x # r @ ord) = {}"
    "\<And>t. t < length ed \<Longrightarrow> ind' ! t = ind ! t - count_list (ed ! x) t"
    "\<And>t. t < length ed \<Longrightarrow> ind' ! t = 0 \<longleftrightarrow> t \<in> set (x # r @ ord) \<or> t \<in> set new"
proof -
  have x: "x < length ed" using kahn_inv_range[OF inv] by simp
  note len = kahn_inv_len[OF inv]
  have c: "\<forall>t < length ind. count_list (ed ! x) t \<le> ind ! t"
    using kahn_inv_cut[OF inv] len by simp
  have sub: "set (ed ! x) \<subseteq> {..<length ind}" using ed x len by simp
  let ?ind = "map (\<lambda>t. ind ! t - count_list (ed ! x) t) [0..<length ind]"
  obtain new where new: "release (ed ! x) ind r = Some (?ind, r @ new)" "distinct new"
    "set new = {t \<in> set (ed ! x). ind ! t = count_list (ed ! x) t}"
    using release_exact[OF sub c, of r] by blast
  have nth: "?ind ! t = ind ! t - count_list (ed ! x) t" if "t < length ed" for t
    using that len by simp
  have nz: "ind ! t \<noteq> 0" if "t \<in> set new" for t
    using that new(3) by (auto simp: count_list_0_iff)
  have rng: "set new \<subseteq> {..<length ed}" using new(3) sub len by auto
  have "t \<notin> set (x # r @ ord)" if "t \<in> set new" for t
    using nz[OF that] rng that kahn_inv_zero[OF inv, of t] by auto
  then have fresh: "set new \<inter> set (x # r @ ord) = {}" by blast
  have zero: "?ind ! t = 0 \<longleftrightarrow> t \<in> set (x # r @ ord) \<or> t \<in> set new" if t: "t < length ed" for t
  proof (cases "ind ! t = 0")
    case True
    then show ?thesis using kahn_inv_zero[OF inv t] nth[OF t] by simp
  next
    case False
    then have "t \<notin> set (x # r @ ord)" using kahn_inv_zero[OF inv t] by simp
    moreover have "?ind ! t = 0 \<longleftrightarrow> t \<in> set new"
    proof -
      have "count_list (ed ! x) t \<le> ind ! t" using c t len by simp
      then have "?ind ! t = 0 \<longleftrightarrow> ind ! t = count_list (ed ! x) t" using nth[OF t] by linarith
      also have "\<dots> \<longleftrightarrow> t \<in> set new" using False new(3) count_notin[of t "ed ! x"] by auto
      finally show ?thesis .
    qed
    ultimately show ?thesis by blast
  qed
  show thesis by (rule that[OF new(1,2) _ rng fresh nth zero]) (simp add: len)
qed

lemma kahn_inv_step:
  assumes inv: "kahn_inv ed (x # r) ind ord" and ed: "\<forall>s < length ed. set (ed ! s) \<subseteq> {..<length ed}"
  shows "\<exists>ind' r'. release (ed ! x) ind r = Some (ind', r') \<and> kahn_inv ed r' ind' (ord @ [x])"
proof (rule kahn_release[OF assms])
  fix new ind'
  assume rel: "release (ed ! x) ind r = Some (ind', r @ new)" "distinct new"
    "length ind' = length ed" "set new \<subseteq> {..<length ed}" "set new \<inter> set (x # r @ ord) = {}"
    and nth: "\<And>t. t < length ed \<Longrightarrow> ind' ! t = ind ! t - count_list (ed ! x) t"
    and zero: "\<And>t. t < length ed \<Longrightarrow> ind' ! t = 0 \<longleftrightarrow> t \<in> set (x # r @ ord) \<or> t \<in> set new"
  have x: "x < length ed" "ind ! x = 0"
    using kahn_inv_range[OF inv] kahn_inv_zero[OF inv, of x] by auto
  have before: "s \<in> set ps" if "ord @ [x] = ps @ j # qs" "s < length ed" "j \<in> set (ed ! s)"
    for ps j qs s
  proof (cases qs rule: rev_cases)
    case Nil
    then have "ps = ord" "j = x" using that(1) by auto
    then show ?thesis using kahn_inv_zero_preds[OF inv x that(2)] that(3) by simp
  next
    case (snoc qs' y)
    then have "ord = ps @ j # qs'" using that(1) by simp
    then show ?thesis using kahn_inv_before[OF inv _ that(2,3)] by blast
  qed
  have "kahn_inv ed (r @ new) ind' (ord @ [x])"
    unfolding kahn_inv_def
  proof (intro conjI)
    show "set ((r @ new) @ ord @ [x]) \<subseteq> {..<length ed}"
      using kahn_inv_range[OF inv] rel(4) by auto
    show "distinct ((r @ new) @ ord @ [x])"
      using kahn_inv_distinct[OF inv] rel(2,5) by auto
    show "length ind' = length ed" by (rule rel(3))
    show "\<forall>t < length ed. ind' ! t =
        (\<Sum>s \<in> {..<length ed} - set (ord @ [x]). count_list (ed ! s) t)"
      using nth kahn_inv_cut[OF inv] by simp
    show "\<forall>t < length ed. ind' ! t = 0 \<longleftrightarrow> t \<in> set ((r @ new) @ ord @ [x])"
      using zero by auto
    show "\<forall>ps j qs. ord @ [x] = ps @ j # qs \<longrightarrow>
        (\<forall>s < length ed. j \<in> set (ed ! s) \<longrightarrow> s \<in> set ps)" using before by blast
  qed
  then show ?thesis using rel(1) by blast
qed

lemma kahn_correct:
  assumes "kahn_inv ed r ind ord" "\<forall>s < length ed. set (ed ! s) \<subseteq> {..<length ed}"
  shows "\<exists>ord' ind'. kahn ed key r ind ord = Some ord' \<and> kahn_inv ed [] ind' ord'"
  using assms
proof (induction ed key r ind ord rule: kahn.induct)
  case (1 ed key ind ord)
  then show ?case by auto
next
  case (2 ed key x r ind ord)
  have x: "x < length ed" using "2.prems"(1) by (auto simp: kahn_inv_def)
  obtain ind' r' where rel: "release (ed ! x) ind r = Some (ind', r')"
    and inv': "kahn_inv ed r' ind' (ord @ [x])"
    using kahn_inv_step[OF "2.prems"] by blast
  have "kahn_inv ed (sort_key key r') ind' (ord @ [x])" using inv' by (simp add: kahn_inv_sort)
  then show ?case using "2.IH"[OF _ rel _ _ "2.prems"(2)] x rel by simp
qed

lemma ready_init:
  assumes "graph_ok n R (ind, ed)"
  shows "kahn_inv ed (filter (\<lambda>i. ind ! i = 0) [0..<n]) ind []"
  using assms by (auto simp: graph_ok_def kahn_inv_def)

text \<open>
  What the ordering establishes about an action list: it never panics, and the order it
  found satisfies the loop invariant with nothing left ready.
\<close>

lemma topological_order_run:
  obtains ind ed ord ind' where "dependency_graph actions = (ind, ed)"
    "graph_ok (length actions) (dep_rel actions) (ind, ed)"
    "kahn_inv ed [] ind' ord"
    "topological_order actions =
       Some (if length ord = length actions then Inr ord
             else Inl (map (\<lambda>i. act_id (actions ! i))
                    (filter (\<lambda>i. i \<notin> set ord) [0..<length actions])))"
proof -
  obtain ind ed where g: "dependency_graph actions = (ind, ed)" by (cases "dependency_graph actions")
  have ok: "graph_ok (length actions) (dep_rel actions) (ind, ed)"
    using graph_ok_dependency_graph[of actions] g by simp
  have len: "length ed = length actions" using ok by (simp add: graph_ok_def)
  have ed: "\<forall>s < length ed. set (ed ! s) \<subseteq> {..<length ed}"
    using ok len by (auto simp: graph_ok_def dep_rel_def)
  have "kahn_inv ed (sort_key (action_key actions)
      (filter (\<lambda>i. ind ! i = 0) [0..<length actions])) ind []"
    using ready_init[OF ok] by (simp add: kahn_inv_sort)
  from kahn_correct[OF this ed, of "action_key actions"] obtain ord ind' where
    "kahn ed (action_key actions) (sort_key (action_key actions)
      (filter (\<lambda>i. ind ! i = 0) [0..<length actions])) ind [] = Some ord"
    "kahn_inv ed [] ind' ord" by blast
  then show thesis using that[OF g ok] by (simp add: topological_order_def g)
qed

lemma kahn_inv_distinct_length:
  assumes "kahn_inv ed [] ind ord"
  shows "length ord = length ed \<longleftrightarrow> set ord = {..<length ed}"
proof -
  have d: "distinct ord" "set ord \<subseteq> {..<length ed}" using assms by (auto simp: kahn_inv_def)
  have "card (set ord) = length ord" using d(1) by (rule distinct_card)
  then show ?thesis
    using d(2) by (metis card_lessThan card_subset_eq finite_lessThan)
qed

lemma stuck_has_cycle:
  assumes inv: "kahn_inv ed [] ind ord" and ok: "graph_ok n R (ind0, ed)"
    and "set ord \<noteq> {..<n}" "R \<subseteq> {..<n} \<times> {..<n}"
  shows "\<not> acyclic R"
proof
  assume ac: "acyclic R"
  have len: "length ed = n" and edR: "\<And>s i. s < n \<Longrightarrow> i \<in> set (ed ! s) \<longleftrightarrow> (s, i) \<in> R"
    using ok by (auto simp: graph_ok_def)
  have "finite R" using assms(4) by (rule finite_subset) simp
  then have "wf R" using ac by (rule finite_acyclic_wf)
  define U where "U = {..<n} - set ord"
  have "U \<noteq> {}" using assms(3) inv len by (auto simp: U_def kahn_inv_def)
  then obtain z where z: "z \<in> U" and zmin: "\<And>y. (y, z) \<in> R \<Longrightarrow> y \<notin> U"
    using \<open>wf R\<close> by (metis wf_eq_minimal all_not_in_conv)
  have "count_list (ed ! s) z = 0" if "s \<in> {..<n} - set ord" for s
    using that zmin[of s] edR[of s z] by (auto simp: U_def count_list_0_iff)
  then have "ind ! z = 0" using inv z len by (simp add: kahn_inv_def U_def)
  then show False using inv z len by (auto simp: kahn_inv_def U_def)
qed

text \<open>An order that lists the target of every edge after its source admits no cycle.\<close>

lemma ordered_acyclic:
  assumes "\<And>s i. (s, i) \<in> R \<Longrightarrow> i \<in> set ord"
    and "\<And>ps i qs s. ord = ps @ i # qs \<Longrightarrow> (s, i) \<in> R \<Longrightarrow> s \<in> set ps"
  shows "acyclic R"
proof -
  define pos where "pos = (\<lambda>i. length (takeWhile (\<lambda>y. y \<noteq> i) ord))"
  have "R \<subseteq> measure pos"
  proof (rule subrelI)
    fix s i assume si: "(s, i) \<in> R"
    then obtain ps qs where ord: "ord = ps @ i # qs" "i \<notin> set ps"
      using split_list_first[OF assms(1)] by blast
    then have s: "s \<in> set ps" using assms(2) si by blast
    have upto: "takeWhile (\<lambda>y. y \<noteq> j) (as @ j # bs) = as" if "j \<notin> set as" for j as bs
      using that by (subst takeWhile_append2) auto
    have "pos i = length ps" using upto[OF ord(2)] ord(1) by (simp add: pos_def)
    moreover have "pos s < length ps"
    proof -
      obtain as bs where "ps = as @ s # bs" "s \<notin> set as" using s by (meson split_list_first)
      then show ?thesis using upto[of s as "bs @ i # qs"] ord by (simp add: pos_def)
    qed
    ultimately show "(s, i) \<in> measure pos" by simp
  qed
  then show ?thesis by (meson acyclic_subset wf_acyclic wf_measure)
qed

lemma ordering_decided:
  "if acyclic (dep_rel actions)
   then \<exists>ord. topological_order actions = Some (Inr ord) \<and>
          distinct ord \<and> set ord = {..<length actions} \<and>
          (\<forall>ps i qs s. ord = ps @ i # qs \<longrightarrow> (s, i) \<in> dep_rel actions \<longrightarrow> s \<in> set ps)
   else \<exists>ids. topological_order actions = Some (Inl ids) \<and> ids \<noteq> []"
proof -
  obtain ind ed ord ind' where ok: "graph_ok (length actions) (dep_rel actions) (ind, ed)"
    and inv: "kahn_inv ed [] ind' ord"
    and top: "topological_order actions =
       Some (if length ord = length actions then Inr ord
             else Inl (map (\<lambda>i. act_id (actions ! i))
                    (filter (\<lambda>i. i \<notin> set ord) [0..<length actions])))"
    by (rule topological_order_run)
  let ?R = "dep_rel actions" and ?n = "length actions"
  have len: "length ed = ?n" and edR: "\<And>s i. s < ?n \<Longrightarrow> i \<in> set (ed ! s) \<longleftrightarrow> (s, i) \<in> ?R"
    using ok by (auto simp: graph_ok_def)
  have Rn: "?R \<subseteq> {..<?n} \<times> {..<?n}" by (auto simp: dep_rel_def dest: dep_source_bound)
  have after: "s \<in> set ps" if "ord = ps @ i # qs" "(s, i) \<in> ?R" for ps i qs s
    using that Rn inv len edR[of s i] by (auto simp: kahn_inv_def)
  have full: "length ord = ?n \<longleftrightarrow> set ord = {..<?n}"
    using kahn_inv_distinct_length[OF inv] len by simp
  show ?thesis
  proof (cases "set ord = {..<?n}")
    case True
    have "acyclic ?R"
    proof (rule ordered_acyclic)
      show "i \<in> set ord" if "(s, i) \<in> ?R" for s i using that True Rn by auto
      show "s \<in> set ps" if "ord = ps @ i # qs" "(s, i) \<in> ?R" for ps i qs s
        using after[OF that] .
    qed
    then show ?thesis
      using True full top after kahn_inv_distinct[OF inv] by auto
  next
    case False
    have "\<not> acyclic ?R" using stuck_has_cycle[OF inv ok False Rn] .
    moreover have "\<exists>i < ?n. i \<notin> set ord"
      using False kahn_inv_range[OF inv] len by auto
    ultimately show ?thesis using False full top by (auto simp: filter_empty_conv)
  qed
qed

lemma topological_order_acyclic:
  "(\<exists>ord. topological_order actions = Some (Inr ord)) \<longleftrightarrow> acyclic (dep_rel actions)"
  using ordering_decided[of actions] by (auto split: if_splits)

lemma topological_order_returns: "topological_order actions \<noteq> None"
  using ordering_decided[of actions] by (auto split: if_splits)

section \<open>Properties\<close>


text \<open>A plain action for concrete instances: an identity, a role and its dependencies.\<close>

definition plain_action ::
    "ustr \<Rightarrow> nat \<Rightarrow> ActionRole \<Rightarrow> ustr list \<Rightarrow> (unit, unit, unit) PlanAction" where
  "plain_action name n r deps =
     \<lparr>act_id = name, ordinal = n, role = r, summary = name, target = None, execution = (),
      depends_on = deps, preconditions = [], idempotency = IdemUnknown, effects = [],
      recovery_semantics = None, requires_privilege = False, act_status = ActPending\<rparr>"


lemma worse_of_idem: "foldl (\<lambda>v (c, s). worse_of v (contribution c s)) v rs =
    worse_of v (verdict rs)"
proof (induction rs rule: rev_induct)
  case Nil
  then show ?case by (cases v) (simp_all add: verdict_def)
next
  case (snoc r rs)
  have assoc: "worse_of (worse_of a b) c = worse_of a (worse_of b c)" for a b c
    by (cases a; cases b; cases c; simp)
  show ?case using snoc by (cases r) (simp add: verdict_def assoc)
qed

lemma verdict_Cons: "verdict ((c, s) # rs) = worse_of (contribution c s) (verdict rs)"
proof -
  have "verdict ((c, s) # rs) =
      foldl (\<lambda>v (c, s). worse_of v (contribution c s)) (worse_of VVerified (contribution c s)) rs"
    by (simp add: verdict_def)
  also have "\<dots> = worse_of (worse_of VVerified (contribution c s)) (verdict rs)"
    by (rule worse_of_idem)
  finally show ?thesis by (cases "contribution c s") simp_all
qed

text \<open>
  The plan-level verdict is failed exactly when some required check failed, and
  verified exactly when no required and no advisory check failed or stayed unknown: an
  unknown required check is never a pass, an observational check never matters, and no
  number of passing checks hides a failed one.
\<close>

theorem verdict_composes:
  "(verdict rs = VFailed \<longleftrightarrow> (Required, CheckFailed) \<in> set rs) \<and>
   (verdict rs = VVerified \<longleftrightarrow>
      (\<forall>(c, s) \<in> set rs. c \<noteq> Observational \<longrightarrow> s = CheckPassed \<or> s = CheckSkipped))"
proof (induction rs)
  case Nil
  then show ?case by (simp add: verdict_def)
next
  case (Cons r rs)
  obtain c s where r: "r = (c, s)" by (cases r)
  show ?case using Cons
    by (cases "verdict rs"; cases c; cases s; simp add: r verdict_Cons)
qed

theorem verdict_composes_witness:
  "verdict [(Required, CheckPassed), (Observational, CheckFailed)] = VVerified \<and>
   verdict [(Required, CheckUnknown), (Advisory, CheckPassed)] \<noteq> VVerified"
  using verdict_composes[of "[(Required, CheckPassed), (Observational, CheckFailed)]"]
    verdict_composes[of "[(Required, CheckUnknown), (Advisory, CheckPassed)]"]
  by simp

end
