(* ===== verification/Plan_Resume.thy ===== *)
theory Plan_Resume
  imports Plan_Action "HOL-Library.Multiset"
begin

text \<open>
  Resuming an interrupted apply (\<open>crates/ono-change-executor/src/resume.rs\<close>) from the
  persisted action records.  What the plan store answers for the plan is an argument:
  either its refusal or the recorded statuses by action identity.
\<close>

section \<open>The data of a resume\<close>

datatype DriftVerdict = Unchanged | Tolerated | Material | DriftUnknown

definition blocks_apply :: "DriftVerdict \<Rightarrow> bool" where
  "blocks_apply v \<longleftrightarrow> v \<in> {Material, DriftUnknown}"

record DriftFinding =
  drift_subject :: ustr
  drift_field :: ustr
  drift_verdict :: DriftVerdict

datatype ResumeDecision =
  ResContinue | ResAlreadyComplete | ResRequiresRecoveryOrRebase | ResDrifted

definition may_continue :: "ResumeDecision \<Rightarrow> bool" where
  "may_continue d \<longleftrightarrow> d = ResContinue"

fun ResumeDecision_as_str :: "ResumeDecision \<Rightarrow> ustr" where
  "ResumeDecision_as_str ResContinue = asc ''continue''"
| "ResumeDecision_as_str ResAlreadyComplete = asc ''already-complete''"
| "ResumeDecision_as_str ResRequiresRecoveryOrRebase = asc ''requires-recovery-or-rebase''"
| "ResumeDecision_as_str ResDrifted = asc ''drifted''"

record BlockedAction =
  blk_action :: ustr
  blk_summary :: ustr
  blk_status :: ActionStatus
  blk_idempotency :: Idempotency
  blk_reason :: ustr

text \<open>
  The refusals a resume answers with: the store's own, a drift refusal with one row per
  blocking finding, or the refusal that lists the blocked actions with their reasons.
\<close>

datatype 'err Refusal =
    StoreRefused 'err
  | DriftDetected ustr "(ustr \<times> ustr \<times> ustr) list"
  | ResumeRefused ustr "(ustr \<times> ustr) list" PlanState "ustr list"

record 'err ResumeOutcome =
  out_state :: PlanState
  decision :: ResumeDecision
  resumable :: "ustr list"
  completed :: "ustr list"
  blocked :: "BlockedAction list"
  uncertain :: "ustr list"
  refusal :: "'err Refusal option"

record ('ex, 'pre, 'eff) ChangePlan =
  plan_id :: ustr
  plan_state :: PlanState
  plan_actions :: "('ex, 'pre, 'eff) PlanAction list"

section \<open>Operations\<close>

definition section_sign :: ustr where "section_sign = [167]"

fun refusal_reason :: "ActionStatus \<Rightarrow> Idempotency \<Rightarrow> ustr" where
  "refusal_reason ActUnknown _ =
     asc ''its outcome was never established and its contract does not permit a blind rerun (''
       @ section_sign @ asc ''41.2, Appendix F.2)''"
| "refusal_reason ActRunning _ =
     asc ''it was in flight when the shell stopped and its contract does not permit a blind rerun (''
       @ section_sign @ asc ''41.2)''"
| "refusal_reason ActFailed RetrySafeWithToken =
     asc ''its contract permits a retry only with the original request token, and that token cannot be presented: no execution path carries one yet (''
       @ section_sign @ asc ''41.1, '' @ section_sign @ asc ''41.2)''"
| "refusal_reason ActFailed _ =
     asc ''it failed and its contract does not accept a retry, with or without a request token (''
       @ section_sign @ asc ''41.1)''"
| "refusal_reason _ _ =
     asc ''its prior status and idempotency class do not permit continuing it (''
       @ section_sign @ asc ''41.3)''"

definition reconstructed_state ::
    "('ex, 'pre, 'eff) ChangePlan \<Rightarrow> (ustr \<rightharpoonup> ActionStatus) \<Rightarrow> PlanState" where
  "reconstructed_state plan statuses =
     (if is_terminal (plan_state plan) \<or> is_verdict (plan_state plan) then plan_state plan
      else let mutating = filter (\<lambda>a. mutates_target (role a)) (plan_actions plan);
               observed = List.map_filter (\<lambda>a. statuses (act_id a)) mutating
           in if observed = [] then plan_state plan
              else if ActFailed \<in> set observed then ApplyFailed
              else if length observed = length mutating \<and> list_all (\<lambda>s. s = ActSucceeded) observed
              then Verifying
              else Applying)"

definition blocked_refusal ::
    "('ex, 'pre, 'eff) ChangePlan \<Rightarrow> PlanState \<Rightarrow> BlockedAction list \<Rightarrow> 'err Refusal" where
  "blocked_refusal plan state bs =
     ResumeRefused (plan_id plan)
       (map (\<lambda>b. (blk_action b, blk_summary b @ asc '': '' @ blk_reason b)) bs)
       state (map blk_action bs)"

text \<open>The status the records give an action, and the action settled at it.\<close>

definition recorded :: "(ustr \<rightharpoonup> ActionStatus) \<Rightarrow> ('ex, 'pre, 'eff) PlanAction \<Rightarrow> ActionStatus" where
  "recorded statuses a = (case statuses (act_id a) of Some s \<Rightarrow> s | None \<Rightarrow> act_status a)"

text \<open>One turn of the loop over the plan's actions.\<close>

fun classify ::
    "(ustr \<rightharpoonup> ActionStatus) \<Rightarrow> ('ex, 'pre, 'eff) PlanAction \<Rightarrow>
     ustr list \<times> ustr list \<times> BlockedAction list \<times> ustr list \<Rightarrow>
     ustr list \<times> ustr list \<times> BlockedAction list \<times> ustr list" where
  "classify statuses a (res, com, blk, unc) =
     (let status = recorded statuses a;
          settled = a\<lparr>act_status := status\<rparr>;
          unc' = (if status \<in> {ActUnknown, ActRunning} then unc @ [act_id a] else unc);
          token_unavailable = (status = ActFailed \<and> idempotency a = RetrySafeWithToken)
      in if status = ActSucceeded then (res, com @ [act_id a], blk, unc')
         else if may_resume settled \<and> \<not> token_unavailable then (res @ [act_id a], com, blk, unc')
         else (res, com, blk @ [\<lparr>blk_action = act_id a, blk_summary = summary a, blk_status = status,
                 blk_idempotency = idempotency a,
                 blk_reason = refusal_reason status (idempotency a)\<rparr>], unc'))"

definition drift_rows :: "DriftFinding list \<Rightarrow> (ustr \<times> ustr \<times> ustr) list" where
  "drift_rows fs = map (\<lambda>f. (drift_subject f, drift_field f,
     asc ''changed while the plan was interrupted ('' @ section_sign @ asc ''7.3, '' @ section_sign
       @ asc ''41.3)'')) fs"

definition resume_with ::
    "('ex, 'pre, 'eff) ChangePlan \<Rightarrow> 'err + (ustr \<rightharpoonup> ActionStatus) \<Rightarrow> DriftFinding list \<Rightarrow>
     'err ResumeOutcome" where
  "resume_with plan store drift =
     (case store of
        Inl e \<Rightarrow> \<lparr>out_state = plan_state plan, decision = ResRequiresRecoveryOrRebase,
                  resumable = [], completed = [], blocked = [], uncertain = [],
                  refusal = Some (StoreRefused e)\<rparr>
      | Inr statuses \<Rightarrow>
          let (res, com, blk, unc) = fold (classify statuses) (plan_actions plan) ([], [], [], []);
              state = reconstructed_state plan statuses;
              out = \<lparr>out_state = state, decision = ResAlreadyComplete, resumable = res,
                     completed = com, blocked = blk, uncertain = unc, refusal = None\<rparr>;
              blocking = filter (\<lambda>f. blocks_apply (drift_verdict f)) drift
          in if res = [] \<and> blk = [] then out
             else if blocking \<noteq> []
             then out\<lparr>decision := ResDrifted,
                      refusal := Some (DriftDetected (plan_id plan) (drift_rows blocking))\<rparr>
             else let d = (if blk \<noteq> [] then ResRequiresRecoveryOrRebase
                           else if res = [] then ResAlreadyComplete else ResContinue)
                  in out\<lparr>decision := d,
                         refusal := (if d = ResRequiresRecoveryOrRebase
                                     then Some (blocked_refusal plan state blk) else None)\<rparr>)"

definition resume ::
    "('ex, 'pre, 'eff) ChangePlan \<Rightarrow> 'err + (ustr \<rightharpoonup> ActionStatus) \<Rightarrow> 'err ResumeOutcome" where
  "resume plan store = resume_with plan store []"

section \<open>Classification\<close>

text \<open>
  The rule the classification comes to: an action may be run again when it never ran, or
  when it did not succeed and its contract is idempotent; nothing else may.
\<close>

definition rerunnable :: "ActionStatus \<Rightarrow> Idempotency \<Rightarrow> bool" where
  "rerunnable s i \<longleftrightarrow>
     s \<in> {ActPending, ActSkipped} \<or> s \<noteq> ActSucceeded \<and> i = Idempotent"

lemma classify_rule:
  "(may_resume (a\<lparr>act_status := s\<rparr>) \<and> \<not> (s = ActFailed \<and> idempotency a = RetrySafeWithToken)) =
     (s \<noteq> ActSucceeded \<and> rerunnable s (idempotency a))"
  by (cases s; cases "idempotency a")
    (simp_all add: rerunnable_def permits_blind_retry_def permits_token_retry_def)

definition blocked_record ::
    "(ustr \<rightharpoonup> ActionStatus) \<Rightarrow> ('ex, 'pre, 'eff) PlanAction \<Rightarrow> BlockedAction" where
  "blocked_record statuses a =
     \<lparr>blk_action = act_id a, blk_summary = summary a, blk_status = recorded statuses a,
      blk_idempotency = idempotency a,
      blk_reason = refusal_reason (recorded statuses a) (idempotency a)\<rparr>"

lemma classify_all:
  "fold (classify statuses) as (res, com, blk, unc) =
     (res @ map act_id (filter (\<lambda>a. recorded statuses a \<noteq> ActSucceeded \<and>
                                 rerunnable (recorded statuses a) (idempotency a)) as),
      com @ map act_id (filter (\<lambda>a. recorded statuses a = ActSucceeded) as),
      blk @ map (blocked_record statuses) (filter (\<lambda>a. recorded statuses a \<noteq> ActSucceeded \<and>
                                 \<not> rerunnable (recorded statuses a) (idempotency a)) as),
      unc @ map act_id (filter (\<lambda>a. recorded statuses a \<in> {ActUnknown, ActRunning}) as))"
proof (induction as arbitrary: res com blk unc)
  case (Cons a as)
  have "classify statuses a (res, com, blk, unc) =
    (if recorded statuses a \<noteq> ActSucceeded \<and> rerunnable (recorded statuses a) (idempotency a)
     then res @ [act_id a] else res,
     if recorded statuses a = ActSucceeded then com @ [act_id a] else com,
     if recorded statuses a \<noteq> ActSucceeded \<and> \<not> rerunnable (recorded statuses a) (idempotency a)
     then blk @ [blocked_record statuses a] else blk,
     if recorded statuses a \<in> {ActUnknown, ActRunning} then unc @ [act_id a] else unc)"
    by (simp only: classify.simps Let_def classify_rule) (simp add: blocked_record_def)
  then show ?case by (simp del: classify.simps add: Cons.IH)
qed simp

lemma resume_with_lists:
  fixes plan :: "('ex, 'pre, 'eff) ChangePlan"
  defines "rec statuses \<equiv> (recorded statuses :: ('ex, 'pre, 'eff) PlanAction \<Rightarrow> ActionStatus)"
  shows "resumable (resume_with plan (Inr statuses) drift) =
      map act_id (filter (\<lambda>a. rec statuses a \<noteq> ActSucceeded \<and>
        rerunnable (rec statuses a) (idempotency a)) (plan_actions plan))"
    "completed (resume_with plan (Inr statuses) drift) =
      map act_id (filter (\<lambda>a. rec statuses a = ActSucceeded) (plan_actions plan))"
    "blocked (resume_with plan (Inr statuses) drift) =
      map (blocked_record statuses) (filter (\<lambda>a. rec statuses a \<noteq> ActSucceeded \<and>
        \<not> rerunnable (rec statuses a) (idempotency a)) (plan_actions plan))"
    "uncertain (resume_with plan (Inr statuses) drift) =
      map act_id (filter (\<lambda>a. rec statuses a \<in> {ActUnknown, ActRunning}) (plan_actions plan))"
    "out_state (resume_with plan (Inr statuses) drift) = reconstructed_state plan statuses"
  by (simp_all add: resume_with_def classify_all rec_def Let_def)

lemma resume_with_decision:
  fixes plan :: "('ex, 'pre, 'eff) ChangePlan"
  defines "out statuses drift \<equiv> (resume_with plan (Inr statuses) drift :: 'err ResumeOutcome)"
  shows "decision (out statuses drift) =
     (if resumable (out statuses drift) = [] \<and> blocked (out statuses drift) = []
      then ResAlreadyComplete
      else if \<exists>f \<in> set drift. blocks_apply (drift_verdict f) then ResDrifted
      else if blocked (out statuses drift) \<noteq> [] then ResRequiresRecoveryOrRebase
      else ResContinue)"
    "refusal (out statuses drift) = None \<longleftrightarrow>
       decision (out statuses drift) \<in> {ResContinue, ResAlreadyComplete}"
  by (auto simp: out_def resume_with_def Let_def filter_empty_conv split: prod.splits)

lemma mset_partition3:
  "mset (map f (filter P xs)) + mset (map f (filter (\<lambda>x. \<not> P x \<and> Q x) xs))
     + mset (map f (filter (\<lambda>x. \<not> P x \<and> \<not> Q x) xs)) = mset (map f xs)"
  by (induction xs) auto

section \<open>Properties\<close>

text \<open>
  Resume puts every action of the plan on exactly one list, as often as the plan has
  it: completed (its record says it succeeded), resumable or blocked.  An action is
  resumable exactly when it never ran or its contract is idempotent; in particular an
  action whose outcome was never established, that was in flight, or that failed with a
  token-only retry contract is rerun only if it is idempotent, and otherwise blocked
  with its status.
\<close>

theorem resume_classification:
  fixes plan :: "('ex, 'pre, 'eff) ChangePlan" and drift :: "DriftFinding list"
    and statuses :: "ustr \<rightharpoonup> ActionStatus"
  defines "out \<equiv> (resume_with plan (Inr statuses) drift :: 'err ResumeOutcome)"
  shows "mset (completed out) + mset (resumable out) + mset (map blk_action (blocked out)) =
      mset (map act_id (plan_actions plan)) \<and>
    resumable out = map act_id (filter (\<lambda>a. recorded statuses a \<in> {ActPending, ActSkipped} \<or>
        recorded statuses a \<noteq> ActSucceeded \<and> idempotency a = Idempotent) (plan_actions plan)) \<and>
    (\<forall>b \<in> set (blocked out). blk_idempotency b \<noteq> Idempotent \<and>
        blk_status b \<in> {ActUnknown, ActRunning, ActFailed})"
proof -
  have "blk_action (blocked_record statuses a) = act_id a" for a :: "('ex, 'pre, 'eff) PlanAction"
    by (simp add: blocked_record_def)
  then have "map blk_action (map (blocked_record statuses) as) = map act_id as"
    for as :: "('ex, 'pre, 'eff) PlanAction list"
    by simp
  then have "mset (completed out) + mset (resumable out) + mset (map blk_action (blocked out)) =
      mset (map act_id (plan_actions plan))"
    using mset_partition3[of act_id "\<lambda>a. recorded statuses a = ActSucceeded" "plan_actions plan"
        "\<lambda>a. rerunnable (recorded statuses a) (idempotency a)"]
    unfolding out_def resume_with_lists by (simp only: mset_map)
  moreover have "resumable out = map act_id (filter (\<lambda>a. recorded statuses a \<in> {ActPending, ActSkipped} \<or>
        recorded statuses a \<noteq> ActSucceeded \<and> idempotency a = Idempotent) (plan_actions plan))"
    unfolding out_def resume_with_lists
    by (intro arg_cong[where f = "map act_id"] filter_cong) (auto simp: rerunnable_def)
  moreover have "s \<in> {ActUnknown, ActRunning, ActFailed} \<and> i \<noteq> Idempotent"
    if "s \<noteq> ActSucceeded" "\<not> rerunnable s i" for s i
    using that by (cases s) (simp_all add: rerunnable_def)
  then have "\<forall>b \<in> set (blocked out). blk_idempotency b \<noteq> Idempotent \<and>
        blk_status b \<in> {ActUnknown, ActRunning, ActFailed}"
    unfolding out_def resume_with_lists by (force simp: blocked_record_def)
  ultimately show ?thesis by blast
qed

definition interrupted_plan :: "(unit, unit, unit) ChangePlan" where
  "interrupted_plan = \<lparr>plan_id = [80], plan_state = Applying,
     plan_actions = [(plain_action [1] 0 Mutate [])\<lparr>idempotency := Idempotent\<rparr>,
                     (plain_action [2] 1 Mutate [])\<lparr>idempotency := RetrySafeWithToken\<rparr>]\<rparr>"

theorem resume_classification_witness:
  "resumable (resume_with interrupted_plan
       (Inr [[1] \<mapsto> ActUnknown, [2] \<mapsto> ActFailed] :: unit + (ustr \<rightharpoonup> ActionStatus)) []) = [[1]] \<and>
   map blk_action (blocked (resume_with interrupted_plan
       (Inr [[1] \<mapsto> ActUnknown, [2] \<mapsto> ActFailed] :: unit + (ustr \<rightharpoonup> ActionStatus)) [])) = [[2]]"
proof
  show "resumable (resume_with interrupted_plan
       (Inr [[1] \<mapsto> ActUnknown, [2] \<mapsto> ActFailed] :: unit + (ustr \<rightharpoonup> ActionStatus)) []) = [[1]]"
    using resume_classification[of interrupted_plan "[[1] \<mapsto> ActUnknown, [2] \<mapsto> ActFailed]" "[]",
        where ?'err = unit]
    by (simp add: interrupted_plan_def plain_action_def recorded_def)
  show "map blk_action (blocked (resume_with interrupted_plan
       (Inr [[1] \<mapsto> ActUnknown, [2] \<mapsto> ActFailed] :: unit + (ustr \<rightharpoonup> ActionStatus)) [])) = [[2]]"
    by (simp add: resume_with_lists interrupted_plan_def plain_action_def recorded_def rerunnable_def
        blocked_record_def)
qed

text \<open>
  Resume continues exactly when the records can be read, some action is left to run,
  every unfinished action may be rerun, and no revalidation finding blocks; and it never
  refuses in silence: an outcome carries no refusal exactly when the apply continues or
  has nothing left to do.
\<close>

theorem resume_continues_iff:
  "(may_continue (decision (resume_with plan store drift)) \<longleftrightarrow>
      (\<exists>statuses. store = Inr statuses \<and>
         (\<forall>a \<in> set (plan_actions plan). recorded statuses a = ActSucceeded \<or>
            rerunnable (recorded statuses a) (idempotency a)) \<and>
         (\<exists>a \<in> set (plan_actions plan). recorded statuses a \<noteq> ActSucceeded) \<and>
         (\<forall>f \<in> set drift. \<not> blocks_apply (drift_verdict f)))) \<and>
   (refusal (resume_with plan store drift) = None \<longleftrightarrow>
      decision (resume_with plan store drift) \<in> {ResContinue, ResAlreadyComplete})"
proof (cases store)
  case (Inl e)
  then show ?thesis by (simp add: resume_with_def may_continue_def)
next
  case (Inr statuses)
  show ?thesis
    unfolding Inr may_continue_def resume_with_decision(2)
    unfolding resume_with_decision(1) resume_with_lists
    by (auto simp: filter_empty_conv)
qed

theorem resume_continues_iff_witness:
  "may_continue (decision (resume_with interrupted_plan
     (Inr [[1] \<mapsto> ActUnknown, [2] \<mapsto> ActSucceeded] :: unit + (ustr \<rightharpoonup> ActionStatus))
     [\<lparr>drift_subject = [9], drift_field = [9], drift_verdict = Tolerated\<rparr>]))"
  using resume_continues_iff[of interrupted_plan
      "Inr [[1] \<mapsto> ActUnknown, [2] \<mapsto> ActSucceeded] :: unit + (ustr \<rightharpoonup> ActionStatus)"
      "[\<lparr>drift_subject = [9], drift_field = [9], drift_verdict = Tolerated\<rparr>]"]
  by (simp add: interrupted_plan_def plain_action_def recorded_def rerunnable_def blocks_apply_def)

lemma map_filter_full:
  "length (List.map_filter f xs) = length xs \<Longrightarrow> x \<in> set xs \<Longrightarrow> f x \<noteq> None"
proof (induction xs)
  case (Cons y ys)
  have "length (List.map_filter f ys) \<le> length ys"
    by (induction ys) (auto split: option.splits)
  with Cons show ?case by (auto split: option.splits)
qed simp

text \<open>
  The state rebuilt from the records never goes beyond them: a stored terminal state
  or verdict stands; a rebuilt failure has a mutating action recorded as failed, and an
  unknown or running record alone is never a failure; a rebuilt verification has every
  mutating action recorded as succeeded; and otherwise the stored state stands or the
  plan is applying.
\<close>

theorem reconstructed_state_sound:
  assumes "reconstructed_state plan statuses \<noteq> plan_state plan"
  shows "\<not> is_terminal (plan_state plan) \<and> \<not> is_verdict (plan_state plan) \<and>
    (\<exists>a \<in> set (plan_actions plan). mutates_target (role a) \<and> statuses (act_id a) \<noteq> None) \<and>
    (case reconstructed_state plan statuses of
       ApplyFailed \<Rightarrow> (\<exists>a \<in> set (plan_actions plan). mutates_target (role a) \<and>
                        statuses (act_id a) = Some ActFailed)
     | Verifying \<Rightarrow> (\<forall>a \<in> set (plan_actions plan). mutates_target (role a) \<longrightarrow>
                        statuses (act_id a) = Some ActSucceeded)
     | Applying \<Rightarrow> (\<forall>a \<in> set (plan_actions plan). mutates_target (role a) \<longrightarrow>
                        statuses (act_id a) \<noteq> Some ActFailed)
     | _ \<Rightarrow> False)"
proof -
  let ?mut = "filter (\<lambda>a. mutates_target (role a)) (plan_actions plan)"
  let ?obs = "List.map_filter (\<lambda>a. statuses (act_id a)) ?mut"
  have obs: "s \<in> set ?obs \<longleftrightarrow>
      (\<exists>a \<in> set (plan_actions plan). mutates_target (role a) \<and> statuses (act_id a) = Some s)" for s
    by (force simp: List.map_filter_def)
  have all: "statuses (act_id a) = Some ActSucceeded"
    if "length ?obs = length ?mut" "list_all (\<lambda>s. s = ActSucceeded) ?obs"
      "a \<in> set (plan_actions plan)" "mutates_target (role a)" for a
    using that map_filter_full[of "\<lambda>a. statuses (act_id a)" ?mut a] obs
    by (auto simp: list_all_iff)
  have ne: "\<exists>a \<in> set (plan_actions plan). mutates_target (role a) \<and> statuses (act_id a) \<noteq> None"
    if "?obs \<noteq> []"
    using that obs by (metis last_in_set option.distinct(1))
  have open_plan: "\<not> is_terminal (plan_state plan) \<and> \<not> is_verdict (plan_state plan)"
    and "?obs \<noteq> []"
    using assms unfolding reconstructed_state_def Let_def by (meson, metis)
  then have val: "reconstructed_state plan statuses =
      (if ActFailed \<in> set ?obs then ApplyFailed
       else if length ?obs = length ?mut \<and> list_all (\<lambda>s. s = ActSucceeded) ?obs then Verifying
       else Applying)"
    by (simp add: reconstructed_state_def Let_def)
  note here = open_plan ne[OF \<open>?obs \<noteq> []\<close>]
  consider "ActFailed \<in> set ?obs"
    | "ActFailed \<notin> set ?obs" "length ?obs = length ?mut" "list_all (\<lambda>s. s = ActSucceeded) ?obs"
    | "ActFailed \<notin> set ?obs" "reconstructed_state plan statuses = Applying"
    using val by presburger
  then show ?thesis
  proof cases
    case 1
    then have "reconstructed_state plan statuses = ApplyFailed" using val by presburger
    then show ?thesis using here 1 obs[of ActFailed] by simp
  next
    case 2
    then have "reconstructed_state plan statuses = Verifying" using val by presburger
    then show ?thesis using here all[OF 2(2,3)] by simp
  next
    case 3
    then show ?thesis using here obs[of ActFailed] by auto
  qed
qed

theorem reconstructed_state_sound_witness:
  "reconstructed_state interrupted_plan [[1] \<mapsto> ActUnknown, [2] \<mapsto> ActFailed] = ApplyFailed \<and>
   (\<exists>a \<in> set (plan_actions interrupted_plan). mutates_target (role a) \<and>
      ([[1] \<mapsto> ActUnknown, [2] \<mapsto> ActFailed] :: ustr \<rightharpoonup> ActionStatus) (act_id a) = Some ActFailed)"
proof -
  have "reconstructed_state interrupted_plan [[1] \<mapsto> ActUnknown, [2] \<mapsto> ActFailed] = ApplyFailed"
    by (simp add: reconstructed_state_def interrupted_plan_def plain_action_def mutates_target_def
        is_terminal_def is_verdict_def Let_def List.map_filter_def)
  moreover have "plan_state interrupted_plan = Applying" by (simp add: interrupted_plan_def)
  ultimately show ?thesis
    using reconstructed_state_sound[of interrupted_plan "[[1] \<mapsto> ActUnknown, [2] \<mapsto> ActFailed]"]
    by (simp del: fun_upd_apply)
qed

end
