(* ===== verification/Execution_Strategy.thy ===== *)
theory Execution_Strategy
  imports Plan_Action "HOL-Library.Multiset"
begin

text \<open>
  Execution strategies: the partition of a plan's targets into waves
  (\<open>crates/ono-change-core/src/strategy.rs\<close>) and the executor's run over the waves with
  the canary gate (\<open>crates/ono-change-executor/src/strategy.rs\<close>).  The submission of a
  wave and the gate are arguments of the model, as they are of the source.
\<close>

section \<open>Strategies and waves\<close>

datatype StrategyKind = KindSequential | KindBatch | KindCanary | KindParallel

datatype Strategy = Sequential | Batch nat | Canary nat nat | Parallel nat

definition strategy_batch :: "nat \<Rightarrow> Strategy option" where
  "strategy_batch bsize = (if bsize = 0 then None else Some (Batch bsize))"

definition strategy_canary :: "nat \<Rightarrow> nat \<Rightarrow> Strategy option" where
  "strategy_canary canary batch =
     (if canary = 0 \<or> batch = 0 then None else Some (Canary canary batch))"

definition strategy_parallel :: "nat \<Rightarrow> Strategy option" where
  "strategy_parallel width = (if width = 0 then None else Some (Parallel width))"

fun strategy_kind :: "Strategy \<Rightarrow> StrategyKind" where
  "strategy_kind Sequential = KindSequential"
| "strategy_kind (Batch _) = KindBatch"
| "strategy_kind (Canary _ _) = KindCanary"
| "strategy_kind (Parallel _) = KindParallel"

record Wave =
  wave_start :: nat
  wave_len :: nat
  gated :: bool
  concurrency :: nat

function sequential_waves :: "nat \<Rightarrow> nat \<Rightarrow> Wave list" where
  "sequential_waves start amount =
     (if start < amount
      then \<lparr>wave_start = start, wave_len = 1, gated = False, concurrency = 1\<rparr> #
           sequential_waves (start + 1) amount
      else [])"
  by pat_completeness auto
termination by (relation "measure (\<lambda>(start, amount). amount - start)") auto

function batch_waves :: "nat \<Rightarrow> nat \<Rightarrow> nat \<Rightarrow> nat \<Rightarrow> Wave list" where
  "batch_waves bsize conc start amount =
     (if start < amount
      then let len = min (max bsize 1) (amount - start)
           in \<lparr>wave_start = start, wave_len = len, gated = False, concurrency = conc\<rparr> #
              batch_waves bsize conc (start + len) amount
      else [])"
  by pat_completeness auto
termination by (relation "measure (\<lambda>(bsize, conc, start, amount). amount - start)") auto

declare sequential_waves.simps [simp del] batch_waves.simps [simp del]

fun waves :: "Strategy \<Rightarrow> nat \<Rightarrow> Wave list" where
  "waves Sequential amount = sequential_waves 0 amount"
| "waves (Batch bsize) amount = batch_waves bsize 1 0 amount"
| "waves (Canary canary batch) amount =
     (if amount > 0
      then let len = min (max canary 1) amount
           in \<lparr>wave_start = 0, wave_len = len, gated = True, concurrency = 1\<rparr> #
              batch_waves batch 1 len amount
      else batch_waves batch 1 0 amount)"
| "waves (Parallel width) amount = batch_waves (max width 1) (max width 1) 0 amount"

fun digest_text :: "Strategy \<Rightarrow> ustr" where
  "digest_text Sequential = asc ''sequential''"
| "digest_text (Batch bsize) = asc ''batch:'' @ show_nat bsize"
| "digest_text (Canary canary batch) =
     asc ''canary:'' @ show_nat canary @ asc '':'' @ show_nat batch"
| "digest_text (Parallel width) = asc ''parallel:'' @ show_nat width"

section \<open>Running the waves\<close>

record 'err TargetResult =
  res_target :: ustr
  res_status :: ActionStatus
  res_error :: "'err option"

definition stops_the_run :: "'err TargetResult \<Rightarrow> bool" where
  "stops_the_run r \<longleftrightarrow> res_status r \<in> {ActFailed, ActUnknown}"

record 'err StrategyRun =
  results :: "'err TargetResult list"
  touched :: "ustr list"
  untouched :: "ustr list"
  waves_run :: nat
  stopped_at :: "nat option"
  gate_verdict :: "Verdict option"
  widest_wave :: nat

definition run_completed :: "'err StrategyRun \<Rightarrow> bool" where
  "run_completed r \<longleftrightarrow> stopped_at r = None"

definition empty_run :: "'err StrategyRun" where
  "empty_run = \<lparr>results = [], touched = [], untouched = [], waves_run = 0, stopped_at = None,
     gate_verdict = None, widest_wave = 0\<rparr>"

text \<open>The targets of one wave, and the end the source computes for it.\<close>

definition wave_end :: "ustr list \<Rightarrow> Wave \<Rightarrow> nat" where
  "wave_end targets w = min (wave_start w + wave_len w) (length targets)"

definition wave_slice :: "ustr list \<Rightarrow> Wave \<Rightarrow> ustr list" where
  "wave_slice targets w = take (wave_end targets w - wave_start w) (drop (wave_start w) targets)"

text \<open>
  What one submitted wave adds to the run: its width, its results, the targets it
  touched, and the targets that were skipped or never reported.
\<close>

definition record_wave ::
    "ustr list \<Rightarrow> 'err TargetResult list \<Rightarrow> 'err StrategyRun \<Rightarrow> 'err StrategyRun" where
  "record_wave wtargets rs run =
     run\<lparr>widest_wave := max (widest_wave run) (length wtargets),
         waves_run := waves_run run + 1,
         touched := touched run @ map res_target (filter (\<lambda>r. res_status r \<noteq> ActSkipped) rs),
         untouched := untouched run @ map res_target (filter (\<lambda>r. res_status r = ActSkipped) rs)
                        @ filter (\<lambda>t. t \<notin> set (map res_target rs)) wtargets,
         results := results run @ rs\<rparr>"

definition stop_run :: "nat \<Rightarrow> ustr list \<Rightarrow> 'err StrategyRun \<Rightarrow> 'err StrategyRun" where
  "stop_run index rest run =
     run\<lparr>stopped_at := Some index, untouched := untouched run @ rest\<rparr>"

fun run_waves_from ::
    "ustr list \<Rightarrow> (Wave \<Rightarrow> ustr list \<Rightarrow> 'err TargetResult list) \<Rightarrow>
     (Wave \<Rightarrow> ustr list \<Rightarrow> Verdict) \<Rightarrow> nat \<Rightarrow> Wave list \<Rightarrow> 'err StrategyRun \<Rightarrow> 'err StrategyRun" where
  "run_waves_from targets submit gate index [] run = run"
| "run_waves_from targets submit gate index (w # ws) run =
     (let wtargets = wave_slice targets w;
          rs = submit w wtargets;
          rest = drop (wave_end targets w) targets;
          run' = record_wave wtargets rs run
      in if (\<exists>r \<in> set rs. stops_the_run r) then stop_run index rest run'
         else if gated w
         then let v = gate w wtargets; run'' = run'\<lparr>gate_verdict := Some v\<rparr>
              in if v \<noteq> VVerified then stop_run index rest run''
                 else run_waves_from targets submit gate (index + 1) ws run''
         else run_waves_from targets submit gate (index + 1) ws run')"

definition run_waves ::
    "Strategy \<Rightarrow> ustr list \<Rightarrow> (Wave \<Rightarrow> ustr list \<Rightarrow> 'err TargetResult list) \<Rightarrow>
     (Wave \<Rightarrow> ustr list \<Rightarrow> Verdict) \<Rightarrow> 'err StrategyRun" where
  "run_waves strategy targets submit gate =
     run_waves_from targets submit gate 0 (waves strategy (length targets)) empty_run"

section \<open>The partition\<close>

text \<open>Contiguous, non-empty waves from \<open>start\<close> that end at \<open>amount\<close>.\<close>

fun contiguous :: "nat \<Rightarrow> nat \<Rightarrow> Wave list \<Rightarrow> bool" where
  "contiguous start amount [] \<longleftrightarrow> start = amount"
| "contiguous start amount (w # ws) \<longleftrightarrow>
     wave_start w = start \<and> 1 \<le> wave_len w \<and> start + wave_len w \<le> amount \<and>
     contiguous (start + wave_len w) amount ws"

lemma sequential_waves_contiguous:
  "start \<le> amount \<Longrightarrow> contiguous start amount (sequential_waves start amount)"
proof (induction start amount rule: sequential_waves.induct)
  case (1 start amount)
  then show ?case
    by (cases "start < amount") (subst sequential_waves.simps, simp)+
qed

lemma batch_waves_contiguous:
  "start \<le> amount \<Longrightarrow> contiguous start amount (batch_waves bsize conc start amount)"
proof (induction bsize conc start amount rule: batch_waves.induct)
  case (1 bsize conc start amount)
  show ?case
  proof (cases "start < amount")
    case True
    let ?l = "min (max bsize 1) (amount - start)"
    have "1 \<le> ?l" "start + ?l \<le> amount" using True by auto
    then show ?thesis
      using 1(1)[OF True refl] True by (simp add: batch_waves.simps[of bsize conc start amount] Let_def)
  next
    case False
    then show ?thesis using 1(2) by (subst batch_waves.simps) simp
  qed
qed

lemma waves_contiguous: "contiguous 0 amount (waves s amount)"
proof (cases s)
  case (Canary canary batch)
  then show ?thesis
    using batch_waves_contiguous[of "min (max canary 1) amount" amount batch 1]
      batch_waves_contiguous[of 0 amount batch 1]
    by (auto simp: Let_def)
qed (simp_all add: sequential_waves_contiguous batch_waves_contiguous)

lemma batch_waves_bound:
  "w \<in> set (batch_waves bsize conc start amount) \<Longrightarrow>
     wave_len w \<le> max bsize 1 \<and> \<not> gated w \<and> concurrency w = conc"
proof (induction bsize conc start amount rule: batch_waves.induct)
  case (1 bsize conc start amount)
  then show ?case
    by (cases "start < amount")
      (auto simp: batch_waves.simps[of bsize conc start amount] Let_def)
qed

lemma sequential_waves_bound:
  "w \<in> set (sequential_waves start amount) \<Longrightarrow>
     wave_len w = 1 \<and> \<not> gated w \<and> concurrency w = 1"
proof (induction start amount rule: sequential_waves.induct)
  case (1 start amount)
  then show ?case
    by (cases "start < amount") (auto simp: sequential_waves.simps[of start amount])
qed

text \<open>How many targets a strategy offers at once.\<close>

fun strategy_width :: "Strategy \<Rightarrow> nat" where
  "strategy_width Sequential = 1"
| "strategy_width (Batch bsize) = max bsize 1"
| "strategy_width (Canary canary batch) = max (max canary 1) (max batch 1)"
| "strategy_width (Parallel width) = max width 1"

lemma waves_width: "w \<in> set (waves s amount) \<Longrightarrow> wave_len w \<le> strategy_width s"
  by (cases s) (auto simp: Let_def split: if_splits dest!: batch_waves_bound sequential_waves_bound)

lemma wave_slice_contiguous:
  assumes "wave_start w + wave_len w \<le> length targets"
  shows "wave_slice targets w = take (wave_len w) (drop (wave_start w) targets)"
    "wave_end targets w = wave_start w + wave_len w"
  using assms by (simp_all add: wave_slice_def wave_end_def)

lemma contiguous_slices:
  assumes "contiguous start (length targets) ws" "start \<le> length targets"
  shows "concat (map (wave_slice targets) ws) = drop start targets"
  using assms
proof (induction ws arbitrary: start)
  case Nil
  then show ?case by simp
next
  case (Cons w ws)
  let ?l = "wave_len w"
  have w: "wave_start w = start" "start + ?l \<le> length targets"
    "contiguous (start + ?l) (length targets) ws" using Cons.prems(1) by simp_all
  have "take ?l (drop start targets) @ drop (start + ?l) targets = drop start targets"
    by (metis add.commute append_take_drop_id drop_drop)
  then show ?case using Cons.IH[OF w(3,2)] w wave_slice_contiguous(1)[of w targets] by simp
qed

lemma contiguous_member:
  "contiguous start amount ws \<Longrightarrow> w \<in> set ws \<Longrightarrow>
     1 \<le> wave_len w \<and> wave_start w + wave_len w \<le> amount"
  by (induction ws arbitrary: start) auto

lemma batch_waves_ungated:
  "i < length (batch_waves bsize conc start amount) \<Longrightarrow>
     \<not> gated (batch_waves bsize conc start amount ! i)"
  using batch_waves_bound[OF nth_mem] by blast

lemma waves_gated:
  "i < length (waves s amount) \<Longrightarrow>
     gated (waves s amount ! i) \<longleftrightarrow> i = 0 \<and> strategy_kind s = KindCanary"
proof (cases s)
  case Sequential
  assume "i < length (waves s amount)"
  with Sequential show ?thesis using sequential_waves_bound[OF nth_mem, of i 0 amount] by simp
next
  case (Canary canary batch)
  assume "i < length (waves s amount)"
  with Canary show ?thesis
    by (cases i) (auto simp: Let_def batch_waves_ungated batch_waves.simps[of _ _ 0 0] split: if_splits)
qed (simp_all add: batch_waves_ungated)

section \<open>The run\<close>

lemma mset_unreported:
  assumes "distinct ts" "mset us \<subseteq># mset ts"
  shows "mset us + mset (filter (\<lambda>t. t \<notin> set us) ts) = mset ts"
proof -
  obtain vs where ts: "mset ts = mset (us @ vs)"
    using assms(2) ex_mset by (metis mset_append subset_mset.less_eqE)
  then have "distinct (us @ vs)" using assms(1) mset_eq_imp_distinct_iff by blast
  then have "filter (\<lambda>t. t \<notin> set us) us = []" "filter (\<lambda>t. t \<notin> set us) vs = vs"
    by (auto simp: filter_empty_conv filter_id_conv)
  then have "mset (filter (\<lambda>t. t \<notin> set us) (us @ vs)) = mset vs" by simp
  moreover have "mset (filter (\<lambda>t. t \<notin> set us) ts) = mset (filter (\<lambda>t. t \<notin> set us) (us @ vs))"
    using ts by (metis mset_filter)
  ultimately show ?thesis using ts by simp
qed

lemma mset_split_filter:
  "mset (map f (filter P xs)) + mset (map f (filter (\<lambda>x. \<not> P x) xs)) = mset (map f xs)"
  by (induction xs) auto

text \<open>The targets a run has accounted for, on either list.\<close>

definition accounted :: "'err StrategyRun \<Rightarrow> ustr multiset" where
  "accounted run = mset (touched run) + mset (untouched run)"

lemma record_wave_accounts:
  assumes "distinct ts" "mset (map res_target rs) \<subseteq># mset ts"
  shows "accounted (record_wave ts rs run) = accounted run + mset ts"
proof -
  have "mset ts = mset (map res_target (filter (\<lambda>r. res_status r \<noteq> ActSkipped) rs)) +
      mset (map res_target (filter (\<lambda>r. res_status r = ActSkipped) rs)) +
      mset (filter (\<lambda>t. t \<notin> set (map res_target rs)) ts)"
    using mset_unreported[OF assms]
      mset_split_filter[of res_target "\<lambda>r. res_status r \<noteq> ActSkipped" rs] by simp
  then show ?thesis
    by (simp add: record_wave_def accounted_def ac_simps)
qed

lemma stop_run_accounts: "accounted (stop_run index rest run) = accounted run + mset rest"
  by (simp add: stop_run_def accounted_def)

lemma gate_accounts [simp]: "accounted (run\<lparr>gate_verdict := v\<rparr>) = accounted run"
  by (simp add: accounted_def)

lemma run_waves_from_accounts:
  assumes "contiguous start (length targets) ws" "start \<le> length targets" "distinct targets"
    and "\<And>w ts. mset (map res_target (submit w ts)) \<subseteq># mset ts"
  shows "accounted (run_waves_from targets submit gate index ws run) =
    accounted run + mset (drop start targets)"
  using assms(1,2)
proof (induction ws arbitrary: start index run)
  case Nil
  then show ?case by simp
next
  case (Cons w ws)
  let ?s = "wave_slice targets w" and ?e = "start + wave_len w"
  have w: "wave_start w = start" "?e \<le> length targets"
    "contiguous ?e (length targets) ws" using Cons.prems(1) by simp_all
  have e: "wave_end targets w = ?e"
    and s: "?s = take (wave_len w) (drop start targets)"
    using wave_slice_contiguous[of w targets] w by simp_all
  have d: "distinct ?s" using assms(3) s by simp
  have parts: "mset ?s + mset (drop ?e targets) = mset (drop start targets)"
    unfolding s by (metis add.commute append_take_drop_id drop_drop mset_append)
  have rec: "accounted (record_wave ?s (submit w ?s) run) = accounted run + mset ?s"
    by (rule record_wave_accounts[OF d assms(4)])
  show ?case
    using Cons.IH[OF w(3,2)] parts
    by (simp add: Let_def e stop_run_accounts rec add.assoc)
qed

lemma run_waves_from_widest:
  assumes "\<And>w. w \<in> set ws \<Longrightarrow> wave_len w \<le> b" "widest_wave run \<le> b"
  shows "widest_wave (run_waves_from targets submit gate index ws run) \<le> b"
  using assms
proof (induction ws arbitrary: index run)
  case (Cons w ws)
  have "length (wave_slice targets w) \<le> wave_len w"
    by (simp add: wave_slice_def wave_end_def)
  also have "\<dots> \<le> b" using Cons.prems(1) by simp
  finally have s: "length (wave_slice targets w) \<le> b" .
  have r: "widest_wave (record_wave (wave_slice targets w) rs run) \<le> b"
    for rs :: "'a TargetResult list"
    using s Cons.prems(2) by (simp add: record_wave_def)
  then have r': "widest_wave (record_wave (wave_slice targets w) rs run\<lparr>gate_verdict := v\<rparr>) \<le> b"
    for rs :: "'a TargetResult list" and v
    by simp
  show ?case
    using Cons.IH[OF _ r] Cons.IH[OF _ r'] Cons.prems(1) r
    by (simp add: Let_def stop_run_def)
qed simp

section \<open>Properties\<close>

text \<open>
  Whatever the strategy, its waves cut the target list into consecutive, non-empty
  slices that together are the target list, no slice is longer than the width the
  strategy declares (a declared zero counting as one), every wave's concurrency is at
  least one and at most that width, and the only wave that is gated is the first wave
  of a canary over at least one target.
\<close>

theorem waves_partition:
  "concat (map (wave_slice targets) (waves s (length targets))) = targets \<and>
   (\<forall>w \<in> set (waves s (length targets)).
      1 \<le> length (wave_slice targets w) \<and> length (wave_slice targets w) \<le> strategy_width s \<and>
      1 \<le> concurrency w \<and> concurrency w \<le> strategy_width s) \<and>
   (\<forall>i < length (waves s (length targets)).
      gated (waves s (length targets) ! i) \<longleftrightarrow> i = 0 \<and> strategy_kind s = KindCanary)"
proof (intro conjI ballI allI impI)
  show "concat (map (wave_slice targets) (waves s (length targets))) = targets"
    using contiguous_slices[OF waves_contiguous, of targets s] by simp
next
  fix w assume w: "w \<in> set (waves s (length targets))"
  have "1 \<le> wave_len w \<and> wave_start w + wave_len w \<le> length targets"
    using contiguous_member[OF waves_contiguous w] .
  then show "1 \<le> length (wave_slice targets w)" "length (wave_slice targets w) \<le> strategy_width s"
    using waves_width[OF w] wave_slice_contiguous(1)[of w targets] by auto
  show "1 \<le> concurrency w" "concurrency w \<le> strategy_width s"
    using w by (cases s; auto simp: Let_def split: if_splits
        dest!: batch_waves_bound sequential_waves_bound)+
next
  fix i assume "i < length (waves s (length targets))"
  then show "gated (waves s (length targets) ! i) = (i = 0 \<and> strategy_kind s = KindCanary)"
    by (rule waves_gated)
qed

theorem waves_partition_witness:
  "concat (map (wave_slice [[1], [2], [3], [4]]) (waves (Canary 1 2) 4)) = [[1], [2], [3], [4]] \<and>
   map wave_len (waves (Canary 1 2) 4) = [1, 2, 1] \<and> map gated (waves (Canary 1 2) 4) = [True, False, False]"
  using waves_partition[of "[[1], [2], [3], [4]]" "Canary 1 2"]
  by (simp add: batch_waves.simps Let_def)


definition all_succeed :: "Wave \<Rightarrow> ustr list \<Rightarrow> unit TargetResult list" where
  "all_succeed w ts = map (\<lambda>t. \<lparr>res_target = t, res_status = ActSucceeded, res_error = None\<rparr>) ts"

lemma all_succeed_targets: "map res_target (all_succeed w ts) = ts"
  by (simp add: all_succeed_def comp_def)


text \<open>
  The canary gate: when the plan's required verification of the canary wave answers
  anything but verified, or a canary target fails or cannot be established, the canary
  wave is the only one submitted, the run is marked stopped there, every target behind
  the canary is untouched, and the gate's answer is on record exactly when it was asked.
\<close>

theorem canary_gate_stops:
  assumes "targets \<noteq> []"
    and "first = take (max canary 1) targets"
    and "w = \<lparr>wave_start = 0, wave_len = length first, gated = True, concurrency = 1\<rparr>"
    and "gate w first \<noteq> VVerified \<or> (\<exists>r \<in> set (submit w first). stops_the_run r)"
  shows "stopped_at (run_waves (Canary canary batch) targets submit gate) = Some 0 \<and>
    waves_run (run_waves (Canary canary batch) targets submit gate) = 1 \<and>
    results (run_waves (Canary canary batch) targets submit gate) = submit w first \<and>
    (\<exists>skipped. untouched (run_waves (Canary canary batch) targets submit gate) =
       skipped @ drop (length first) targets) \<and>
    gate_verdict (run_waves (Canary canary batch) targets submit gate) =
      (if \<exists>r \<in> set (submit w first). stops_the_run r then None else Some (gate w first))"
proof -
  have len: "length first = min (max canary 1) (length targets)" using assms(2) by simp
  have slice: "wave_slice targets w = first" "wave_end targets w = length first"
    using assms(2,3) by (auto simp: wave_slice_def wave_end_def min_def)
  have "gated w" using assms(3) by simp
  moreover have ws: "\<exists>ws. waves (Canary canary batch) (length targets) = w # ws"
    using assms(1,3) len by (simp add: Let_def)
  ultimately show ?thesis
    using assms(4)
    by (auto simp: run_waves_def Let_def slice stop_run_def record_wave_def empty_run_def
        simp del: waves.simps)
qed

theorem canary_gate_stops_witness:
  "stopped_at (run_waves (Canary 1 2) [[1], [2], [3]] all_succeed (\<lambda>_ _. VDegraded)) = Some 0 \<and>
   untouched (run_waves (Canary 1 2) [[1], [2], [3]] all_succeed (\<lambda>_ _. VDegraded)) = [[2], [3]]"
proof -
  have "stopped_at (run_waves (Canary 1 2) [[1], [2], [3]] all_succeed (\<lambda>_ _. VDegraded)) = Some 0"
    using canary_gate_stops[of "[[1], [2], [3]]" "[[1]]" 1 _ "\<lambda>_ _. VDegraded" all_succeed 2] by simp
  moreover have "untouched (run_waves (Canary 1 2) [[1], [2], [3]] all_succeed (\<lambda>_ _. VDegraded)) =
      [[2], [3]]"
    by (simp add: run_waves_def Let_def wave_slice_def wave_end_def all_succeed_def record_wave_def
        stop_run_def empty_run_def stops_the_run_def)
  ultimately show ?thesis by simp
qed

end
