(* ===== verification/Decimal.thy ===== *)
theory Decimal
  imports Ono_Text Complex_Main "HOL-Library.Signed_Division"
begin

text \<open>
  Exact fixed-point decimals (\<open>crates/ono-value/src/decimal.rs\<close>): a signed 128-bit
  mantissa scaled by a power of ten.  The theory models construction, the literal
  parser, the printer, the four checked operations, negation and comparison, and relates
  each to the rational number a decimal stands for (\<open>dec_val\<close>).  Comparison of two
  decimals that cannot be brought onto one scale falls back to binary floating point in
  the source; that fallback is the argument \<open>f64_cmp\<close> of the model.
\<close>

section \<open>Representation\<close>

definition MAX_SCALE :: nat where "MAX_SCALE = 38"

record Decimal =
  mantissa :: int
  scale :: nat

text \<open>The error values the operations build, and the code each of them carries.\<close>

datatype DecimalError =
    ScaleExceeded nat
  | NotALiteral ustr
  | DivisionByZero
  | DecimalOverflow

datatype DecimalCode = TypeInvalidUnit | TypeMismatch

fun decimal_code :: "DecimalError \<Rightarrow> DecimalCode" where
  "decimal_code (ScaleExceeded _) = TypeInvalidUnit"
| "decimal_code (NotALiteral _) = TypeMismatch"
| "decimal_code DivisionByZero = TypeMismatch"
| "decimal_code DecimalOverflow = TypeInvalidUnit"

definition decimal_new :: "int \<Rightarrow> nat \<Rightarrow> DecimalError + Decimal" where
  "decimal_new m s =
     (if s > MAX_SCALE then Inl (ScaleExceeded s) else Inr \<lparr>mantissa = m, scale = s\<rparr>)"

definition decimal_from_int :: "int \<Rightarrow> Decimal" where
  "decimal_from_int v = \<lparr>mantissa = v, scale = 0\<rparr>"

definition decimal_negated :: "Decimal \<Rightarrow> Decimal" where
  "decimal_negated d =
     \<lparr>mantissa = (if mantissa d = i128_min then i128_min else - mantissa d), scale = scale d\<rparr>"

section \<open>Arithmetic\<close>

definition pow10 :: "nat \<Rightarrow> int option" where
  "pow10 e = checked_i128 (10 ^ e)"

definition align :: "Decimal \<Rightarrow> Decimal \<Rightarrow> DecimalError + (int \<times> int \<times> nat)" where
  "align l r =
     (let s = max (scale l) (scale r) in
      and_then (ok_or DecimalOverflow (pow10 (s - scale l))) (\<lambda>pl.
      and_then (ok_or DecimalOverflow (checked_i128 (mantissa l * pl))) (\<lambda>ml.
      and_then (ok_or DecimalOverflow (pow10 (s - scale r))) (\<lambda>pr.
      and_then (ok_or DecimalOverflow (checked_i128 (mantissa r * pr))) (\<lambda>mr.
      Inr (ml, mr, s))))))"

definition decimal_checked_add :: "Decimal \<Rightarrow> Decimal \<Rightarrow> DecimalError + Decimal" where
  "decimal_checked_add a b =
     and_then (align a b) (\<lambda>(l, r, s).
       ok_or DecimalOverflow
         (map_option (\<lambda>m. \<lparr>mantissa = m, scale = s\<rparr>) (checked_i128 (l + r))))"

definition decimal_checked_sub :: "Decimal \<Rightarrow> Decimal \<Rightarrow> DecimalError + Decimal" where
  "decimal_checked_sub a b =
     and_then (align a b) (\<lambda>(l, r, s).
       ok_or DecimalOverflow
         (map_option (\<lambda>m. \<lparr>mantissa = m, scale = s\<rparr>) (checked_i128 (l - r))))"

definition decimal_checked_mul :: "Decimal \<Rightarrow> Decimal \<Rightarrow> DecimalError + Decimal" where
  "decimal_checked_mul a b =
     (let s = scale a + scale b in
      if s > MAX_SCALE then Inl DecimalOverflow
      else ok_or DecimalOverflow
        (map_option (\<lambda>m. \<lparr>mantissa = m, scale = s\<rparr>) (checked_i128 (mantissa a * mantissa b))))"

text \<open>
  The quotient of two machine integers: truncated toward zero, and a panic (\<open>None\<close>) when
  the most negative integer is divided by minus one.
\<close>

definition i128_div :: "int \<Rightarrow> int \<Rightarrow> int option" where
  "i128_div a b = (if a = i128_min \<and> b = -1 then None else Some (a sdiv b))"

text \<open>\<open>None\<close> is the panic; \<open>Some (Inl e)\<close> the error value the caller receives.\<close>

definition decimal_checked_div ::
    "Decimal \<Rightarrow> Decimal \<Rightarrow> (DecimalError + Decimal) option" where
  "decimal_checked_div a b =
     (if mantissa b = 0 then Some (Inl DivisionByZero)
      else
        let rs = max (max (scale a) (scale b)) 10;
            shift = rs + scale b - scale a
        in if shift > MAX_SCALE then Some (Inl DecimalOverflow)
           else case and_then (ok_or DecimalOverflow (pow10 shift)) (\<lambda>p.
                       ok_or DecimalOverflow (checked_i128 (mantissa a * p))) of
                  Inl e \<Rightarrow> Some (Inl e)
                | Inr n \<Rightarrow>
                    map_option (\<lambda>q. Inr \<lparr>mantissa = q, scale = rs\<rparr>) (i128_div n (mantissa b)))"

datatype ordering = Less | Equal | Greater

definition int_cmp :: "int \<Rightarrow> int \<Rightarrow> ordering" where
  "int_cmp a b = (if a < b then Less else if a = b then Equal else Greater)"

definition decimal_partial_cmp ::
    "(Decimal \<Rightarrow> Decimal \<Rightarrow> ordering option) \<Rightarrow> Decimal \<Rightarrow> Decimal \<Rightarrow> ordering option" where
  "decimal_partial_cmp f64_cmp a b =
     (case align a b of
        Inr (l, r, _) \<Rightarrow> Some (int_cmp l r)
      | Inl _ \<Rightarrow> f64_cmp a b)"

definition decimal_eq ::
    "(Decimal \<Rightarrow> Decimal \<Rightarrow> ordering option) \<Rightarrow> Decimal \<Rightarrow> Decimal \<Rightarrow> bool" where
  "decimal_eq f64_cmp a b \<longleftrightarrow> decimal_partial_cmp f64_cmp a b = Some Equal"

section \<open>Text\<close>

fun accumulate :: "int \<Rightarrow> ustr \<Rightarrow> int option" where
  "accumulate m [] = Some m"
| "accumulate m (c # cs) =
     (case checked_i128 (m * 10) of
        None \<Rightarrow> None
      | Some v \<Rightarrow>
          (case checked_i128 (v + int (c - 48)) of
             None \<Rightarrow> None
           | Some v' \<Rightarrow> accumulate v' cs))"

definition decimal_parse :: "ustr \<Rightarrow> DecimalError + Decimal" where
  "decimal_parse input =
     (let trimmed = trim input;
          (negative, digits) =
            (case strip_prefix [45] trimmed of
               Some rest \<Rightarrow> (True, rest)
             | None \<Rightarrow> (False, case strip_prefix [43] trimmed of
                                Some rest \<Rightarrow> rest | None \<Rightarrow> trimmed));
          (integer, fraction) =
            (case split_once 46 digits of Some (i, f) \<Rightarrow> (i, f) | None \<Rightarrow> (digits, []))
      in if integer = [] \<and> fraction = [] then Inl (NotALiteral input)
         else if \<not> (\<forall>c \<in> set (integer @ fraction). is_ascii_digit c) then Inl (NotALiteral input)
         else if length fraction > MAX_SCALE then Inl (NotALiteral input)
         else and_then (ok_or (NotALiteral input) (accumulate 0 (integer @ fraction))) (\<lambda>m.
           Inr \<lparr>mantissa = (if negative then - m else m), scale = length fraction\<rparr>))"

definition decimal_to_string :: "Decimal \<Rightarrow> ustr" where
  "decimal_to_string d =
     (let digits = show_nat (nat \<bar>mantissa d\<bar>);
          sign = (if mantissa d < 0 then [45] else []);
          s = scale d
      in if s = 0 then sign @ digits
         else let padded = (if length digits \<le> s
                            then replicate (s - length digits + 1) 48 @ digits else digits);
                  split = length padded - s
              in sign @ take split padded @ [46] @ drop split padded)"

section \<open>What a decimal stands for\<close>

definition dec_wf :: "Decimal \<Rightarrow> bool" where
  "dec_wf d \<longleftrightarrow> in_i128 (mantissa d) \<and> scale d \<le> MAX_SCALE"

definition dec_val :: "Decimal \<Rightarrow> rat" where
  "dec_val d = of_int (mantissa d) / 10 ^ scale d"

lemma pow10_fits:
  assumes "e \<le> 38"
  shows "in_i128 (10 ^ e)"
proof -
  have "(10::int) ^ e \<le> 10 ^ 38" using assms by (rule power_increasing) simp
  also have "\<dots> < 2 ^ 127" by simp
  finally show ?thesis by (auto simp: in_i128_bounds intro: order_trans[of _ 0])
qed

lemma pow10_Some [simp]: "e \<le> MAX_SCALE \<Longrightarrow> pow10 e = Some (10 ^ e)"
  by (simp add: pow10_def MAX_SCALE_def machine_simps pow10_fits)

lemma align_eq:
  assumes "dec_wf a" "dec_wf b"
  shows "align a b =
    (let s = max (scale a) (scale b);
         l = mantissa a * 10 ^ (s - scale a); r = mantissa b * 10 ^ (s - scale b)
     in if in_i128 l \<and> in_i128 r then Inr (l, r, s) else Inl DecimalOverflow)"
proof -
  have "max (scale a) (scale b) - scale a \<le> MAX_SCALE"
    "max (scale a) (scale b) - scale b \<le> MAX_SCALE"
    using assms by (auto simp: dec_wf_def)
  then show ?thesis
    by (simp add: align_def Let_def checked_i128_def)
qed

lemma align_val:
  assumes "dec_wf a" "dec_wf b" "align a b = Inr (l, r, s)"
  shows "s \<le> MAX_SCALE" "dec_val a = of_int l / 10 ^ s" "dec_val b = of_int r / 10 ^ s"
proof -
  let ?s = "max (scale a) (scale b)"
  have lrs: "l = mantissa a * 10 ^ (?s - scale a)" "r = mantissa b * 10 ^ (?s - scale b)" "s = ?s"
    using assms(3) by (auto simp: align_eq[OF assms(1,2)] Let_def split: if_splits)
  show "s \<le> MAX_SCALE" using assms(1,2) lrs(3) by (simp add: dec_wf_def)
  have split: "(10::rat) ^ ?s = 10 ^ (?s - k) * 10 ^ k" if "k \<le> ?s" for k
    using that by (simp flip: power_add)
  show "dec_val a = of_int l / 10 ^ s"
    using split[of "scale a"] by (simp add: dec_val_def lrs)
  show "dec_val b = of_int r / 10 ^ s"
    using split[of "scale b"] by (simp add: dec_val_def lrs)
qed

section \<open>Exactness of the checked operations\<close>

lemma checked_add_spec:
  assumes "dec_wf a" "dec_wf b" "decimal_checked_add a b = Inr c"
  shows "dec_wf c" "dec_val c = dec_val a + dec_val b"
proof -
  obtain l r s where al: "align a b = Inr (l, r, s)"
    and c: "c = \<lparr>mantissa = l + r, scale = s\<rparr>" "in_i128 (l + r)"
    using assms(3) by (auto simp: decimal_checked_add_def result_simps machine_simps)
  note v = align_val[OF assms(1,2) al]
  show "dec_wf c" using c v(1) by (simp add: dec_wf_def)
  show "dec_val c = dec_val a + dec_val b"
    using c v(2,3) by (simp add: dec_val_def add_divide_distrib)
qed

lemma checked_sub_spec:
  assumes "dec_wf a" "dec_wf b" "decimal_checked_sub a b = Inr c"
  shows "dec_wf c" "dec_val c = dec_val a - dec_val b"
proof -
  obtain l r s where al: "align a b = Inr (l, r, s)"
    and c: "c = \<lparr>mantissa = l - r, scale = s\<rparr>" "in_i128 (l - r)"
    using assms(3) by (auto simp: decimal_checked_sub_def result_simps machine_simps)
  note v = align_val[OF assms(1,2) al]
  show "dec_wf c" using c v(1) by (simp add: dec_wf_def)
  show "dec_val c = dec_val a - dec_val b"
    using c v(2,3) by (simp add: dec_val_def diff_divide_distrib)
qed

lemma checked_mul_spec:
  assumes "decimal_checked_mul a b = Inr c"
  shows "dec_wf c" "dec_val c = dec_val a * dec_val b"
proof -
  have c: "c = \<lparr>mantissa = mantissa a * mantissa b, scale = scale a + scale b\<rparr>"
    "in_i128 (mantissa a * mantissa b)" "scale a + scale b \<le> MAX_SCALE"
    using assms by (auto simp: decimal_checked_mul_def Let_def result_simps machine_simps
        split: if_splits)
  show "dec_wf c" using c by (simp add: dec_wf_def)
  show "dec_val c = dec_val a * dec_val b"
    using c by (simp add: dec_val_def power_add)
qed

lemma cmp_scaled:
  assumes "(0::rat) < k"
  shows "int_cmp l r =
    (if of_int l / k < of_int r / k then Less
     else if of_int l / k = of_int r / k then Equal else Greater)"
  using assms by (simp add: int_cmp_def divide_less_cancel)

section \<open>Division\<close>

lemma sdiv_bounds:
  assumes "b \<noteq> (0::int)"
  shows "\<bar>a sdiv b\<bar> * \<bar>b\<bar> \<le> \<bar>a\<bar>" "\<bar>a\<bar> < (\<bar>a sdiv b\<bar> + 1) * \<bar>b\<bar>"
    "a sdiv b \<noteq> 0 \<Longrightarrow> sgn (a sdiv b) = sgn a * sgn b"
proof -
  let ?q = "\<bar>a\<bar> div \<bar>b\<bar>"
  have q0: "0 \<le> ?q" using assms by (simp add: pos_imp_zdiv_nonneg_iff)
  have sd: "a sdiv b = sgn a * sgn b * ?q" by (simp add: signed_divide_int_def mult.commute mult.left_commute)
  have ab: "\<bar>a sdiv b\<bar> = (if a = 0 then 0 else ?q)"
    using assms q0 by (simp add: sd abs_mult)
  have m: "?q * \<bar>b\<bar> + \<bar>a\<bar> mod \<bar>b\<bar> = \<bar>a\<bar>" by (rule div_mult_mod_eq)
  have "0 \<le> \<bar>a\<bar> mod \<bar>b\<bar>" "\<bar>a\<bar> mod \<bar>b\<bar> < \<bar>b\<bar>" using assms by simp_all
  then have "?q * \<bar>b\<bar> \<le> \<bar>a\<bar>" "\<bar>a\<bar> < ?q * \<bar>b\<bar> + \<bar>b\<bar>"
    using m by linarith+
  then show "\<bar>a sdiv b\<bar> * \<bar>b\<bar> \<le> \<bar>a\<bar>" "\<bar>a\<bar> < (\<bar>a sdiv b\<bar> + 1) * \<bar>b\<bar>"
    using assms unfolding ab distrib_right by (cases "a = 0"; simp)+
  show "sgn (a sdiv b) = sgn a * sgn b" if "a sdiv b \<noteq> 0"
    using that q0 by (auto simp: sd sgn_mult)
qed

lemma checked_div_cases:
  assumes "dec_wf a" "dec_wf b" "mantissa b \<noteq> 0"
  shows "decimal_checked_div a b =
    (let rs = max (max (scale a) (scale b)) 10; shift = rs + scale b - scale a;
         n = mantissa a * 10 ^ shift
     in if shift > MAX_SCALE \<or> \<not> in_i128 n then Some (Inl DecimalOverflow)
        else if n = i128_min \<and> mantissa b = -1 then None
        else Some (Inr \<lparr>mantissa = n sdiv mantissa b, scale = rs\<rparr>))"
  using assms
  by (simp add: decimal_checked_div_def Let_def i128_div_def checked_i128_def)

lemma checked_div_spec:
  assumes "dec_wf a" "dec_wf b" "decimal_checked_div a b = Some (Inr c)"
  shows "mantissa b \<noteq> 0" "scale c = max (max (scale a) (scale b)) 10"
    "\<bar>dec_val c\<bar> \<le> \<bar>dec_val a / dec_val b\<bar>"
    "\<bar>dec_val a / dec_val b\<bar> < \<bar>dec_val c\<bar> + 1 / 10 ^ scale c"
    "dec_val c \<noteq> 0 \<Longrightarrow> sgn (dec_val c) = sgn (dec_val a / dec_val b)"
proof -
  show b0: "mantissa b \<noteq> 0" using assms(3) by (auto simp: decimal_checked_div_def)
  define rs where "rs = max (max (scale a) (scale b)) 10"
  define n where "n = mantissa a * 10 ^ (rs + scale b - scale a)"
  have c: "c = \<lparr>mantissa = n sdiv mantissa b, scale = rs\<rparr>"
    using assms(3) checked_div_cases[OF assms(1,2) b0]
    by (simp add: Let_def rs_def[symmetric] n_def[symmetric] split: if_splits)
  then show "scale c = max (max (scale a) (scale b)) 10" by (simp add: rs_def)
  let ?q = "n sdiv mantissa b"
  have "scale a \<le> rs + scale b" by (simp add: rs_def)
  then have "(10::rat) ^ (rs + scale b) = 10 ^ (rs + scale b - scale a) * 10 ^ scale a"
    by (simp flip: power_add)
  then have ratio: "dec_val a / dec_val b = of_int n / of_int (mantissa b) / 10 ^ rs"
    using b0 by (simp add: dec_val_def n_def power_add field_simps)
  have vc: "dec_val c = of_int ?q / 10 ^ rs" by (simp add: c dec_val_def)
  note bd = sdiv_bounds[OF b0, of n]
  have bpos: "(0::rat) < \<bar>of_int (mantissa b)\<bar>" using b0 by simp
  have lo: "\<bar>of_int ?q\<bar> * \<bar>of_int (mantissa b)\<bar> \<le> (\<bar>of_int n\<bar> :: rat)"
    using of_int_le_iff[THEN iffD2, OF bd(1), where 'a1 = rat] by simp
  have hi: "\<bar>of_int n\<bar> < (\<bar>of_int ?q\<bar> + 1) * (\<bar>of_int (mantissa b)\<bar> :: rat)"
    using of_int_less_iff[THEN iffD2, OF bd(2), where 'a1 = rat] by simp
  have absr: "\<bar>dec_val a / dec_val b\<bar> = \<bar>of_int n\<bar> / \<bar>of_int (mantissa b)\<bar> / 10 ^ rs"
    unfolding ratio by (simp add: abs_divide abs_mult)
  have absc: "\<bar>dec_val c\<bar> = \<bar>of_int ?q\<bar> / 10 ^ rs" unfolding vc by (simp add: abs_divide)
  have "\<bar>of_int ?q\<bar> \<le> \<bar>of_int n\<bar> / (\<bar>of_int (mantissa b)\<bar> :: rat)"
    using lo bpos by (simp only: pos_le_divide_eq)
  then show "\<bar>dec_val c\<bar> \<le> \<bar>dec_val a / dec_val b\<bar>"
    unfolding absr absc by (rule divide_right_mono) simp
  have "\<bar>of_int n\<bar> / \<bar>of_int (mantissa b)\<bar> < (\<bar>of_int ?q\<bar> + 1 :: rat)"
    using hi bpos by (simp only: pos_divide_less_eq)
  then have "\<bar>of_int n\<bar> / \<bar>of_int (mantissa b)\<bar> / 10 ^ rs < (\<bar>of_int ?q\<bar> + 1 :: rat) / 10 ^ rs"
    by (rule divide_strict_right_mono) simp
  then show "\<bar>dec_val a / dec_val b\<bar> < \<bar>dec_val c\<bar> + 1 / 10 ^ scale c"
    unfolding absr absc by (simp add: c add_divide_distrib)
  show "sgn (dec_val c) = sgn (dec_val a / dec_val b)" if "dec_val c \<noteq> 0"
  proof -
    have "?q \<noteq> 0" using that vc by auto
    then have "sgn ?q = sgn n * sgn (mantissa b)" by (rule bd(3))
    moreover have "sgn (of_int x :: rat) = of_int (sgn x)" for x by (simp add: sgn_if)
    ultimately have "sgn (of_int ?q :: rat) = sgn (of_int n) * sgn (of_int (mantissa b))"
      by simp
    then show ?thesis by (simp add: ratio vc sgn_divide sgn_mult)
  qed
qed

section \<open>Reading back what was printed\<close>

lemma accumulate_exact:
  assumes "0 \<le> m" "\<forall>c \<in> set cs. is_ascii_digit c"
    and "m * 10 ^ length cs + int (digits_value cs) \<le> i128_max"
  shows "accumulate m cs = Some (m * 10 ^ length cs + int (digits_value cs))"
  using assms
proof (induction cs arbitrary: m)
  case Nil
  then show ?case by simp
next
  case (Cons c cs)
  let ?m = "m * 10 + int (c - 48)"
  have eq: "m * 10 ^ length (c # cs) + int (digits_value (c # cs)) =
      ?m * 10 ^ length cs + int (digits_value cs)"
    by (simp add: digits_value_Cons algebra_simps)
  have m0: "0 \<le> ?m" using Cons.prems(1) by simp
  have "?m * 1 \<le> ?m * 10 ^ length cs" using m0 by (intro mult_left_mono) simp_all
  also have "\<dots> \<le> ?m * 10 ^ length cs + int (digits_value cs)" by simp
  also have "\<dots> \<le> i128_max" using Cons.prems(3) unfolding eq .
  finally have "?m \<le> i128_max" by simp
  moreover have "m * 10 \<le> ?m" by simp
  ultimately have fits: "in_i128 (m * 10)" "in_i128 ?m"
    using Cons.prems(1) by (simp_all add: in_i128_def i128_min_def)
  have "accumulate ?m cs = Some (?m * 10 ^ length cs + int (digits_value cs))"
    using Cons m0 eq by (intro Cons.IH) simp_all
  then show ?case using fits eq by (simp add: checked_i128_def)
qed

lemma accumulate_overflow:
  assumes "0 \<le> m" "\<forall>c \<in> set cs. is_ascii_digit c"
    and "accumulate m cs = Some v"
  shows "v = m * 10 ^ length cs + int (digits_value cs) \<and> (m \<le> i128_max \<longrightarrow> v \<le> i128_max)"
  using assms
proof (induction cs arbitrary: m)
  case Nil
  then show ?case by simp
next
  case (Cons c cs)
  from Cons.prems(3) have "accumulate (m * 10 + int (c - 48)) cs = Some v"
    and "in_i128 (m * 10 + int (c - 48))"
    by (auto split: option.splits simp: machine_simps)
  with Cons.IH[of "m * 10 + int (c - 48)"] Cons.prems(1,2) show ?case
    by (simp add: digits_value_Cons algebra_simps in_i128_def)
qed

text \<open>The printed form, as a sign, a whole part and a fractional part of digits.\<close>

lemma to_string_shape:
  obtains I F where "decimal_to_string d =
      (if mantissa d < 0 then [45] else []) @ I @ (if scale d = 0 then [] else 46 # F)"
    "length F = scale d" "I \<noteq> []" "\<forall>c \<in> set (I @ F). is_ascii_digit c"
    "digits_value (I @ F) = nat \<bar>mantissa d\<bar>"
proof -
  let ?ds = "show_nat (nat \<bar>mantissa d\<bar>)"
  show thesis
  proof (cases "scale d = 0")
    case True
    then show thesis
      by (intro that[of ?ds "[]"]) (auto simp: decimal_to_string_def Let_def show_nat_digits)
  next
    case False
    define pd where "pd = (if length ?ds \<le> scale d
      then replicate (scale d - length ?ds + 1) 48 @ ?ds else ?ds)"
    have len: "scale d < length pd" by (simp add: pd_def)
    have dig: "\<forall>c \<in> set pd. is_ascii_digit c"
      by (auto simp: pd_def show_nat_digits)
    have val: "digits_value pd = nat \<bar>mantissa d\<bar>"
      by (simp add: pd_def del: replicate.simps)
    let ?k = "length pd - scale d"
    have str: "decimal_to_string d =
        (if mantissa d < 0 then [45] else []) @ take ?k pd @ 46 # drop ?k pd"
      using False by (simp add: decimal_to_string_def Let_def pd_def)
    show thesis
      using False str len dig val by (intro that[of "take ?k pd" "drop ?k pd"]) auto
  qed
qed

lemma digits_free:
  assumes "\<forall>c \<in> set s. is_ascii_digit c"
  shows "45 \<notin> set s" "43 \<notin> set s" "46 \<notin> set s" "\<forall>c \<in> set s. \<not> is_whitespace c"
  using assms digit_not_space by (auto simp: is_ascii_digit_def)

text \<open>What the literal parser answers on a sign, a whole part and a fractional part.\<close>

lemma parse_literal:
  assumes I: "I \<noteq> []" "\<forall>c \<in> set (I @ F). is_ascii_digit c" "length F \<le> MAX_SCALE"
    and input: "input = (if neg then [45] else []) @ I @ (if F = [] then [] else 46 # F)"
  shows "decimal_parse input =
    (if int (digits_value (I @ F)) \<le> i128_max
     then Inr \<lparr>mantissa = (if neg then - int (digits_value (I @ F)) else int (digits_value (I @ F))),
              scale = length F\<rparr>
     else Inl (NotALiteral input))"
proof -
  let ?b = "I @ (if F = [] then [] else 46 # F)"
  note IF = digits_free[OF I(2)]
  obtain c r where cr: "I = c # r" using I(1) by (meson neq_Nil_conv)
  then have c: "c \<noteq> 45" "c \<noteq> 43" using IF(1,2) by auto
  have sep: "\<not> is_whitespace 45" "\<not> is_whitespace 46" by (simp_all add: is_whitespace_def)
  have "\<forall>c \<in> set input. \<not> is_whitespace c"
    using IF(4) sep by (auto simp: input)
  then have tr: "trim input = input" by (rule trim_no_space)
  have sgn: "(case strip_prefix [45] input of
       Some rest \<Rightarrow> (True, rest)
     | None \<Rightarrow> (False, case strip_prefix [43] input of Some rest \<Rightarrow> rest | None \<Rightarrow> input)) = (neg, ?b)"
    using cr c by (simp add: input strip_prefix_single)
  have dot: "(case split_once 46 ?b of Some (i, f) \<Rightarrow> (i, f) | None \<Rightarrow> (?b, [])) = (I, F)"
    using IF(3) by (simp add: split_once_append split_once_None[THEN iffD2])
  have acc: "accumulate 0 (I @ F) =
      (if int (digits_value (I @ F)) \<le> i128_max then Some (int (digits_value (I @ F))) else None)"
    using accumulate_exact[of 0 "I @ F"] accumulate_overflow[of 0 "I @ F"] I(2)
    by (cases "accumulate 0 (I @ F)") (auto simp: i128_max_def)
  show ?thesis
    unfolding decimal_parse_def Let_def tr sgn prod.case dot
    using I(1,3) I(2) acc by simp
qed

section \<open>Properties\<close>

text \<open>
  Addition, subtraction and multiplication of decimals are exact or refused: when
  the checked operation answers, the answer is a well-formed decimal (128-bit mantissa,
  scale at most 38) that stands for exactly the rational sum, difference or product; when
  it does not answer, the error is the overflow error.
\<close>

theorem decimal_arithmetic_exact:
  assumes "dec_wf a" "dec_wf b"
  shows "(case decimal_checked_add a b of
            Inr c \<Rightarrow> dec_wf c \<and> dec_val c = dec_val a + dec_val b | Inl e \<Rightarrow> e = DecimalOverflow) \<and>
         (case decimal_checked_sub a b of
            Inr c \<Rightarrow> dec_wf c \<and> dec_val c = dec_val a - dec_val b | Inl e \<Rightarrow> e = DecimalOverflow) \<and>
         (case decimal_checked_mul a b of
            Inr c \<Rightarrow> dec_wf c \<and> dec_val c = dec_val a * dec_val b | Inl e \<Rightarrow> e = DecimalOverflow)"
proof (intro conjI)
  have al: "align a b = Inl e \<Longrightarrow> e = DecimalOverflow" for e
    by (auto simp: align_eq[OF assms] Let_def split: if_splits)
  show "(case decimal_checked_add a b of
      Inr c \<Rightarrow> dec_wf c \<and> dec_val c = dec_val a + dec_val b | Inl e \<Rightarrow> e = DecimalOverflow)"
    using al checked_add_spec[OF assms]
    by (auto split: sum.splits simp: decimal_checked_add_def result_simps)
  show "(case decimal_checked_sub a b of
      Inr c \<Rightarrow> dec_wf c \<and> dec_val c = dec_val a - dec_val b | Inl e \<Rightarrow> e = DecimalOverflow)"
    using al checked_sub_spec[OF assms]
    by (auto split: sum.splits simp: decimal_checked_sub_def result_simps)
  show "(case decimal_checked_mul a b of
      Inr c \<Rightarrow> dec_wf c \<and> dec_val c = dec_val a * dec_val b | Inl e \<Rightarrow> e = DecimalOverflow)"
    using checked_mul_spec[of a b]
    by (auto split: sum.splits simp: decimal_checked_mul_def Let_def result_simps)
qed

theorem decimal_arithmetic_exact_witness:
  "decimal_checked_add \<lparr>mantissa = 125, scale = 2\<rparr> \<lparr>mantissa = 5, scale = 1\<rparr> =
     Inr \<lparr>mantissa = 175, scale = 2\<rparr> \<and>
   dec_val \<lparr>mantissa = 175, scale = 2\<rparr> =
     dec_val \<lparr>mantissa = 125, scale = 2\<rparr> + dec_val \<lparr>mantissa = 5, scale = 1\<rparr>"
proof -
  let ?a = "\<lparr>mantissa = 125, scale = 2\<rparr>" and ?b = "\<lparr>mantissa = 5, scale = 1\<rparr>"
  have wf: "dec_wf ?a" "dec_wf ?b"
    by (simp_all add: dec_wf_def in_i128_def i128_min_def i128_max_def MAX_SCALE_def)
  have eq: "decimal_checked_add ?a ?b = Inr \<lparr>mantissa = 175, scale = 2\<rparr>"
    by (simp add: decimal_checked_add_def align_def pow10_def checked_i128_def in_i128_def
        i128_min_def i128_max_def)
  show ?thesis using decimal_arithmetic_exact[OF wf] eq by simp
qed

text \<open>
  Two decimals that can be brought onto one scale compare as the rational numbers
  they stand for, whatever their scales: \<open>1.250\<close> and \<open>1.25\<close> are equal.  The answer does
  not depend on the floating-point fallback.
\<close>

theorem decimal_cmp_exact:
  assumes "dec_wf a" "dec_wf b" "align a b = Inr lrs"
  shows "decimal_partial_cmp f64_cmp a b =
    Some (if dec_val a < dec_val b then Less
          else if dec_val a = dec_val b then Equal else Greater)"
proof -
  obtain l r s where lrs: "align a b = Inr (l, r, s)" using assms(3) by (cases lrs) auto
  have "int_cmp l r = (if dec_val a < dec_val b then Less
      else if dec_val a = dec_val b then Equal else Greater)"
    unfolding align_val(2,3)[OF assms(1,2) lrs] by (rule cmp_scaled) simp
  then show ?thesis by (simp add: decimal_partial_cmp_def lrs)
qed

theorem decimal_cmp_exact_witness:
  "decimal_partial_cmp (\<lambda>_ _. None) \<lparr>mantissa = 1250, scale = 3\<rparr> \<lparr>mantissa = 125, scale = 2\<rparr> =
     Some Equal"
proof -
  let ?a = "\<lparr>mantissa = 1250, scale = 3\<rparr>" and ?b = "\<lparr>mantissa = 125, scale = 2\<rparr>"
  have wf: "dec_wf ?a" "dec_wf ?b"
    by (simp_all add: dec_wf_def in_i128_def i128_min_def i128_max_def MAX_SCALE_def)
  have al: "align ?a ?b = Inr (1250, 1250, 3)"
    by (simp add: align_def pow10_def checked_i128_def in_i128_def i128_min_def i128_max_def)
  show ?thesis
    using decimal_cmp_exact[OF wf al, of "\<lambda>_ _. None"] by (simp add: dec_val_def)
qed

text \<open>
  C40: The text form of a decimal survives a round trip unchanged: parsing what was
  printed gives the same mantissa and the same scale, for every well-formed decimal
  except one with the most negative mantissa, whose printed form the parser refuses
  because it accumulates the magnitude before it applies the sign.
\<close>

theorem decimal_print_parse:
  assumes "dec_wf d"
  shows "decimal_parse (decimal_to_string d) =
    (if mantissa d = i128_min then Inl (NotALiteral (decimal_to_string d)) else Inr d)"
proof -
  obtain I F where s: "decimal_to_string d =
      (if mantissa d < 0 then [45] else []) @ I @ (if scale d = 0 then [] else 46 # F)"
    and F: "length F = scale d" and I: "I \<noteq> []" "\<forall>c \<in> set (I @ F). is_ascii_digit c"
    and v: "digits_value (I @ F) = nat \<bar>mantissa d\<bar>"
    by (rule to_string_shape)
  have "length F \<le> MAX_SCALE" using assms F by (simp add: dec_wf_def)
  moreover have "decimal_to_string d =
      (if mantissa d < 0 then [45] else []) @ I @ (if F = [] then [] else 46 # F)"
    using s F by auto
  ultimately have "decimal_parse (decimal_to_string d) =
    (if int (digits_value (I @ F)) \<le> i128_max
     then Inr \<lparr>mantissa = (if mantissa d < 0 then - int (digits_value (I @ F))
                          else int (digits_value (I @ F))), scale = length F\<rparr>
     else Inl (NotALiteral (decimal_to_string d)))"
    by (rule parse_literal[OF I])
  moreover have "int (digits_value (I @ F)) = \<bar>mantissa d\<bar>" by (simp add: v)
  moreover have "\<bar>mantissa d\<bar> \<le> i128_max \<longleftrightarrow> mantissa d \<noteq> i128_min"
    using assms by (auto simp: dec_wf_def in_i128_def i128_min_def i128_max_def)
  ultimately show ?thesis using F by (cases d) auto
qed

theorem decimal_print_parse_witness:
  "decimal_parse (decimal_to_string \<lparr>mantissa = -12750, scale = 3\<rparr>) =
     Inr \<lparr>mantissa = -12750, scale = 3\<rparr>"
  using decimal_print_parse[of "\<lparr>mantissa = -12750, scale = 3\<rparr>"]
  by (simp add: dec_wf_def in_i128_def i128_min_def i128_max_def MAX_SCALE_def)

text \<open>
  Division truncates toward zero at the result scale (at least ten digits): the
  quotient never exceeds the exact ratio in magnitude, is less than one unit in the last
  place below it, never has the opposite sign, and keeps the result scale; division by
  zero is always the \<open>TypeMismatch\<close> error.
\<close>

theorem decimal_div_truncates:
  assumes "dec_wf a" "dec_wf b" "decimal_checked_div a b = Some (Inr c)"
  shows "mantissa b \<noteq> 0 \<and> scale c = max (max (scale a) (scale b)) 10 \<and>
    \<bar>dec_val c\<bar> \<le> \<bar>dec_val a / dec_val b\<bar> \<and>
    \<bar>dec_val a / dec_val b\<bar> < \<bar>dec_val c\<bar> + 1 / 10 ^ scale c \<and>
    (dec_val c \<noteq> 0 \<longrightarrow> sgn (dec_val c) = sgn (dec_val a / dec_val b))"
  using checked_div_spec[OF assms] by blast

theorem decimal_div_truncates_witness:
  "decimal_checked_div \<lparr>mantissa = -7, scale = 0\<rparr> \<lparr>mantissa = 3, scale = 0\<rparr> =
     Some (Inr \<lparr>mantissa = -23333333333, scale = 10\<rparr>) \<and>
   \<bar>dec_val \<lparr>mantissa = -23333333333, scale = 10\<rparr>\<bar> \<le>
     \<bar>dec_val \<lparr>mantissa = -7, scale = 0\<rparr> / dec_val \<lparr>mantissa = 3, scale = 0\<rparr>\<bar>"
proof -
  let ?a = "\<lparr>mantissa = -7, scale = 0\<rparr>" and ?b = "\<lparr>mantissa = 3, scale = 0\<rparr>"
  have wf: "dec_wf ?a" "dec_wf ?b"
    by (simp_all add: dec_wf_def in_i128_def i128_min_def i128_max_def)
  have eq: "decimal_checked_div ?a ?b = Some (Inr \<lparr>mantissa = -23333333333, scale = 10\<rparr>)"
    by (simp add: decimal_checked_div_def pow10_def checked_i128_def in_i128_def
        i128_min_def i128_max_def MAX_SCALE_def i128_div_def signed_divide_int_def)
  show ?thesis using decimal_div_truncates[OF wf eq] eq by simp
qed

text \<open>
  Division is the one checked operation that can still abort the program.  On
  well-formed decimals it panics exactly when the shifted numerator is the most negative
  128-bit integer and the divisor's mantissa is minus one, and such operands are reached
  by ordinary arithmetic: subtracting \<open>1e-10\<close> from the smallest parseable decimal of
  scale ten and dividing by \<open>-1\<close> does it.
\<close>

theorem decimal_div_panics_iff:
  assumes "dec_wf a" "dec_wf b"
  shows "decimal_checked_div a b = None \<longleftrightarrow>
    mantissa b = -1 \<and>
    mantissa a * 10 ^ (max (max (scale a) (scale b)) 10 + scale b - scale a) = i128_min"
proof (cases "mantissa b = 0")
  case True
  then show ?thesis by (simp add: decimal_checked_div_def)
next
  case False
  let ?sh = "max (max (scale a) (scale b)) 10 + scale b - scale a"
  have "?sh \<le> MAX_SCALE" if "mantissa a * 10 ^ ?sh = i128_min"
  proof (rule ccontr)
    assume "\<not> ?sh \<le> MAX_SCALE"
    then have "(10::int) dvd 10 ^ ?sh" by (simp add: MAX_SCALE_def)
    then have "(10::int) dvd i128_min" using that by (metis dvd_mult)
    then show False by (simp add: i128_min_def)
  qed
  moreover have "in_i128 i128_min" by (simp add: in_i128_def i128_min_def i128_max_def)
  ultimately show ?thesis
    using checked_div_cases[OF assms False] by (auto simp: Let_def)
qed

theorem decimal_div_panics_iff_witness:
  "decimal_checked_sub \<lparr>mantissa = - i128_max, scale = 10\<rparr> \<lparr>mantissa = 1, scale = 10\<rparr> =
     Inr \<lparr>mantissa = i128_min, scale = 10\<rparr> \<and>
   decimal_checked_div \<lparr>mantissa = i128_min, scale = 10\<rparr> \<lparr>mantissa = -1, scale = 0\<rparr> = None"
proof -
  let ?a = "\<lparr>mantissa = i128_min, scale = 10\<rparr>" and ?b = "\<lparr>mantissa = -1, scale = 0\<rparr>"
  have wf: "dec_wf ?a" "dec_wf ?b"
    by (simp_all add: dec_wf_def in_i128_def i128_min_def i128_max_def MAX_SCALE_def)
  have "decimal_checked_sub \<lparr>mantissa = - i128_max, scale = 10\<rparr> \<lparr>mantissa = 1, scale = 10\<rparr> = Inr ?a"
    by (simp add: decimal_checked_sub_def align_def pow10_def checked_i128_def in_i128_def
        i128_min_def i128_max_def)
  then show ?thesis using decimal_div_panics_iff[OF wf] by simp
qed

end
