(* ===== verification/Plugin_Lifecycle.thy ===== *)
theory Plugin_Lifecycle
  imports Ono_Text
begin

text \<open>
  The plugin lifecycle (\<open>crates/ono-kuang-protocol/src/lifecycle.rs\<close>): every method of
  \<open>Lifecycle\<close> is a function that answers the new lifecycle or the refused transition.
  The invocation counter is a 32-bit word and its increment wraps, as the release build's
  does.
\<close>

section \<open>States\<close>

datatype PluginState =
  PsInstalled | PsEnabled | PsLoaded | PsActive | PsDegraded | PsQuarantined

definition PluginState_ALL :: "PluginState list" where
  "PluginState_ALL = [PsInstalled, PsEnabled, PsLoaded, PsActive, PsDegraded, PsQuarantined]"

fun PluginState_as_str :: "PluginState \<Rightarrow> ustr" where
  "PluginState_as_str PsInstalled = asc ''installed''"
| "PluginState_as_str PsEnabled = asc ''enabled''"
| "PluginState_as_str PsLoaded = asc ''loaded''"
| "PluginState_as_str PsActive = asc ''active''"
| "PluginState_as_str PsDegraded = asc ''degraded''"
| "PluginState_as_str PsQuarantined = asc ''quarantined''"

interpretation plugin_words: vocabulary PluginState_ALL PluginState_as_str
proof unfold_locales
  show "x \<in> set PluginState_ALL" for x by (cases x) (simp_all add: PluginState_ALL_def)
  show "PluginState_as_str x = PluginState_as_str y \<Longrightarrow> x = y" for x y
    by (cases x; cases y) simp_all
qed

definition code_has_run :: "PluginState \<Rightarrow> bool" where
  "code_has_run s \<longleftrightarrow> s \<in> {PsLoaded, PsActive, PsDegraded}"

record TransitionError =
  from_state :: ustr
  event :: ustr

datatype Base = BInstalled | BEnabled | BLoaded | BQuarantined

record Lifecycle =
  base :: Base
  degraded :: bool
  invocations :: u32
  quarantine_reason :: "ustr option"

section \<open>Operations\<close>

definition installed :: Lifecycle where
  "installed = \<lparr>base = BInstalled, degraded = False, invocations = 0, quarantine_reason = None\<rparr>"

fun state :: "Lifecycle \<Rightarrow> PluginState" where
  "state l =
     (case base l of
        BInstalled \<Rightarrow> PsInstalled
      | BEnabled \<Rightarrow> PsEnabled
      | BQuarantined \<Rightarrow> PsQuarantined
      | BLoaded \<Rightarrow> if invocations l > 0 then PsActive
                   else if degraded l then PsDegraded else PsLoaded)"

definition is_degraded :: "Lifecycle \<Rightarrow> bool" where
  "is_degraded l \<longleftrightarrow> base l = BLoaded \<and> degraded l"

definition refuse :: "Lifecycle \<Rightarrow> string \<Rightarrow> TransitionError" where
  "refuse l ev = \<lparr>from_state = PluginState_as_str (state l), event = asc ev\<rparr>"

definition enable :: "Lifecycle \<Rightarrow> TransitionError + Lifecycle" where
  "enable l = (if base l = BInstalled then Inr (l\<lparr>base := BEnabled\<rparr>) else Inl (refuse l ''enable''))"

definition disable :: "Lifecycle \<Rightarrow> TransitionError + Lifecycle" where
  "disable l = (if base l = BEnabled then Inr (l\<lparr>base := BInstalled\<rparr>) else Inl (refuse l ''disable''))"

definition load :: "bool \<Rightarrow> Lifecycle \<Rightarrow> TransitionError + Lifecycle" where
  "load deg l =
     (if base l = BEnabled then Inr (l\<lparr>base := BLoaded, degraded := deg\<rparr>)
      else Inl (refuse l ''load''))"

definition unload :: "Lifecycle \<Rightarrow> TransitionError + Lifecycle" where
  "unload l =
     (if base l = BLoaded \<and> invocations l = 0 then Inr (l\<lparr>base := BEnabled, degraded := False\<rparr>)
      else Inl (refuse l ''unload''))"

definition begin_invocation :: "Lifecycle \<Rightarrow> TransitionError + Lifecycle" where
  "begin_invocation l =
     (if base l = BLoaded then Inr (l\<lparr>invocations := invocations l + 1\<rparr>)
      else Inl (refuse l ''begin-invocation''))"

definition end_invocation :: "Lifecycle \<Rightarrow> TransitionError + Lifecycle" where
  "end_invocation l =
     (if base l = BLoaded \<and> invocations l > 0 then Inr (l\<lparr>invocations := invocations l - 1\<rparr>)
      else Inl (refuse l ''end-invocation''))"

definition degrade :: "Lifecycle \<Rightarrow> TransitionError + Lifecycle" where
  "degrade l = (if base l = BLoaded then Inr (l\<lparr>degraded := True\<rparr>) else Inl (refuse l ''degrade''))"

definition restore :: "Lifecycle \<Rightarrow> TransitionError + Lifecycle" where
  "restore l =
     (if base l = BLoaded \<and> degraded l then Inr (l\<lparr>degraded := False\<rparr>)
      else Inl (refuse l ''restore''))"

definition quarantine :: "ustr \<Rightarrow> Lifecycle \<Rightarrow> Lifecycle" where
  "quarantine reason l =
     l\<lparr>base := BQuarantined, degraded := False, invocations := 0, quarantine_reason := Some reason\<rparr>"

section \<open>Histories\<close>

text \<open>A call of one of the methods, and a supervisor's history of accepted calls.\<close>

datatype Call =
    CEnable | CDisable | CLoad bool | CUnload | CBegin | CEnd | CDegrade | CRestore
  | CQuarantine ustr

fun answer :: "Lifecycle \<Rightarrow> Call \<Rightarrow> TransitionError + Lifecycle" where
  "answer l CEnable = enable l"
| "answer l CDisable = disable l"
| "answer l (CLoad d) = load d l"
| "answer l CUnload = unload l"
| "answer l CBegin = begin_invocation l"
| "answer l CEnd = end_invocation l"
| "answer l CDegrade = degrade l"
| "answer l CRestore = restore l"
| "answer l (CQuarantine r) = Inr (quarantine r l)"

definition accepted :: "Lifecycle \<Rightarrow> Call \<Rightarrow> Lifecycle option" where
  "accepted l c = (case answer l c of Inl _ \<Rightarrow> None | Inr l' \<Rightarrow> Some l')"

lemmas lifecycle_defs =
  accepted_def enable_def disable_def load_def unload_def begin_invocation_def end_invocation_def
  degrade_def restore_def quarantine_def

definition lifecycle_ok :: "Lifecycle \<Rightarrow> bool" where
  "lifecycle_ok l \<longleftrightarrow>
     (base l \<noteq> BLoaded \<longrightarrow> invocations l = 0 \<and> \<not> degraded l) \<and>
     (quarantine_reason l \<noteq> None \<longleftrightarrow> base l = BQuarantined)"

lemma accepted_ok: "lifecycle_ok l \<Longrightarrow> accepted l c = Some l' \<Longrightarrow> lifecycle_ok l'"
  by (cases c) (auto simp: lifecycle_ok_def lifecycle_defs split: if_splits)

lemma accepted_quarantined:
  "base l = BQuarantined \<Longrightarrow> accepted l c = Some l' \<Longrightarrow> base l' = BQuarantined"
  by (cases c) (auto simp: lifecycle_defs split: if_splits)

interpretation lifecycle: guarded_machine accepted lifecycle_ok "\<lambda>l. base l = BQuarantined"
  by unfold_locales (blast intro: accepted_ok accepted_quarantined)+

lemma installed_ok [simp]: "lifecycle_ok installed"
  by (simp add: lifecycle_ok_def installed_def)

lemma code_has_run_iff: "code_has_run (state l) \<longleftrightarrow> base l = BLoaded"
  by (cases "base l") (simp_all add: code_has_run_def)

section \<open>Properties\<close>

text \<open>Calls that end an instance, and the history of an instance that is still up.\<close>

definition ends_instance :: "Call \<Rightarrow> bool" where
  "ends_instance c \<longleftrightarrow> c = CUnload \<or> (\<exists>r. c = CQuarantine r)"

definition instance_up :: "Call list \<Rightarrow> bool" where
  "instance_up cs \<longleftrightarrow>
     (\<exists>xs d ys. cs = xs @ CLoad d # ys \<and> (\<forall>c \<in> set ys. \<not> ends_instance c))"

lemma instance_up_snoc:
  "instance_up (cs @ [c]) \<longleftrightarrow> (\<exists>d. c = CLoad d) \<or> instance_up cs \<and> \<not> ends_instance c"
proof
  assume "instance_up (cs @ [c])"
  then obtain xs d ys where e: "cs @ [c] = xs @ CLoad d # ys" and q: "\<forall>c \<in> set ys. \<not> ends_instance c"
    by (auto simp: instance_up_def)
  show "(\<exists>d. c = CLoad d) \<or> instance_up cs \<and> \<not> ends_instance c"
  proof (cases ys rule: rev_cases)
    case Nil
    then show ?thesis using e by simp
  next
    case (snoc zs z)
    then have "cs = xs @ CLoad d # zs" "z = c" using e by simp_all
    then have "instance_up cs" "\<not> ends_instance c"
      using q snoc unfolding instance_up_def by (metis UnCI set_append, simp)
    then show ?thesis by simp
  qed
next
  assume r: "(\<exists>d. c = CLoad d) \<or> instance_up cs \<and> \<not> ends_instance c"
  show "instance_up (cs @ [c])"
  proof (cases "\<exists>d. c = CLoad d")
    case True
    then show ?thesis unfolding instance_up_def by (metis empty_iff list.set(1))
  next
    case False
    then obtain xs d ys where "cs = xs @ CLoad d # ys" "\<forall>c \<in> set ys. \<not> ends_instance c"
      "\<not> ends_instance c"
      using r by (auto simp: instance_up_def)
    then have "cs @ [c] = xs @ CLoad d # (ys @ [c]) \<and> (\<forall>c \<in> set (ys @ [c]). \<not> ends_instance c)" by auto
    then show ?thesis unfolding instance_up_def by blast
  qed
qed

text \<open>
  Package code has run exactly when it was loaded: for every history of accepted
  calls on a freshly installed package, the shown state is loaded, active or degraded if
  and only if the history holds a load with no unload and no quarantine behind it, and a
  package that is not loaded keeps no invocation and no degradation.
\<close>

theorem code_runs_only_after_load:
  assumes "run_events accepted installed cs = Some l"
  shows "(code_has_run (state l) \<longleftrightarrow> instance_up cs) \<and>
    (\<not> code_has_run (state l) \<longrightarrow> invocations l = 0 \<and> \<not> degraded l)"
proof -
  have "base l = BLoaded \<longleftrightarrow> instance_up cs"
    using assms
  proof (induction cs arbitrary: l rule: rev_induct)
    case Nil
    then show ?case by (auto simp: installed_def instance_up_def)
  next
    case (snoc c cs)
    then obtain u where u: "run_events accepted installed cs = Some u" "accepted u c = Some l"
      by (auto simp: run_events_snoc)
    have "base l = BLoaded \<longleftrightarrow> (\<exists>d. c = CLoad d) \<or> base u = BLoaded \<and> \<not> ends_instance c"
      using u(2) by (cases c) (auto simp: lifecycle_defs ends_instance_def split: if_splits)
    then show ?case using snoc.IH[OF u(1)] by (simp add: instance_up_snoc)
  qed
  moreover have "lifecycle_ok l" using lifecycle.run_good[OF installed_ok assms] .
  ultimately show ?thesis unfolding code_has_run_iff by (auto simp: lifecycle_ok_def)
qed

theorem code_runs_only_after_load_witness:
  "\<exists>l. run_events accepted installed [CEnable, CLoad True, CBegin] = Some l \<and> code_has_run (state l)"
proof -
  obtain l where l: "run_events accepted installed [CEnable, CLoad True, CBegin] = Some l"
    by (simp add: lifecycle_defs installed_def)
  have "instance_up [CEnable, CLoad True, CBegin]"
    unfolding instance_up_def
    by (rule exI[of _ "[CEnable]"], rule exI[of _ True], rule exI[of _ "[CBegin]"])
      (simp add: ends_instance_def)
  with code_runs_only_after_load[OF l] l show ?thesis by blast
qed

text \<open>
  Quarantine is final and inert: once a history holds a quarantine the package shows
  quarantined, runs no code, keeps the reason it was last given, and every call other
  than a further quarantine is refused with an error that names the quarantined state.
\<close>

theorem quarantine_is_final:
  assumes "run_events accepted installed (xs @ CQuarantine r # ys) = Some l"
    and "\<forall>c \<in> set ys. \<forall>r'. c \<noteq> CQuarantine r'"
  shows "state l = PsQuarantined \<and> \<not> code_has_run (state l) \<and> quarantine_reason l = Some r \<and>
    ys = [] \<and>
    (\<forall>c. (\<forall>r'. c \<noteq> CQuarantine r') \<longrightarrow>
       (\<exists>ev. answer l c = Inl \<lparr>from_state = asc ''quarantined'', event = ev\<rparr>))"
proof -
  obtain u where u: "run_events accepted u ys = Some l" "base u = BQuarantined"
      "quarantine_reason u = Some r"
    using assms(1)
    by (auto simp: run_events_append lifecycle_defs split: option.splits)
  have refused: "accepted v c = None"
    if "base v = BQuarantined" "\<forall>r'. c \<noteq> CQuarantine r'" for v c
    using that by (cases c) (simp_all add: lifecycle_defs)
  have "ys = []"
    using u(1) refused[OF u(2)] assms(2) by (cases ys) auto
  then have "l = u" using u(1) by simp
  have "\<exists>ev. answer l c = Inl \<lparr>from_state = asc ''quarantined'', event = ev\<rparr>"
    if "\<forall>r'. c \<noteq> CQuarantine r'" for c
    using that u(2) \<open>l = u\<close> by (cases c) (simp_all add: lifecycle_defs refuse_def)
  then show ?thesis
    using u \<open>l = u\<close> \<open>ys = []\<close> by (simp add: code_has_run_def)
qed

theorem quarantine_is_final_witness:
  "\<exists>l. run_events accepted installed [CEnable, CLoad False, CQuarantine [7]] = Some l \<and>
     state l = PsQuarantined \<and> quarantine_reason l = Some [7]"
proof -
  obtain l where l: "run_events accepted installed ([CEnable, CLoad False] @ CQuarantine [7] # []) = Some l"
    by (simp add: lifecycle_defs installed_def)
  from quarantine_is_final[OF this] l show ?thesis by simp
qed

text \<open>What the calls of a running instance leave of its degradation.\<close>

fun flag_after :: "bool \<Rightarrow> Call list \<Rightarrow> bool" where
  "flag_after d [] = d"
| "flag_after d (c # cs) = flag_after (if c = CDegrade then True else if c = CRestore then False else d) cs"

text \<open>
  While an instance is up, invocations and degradation do not disturb each other.
  For any accepted interleaving of invocation starts, invocation ends, degradations and
  restorations on a loaded package, the invocation counter is the number of starts minus
  the number of ends (modulo the width of the counter), the degradation is what the last
  degrade or restore left, nothing else moves, and the package can be unloaded exactly
  when the counter is back at zero.
\<close>

theorem invocations_and_degradation_independent:
  assumes "base l = BLoaded"
    and "run_events accepted l cs = Some l'"
    and "set cs \<subseteq> {CBegin, CEnd, CDegrade, CRestore}"
  shows "l' = l\<lparr>invocations := invocations l + of_nat (count_list cs CBegin)
                                  - of_nat (count_list cs CEnd),
               degraded := flag_after (degraded l) cs\<rparr> \<and>
    (accepted l' CUnload \<noteq> None \<longleftrightarrow>
       invocations l + of_nat (count_list cs CBegin) = of_nat (count_list cs CEnd))"
proof -
  have "l' = l\<lparr>invocations := invocations l + of_nat (count_list cs CBegin)
                                  - of_nat (count_list cs CEnd),
               degraded := flag_after (degraded l) cs\<rparr>"
    using assms
  proof (induction cs arbitrary: l)
    case Nil
    then show ?case by simp
  next
    case (Cons c cs)
    then obtain u where u: "accepted l c = Some u" "run_events accepted u cs = Some l'"
      by (auto split: option.splits)
    have c: "c \<in> {CBegin, CEnd, CDegrade, CRestore}" using Cons.prems(3) by simp
    have "base u = BLoaded" using u(1) c Cons.prems(1)
      by (auto simp: lifecycle_defs split: if_splits)
    from Cons.IH[OF this u(2)] Cons.prems(3) u(1) c Cons.prems(1) show ?case
      by (auto simp: lifecycle_defs algebra_simps split: if_splits)
  qed
  then show ?thesis
    using assms(1) by (simp add: lifecycle_defs)
qed

theorem invocations_and_degradation_independent_witness:
  "\<exists>l. run_events accepted \<lparr>base = BLoaded, degraded = False, invocations = 0, quarantine_reason = None\<rparr>
        [CBegin, CDegrade, CEnd] = Some l \<and> state l = PsDegraded \<and> accepted l CUnload \<noteq> None"
proof -
  let ?l = "\<lparr>base = BLoaded, degraded = False, invocations = 0, quarantine_reason = None\<rparr>"
  obtain l where l: "run_events accepted ?l [CBegin, CDegrade, CEnd] = Some l"
    by (simp add: lifecycle_defs)
  have "l = ?l\<lparr>degraded := True\<rparr> \<and> accepted l CUnload \<noteq> None"
    using invocations_and_degradation_independent[OF _ l] by auto
  then have "accepted l CUnload \<noteq> None" and "state l = PsDegraded" by (blast, simp)
  then show ?thesis using l by blast
qed

end
