(* ===== verification/Api_Version.thy ===== *)
theory Api_Version
  imports Ono_Text "HOL-Library.Product_Lexorder"
begin

text \<open>
  Plugin API versions and version ranges (\<open>crates/ono-kuang-protocol/src/version.rs\<close>).
  The two numbers of a version are unsigned 32-bit; they are only read, printed and
  compared, so they are natural numbers with the ceiling in the invariant.
\<close>

section \<open>Versions\<close>

record ApiVersion =
  major :: nat
  minor :: nat

definition HOST_API :: ApiVersion where
  "HOST_API = \<lparr>major = 11, minor = 3\<rparr>"

text \<open>\<open>PackageInvalid\<close> with the text of the offending literal or range.\<close>

datatype KuangError = NotAVersion ustr | NamesNoVersion ustr

definition api_to_string :: "ApiVersion \<Rightarrow> ustr" where
  "api_to_string v = show_nat (major v) @ asc ''.'' @ show_nat (minor v)"

definition protocol_id :: "ApiVersion \<Rightarrow> ustr" where
  "protocol_id v = asc ''kuang-host/'' @ api_to_string v"

definition api_from_str :: "ustr \<Rightarrow> KuangError + ApiVersion" where
  "api_from_str s =
     (case split_once 46 s of
        Some (ma, mi) \<Rightarrow>
          and_then (ok_or (NotAVersion s) (parse_u32 ma)) (\<lambda>a.
          and_then (ok_or (NotAVersion s) (parse_u32 mi)) (\<lambda>b.
          Inr \<lparr>major = a, minor = b\<rparr>))
      | None \<Rightarrow> and_then (ok_or (NotAVersion s) (parse_u32 s)) (\<lambda>a. Inr \<lparr>major = a, minor = 0\<rparr>))"

section \<open>Ranges\<close>

datatype Comparator = GreaterEq | Greater | LessEq | Less | Exact

record VersionRange =
  source :: ustr
  clauses :: "(Comparator \<times> ApiVersion) list"

definition api_key :: "ApiVersion \<Rightarrow> nat \<times> nat" where
  "api_key v = (major v, minor v)"

fun satisfies :: "ApiVersion \<Rightarrow> Comparator \<times> ApiVersion \<Rightarrow> bool" where
  "satisfies v (GreaterEq, b) = (api_key v \<ge> api_key b)"
| "satisfies v (Greater, b) = (api_key v > api_key b)"
| "satisfies v (LessEq, b) = (api_key v \<le> api_key b)"
| "satisfies v (Less, b) = (api_key v < api_key b)"
| "satisfies v (Exact, b) = (api_key v = api_key b)"

definition contains :: "VersionRange \<Rightarrow> ApiVersion \<Rightarrow> bool" where
  "contains r v = list_all (satisfies v) (clauses r)"

definition parse_comparator :: "ustr \<Rightarrow> Comparator \<times> ustr" where
  "parse_comparator part =
     (case strip_prefix (asc ''>='') part of Some rest \<Rightarrow> (GreaterEq, rest) | None \<Rightarrow>
      case strip_prefix (asc ''<='') part of Some rest \<Rightarrow> (LessEq, rest) | None \<Rightarrow>
      case strip_prefix (asc ''>'') part of Some rest \<Rightarrow> (Greater, rest) | None \<Rightarrow>
      case strip_prefix (asc ''<'') part of Some rest \<Rightarrow> (Less, rest) | None \<Rightarrow>
      case strip_prefix (asc ''='') part of Some rest \<Rightarrow> (Exact, rest) | None \<Rightarrow> (Exact, part))"

fun parse_clauses :: "ustr list \<Rightarrow> KuangError + (Comparator \<times> ApiVersion) list" where
  "parse_clauses [] = Inr []"
| "parse_clauses (part # parts) =
     (let (comparator, rest) = parse_comparator part
      in and_then (api_from_str rest) (\<lambda>v.
         and_then (parse_clauses parts) (\<lambda>cs. Inr ((comparator, v) # cs))))"

definition range_from_str :: "ustr \<Rightarrow> KuangError + VersionRange" where
  "range_from_str s =
     and_then (parse_clauses (split_whitespace s)) (\<lambda>cs.
       if cs = [] then Inl (NamesNoVersion s) else Inr \<lparr>source = s, clauses = cs\<rparr>)"

section \<open>Reading back what was printed\<close>

definition api_ok :: "ApiVersion \<Rightarrow> bool" where
  "api_ok v \<longleftrightarrow> major v < 2 ^ 32 \<and> minor v < 2 ^ 32"

lemma dot_free: "46 \<notin> set (show_nat n)"
  by (rule show_nat_free) (simp add: is_ascii_digit_def)

lemma api_from_to_string: "api_ok v \<Longrightarrow> api_from_str (api_to_string v) = Inr v"
  using split_once_append[OF dot_free, of "major v" "show_nat (minor v)"]
  by (simp add: api_from_str_def api_to_string_def api_ok_def)

text \<open>A printed comparator; an exact one is printed bare.\<close>

fun comparator_text :: "Comparator \<Rightarrow> ustr" where
  "comparator_text GreaterEq = asc ''>=''"
| "comparator_text Greater = asc ''>''"
| "comparator_text LessEq = asc ''<=''"
| "comparator_text Less = asc ''<''"
| "comparator_text Exact = []"

definition clause_text :: "Comparator \<times> ApiVersion \<Rightarrow> ustr" where
  "clause_text c = comparator_text (fst c) @ api_to_string (snd c)"

lemma api_text_head:
  obtains d r where "api_to_string v = d # r" "is_ascii_digit d"
  using show_nat_digits[of _ "major v"]
  by (cases "show_nat (major v)") (auto simp: api_to_string_def)

lemma parse_comparator_text: "parse_comparator (clause_text (c, v)) = (c, api_to_string v)"
proof (rule api_text_head[of v])
  fix d r assume "api_to_string v = d # r" "is_ascii_digit d"
  then show ?thesis
    by (cases c)
      (auto simp: parse_comparator_def clause_text_def strip_prefix_def is_ascii_digit_def)
qed

lemma clause_text_solid: "c \<in> set (clause_text cv) \<Longrightarrow> \<not> is_whitespace c"
  using show_nat_digits digit_not_space
  by (cases cv; cases "fst cv") (auto simp: clause_text_def api_to_string_def is_whitespace_def
      dest!: show_nat_digits simp: is_ascii_digit_def)

text \<open>The clauses of a range, one blank between two of them.\<close>

fun range_text :: "(Comparator \<times> ApiVersion) list \<Rightarrow> ustr" where
  "range_text [] = []"
| "range_text [c] = clause_text c"
| "range_text (c # cs) = clause_text c @ asc '' '' @ range_text cs"

lemma clause_text_nonempty [simp]: "clause_text c \<noteq> []"
  by (simp add: clause_text_def api_to_string_def)

lemma split_range_text: "split_whitespace (range_text cs) = map clause_text cs"
proof (induction cs rule: range_text.induct)
  case 1
  then show ?case by (subst split_whitespace.simps) simp
next
  case (2 c)
  have "split_whitespace [] = []" by (subst split_whitespace.simps) simp
  then show ?case using split_whitespace_word[of "clause_text c" "[]"] clause_text_solid
    by (simp add: no_space_def list_all_iff)
next
  case (3 c c' cs)
  then show ?case
    using split_whitespace_word[of "clause_text c" "32 # range_text (c' # cs)"] clause_text_solid
    by (simp add: no_space_def list_all_iff)
qed

lemma parse_clauses_text:
  "(\<forall>c \<in> set cs. api_ok (snd c)) \<Longrightarrow> parse_clauses (map clause_text cs) = Inr cs"
  by (induction cs) (auto simp: parse_comparator_text api_from_to_string)

section \<open>Properties\<close>

text \<open>
  A version range written as one comparator per blank-separated word is read back as
  exactly those comparators, with its source kept, and then contains a version if and
  only if every comparator holds of it; a single version prints and reads back unchanged.
\<close>

theorem version_range_roundtrip:
  assumes "cs \<noteq> []" and "\<forall>c \<in> set cs. api_ok (snd c)"
  shows "range_from_str (range_text cs) = Inr \<lparr>source = range_text cs, clauses = cs\<rparr> \<and>
    (\<forall>v. contains \<lparr>source = range_text cs, clauses = cs\<rparr> v \<longleftrightarrow> (\<forall>c \<in> set cs. satisfies v c)) \<and>
    (\<forall>c \<in> set cs. api_from_str (api_to_string (snd c)) = Inr (snd c))"
  using assms
  by (simp add: range_from_str_def split_range_text parse_clauses_text contains_def list_all_iff
      api_from_to_string)

theorem version_range_roundtrip_witness:
  "\<exists>r. range_from_str (range_text [(GreaterEq, \<lparr>major = 11, minor = 1\<rparr>), (Less, \<lparr>major = 12, minor = 0\<rparr>)])
       = Inr r \<and> contains r HOST_API"
proof -
  let ?cs = "[(GreaterEq, \<lparr>major = 11, minor = 1\<rparr>), (Less, \<lparr>major = 12, minor = 0\<rparr>)]"
  have "range_from_str (range_text ?cs) = Inr \<lparr>source = range_text ?cs, clauses = ?cs\<rparr> \<and>
    contains \<lparr>source = range_text ?cs, clauses = ?cs\<rparr> HOST_API"
    using version_range_roundtrip[of ?cs] by (simp add: api_ok_def HOST_API_def api_key_def)
  then show ?thesis by blast
qed

end
