(* ===== verification/Wire_Frame.thy ===== *)
theory Wire_Frame
  imports Ono_Prelude "HOL-Library.Sublist"
begin

text \<open>
  The remote protocol's limits, frames and framed connection
  (\<open>crates/ono-protocol/src/limits.rs\<close>, \<open>frame.rs\<close>, \<open>connection.rs\<close>).  A buffer is the
  list of its bytes; \<open>decode\<close> answers with its result and the buffer it leaves.  The
  transport is an argument: the reads it answers with, and how many bytes of a write it
  takes before it fails.  Sizes of type \<open>usize\<close> are natural numbers; every length on the
  wire is a 32-bit word.
\<close>

section \<open>Big-endian words\<close>

definition to_be_bytes :: "u32 \<Rightarrow> bytes" where
  "to_be_bytes w = [ucast (drop_bit 24 w), ucast (drop_bit 16 w), ucast (drop_bit 8 w), ucast w]"

definition from_be_bytes :: "u8 \<Rightarrow> u8 \<Rightarrow> u8 \<Rightarrow> u8 \<Rightarrow> u32" where
  "from_be_bytes a b c d =
     push_bit 24 (ucast a) OR push_bit 16 (ucast b) OR push_bit 8 (ucast c) OR ucast d"

lemma to_be_bytes_length [simp]: "length (to_be_bytes w) = 4"
  by (simp add: to_be_bytes_def)

lemma from_to_be_bytes [simp]:
  "from_be_bytes (ucast (drop_bit 24 w)) (ucast (drop_bit 16 w)) (ucast (drop_bit 8 w)) (ucast w) = w"
proof (rule bit_word_eqI)
  fix n assume "n < LENGTH(32)"
  then have "n < 8 \<or> 8 \<le> n \<and> n < 16 \<or> 16 \<le> n \<and> n < 24 \<or> 24 \<le> n \<and> n < 32" by auto
  then show "bit (from_be_bytes (ucast (drop_bit 24 w)) (ucast (drop_bit 16 w))
      (ucast (drop_bit 8 w)) (ucast w)) n = bit w n"
    by (elim disjE) (auto simp: from_be_bytes_def bit_simps)
qed

lemma to_from_be_bytes [simp]: "to_be_bytes (from_be_bytes a b c d) = [a, b, c, d]"
proof -
  have high: "\<not> bit x (8 + n)" "\<not> bit x (16 + n)" "\<not> bit x (24 + n)" for x :: u8 and n
    using bit_imp_le_length[of x "8 + n"] bit_imp_le_length[of x "16 + n"]
      bit_imp_le_length[of x "24 + n"] by auto
  show ?thesis
    by (auto simp: to_be_bytes_def from_be_bytes_def bit_simps high intro!: bit_word_eqI)
qed

section \<open>Limits\<close>

definition clamp :: "nat \<Rightarrow> nat \<Rightarrow> nat \<Rightarrow> nat" where
  "clamp lo hi x = (if x < lo then lo else if x > hi then hi else x)"

definition MAX_FRAME_PAYLOAD :: nat where "MAX_FRAME_PAYLOAD = 2 ^ 20"
definition MAX_VALUE_DEPTH :: nat where "MAX_VALUE_DEPTH = 64"
definition MAX_STREAMS :: nat where "MAX_STREAMS = 256"
definition MAX_CREDIT :: nat where "MAX_CREDIT = 1024"
definition DEFAULT_CREDIT :: nat where "DEFAULT_CREDIT = 32"
definition MAX_CONNECTIONS :: nat where "MAX_CONNECTIONS = 32"
definition MAX_PENDING_HANDSHAKES :: nat where "MAX_PENDING_HANDSHAKES = 16"
definition MAX_CONNECTIONS_PER_CLIENT :: nat where "MAX_CONNECTIONS_PER_CLIENT = 4"
definition CONNECTION_COUNT_CEILING :: nat where "CONNECTION_COUNT_CEILING = 65536"

text \<open>Durations are nanoseconds.\<close>

definition from_millis :: "nat \<Rightarrow> nat" where "from_millis ms = ms * 10 ^ 6"
definition HANDSHAKE_TIMEOUT :: nat where "HANDSHAKE_TIMEOUT = from_millis 10000"
definition HANDSHAKE_TIMEOUT_FLOOR :: nat where "HANDSHAKE_TIMEOUT_FLOOR = from_millis 100"
definition HANDSHAKE_TIMEOUT_CEILING :: nat where "HANDSHAKE_TIMEOUT_CEILING = from_millis 600000"

lemmas limit_consts =
  MAX_FRAME_PAYLOAD_def MAX_VALUE_DEPTH_def MAX_STREAMS_def MAX_CREDIT_def MAX_CONNECTIONS_def
  MAX_PENDING_HANDSHAKES_def MAX_CONNECTIONS_PER_CLIENT_def CONNECTION_COUNT_CEILING_def
  from_millis_def HANDSHAKE_TIMEOUT_def HANDSHAKE_TIMEOUT_FLOOR_def HANDSHAKE_TIMEOUT_CEILING_def

record Limits =
  max_frame_payload :: nat
  max_value_depth :: nat
  max_streams :: nat
  max_credit :: nat
  max_connections :: nat
  max_pending_handshakes :: nat
  max_connections_per_client :: nat
  handshake_timeout :: nat

definition default_limits :: Limits where
  "default_limits = \<lparr>max_frame_payload = MAX_FRAME_PAYLOAD, max_value_depth = MAX_VALUE_DEPTH,
     max_streams = MAX_STREAMS, max_credit = MAX_CREDIT, max_connections = MAX_CONNECTIONS,
     max_pending_handshakes = MAX_PENDING_HANDSHAKES,
     max_connections_per_client = MAX_CONNECTIONS_PER_CLIENT,
     handshake_timeout = HANDSHAKE_TIMEOUT\<rparr>"

definition with_max_frame_payload :: "nat \<Rightarrow> Limits \<Rightarrow> Limits" where
  "with_max_frame_payload n l = l\<lparr>max_frame_payload := clamp 1 MAX_FRAME_PAYLOAD n\<rparr>"

definition with_max_value_depth :: "nat \<Rightarrow> Limits \<Rightarrow> Limits" where
  "with_max_value_depth n l = l\<lparr>max_value_depth := clamp 1 MAX_VALUE_DEPTH n\<rparr>"

definition with_max_streams :: "nat \<Rightarrow> Limits \<Rightarrow> Limits" where
  "with_max_streams n l = l\<lparr>max_streams := clamp 1 MAX_STREAMS n\<rparr>"

definition with_max_credit :: "nat \<Rightarrow> Limits \<Rightarrow> Limits" where
  "with_max_credit n l = l\<lparr>max_credit := clamp 1 MAX_CREDIT n\<rparr>"

definition with_max_connections :: "nat \<Rightarrow> Limits \<Rightarrow> Limits" where
  "with_max_connections n l = l\<lparr>max_connections := clamp 1 CONNECTION_COUNT_CEILING n\<rparr>"

definition with_max_pending_handshakes :: "nat \<Rightarrow> Limits \<Rightarrow> Limits" where
  "with_max_pending_handshakes n l =
     l\<lparr>max_pending_handshakes := clamp 1 CONNECTION_COUNT_CEILING n\<rparr>"

definition with_max_connections_per_client :: "nat \<Rightarrow> Limits \<Rightarrow> Limits" where
  "with_max_connections_per_client n l =
     l\<lparr>max_connections_per_client := clamp 1 CONNECTION_COUNT_CEILING n\<rparr>"

definition with_handshake_timeout :: "nat \<Rightarrow> Limits \<Rightarrow> Limits" where
  "with_handshake_timeout d l =
     l\<lparr>handshake_timeout := clamp HANDSHAKE_TIMEOUT_FLOOR HANDSHAKE_TIMEOUT_CEILING d\<rparr>"

text \<open>The limits a caller can obtain: the default and what the setters make of it.\<close>

inductive buildable :: "Limits \<Rightarrow> bool" where
  build_default: "buildable default_limits"
| build_payload: "buildable l \<Longrightarrow> buildable (with_max_frame_payload n l)"
| build_depth: "buildable l \<Longrightarrow> buildable (with_max_value_depth n l)"
| build_streams: "buildable l \<Longrightarrow> buildable (with_max_streams n l)"
| build_credit: "buildable l \<Longrightarrow> buildable (with_max_credit n l)"
| build_connections: "buildable l \<Longrightarrow> buildable (with_max_connections n l)"
| build_pending: "buildable l \<Longrightarrow> buildable (with_max_pending_handshakes n l)"
| build_per_client: "buildable l \<Longrightarrow> buildable (with_max_connections_per_client n l)"
| build_timeout: "buildable l \<Longrightarrow> buildable (with_handshake_timeout n l)"

lemmas setter_defs =
  default_limits_def with_max_frame_payload_def with_max_value_depth_def with_max_streams_def
  with_max_credit_def with_max_connections_def with_max_pending_handshakes_def
  with_max_connections_per_client_def with_handshake_timeout_def

lemma payload_limit_positive: "buildable l \<Longrightarrow> 1 \<le> max_frame_payload l"
  by (induction rule: buildable.induct) (simp_all add: setter_defs limit_consts clamp_def)

section \<open>Frames\<close>

definition FRAME_HEADER_LEN :: nat where "FRAME_HEADER_LEN = 12"
definition FRAME_VERSION :: u8 where "FRAME_VERSION = 1"

datatype FrameKind =
    Hello | Accept | Reject | StartQuery | StartSubscribe | Act | Cancel | Credit | Value | Event
  | Failure | Outcome | End | StartAdapt

definition FrameKind_ALL :: "FrameKind list" where
  "FrameKind_ALL = [Hello, Accept, Reject, StartQuery, StartSubscribe, Act, Cancel, Credit, Value,
     Event, Failure, Outcome, End, StartAdapt]"

fun as_u8 :: "FrameKind \<Rightarrow> u8" where
  "as_u8 Hello = 1"
| "as_u8 Accept = 2"
| "as_u8 Reject = 3"
| "as_u8 StartQuery = 4"
| "as_u8 StartSubscribe = 5"
| "as_u8 Act = 6"
| "as_u8 Cancel = 7"
| "as_u8 Credit = 8"
| "as_u8 Value = 9"
| "as_u8 Event = 10"
| "as_u8 Failure = 11"
| "as_u8 Outcome = 12"
| "as_u8 End = 13"
| "as_u8 StartAdapt = 14"

definition from_u8 :: "u8 \<Rightarrow> FrameKind option" where
  "from_u8 byte = find (\<lambda>kind. as_u8 kind = byte) FrameKind_ALL"

definition spends_credit :: "FrameKind \<Rightarrow> bool" where
  "spends_credit k \<longleftrightarrow> k \<in> {Value, Event, Failure, Outcome}"

interpretation frame_kinds: vocabulary FrameKind_ALL as_u8
proof unfold_locales
  show "x \<in> set FrameKind_ALL" for x by (cases x) (simp_all add: FrameKind_ALL_def)
  have "inj_on as_u8 (set FrameKind_ALL)"
    by (simp add: FrameKind_ALL_def inj_on_def)
  then show "as_u8 x = as_u8 y \<Longrightarrow> x = y" for x y
    using \<open>\<And>x. x \<in> set FrameKind_ALL\<close> by (metis inj_onD)
qed

lemma from_as_u8 [simp]: "from_u8 (as_u8 k) = Some k"
  unfolding from_u8_def by (rule frame_kinds.read_spelling)

lemma from_u8_sound: "from_u8 b = Some k \<Longrightarrow> as_u8 k = b"
  unfolding from_u8_def by (rule frame_kinds.read_sound)

record Frame =
  kind :: FrameKind
  stream_id :: u32
  payload :: bytes

datatype ProtocolError =
    FrameTooLarge nat nat
  | UnsupportedFrameVersion u8
  | UnknownFrameKind u8
  | UnknownFrameFlags u8

text \<open>The bytes a frame is put on the wire as.\<close>

definition frame_bytes :: "Frame \<Rightarrow> bytes" where
  "frame_bytes f = [FRAME_VERSION, as_u8 (kind f), 0, 0] @ to_be_bytes (stream_id f)
     @ to_be_bytes (of_nat (length (payload f))) @ payload f"

definition encode :: "Frame \<Rightarrow> Limits \<Rightarrow> bytes \<Rightarrow> ProtocolError + bytes" where
  "encode f limits out =
     (if length (payload f) \<ge> 2 ^ 32
      then Inl (FrameTooLarge (length (payload f)) (max_frame_payload limits))
      else if length (payload f) > max_frame_payload limits
      then Inl (FrameTooLarge (length (payload f)) (max_frame_payload limits))
      else Inr (out @ frame_bytes f))"

definition decode :: "bytes \<Rightarrow> Limits \<Rightarrow> (ProtocolError + Frame option) \<times> bytes" where
  "decode buffer limits =
     (if length buffer < FRAME_HEADER_LEN then (Inr None, buffer)
      else let header = take FRAME_HEADER_LEN buffer in
           if header ! 0 \<noteq> FRAME_VERSION then (Inl (UnsupportedFrameVersion (header ! 0)), buffer)
           else case from_u8 (header ! 1) of
             None \<Rightarrow> (Inl (UnknownFrameKind (header ! 1)), buffer)
           | Some k \<Rightarrow>
               let flags = header ! 2 OR header ! 3 in
               if flags \<noteq> 0 then (Inl (UnknownFrameFlags flags), buffer)
               else let stream = from_be_bytes (header ! 4) (header ! 5) (header ! 6) (header ! 7);
                        claimed = unat (from_be_bytes (header ! 8) (header ! 9) (header ! 10) (header ! 11))
                    in if claimed > max_frame_payload limits
                       then (Inl (FrameTooLarge claimed (max_frame_payload limits)), buffer)
                       else if length buffer < FRAME_HEADER_LEN + claimed then (Inr None, buffer)
                       else let rest = drop FRAME_HEADER_LEN buffer
                            in (Inr (Some \<lparr>kind = k, stream_id = stream, payload = take claimed rest\<rparr>),
                                drop claimed rest))"

section \<open>The connection\<close>

datatype 'io TransportRead = Got bytes | ReadFailed 'io

datatype ('e, 'io) LinkError = Mismatch 'e | TransportFailed 'io | ClosedMidFrame

text \<open>
  \<open>FrameReader::next\<close> over a buffer and the reads the transport will answer with; a read of
  no bytes, and the end of the list, are the end of the stream.
\<close>

fun reader_next ::
    "(bytes \<Rightarrow> ('e + 'f option) \<times> bytes) \<Rightarrow> bytes \<Rightarrow> 'io TransportRead list \<Rightarrow>
     (('e, 'io) LinkError + 'f option) \<times> bytes \<times> 'io TransportRead list" where
  "reader_next dec buffer reads =
     (case dec buffer of
        (Inl e, buffer') \<Rightarrow> (Inl (Mismatch e), buffer', reads)
      | (Inr (Some f), buffer') \<Rightarrow> (Inr (Some f), buffer', reads)
      | (Inr None, buffer') \<Rightarrow>
          (case reads of
             [] \<Rightarrow> (if buffer' = [] then Inr None else Inl ClosedMidFrame, buffer', [])
           | ReadFailed io # rs \<Rightarrow> (Inl (TransportFailed io), buffer', rs)
           | Got chunk # rs \<Rightarrow>
               if chunk = [] then (if buffer' = [] then Inr None else Inl ClosedMidFrame, buffer', rs)
               else reader_next dec (buffer' @ chunk) rs))"

declare reader_next.simps [simp del]

text \<open>The reading task: frames until the stream ends or fails.\<close>

partial_function (option) read_all ::
    "(bytes \<Rightarrow> ('e + 'f option) \<times> bytes) \<Rightarrow> bytes \<Rightarrow> 'io TransportRead list \<Rightarrow>
     ('f list \<times> (('e, 'io) LinkError + unit)) option" where
  "read_all dec buffer reads =
     (case reader_next dec buffer reads of
        (Inl e, buffer', reads') \<Rightarrow> Some ([], Inl e)
      | (Inr None, buffer', reads') \<Rightarrow> Some ([], Inr ())
      | (Inr (Some f), buffer', reads') \<Rightarrow>
          Option.bind (read_all dec buffer' reads') (\<lambda>(fs, s). Some (f # fs, s)))"

datatype Outbound = OutFrame Frame | Hangup

text \<open>
  The writing task: the bytes that reach the transport.  \<open>breaks\<close> tells, for a write, whether
  the transport fails on it and after how many of its bytes.
\<close>

fun writer_run :: "(bytes \<Rightarrow> nat option) \<Rightarrow> Limits \<Rightarrow> Outbound list \<Rightarrow> bytes" where
  "writer_run breaks limits [] = []"
| "writer_run breaks limits (Hangup # q) = []"
| "writer_run breaks limits (OutFrame f # q) =
     (case encode f limits [] of
        Inl _ \<Rightarrow> []
      | Inr buffer \<Rightarrow>
          (case breaks buffer of
             Some k \<Rightarrow> take k buffer
           | None \<Rightarrow> buffer @ writer_run breaks limits q))"

section \<open>The interface of a frame codec\<close>

text \<open>
  What a connection needs of its codec: a legal frame is decoded from the front of the
  buffer and nothing behind it is touched, a proper part of one is waited for, an answer
  once given does not depend on bytes that come later, and a decoded frame takes bytes.
\<close>

locale frame_codec =
  fixes enc :: "'f \<Rightarrow> bytes"
    and dec :: "bytes \<Rightarrow> ('e + 'f option) \<times> bytes"
    and legal :: "'f \<Rightarrow> bool"
  assumes dec_enc: "legal f \<Longrightarrow> dec (enc f @ rest) = (Inr (Some f), rest)"
    and dec_partial: "legal f \<Longrightarrow> strict_prefix p (enc f) \<Longrightarrow> dec p = (Inr None, p)"
    and dec_waits: "dec b = (Inr None, b') \<Longrightarrow> b' = b"
    and dec_error_stable: "dec b = (Inl e, b') \<Longrightarrow> \<exists>b''. dec (b @ x) = (Inl e, b'')"
    and dec_frame_stable: "dec b = (Inr (Some f), b') \<Longrightarrow> dec (b @ x) = (Inr (Some f), b' @ x)"
    and dec_progress: "dec b = (Inr (Some f), b') \<Longrightarrow> length b' < length b"
begin

lemma read_all_error: "dec b = (Inl e, b') \<Longrightarrow> read_all dec b rs = Some ([], Inl (Mismatch e))"
  by (subst read_all.simps, subst reader_next.simps) simp

lemma read_all_frame:
  "dec b = (Inr (Some f), b') \<Longrightarrow>
     read_all dec b rs = Option.bind (read_all dec b' rs) (\<lambda>(fs, s). Some (f # fs, s))"
  by (subst read_all.simps, subst reader_next.simps) simp

lemma read_all_chunk_waiting:
  assumes "dec b = (Inr None, b')" "c \<noteq> []"
  shows "read_all dec b (Got c # rs) = read_all dec (b @ c) rs"
proof -
  have "b' = b" using dec_waits[OF assms(1)] .
  then have "reader_next dec b (Got c # rs) = reader_next dec (b @ c) rs"
    using assms by (subst reader_next.simps) simp
  then show ?thesis by (subst (1 2) read_all.simps) simp
qed

text \<open>A chunk that is still to be read may as well be in the buffer already.\<close>

lemma read_all_chunk: "c \<noteq> [] \<Longrightarrow> read_all dec b (Got c # rs) = read_all dec (b @ c) rs"
proof (induction "length b" arbitrary: b rule: less_induct)
  case less
  show ?case
  proof (cases "dec b")
    case (Pair r b')
    show ?thesis
    proof (cases r)
      case (Inl e)
      then obtain b'' where "dec (b @ c) = (Inl e, b'')" using Pair dec_error_stable by blast
      then show ?thesis using Pair Inl by (simp add: read_all_error)
    next
      case (Inr o')
      show ?thesis
      proof (cases o')
        case None
        then show ?thesis using read_all_chunk_waiting Pair Inr less.prems by blast
      next
        case (Some f)
        then have d: "dec b = (Inr (Some f), b')" using Pair Inr by simp
        have "read_all dec b' (Got c # rs) = read_all dec (b' @ c) rs"
          using less.hyps[OF dec_progress[OF d] less.prems] .
        then show ?thesis
          using read_all_frame[OF d, of "Got c # rs"]
            read_all_frame[OF dec_frame_stable[OF d, of c], of rs] by simp
      qed
    qed
  qed
qed

lemma read_all_chunks:
  "\<forall>c \<in> set cs. c \<noteq> [] \<Longrightarrow> read_all dec b (map Got cs @ rs) = read_all dec (b @ concat cs) rs"
  by (induction cs arbitrary: b) (simp_all add: read_all_chunk)

lemma read_all_enc:
  assumes "\<forall>f \<in> set fs. legal f"
  shows "read_all dec (concat (map enc fs) @ p) rs =
    Option.bind (read_all dec p rs) (\<lambda>(gs, s). Some (fs @ gs, s))"
  using assms
proof (induction fs)
  case (Cons f fs)
  then have "dec (enc f @ concat (map enc fs) @ p) = (Inr (Some f), concat (map enc fs) @ p)"
    by (simp add: dec_enc)
  from read_all_frame[OF this, of rs] show ?case
    using Cons by (cases "read_all dec p rs") auto
qed (cases "read_all dec p rs"; auto)

lemma read_all_partial:
  assumes "legal f" "strict_prefix p (enc f)"
  shows "read_all dec p [] = Some ([], if p = [] then Inr () else Inl ClosedMidFrame)"
  using dec_partial[OF assms] by (subst read_all.simps, subst reader_next.simps) simp

text \<open>Reading always ends.\<close>

lemma read_all_ends: "\<exists>r. read_all dec b rs = Some r"
proof (induction rs arbitrary: b)
  case Nil
  show ?case
  proof (induction "length b" arbitrary: b rule: less_induct)
    case less
    show ?case
    proof (cases "dec b")
      case (Pair r b')
      then show ?thesis
        using less[of b'] dec_progress[of b _ b'] read_all_frame[of b _ b' "[]"]
        by (cases r; cases "projr r")
          (auto simp: read_all_error read_all.simps[of dec b] reader_next.simps[of dec b])
    qed
  qed
next
  case (Cons r rs)
  show ?case
  proof (induction "length b" arbitrary: b rule: less_induct)
    case less
    show ?case
    proof (cases "dec b")
      case (Pair a b')
      then show ?thesis
        using less[of b'] dec_progress[of b _ b'] read_all_frame[of b _ b' "r # rs"]
          read_all_chunk_waiting[of b b' _ rs] Cons.IH
        by (cases a; cases "projr a"; cases r)
          (fastforce simp: read_all_error read_all.simps[of dec b] reader_next.simps[of dec b])+
    qed
  qed
qed

end

section \<open>The wire codec\<close>

definition fits :: "Limits \<Rightarrow> Frame \<Rightarrow> bool" where
  "fits limits f \<longleftrightarrow> length (payload f) < 2 ^ 32 \<and> length (payload f) \<le> max_frame_payload limits"

lemma encode_fits: "encode f limits out =
    (if fits limits f then Inr (out @ frame_bytes f)
     else Inl (FrameTooLarge (length (payload f)) (max_frame_payload limits)))"
  by (auto simp: encode_def fits_def)

text \<open>A buffer that starts with a whole header, taken apart.\<close>

lemma header_cases:
  obtains "length b < 12"
  | v k f1 f2 s0 s1 s2 s3 n0 n1 n2 n3 rest
    where "b = [v, k, f1, f2, s0, s1, s2, s3, n0, n1, n2, n3] @ rest"
proof (cases "length b < 12")
  case False
  then have "12 \<le> length b" by simp
  then have "\<exists>v k f1 f2 s0 s1 s2 s3 n0 n1 n2 n3 rest.
      b = [v, k, f1, f2, s0, s1, s2, s3, n0, n1, n2, n3] @ rest"
    by (auto simp: Suc_le_length_iff eval_nat_numeral)
  then show ?thesis using that(2) by blast
qed (use that(1) in blast)

lemma decode_short: "length b < 12 \<Longrightarrow> decode b l = (Inr None, b)"
  by (simp add: decode_def FRAME_HEADER_LEN_def)

lemma decode_header:
  "decode ([v, k, f1, f2, s0, s1, s2, s3, n0, n1, n2, n3] @ rest) l =
     (let b = [v, k, f1, f2, s0, s1, s2, s3, n0, n1, n2, n3] @ rest;
          claimed = unat (from_be_bytes n0 n1 n2 n3)
      in if v \<noteq> FRAME_VERSION then (Inl (UnsupportedFrameVersion v), b)
         else case from_u8 k of
           None \<Rightarrow> (Inl (UnknownFrameKind k), b)
         | Some kd \<Rightarrow>
             if f1 OR f2 \<noteq> 0 then (Inl (UnknownFrameFlags (f1 OR f2)), b)
             else if claimed > max_frame_payload l
             then (Inl (FrameTooLarge claimed (max_frame_payload l)), b)
             else if length rest < claimed then (Inr None, b)
             else (Inr (Some \<lparr>kind = kd, stream_id = from_be_bytes s0 s1 s2 s3,
                               payload = take claimed rest\<rparr>), drop claimed rest))"
  unfolding decode_def Let_def FRAME_HEADER_LEN_def by (cases "from_u8 k") simp_all

lemma frame_bytes_header:
  "frame_bytes f = [FRAME_VERSION, as_u8 (kind f), 0, 0,
     ucast (drop_bit 24 (stream_id f)), ucast (drop_bit 16 (stream_id f)),
     ucast (drop_bit 8 (stream_id f)), ucast (stream_id f),
     ucast (drop_bit 24 (of_nat (length (payload f)) :: u32)),
     ucast (drop_bit 16 (of_nat (length (payload f)) :: u32)),
     ucast (drop_bit 8 (of_nat (length (payload f)) :: u32)),
     ucast (of_nat (length (payload f)) :: u32)] @ payload f"
  by (simp add: frame_bytes_def to_be_bytes_def)

lemma frame_bytes_length: "length (frame_bytes f) = 12 + length (payload f)"
  by (simp add: frame_bytes_header)

lemma unat_length: "n < 2 ^ 32 \<Longrightarrow> unat (of_nat n :: u32) = n"
  by (simp add: unsigned_of_nat take_bit_nat_eq_self)

lemma decode_frame_bytes:
  assumes "fits l f"
  shows "decode (frame_bytes f @ rest) l = (Inr (Some f), rest)"
  using assms unfolding frame_bytes_header append_assoc decode_header
  by (simp add: fits_def unat_length Let_def)

lemma decode_header_only:
  assumes "fits l f" "length r < length (payload f)"
  shows "decode (take 12 (frame_bytes f) @ r) l = (Inr None, take 12 (frame_bytes f) @ r)"
  using assms unfolding frame_bytes_header
  by (simp add: fits_def unat_length decode_header[simplified] Let_def)

lemma decode_partial:
  assumes "fits l f" "strict_prefix p (frame_bytes f)"
  shows "decode p l = (Inr None, p)"
proof (cases "length p < 12")
  case False
  obtain z where z: "frame_bytes f = p @ z" "z \<noteq> []"
    using assms(2) by (auto elim: strict_prefixE')
  have p: "p = take 12 (frame_bytes f) @ drop 12 p" using False z(1) by simp
  have "length (drop 12 p) < length (payload f)"
    using z frame_bytes_length[of f] False by (cases z) auto
  from decode_header_only[OF assms(1) this] p show ?thesis by simp
qed (simp add: decode_short)

text \<open>What a decoded frame took off the buffer, and what the other answers leave.\<close>

lemma decode_takes_frame:
  assumes "decode b l = (Inr (Some f), b')"
  shows "b = frame_bytes f @ b' \<and> fits l f"
proof (rule header_cases[of b])
  assume "length b < 12"
  then show ?thesis using assms by (simp add: decode_short)
next
  fix v k f1 f2 s0 s1 s2 s3 n0 n1 n2 n3 rest
  assume b: "b = [v, k, f1, f2, s0, s1, s2, s3, n0, n1, n2, n3] @ rest"
  let ?n = "from_be_bytes n0 n1 n2 n3"
  from assms[unfolded b decode_header] obtain kd where
    v: "v = FRAME_VERSION" and k: "from_u8 k = Some kd" and fl: "f1 OR f2 = 0"
    and n: "unat ?n \<le> max_frame_payload l" "unat ?n \<le> length rest"
    and f: "f = \<lparr>kind = kd, stream_id = from_be_bytes s0 s1 s2 s3, payload = take (unat ?n) rest\<rparr>"
    and b': "b' = drop (unat ?n) rest"
    by (auto simp: Let_def split: if_splits option.splits)
  have zero: "f1 = 0" "f2 = 0" using fl by (simp_all add: bit_eq_iff bit_simps)
  have len: "length (payload f) = unat ?n" using n f by simp
  then have "to_be_bytes (of_nat (length (payload f))) = [n0, n1, n2, n3]" by simp
  moreover have "unat ?n < 2 ^ 32" using unsigned_less[of ?n, where 'a = nat] by simp
  ultimately show ?thesis
    using v from_u8_sound[OF k] zero f b' n len by (simp add: b frame_bytes_def fits_def)
qed

lemma decode_leaves:
  assumes "decode b l = (r, b')" "\<forall>f. r \<noteq> Inr (Some f)"
  shows "b' = b"
  using assms
  by (cases b rule: header_cases)
    (auto simp: decode_short decode_header[simplified] Let_def split: if_splits option.splits)

lemma decode_waits_bound:
  assumes "decode b l = (Inr None, b')"
  shows "length b < FRAME_HEADER_LEN + max_frame_payload l \<or> length b < FRAME_HEADER_LEN"
  using assms
  by (cases b rule: header_cases)
    (auto simp: decode_short decode_header[simplified] Let_def FRAME_HEADER_LEN_def
      split: if_splits option.splits)

lemma decode_error_stable:
  assumes "decode b l = (Inl e, b')"
  shows "\<exists>b''. decode (b @ x) l = (Inl e, b'')"
  using assms
  by (cases b rule: header_cases)
    (auto simp: decode_short decode_header[simplified] Let_def split: if_splits option.splits)

interpretation wire: frame_codec frame_bytes "\<lambda>b. decode b l" "fits l" for l
proof unfold_locales
  show "decode b l = (Inr (Some f), b') \<Longrightarrow> decode (b @ x) l = (Inr (Some f), b' @ x)" for b f b' x
    using decode_takes_frame[of b l f b'] decode_frame_bytes[of l f "b' @ x"] by simp
  show "decode b l = (Inr (Some f), b') \<Longrightarrow> length b' < length b" for b f b'
    using decode_takes_frame[of b l f b'] frame_bytes_length[of f] by simp
  show "decode b l = (Inr None, b') \<Longrightarrow> b' = b" for b b'
    using decode_leaves[of b l "Inr None" b'] by simp
qed (simp_all add: decode_frame_bytes decode_partial decode_error_stable)

section \<open>The writer\<close>

fun until_hangup :: "Outbound list \<Rightarrow> Frame list" where
  "until_hangup [] = []"
| "until_hangup (Hangup # q) = []"
| "until_hangup (OutFrame f # q) = f # until_hangup q"

lemma writer_run_shape:
  "\<exists>fs p. writer_run breaks l q = concat (map frame_bytes fs) @ p \<and> prefix fs (until_hangup q) \<and>
     (\<forall>f \<in> set fs. fits l f) \<and> (p = [] \<or> (\<exists>f. fits l f \<and> strict_prefix p (frame_bytes f)))"
proof (induction q rule: until_hangup.induct)
  case (3 f q)
  obtain fs p where ih: "writer_run breaks l q = concat (map frame_bytes fs) @ p"
    "prefix fs (until_hangup q)" "\<forall>f \<in> set fs. fits l f"
    "p = [] \<or> (\<exists>f. fits l f \<and> strict_prefix p (frame_bytes f))"
    using 3 by blast
  show ?case
  proof (cases "fits l f")
    case False
    then have "writer_run breaks l (OutFrame f # q) = concat (map frame_bytes []) @ []"
      by (simp add: encode_fits)
    then show ?thesis by (metis Nil_prefix empty_iff list.set(1))
  next
    case fit: True
    show ?thesis
    proof (cases "breaks (frame_bytes f)")
      case None
      then have "writer_run breaks l (OutFrame f # q) = concat (map frame_bytes (f # fs)) @ p"
        using fit ih(1) by (simp add: encode_fits)
      moreover have "prefix (f # fs) (until_hangup (OutFrame f # q))" using ih(2) by simp
      moreover have "\<forall>g \<in> set (f # fs). fits l g" using ih(3) fit by simp
      ultimately show ?thesis using ih(4) by blast
    next
      case (Some k)
      then have w: "writer_run breaks l (OutFrame f # q) = take k (frame_bytes f)"
        using fit by (simp add: encode_fits)
      show ?thesis
      proof (cases "k < length (frame_bytes f)")
        case True
        then have "strict_prefix (take k (frame_bytes f)) (frame_bytes f)"
          using take_is_prefix[of k] by (auto simp: strict_prefix_def)
        then show ?thesis
          using w fit
          by (intro exI[of _ "[]"] exI[of _ "take k (frame_bytes f)"]) auto
      next
        case False
        then have "writer_run breaks l (OutFrame f # q) = concat (map frame_bytes [f]) @ []"
          using w by simp
        moreover have "prefix [f] (until_hangup (OutFrame f # q))" by simp
        moreover have "\<forall>g \<in> set [f]. fits l g" using fit by simp
        ultimately show ?thesis by blast
      qed
    qed
  qed
qed (rule exI[of _ "[]"], rule exI[of _ "[]"], simp)+

lemma writer_run_all:
  assumes "\<forall>b. breaks b = None" "\<forall>f \<in> set (until_hangup q). fits l f"
  shows "writer_run breaks l q = concat (map frame_bytes (until_hangup q))"
  using assms(2) by (induction q rule: until_hangup.induct) (auto simp: assms(1) encode_fits)

section \<open>Properties\<close>

text \<open>
  No limits a caller can build are unlimited or zero: whatever values the setters are
  given, in whatever order, every bound stays between one and the ceiling the contract
  declares, and the handshake budget between a tenth of a second and ten minutes.
\<close>

theorem limits_always_bounded:
  assumes "buildable l"
  shows "1 \<le> max_frame_payload l \<and> max_frame_payload l \<le> 2 ^ 20 \<and>
    1 \<le> max_value_depth l \<and> max_value_depth l \<le> 64 \<and>
    1 \<le> max_streams l \<and> max_streams l \<le> 256 \<and>
    1 \<le> max_credit l \<and> max_credit l \<le> 1024 \<and>
    1 \<le> max_connections l \<and> max_connections l \<le> 65536 \<and>
    1 \<le> max_pending_handshakes l \<and> max_pending_handshakes l \<le> 65536 \<and>
    1 \<le> max_connections_per_client l \<and> max_connections_per_client l \<le> 65536 \<and>
    from_millis 100 \<le> handshake_timeout l \<and> handshake_timeout l \<le> from_millis 600000"
  using assms
  by induction
    (simp_all add: setter_defs limit_consts clamp_def)

theorem limits_always_bounded_witness:
  "max_frame_payload (with_max_frame_payload (2 ^ 40) (with_max_credit 0 default_limits)) \<le> 2 ^ 20 \<and>
   1 \<le> max_credit (with_max_frame_payload (2 ^ 40) (with_max_credit 0 default_limits))"
  using limits_always_bounded[OF build_payload[OF build_credit[OF build_default]], of "2 ^ 40" 0]
  by blast

text \<open>
  Encoding and decoding agree.  Encoding appends to what is already queued and refuses
  exactly the payloads beyond the limit; a frame that was encoded is decoded unchanged from
  the front of any buffer with nothing behind it touched; and a frame that is decoded is one
  the sender could have encoded, from exactly these bytes, so no second byte string decodes
  to it.
\<close>

theorem frame_encode_decode:
  "(encode f l out = Inl (FrameTooLarge (length (payload f)) (max_frame_payload l)) \<or>
    (\<exists>bs. encode f l out = Inr (out @ bs) \<and> (\<forall>rest. decode (bs @ rest) l = (Inr (Some f), rest)))) \<and>
   (\<forall>b b'. decode b l = (Inr (Some f), b') \<longrightarrow> encode f l [] = Inr (take (length b - length b') b)
      \<and> b' = drop (length b - length b') b)"
proof (intro conjI allI impI)
  show "encode f l out = Inl (FrameTooLarge (length (payload f)) (max_frame_payload l)) \<or>
    (\<exists>bs. encode f l out = Inr (out @ bs) \<and> (\<forall>rest. decode (bs @ rest) l = (Inr (Some f), rest)))"
    by (simp add: encode_fits decode_frame_bytes)
next
  fix b b' assume "decode b l = (Inr (Some f), b')"
  from decode_takes_frame[OF this] show "encode f l [] = Inr (take (length b - length b') b)"
    "b' = drop (length b - length b') b"
    by (simp_all add: encode_fits)
qed

theorem frame_encode_decode_witness:
  "encode \<lparr>kind = End, stream_id = 3, payload = []\<rparr> default_limits []
     = Inr [1, 13, 0, 0, 0, 0, 0, 3, 0, 0, 0, 0]"
proof -
  have "decode [1, 13, 0, 0, 0, 0, 0, 3, 0, 0, 0, 0] default_limits =
      (Inr (Some \<lparr>kind = End, stream_id = 3, payload = []\<rparr>), [])"
    by (simp add: decode_def FRAME_HEADER_LEN_def FRAME_VERSION_def from_u8_def FrameKind_ALL_def
        from_be_bytes_def Let_def)
  with frame_encode_decode[of "\<lparr>kind = End, stream_id = 3, payload = []\<rparr>" default_limits "[]"]
  show ?thesis by auto
qed

text \<open>
  Hostile bytes cannot make the decoder consume, skip or hoard.  Whatever the buffer
  holds, either one whole frame within the limit is taken from its front, or the buffer is
  left as it was; the decoder waits for more bytes only while fewer than one header and one
  maximal payload are there; and a refusal stays the same refusal whatever arrives later.
\<close>

theorem decode_bounded:
  assumes "buildable l" and "decode b l = (r, b')"
  shows "(case r of
      Inr (Some f) \<Rightarrow> length (payload f) \<le> max_frame_payload l \<and>
        length b = FRAME_HEADER_LEN + length (payload f) + length b' \<and> b = take (length b - length b') b @ b'
    | Inr None \<Rightarrow> b' = b \<and> length b < FRAME_HEADER_LEN + max_frame_payload l
    | Inl e \<Rightarrow> b' = b \<and> (\<forall>x. decode (b @ x) l = (Inl e, b @ x)))"
proof -
  have pos: "1 \<le> max_frame_payload l" using payload_limit_positive[OF assms(1)] .
  show ?thesis
  proof (cases r)
    case (Inl e)
    have "decode (b @ x) l = (Inl e, b @ x)" for x
    proof -
      obtain b'' where d: "decode (b @ x) l = (Inl e, b'')"
        using decode_error_stable[of b l e b' x] assms(2) Inl by blast
      then show ?thesis using decode_leaves[OF d] by simp
    qed
    then show ?thesis using Inl decode_leaves[OF assms(2)] by simp
  next
    case (Inr o')
    show ?thesis
    proof (cases o')
      case None
      have "b' = b" by (rule decode_leaves[OF assms(2)]) (simp add: Inr None)
      moreover have "length b < FRAME_HEADER_LEN + max_frame_payload l"
        using decode_waits_bound[of b l b'] assms(2) pos by (auto simp: Inr None)
      ultimately show ?thesis by (simp add: Inr None)
    next
      case (Some f)
      have "b = frame_bytes f @ b' \<and> fits l f"
        using decode_takes_frame[of b l f b'] assms(2) by (simp add: Inr Some)
      then show ?thesis
        by (auto simp: Inr Some fits_def frame_bytes_length FRAME_HEADER_LEN_def)
    qed
  qed
qed

theorem decode_bounded_witness:
  "\<forall>x. decode ([1, 200, 0, 0, 0, 0, 0, 0, 0, 0, 0, 0] @ x) default_limits =
     (Inl (UnknownFrameKind 200), [1, 200, 0, 0, 0, 0, 0, 0, 0, 0, 0, 0] @ x)"
proof -
  have "decode [1, 200, 0, 0, 0, 0, 0, 0, 0, 0, 0, 0] default_limits =
      (Inl (UnknownFrameKind 200), [1, 200, 0, 0, 0, 0, 0, 0, 0, 0, 0, 0])"
    by (simp add: decode_def FRAME_HEADER_LEN_def FRAME_VERSION_def from_u8_def FrameKind_ALL_def
        Let_def)
  from decode_bounded[OF build_default this] show ?thesis by simp
qed

text \<open>
  C28: The connection delivers what was queued.  However the transport cuts the written
  bytes into reads, and even if it stops accepting bytes at some point, the reading end
  terminates and receives a prefix of the frames queued ahead of the first hangup, in
  order and unchanged, and reports a clean end only at a frame boundary; if the transport
  never fails and every queued frame is within the limit, it receives all of them and a
  clean end.
\<close>

theorem connection_delivers:
  assumes "concat chunks = writer_run breaks l queue" and "\<forall>c \<in> set chunks. c \<noteq> []"
  shows "\<exists>fs end_of_link.
    read_all (\<lambda>b. decode b l) [] (map Got chunks :: 'io TransportRead list) = Some (fs, end_of_link) \<and>
    prefix fs (until_hangup queue) \<and>
    (end_of_link = Inr () \<longrightarrow> concat chunks = concat (map frame_bytes fs)) \<and>
    ((\<forall>b. breaks b = None) \<and> (\<forall>f \<in> set (until_hangup queue). fits l f) \<longrightarrow>
       fs = until_hangup queue \<and> end_of_link = Inr ())"
proof -
  let ?read = "read_all (\<lambda>b. decode b l) :: bytes \<Rightarrow> 'io TransportRead list \<Rightarrow> _"
  have reads: "?read [] (map Got chunks) = ?read (writer_run breaks l queue) []"
    using wire.read_all_chunks[OF assms(2), of l "[]" "[] :: 'io TransportRead list"] assms(1) by simp
  obtain fs p where shape: "writer_run breaks l queue = concat (map frame_bytes fs) @ p"
    "prefix fs (until_hangup queue)" "\<forall>f \<in> set fs. fits l f"
    "p = [] \<or> (\<exists>f. fits l f \<and> strict_prefix p (frame_bytes f))"
    using writer_run_shape[of breaks l queue] by blast
  have empty: "?read [] [] = Some ([], Inr ())"
    by (subst read_all.simps, subst reader_next.simps) (simp add: decode_short)
  have "?read p [] = Some ([], if p = [] then Inr () else Inl ClosedMidFrame)"
    using shape(4) wire.read_all_partial[of l _ p] empty by (cases "p = []") auto
  then have r: "?read [] (map Got chunks) =
      Some (fs, if p = [] then Inr () else Inl ClosedMidFrame)"
    using wire.read_all_enc[OF shape(3), of p "[] :: 'io TransportRead list"] reads shape(1) by simp
  have full: "fs = until_hangup queue \<and> p = []"
    if "\<forall>b. breaks b = None" "\<forall>f \<in> set (until_hangup queue). fits l f"
  proof -
    have "?read (concat (map frame_bytes (until_hangup queue)) @ []) [] =
        Some (until_hangup queue, Inr ())"
      using wire.read_all_enc[OF that(2), of "[]" "[] :: 'io TransportRead list"] empty by simp
    then have "?read [] (map Got chunks) = Some (until_hangup queue, Inr ())"
      using reads writer_run_all[OF that] by simp
    then show ?thesis using r by (cases "p = []") simp_all
  qed
  show ?thesis
  proof (intro exI[of _ fs] exI[of _ "if p = [] then Inr () else Inl ClosedMidFrame"] conjI impI)
    show "concat chunks = concat (map frame_bytes fs)"
      if "(if p = [] then Inr () else Inl ClosedMidFrame) = Inr ()"
      using that shape(1) assms(1) by (simp split: if_splits)
  qed (use r shape(2) full in auto)
qed

definition small_link :: "Outbound list" where
  "small_link = [OutFrame \<lparr>kind = Value, stream_id = 1, payload = [7, 8]\<rparr>, Hangup,
     OutFrame \<lparr>kind = End, stream_id = 1, payload = []\<rparr>]"

theorem connection_delivers_witness:
  "read_all (\<lambda>b. decode b default_limits) []
     (map Got [[1, 9, 0, 0, 0], [0, 0, 1, 0, 0, 0, 2, 7], [8]] :: unit TransportRead list) =
   Some ([\<lparr>kind = Value, stream_id = 1, payload = [7, 8]\<rparr>], Inr ())"
proof -
  have w: "concat [[1, 9, 0, 0, 0], [0, 0, 1, 0, 0, 0, 2, 7], [8]] =
      writer_run (\<lambda>_. None) default_limits small_link"
    by (simp add: small_link_def encode_def frame_bytes_def default_limits_def MAX_FRAME_PAYLOAD_def
        to_be_bytes_def FRAME_VERSION_def)
  have fit: "\<forall>f \<in> set (until_hangup small_link). fits default_limits f"
    by (simp add: small_link_def fits_def default_limits_def MAX_FRAME_PAYLOAD_def)
  have q: "until_hangup small_link = [\<lparr>kind = Value, stream_id = 1, payload = [7, 8]\<rparr>]"
    by (simp add: small_link_def)
  show ?thesis
    using connection_delivers[OF w, where 'io = unit] fit unfolding q by auto
qed

end
