(* ===== verification/Link_Flow.thy ===== *)
theory Link_Flow
  imports Wire_Frame Ono_Text
begin

text \<open>
  The local end of a remote link and the credit that bounds its producers
  (\<open>crates/ono-protocol/src/link.rs\<close>, and the producing side of \<open>service.rs\<close>).

  The first part is the link's stream table: opening, releasing, cancelling and granting,
  the failure of the link, and the routing of an arrived message to its stream.  Encoding a
  message is an argument of the operations that do it.  A stream's channel is the list of
  the messages in it; a channel whose receiver is gone has no entry.

  The second part follows one stream across both ends as a step relation: the producer's
  semaphore, the frames in flight in both directions, the consumer's queue and its
  half-window acknowledgements.
\<close>

section \<open>Messages\<close>

datatype 'x LinkFault =
    Unreachable ustr
  | TooManyStreams nat
  | CreditExceeded u32
  | OnlyInHandshake FrameKind
  | PeerFault 'x

datatype ('p, 'x) Inbound =
    InValue 'p | InEvent 'p | InFailure "'x LinkFault" | InOutcome 'p | InEnd

datatype ('p, 'x) LinkMessage =
    MValue 'p | MEvent 'p | MFailure "'x LinkFault" | MOutcome 'p | MEnd | MOther FrameKind

section \<open>The stream table\<close>

record ('p, 'x) LinkInner =
  sent_frames :: "Frame list"
  sink_open :: bool
  streams :: "u32 list"
  channels :: "u32 \<rightharpoonup> ('p, 'x) Inbound list"
  next_id :: u32
  alive :: bool
  failure :: "'x LinkFault option"
  link_limits :: Limits
  window :: nat

definition new_link :: "Limits \<Rightarrow> nat \<Rightarrow> ('p, 'x) LinkInner" where
  "new_link limits accepted =
     \<lparr>sent_frames = [], sink_open = True, streams = [], channels = Map.empty, next_id = 1,
      alive = True, failure = None, link_limits = limits,
      window = clamp 1 (max_credit limits) accepted\<rparr>"

text \<open>\<open>mpsc::Sender::try_send\<close>: refused when the receiver is gone or the queue is full.\<close>

definition try_send :: "u32 \<Rightarrow> ('p, 'x) Inbound \<Rightarrow> ('p, 'x) LinkInner \<Rightarrow> ('p, 'x) LinkInner option" where
  "try_send i m l =
     (case channels l i of
        None \<Rightarrow> None
      | Some q \<Rightarrow> if length q \<ge> window l + 1 then None
                  else Some (l\<lparr>channels := (channels l)(i \<mapsto> q @ [m])\<rparr>))"

text \<open>\<open>FrameSink::send\<close>: refused when the writer is gone.\<close>

definition sink_send :: "Frame \<Rightarrow> ('p, 'x) LinkInner \<Rightarrow> ('p, 'x) LinkInner option" where
  "sink_send f l = (if sink_open l then Some (l\<lparr>sent_frames := sent_frames l @ [f]\<rparr>) else None)"

definition best_effort :: "('a \<Rightarrow> 'a option) \<Rightarrow> 'a \<Rightarrow> 'a" where
  "best_effort op s = (case op s of None \<Rightarrow> s | Some s' \<Rightarrow> s')"

definition fail :: "'x LinkFault \<Rightarrow> ('p, 'x) LinkInner \<Rightarrow> ('p, 'x) LinkInner" where
  "fail err l =
     (let l1 = l\<lparr>alive := False,
                 failure := (case failure l of None \<Rightarrow> Some err | Some e \<Rightarrow> Some e)\<rparr>;
          registered = streams l1;
          l2 = l1\<lparr>streams := []\<rparr>
      in fold (\<lambda>i. best_effort (try_send i (InFailure err))) registered l2)"

definition status :: "('p, 'x) LinkInner \<Rightarrow> 'x LinkFault + unit" where
  "status l =
     (if alive l then Inr ()
      else Inl (case failure l of Some e \<Rightarrow> e | None \<Rightarrow> Unreachable (asc ''the link is closed'')))"

definition release :: "u32 \<Rightarrow> ('p, 'x) LinkInner \<Rightarrow> ('p, 'x) LinkInner" where
  "release i l = l\<lparr>streams := filter (\<lambda>j. j \<noteq> i) (streams l)\<rparr>"

text \<open>
  \<open>enc\<close> below is the encoding of one message: \<open>Message::Cancel\<close>, \<open>Message::Credit\<close>, or
  the opening message of a stream.
\<close>

definition cancel_stream :: "('x + bytes) \<Rightarrow> u32 \<Rightarrow> ('p, 'x) LinkInner \<Rightarrow> ('p, 'x) LinkInner" where
  "cancel_stream enc i l =
     (let l1 = release i l
      in case enc of
           Inl _ \<Rightarrow> l1
         | Inr pl \<Rightarrow> best_effort (sink_send \<lparr>kind = Cancel, stream_id = i, payload = pl\<rparr>) l1)"

definition grant :: "('x + bytes) \<Rightarrow> u32 \<Rightarrow> ('p, 'x) LinkInner \<Rightarrow> ('p, 'x) LinkInner" where
  "grant enc i l =
     (case enc of
        Inl _ \<Rightarrow> l
      | Inr pl \<Rightarrow> best_effort (sink_send \<lparr>kind = Credit, stream_id = i, payload = pl\<rparr>) l)"

definition open_stream ::
    "FrameKind \<Rightarrow> ('x + bytes) \<Rightarrow> ('p, 'x) LinkInner \<Rightarrow> ('x LinkFault + u32) \<times> ('p, 'x) LinkInner" where
  "open_stream k enc l =
     (case status l of
        Inl e \<Rightarrow> (Inl e, l)
      | Inr _ \<Rightarrow>
          if length (streams l) \<ge> max_streams (link_limits l)
          then (Inl (TooManyStreams (max_streams (link_limits l))), l)
          else let i = next_id l;
                   l1 = l\<lparr>next_id := i + 1, streams := i # filter (\<lambda>j. j \<noteq> i) (streams l)\<rparr>
               in case enc of
                    Inl e \<Rightarrow> (Inl (PeerFault e), l1\<lparr>channels := (channels l1)(i := None)\<rparr>)
                  | Inr pl \<Rightarrow>
                      (case sink_send \<lparr>kind = k, stream_id = i, payload = pl\<rparr> l1 of
                         None \<Rightarrow> let l2 = release i l1\<lparr>channels := (channels l1)(i := None)\<rparr>
                                 in (Inl (case status l2 of Inl e \<Rightarrow> e
                                            | Inr _ \<Rightarrow> Unreachable (asc ''the link is closed'')), l2)
                       | Some l2 \<Rightarrow> (Inr i, l2\<lparr>channels := (channels l2)(i \<mapsto> [])\<rparr>)))"

fun inbound_of :: "('p, 'x) LinkMessage \<Rightarrow> 'x LinkFault + ('p, 'x) Inbound" where
  "inbound_of (MValue v) = Inr (InValue v)"
| "inbound_of (MEvent v) = Inr (InEvent v)"
| "inbound_of (MFailure e) = Inr (InFailure e)"
| "inbound_of (MOutcome v) = Inr (InOutcome v)"
| "inbound_of MEnd = Inr InEnd"
| "inbound_of (MOther k) = Inl (OnlyInHandshake k)"

text \<open>
  One turn of the reader task on what the connection answered: the end of the link, its
  failure, or a decoded message for a stream.  \<open>None\<close> is the end of the task.
\<close>

datatype ('p, 'x) Arrival = ArrClosed | ArrFailed 'x | ArrUndecodable 'x | ArrMessage u32 "('p, 'x) LinkMessage"

definition reader_turn ::
    "('p, 'x) Arrival \<Rightarrow> ('p, 'x) LinkInner \<Rightarrow> bool \<times> ('p, 'x) LinkInner" where
  "reader_turn arr l =
     (case arr of
        ArrClosed \<Rightarrow> (False, fail (Unreachable (asc ''the remote closed the link'')) l)
      | ArrFailed e \<Rightarrow> (False, fail (PeerFault e) l)
      | ArrUndecodable e \<Rightarrow> (False, fail (PeerFault e) l)
      | ArrMessage i m \<Rightarrow>
          (case inbound_of m of
             Inl e \<Rightarrow> (False, fail e l)
           | Inr inb \<Rightarrow>
               if i \<notin> set (streams l) then (True, l)
               else (case try_send i inb l of
                       None \<Rightarrow> (False, fail (CreditExceeded i) l)
                     | Some l' \<Rightarrow> (True, l'))))"

section \<open>Credit\<close>

text \<open>The window both ends settle on, and the two ends' credit operations.\<close>

definition offered_window :: "Limits \<Rightarrow> nat \<Rightarrow> nat" where
  "offered_window client_limits wanted = clamp 1 (max_credit client_limits) wanted"

definition accepted_window :: "Limits \<Rightarrow> nat \<Rightarrow> nat" where
  "accepted_window server_limits offered = clamp 1 (max (max_credit server_limits) 1) offered"

definition spend :: "nat \<Rightarrow> nat option" where
  "spend permits = (if permits > 0 then Some (permits - 1) else None)"

definition add_credit :: "Limits \<Rightarrow> nat \<Rightarrow> nat \<Rightarrow> nat" where
  "add_credit limits permits granted =
     (let room = max_credit limits - permits in permits + min granted room)"

text \<open>\<open>RemoteStream::acknowledge\<close>: the new count, and the grant that is sent, if any.\<close>

definition acknowledge :: "nat \<Rightarrow> nat \<Rightarrow> nat \<times> nat option" where
  "acknowledge win unack =
     (let unack' = unack + 1; batch = max (win div 2) 1
      in if unack' \<ge> batch then (0, Some unack') else (unack', None))"

section \<open>Runs of a link\<close>

text \<open>
  \<open>RemoteStream::recv\<close> on the front of its channel: the message leaves the channel, and an
  end releases the stream.  Dropping a stream cancels it and closes its receiver; the future
  of an action that is dropped only closes its receiver.
\<close>

definition recv :: "u32 \<Rightarrow> ('p, 'x) LinkInner \<Rightarrow> (('p, 'x) Inbound \<times> ('p, 'x) LinkInner) option" where
  "recv i l =
     (case channels l i of
        Some (m # q) \<Rightarrow>
          let l1 = l\<lparr>channels := (channels l)(i \<mapsto> q)\<rparr>
          in Some (m, case m of InEnd \<Rightarrow> release i l1 | _ \<Rightarrow> l1)
      | _ \<Rightarrow> None)"

inductive link_step :: "('p, 'x) LinkInner \<Rightarrow> ('p, 'x) LinkInner \<Rightarrow> bool" where
  step_open: "open_stream k enc l = (r, l') \<Longrightarrow> link_step l l'"
| step_recv: "recv i l = Some (m, l') \<Longrightarrow> link_step l l'"
| step_grant: "link_step l (grant enc i l)"
| step_drop: "link_step l ((cancel_stream enc i l)\<lparr>channels := (channels l)(i := None)\<rparr>)"
| step_abandon: "link_step l (l\<lparr>channels := (channels l)(i := None)\<rparr>)"
| step_reader: "alive l \<Longrightarrow> reader_turn arr l = (go, l') \<Longrightarrow> link_step l l'"
| step_writer_gone: "link_step l (l\<lparr>sink_open := False\<rparr>)"

inductive link_reachable :: "Limits \<Rightarrow> nat \<Rightarrow> ('p, 'x) LinkInner \<Rightarrow> bool" for limits accepted where
  reach_new: "link_reachable limits accepted (new_link limits accepted)"
| reach_step: "link_reachable limits accepted l \<Longrightarrow> link_step l l' \<Longrightarrow> link_reachable limits accepted l'"

definition queues_ok :: "('p, 'x) LinkInner \<Rightarrow> bool" where
  "queues_ok l \<longleftrightarrow> (\<forall>i q. channels l i = Some q \<longrightarrow> length q \<le> window l + 1)"

definition link_ok :: "('p, 'x) LinkInner \<Rightarrow> bool" where
  "link_ok l \<longleftrightarrow>
     distinct (streams l) \<and> length (streams l) \<le> max_streams (link_limits l) \<and>
     (alive l \<longleftrightarrow> failure l = None) \<and> (\<not> alive l \<longrightarrow> streams l = []) \<and> queues_ok l"

text \<open>What failing a link does to each part of it.\<close>

lemma try_send_keeps:
  assumes "try_send i m l = Some l'"
  shows "streams l' = streams l" "alive l' = alive l" "failure l' = failure l"
    "link_limits l' = link_limits l" "window l' = window l" "queues_ok l \<Longrightarrow> queues_ok l'"
  using assms by (auto simp: try_send_def queues_ok_def split: option.splits if_splits)

lemma best_effort_send_keeps:
  "streams (best_effort (try_send i m) l) = streams l"
  "alive (best_effort (try_send i m) l) = alive l"
  "failure (best_effort (try_send i m) l) = failure l"
  "link_limits (best_effort (try_send i m) l) = link_limits l"
  "window (best_effort (try_send i m) l) = window l"
  "queues_ok l \<Longrightarrow> queues_ok (best_effort (try_send i m) l)"
  by (auto simp: best_effort_def try_send_keeps split: option.splits)

lemma notify_keeps:
  fixes l :: "('p, 'x) LinkInner"
  defines "out is m \<equiv> fold (\<lambda>i. best_effort (try_send i m)) is l"
  shows "streams (out is m) = streams l" "alive (out is m) = alive l"
    "failure (out is m) = failure l" "link_limits (out is m) = link_limits l"
    "window (out is m) = window l" "queues_ok l \<Longrightarrow> queues_ok (out is m)"
  unfolding out_def by (induction "is" arbitrary: l) (simp_all add: best_effort_send_keeps)

lemma fail_keeps:
  "streams (fail e l) = []" "\<not> alive (fail e l)"
  "failure (fail e l) = (case failure l of None \<Rightarrow> Some e | Some e' \<Rightarrow> Some e')"
  "link_limits (fail e l) = link_limits l" "window (fail e l) = window l"
  "queues_ok l \<Longrightarrow> queues_ok (fail e l)"
  by (simp_all add: fail_def Let_def notify_keeps)
    (rule notify_keeps(6), simp add: queues_ok_def)

lemma fail_ok: "link_ok l \<Longrightarrow> link_ok (fail e l)"
  by (auto simp: link_ok_def fail_keeps split: option.splits)

lemma filter_room: "length xs \<le> n \<Longrightarrow> n \<noteq> length xs \<Longrightarrow> Suc (length (filter P xs)) \<le> n"
  using length_filter_le[of P xs] by linarith

lemma open_stream_ok: "link_ok l \<Longrightarrow> open_stream k enc l = (r, l') \<Longrightarrow> link_ok l'"
  by (auto simp: link_ok_def open_stream_def status_def sink_send_def release_def Let_def queues_ok_def
      filter_room split: sum.splits if_splits option.splits
      intro: le_trans[OF length_filter_le])

lemma release_ok: "link_ok l \<Longrightarrow> link_ok (release i l)"
  by (auto simp: link_ok_def release_def queues_ok_def intro: le_trans[OF length_filter_le])

lemma recv_Some:
  "recv i l = Some (m, l') \<longleftrightarrow>
     (\<exists>q. channels l i = Some (m # q) \<and>
        l' = (let l1 = l\<lparr>channels := (channels l)(i \<mapsto> q)\<rparr>
              in case m of InEnd \<Rightarrow> release i l1 | _ \<Rightarrow> l1))"
  by (auto simp: recv_def Let_def split: option.splits list.splits)

lemma recv_ok:
  assumes "link_ok l" "recv i l = Some (m, l')"
  shows "link_ok l'"
proof -
  obtain q where q: "channels l i = Some (m # q)"
    and l': "l' = (let l1 = l\<lparr>channels := (channels l)(i \<mapsto> q)\<rparr>
              in case m of InEnd \<Rightarrow> release i l1 | _ \<Rightarrow> l1)"
    using assms(2) by (auto simp: recv_Some)
  have "length (m # q) \<le> window l + 1"
    using assms(1) q unfolding link_ok_def queues_ok_def by blast
  then have "link_ok (l\<lparr>channels := (channels l)(i \<mapsto> q)\<rparr>)"
    using assms(1) by (simp add: link_ok_def queues_ok_def)
  then show ?thesis unfolding l' by (simp add: Let_def release_ok split: Inbound.splits)
qed

lemma reader_turn_ok: "link_ok l \<Longrightarrow> reader_turn arr l = (go, l') \<Longrightarrow> link_ok l'"
proof -
  have sent: "link_ok l''" if "link_ok l" "try_send i m l = Some l''" for i m l''
    using that try_send_keeps[OF that(2)] by (simp add: link_ok_def)
  assume "link_ok l" "reader_turn arr l = (go, l')"
  then show ?thesis
    by (auto simp: reader_turn_def fail_ok sent
        split: Arrival.splits sum.splits option.splits if_splits)
qed

lemma link_step_ok: "link_step l l' \<Longrightarrow> link_ok l \<Longrightarrow> link_ok l'"
proof (induction rule: link_step.induct)
  case (step_grant l enc i)
  then show ?case
    by (auto simp: link_ok_def queues_ok_def grant_def best_effort_def sink_send_def split: sum.splits)
next
  case (step_drop l enc i)
  then show ?case
    by (auto simp: link_ok_def queues_ok_def cancel_stream_def release_def best_effort_def sink_send_def
        Let_def intro: le_trans[OF length_filter_le] split: sum.splits)
next
  case (step_abandon l i)
  then show ?case by (auto simp: link_ok_def queues_ok_def)
next
  case (step_writer_gone l)
  then show ?case by (auto simp: link_ok_def queues_ok_def)
qed (auto intro: open_stream_ok recv_ok reader_turn_ok)

lemma link_step_static:
  assumes "link_step l l'"
  shows "link_limits l' = link_limits l \<and> window l' = window l"
  using assms
proof cases
  case (step_reader arr go)
  then show ?thesis
    by (auto simp: reader_turn_def fail_keeps try_send_keeps
        split: Arrival.splits sum.splits option.splits if_splits)
next
  case (step_recv i m)
  then show ?thesis
    by (auto simp: recv_def release_def Let_def
        split: option.splits list.splits Inbound.splits)
qed (auto simp: open_stream_def status_def sink_send_def release_def Let_def grant_def best_effort_def
      cancel_stream_def split: sum.splits if_splits option.splits)

lemma link_reachable_ok:
  "link_reachable limits accepted l \<Longrightarrow>
     link_ok l \<and> link_limits l = limits \<and> window l = clamp 1 (max_credit limits) accepted"
proof (induction rule: link_reachable.induct)
  case reach_new
  then show ?case by (simp add: new_link_def link_ok_def queues_ok_def)
next
  case (reach_step l l')
  then show ?case using link_step_ok link_step_static by metis
qed

lemma link_step_failure:
  assumes "link_step l l'" "failure l = Some e"
  shows "failure l' = Some e"
  using assms
proof cases
  case (step_reader arr go)
  then show ?thesis
    using assms(2)
    by (auto simp: reader_turn_def fail_keeps try_send_keeps
        split: Arrival.splits sum.splits option.splits if_splits)
next
  case (step_recv i m)
  then show ?thesis
    using assms(2) by (auto simp: recv_def release_def Let_def
        split: option.splits list.splits Inbound.splits)
qed (auto simp: open_stream_def status_def sink_send_def release_def Let_def grant_def best_effort_def
      cancel_stream_def split: sum.splits if_splits option.splits)

section \<open>One stream across both ends\<close>

text \<open>
  \<open>permits\<close> is the producer's semaphore, \<open>wire\<close> the stream's frames on their way to the
  consumer, \<open>queue\<close> the consumer's channel, \<open>unacknowledged\<close> its count, and \<open>credits\<close> the
  credit frames on their way back; \<open>finished\<close> is set once the producer's end went out, and
  \<open>overrun\<close> once the channel refused a message.  \<open>sent\<close>, \<open>taken\<close> and \<open>lost\<close> only count:
  data messages put on the wire, data messages the consumer took, and credit spent on a
  message that could not be framed at all.
\<close>

record ('p, 'x) Flow =
  permits :: nat
  wire :: "('p, 'x) Inbound list"
  queue :: "('p, 'x) Inbound list"
  unacknowledged :: nat
  credits :: "nat list"
  finished :: bool
  overrun :: bool
  sent :: nat
  taken :: nat
  lost :: nat

definition new_flow :: "nat \<Rightarrow> ('p, 'x) Flow" where
  "new_flow win = \<lparr>permits = win, wire = [], queue = [], unacknowledged = 0, credits = [],
     finished = False, overrun = False, sent = 0, taken = 0, lost = 0\<rparr>"

inductive flow_step :: "Limits \<Rightarrow> nat \<Rightarrow> ('p, 'x) Flow \<Rightarrow> ('p, 'x) Flow \<Rightarrow> bool"
  for server_limits :: Limits and win :: nat where
  flow_emit: "spend (permits s) = Some p \<Longrightarrow> \<not> finished s \<Longrightarrow> m \<noteq> InEnd \<Longrightarrow>
     flow_step server_limits win s (s\<lparr>permits := p, wire := wire s @ [m], sent := sent s + 1\<rparr>)"
| flow_emit_unframed: "spend (permits s) = Some p \<Longrightarrow> \<not> finished s \<Longrightarrow>
     flow_step server_limits win s (s\<lparr>permits := p, lost := lost s + 1\<rparr>)"
| flow_finish: "\<not> finished s \<Longrightarrow>
     flow_step server_limits win s (s\<lparr>finished := True, wire := wire s @ [InEnd]\<rparr>)"
| flow_arrive: "wire s = m # w \<Longrightarrow> length (queue s) < win + 1 \<Longrightarrow>
     flow_step server_limits win s (s\<lparr>wire := w, queue := queue s @ [m]\<rparr>)"
| flow_overrun: "wire s = m # w \<Longrightarrow> length (queue s) \<ge> win + 1 \<Longrightarrow>
     flow_step server_limits win s (s\<lparr>wire := w, overrun := True\<rparr>)"
| flow_take: "queue s = m # q \<Longrightarrow> m \<noteq> InEnd \<Longrightarrow> acknowledge win (unacknowledged s) = (u, g) \<Longrightarrow>
     flow_step server_limits win s
       (s\<lparr>queue := q, taken := taken s + 1, unacknowledged := u,
          credits := credits s @ (case g of None \<Rightarrow> [] | Some c \<Rightarrow> [c])\<rparr>)"
| flow_take_end: "queue s = InEnd # q \<Longrightarrow> flow_step server_limits win s (s\<lparr>queue := q\<rparr>)"
| flow_credit: "credits s = c # cs \<Longrightarrow>
     flow_step server_limits win s
       (s\<lparr>credits := cs, permits := add_credit server_limits (permits s) c\<rparr>)"

inductive flow_reachable :: "Limits \<Rightarrow> nat \<Rightarrow> ('p, 'x) Flow \<Rightarrow> bool"
  for server_limits :: Limits and win :: nat where
  flow_new: "flow_reachable server_limits win (new_flow win)"
| flow_more: "flow_reachable server_limits win s \<Longrightarrow> flow_step server_limits win s s' \<Longrightarrow>
     flow_reachable server_limits win s'"

definition data_in :: "('p, 'x) Inbound list \<Rightarrow> nat" where
  "data_in ms = length (filter (\<lambda>m. m \<noteq> InEnd) ms)"

text \<open>
  The invariant: no credit appears or disappears, and the end, once sent, is the last
  message of the stream.
\<close>

definition conserved :: "nat \<Rightarrow> ('p, 'x) Flow \<Rightarrow> bool" where
  "conserved win s \<longleftrightarrow>
     permits s + data_in (wire s) + data_in (queue s) + unacknowledged s + sum_list (credits s)
       + lost s = win"

definition end_last :: "('p, 'x) Flow \<Rightarrow> bool" where
  "end_last s \<longleftrightarrow> InEnd \<notin> set (butlast (queue s @ wire s)) \<and>
     (InEnd \<in> set (queue s @ wire s) \<longrightarrow> finished s)"

definition flow_ok :: "nat \<Rightarrow> ('p, 'x) Flow \<Rightarrow> bool" where
  "flow_ok win s \<longleftrightarrow> conserved win s \<and> end_last s \<and> unacknowledged s < max (win div 2) 1 \<and>
     sent s = taken s + data_in (queue s) + data_in (wire s) \<and> \<not> overrun s"

lemma data_in_simps [simp]:
  "data_in [] = 0" "data_in (m # ms) = (if m = InEnd then 0 else 1) + data_in ms"
  "data_in (ms @ ns) = data_in ms + data_in ns"
  by (simp_all add: data_in_def)

lemma data_in_full: "InEnd \<notin> set ms \<Longrightarrow> data_in ms = length ms"
  by (induction ms) auto

lemma arrival_fits:
  assumes "flow_ok win s" "wire s = m # w"
  shows "length (queue s) < win + 1"
proof -
  have "InEnd \<notin> set (queue s)"
    using assms by (auto simp: flow_ok_def end_last_def butlast_append)
  then have "length (queue s) = data_in (queue s)" by (simp add: data_in_full)
  also have "\<dots> \<le> win" using assms(1) by (simp add: flow_ok_def conserved_def)
  finally show ?thesis by simp
qed

lemma acknowledge_split:
  assumes "acknowledge win u = (u', g)" "u < max (win div 2) 1"
  shows "u' < max (win div 2) 1" "u' + (case g of None \<Rightarrow> 0 | Some c \<Rightarrow> c) = u + 1"
  using assms by (auto simp: acknowledge_def Let_def split: if_splits)

lemma add_credit_exact: "p + c \<le> max_credit l \<Longrightarrow> add_credit l p c = p + c"
  by (simp add: add_credit_def)

lemma flow_step_ok:
  assumes "flow_step l win s s'" "flow_ok win s" "win \<le> max_credit l"
  shows "flow_ok win s'"
  using assms(1)
proof cases
  case (flow_emit p m)
  then show ?thesis using assms(2)
    by (auto simp: flow_ok_def conserved_def end_last_def spend_def butlast_append split: if_splits)
next
  case (flow_emit_unframed p)
  then show ?thesis using assms(2)
    by (auto simp: flow_ok_def conserved_def end_last_def spend_def split: if_splits)
next
  case flow_finish
  then show ?thesis using assms(2)
    by (auto simp: flow_ok_def conserved_def end_last_def butlast_append)
next
  case (flow_arrive m w)
  then show ?thesis using assms(2) by (auto simp: flow_ok_def conserved_def end_last_def)
next
  case (flow_overrun m w)
  then show ?thesis using arrival_fits[OF assms(2)] by fastforce
next
  case (flow_take m q u g)
  have "end_last s'" using flow_take assms(2)
    by (auto simp: flow_ok_def end_last_def split: if_splits)
  then show ?thesis
    using flow_take assms(2) acknowledge_split[OF flow_take(4)]
    by (auto simp: flow_ok_def conserved_def split: option.splits)
next
  case (flow_take_end q)
  then show ?thesis using assms(2)
    by (auto simp: flow_ok_def conserved_def end_last_def split: if_splits)
next
  case (flow_credit c cs)
  have "permits s + c \<le> max_credit l"
    using flow_credit assms(2,3) by (auto simp: flow_ok_def conserved_def)
  then show ?thesis using flow_credit assms(2)
    by (auto simp: flow_ok_def conserved_def end_last_def add_credit_exact)
qed

lemma flow_reachable_ok:
  assumes "flow_reachable l win s" "win \<le> max_credit l"
  shows "flow_ok win s"
  using assms
proof (induction rule: flow_reachable.induct)
  case flow_new
  then show ?case by (simp add: new_flow_def flow_ok_def conserved_def end_last_def)
next
  case (flow_more s s')
  then show ?case using flow_step_ok by blast
qed

lemma accepted_window_bounds:
  "1 \<le> accepted_window srv w \<and> accepted_window srv w \<le> max (max_credit srv) 1"
  by (auto simp: accepted_window_def clamp_def)

section \<open>Properties\<close>

text \<open>
  C27: The credit window bounds a remote producer and never deadlocks it.  With the window
  the handshake settles, in every reachable state of a stream the producer has sent at most
  the window more data messages than the consumer has taken, the consumer's queue never
  refuses a message and holds at most one more than the window, and whenever the consumer
  has taken everything and no frame is in flight the producer has credit to go on, unless
  credit was spent on messages that could not be framed.  Both ends use the same window.
\<close>

theorem credit_window_bounds_producer:
  assumes "1 \<le> max_credit client_limits" and "1 \<le> max_credit server_limits"
    and "win = accepted_window server_limits (offered_window client_limits wanted)"
    and "flow_reachable server_limits win s"
  shows "sent s \<le> taken s + win \<and> \<not> overrun s \<and> length (queue s) \<le> win + 1 \<and>
    (wire s = [] \<and> queue s = [] \<and> credits s = [] \<and> lost s = 0 \<longrightarrow> 0 < permits s) \<and>
    window (new_link client_limits win) = win"
proof -
  have win: "1 \<le> win" "win \<le> max_credit server_limits" "win \<le> max_credit client_limits"
    using assms(1-3) by (auto simp: accepted_window_def offered_window_def clamp_def)
  have ok: "flow_ok win s" by (rule flow_reachable_ok[OF assms(4) win(2)])
  have "sent s \<le> taken s + win" "\<not> overrun s"
    using ok by (auto simp: flow_ok_def conserved_def)
  moreover have "length (queue s) \<le> win + 1"
  proof -
    have "length (butlast (queue s)) \<le> data_in (queue s)"
    proof (cases "queue s" rule: rev_cases)
      case (snoc q m)
      then have "InEnd \<notin> set q"
        using ok by (auto simp: flow_ok_def end_last_def butlast_append split: if_splits)
      then show ?thesis using snoc by (simp add: data_in_full)
    qed simp
    also have "\<dots> \<le> win" using ok by (simp add: flow_ok_def conserved_def)
    finally show ?thesis by simp
  qed
  moreover have "0 < permits s" if "wire s = []" "queue s = []" "credits s = []" "lost s = 0"
    using that ok win(1) by (auto simp: flow_ok_def conserved_def)
  moreover have "window (new_link client_limits win) = win"
    using win by (auto simp: new_link_def clamp_def)
  ultimately show ?thesis by blast
qed

theorem credit_window_bounds_producer_witness:
  "sent ((new_flow 32)\<lparr>permits := 31, wire := [InValue ()], sent := 1\<rparr> :: (unit, unit) Flow)
     \<le> taken ((new_flow 32)\<lparr>permits := 31, wire := [InValue ()], sent := 1\<rparr> :: (unit, unit) Flow) + 32"
proof -
  have w: "32 = accepted_window default_limits (offered_window default_limits 32)"
    by (simp add: accepted_window_def offered_window_def clamp_def default_limits_def MAX_CREDIT_def)
  have "flow_step default_limits 32 (new_flow 32 :: (unit, unit) Flow)
      ((new_flow 32)\<lparr>permits := 31, wire := [InValue ()], sent := 1\<rparr>)"
    using flow_step.flow_emit[of "new_flow 32" 31 "InValue ()" default_limits 32]
    by (simp add: new_flow_def spend_def)
  then have "flow_reachable default_limits 32
      ((new_flow 32)\<lparr>permits := 31, wire := [InValue ()], sent := 1\<rparr> :: (unit, unit) Flow)"
    by (rule flow_reachable.flow_more[OF flow_reachable.flow_new])
  then show ?thesis
    using credit_window_bounds_producer[OF _ _ w] by (simp add: default_limits_def MAX_CREDIT_def)
qed

text \<open>
  A link stays within its bounds and fails once.  In every reachable state of a link the
  stream table holds distinct identities, at most as many as the limits allow, and every
  channel holds at most one more than the window; and once a failure is recorded the table
  is empty, every attempt to open a stream answers with that first failure and changes
  nothing, and no later event replaces it.
\<close>

theorem link_stays_bounded:
  assumes "link_reachable limits accepted l"
  shows "distinct (streams l) \<and> length (streams l) \<le> max_streams limits \<and>
    (\<forall>i q. channels l i = Some q \<longrightarrow> length q \<le> clamp 1 (max_credit limits) accepted + 1) \<and>
    (\<forall>e. failure l = Some e \<longrightarrow> streams l = [] \<and> (\<forall>k enc. open_stream k enc l = (Inl e, l)) \<and>
       (\<forall>l'. link_step l l' \<longrightarrow> failure l' = Some e))"
proof -
  have "link_ok l" "link_limits l = limits" "window l = clamp 1 (max_credit limits) accepted"
    using link_reachable_ok[OF assms] by simp_all
  moreover from this(1) have "open_stream k enc l = (Inl e, l)" if "failure l = Some e" for e k enc
    using that by (simp add: link_ok_def open_stream_def status_def)
  ultimately show ?thesis
    using link_step_failure[of l] by (auto simp: link_ok_def queues_ok_def)
qed

theorem link_stays_bounded_witness:
  "length (streams (snd (open_stream StartQuery (Inr [1])
     (new_link default_limits 8 :: (unit, unit) LinkInner)))) \<le> 256"
proof -
  let ?l = "new_link default_limits 8 :: (unit, unit) LinkInner"
  obtain r l' where o: "open_stream StartQuery (Inr [1]) ?l = (r, l')" by fastforce
  have "link_reachable default_limits 8 l'"
    by (rule reach_step[OF reach_new step_open[OF o]])
  from link_stays_bounded[OF this] have "length (streams l') \<le> max_streams default_limits" by blast
  then show ?thesis
    using o by (simp add: default_limits_def MAX_STREAMS_def)
qed

text \<open>
  Opening a stream whose first message cannot be encoded leaks its slot: the call fails
  with the encoding error, but the identity stays in the table with no receiver, so the slot
  counts against the stream limit for good, and a frame from the peer for that stream fails
  the whole link as if the peer had overrun its credit.
\<close>

theorem open_leaks_unencodable:
  assumes "alive l" and "length (streams l) < max_streams (link_limits l)"
    and "open_stream k (Inl e) l = (r, l')"
  shows "r = Inl (PeerFault e) \<and> next_id l \<in> set (streams l') \<and> channels l' (next_id l) = None \<and>
    (next_id l \<notin> set (streams l) \<longrightarrow> length (streams l') = length (streams l) + 1) \<and>
    reader_turn (ArrMessage (next_id l) (MValue v)) l' = (False, fail (CreditExceeded (next_id l)) l')"
proof -
  have "next_id l \<notin> set (streams l) \<Longrightarrow> filter (\<lambda>j. j \<noteq> next_id l) (streams l) = streams l"
    by (rule filter_True) auto
  then show ?thesis
    using assms by (auto simp: open_stream_def status_def Let_def reader_turn_def try_send_def)
qed

theorem open_leaks_unencodable_witness:
  "fst (open_stream StartQuery (Inl ()) (new_link default_limits 8 :: (unit, unit) LinkInner))
     = Inl (PeerFault ()) \<and>
   length (streams (snd (open_stream StartQuery (Inl ())
     (new_link default_limits 8 :: (unit, unit) LinkInner)))) = 1"
proof -
  let ?l = "new_link default_limits 8 :: (unit, unit) LinkInner"
  obtain r l' where o: "open_stream StartQuery (Inl ()) ?l = (r, l')" by fastforce
  from open_leaks_unencodable[OF _ _ o] show ?thesis
    using o by (simp add: new_link_def default_limits_def MAX_STREAMS_def)
qed

end
