(* ===== verification/Budget.thy ===== *)
theory Budget
  imports Ono_Text
begin

text \<open>
  The shared resource budget (\<open>crates/ono-value/src/budget.rs\<close>): two ceilings, what was
  spent, refusal without admission, and nested budgets drawn from what remains.  Counters
  are unsigned 64-bit and saturate, as in the source.
\<close>

section \<open>Budgets\<close>

definition MATERIALIZE_MAX_ITEMS :: nat where "MATERIALIZE_MAX_ITEMS = 100000"
definition MATERIALIZE_MAX_BYTES :: nat where "MATERIALIZE_MAX_BYTES = 134217728"
definition COMMAND_CAPTURE_MAX_BYTES :: nat where "COMMAND_CAPTURE_MAX_BYTES = 268435456"
definition COMMAND_CAPTURE_MAX_ITEMS :: nat where "COMMAND_CAPTURE_MAX_ITEMS = MATERIALIZE_MAX_ITEMS"

datatype Ceiling = Items | Bytes

datatype ErrorCode = ResourceItemLimit | ResourceByteLimit

fun ceiling_code :: "Ceiling \<Rightarrow> ErrorCode" where
  "ceiling_code Items = ResourceItemLimit"
| "ceiling_code Bytes = ResourceByteLimit"

fun noun :: "Ceiling \<Rightarrow> ustr" where
  "noun Items = asc ''values''"
| "noun Bytes = asc ''bytes''"

definition UNITS :: "(ustr \<times> nat) list" where
  "UNITS = [(asc ''GiB'', 2 ^ 30), (asc ''MiB'', 2 ^ 20), (asc ''KiB'', 2 ^ 10), (asc ''B'', 1)]"

definition in_unit :: "nat \<Rightarrow> ustr \<times> nat \<Rightarrow> ustr" where
  "in_unit bytes u =
     (let whole = bytes div snd u; tenths = bytes mod snd u * 10 div snd u
      in if tenths = 0 then show_nat whole @ asc '' '' @ fst u
         else show_nat whole @ asc ''.'' @ show_nat tenths @ asc '' '' @ fst u)"

definition human_bytes :: "nat \<Rightarrow> ustr" where
  "human_bytes bytes =
     (case find (\<lambda>u. bytes \<ge> snd u) UNITS of Some u \<Rightarrow> in_unit bytes u | None \<Rightarrow> asc ''0 B'')"

fun ceiling_written :: "Ceiling \<Rightarrow> nat \<Rightarrow> ustr" where
  "ceiling_written Items configured = show_nat configured @ asc '' values''"
| "ceiling_written Bytes configured =
     show_nat configured @ asc '' bytes ('' @ human_bytes configured @ asc '')''"

record Exceeded =
  ex_stage :: ustr
  ex_ceiling :: Ceiling
  configured :: nat
  observed :: nat
  setting :: ustr

definition exceeded_message :: "Exceeded \<Rightarrow> ErrorCode \<times> ustr" where
  "exceeded_message e =
     (ceiling_code (ex_ceiling e),
      ex_stage e @ asc '' reached its '' @ ceiling_written (ex_ceiling e) (configured e)
        @ asc '' budget after '' @ show_nat (observed e) @ asc '' '' @ noun (ex_ceiling e))"

record Budget =
  stage :: ustr
  max_items :: nat
  max_bytes :: nat
  consumed_items :: nat
  consumed_bytes :: nat
  item_setting :: ustr
  byte_setting :: ustr

definition budget_of :: "ustr \<Rightarrow> nat \<Rightarrow> nat \<Rightarrow> Budget" where
  "budget_of st items bs =
     \<lparr>stage = st, max_items = items, max_bytes = bs, consumed_items = 0, consumed_bytes = 0,
      item_setting = asc ''limits.materialize_items'', byte_setting = asc ''limits.materialize_bytes''\<rparr>"

definition for_settings :: "ustr \<Rightarrow> ustr \<Rightarrow> Budget \<Rightarrow> Budget" where
  "for_settings items bs b = b\<lparr>item_setting := items, byte_setting := bs\<rparr>"

definition materialization :: "ustr \<Rightarrow> Budget" where
  "materialization st = budget_of st MATERIALIZE_MAX_ITEMS MATERIALIZE_MAX_BYTES"

definition command_captures :: Budget where
  "command_captures =
     for_settings (asc ''limits.materialize_items'') (asc ''limits.command_capture_bytes'')
       (budget_of (asc ''this command's captures'') COMMAND_CAPTURE_MAX_ITEMS COMMAND_CAPTURE_MAX_BYTES)"

definition exceeded :: "Budget \<Rightarrow> Ceiling \<Rightarrow> nat \<Rightarrow> nat \<Rightarrow> Exceeded" where
  "exceeded b c conf obs =
     \<lparr>ex_stage = stage b, ex_ceiling = c, configured = conf, observed = obs,
      setting = (case c of Items \<Rightarrow> item_setting b | Bytes \<Rightarrow> byte_setting b)\<rparr>"

definition charge_estimate :: "nat \<Rightarrow> Budget \<Rightarrow> (Exceeded + unit) \<times> Budget" where
  "charge_estimate bs b =
     (let items = sat_add_u64 (consumed_items b) 1
      in if items > max_items b then (Inl (exceeded b Items (max_items b) items), b)
         else let consumed = sat_add_u64 (consumed_bytes b) bs
              in if consumed > max_bytes b then (Inl (exceeded b Bytes (max_bytes b) consumed), b)
                 else (Inr (), b\<lparr>consumed_items := items, consumed_bytes := consumed\<rparr>))"

text \<open>\<open>charge\<close> estimates the value first; the estimate is an argument.\<close>

definition charge :: "('v \<Rightarrow> nat) \<Rightarrow> 'v \<Rightarrow> Budget \<Rightarrow> (Exceeded + unit) \<times> Budget" where
  "charge estimated_size v b = charge_estimate (estimated_size v) b"

definition child :: "ustr \<Rightarrow> Budget \<Rightarrow> Budget" where
  "child st b =
     for_settings (item_setting b) (byte_setting b)
       (budget_of st (max_items b - consumed_items b) (max_bytes b - consumed_bytes b))"

definition absorb :: "Budget \<Rightarrow> Budget \<Rightarrow> Budget" where
  "absorb ch b =
     b\<lparr>consumed_items := sat_add_u64 (consumed_items b) (consumed_items ch),
       consumed_bytes := sat_add_u64 (consumed_bytes b) (consumed_bytes ch)\<rparr>"

record MaterializationLimits =
  lim_items :: nat
  lim_bytes :: nat

definition default_materialization :: MaterializationLimits where
  "default_materialization = \<lparr>lim_items = MATERIALIZE_MAX_ITEMS, lim_bytes = MATERIALIZE_MAX_BYTES\<rparr>"

definition budget_for :: "MaterializationLimits \<Rightarrow> ustr \<Rightarrow> Budget" where
  "budget_for l st = budget_of st (lim_items l) (lim_bytes l)"

section \<open>Nested work\<close>

text \<open>
  What a command does with its budget: charge a value of some size, or run a nested capture
  on a child budget and absorb it.  The run also lists the sizes that were admitted, at any
  depth.
\<close>

datatype Work = Charge nat | Capture ustr "Work list"

fun run_work :: "Work \<Rightarrow> Budget \<Rightarrow> Budget \<times> nat list"
  and run_works :: "Work list \<Rightarrow> Budget \<Rightarrow> Budget \<times> nat list" where
  "run_work (Charge n) b =
     (case charge_estimate n b of (Inr _, b') \<Rightarrow> (b', [n]) | (Inl _, b') \<Rightarrow> (b', []))"
| "run_work (Capture st ws) b =
     (let (c, admitted) = run_works ws (child st b) in (absorb c b, admitted))"
| "run_works [] b = (b, [])"
| "run_works (w # ws) b =
     (let (b1, xs) = run_work w b; (b2, ys) = run_works ws b1 in (b2, xs @ ys))"

definition budget_ok :: "Budget \<Rightarrow> bool" where
  "budget_ok b \<longleftrightarrow> consumed_items b \<le> max_items b \<and> consumed_bytes b \<le> max_bytes b \<and>
     max_items b < u64_max \<and> max_bytes b < u64_max"

text \<open>The account a run keeps: exactly what was admitted, within unchanged ceilings.\<close>

definition accounts :: "Budget \<Rightarrow> Budget \<times> nat list \<Rightarrow> bool" where
  "accounts b r \<longleftrightarrow>
     fst r = b\<lparr>consumed_items := consumed_items b + length (snd r),
               consumed_bytes := consumed_bytes b + sum_list (snd r)\<rparr> \<and>
     consumed_items b + length (snd r) \<le> max_items b \<and>
     consumed_bytes b + sum_list (snd r) \<le> max_bytes b"

lemma charge_estimate_cases:
  assumes "budget_ok b"
  shows "charge_estimate n b =
    (if consumed_items b + 1 > max_items b
     then (Inl (exceeded b Items (max_items b) (consumed_items b + 1)), b)
     else if consumed_bytes b + n > max_bytes b
     then (Inl (exceeded b Bytes (max_bytes b) (sat_add_u64 (consumed_bytes b) n)), b)
     else (Inr (), b\<lparr>consumed_items := consumed_items b + 1, consumed_bytes := consumed_bytes b + n\<rparr>))"
  using assms by (auto simp: charge_estimate_def budget_ok_def sat_add_u64_def Let_def)

lemma accounts_charge: "budget_ok b \<Longrightarrow> accounts b (run_work (Charge n) b)"
  by (auto simp: charge_estimate_cases accounts_def) (auto simp: budget_ok_def)

lemma accounts_capture:
  assumes "budget_ok b" "accounts (child st b) (c, xs)"
  shows "accounts b (absorb c b, xs)"
  using assms
  by (auto simp: accounts_def child_def for_settings_def budget_of_def absorb_def budget_ok_def
      sat_add_u64_def)

lemma child_ok: "budget_ok b \<Longrightarrow> budget_ok (child st b)"
  by (auto simp: budget_ok_def child_def for_settings_def budget_of_def)

lemma accounts_ok: "budget_ok b \<Longrightarrow> accounts b (b', xs) \<Longrightarrow> budget_ok b'"
  by (auto simp: accounts_def budget_ok_def)

lemma accounts_append: "accounts b (b1, xs) \<Longrightarrow> accounts b1 (b2, ys) \<Longrightarrow> accounts b (b2, xs @ ys)"
  by (auto simp: accounts_def)

lemma run_accounts:
  "budget_ok b \<Longrightarrow> accounts b (run_work w b)"
  "budget_ok b \<Longrightarrow> accounts b (run_works ws b)"
proof (induction w b and ws b rule: run_work_run_works.induct)
  case (1 n b)
  then show ?case by (rule accounts_charge)
next
  case (2 st ws b)
  then show ?case
    using accounts_capture child_ok by (cases "run_works ws (child st b)") auto
next
  case (3 b)
  then show ?case by (simp add: accounts_def budget_ok_def)
next
  case (4 w ws b)
  obtain b1 xs where r1: "run_work w b = (b1, xs)" by fastforce
  obtain b2 ys where r2: "run_works ws b1 = (b2, ys)" by fastforce
  have a1: "accounts b (b1, xs)" using 4(1)[OF 4(3)] r1 by simp
  have "accounts b1 (b2, ys)" using 4(2)[of "(b1, xs)" b1 xs] r1 r2 accounts_ok[OF 4(3) a1] by simp
  then show ?case using accounts_append[OF a1] r1 r2 by simp
qed

section \<open>The rendered figure\<close>

text \<open>The figure a byte ceiling is rendered with is within a tenth of its unit below it.\<close>

lemma unit_figure:
  fixes n scale :: nat
  assumes "0 < scale"
  shows "10 * (n div scale) * scale + n mod scale * 10 div scale * scale \<le> 10 * n"
    "10 * n < 10 * (n div scale) * scale + n mod scale * 10 div scale * scale + scale"
    "n mod scale * 10 div scale < 10"
proof -
  let ?m = "n mod scale"
  have n: "10 * n = 10 * (n div scale) * scale + 10 * ?m"
    by (metis add_mult_distrib2 div_mult_mod_eq mult.assoc)
  have t: "?m * 10 div scale * scale \<le> 10 * ?m" by (simp add: mult.commute)
  have "?m * 10 < ?m * 10 div scale * scale + scale"
    using assms by (metis add.commute dividend_less_div_times)
  then show "10 * n < 10 * (n div scale) * scale + ?m * 10 div scale * scale + scale"
    using n by linarith
  show "10 * (n div scale) * scale + ?m * 10 div scale * scale \<le> 10 * n"
    using n t by linarith
  show "?m * 10 div scale < 10"
    using assms mod_less_divisor[OF assms, of n] by (simp add: div_less_iff_less_mult)
qed

section \<open>Properties\<close>

text \<open>
  Nested captures share one allowance.  Whatever a command charges, at whatever depth
  of nested captures, and whichever charges are refused on the way, the budget it started
  from ends up having spent exactly the sizes that were admitted, at every depth together,
  and never more than either of its ceilings, which the run leaves as they were.
\<close>

theorem nested_budgets_share_one_ceiling:
  assumes "max_items b < u64_max" and "max_bytes b < u64_max"
    and "consumed_items b \<le> max_items b" and "consumed_bytes b \<le> max_bytes b"
    and "run_works ws b = (b', admitted)"
  shows "consumed_items b' = consumed_items b + length admitted \<and>
    consumed_bytes b' = consumed_bytes b + sum_list admitted \<and>
    consumed_items b' \<le> max_items b \<and> consumed_bytes b' \<le> max_bytes b \<and>
    max_items b' = max_items b \<and> max_bytes b' = max_bytes b"
  using run_accounts(2)[of b ws] assms by (auto simp: budget_ok_def accounts_def)

theorem nested_budgets_share_one_ceiling_witness:
  "consumed_bytes (fst (run_works [Charge 60, Capture [1] [Charge 30, Charge 30]]
     (budget_of [1] 10 100))) = 90"
proof -
  let ?r = "run_works [Charge 60, Capture [1] [Charge 30, Charge 30]] (budget_of [1] 10 100)"
  have r: "?r = (fst ?r, [60, 30])"
    by (simp add: charge_estimate_def budget_of_def child_def for_settings_def sat_add_u64_def
        u64_max_def exceeded_def Let_def)
  show ?thesis
    using nested_budgets_share_one_ceiling[OF _ _ _ _ r] by (simp add: budget_of_def u64_max_def)
qed

text \<open>
  A refused charge admits nothing and names what stopped it: a charge is refused exactly
  when one more value, or the value's bytes, would cross the ceiling; the budget is then
  unchanged, and the refusal carries that ceiling, its configured figure and its setting,
  with an observed figure beyond the configured one.
\<close>

theorem refused_charge_admits_nothing:
  assumes "max_items b < u64_max" and "max_bytes b < u64_max"
    and "consumed_items b \<le> max_items b" and "consumed_bytes b \<le> max_bytes b"
    and "charge_estimate n b = (r, b')"
  shows "(case r of
      Inr _ \<Rightarrow> consumed_items b < max_items b \<and> consumed_bytes b + n \<le> max_bytes b \<and>
        consumed_items b' = consumed_items b + 1 \<and> consumed_bytes b' = consumed_bytes b + n
    | Inl e \<Rightarrow> b' = b \<and> configured e < observed e \<and> ex_stage e = stage b \<and>
        (ex_ceiling e = Items \<and> consumed_items b = max_items b \<and> configured e = max_items b \<and>
           setting e = item_setting b \<or>
         ex_ceiling e = Bytes \<and> max_bytes b < consumed_bytes b + n \<and> configured e = max_bytes b \<and>
           setting e = byte_setting b))"
  using assms charge_estimate_cases[of b n]
  by (auto simp: budget_ok_def exceeded_def sat_add_u64_def split: if_splits)

theorem refused_charge_admits_nothing_witness:
  "snd (charge_estimate 200 (budget_of [1] 10 100)) = budget_of [1] 10 100"
proof -
  obtain r b' where r: "charge_estimate 200 (budget_of [1] 10 100) = (r, b')" by fastforce
  have "\<exists>e. r = Inl e"
    using r by (auto simp: charge_estimate_def budget_of_def sat_add_u64_def u64_max_def Let_def)
  then obtain e where "r = Inl e" ..
  then show ?thesis
    using refused_charge_admits_nothing[OF _ _ _ _ r] r by (simp add: budget_of_def u64_max_def)
qed

end
