(* ===== verification/Map_Value.thy ===== *)
theory Map_Value
  imports Ono_Text
begin

text \<open>
  The insertion-ordered map value (\<open>crates/ono-value/src/map.rs\<close>) as an association list
  with distinct keys, the interface of a keyed store, and the map's order-insensitive
  equality.  The equality of the stored values is an argument of the map's equality.
\<close>

section \<open>Operations\<close>

type_synonym 'v MapValue = "(ustr \<times> 'v) list"

definition map_new :: "'v MapValue" where "map_new = []"

definition map_get :: "ustr \<Rightarrow> 'v MapValue \<Rightarrow> 'v option" where
  "map_get k m = map_option snd (find (\<lambda>e. fst e = k) m)"

definition contains_key :: "ustr \<Rightarrow> 'v MapValue \<Rightarrow> bool" where
  "contains_key k m \<longleftrightarrow> map_get k m \<noteq> None"

fun replace_first :: "ustr \<Rightarrow> 'v \<Rightarrow> 'v MapValue \<Rightarrow> 'v MapValue" where
  "replace_first k v [] = []"
| "replace_first k v (e # es) = (if fst e = k then (fst e, v) # es else e # replace_first k v es)"

definition map_insert :: "ustr \<Rightarrow> 'v \<Rightarrow> 'v MapValue \<Rightarrow> 'v option \<times> 'v MapValue" where
  "map_insert k v m =
     (case find (\<lambda>e. fst e = k) m of
        Some e \<Rightarrow> (Some (snd e), replace_first k v m)
      | None \<Rightarrow> (None, m @ [(k, v)]))"

fun map_remove :: "ustr \<Rightarrow> 'v MapValue \<Rightarrow> 'v option \<times> 'v MapValue" where
  "map_remove k [] = (None, [])"
| "map_remove k (e # es) =
     (if fst e = k then (Some (snd e), es)
      else let (r, es') = map_remove k es in (r, e # es'))"

definition map_eq :: "('v \<Rightarrow> 'v \<Rightarrow> bool) \<Rightarrow> 'v MapValue \<Rightarrow> 'v MapValue \<Rightarrow> bool" where
  "map_eq veq a b \<longleftrightarrow> length a = length b \<and>
     list_all (\<lambda>(k, v). case map_get k b of Some w \<Rightarrow> veq w v | None \<Rightarrow> False) a"

definition from_entries :: "(ustr \<times> 'v) list \<Rightarrow> 'v MapValue" where
  "from_entries es = fold (\<lambda>(k, v) m. snd (map_insert k v m)) es map_new"

definition map_to_string :: "('v \<Rightarrow> ustr) \<Rightarrow> 'v MapValue \<Rightarrow> ustr" where
  "map_to_string show m =
     asc ''{'' @ concat (map (\<lambda>(i, k, v). (if i > 0 then asc '', '' else []) @ k @ asc '': '' @ show v)
       (zip [0..<length m] m)) @ asc ''}''"

section \<open>The interface of a keyed store\<close>

locale keyed_store =
  fixes empty :: 'm
    and look :: "'k \<Rightarrow> 'm \<Rightarrow> 'v option"
    and put :: "'k \<Rightarrow> 'v \<Rightarrow> 'm \<Rightarrow> 'm"
    and del :: "'k \<Rightarrow> 'm \<Rightarrow> 'm"
    and ok :: "'m \<Rightarrow> bool"
  assumes ok_empty: "ok empty"
    and look_empty: "look k empty = None"
    and ok_put: "ok m \<Longrightarrow> ok (put k v m)"
    and look_put: "ok m \<Longrightarrow> look j (put k v m) = (if j = k then Some v else look j m)"
    and ok_del: "ok m \<Longrightarrow> ok (del k m)"
    and look_del: "ok m \<Longrightarrow> look j (del k m) = (if j = k then None else look j m)"
begin

text \<open>Putting a list of entries one after the other: the last entry of a key stands.\<close>

lemma look_puts:
  "ok m \<Longrightarrow> ok (fold (\<lambda>(k, v). put k v) es m) \<and>
     look j (fold (\<lambda>(k, v). put k v) es m) =
       (case map_of (rev es) j of Some v \<Rightarrow> Some v | None \<Rightarrow> look j m)"
proof (induction es arbitrary: m)
  case (Cons e es)
  obtain k v where e: "e = (k, v)" by fastforce
  show ?case
    using Cons.IH[OF ok_put[OF Cons.prems]]
    by (auto simp: e look_put[OF Cons.prems] map_add_def split: option.splits)
qed simp

lemma put_del_same: "ok m \<Longrightarrow> look j (del k (put k v m)) = look j (del k m)"
  by (simp add: look_put look_del ok_put)

end

section \<open>The map implements it\<close>

definition map_ok :: "'v MapValue \<Rightarrow> bool" where
  "map_ok m \<longleftrightarrow> distinct (map fst m)"

lemma map_get_Nil [simp]: "map_get k [] = None"
  and map_get_Cons [simp]: "map_get k (e # es) = (if fst e = k then Some (snd e) else map_get k es)"
  by (simp_all add: map_get_def)

lemma map_get_None: "map_get k m = None \<longleftrightarrow> k \<notin> fst ` set m"
  by (induction m) auto

lemma map_get_append: "map_get k (a @ b) = (case map_get k a of None \<Rightarrow> map_get k b | Some v \<Rightarrow> Some v)"
  by (induction a) auto

lemma map_get_in: "map_ok m \<Longrightarrow> (k, v) \<in> set m \<longleftrightarrow> map_get k m = Some v"
  by (induction m) (force simp: map_ok_def)+

lemma replace_first_keys: "map fst (replace_first k v m) = map fst m"
  by (induction m) auto

lemma map_get_replace_first:
  "map_get j (replace_first k v m) = (if j = k \<and> map_get k m \<noteq> None then Some v else map_get j m)"
  by (induction m) auto

lemma map_insert_result:
  "fst (map_insert k v m) = map_get k m"
  "map fst (snd (map_insert k v m)) = (if map_get k m = None then map fst m @ [k] else map fst m)"
  "map_get j (snd (map_insert k v m)) = (if j = k then Some v else map_get j m)"
  by (auto simp: map_insert_def map_get_def[of k m] replace_first_keys map_get_replace_first
      map_get_append split: option.splits)

lemma map_remove_result:
  "fst (map_remove k m) = map_get k m"
  "map fst (snd (map_remove k m)) = remove1 k (map fst m)"
  by (induction m) (auto split: prod.splits)

lemma map_get_remove:
  assumes "map_ok m"
  shows "map_get j (snd (map_remove k m)) = (if j = k then None else map_get j m)"
proof (cases "j = k")
  case True
  have "set (map fst (snd (map_remove k m))) = set (map fst m) - {k}"
    using assms by (simp only: map_remove_result map_ok_def set_remove1_eq)
  then show ?thesis using True by (simp add: map_get_None)
next
  case False
  then show ?thesis by (induction m) (auto split: prod.splits)
qed

interpretation mapv: keyed_store map_new map_get "\<lambda>k v m. snd (map_insert k v m)"
  "\<lambda>k m. snd (map_remove k m)" map_ok
  by unfold_locales
    (auto simp: map_new_def map_ok_def map_insert_result map_remove_result map_get_None
      map_get_remove[unfolded map_ok_def] dest: distinct_remove1)

lemma map_eq_sound:
  assumes "map_ok a" "map_ok b" "map_eq (=) a b"
  shows "map_get k a = map_get k b"
proof -
  have agree: "map_get j b = Some v" if "(j, v) \<in> set a" for j v
    using assms(3) that by (auto simp: map_eq_def list_all_iff split: option.splits)
  then have "fst ` set a \<subseteq> fst ` set b"
    by (metis (no_types, lifting) image_subsetI map_get_None not_Some_eq prod.collapse)
  moreover have "card (fst ` set a) = card (fst ` set b)"
    using assms by (metis distinct_card length_map list.set_map map_eq_def map_ok_def)
  ultimately have "fst ` set a = fst ` set b" by (simp add: card_subset_eq)
  then have "map_get k a = None \<longleftrightarrow> map_get k b = None" by (simp add: map_get_None)
  then show ?thesis
    using agree[of k] map_get_in[OF assms(1), of k] by (cases "map_get k a") auto
qed

lemma map_eq_complete:
  assumes "map_ok a" "map_ok b" "\<forall>k. map_get k a = map_get k b"
  shows "map_eq (=) a b"
proof -
  have "k \<in> fst ` set a \<longleftrightarrow> k \<in> fst ` set b" for k
    using assms(3) map_get_None[of k a] map_get_None[of k b] by simp
  then have "fst ` set a = fst ` set b" by (intro set_eqI)
  then have "length a = length b"
    using assms by (metis distinct_card length_map list.set_map map_ok_def)
  then show ?thesis
    using assms(3) map_get_in[OF assms(1)] by (auto simp: map_eq_def list_all_iff)
qed

section \<open>Properties\<close>

text \<open>
  A map built from entries by insertion, and then changed by further inserts and
  removals, is a map: every key has one entry, a lookup finds the last value inserted under
  its key, inserting or removing one key leaves the others alone and answers what was
  stored before, and re-inserting a key keeps its position.
\<close>

theorem map_value_laws:
  "distinct (map fst (from_entries es)) \<and>
   map_get j (from_entries es) = map_of (rev es) j \<and>
   fst (map_insert k v (from_entries es)) = map_get k (from_entries es) \<and>
   map_get j (snd (map_insert k v (from_entries es))) =
     (if j = k then Some v else map_get j (from_entries es)) \<and>
   (k \<in> set (map fst (from_entries es)) \<longrightarrow>
      map fst (snd (map_insert k v (from_entries es))) = map fst (from_entries es)) \<and>
   fst (map_remove k (from_entries es)) = map_get k (from_entries es) \<and>
   map_get j (snd (map_remove k (from_entries es))) =
     (if j = k then None else map_get j (from_entries es)) \<and>
   map fst (snd (map_remove k (from_entries es))) = remove1 k (map fst (from_entries es))"
proof -
  have ok: "map_ok (from_entries es)" and get: "map_get j (from_entries es) = map_of (rev es) j" for j
    using mapv.look_puts[OF mapv.ok_empty, of es j]
    by (simp_all add: from_entries_def map_new_def split: option.splits)
  have "map fst (snd (map_insert k v (from_entries es))) = map fst (from_entries es)"
    if "k \<in> set (map fst (from_entries es))"
    using that map_get_None[of k "from_entries es"] by (simp add: map_insert_result)
  moreover have "distinct (map fst (from_entries es))" using ok by (simp add: map_ok_def)
  ultimately show ?thesis
    using get map_get_remove[OF ok] by (simp add: map_insert_result map_remove_result)
qed

theorem map_value_laws_witness:
  "map fst (snd (map_insert [1] CHR ''c'' (from_entries [([1], CHR ''a''), ([2], CHR ''b'')]))) = [[1], [2]]"
proof -
  have "from_entries [([1], CHR ''a''), ([2], CHR ''b'')] = [([1], CHR ''a''), ([2], CHR ''b'')]"
    by (simp add: from_entries_def map_new_def map_insert_def)
  then show ?thesis
    using map_value_laws[of "[([1], CHR ''a''), ([2], CHR ''b'')]" _ "[1]"] by simp
qed

text \<open>
  Map equality forgets the insertion order and nothing else: two maps compare equal
  exactly when every key has the same value in both, so in particular the comparison is
  symmetric although it only walks one side.
\<close>

theorem map_equality_extensional:
  "map_eq (=) (from_entries es) (from_entries ds) \<longleftrightarrow>
     (\<forall>k. map_get k (from_entries es) = map_get k (from_entries ds))"
proof -
  have "map_ok (from_entries xs)" for xs :: "(ustr \<times> 'a) list"
    using mapv.look_puts[OF mapv.ok_empty, of xs] by (simp add: from_entries_def)
  then show ?thesis using map_eq_sound map_eq_complete by blast
qed

end
