(* ===== verification/Line_Buffer.thy ===== *)
theory Line_Buffer
  imports Ono_Text
begin

text \<open>
  The line editor's buffer and kill ring (\<open>crates/ono-editor/src/buffer.rs\<close>).  The text is a
  list of code points; the cursor and every range are byte offsets into its UTF-8 form, as
  in the source.  Slicing, inserting or replacing at an offset that is not a character
  boundary panics in the source and is \<open>None\<close> here.  The Unicode tables the source asks
  (which characters are alphanumeric, and the case mappings) are arguments.
\<close>

section \<open>Offsets\<close>

fun floor_down :: "ustr \<Rightarrow> nat \<Rightarrow> nat" where
  "floor_down s 0 = 0"
| "floor_down s (Suc off) = (if is_char_boundary s (Suc off) then Suc off else floor_down s off)"

definition floor_boundary :: "ustr \<Rightarrow> nat \<Rightarrow> nat" where
  "floor_boundary s off = floor_down s (min off (blen s))"

definition previous_char :: "ustr \<Rightarrow> nat \<Rightarrow> (nat \<times> nat) option" where
  "previous_char s off =
     (let off' = floor_boundary s off
      in case split_at off' s of
           None \<Rightarrow> None
         | Some (a, b) \<Rightarrow> if a = [] then None else Some (off' - len_utf8 (last a), last a))"

definition next_char :: "ustr \<Rightarrow> nat \<Rightarrow> (nat \<times> nat) option" where
  "next_char s off =
     (let off' = floor_boundary s off
      in case split_at off' s of
           None \<Rightarrow> None
         | Some (a, b) \<Rightarrow> (case b of [] \<Rightarrow> None | c # _ \<Rightarrow> Some (off' + len_utf8 c, c)))"

text \<open>\<open>str::find\<close> and \<open>str::rfind\<close> of a character: the byte offset of the match.\<close>

fun find_char :: "nat \<Rightarrow> ustr \<Rightarrow> nat option" where
  "find_char c [] = None"
| "find_char c (x # xs) = (if x = c then Some 0 else map_option (\<lambda>i. len_utf8 x + i) (find_char c xs))"

fun rfind_char :: "nat \<Rightarrow> ustr \<Rightarrow> nat option" where
  "rfind_char c [] = None"
| "rfind_char c (x # xs) =
     (case rfind_char c xs of
        Some i \<Rightarrow> Some (len_utf8 x + i)
      | None \<Rightarrow> if x = c then Some 0 else None)"

definition line_start :: "ustr \<Rightarrow> nat \<Rightarrow> nat" where
  "line_start s off =
     (case split_at (floor_boundary s off) s of
        None \<Rightarrow> 0
      | Some (a, b) \<Rightarrow> (case rfind_char 10 a of None \<Rightarrow> 0 | Some i \<Rightarrow> i + 1))"

definition line_end :: "ustr \<Rightarrow> nat \<Rightarrow> nat" where
  "line_end s off =
     (let off' = floor_boundary s off
      in case split_at off' s of
           None \<Rightarrow> blen s
         | Some (a, b) \<Rightarrow> (case find_char 10 b of None \<Rightarrow> blen s | Some i \<Rightarrow> off' + i))"

lemma floor_down_boundary: "is_char_boundary s (floor_down s off)" "floor_down s off \<le> off"
  by (induction off) auto

lemma floor_boundary_ok: "is_char_boundary s (floor_boundary s off)" "floor_boundary s off \<le> off"
  using floor_down_boundary[of s "min off (blen s)"] by (simp_all add: floor_boundary_def)

lemma floor_boundary_id: "is_char_boundary s off \<Longrightarrow> floor_boundary s off = off"
  using boundary_le[of s off] by (cases off) (auto simp: floor_boundary_def min_def)

lemma previous_char_Some:
  assumes "previous_char s off = Some (st, c)"
  shows "is_char_boundary s st" "st < off" "\<exists>a b. s = a @ c # b \<and> st = blen a \<and> floor_boundary s off = st + len_utf8 c"
proof -
  from assms obtain a b where ab: "s = a @ b" "floor_boundary s off = blen a" "a \<noteq> []"
    "st = blen a - len_utf8 (last a)" "c = last a"
    by (auto simp: previous_char_def Let_def split_at_Some split: option.splits if_splits)
  obtain a' where a: "a = a' @ [c]" using ab(3,5) by (metis append_butlast_last_id)
  then have "blen a = blen a' + len_utf8 c" by simp
  then have st: "st = blen a'" using ab(4,5) by simp
  then have s: "s = a' @ c # b" using ab(1) a by simp
  show "is_char_boundary s st" unfolding boundary_iff using s st by blast
  have "blen a \<le> off" using ab(2) floor_boundary_ok(2)[of s off] by simp
  moreover have "blen a = st + len_utf8 c" using a st by simp
  ultimately show "st < off" using len_utf8_pos(1)[of c] by linarith
  show "\<exists>a b. s = a @ c # b \<and> st = blen a \<and> floor_boundary s off = st + len_utf8 c"
    using s st ab(2) \<open>blen a = st + len_utf8 c\<close> by auto
qed

lemma next_char_Some:
  assumes "next_char s off = Some (en, c)"
  shows "is_char_boundary s en" "floor_boundary s off < en"
    "\<exists>a b. s = a @ c # b \<and> floor_boundary s off = blen a \<and> en = blen a + len_utf8 c"
proof -
  from assms obtain a b where ab: "s = a @ c # b" "floor_boundary s off = blen a"
    "en = blen a + len_utf8 c"
    by (auto simp: next_char_def Let_def split_at_Some split: option.splits list.splits)
  have "s = (a @ [c]) @ b" using ab(1) by simp
  then show "is_char_boundary s en" unfolding boundary_iff using ab(3)
    by (metis blen_simps add.right_neutral)
  show "floor_boundary s off < en" using ab by simp
  show "\<exists>a b. s = a @ c # b \<and> floor_boundary s off = blen a \<and> en = blen a + len_utf8 c"
    using ab by blast
qed

section \<open>Words\<close>

function skip_back :: "(nat \<Rightarrow> bool) \<Rightarrow> ustr \<Rightarrow> nat \<Rightarrow> nat" where
  "skip_back stop s off =
     (case previous_char s off of
        None \<Rightarrow> off
      | Some (start, c) \<Rightarrow> if stop c then off else skip_back stop s start)"
  by pat_completeness auto
termination
  by (relation "measure (\<lambda>(stop, s, off). off)") (auto dest: previous_char_Some(2))

function skip_forward :: "(nat \<Rightarrow> bool) \<Rightarrow> ustr \<Rightarrow> nat \<Rightarrow> nat" where
  "skip_forward stop s off =
     (case next_char s off of
        None \<Rightarrow> off
      | Some (en, c) \<Rightarrow> if stop c then off else skip_forward stop s en)"
  by pat_completeness auto
termination
proof (relation "measure (\<lambda>(stop, s, off). blen s - floor_boundary s off)", goal_cases)
  case (2 stop s off p en c)
  have n: "next_char s off = Some (en, c)" using 2 by simp
  have "is_char_boundary s en" by (rule next_char_Some(1)[OF n])
  then show ?case
    using next_char_Some(2)[OF n] boundary_le[of s en] floor_boundary_id[of s en] by simp
qed simp

declare skip_back.simps [simp del] skip_forward.simps [simp del]

record Unicode =
  is_alphanumeric :: "nat \<Rightarrow> bool"
  char_upper :: "nat \<Rightarrow> ustr"
  char_lower :: "nat \<Rightarrow> ustr"
  str_upper :: "ustr \<Rightarrow> ustr"
  str_lower :: "ustr \<Rightarrow> ustr"

definition is_word_char :: "Unicode \<Rightarrow> nat \<Rightarrow> bool" where
  "is_word_char U c \<longleftrightarrow> is_alphanumeric U c \<or> c = 95"

definition word_start_before :: "Unicode \<Rightarrow> ustr \<Rightarrow> nat \<Rightarrow> nat" where
  "word_start_before U s off =
     (let off1 = skip_back (is_word_char U) s (floor_boundary s off)
      in skip_back (\<lambda>c. \<not> is_word_char U c) s off1)"

definition word_end_after :: "Unicode \<Rightarrow> ustr \<Rightarrow> nat \<Rightarrow> nat" where
  "word_end_after U s off =
     (let off1 = skip_forward (is_word_char U) s (floor_boundary s off)
      in skip_forward (\<lambda>c. \<not> is_word_char U c) s off1)"

definition big_word_start_before :: "ustr \<Rightarrow> nat \<Rightarrow> nat" where
  "big_word_start_before s off =
     (let off1 = skip_back (\<lambda>c. \<not> is_whitespace c) s (floor_boundary s off)
      in skip_back is_whitespace s off1)"

lemma skip_back_ok:
  "is_char_boundary s off \<Longrightarrow> is_char_boundary s (skip_back stop s off) \<and> skip_back stop s off \<le> off"
proof (induction stop s off rule: skip_back.induct)
  case (1 stop s off)
  show ?case
  proof (cases "previous_char s off")
    case (Some p)
    then obtain st c where p: "previous_char s off = Some (st, c)" by (cases p) simp
    have "st \<le> off" "is_char_boundary s st" using previous_char_Some(1,2)[OF p] by simp_all
    then show ?thesis
      using 1(1)[OF p refl] 1(2) p
      by (cases "stop c") (auto simp: skip_back.simps[of stop s off])
  qed (use 1 in \<open>subst (1 2) skip_back.simps, simp\<close>)
qed

lemma skip_forward_ok:
  "is_char_boundary s off \<Longrightarrow>
     is_char_boundary s (skip_forward stop s off) \<and> off \<le> skip_forward stop s off"
proof (induction stop s off rule: skip_forward.induct)
  case (1 stop s off)
  show ?case
  proof (cases "next_char s off")
    case (Some p)
    then obtain en c where p: "next_char s off = Some (en, c)" by (cases p) simp
    have "off < en" using next_char_Some(2)[OF p] floor_boundary_id[OF 1(2)] by simp
    then show ?thesis
      using 1(1)[OF p refl] 1(2) p next_char_Some(1)[OF p]
      by (cases "stop c") (auto simp: skip_forward.simps[of stop s off])
  qed (use 1 in \<open>subst (1 2) skip_forward.simps, simp\<close>)
qed

lemma word_start_before_ok:
  "is_char_boundary s (word_start_before U s off)" "word_start_before U s off \<le> off"
  using skip_back_ok[OF floor_boundary_ok(1)[of s off], of "is_word_char U"]
    skip_back_ok[of s "skip_back (is_word_char U) s (floor_boundary s off)"] floor_boundary_ok(2)[of s off]
  by (auto simp: word_start_before_def Let_def intro: le_trans)

lemma big_word_start_before_ok:
  "is_char_boundary s (big_word_start_before s off)" "big_word_start_before s off \<le> off"
  using skip_back_ok[OF floor_boundary_ok(1)[of s off], of "\<lambda>c. \<not> is_whitespace c"]
    skip_back_ok[of s "skip_back (\<lambda>c. \<not> is_whitespace c) s (floor_boundary s off)"]
    floor_boundary_ok(2)[of s off]
  by (auto simp: big_word_start_before_def Let_def intro: le_trans)

lemma word_end_after_ok:
  "is_char_boundary s (word_end_after U s off)"
  "is_char_boundary s off \<Longrightarrow> off \<le> word_end_after U s off"
  using skip_forward_ok[OF floor_boundary_ok(1)[of s off], of "is_word_char U"]
    skip_forward_ok[of s "skip_forward (is_word_char U) s (floor_boundary s off)"]
    floor_boundary_id[of s off]
  by (auto simp: word_end_after_def Let_def intro: le_trans)

lemma rfind_char_Some: "rfind_char c a = Some i \<Longrightarrow> \<exists>p q. a = p @ c # q \<and> i = blen p"
proof (induction a arbitrary: i)
  case (Cons x xs)
  then show ?case
  proof (cases "rfind_char c xs")
    case (Some j)
    then obtain p q where "xs = p @ c # q" "j = blen p" using Cons.IH by blast
    then show ?thesis using Cons.prems Some by (intro exI[of _ "x # p"] exI[of _ q]) auto
  qed (auto split: if_splits)
qed simp

lemma find_char_Some: "find_char c a = Some i \<Longrightarrow> \<exists>p q. a = p @ c # q \<and> i = blen p"
proof (induction a arbitrary: i)
  case (Cons x xs)
  show ?case
  proof (cases "x = c")
    case True
    then show ?thesis using Cons.prems by (metis append_Nil blen_simps(1) find_char.simps(2) option.inject)
  next
    case False
    then obtain j where j: "find_char c xs = Some j" "i = len_utf8 x + j" using Cons.prems by auto
    then obtain p q where "xs = p @ c # q" "j = blen p" using Cons.IH by blast
    then show ?thesis using j by (intro exI[of _ "x # p"] exI[of _ q]) auto
  qed
qed simp

lemma line_start_ok: "is_char_boundary s (line_start s off)" "line_start s off \<le> off"
proof -
  obtain a b where ab: "split_at (floor_boundary s off) s = Some (a, b)"
    using floor_boundary_ok(1)[of s off] by (auto simp: is_char_boundary_def)
  then have s: "s = a @ b" "floor_boundary s off = blen a" unfolding split_at_Some by blast+
  have "is_char_boundary s (line_start s off) \<and> line_start s off \<le> blen a"
  proof (cases "rfind_char 10 a")
    case None
    then show ?thesis using ab by (simp add: line_start_def)
  next
    case (Some i)
    then obtain p q where pq: "a = p @ 10 # q" "i = blen p" using rfind_char_Some by blast
    have one: "len_utf8 10 = 1" by (simp add: len_utf8_def)
    have "line_start s off = blen (p @ [10])" using ab Some pq one by (simp add: line_start_def)
    moreover have "s = (p @ [10]) @ (q @ b)" using s pq by simp
    ultimately have "is_char_boundary s (line_start s off)" by (metis boundary_append)
    then show ?thesis using \<open>line_start s off = blen (p @ [10])\<close> pq one by simp
  qed
  then show "is_char_boundary s (line_start s off)" "line_start s off \<le> off"
    using s(2) floor_boundary_ok(2)[of s off] by simp_all
qed

lemma line_end_ok:
  "is_char_boundary s (line_end s off)"
  "is_char_boundary s off \<Longrightarrow> off \<le> line_end s off"
proof -
  obtain a b where ab: "split_at (floor_boundary s off) s = Some (a, b)"
    using floor_boundary_ok(1)[of s off] by (auto simp: is_char_boundary_def)
  then have s: "s = a @ b" "floor_boundary s off = blen a" unfolding split_at_Some by blast+
  have "is_char_boundary s (line_end s off) \<and> blen a \<le> line_end s off"
  proof (cases "find_char 10 b")
    case None
    then show ?thesis using ab s boundary_end[of s] by (simp add: line_end_def)
  next
    case (Some i)
    then obtain p q where pq: "b = p @ 10 # q" "i = blen p" using find_char_Some by blast
    have "line_end s off = blen (a @ p)" using ab Some pq s by (simp add: line_end_def)
    moreover have "s = (a @ p) @ (10 # q)" using s pq by simp
    ultimately have "is_char_boundary s (line_end s off)" by (metis boundary_append)
    then show ?thesis using \<open>line_end s off = blen (a @ p)\<close> by simp
  qed
  then show "is_char_boundary s (line_end s off)" "is_char_boundary s off \<Longrightarrow> off \<le> line_end s off"
    using s(2) floor_boundary_id[of s off] by simp_all
qed

section \<open>The kill ring\<close>

definition KILL_RING_CAPACITY :: nat where "KILL_RING_CAPACITY = 64"

datatype KillDirection = Backward | Forward

record KillRing =
  entries :: "ustr list"
  ring_cursor :: nat

definition ring_new :: KillRing where "ring_new = \<lparr>entries = [], ring_cursor = 0\<rparr>"

definition current :: "KillRing \<Rightarrow> ustr option" where
  "current r = (if ring_cursor r < length (entries r) then Some (entries r ! ring_cursor r) else None)"

definition add :: "ustr \<Rightarrow> KillRing \<Rightarrow> KillRing" where
  "add t r = (if t = [] then r
     else \<lparr>entries = take KILL_RING_CAPACITY (t # entries r), ring_cursor = 0\<rparr>)"

definition merge :: "ustr \<Rightarrow> KillDirection \<Rightarrow> KillRing \<Rightarrow> KillRing" where
  "merge t d r =
     (if t = [] then r
      else (case entries r of
              e # es \<Rightarrow> r\<lparr>entries := (case d of Backward \<Rightarrow> t @ e | Forward \<Rightarrow> e @ t) # es\<rparr>
            | [] \<Rightarrow> add t r)\<lparr>ring_cursor := 0\<rparr>)"

definition rotate_ring :: "KillRing \<Rightarrow> KillRing" where
  "rotate_ring r =
     (if entries r \<noteq> [] then r\<lparr>ring_cursor := (ring_cursor r + 1) mod length (entries r)\<rparr> else r)"

section \<open>The buffer\<close>

record LineBuffer =
  line :: ustr
  cursor :: nat
  kill_ring :: KillRing
  last_kill :: "KillDirection option"
  last_yank :: "(nat \<times> nat) option"

definition buffer_new :: LineBuffer where
  "buffer_new = \<lparr>line = [], cursor = 0, kill_ring = ring_new, last_kill = None, last_yank = None\<rparr>"

definition from_text :: "ustr \<Rightarrow> LineBuffer" where
  "from_text t = buffer_new\<lparr>line := t, cursor := blen t\<rparr>"

definition forget_transient :: "LineBuffer \<Rightarrow> LineBuffer" where
  "forget_transient b = b\<lparr>last_kill := None, last_yank := None\<rparr>"

text \<open>\<open>String::insert_str\<close> and \<open>String::replace_range\<close>; \<open>None\<close> is the panic.\<close>

definition str_insert :: "nat \<Rightarrow> ustr \<Rightarrow> ustr \<Rightarrow> ustr option" where
  "str_insert off t s = (case split_at off s of None \<Rightarrow> None | Some (a, b) \<Rightarrow> Some (a @ t @ b))"

definition str_replace :: "nat \<Rightarrow> nat \<Rightarrow> ustr \<Rightarrow> ustr \<Rightarrow> ustr option" where
  "str_replace i j t s =
     (if i > j then None
      else case split_at j s of
             None \<Rightarrow> None
           | Some (a, b) \<Rightarrow> (case split_at i a of None \<Rightarrow> None | Some (p, q) \<Rightarrow> Some (p @ t @ b)))"

definition set_cursor :: "nat \<Rightarrow> LineBuffer \<Rightarrow> LineBuffer" where
  "set_cursor off b = (let b = forget_transient b in b\<lparr>cursor := floor_boundary (line b) off\<rparr>)"

definition set_text :: "ustr \<Rightarrow> LineBuffer \<Rightarrow> LineBuffer" where
  "set_text t b = (forget_transient b)\<lparr>line := t, cursor := blen t\<rparr>"

definition clear :: "LineBuffer \<Rightarrow> LineBuffer" where
  "clear b = (forget_transient b)\<lparr>line := [], cursor := 0\<rparr>"

definition insert_str :: "ustr \<Rightarrow> LineBuffer \<Rightarrow> LineBuffer option" where
  "insert_str t b =
     (let b = forget_transient b
      in map_option (\<lambda>s. b\<lparr>line := s, cursor := cursor b + blen t\<rparr>) (str_insert (cursor b) t (line b)))"

definition insert_char :: "nat \<Rightarrow> LineBuffer \<Rightarrow> LineBuffer option" where
  "insert_char c b =
     (let b = forget_transient b
      in map_option (\<lambda>s. b\<lparr>line := s, cursor := cursor b + len_utf8 c\<rparr>)
           (str_insert (cursor b) [c] (line b)))"

definition replace_range :: "nat \<Rightarrow> nat \<Rightarrow> ustr \<Rightarrow> LineBuffer \<Rightarrow> LineBuffer option" where
  "replace_range i j t b =
     (let b = forget_transient b;
          start = floor_boundary (line b) i;
          en = max (floor_boundary (line b) j) start
      in map_option (\<lambda>s. b\<lparr>line := s,
            cursor := (if cursor b \<le> start then cursor b
                       else if cursor b \<ge> en then cursor b - (en - start) + blen t
                       else start + blen t)\<rparr>)
           (str_replace start en t (line b)))"

definition delete_backward_char :: "LineBuffer \<Rightarrow> (bool \<times> LineBuffer) option" where
  "delete_backward_char b =
     (let b = forget_transient b
      in case previous_char (line b) (cursor b) of
           Some (start, _) \<Rightarrow> map_option (\<lambda>s. (True, b\<lparr>line := s, cursor := start\<rparr>))
                               (str_replace start (cursor b) [] (line b))
         | None \<Rightarrow> Some (False, b))"

definition delete_forward_char :: "LineBuffer \<Rightarrow> (bool \<times> LineBuffer) option" where
  "delete_forward_char b =
     (let b = forget_transient b
      in case next_char (line b) (cursor b) of
           Some (en, _) \<Rightarrow> map_option (\<lambda>s. (True, b\<lparr>line := s\<rparr>))
                            (str_replace (cursor b) en [] (line b))
         | None \<Rightarrow> Some (False, b))"

definition move_left :: "LineBuffer \<Rightarrow> bool \<times> LineBuffer" where
  "move_left b =
     (let b = forget_transient b
      in case previous_char (line b) (cursor b) of
           Some (start, _) \<Rightarrow> (True, b\<lparr>cursor := start\<rparr>) | None \<Rightarrow> (False, b))"

definition move_right :: "LineBuffer \<Rightarrow> bool \<times> LineBuffer" where
  "move_right b =
     (let b = forget_transient b
      in case next_char (line b) (cursor b) of
           Some (en, _) \<Rightarrow> (True, b\<lparr>cursor := en\<rparr>) | None \<Rightarrow> (False, b))"

definition move_word_left :: "Unicode \<Rightarrow> LineBuffer \<Rightarrow> LineBuffer" where
  "move_word_left U b =
     (let b = forget_transient b in b\<lparr>cursor := word_start_before U (line b) (cursor b)\<rparr>)"

definition move_word_right :: "Unicode \<Rightarrow> LineBuffer \<Rightarrow> LineBuffer" where
  "move_word_right U b =
     (let b = forget_transient b in b\<lparr>cursor := word_end_after U (line b) (cursor b)\<rparr>)"

definition move_line_start :: "LineBuffer \<Rightarrow> LineBuffer" where
  "move_line_start b = (let b = forget_transient b in b\<lparr>cursor := line_start (line b) (cursor b)\<rparr>)"

definition move_line_end :: "LineBuffer \<Rightarrow> LineBuffer" where
  "move_line_end b = (let b = forget_transient b in b\<lparr>cursor := line_end (line b) (cursor b)\<rparr>)"

definition kill :: "nat \<Rightarrow> nat \<Rightarrow> KillDirection \<Rightarrow> LineBuffer \<Rightarrow> LineBuffer option" where
  "kill i j d b =
     (let b = b\<lparr>last_yank := None\<rparr>
      in if i \<ge> j then Some b
         else case str_slice i j (line b) of
                None \<Rightarrow> None
              | Some removed \<Rightarrow>
                  (case str_replace i j [] (line b) of
                     None \<Rightarrow> None
                   | Some s \<Rightarrow>
                       Some (b\<lparr>line := s, cursor := (if cursor b > i then i else cursor b),
                               kill_ring := (if last_kill b \<noteq> None then merge removed d (kill_ring b)
                                             else add removed (kill_ring b)),
                               last_kill := Some d\<rparr>)))"

definition kill_line_forward :: "LineBuffer \<Rightarrow> LineBuffer option" where
  "kill_line_forward b =
     (let en = line_end (line b) (cursor b);
          en' = (if en = cursor b
                 then (case next_char (line b) (cursor b) of Some (after, _) \<Rightarrow> after | None \<Rightarrow> en)
                 else en)
      in kill (cursor b) en' Forward b)"

definition kill_line_backward :: "LineBuffer \<Rightarrow> LineBuffer option" where
  "kill_line_backward b = kill (line_start (line b) (cursor b)) (cursor b) Backward b"

definition kill_word_backward :: "LineBuffer \<Rightarrow> LineBuffer option" where
  "kill_word_backward b = kill (big_word_start_before (line b) (cursor b)) (cursor b) Backward b"

definition kill_word_forward :: "Unicode \<Rightarrow> LineBuffer \<Rightarrow> LineBuffer option" where
  "kill_word_forward U b = kill (cursor b) (word_end_after U (line b) (cursor b)) Forward b"

definition yank :: "LineBuffer \<Rightarrow> (bool \<times> LineBuffer) option" where
  "yank b =
     (case current (kill_ring b) of
        None \<Rightarrow> Some (False, b)
      | Some t \<Rightarrow>
          map_option (\<lambda>s. (True, b\<lparr>line := s, cursor := cursor b + blen t, last_kill := None,
                                   last_yank := Some (cursor b, cursor b + blen t)\<rparr>))
            (str_insert (cursor b) t (line b)))"

definition yank_pop :: "LineBuffer \<Rightarrow> (bool \<times> LineBuffer) option" where
  "yank_pop b =
     (case last_yank b of
        None \<Rightarrow> Some (False, b)
      | Some (i, j) \<Rightarrow>
          let b = b\<lparr>kill_ring := rotate_ring (kill_ring b)\<rparr>
          in case current (kill_ring b) of
               None \<Rightarrow> Some (False, b)
             | Some t \<Rightarrow>
                 map_option (\<lambda>s. (True, b\<lparr>line := s, cursor := i + blen t,
                                          last_yank := Some (i, i + blen t)\<rparr>))
                   (str_replace i j t (line b)))"

definition transpose_chars :: "LineBuffer \<Rightarrow> LineBuffer option" where
  "transpose_chars b =
     (let b = forget_transient b
      in case split_at (cursor b) (line b) of
           None \<Rightarrow> None
         | Some (before, after) \<Rightarrow>
             if cursor b = blen (line b) \<or> (after \<noteq> [] \<and> hd after = 10)
             then (case previous_char (line b) (cursor b) of
                     None \<Rightarrow> Some b
                   | Some (second_start, second) \<Rightarrow>
                       (case previous_char (line b) second_start of
                          None \<Rightarrow> Some b
                        | Some (first_start, first) \<Rightarrow>
                            map_option (\<lambda>s. b\<lparr>line := s, cursor := first_start + blen [second, first]\<rparr>)
                              (str_replace first_start (cursor b) [second, first] (line b))))
             else (case previous_char (line b) (cursor b) of
                     None \<Rightarrow> Some b
                   | Some (left_start, left) \<Rightarrow>
                       (case next_char (line b) (cursor b) of
                          None \<Rightarrow> Some b
                        | Some (right_end, right) \<Rightarrow>
                            map_option (\<lambda>s. b\<lparr>line := s, cursor := left_start + blen [right, left]\<rparr>)
                              (str_replace left_start right_end [right, left] (line b)))))"

definition map_word :: "Unicode \<Rightarrow> (ustr \<Rightarrow> ustr) \<Rightarrow> LineBuffer \<Rightarrow> LineBuffer option" where
  "map_word U transform b =
     (let b = forget_transient b; en = word_end_after U (line b) (cursor b)
      in if en \<le> cursor b then Some b
         else case str_slice (cursor b) en (line b) of
                None \<Rightarrow> None
              | Some word \<Rightarrow>
                  map_option (\<lambda>s. b\<lparr>line := s, cursor := cursor b + blen (transform word)\<rparr>)
                    (str_replace (cursor b) en (transform word) (line b)))"

definition uppercase_word :: "Unicode \<Rightarrow> LineBuffer \<Rightarrow> LineBuffer option" where
  "uppercase_word U = map_word U (str_upper U)"

definition lowercase_word :: "Unicode \<Rightarrow> LineBuffer \<Rightarrow> LineBuffer option" where
  "lowercase_word U = map_word U (str_lower U)"

fun capitalise :: "Unicode \<Rightarrow> bool \<Rightarrow> ustr \<Rightarrow> ustr" where
  "capitalise U first [] = []"
| "capitalise U first (c # cs) =
     (if is_word_char U c \<and> first then char_upper U c @ capitalise U False cs
      else char_lower U c @ capitalise U first cs)"

definition capitalise_word :: "Unicode \<Rightarrow> LineBuffer \<Rightarrow> LineBuffer option" where
  "capitalise_word U = map_word U (capitalise U True)"

section \<open>Editing never panics\<close>

datatype EditOp =
    SetCursor nat | SetText ustr | Clear | InsertChar nat | InsertStr ustr | ReplaceRange nat nat ustr
  | DeleteBackward | DeleteForward | MoveLeft | MoveRight | MoveWordLeft | MoveWordRight
  | MoveLineStart | MoveLineEnd | KillLineForward | KillLineBackward | KillWordBackward
  | KillWordForward | Yank | YankPop | Transpose | Uppercase | Lowercase | Capitalise

fun edit :: "Unicode \<Rightarrow> LineBuffer \<Rightarrow> EditOp \<Rightarrow> LineBuffer option" where
  "edit U b (SetCursor off) = Some (set_cursor off b)"
| "edit U b (SetText t) = Some (set_text t b)"
| "edit U b Clear = Some (clear b)"
| "edit U b (InsertChar c) = insert_char c b"
| "edit U b (InsertStr t) = insert_str t b"
| "edit U b (ReplaceRange i j t) = replace_range i j t b"
| "edit U b DeleteBackward = map_option snd (delete_backward_char b)"
| "edit U b DeleteForward = map_option snd (delete_forward_char b)"
| "edit U b MoveLeft = Some (snd (move_left b))"
| "edit U b MoveRight = Some (snd (move_right b))"
| "edit U b MoveWordLeft = Some (move_word_left U b)"
| "edit U b MoveWordRight = Some (move_word_right U b)"
| "edit U b MoveLineStart = Some (move_line_start b)"
| "edit U b MoveLineEnd = Some (move_line_end b)"
| "edit U b KillLineForward = kill_line_forward b"
| "edit U b KillLineBackward = kill_line_backward b"
| "edit U b KillWordBackward = kill_word_backward b"
| "edit U b KillWordForward = kill_word_forward U b"
| "edit U b Yank = map_option snd (yank b)"
| "edit U b YankPop = map_option snd (yank_pop b)"
| "edit U b Transpose = transpose_chars b"
| "edit U b Uppercase = uppercase_word U b"
| "edit U b Lowercase = lowercase_word U b"
| "edit U b Capitalise = capitalise_word U b"

definition ring_ok :: "KillRing \<Rightarrow> bool" where
  "ring_ok r \<longleftrightarrow> length (entries r) \<le> KILL_RING_CAPACITY \<and> [] \<notin> set (entries r) \<and>
     ring_cursor r < max 1 (length (entries r))"

definition yank_ok :: "ustr \<Rightarrow> (nat \<times> nat) option \<Rightarrow> bool" where
  "yank_ok s y \<longleftrightarrow> (case y of None \<Rightarrow> True
     | Some (i, j) \<Rightarrow> i \<le> j \<and> is_char_boundary s i \<and> is_char_boundary s j)"

definition buffer_ok :: "LineBuffer \<Rightarrow> bool" where
  "buffer_ok b \<longleftrightarrow> is_char_boundary (line b) (cursor b) \<and> yank_ok (line b) (last_yank b) \<and>
     ring_ok (kill_ring b)"

definition steps_ok :: "LineBuffer option \<Rightarrow> bool" where
  "steps_ok r \<longleftrightarrow> (\<exists>b. r = Some b \<and> buffer_ok b)"

lemma steps_ok_Some [simp]: "steps_ok (Some b) \<longleftrightarrow> buffer_ok b"
  by (simp add: steps_ok_def)

lemma forget_simps [simp]:
  "line (forget_transient b) = line b" "cursor (forget_transient b) = cursor b"
  "kill_ring (forget_transient b) = kill_ring b" "last_yank (forget_transient b) = None"
  "last_kill (forget_transient b) = None"
  by (simp_all add: forget_transient_def)

lemma yank_ok_None [simp]: "yank_ok s None"
  by (simp add: yank_ok_def)

lemma boundary_split:
  assumes "is_char_boundary s off"
  obtains a b where "s = a @ b" "off = blen a"
  using assms by (auto simp: boundary_iff)

lemma prefix_by_length:
  "p @ x = a @ b \<Longrightarrow> blen a \<le> blen p \<Longrightarrow> \<exists>q. p = a @ q"
proof (induction p arbitrary: a)
  case Nil
  then show ?case by simp
next
  case (Cons c p)
  then show ?case by (cases a) auto
qed

lemma boundary_shorter: "is_char_boundary (p @ x) off \<Longrightarrow> off \<le> blen p \<Longrightarrow> is_char_boundary (p @ y) off"
  by (auto simp: boundary_iff dest!: prefix_by_length) (metis append_assoc)

lemma boundary_longer:
  assumes "is_char_boundary (p @ r) off" "blen p \<le> off"
  shows "is_char_boundary (p' @ r) (off - blen p + blen p')"
proof -
  obtain a b where ab: "p @ r = a @ b" "off = blen a" using assms(1) by (auto simp: boundary_iff)
  then obtain q where q: "a = p @ q" using prefix_by_length[of a b p r] assms(2) by auto
  then have "p' @ r = (p' @ q) @ b" using ab(1) by simp
  moreover have "off - blen p + blen p' = blen (p' @ q)" using ab(2) q by simp
  ultimately show ?thesis by (metis boundary_append)
qed

lemma str_insert_ok:
  assumes "is_char_boundary s off"
  obtains a b where "s = a @ b" "off = blen a" "str_insert off t s = Some (a @ t @ b)"
proof -
  obtain a b where ab: "s = a @ b" "off = blen a" using assms by (rule boundary_split)
  then have "split_at off s = Some (a, b)" by (simp add: split_at_Some)
  then show ?thesis using that[of a b] ab by (simp add: str_insert_def)
qed

lemma str_range_ok:
  assumes "is_char_boundary s i" "is_char_boundary s j" "i \<le> j"
  obtains p q r where "s = p @ q @ r" "i = blen p" "j = blen p + blen q"
    "str_slice i j s = Some q" "\<And>t. str_replace i j t s = Some (p @ t @ r)"
proof -
  obtain a r where a: "s = a @ r" "j = blen a" using assms(2) by (rule boundary_split)
  obtain p x where p: "s = p @ x" "i = blen p" using assms(1) by (rule boundary_split)
  obtain q where q: "a = p @ q" using prefix_by_length[of a r p x] a p assms(3) by auto
  have "split_at j s = Some (a, r)" "split_at i a = Some (p, q)"
    using a p q by (simp_all add: split_at_Some)
  then show ?thesis
    using that[of p q r] a p q assms(3) by (simp add: str_slice_def str_replace_def)
qed

lemma ring_ok_new: "ring_ok ring_new"
  by (simp add: ring_ok_def ring_new_def)

lemma ring_ok_add: "ring_ok r \<Longrightarrow> ring_ok (add t r)"
  by (auto simp: ring_ok_def add_def KILL_RING_CAPACITY_def dest: in_set_takeD)

lemma ring_ok_merge: "ring_ok r \<Longrightarrow> ring_ok (merge t d r)"
  using ring_ok_add[of r t]
  by (auto simp: merge_def ring_ok_def split: list.splits KillDirection.splits)

lemma ring_ok_rotate: "ring_ok r \<Longrightarrow> ring_ok (rotate_ring r)"
  by (auto simp: ring_ok_def rotate_ring_def less_max_iff_disj)

lemma steps_ok_line:
  assumes "buffer_ok b" "is_char_boundary s off"
  shows "buffer_ok ((forget_transient b)\<lparr>line := s, cursor := off\<rparr>)"
  using assms by (simp add: buffer_ok_def)

lemma steps_ok_move:
  assumes "buffer_ok b" "is_char_boundary (line b) off"
  shows "buffer_ok ((forget_transient b)\<lparr>cursor := off\<rparr>)"
  using assms by (simp add: buffer_ok_def)

lemma steps_ok_forget: "buffer_ok b \<Longrightarrow> buffer_ok (forget_transient b)"
  by (simp add: buffer_ok_def)

text \<open>Replacing a range and leaving the cursor behind the replacement.\<close>

lemma replaced_ok:
  assumes "buffer_ok b" "is_char_boundary (line b) i" "is_char_boundary (line b) j" "i \<le> j"
  shows "steps_ok (map_option (\<lambda>s. (forget_transient b)\<lparr>line := s, cursor := i + blen t\<rparr>)
    (str_replace i j t (line b)))"
proof (rule str_range_ok[OF assms(2-4)])
  fix p q r
  assume "i = blen p" and rep: "\<And>t. str_replace i j t (line b) = Some (p @ t @ r)"
  then have "is_char_boundary (p @ t @ r) (i + blen t)"
    by (metis append_assoc blen_simps(3) boundary_append)
  then show ?thesis using assms(1) by (simp add: steps_ok_def rep steps_ok_line)
qed

lemma inserted_ok:
  assumes "buffer_ok b"
  shows "steps_ok (map_option (\<lambda>s. (forget_transient b)\<lparr>line := s, cursor := cursor b + blen t\<rparr>)
    (str_insert (cursor b) t (line b)))"
proof -
  have "is_char_boundary (line b) (cursor b)" using assms by (simp add: buffer_ok_def)
  then show ?thesis
  proof (rule str_insert_ok[of _ _ t])
    fix a c assume "cursor b = blen a" and ins: "str_insert (cursor b) t (line b) = Some (a @ t @ c)"
    then have "is_char_boundary (a @ t @ c) (cursor b + blen t)"
      by (metis append_assoc blen_simps(3) boundary_append)
    then show ?thesis using assms by (simp add: steps_ok_def ins steps_ok_line)
  qed
qed

lemma replace_range_ok:
  assumes "buffer_ok b"
  shows "steps_ok (replace_range i j t b)"
proof -
  let ?s = "line b" and ?i = "floor_boundary (line b) i"
  let ?j = "max (floor_boundary (line b) j) ?i"
  have bi: "is_char_boundary ?s ?i" and bj: "is_char_boundary ?s ?j"
    using floor_boundary_ok(1)[of ?s] by (auto simp: max_def)
  have c: "is_char_boundary ?s (cursor b)" using assms by (simp add: buffer_ok_def)
  show ?thesis
  proof (rule str_range_ok[OF bi bj])
    fix p q r
    assume s: "?s = p @ q @ r" and i: "?i = blen p" and j: "?j = blen p + blen q"
      and rep: "\<And>t. str_replace ?i ?j t ?s = Some (p @ t @ r)"
    let ?c = "if cursor b \<le> ?i then cursor b
      else if cursor b \<ge> ?j then cursor b - (?j - ?i) + blen t else ?i + blen t"
    have "is_char_boundary (p @ t @ r) ?c"
    proof -
      consider "cursor b \<le> ?i" | "?i < cursor b" "?j \<le> cursor b" | "?i < cursor b" "cursor b < ?j"
        by linarith
      then show ?thesis
      proof cases
        case 1
        then show ?thesis using c s i boundary_shorter[of p "q @ r" "cursor b" "t @ r"] by simp
      next
        case 2
        then have "is_char_boundary ((p @ t) @ r) (cursor b - blen (p @ q) + blen (p @ t))"
          using c s j by (intro boundary_longer) simp_all
        moreover have "cursor b - (?j - ?i) + blen t = cursor b - blen (p @ q) + blen (p @ t)"
          using 2 i j by simp
        ultimately show ?thesis using 2 by simp
      next
        case 3
        have "is_char_boundary ((p @ t) @ r) (blen (p @ t))" by (rule boundary_append)
        moreover have "?c = blen (p @ t)"
          using 3 unfolding i blen_simps(3) by (metis linorder_not_le)
        ultimately show ?thesis by simp
      qed
    qed
    then show ?thesis
      using assms steps_ok_line
      by (simp only: steps_ok_def replace_range_def Let_def rep forget_simps option.map) blast
  qed simp
qed

text \<open>Killing a range whose ends are boundaries.\<close>

lemma kill_cases:
  assumes "is_char_boundary (line b) i" "is_char_boundary (line b) j" "i < j"
  obtains p q r where "line b = p @ q @ r" "i = blen p" "j = blen p + blen q" "q \<noteq> []"
    "kill i j d b = Some (b\<lparr>last_yank := None, line := p @ r,
       cursor := (if cursor b > i then i else cursor b),
       kill_ring := (if last_kill b \<noteq> None then merge q d (kill_ring b) else add q (kill_ring b)),
       last_kill := Some d\<rparr>)"
proof -
  have "i \<le> j" using assms(3) by simp
  then show ?thesis
  proof (rule str_range_ok[OF assms(1,2)])
    fix p q r
    assume s: "line b = p @ q @ r" "i = blen p" "j = blen p + blen q"
      and sl: "str_slice i j (line b) = Some q"
      and rep: "\<And>t. str_replace i j t (line b) = Some (p @ t @ r)"
    have "q \<noteq> []" using s assms(3) by auto
    then show ?thesis using that[OF s] assms(3) sl rep by (simp add: kill_def Let_def)
  qed
qed

lemma kill_ok:
  assumes "buffer_ok b" "is_char_boundary (line b) i" "is_char_boundary (line b) j"
    and "d = Forward \<and> i = cursor b \<or> d = Backward \<and> j = cursor b"
  shows "steps_ok (kill i j d b)"
proof (cases "i < j")
  case False
  then show ?thesis using assms(1) by (simp add: kill_def steps_ok_def buffer_ok_def)
next
  case True
  have "ring_ok (kill_ring b)" using assms(1) by (simp add: buffer_ok_def)
  then have ring: "ring_ok (if last_kill b \<noteq> None then merge q d (kill_ring b) else add q (kill_ring b))"
    for q by (simp add: ring_ok_add ring_ok_merge)
  show ?thesis
  proof (rule kill_cases[OF assms(2,3) True, of d])
    fix p q r
    assume "i = blen p"
      and k: "kill i j d b = Some (b\<lparr>last_yank := None, line := p @ r,
        cursor := (if cursor b > i then i else cursor b),
        kill_ring := (if last_kill b \<noteq> None then merge q d (kill_ring b) else add q (kill_ring b)),
        last_kill := Some d\<rparr>)"
    have "(if cursor b > i then i else cursor b) = blen p" using assms(4) True \<open>i = blen p\<close> by auto
    then show ?thesis using k ring[of q] by (simp add: steps_ok_def buffer_ok_def)
  qed
qed

lemma kill_ops_ok:
  assumes "buffer_ok b"
  shows "steps_ok (kill_line_forward b)" "steps_ok (kill_line_backward b)"
    "steps_ok (kill_word_backward b)" "steps_ok (kill_word_forward U b)"
proof -
  have c: "is_char_boundary (line b) (cursor b)" using assms by (simp add: buffer_ok_def)
  have "is_char_boundary (line b)
      (case next_char (line b) (cursor b) of Some (after, _) \<Rightarrow> after
       | None \<Rightarrow> line_end (line b) (cursor b))"
    using next_char_Some(1) line_end_ok(1) by (auto split: option.splits)
  then show "steps_ok (kill_line_forward b)"
    using c assms line_end_ok(1) by (simp add: kill_line_forward_def Let_def kill_ok)
  show "steps_ok (kill_line_backward b)" "steps_ok (kill_word_backward b)"
    "steps_ok (kill_word_forward U b)"
    using c assms line_start_ok(1) big_word_start_before_ok(1) word_end_after_ok(1)
    by (simp_all add: kill_line_backward_def kill_word_backward_def kill_word_forward_def kill_ok)
qed

lemma delete_backward_ok:
  assumes "buffer_ok b"
  shows "steps_ok (map_option snd (delete_backward_char b))"
proof (cases "previous_char (line b) (cursor b)")
  case None
  then show ?thesis using assms by (simp add: delete_backward_char_def steps_ok_def steps_ok_forget)
next
  case (Some pc)
  then obtain st c where p: "previous_char (line b) (cursor b) = Some (st, c)" by (cases pc) simp
  have c: "is_char_boundary (line b) (cursor b)" using assms by (simp add: buffer_ok_def)
  have "steps_ok (map_option (\<lambda>s. (forget_transient b)\<lparr>line := s, cursor := st + blen []\<rparr>)
      (str_replace st (cursor b) [] (line b)))"
    using replaced_ok[OF assms previous_char_Some(1)[OF p] c, of "[]"] previous_char_Some(2)[OF p]
    by simp
  then show ?thesis
    using p by (simp add: delete_backward_char_def Let_def option.map_comp comp_def)
qed

lemma delete_forward_ok:
  assumes "buffer_ok b"
  shows "steps_ok (map_option snd (delete_forward_char b))"
proof (cases "next_char (line b) (cursor b)")
  case None
  then show ?thesis using assms by (simp add: delete_forward_char_def steps_ok_def steps_ok_forget)
next
  case (Some nc)
  then obtain en c where n: "next_char (line b) (cursor b) = Some (en, c)" by (cases nc) simp
  have c: "is_char_boundary (line b) (cursor b)" using assms by (simp add: buffer_ok_def)
  have "cursor b \<le> en" using next_char_Some(2)[OF n] floor_boundary_id[OF c] by simp
  then have "steps_ok (map_option (\<lambda>s. (forget_transient b)\<lparr>line := s, cursor := cursor b + blen []\<rparr>)
      (str_replace (cursor b) en [] (line b)))"
    using replaced_ok[OF assms c next_char_Some(1)[OF n], of "[]"] by simp
  moreover have "(forget_transient b)\<lparr>line := s, cursor := cursor b\<rparr> = (forget_transient b)\<lparr>line := s\<rparr>" for s
    by (simp add: forget_transient_def)
  ultimately show ?thesis
    using n by (simp add: delete_forward_char_def Let_def option.map_comp comp_def)
qed

lemma current_ring: "ring_ok r \<Longrightarrow> current r = None \<longleftrightarrow> entries r = []"
  by (cases "entries r") (auto simp: current_def ring_ok_def)

lemma yank_op_ok:
  assumes "buffer_ok b"
  shows "steps_ok (map_option snd (yank b))"
proof (cases "current (kill_ring b)")
  case None
  then show ?thesis using assms by (simp add: yank_def steps_ok_def)
next
  case (Some t)
  have "is_char_boundary (line b) (cursor b)" using assms by (simp add: buffer_ok_def)
  then show ?thesis
  proof (rule str_insert_ok[of _ _ t])
    fix a c assume l: "line b = a @ c" "cursor b = blen a"
      and ins: "str_insert (cursor b) t (line b) = Some (a @ t @ c)"
    have "is_char_boundary (a @ t @ c) (blen a + blen t)"
      by (metis append_assoc blen_simps(3) boundary_append)
    then show ?thesis
      using assms l ins Some by (simp add: yank_def steps_ok_def buffer_ok_def yank_ok_def)
  qed
qed

lemma yank_pop_ok:
  assumes "buffer_ok b"
  shows "steps_ok (map_option snd (yank_pop b))"
proof (cases "last_yank b")
  case None
  then show ?thesis using assms by (simp add: yank_pop_def steps_ok_def)
next
  case (Some ij)
  obtain i j where ij: "last_yank b = Some (i, j)" using Some by (cases ij) simp
  have ring: "ring_ok (rotate_ring (kill_ring b))" using assms by (simp add: buffer_ok_def ring_ok_rotate)
  have y: "i \<le> j" "is_char_boundary (line b) i" "is_char_boundary (line b) j"
    using assms ij by (simp_all add: buffer_ok_def yank_ok_def)
  show ?thesis
  proof (cases "current (rotate_ring (kill_ring b))")
    case None
    then show ?thesis using assms ij ring by (simp add: yank_pop_def steps_ok_def buffer_ok_def)
  next
    case (Some t)
    show ?thesis
    proof (rule str_range_ok[OF y(2,3,1)])
      fix p q r assume l: "i = blen p" and rep: "\<And>t. str_replace i j t (line b) = Some (p @ t @ r)"
      have "is_char_boundary (p @ t @ r) (blen p + blen t)"
        by (metis append_assoc blen_simps(3) boundary_append)
      then show ?thesis
        using assms ij ring Some l rep
        by (simp add: yank_pop_def steps_ok_def buffer_ok_def yank_ok_def)
    qed
  qed
qed

lemma map_word_ok:
  assumes "buffer_ok b"
  shows "steps_ok (map_word U f b)"
proof (cases "word_end_after U (line b) (cursor b) \<le> cursor b")
  case True
  then show ?thesis using assms by (simp add: map_word_def steps_ok_def steps_ok_forget)
next
  case False
  let ?e = "word_end_after U (line b) (cursor b)"
  have c: "is_char_boundary (line b) (cursor b)" using assms by (simp add: buffer_ok_def)
  have e: "is_char_boundary (line b) ?e" "cursor b \<le> ?e"
    using word_end_after_ok(1) False by simp_all
  obtain w where "str_slice (cursor b) ?e (line b) = Some w" using str_range_ok[OF c e] by metis
  then show ?thesis
    using False replaced_ok[OF assms c e, of "f w"] by (simp add: map_word_def Let_def)
qed

lemma transpose_ok:
  assumes "buffer_ok b"
  shows "steps_ok (transpose_chars b)"
proof -
  have c: "is_char_boundary (line b) (cursor b)" using assms by (simp add: buffer_ok_def)
  then obtain x y where xy: "split_at (cursor b) (line b) = Some (x, y)"
    by (auto simp: is_char_boundary_def)
  have bwd: "steps_ok (map_option (\<lambda>s. (forget_transient b)\<lparr>line := s, cursor := st + blen t\<rparr>)
      (str_replace st (cursor b) t (line b)))"
    if "previous_char (line b) off = Some (st, d)" "off \<le> cursor b" for st d off t
    using that replaced_ok[OF assms previous_char_Some(1)[OF that(1)] c]
      previous_char_Some(2)[OF that(1)] by simp
  have both: "steps_ok (map_option (\<lambda>s. (forget_transient b)\<lparr>line := s, cursor := st + blen t\<rparr>)
      (str_replace st en t (line b)))"
    if "previous_char (line b) (cursor b) = Some (st, d)" "next_char (line b) (cursor b) = Some (en, f)"
    for st d en f t
    using replaced_ok[OF assms previous_char_Some(1)[OF that(1)] next_char_Some(1)[OF that(2)]]
      previous_char_Some(2)[OF that(1)] next_char_Some(2)[OF that(2)] floor_boundary_id[OF c] by simp
  have still: "buffer_ok (forget_transient b)" using assms by (rule steps_ok_forget)
  have pc: "st \<le> cursor b" if "previous_char (line b) (cursor b) = Some (st, d)" for st d
    using previous_char_Some(2)[OF that] by simp
  note td = transpose_chars_def Let_def forget_simps xy option.case prod.case
  show ?thesis
  proof (cases "previous_char (line b) (cursor b)")
    case None
    then show ?thesis using still unfolding td by simp
  next
    case (Some p1)
    then obtain s1 d1 where p1: "previous_char (line b) (cursor b) = Some (s1, d1)" by (cases p1) simp
    have left: "steps_ok (case previous_char (line b) s1 of
        None \<Rightarrow> Some (forget_transient b)
      | Some (s2, d2) \<Rightarrow> map_option (\<lambda>s. (forget_transient b)\<lparr>line := s, cursor := s2 + blen [d1, d2]\<rparr>)
            (str_replace s2 (cursor b) [d1, d2] (line b)))"
      by (auto simp: still simp del: blen_simps split: option.split intro: bwd[OF _ pc[OF p1]])
    have right: "steps_ok (case next_char (line b) (cursor b) of
        None \<Rightarrow> Some (forget_transient b)
      | Some (en, d2) \<Rightarrow> map_option (\<lambda>s. (forget_transient b)\<lparr>line := s, cursor := s1 + blen [d2, d1]\<rparr>)
            (str_replace s1 en [d2, d1] (line b)))"
      by (auto simp: still simp del: blen_simps split: option.split intro: both[OF p1])
    show ?thesis unfolding td p1 using left right by presburger
  qed
qed

lemma edit_ok: "buffer_ok b \<Longrightarrow> steps_ok (edit U b op)"
proof (cases op)
  case (InsertChar c)
  assume "buffer_ok b"
  with InsertChar show ?thesis using inserted_ok[of b "[c]"] by (simp add: insert_char_def Let_def)
next
  case (InsertStr t)
  assume "buffer_ok b"
  with InsertStr show ?thesis using inserted_ok[of b t] by (simp add: insert_str_def Let_def)
next
  case MoveLeft
  assume "buffer_ok b"
  with MoveLeft show ?thesis
    by (auto simp: move_left_def Let_def steps_ok_def intro: steps_ok_forget steps_ok_move
        dest: previous_char_Some(1) split: option.splits)
next
  case MoveRight
  assume "buffer_ok b"
  with MoveRight show ?thesis
    by (auto simp: move_right_def Let_def steps_ok_def intro: steps_ok_forget steps_ok_move
        dest: next_char_Some(1) split: option.splits)
qed (simp_all add: set_cursor_def set_text_def clear_def Let_def steps_ok_line steps_ok_move
    floor_boundary_ok(1) move_word_left_def move_word_right_def move_line_start_def move_line_end_def
    word_start_before_ok(1) word_end_after_ok(1) line_start_ok(1) line_end_ok(1)
    replace_range_ok delete_backward_ok delete_forward_ok kill_ops_ok yank_op_ok yank_pop_ok
    transpose_ok uppercase_word_def lowercase_word_def capitalise_word_def map_word_ok)

section \<open>Kills and yanks\<close>

text \<open>A ring that holds a kill never empties again.\<close>

lemma ring_grows:
  assumes "buffer_ok b" "entries (kill_ring b) \<noteq> []" "kill i j d b = Some b'"
  shows "entries (kill_ring b') \<noteq> []"
  using assms
  by (auto simp: kill_def Let_def merge_def add_def KILL_RING_CAPACITY_def
      split: if_splits option.splits list.splits)

lemma edit_keeps_ring:
  assumes "buffer_ok b" "entries (kill_ring b) \<noteq> []" "edit U b op = Some b'"
  shows "entries (kill_ring b') \<noteq> []"
  using assms
  by (cases op)
    (auto simp: set_cursor_def set_text_def clear_def insert_char_def insert_str_def replace_range_def
      delete_backward_char_def delete_forward_char_def move_left_def move_right_def move_word_left_def
      move_word_right_def move_line_start_def move_line_end_def kill_line_forward_def
      kill_line_backward_def kill_word_backward_def kill_word_forward_def yank_def yank_pop_def
      rotate_ring_def transpose_chars_def map_word_def uppercase_word_def lowercase_word_def
      capitalise_word_def Let_def split: option.splits if_splits prod.splits dest: ring_grows)

interpretation editing: guarded_machine "edit U" buffer_ok "\<lambda>b. entries (kill_ring b) \<noteq> []" for U
proof unfold_locales
  show "buffer_ok b \<Longrightarrow> edit U b op = Some b' \<Longrightarrow> buffer_ok b'" for b op b'
    using edit_ok[of b U op] by simp
  show "buffer_ok b \<Longrightarrow> entries (kill_ring b) \<noteq> [] \<Longrightarrow> edit U b op = Some b' \<Longrightarrow>
      entries (kill_ring b') \<noteq> []" for b op b'
    by (rule edit_keeps_ring)
qed

lemma edits_total: "buffer_ok b \<Longrightarrow> \<exists>b'. run_events (edit U) b ops = Some b' \<and> buffer_ok b'"
proof (induction ops arbitrary: b)
  case (Cons op ops)
  then obtain b1 where "edit U b op = Some b1" "buffer_ok b1" using edit_ok[of b U op]
    by (auto simp: steps_ok_def)
  then show ?case using Cons.IH by simp
qed simp

lemma from_text_ok: "buffer_ok (from_text s)"
  by (simp add: buffer_ok_def from_text_def buffer_new_def ring_ok_new)

text \<open>
  What a run of kills has done to the line \<open>s0\<close> it started on: nothing yet, or taken one
  contiguous piece out of it, which is the first entry of the ring.
\<close>

definition killed_from :: "ustr \<Rightarrow> LineBuffer \<Rightarrow> bool" where
  "killed_from s0 b \<longleftrightarrow>
     (last_kill b = None \<and> line b = s0 \<or>
      last_kill b \<noteq> None \<and>
      (\<exists>a r c es. s0 = a @ r @ c \<and> line b = a @ c \<and> cursor b = blen a \<and> r \<noteq> [] \<and>
         kill_ring b = \<lparr>entries = r # es, ring_cursor = 0\<rparr>))"

definition is_kill :: "EditOp \<Rightarrow> bool" where
  "is_kill op \<longleftrightarrow> op \<in> {KillLineForward, KillLineBackward, KillWordBackward, KillWordForward}"

lemma append_same_blen: "a @ b = c @ d \<Longrightarrow> blen a = blen c \<Longrightarrow> a = c \<and> b = d"
  by (metis append_same_eq prefix_by_length blen_0 add_cancel_right_right append.right_neutral
      blen_simps(3) order_refl same_append_eq)

lemma kill_killed_from:
  assumes "buffer_ok b" "killed_from s0 b"
    and ij: "is_char_boundary (line b) i" "is_char_boundary (line b) j"
    and d: "d = Forward \<and> i = cursor b \<or> d = Backward \<and> j = cursor b"
    and k: "kill i j d b = Some b'"
  shows "killed_from s0 b'"
proof (cases "i < j")
  case False
  then have "b' = b\<lparr>last_yank := None\<rparr>" using k by (simp add: kill_def)
  moreover have "killed_from s0 (b\<lparr>last_yank := None\<rparr>) = killed_from s0 b"
    by (simp add: killed_from_def)
  ultimately show ?thesis using assms(2) by simp
next
  case True
  show ?thesis
  proof (rule kill_cases[OF ij True, of d])
    fix p q r
    assume l: "line b = p @ q @ r" "i = blen p" "j = blen p + blen q" "q \<noteq> []"
      and k': "kill i j d b = Some (b\<lparr>last_yank := None, line := p @ r,
        cursor := (if cursor b > i then i else cursor b),
        kill_ring := (if last_kill b \<noteq> None then merge q d (kill_ring b) else add q (kill_ring b)),
        last_kill := Some d\<rparr>)"
    have cur: "(if cursor b > i then i else cursor b) = blen p" using d True l by auto
    show ?thesis
    proof (cases "last_kill b = None")
      case True
      then have "line b = s0" using assms(2) by (simp add: killed_from_def)
      moreover have "add q (kill_ring b) =
          \<lparr>entries = q # take (KILL_RING_CAPACITY - 1) (entries (kill_ring b)), ring_cursor = 0\<rparr>"
        using l(4) by (simp add: add_def KILL_RING_CAPACITY_def)
      ultimately show ?thesis
        using k k' cur True l by (auto simp: killed_from_def)
    next
      case False
      then obtain a rr c es where kf: "s0 = a @ rr @ c" "line b = a @ c" "cursor b = blen a"
        "rr \<noteq> []" "kill_ring b = \<lparr>entries = rr # es, ring_cursor = 0\<rparr>"
        using assms(2) by (auto simp: killed_from_def)
      show ?thesis
      proof (cases d)
        case Forward
        then have "p = a \<and> q @ r = c"
          using d l kf by (intro append_same_blen) auto
        then have "s0 = p @ (rr @ q) @ r" using kf(1) by simp
        then show ?thesis
          using k k' cur kf(5) l(4) False Forward by (auto simp: killed_from_def merge_def)
      next
        case Backward
        then have "p @ q = a \<and> r = c"
          using d l kf by (intro append_same_blen) auto
        then have "s0 = p @ (q @ rr) @ r" using kf(1) by simp
        then show ?thesis
          using k k' cur kf(5) l(4) False Backward by (auto simp: killed_from_def merge_def)
      qed
    qed
  qed
qed

lemma kill_shape:
  assumes "is_char_boundary (line b) (cursor b)" "is_kill op"
  shows "\<exists>i j d. edit U b op = kill i j d b \<and> is_char_boundary (line b) i \<and>
    is_char_boundary (line b) j \<and> (d = Forward \<and> i = cursor b \<or> d = Backward \<and> j = cursor b)"
proof -
  have n: "is_char_boundary (line b)
      (case next_char (line b) (cursor b) of Some (after, _) \<Rightarrow> after
       | None \<Rightarrow> line_end (line b) (cursor b))"
    using next_char_Some(1) line_end_ok(1) by (auto split: option.splits)
  consider "op = KillLineForward" | "op = KillLineBackward" | "op = KillWordBackward"
    | "op = KillWordForward"
    using assms(2) by (auto simp: is_kill_def)
  then show ?thesis
  proof cases
    case 1
    then show ?thesis
      using assms(1) n line_end_ok(1)[of "line b" "cursor b"]
      by (auto simp: kill_line_forward_def Let_def)
  next
    case 2
    then show ?thesis
      using assms(1) line_start_ok(1)[of "line b" "cursor b"] by (auto simp: kill_line_backward_def)
  next
    case 3
    then show ?thesis
      using assms(1) big_word_start_before_ok(1)[of "line b" "cursor b"]
      by (auto simp: kill_word_backward_def)
  next
    case 4
    then show ?thesis
      using assms(1) word_end_after_ok(1)[of "line b" U "cursor b"] by (auto simp: kill_word_forward_def)
  qed
qed

lemma edit_killed_from:
  assumes "buffer_ok b" "killed_from s0 b" "is_kill op" "edit U b op = Some b'"
  shows "killed_from s0 b'"
proof -
  have "is_char_boundary (line b) (cursor b)" using assms(1) by (simp add: buffer_ok_def)
  from kill_shape[OF this assms(3), of U] obtain i j d where
    "kill i j d b = Some b'" "is_char_boundary (line b) i" "is_char_boundary (line b) j"
    "d = Forward \<and> i = cursor b \<or> d = Backward \<and> j = cursor b"
    using assms(4) by auto
  then show ?thesis using kill_killed_from[OF assms(1,2)] by blast
qed

lemma kills_killed_from:
  assumes "buffer_ok b" "killed_from s0 b" "\<forall>op \<in> set ops. is_kill op"
    "run_events (edit U) b ops = Some b'"
  shows "killed_from s0 b' \<and> buffer_ok b'"
  using assms
proof (induction ops arbitrary: b)
  case (Cons op ops)
  then obtain u where u: "edit U b op = Some u" "run_events (edit U) u ops = Some b'"
    by (auto split: option.splits)
  have "buffer_ok u" using edit_ok[OF Cons.prems(1), of U op] u(1) by simp
  moreover have "killed_from s0 u" using edit_killed_from[OF Cons.prems(1,2) _ u(1)] Cons.prems(3) by simp
  ultimately show ?case using Cons.IH u(2) Cons.prems(3) by simp
qed simp

section \<open>Properties\<close>

text \<open>
  No sequence of editing operations can panic the editor or split a character: from a
  buffer holding any text, every sequence of operations, with any offsets, ranges and
  texts and whatever the Unicode tables say, completes; the cursor is always on a character
  boundary within the text, and the kill ring never holds more than its capacity or an
  empty entry.
\<close>

theorem editing_never_panics:
  "\<exists>b. run_events (edit U) (from_text s) ops = Some b \<and>
     is_char_boundary (line b) (cursor b) \<and> cursor b \<le> blen (line b) \<and>
     length (entries (kill_ring b)) \<le> 64 \<and> [] \<notin> set (entries (kill_ring b))"
proof -
  obtain b where "run_events (edit U) (from_text s) ops = Some b" "buffer_ok b"
    using edits_total[OF from_text_ok] by blast
  then show ?thesis
    using boundary_le by (auto simp: buffer_ok_def ring_ok_def KILL_RING_CAPACITY_def)
qed

text \<open>
  Consecutive kills can be taken back with one yank: after any run of kills, in any mix
  of directions, that removed something, a yank restores the line exactly as it was before
  the first of them, however many kills were joined, and leaves the cursor right behind the
  restored text.
\<close>

theorem kills_then_yank_restore:
  assumes "buffer_ok b" and "last_kill b = None"
    and "\<forall>op \<in> set ops. is_kill op"
    and "run_events (edit U) b ops = Some b'" and "line b' \<noteq> line b"
  shows "\<exists>b'' removed. yank b' = Some (True, b'') \<and> line b'' = line b \<and>
    blen (line b') + blen removed = blen (line b) \<and> cursor b'' = cursor b' + blen removed"
proof -
  have "killed_from (line b) b" using assms(2) by (simp add: killed_from_def)
  from kills_killed_from[OF assms(1) this assms(3,4)] assms(5)
  obtain a r c es where k: "line b = a @ r @ c" "line b' = a @ c" "cursor b' = blen a"
    "kill_ring b' = \<lparr>entries = r # es, ring_cursor = 0\<rparr>"
    by (auto simp: killed_from_def)
  have "str_insert (blen a) r (a @ c) = Some (a @ r @ c)"
    using split_at_Some[of "blen a" "a @ c" a c] by (simp add: str_insert_def)
  then show ?thesis using k by (auto simp: yank_def current_def)
qed

definition ascii_only :: Unicode where
  "ascii_only = \<lparr>is_alphanumeric = (\<lambda>c. c < 128 \<and> (48 \<le> c \<and> c \<le> 57 \<or> 65 \<le> c \<and> c \<le> 90 \<or> 97 \<le> c \<and> c \<le> 122)),
     char_upper = (\<lambda>c. [c]), char_lower = (\<lambda>c. [c]), str_upper = id, str_lower = id\<rparr>"

theorem kills_then_yank_restore_witness:
  "\<exists>b' b''. run_events (edit ascii_only) (from_text [97, 98]) [KillLineBackward] = Some b' \<and>
     line b' = [] \<and> yank b' = Some (True, b'') \<and> line b'' = [97, 98]"
proof -
  let ?b = "from_text [97, 98]"
  obtain b' where run: "run_events (edit ascii_only) ?b [KillLineBackward] = Some b'"
    using edits_total[OF from_text_ok] by blast
  have l: "line b' = []"
    using run by (auto simp: kill_line_backward_def kill_def from_text_def buffer_new_def line_start_def
        floor_boundary_def eval_nat_numeral is_char_boundary_def len_utf8_def str_slice_def str_replace_def
        Let_def split: option.splits)
  have "last_kill ?b = None" "line ?b = [97, 98]" by (simp_all add: from_text_def buffer_new_def)
  then show ?thesis
    using kills_then_yank_restore[OF from_text_ok _ _ run] l run by (auto simp: is_kill_def)
qed

end
