(* ===== verification/Coverage.thy ===== *)
theory Coverage
  imports Ono_Text "HOL-Library.List_Lexorder" "HOL-Library.Product_Lexorder"
begin

text \<open>
  Temporal coverage (\<open>crates/ono-temporal-core/src/coverage.rs\<close>): which parts of a window
  some source observed, capability by capability, the gaps that are left, and when absence
  of evidence may be read as evidence of absence.  Timestamps are integers (nanoseconds);
  scopes are opaque; a source is its name.
\<close>

section \<open>Data\<close>

datatype TemporalCompleteness =
  Complete | Partial | PointSample | CovUnknown | Unavailable | CovDenied

definition TemporalCompleteness_ALL :: "TemporalCompleteness list" where
  "TemporalCompleteness_ALL = [Complete, Partial, PointSample, CovUnknown, Unavailable, CovDenied]"

fun TemporalCompleteness_as_str :: "TemporalCompleteness \<Rightarrow> ustr" where
  "TemporalCompleteness_as_str Complete = asc ''complete''"
| "TemporalCompleteness_as_str Partial = asc ''partial''"
| "TemporalCompleteness_as_str PointSample = asc ''point_sample''"
| "TemporalCompleteness_as_str CovUnknown = asc ''unknown''"
| "TemporalCompleteness_as_str Unavailable = asc ''unavailable''"
| "TemporalCompleteness_as_str CovDenied = asc ''permission_denied''"

definition TemporalCompleteness_from_name :: "ustr \<Rightarrow> TemporalCompleteness option" where
  "TemporalCompleteness_from_name name =
     find (\<lambda>s. TemporalCompleteness_as_str s = name) TemporalCompleteness_ALL"

interpretation completeness_words: vocabulary TemporalCompleteness_ALL TemporalCompleteness_as_str
proof unfold_locales
  show "x \<in> set TemporalCompleteness_ALL" for x by (cases x) (simp_all add: TemporalCompleteness_ALL_def)
  show "TemporalCompleteness_as_str x = TemporalCompleteness_as_str y \<Longrightarrow> x = y" for x y
    by (cases x; cases y) simp_all
qed

definition is_covering :: "TemporalCompleteness \<Rightarrow> bool" where
  "is_covering s \<longleftrightarrow> s \<in> {Complete, Partial}"

datatype GapReason =
    NotRecorded | RetentionExpired | ProviderUnavailable | GapDenied | SourceDisconnected
  | ClockUncertain | CorruptSegment | Unsupported

definition GapReason_ALL :: "GapReason list" where
  "GapReason_ALL = [NotRecorded, RetentionExpired, ProviderUnavailable, GapDenied, SourceDisconnected,
     ClockUncertain, CorruptSegment, Unsupported]"

fun GapReason_as_str :: "GapReason \<Rightarrow> ustr" where
  "GapReason_as_str NotRecorded = asc ''not_recorded''"
| "GapReason_as_str RetentionExpired = asc ''retention_expired''"
| "GapReason_as_str ProviderUnavailable = asc ''provider_unavailable''"
| "GapReason_as_str GapDenied = asc ''permission_denied''"
| "GapReason_as_str SourceDisconnected = asc ''source_disconnected''"
| "GapReason_as_str ClockUncertain = asc ''clock_uncertain''"
| "GapReason_as_str CorruptSegment = asc ''corrupt_segment''"
| "GapReason_as_str Unsupported = asc ''unsupported''"

definition GapReason_from_name :: "ustr \<Rightarrow> GapReason option" where
  "GapReason_from_name name = find (\<lambda>r. GapReason_as_str r = name) GapReason_ALL"

interpretation gap_words: vocabulary GapReason_ALL GapReason_as_str
proof unfold_locales
  show "x \<in> set GapReason_ALL" for x by (cases x) (simp_all add: GapReason_ALL_def)
  show "GapReason_as_str x = GapReason_as_str y \<Longrightarrow> x = y" for x y
    by (cases x; cases y) simp_all
qed

record 'sc TemporalCoverage =
  cov_scope :: 'sc
  cov_capability :: ustr
  cov_from :: int
  cov_until :: int
  completeness :: TemporalCompleteness
  cov_source :: ustr

record 'sc TemporalGap =
  gap_scope :: 'sc
  gap_from :: int
  gap_until :: int
  gap_capability :: ustr
  gap_reason :: GapReason
  gap_source :: ustr
  gap_detail_text :: "ustr option"

record TimeRange =
  range_from :: "int option"
  range_until :: "int option"

record 'sc CoverageSummary =
  sum_window :: TimeRange
  capabilities :: "(ustr \<times> TemporalCompleteness) list"
  gaps :: "'sc TemporalGap list"
  sources :: "ustr list"

datatype HeadlineCoverage = HeadComplete | HeadPartial | HeadUncertain

section \<open>Operations\<close>

definition source_session :: ustr where "source_session = asc ''ono.session''"
definition source_recorder :: ustr where "source_recorder = asc ''ono.recorder''"

definition covers_instant :: "int \<Rightarrow> 'sc TemporalCoverage \<Rightarrow> bool" where
  "covers_instant at i \<longleftrightarrow> cov_from i \<le> at \<and> at \<le> cov_until i"

definition overlaps :: "int \<Rightarrow> int \<Rightarrow> 'sc TemporalCoverage \<Rightarrow> bool" where
  "overlaps fr un i \<longleftrightarrow>
     (if cov_from i = cov_until i then cov_from i \<ge> fr \<and> (cov_from i < un \<or> fr = un)
      else cov_from i < un \<and> cov_until i > fr \<or> (fr = un \<and> covers_instant fr i))"

definition gap_detail :: "ustr \<Rightarrow> GapReason \<Rightarrow> ustr option" where
  "gap_detail src reason =
     (let recorder = (src = source_recorder)
      in if recorder \<and> reason \<in> {ProviderUnavailable, SourceDisconnected}
         then Some (asc ''recorder offline'')
         else if recorder \<and> reason = NotRecorded then Some (asc ''recorder not running'')
         else if reason = RetentionExpired then Some (asc ''beyond retention'')
         else if \<not> recorder \<and> reason = SourceDisconnected then Some (src @ asc '' disconnected'')
         else if \<not> recorder \<and> reason = ProviderUnavailable then Some (src @ asc '' unavailable'')
         else None)"

definition effective_window :: "'sc TemporalCoverage list \<Rightarrow> TimeRange \<Rightarrow> (int \<times> int) option" where
  "effective_window ints w =
     (case (case range_from w of Some t \<Rightarrow> Some t
            | None \<Rightarrow> if ints = [] then None else Some (Min (set (map cov_from ints)))) of
        None \<Rightarrow> None
      | Some fr \<Rightarrow>
          (case (case range_until w of Some t \<Rightarrow> Some t
                 | None \<Rightarrow> if ints = [] then None else Some (Max (set (map cov_until ints)))) of
             None \<Rightarrow> None
           | Some un \<Rightarrow> if fr \<le> un then Some (fr, un) else None))"

definition push_span :: "(int \<times> int) list \<Rightarrow> int \<times> int \<Rightarrow> (int \<times> int) list" where
  "push_span cover sp =
     (if cover \<noteq> [] \<and> fst sp \<le> snd (last cover)
      then butlast cover @ [(fst (last cover), max (snd (last cover)) (snd sp))]
      else cover @ [sp])"

definition merged ::
    "'sc TemporalCoverage list \<Rightarrow> int \<Rightarrow> int \<Rightarrow> (TemporalCompleteness \<Rightarrow> bool) \<Rightarrow> (int \<times> int) list" where
  "merged ints fr un select =
     (let spans = filter (\<lambda>(s, e). s < e \<or> (fr = un \<and> s = e))
                    (map (\<lambda>i. (max (cov_from i) fr, min (cov_until i) un))
                      (filter (\<lambda>i. select (completeness i)) ints))
      in foldl push_span [] (sort spans))"

fun holes_from :: "int \<Rightarrow> int \<Rightarrow> (int \<times> int) list \<Rightarrow> (int \<times> int) list" where
  "holes_from cur un [] = (if cur < un then [(cur, un)] else [])"
| "holes_from cur un ((s, e) # us) =
     (if s > cur then [(cur, s)] else []) @ holes_from (max cur e) un us"

definition holes_in :: "(int \<times> int) list \<Rightarrow> int \<Rightarrow> int \<Rightarrow> (int \<times> int) list" where
  "holes_in cover fr un =
     (if fr = un then (if cover = [] then [(fr, un)] else []) else holes_from fr un cover)"

fun explain_loop :: "'sc TemporalCoverage list \<Rightarrow> int \<Rightarrow> int \<Rightarrow> (GapReason \<times> ustr) option" where
  "explain_loop [] fr un = None"
| "explain_loop (i # is) fr un =
     (if \<not> overlaps fr un i then explain_loop is fr un
      else case completeness i of
             CovDenied \<Rightarrow> Some (GapDenied, cov_source i)
           | Unavailable \<Rightarrow> Some (ProviderUnavailable, cov_source i)
           | _ \<Rightarrow> explain_loop is fr un)"

definition explain :: "'sc TemporalCoverage list \<Rightarrow> int \<Rightarrow> int \<Rightarrow> GapReason \<times> ustr" where
  "explain ints fr un =
     (case explain_loop ints fr un of
        Some r \<Rightarrow> r
      | None \<Rightarrow> (NotRecorded, case ints of [] \<Rightarrow> source_session | i # _ \<Rightarrow> cov_source i))"

definition weakest_state :: "'sc TemporalCoverage list \<Rightarrow> TemporalCompleteness" where
  "weakest_state ints =
     (case find (\<lambda>s. \<exists>i \<in> set ints. completeness i = s) [PointSample, CovDenied, Unavailable] of
        Some s \<Rightarrow> s | None \<Rightarrow> CovUnknown)"

definition compose_one ::
    "'sc \<Rightarrow> ustr \<Rightarrow> 'sc TemporalCoverage list \<Rightarrow> int \<Rightarrow> int \<Rightarrow>
     TemporalCompleteness \<times> 'sc TemporalGap list" where
  "compose_one fallback cap ints fr un =
     (let covering = merged ints fr un is_covering;
          complete = merged ints fr un (\<lambda>s. s = Complete);
          state = (if holes_in complete fr un = [] \<and> complete \<noteq> [] then Complete
                   else if covering \<noteq> [] then Partial
                   else weakest_state ints)
      in (state, map (\<lambda>(gf, gu). let (reason, src) = explain ints gf gu
            in \<lparr>gap_scope = (case ints of [] \<Rightarrow> fallback | i # _ \<Rightarrow> cov_scope i), gap_from = gf,
                gap_until = gu, gap_capability = cap, gap_reason = reason, gap_source = src,
                gap_detail_text = gap_detail src reason\<rparr>) (holes_in covering fr un)))"

definition relevant :: "'sc TemporalCoverage list \<Rightarrow> ustr \<Rightarrow> int \<Rightarrow> int \<Rightarrow> 'sc TemporalCoverage list" where
  "relevant ints cap fr un = filter (\<lambda>i. cov_capability i = cap \<and> overlaps fr un i) ints"

text \<open>The scope \<open>fallback_scope\<close> would answer, which no composition reaches, is an argument.\<close>

definition compose :: "'sc \<Rightarrow> 'sc TemporalCoverage list \<Rightarrow> TimeRange \<Rightarrow> 'sc CoverageSummary" where
  "compose fallback ints w =
     (case effective_window ints w of
        None \<Rightarrow> \<lparr>sum_window = w, capabilities = [], gaps = [], sources = []\<rparr>
      | Some (fr, un) \<Rightarrow>
          let caps = remdups_adj (sort (map cov_capability (filter (overlaps fr un) ints)));
              composed = map (\<lambda>cap. (cap, compose_one fallback cap (relevant ints cap fr un) fr un)) caps
          in \<lparr>sum_window = \<lparr>range_from = Some fr, range_until = Some un\<rparr>,
              capabilities = map (\<lambda>(cap, st, _). (cap, st)) composed,
              gaps = concat (map (\<lambda>(_, _, gs). gs) composed),
              sources = remdups_adj (sort (map cov_source (filter (overlaps fr un) ints)))\<rparr>)"

definition headline :: "'sc CoverageSummary \<Rightarrow> HeadlineCoverage" where
  "headline s =
     (if capabilities s = [] then HeadUncertain
      else if list_all (\<lambda>(_, st). st = Complete) (capabilities s) then HeadComplete
      else if list_ex (\<lambda>(_, st). st \<in> {CovUnknown, Unavailable, CovDenied}) (capabilities s)
      then HeadUncertain
      else HeadPartial)"

definition completeness_of :: "ustr \<Rightarrow> 'sc CoverageSummary \<Rightarrow> TemporalCompleteness option" where
  "completeness_of cap s = map_option snd (find (\<lambda>e. fst e = cap) (capabilities s))"

definition can_prove_absence :: "ustr \<Rightarrow> 'sc CoverageSummary \<Rightarrow> bool" where
  "can_prove_absence cap s \<longleftrightarrow>
     completeness_of cap s = Some Complete \<and> \<not> list_ex (\<lambda>g. gap_capability g = cap) (gaps s)"

section \<open>Spans\<close>

lemma sorted_map_fst_lex: "sorted (xs :: ('a :: linorder \<times> 'b :: linorder) list) \<Longrightarrow> sorted (map fst xs)"
  by (induction xs) (auto simp: less_eq_prod_def)

definition in_spans :: "int \<Rightarrow> (int \<times> int) list \<Rightarrow> bool" where
  "in_spans t us \<longleftrightarrow> (\<exists>(s, e) \<in> set us. s \<le> t \<and> t < e)"

lemma in_spans_simps [simp]:
  "\<not> in_spans t []" "in_spans t (u # us) \<longleftrightarrow> fst u \<le> t \<and> t < snd u \<or> in_spans t us"
  "in_spans t (us @ vs) \<longleftrightarrow> in_spans t us \<or> in_spans t vs"
  by (auto simp: in_spans_def)

text \<open>Merging keeps the instants and the order of the starts.\<close>

lemma push_span_ok:
  assumes "sorted (map fst us)" "\<forall>u \<in> set us. fst u \<le> fst sp" "\<forall>u \<in> set us. snd u \<le> un"
    "fst sp \<le> un" "snd sp \<le> un"
  shows "sorted (map fst (push_span us sp))" "\<forall>u \<in> set (push_span us sp). fst u \<le> fst sp"
    "\<forall>u \<in> set (push_span us sp). snd u \<le> un" "push_span us sp \<noteq> []"
    "in_spans t (push_span us sp) \<longleftrightarrow> in_spans t us \<or> fst sp \<le> t \<and> t < snd sp"
proof -
  have "push_span us sp = us @ [sp] \<or> (\<exists>vs a b. us = vs @ [(a, b)] \<and> fst sp \<le> b \<and>
      push_span us sp = vs @ [(a, max b (snd sp))])"
    by (cases us rule: rev_cases) (auto simp: push_span_def)
  then show "sorted (map fst (push_span us sp))" "\<forall>u \<in> set (push_span us sp). fst u \<le> fst sp"
    "\<forall>u \<in> set (push_span us sp). snd u \<le> un" "push_span us sp \<noteq> []"
    "in_spans t (push_span us sp) \<longleftrightarrow> in_spans t us \<or> fst sp \<le> t \<and> t < snd sp"
    using assms by (elim disjE; auto simp: sorted_append)+
qed

definition spans_ok :: "int \<Rightarrow> (int \<times> int) list \<Rightarrow> bool" where
  "spans_ok un us \<longleftrightarrow> sorted (map fst us) \<and> (\<forall>u \<in> set us. fst u \<le> un \<and> snd u \<le> un)"

lemma merge_fold:
  assumes "sorted (map fst sps)" "\<forall>u \<in> set us. \<forall>sp \<in> set sps. fst u \<le> fst sp"
    "spans_ok un us" "\<forall>sp \<in> set sps. fst sp \<le> un \<and> snd sp \<le> un"
  shows "spans_ok un (foldl push_span us sps) \<and>
    (foldl push_span us sps = [] \<longleftrightarrow> us = [] \<and> sps = []) \<and>
    (in_spans t (foldl push_span us sps) \<longleftrightarrow> in_spans t us \<or> in_spans t sps)"
  using assms
proof (induction sps arbitrary: us)
  case (Cons sp sps)
  note p = push_span_ok[of us sp un]
  have pre: "sorted (map fst us)" "\<forall>u \<in> set us. fst u \<le> fst sp" "\<forall>u \<in> set us. snd u \<le> un"
    "fst sp \<le> un" "snd sp \<le> un"
    using Cons.prems by (auto simp: spans_ok_def)
  have "\<forall>u \<in> set (push_span us sp). \<forall>sp' \<in> set sps. fst u \<le> fst sp'"
    using p(2)[OF pre] Cons.prems(1) by (auto intro: order_trans)
  moreover have "spans_ok un (push_span us sp)"
    using p(1-3)[OF pre] pre(4) by (auto simp: spans_ok_def intro: order_trans)
  ultimately show ?case
    using Cons.IH[of "push_span us sp"] Cons.prems p(4,5)[OF pre] by auto
qed simp

lemma holes_from_spec:
  assumes "sorted (map fst us)" "\<forall>u \<in> set us. fst u \<le> un"
  shows "in_spans t (holes_from cur un us) \<longleftrightarrow> cur \<le> t \<and> t < un \<and> \<not> in_spans t us"
  using assms
proof (induction cur un us rule: holes_from.induct)
  case (2 cur un s e us)
  have later: "in_spans t us \<Longrightarrow> s \<le> t"
    using 2(2) by (auto simp: in_spans_def)
  have "in_spans t (holes_from (max cur e) un us) \<longleftrightarrow> max cur e \<le> t \<and> t < un \<and> \<not> in_spans t us"
    using 2 by simp
  then show ?case using 2(3) later by auto
qed auto

lemma holes_from_nonempty_spans:
  "\<forall>h \<in> set (holes_from cur un us). fst h < snd h"
  by (induction cur un us rule: holes_from.induct) auto

lemma spans_empty: "\<forall>h \<in> set hs. fst h < snd h \<Longrightarrow> hs = [] \<longleftrightarrow> (\<forall>t. \<not> in_spans t hs)"
  by (cases hs) (auto intro: exI[of _ "fst (hd hs)"])

section \<open>Composition\<close>

text \<open>
  An interval covers an instant of a window when it holds it; over a window that is one
  instant the ends count too.
\<close>

definition holds_at :: "int \<Rightarrow> int \<Rightarrow> int \<Rightarrow> 'sc TemporalCoverage \<Rightarrow> bool" where
  "holds_at fr un t i \<longleftrightarrow>
     (if fr = un then covers_instant t i else cov_from i \<le> t \<and> t < cov_until i)"

definition window_instants :: "int \<Rightarrow> int \<Rightarrow> int set" where
  "window_instants fr un = (if fr = un then {fr} else {fr..<un})"

lemma holds_overlaps:
  assumes "fr \<le> un" "t \<in> window_instants fr un" "holds_at fr un t i"
  shows "overlaps fr un i"
  using assms by (auto simp: holds_at_def window_instants_def overlaps_def covers_instant_def split: if_splits)

lemma merged_props:
  assumes "fr \<le> un"
  shows "spans_ok un (merged ints fr un P)"
    "in_spans t (merged ints fr un P) \<longleftrightarrow>
       fr \<le> t \<and> t < un \<and> (\<exists>i \<in> set ints. P (completeness i) \<and> cov_from i \<le> t \<and> t < cov_until i)"
    "merged ints fr un P = [] \<longleftrightarrow>
       (\<forall>i \<in> set ints. P (completeness i) \<longrightarrow>
          \<not> (max (cov_from i) fr < min (cov_until i) un \<or>
             fr = un \<and> max (cov_from i) fr = min (cov_until i) un))"
proof -
  define sps where "sps = filter (\<lambda>(s, e). s < e \<or> (fr = un \<and> s = e))
    (map (\<lambda>i. (max (cov_from i) fr, min (cov_until i) un)) (filter (\<lambda>i. P (completeness i)) ints))"
  have in_sps: "(s, e) \<in> set sps \<longleftrightarrow> (\<exists>i \<in> set ints. P (completeness i) \<and>
      s = max (cov_from i) fr \<and> e = min (cov_until i) un) \<and> (s < e \<or> fr = un \<and> s = e)" for s e
    by (auto simp: sps_def)
  then have "\<forall>sp \<in> set (sort sps). fst sp \<le> un \<and> snd sp \<le> un" by auto
  moreover have "sorted (map fst (sort sps))" by (rule sorted_map_fst_lex) simp
  moreover have "spans_ok un []" by (simp add: spans_ok_def)
  ultimately have m: "spans_ok un (foldl push_span [] (sort sps))"
    "foldl push_span [] (sort sps) = [] \<longleftrightarrow> sort sps = []"
    "in_spans t (foldl push_span [] (sort sps)) \<longleftrightarrow> in_spans t (sort sps)" for t
    using merge_fold[of "sort sps" "[]" un t] by simp_all
  have e: "merged ints fr un P = foldl push_span [] (sort sps)" by (simp add: merged_def sps_def Let_def)
  show "spans_ok un (merged ints fr un P)" using m(1) e by simp
  have "in_spans t (sort sps) \<longleftrightarrow> (\<exists>s e. (s, e) \<in> set sps \<and> s \<le> t \<and> t < e)"
    by (auto simp: in_spans_def)
  also have "\<dots> \<longleftrightarrow> (\<exists>i \<in> set ints. P (completeness i) \<and> max (cov_from i) fr \<le> t \<and>
      t < min (cov_until i) un)"
    unfolding in_sps using order.strict_trans1 by blast
  also have "\<dots> \<longleftrightarrow>
      fr \<le> t \<and> t < un \<and> (\<exists>i \<in> set ints. P (completeness i) \<and> cov_from i \<le> t \<and> t < cov_until i)"
    by auto
  finally show "in_spans t (merged ints fr un P) \<longleftrightarrow>
       fr \<le> t \<and> t < un \<and> (\<exists>i \<in> set ints. P (completeness i) \<and> cov_from i \<le> t \<and> t < cov_until i)"
    using m(3) e by simp
  have "sort sps = [] \<longleftrightarrow> sps = []" by (metis length_0_conv length_sort)
  then show "merged ints fr un P = [] \<longleftrightarrow>
       (\<forall>i \<in> set ints. P (completeness i) \<longrightarrow>
          \<not> (max (cov_from i) fr < min (cov_until i) un \<or>
             fr = un \<and> max (cov_from i) fr = min (cov_until i) un))"
    using m(2) e in_sps by (metis (no_types, lifting) ex_in_conv prod.exhaust set_empty2)
qed

text \<open>The window is covered by the intervals of a kind exactly when their union has no hole.\<close>

lemma no_holes_iff:
  assumes "fr \<le> un"
  shows "holes_in (merged ints fr un P) fr un = [] \<longleftrightarrow>
    (\<forall>t \<in> window_instants fr un. \<exists>i \<in> set ints. P (completeness i) \<and> holds_at fr un t i)"
proof (cases "fr = un")
  case True
  then show ?thesis
    using merged_props(3)[OF assms, of ints P]
    by (auto simp: holes_in_def window_instants_def holds_at_def covers_instant_def max_def min_def)
next
  case False
  have ok: "sorted (map fst (merged ints fr un P))" "\<forall>u \<in> set (merged ints fr un P). fst u \<le> un"
    using merged_props(1)[OF assms, of ints P] by (auto simp: spans_ok_def)
  have "holes_in (merged ints fr un P) fr un = [] \<longleftrightarrow>
      (\<forall>t. \<not> in_spans t (holes_from fr un (merged ints fr un P)))"
    using False spans_empty[OF holes_from_nonempty_spans] by (simp add: holes_in_def)
  also have "\<dots> \<longleftrightarrow> (\<forall>t. fr \<le> t \<and> t < un \<longrightarrow> in_spans t (merged ints fr un P))"
    using holes_from_spec[OF ok] by blast
  also have "\<dots> \<longleftrightarrow> (\<forall>t \<in> window_instants fr un. \<exists>i \<in> set ints. P (completeness i) \<and> holds_at fr un t i)"
    using False merged_props(2)[OF assms, of _ ints P]
    by (auto simp: window_instants_def holds_at_def)
  finally show ?thesis .
qed

lemma compose_one_state:
  assumes "fr \<le> un"
  shows "fst (compose_one fb cap ints fr un) = Complete \<longleftrightarrow>
    holes_in (merged ints fr un (\<lambda>s. s = Complete)) fr un = []"
proof -
  have weak: "weakest_state ints \<noteq> Complete" by (auto simp: weakest_state_def split: if_splits)
  have "merged ints fr un (\<lambda>s. s = Complete) \<noteq> []"
    if "holes_in (merged ints fr un (\<lambda>s. s = Complete)) fr un = []"
  proof
    assume "merged ints fr un (\<lambda>s. s = Complete) = []"
    then show False using that assms by (auto simp: holes_in_def split: if_splits)
  qed
  then show ?thesis using weak by (auto simp: compose_one_def Let_def)
qed

lemma compose_one_gaps:
  "map (\<lambda>g. (gap_from g, gap_until g)) (snd (compose_one fb cap ints fr un)) =
     holes_in (merged ints fr un is_covering) fr un"
  "\<forall>g \<in> set (snd (compose_one fb cap ints fr un)). gap_capability g = cap"
  by (auto simp: compose_one_def Let_def split: prod.splits intro!: map_idI)

definition composed_caps :: "'sc TemporalCoverage list \<Rightarrow> int \<Rightarrow> int \<Rightarrow> ustr list" where
  "composed_caps ints fr un = remdups_adj (sort (map cov_capability (filter (overlaps fr un) ints)))"

lemma composed_caps_set:
  "cap \<in> set (composed_caps ints fr un) \<longleftrightarrow> (\<exists>i \<in> set ints. cov_capability i = cap \<and> overlaps fr un i)"
  by (auto simp: composed_caps_def)

lemma compose_fields:
  assumes "effective_window ints w = Some (fr, un)"
  shows "capabilities (compose fb ints w) =
      map (\<lambda>cap. (cap, fst (compose_one fb cap (relevant ints cap fr un) fr un))) (composed_caps ints fr un)"
    "gaps (compose fb ints w) =
      concat (map (\<lambda>cap. snd (compose_one fb cap (relevant ints cap fr un) fr un)) (composed_caps ints fr un))"
  using assms
  by (auto simp: compose_def composed_caps_def Let_def comp_def case_prod_beta)

lemma find_map_pair: "find (\<lambda>e. fst e = k) (map (\<lambda>x. (x, f x)) xs) = (if k \<in> set xs then Some (k, f k) else None)"
  by (induction xs) auto

lemma completeness_of_compose:
  assumes "effective_window ints w = Some (fr, un)"
  shows "completeness_of cap (compose fb ints w) =
    (if cap \<in> set (composed_caps ints fr un)
     then Some (fst (compose_one fb cap (relevant ints cap fr un) fr un)) else None)"
  by (simp add: completeness_of_def compose_fields[OF assms] find_map_pair)

lemma concat_keyed:
  "(\<And>k g. g \<in> set (F k) \<Longrightarrow> key g = k) \<Longrightarrow>
     g \<in> set (concat (map F ks)) \<and> key g = c \<longleftrightarrow> c \<in> set ks \<and> g \<in> set (F c)"
  by auto

lemma gaps_of_compose:
  assumes "effective_window ints w = Some (fr, un)"
  shows "g \<in> set (gaps (compose fb ints w)) \<and> gap_capability g = cap \<longleftrightarrow>
    cap \<in> set (composed_caps ints fr un) \<and>
    g \<in> set (snd (compose_one fb cap (relevant ints cap fr un) fr un))"
  unfolding compose_fields(2)[OF assms]
  by (rule concat_keyed[where F = "\<lambda>cap. snd (compose_one fb cap (relevant ints cap fr un) fr un)"
        and key = gap_capability]) (rule bspec[OF compose_one_gaps(2)])

lemma effective_window_order: "effective_window ints w = Some (fr, un) \<Longrightarrow> fr \<le> un"
  by (auto simp: effective_window_def split: option.splits if_splits)

lemma relevant_holds:
  assumes "fr \<le> un" "t \<in> window_instants fr un"
  shows "(\<exists>i \<in> set (relevant ints cap fr un). P (completeness i) \<and> holds_at fr un t i) \<longleftrightarrow>
    (\<exists>i \<in> set ints. cov_capability i = cap \<and> P (completeness i) \<and> holds_at fr un t i)"
  using holds_overlaps[OF assms] by (auto simp: relevant_def)

lemma window_has_instant: "fr \<le> un \<Longrightarrow> fr \<in> window_instants fr un"
  by (simp add: window_instants_def)

section \<open>Properties\<close>

text \<open>
  C31: Absence may be claimed exactly when it was watched for: a composed summary can prove
  absence of a capability over its window if and only if every instant of the window lies
  in some interval of that capability whose source was complete.  Partial sources, point
  samples, unknown or refused intervals never contribute, and a window that cannot be
  bounded proves nothing.
\<close>

theorem can_prove_absence_iff:
  "can_prove_absence cap (compose fb ints w) \<longleftrightarrow>
     (\<exists>fr un. effective_window ints w = Some (fr, un) \<and>
        (\<forall>t \<in> window_instants fr un. \<exists>i \<in> set ints.
           cov_capability i = cap \<and> completeness i = Complete \<and> holds_at fr un t i))"
proof (cases "effective_window ints w")
  case None
  then show ?thesis by (simp add: can_prove_absence_def compose_def completeness_of_def)
next
  case (Some p)
  obtain fr un where w: "effective_window ints w = Some (fr, un)" using Some by (cases p) simp
  have le: "fr \<le> un" by (rule effective_window_order[OF w])
  let ?r = "relevant ints cap fr un"
  let ?watched = "\<lambda>P. \<forall>t \<in> window_instants fr un. \<exists>i \<in> set ints.
      cov_capability i = cap \<and> P (completeness i) \<and> holds_at fr un t i"
  have holes: "holes_in (merged ?r fr un P) fr un = [] \<longleftrightarrow> ?watched P" for P
    using no_holes_iff[OF le, of ?r P] relevant_holds[OF le, of _ ints cap P] by simp
  have caps: "cap \<in> set (composed_caps ints fr un)" if "?watched P" for P
    using that window_has_instant[OF le] holds_overlaps[OF le] by (fastforce simp: composed_caps_set)
  have "completeness_of cap (compose fb ints w) = Some Complete \<longleftrightarrow> ?watched (\<lambda>s. s = Complete)"
    using completeness_of_compose[OF w, of cap fb] compose_one_state[OF le, of fb cap ?r]
      holes[of "\<lambda>s. s = Complete"] caps[of "\<lambda>s. s = Complete"] by auto
  moreover have "\<not> list_ex (\<lambda>g. gap_capability g = cap) (gaps (compose fb ints w))"
    if "?watched (\<lambda>s. s = Complete)"
  proof -
    have "?watched is_covering" using that by (fastforce simp: is_covering_def)
    then have "snd (compose_one fb cap ?r fr un) = []"
      using holes[of is_covering] compose_one_gaps(1)[of fb cap ?r fr un] by simp
    then show ?thesis using gaps_of_compose[OF w, of _ fb cap] by (auto simp: list_ex_iff)
  qed
  ultimately have "can_prove_absence cap (compose fb ints w) \<longleftrightarrow> ?watched (\<lambda>s. s = Complete)"
    by (auto simp: can_prove_absence_def)
  then show ?thesis using w by simp
qed

definition watch :: "int \<Rightarrow> int \<Rightarrow> TemporalCompleteness \<Rightarrow> unit TemporalCoverage" where
  "watch a b c = \<lparr>cov_scope = (), cov_capability = [1], cov_from = a, cov_until = b, completeness = c,
     cov_source = source_recorder\<rparr>"

theorem can_prove_absence_iff_witness:
  "can_prove_absence [1] (compose () [watch 0 5 Complete, watch 3 9 Complete]
     \<lparr>range_from = Some 0, range_until = Some 9\<rparr>)"
proof -
  have "effective_window [watch 0 5 Complete, watch 3 9 Complete]
      \<lparr>range_from = Some 0, range_until = Some 9\<rparr> = Some (0, 9)"
    by (simp add: effective_window_def)
  then show ?thesis
    using can_prove_absence_iff[of "[1]" "()" "[watch 0 5 Complete, watch 3 9 Complete]"
        "\<lparr>range_from = Some 0, range_until = Some 9\<rparr>"]
    by (auto simp: watch_def window_instants_def holds_at_def)
qed

text \<open>
  The gaps of a composition are exactly the uncovered time: for every capability that
  has any interval in a window of positive length, an instant of the window lies in one of
  that capability's gaps if and only if no complete or partial interval of it holds the
  instant.
\<close>

theorem gaps_are_uncovered_time:
  assumes "effective_window ints w = Some (fr, un)" and "fr < un" and "fr \<le> t" and "t < un"
    and "\<exists>i \<in> set ints. cov_capability i = cap \<and> overlaps fr un i"
  shows "(\<exists>g \<in> set (gaps (compose fb ints w)).
      gap_capability g = cap \<and> gap_from g \<le> t \<and> t < gap_until g) \<longleftrightarrow>
    \<not> (\<exists>i \<in> set ints. cov_capability i = cap \<and> completeness i \<in> {Complete, Partial} \<and>
         cov_from i \<le> t \<and> t < cov_until i)"
proof -
  let ?r = "relevant ints cap fr un"
  have le: "fr \<le> un" using assms(2) by simp
  have ok: "sorted (map fst (merged ?r fr un is_covering))"
    "\<forall>u \<in> set (merged ?r fr un is_covering). fst u \<le> un"
    using merged_props(1)[OF le, of ?r is_covering] by (auto simp: spans_ok_def)
  have cap: "cap \<in> set (composed_caps ints fr un)" using assms(5) by (simp add: composed_caps_set)
  have "(\<exists>g \<in> set (gaps (compose fb ints w)).
      gap_capability g = cap \<and> gap_from g \<le> t \<and> t < gap_until g) \<longleftrightarrow>
    in_spans t (map (\<lambda>g. (gap_from g, gap_until g)) (snd (compose_one fb cap ?r fr un)))"
    using gaps_of_compose[OF assms(1), of _ fb cap] cap by (auto simp: in_spans_def)
  also have "\<dots> \<longleftrightarrow> in_spans t (holes_from fr un (merged ?r fr un is_covering))"
    using assms(2) by (simp only: compose_one_gaps(1)) (simp add: holes_in_def)
  also have "\<dots> \<longleftrightarrow> \<not> (\<exists>i \<in> set ?r. is_covering (completeness i) \<and> cov_from i \<le> t \<and> t < cov_until i)"
    using holes_from_spec[OF ok, of t fr] merged_props(2)[OF le, of t ?r is_covering] assms(3,4) by simp
  also have "\<dots> \<longleftrightarrow> \<not> (\<exists>i \<in> set ints. cov_capability i = cap \<and> completeness i \<in> {Complete, Partial} \<and>
         cov_from i \<le> t \<and> t < cov_until i)"
  proof -
    have "overlaps fr un i" if "cov_from i \<le> t" "t < cov_until i" for i :: "'a TemporalCoverage"
      using that assms(2-4) by (simp add: overlaps_def)
    then show ?thesis by (auto simp: relevant_def is_covering_def)
  qed
  finally show ?thesis .
qed

theorem gaps_are_uncovered_time_witness:
  "\<exists>g \<in> set (gaps (compose () [watch 0 2 Complete, watch 4 6 Partial]
     \<lparr>range_from = Some 0, range_until = Some 6\<rparr>)). gap_from g \<le> 3 \<and> 3 < gap_until g"
proof -
  have w: "effective_window [watch 0 2 Complete, watch 4 6 Partial]
      \<lparr>range_from = Some 0, range_until = Some 6\<rparr> = Some (0, 6)"
    by (simp add: effective_window_def)
  have "\<exists>i \<in> set [watch 0 2 Complete, watch 4 6 Partial]. cov_capability i = [1] \<and> overlaps 0 6 i"
    by (simp add: watch_def overlaps_def)
  from gaps_are_uncovered_time[OF w _ _ _ this, of 3 "()"] show ?thesis
    by (auto simp: watch_def)
qed

text \<open>
  A point sample taken after the instant a summary is about still counts as evidence at
  that instant: composing a window of one instant from a single point sample at any later
  time lists the sample's capability as point-sampled and its source as contributing, and
  the headline is partial rather than uncertain.
\<close>

theorem later_sample_counts_at_instant:
  assumes "at < late" and "cov_from i = late" and "cov_until i = late" and "completeness i = PointSample"
  shows "completeness_of (cov_capability i)
      (compose fb [i] \<lparr>range_from = Some at, range_until = Some at\<rparr>) = Some PointSample \<and>
    sources (compose fb [i] \<lparr>range_from = Some at, range_until = Some at\<rparr>) = [cov_source i] \<and>
    headline (compose fb [i] \<lparr>range_from = Some at, range_until = Some at\<rparr>) = HeadPartial"
  using assms
  by (simp add: compose_def effective_window_def overlaps_def Let_def relevant_def compose_one_def
      merged_def is_covering_def weakest_state_def completeness_of_def headline_def)

theorem later_sample_counts_at_instant_witness:
  "headline (compose () [watch 3600 3600 PointSample] \<lparr>range_from = Some 0, range_until = Some 0\<rparr>)
     = HeadPartial"
  using later_sample_counts_at_instant[of 0 3600 "watch 3600 3600 PointSample" "()"]
  by (simp add: watch_def)

end
