(* ===== verification/Trust_Store.thy ===== *)
theory Trust_Store
  imports Ono_Text
begin

text \<open>
  Host identity on a remote link (\<open>crates/ono-protocol/src/trust.rs\<close>): host keys and their
  fingerprints, the trust store with the file it lives in, and the decision a policy makes
  of the key a transport authenticated.  SHA-256 is an argument \<open>sha\<close>; the file system
  enters through the outcome of each call the source makes (\<open>io\<close>), so that every error
  branch is a branch of the model.  The store here holds its entries, its path and the
  files at that path and at its temporary.
\<close>

section \<open>Fingerprints\<close>

type_synonym fingerprint = bytes

record HostKey =
  algorithm :: ustr
  material :: bytes

datatype trust_error =
    FingerprintMalformed ustr
  | LineMalformed nat
  | HostKeyChanged ustr fingerprint fingerprint
  | NobodyAuthenticated ustr
  | NotInStore ustr fingerprint
  | StoreUnusable io_kind

datatype ErrorCode =
    ParseSyntax | RemoteHostKeyChanged | SafetyPolicyDenied | IoNotFound | IoPermissionDenied

fun io_error :: "io_kind \<Rightarrow> ErrorCode" where
  "io_error NotFound = IoNotFound"
| "io_error PermissionDenied = IoPermissionDenied"
| "io_error OtherKind = IoNotFound"

fun error_code :: "trust_error \<Rightarrow> ErrorCode" where
  "error_code (FingerprintMalformed _) = ParseSyntax"
| "error_code (LineMalformed _) = ParseSyntax"
| "error_code (HostKeyChanged _ _ _) = RemoteHostKeyChanged"
| "error_code (NobodyAuthenticated _) = SafetyPolicyDenied"
| "error_code (NotInStore _ _) = SafetyPolicyDenied"
| "error_code (StoreUnusable k) = io_error k"

definition key_fingerprint :: "(bytes \<Rightarrow> fingerprint) \<Rightarrow> HostKey \<Rightarrow> fingerprint" where
  "key_fingerprint sha key = sha (utf8 (algorithm key) @ [0] @ material key)"

definition hex_digit :: "nat \<Rightarrow> nat" where
  "hex_digit n = (if n < 10 then 48 + n else 87 + n)"

definition hex_byte :: "u8 \<Rightarrow> ustr" where
  "hex_byte b = [hex_digit (unat b div 16), hex_digit (unat b mod 16)]"

definition show_fingerprint :: "fingerprint \<Rightarrow> ustr" where
  "show_fingerprint f = asc ''sha256:'' @ concat (map hex_byte f)"

text \<open>\<open>u8::from_str_radix (_, 16)\<close>: both cases of the letters, and a leading plus sign.\<close>

definition hex_value :: "nat \<Rightarrow> nat option" where
  "hex_value c =
     (if 48 \<le> c \<and> c \<le> 57 then Some (c - 48)
      else if 97 \<le> c \<and> c \<le> 102 then Some (c - 87)
      else if 65 \<le> c \<and> c \<le> 70 then Some (c - 55)
      else None)"

fun hex_fold :: "nat \<Rightarrow> ustr \<Rightarrow> u8 option" where
  "hex_fold a [] = Some (of_nat a)"
| "hex_fold a (c # cs) =
     (case hex_value c of
        None \<Rightarrow> None
      | Some d \<Rightarrow> if a * 16 + d < 256 then hex_fold (a * 16 + d) cs else None)"

definition u8_from_str_radix16 :: "ustr \<Rightarrow> u8 option" where
  "u8_from_str_radix16 s =
     (case s of
        [] \<Rightarrow> None
      | [c] \<Rightarrow> if c = 43 \<or> c = 45 then None else hex_fold 0 [c]
      | c # cs \<Rightarrow> if c = 43 then hex_fold 0 cs else hex_fold 0 s)"

fun read_pairs :: "ustr \<Rightarrow> nat list \<Rightarrow> bytes option" where
  "read_pairs digits [] = Some []"
| "read_pairs digits (i # is) =
     (case str_slice (i * 2) (i * 2 + 2) digits of
        None \<Rightarrow> None
      | Some pair \<Rightarrow>
          (case u8_from_str_radix16 pair of
             None \<Rightarrow> None
           | Some b \<Rightarrow> map_option ((#) b) (read_pairs digits is)))"

definition fingerprint_from_str :: "ustr \<Rightarrow> trust_error + fingerprint" where
  "fingerprint_from_str s =
     (case strip_prefix (asc ''sha256:'') s of
        None \<Rightarrow> Inl (FingerprintMalformed s)
      | Some digits \<Rightarrow>
          if blen digits \<noteq> 64 then Inl (FingerprintMalformed s)
          else ok_or (FingerprintMalformed s) (read_pairs digits [0..<32]))"

section \<open>The store and its file\<close>

datatype TrustDecision = Pinned | NewlyPinned | Unauthenticated

datatype TrustPolicy = PolicyRequired | PolicyPinned | PolicyUnauthenticated

definition default_policy :: TrustPolicy where
  "default_policy = PolicyPinned"

record TrustEntry =
  te_host :: ustr
  te_algorithm :: ustr
  te_fingerprint :: fingerprint

text \<open>The file at the store's path and the temporary beside it.\<close>

record disk =
  stored :: "ustr option"
  temporary :: "ustr option"

text \<open>
  What each call of \<open>persist\<close> answers, \<open>None\<close> being success; a failing write leaves the
  first \<open>nat\<close> characters in the temporary.  A path with no parent makes no directory,
  which is \<open>io_mkdir = None\<close>.
\<close>

record io =
  io_mkdir :: "io_kind option"
  io_create :: "io_kind option"
  io_write :: "(io_kind \<times> nat) option"
  io_sync :: "io_kind option"
  io_rename :: "io_kind option"

definition io_ok :: io where
  "io_ok = \<lparr>io_mkdir = None, io_create = None, io_write = None, io_sync = None, io_rename = None\<rparr>"

record TrustStore =
  store_entries :: "TrustEntry list"
  store_path :: "ustr option"
  store_disk :: disk

definition trust_header :: ustr where
  "trust_header =
     asc ''# ono trust store: one line per peer, `<host> <algorithm> <fingerprint>`.'' @ [10] @
     asc ''# A peer presenting a different key than the line here records is refused, not prompted.'' @ [10] @
     asc ''# Remove a line to forget a host; edit one only if you have checked the new key another way.'' @ [10]"

definition entry_line :: "TrustEntry \<Rightarrow> ustr" where
  "entry_line e =
     te_host e @ [32] @ te_algorithm e @ [32] @ show_fingerprint (te_fingerprint e)"

definition render :: "TrustEntry list \<Rightarrow> ustr" where
  "render es = trust_header @ concat (map (\<lambda>e. entry_line e @ [10]) es)"

definition persist :: "io \<Rightarrow> ustr \<Rightarrow> disk \<Rightarrow> (trust_error + unit) \<times> disk" where
  "persist io contents d =
     (case io_mkdir io of Some k \<Rightarrow> (Inl (StoreUnusable k), d) | None \<Rightarrow>
      case io_create io of Some k \<Rightarrow> (Inl (StoreUnusable k), d) | None \<Rightarrow>
      case io_write io of
        Some (k, n) \<Rightarrow> (Inl (StoreUnusable k), d\<lparr>temporary := Some (take n contents)\<rparr>)
      | None \<Rightarrow>
      case io_sync io of Some k \<Rightarrow> (Inl (StoreUnusable k), d\<lparr>temporary := Some contents\<rparr>) | None \<Rightarrow>
      case io_rename io of Some k \<Rightarrow> (Inl (StoreUnusable k), d\<lparr>temporary := Some contents\<rparr>) | None \<Rightarrow>
        (Inr (), \<lparr>stored = Some contents, temporary = None\<rparr>))"

fun parse_lines :: "nat \<Rightarrow> ustr list \<Rightarrow> TrustEntry list \<Rightarrow> trust_error + TrustEntry list" where
  "parse_lines index [] acc = Inr acc"
| "parse_lines index (l # ls) acc =
     (let line = trim l
      in if line = [] \<or> hd line = 35 then parse_lines (index + 1) ls acc
         else case split_whitespace line of
                [host, alg, fp] \<Rightarrow>
                  and_then (fingerprint_from_str fp) (\<lambda>f.
                    parse_lines (index + 1) ls
                      (acc @ [\<lparr>te_host = host, te_algorithm = alg, te_fingerprint = f\<rparr>]))
              | _ \<Rightarrow> Inl (LineMalformed (index + 1)))"

definition parse :: "ustr \<Rightarrow> trust_error + TrustEntry list" where
  "parse s = parse_lines 0 (str_lines s) []"

section \<open>Operations\<close>

definition in_memory :: TrustStore where
  "in_memory = \<lparr>store_entries = [], store_path = None,
                 store_disk = \<lparr>stored = None, temporary = None\<rparr>\<rparr>"

text \<open>
  \<open>TrustStore::open\<close>: \<open>fault\<close> is the error the read met, if any other than the file not
  being there.
\<close>

definition open_store :: "io_kind option \<Rightarrow> ustr \<Rightarrow> disk \<Rightarrow> trust_error + TrustStore" where
  "open_store fault path d =
     (case fault of
        Some k \<Rightarrow>
          if k = NotFound then Inr \<lparr>store_entries = [], store_path = Some path, store_disk = d\<rparr>
          else Inl (StoreUnusable k)
      | None \<Rightarrow>
          (case stored d of
             None \<Rightarrow> Inr \<lparr>store_entries = [], store_path = Some path, store_disk = d\<rparr>
           | Some s \<Rightarrow>
               and_then (parse s) (\<lambda>es.
                 Inr \<lparr>store_entries = es, store_path = Some path, store_disk = d\<rparr>)))"

definition recorded :: "ustr \<Rightarrow> TrustStore \<Rightarrow> fingerprint option" where
  "recorded host st = map_option te_fingerprint (find (\<lambda>e. te_host e = host) (store_entries st))"

definition save :: "io \<Rightarrow> TrustStore \<Rightarrow> (trust_error + unit) \<times> TrustStore" where
  "save io st =
     (case store_path st of
        None \<Rightarrow> (Inr (), st)
      | Some _ \<Rightarrow>
          (let (r, d) = persist io (render (store_entries st)) (store_disk st)
           in (r, st\<lparr>store_disk := d\<rparr>)))"

definition record_entry ::
  "io \<Rightarrow> ustr \<Rightarrow> ustr \<Rightarrow> fingerprint \<Rightarrow> TrustStore \<Rightarrow> (trust_error + unit) \<times> TrustStore" where
  "record_entry io host alg fp st =
     save io (st\<lparr>store_entries := store_entries st @
       [\<lparr>te_host = host, te_algorithm = alg, te_fingerprint = fp\<rparr>]\<rparr>)"

definition without_host :: "ustr \<Rightarrow> TrustStore \<Rightarrow> TrustStore" where
  "without_host host st =
     st\<lparr>store_entries := filter (\<lambda>e. te_host e \<noteq> host) (store_entries st)\<rparr>"

definition forget :: "io \<Rightarrow> ustr \<Rightarrow> TrustStore \<Rightarrow> (trust_error + unit) \<times> TrustStore" where
  "forget io host st = save io (without_host host st)"

definition write_entry ::
  "(bytes \<Rightarrow> fingerprint) \<Rightarrow> io \<Rightarrow> ustr \<Rightarrow> HostKey \<Rightarrow> TrustStore \<Rightarrow> (trust_error + unit) \<times> TrustStore"
where
  "write_entry sha io host key st = record_entry io host (algorithm key) (key_fingerprint sha key) st"

definition verify ::
  "(bytes \<Rightarrow> fingerprint) \<Rightarrow> io \<Rightarrow> ustr \<Rightarrow> HostKey \<Rightarrow> TrustStore \<Rightarrow>
     (trust_error + TrustDecision) \<times> TrustStore" where
  "verify sha io host key st =
     (let presented = key_fingerprint sha key
      in case recorded host st of
           Some r \<Rightarrow>
             if r = presented then (Inr Pinned, st)
             else (Inl (HostKeyChanged host r presented), st)
         | None \<Rightarrow>
             (let (w, st') = write_entry sha io host key st
              in (and_then w (\<lambda>_. Inr NewlyPinned), st')))"

definition pin ::
  "(bytes \<Rightarrow> fingerprint) \<Rightarrow> io \<Rightarrow> ustr \<Rightarrow> HostKey \<Rightarrow> TrustStore \<Rightarrow> (trust_error + unit) \<times> TrustStore"
where
  "pin sha io host key st =
     (let presented = key_fingerprint sha key
      in case recorded host st of
           Some r \<Rightarrow>
             if r = presented then (Inr (), st)
             else (Inl (HostKeyChanged host r presented), st)
         | None \<Rightarrow> write_entry sha io host key st)"

definition pin_fingerprint ::
  "io \<Rightarrow> ustr \<Rightarrow> ustr \<Rightarrow> fingerprint \<Rightarrow> TrustStore \<Rightarrow> (trust_error + unit) \<times> TrustStore" where
  "pin_fingerprint io host alg fp st =
     (case recorded host st of
        Some r \<Rightarrow>
          if r = fp then (Inr (), st) else (Inl (HostKeyChanged host r fp), st)
      | None \<Rightarrow> record_entry io host alg fp st)"

definition repin ::
  "(bytes \<Rightarrow> fingerprint) \<Rightarrow> io \<Rightarrow> ustr \<Rightarrow> HostKey \<Rightarrow> TrustStore \<Rightarrow> (trust_error + unit) \<times> TrustStore"
where
  "repin sha io host key st = write_entry sha io host key (without_host host st)"

definition repin_fingerprint ::
  "io \<Rightarrow> ustr \<Rightarrow> ustr \<Rightarrow> fingerprint \<Rightarrow> TrustStore \<Rightarrow> (trust_error + unit) \<times> TrustStore" where
  "repin_fingerprint io host alg fp st = record_entry io host alg fp (without_host host st)"

definition decide ::
  "(bytes \<Rightarrow> fingerprint) \<Rightarrow> io \<Rightarrow> TrustPolicy \<Rightarrow> ustr \<Rightarrow> HostKey option \<Rightarrow> TrustStore \<Rightarrow>
     (trust_error + TrustDecision) \<times> TrustStore" where
  "decide sha io policy host key st =
     (case key of
        None \<Rightarrow>
          if policy = PolicyUnauthenticated then (Inr Unauthenticated, st)
          else (Inl (NobodyAuthenticated host), st)
      | Some k \<Rightarrow>
          (case policy of
             PolicyPinned \<Rightarrow>
               (let presented = key_fingerprint sha k
                in case recorded host st of
                     Some r \<Rightarrow>
                       if r = presented then (Inr Pinned, st)
                       else (Inl (HostKeyChanged host r presented), st)
                   | None \<Rightarrow> (Inl (NotInStore host presented), st))
           | _ \<Rightarrow> verify sha io host k st))"

text \<open>The store over its life: one operation at a time, each under its lock.\<close>

datatype trust_op =
    Decide TrustPolicy ustr "HostKey option"
  | Pin ustr HostKey
  | PinFingerprint ustr ustr fingerprint
  | Repin ustr HostKey
  | RepinFingerprint ustr ustr fingerprint
  | Forget ustr

fun trust_step :: "(bytes \<Rightarrow> fingerprint) \<Rightarrow> io \<times> trust_op \<Rightarrow> TrustStore \<Rightarrow> TrustStore" where
  "trust_step sha (io, Decide p h k) st = snd (decide sha io p h k st)"
| "trust_step sha (io, Pin h k) st = snd (pin sha io h k st)"
| "trust_step sha (io, PinFingerprint h a f) st = snd (pin_fingerprint io h a f st)"
| "trust_step sha (io, Repin h k) st = snd (repin sha io h k st)"
| "trust_step sha (io, RepinFingerprint h a f) st = snd (repin_fingerprint io h a f st)"
| "trust_step sha (io, Forget h) st = snd (forget io h st)"

fun retrusts :: "ustr \<Rightarrow> trust_op \<Rightarrow> bool" where
  "retrusts h (Repin h' _) = (h' = h)"
| "retrusts h (RepinFingerprint h' _ _) = (h' = h)"
| "retrusts h (Forget h') = (h' = h)"
| "retrusts h _ = False"

section \<open>Fingerprints print and read back\<close>

lemma hex_digit_value: "n < 16 \<Longrightarrow> hex_value (hex_digit n) = Some n"
  by (auto simp: hex_value_def hex_digit_def)

lemma hex_digit_ascii: "n < 16 \<Longrightarrow> hex_digit n < 128 \<and> hex_digit n \<noteq> 43 \<and> \<not> is_whitespace (hex_digit n)"
  by (simp add: hex_digit_def is_whitespace_def)

lemma byte_nibbles: "unat (b :: u8) div 16 < 16" "unat b mod 16 < 16"
  using unsigned_less[of b, where ?'a=nat] by auto

lemma hex_byte_read: "u8_from_str_radix16 (hex_byte b) = Some b"
proof -
  have bound: "unat b < 256" using unsigned_less[of b, where ?'a=nat] by simp
  then have "unat b div 16 * 16 + unat b mod 16 < 256" "unat b div 16 < 256" by auto
  then show ?thesis
    using byte_nibbles[of b] hex_digit_ascii[of "unat b div 16"]
    by (simp add: u8_from_str_radix16_def hex_byte_def hex_digit_value)
qed

lemma hex_byte_blen [simp]: "blen (hex_byte b) = 2"
  using byte_nibbles[of b] hex_digit_ascii
  by (simp add: hex_byte_def len_utf8_def)

lemma hex_bytes_blen [simp]: "blen (concat (map hex_byte f)) = 2 * length f"
  by (induction f) auto

lemma hex_bytes_no_space: "no_space (concat (map hex_byte f))"
  using byte_nibbles hex_digit_ascii by (induction f) (auto simp: hex_byte_def)

lemma str_slice_middle: "str_slice (blen a) (blen a + blen m) (a @ m @ b) = Some m"
proof -
  have "split_at (blen a + blen m) (a @ m @ b) = Some (a @ m, b)" by (simp add: split_at_Some)
  moreover have "split_at (blen a) (a @ m) = Some (a, m)" by (simp add: split_at_Some)
  ultimately show ?thesis by (simp add: str_slice_def)
qed

lemma read_pairs_hex:
  "read_pairs (concat (map hex_byte (p @ f))) [length p..<length (p @ f)] = Some f"
proof (induction f arbitrary: p)
  case Nil
  then show ?case by simp
next
  case (Cons b f)
  have slice: "str_slice (length p * 2) (length p * 2 + 2)
      (concat (map hex_byte p) @ hex_byte b @ concat (map hex_byte f)) = Some (hex_byte b)"
    using str_slice_middle[of "concat (map hex_byte p)" "hex_byte b" "concat (map hex_byte f)"]
    by (simp add: mult.commute)
  have "[length p..<length (p @ b # f)] = length p # [length (p @ [b])..<length ((p @ [b]) @ f)]"
    by (subst upt_conv_Cons) (simp_all del: upt_Suc)
  then show ?case using Cons[of "p @ [b]"] slice by (simp add: hex_byte_read)
qed

lemma fingerprint_print_parse:
  assumes "length f = 32"
  shows "fingerprint_from_str (show_fingerprint f) = Inr f"
  using read_pairs_hex[of "[]" f] assms
  by (simp add: fingerprint_from_str_def show_fingerprint_def strip_prefix_append del: asc_Cons)

lemma read_pairs_length: "read_pairs d is = Some f \<Longrightarrow> length f = length is"
  by (induction "is" arbitrary: f) (auto split: option.splits)

lemma fingerprint_from_str_length: "fingerprint_from_str s = Inr f \<Longrightarrow> length f = 32"
  by (auto simp: fingerprint_from_str_def ok_or_eq_Inr dest: read_pairs_length
      split: option.splits if_splits)

lemma show_fingerprint_word: "no_space (show_fingerprint f)" "show_fingerprint f \<noteq> []"
  using hex_bytes_no_space[of f] by (simp_all add: show_fingerprint_def is_whitespace_def)

section \<open>What each operation records\<close>

lemma persist_cases:
  "fst (persist io c d) = Inr () \<longleftrightarrow> io = io_ok"
  "fst (persist io c d) = Inr () \<Longrightarrow> stored (snd (persist io c d)) = Some c"
  "fst (persist io c d) = Inl e \<Longrightarrow> stored (snd (persist io c d)) = stored d"
  by (cases io; auto simp: persist_def io_ok_def split: option.splits)+

lemma save_frame [simp]:
  "store_entries (snd (save io st)) = store_entries st"
  "store_path (snd (save io st)) = store_path st"
  by (auto simp: save_def split: option.splits prod.splits)

lemma save_result: "fst (save io st) = Inr () \<longleftrightarrow> store_path st = None \<or> io = io_ok"
  using persist_cases(1)[of io "render (store_entries st)" "store_disk st"]
  by (auto simp: save_def split: option.splits prod.splits)

lemma recorded_save [simp]: "recorded h (snd (save io st)) = recorded h st"
  by (simp add: recorded_def)

lemma recorded_record:
  "recorded h (snd (record_entry io h' a f st)) =
     (case recorded h st of Some r \<Rightarrow> Some r | None \<Rightarrow> if h' = h then Some f else None)"
proof -
  have "find (\<lambda>e. te_host e = h) (xs @ [x]) =
      (case find (\<lambda>e. te_host e = h) xs of Some y \<Rightarrow> Some y | None \<Rightarrow> find (\<lambda>e. te_host e = h) [x])"
    for xs and x :: TrustEntry by (induction xs) auto
  then show ?thesis by (auto simp: record_entry_def recorded_def split: option.splits)
qed

lemma recorded_without:
  "recorded h (without_host h' st) = (if h = h' then None else recorded h st)"
proof -
  have "find (\<lambda>e. te_host e = h) (filter (\<lambda>e. te_host e \<noteq> h') xs) =
      (if h = h' then None else find (\<lambda>e. te_host e = h) xs)" for xs :: "TrustEntry list"
    by (induction xs) auto
  then show ?thesis by (simp add: recorded_def without_host_def)
qed

lemma record_result:
  "fst (record_entry io h a f st) = Inr () \<longleftrightarrow> store_path st = None \<or> io = io_ok"
  by (simp add: record_entry_def save_result)

lemmas op_defs = verify_def pin_def pin_fingerprint_def repin_def repin_fingerprint_def
  forget_def write_entry_def decide_def

lemma verify_result:
  "fst (verify sha io h k st) = Inr d \<longleftrightarrow>
     (recorded h st = Some (key_fingerprint sha k) \<and> d = Pinned) \<or>
     (recorded h st = None \<and> d = NewlyPinned \<and> (store_path st = None \<or> io = io_ok))"
  by (cases "recorded h st")
    (auto simp: verify_def write_entry_def Let_def case_prod_beta and_then_eq_Inr record_result)

lemma verify_records:
  "recorded h (snd (verify sha io h' k st)) =
     (case recorded h st of
        Some r \<Rightarrow> Some r
      | None \<Rightarrow> if h' = h then Some (key_fingerprint sha k) else None)"
  by (auto simp: verify_def write_entry_def Let_def case_prod_beta recorded_record
      split: option.splits)

lemma decide_keeps:
  "recorded h st = Some f \<Longrightarrow> recorded h (snd (decide sha io p h' k st)) = Some f"
  using verify_records[of h sha io h' _ st]
  by (auto simp: decide_def Let_def split: option.splits TrustPolicy.splits)

lemma trust_step_keeps:
  assumes "recorded h st = Some f" and "\<not> retrusts h op"
  shows "recorded h (trust_step sha (io, op) st) = Some f"
  using assms decide_keeps recorded_record
  by (cases op) (auto simp: pin_def pin_fingerprint_def repin_def repin_fingerprint_def forget_def
      write_entry_def recorded_without Let_def split: option.splits)

interpretation pins: guarded_machine
  "\<lambda>st e. if retrusts h (snd e) then None else Some (trust_step sha e st)"
  "\<lambda>_. True" "\<lambda>st. recorded h st = Some f" for sha h f
  by unfold_locales (auto simp: trust_step_keeps split: if_splits)

lemma run_without_retrust:
  "list_all (\<lambda>e. \<not> retrusts h (snd e)) ops \<Longrightarrow>
     run_events (\<lambda>st e. if retrusts h (snd e) then None else Some (trust_step sha e st)) st ops
       = Some (fold (trust_step sha) ops st)"
  by (induction ops arbitrary: st) auto

lemma pin_survives:
  assumes "recorded h st = Some f" and "list_all (\<lambda>e. \<not> retrusts h (snd e)) ops"
  shows "recorded h (fold (trust_step sha) ops st) = Some f"
  by (rule pins.run_settled[OF TrueI assms(1) run_without_retrust[OF assms(2)]])

section \<open>Whom a link accepts\<close>

text \<open>
  A link is accepted in exactly these cases: nobody was authenticated and the policy is the
  one that allows it; the key presented has the fingerprint recorded for the host, under any
  policy; or nothing is recorded for the host, the policy is not the default one, and the key
  could be written down.  So a key that contradicts the record is refused by every policy.
\<close>

theorem link_accepted_iff:
  "fst (decide sha io policy host key st) = Inr d \<longleftrightarrow>
     (case key of
        None \<Rightarrow> policy = PolicyUnauthenticated \<and> d = Unauthenticated
      | Some k \<Rightarrow>
          (recorded host st = Some (key_fingerprint sha k) \<and> d = Pinned) \<or>
          (recorded host st = None \<and> policy \<noteq> default_policy \<and> d = NewlyPinned \<and>
             (store_path st = None \<or> io = io_ok)))"
  by (cases policy)
    (auto simp: decide_def default_policy_def verify_result Let_def split: option.splits)



section \<open>The file\<close>

text \<open>An entry whose fields survive the whitespace-separated format.\<close>

definition entry_clean :: "TrustEntry \<Rightarrow> bool" where
  "entry_clean e \<longleftrightarrow>
     te_host e \<noteq> [] \<and> no_space (te_host e) \<and> hd (te_host e) \<noteq> 35 \<and>
     te_algorithm e \<noteq> [] \<and> no_space (te_algorithm e) \<and> length (te_fingerprint e) = 32"

definition entry_words :: "TrustEntry \<Rightarrow> ustr list" where
  "entry_words e = [te_host e, te_algorithm e, show_fingerprint (te_fingerprint e)]"

lemma entry_line_words: "entry_line e = join_with 32 (entry_words e)"
  by (simp add: entry_line_def entry_words_def)

lemma entry_words_ok:
  "entry_clean e \<Longrightarrow> entry_words e \<noteq> [] \<and> (\<forall>w \<in> set (entry_words e). no_space w \<and> w \<noteq> [])"
  by (auto simp: entry_words_def entry_clean_def show_fingerprint_word)

lemma comment_skipped:
  "l \<noteq> [] \<Longrightarrow> hd l = 35 \<Longrightarrow> parse_lines i (l # ls) acc = parse_lines (i + 1) ls acc"
  using trim_keeps_head[of l] by (simp add: is_whitespace_def)

lemma entry_eta:
  "\<lparr>te_host = te_host e, te_algorithm = te_algorithm e, te_fingerprint = te_fingerprint e\<rparr>
     = (e :: TrustEntry)"
  by simp

lemma entry_line_read:
  assumes "entry_clean e"
  shows "parse_lines i (entry_line e # ls) acc = parse_lines (i + 1) ls (acc @ [e])"
proof -
  note ok = entry_words_ok[OF assms]
  note line = word_line[OF conjunct1[OF ok] conjunct2[OF ok], folded entry_line_words]
  have "hd (entry_line e) \<noteq> 35" using line(5) assms by (simp add: entry_words_def entry_clean_def)
  moreover have "split_whitespace (entry_line e) = entry_words e"
    unfolding entry_line_words by (rule split_whitespace_join[OF conjunct2[OF ok]])
  moreover have "fingerprint_from_str (show_fingerprint (te_fingerprint e)) = Inr (te_fingerprint e)"
    by (rule fingerprint_print_parse) (use assms in \<open>simp add: entry_clean_def\<close>)
  ultimately show ?thesis
    using line(3,4) by (simp add: entry_words_def entry_eta)
qed

lemma parse_entry_lines:
  "list_all entry_clean es \<Longrightarrow> parse_lines i (map entry_line es) acc = Inr (acc @ es)"
  by (induction es arbitrary: i acc) (simp_all add: entry_line_read del: parse_lines.simps(2))

lemma entry_lines_split:
  assumes "list_all entry_clean es"
  shows "str_lines (concat (map (\<lambda>e. entry_line e @ [10]) es)) = map entry_line es"
  using assms
proof (induction es)
  case Nil
  then show ?case by simp
next
  case (Cons e es)
  have ok: "entry_words e \<noteq> []" "\<forall>w \<in> set (entry_words e). no_space w \<and> w \<noteq> []"
    using entry_words_ok[of e] Cons.prems by auto
  have "str_lines (entry_line e @ 10 # r) = entry_line e # str_lines r" for r
    using str_lines_line[OF word_line(1)[OF ok]] word_line(2)[OF ok] by (simp add: entry_line_words)
  then show ?case using Cons by simp
qed

lemma trust_header_lines:
  "\<exists>a b c. str_lines (trust_header @ s) = a # b # c # str_lines s \<and>
     a \<noteq> [] \<and> hd a = 35 \<and> b \<noteq> [] \<and> hd b = 35 \<and> c \<noteq> [] \<and> hd c = 35"
proof -
  have line: "str_lines (l @ 10 # r) = l # str_lines r" if "10 \<notin> set l" "last l \<noteq> 13" for l r
    using that by (simp add: str_lines_line strip_cr_id)
  show ?thesis
    unfolding trust_header_def append_assoc append_Cons append_Nil
    by (subst line, simp, simp, subst line, simp, simp, subst line, simp, simp) simp
qed

lemma parse_render:
  assumes "list_all entry_clean es"
  shows "parse (render es) = Inr es"
proof -
  obtain a b c where h: "str_lines (render es) = a # b # c # map entry_line es"
    "a \<noteq> []" "hd a = 35" "b \<noteq> []" "hd b = 35" "c \<noteq> []" "hd c = 35"
    using trust_header_lines entry_lines_split[OF assms] unfolding render_def by metis
  show ?thesis
    unfolding parse_def h(1) comment_skipped[OF h(2,3)] comment_skipped[OF h(4,5)]
      comment_skipped[OF h(6,7)] parse_entry_lines[OF assms] by simp
qed

text \<open>The entry an operation would write down.\<close>

fun op_entry :: "(bytes \<Rightarrow> fingerprint) \<Rightarrow> trust_op \<Rightarrow> TrustEntry option" where
  "op_entry sha (Decide p h k) =
     map_option (\<lambda>k. \<lparr>te_host = h, te_algorithm = algorithm k, te_fingerprint = key_fingerprint sha k\<rparr>) k"
| "op_entry sha (Pin h k) =
     Some \<lparr>te_host = h, te_algorithm = algorithm k, te_fingerprint = key_fingerprint sha k\<rparr>"
| "op_entry sha (PinFingerprint h a f) = Some \<lparr>te_host = h, te_algorithm = a, te_fingerprint = f\<rparr>"
| "op_entry sha (Repin h k) =
     Some \<lparr>te_host = h, te_algorithm = algorithm k, te_fingerprint = key_fingerprint sha k\<rparr>"
| "op_entry sha (RepinFingerprint h a f) = Some \<lparr>te_host = h, te_algorithm = a, te_fingerprint = f\<rparr>"
| "op_entry sha (Forget h) = None"

definition saves_clean :: "io \<Rightarrow> TrustStore \<Rightarrow> TrustStore \<Rightarrow> bool" where
  "saves_clean io st st' \<longleftrightarrow>
     st' = st \<or>
     (\<exists>u. st' = snd (save io u) \<and> store_path u = store_path st \<and> store_disk u = store_disk st \<and>
        list_all entry_clean (store_entries u))"

lemma saves_cleanI:
  "store_path u = store_path st \<Longrightarrow> store_disk u = store_disk st \<Longrightarrow>
     list_all entry_clean (store_entries u) \<Longrightarrow> saves_clean io st (snd (save io u))"
  by (auto simp: saves_clean_def)

lemma saves_clean_record:
  assumes "list_all entry_clean (store_entries st)"
    and "entry_clean \<lparr>te_host = h, te_algorithm = a, te_fingerprint = f\<rparr>"
  shows "saves_clean io st (snd (record_entry io h a f st))"
    and "saves_clean io st (snd (record_entry io h a f (without_host h' st)))"
  using assms by (auto simp: record_entry_def without_host_def list_all_iff intro!: saves_cleanI)

lemma step_saves_clean:
  assumes "list_all entry_clean (store_entries st)" and "pred_option entry_clean (op_entry sha op)"
  shows "saves_clean io st (trust_step sha (io, op) st)"
proof (cases op)
  case (Forget h)
  then show ?thesis using assms
    by (auto simp: forget_def without_host_def list_all_iff intro!: saves_cleanI)
next
  case (Decide p h k)
  show ?thesis
  proof (cases "snd (decide sha io p h k st) = st")
    case True
    then show ?thesis using Decide by (simp add: saves_clean_def)
  next
    case False
    then obtain k' where "k = Some k'"
      "snd (decide sha io p h k st) = snd (record_entry io h (algorithm k') (key_fingerprint sha k') st)"
      by (auto simp: decide_def verify_def write_entry_def Let_def case_prod_beta
          split: option.splits TrustPolicy.splits if_splits)
    then show ?thesis using Decide assms saves_clean_record by simp
  qed
qed (use assms saves_clean_record in \<open>auto simp: pin_def pin_fingerprint_def repin_def
      repin_fingerprint_def write_entry_def Let_def saves_clean_def[of io st st] split: option.splits\<close>)

text \<open>
  The file is never half a store.  Start from a store that agrees with its file, with host
  names, algorithms and digests the format can carry, and run any operation under any failure
  of the file system: reading the file afterwards gives exactly the entries from before the
  operation or exactly those after it.
\<close>

theorem store_file_atomic:
  assumes "store_path st = Some p" and "open_store None p (store_disk st) = Inr st"
    and "list_all entry_clean (store_entries st)" and "pred_option entry_clean (op_entry sha op)"
    and "st' = trust_step sha (io, op) st"
  shows "open_store None p (store_disk st') = Inr st' \<or>
         open_store None p (store_disk st') = Inr (st'\<lparr>store_entries := store_entries st\<rparr>)"
proof -
  have "saves_clean io st st'" unfolding assms(5) by (rule step_saves_clean[OF assms(3,4)])
  then consider "st' = st" | u where "st' = snd (save io u)" "store_path u = Some p"
      "store_disk u = store_disk st" "list_all entry_clean (store_entries u)"
    using assms(1) by (auto simp: saves_clean_def)
  then show ?thesis
  proof cases
    case 1
    then show ?thesis using assms(2) by simp
  next
    case 2
    let ?d = "persist io (render (store_entries u)) (store_disk st)"
    have st': "st' = u\<lparr>store_disk := snd ?d\<rparr>"
      using 2 by (simp add: save_def case_prod_beta)
    show ?thesis
    proof (cases "fst ?d")
      case (Inr x)
      then have "stored (snd ?d) = Some (render (store_entries u))" using persist_cases(2) by simp
      then have "open_store None p (snd ?d) = Inr (u\<lparr>store_disk := snd ?d\<rparr>)"
        using 2(2) parse_render[OF 2(4)] by (cases u) (simp add: open_store_def)
      then show ?thesis using st' by simp
    next
      case (Inl e)
      then have "stored (snd ?d) = stored (store_disk st)" using persist_cases(3) by blast
      then have "open_store None p (snd ?d) = Inr (st\<lparr>store_disk := snd ?d\<rparr>)"
        using assms(2) by (cases st) (auto simp: open_store_def and_then_eq_Inr split: option.splits)
      moreover have "st\<lparr>store_disk := snd ?d\<rparr> = st'\<lparr>store_entries := store_entries st\<rparr>"
        using st' 2(2) assms(1) by simp
      ultimately show ?thesis using st' by simp
    qed
  qed
qed

definition sample_store :: TrustStore where
  "sample_store =
     (let es = [\<lparr>te_host = asc ''db'', te_algorithm = asc ''ed25519'', te_fingerprint = replicate 32 7\<rparr>]
      in \<lparr>store_entries = es, store_path = Some (asc ''p''),
          store_disk = \<lparr>stored = Some (render es), temporary = None\<rparr>\<rparr>)"

lemma sample_store_ok:
  "store_path sample_store = Some (asc ''p'')"
  "open_store None (asc ''p'') (store_disk sample_store) = Inr sample_store"
  "list_all entry_clean (store_entries sample_store)"
proof -
  show clean: "list_all entry_clean (store_entries sample_store)"
    by (simp add: sample_store_def entry_clean_def is_whitespace_def Let_def)
  show "store_path sample_store = Some (asc ''p'')" by (simp add: sample_store_def Let_def)
  have "stored (store_disk sample_store) = Some (render (store_entries sample_store))"
    by (simp add: sample_store_def Let_def)
  then have "open_store None (asc ''p'') (store_disk sample_store) =
      Inr \<lparr>store_entries = store_entries sample_store, store_path = Some (asc ''p''),
           store_disk = store_disk sample_store\<rparr>"
    using parse_render[OF clean] by (simp add: open_store_def)
  then show "open_store None (asc ''p'') (store_disk sample_store) = Inr sample_store"
    by (simp add: sample_store_def Let_def)
qed

theorem store_file_atomic_witness:
  "open_store None (asc ''p'') (store_disk (trust_step (\<lambda>m. m)
       (io_ok\<lparr>io_rename := Some PermissionDenied\<rparr>, Forget (asc ''db'')) sample_store)) =
     Inr (trust_step (\<lambda>m. m) (io_ok\<lparr>io_rename := Some PermissionDenied\<rparr>, Forget (asc ''db'')) sample_store) \<or>
   open_store None (asc ''p'') (store_disk (trust_step (\<lambda>m. m)
       (io_ok\<lparr>io_rename := Some PermissionDenied\<rparr>, Forget (asc ''db'')) sample_store)) =
     Inr ((trust_step (\<lambda>m. m) (io_ok\<lparr>io_rename := Some PermissionDenied\<rparr>, Forget (asc ''db'')) sample_store)
       \<lparr>store_entries := store_entries sample_store\<rparr>)"
  by (rule store_file_atomic[OF sample_store_ok _ refl]) simp

section \<open>Corners of the store\<close>

text \<open>
  A record that could not be written is still kept in memory: the link is refused, and the
  same link tried again finds the key pinned although no file holds it.
\<close>

lemma failed_record_still_pins:
  assumes "recorded h st = None" and "store_path st = Some p"
    and "fst (decide sha io PolicyRequired h (Some k) st) = Inl e"
  shows "fst (decide sha io' PolicyPinned h (Some k)
           (snd (decide sha io PolicyRequired h (Some k) st))) = Inr Pinned"
    and "stored (store_disk (snd (decide sha io PolicyRequired h (Some k) st))) =
           stored (store_disk st)"
proof -
  show "fst (decide sha io' PolicyPinned h (Some k)
      (snd (decide sha io PolicyRequired h (Some k) st))) = Inr Pinned"
    using assms(1) verify_records[of h sha io h k st] by (simp add: decide_def)
  have "fst (verify sha io h k st) = Inl e" using assms(3) by (simp add: decide_def)
  then show "stored (store_disk (snd (decide sha io PolicyRequired h (Some k) st))) =
      stored (store_disk st)"
    using assms(1,2) persist_cases(3)
    by (auto simp: decide_def verify_def write_entry_def record_entry_def save_def Let_def
        case_prod_beta and_then_eq_Inl)
qed

text \<open>
  \<open>verify\<close> looks the host up and records it under two separate locks.  When two links to
  an unknown host run between each other, both may pass the lookup, and the second is then
  told its key was newly pinned although the store answers the first one's.
\<close>

lemma verify_race_pins_two_keys:
  assumes "recorded h st = None" and "store_path st = None"
    and "st\<^sub>1 = snd (write_entry sha io h k\<^sub>1 st)"
  shows "fst (write_entry sha io h k\<^sub>2 st\<^sub>1) = Inr () \<and>
         recorded h (snd (write_entry sha io h k\<^sub>2 st\<^sub>1)) = Some (key_fingerprint sha k\<^sub>1)"
proof -
  have "store_path st\<^sub>1 = None" using assms by (simp add: write_entry_def record_entry_def)
  moreover have "recorded h st\<^sub>1 = Some (key_fingerprint sha k\<^sub>1)"
    using assms by (simp add: write_entry_def recorded_record)
  ultimately show ?thesis by (simp add: write_entry_def record_result recorded_record)
qed

text \<open>A sign is read as part of a hexadecimal pair.\<close>

lemma fingerprint_accepts_plus:
  "fingerprint_from_str (asc ''sha256:+f'' @ replicate 62 48) = Inr (15 # replicate 31 0)"
  by code_simp

end
