(* ===== verification/Authorization.thy ===== *)
theory Authorization
  imports Trust_Store "HOL-Library.List_Lexorder"
begin

text \<open>
  Who a listening agent lets in and what it lets them do
  (\<open>crates/ono-protocol/src/authorization.rs\<close>), with the commands that change the list
  (\<open>crates/ono-cli/src/trust.rs\<close>).  The store is a line-oriented file, strictly parsed; a
  connection's context is made from one entry of it; every request asks the context.  An
  ordered set of capability ids is a set here, printed in order.
\<close>

section \<open>Grants and clients\<close>

datatype entry_error =
    NoFingerprint
  | BadFingerprint trust_error
  | NotNameValue ustr
  | BadObserve ustr
  | GrantMalformed ustr
  | GivenTwice ustr
  | UnknownField ustr
  | ObserveMissing
  | AlreadyListed

definition grant_byte :: "nat \<Rightarrow> bool" where
  "grant_byte c \<longleftrightarrow> (97 \<le> c \<and> c \<le> 122) \<or> is_ascii_digit c \<or> c = 45"

definition grant_ok :: "ustr \<Rightarrow> bool" where
  "grant_ok s \<longleftrightarrow>
     (let segments = split_on 46 s
      in length segments \<ge> 2 \<and>
         list_all (\<lambda>segment. segment \<noteq> [] \<and> list_all grant_byte segment) segments)"

definition grant_from_str :: "ustr \<Rightarrow> entry_error + ustr" where
  "grant_from_str s = (if grant_ok s then Inr s else Inl (GrantMalformed s))"

record AuthorizedClient =
  ac_fingerprint :: fingerprint
  ac_label :: "ustr option"
  ac_observe :: bool
  ac_actions :: "ustr set"

definition observing :: "fingerprint \<Rightarrow> AuthorizedClient" where
  "observing f = \<lparr>ac_fingerprint = f, ac_label = None, ac_observe = True, ac_actions = {}\<rparr>"

record AuthorizedClients =
  clients_entries :: "AuthorizedClient list"
  clients_path :: "ustr option"
  clients_present :: bool

definition empty_clients :: AuthorizedClients where
  "empty_clients = \<lparr>clients_entries = [], clients_path = None, clients_present = False\<rparr>"

section \<open>The file\<close>

definition clients_header :: ustr where
  "clients_header =
     asc ''# ono authorized clients: one line per client key, strictly parsed (v0.4.1 section 9.2).'' @ [10] @
     asc ''# `<sha256 fingerprint> observe=<true|false> [actions=<id>,<id>'' @ [0x2026] @
       asc ''] [label=<name>]`'' @ [10] @
     asc ''# An action grant names one exact capability id; there is no wildcard and no risk class.'' @ [10] @
     asc ''# A malformed line refuses the whole file: this store is never read as an empty one.'' @ [10]"

definition client_line :: "AuthorizedClient \<Rightarrow> ustr" where
  "client_line e =
     show_fingerprint (ac_fingerprint e) @
     (if ac_observe e then asc '' observe=true'' else asc '' observe=false'') @
     (if ac_actions e = {} then []
      else asc '' actions='' @ join_with 44 (sorted_list_of_set (ac_actions e))) @
     (case ac_label e of None \<Rightarrow> [] | Some l \<Rightarrow> asc '' label='' @ l)"

definition render_clients :: "AuthorizedClient list \<Rightarrow> ustr" where
  "render_clients es = clients_header @ concat (map (\<lambda>e. client_line e @ [10]) es)"

fun read_grants :: "ustr list \<Rightarrow> ustr set \<Rightarrow> entry_error + ustr set" where
  "read_grants [] granted = Inr granted"
| "read_grants (i # is) granted =
     and_then (grant_from_str i) (\<lambda>g. read_grants is (insert g granted))"

record draft =
  d_observe :: "bool option"
  d_actions :: "ustr set option"
  d_label :: "ustr option"

definition parse_field :: "ustr \<Rightarrow> draft \<Rightarrow> entry_error + draft" where
  "parse_field field d =
     (case split_once 61 field of
        None \<Rightarrow> Inl (NotNameValue field)
      | Some (name, v) \<Rightarrow>
          if name = asc ''observe'' then
            (if v = asc ''true'' \<or> v = asc ''false'' then
               if d_observe d = None then Inr (d\<lparr>d_observe := Some (v = asc ''true'')\<rparr>)
               else Inl (GivenTwice name)
             else Inl (BadObserve v))
          else if name = asc ''actions'' then
            and_then (read_grants (filter (\<lambda>i. i \<noteq> []) (split_on 44 v)) {}) (\<lambda>granted.
              if d_actions d = None then Inr (d\<lparr>d_actions := Some granted\<rparr>)
              else Inl (GivenTwice name))
          else if name = asc ''label'' then
            (if d_label d = None then Inr (d\<lparr>d_label := Some v\<rparr>) else Inl (GivenTwice name))
          else Inl (UnknownField name))"

fun parse_fields :: "ustr list \<Rightarrow> draft \<Rightarrow> entry_error + draft" where
  "parse_fields [] d = Inr d"
| "parse_fields (f # fs) d = and_then (parse_field f d) (parse_fields fs)"

definition parse_entry :: "ustr \<Rightarrow> entry_error + AuthorizedClient" where
  "parse_entry line =
     (case split_whitespace line of
        [] \<Rightarrow> Inl NoFingerprint
      | w # fs \<Rightarrow>
          (case fingerprint_from_str w of
             Inl e \<Rightarrow> Inl (BadFingerprint e)
           | Inr fp \<Rightarrow>
               and_then (parse_fields fs \<lparr>d_observe = None, d_actions = None, d_label = None\<rparr>) (\<lambda>d.
                 and_then (ok_or ObserveMissing (d_observe d)) (\<lambda>observe.
                   Inr \<lparr>ac_fingerprint = fp, ac_label = d_label d, ac_observe = observe,
                        ac_actions = (case d_actions d of None \<Rightarrow> {} | Some a \<Rightarrow> a)\<rparr>))))"

datatype auth_error =
    StoreUnreadable io_kind
  | StoreMalformed nat entry_error
  | Unlisted fingerprint bool
  | StoreUnwritable io_kind
  | NotAFingerprint trust_error
  | NotAGrant entry_error
  | AlreadyAuthorized fingerprint
  | NotAuthorized fingerprint
  | NoConfigurationDirectory

fun parse_clients ::
  "nat \<Rightarrow> ustr list \<Rightarrow> AuthorizedClient list \<Rightarrow> auth_error + AuthorizedClient list" where
  "parse_clients index [] acc = Inr acc"
| "parse_clients index (l # ls) acc =
     (let line = trim l
      in if line = [] \<or> hd line = 35 then parse_clients (index + 1) ls acc
         else case parse_entry line of
                Inl e \<Rightarrow> Inl (StoreMalformed (index + 1) e)
              | Inr entry \<Rightarrow>
                  if list_ex (\<lambda>old. ac_fingerprint old = ac_fingerprint entry) acc
                  then Inl (StoreMalformed (index + 1) AlreadyListed)
                  else parse_clients (index + 1) ls (acc @ [entry]))"

text \<open>\<open>AuthorizedClients::open\<close>; \<open>fault\<close> is an error the read met.\<close>

definition open_clients :: "io_kind option \<Rightarrow> ustr \<Rightarrow> disk \<Rightarrow> auth_error + AuthorizedClients" where
  "open_clients fault path d =
     (case (fault, stored d) of
        (None, Some s) \<Rightarrow>
          and_then (parse_clients 0 (str_lines s) []) (\<lambda>es.
            Inr \<lparr>clients_entries = es, clients_path = Some path, clients_present = True\<rparr>)
      | (None, None) \<Rightarrow>
          Inr \<lparr>clients_entries = [], clients_path = Some path, clients_present = False\<rparr>
      | (Some k, _) \<Rightarrow>
          if k = NotFound
          then Inr \<lparr>clients_entries = [], clients_path = Some path, clients_present = False\<rparr>
          else Inl (StoreUnreadable k))"

text \<open>
  \<open>write_store\<close>: beside the outcomes of the trust store's \<open>persist\<close>, whether the leftover
  temporary could be removed before the write and after a failed rename.
\<close>

record io_new = io +
  io_removed :: bool
  io_cleaned :: bool

definition write_store :: "io_new \<Rightarrow> AuthorizedClient list \<Rightarrow> disk \<Rightarrow> (auth_error + unit) \<times> disk" where
  "write_store io es d =
     (let contents = render_clients es in
      case io_mkdir io of Some k \<Rightarrow> (Inl (StoreUnwritable k), d) | None \<Rightarrow>
      let d' = (if io_removed io then d\<lparr>temporary := None\<rparr> else d) in
      if temporary d' \<noteq> None then (Inl (StoreUnwritable OtherKind), d') else
      case io_create io of Some k \<Rightarrow> (Inl (StoreUnwritable k), d') | None \<Rightarrow>
      case io_write io of
        Some (k, n) \<Rightarrow> (Inl (StoreUnwritable k), d'\<lparr>temporary := Some (take n contents)\<rparr>)
      | None \<Rightarrow>
      case io_sync io of Some k \<Rightarrow> (Inl (StoreUnwritable k), d'\<lparr>temporary := Some contents\<rparr>) | None \<Rightarrow>
      case io_rename io of
        Some k \<Rightarrow>
          (Inl (StoreUnwritable k),
           d'\<lparr>temporary := (if io_cleaned io then None else Some contents)\<rparr>)
      | None \<Rightarrow> (Inr (), \<lparr>stored = Some contents, temporary = None\<rparr>))"

section \<open>The context of a connection\<close>

record AuthorizationContext =
  peer_fingerprint :: fingerprint
  client_label :: "ustr option"
  observe_allowed :: bool
  allowed_action_capabilities :: "ustr set"
  connection_id :: ustr
  connected_at :: int

definition client :: "fingerprint \<Rightarrow> AuthorizedClients \<Rightarrow> AuthorizedClient option" where
  "client f cs = find (\<lambda>e. ac_fingerprint e = f) (clients_entries cs)"

text \<open>The connection counter is a 64-bit atomic; it is returned advanced.\<close>

definition context_of :: "int \<Rightarrow> 64 word \<Rightarrow> AuthorizedClient \<Rightarrow> AuthorizationContext \<times> 64 word" where
  "context_of now n e =
     (\<lparr>peer_fingerprint = ac_fingerprint e, client_label = ac_label e,
       observe_allowed = ac_observe e, allowed_action_capabilities = ac_actions e,
       connection_id = asc ''conn-'' @ show_nat (unat n), connected_at = now\<rparr>, n + 1)"

definition authorize ::
  "int \<Rightarrow> 64 word \<Rightarrow> fingerprint \<Rightarrow> AuthorizedClients \<Rightarrow>
     (auth_error + AuthorizationContext) \<times> 64 word" where
  "authorize now n f cs =
     (case client f cs of
        None \<Rightarrow> (Inl (Unlisted f (clients_present cs)), n)
      | Some e \<Rightarrow> (let (c, n') = context_of now n e in (Inr c, n')))"

datatype PeerAuthorization = CarriedByTransport | Policy AuthorizationContext

fun peer_context :: "PeerAuthorization \<Rightarrow> AuthorizationContext option" where
  "peer_context CarriedByTransport = None"
| "peer_context (Policy c) = Some c"

fun allows_observe :: "PeerAuthorization \<Rightarrow> bool" where
  "allows_observe CarriedByTransport = True"
| "allows_observe (Policy c) = observe_allowed c"

fun allows_action :: "PeerAuthorization \<Rightarrow> ustr \<Rightarrow> bool" where
  "allows_action CarriedByTransport capability = True"
| "allows_action (Policy c) capability = (capability \<in> allowed_action_capabilities c)"

datatype denied_because =
    ObserveNotAllowed
  | CapabilityUnknown
  | ActionNotGranted ustr
  | HistoricalContext int

record refusal =
  refused_code :: string
  refused_peer :: "fingerprint option"
  refused_connection :: "ustr option"
  refused_because :: denied_because

definition refuse :: "PeerAuthorization \<Rightarrow> string \<Rightarrow> denied_because \<Rightarrow> refusal" where
  "refuse p code why =
     \<lparr>refused_code = code,
      refused_peer = map_option peer_fingerprint (peer_context p),
      refused_connection = map_option connection_id (peer_context p),
      refused_because = why\<rparr>"

definition require_observe :: "PeerAuthorization \<Rightarrow> refusal + unit" where
  "require_observe p =
     (if allows_observe p then Inr ()
      else Inl (refuse p ''remote.capability_denied'' ObserveNotAllowed))"

definition require_action :: "PeerAuthorization \<Rightarrow> ustr option \<Rightarrow> refusal + unit" where
  "require_action p capability =
     (case capability of
        None \<Rightarrow> Inl (refuse p ''remote.capability_denied'' CapabilityUnknown)
      | Some c \<Rightarrow>
          if allows_action p c then Inr ()
          else Inl (refuse p ''remote.capability_denied'' (ActionNotGranted c)))"

definition require_present :: "PeerAuthorization \<Rightarrow> int option \<Rightarrow> refusal + unit" where
  "require_present p attempted_from =
     (case attempted_from of
        None \<Rightarrow> Inr ()
      | Some at \<Rightarrow> Inl (refuse p ''temporal.read_only'' (HistoricalContext at)))"

section \<open>The commands that change the list\<close>

text \<open>Where this session keeps the list, and the files there.\<close>

record agent_home =
  home_path :: "ustr option"
  home_disk :: disk

definition open_authorized_clients :: "io_kind option \<Rightarrow> agent_home \<Rightarrow> auth_error + AuthorizedClients" where
  "open_authorized_clients fault home =
     (case home_path home of
        None \<Rightarrow> Inr empty_clients
      | Some path \<Rightarrow> open_clients fault path (home_disk home))"

definition persist_authorized ::
  "io_new \<Rightarrow> AuthorizedClient list \<Rightarrow> agent_home \<Rightarrow> (auth_error + unit) \<times> agent_home" where
  "persist_authorized io es home =
     (case home_path home of
        None \<Rightarrow> (Inl NoConfigurationDirectory, home)
      | Some _ \<Rightarrow>
          (let (r, d) = write_store io es (home_disk home) in (r, home\<lparr>home_disk := d\<rparr>)))"

definition authorize_client ::
  "io_kind option \<Rightarrow> io_new \<Rightarrow> ustr \<Rightarrow> ustr option \<Rightarrow> agent_home \<Rightarrow> (auth_error + unit) \<times> agent_home"
where
  "authorize_client fault io fp label home =
     (case fingerprint_from_str fp of
        Inl e \<Rightarrow> (Inl (NotAFingerprint e), home)
      | Inr f \<Rightarrow>
          (case open_authorized_clients fault home of
             Inl e \<Rightarrow> (Inl e, home)
           | Inr cs \<Rightarrow>
               if client f cs \<noteq> None then (Inl (AlreadyAuthorized f), home)
               else
                 (let entry = (case label of None \<Rightarrow> observing f
                                           | Some l \<Rightarrow> (observing f)\<lparr>ac_label := Some l\<rparr>)
                  in persist_authorized io (clients_entries cs @ [entry]) home)))"

definition changed_client ::
  "ustr set option \<Rightarrow> bool option \<Rightarrow> ustr option \<Rightarrow> AuthorizedClient \<Rightarrow> AuthorizedClient" where
  "changed_client granted observe label e =
     (let e = (case granted of None \<Rightarrow> e | Some g \<Rightarrow> e\<lparr>ac_actions := g\<rparr>);
          e = (case observe of None \<Rightarrow> e | Some b \<Rightarrow> e\<lparr>ac_observe := b\<rparr>)
      in case label of None \<Rightarrow> e | Some l \<Rightarrow> e\<lparr>ac_label := Some l\<rparr>)"

definition allow_list :: "ustr \<Rightarrow> entry_error + ustr set" where
  "allow_list allow = read_grants (filter (\<lambda>i. i \<noteq> []) (map trim (split_on 44 allow))) {}"

definition set_client_key ::
  "io_kind option \<Rightarrow> io_new \<Rightarrow> ustr \<Rightarrow> ustr option \<Rightarrow> bool option \<Rightarrow> ustr option \<Rightarrow> agent_home \<Rightarrow>
     (auth_error + bool) \<times> agent_home" where
  "set_client_key fault io fp allow observe label home =
     (case fingerprint_from_str fp of
        Inl e \<Rightarrow> (Inl (NotAFingerprint e), home)
      | Inr f \<Rightarrow>
          (case open_authorized_clients fault home of
             Inl e \<Rightarrow> (Inl e, home)
           | Inr cs \<Rightarrow>
               (case client f cs of
                  None \<Rightarrow> (Inl (NotAuthorized f), home)
                | Some existing \<Rightarrow>
                    (case (case allow of None \<Rightarrow> Inr None | Some a \<Rightarrow> map_sum id Some (allow_list a)) of
                       Inl e \<Rightarrow> (Inl (NotAGrant e), home)
                     | Inr granted \<Rightarrow>
                         (let entry = changed_client granted observe label existing
                          in if entry = existing then (Inr False, home)
                             else
                               (let (r, home') = persist_authorized io
                                      (map (\<lambda>e. if ac_fingerprint e = f then entry else e)
                                         (clients_entries cs)) home
                                in (and_then r (\<lambda>_. Inr True), home')))))))"

definition revoke_client ::
  "io_kind option \<Rightarrow> io_new \<Rightarrow> ustr \<Rightarrow> agent_home \<Rightarrow> (auth_error + unit) \<times> agent_home" where
  "revoke_client fault io fp home =
     (case fingerprint_from_str fp of
        Inl e \<Rightarrow> (Inl (NotAFingerprint e), home)
      | Inr f \<Rightarrow>
          (case open_authorized_clients fault home of
             Inl e \<Rightarrow> (Inl e, home)
           | Inr cs \<Rightarrow>
               if client f cs = None then (Inl (NotAuthorized f), home)
               else persist_authorized io
                      (filter (\<lambda>e. ac_fingerprint e \<noteq> f) (clients_entries cs)) home))"

section \<open>Grants\<close>

lemma grant_byte_plain: "grant_byte c \<Longrightarrow> \<not> is_whitespace c \<and> c \<noteq> 44 \<and> c \<noteq> 42"
  by (auto simp: grant_byte_def is_ascii_digit_def is_whitespace_def)

lemma split_on_set: "x \<in> set s \<Longrightarrow> x = c \<or> (\<exists>w \<in> set (split_on c s). x \<in> set w)"
  by (induction s) (auto split: list.splits if_splits)

lemma grant_ok_chars: "grant_ok s \<Longrightarrow> x \<in> set s \<Longrightarrow> x = 46 \<or> grant_byte x"
  using split_on_set[of x s 46] by (auto simp: grant_ok_def Let_def list_all_iff)

lemma grant_ok_word:
  assumes "grant_ok s"
  shows "s \<noteq> []" and "no_space s" and "44 \<notin> set s" and "42 \<notin> set s"
proof -
  have plain: "\<not> is_whitespace x \<and> x \<noteq> 44 \<and> x \<noteq> 42" if "x \<in> set s" for x
    using grant_ok_chars[OF assms that] grant_byte_plain[of x] by (auto simp: is_whitespace_def)
  show "s \<noteq> []" using assms by (auto simp: grant_ok_def)
  show "no_space s" "44 \<notin> set s" "42 \<notin> set s"
    using plain by (auto simp: no_space_def list_all_iff)
qed

lemma read_grants_iff:
  "read_grants is g = Inr g' \<longleftrightarrow> list_all grant_ok is \<and> g' = g \<union> set is"
  by (induction "is" arbitrary: g) (auto simp: and_then_eq_Inr grant_from_str_def split: if_splits)

section \<open>The strict parser\<close>

text \<open>The lines that are neither blank nor a comment.\<close>

definition content_lines :: "ustr list \<Rightarrow> ustr list" where
  "content_lines ls = filter (\<lambda>l. l \<noteq> [] \<and> hd l \<noteq> 35) (map trim ls)"

lemma content_lines_simps [simp]:
  "content_lines [] = []"
  "content_lines (l # ls) =
     (if trim l = [] \<or> hd (trim l) = 35 then content_lines ls else trim l # content_lines ls)"
  by (auto simp: content_lines_def)

lemma parse_clients_acc:
  assumes "distinct (map ac_fingerprint acc)"
  shows "parse_clients i ls acc = Inr es \<longleftrightarrow>
     (\<exists>es'. es = acc @ es' \<and> map parse_entry (content_lines ls) = map Inr es' \<and>
        distinct (map ac_fingerprint (acc @ es')))"
  using assms
proof (induction i ls acc rule: parse_clients.induct)
  case (1 index acc)
  then show ?case by auto
next
  case (2 index l ls acc)
  show ?case
  proof (cases "trim l = [] \<or> hd (trim l) = 35")
    case True
    then show ?thesis using 2 by simp
  next
    case content: False
    show ?thesis
    proof (cases "parse_entry (trim l)")
      case (Inl e)
      then show ?thesis using content by (auto simp: Cons_eq_map_conv)
    next
      case (Inr a)
      show ?thesis
      proof (cases "list_ex (\<lambda>old. ac_fingerprint old = ac_fingerprint a) acc")
        case True
        then have "ac_fingerprint a \<in> set (map ac_fingerprint acc)"
          by (auto simp: list_ex_iff intro: rev_image_eqI)
        then show ?thesis using content Inr True by (auto simp: Cons_eq_map_conv)
      next
        case False
        then have "distinct (map ac_fingerprint (acc @ [a]))"
          using "2.prems" by (auto simp: list_ex_iff)
        then show ?thesis
          using "2.IH"(2)[OF refl content Inr False] content Inr False
          by (auto simp: Cons_eq_map_conv)
      qed
    qed
  qed
qed

lemma parse_clients_iff:
  "parse_clients i ls [] = Inr es \<longleftrightarrow>
     map parse_entry (content_lines ls) = map Inr es \<and> distinct (map ac_fingerprint es)"
  using parse_clients_acc[of "[]" i ls es] by auto

text \<open>What the fields of one entry add to its draft.\<close>

definition granted :: "draft \<Rightarrow> ustr set" where
  "granted d = (case d_actions d of None \<Rightarrow> {} | Some a \<Rightarrow> a)"

lemma asc_field: "asc ''actions='' @ v = name @ 61 # w \<and> 61 \<notin> set name \<longleftrightarrow>
    name = asc ''actions'' \<and> w = v"
proof -
  have "split_once 61 (asc ''actions='' @ v) = Some (asc ''actions'', v)" by simp
  then show ?thesis using split_once_Some[of 61 "asc ''actions='' @ v" name w] by auto
qed

lemma parse_field_granted:
  assumes "parse_field f d = Inr d'"
  shows "granted d' = granted d \<union>
     {c. \<exists>v. f = asc ''actions='' @ v \<and> c \<in> set (split_on 44 v) \<and> c \<noteq> []}"
proof -
  obtain name v where f: "split_once 61 f = Some (name, v)"
    using assms by (auto simp: parse_field_def split: option.splits)
  then have eq: "f = name @ 61 # v" "61 \<notin> set name" by (simp_all add: split_once_Some)
  show ?thesis
  proof (cases "name = asc ''actions''")
    case True
    then obtain g where "read_grants (filter (\<lambda>i. i \<noteq> []) (split_on 44 v)) {} = Inr g"
      "d_actions d = None" "d' = d\<lparr>d_actions := Some g\<rparr>"
      using assms f by (auto simp: parse_field_def and_then_eq_Inr split: if_splits)
    then show ?thesis using True eq by (auto simp: granted_def read_grants_iff)
  next
    case False
    then have "\<nexists>v'. f = asc ''actions='' @ v'" using eq asc_field by metis
    moreover have "d_actions d' = d_actions d"
      using assms f False by (auto simp: parse_field_def split: if_splits)
    ultimately show ?thesis by (auto simp: granted_def)
  qed
qed

lemma parse_fields_granted:
  "parse_fields fs d = Inr d' \<Longrightarrow>
     granted d' = granted d \<union>
       {c. \<exists>v. asc ''actions='' @ v \<in> set fs \<and> c \<in> set (split_on 44 v) \<and> c \<noteq> []}"
proof (induction fs arbitrary: d)
  case Nil
  then show ?case by simp
next
  case (Cons f fs)
  then obtain u where u: "parse_field f d = Inr u" "parse_fields fs u = Inr d'"
    by (auto simp: and_then_eq_Inr)
  show ?case unfolding Cons.IH[OF u(2)] parse_field_granted[OF u(1)] by auto
qed

lemma parse_entry_granted:
  assumes "parse_entry line = Inr e"
  obtains w fs where "split_whitespace line = w # fs" "fingerprint_from_str w = Inr (ac_fingerprint e)"
    "ac_actions e = {c. \<exists>v. asc ''actions='' @ v \<in> set fs \<and> c \<in> set (split_on 44 v) \<and> c \<noteq> []}"
proof -
  obtain w fs d where "split_whitespace line = w # fs" "fingerprint_from_str w = Inr (ac_fingerprint e)"
    "parse_fields fs \<lparr>d_observe = None, d_actions = None, d_label = None\<rparr> = Inr d"
    "ac_actions e = granted d"
    using assms by (auto simp: parse_entry_def and_then_eq_Inr granted_def
        split: list.splits sum.splits)
  then show ?thesis using parse_fields_granted that by (auto simp: granted_def)
qed

section \<open>Printing and reading back\<close>

definition client_ok :: "AuthorizedClient \<Rightarrow> bool" where
  "client_ok e \<longleftrightarrow>
     length (ac_fingerprint e) = 32 \<and> finite (ac_actions e) \<and>
     (\<forall>a \<in> ac_actions e. grant_ok a) \<and> pred_option no_space (ac_label e)"

definition draft_ok :: "draft \<Rightarrow> bool" where
  "draft_ok d \<longleftrightarrow>
     finite (granted d) \<and> (\<forall>a \<in> granted d. grant_ok a) \<and> pred_option no_space (d_label d)"

lemma parse_field_ok:
  assumes "parse_field f d = Inr d'" and "no_space f" and "draft_ok d"
  shows "draft_ok d'"
proof -
  obtain name v where f: "split_once 61 f = Some (name, v)"
    using assms by (auto simp: parse_field_def split: option.splits)
  then have "no_space v" using assms(2) by (auto simp: split_once_Some)
  then show ?thesis
    using assms(1,3) f
    by (auto simp: parse_field_def draft_ok_def granted_def and_then_eq_Inr read_grants_iff
        list_all_iff split: if_splits)
qed

lemma parse_fields_ok:
  "parse_fields fs d = Inr d' \<Longrightarrow> list_all no_space fs \<Longrightarrow> draft_ok d \<Longrightarrow> draft_ok d'"
  by (induction fs arbitrary: d) (auto simp: and_then_eq_Inr dest: parse_field_ok)

lemma parse_entry_ok:
  assumes "parse_entry line = Inr e"
  shows "client_ok e"
proof -
  obtain w fs d where line: "split_whitespace line = w # fs"
    and fp: "fingerprint_from_str w = Inr (ac_fingerprint e)"
    and d: "parse_fields fs \<lparr>d_observe = None, d_actions = None, d_label = None\<rparr> = Inr d"
    and e: "ac_actions e = granted d" "ac_label e = d_label d"
    using assms by (auto simp: parse_entry_def and_then_eq_Inr granted_def
        split: list.splits sum.splits)
  have "list_all no_space fs"
    using split_whitespace_words[of _ line] line by (auto simp: list_all_iff)
  then have "draft_ok d" by (rule parse_fields_ok[OF d]) (simp add: draft_ok_def granted_def)
  then show ?thesis using e fingerprint_from_str_length[OF fp] by (simp add: client_ok_def draft_ok_def)
qed

definition action_words :: "AuthorizedClient \<Rightarrow> ustr list" where
  "action_words e =
     (if ac_actions e = {} then []
      else [asc ''actions='' @ join_with 44 (sorted_list_of_set (ac_actions e))])"

definition label_words :: "AuthorizedClient \<Rightarrow> ustr list" where
  "label_words e = (case ac_label e of None \<Rightarrow> [] | Some l \<Rightarrow> [asc ''label='' @ l])"

definition client_words :: "AuthorizedClient \<Rightarrow> ustr list" where
  "client_words e =
     show_fingerprint (ac_fingerprint e) #
     (if ac_observe e then asc ''observe=true'' else asc ''observe=false'') #
     action_words e @ label_words e"

lemma client_line_words: "client_line e = join_with 32 (client_words e)"
  by (cases "ac_label e")
    (simp_all add: client_line_def client_words_def action_words_def label_words_def)

lemma join_no_space: "\<not> is_whitespace c \<Longrightarrow> list_all no_space ws \<Longrightarrow> no_space (join_with c ws)"
  by (induction c ws rule: join_with.induct) auto

lemma client_words_ok:
  assumes "client_ok e"
  shows "client_words e \<noteq> []" and "\<forall>w \<in> set (client_words e). no_space w \<and> w \<noteq> []"
proof -
  have "no_space (join_with 44 (sorted_list_of_set (ac_actions e)))"
    using assms grant_ok_word(2)
    by (intro join_no_space) (auto simp: client_ok_def list_all_iff is_whitespace_def)
  then show "\<forall>w \<in> set (client_words e). no_space w \<and> w \<noteq> []"
    using assms show_fingerprint_word
    by (cases "ac_label e") (auto simp: client_words_def action_words_def label_words_def
        client_ok_def is_whitespace_def)
  show "client_words e \<noteq> []" by (simp add: client_words_def)
qed

lemma parse_field_named:
  assumes "61 \<notin> set name"
  shows "split_once 61 (name @ 61 # v) = Some (name, v)"
  by (rule split_once_append[OF assms])

lemma grants_read_back:
  assumes "client_ok e" and "ac_actions e \<noteq> {}"
  shows "read_grants (filter (\<lambda>i. i \<noteq> []) (split_on 44 (join_with 44 (sorted_list_of_set (ac_actions e))))) {}
    = Inr (ac_actions e)"
proof -
  let ?ids = "sorted_list_of_set (ac_actions e)"
  have ids: "?ids \<noteq> []" "set ?ids = ac_actions e" using assms by (auto simp: client_ok_def)
  have ok: "\<forall>i \<in> set ?ids. grant_ok i" using assms(1) ids by (simp add: client_ok_def)
  then have "split_on 44 (join_with 44 ?ids) = ?ids"
    using ids(1) grant_ok_word(3) by (intro split_on_join) auto
  moreover have "filter (\<lambda>i. i \<noteq> []) ?ids = ?ids"
    using ok grant_ok_word(1) by (auto simp: filter_id_conv)
  ultimately show ?thesis using ids(2) ok by (simp add: read_grants_iff list_all_iff)
qed

lemma client_eta:
  "\<lparr>ac_fingerprint = ac_fingerprint e, ac_label = ac_label e, ac_observe = ac_observe e,
    ac_actions = ac_actions e\<rparr> = (e :: AuthorizedClient)"
  by simp

lemma parse_client_line:
  assumes "client_ok e"
  shows "parse_entry (client_line e) = Inr e"
proof -
  note words = client_words_ok[OF assms]
  have split: "split_whitespace (client_line e) = client_words e"
    unfolding client_line_words by (rule split_whitespace_join[OF words(2)])
  have fp: "fingerprint_from_str (show_fingerprint (ac_fingerprint e)) = Inr (ac_fingerprint e)"
    by (rule fingerprint_print_parse) (use assms in \<open>simp add: client_ok_def\<close>)
  have actions: "parse_fields (action_words e @ ws) \<lparr>d_observe = ob, d_actions = None, d_label = None\<rparr> =
      parse_fields ws \<lparr>d_observe = ob, 
        d_actions = (if ac_actions e = {} then None else Some (ac_actions e)), d_label = None\<rparr>" for ws ob
    using grants_read_back[OF assms] by (simp add: action_words_def parse_field_def)
  have label: "parse_fields (label_words e) \<lparr>d_observe = ob, d_actions = ac, d_label = None\<rparr> =
      Inr \<lparr>d_observe = ob, d_actions = ac, d_label = ac_label e\<rparr>" for ob ac
    by (cases "ac_label e") (simp_all add: label_words_def parse_field_def)
  show ?thesis
    by (simp add: parse_entry_def split client_words_def fp actions label parse_field_def client_eta)
qed

lemma content_client_lines:
  assumes "list_all client_ok es"
  shows "content_lines (map client_line es) = map client_line es"
    and "str_lines (concat (map (\<lambda>e. client_line e @ [10]) es)) = map client_line es"
proof -
  have line: "trim (client_line e) = client_line e" "client_line e \<noteq> []" "hd (client_line e) \<noteq> 35"
    "str_lines (client_line e @ 10 # r) = client_line e # str_lines r" if "client_ok e" for e r
  proof -
    note w = word_line[OF client_words_ok[OF that], folded client_line_words]
    show "trim (client_line e) = client_line e" "client_line e \<noteq> []" using w by simp_all
    show "hd (client_line e) \<noteq> 35" using w(5) by (simp add: client_words_def show_fingerprint_def)
    show "str_lines (client_line e @ 10 # r) = client_line e # str_lines r"
      using str_lines_line[OF w(1)] w(2) by simp
  qed
  show "content_lines (map client_line es) = map client_line es"
    using assms by (induction es) (simp_all add: line)
  show "str_lines (concat (map (\<lambda>e. client_line e @ [10]) es)) = map client_line es"
    using assms by (induction es) (simp_all add: line)
qed

lemma clients_header_lines:
  "content_lines (str_lines (clients_header @ s)) = content_lines (str_lines s)"
proof -
  have line: "content_lines (str_lines (l @ 10 # r)) = content_lines (str_lines r)"
    if "10 \<notin> set l" "l \<noteq> []" "hd l = 35" "last l \<noteq> 13" for l r
    using that trim_keeps_head[of l] by (simp add: str_lines_line strip_cr_id is_whitespace_def)
  have assoc: "clients_header @ s =
     asc ''# ono authorized clients: one line per client key, strictly parsed (v0.4.1 section 9.2).'' @ 10 #
     (asc ''# `<sha256 fingerprint> observe=<true|false> [actions=<id>,<id>'' @ [0x2026] @
       asc ''] [label=<name>]`'') @ 10 #
     asc ''# An action grant names one exact capability id; there is no wildcard and no risk class.'' @ 10 #
     asc ''# A malformed line refuses the whole file: this store is never read as an empty one.'' @ 10 # s"
    unfolding clients_header_def append_assoc append_Cons append_Nil ..
  show ?thesis
    unfolding assoc
    by (subst line, simp, simp, simp, simp, subst line, simp, simp, simp, simp,
        subst line, simp, simp, simp, simp, subst line, simp_all)
qed

lemma parse_render_clients:
  assumes "list_all client_ok es" and "distinct (map ac_fingerprint es)"
  shows "parse_clients i (str_lines (render_clients es)) [] = Inr es"
proof -
  have "map parse_entry (map client_line es) = map Inr es"
    using assms(1) by (induction es) (simp_all add: parse_client_line)
  then show ?thesis
    unfolding parse_clients_iff render_clients_def clients_header_lines
      content_client_lines[OF assms(1)]
    using assms(2) by simp
qed

section \<open>What a client may do\<close>

text \<open>
  The list is read strictly: it opens exactly when every line that is neither blank nor a
  comment is an entry and no two entries name one key, and then it holds those entries in the
  order of the lines.  A file that is not there opens as a list of nobody that says it is
  absent; any other read error refuses the store.
\<close>

theorem clients_read_strictly:
  "open_clients fault path d = Inr cs \<longleftrightarrow>
     clients_path cs = Some path \<and>
     (if fault = None \<and> stored d \<noteq> None
      then clients_present cs \<and>
        map parse_entry (content_lines (str_lines (the (stored d)))) = map Inr (clients_entries cs) \<and>
        distinct (map ac_fingerprint (clients_entries cs))
      else (fault = None \<or> fault = Some NotFound) \<and> \<not> clients_present cs \<and> clients_entries cs = [])"
proof -
  have eta: "cs = \<lparr>clients_entries = es, clients_path = p, clients_present = b\<rparr> \<longleftrightarrow>
      clients_entries cs = es \<and> clients_path cs = p \<and> clients_present cs = b" for es p b
    by (cases cs) auto
  show ?thesis
    by (auto simp: open_clients_def and_then_eq_Inr parse_clients_iff eta[symmetric] eq_commute[of _ cs]
        split: option.splits)
qed

lemma find_distinct:
  assumes "distinct (map k es)"
  shows "find (\<lambda>e. k e = x) es = Some e \<longleftrightarrow> e \<in> set es \<and> k e = x"
  using assms by (induction es) (auto intro: rev_image_eqI)

text \<open>
  C37: An action is permitted to an admitted client exactly when its id is written out, as one of
  the comma-separated ids of the \<open>actions\<close> field, on the line of the file that begins with the
  client's fingerprint.
\<close>

theorem action_allowed_iff_written:
  assumes "open_clients None path d = Inr cs" and "stored d = Some s"
    and "fst (authorize now n fp cs) = Inr ctx"
  shows "require_action (Policy ctx) (Some cap) = Inr () \<longleftrightarrow>
     (\<exists>line w fs v. line \<in> set (content_lines (str_lines s)) \<and>
        split_whitespace line = w # fs \<and> fingerprint_from_str w = Inr fp \<and>
        asc ''actions='' @ v \<in> set fs \<and> cap \<in> set (split_on 44 v) \<and> cap \<noteq> [])"
    (is "_ = ?written")
proof -
  let ?lines = "content_lines (str_lines s)" and ?es = "clients_entries cs"
  have es: "map parse_entry ?lines = map Inr ?es" "distinct (map ac_fingerprint ?es)"
    using assms(1,2) by (auto simp: open_clients_def and_then_eq_Inr parse_clients_iff)
  obtain e where e: "client fp cs = Some e" "allowed_action_capabilities ctx = ac_actions e"
    using assms(3) by (auto simp: authorize_def context_of_def split: option.splits)
  have in_es: "x \<in> set ?es \<longleftrightarrow> (\<exists>l \<in> set ?lines. parse_entry l = Inr x)" for x
  proof -
    have "parse_entry ` set ?lines = Inr ` set ?es" using arg_cong[OF es(1), of set] by simp
    then have "x \<in> set ?es \<longleftrightarrow> Inr x \<in> parse_entry ` set ?lines" by auto
    then show ?thesis by (metis image_iff)
  qed
  have unique: "x = e" if "x \<in> set ?es" "ac_fingerprint x = fp" for x
    using iffD2[OF find_distinct[OF es(2)] conjI[OF that]] e(1) by (simp add: client_def)
  have e_in: "e \<in> set ?es" "ac_fingerprint e = fp"
    using e(1) find_distinct[OF es(2), of fp e] by (auto simp: client_def)
  have "cap \<in> ac_actions e \<longleftrightarrow> ?written"
  proof
    assume cap: "cap \<in> ac_actions e"
    obtain l where l: "l \<in> set ?lines" "parse_entry l = Inr e" using e_in(1) in_es by blast
    obtain w fs where "split_whitespace l = w # fs" "fingerprint_from_str w = Inr (ac_fingerprint e)"
      "ac_actions e = {c. \<exists>v. asc ''actions='' @ v \<in> set fs \<and> c \<in> set (split_on 44 v) \<and> c \<noteq> []}"
      by (rule parse_entry_granted[OF l(2)])
    then show ?written using cap l(1) e_in(2) by blast
  next
    assume ?written
    then obtain l w fs v where l: "l \<in> set ?lines" "split_whitespace l = w # fs"
      "fingerprint_from_str w = Inr fp" "asc ''actions='' @ v \<in> set fs"
      "cap \<in> set (split_on 44 v)" "cap \<noteq> []" by blast
    have "parse_entry l \<in> set (map parse_entry ?lines)" using l(1) by simp
    then obtain x where x: "parse_entry l = Inr x" unfolding es(1) by auto
    obtain w' fs' where "split_whitespace l = w' # fs'" "fingerprint_from_str w' = Inr (ac_fingerprint x)"
      "ac_actions x = {c. \<exists>v. asc ''actions='' @ v \<in> set fs' \<and> c \<in> set (split_on 44 v) \<and> c \<noteq> []}"
      by (rule parse_entry_granted[OF x])
    then have "ac_fingerprint x = fp" "cap \<in> ac_actions x" using l by auto
    moreover have "x \<in> set ?es" using in_es l(1) x by blast
    ultimately show "cap \<in> ac_actions e" using unique by blast
  qed
  then show ?thesis by (simp add: require_action_def e(2))
qed

definition sample_client :: AuthorizedClient where
  "sample_client = \<lparr>ac_fingerprint = replicate 32 7, ac_label = None, ac_observe = True,
     ac_actions = {asc ''process.signal'', asc ''service.manage''}\<rparr>"

lemma sample_client_ok: "client_ok sample_client"
proof -
  have "grant_ok (asc ''process.signal'')" "grant_ok (asc ''service.manage'')" by code_simp+
  then show ?thesis by (simp add: sample_client_def client_ok_def del: asc_Cons)
qed

lemma sample_clients_open:
  "open_clients None path \<lparr>stored = Some (render_clients [sample_client]), temporary = None\<rparr> =
     Inr \<lparr>clients_entries = [sample_client], clients_path = Some path, clients_present = True\<rparr>"
  using parse_render_clients[of "[sample_client]"] sample_client_ok by (simp add: open_clients_def)

theorem action_allowed_iff_written_witness:
  "require_action (Policy (fst (context_of 0 1 sample_client))) (Some (asc ''service.manage'')) = Inr () \<and>
   (\<exists>line w fs v. line \<in> set (content_lines (str_lines (render_clients [sample_client]))) \<and>
      split_whitespace line = w # fs \<and> fingerprint_from_str w = Inr (replicate 32 7) \<and>
      asc ''actions='' @ v \<in> set fs \<and> asc ''service.manage'' \<in> set (split_on 44 v) \<and>
      asc ''service.manage'' \<noteq> [])"
proof -
  have admitted: "fst (authorize 0 1 (replicate 32 7)
      \<lparr>clients_entries = [sample_client], clients_path = Some [], clients_present = True\<rparr>) =
      Inr (fst (context_of 0 1 sample_client))"
    by (simp add: authorize_def client_def case_prod_beta sample_client_def)
  have allowed: "require_action (Policy (fst (context_of 0 1 sample_client))) (Some (asc ''service.manage'')) = Inr ()"
    by (simp add: require_action_def context_of_def sample_client_def)
  then show ?thesis
    using action_allowed_iff_written[OF sample_clients_open _ admitted, of "render_clients [sample_client]"]
    by simp
qed

section \<open>The commands refine a map\<close>

text \<open>
  The three commands as events, with what the file system answers: the list is abstractly a
  partial map from fingerprints to clients.
\<close>

datatype client_op =
    AddClient ustr "ustr option"
  | SetClient ustr "ustr option" "bool option" "ustr option"
  | RevokeClient ustr

fun op_label :: "client_op \<Rightarrow> ustr option" where
  "op_label (AddClient _ l) = l"
| "op_label (SetClient _ _ _ l) = l"
| "op_label (RevokeClient _) = None"

fun run_client_op ::
  "io_kind option \<Rightarrow> io_new \<Rightarrow> client_op \<Rightarrow> agent_home \<Rightarrow> (auth_error + bool) \<times> agent_home" where
  "run_client_op fault io (AddClient fp l) home =
     (let (r, h) = authorize_client fault io fp l home in (map_sum id (\<lambda>_. True) r, h))"
| "run_client_op fault io (SetClient fp allow ob l) home = set_client_key fault io fp allow ob l home"
| "run_client_op fault io (RevokeClient fp) home =
     (let (r, h) = revoke_client fault io fp home in (map_sum id (\<lambda>_. True) r, h))"

type_synonym client_event = "io_kind option \<times> io_new \<times> client_op"

definition command_step :: "agent_home \<Rightarrow> client_event \<Rightarrow> agent_home option" where
  "command_step home ev =
     (case ev of (fault, io, op) \<Rightarrow>
        if fault \<noteq> Some NotFound \<and> pred_option no_space (op_label op)
        then (case run_client_op fault io op home of (Inl _, _) \<Rightarrow> None | (Inr _, home') \<Rightarrow> Some home')
        else None)"

definition listed :: "agent_home \<Rightarrow> fingerprint \<Rightarrow> AuthorizedClient option" where
  "listed home f =
     (case open_authorized_clients None home of Inl _ \<Rightarrow> None | Inr cs \<Rightarrow> client f cs)"

definition readable :: "agent_home \<Rightarrow> bool" where
  "readable home \<longleftrightarrow>
     home_path home \<noteq> None \<and> (case open_authorized_clients None home of Inl _ \<Rightarrow> False | Inr _ \<Rightarrow> True)"

fun map_step ::
  "(fingerprint \<Rightarrow> AuthorizedClient option) \<Rightarrow> client_op \<Rightarrow> (fingerprint \<Rightarrow> AuthorizedClient option) option"
where
  "map_step m (AddClient fp l) =
     (case fingerprint_from_str fp of
        Inl _ \<Rightarrow> None
      | Inr f \<Rightarrow> if m f = None then Some (m(f \<mapsto> (observing f)\<lparr>ac_label := l\<rparr>)) else None)"
| "map_step m (SetClient fp allow ob l) =
     (case (fingerprint_from_str fp, case allow of None \<Rightarrow> Inr None | Some a \<Rightarrow> map_sum id Some (allow_list a)) of
        (Inr f, Inr g) \<Rightarrow> map_option (\<lambda>e. m(f \<mapsto> changed_client g ob l e)) (m f)
      | _ \<Rightarrow> None)"
| "map_step m (RevokeClient fp) =
     (case fingerprint_from_str fp of
        Inl _ \<Rightarrow> None
      | Inr f \<Rightarrow> if m f = None then None else Some (m(f := None)))"

lemma find_replace:
  assumes "k entry = y"
  shows "find (\<lambda>e. k e = x) (map (\<lambda>e. if k e = y then entry else e) es) =
     (if x = y then map_option (\<lambda>_. entry) (find (\<lambda>e. k e = x) es) else find (\<lambda>e. k e = x) es)"
  using assms by (induction es) auto

lemma find_snoc:
  "find P (xs @ [x]) = (case find P xs of Some y \<Rightarrow> Some y | None \<Rightarrow> if P x then Some x else None)"
  by (induction xs) auto

lemma find_filter_key:
  "find (\<lambda>e. k e = x) (filter (\<lambda>e. k e \<noteq> y) es) = (if x = y then None else find (\<lambda>e. k e = x) es)"
  by (induction es) auto

lemma write_store_cases:
  "fst (write_store io es d) = Inr () \<Longrightarrow> snd (write_store io es d) = \<lparr>stored = Some (render_clients es), temporary = None\<rparr>"
  "fst (write_store io es d) = Inl e \<Longrightarrow> stored (snd (write_store io es d)) = stored d"
  by (auto simp: write_store_def Let_def split: option.splits if_splits prod.splits)

lemma opened_entries:
  assumes "open_authorized_clients fault home = Inr cs"
  shows "list_all client_ok (clients_entries cs)" and "distinct (map ac_fingerprint (clients_entries cs))"
proof -
  have "list_all client_ok es" if "map parse_entry ls = map Inr es" for ls es
    using that by (induction es arbitrary: ls) (auto simp: Cons_eq_map_conv parse_entry_ok)
  then show "list_all client_ok (clients_entries cs)"
    "distinct (map ac_fingerprint (clients_entries cs))"
    using assms by (auto simp: open_authorized_clients_def open_clients_def empty_clients_def
        and_then_eq_Inr parse_clients_iff split: option.splits if_splits)
qed

lemma opened_now:
  assumes "open_authorized_clients fault home = Inr cs" and "fault \<noteq> Some NotFound" and "readable home"
  shows "open_authorized_clients None home = Inr cs" and "listed home = (\<lambda>f. client f cs)"
proof -
  show *: "open_authorized_clients None home = Inr cs"
    using assms by (auto simp: open_authorized_clients_def open_clients_def readable_def
        split: option.splits if_splits)
  show "listed home = (\<lambda>f. client f cs)" by (simp add: listed_def * fun_eq_iff)
qed

lemma committed:
  assumes "readable home" and "list_all client_ok es" and "distinct (map ac_fingerprint es)"
    and "persist_authorized io es home = (Inr (), home')"
  shows "readable home'" and "listed home' = (\<lambda>f. find (\<lambda>e. ac_fingerprint e = f) es)"
proof -
  obtain p where p: "home_path home = Some p" using assms(1) by (auto simp: readable_def)
  have "fst (write_store io es (home_disk home)) = Inr ()"
    and home': "home' = home\<lparr>home_disk := snd (write_store io es (home_disk home))\<rparr>"
    using assms(4) p by (auto simp: persist_authorized_def case_prod_beta)
  then have "home_disk home' = \<lparr>stored = Some (render_clients es), temporary = None\<rparr>"
    using write_store_cases(1) by simp
  then have "open_authorized_clients None home' =
      Inr \<lparr>clients_entries = es, clients_path = Some p, clients_present = True\<rparr>"
    using parse_render_clients[OF assms(2,3)] p home'
    by (simp add: open_authorized_clients_def open_clients_def)
  then show "readable home'" "listed home' = (\<lambda>f. find (\<lambda>e. ac_fingerprint e = f) es)"
    using p home' by (simp_all add: readable_def listed_def client_def fun_eq_iff)
qed

lemma observing_label:
  "(case l of None \<Rightarrow> observing f | Some l \<Rightarrow> (observing f)\<lparr>ac_label := Some l\<rparr>) =
     (observing f)\<lparr>ac_label := l\<rparr>"
  by (cases l) (simp_all add: observing_def)

lemma add_refines:
  assumes "readable home" and "fault \<noteq> Some NotFound" and "pred_option no_space l"
    and "authorize_client fault io fp l home = (Inr (), home')"
  shows "readable home' \<and> map_step (listed home) (AddClient fp l) = Some (listed home')"
proof -
  obtain f cs where f: "fingerprint_from_str fp = Inr f"
    and cs: "open_authorized_clients fault home = Inr cs" "client f cs = None"
    and commit: "persist_authorized io (clients_entries cs @ [(observing f)\<lparr>ac_label := l\<rparr>]) home = (Inr (), home')"
    using assms(4) by (auto simp: authorize_client_def observing_label Let_def split: sum.splits if_splits)
  note now = opened_now[OF cs(1) assms(2,1)] and old = opened_entries[OF cs(1)]
  have "client_ok ((observing f)\<lparr>ac_label := l\<rparr>)"
    using fingerprint_from_str_length[OF f] assms(3) by (simp add: client_ok_def observing_def)
  moreover have "ac_fingerprint e \<noteq> f" if "e \<in> set (clients_entries cs)" for e
    using cs(2) that by (auto simp: client_def find_None_iff)
  ultimately have "list_all client_ok (clients_entries cs @ [(observing f)\<lparr>ac_label := l\<rparr>])"
    and "distinct (map ac_fingerprint (clients_entries cs @ [(observing f)\<lparr>ac_label := l\<rparr>]))"
    using old by (auto simp: observing_def)
  note new = committed[OF assms(1) this commit]
  have "listed home' = (listed home)(f \<mapsto> (observing f)\<lparr>ac_label := l\<rparr>)"
    using cs(2) unfolding new now(2)
    by (auto simp: fun_eq_iff client_def find_snoc observing_def split: option.splits)
  then show ?thesis using new(1) f cs(2) now(2) by simp
qed

lemma revoke_refines:
  assumes "readable home" and "fault \<noteq> Some NotFound"
    and "revoke_client fault io fp home = (Inr (), home')"
  shows "readable home' \<and> map_step (listed home) (RevokeClient fp) = Some (listed home')"
proof -
  obtain f cs where f: "fingerprint_from_str fp = Inr f"
    and cs: "open_authorized_clients fault home = Inr cs" "client f cs \<noteq> None"
    and commit: "persist_authorized io (filter (\<lambda>e. ac_fingerprint e \<noteq> f) (clients_entries cs)) home
      = (Inr (), home')"
    using assms(3) by (auto simp: revoke_client_def split: sum.splits if_splits)
  note now = opened_now[OF cs(1) assms(2,1)] and old = opened_entries[OF cs(1)]
  have "list_all client_ok (filter (\<lambda>e. ac_fingerprint e \<noteq> f) (clients_entries cs))"
    and "distinct (map ac_fingerprint (filter (\<lambda>e. ac_fingerprint e \<noteq> f) (clients_entries cs)))"
    using old by (auto simp: list_all_iff distinct_map_filter)
  note new = committed[OF assms(1) this commit]
  have "listed home' = (listed home)(f := None)"
    unfolding new now(2) by (auto simp: fun_eq_iff client_def find_filter_key)
  then show ?thesis using new(1) f cs(2) now(2) by simp
qed

lemma changed_client_ok:
  assumes "client_ok e" and "pred_option no_space l"
    and "(case allow of None \<Rightarrow> Inr None | Some a \<Rightarrow> map_sum id Some (allow_list a)) = Inr g"
  shows "client_ok (changed_client g ob l e)"
    and "ac_fingerprint (changed_client g ob l e) = ac_fingerprint e"
proof -
  have "pred_option (\<lambda>g. finite g \<and> (\<forall>a \<in> g. grant_ok a)) g"
  proof (cases allow)
    case None
    then show ?thesis using assms(3) by simp
  next
    case (Some a)
    then obtain g' where "allow_list a = Inr g'" "g = Some g'"
      using assms(3) by (cases "allow_list a") auto
    then show ?thesis by (auto simp: allow_list_def read_grants_iff list_all_iff)
  qed
  then show "client_ok (changed_client g ob l e)"
    "ac_fingerprint (changed_client g ob l e) = ac_fingerprint e"
    using assms(1,2) by (cases g; cases ob; cases l; simp add: changed_client_def client_ok_def)+
qed

lemma set_refines:
  assumes "readable home" and "fault \<noteq> Some NotFound" and "pred_option no_space l"
    and "set_client_key fault io fp allow ob l home = (Inr changed, home')"
  shows "readable home' \<and> map_step (listed home) (SetClient fp allow ob l) = Some (listed home')"
proof -
  obtain f cs e g where f: "fingerprint_from_str fp = Inr f"
    and cs: "open_authorized_clients fault home = Inr cs" "client f cs = Some e"
    and g: "(case allow of None \<Rightarrow> Inr None | Some a \<Rightarrow> map_sum id Some (allow_list a)) = Inr g"
    and run: "(let entry = changed_client g ob l e in
       if entry = e then (Inr False, home)
       else (let (r, home') = persist_authorized io
               (map (\<lambda>e. if ac_fingerprint e = f then entry else e) (clients_entries cs)) home
             in (and_then r (\<lambda>_. Inr True), home'))) = (Inr changed, home')"
    using assms(4) by (auto simp: set_client_key_def split: sum.splits option.splits)
  note now = opened_now[OF cs(1) assms(2,1)] and old = opened_entries[OF cs(1)]
  let ?new = "changed_client g ob l e"
  have e: "e \<in> set (clients_entries cs)" "ac_fingerprint e = f"
    using cs(2) find_distinct[OF old(2)] by (auto simp: client_def)
  have "client_ok e" using e(1) old(1) by (simp add: list_all_iff)
  note new_ok = changed_client_ok[OF this assms(3) g, of ob]
  have spec: "map_step (listed home) (SetClient fp allow ob l) = Some ((listed home)(f \<mapsto> ?new))"
    using f g cs(2) now(2) by simp
  show ?thesis
  proof (cases "?new = e")
    case True
    then have "home' = home" using run by simp
    then show ?thesis using spec True assms(1) cs(2) now(2) by (simp add: fun_upd_idem)
  next
    case False
    let ?es = "map (\<lambda>e. if ac_fingerprint e = f then ?new else e) (clients_entries cs)"
    have commit: "persist_authorized io ?es home = (Inr (), home')"
      using run False by (auto simp: Let_def and_then_eq_Inr split: prod.splits)
    have "map ac_fingerprint ?es = map ac_fingerprint (clients_entries cs)"
      using new_ok(2) e(2) by auto
    then have distinct: "distinct (map ac_fingerprint ?es)" using old(2) by (simp only:)
    have ok: "list_all client_ok ?es" using old(1) new_ok(1) by (auto simp: list_all_iff)
    note new = committed[OF assms(1) ok distinct commit]
    have "listed home' = (listed home)(f \<mapsto> ?new)"
      unfolding new now(2) using new_ok(2) e(2) cs(2)
      by (auto simp: fun_eq_iff client_def find_replace[where k = ac_fingerprint])
    then show ?thesis using spec new(1) by simp
  qed
qed

interpretation client_list: functional_refinement
  command_step "\<lambda>m e. map_step m (snd (snd e))" listed readable
proof -
  have "readable c' \<and> map_step (listed c) (snd (snd e)) = Some (listed c')"
    if "readable c" "command_step c e = Some c'" for c e c'
  proof -
    obtain fault io op where e: "e = (fault, io, op)" by (cases e)
    have step: "fault \<noteq> Some NotFound" "pred_option no_space (op_label op)"
      and run: "\<exists>b. run_client_op fault io op c = (Inr b, c')"
      using that(2) by (auto simp: command_step_def e split: if_splits prod.splits sum.splits)
    show ?thesis
    proof (cases op)
      case (AddClient fp l)
      then have "authorize_client fault io fp l c = (Inr (), c')"
        using run by (auto simp: case_prod_beta map_sum_def prod_eq_iff split: sum.splits)
      then show ?thesis using add_refines[OF that(1) step(1)] step(2) AddClient e by simp
    next
      case (SetClient fp allow ob l)
      then show ?thesis using run set_refines[OF that(1) step(1)] step(2) e by auto
    next
      case (RevokeClient fp)
      then have "revoke_client fault io fp c = (Inr (), c')"
        using run by (auto simp: case_prod_beta map_sum_def prod_eq_iff split: sum.splits)
      then show ?thesis using revoke_refines[OF that(1) step(1)] RevokeClient e by simp
    qed
  qed
  then show "functional_refinement command_step (\<lambda>m e. map_step m (snd (snd e))) listed readable"
    by unfold_locales blast+
qed


definition io_new_ok :: io_new where
  "io_new_ok = \<lparr>io_mkdir = None, io_create = None, io_write = None, io_sync = None,
     io_rename = None, io_removed = True, io_cleaned = True\<rparr>"

definition sample_home :: agent_home where
  "sample_home = \<lparr>home_path = Some [], home_disk = \<lparr>stored = None, temporary = None\<rparr>\<rparr>"

lemma sample_home_ok: "readable sample_home" "listed sample_home = (\<lambda>_. None)"
  by (simp_all add: readable_def listed_def client_def sample_home_def open_authorized_clients_def
      open_clients_def fun_eq_iff)

lemma sample_add:
  "authorize_client None io_new_ok (show_fingerprint (replicate 32 7)) l sample_home =
     (Inr (), sample_home\<lparr>home_disk := \<lparr>stored = Some (render_clients
        [(observing (replicate 32 7))\<lparr>ac_label := l\<rparr>]), temporary = None\<rparr>\<rparr>)"
  using fingerprint_print_parse[of "replicate 32 7"]
  by (simp add: authorize_client_def observing_label sample_home_def open_authorized_clients_def
      open_clients_def client_def persist_authorized_def write_store_def io_new_ok_def)


text \<open>
  A command that fails, on whatever branch and whatever the file system did, leaves the list
  as it was.
\<close>

theorem failed_command_keeps_list:
  assumes "fst (run_client_op fault io op home) = Inl e"
  shows "stored (home_disk (snd (run_client_op fault io op home))) = stored (home_disk home)"
proof -
  have keep: "stored (home_disk (snd (persist_authorized io es home))) = stored (home_disk home)"
    if "fst (persist_authorized io es home) = Inl x" for es x
    using that write_store_cases(2)[of io es "home_disk home"]
    by (auto simp: persist_authorized_def case_prod_beta split: option.splits)
  show ?thesis
  proof (cases op)
    case (AddClient fp l)
    then obtain y where "fst (authorize_client fault io fp l home) = Inl y"
      using assms by (cases "fst (authorize_client fault io fp l home)") (auto simp: case_prod_beta)
    then have "stored (home_disk (snd (authorize_client fault io fp l home))) = stored (home_disk home)"
      by (auto simp: authorize_client_def Let_def keep split: sum.splits if_splits)
    then show ?thesis using AddClient by (simp add: case_prod_beta)
  next
    case (SetClient fp allow ob l)
    then show ?thesis
      using assms by (auto simp: set_client_key_def case_prod_beta Let_def and_then_eq_Inl keep
          split: sum.splits option.splits if_splits)
  next
    case (RevokeClient fp)
    then obtain y where "fst (revoke_client fault io fp home) = Inl y"
      using assms by (cases "fst (revoke_client fault io fp home)") (auto simp: case_prod_beta)
    then have "stored (home_disk (snd (revoke_client fault io fp home))) = stored (home_disk home)"
      by (auto simp: revoke_client_def Let_def keep split: sum.splits if_splits)
    then show ?thesis using RevokeClient by (simp add: case_prod_beta)
  qed
qed

theorem failed_command_keeps_list_witness:
  "stored (home_disk (snd (run_client_op None (io_new_ok\<lparr>io_sync := Some OtherKind\<rparr>)
     (AddClient (show_fingerprint (replicate 32 7)) None) sample_home))) = stored (home_disk sample_home)"
  by (rule failed_command_keeps_list[where e = "StoreUnwritable OtherKind"])
    (use fingerprint_print_parse[of "replicate 32 7"] in \<open>simp add: authorize_client_def sample_home_def
      open_authorized_clients_def open_clients_def client_def persist_authorized_def write_store_def
      io_new_ok_def Let_def\<close>)

section \<open>Labels are written unchecked\<close>

lemma single_line:
  assumes "client_line e = join_with 32 ws" and "ws \<noteq> []"
    and "\<forall>w \<in> set ws. no_space w \<and> w \<noteq> []" and "hd (hd ws) \<noteq> 35"
  shows "content_lines (str_lines (render_clients [e])) = [client_line e]"
    and "split_whitespace (client_line e) = ws"
proof -
  note line = word_line[OF assms(2,3), folded assms(1)]
  have "str_lines (client_line e @ [10]) = [client_line e]"
    using str_lines_line[OF line(1), of "[]"] line(2) by simp
  then show "content_lines (str_lines (render_clients [e])) = [client_line e]"
    using line(3,4,5) assms(4) by (simp add: render_clients_def clients_header_lines)
  show "split_whitespace (client_line e) = ws"
    unfolding assms(1) by (rule split_whitespace_join[OF assms(3)])
qed

text \<open>
  The label of \<open>add client-key\<close> goes into the file as it is.  A label with a space in it can
  therefore grant an action the command promises not to grant, and one that is not a field
  leaves a store that no longer opens.
\<close>

lemma label_grants_action:
  "let home' = snd (authorize_client None io_new_ok (show_fingerprint (replicate 32 7))
       (Some (asc ''x actions=service.manage'')) sample_home)
   in map_option ac_actions (listed home' (replicate 32 7)) = Some {asc ''service.manage''}"
proof -
  let ?e = "(observing (replicate 32 7))\<lparr>ac_label := Some (asc ''x actions=service.manage'')\<rparr>"
  let ?ws = "[show_fingerprint (replicate 32 7), asc ''observe=true'', asc ''label=x'',
    asc ''actions=service.manage'']"
  have line: "client_line ?e = join_with 32 ?ws" by (simp add: client_line_def observing_def)
  have words: "\<forall>w \<in> set ?ws. no_space w \<and> w \<noteq> []"
    using show_fingerprint_word by (simp add: is_whitespace_def)
  have hash: "hd (hd ?ws) \<noteq> 35" by (simp add: show_fingerprint_def)
  note single = single_line[OF line _ words hash, simplified]
  have grant: "read_grants (filter (\<lambda>i. i \<noteq> []) (split_on 44 (asc ''service.manage''))) {} =
      Inr {asc ''service.manage''}"
    by code_simp
  have "parse_entry (client_line ?e) = Inr \<lparr>ac_fingerprint = replicate 32 7, ac_label = Some (asc ''x''),
      ac_observe = True, ac_actions = {asc ''service.manage''}\<rparr>"
    using grant fingerprint_print_parse[of "replicate 32 7"]
    by (simp add: parse_entry_def single(2) parse_field_def)
  then have "open_clients None [] \<lparr>stored = Some (render_clients [?e]), temporary = None\<rparr> =
      Inr \<lparr>clients_entries = [\<lparr>ac_fingerprint = replicate 32 7, ac_label = Some (asc ''x''),
        ac_observe = True, ac_actions = {asc ''service.manage''}\<rparr>],
        clients_path = Some [], clients_present = True\<rparr>"
    using single(1) by (simp add: open_clients_def and_then_eq_Inr parse_clients_iff)
  then show ?thesis
    unfolding sample_add Let_def snd_conv
    by (simp add: listed_def open_authorized_clients_def sample_home_def client_def)
qed

end
