(* ===== verification/Shell_Lexer.thy ===== *)
theory Shell_Lexer
  imports Ono_Text
begin

text \<open>
  The mode-sensitive lexer of the shell language (\<open>crates/ono-parser/src/lexer.rs\<close>), the spans
  it answers with (\<open>crates/ono-core/src/span.rs\<close>), and the token access of the parser
  (\<open>crates/ono-parser/src/parser/state.rs\<close>).  A source text is a list of code points; the lexer
  reads its UTF-8 bytes by offset, as the source does, and \<open>None\<close> is a panic: slicing the text
  off a character boundary or indexing past its end.  Offsets are cast to 32 bits where the
  source casts them.
\<close>

section \<open>Tokens\<close>

datatype TokenKind =
    Word | Ident | IntLit | FloatLit | UnitLit | StrTok | RawStr | UnterminatedStr | UnterminatedRawStr
  | Ip | Timestamp | Regex | UnterminatedRegex | Variable | CurrentValue
  | Pipe | AndAnd | OrOr | Amp | Semi | Newline | Comma | Colon
  | LParen | RParen | LBracket | RBracket | LBrace | RBrace
  | Gt | GtGt | Lt | GtAmp | LtAmp | EqEq | BangEq | LtEq | GtEq | Match | NotMatch
  | Plus | Minus | Star | Slash | Percent | EqTok | FatArrow | ThinArrow | Dot | QuestionDot | Question
  | Comment | Eof | Unknown

definition is_unterminated :: "TokenKind \<Rightarrow> bool" where
  "is_unterminated k \<longleftrightarrow> k = UnterminatedStr \<or> k = UnterminatedRawStr \<or> k = UnterminatedRegex"

definition is_closing_delimiter :: "TokenKind \<Rightarrow> bool" where
  "is_closing_delimiter k \<longleftrightarrow> k = RParen \<or> k = RBracket \<or> k = RBrace"

record Span =
  span_start :: nat
  span_end :: nat

definition span_new :: "nat \<Rightarrow> nat \<Rightarrow> Span" where
  "span_new a b =
     (if a \<le> b then \<lparr>span_start = a, span_end = b\<rparr> else \<lparr>span_start = b, span_end = a\<rparr>)"

definition span_of :: "Span \<Rightarrow> ustr \<Rightarrow> ustr" where
  "span_of sp source =
     (if span_start sp > span_end sp \<or> span_end sp > blen source then []
      else case str_slice (span_start sp) (span_end sp) source of None \<Rightarrow> [] | Some t \<Rightarrow> t)"

record Token =
  kind :: TokenKind
  span :: Span

datatype LexMode = Words | Expr | ExprOperand

definition as_u32 :: "nat \<Rightarrow> nat" where
  "as_u32 n = n mod 2 ^ 32"

definition token :: "TokenKind \<Rightarrow> nat \<Rightarrow> nat \<Rightarrow> Token" where
  "token k a b = \<lparr>kind = k, span = span_new (as_u32 a) (as_u32 b)\<rparr>"

section \<open>Bytes\<close>

text \<open>The bytes of a source, as numbers, and reading one at an offset.\<close>

definition as_bytes :: "ustr \<Rightarrow> nat list" where
  "as_bytes s = map unat (utf8 s)"

definition byte_at :: "nat list \<Rightarrow> nat \<Rightarrow> nat option" where
  "byte_at bs i = (if i < length bs then Some (bs ! i) else None)"

definition some_and :: "(nat \<Rightarrow> bool) \<Rightarrow> nat option \<Rightarrow> bool" where
  "some_and P x = (case x of None \<Rightarrow> False | Some b \<Rightarrow> P b)"

text \<open>The loop that runs while the byte at the offset satisfies a test.\<close>

function run_while :: "(nat \<Rightarrow> bool) \<Rightarrow> nat list \<Rightarrow> nat \<Rightarrow> nat" where
  "run_while P bs i = (if some_and P (byte_at bs i) then run_while P bs (i + 1) else i)"
  by pat_completeness auto
termination
  by (relation "measure (\<lambda>(P, bs, i). length bs - i)")
    (auto simp: some_and_def byte_at_def split: if_splits)

declare run_while.simps [simp del]

definition is_digit :: "nat \<Rightarrow> bool" where "is_digit b \<longleftrightarrow> 48 \<le> b \<and> b \<le> 57"
definition is_alpha :: "nat \<Rightarrow> bool" where
  "is_alpha b \<longleftrightarrow> (65 \<le> b \<and> b \<le> 90) \<or> (97 \<le> b \<and> b \<le> 122)"
definition is_hexdigit :: "nat \<Rightarrow> bool" where
  "is_hexdigit b \<longleftrightarrow> is_digit b \<or> (65 \<le> b \<and> b \<le> 70) \<or> (97 \<le> b \<and> b \<le> 102)"
definition is_alnum :: "nat \<Rightarrow> bool" where "is_alnum b \<longleftrightarrow> is_alpha b \<or> is_digit b"
definition is_ascii_space :: "nat \<Rightarrow> bool" where
  "is_ascii_space b \<longleftrightarrow> b = 32 \<or> b = 9 \<or> b = 10 \<or> b = 12 \<or> b = 13"

definition is_ident_start :: "nat \<Rightarrow> bool" where "is_ident_start b \<longleftrightarrow> is_alpha b \<or> b = 95"
definition is_ident_continue :: "nat \<Rightarrow> bool" where
  "is_ident_continue b \<longleftrightarrow> is_alnum b \<or> b = 95 \<or> b = 45"

definition WORD_STOPPERS :: "nat list" where
  "WORD_STOPPERS = asc ''|()[]{};,'' @ [39, 34] @ asc ''<>''"

definition is_blank :: "nat \<Rightarrow> bool" where
  "is_blank b \<longleftrightarrow> b = 32 \<or> b = 9 \<or> b = 13"

section \<open>Units\<close>

datatype Unit =
    U_B | U_KiB | U_MiB | U_GiB | U_TiB | U_PiB | U_KB | U_MB | U_GB | U_TB | U_PB
  | U_Ns | U_Us | U_Ms | U_S | U_M | U_H | U_D | U_W | U_Percent

definition UNIT_SUFFIXES :: "(ustr \<times> Unit) list" where
  "UNIT_SUFFIXES =
     [(asc ''KiB'', U_KiB), (asc ''MiB'', U_MiB), (asc ''GiB'', U_GiB), (asc ''TiB'', U_TiB), (asc ''PiB'', U_PiB),
      (asc ''KB'', U_KB), (asc ''MB'', U_MB), (asc ''GB'', U_GB), (asc ''TB'', U_TB), (asc ''PB'', U_PB),
      (asc ''ns'', U_Ns), (asc ''us'', U_Us), (asc ''ms'', U_Ms), (asc ''B'', U_B), (asc ''s'', U_S),
      (asc ''m'', U_M), (asc ''h'', U_H), (asc ''d'', U_D), (asc ''w'', U_W), (asc ''%'', U_Percent)]"

definition starts_with :: "nat list \<Rightarrow> nat list \<Rightarrow> bool" where
  "starts_with rest t \<longleftrightarrow> take (length t) rest = t"

fun suffix_scan :: "nat list \<Rightarrow> nat \<Rightarrow> (ustr \<times> Unit) list \<Rightarrow> (Unit \<times> nat) option" where
  "suffix_scan bs at [] = None"
| "suffix_scan bs at ((t, u) # rest) =
     (if starts_with (drop at bs) t \<and>
         \<not> some_and (\<lambda>b. is_alnum b \<or> b = 95) (byte_at bs (at + length t))
      then Some (u, at + length t)
      else suffix_scan bs at rest)"

definition unit_suffix_at :: "ustr \<Rightarrow> nat \<Rightarrow> (Unit \<times> nat) option" where
  "unit_suffix_at source at =
     (if is_char_boundary source at then suffix_scan (as_bytes source) at UNIT_SUFFIXES else None)"

section \<open>Literals that are not numbers\<close>

fun ipv4_groups :: "nat list \<Rightarrow> nat \<Rightarrow> nat \<Rightarrow> nat \<Rightarrow> nat option" where
  "ipv4_groups bs g 0 i = Some i"
| "ipv4_groups bs g (Suc left) i =
     (if g > 0 \<and> byte_at bs i \<noteq> Some 46 then None
      else
        (let digits_from = (if g > 0 then i + 1 else i);
             j = run_while is_digit bs digits_from
         in if j = digits_from \<or> j - digits_from > 3 then None
            else ipv4_groups bs (g + 1) left j))"

definition ipv4_end :: "nat list \<Rightarrow> nat \<Rightarrow> nat option" where
  "ipv4_end bs start =
     (case ipv4_groups bs 0 4 start of
        None \<Rightarrow> None
      | Some i \<Rightarrow> if byte_at bs i = Some 46 then None else Some i)"

function ipv6_loop :: "nat list \<Rightarrow> nat \<Rightarrow> nat \<Rightarrow> bool \<Rightarrow> nat \<times> nat \<times> bool" where
  "ipv6_loop bs i colons saw_double =
     (case byte_at bs i of
        None \<Rightarrow> (i, colons, saw_double)
      | Some b \<Rightarrow>
          if b = 58 then
            (if byte_at bs (i + 1) = Some 58 then ipv6_loop bs (i + 2) (colons + 2) True
             else ipv6_loop bs (i + 1) (colons + 1) saw_double)
          else if is_hexdigit b \<or> b = 46 then ipv6_loop bs (i + 1) colons saw_double
          else (i, colons, saw_double))"
  by pat_completeness auto
termination
  by (relation "measure (\<lambda>(bs, i, c, d). length bs - i)") (auto simp: byte_at_def split: if_splits)

declare ipv6_loop.simps [simp del]

definition ipv6_end :: "nat list \<Rightarrow> nat \<Rightarrow> nat option" where
  "ipv6_end bs start =
     (case ipv6_loop bs start 0 False of
        (i, colons, saw_double) \<Rightarrow>
          if \<not> saw_double \<and> colons < 2 then None
          else if i = start then None
          else if byte_at bs i = Some 37
            then Some (run_while (\<lambda>b. is_alnum b \<or> b = 95 \<or> b = 45) bs (i + 1))
          else Some i)"

definition address_end :: "nat list \<Rightarrow> nat \<Rightarrow> nat option" where
  "address_end bs start =
     (case ipv4_end bs start of Some e \<Rightarrow> Some e | None \<Rightarrow> ipv6_end bs start)"

fun take_digits :: "nat list \<Rightarrow> nat \<Rightarrow> nat \<Rightarrow> nat option" where
  "take_digits bs i 0 = Some i"
| "take_digits bs i (Suc n) =
     (if some_and is_digit (byte_at bs i) then take_digits bs (i + 1) n else None)"

definition to_lower :: "nat \<Rightarrow> nat" where
  "to_lower b = (if 65 \<le> b \<and> b \<le> 90 then b + 32 else b)"

definition take_literal :: "nat list \<Rightarrow> nat \<Rightarrow> nat \<Rightarrow> nat option" where
  "take_literal bs i b =
     (if some_and (\<lambda>found. to_lower found = to_lower b) (byte_at bs i) then Some (i + 1) else None)"

definition seconds_end :: "nat list \<Rightarrow> nat \<Rightarrow> nat" where
  "seconds_end bs i =
     (case Option.bind (take_literal bs i 58) (\<lambda>at. take_digits bs at 2) of
        None \<Rightarrow> i
      | Some after \<Rightarrow>
          (case take_literal bs after 46 of
             None \<Rightarrow> after
           | Some first \<Rightarrow>
               (let fraction = run_while is_digit bs first
                in if fraction > first then fraction else after)))"

definition zone_end :: "nat list \<Rightarrow> nat \<Rightarrow> nat option" where
  "zone_end bs i =
     (case take_literal bs i 90 of
        Some after \<Rightarrow> Some after
      | None \<Rightarrow>
          Option.bind
            (case take_literal bs i 43 of Some j \<Rightarrow> Some j | None \<Rightarrow> take_literal bs i 45)
            (\<lambda>i. Option.bind (take_digits bs i 2) (\<lambda>i.
              Option.bind (take_literal bs i 58) (\<lambda>i. take_digits bs i 2))))"

definition timestamp_end :: "nat list \<Rightarrow> nat \<Rightarrow> nat option" where
  "timestamp_end bs start =
     Option.bind (take_digits bs start 4) (\<lambda>i.
     Option.bind (take_literal bs i 45) (\<lambda>i.
     Option.bind (take_digits bs i 2) (\<lambda>i.
     Option.bind (take_literal bs i 45) (\<lambda>i.
     Option.bind (take_digits bs i 2) (\<lambda>i.
     Option.bind (take_literal bs i 84) (\<lambda>i.
     Option.bind (take_digits bs i 2) (\<lambda>i.
     Option.bind (take_literal bs i 58) (\<lambda>i.
     Option.bind (take_digits bs i 2) (\<lambda>i.
       zone_end bs (seconds_end bs i))))))))))"

section \<open>Words\<close>

definition at_current_value :: "nat list \<Rightarrow> nat \<Rightarrow> bool" where
  "at_current_value bs i \<longleftrightarrow>
     (case byte_at bs (i + 1) of
        None \<Rightarrow> True
      | Some b \<Rightarrow>
          is_digit b \<or> is_ascii_space b \<or> b \<in> set WORD_STOPPERS \<or>
          (b = 45 \<and> some_and is_digit (byte_at bs (i + 2))) \<or>
          (b = 46 \<and> some_and is_ident_start (byte_at bs (i + 2))))"

lemma run_while_le: "i \<le> run_while P bs i"
  by (induction P bs i rule: run_while.induct) (subst run_while.simps, auto)

function take_dotted_steps :: "nat list \<Rightarrow> nat \<Rightarrow> nat" where
  "take_dotted_steps bs i =
     (if byte_at bs i = Some 46 \<and> some_and is_ident_start (byte_at bs (i + 1))
      then take_dotted_steps bs (run_while is_ident_continue bs (i + 1))
      else i)"
  by pat_completeness auto
termination
proof (relation "measure (\<lambda>(bs, i). length bs - i)", goal_cases)
  case 1
  then show ?case by simp
next
  case (2 bs i)
  then show ?case using run_while_le[of "i + 1" is_ident_continue bs]
    by (auto simp: byte_at_def split: if_splits)
qed

declare take_dotted_steps.simps [simp del]

definition redirect_token :: "nat list \<Rightarrow> nat \<Rightarrow> nat \<Rightarrow> Token" where
  "redirect_token bs start operator =
     (let (k, n) =
        (case (byte_at bs operator, byte_at bs (operator + 1)) of
           (Some a, Some b) \<Rightarrow>
             if a = 62 \<and> b = 62 then (GtGt, 2)
             else if a = 62 \<and> b = 38 then (GtAmp, 2)
             else if a = 62 then (Gt, 1)
             else if a = 60 \<and> b = 38 then (LtAmp, 2)
             else (Lt, 1)
         | (Some a, None) \<Rightarrow> if a = 62 then (Gt, 1) else (Lt, 1)
         | _ \<Rightarrow> (Lt, 1))
      in token k start (operator + n))"

function word_loop :: "nat list \<Rightarrow> nat \<Rightarrow> nat \<Rightarrow> nat" where
  "word_loop bs i braces =
     (case byte_at bs i of
        None \<Rightarrow> i
      | Some b \<Rightarrow>
          if b = 36 \<and> byte_at bs (i + 1) = Some 123 then word_loop bs (i + 2) (braces + 1)
          else if braces > 0 \<and> b = 125 then word_loop bs (i + 1) (braces - 1)
          else if braces > 0 \<and> \<not> is_ascii_space b then word_loop bs (i + 1) braces
          else if b = 92 then
            word_loop bs (if byte_at bs (i + 1) = None then i + 1 else i + 2) braces
          else if is_ascii_space b \<or> b \<in> set WORD_STOPPERS then i
          else word_loop bs (i + 1) braces)"
  by pat_completeness auto
termination
  by (relation "measure (\<lambda>(bs, i, k). length bs - i)") (auto simp: byte_at_def split: if_splits)

declare word_loop.simps [simp del]

definition words_token :: "nat list \<Rightarrow> nat \<Rightarrow> Token" where
  "words_token bs start =
     (let index = run_while is_digit bs start
      in if index > start \<and> some_and (\<lambda>b. b = 62 \<or> b = 60) (byte_at bs index)
           then redirect_token bs start index
         else if some_and (\<lambda>b. b = 62 \<or> b = 60) (byte_at bs start)
           then redirect_token bs start start
         else token Word start (max (word_loop bs start 0) (start + 1)))"

function quoted_loop :: "nat list \<Rightarrow> nat \<Rightarrow> nat \<Rightarrow> nat \<Rightarrow> bool \<Rightarrow> Token" where
  "quoted_loop bs start i quote escapes =
     (case byte_at bs i of
        None \<Rightarrow> token (if escapes then UnterminatedStr else UnterminatedRawStr) start (length bs)
      | Some b \<Rightarrow>
          if escapes \<and> b = 92 then quoted_loop bs start (i + 2) quote escapes
          else if b = quote then token (if escapes then StrTok else RawStr) start (i + 1)
          else quoted_loop bs start (i + 1) quote escapes)"
  by pat_completeness auto
termination
  by (relation "measure (\<lambda>(bs, s, i, q, e). length bs - i)") (auto simp: byte_at_def split: if_splits)

declare quoted_loop.simps [simp del]

definition quoted :: "nat list \<Rightarrow> nat \<Rightarrow> nat \<Rightarrow> bool \<Rightarrow> Token" where
  "quoted bs start quote escapes = quoted_loop bs start (start + 1) quote escapes"

section \<open>Expressions\<close>

function regex_loop :: "nat list \<Rightarrow> nat \<Rightarrow> nat \<Rightarrow> Token" where
  "regex_loop bs start i =
     (case byte_at bs i of
        None \<Rightarrow> token UnterminatedRegex start (length bs)
      | Some b \<Rightarrow>
          if b = 92 then regex_loop bs start (i + 2)
          else if b = 10 then token UnterminatedRegex start i
          else if b = 47 then
            token Regex start
              (run_while (\<lambda>b. b = 105 \<or> b = 109 \<or> b = 115 \<or> b = 120) bs (i + 1))
          else regex_loop bs start (i + 1))"
  by pat_completeness auto
termination
  by (relation "measure (\<lambda>(bs, s, i). length bs - i)") (auto simp: byte_at_def split: if_splits)

declare regex_loop.simps [simp del]

definition regex_token :: "nat list \<Rightarrow> nat \<Rightarrow> Token" where
  "regex_token bs start = regex_loop bs start (start + 1)"

definition digit_of :: "nat \<Rightarrow> bool \<Rightarrow> bool" where
  "digit_of b hex = (if hex then is_hexdigit b else b = 48 \<or> b = 49)"

definition exponent_end :: "nat list \<Rightarrow> TokenKind \<times> nat \<Rightarrow> TokenKind \<times> nat" where
  "exponent_end bs ki =
     (case ki of (k, i) \<Rightarrow>
        if some_and (\<lambda>b. b = 101 \<or> b = 69) (byte_at bs i) then
          (let after_sign =
             (if some_and (\<lambda>b. b = 43 \<or> b = 45) (byte_at bs (i + 1)) then i + 2 else i + 1)
           in if some_and is_digit (byte_at bs after_sign)
              then (FloatLit, run_while is_digit bs after_sign) else (k, i))
        else (k, i))"

definition decimal_end :: "nat list \<Rightarrow> nat \<Rightarrow> TokenKind \<times> nat" where
  "decimal_end bs start =
     (let i = run_while (\<lambda>b. is_digit b \<or> b = 95) bs start
      in exponent_end bs
           (if byte_at bs i = Some 46 \<and> some_and is_digit (byte_at bs (i + 1))
            then (FloatLit, run_while (\<lambda>b. is_digit b \<or> b = 95) bs (i + 1))
            else (IntLit, i)))"

definition number_token :: "ustr \<Rightarrow> nat \<Rightarrow> Token" where
  "number_token source start =
     (let bs = as_bytes source;
          radix_prefix =
            byte_at bs start = Some 48 \<and>
            some_and (\<lambda>b. b = 120 \<or> b = 88 \<or> b = 98 \<or> b = 66) (byte_at bs (start + 1)) \<and>
            some_and is_hexdigit (byte_at bs (start + 2));
          (k, i) =
            (if radix_prefix
             then (IntLit, run_while (\<lambda>b. b = 95 \<or> digit_of b
                     (some_and (\<lambda>b. b = 120 \<or> b = 88) (byte_at bs (start + 1)))) bs (start + 2))
             else decimal_end bs start)
      in case unit_suffix_at source i of
           Some (_, e) \<Rightarrow> token UnitLit start e
         | None \<Rightarrow> token k start i)"

definition operators :: "(ustr \<times> TokenKind) list" where
  "operators =
     [(asc ''!~='', NotMatch), (asc ''?.'', QuestionDot), (asc ''=='', EqEq), (asc ''!='', BangEq),
      (asc ''~='', Match), (asc ''<='', LtEq), (asc ''>='', GtEq), (asc ''=>'', FatArrow),
      (asc ''->'', ThinArrow)]"

definition single_operator :: "nat \<Rightarrow> TokenKind" where
  "single_operator b =
     (if b = 60 then Lt else if b = 62 then Gt else if b = 61 then EqTok else if b = 43 then Plus
      else if b = 45 then Minus else if b = 42 then Star else if b = 47 then Slash
      else if b = 37 then Percent else if b = 46 then Dot else if b = 63 then Question
      else if b = 58 then Colon else Unknown)"

definition expression_token :: "ustr \<Rightarrow> nat \<Rightarrow> LexMode \<Rightarrow> Token option" where
  "expression_token source start mode =
     (let bs = as_bytes source in
      case byte_at bs start of
        None \<Rightarrow> None
      | Some first \<Rightarrow>
          if is_digit first then Some (number_token source start)
          else if first = 45 \<and> byte_at bs (start + 1) = Some 45 \<and>
                  some_and (\<lambda>b. is_alpha b \<or> b = 95) (byte_at bs (start + 2))
            then Some (token Word start (run_while is_ident_continue bs (start + 3)))
          else if is_ident_start first
            then Some (token Ident start (run_while is_ident_continue bs (start + 1)))
          else if first = 47 \<and> mode = ExprOperand then Some (regex_token bs start)
          else
            (case split_at start source of
               None \<Rightarrow> None
             | Some (_, rest) \<Rightarrow>
                 (case find (\<lambda>(t, k). starts_with (drop start bs) t) operators of
                    Some (t, k) \<Rightarrow> Some (token k start (start + length t))
                  | None \<Rightarrow>
                      if single_operator first = Unknown
                      then Some (token Unknown start
                             (start + (case rest of [] \<Rightarrow> 1 | c # _ \<Rightarrow> len_utf8 c)))
                      else Some (token (single_operator first) start (start + 1)))))"

section \<open>The next token\<close>

definition punctuation :: "nat \<Rightarrow> TokenKind option" where
  "punctuation b =
     (if b = 59 then Some Semi else if b = 44 then Some Comma
      else if b = 40 then Some LParen else if b = 41 then Some RParen
      else if b = 91 then Some LBracket else if b = 93 then Some RBracket
      else if b = 123 then Some LBrace else if b = 125 then Some RBrace else None)"

definition current_value_end :: "nat list \<Rightarrow> nat \<Rightarrow> nat" where
  "current_value_end bs i =
     (let i = i + 1;
          i = (if byte_at bs i = Some 45 \<and> some_and is_digit (byte_at bs (i + 1)) then i + 1 else i)
      in run_while is_digit bs i)"

definition next_token :: "ustr \<Rightarrow> nat \<Rightarrow> LexMode \<Rightarrow> Token option" where
  "next_token source at mode =
     (let bs = as_bytes source;
          start = run_while is_blank bs (min at (length bs))
      in case byte_at bs start of
           None \<Rightarrow> Some (token Eof start start)
         | Some first \<Rightarrow>
             if first = 10 then Some (token Newline start (start + 1))
             else if first = 35 then Some (token Comment start (run_while (\<lambda>b. b \<noteq> 10) bs start))
             else if first = 124 then
               Some (if byte_at bs (start + 1) = Some 124 then token OrOr start (start + 2)
                     else token Pipe start (start + 1))
             else if first = 38 then
               Some (if byte_at bs (start + 1) = Some 38 then token AndAnd start (start + 2)
                     else token Amp start (start + 1))
             else if punctuation first \<noteq> None then Some (token (the (punctuation first)) start (start + 1))
             else if first = 34 then Some (quoted bs start 34 True)
             else if first = 39 then Some (quoted bs start 39 False)
             else if first = 36 \<and> byte_at bs (start + 1) = Some 63
               then Some (token Variable start (start + 2))
             else if first = 36 \<and> some_and is_ident_start (byte_at bs (start + 1)) then
               (let i = run_while is_ident_continue bs (start + 1)
                in Some (token Variable start (if mode = Words then take_dotted_steps bs i else i)))
             else if first = 64 \<and> (mode \<noteq> Words \<or> at_current_value bs start) then
               (let i = current_value_end bs start
                in Some (token CurrentValue start (if mode = Words then take_dotted_steps bs i else i)))
             else if mode = Words then Some (words_token bs start)
             else if mode = ExprOperand \<and> timestamp_end bs start \<noteq> None
               then Some (token Timestamp start (the (timestamp_end bs start)))
             else if mode = ExprOperand \<and> address_end bs start \<noteq> None
               then Some (token Ip start (the (address_end bs start)))
             else expression_token source start mode)"

section \<open>Bytes and boundaries\<close>

definition scalars :: "ustr \<Rightarrow> bool" where
  "scalars s \<longleftrightarrow> list_all (\<lambda>c. c < 0x110000) s"

definition char_bytes :: "nat \<Rightarrow> nat list" where
  "char_bytes c = map unat (utf8_char c)"

lemma as_bytes_simps [simp]:
  "as_bytes [] = []" "as_bytes (c # s) = char_bytes c @ as_bytes s"
  by (simp_all add: as_bytes_def utf8_def char_bytes_def)

lemma char_bytes_length [simp]: "length (char_bytes c) = len_utf8 c"
  by (simp add: char_bytes_def utf8_char_def len_utf8_def)

lemma as_bytes_length [simp]: "length (as_bytes s) = blen s"
  by (induction s) simp_all

lemma char_bytes_ascii: "c < 128 \<Longrightarrow> char_bytes c = [c]"
  by (simp add: char_bytes_def utf8_char_def unat_of_nat)

lemma char_bytes_high:
  assumes "128 \<le> c" and "c < 0x110000" and "b \<in> set (char_bytes c)"
  shows "128 \<le> b"
proof -
  have small: "unat (of_nat n :: u8) = n" if "n < 256" for n
    using that by (simp add: unat_of_nat)
  consider "c < 0x800" | "0x800 \<le> c" "c < 0x10000" | "0x10000 \<le> c" by linarith
  then show ?thesis
  proof cases
    case 1
    then have "c div 64 < 32" by auto
    then show ?thesis using assms(1,3) 1
      by (auto simp: char_bytes_def utf8_char_def small simp del: of_nat_add)
  next
    case 2
    then have "c div 4096 < 16" by auto
    then show ?thesis using assms(1,3) 2
      by (auto simp: char_bytes_def utf8_char_def small simp del: of_nat_add)
  next
    case 3
    then have "c div 262144 < 5" using assms(2) by auto
    then show ?thesis using assms(1,3) 3
      by (auto simp: char_bytes_def utf8_char_def small simp del: of_nat_add)
  qed
qed

lemma boundary_Cons:
  "is_char_boundary (c # s) i \<longleftrightarrow> i = 0 \<or> (len_utf8 c \<le> i \<and> is_char_boundary s (i - len_utf8 c))"
  by (auto simp: is_char_boundary_def)

lemma ascii_boundary:
  assumes "scalars s" and "i < blen s" and "as_bytes s ! i < 128"
  shows "is_char_boundary s i \<and> is_char_boundary s (Suc i)"
  using assms
proof (induction s arbitrary: i)
  case Nil
  then show ?case by simp
next
  case (Cons c s)
  show ?case
  proof (cases "i < len_utf8 c")
    case True
    then have "char_bytes c ! i \<in> set (char_bytes c)" by simp
    moreover have "char_bytes c ! i < 128" using Cons.prems(3) True by (simp add: nth_append)
    ultimately have "c < 128"
      using char_bytes_high[of c "char_bytes c ! i"] Cons.prems(1) by (force simp: scalars_def)
    then have "len_utf8 c = 1" "i = 0" using True by (simp_all add: len_utf8_def)
    then show ?thesis by (simp add: boundary_Cons)
  next
    case False
    then have "is_char_boundary s (i - len_utf8 c) \<and> is_char_boundary s (Suc (i - len_utf8 c))"
      using Cons.prems by (intro Cons.IH) (auto simp: scalars_def nth_append)
    then show ?thesis using False by (simp add: boundary_Cons Suc_diff_le)
  qed
qed

lemma byte_at_Some [simp]:
  "byte_at (as_bytes s) i = Some b \<longleftrightarrow> i < blen s \<and> as_bytes s ! i = b"
  by (auto simp: byte_at_def)

lemma byte_at_None [simp]: "byte_at (as_bytes s) i = None \<longleftrightarrow> blen s \<le> i"
  by (auto simp: byte_at_def)

lemma some_and_byte:
  "some_and P (byte_at (as_bytes s) i) \<longleftrightarrow> i < blen s \<and> P (as_bytes s ! i)"
  by (auto simp: some_and_def byte_at_def)

lemma ascii_next: "scalars s \<Longrightarrow> i < blen s \<Longrightarrow> as_bytes s ! i < 128 \<Longrightarrow> is_char_boundary s (Suc i)"
  using ascii_boundary by blast

lemma byte_classes:
  "is_digit b \<Longrightarrow> b < 128" "is_hexdigit b \<Longrightarrow> b < 128" "is_alpha b \<Longrightarrow> b < 128" "is_alnum b \<Longrightarrow> b < 128"
  "is_ident_start b \<Longrightarrow> b < 128" "is_ident_continue b \<Longrightarrow> b < 128" "is_blank b \<Longrightarrow> b < 128"
  "is_ascii_space b \<Longrightarrow> b < 128"
  by (auto simp: is_digit_def is_hexdigit_def is_alpha_def is_alnum_def is_ident_start_def
      is_ident_continue_def is_blank_def is_ascii_space_def)

lemma stoppers_ascii: "b \<in> set WORD_STOPPERS \<Longrightarrow> b < 128"
  by (auto simp: WORD_STOPPERS_def)

section \<open>Where the loops stop\<close>


lemma run_while_step:
  "some_and P (byte_at bs i) \<Longrightarrow> run_while P bs i = run_while P bs (Suc i)"
  "\<not> some_and P (byte_at bs i) \<Longrightarrow> run_while P bs i = i"
  by (subst run_while.simps, simp)+

lemma run_while_stop: "\<not> some_and P (byte_at bs (run_while P bs i))"
  by (induction P bs i rule: run_while.induct) (subst run_while.simps, auto)

lemma run_while_passed:
  "i \<le> j \<Longrightarrow> j < run_while P bs i \<Longrightarrow> some_and P (byte_at bs j)"
proof (induction P bs i rule: run_while.induct)
  case (1 P bs i)
  then show ?case
    by (cases "some_and P (byte_at bs i)"; cases "i = j") (simp_all add: run_while_step)
qed

lemma run_while_ascii:
  assumes "scalars s" and "\<And>b. P b \<Longrightarrow> b < 128" and "is_char_boundary s i"
  shows "is_char_boundary s (run_while P (as_bytes s) i)"
proof (cases "run_while P (as_bytes s) i = i")
  case True
  then show ?thesis using assms(3) by simp
next
  case False
  then obtain j where j: "run_while P (as_bytes s) i = Suc j" "i \<le> j"
    using run_while_le[of i P "as_bytes s"] by (metis le_neq_implies_less less_imp_Suc_add le_add1)
  then have "some_and P (byte_at (as_bytes s) j)" using run_while_passed[of i j P] by simp
  then show ?thesis using assms(1,2) j(1) ascii_next by (auto simp: some_and_byte)
qed

lemma run_classes_bnd:
  assumes "scalars s" and "is_char_boundary s i"
  shows "is_char_boundary s (run_while is_digit (as_bytes s) i)"
    and "is_char_boundary s (run_while is_ident_continue (as_bytes s) i)"
    and "is_char_boundary s (run_while is_blank (as_bytes s) i)"
    and "is_char_boundary s (run_while (\<lambda>b. is_digit b \<or> b = 95) (as_bytes s) i)"
    and "is_char_boundary s (run_while (\<lambda>b. b = 95 \<or> digit_of b hex) (as_bytes s) i)"
  by (rule run_while_ascii[OF assms(1) _ assms(2)], auto simp: digit_of_def dest: byte_classes split: if_splits)+

lemma run_while_to_end:
  assumes "scalars s" and "i \<le> blen s" and "\<And>b. \<not> P b \<Longrightarrow> b < 128"
  shows "is_char_boundary s (run_while P (as_bytes s) i)"
proof -
  let ?r = "run_while P (as_bytes s) i"
  have "?r \<le> blen s"
  proof (cases "?r = i")
    case False
    then have "i \<le> ?r - 1" "?r - 1 < ?r" using run_while_le[of i P "as_bytes s"] by auto
    then show ?thesis using run_while_passed[of i "?r - 1" P "as_bytes s"] by (auto simp: some_and_byte)
  qed (use assms(2) in simp)
  moreover have "is_char_boundary s ?r" if "?r < blen s"
    using run_while_stop[of P "as_bytes s" i] that assms(1,3) ascii_boundary[of s ?r]
    by (auto simp: some_and_byte)
  ultimately show ?thesis by (metis boundary_end le_neq_implies_less)
qed

lemma word_loop_le: "i \<le> word_loop bs i k"
  by (induction bs i k rule: word_loop.induct) (subst word_loop.simps, auto split: option.splits)

lemma word_loop_bnd:
  "scalars s \<Longrightarrow> i \<le> blen s \<Longrightarrow> is_char_boundary s (word_loop (as_bytes s) i k)"
proof (induction "as_bytes s" i k rule: word_loop.induct)
  case (1 i k)
  show ?case
  proof (cases "byte_at (as_bytes s) i")
    case None
    then have "i = blen s" using "1.prems" by simp
    then show ?thesis by (subst word_loop.simps) (simp add: byte_at_def)
  next
    case (Some b)
    then have "i < blen s" "as_bytes s ! i = b" by auto
    then have "is_char_boundary s i" if "is_ascii_space b \<or> b \<in> set WORD_STOPPERS"
      using that ascii_boundary[of s i] "1.prems"(1) stoppers_ascii[of b] byte_classes(8)[of b] by auto
    then show ?thesis
      using "1.hyps"[OF Some] "1.prems" \<open>i < blen s\<close> by (subst word_loop.simps) (auto simp: Some)
  qed
qed

lemma ipv6_loop_bnd:
  assumes "scalars s"
  shows "is_char_boundary s i \<Longrightarrow>
     is_char_boundary s (fst (ipv6_loop (as_bytes s) i c d)) \<and> i \<le> fst (ipv6_loop (as_bytes s) i c d)"
proof (induction "as_bytes s" i c d rule: ipv6_loop.induct)
  case (1 i c d)
  show ?case
  proof (cases "byte_at (as_bytes s) i")
    case None
    then show ?thesis using "1.prems" by (subst (1 2) ipv6_loop.simps) (simp add: None)
  next
    case (Some b)
    have next1: "is_char_boundary s (i + 1)" if "b < 128"
      using that Some ascii_next[OF assms, of i] by auto
    have next2: "is_char_boundary s (i + 2)" if "byte_at (as_bytes s) (i + 1) = Some 58"
      using that ascii_next[OF assms, of "i + 1"] by auto
    show ?thesis
      using "1.hyps"[OF Some] "1.prems" next1 next2 byte_classes(2)[of b]
      by (subst (1 2) ipv6_loop.simps) (auto simp: Some dest: le_trans[rotated])
  qed
qed

section \<open>Every token is well placed\<close>

definition tok_ok :: "ustr \<Rightarrow> nat \<Rightarrow> Token \<Rightarrow> bool" where
  "tok_ok s start t \<longleftrightarrow>
     kind t \<noteq> Eof \<and> span_start (span t) = start \<and> start < span_end (span t) \<and>
     is_char_boundary s (span_end (span t))"

lemma token_fields:
  assumes "blen s < 2 ^ 32" and "a \<le> b" and "b \<le> blen s"
  shows "token k a b = \<lparr>kind = k, span = \<lparr>span_start = a, span_end = b\<rparr>\<rparr>"
  using assms by (simp add: token_def span_new_def as_u32_def)

lemma tok_okI:
  assumes "blen s < 2 ^ 32" and "start < e" and "is_char_boundary s e" and "k \<noteq> Eof"
  shows "tok_ok s start (token k start e)"
  using assms boundary_le[OF assms(3)] token_fields[of s start e k] by (simp add: tok_ok_def)

lemma quoted_ok:
  assumes "scalars s" and "blen s < 2 ^ 32"
  shows "quote < 128 \<Longrightarrow> start < i \<Longrightarrow> start < blen s \<Longrightarrow> tok_ok s start (quoted_loop (as_bytes s) start i quote escapes)"
proof (induction "as_bytes s" start i quote escapes rule: quoted_loop.induct)
  case (1 start i quote escapes)
  show ?case
  proof (cases "byte_at (as_bytes s) i")
    case None
    have "tok_ok s start (token k start (blen s))" if "k \<noteq> Eof" for k
      by (rule tok_okI) (use assms(2) 1 that in auto)
    then show ?thesis by (subst quoted_loop.simps) (simp add: None)
  next
    case (Some b)
    have "tok_ok s start (token k start (i + 1))" if "b = quote" "k \<noteq> Eof" for k
      by (rule tok_okI) (use assms 1 that Some ascii_next[OF assms(1), of i] in auto)
    then show ?thesis
      using "1.hyps"[OF Some] "1.prems" by (subst quoted_loop.simps) (auto simp: Some)
  qed
qed

lemma regex_ok:
  assumes "scalars s" and "blen s < 2 ^ 32"
  shows "start < i \<Longrightarrow> start < blen s \<Longrightarrow> tok_ok s start (regex_loop (as_bytes s) start i)"
proof (induction "as_bytes s" start i rule: regex_loop.induct)
  case (1 start i)
  show ?case
  proof (cases "byte_at (as_bytes s) i")
    case None
    have "tok_ok s start (token UnterminatedRegex start (blen s))"
      by (rule tok_okI) (use assms(2) 1 in auto)
    then show ?thesis by (subst regex_loop.simps) (simp add: None)
  next
    case (Some b)
    let ?P = "\<lambda>b. b = 105 \<or> b = 109 \<or> b = 115 \<or> b = (120::nat)"
    have i: "i < blen s" "as_bytes s ! i = b" using Some by auto
    have newline: "tok_ok s start (token UnterminatedRegex start i)" if "b = 10"
      by (rule tok_okI) (use assms 1 that i ascii_boundary[OF assms(1) i(1)] in auto)
    have flags: "tok_ok s start (token Regex start (run_while ?P (as_bytes s) (i + 1)))" if "b = 47"
    proof (rule tok_okI)
      show "is_char_boundary s (run_while ?P (as_bytes s) (i + 1))"
        by (rule run_while_ascii[OF assms(1)]) (use that i ascii_next[OF assms(1) i(1)] in auto)
      show "start < run_while ?P (as_bytes s) (i + 1)"
        using run_while_le[of "i + 1" ?P "as_bytes s"] "1.prems"(1) by linarith
    qed (use assms(2) in auto)
    show ?thesis
      using "1.hyps"[OF Some] "1.prems" newline flags by (subst regex_loop.simps) (auto simp: Some)
  qed
qed

lemma take_digits_bnd:
  assumes "scalars s"
  shows "take_digits (as_bytes s) i n = Some e \<Longrightarrow> is_char_boundary s i \<Longrightarrow> is_char_boundary s e \<and> i + n \<le> e"
proof (induction "as_bytes s" i n rule: take_digits.induct)
  case (2 i n)
  then have "i < blen s" "as_bytes s ! i < 128" "take_digits (as_bytes s) (i + 1) n = Some e"
    using byte_classes(1) by (auto simp: some_and_byte split: if_splits)
  then show ?case using 2 ascii_next[OF assms, of i] by (auto simp: some_and_byte split: if_splits)
qed simp

lemma take_literal_bnd:
  assumes "scalars s" and "take_literal (as_bytes s) i b = Some e" and "b < 128"
  shows "is_char_boundary s e \<and> i < e"
proof -
  have "i < blen s" "to_lower (as_bytes s ! i) = to_lower b" "e = i + 1"
    using assms(2) by (auto simp: take_literal_def some_and_byte split: if_splits)
  moreover from this have "as_bytes s ! i < 128"
    using assms(3) by (auto simp: to_lower_def split: if_splits)
  ultimately show ?thesis using ascii_next[OF assms(1), of i] by simp
qed

lemma seconds_end_bnd:
  assumes "scalars s" and "is_char_boundary s i"
  shows "is_char_boundary s (seconds_end (as_bytes s) i) \<and> i \<le> seconds_end (as_bytes s) i"
proof (cases "Option.bind (take_literal (as_bytes s) i 58) (\<lambda>at. take_digits (as_bytes s) at 2)")
  case None
  then show ?thesis using assms(2) by (simp add: seconds_end_def)
next
  case (Some after)
  then obtain at where at: "take_literal (as_bytes s) i 58 = Some at"
    "take_digits (as_bytes s) at 2 = Some after" by (auto simp: bind_eq_Some_conv)
  have after: "is_char_boundary s after" "i \<le> after"
    using take_literal_bnd[OF assms(1) at(1)] take_digits_bnd[OF assms(1) at(2)] by auto
  show ?thesis
  proof (cases "take_literal (as_bytes s) after 46")
    case None
    then show ?thesis using Some after by (simp add: seconds_end_def)
  next
    case (Some first)
    have "is_char_boundary s (run_while is_digit (as_bytes s) first)"
      by (rule run_while_ascii[OF assms(1)])
        (use take_literal_bnd[OF assms(1) Some] byte_classes(1) in auto)
    then show ?thesis
      using Some \<open>Option.bind _ _ = Some after\<close> after take_literal_bnd[OF assms(1) Some]
      by (auto simp: seconds_end_def Let_def)
  qed
qed

lemma zone_end_bnd:
  assumes "scalars s" and "is_char_boundary s i" and "zone_end (as_bytes s) i = Some e"
  shows "is_char_boundary s e \<and> i \<le> e"
proof (cases "take_literal (as_bytes s) i 90")
  case (Some after)
  then show ?thesis using assms take_literal_bnd[OF assms(1) Some] by (auto simp: zone_end_def)
next
  case None
  then obtain j where sign: "take_literal (as_bytes s) i 43 = Some j \<or> take_literal (as_bytes s) i 45 = Some j"
    and rest: "Option.bind (take_digits (as_bytes s) j 2) (\<lambda>i. Option.bind (take_literal (as_bytes s) i 58)
      (\<lambda>i. take_digits (as_bytes s) i 2)) = Some e"
    using assms(3) by (auto simp: zone_end_def bind_eq_Some_conv split: option.splits)
  obtain k l where kl: "take_digits (as_bytes s) j 2 = Some k" "take_literal (as_bytes s) k 58 = Some l"
    "take_digits (as_bytes s) l 2 = Some e"
    using rest by (auto simp: bind_eq_Some_conv)
  have j: "is_char_boundary s j \<and> i < j" using sign take_literal_bnd[OF assms(1)] by auto
  have k: "is_char_boundary s k \<and> j + 2 \<le> k" using take_digits_bnd[OF assms(1) kl(1)] j by blast
  have l: "is_char_boundary s l \<and> k < l" using take_literal_bnd[OF assms(1) kl(2)] by simp
  show ?thesis using take_digits_bnd[OF assms(1) kl(3)] l k j by auto
qed

lemma timestamp_bnd:
  assumes "scalars s" and "is_char_boundary s i" and "timestamp_end (as_bytes s) i = Some e"
  shows "is_char_boundary s e \<and> i < e"
proof -
  let ?d = "take_digits (as_bytes s)" and ?l = "take_literal (as_bytes s)"
  obtain a b c d f g h j k where parts: "?d i 4 = Some a" "?l a 45 = Some b" "?d b 2 = Some c"
    "?l c 45 = Some d" "?d d 2 = Some f" "?l f 84 = Some g" "?d g 2 = Some h" "?l h 58 = Some j"
    "?d j 2 = Some k" "zone_end (as_bytes s) (seconds_end (as_bytes s) k) = Some e"
    using assms(3) by (auto simp: timestamp_end_def bind_eq_Some_conv)
  note lit = take_literal_bnd[OF assms(1)] and dig = take_digits_bnd[OF assms(1)]
  have a: "i < a" using dig[OF parts(1) assms(2)] by simp
  have "a < b" "is_char_boundary s b" using lit[OF parts(2)] by auto
  then have "a < c" using dig[OF parts(3)] by auto
  have "c < d" "is_char_boundary s d" using lit[OF parts(4)] by auto
  then have "c < f" using dig[OF parts(5)] by auto
  have "f < g" "is_char_boundary s g" using lit[OF parts(6)] by auto
  then have "f < h" using dig[OF parts(7)] by auto
  have "h < j" "is_char_boundary s j" using lit[OF parts(8)] by auto
  then have k: "h < k" "is_char_boundary s k" using dig[OF parts(9)] by auto
  show ?thesis
    using zone_end_bnd[OF assms(1) _ parts(10)] seconds_end_bnd[OF assms(1) k(2)] k(1) a
      \<open>a < c\<close> \<open>c < f\<close> \<open>f < h\<close> by auto
qed

lemma ipv4_groups_bnd:
  assumes "scalars s"
  shows "ipv4_groups (as_bytes s) g n i = Some e \<Longrightarrow> is_char_boundary s i \<Longrightarrow>
     is_char_boundary s e \<and> i + n \<le> e"
proof (induction "as_bytes s" g n i rule: ipv4_groups.induct)
  case (1 g i)
  then show ?case by simp
next
  case (2 g left i)
  let ?from = "if g > 0 then i + 1 else i"
  let ?j = "run_while is_digit (as_bytes s) ?from"
  have dot: "\<not> (g > 0 \<and> byte_at (as_bytes s) i \<noteq> Some 46)" and moved: "?j \<noteq> ?from" "\<not> ?j - ?from > 3"
    and rest: "ipv4_groups (as_bytes s) (g + 1) left ?j = Some e"
    using "2.prems"(1) by (auto simp: Let_def split: if_splits)
  have from_ok: "is_char_boundary s ?from"
    using dot "2.prems"(2) ascii_next[OF assms, of i] by auto
  then have "is_char_boundary s ?j" by (rule run_classes_bnd(1)[OF assms])
  moreover have "i < ?j" using moved run_while_le[of ?from is_digit "as_bytes s"] by (auto split: if_splits)
  ultimately show ?case using "2.hyps"[OF dot refl refl _ rest] moved by auto
qed

lemma address_bnd:
  assumes "scalars s" and "is_char_boundary s i" and "address_end (as_bytes s) i = Some e"
  shows "is_char_boundary s e \<and> i < e"
proof (cases "ipv4_end (as_bytes s) i")
  case (Some e')
  then have "ipv4_groups (as_bytes s) 0 4 i = Some e"
    using assms(3) by (auto simp: address_end_def ipv4_end_def split: option.splits if_splits)
  then show ?thesis using ipv4_groups_bnd[OF assms(1) _ assms(2)] by fastforce
next
  case None
  obtain j c d where loop: "ipv6_loop (as_bytes s) i 0 False = (j, c, d)" by (metis prod_cases3)
  let ?P = "\<lambda>b. is_alnum b \<or> b = 95 \<or> b = (45::nat)"
  have j: "is_char_boundary s j" "i < j"
    and e: "e = j \<or> (byte_at (as_bytes s) j = Some 37 \<and> e = run_while ?P (as_bytes s) (j + 1))"
    using ipv6_loop_bnd[OF assms(1,2), of 0 False] assms(3) None loop
    by (auto simp: address_end_def ipv6_end_def split: if_splits)
  show ?thesis
  proof (cases "e = j")
    case False
    then have zone: "is_char_boundary s (j + 1)" "e = run_while ?P (as_bytes s) (j + 1)"
      using e ascii_next[OF assms(1), of j] by auto
    have "is_char_boundary s (run_while ?P (as_bytes s) (j + 1))"
      by (rule run_while_ascii[OF assms(1)]) (use zone byte_classes(4) in auto)
    then show ?thesis using zone(2) run_while_le[of "j + 1" ?P "as_bytes s"] j(2) by simp
  qed (use j in simp)
qed

lemma dotted_bnd:
  assumes "scalars s"
  shows "is_char_boundary s i \<Longrightarrow>
     is_char_boundary s (take_dotted_steps (as_bytes s) i) \<and> i \<le> take_dotted_steps (as_bytes s) i"
proof (induction "as_bytes s" i rule: take_dotted_steps.induct)
  case (1 i)
  show ?case
  proof (cases "byte_at (as_bytes s) i = Some 46 \<and> some_and is_ident_start (byte_at (as_bytes s) (i + 1))")
    case True
    then have "is_char_boundary s (i + 1)" using ascii_next[OF assms, of i] by auto
    then have "is_char_boundary s (run_while is_ident_continue (as_bytes s) (i + 1))"
      by (rule run_classes_bnd(2)[OF assms])
    moreover have "take_dotted_steps (as_bytes s) i =
        take_dotted_steps (as_bytes s) (run_while is_ident_continue (as_bytes s) (i + 1))"
      by (subst take_dotted_steps.simps) (use True in simp)
    ultimately show ?thesis
      using "1.hyps"[OF True] run_while_le[of "i + 1" is_ident_continue "as_bytes s"] by auto
  next
    case False
    then have "take_dotted_steps (as_bytes s) i = i" by (subst take_dotted_steps.simps) auto
    then show ?thesis using "1.prems" by simp
  qed
qed

lemma starts_with_bnd:
  assumes "scalars s" and "is_char_boundary s i" and "starts_with (drop i (as_bytes s)) t"
    and "list_all (\<lambda>b. b < 128) t"
  shows "is_char_boundary s (i + length t)"
proof (cases "t = []")
  case True
  then show ?thesis using assms(2) by simp
next
  case False
  let ?j = "i + (length t - 1)"
  have take: "take (length t) (drop i (as_bytes s)) = t" using assms(3) by (simp add: starts_with_def)
  then have "length t \<le> blen s - i" by (metis as_bytes_length length_drop length_take min.cobounded1)
  then have j: "?j < blen s" using False by (cases t) auto
  have "as_bytes s ! ?j = t ! (length t - 1)"
    using take j False by (metis add_leE as_bytes_length diff_less length_greater_0_conv less_imp_le_nat
        nth_drop nth_take zero_less_one)
  then have "as_bytes s ! ?j < 128" using assms(4) False by (simp add: list_all_length)
  then show ?thesis using ascii_next[OF assms(1) j] False by (cases t) auto
qed

lemma suffix_scan_bnd:
  assumes "scalars s"
  shows "suffix_scan (as_bytes s) at us = Some (x, e) \<Longrightarrow> is_char_boundary s at \<Longrightarrow>
     list_all (\<lambda>(t, _). list_all (\<lambda>b. b < 128) t \<and> t \<noteq> []) us \<Longrightarrow> is_char_boundary s e \<and> at < e"
  by (induction "as_bytes s" at us rule: suffix_scan.induct)
    (auto split: if_splits intro: starts_with_bnd[OF assms(1)])

lemma unit_suffix_bnd:
  assumes "scalars s" and "unit_suffix_at s at = Some (x, e)"
  shows "is_char_boundary s e \<and> at < e"
proof -
  have "list_all (\<lambda>(t, _). list_all (\<lambda>b. b < 128) t \<and> t \<noteq> []) UNIT_SUFFIXES"
    by (simp add: UNIT_SUFFIXES_def)
  moreover have "suffix_scan (as_bytes s) at UNIT_SUFFIXES = Some (x, e)" "is_char_boundary s at"
    using assms(2) by (simp_all add: unit_suffix_at_def split: if_splits)
  ultimately show ?thesis using suffix_scan_bnd[OF assms(1)] by blast
qed

lemma decimal_bnd:
  assumes "scalars s" and "start < blen s" and "is_digit (as_bytes s ! start)"
    and "decimal_end (as_bytes s) start = (k, e)"
  shows "is_char_boundary s e \<and> start < e \<and> k \<noteq> Eof"
proof -
  let ?P = "\<lambda>b. is_digit b \<or> b = 95" and ?bs = "as_bytes s"
  let ?i = "run_while ?P ?bs start"
  have first: "is_char_boundary s (Suc start)" "is_char_boundary s start"
    using ascii_boundary[OF assms(1,2)] byte_classes(1)[OF assms(3)] by auto
  have i: "is_char_boundary s ?i" "start < ?i"
    using run_classes_bnd(4)[OF assms(1) first(2)] run_while_le[of "Suc start" ?P ?bs]
      run_while_step(1)[of ?P ?bs start] assms(2,3)
    by (auto simp: some_and_byte)
  let ?ki = "if byte_at ?bs ?i = Some 46 \<and> some_and is_digit (byte_at ?bs (?i + 1))
    then (FloatLit, run_while ?P ?bs (?i + 1)) else (IntLit, ?i)"
  obtain k' j where kj: "?ki = (k', j)" by (rule prod.exhaust)
  have j: "is_char_boundary s j" "start < j" "k' \<noteq> Eof"
  proof -
    have "is_char_boundary s (run_while ?P ?bs (?i + 1))" if "byte_at ?bs ?i = Some 46"
      using run_classes_bnd(4)[OF assms(1)] ascii_next[OF assms(1), of ?i] that by auto
    then show "is_char_boundary s j" "start < j" "k' \<noteq> Eof"
      using kj i run_while_le[of "?i + 1" ?P ?bs] by (auto split: if_splits)
  qed
  have exp: "exponent_end ?bs (k', j) = (k, e)"
    using assms(4) kj by (simp add: decimal_end_def Let_def)
  let ?after = "if some_and (\<lambda>b. b = 43 \<or> b = 45) (byte_at ?bs (j + 1)) then j + 2 else j + 1"
  have after: "is_char_boundary s ?after" if "some_and (\<lambda>b. b = 101 \<or> b = 69) (byte_at ?bs j)"
    using that ascii_next[OF assms(1), of j] ascii_next[OF assms(1), of "j + 1"]
    by (auto simp: some_and_byte)
  show ?thesis
  proof (cases "some_and (\<lambda>b. b = 101 \<or> b = 69) (byte_at ?bs j) \<and> some_and is_digit (byte_at ?bs ?after)")
    case True
    then have "k = FloatLit" "e = run_while is_digit ?bs ?after"
      using exp by (simp_all add: exponent_end_def Let_def)
    moreover have "start < ?after" using j(2) by simp
    ultimately show ?thesis
      using run_classes_bnd(1)[OF assms(1) after[OF conjunct1[OF True]]]
        run_while_le[of ?after is_digit ?bs] by (simp del: split_paired_All)
  next
    case False
    have "exponent_end ?bs (k', j) = (k', j)"
    proof (cases "some_and (\<lambda>b. b = 101 \<or> b = 69) (byte_at ?bs j)")
      case True
      then have "\<not> some_and is_digit (byte_at ?bs ?after)" using False by blast
      then show ?thesis unfolding exponent_end_def Let_def prod.case by (simp only: if_False if_cancel)
    qed (simp add: exponent_end_def)
    then show ?thesis using j exp by simp
  qed
qed

lemma number_ok:
  assumes "scalars s" and "blen s < 2 ^ 32" and "start < blen s" and "is_digit (as_bytes s ! start)"
  shows "tok_ok s start (number_token s start)"
proof -
  let ?bs = "as_bytes s"
  let ?hex = "some_and (\<lambda>b. b = 120 \<or> b = 88) (byte_at ?bs (start + 1))"
  let ?radix = "byte_at ?bs start = Some 48 \<and>
    some_and (\<lambda>b. b = 120 \<or> b = 88 \<or> b = 98 \<or> b = 66) (byte_at ?bs (start + 1)) \<and>
    some_and is_hexdigit (byte_at ?bs (start + 2))"
  let ?ki = "if ?radix then (IntLit, run_while (\<lambda>b. b = 95 \<or> digit_of b ?hex) ?bs (start + 2))
    else decimal_end ?bs start"
  obtain k i where ki: "?ki = (k, i)" by (rule prod.exhaust)
  have i: "is_char_boundary s i \<and> start < i \<and> k \<noteq> Eof"
  proof (cases ?radix)
    case True
    then have "is_char_boundary s (start + 2)"
      using ascii_next[OF assms(1), of "start + 1"] by (auto simp: some_and_byte)
    then show ?thesis
      using run_classes_bnd(5)[OF assms(1)] ki True
        run_while_le[of "start + 2" "\<lambda>b. b = 95 \<or> digit_of b ?hex" ?bs] by auto
  next
    case False
    then show ?thesis using decimal_bnd[OF assms(1,3,4)] ki by auto
  qed
  show ?thesis
  proof (cases "unit_suffix_at s i")
    case None
    then have "number_token s start = token k start i"
      using ki by (simp add: number_token_def Let_def)
    then show ?thesis using tok_okI[OF assms(2)] i by simp
  next
    case (Some ue)
    then obtain x e where ue: "unit_suffix_at s i = Some (x, e)" by (cases ue) auto
    then have "number_token s start = token UnitLit start e"
      using ki by (simp add: number_token_def Let_def)
    then show ?thesis using tok_okI[OF assms(2)] unit_suffix_bnd[OF assms(1) ue] i by simp
  qed
qed

lemma redirect_ok:
  assumes "scalars s" and "blen s < 2 ^ 32" and "start \<le> op"
    and "some_and (\<lambda>b. b = 62 \<or> b = 60) (byte_at (as_bytes s) op)"
  shows "tok_ok s start (redirect_token (as_bytes s) start op)"
proof -
  have one: "tok_ok s start (token k start (op + 1))" if "k \<noteq> Eof" for k
    by (rule tok_okI) (use assms that ascii_next[OF assms(1), of op] in \<open>auto simp: some_and_byte\<close>)
  have two: "tok_ok s start (token k start (op + 2))"
    if "k \<noteq> Eof" "byte_at (as_bytes s) (op + 1) = Some b" "b < 128" for k b
    by (rule tok_okI) (use assms that ascii_next[OF assms(1), of "op + 1"] in auto)
  show ?thesis
    using one two[of GtGt 62] two[of GtAmp 38] two[of LtAmp 38]
    by (auto simp: redirect_token_def Let_def split: option.splits if_splits)
qed

lemma words_ok:
  assumes "scalars s" and "blen s < 2 ^ 32" and "start < blen s" and "is_char_boundary s start"
    and "as_bytes s ! start < 128 \<or> word_loop (as_bytes s) start 0 > start"
  shows "tok_ok s start (words_token (as_bytes s) start)"
proof -
  let ?i = "run_while is_digit (as_bytes s) start" and ?w = "word_loop (as_bytes s) start 0"
  have word: "tok_ok s start (token Word start (max ?w (start + 1)))"
  proof (rule tok_okI[OF assms(2)])
    show "is_char_boundary s (max ?w (start + 1))"
    proof (cases "?w > start")
      case True
      then have "max ?w (start + 1) = ?w" by simp
      then show ?thesis using word_loop_bnd[OF assms(1), of start 0] assms(3) by simp
    next
      case False
      then show ?thesis using assms(5) ascii_next[OF assms(1,3)] by (simp add: max_def)
    qed
  qed auto
  show ?thesis
    using word redirect_ok[OF assms(1,2)] run_while_le[of start is_digit "as_bytes s"]
    by (auto simp: words_token_def Let_def)
qed

lemma word_loop_high:
  assumes "i < blen s" and "128 \<le> as_bytes s ! i"
  shows "i < word_loop (as_bytes s) i 0"
proof -
  have "\<not> is_ascii_space (as_bytes s ! i)" "as_bytes s ! i \<notin> set WORD_STOPPERS"
    using assms(2) byte_classes(8) stoppers_ascii by (meson leD)+
  then have "word_loop (as_bytes s) i 0 = word_loop (as_bytes s) (i + 1) 0"
    using assms by (subst word_loop.simps) (simp add: byte_at_def)
  then show ?thesis using word_loop_le[of "i + 1" "as_bytes s" 0] by simp
qed

lemma operators_ascii: "(t, k) \<in> set operators \<Longrightarrow> list_all (\<lambda>b. b < 128) t \<and> t \<noteq> [] \<and> k \<noteq> Eof"
  by (auto simp: operators_def)

lemma operator_ok:
  assumes "scalars s" and "blen s < 2 ^ 32" and "is_char_boundary s start"
    and "find (\<lambda>(t, k). starts_with (drop start (as_bytes s)) t) operators = Some (t, k)"
  shows "tok_ok s start (token k start (start + length t))"
proof -
  have t: "(t, k) \<in> set operators" "starts_with (drop start (as_bytes s)) t"
    using assms(4) by (auto simp: find_Some_iff in_set_conv_nth)
  show ?thesis
    by (rule tok_okI[OF assms(2)])
      (use operators_ascii[OF t(1)] starts_with_bnd[OF assms(1,3) t(2)] in auto)
qed

lemma unknown_ok:
  assumes "blen s < 2 ^ 32" and "start < blen s" and "split_at start s = Some (a, rest)"
  shows "tok_ok s start (token Unknown start (start + (case rest of [] \<Rightarrow> 1 | c # _ \<Rightarrow> len_utf8 c)))"
proof -
  have split: "s = a @ rest" "start = blen a" using assms(3) by (auto simp: split_at_Some)
  then obtain c r where rest: "rest = c # r" using assms(2) by (cases rest) auto
  have "is_char_boundary s (start + len_utf8 c)"
    using boundary_append[of "a @ [c]" r] split rest by simp
  then show ?thesis using rest tok_okI[OF assms(1)] by simp
qed

lemma expression_ok:
  assumes "scalars s" and "blen s < 2 ^ 32" and "start < blen s" and "is_char_boundary s start"
  shows "\<exists>t. expression_token s start mode = Some t \<and> tok_ok s start t"
proof -
  let ?bs = "as_bytes s"
  let ?first = "?bs ! start"
  have first: "byte_at ?bs start = Some ?first" using assms(3) by simp
  have next1: "is_char_boundary s (Suc start)" if "?first < 128" using that ascii_next[OF assms(1,3)] by simp
  obtain a rest where split: "split_at start s = Some (a, rest)"
    using assms(4) by (auto simp: is_char_boundary_def)
  have continues: "tok_ok s start (token k start (run_while is_ident_continue ?bs (start + n)))"
    if "k \<noteq> Eof" "is_char_boundary s (start + n)" "0 < n" for k n
    by (rule tok_okI[OF assms(2)])
      (use that run_classes_bnd(2)[OF assms(1) that(2)] run_while_le[of "start + n" is_ident_continue ?bs] in auto)
  let ?option = "?first = 45 \<and> byte_at ?bs (start + 1) = Some 45 \<and>
    some_and (\<lambda>b. is_alpha b \<or> b = 95) (byte_at ?bs (start + 2))"
  note unfold = expression_token_def Let_def first option.case
  consider (number) "is_digit ?first"
    | (option) "\<not> is_digit ?first" ?option
    | (ident) "\<not> is_digit ?first" "\<not> ?option" "is_ident_start ?first"
    | (regex) "\<not> is_digit ?first" "\<not> ?option" "\<not> is_ident_start ?first" "?first = 47 \<and> mode = ExprOperand"
    | (other) "\<not> is_digit ?first" "\<not> ?option" "\<not> is_ident_start ?first" "\<not> (?first = 47 \<and> mode = ExprOperand)"
    by blast
  then show ?thesis
  proof cases
    case number
    then show ?thesis using number_ok[OF assms(1-3)] by (simp add: expression_token_def first Let_def)
  next
    case option
    then have "is_char_boundary s (start + 3)"
      using ascii_next[OF assms(1), of "start + 2"] byte_classes(3)
      by (auto simp: some_and_byte numeral_3_eq_3)
    then have "tok_ok s start (token Word start (run_while is_ident_continue ?bs (start + 3)))"
      by (intro continues) auto
    then show ?thesis unfolding unfold using option by (simp only: if_True if_False simp_thms option.inject)
  next
    case ident
    then have "tok_ok s start (token Ident start (run_while is_ident_continue ?bs (start + 1)))"
      using next1 byte_classes(5) by (intro continues) auto
    then show ?thesis unfolding unfold using ident by (simp only: if_True if_False simp_thms option.inject)
  next
    case regex
    then have "expression_token s start mode = Some (regex_token ?bs start)"
      unfolding unfold by (simp only: if_True if_False simp_thms)
    then show ?thesis
      using regex_ok[OF assms(1,2), of start "start + 1"] assms(3) by (simp add: regex_token_def)
  next
    case other
    have tail: "expression_token s start mode =
        (case find (\<lambda>(t, k). starts_with (drop start ?bs) t) operators of
           Some (t, k) \<Rightarrow> Some (token k start (start + length t))
         | None \<Rightarrow>
             if single_operator ?first = Unknown
             then Some (token Unknown start (start + (case rest of [] \<Rightarrow> 1 | c # _ \<Rightarrow> len_utf8 c)))
             else Some (token (single_operator ?first) start (start + 1)))"
      unfolding unfold split prod.case using other by (simp only: if_False)
    have single: "?first < 128 \<and> single_operator ?first \<noteq> Eof" if "single_operator ?first \<noteq> Unknown"
      using that by (auto simp: single_operator_def split: if_splits)
    show ?thesis
      unfolding tail
      using operator_ok[OF assms(1,2,4)] unknown_ok[OF assms(2,3) split] single next1
        tok_okI[OF assms(2), of start "start + 1" "single_operator ?first"]
      by (auto split: option.splits)
  qed
qed

lemma variable_ok:
  assumes "scalars s" and "blen s < 2 ^ 32" and "is_char_boundary s i" and "start < i" and "k \<noteq> Eof"
  shows "tok_ok s start (token k start (if mode = Words then take_dotted_steps (as_bytes s) i else i))"
  by (rule tok_okI[OF assms(2)]) (use dotted_bnd[OF assms(1,3)] assms in auto)

lemma current_value_bnd:
  assumes "scalars s" and "start < blen s" and "as_bytes s ! start < 128"
  shows "is_char_boundary s (current_value_end (as_bytes s) start) \<and>
    start < current_value_end (as_bytes s) start"
proof -
  let ?bs = "as_bytes s"
  let ?i = "if byte_at ?bs (start + 1) = Some 45 \<and> some_and is_digit (byte_at ?bs (start + 1 + 1))
    then start + 1 + 1 else start + 1"
  have "is_char_boundary s ?i"
    using ascii_next[OF assms] ascii_next[OF assms(1), of "start + 1"] by auto
  then show ?thesis
    using run_classes_bnd(1)[OF assms(1)] run_while_le[of ?i is_digit ?bs]
    unfolding current_value_end_def Let_def by (auto split: if_splits)
qed

lemma punctuation_ok: "punctuation b = Some k \<Longrightarrow> b < 128 \<and> k \<noteq> Eof"
  by (auto simp: punctuation_def split: if_splits)

lemma significant_token:
  assumes "scalars s" and "blen s < 2 ^ 32" and "is_char_boundary s at"
    and "start = run_while is_blank (as_bytes s) (min at (blen s))" and "start < blen s"
  shows "\<exists>t. next_token s at mode = Some t \<and> tok_ok s start t"
proof -
  let ?bs = "as_bytes s"
  let ?first = "?bs ! start"
  have bnd: "is_char_boundary s start"
    unfolding assms(4) using run_classes_bnd(3)[OF assms(1)] assms(3) boundary_le[OF assms(3)]
    by (simp add: min_def)
  have first: "byte_at ?bs start = Some ?first" using assms(5) by simp
  have one: "tok_ok s start (token k start (start + 1))" if "?first < 128" "k \<noteq> Eof" for k
    by (rule tok_okI[OF assms(2)]) (use that ascii_next[OF assms(1,5)] in auto)
  have two: "tok_ok s start (token k start (start + 2))"
    if "byte_at ?bs (start + 1) = Some b" "b < 128" "k \<noteq> Eof" for k b
    by (rule tok_okI[OF assms(2)]) (use that ascii_next[OF assms(1), of "start + 1"] in auto)
  have comment: "tok_ok s start (token Comment start (run_while (\<lambda>b. b \<noteq> 10) ?bs start))"
    if "?first = 35"
  proof (rule tok_okI[OF assms(2)])
    show "is_char_boundary s (run_while (\<lambda>b. b \<noteq> 10) ?bs start)"
      by (rule run_while_to_end[OF assms(1)]) (use assms(5) in auto)
    show "start < run_while (\<lambda>b. b \<noteq> 10) ?bs start"
      using run_while_step(1)[of "\<lambda>b. b \<noteq> 10" ?bs start] run_while_le[of "Suc start" "\<lambda>b. b \<noteq> 10" ?bs]
        that assms(5) by (simp add: some_and_byte)
  qed simp
  have var: "tok_ok s start (token Variable start (if mode = Words then take_dotted_steps ?bs
      (run_while is_ident_continue ?bs (start + 1)) else run_while is_ident_continue ?bs (start + 1)))"
    if "?first < 128"
    by (rule variable_ok[OF assms(1,2)])
      (use that run_classes_bnd(2)[OF assms(1)] ascii_next[OF assms(1,5)]
        run_while_le[of "start + 1" is_ident_continue ?bs] in auto)
  have current: "tok_ok s start (token CurrentValue start (if mode = Words then take_dotted_steps ?bs
      (current_value_end ?bs start) else current_value_end ?bs start))" if "?first < 128"
    by (rule variable_ok[OF assms(1,2)]) (use current_value_bnd[OF assms(1,5) that] in auto)
  have strings: "tok_ok s start (quoted ?bs start 34 True)" "tok_ok s start (quoted ?bs start 39 False)"
    unfolding quoted_def using quoted_ok[OF assms(1,2)] assms(5) by simp_all
  have wrd: "tok_ok s start (words_token ?bs start)"
    by (rule words_ok[OF assms(1,2,5) bnd]) (use word_loop_high[OF assms(5)] in linarith)
  have stamp: "tok_ok s start (token k start (the e))"
    if e: "e = timestamp_end ?bs start \<or> e = address_end ?bs start" "e \<noteq> None" "k \<noteq> Eof" for e k
  proof -
    obtain x where x: "e = Some x" using e(2) by auto
    then have "is_char_boundary s x \<and> start < x"
      using e(1) timestamp_bnd[OF assms(1) bnd, of x] address_bnd[OF assms(1) bnd, of x] by auto
    then show ?thesis using x tok_okI[OF assms(2)] e(3) by simp
  qed
  have expr: "\<exists>t. expression_token s start mode = Some t \<and> tok_ok s start t"
    by (rule expression_ok[OF assms(1,2,5) bnd])
  show ?thesis
    unfolding next_token_def Let_def as_bytes_length assms(4)[symmetric] first option.case
    using one two[of 124 OrOr] two[of 38 AndAnd] two[of 63 Variable] comment var current strings wrd
      stamp[of "timestamp_end ?bs start" Timestamp] stamp[of "address_end ?bs start" Ip] expr
      punctuation_ok[of ?first]
    by (simp del: byte_at_Some split del: if_split) (auto simp del: byte_at_Some split: if_split)
qed

text \<open>
  What the parser relies on of one token: it starts behind blanks only, lies inside the
  source, begins and ends on character boundaries, and is empty exactly when the source is
  used up.
\<close>

definition placed :: "ustr \<Rightarrow> nat \<Rightarrow> Token \<Rightarrow> bool" where
  "placed source at t \<longleftrightarrow>
     (let a = span_start (span t); e = span_end (span t)
      in at \<le> a \<and> a \<le> e \<and> e \<le> blen source \<and>
         is_char_boundary source a \<and> is_char_boundary source e \<and>
         list_all is_blank (take (a - at) (drop at (as_bytes source))) \<and>
         (kind t = Eof \<longleftrightarrow> a = e) \<and> (kind t = Eof \<longrightarrow> e = blen source))"

lemma blanks_before:
  assumes "i \<le> blen s" and "a = run_while is_blank (as_bytes s) i"
  shows "list_all is_blank (take (a - i) (drop i (as_bytes s)))"
proof -
  have "is_blank (as_bytes s ! (i + j))" if "j < a - i" for j
    using run_while_passed[of i "i + j" is_blank "as_bytes s"] that assms(2)
    by (auto simp: some_and_byte)
  then show ?thesis using assms(1) by (auto simp: list_all_length)
qed

lemma next_token_placed:
  assumes "scalars source" and "blen source < 2 ^ 32" and "is_char_boundary source at"
  shows "\<exists>t. next_token source at mode = Some t \<and> placed source at t"
proof -
  let ?a = "run_while is_blank (as_bytes source) at"
  have at: "at \<le> blen source" by (rule boundary_le[OF assms(3)])
  have a: "is_char_boundary source ?a" "at \<le> ?a"
    using run_classes_bnd(3)[OF assms(1,3)] run_while_le by auto
  note blanks = blanks_before[OF at refl]
  show ?thesis
  proof (cases "?a < blen source")
    case True
    then obtain t where t: "next_token source at mode = Some t" "tok_ok source ?a t"
      using significant_token[OF assms refl] at by (auto simp: min_absorb1)
    then have "placed source at t"
      using a blanks boundary_le by (auto simp: placed_def tok_ok_def Let_def)
    then show ?thesis using t(1) by blast
  next
    case False
    then have end_of: "?a = blen source" using boundary_le[OF a(1)] by simp
    then have "next_token source at mode = Some (token Eof (blen source) (blen source))"
      using at by (simp add: next_token_def Let_def min_absorb1 byte_at_def)
    moreover have "placed source at (token Eof (blen source) (blen source))"
      using a blanks end_of assms(2) token_fields[of source "blen source" "blen source" Eof]
      by (simp add: placed_def Let_def)
    ultimately show ?thesis by blast
  qed
qed

text \<open>
  C39: Whatever mode the parser reads in, the lexer answers a token without panicking when it is
  asked at a character boundary of a source below four gibibytes, and the token is placed as
  the parser relies on: behind blanks only, inside the source, on character boundaries, and
  empty exactly at the end.
\<close>

theorem lexer_total_and_placed:
  assumes "scalars source" and "blen source < 2 ^ 32" and "is_char_boundary source at"
  shows "\<exists>t. next_token source at mode = Some t \<and> placed source at t"
  by (rule next_token_placed[OF assms])

theorem lexer_total_and_placed_witness:
  "\<exists>t. next_token (asc ''get  '' @ [233] @ asc '' | where'') 3 Words = Some t \<and>
       placed (asc ''get  '' @ [233] @ asc '' | where'') 3 t"
  by (rule lexer_total_and_placed) (simp_all add: scalars_def len_utf8_def is_char_boundary_def)

end
