(* ===== verification/Token_Access.thy ===== *)
theory Token_Access
  imports Shell_Lexer
begin

text \<open>
  How the parser reads tokens (\<open>crates/ono-parser/src/parser/state.rs\<close>) and where it resumes
  after something it could not read (\<open>crates/ono-parser/src/parser/recovery.rs\<close>).  The loops
  are partial functions: \<open>None\<close> is a panic or a loop that does not end, and the theorems show
  that neither happens.
\<close>

section \<open>State and operations\<close>

record Parser =
  source :: ustr
  limit :: nat
  pos :: nat
  recording :: "Token list option"

definition parser_new :: "ustr \<Rightarrow> Parser" where
  "parser_new s = \<lparr>source = s, limit = blen s, pos = 0, recording = None\<rparr>"

definition parser_text :: "Parser \<Rightarrow> ustr" where
  "parser_text p = (case split_at (limit p) (source p) of None \<Rightarrow> source p | Some (a, _) \<Rightarrow> a)"

definition consume :: "Token \<Rightarrow> Parser \<Rightarrow> Parser" where
  "consume t p = p\<lparr>pos := span_end (span t), recording := map_option (\<lambda>r. r @ [t]) (recording p)\<rparr>"

partial_function (option) peek :: "LexMode \<Rightarrow> Parser \<Rightarrow> (Token \<times> Parser) option" where
  "peek mode p =
     (case next_token (parser_text p) (pos p) mode of
        None \<Rightarrow> None
      | Some t \<Rightarrow> if kind t = Comment then peek mode (consume t p) else Some (t, p))"

partial_function (option) peek_from :: "LexMode \<Rightarrow> Parser \<Rightarrow> nat \<Rightarrow> Token option" where
  "peek_from mode p at =
     (case next_token (parser_text p) at mode of
        None \<Rightarrow> None
      | Some t \<Rightarrow> if kind t = Comment then peek_from mode p (span_end (span t)) else Some t)"

definition peek_after :: "LexMode \<Rightarrow> Token \<Rightarrow> Parser \<Rightarrow> Token option" where
  "peek_after mode t p = peek_from mode p (span_end (span t))"

definition bump :: "LexMode \<Rightarrow> Parser \<Rightarrow> (Token \<times> Parser) option" where
  "bump mode p =
     map_option (\<lambda>(t, p). (t, if kind t \<noteq> Eof then consume t p else p)) (peek mode p)"

definition eat :: "LexMode \<Rightarrow> TokenKind \<Rightarrow> Parser \<Rightarrow> (Token option \<times> Parser) option" where
  "eat mode k p =
     Option.bind (peek mode p) (\<lambda>(t, p).
       if kind t = k then map_option (\<lambda>(t, p). (Some t, p)) (bump mode p) else Some (None, p))"

definition at_keyword :: "LexMode \<Rightarrow> ustr \<Rightarrow> Parser \<Rightarrow> (bool \<times> Parser) option" where
  "at_keyword mode keyword p =
     map_option (\<lambda>(t, p). ((kind t = Ident \<or> kind t = Word) \<and> span_of (span t) (source p) = keyword, p))
       (peek mode p)"

partial_function (option) skip_newlines :: "LexMode \<Rightarrow> Parser \<Rightarrow> Parser option" where
  "skip_newlines mode p =
     Option.bind (peek mode p) (\<lambda>(t, p).
       if kind t = Newline then Option.bind (bump mode p) (\<lambda>(_, p). skip_newlines mode p) else Some p)"

partial_function (option) skip_separators :: "Parser \<Rightarrow> Parser option" where
  "skip_separators p =
     Option.bind (peek Words p) (\<lambda>(t, p).
       if kind t = Newline \<or> kind t = Semi
       then Option.bind (bump Words p) (\<lambda>(_, p). skip_separators p) else Some p)"

section \<open>Recovery\<close>

definition is_possibly_unfinished :: "Token \<Rightarrow> Parser \<Rightarrow> bool" where
  "is_possibly_unfinished t p \<longleftrightarrow>
     kind t = Eof \<or> (span_end (span t) = limit p \<and> \<not> is_closing_delimiter (kind t))"

partial_function (option) recover_to_statement_end :: "Parser \<Rightarrow> Parser option" where
  "recover_to_statement_end p =
     Option.bind (peek Words p) (\<lambda>(t, p).
       if kind t = Eof \<or> kind t = RBrace then Some p
       else if kind t = Semi \<or> kind t = Newline then map_option snd (bump Words p)
       else Option.bind (bump Words p) (\<lambda>(_, p). recover_to_statement_end p))"

partial_function (option) skip_balanced :: "nat \<Rightarrow> Parser \<Rightarrow> (Span \<times> Parser) option" where
  "skip_balanced open_braces p =
     Option.bind (peek Words p) (\<lambda>(t, p).
       if kind t = Eof then Some (span t, p)
       else if kind t = RBrace \<and> open_braces = 1
         then map_option (\<lambda>(t, p). (span t, p)) (bump Words p)
       else Option.bind (bump Words p) (\<lambda>(_, p).
         skip_balanced
           (if kind t = LBrace then open_braces + 1
            else if kind t = RBrace then open_braces - 1 else open_braces) p))"

definition skip_balanced_block :: "Parser \<Rightarrow> (Span \<times> Parser) option" where
  "skip_balanced_block p = skip_balanced 1 p"

section \<open>What every access keeps\<close>

text \<open>
  The recorded tokens tile the part of the source that was read: they are in order, none is
  empty, none overlaps another, and only blanks lie between them.
\<close>

fun tiles :: "ustr \<Rightarrow> nat \<Rightarrow> Token list \<Rightarrow> nat \<Rightarrow> bool" where
  "tiles s at [] e \<longleftrightarrow> at = e"
| "tiles s at (t # ts) e \<longleftrightarrow>
     at \<le> span_start (span t) \<and>
     list_all is_blank (take (span_start (span t) - at) (drop at (as_bytes s))) \<and>
     span_start (span t) < span_end (span t) \<and>
     is_char_boundary s (span_start (span t)) \<and> is_char_boundary s (span_end (span t)) \<and>
     tiles s (span_end (span t)) ts e"

definition parser_ok :: "Parser \<Rightarrow> bool" where
  "parser_ok p \<longleftrightarrow>
     scalars (source p) \<and> blen (source p) < 2 ^ 32 \<and> is_char_boundary (source p) (limit p) \<and>
     is_char_boundary (parser_text p) (pos p)"

text \<open>A step of the parser: it moves on in the same source and records what it passes.\<close>

definition moves :: "Parser \<Rightarrow> Parser \<Rightarrow> bool" where
  "moves p p' \<longleftrightarrow>
     parser_ok p' \<and> source p' = source p \<and> limit p' = limit p \<and>
     (\<exists>ts. recording p' = map_option (\<lambda>r. r @ ts) (recording p) \<and> tiles (parser_text p) (pos p) ts (pos p'))"

lemma tiles_append:
  "tiles s at (ts @ us) e \<longleftrightarrow> (\<exists>m. tiles s at ts m \<and> tiles s m us e)"
  by (induction ts arbitrary: at) auto

lemma tiles_le: "tiles s at ts e \<Longrightarrow> at + length ts \<le> e"
  by (induction ts arbitrary: at) (auto, fastforce)

lemma parser_text_same: "source p' = source p \<Longrightarrow> limit p' = limit p \<Longrightarrow> parser_text p' = parser_text p"
  by (simp add: parser_text_def split: option.split)

lemma parser_text_ok:
  assumes "parser_ok p"
  shows "scalars (parser_text p)" and "blen (parser_text p) < 2 ^ 32" and "blen (parser_text p) = limit p"
proof -
  obtain a b where ab: "split_at (limit p) (source p) = Some (a, b)"
    using assms by (auto simp: parser_ok_def is_char_boundary_def)
  then have "source p = a @ b" "limit p = blen a" by (auto simp: split_at_Some)
  then show "scalars (parser_text p)" "blen (parser_text p) < 2 ^ 32" "blen (parser_text p) = limit p"
    using assms ab by (auto simp: parser_ok_def parser_text_def scalars_def)
qed

lemma moves_refl: "parser_ok p \<Longrightarrow> moves p p"
  by (auto simp: moves_def option.map_ident intro!: exI[of _ "[]"])

lemma moves_trans: "moves p q \<Longrightarrow> moves q r \<Longrightarrow> moves p r"
proof -
  assume pq: "moves p q" and qr: "moves q r"
  obtain ts where ts: "recording q = map_option (\<lambda>r. r @ ts) (recording p)"
    "tiles (parser_text p) (pos p) ts (pos q)" "source q = source p" "limit q = limit p"
    using pq by (auto simp: moves_def)
  obtain us where us: "recording r = map_option (\<lambda>r. r @ us) (recording q)"
    "tiles (parser_text q) (pos q) us (pos r)" "source r = source q" "limit r = limit q" "parser_ok r"
    using qr by (auto simp: moves_def)
  have "tiles (parser_text p) (pos p) (ts @ us) (pos r)"
    using ts us parser_text_same[of q p] by (auto simp: tiles_append)
  moreover have "recording r = map_option (\<lambda>r. r @ ts @ us) (recording p)"
    using ts(1) us(1) by (cases "recording p") auto
  ultimately show "moves p r" using ts us by (auto simp: moves_def)
qed

lemma moves_ok: "moves p q \<Longrightarrow> parser_ok q"
  by (simp add: moves_def)

lemma next_placed:
  assumes "parser_ok p"
  obtains t where "next_token (parser_text p) (pos p) mode = Some t" "placed (parser_text p) (pos p) t"
  using next_token_placed assms parser_text_ok[OF assms] that unfolding parser_ok_def by blast

lemma moves_pos: "moves p q \<Longrightarrow> pos p \<le> pos q \<and> pos q \<le> limit p"
  using parser_text_ok(3)[of q] boundary_le[of "parser_text q" "pos q"]
  by (auto simp: moves_def parser_ok_def dest!: tiles_le)

lemma consume_moves:
  assumes "parser_ok p" and "placed (parser_text p) (pos p) t" and "kind t \<noteq> Eof"
  shows "moves p (consume t p) \<and> pos p < pos (consume t p)"
proof -
  have same: "parser_text (consume t p) = parser_text p"
    by (rule parser_text_same) (simp_all add: consume_def)
  have "parser_ok (consume t p)"
    using assms same by (simp add: parser_ok_def placed_def Let_def) (simp add: consume_def)
  moreover have "tiles (parser_text p) (pos p) [t] (pos (consume t p))"
    using assms by (simp add: placed_def Let_def consume_def)
  ultimately show ?thesis
    using assms by (auto simp: moves_def consume_def placed_def Let_def intro!: exI[of _ "[t]"])
qed

definition looked :: "LexMode \<Rightarrow> Token \<Rightarrow> Parser \<Rightarrow> bool" where
  "looked mode t p \<longleftrightarrow>
     next_token (parser_text p) (pos p) mode = Some t \<and> placed (parser_text p) (pos p) t \<and>
     kind t \<noteq> Comment"

lemma parser_induct [consumes 1, case_names step]:
  assumes "parser_ok p"
    and "\<And>p. parser_ok p \<Longrightarrow> (\<And>q. moves p q \<Longrightarrow> pos p < pos q \<Longrightarrow> P q) \<Longrightarrow> P p"
  shows "P p"
  using assms(1)
proof (induction "limit p - pos p" arbitrary: p rule: less_induct)
  case less
  show ?case
  proof (rule assms(2)[OF less.prems])
    fix q assume q: "moves p q" "pos p < pos q"
    then have "limit q - pos q < limit p - pos p"
      using moves_pos[OF q(1)] by (auto simp: moves_def)
    then show "P q" using less.hyps moves_ok[OF q(1)] by blast
  qed
qed

lemma peek_moves:
  assumes "parser_ok p"
  shows "\<exists>t q. peek mode p = Some (t, q) \<and> moves p q \<and> looked mode t q"
  using assms
proof (induction rule: parser_induct)
  case (step p)
  obtain t where t: "next_token (parser_text p) (pos p) mode = Some t" "placed (parser_text p) (pos p) t"
    by (rule next_placed[OF step(1)])
  show ?case
  proof (cases "kind t = Comment")
    case True
    then have "moves p (consume t p)" "pos p < pos (consume t p)"
      using consume_moves[OF step(1) t(2)] by auto
    moreover have "peek mode p = peek mode (consume t p)"
      by (subst peek.simps) (simp add: t(1) True)
    ultimately show ?thesis using step(2) moves_trans by metis
  next
    case False
    then have "peek mode p = Some (t, p)" by (subst peek.simps) (simp add: t(1))
    then show ?thesis using moves_refl[OF step(1)] t False by (auto simp: looked_def)
  qed
qed

lemma peek_again: "looked mode t p \<Longrightarrow> peek mode p = Some (t, p)"
  by (subst peek.simps) (simp add: looked_def)

lemma bump_looked:
  assumes "parser_ok p" and "looked mode t p"
  shows "bump mode p = Some (t, if kind t \<noteq> Eof then consume t p else p)"
    and "kind t \<noteq> Eof \<Longrightarrow> moves p (consume t p) \<and> pos p < pos (consume t p)"
  using assms peek_again[OF assms(2)] consume_moves[OF assms(1)]
  by (simp_all add: bump_def looked_def)

lemma bump_moves:
  assumes "parser_ok p"
  shows "\<exists>t q. bump mode p = Some (t, q) \<and> moves p q \<and> (kind t = Eof \<or> pos p < pos q)"
proof -
  obtain t q where q: "peek mode p = Some (t, q)" "moves p q" "looked mode t q"
    using peek_moves[OF assms] by blast
  have "bump mode p = Some (t, if kind t \<noteq> Eof then consume t q else q)"
    using q(1) by (simp add: bump_def)
  then show ?thesis
    using q bump_looked(2)[OF moves_ok[OF q(2)] q(3)] moves_trans[OF q(2)] moves_pos[OF q(2)]
    by (cases "kind t = Eof") auto
qed

lemma eat_moves:
  assumes "parser_ok p"
  shows "\<exists>r q. eat mode k p = Some (r, q) \<and> moves p q"
proof -
  obtain t q where q: "peek mode p = Some (t, q)" "moves p q"
    using peek_moves[OF assms] by blast
  obtain t' q' where "bump mode q = Some (t', q')" "moves q q'"
    using bump_moves[OF moves_ok[OF q(2)]] by blast
  then show ?thesis using q moves_trans[OF q(2)] by (auto simp: eat_def)
qed

text \<open>
  Every loop here looks at a token and, unless it stops, consumes it and goes on; the next
  token is then further along.
\<close>

lemma peek_then_bump:
  assumes "parser_ok p"
  obtains t q where "peek mode p = Some (t, q)" "moves p q"
    "kind t \<noteq> Eof \<Longrightarrow> \<exists>r. bump mode q = Some (t, r) \<and> moves p r \<and> pos p < pos r"
proof -
  obtain t q where q: "peek mode p = Some (t, q)" "moves p q" "looked mode t q"
    using peek_moves[OF assms] by blast
  have "\<exists>r. bump mode q = Some (t, r) \<and> moves p r \<and> pos p < pos r" if "kind t \<noteq> Eof"
    using bump_looked[OF moves_ok[OF q(2)] q(3)] that moves_trans[OF q(2)] moves_pos[OF q(2)]
    by (auto intro!: exI[of _ "consume t q"])
  then show ?thesis using q that by blast
qed

lemma skip_newlines_moves:
  assumes "parser_ok p"
  shows "\<exists>q. skip_newlines mode p = Some q \<and> moves p q"
  using assms
proof (induction rule: parser_induct)
  case (step p)
  obtain t q where q: "peek mode p = Some (t, q)" "moves p q"
    and consumed: "kind t \<noteq> Eof \<Longrightarrow> \<exists>r. bump mode q = Some (t, r) \<and> moves p r \<and> pos p < pos r"
    by (rule peek_then_bump[OF step(1)]) blast
  show ?case
  proof (cases "kind t = Newline")
    case True
    then obtain r where r: "bump mode q = Some (t, r)" "moves p r" "pos p < pos r" using consumed by auto
    obtain x where "skip_newlines mode r = Some x" "moves r x" using step(2)[OF r(2,3)] by blast
    then show ?thesis using q(1) r(1) True moves_trans[OF r(2)] by (subst skip_newlines.simps) auto
  next
    case False
    then show ?thesis using q by (subst skip_newlines.simps) auto
  qed
qed

lemma skip_separators_moves:
  assumes "parser_ok p"
  shows "\<exists>q. skip_separators p = Some q \<and> moves p q"
  using assms
proof (induction rule: parser_induct)
  case (step p)
  obtain t q where q: "peek Words p = Some (t, q)" "moves p q"
    and consumed: "kind t \<noteq> Eof \<Longrightarrow> \<exists>r. bump Words q = Some (t, r) \<and> moves p r \<and> pos p < pos r"
    by (rule peek_then_bump[OF step(1)]) blast
  show ?case
  proof (cases "kind t = Newline \<or> kind t = Semi")
    case True
    then obtain r where r: "bump Words q = Some (t, r)" "moves p r" "pos p < pos r" using consumed by auto
    obtain x where "skip_separators r = Some x" "moves r x" using step(2)[OF r(2,3)] by blast
    then show ?thesis using q(1) r(1) True moves_trans[OF r(2)] by (subst skip_separators.simps) auto
  next
    case False
    then show ?thesis using q by (subst skip_separators.simps) auto
  qed
qed

lemma recover_moves:
  assumes "parser_ok p"
  shows "\<exists>q. recover_to_statement_end p = Some q \<and> moves p q"
  using assms
proof (induction rule: parser_induct)
  case (step p)
  obtain t q where q: "peek Words p = Some (t, q)" "moves p q"
    and consumed: "kind t \<noteq> Eof \<Longrightarrow> \<exists>r. bump Words q = Some (t, r) \<and> moves p r \<and> pos p < pos r"
    by (rule peek_then_bump[OF step(1)]) blast
  consider "kind t = Eof \<or> kind t = RBrace" | "kind t = Semi \<or> kind t = Newline"
    | "\<not> (kind t = Eof \<or> kind t = RBrace)" "\<not> (kind t = Semi \<or> kind t = Newline)" by blast
  then show ?case
  proof cases
    case 1
    then show ?thesis using q by (subst recover_to_statement_end.simps) auto
  next
    case 2
    then show ?thesis using q consumed by (subst recover_to_statement_end.simps) auto
  next
    case 3
    then obtain r where r: "bump Words q = Some (t, r)" "moves p r" "pos p < pos r" using consumed by auto
    obtain x where "recover_to_statement_end r = Some x" "moves r x" using step(2)[OF r(2,3)] by blast
    then show ?thesis using q r 3 moves_trans[OF r(2)] by (subst recover_to_statement_end.simps) auto
  qed
qed

lemma skip_balanced_moves:
  assumes "parser_ok p"
  shows "\<exists>sp q. skip_balanced n p = Some (sp, q) \<and> moves p q"
  using assms
proof (induction arbitrary: n rule: parser_induct)
  case (step p)
  obtain t q where q: "peek Words p = Some (t, q)" "moves p q"
    and consumed: "kind t \<noteq> Eof \<Longrightarrow> \<exists>r. bump Words q = Some (t, r) \<and> moves p r \<and> pos p < pos r"
    by (rule peek_then_bump[OF step(1)]) blast
  consider "kind t = Eof" | "kind t = RBrace" "n = 1" | "kind t \<noteq> Eof" "\<not> (kind t = RBrace \<and> n = 1)"
    by blast
  then show ?case
  proof cases
    case 1
    then show ?thesis using q by (subst skip_balanced.simps) auto
  next
    case 2
    then show ?thesis using q consumed by (subst skip_balanced.simps) auto
  next
    case 3
    then obtain r where r: "bump Words q = Some (t, r)" "moves p r" "pos p < pos r" using consumed by auto
    let ?n = "if kind t = LBrace then n + 1 else if kind t = RBrace then n - 1 else n"
    obtain sp x where x: "skip_balanced ?n r = Some (sp, x)" "moves r x" using step(2)[OF r(2,3)] by blast
    have "skip_balanced n p = skip_balanced ?n r"
      using q(1) r(1) 3 by (subst skip_balanced.simps) auto
    then show ?thesis using x moves_trans[OF r(2)] by auto
  qed
qed

lemma peek_from_total:
  assumes "parser_ok p" and "is_char_boundary (parser_text p) at"
  shows "\<exists>t. peek_from mode p at = Some t \<and> kind t \<noteq> Comment"
  using assms(2)
proof (induction "limit p - at" arbitrary: at rule: less_induct)
  case less
  obtain t where t: "next_token (parser_text p) at mode = Some t" "placed (parser_text p) at t"
    using next_token_placed[OF parser_text_ok(1,2)[OF assms(1)] less.prems] by blast
  show ?case
  proof (cases "kind t = Comment")
    case True
    have "limit p - span_end (span t) < limit p - at" "is_char_boundary (parser_text p) (span_end (span t))"
      using t(2) True parser_text_ok(3)[OF assms(1)] by (auto simp: placed_def Let_def)
    then show ?thesis using less.hyps[of "span_end (span t)"] t(1) True by (subst peek_from.simps) simp
  next
    case False
    then show ?thesis using t(1) by (subst peek_from.simps) simp
  qed
qed

section \<open>Reading a source\<close>

text \<open>One access of the parser to its tokens, whichever the grammar asks for.\<close>

datatype parser_access =
    Peek LexMode
  | Bump LexMode
  | Eat LexMode TokenKind
  | AtKeyword LexMode ustr
  | SkipNewlines LexMode
  | SkipSeparators
  | RecoverToStatementEnd
  | SkipBalancedBlock

fun access :: "Parser \<Rightarrow> parser_access \<Rightarrow> Parser option" where
  "access p (Peek m) = map_option snd (peek m p)"
| "access p (Bump m) = map_option snd (bump m p)"
| "access p (Eat m k) = map_option snd (eat m k p)"
| "access p (AtKeyword m w) = map_option snd (at_keyword m w p)"
| "access p (SkipNewlines m) = skip_newlines m p"
| "access p SkipSeparators = skip_separators p"
| "access p RecoverToStatementEnd = recover_to_statement_end p"
| "access p SkipBalancedBlock = map_option snd (skip_balanced_block p)"

lemma access_moves:
  assumes "parser_ok p"
  shows "\<exists>q. access p a = Some q \<and> moves p q"
proof (cases a)
  case (Peek m)
  then show ?thesis using peek_moves[OF assms, of m] by auto
next
  case (Bump m)
  then show ?thesis using bump_moves[OF assms, of m] by auto
next
  case (Eat m k)
  then show ?thesis using eat_moves[OF assms, of m k] by auto
next
  case (AtKeyword m w)
  then show ?thesis using peek_moves[OF assms, of m] by (auto simp: at_keyword_def)
next
  case SkipBalancedBlock
  then show ?thesis using skip_balanced_moves[OF assms, of 1] by (auto simp: skip_balanced_block_def)
qed (use skip_newlines_moves[OF assms] skip_separators_moves[OF assms] recover_moves[OF assms] in auto)

interpretation token_reading: guarded_machine access parser_ok "moves p" for p
  using access_moves moves_ok moves_trans by unfold_locales (metis option.inject)+

lemma accesses_total: "parser_ok p \<Longrightarrow> \<exists>q. run_events access p as = Some q"
proof (induction "as" arbitrary: p)
  case Nil
  then show ?case by simp
next
  case (Cons a "as")
  obtain r where "access p a = Some r" "moves p r" using access_moves[OF Cons.prems] by blast
  then show ?case using Cons.IH[of r] moves_ok by auto
qed

text \<open>
  Reading never fails: from a fresh parser that records, any sequence of accesses in any
  modes, recovery included, ends without a panic and leaves the recorded tokens in source
  order, none empty, none overlapping another, on character boundaries, with only blanks
  between them; at most one token per byte is ever recorded, so a loop that consumes a token
  each round ends.
\<close>

theorem reading_tiles_source:
  assumes "scalars s" and "blen s < 2 ^ 32"
  shows "\<exists>p ts. run_events access ((parser_new s)\<lparr>recording := Some []\<rparr>) as = Some p \<and>
     source p = s \<and> recording p = Some ts \<and> tiles s 0 ts (pos p) \<and> length ts \<le> pos p \<and> pos p \<le> blen s"
proof -
  let ?p = "(parser_new s)\<lparr>recording := Some []\<rparr>"
  have whole: "parser_text ?p = s"
    by (simp add: parser_text_def parser_new_def split: option.split)
      (auto simp: split_at_Some)
  have ok: "parser_ok ?p" using assms whole by (simp add: parser_ok_def) (simp add: parser_new_def)
  then obtain q where q: "run_events access ?p as = Some q" using accesses_total by blast
  have "moves ?p q" by (rule token_reading.run_settled[OF ok moves_refl[OF ok] q])
  then obtain ts where "recording q = Some ts" "tiles s 0 ts (pos q)" "source q = s"
    using whole by (auto simp: moves_def) (auto simp: parser_new_def)
  then show ?thesis
    using q tiles_le[of s 0 ts "pos q"] moves_pos[OF \<open>moves ?p q\<close>] by (auto simp: parser_new_def)
qed

theorem reading_tiles_source_witness:
  "\<exists>p ts. run_events access ((parser_new (asc ''get | '' @ [233, 32, 35]))\<lparr>recording := Some []\<rparr>)
       [Peek Words, Bump Words, Eat Words Pipe, RecoverToStatementEnd] = Some p \<and>
     source p = asc ''get | '' @ [233, 32, 35] \<and> recording p = Some ts \<and>
     tiles (asc ''get | '' @ [233, 32, 35]) 0 ts (pos p) \<and> length ts \<le> pos p \<and>
     pos p \<le> blen (asc ''get | '' @ [233, 32, 35])"
  by (rule reading_tiles_source) (simp_all add: scalars_def len_utf8_def)

end
