(* ===== verification/Mount_Table.thy ===== *)
theory Mount_Table
  imports Ono_Text
begin

text \<open>
  The two mount tables of the storage provider
  (\<open>crates/ono-provider-linux/src/storage.rs\<close>): the decoding of \<open>/proc/self/mountinfo\<close>, the
  reading and editing of \<open>/etc/fstab\<close>, and the systemd unit name of a mount point.  A path is
  the text \<open>to_string_lossy\<close> shows, and two paths are equal when their components are, as
  \<open>Path\<close> compares them.  The table file is its text, or \<open>None\<close> when it does not exist; each
  call on it has its outcome as an argument, so that every refusal is a branch.
\<close>

section \<open>Octal escapes\<close>

text \<open>\<open>u8::from_str_radix (_, 8)\<close>: an optional plus sign and digits that stay below 256.\<close>

fun radix8_fold :: "nat \<Rightarrow> ustr \<Rightarrow> nat option" where
  "radix8_fold a [] = Some a"
| "radix8_fold a (c # cs) =
     (if 48 \<le> c \<and> c \<le> 55 \<and> a * 8 + (c - 48) < 256 then radix8_fold (a * 8 + (c - 48)) cs
      else None)"

definition u8_from_str_radix8 :: "ustr \<Rightarrow> nat option" where
  "u8_from_str_radix8 s =
     (case s of
        [] \<Rightarrow> None
      | [c] \<Rightarrow> if c = 43 \<or> c = 45 then None else radix8_fold 0 [c]
      | c # cs \<Rightarrow> if c = 43 then radix8_fold 0 cs else radix8_fold 0 s)"

text \<open>
  The cursor of the source's loop always stands before a character, so the remaining text is
  the state of the loop.  The three bytes behind a backslash decode only when they are three
  ASCII characters: a wider character among them is no octal digit.
\<close>

fun unescape :: "ustr \<Rightarrow> ustr" where
  "unescape [] = []"
| "unescape (c # cs) =
     (if c = 92 then
        (case cs of
           x # y # z # rest \<Rightarrow>
             (case u8_from_str_radix8 [x, y, z] of
                Some byte \<Rightarrow> byte # unescape rest
              | None \<Rightarrow> c # unescape cs)
         | _ \<Rightarrow> c # unescape cs)
      else c # unescape cs)"

definition escape_char :: "nat \<Rightarrow> ustr" where
  "escape_char c =
     (if c = 32 then [92, 48, 52, 48]
      else if c = 9 then [92, 48, 49, 49]
      else if c = 10 then [92, 48, 49, 50]
      else if c = 92 then [92, 49, 51, 52]
      else [c])"

definition escape_fstab :: "ustr \<Rightarrow> ustr" where
  "escape_fstab field = concat (map escape_char field)"

section \<open>The kernel's table\<close>

record MountInfo =
  mi_source :: ustr
  mi_target :: ustr
  mi_filesystem :: ustr
  mi_options :: "ustr list"
  mi_device :: "ustr option"
  mi_device_number :: ustr
  mi_peer_group :: "int option"

text \<open>\<open>str::parse::<i64>\<close>.\<close>

definition parse_i64 :: "ustr \<Rightarrow> int option" where
  "parse_i64 s =
     (let neg = (s \<noteq> [] \<and> hd s = 45);
          body = (if s \<noteq> [] \<and> (hd s = 43 \<or> hd s = 45) then tl s else s);
          v = int (digits_value body) in
      if body = [] \<or> \<not> list_all is_ascii_digit body then None
      else if neg then (if v \<le> 2 ^ 63 then Some (- v) else None)
      else if v < 2 ^ 63 then Some v else None)"

definition list_get :: "nat \<Rightarrow> 'a list \<Rightarrow> 'a option" where
  "list_get i xs = (if i < length xs then Some (xs ! i) else None)"

fun first_index :: "ustr \<Rightarrow> ustr list \<Rightarrow> nat option" where
  "first_index w [] = None"
| "first_index w (x # xs) = (if x = w then Some 0 else map_option Suc (first_index w xs))"

fun find_map :: "('a \<Rightarrow> 'b option) \<Rightarrow> 'a list \<Rightarrow> 'b option" where
  "find_map f [] = None"
| "find_map f (x # xs) = (case f x of Some y \<Rightarrow> Some y | None \<Rightarrow> find_map f xs)"

definition push_option :: "ustr \<Rightarrow> ustr list \<Rightarrow> ustr list" where
  "push_option opt kept = (if opt \<in> set kept then kept else kept @ [opt])"

definition parse_mountinfo_line :: "ustr \<Rightarrow> MountInfo option" where
  "parse_mountinfo_line line =
     (let flds = filter (\<lambda>f. f \<noteq> []) (split_on 32 line) in
      case first_index [45] flds of None \<Rightarrow> None | Some separator \<Rightarrow>
      case list_get 2 flds of None \<Rightarrow> None | Some device \<Rightarrow>
      case list_get 4 flds of None \<Rightarrow> None | Some target_field \<Rightarrow>
      case list_get 5 flds of None \<Rightarrow> None | Some mount_options \<Rightarrow>
      case list_get (separator + 1) flds of None \<Rightarrow> None | Some filesystem \<Rightarrow>
      case list_get (separator + 2) flds of None \<Rightarrow> None | Some source_field \<Rightarrow>
      let super_options = (case list_get (separator + 3) flds of None \<Rightarrow> [] | Some f \<Rightarrow> f);
          optional = (if 6 \<le> separator then drop 6 (take separator flds) else []);
          options = filter (\<lambda>w. w \<noteq> []) (split_on 44 mount_options @ split_on 44 super_options)
      in Some
        \<lparr>mi_source = unescape source_field,
         mi_target = unescape target_field,
         mi_filesystem = filesystem,
         mi_options = fold push_option options [],
         mi_device =
           (case split_once 58 device of
              None \<Rightarrow> None
            | Some (major, _) \<Rightarrow> if major = asc ''0'' then None else Some device),
         mi_device_number = device,
         mi_peer_group =
           Option.bind (find_map (strip_prefix (asc ''shared:'')) optional) parse_i64\<rparr>)"

definition parse_mountinfo :: "ustr \<Rightarrow> MountInfo list" where
  "parse_mountinfo s = List.map_filter parse_mountinfo_line (str_lines s)"

definition read_only :: "MountInfo \<Rightarrow> bool" where
  "read_only m \<longleftrightarrow> asc ''ro'' \<in> set (mi_options m)"

section \<open>The definitions table\<close>

record MountDefinition =
  md_source :: ustr
  md_target :: ustr
  md_fs_type :: ustr
  md_options :: "ustr list"

definition parse_fstab_line :: "ustr \<Rightarrow> MountDefinition option" where
  "parse_fstab_line l =
     (let line = trim l in
      if line = [] \<or> hd line = 35 then None
      else (case split_whitespace line of
              s # t # f # rest \<Rightarrow>
                Some \<lparr>md_source = unescape s, md_target = unescape t, md_fs_type = f,
                      md_options = filter (\<lambda>w. w \<noteq> [])
                        (split_on 44 (case rest of [] \<Rightarrow> asc ''defaults'' | w # _ \<Rightarrow> w))\<rparr>
            | _ \<Rightarrow> None))"

definition parse_fstab :: "ustr \<Rightarrow> MountDefinition list" where
  "parse_fstab s = List.map_filter parse_fstab_line (str_lines s)"

text \<open>
  \<open>Path::components\<close>: the root, then every part that is neither empty nor a dot; a leading
  dot of a relative path is a component.
\<close>

definition path_components :: "ustr \<Rightarrow> bool \<times> ustr list" where
  "path_components p =
     (let parts = split_on 47 p;
          rooted = (p \<noteq> [] \<and> hd p = 47);
          kept = filter (\<lambda>w. w \<noteq> [] \<and> w \<noteq> [46]) parts
      in (rooted, if \<not> rooted \<and> hd parts = [46] then [46] # kept else kept))"

definition path_eq :: "ustr \<Rightarrow> ustr \<Rightarrow> bool" where
  "path_eq p q \<longleftrightarrow> path_components p = path_components q"

definition defines_mount :: "ustr \<Rightarrow> ustr \<Rightarrow> bool" where
  "defines_mount l target =
     (let trimmed = trim l in
      if trimmed = [] \<or> hd trimmed = 35 then False
      else (case split_whitespace trimmed of
              _ # f # _ \<Rightarrow> path_eq (unescape f) target
            | _ \<Rightarrow> False))"

datatype storage_error =
    MissingArgument string
  | AlreadyDefined ustr
  | NotDefined ustr
  | TableUnreadable io_kind
  | TableUnwritable io_kind

datatype outcome = Succeeded | Skipped | Failed storage_error

definition definitions_of :: "io_kind option \<Rightarrow> ustr option \<Rightarrow> storage_error + MountDefinition list" where
  "definitions_of io_read file =
     (case io_read of
        Some k \<Rightarrow> if k = NotFound then Inr [] else Inl (TableUnreadable k)
      | None \<Rightarrow> (case file of None \<Rightarrow> Inr [] | Some s \<Rightarrow> Inr (parse_fstab s)))"

definition fstab_line :: "ustr \<Rightarrow> ustr \<Rightarrow> ustr \<Rightarrow> ustr list \<Rightarrow> ustr" where
  "fstab_line source target fs_type options =
     escape_fstab source @ [9] @ escape_fstab target @ [9] @ fs_type @ [9] @
     (if options = [] then asc ''defaults'' else join_with 44 options) @ [9] @ asc ''0'' @
     [9] @ asc ''0'' @ [10]"

text \<open>
  \<open>add mount\<close>.  The source is the one \<open>mount_source\<close> resolved, \<open>detected\<close> is the type udev
  recorded for it.  The append fails when the file cannot be opened, or after a prefix of
  the line was written.
\<close>

definition add_definition ::
    "io_kind option \<Rightarrow> (io_kind \<times> nat option) option \<Rightarrow> ustr option \<Rightarrow> ustr option \<Rightarrow> ustr option \<Rightarrow>
     ustr option \<Rightarrow> ustr list \<Rightarrow> bool \<Rightarrow> ustr option \<Rightarrow> outcome \<times> ustr option" where
  "add_definition io_read io_append source target fs_type detected options dry_run file =
     (case source of None \<Rightarrow> (Failed (MissingArgument ''source''), file) | Some src \<Rightarrow>
      case target of None \<Rightarrow> (Failed (MissingArgument ''target''), file) | Some tgt \<Rightarrow>
      case definitions_of io_read file of Inl e \<Rightarrow> (Failed e, file) | Inr definitions \<Rightarrow>
      if list_ex (\<lambda>d. path_eq (md_target d) tgt) definitions then (Failed (AlreadyDefined tgt), file)
      else
        let ty = (case fs_type of Some t \<Rightarrow> t | None \<Rightarrow>
                   (case detected of Some t \<Rightarrow> t | None \<Rightarrow> asc ''auto''));
            line = fstab_line src tgt ty options;
            old = (case file of None \<Rightarrow> [] | Some s \<Rightarrow> s)
        in if dry_run then (Skipped, file)
           else (case io_append of
                   None \<Rightarrow> (Succeeded, Some (old @ line))
                 | Some (k, None) \<Rightarrow> (Failed (TableUnwritable k), file)
                 | Some (k, Some n) \<Rightarrow> (Failed (TableUnwritable k), Some (old @ take n line))))"

definition kept_lines :: "ustr \<Rightarrow> ustr \<Rightarrow> ustr list" where
  "kept_lines target s = filter (\<lambda>l. \<not> defines_mount l target) (str_lines s)"

definition rewritten_table :: "ustr list \<Rightarrow> ustr" where
  "rewritten_table kept =
     (let joined = join_with 10 kept in if joined = [] then [] else joined @ [10])"

text \<open>\<open>remove mount\<close>: the table is written beside and renamed over, so a failure leaves it.\<close>

definition remove_definition ::
    "io_kind option \<Rightarrow> io_kind option \<Rightarrow> io_kind option \<Rightarrow> ustr option \<Rightarrow> bool \<Rightarrow> ustr option \<Rightarrow>
     outcome \<times> ustr option" where
  "remove_definition io_read io_write io_rename target dry_run file =
     (case target of None \<Rightarrow> (Failed (MissingArgument ''mount point''), file) | Some tgt \<Rightarrow>
      case (case io_read of
              Some k \<Rightarrow> if k = NotFound then Inr [] else Inl (TableUnreadable k)
            | None \<Rightarrow> Inr (case file of None \<Rightarrow> [] | Some s \<Rightarrow> s)) of
        Inl e \<Rightarrow> (Failed e, file)
      | Inr s \<Rightarrow>
          let kept = kept_lines tgt s in
          if length kept = length (str_lines s) then (Failed (NotDefined tgt), file)
          else if dry_run then (Skipped, file)
          else (case io_write of
                  Some k \<Rightarrow> (Failed (TableUnwritable k), file)
                | None \<Rightarrow> (case io_rename of
                    Some k \<Rightarrow> (Failed (TableUnwritable k), file)
                  | None \<Rightarrow> (Succeeded, Some (rewritten_table kept)))))"

section \<open>Unit names\<close>

definition trim_slashes :: "ustr \<Rightarrow> ustr" where
  "trim_slashes p = rev (dropWhile (\<lambda>c. c = 47) (rev (dropWhile (\<lambda>c. c = 47) p)))"

definition hex2 :: "u8 \<Rightarrow> ustr" where
  "hex2 b = (let d = (\<lambda>n. if n < 10 then 48 + n else 87 + n)
             in [d (unat b div 16), d (unat b mod 16)])"

definition is_ascii_alphanumeric :: "u8 \<Rightarrow> bool" where
  "is_ascii_alphanumeric b \<longleftrightarrow>
     (48 \<le> b \<and> b \<le> 57) \<or> (65 \<le> b \<and> b \<le> 90) \<or> (97 \<le> b \<and> b \<le> 122)"

definition unit_byte :: "bool \<Rightarrow> u8 \<Rightarrow> ustr" where
  "unit_byte leading b =
     (if \<not> (leading \<and> b = 46) \<and> (is_ascii_alphanumeric b \<or> b \<in> {58, 95, 46, 45}) then [unat b]
      else asc [CHR 0x5C, CHR 0x78] @ hex2 b)"

definition unit_component :: "bool \<Rightarrow> ustr \<Rightarrow> ustr" where
  "unit_component is_first component =
     (case utf8 component of
        [] \<Rightarrow> []
      | b # bs \<Rightarrow> unit_byte is_first b @ concat (map (unit_byte False) bs))"

definition mount_unit_name :: "ustr \<Rightarrow> ustr" where
  "mount_unit_name p =
     (let trimmed = trim_slashes p in
      if trimmed = [] then asc ''-.mount''
      else (case filter (\<lambda>w. w \<noteq> []) (split_on 47 trimmed) of
              [] \<Rightarrow> []
            | w # ws \<Rightarrow> unit_component True w @ concat (map (\<lambda>v. [45] @ unit_component False v) ws))
           @ asc ''.mount'')"

section \<open>Escaping\<close>

lemma unescape_escape_char: "unescape (escape_char c @ s) = c # unescape s"
proof -
  consider "c = 32" | "c = 9" | "c = 10" | "c = 92" | "c \<notin> {32, 9, 10, 92}" by blast
  then show ?thesis
    by cases (simp_all add: escape_char_def u8_from_str_radix8_def)
qed

text \<open>What is written in escaped form is read back as it was, whatever characters it holds.\<close>

lemma unescape_escape_fstab: "unescape (escape_fstab s) = s"
  unfolding escape_fstab_def by (induction s) (simp_all add: unescape_escape_char)

text \<open>Text whose only blanks are the ones the table can escape.\<close>

definition fstab_safe :: "ustr \<Rightarrow> bool" where
  "fstab_safe s \<longleftrightarrow> s \<noteq> [] \<and> list_all (\<lambda>c. is_whitespace c \<longrightarrow> c \<in> {32, 9, 10}) s"

lemma escape_fstab_word:
  assumes "fstab_safe s"
  shows "no_space (escape_fstab s)" and "escape_fstab s \<noteq> []"
    and "hd s \<noteq> 35 \<Longrightarrow> hd (escape_fstab s) \<noteq> 35"
proof -
  have one: "no_space (escape_char c)" if "is_whitespace c \<longrightarrow> c \<in> {32, 9, 10}" for c
    using that by (auto simp: escape_char_def is_whitespace_def)
  have "no_space (concat (map escape_char t))"
    if "list_all (\<lambda>c. is_whitespace c \<longrightarrow> c \<in> {32, 9, 10}) t" for t
    using that by (induction t) (auto simp: one)
  then show "no_space (escape_fstab s)" using assms by (simp add: fstab_safe_def escape_fstab_def)
  obtain c t where s: "s = c # t" using assms by (cases s) (auto simp: fstab_safe_def)
  have ne: "escape_char c \<noteq> []" by (simp add: escape_char_def)
  then show "escape_fstab s \<noteq> []" by (simp add: escape_fstab_def s)
  show "hd (escape_fstab s) \<noteq> 35" if "hd s \<noteq> 35"
    using that ne by (simp add: escape_fstab_def s) (simp add: escape_char_def)
qed

section \<open>Editing the definitions table\<close>

lemma parse_fstab_append:
  "s = [] \<or> last s = 10 \<Longrightarrow> parse_fstab (s @ r) = parse_fstab s @ parse_fstab r"
  by (simp add: parse_fstab_def str_lines_append List.map_filter_def)

lemma join_commas_word:
  "ws \<noteq> [] \<Longrightarrow> \<forall>w \<in> set ws. no_space w \<and> w \<noteq> [] \<Longrightarrow>
     no_space (join_with 44 ws) \<and> join_with 44 ws \<noteq> []"
  by (induction "44::nat" ws rule: join_with.induct) (auto simp: is_whitespace_def)

lemma parse_fstab_line_added:
  assumes "fstab_safe source" and "hd source \<noteq> 35" and "fstab_safe target"
    and "no_space ty" and "ty \<noteq> []" and "\<forall>w \<in> set options. no_space w \<and> w \<noteq> [] \<and> 44 \<notin> set w"
  shows "parse_fstab (fstab_line source target ty options) =
     [\<lparr>md_source = source, md_target = target, md_fs_type = ty,
       md_options = (if options = [] then [asc ''defaults''] else options)\<rparr>]"
proof -
  let ?o = "if options = [] then asc ''defaults'' else join_with 44 options"
  define ws where "ws = [escape_fstab source, escape_fstab target, ty, ?o, asc ''0'', asc ''0'']"
  have o: "no_space ?o \<and> ?o \<noteq> []"
    using join_commas_word[of options] assms(6) by (auto simp: is_whitespace_def)
  have ws: "\<forall>w \<in> set ws. no_space w \<and> w \<noteq> []"
    using escape_fstab_word[OF assms(1)] escape_fstab_word[OF assms(3)] assms(4,5) o
    by (auto simp: is_whitespace_def ws_def)
  have ne: "ws \<noteq> []" and hd_ws: "hd ws = escape_fstab source" by (simp_all add: ws_def)
  have split_o: "filter (\<lambda>w. w \<noteq> []) (split_on 44 ?o) = (if options = [] then [asc ''defaults''] else options)"
  proof (cases "options = []")
    case True
    then show ?thesis by (simp add: split_on_free)
  next
    case False
    then show ?thesis using assms(6) by (simp add: split_on_join filter_id_conv)
  qed
  have line: "fstab_line source target ty options = join_with 9 ws @ [10]"
    by (simp add: fstab_line_def ws_def)
  note wl = word_line_sep[of ws 9, OF ne ws, simplified]
  have "str_lines (fstab_line source target ty options) = [join_with 9 ws]"
    unfolding line using str_lines_single[OF wl(1)] wl(2) by simp
  moreover have "parse_fstab_line (join_with 9 ws) =
      Some \<lparr>md_source = source, md_target = target, md_fs_type = ty,
        md_options = (if options = [] then [asc ''defaults''] else options)\<rparr>"
  proof -
    have "split_whitespace (join_with 9 ws) = ws"
      by (rule split_whitespace_join_sep[OF _ ws]) (simp add: is_whitespace_def)
    then have "split_whitespace (join_with 9 ws) =
        escape_fstab source # escape_fstab target # ty # [?o, asc ''0'', asc ''0'']"
      unfolding ws_def .
    then show ?thesis
      using wl(3-5) hd_ws escape_fstab_word(3)[OF assms(1,2)] split_o
      unfolding parse_fstab_line_def Let_def by (simp add: unescape_escape_fstab)
  qed
  ultimately show ?thesis by (simp add: parse_fstab_def List.map_filter_simps)
qed

text \<open>
  a mount added to the definitions table is read back from it.  When the table is empty
  or ends with a newline, the mount point is not defined yet and the fields hold no blank
  the table cannot escape, \<open>add mount\<close> succeeds, the table then defines exactly what it did
  before and, last, the new mount, and adding it a second time is refused.
\<close>

theorem added_mount_is_defined:
  assumes "fstab_safe source" and "hd source \<noteq> 35" and "fstab_safe target"
    and "no_space ty" and "ty \<noteq> []" and "\<forall>w \<in> set options. no_space w \<and> w \<noteq> [] \<and> 44 \<notin> set w"
    and "s = [] \<or> last s = 10"
    and "\<forall>d \<in> set (parse_fstab s). \<not> path_eq (md_target d) target"
  shows "\<exists>s'. add_definition None None (Some source) (Some target) (Some ty) det options False (Some s)
           = (Succeeded, Some s') \<and>
         parse_fstab s' = parse_fstab s @
           [\<lparr>md_source = source, md_target = target, md_fs_type = ty,
             md_options = (if options = [] then [asc ''defaults''] else options)\<rparr>] \<and>
         add_definition None None (Some source) (Some target) (Some ty) det options False (Some s')
           = (Failed (AlreadyDefined target), Some s')"
proof -
  let ?line = "fstab_line source target ty options"
  have parsed: "parse_fstab (s @ ?line) = parse_fstab s @
      [\<lparr>md_source = source, md_target = target, md_fs_type = ty,
        md_options = (if options = [] then [asc ''defaults''] else options)\<rparr>]"
    using parse_fstab_append[OF assms(7)] parse_fstab_line_added[OF assms(1-6)] by simp
  have fresh: "\<not> list_ex (\<lambda>d. path_eq (md_target d) target) (parse_fstab s)"
    using assms(8) by (auto simp: list_ex_iff)
  show ?thesis
    by (rule exI[of _ "s @ ?line"])
      (use fresh parsed in \<open>simp add: add_definition_def definitions_of_def path_eq_def Let_def\<close>)
qed

theorem added_mount_is_defined_witness:
  "\<exists>s'. add_definition None None (Some (asc ''tmpfs'')) (Some (asc ''/mnt/my data''))
       (Some (asc ''tmpfs'')) None [] False (Some []) = (Succeeded, Some s') \<and>
     parse_fstab s' = parse_fstab [] @
       [\<lparr>md_source = asc ''tmpfs'', md_target = asc ''/mnt/my data'', md_fs_type = asc ''tmpfs'',
         md_options = (if ([] :: ustr list) = [] then [asc ''defaults''] else [])\<rparr>] \<and>
     add_definition None None (Some (asc ''tmpfs'')) (Some (asc ''/mnt/my data''))
       (Some (asc ''tmpfs'')) None [] False (Some s')
       = (Failed (AlreadyDefined (asc ''/mnt/my data'')), Some s')"
  by (rule added_mount_is_defined)
    (simp_all add: fstab_safe_def is_whitespace_def parse_fstab_def List.map_filter_simps)

text \<open>
  A table whose last line has no newline behind it does not gain the mount: the new line is
  glued to the old one, whose type field swallows the new source.
\<close>

lemma add_without_final_newline:
  "\<exists>s'. add_definition None None (Some (asc ''b'')) (Some (asc ''/y'')) (Some (asc ''t'')) None [] False
       (Some (asc ''a /x ext4'')) = (Succeeded, Some s') \<and>
     map (\<lambda>d. (md_target d, md_fs_type d)) (parse_fstab s') = [(asc ''/x'', asc ''ext4b'')]"
  by (rule exI[of _ "asc ''a /x ext4'' @ fstab_line (asc ''b'') (asc ''/y'') (asc ''t'') []"])
    (simp add: add_definition_def definitions_of_def parse_fstab_def parse_fstab_line_def
      Let_def List.map_filter_simps str_lines_def strip_cr_def trim_def is_whitespace_def
      fstab_line_def escape_fstab_def escape_char_def split_whitespace.simps path_eq_def
      path_components_def)

lemma parse_fstab_line_strip_cr [simp]: "parse_fstab_line (strip_cr l) = parse_fstab_line l"
  by (simp add: parse_fstab_line_def trim_strip_cr)

lemma defines_mount_parsed:
  "parse_fstab_line l = Some d \<Longrightarrow> defines_mount l t \<longleftrightarrow> path_eq (md_target d) t"
  by (auto simp: parse_fstab_line_def defines_mount_def Let_def split: if_splits list.splits)

lemma parse_rewritten:
  assumes "\<forall>l \<in> set ls. 10 \<notin> set l"
  shows "parse_fstab (rewritten_table ls) = List.map_filter parse_fstab_line ls"
proof (cases "join_with 10 ls = []")
  case True
  then have "ls = [] \<or> ls = [[]]" by (cases "(10::nat, ls)" rule: join_with.cases) auto
  then show ?thesis
    using True by (auto simp: rewritten_table_def parse_fstab_def parse_fstab_line_def trim_def
        List.map_filter_simps)
next
  case False
  then have "ls \<noteq> []" by auto
  have strip: "List.map_filter parse_fstab_line (map strip_cr xs) = List.map_filter parse_fstab_line xs" for xs
    by (induction xs) (simp_all add: List.map_filter_simps split: option.splits)
  show ?thesis
    using False str_lines_joined[OF \<open>ls \<noteq> []\<close> assms] strip
    by (simp add: rewritten_table_def parse_fstab_def Let_def)
qed

lemma parse_kept:
  "List.map_filter parse_fstab_line (filter (\<lambda>l. \<not> defines_mount l t) ls) =
     filter (\<lambda>d. \<not> path_eq (md_target d) t) (List.map_filter parse_fstab_line ls)"
proof (induction ls)
  case Nil
  then show ?case by (simp add: List.map_filter_simps)
next
  case (Cons l ls)
  then show ?case
    by (cases "parse_fstab_line l") (auto simp: List.map_filter_simps defines_mount_parsed)
qed

text \<open>
  \<open>remove mount\<close> takes away the definitions of its mount point and no other.  When it
  succeeds the table it swaps in defines, in their order, exactly the mounts of the old table
  whose mount point is another path, and asking again is refused; when it fails or only
  rehearses, the table is the one it was.
\<close>

theorem removed_mount_is_exact:
  "case remove_definition io_read io_write io_rename (Some target) dry_run (Some s) of
     (Succeeded, file) \<Rightarrow>
       (\<exists>s'. file = Some s' \<and>
          parse_fstab s' = filter (\<lambda>d. \<not> path_eq (md_target d) target) (parse_fstab s) \<and>
          remove_definition None w r (Some target) dry (Some s') = (Failed (NotDefined target), Some s'))
   | (_, file) \<Rightarrow> file = Some s"
proof -
  let ?k = "kept_lines target s"
  have lines: "\<forall>l \<in> set ?k. 10 \<notin> set l" using str_lines_pieces by (auto simp: kept_lines_def)
  have "parse_fstab (rewritten_table ?k) = List.map_filter parse_fstab_line ?k"
    by (rule parse_rewritten[OF lines])
  also have "\<dots> = filter (\<lambda>d. \<not> path_eq (md_target d) target) (parse_fstab s)"
    by (simp add: kept_lines_def parse_kept parse_fstab_def)
  finally have parsed: "parse_fstab (rewritten_table ?k) =
      filter (\<lambda>d. \<not> path_eq (md_target d) target) (parse_fstab s)" .
  have strip: "defines_mount (strip_cr l) target \<longleftrightarrow> defines_mount l target" for l
    by (simp add: defines_mount_def trim_strip_cr)
  have all_kept: "kept_lines target (rewritten_table ?k) = str_lines (rewritten_table ?k)"
  proof (cases "join_with 10 ?k = []")
    case True
    then show ?thesis by (simp add: rewritten_table_def kept_lines_def)
  next
    case False
    then have "?k \<noteq> []" by auto
    then have "str_lines (rewritten_table ?k) = map strip_cr ?k"
      using False str_lines_joined[OF _ lines] by (simp add: rewritten_table_def)
    then show ?thesis unfolding kept_lines_def[of _ "rewritten_table ?k"]
      by (auto simp: filter_id_conv strip kept_lines_def)
  qed
  have none: "kept_lines target [] = str_lines []" by (simp add: kept_lines_def)
  show ?thesis
    using parsed all_kept none
    by (auto simp: remove_definition_def Let_def split: option.splits if_splits)
qed

text \<open>The kernel's table: the separator is found, however many optional fields come before it.\<close>

lemma first_index_append: "w \<notin> set xs \<Longrightarrow> first_index w (xs @ w # ys) = Some (length xs)"
  by (induction xs) auto

lemma escape_no_blank: "32 \<notin> set (escape_fstab s)"
  by (auto simp: escape_fstab_def escape_char_def)

lemma escape_not_dash:
  assumes "s \<noteq> []"
  shows "escape_fstab s \<noteq> []" and "s \<noteq> [45] \<Longrightarrow> escape_fstab s \<noteq> [45]"
proof -
  have undo: "unescape (escape_fstab s) = s" by (rule unescape_escape_fstab)
  show "escape_fstab s \<noteq> []" using undo assms by (metis unescape.simps(1))
  show "escape_fstab s \<noteq> [45]" if "s \<noteq> [45]"
  proof
    assume "escape_fstab s = [45]"
    then have "s = unescape [45]" using undo by metis
    with that show False by simp
  qed
qed

text \<open>A field of the kernel's table: one word that is not the separator.\<close>

definition mountinfo_word :: "ustr \<Rightarrow> bool" where
  "mountinfo_word w \<longleftrightarrow> w \<noteq> [] \<and> 32 \<notin> set w \<and> w \<noteq> [45]"

text \<open>
  a line of the kernel's mount table is decoded field by field however many optional
  fields it carries.  The mount point and the source come back unescaped, and the file
  system type and the device number are the ones the line names.
\<close>

theorem mountinfo_line_decoded:
  assumes "\<forall>w \<in> set ([mid, parent, dev, root, opts] @ optional). mountinfo_word w"
    and "target \<noteq> []" and "target \<noteq> [45]" and "source \<noteq> []"
    and "fs \<noteq> []" and "32 \<notin> set fs" and "super \<noteq> []" and "32 \<notin> set super"
  shows "\<exists>m. parse_mountinfo_line
           (join_with 32 ([mid, parent, dev, root, escape_fstab target, opts] @ optional @
              [[45], fs, escape_fstab source, super])) = Some m \<and>
         mi_target m = target \<and> mi_source m = source \<and> mi_filesystem m = fs \<and>
         mi_device_number m = dev \<and>
         set (mi_options m) = set (split_on 44 opts) \<union> set (split_on 44 super) - {[]} \<and>
         distinct (mi_options m)"
proof -
  define pre where "pre = [mid, parent, dev, root, escape_fstab target, opts] @ optional"
  define ws where "ws = pre @ [[45], fs, escape_fstab source, super]"
  have words: "\<forall>w \<in> set ws. 32 \<notin> set w" "\<forall>w \<in> set ws. w \<noteq> []"
    using assms escape_not_dash(1)[OF assms(2)] escape_not_dash(1)[OF assms(4)]
    by (auto simp: mountinfo_word_def escape_no_blank ws_def pre_def)
  have flds: "filter (\<lambda>f. f \<noteq> []) (split_on 32 (join_with 32 ws)) = ws"
    using words split_on_join[of ws 32] by (simp add: filter_id_conv ws_def)
  have "[45] \<notin> set pre"
    using assms(1) escape_not_dash(2)[OF assms(2,3)] by (auto simp: mountinfo_word_def pre_def)
  then have sep: "first_index [45] ws = Some (length pre)"
    using first_index_append[of "[45]" pre] by (simp add: ws_def)
  have get: "list_get 2 ws = Some dev" "list_get 4 ws = Some (escape_fstab target)"
    "list_get 5 ws = Some opts" "list_get (length pre + 1) ws = Some fs"
    "list_get (length pre + 2) ws = Some (escape_fstab source)"
    "list_get (length pre + 3) ws = Some super"
    by (simp_all add: list_get_def nth_append ws_def pre_def)
  have pushed: "set (fold push_option xs acc) = set xs \<union> set acc \<and>
      (distinct acc \<longrightarrow> distinct (fold push_option xs acc))" for xs acc
    by (induction xs arbitrary: acc) (auto simp: push_option_def)
  have line: "[mid, parent, dev, root, escape_fstab target, opts] @ optional @
      [[45], fs, escape_fstab source, super] = ws"
    by (simp add: ws_def pre_def)
  show ?thesis
    unfolding line parse_mountinfo_line_def flds sep get Let_def option.case
    using pushed[of "filter (\<lambda>w. w \<noteq> []) (split_on 44 opts @ split_on 44 super)" "[]"]
    by (simp add: unescape_escape_fstab) blast
qed

theorem mountinfo_line_decoded_witness:
  "\<exists>m. parse_mountinfo_line
       (join_with 32 ([asc ''36'', asc ''35'', asc ''98:0'', asc ''/'', escape_fstab (asc ''/mnt/my data''),
          asc ''rw''] @ [asc ''shared:1''] @ [[45], asc ''ext4'', escape_fstab (asc ''/dev/sda''), asc ''rw,errors''])) =
       Some m \<and>
     mi_target m = asc ''/mnt/my data'' \<and> mi_source m = asc ''/dev/sda'' \<and>
     mi_filesystem m = asc ''ext4'' \<and> mi_device_number m = asc ''98:0'' \<and>
     set (mi_options m) = set (split_on 44 (asc ''rw'')) \<union> set (split_on 44 (asc ''rw,errors'')) - {[]} \<and>
     distinct (mi_options m)"
  by (rule mountinfo_line_decoded) (simp_all add: mountinfo_word_def)

text \<open>
  The unit name of a mount point keeps a hyphen of a component as it is, and a hyphen is also
  what separates components, so two mount points can share one unit name.
\<close>

lemma mount_unit_names_collide:
  "mount_unit_name (asc ''/mnt/a-b'') = mount_unit_name (asc ''/mnt/a/b'')"
  "path_eq (asc ''/mnt/a-b'') (asc ''/mnt/a/b'') = False"
  by (simp_all add: mount_unit_name_def trim_slashes_def unit_component_def utf8_def utf8_char_def
      unit_byte_def is_ascii_alphanumeric_def path_eq_def path_components_def)

text \<open>The names the specification of the escaping fixes.\<close>

lemma mount_unit_name_examples:
  "mount_unit_name (asc ''/'') = asc ''-.mount''"
  "mount_unit_name (asc ''/mnt/data/'') = asc ''mnt-data.mount''"
  "mount_unit_name (asc ''/.hidden'') = asc ([CHR 0x5C] @ ''x2ehidden.mount'')"
  by (simp_all add: mount_unit_name_def trim_slashes_def unit_component_def utf8_def utf8_char_def
      unit_byte_def is_ascii_alphanumeric_def hex2_def)

end
