(* ===== verification/Protection.thy ===== *)
theory Protection
  imports Ono_Text
begin

text \<open>
  Protection as coverage (\<open>crates/ono-change-core/src/protection.rs\<close> and the vocabularies
  and effects of \<open>effect.rs\<close>): the domains a change acts in, the objective recovery of a
  domain has, what covers it, and the word a plan may carry, which is computed from the
  rows of its coverage matrix and never set.  The sentences a person reads beside a row are
  named by the constructors of \<open>sentence\<close> with the values the source formats into them; no
  operation of the program reads them back.  Identities derived by hashing are an argument
  \<open>eid\<close>; observed values have the type \<open>'v\<close>.
\<close>

section \<open>Weakest-of lattices\<close>

lemma foldl_max_ge: "(a::nat) \<le> foldl max a xs"
  by (induction xs arbitrary: a) (simp, metis foldl_Cons max.bounded_iff)

text \<open>
  The contract of the two \<open>weakest_of\<close> operations: members are compared by a rank, the
  larger rank is the weaker claim, and no two members share one.
\<close>

locale weakest_lattice =
  fixes rank :: "'c \<Rightarrow> nat"
    and weakest :: "'c \<Rightarrow> 'c \<Rightarrow> 'c"
  assumes rank_inj: "rank x = rank y \<Longrightarrow> x = y"
    and weakest_def: "weakest x y = (if rank x \<ge> rank y then x else y)"
begin

lemma weakest_rank: "rank (weakest x y) = max (rank x) (rank y)"
  by (simp add: weakest_def max_def)

lemma weakest_comm: "weakest x y = weakest y x"
  by (rule rank_inj) (simp add: weakest_rank max.commute)

lemma weakest_assoc: "weakest (weakest x y) z = weakest x (weakest y z)"
  by (rule rank_inj) (simp add: weakest_rank max.assoc)

lemma weakest_idem: "weakest x x = x"
  by (simp add: weakest_def)

lemma foldl_weakest_rank: "rank (foldl weakest x xs) = foldl max (rank x) (map rank xs)"
  by (induction xs arbitrary: x) (simp_all add: weakest_rank)

lemma foldl_weakest_in: "foldl weakest x xs \<in> insert x (set xs)"
proof (induction xs arbitrary: x)
  case Nil
  then show ?case by simp
next
  case (Cons y ys)
  have "weakest x y \<in> {x, y}" by (simp add: weakest_def)
  with Cons[of "weakest x y"] show ?case by auto
qed

lemma foldl_weakest_ge: "y \<in> insert x (set xs) \<Longrightarrow> rank y \<le> rank (foldl weakest x xs)"
proof (induction xs arbitrary: x)
  case Nil
  then show ?case by simp
next
  case (Cons z zs)
  have up: "rank x \<le> rank (weakest x z)" "rank z \<le> rank (weakest x z)"
    by (simp_all add: weakest_rank)
  from Cons.prems consider "y = x \<or> y = z" | "y \<in> set zs" by auto
  then show ?case
  proof cases
    case 1
    have "rank (weakest x z) \<le> rank (foldl weakest (weakest x z) zs)"
      using foldl_weakest_rank[of "weakest x z" zs] by (simp add: foldl_max_ge)
    then show ?thesis using 1 up by (auto intro: order_trans)
  next
    case 2
    then show ?thesis using Cons.IH[of "weakest x z"] by simp
  qed
qed

end

text \<open>\<open>Iterator::reduce\<close>.\<close>

fun reduce :: "('a \<Rightarrow> 'a \<Rightarrow> 'a) \<Rightarrow> 'a list \<Rightarrow> 'a option" where
  "reduce f [] = None"
| "reduce f (x # xs) = Some (foldl f x xs)"

section \<open>Effects\<close>

datatype EffectConfidence = Guaranteed | Expected | Possible | ConfidenceUnknown

fun confidence_rank :: "EffectConfidence \<Rightarrow> nat" where
  "confidence_rank Guaranteed = 0"
| "confidence_rank Expected = 1"
| "confidence_rank Possible = 2"
| "confidence_rank ConfidenceUnknown = 3"

definition confidence_weakest_of :: "EffectConfidence \<Rightarrow> EffectConfidence \<Rightarrow> EffectConfidence" where
  "confidence_weakest_of a b = (if confidence_rank a \<ge> confidence_rank b then a else b)"

definition is_assertable :: "EffectConfidence \<Rightarrow> bool" where
  "is_assertable c \<longleftrightarrow> c \<in> {Guaranteed}"

interpretation confidence: weakest_lattice confidence_rank confidence_weakest_of
proof
  fix x y :: EffectConfidence
  show "confidence_rank x = confidence_rank y \<Longrightarrow> x = y" by (cases x; cases y) simp_all
qed (simp add: confidence_weakest_of_def)

datatype EffectDomain =
    FilesystemPersistent | BlockStoragePersistent | ApplicationPersistent
  | ProcessRuntime | KernelRuntime | NetworkRuntime
  | RemoteSystem | ExternalSideEffect | IdentitySecurityState
  | ProviderTransactionState | DomainUnknown

definition EffectDomain_ALL :: "EffectDomain list" where
  "EffectDomain_ALL =
     [FilesystemPersistent, BlockStoragePersistent, ApplicationPersistent, ProcessRuntime,
      KernelRuntime, NetworkRuntime, RemoteSystem, ExternalSideEffect, IdentitySecurityState,
      ProviderTransactionState, DomainUnknown]"

fun EffectDomain_as_str :: "EffectDomain \<Rightarrow> string" where
  "EffectDomain_as_str FilesystemPersistent = ''filesystem-persistent''"
| "EffectDomain_as_str BlockStoragePersistent = ''block-storage-persistent''"
| "EffectDomain_as_str ApplicationPersistent = ''application-persistent''"
| "EffectDomain_as_str ProcessRuntime = ''process-runtime''"
| "EffectDomain_as_str KernelRuntime = ''kernel-runtime''"
| "EffectDomain_as_str NetworkRuntime = ''network-runtime''"
| "EffectDomain_as_str RemoteSystem = ''remote-system''"
| "EffectDomain_as_str ExternalSideEffect = ''external-side-effect''"
| "EffectDomain_as_str IdentitySecurityState = ''identity-security-state''"
| "EffectDomain_as_str ProviderTransactionState = ''provider-transaction-state''"
| "EffectDomain_as_str DomainUnknown = ''unknown''"

interpretation effect_domains: vocabulary EffectDomain_ALL EffectDomain_as_str
proof
  fix x y :: EffectDomain
  show "x \<in> set EffectDomain_ALL" by (cases x) (simp_all add: EffectDomain_ALL_def)
  show "EffectDomain_as_str x = EffectDomain_as_str y \<Longrightarrow> x = y" by (cases x; cases y) simp_all
qed

definition domain_is_persistent :: "EffectDomain \<Rightarrow> bool" where
  "domain_is_persistent d \<longleftrightarrow>
     d \<in> {FilesystemPersistent, BlockStoragePersistent, ApplicationPersistent, IdentitySecurityState}"

definition is_external :: "EffectDomain \<Rightarrow> bool" where
  "is_external d \<longleftrightarrow> d \<in> {ExternalSideEffect, RemoteSystem}"

datatype EffectKind = Create | Modify | Remove | Replace | Interrupt | Emit | KindUnknown

fun EffectKind_as_str :: "EffectKind \<Rightarrow> string" where
  "EffectKind_as_str Create = ''create''"
| "EffectKind_as_str Modify = ''modify''"
| "EffectKind_as_str Remove = ''remove''"
| "EffectKind_as_str Replace = ''replace''"
| "EffectKind_as_str Interrupt = ''interrupt''"
| "EffectKind_as_str Emit = ''emit''"
| "EffectKind_as_str KindUnknown = ''unknown''"

definition is_inherently_irreversible :: "EffectKind \<Rightarrow> bool" where
  "is_inherently_irreversible k \<longleftrightarrow> k \<in> {Emit}"

record 'v ProposedEffect =
  eff_id :: ustr
  eff_action :: ustr
  eff_object :: "ustr option"
  eff_domain :: EffectDomain
  eff_kind :: EffectKind
  eff_confidence :: EffectConfidence
  eff_before :: "'v option"
  eff_proposed :: "'v option"
  eff_evidence :: "ustr list"
  eff_explanation :: ustr
  eff_irreversible :: bool
  eff_compensation :: "ustr option"

definition effect_new ::
    "(ustr \<Rightarrow> ustr \<Rightarrow> ustr \<Rightarrow> ustr) \<Rightarrow> ustr \<Rightarrow> EffectDomain \<Rightarrow> EffectKind \<Rightarrow>
     EffectConfidence \<Rightarrow> ustr \<Rightarrow> 'v ProposedEffect" where
  "effect_new eid action d k c explanation =
     \<lparr>eff_id = eid action (asc (EffectDomain_as_str d)) explanation,
      eff_action = action, eff_object = None, eff_domain = d, eff_kind = k,
      eff_confidence = c, eff_before = None, eff_proposed = None, eff_evidence = [],
      eff_explanation = explanation, eff_irreversible = is_inherently_irreversible k,
      eff_compensation = None\<rparr>"

definition effect_on ::
    "(ustr \<Rightarrow> ustr \<Rightarrow> ustr \<Rightarrow> ustr) \<Rightarrow> 'v ProposedEffect \<Rightarrow> ustr \<Rightarrow> 'v ProposedEffect" where
  "effect_on eid e object =
     e\<lparr>eff_id := eid (eff_action e) (asc (EffectDomain_as_str (eff_domain e))) object,
       eff_object := Some object\<rparr>"

definition from_to ::
    "'v ProposedEffect \<Rightarrow> 'v option \<Rightarrow> 'v option \<Rightarrow> 'v ProposedEffect" where
  "from_to e was proposed = e\<lparr>eff_before := was, eff_proposed := proposed\<rparr>"

definition citing :: "'v ProposedEffect \<Rightarrow> ustr \<Rightarrow> 'v ProposedEffect" where
  "citing e contract = e\<lparr>eff_evidence := eff_evidence e @ [contract]\<rparr>"

definition effect_irreversible :: "'v ProposedEffect \<Rightarrow> 'v ProposedEffect" where
  "effect_irreversible e = e\<lparr>eff_irreversible := True\<rparr>"

definition effect_compensated_by :: "'v ProposedEffect \<Rightarrow> ustr \<Rightarrow> 'v ProposedEffect" where
  "effect_compensated_by e action = e\<lparr>eff_compensation := Some action\<rparr>"

definition for_action ::
    "(ustr \<Rightarrow> ustr \<Rightarrow> ustr \<Rightarrow> ustr) \<Rightarrow> 'v ProposedEffect \<Rightarrow> ustr \<Rightarrow> 'v ProposedEffect" where
  "for_action eid e action =
     e\<lparr>eff_id := eid action (asc (EffectDomain_as_str (eff_domain e))) (eff_explanation e),
       eff_action := action\<rparr>"

text \<open>
  An effect that leaves the machine stays irreversible through every builder: none of them
  clears the mark a constructor set.
\<close>

lemma irreversible_kept [simp]:
  "eff_irreversible (effect_on eid e x) = eff_irreversible e"
  "eff_irreversible (from_to e v w) = eff_irreversible e"
  "eff_irreversible (citing e x) = eff_irreversible e"
  "eff_irreversible (effect_compensated_by e x) = eff_irreversible e"
  "eff_irreversible (for_action eid e x) = eff_irreversible e"
  "eff_irreversible (effect_irreversible e)"
  "eff_irreversible (effect_new eid a d k c x) \<longleftrightarrow> k = Emit"
  by (simp_all add: effect_on_def from_to_def citing_def effect_compensated_by_def for_action_def
      effect_irreversible_def effect_new_def is_inherently_irreversible_def)

section \<open>The vocabularies of protection\<close>

datatype ProtectionLevel =
    LevelUnprotected | LevelCompensatable | LevelPartiallyProtected | LevelProtected
  | LevelTransactional | LevelUnknown

definition covers_persistent_state :: "ProtectionLevel \<Rightarrow> bool" where
  "covers_persistent_state l \<longleftrightarrow> l \<in> {LevelProtected, LevelTransactional}"

fun level_symbol :: "ProtectionLevel \<Rightarrow> string" where
  "level_symbol LevelProtected = ''<->''"
| "level_symbol LevelTransactional = ''<->''"
| "level_symbol LevelPartiallyProtected = ''1/2''"
| "level_symbol LevelCompensatable = ''~>''"
| "level_symbol LevelUnprotected = ''!''"
| "level_symbol LevelUnknown = ''?''"

datatype DomainProtection = Unprotected | Compensatable | Protected | Transactional | ProtectionUnknown

fun DomainProtection_as_str :: "DomainProtection \<Rightarrow> string" where
  "DomainProtection_as_str Unprotected = ''unprotected''"
| "DomainProtection_as_str Compensatable = ''compensatable''"
| "DomainProtection_as_str Protected = ''protected''"
| "DomainProtection_as_str Transactional = ''transactional''"
| "DomainProtection_as_str ProtectionUnknown = ''unknown''"

fun protection_level :: "DomainProtection \<Rightarrow> ProtectionLevel" where
  "protection_level Unprotected = LevelUnprotected"
| "protection_level Compensatable = LevelCompensatable"
| "protection_level Protected = LevelProtected"
| "protection_level Transactional = LevelTransactional"
| "protection_level ProtectionUnknown = LevelUnknown"

definition is_state_image :: "DomainProtection \<Rightarrow> bool" where
  "is_state_image p \<longleftrightarrow> p \<in> {Protected, Transactional}"

datatype RecoveryObjective =
    PreserveExact | RestoreSemantic | Compensate | NoRecoveryRequired | ObjectiveUnknown

fun RecoveryObjective_as_str :: "RecoveryObjective \<Rightarrow> string" where
  "RecoveryObjective_as_str PreserveExact = ''preserve-exact''"
| "RecoveryObjective_as_str RestoreSemantic = ''restore-semantic''"
| "RecoveryObjective_as_str Compensate = ''compensate''"
| "RecoveryObjective_as_str NoRecoveryRequired = ''no-recovery-required''"
| "RecoveryObjective_as_str ObjectiveUnknown = ''unknown''"

definition objective_is_required :: "RecoveryObjective \<Rightarrow> bool" where
  "objective_is_required o1 \<longleftrightarrow> o1 \<notin> {NoRecoveryRequired}"

fun satisfied_by :: "RecoveryObjective \<Rightarrow> DomainProtection \<Rightarrow> bool" where
  "satisfied_by PreserveExact p \<longleftrightarrow> is_state_image p"
| "satisfied_by RestoreSemantic p \<longleftrightarrow> p \<in> {Compensatable, Protected, Transactional}"
| "satisfied_by Compensate p \<longleftrightarrow> p \<in> {Compensatable, Protected, Transactional}"
| "satisfied_by NoRecoveryRequired p \<longleftrightarrow> True"
| "satisfied_by ObjectiveUnknown p \<longleftrightarrow> False"

datatype ConsistencyClass =
    ByteConsistent | FilesystemConsistent | CrashConsistent | ApplicationConsistent
  | TransactionConsistent | ConsistencyUnknown

definition ConsistencyClass_ALL :: "ConsistencyClass list" where
  "ConsistencyClass_ALL =
     [ByteConsistent, FilesystemConsistent, CrashConsistent, ApplicationConsistent,
      TransactionConsistent, ConsistencyUnknown]"

fun consistency_claim_rank :: "ConsistencyClass \<Rightarrow> nat" where
  "consistency_claim_rank TransactionConsistent = 0"
| "consistency_claim_rank ApplicationConsistent = 1"
| "consistency_claim_rank FilesystemConsistent = 2"
| "consistency_claim_rank CrashConsistent = 3"
| "consistency_claim_rank ByteConsistent = 4"
| "consistency_claim_rank ConsistencyUnknown = 5"

definition weakest_of :: "ConsistencyClass \<Rightarrow> ConsistencyClass \<Rightarrow> ConsistencyClass" where
  "weakest_of a b = (if consistency_claim_rank a \<ge> consistency_claim_rank b then a else b)"

interpretation claims: weakest_lattice consistency_claim_rank weakest_of
proof
  fix x y :: ConsistencyClass
  show "consistency_claim_rank x = consistency_claim_rank y \<Longrightarrow> x = y"
    by (cases x; cases y) simp_all
qed (simp add: weakest_of_def)

datatype ProtectionMode = Off | Prefer | Require | Maximize

definition creates_assets :: "ProtectionMode \<Rightarrow> bool" where
  "creates_assets m \<longleftrightarrow> m \<notin> {Off}"

definition refuses_shortfall :: "ProtectionMode \<Rightarrow> bool" where
  "refuses_shortfall m \<longleftrightarrow> m \<in> {Require}"

section \<open>The coverage matrix\<close>

text \<open>
  A sentence of the program: text somebody supplied, or a format string, named by its first
  words, with the values formatted into it.
\<close>

datatype sentence = Say ustr | Format string "sentence list"

record CoverageExclusion =
  ex_domain :: EffectDomain
  ex_subject :: ustr
  ex_reason :: sentence
  ex_irreversible :: bool

definition exclusion_new :: "EffectDomain \<Rightarrow> ustr \<Rightarrow> sentence \<Rightarrow> CoverageExclusion" where
  "exclusion_new d subject reason =
     \<lparr>ex_domain = d, ex_subject = subject, ex_reason = reason, ex_irreversible = False\<rparr>"

definition exclusion_irreversible :: "CoverageExclusion \<Rightarrow> CoverageExclusion" where
  "exclusion_irreversible e = e\<lparr>ex_irreversible := True\<rparr>"

record DomainCoverage =
  row_domain :: EffectDomain
  row_objective :: RecoveryObjective
  row_protection :: DomainProtection
  row_assets :: "ustr list"
  row_consistency :: "ConsistencyClass option"
  row_transaction_scope :: "ustr option"
  row_exclusions :: "CoverageExclusion list"
  row_not_protected_by :: "ustr list"
  row_note :: "sentence list"
  row_policy_irrelevant :: bool

definition coverage_new ::
    "EffectDomain \<Rightarrow> RecoveryObjective \<Rightarrow> DomainProtection \<Rightarrow> sentence list \<Rightarrow> DomainCoverage" where
  "coverage_new d obj p note =
     \<lparr>row_domain = d, row_objective = obj, row_protection = p, row_assets = [],
      row_consistency = None, row_transaction_scope = None, row_exclusions = [],
      row_not_protected_by = [], row_note = note, row_policy_irrelevant = False\<rparr>"

definition outside_of :: "DomainCoverage \<Rightarrow> ustr \<Rightarrow> DomainCoverage" where
  "outside_of r object = r\<lparr>row_not_protected_by := row_not_protected_by r @ [object]\<rparr>"

definition by_asset :: "DomainCoverage \<Rightarrow> ustr \<Rightarrow> DomainCoverage" where
  "by_asset r asset = r\<lparr>row_assets := row_assets r @ [asset]\<rparr>"

definition at_consistency :: "DomainCoverage \<Rightarrow> ConsistencyClass \<Rightarrow> DomainCoverage" where
  "at_consistency r c = r\<lparr>row_consistency := Some c\<rparr>"

definition within_transaction :: "DomainCoverage \<Rightarrow> ustr \<Rightarrow> DomainCoverage" where
  "within_transaction r provider = r\<lparr>row_transaction_scope := Some provider\<rparr>"

definition row_excluding :: "DomainCoverage \<Rightarrow> CoverageExclusion \<Rightarrow> DomainCoverage" where
  "row_excluding r e = r\<lparr>row_exclusions := row_exclusions r @ [e]\<rparr>"

definition declared_irrelevant :: "DomainCoverage \<Rightarrow> DomainCoverage" where
  "declared_irrelevant r = r\<lparr>row_policy_irrelevant := True\<rparr>"

definition row_is_required :: "DomainCoverage \<Rightarrow> bool" where
  "row_is_required r \<longleftrightarrow> objective_is_required (row_objective r) \<and> \<not> row_policy_irrelevant r"

definition is_satisfied :: "DomainCoverage \<Rightarrow> bool" where
  "is_satisfied r \<longleftrightarrow> satisfied_by (row_objective r) (row_protection r)"

record ProtectionSummary =
  sum_rows :: "DomainCoverage list"
  sum_exclusions :: "CoverageExclusion list"

definition summary_empty :: ProtectionSummary where
  "summary_empty = \<lparr>sum_rows = [], sum_exclusions = []\<rparr>"

definition summary_of :: "DomainCoverage list \<Rightarrow> ProtectionSummary" where
  "summary_of rows = \<lparr>sum_rows = rows, sum_exclusions = []\<rparr>"

definition summary_excluding :: "ProtectionSummary \<Rightarrow> CoverageExclusion \<Rightarrow> ProtectionSummary" where
  "summary_excluding s e = s\<lparr>sum_exclusions := sum_exclusions s @ [e]\<rparr>"

definition all_exclusions :: "ProtectionSummary \<Rightarrow> CoverageExclusion list" where
  "all_exclusions s = concat (map row_exclusions (sum_rows s)) @ sum_exclusions s"

definition required_rows :: "ProtectionSummary \<Rightarrow> DomainCoverage list" where
  "required_rows s = filter row_is_required (sum_rows s)"

definition shortfall :: "ProtectionSummary \<Rightarrow> DomainCoverage list" where
  "shortfall s = filter (\<lambda>row. \<not> is_satisfied row) (required_rows s)"

definition level :: "ProtectionSummary \<Rightarrow> ProtectionLevel" where
  "level s =
     (let required = required_rows s in
      if required = [] then LevelUnprotected
      else let satisfied = length (filter is_satisfied required) in
      if satisfied = 0 then
        (if list_all (\<lambda>row. row_protection row = ProtectionUnknown) required
         then LevelUnknown else LevelUnprotected)
      else if satisfied < length required then LevelPartiallyProtected
      else if list_ex (\<lambda>row. row_domain row = DomainUnknown) required then LevelPartiallyProtected
      else let scopes = List.map_filter row_transaction_scope required;
               transactional =
                 list_all (\<lambda>row. row_protection row = Transactional) required \<and>
                 length scopes = length required \<and> successively (=) scopes in
      if transactional then LevelTransactional
      else let persistent = filter (\<lambda>row. domain_is_persistent (row_domain row)) required in
      if persistent \<noteq> [] then
        (if list_all (\<lambda>row. is_state_image (row_protection row) \<and>
              (row_assets row \<noteq> [] \<or> row_transaction_scope row \<noteq> None)) persistent
         then LevelProtected else LevelPartiallyProtected)
      else LevelCompensatable)"

definition summary_consistency :: "ProtectionSummary \<Rightarrow> ConsistencyClass option" where
  "summary_consistency s =
     reduce weakest_of
       (List.map_filter row_consistency
          (filter (\<lambda>row. row_is_required row \<and> is_satisfied row) (sum_rows s)))"

definition has_irreversible :: "ProtectionSummary \<Rightarrow> bool" where
  "has_irreversible s \<longleftrightarrow> list_ex ex_irreversible (all_exclusions s)"

definition row_digest :: "DomainCoverage \<Rightarrow> ustr" where
  "row_digest row =
     asc (EffectDomain_as_str (row_domain row)) @ asc ''='' @
     asc (RecoveryObjective_as_str (row_objective row)) @ asc ''/'' @
     asc (DomainProtection_as_str (row_protection row)) @ asc ''/'' @
     show_nat (if row_policy_irrelevant row then 1 else 0) @ [0x1f]"

definition summary_digest_text :: "ProtectionSummary \<Rightarrow> ustr" where
  "summary_digest_text s = concat (map row_digest (sum_rows s))"

section \<open>The word never overstates the rows\<close>

lemma successively_eq_all:
  "successively (=) xs \<longleftrightarrow> (\<forall>x \<in> set xs. x = hd xs)"
proof (induction xs rule: induct_list012)
  case (3 x y zs)
  then show ?case by auto
qed simp_all

lemma map_filter_length_full:
  "length (List.map_filter f xs) = length xs \<longleftrightarrow> (\<forall>x \<in> set xs. f x \<noteq> None)"
proof (induction xs)
  case Nil
  then show ?case by (simp add: List.map_filter_simps)
next
  case (Cons x xs)
  have "length (List.map_filter f xs) \<le> length xs" by (simp add: List.map_filter_def)
  with Cons show ?case by (cases "f x") (auto simp: List.map_filter_simps)
qed

lemma set_map_filter: "y \<in> set (List.map_filter f xs) \<longleftrightarrow> (\<exists>x \<in> set xs. f x = Some y)"
  by (induction xs) (auto simp: List.map_filter_simps split: option.splits)

lemma filter_count_all: "length (filter P xs) < length xs \<longleftrightarrow> \<not> list_all P xs"
  by (induction xs) (auto simp: less_Suc_eq_le length_filter_le not_less_eq_eq)

text \<open>One provider's transaction over every required row.\<close>

definition one_transaction :: "DomainCoverage list \<Rightarrow> bool" where
  "one_transaction rows \<longleftrightarrow>
     (\<exists>p. \<forall>row \<in> set rows. row_protection row = Transactional \<and> row_transaction_scope row = Some p)"

lemma one_transaction_iff:
  "(list_all (\<lambda>row. row_protection row = Transactional) rows \<and>
    length (List.map_filter row_transaction_scope rows) = length rows \<and>
    successively (=) (List.map_filter row_transaction_scope rows)) \<longleftrightarrow> one_transaction rows"
  (is "?l \<longleftrightarrow> _")
proof
  assume l: ?l
  let ?s = "List.map_filter row_transaction_scope rows"
  have "row_transaction_scope row = Some (hd ?s)" if "row \<in> set rows" for row
  proof -
    obtain p where p: "row_transaction_scope row = Some p"
      using l \<open>row \<in> set rows\<close> by (auto simp: map_filter_length_full)
    then have "p \<in> set ?s" using \<open>row \<in> set rows\<close> by (auto simp: set_map_filter)
    with l p show ?thesis by (simp add: successively_eq_all)
  qed
  with l show "one_transaction rows" by (auto simp: one_transaction_def list_all_iff)
next
  assume "one_transaction rows"
  then obtain p where p: "\<forall>row \<in> set rows. row_protection row = Transactional \<and>
      row_transaction_scope row = Some p"
    by (auto simp: one_transaction_def)
  then have all: "\<forall>x \<in> set (List.map_filter row_transaction_scope rows). x = p"
    by (auto simp: set_map_filter)
  then have "successively (=) (List.map_filter row_transaction_scope rows)"
    unfolding successively_eq_all
    by (cases "List.map_filter row_transaction_scope rows") auto
  with p show ?l by (auto simp: list_all_iff map_filter_length_full)
qed

text \<open>A required row of persistent state that a captured image stands behind.\<close>

definition backed_by_image :: "DomainCoverage \<Rightarrow> bool" where
  "backed_by_image row \<longleftrightarrow>
     is_state_image (row_protection row) \<and>
     (row_assets row \<noteq> [] \<or> row_transaction_scope row \<noteq> None)"

lemma level_cases:
  "level s =
     (let rows = required_rows s in
      if rows = [] then LevelUnprotected
      else if list_all (\<lambda>row. \<not> is_satisfied row) rows then
        (if list_all (\<lambda>row. row_protection row = ProtectionUnknown) rows
         then LevelUnknown else LevelUnprotected)
      else if \<not> list_all is_satisfied rows \<or> list_ex (\<lambda>row. row_domain row = DomainUnknown) rows
      then LevelPartiallyProtected
      else if one_transaction rows then LevelTransactional
      else if \<not> list_ex (\<lambda>row. domain_is_persistent (row_domain row)) rows then LevelCompensatable
      else if list_all (\<lambda>row. domain_is_persistent (row_domain row) \<longrightarrow> backed_by_image row) rows
      then LevelProtected else LevelPartiallyProtected)"
proof -
  have none: "length (filter is_satisfied xs) = 0 \<longleftrightarrow> list_all (\<lambda>row. \<not> is_satisfied row) xs" for xs
    by (induction xs) auto
  have pers: "filter (\<lambda>row. domain_is_persistent (row_domain row)) xs \<noteq> [] \<longleftrightarrow>
      list_ex (\<lambda>row. domain_is_persistent (row_domain row)) xs" for xs
    by (induction xs) auto
  have all: "list_all Q (filter P xs) \<longleftrightarrow> list_all (\<lambda>x. P x \<longrightarrow> Q x) xs" for P Q and xs :: "DomainCoverage list"
    by (induction xs) auto
  show ?thesis
    unfolding level_def Let_def none filter_count_all pers all one_transaction_iff
      backed_by_image_def[symmetric]
    by simp
qed

text \<open>
  the word a plan carries never overstates what covers it.  A plan is called protected
  or transactional exactly when some row requires recovery, every such row is satisfied
  and lies in a known domain, and either one provider's transaction holds every one of
  them or some persistent state is required and every required persistent row rests on a
  captured image that an asset or a transaction stands behind.
\<close>

theorem level_never_overstates:
  "covers_persistent_state (level s) \<longleftrightarrow>
     required_rows s \<noteq> [] \<and>
     (\<forall>row \<in> set (required_rows s). is_satisfied row \<and> row_domain row \<noteq> DomainUnknown) \<and>
     (one_transaction (required_rows s) \<or>
      (\<exists>row \<in> set (required_rows s). domain_is_persistent (row_domain row)) \<and>
      (\<forall>row \<in> set (required_rows s).
         domain_is_persistent (row_domain row) \<longrightarrow> backed_by_image row))"
proof (cases "required_rows s")
  case Nil
  then show ?thesis by (simp add: level_cases covers_persistent_state_def)
next
  case (Cons r rs)
  then show ?thesis
    by (auto simp: level_cases covers_persistent_state_def Let_def list_all_iff list_ex_iff)
qed

definition sample_row :: "EffectDomain \<Rightarrow> RecoveryObjective \<Rightarrow> DomainProtection \<Rightarrow> DomainCoverage" where
  "sample_row d obj p = by_asset (coverage_new d obj p []) (asc ''a1'')"

text \<open>
  The worked example of the specification: a replaced configuration file with an asset
  behind it, a restarted service, and network sessions nobody recovers.
\<close>

theorem level_never_overstates_witness:
  "covers_persistent_state (level (summary_of
     [sample_row FilesystemPersistent PreserveExact Protected,
      coverage_new ProcessRuntime RestoreSemantic Compensatable [],
      coverage_new NetworkRuntime NoRecoveryRequired Unprotected []]))"
  unfolding level_never_overstates
  by (simp add: summary_of_def sample_row_def by_asset_def coverage_new_def required_rows_def
      row_is_required_def objective_is_required_def is_satisfied_def backed_by_image_def
      is_state_image_def domain_is_persistent_def one_transaction_def)

text \<open>The consistency of a plan is the weakest its satisfied rows claim.\<close>

lemma summary_consistency_weakest:
  assumes "summary_consistency s = Some c"
  shows "\<exists>row \<in> set (required_rows s). is_satisfied row \<and> row_consistency row = Some c"
    and "row \<in> set (required_rows s) \<Longrightarrow> is_satisfied row \<Longrightarrow> row_consistency row = Some d \<Longrightarrow>
      consistency_claim_rank d \<le> consistency_claim_rank c"
proof -
  let ?claims = "List.map_filter row_consistency
      (filter (\<lambda>row. row_is_required row \<and> is_satisfied row) (sum_rows s))"
  obtain x xs where xs: "?claims = x # xs" and c: "c = foldl weakest_of x xs"
    using assms unfolding summary_consistency_def by (cases ?claims) auto
  have mem: "d \<in> set ?claims \<longleftrightarrow>
      (\<exists>row \<in> set (required_rows s). is_satisfied row \<and> row_consistency row = Some d)" for d
    by (auto simp: set_map_filter required_rows_def)
  have "c \<in> set ?claims" using claims.foldl_weakest_in[of x xs] xs c by simp
  with mem show "\<exists>row \<in> set (required_rows s). is_satisfied row \<and> row_consistency row = Some c" by blast
  assume "row \<in> set (required_rows s)" "is_satisfied row" "row_consistency row = Some d"
  with mem have "d \<in> set ?claims" by blast
  with xs c show "consistency_claim_rank d \<le> consistency_claim_rank c"
    using claims.foldl_weakest_ge[of d x xs] by simp
qed

text \<open>
  What the digest of a summary seals: the domain, the objective, the protection and the
  policy mark of each row, in order.  The assets and the transaction scope are not part of
  it, so two matrices with one digest can compose to different words.
\<close>

lemma digest_omits_assets:
  "summary_digest_text (summary_of [sample_row FilesystemPersistent PreserveExact Protected]) =
     summary_digest_text (summary_of [coverage_new FilesystemPersistent PreserveExact Protected []])"
  "level (summary_of [sample_row FilesystemPersistent PreserveExact Protected]) = LevelProtected"
  "level (summary_of [coverage_new FilesystemPersistent PreserveExact Protected []]) =
     LevelPartiallyProtected"
  by (simp_all add: summary_digest_text_def row_digest_def summary_of_def sample_row_def by_asset_def
      coverage_new_def level_cases required_rows_def row_is_required_def objective_is_required_def
      is_satisfied_def is_state_image_def one_transaction_def domain_is_persistent_def backed_by_image_def)

end
