(* ===== verification/Mount_Domain.thy ===== *)
theory Mount_Domain
  imports Mount_Table Protection "HOL-Library.List_Lexorder" "HOL-Library.Sublist"
begin

text \<open>
  From a path to the storage object that holds it: the vocabulary of
  \<open>crates/ono-change-core/src/domain.rs\<close> and the resolution over the mount table of
  \<open>crates/ono-change-protection/src/domain.rs\<close>.  A path is resolved lexically, the deepest
  and latest mount that contains it serves it, an overlay is followed to its writable layer
  at most \<open>MAX_OVERLAY_DEPTH\<close> times, and a directory is cut into the file systems mounted
  beneath it.  The order of strings is the order of their code points, which is the order of
  their UTF-8 bytes.
\<close>

section \<open>The vocabulary\<close>

datatype FilesystemKind =
    Zfs | Btrfs | Ext4 | Xfs | Lvm | Overlay | Network | Pseudo | Volatile | OtherFs | UnknownFs

definition fs_is_persistent :: "FilesystemKind \<Rightarrow> bool" where
  "fs_is_persistent k \<longleftrightarrow> k \<in> {Zfs, Btrfs, Ext4, Xfs, Lvm, OtherFs, Overlay, Network}"

definition admits_local_snapshot :: "FilesystemKind \<Rightarrow> bool" where
  "admits_local_snapshot k \<longleftrightarrow> k \<in> {Zfs, Btrfs, Lvm}"

definition state_lives_elsewhere :: "FilesystemKind \<Rightarrow> bool" where
  "state_lives_elsewhere k \<longleftrightarrow> k \<in> {Overlay, Network}"

definition pseudo_types :: "ustr list" where
  "pseudo_types = map asc
     [''proc'', ''procfs'', ''sysfs'', ''devtmpfs'', ''devpts'', ''cgroup'', ''cgroup2'', ''tracefs'',
      ''debugfs'', ''securityfs'', ''pstore'', ''bpf'', ''configfs'', ''fusectl'', ''hugetlbfs'',
      ''mqueue'', ''efivarfs'', ''binfmt_misc'', ''autofs'', ''rpc_pipefs'', ''nsfs'', ''selinuxfs'']"

definition network_types :: "ustr list" where
  "network_types = map asc
     [''nfs'', ''nfs4'', ''cifs'', ''smb3'', ''smbfs'', ''afs'', ''ceph'', ''glusterfs'', ''lustre'',
      ''ocfs2'', ''9p'', ''sshfs'', ''davfs'', ''beegfs'', ''orangefs'', ''gfs2'', ''pvfs2'']"

definition of_mount_type :: "ustr \<Rightarrow> FilesystemKind" where
  "of_mount_type name =
     (let bare = (case strip_prefix (asc ''fuse.'') name of None \<Rightarrow> name | Some r \<Rightarrow> r) in
      if bare = asc ''zfs'' then Zfs
      else if bare = asc ''btrfs'' then Btrfs
      else if bare \<in> {asc ''ext2'', asc ''ext3'', asc ''ext4''} then Ext4
      else if bare = asc ''xfs'' then Xfs
      else if bare \<in> {asc ''overlay'', asc ''overlayfs'', asc ''aufs'', asc ''unionfs''} then Overlay
      else if bare \<in> {asc ''tmpfs'', asc ''ramfs''} then Volatile
      else if bare \<in> set pseudo_types then Pseudo
      else if bare \<in> set network_types then Network
      else if bare = [] then UnknownFs
      else OtherFs)"

datatype NonPersistentReason =
    ReasonPseudo | ReasonVolatile | ReasonRemote | UpperLayerElsewhere | ContainerEphemeral
  | NoProvider | Unresolved

record ResolvedMount =
  rm_mount_id :: ustr
  rm_mount_point :: ustr
  rm_filesystem :: ustr
  rm_kind :: FilesystemKind
  rm_source :: ustr
  rm_root :: ustr
  rm_options :: "ustr list"
  rm_read_only :: bool
  rm_namespace :: "ustr option"

definition mount_new :: "ustr \<Rightarrow> ustr \<Rightarrow> ustr \<Rightarrow> ustr \<Rightarrow> ustr \<Rightarrow> ResolvedMount" where
  "mount_new mount_id mount_point filesystem source root =
     \<lparr>rm_mount_id = mount_id, rm_mount_point = mount_point, rm_filesystem = filesystem,
      rm_kind = of_mount_type filesystem, rm_source = source, rm_root = root, rm_options = [],
      rm_read_only = False, rm_namespace = None\<rparr>"

definition with_options :: "ResolvedMount \<Rightarrow> ustr list \<Rightarrow> ResolvedMount" where
  "with_options m options =
     m\<lparr>rm_read_only := list_ex (\<lambda>w. w = asc ''ro'') options, rm_options := options\<rparr>"

definition in_namespace :: "ResolvedMount \<Rightarrow> ustr \<Rightarrow> ResolvedMount" where
  "in_namespace m namespace = m\<lparr>rm_namespace := Some namespace\<rparr>"

definition mount_option :: "ResolvedMount \<Rightarrow> string \<Rightarrow> ustr option" where
  "mount_option m key = find_map (strip_prefix (asc key @ [61])) (rm_options m)"

record PersistenceDomain =
  pd_path :: ustr
  pd_mount :: ResolvedMount
  pd_object :: "ustr option"
  pd_object_kind :: ustr
  pd_boundary :: "ustr option"
  pd_refusal :: "NonPersistentReason option"
  pd_detail :: sentence

definition resolved_domain :: "ustr \<Rightarrow> ResolvedMount \<Rightarrow> ustr \<Rightarrow> ustr \<Rightarrow> sentence \<Rightarrow> PersistenceDomain" where
  "resolved_domain path mount object_kind object detail =
     \<lparr>pd_path = path, pd_mount = mount, pd_object = Some object, pd_object_kind = object_kind,
      pd_boundary = None, pd_refusal = None, pd_detail = detail\<rparr>"

definition refused_domain ::
    "ustr \<Rightarrow> ResolvedMount \<Rightarrow> NonPersistentReason \<Rightarrow> sentence \<Rightarrow> PersistenceDomain" where
  "refused_domain path mount reason detail =
     \<lparr>pd_path = path, pd_mount = mount, pd_object = None, pd_object_kind = asc ''none'',
      pd_boundary = None, pd_refusal = Some reason, pd_detail = detail\<rparr>"

definition with_boundary :: "PersistenceDomain \<Rightarrow> ustr \<Rightarrow> PersistenceDomain" where
  "with_boundary d boundary = d\<lparr>pd_boundary := Some boundary\<rparr>"

definition is_protectable :: "PersistenceDomain \<Rightarrow> bool" where
  "is_protectable d \<longleftrightarrow>
     pd_refusal d = None \<and> pd_object d \<noteq> None \<and> fs_is_persistent (rm_kind (pd_mount d))"

datatype DomainReach = ReachRefused | CopyOnly | AnyProvider

definition reach_of :: "PersistenceDomain \<Rightarrow> DomainReach" where
  "reach_of d =
     (if \<not> is_protectable d then ReachRefused
      else if rm_kind (pd_mount d) = Overlay then CopyOnly
      else AnyProvider)"

definition admits_snapshot :: "DomainReach \<Rightarrow> bool" where
  "admits_snapshot r \<longleftrightarrow> r \<in> {AnyProvider}"

definition admits_copy :: "DomainReach \<Rightarrow> bool" where
  "admits_copy r \<longleftrightarrow> r \<in> {AnyProvider, CopyOnly}"

definition recorded_domain :: "PersistenceDomain \<Rightarrow> ustr option" where
  "recorded_domain d =
     (if \<not> is_protectable d then None
      else case pd_boundary d of Some b \<Rightarrow> Some b | None \<Rightarrow> pd_object d)"

section \<open>Paths\<close>

definition trim_end_slashes :: "ustr \<Rightarrow> ustr" where
  "trim_end_slashes p = rev (dropWhile (\<lambda>c. c = 47) (rev p))"

definition starts_with :: "ustr \<Rightarrow> ustr \<Rightarrow> bool" where
  "starts_with p s \<longleftrightarrow> take (length p) s = p"

definition contains :: "ustr \<Rightarrow> ustr \<Rightarrow> bool" where
  "contains target path =
     (let target = trim_end_slashes target in
      if target = [] then starts_with [47] path
      else path = target \<or> starts_with (target @ [47]) path)"

text \<open>The lexical components: a dot stays, two dots take the last part away.\<close>

definition absolute_step :: "ustr \<Rightarrow> ustr list \<Rightarrow> ustr list" where
  "absolute_step component parts =
     (if component = [] \<or> component = [46] then parts
      else if component = [46, 46] then butlast parts
      else parts @ [component])"

definition absolute_parts :: "ustr \<Rightarrow> ustr list" where
  "absolute_parts path = fold absolute_step (split_on 47 path) []"

definition absolute :: "ustr \<Rightarrow> ustr option" where
  "absolute path =
     (if \<not> starts_with [47] path then None
      else Some (47 # join_with 47 (absolute_parts path)))"

section \<open>The serving mount\<close>

definition deepest_step ::
    "ustr \<Rightarrow> nat \<times> MountInfo \<Rightarrow> (nat \<times> nat) option \<Rightarrow> (nat \<times> nat) option" where
  "deepest_step path entry best =
     (let (index, info) = entry in
      if \<not> contains (mi_target info) path then best
      else let depth = blen (trim_end_slashes (mi_target info)) in
        if (case best of None \<Rightarrow> True | Some (_, previous) \<Rightarrow> depth \<ge> previous)
        then Some (index, depth) else best)"

definition deepest :: "ustr \<Rightarrow> MountInfo list \<Rightarrow> nat option" where
  "deepest path mounts =
     map_option fst (fold (deepest_step path) (List.enumerate 0 mounts) None)"

definition subvolume_of :: "MountInfo \<Rightarrow> ustr option" where
  "subvolume_of info = find_map (strip_prefix (asc ''subvol='')) (mi_options info)"

definition underlying_step :: "nat \<Rightarrow> MountInfo \<Rightarrow> nat \<times> MountInfo \<Rightarrow> MountInfo option \<Rightarrow> MountInfo option" where
  "underlying_step index info entry best =
     (let (pos, other) = entry in
      if pos = index \<or> mi_device_number other \<noteq> mi_device_number info \<or>
         mi_source other \<noteq> mi_source info \<or> subvolume_of other \<noteq> subvolume_of info
      then best
      else if (case best of None \<Rightarrow> True
                | Some current \<Rightarrow> blen (mi_target other) < blen (mi_target current))
      then Some other else best)"

definition underlying :: "nat \<Rightarrow> MountInfo list \<Rightarrow> MountInfo option" where
  "underlying index mounts =
     (if index < length mounts then
        let info = mounts ! index in
        (case fold (underlying_step index info) (List.enumerate 0 mounts) None of
           None \<Rightarrow> None
         | Some primary \<Rightarrow>
             if blen (mi_target primary) < blen (mi_target info) then Some primary else None)
      else None)"

definition resolved_mount :: "MountInfo \<Rightarrow> ustr option \<Rightarrow> ResolvedMount" where
  "resolved_mount info namespace =
     (let mount = with_options
            (mount_new (mi_device_number info) (mi_target info) (mi_filesystem info) (mi_source info)
               (case find_map (strip_prefix (asc ''subvol='')) (mi_options info) of
                  None \<Rightarrow> asc ''/'' | Some v \<Rightarrow> v))
            (mi_options info)
      in case namespace of Some ns \<Rightarrow> in_namespace mount ns | None \<Rightarrow> mount)"

definition no_mount :: "ustr option \<Rightarrow> ResolvedMount" where
  "no_mount namespace =
     (let mount = mount_new (asc ''0:0'') [] [] [] (asc ''/'')
      in case namespace of Some ns \<Rightarrow> in_namespace mount ns | None \<Rightarrow> mount)"

definition copy_only :: "ustr \<Rightarrow> MountInfo \<Rightarrow> ResolvedMount \<Rightarrow> ustr \<Rightarrow> PersistenceDomain" where
  "copy_only subject info mount upper =
     resolved_domain subject mount (asc ''overlay-writable-layer'') upper
       (Format ''the writable upper layer is not visible'' [Say upper, Say (mi_target info)])"

definition MAX_OVERLAY_DEPTH :: nat where
  "MAX_OVERLAY_DEPTH = 4"

text \<open>What the resolution answers for a mount that is no overlay.\<close>

definition resolve_plain :: "ustr \<Rightarrow> nat \<Rightarrow> MountInfo list \<Rightarrow> ustr option \<Rightarrow> PersistenceDomain" where
  "resolve_plain subject index mounts namespace =
     (let info = mounts ! index;
          mount = resolved_mount info namespace;
          read_only_note = (if rm_read_only mount then [Format ''the mount is read-only'' []] else []);
          traced = (case underlying index mounts of
                      None \<Rightarrow> []
                    | Some primary \<Rightarrow> [Format ''traced through a bind mount'' [Say (mi_target primary)]])
      in case rm_kind mount of
           Pseudo \<Rightarrow> refused_domain subject mount ReasonPseudo
             (Format ''a runtime interface'' [Say (mi_target info), Say (mi_filesystem info)])
         | Volatile \<Rightarrow> refused_domain subject mount ReasonVolatile
             (Format ''contents do not survive a reboot'' [Say (mi_target info), Say (mi_filesystem info)])
         | Network \<Rightarrow> refused_domain subject mount ReasonRemote
             (Format ''served over the network''
               [Say (mi_target info), Say (mi_source info), Say (mi_filesystem info)])
         | Zfs \<Rightarrow> with_boundary
             (resolved_domain subject mount (asc ''zfs-dataset'') (mi_source info)
               (Format ''carries the ZFS dataset''
                 ([Say (mi_target info), Say (mi_source info)] @ traced @ read_only_note)))
             (mi_source info)
         | Btrfs \<Rightarrow>
             (let subvolume = (case mount_option mount ''subvol'' of None \<Rightarrow> asc ''/'' | Some v \<Rightarrow> v);
                  identity = (case mount_option mount ''subvolid'' of
                     None \<Rightarrow> [Say subvolume] | Some i \<Rightarrow> [Say subvolume, Say i])
              in with_boundary
                (resolved_domain subject mount (asc ''btrfs-subvolume'') subvolume
                  (Format ''carries the Btrfs subvolume''
                    ([Say (mi_target info)] @ identity @ [Say (mi_source info)] @ traced @ read_only_note)))
                subvolume)
         | UnknownFs \<Rightarrow> refused_domain subject mount Unresolved
             (Format ''no filesystem type'' [Say (mi_target info)])
         | _ \<Rightarrow> resolved_domain subject mount (asc ''filesystem'') (mi_source info)
             (Format ''no snapshot mechanism of its own''
               ([Say (mi_target info), Say (mi_filesystem info), Say (mi_source info)] @ traced @ read_only_note)))"

text \<open>The domain of a writable layer, reported as the domain of the path above it.\<close>

definition upper_layer_domain ::
    "ustr \<Rightarrow> MountInfo \<Rightarrow> ustr \<Rightarrow> PersistenceDomain \<Rightarrow> PersistenceDomain" where
  "upper_layer_domain subject info upper resolved =
     (let object = (case pd_object resolved of None \<Rightarrow> upper | Some v \<Rightarrow> v);
          domain = resolved_domain subject (pd_mount resolved) (pd_object_kind resolved)
            object (Format ''the mutation lands in the upper layer''
              [Say upper, Say (mi_target info), Say object])
      in case pd_boundary resolved of
           Some b \<Rightarrow> with_boundary domain b
         | None \<Rightarrow> domain)"

text \<open>
  The two recursive functions of the source as one: an overlay asks for the domain of its
  writable layer one level deeper.
\<close>

function resolve_at ::
    "ustr \<Rightarrow> ustr \<Rightarrow> MountInfo list \<Rightarrow> ustr option \<Rightarrow> nat \<Rightarrow> PersistenceDomain" where
  "resolve_at subject lookup mounts namespace depth =
     (case deepest lookup mounts of
        None \<Rightarrow> refused_domain subject (no_mount namespace) Unresolved
          (Format ''no mount contains'' [Say lookup])
      | Some index \<Rightarrow>
          let info = mounts ! index; mount = resolved_mount info namespace in
          if rm_kind mount \<noteq> Overlay then resolve_plain subject index mounts namespace
          else case mount_option mount ''upperdir'' of
            None \<Rightarrow> refused_domain subject mount UpperLayerElsewhere
              (Format ''no writable upper layer'' [Say (mi_target info)])
          | Some upper \<Rightarrow>
              if depth \<ge> MAX_OVERLAY_DEPTH then
                refused_domain subject mount UpperLayerElsewhere
                  (Format ''could not be followed'' [Say (mi_target info)])
              else
                let hidden = (case absolute upper of
                       None \<Rightarrow> True
                     | Some p \<Rightarrow> (case deepest p mounts of None \<Rightarrow> True | Some holder \<Rightarrow> holder = index))
                in if hidden then copy_only subject info mount upper
                else
                  let resolved = resolve_at subject upper mounts namespace (Suc depth) in
                  case reach_of resolved of
                    ReachRefused \<Rightarrow> refused_domain subject mount UpperLayerElsewhere
                      (Format ''the upper layer is not protectable''
                        [Say (mi_target info), Say upper, pd_detail resolved])
                  | CopyOnly \<Rightarrow> copy_only subject info mount upper
                  | AnyProvider \<Rightarrow> upper_layer_domain subject info upper resolved)"
  by pat_completeness auto
termination
  by (relation "measure (\<lambda>(_, _, _, _, depth). MAX_OVERLAY_DEPTH - depth)") auto

declare resolve_at.simps [simp del]

definition resolve_domain :: "ustr \<Rightarrow> MountInfo list \<Rightarrow> ustr option \<Rightarrow> PersistenceDomain" where
  "resolve_domain path mounts namespace =
     (case absolute path of
        Some target \<Rightarrow> resolve_at path target mounts namespace 0
      | None \<Rightarrow> refused_domain path (no_mount namespace) Unresolved (Format ''a relative path'' []))"

section \<open>The mount table\<close>

record MountTable =
  mt_mounts :: "MountInfo list"
  mt_namespace :: "ustr option"

definition table_from_text :: "ustr \<Rightarrow> MountTable" where
  "table_from_text s = \<lparr>mt_mounts = parse_mountinfo s, mt_namespace = None\<rparr>"

definition table_in_namespace :: "MountTable \<Rightarrow> ustr \<Rightarrow> MountTable" where
  "table_in_namespace t namespace = t\<lparr>mt_namespace := Some namespace\<rparr>"

definition table_resolve :: "MountTable \<Rightarrow> ustr \<Rightarrow> PersistenceDomain" where
  "table_resolve t path = resolve_domain path (mt_mounts t) (mt_namespace t)"

definition mount_for :: "MountTable \<Rightarrow> ustr \<Rightarrow> MountInfo option" where
  "mount_for t path =
     (case absolute path of
        None \<Rightarrow> None
      | Some target \<Rightarrow> map_option (\<lambda>i. mt_mounts t ! i) (deepest target (mt_mounts t)))"

record MountBoundary =
  mb_mount_point :: ustr
  mb_domain :: PersistenceDomain
  mb_size :: "nat option"

definition hidden_by :: "ustr \<Rightarrow> ustr \<Rightarrow> MountInfo list \<Rightarrow> bool" where
  "hidden_by root point later =
     list_ex (\<lambda>m. case absolute (mi_target m) of
                    None \<Rightarrow> False
                  | Some over \<Rightarrow> over \<noteq> point \<and> contains over point \<and> contains root over) later"

fun boundary_points :: "ustr \<Rightarrow> MountInfo list \<Rightarrow> ustr list \<Rightarrow> ustr list" where
  "boundary_points root [] points = points"
| "boundary_points root (info # later) points =
     (case absolute (mi_target info) of
        None \<Rightarrow> boundary_points root later points
      | Some point \<Rightarrow>
          if point = root \<or> \<not> contains root point \<or> point \<in> set points
          then boundary_points root later points
          else boundary_points root later
                 (if hidden_by root point later then points else points @ [point]))"

definition boundaries_beneath :: "MountTable \<Rightarrow> ustr \<Rightarrow> MountBoundary list" where
  "boundaries_beneath t path =
     (case absolute path of
        None \<Rightarrow> []
      | Some root \<Rightarrow>
          map (\<lambda>point. \<lparr>mb_mount_point = point, mb_domain = table_resolve t point, mb_size = None\<rparr>)
            (sort (boundary_points root (mt_mounts t) [])))"

definition sized :: "MountBoundary \<Rightarrow> nat \<Rightarrow> MountBoundary" where
  "sized b n = b\<lparr>mb_size := Some n\<rparr>"

section \<open>Containment is by whole components\<close>

definition path_part :: "ustr \<Rightarrow> bool" where
  "path_part w \<longleftrightarrow> w \<noteq> [] \<and> 47 \<notin> set w"

abbreviation path_of :: "ustr list \<Rightarrow> ustr" where
  "path_of ws \<equiv> 47 # join_with 47 ws"

lemma join_with_append:
  "xs \<noteq> [] \<Longrightarrow> ys \<noteq> [] \<Longrightarrow> join_with c (xs @ ys) = join_with c xs @ c # join_with c ys"
proof (induction c xs rule: join_with.induct)
  case (2 c w)
  then show ?case by (cases ys) auto
qed simp_all

lemma trim_end_path_of:
  assumes "list_all path_part ws"
  shows "trim_end_slashes (path_of ws) = (if ws = [] then [] else path_of ws)"
proof (cases "ws = []")
  case True
  then show ?thesis by (simp add: trim_end_slashes_def)
next
  case False
  have parts: "\<forall>w \<in> set ws. w \<noteq> []" using assms by (auto simp: list_all_iff path_part_def)
  have "last (last ws) \<noteq> 47"
    using assms False by (metis last_in_set list_all_iff path_part_def)
  then have "last (path_of ws) \<noteq> 47"
    using join_ends(2,3)[OF False parts, of 47] by simp
  then obtain a x where ax: "path_of ws = a @ [x]" and "x \<noteq> 47"
    by (cases "path_of ws" rule: rev_cases) auto
  then show ?thesis using False unfolding trim_end_slashes_def ax by simp
qed

lemma split_on_path_of:
  "list_all path_part ws \<Longrightarrow> ws \<noteq> [] \<Longrightarrow> split_on 47 (join_with 47 ws) = ws"
  by (rule split_on_join) (auto simp: list_all_iff path_part_def)

lemma contains_path_of:
  assumes "list_all path_part ts" and "list_all path_part ps"
  shows "contains (path_of ts) (path_of ps) \<longleftrightarrow> prefix ts ps"
proof (cases "ts = []")
  case True
  then show ?thesis using trim_end_path_of[OF assms(1)] by (simp add: contains_def starts_with_def)
next
  case ts: False
  have unfold: "contains (path_of ts) (path_of ps) \<longleftrightarrow>
      join_with 47 ps = join_with 47 ts \<or> starts_with (join_with 47 ts @ [47]) (join_with 47 ps)"
    using trim_end_path_of[OF assms(1)] ts by (simp add: contains_def starts_with_def)
  show ?thesis unfolding unfold
  proof
    assume "join_with 47 ps = join_with 47 ts \<or> starts_with (join_with 47 ts @ [47]) (join_with 47 ps)"
    then show "prefix ts ps"
    proof
      assume same: "join_with 47 ps = join_with 47 ts"
      show ?thesis
      proof (cases "ps = []")
        case True
        then show ?thesis using same join_ends(3)[OF ts, of 47] assms(1)
          by (auto simp: list_all_iff path_part_def)
      next
        case False
        then show ?thesis using same split_on_path_of[OF assms(1) ts] split_on_path_of[OF assms(2)] by simp
      qed
    next
      assume "starts_with (join_with 47 ts @ [47]) (join_with 47 ps)"
      then obtain r where r: "join_with 47 ps = (join_with 47 ts @ [47]) @ r"
        unfolding starts_with_def by (metis append_take_drop_id)
      then have "ps \<noteq> []" by auto
      have "ps = split_on 47 (join_with 47 ts @ 47 # r)"
        using split_on_path_of[OF assms(2) \<open>ps \<noteq> []\<close>] r by simp
      also have "\<dots> = ts @ split_on 47 r"
        using split_on_path_of[OF assms(1) ts] by (simp add: split_on_append)
      finally show ?thesis by (metis prefixI)
    qed
  next
    assume "prefix ts ps"
    then obtain qs where ps: "ps = ts @ qs" by (auto simp: prefix_def)
    show "join_with 47 ps = join_with 47 ts \<or> starts_with (join_with 47 ts @ [47]) (join_with 47 ps)"
      using ps ts by (cases "qs = []") (auto simp: join_with_append starts_with_def)
  qed
qed

lemma absolute_parts_parts:
  "list_all (\<lambda>w. path_part w \<and> w \<noteq> [46] \<and> w \<noteq> [46, 46]) (absolute_parts path)"
proof -
  have "list_all (\<lambda>w. path_part w \<and> w \<noteq> [46] \<and> w \<noteq> [46, 46]) (fold absolute_step ws acc)"
    if "\<forall>w \<in> set ws. 47 \<notin> set w"
      and "list_all (\<lambda>w. path_part w \<and> w \<noteq> [46] \<and> w \<noteq> [46, 46]) acc" for ws acc
    using that
  proof (induction ws arbitrary: acc)
    case (Cons w ws)
    have "list_all (\<lambda>w. path_part w \<and> w \<noteq> [46] \<and> w \<noteq> [46, 46]) (absolute_step w acc)"
      using Cons.prems by (auto simp: absolute_step_def path_part_def list_all_iff dest: in_set_butlastD)
    then show ?case using Cons by simp
  qed simp
  then show ?thesis unfolding absolute_parts_def using split_on_pieces[of _ 47 path] by simp
qed

lemma absolute_parts_part: "list_all path_part (absolute_parts path)"
  using absolute_parts_parts[of path] by (auto simp: list_all_iff)

lemma absolute_parts_fixed:
  assumes "list_all (\<lambda>w. path_part w \<and> w \<noteq> [46] \<and> w \<noteq> [46, 46]) ws"
  shows "absolute_parts (path_of ws) = ws"
proof -
  have keep: "fold absolute_step vs acc = acc @ vs"
    if "list_all (\<lambda>w. path_part w \<and> w \<noteq> [46] \<and> w \<noteq> [46, 46]) vs" for vs acc
    using that by (induction vs arbitrary: acc) (auto simp: absolute_step_def path_part_def)
  have parts: "list_all path_part ws" using assms by (auto simp: list_all_iff)
  show ?thesis
  proof (cases "ws = []")
    case True
    then show ?thesis by (simp add: absolute_parts_def absolute_step_def)
  next
    case False
    have "split_on 47 (path_of ws) = [] # ws" using split_on_path_of[OF parts False] by simp
    moreover have "fold absolute_step ([] # ws) [] = ws"
      using keep[OF assms, of "[]"] by (simp add: absolute_step_def)
    ultimately show ?thesis unfolding absolute_parts_def by simp
  qed
qed

lemma absolute_idem: "absolute path = Some p \<Longrightarrow> absolute p = Some p"
  using absolute_parts_fixed[OF absolute_parts_parts[of path]]
  by (auto simp: absolute_def starts_with_def split: if_splits)

lemma absolute_eq_Some: "absolute path = Some p \<longleftrightarrow> starts_with [47] path \<and> p = path_of (absolute_parts path)"
  by (auto simp: absolute_def)

text \<open>
  whether a mount serves a path is decided by whole path components.  For two absolute
  paths, resolved lexically, one contains the other exactly when its components are a
  prefix of the other's, so \<open>/var\<close> never claims \<open>/variable\<close>.
\<close>

theorem contains_by_components:
  assumes "absolute target = Some t" and "absolute path = Some p"
  shows "contains t p \<longleftrightarrow> prefix (absolute_parts target) (absolute_parts path)"
  using assms contains_path_of[OF absolute_parts_part absolute_parts_part]
  by (auto simp: absolute_eq_Some)

theorem contains_by_components_witness:
  "contains (asc ''/var'') (asc ''/var/lib'') \<longleftrightarrow>
     prefix (absolute_parts (asc ''/var/'')) (absolute_parts (asc ''/var/./x/../lib''))"
  by (rule contains_by_components)
    (simp_all add: absolute_def starts_with_def absolute_parts_def absolute_step_def)

section \<open>The deepest mount serves\<close>

abbreviation mount_depth :: "MountInfo \<Rightarrow> nat" where
  "mount_depth m \<equiv> blen (trim_end_slashes (mi_target m))"

lemma deepest_fold:
  fixes path :: ustr and mounts :: "MountInfo list"
  defines "best \<equiv> fold (deepest_step path) (List.enumerate 0 mounts) None"
  shows "(best = None \<longleftrightarrow> (\<forall>m \<in> set mounts. \<not> contains (mi_target m) path)) \<and>
    (\<forall>i d. best = Some (i, d) \<longrightarrow>
       i < length mounts \<and> contains (mi_target (mounts ! i)) path \<and> d = mount_depth (mounts ! i) \<and>
       (\<forall>j < length mounts. contains (mi_target (mounts ! j)) path \<longrightarrow>
          mount_depth (mounts ! j) < d \<or> mount_depth (mounts ! j) = d \<and> j \<le> i))"
  unfolding best_def
proof (induction mounts rule: rev_induct)
  case Nil
  then show ?case by simp
next
  case (snoc m mounts)
  define b where "b = fold (deepest_step path) (List.enumerate 0 mounts) None"
  note IH = snoc[folded b_def]
  have step: "fold (deepest_step path) (List.enumerate 0 (mounts @ [m])) None =
      deepest_step path (length mounts, m) b"
    by (simp add: enumerate_append_eq b_def)
  have less: "j < length (mounts @ [m]) \<longleftrightarrow> j < length mounts \<or> j = length mounts" for j
    by auto
  show ?case
  proof (cases "contains (mi_target m) path")
    case False
    then show ?thesis using IH unfolding step less
      by (auto simp: deepest_step_def nth_append)
  next
    case True
    show ?thesis
    proof (cases b)
      case None
      then show ?thesis using IH True unfolding step less
        by (auto simp: deepest_step_def nth_append Let_def)
    next
      case (Some id)
      then show ?thesis using IH True unfolding step less
        by (cases id) (fastforce simp: deepest_step_def nth_append Let_def not_le split: if_splits)
    qed
  qed
qed

text \<open>
  the mount that serves a path is the deepest one that contains it, and among mounts at
  the same depth the one the kernel listed last; there is none only when no mount of the
  table contains the path.
\<close>

theorem deepest_mount_serves:
  "case deepest path mounts of
     None \<Rightarrow> \<forall>m \<in> set mounts. \<not> contains (mi_target m) path
   | Some i \<Rightarrow> i < length mounts \<and> contains (mi_target (mounts ! i)) path \<and>
       (\<forall>j < length mounts. contains (mi_target (mounts ! j)) path \<longrightarrow>
          mount_depth (mounts ! j) < mount_depth (mounts ! i) \<or>
          mount_depth (mounts ! j) = mount_depth (mounts ! i) \<and> j \<le> i)"
  using deepest_fold[of path mounts]
  by (cases "fold (deepest_step path) (List.enumerate 0 mounts) None")
    (auto simp: deepest_def split: option.splits)

definition sample_mount :: "string \<Rightarrow> string \<Rightarrow> string \<Rightarrow> string list \<Rightarrow> MountInfo" where
  "sample_mount source target fs options =
     \<lparr>mi_source = asc source, mi_target = asc target, mi_filesystem = asc fs,
      mi_options = map asc options, mi_device = None, mi_device_number = asc ''8:1'',
      mi_peer_group = None\<rparr>"

theorem deepest_mount_serves_witness:
  "deepest (asc ''/srv/x'') [sample_mount ''a'' ''/'' ''ext4'' [], sample_mount ''b'' ''/srv'' ''ext4'' []] = Some 1 \<and>
   contains (mi_target (sample_mount ''b'' ''/srv'' ''ext4'' [])) (asc ''/srv/x'') \<and>
   mount_depth (sample_mount ''a'' ''/'' ''ext4'' []) \<le> mount_depth (sample_mount ''b'' ''/srv'' ''ext4'' [])"
proof -
  let ?ms = "[sample_mount ''a'' ''/'' ''ext4'' [], sample_mount ''b'' ''/srv'' ''ext4'' []]"
  have d: "deepest (asc ''/srv/x'') ?ms = Some 1" "contains (mi_target (?ms ! 0)) (asc ''/srv/x'')"
    by (simp_all add: deepest_def deepest_step_def sample_mount_def contains_def trim_end_slashes_def
        starts_with_def Let_def len_utf8_def enumerate_simps)
  from deepest_mount_serves[where path = "asc ''/srv/x''" and mounts = ?ms, unfolded d(1) option.case]
  have "contains (mi_target (?ms ! 1)) (asc ''/srv/x'')" "mount_depth (?ms ! 0) \<le> mount_depth (?ms ! 1)"
    using d(2) by (blast, metis length_greater_0_conv less_imp_le_nat list.discI order_refl)
  then show ?thesis using d(1) by simp
qed

section \<open>What holds the state of a path\<close>

lemma deepest_index: "deepest path mounts = Some i \<Longrightarrow> i < length mounts"
  using deepest_fold[of path mounts] by (auto simp: deepest_def)

text \<open>
  The mount that holds the state of a path: the one that serves it, or, for an overlay,
  the one that holds its writable layer.
\<close>

inductive holds_state :: "MountInfo list \<Rightarrow> ustr \<Rightarrow> nat \<Rightarrow> bool" for mounts where
  served: "deepest path mounts = Some i \<Longrightarrow> of_mount_type (mi_filesystem (mounts ! i)) \<noteq> Overlay \<Longrightarrow>
     holds_state mounts path i"
| through_overlay: "deepest path mounts = Some j \<Longrightarrow>
     of_mount_type (mi_filesystem (mounts ! j)) = Overlay \<Longrightarrow>
     find_map (strip_prefix (asc ''upperdir='')) (mi_options (mounts ! j)) = Some upper \<Longrightarrow>
     holds_state mounts upper i \<Longrightarrow> holds_state mounts path i"

lemma resolved_mount_simps [simp]:
  "rm_kind (resolved_mount info ns) = of_mount_type (mi_filesystem info)"
  "rm_options (resolved_mount info ns) = mi_options info"
  by (simp_all add: resolved_mount_def with_options_def mount_new_def in_namespace_def Let_def
      split: option.splits)

lemma mount_options_read:
  "mount_option (resolved_mount info ns) ''subvol'' = subvolume_of info"
  "mount_option (resolved_mount info ns) ''upperdir'' = find_map (strip_prefix (asc ''upperdir='')) (mi_options info)"
  by (simp_all add: mount_option_def subvolume_of_def)

lemma no_mount_kind [simp]: "rm_kind (no_mount ns) = UnknownFs"
  by (simp add: no_mount_def mount_new_def in_namespace_def of_mount_type_def strip_prefix_def
      pseudo_types_def network_types_def Let_def split: option.splits)

lemma domain_builders [simp]:
  "\<not> is_protectable (refused_domain p m r d)"
  "reach_of (refused_domain p m r d) = ReachRefused"
  "pd_mount (resolved_domain p m k x d) = m" "pd_object (resolved_domain p m k x d) = Some x"
  "pd_mount (with_boundary e b) = pd_mount e" "pd_object (with_boundary e b) = pd_object e"
  "is_protectable (resolved_domain p m k x d) = fs_is_persistent (rm_kind m)"
  "is_protectable (with_boundary e b) = is_protectable e"
  "reach_of (with_boundary e b) = reach_of e"
  by (simp_all add: is_protectable_def refused_domain_def resolved_domain_def with_boundary_def reach_of_def)

lemma reach_resolved:
  "reach_of (resolved_domain p m k x d) =
     (if \<not> fs_is_persistent (rm_kind m) then ReachRefused
      else if rm_kind m = Overlay then CopyOnly else AnyProvider)"
  by (simp add: reach_of_def)

definition snapshot_kinds :: "FilesystemKind set" where
  "snapshot_kinds = {Zfs, Btrfs, Ext4, Xfs, Lvm, OtherFs}"

definition object_of_mount :: "MountInfo \<Rightarrow> ustr" where
  "object_of_mount info =
     (if of_mount_type (mi_filesystem info) = Btrfs
      then (case subvolume_of info of None \<Rightarrow> asc ''/'' | Some v \<Rightarrow> v)
      else mi_source info)"

lemma resolve_plain_reach:
  assumes "reach_of (resolve_plain subject i mounts ns) = AnyProvider"
  shows "pd_mount (resolve_plain subject i mounts ns) = resolved_mount (mounts ! i) ns \<and>
    of_mount_type (mi_filesystem (mounts ! i)) \<in> snapshot_kinds \<and>
    pd_object (resolve_plain subject i mounts ns) = Some (object_of_mount (mounts ! i))"
proof -
  note split_kind = resolve_plain_def Let_def reach_resolved snapshot_kinds_def object_of_mount_def
  show ?thesis
    using assms
    by (cases "of_mount_type (mi_filesystem (mounts ! i))")
      (simp_all add: split_kind mount_options_read(1) split: if_splits)
qed

lemma upper_layer_domain_simps [simp]:
  "pd_mount (upper_layer_domain s info upper d) = pd_mount d"
  "pd_object (upper_layer_domain s info upper d) = Some (case pd_object d of None \<Rightarrow> upper | Some v \<Rightarrow> v)"
  "reach_of (upper_layer_domain s info upper d) =
     (if \<not> fs_is_persistent (rm_kind (pd_mount d)) then ReachRefused
      else if rm_kind (pd_mount d) = Overlay then CopyOnly else AnyProvider)"
  by (simp_all add: upper_layer_domain_def Let_def reach_resolved split: option.splits)

lemma resolve_at_through:
  assumes "deepest lookup mounts = Some j" and "of_mount_type (mi_filesystem (mounts ! j)) = Overlay"
    and "mount_option (resolved_mount (mounts ! j) ns) ''upperdir'' = Some upper"
    and "depth < MAX_OVERLAY_DEPTH"
    and "absolute upper = Some p" and "deepest p mounts = Some holder" and "holder \<noteq> j"
    and "reach_of (resolve_at subject upper mounts ns (Suc depth)) = AnyProvider"
  shows "resolve_at subject lookup mounts ns depth =
    upper_layer_domain subject (mounts ! j) upper (resolve_at subject upper mounts ns (Suc depth))"
  using assms by (subst resolve_at.simps) (simp add: Let_def)

lemma resolve_at_reach:
  assumes "reach_of (resolve_at subject lookup mounts ns depth) = AnyProvider"
  shows "\<exists>i < length mounts. holds_state mounts lookup i \<and>
    pd_mount (resolve_at subject lookup mounts ns depth) = resolved_mount (mounts ! i) ns \<and>
    of_mount_type (mi_filesystem (mounts ! i)) \<in> snapshot_kinds \<and>
    pd_object (resolve_at subject lookup mounts ns depth) =
      Some (object_of_mount (mounts ! i))"
  using assms
proof (induction subject lookup mounts ns depth rule: resolve_at.induct)
  case (1 subject lookup mounts ns depth)
  let ?r = "resolve_at subject lookup mounts ns depth"
  obtain j where j: "deepest lookup mounts = Some j"
    using "1.prems" by (subst (asm) resolve_at.simps) (auto split: option.splits)
  have lt: "j < length mounts" using deepest_index[OF j] .
  show ?case
  proof (cases "of_mount_type (mi_filesystem (mounts ! j)) = Overlay")
    case False
    then have r: "?r = resolve_plain subject j mounts ns"
      by (subst resolve_at.simps) (simp add: j Let_def)
    show ?thesis
      using resolve_plain_reach[of subject j mounts ns] "1.prems" lt served[OF j False] unfolding r
      by blast
  next
    case True
    obtain upper where up: "mount_option (resolved_mount (mounts ! j) ns) ''upperdir'' = Some upper"
      using "1.prems" by (subst (asm) resolve_at.simps) (auto simp: j True Let_def split: option.splits)
    define inner where "inner = resolve_at subject upper mounts ns (Suc depth)"
    have deep: "depth < MAX_OVERLAY_DEPTH"
    proof (rule ccontr)
      assume "\<not> depth < MAX_OVERLAY_DEPTH"
      then have "reach_of ?r = ReachRefused"
        by (subst resolve_at.simps) (simp add: j True up Let_def)
      with "1.prems" show False by simp
    qed
    have no_copy: "reach_of (copy_only subject (mounts ! j) (resolved_mount (mounts ! j) ns) upper) = CopyOnly"
      by (simp add: copy_only_def reach_resolved True fs_is_persistent_def)
    have shown: "\<exists>p holder. absolute upper = Some p \<and> deepest p mounts = Some holder \<and> holder \<noteq> j"
    proof (rule ccontr)
      assume h: "\<not> ?thesis"
      have "?r = copy_only subject (mounts ! j) (resolved_mount (mounts ! j) ns) upper"
        using deep h by (subst resolve_at.simps) (auto simp: j True up Let_def split: option.splits)
      with "1.prems" no_copy show False by simp
    qed
    then obtain p holder where ph: "absolute upper = Some p" "deepest p mounts = Some holder" "holder \<noteq> j"
      by blast
    have any: "reach_of inner = AnyProvider"
    proof (cases "reach_of inner")
      case ReachRefused
      then have "reach_of ?r = ReachRefused"
        using deep ph unfolding inner_def by (subst resolve_at.simps) (simp add: j True up Let_def)
      with "1.prems" show ?thesis by simp
    next
      case CopyOnly
      then have "reach_of ?r = CopyOnly"
        using deep ph no_copy unfolding inner_def by (subst resolve_at.simps) (simp add: j True up Let_def)
      with "1.prems" show ?thesis by simp
    qed
    have r: "?r = upper_layer_domain subject (mounts ! j) upper inner"
      using resolve_at_through[OF j True up deep ph, of subject] any by (simp add: inner_def)
    have same: "pd_mount ?r = pd_mount inner \<and> (pd_object inner \<noteq> None \<longrightarrow> pd_object ?r = pd_object inner)"
      unfolding r by (auto simp: upper_layer_domain_simps)
    have "\<exists>i < length mounts. holds_state mounts upper i \<and>
        pd_mount inner = resolved_mount (mounts ! i) ns \<and>
        of_mount_type (mi_filesystem (mounts ! i)) \<in> snapshot_kinds \<and>
        pd_object inner =
          Some (object_of_mount (mounts ! i))"
      unfolding inner_def
      by (rule "1.IH"[OF j refl refl]) (use True up deep ph any in \<open>simp_all add: inner_def not_le\<close>)
    then show ?thesis using same through_overlay[OF j True up[unfolded mount_options_read]] by auto
  qed
qed

text \<open>
  a path that any provider may be asked to protect is resolved to the storage that holds
  it.  The domain names a mount of the table that serves the path or, through its overlays,
  the writable layer a change lands in; that mount is a local, persistent file system that
  is no overlay, never a pseudo, volatile, network or unclassified one, and the object is
  the dataset, subvolume or device the kernel names for it.
\<close>

theorem protectable_path_names_its_storage:
  assumes "reach_of (resolve_domain path mounts ns) = AnyProvider"
  shows "\<exists>lookup i. absolute path = Some lookup \<and> i < length mounts \<and> holds_state mounts lookup i \<and>
    pd_mount (resolve_domain path mounts ns) = resolved_mount (mounts ! i) ns \<and>
    of_mount_type (mi_filesystem (mounts ! i)) \<in> snapshot_kinds \<and>
    pd_object (resolve_domain path mounts ns) = Some (object_of_mount (mounts ! i))"
proof -
  obtain lookup where l: "absolute path = Some lookup"
    using assms by (cases "absolute path") (auto simp: resolve_domain_def)
  with assms resolve_at_reach[of path lookup mounts ns 0] show ?thesis
    by (auto simp: resolve_domain_def)
qed

definition sample_table :: "MountInfo list" where
  "sample_table =
     [sample_mount ''rpool/ROOT'' ''/'' ''zfs'' [''rw''],
      sample_mount ''tmpfs'' ''/run'' ''tmpfs'' [''rw''],
      sample_mount ''overlay'' ''/merged'' ''overlay'' [''upperdir=/up'']]"

lemma sample_deepest:
  "deepest (asc ''/etc/x'') sample_table = Some 0"
  "deepest (asc ''/up'') sample_table = Some 0"
  "deepest (asc ''/merged/x'') sample_table = Some 2"
  by (simp_all add: deepest_def deepest_step_def sample_table_def sample_mount_def contains_def
      trim_end_slashes_def starts_with_def Let_def len_utf8_def enumerate_simps)

lemma sample_plain:
  "reach_of (resolve_plain p 0 sample_table None) = AnyProvider"
  by (simp add: resolve_plain_def sample_table_def sample_mount_def of_mount_type_def strip_prefix_def
      reach_resolved fs_is_persistent_def Let_def)

theorem protectable_path_names_its_storage_witness:
  "\<exists>lookup i. absolute (asc ''/etc/x'') = Some lookup \<and> i < length sample_table \<and>
    holds_state sample_table lookup i \<and>
    pd_mount (resolve_domain (asc ''/etc/x'') sample_table None) = resolved_mount (sample_table ! i) None \<and>
    of_mount_type (mi_filesystem (sample_table ! i)) \<in> snapshot_kinds \<and>
    pd_object (resolve_domain (asc ''/etc/x'') sample_table None) = Some (object_of_mount (sample_table ! i))"
proof (rule protectable_path_names_its_storage)
  have abs: "absolute (asc ''/etc/x'') = Some (asc ''/etc/x'')"
    by (simp add: absolute_def starts_with_def absolute_parts_def absolute_step_def)
  have kind: "of_mount_type (mi_filesystem (sample_table ! 0)) \<noteq> Overlay"
    by (simp add: sample_table_def sample_mount_def of_mount_type_def strip_prefix_def)
  have "resolve_at (asc ''/etc/x'') (asc ''/etc/x'') sample_table None 0
      = resolve_plain (asc ''/etc/x'') 0 sample_table None"
    using kind unfolding resolve_at.simps[of "asc ''/etc/x''" "asc ''/etc/x''"] sample_deepest(1)
    by (simp add: Let_def)
  then show "reach_of (resolve_domain (asc ''/etc/x'') sample_table None) = AnyProvider"
    unfolding resolve_domain_def abs by (simp add: sample_plain)
qed

section \<open>File systems beneath a directory\<close>

text \<open>A mount point strictly beneath \<open>root\<close> that a later mount does not hide.\<close>

definition visible_beneath :: "ustr \<Rightarrow> MountInfo list \<Rightarrow> ustr \<Rightarrow> bool" where
  "visible_beneath root mounts point \<longleftrightarrow>
     (\<exists>i < length mounts. absolute (mi_target (mounts ! i)) = Some point \<and>
        point \<noteq> root \<and> contains root point \<and> \<not> hidden_by root point (drop (Suc i) mounts))"

lemma visible_beneath_Cons:
  "visible_beneath root (m # ms) point \<longleftrightarrow>
     (absolute (mi_target m) = Some point \<and> point \<noteq> root \<and> contains root point \<and>
      \<not> hidden_by root point ms) \<or> visible_beneath root ms point"
  by (auto simp: visible_beneath_def less_Suc_eq_0_disj)

lemma boundary_points_set:
  "set (boundary_points root ms pts) = set pts \<union> {p. visible_beneath root ms p}"
proof (induction ms arbitrary: pts)
  case Nil
  then show ?case by (simp add: visible_beneath_def)
next
  case (Cons m ms)
  show ?case
    by (cases "absolute (mi_target m)") (auto simp: Cons.IH visible_beneath_Cons)
qed

lemma boundary_points_distinct: "distinct pts \<Longrightarrow> distinct (boundary_points root ms pts)"
  by (induction root ms pts rule: boundary_points.induct) (auto split: option.splits)

text \<open>
  the file systems beneath a directory are all found, each once and in path order.  A
  boundary is listed for a point exactly when some mount of the table stands there,
  strictly beneath the directory, and no later mount between the two hides it; and each
  carries the domain its own point resolves to.
\<close>

theorem boundaries_are_the_visible_mounts:
  assumes "absolute path = Some root"
  shows "set (map mb_mount_point (boundaries_beneath t path)) = {p. visible_beneath root (mt_mounts t) p} \<and>
    sorted (map mb_mount_point (boundaries_beneath t path)) \<and>
    distinct (map mb_mount_point (boundaries_beneath t path)) \<and>
    (\<forall>b \<in> set (boundaries_beneath t path). mb_domain b = table_resolve t (mb_mount_point b))"
proof -
  have ids: "map mb_mount_point (boundaries_beneath t path) = sort (boundary_points root (mt_mounts t) [])"
    by (simp add: boundaries_beneath_def assms comp_def)
  show ?thesis
    unfolding ids using boundary_points_set[of root "mt_mounts t" "[]"] boundary_points_distinct[of "[]"]
    by (auto simp: boundaries_beneath_def assms)
qed

theorem boundaries_are_the_visible_mounts_witness:
  "set (map mb_mount_point (boundaries_beneath \<lparr>mt_mounts = sample_table, mt_namespace = None\<rparr> (asc ''/''))) =
     {p. visible_beneath (asc ''/'') sample_table p} \<and>
   sorted (map mb_mount_point (boundaries_beneath \<lparr>mt_mounts = sample_table, mt_namespace = None\<rparr> (asc ''/''))) \<and>
   distinct (map mb_mount_point (boundaries_beneath \<lparr>mt_mounts = sample_table, mt_namespace = None\<rparr> (asc ''/'')))"
proof -
  have "absolute (asc ''/'') = Some (asc ''/'')"
    by (simp add: absolute_def starts_with_def absolute_parts_def absolute_step_def)
  from boundaries_are_the_visible_mounts[OF this, of "\<lparr>mt_mounts = sample_table, mt_namespace = None\<rparr>"]
  show ?thesis unfolding MountTable.select_convs by blast
qed

text \<open>
  The writable layer of an overlay is looked for by its normalised path and resolved by the
  path as the option spells it.  With two dots in the option the two disagree: the layer
  below lives on the volatile file system at \<open>/run\<close>, and the resolution names the root
  dataset.
\<close>

definition dotted_table :: "MountInfo list" where
  "dotted_table =
     [sample_mount ''rpool/ROOT'' ''/'' ''zfs'' [''rw''],
      sample_mount ''tmpfs'' ''/run'' ''tmpfs'' [''rw''],
      sample_mount ''overlay'' ''/merged'' ''overlay'' [''upperdir=/etc/../run/up'']]"

lemma overlay_layer_not_normalised:
  "absolute (asc ''/etc/../run/up'') = Some (asc ''/run/up'')"
  "deepest (asc ''/run/up'') dotted_table = Some 1"
  "pd_object (resolve_domain (asc ''/merged/x'') dotted_table None) = Some (asc ''rpool/ROOT'')"
  "reach_of (resolve_domain (asc ''/merged/x'') dotted_table None) = AnyProvider"
proof -
  have deep: "deepest (asc ''/run/up'') dotted_table = Some 1"
    "deepest (asc ''/etc/../run/up'') dotted_table = Some 0"
    "deepest (asc ''/merged/x'') dotted_table = Some 2"
    by (simp_all add: deepest_def deepest_step_def dotted_table_def sample_mount_def contains_def
        trim_end_slashes_def starts_with_def Let_def len_utf8_def enumerate_simps)
  show "deepest (asc ''/run/up'') dotted_table = Some 1" by (rule deep)
  have abs: "absolute (asc ''/etc/../run/up'') = Some (asc ''/run/up'')"
    "absolute (asc ''/merged/x'') = Some (asc ''/merged/x'')"
    by (simp_all add: absolute_def starts_with_def absolute_parts_def absolute_step_def)
  show "absolute (asc ''/etc/../run/up'') = Some (asc ''/run/up'')" by (rule abs)
  have kinds: "of_mount_type (mi_filesystem (dotted_table ! 0)) = Zfs"
    "of_mount_type (mi_filesystem (dotted_table ! 2)) = Overlay"
    by (simp_all add: dotted_table_def sample_mount_def of_mount_type_def strip_prefix_def)
  have up: "mount_option (resolved_mount (dotted_table ! 2) None) ''upperdir'' = Some (asc ''/etc/../run/up'')"
    unfolding mount_options_read by (simp add: dotted_table_def sample_mount_def strip_prefix_def)
  define inner where "inner = resolve_at (asc ''/merged/x'') (asc ''/etc/../run/up'') dotted_table None 1"
  have inner: "inner = resolve_plain (asc ''/merged/x'') 0 dotted_table None"
    unfolding inner_def resolve_at.simps[of "asc ''/merged/x''" "asc ''/etc/../run/up''"] deep
    by (simp add: Let_def kinds)
  have plain: "pd_object inner = Some (asc ''rpool/ROOT'')" "reach_of inner = AnyProvider"
    "rm_kind (pd_mount inner) = Zfs"
    unfolding inner by (simp_all add: resolve_plain_def kinds Let_def reach_resolved fs_is_persistent_def)
      (simp add: dotted_table_def sample_mount_def)
  have "resolve_at (asc ''/merged/x'') (asc ''/merged/x'') dotted_table None 0 =
      upper_layer_domain (asc ''/merged/x'') (dotted_table ! 2) (asc ''/etc/../run/up'') inner"
    unfolding inner_def One_nat_def
    by (rule resolve_at_through[OF deep(3) kinds(2) up _ abs(1) deep(1)])
      (use plain(2) in \<open>simp_all add: MAX_OVERLAY_DEPTH_def inner_def\<close>)
  then have res: "resolve_domain (asc ''/merged/x'') dotted_table None =
      upper_layer_domain (asc ''/merged/x'') (dotted_table ! 2) (asc ''/etc/../run/up'') inner"
    unfolding resolve_domain_def abs by simp
  show "pd_object (resolve_domain (asc ''/merged/x'') dotted_table None) = Some (asc ''rpool/ROOT'')"
    and "reach_of (resolve_domain (asc ''/merged/x'') dotted_table None) = AnyProvider"
    unfolding res by (simp_all add: plain fs_is_persistent_def)
qed

end
