(* ===== verification/Recovery_Asset.thy ===== *)
theory Recovery_Asset
  imports Protection Plan_State
begin

text \<open>
  Recovery assets: the mechanism, the scope, the validation, the cost and the lifecycle of
  \<open>crates/ono-change-core/src/asset.rs\<close>, the candidates and protection actions of
  \<open>provider.rs\<close>, and what \<open>crates/ono-change-protection\<close> decides about an asset that exists
  (\<open>freshness.rs\<close>, \<open>retention.rs\<close>) and about the cost of several (\<open>cost.rs\<close>).  A
  timestamp is its count of nanoseconds, a duration likewise, a byte size its count of bytes.
  The identity of an asset is derived by hashing and is an argument \<open>aid\<close>.
\<close>

section \<open>Vocabularies\<close>

datatype RecoveryAssetType =
    ZfsSnapshot | BtrfsSnapshot | LvmSnapshot | FileArchive | ConfigurationBackup | VmSnapshot
  | ContainerCheckpoint | DatabaseCheckpoint | TransactionSavepoint | TimedReversion
  | PackageRecoveryMetadata

definition type_shares_failure_domain :: "RecoveryAssetType \<Rightarrow> bool" where
  "type_shares_failure_domain t \<longleftrightarrow>
     t \<in> {ZfsSnapshot, BtrfsSnapshot, LvmSnapshot, TransactionSavepoint}"

definition is_independent_copy :: "RecoveryAssetType \<Rightarrow> bool" where
  "is_independent_copy t \<longleftrightarrow> t \<in> {FileArchive, ConfigurationBackup}"

datatype AssetState =
    AssetProposed | AssetCreating | AssetReady | AssetInvalid | AssetExpired | AssetRemoved
  | AssetFailed

definition state_is_usable :: "AssetState \<Rightarrow> bool" where
  "state_is_usable s \<longleftrightarrow> s \<in> {AssetReady}"

definition occupies_storage :: "AssetState \<Rightarrow> bool" where
  "occupies_storage s \<longleftrightarrow> s \<in> {AssetCreating, AssetReady, AssetInvalid, AssetExpired}"

datatype RestoreMethod =
    ProviderNativeRestore | SelectiveFileRestore | CloneAndCopy | SubvolumeReplacement
  | DatasetRollback | OfflineRootRecovery | Compensation

fun destructiveness :: "RestoreMethod \<Rightarrow> nat" where
  "destructiveness ProviderNativeRestore = 0"
| "destructiveness SelectiveFileRestore = 1"
| "destructiveness CloneAndCopy = 2"
| "destructiveness Compensation = 3"
| "destructiveness SubvolumeReplacement = 4"
| "destructiveness DatasetRollback = 5"
| "destructiveness OfflineRootRecovery = 6"

definition discards_newer_state :: "RestoreMethod \<Rightarrow> bool" where
  "discards_newer_state m \<longleftrightarrow> m \<in> {DatasetRollback, SubvolumeReplacement, OfflineRootRecovery}"

definition restores_prior_state :: "RestoreMethod \<Rightarrow> bool" where
  "restores_prior_state m \<longleftrightarrow> m \<notin> {Compensation}"

section \<open>Scope, validation, cost and retention\<close>

record RecoveryScope =
  sc_domain :: ustr
  sc_domain_kind :: ustr
  sc_covers :: "ustr list"
  sc_host :: ustr

definition scope_new :: "ustr \<Rightarrow> ustr \<Rightarrow> ustr \<Rightarrow> RecoveryScope" where
  "scope_new domain_kind domain host =
     \<lparr>sc_domain = domain, sc_domain_kind = domain_kind, sc_covers = [], sc_host = host\<rparr>"

definition covering :: "RecoveryScope \<Rightarrow> ustr \<Rightarrow> RecoveryScope" where
  "covering s object = s\<lparr>sc_covers := sc_covers s @ [object]\<rparr>"

definition covers_object :: "RecoveryScope \<Rightarrow> ustr \<Rightarrow> bool" where
  "covers_object s object \<longleftrightarrow> list_ex (\<lambda>covered. covered = object) (sc_covers s)"

record RecoveryValidation =
  va_exists :: bool
  va_identity_matches :: bool
  va_scope_matches :: bool
  va_restore_available :: bool
  va_permissions_present :: bool
  va_at :: int
  va_detail :: sentence

definition validation_complete :: "int \<Rightarrow> sentence \<Rightarrow> RecoveryValidation" where
  "validation_complete at detail =
     \<lparr>va_exists = True, va_identity_matches = True, va_scope_matches = True,
      va_restore_available = True, va_permissions_present = True, va_at = at, va_detail = detail\<rparr>"

definition validation_none :: "int \<Rightarrow> sentence \<Rightarrow> RecoveryValidation" where
  "validation_none at detail =
     \<lparr>va_exists = False, va_identity_matches = False, va_scope_matches = False,
      va_restore_available = False, va_permissions_present = False, va_at = at, va_detail = detail\<rparr>"

definition passed :: "RecoveryValidation \<Rightarrow> string \<Rightarrow> bool option" where
  "passed v check =
     (if check = ''exists'' then Some (va_exists v)
      else if check = ''identity-matches'' then Some (va_identity_matches v)
      else if check = ''scope-matches'' then Some (va_scope_matches v)
      else if check = ''restore-available'' then Some (va_restore_available v)
      else if check = ''permissions-present'' then Some (va_permissions_present v)
      else None)"

definition CHECKS :: "string list" where
  "CHECKS = [''exists'', ''identity-matches'', ''scope-matches'', ''restore-available'',
     ''permissions-present'']"

definition validation_is_complete :: "RecoveryValidation \<Rightarrow> bool" where
  "validation_is_complete v \<longleftrightarrow>
     va_exists v \<and> va_identity_matches v \<and> va_scope_matches v \<and> va_restore_available v \<and>
     va_permissions_present v"

definition validation_failures :: "RecoveryValidation \<Rightarrow> string list" where
  "validation_failures v =
     (if \<not> va_exists v then [''the asset does not exist''] else []) @
     (if \<not> va_identity_matches v
      then [''the asset's identity does not match the planned source''] else []) @
     (if \<not> va_scope_matches v then [''the asset's scope does not match the expected target''] else []) @
     (if \<not> va_restore_available v then [''no restore path is available''] else []) @
     (if \<not> va_permissions_present v then [''the permissions recovery needs are not held''] else [])"

text \<open>A share; nothing here computes with one.\<close>

typedecl Percent

record RecoveryCost =
  co_initial_bytes :: "nat option"
  co_retained_bytes :: "nat option"
  co_estimated :: bool
  co_creation_latency :: "nat option"
  co_io_overhead :: "Percent option"
  co_quiesce :: "nat option"
  co_requires_reboot :: bool
  co_requires_offline :: bool
  co_cleanup_latency :: "nat option"

definition cost_unknown :: RecoveryCost where
  "cost_unknown =
     \<lparr>co_initial_bytes = None, co_retained_bytes = None, co_estimated = True,
      co_creation_latency = None, co_io_overhead = None, co_quiesce = None,
      co_requires_reboot = False, co_requires_offline = False, co_cleanup_latency = None\<rparr>"

definition cost_states :: "RecoveryCost \<Rightarrow> string \<Rightarrow> bool option" where
  "cost_states c dimension =
     (if dimension = ''initial-latency'' then Some (co_creation_latency c \<noteq> None)
      else if dimension = ''retained-storage-growth''
      then Some (co_retained_bytes c \<noteq> None \<or> co_initial_bytes c \<noteq> None)
      else if dimension = ''io-overhead'' then Some (co_io_overhead c \<noteq> None)
      else if dimension = ''quiesce-duration'' then Some (co_quiesce c \<noteq> None)
      else if dimension = ''reboot-downtime-requirement''
      then Some (co_requires_reboot c \<or> co_requires_offline c)
      else if dimension = ''cleanup-cost'' then Some (co_cleanup_latency c \<noteq> None)
      else None)"

definition with_space :: "RecoveryCost \<Rightarrow> nat option \<Rightarrow> nat option \<Rightarrow> bool \<Rightarrow> RecoveryCost" where
  "with_space c initial retained estimated =
     c\<lparr>co_initial_bytes := initial, co_retained_bytes := retained, co_estimated := estimated\<rparr>"

definition with_latency :: "RecoveryCost \<Rightarrow> nat \<Rightarrow> RecoveryCost" where
  "with_latency c latency = c\<lparr>co_creation_latency := Some latency\<rparr>"

definition with_quiesce :: "RecoveryCost \<Rightarrow> nat \<Rightarrow> RecoveryCost" where
  "with_quiesce c window = c\<lparr>co_quiesce := Some window\<rparr>"

definition needing_reboot :: "RecoveryCost \<Rightarrow> RecoveryCost" where
  "needing_reboot c = c\<lparr>co_requires_reboot := True\<rparr>"

definition needing_offline :: "RecoveryCost \<Rightarrow> RecoveryCost" where
  "needing_offline c = c\<lparr>co_requires_offline := True\<rparr>"

text \<open>The cost of several assets (\<open>cost::compose\<close>): space and latency add up and saturate.\<close>

definition u128_max :: nat where "u128_max = 2 ^ 128 - 1"

text \<open>\<open>Duration::MAX\<close> in nanoseconds.\<close>

definition duration_max :: nat where "duration_max = (2 ^ 64 - 1) * 1000000000 + 999999999"

definition add_bytes :: "nat option \<Rightarrow> nat option \<Rightarrow> nat option" where
  "add_bytes running addend =
     (case (running, addend) of
        (Some s, Some a) \<Rightarrow> Some (min u128_max (s + a))
      | _ \<Rightarrow> None)"

record cost_totals =
  ct_initial :: "nat option"
  ct_retained :: "nat option"
  ct_latency :: nat
  ct_quiesce :: "nat option"
  ct_estimated :: bool
  ct_reboot :: bool
  ct_offline :: bool

definition compose_step :: "RecoveryCost \<Rightarrow> cost_totals \<Rightarrow> cost_totals" where
  "compose_step c t =
     \<lparr>ct_initial = add_bytes (ct_initial t) (co_initial_bytes c),
      ct_retained = add_bytes (ct_retained t) (co_retained_bytes c),
      ct_latency = min duration_max
        (ct_latency t + (case co_creation_latency c of None \<Rightarrow> 0 | Some l \<Rightarrow> l)),
      ct_quiesce = (case co_quiesce c of
          None \<Rightarrow> ct_quiesce t
        | Some window \<Rightarrow> Some (case ct_quiesce t of None \<Rightarrow> window | Some longest \<Rightarrow> max longest window)),
      ct_estimated = (ct_estimated t \<or> co_estimated c \<or> co_initial_bytes c = None \<or>
        co_retained_bytes c = None),
      ct_reboot = (ct_reboot t \<or> co_requires_reboot c),
      ct_offline = (ct_offline t \<or> co_requires_offline c)\<rparr>"

definition compose_costs :: "RecoveryCost list \<Rightarrow> RecoveryCost" where
  "compose_costs costs =
     (if costs = [] then cost_unknown
      else
        let t = fold compose_step costs
              \<lparr>ct_initial = Some 0, ct_retained = Some 0, ct_latency = 0, ct_quiesce = None,
               ct_estimated = False, ct_reboot = False, ct_offline = False\<rparr>;
            c = with_latency (with_space cost_unknown (ct_initial t) (ct_retained t) (ct_estimated t))
                  (ct_latency t);
            c = (case ct_quiesce t of None \<Rightarrow> c | Some window \<Rightarrow> with_quiesce c window);
            c = (if ct_reboot t then needing_reboot c else c)
        in if ct_offline t then needing_offline c else c)"

record RetentionPolicy =
  rt_after_verification :: nat
  rt_hold :: bool

definition DEFAULT_RETENTION :: nat where
  "DEFAULT_RETENTION = 24 * 60 * 60 * 1000000000"

definition retention_default :: RetentionPolicy where
  "retention_default = \<lparr>rt_after_verification = DEFAULT_RETENTION, rt_hold = False\<rparr>"

definition retention_of :: "nat \<Rightarrow> RetentionPolicy" where
  "retention_of window = \<lparr>rt_after_verification = window, rt_hold = False\<rparr>"

definition retention_held :: RetentionPolicy where
  "retention_held = \<lparr>rt_after_verification = DEFAULT_RETENTION, rt_hold = True\<rparr>"

definition holding :: "RetentionPolicy \<Rightarrow> RetentionPolicy" where
  "holding r = r\<lparr>rt_hold := True\<rparr>"

section \<open>Assets and their lifecycle\<close>

record RecoveryExclusion =
  re_subject :: ustr
  re_reason :: ustr

record RecoveryAsset =
  as_id :: ustr
  as_provider :: ustr
  as_type :: RecoveryAssetType
  as_reference :: ustr
  as_scope :: RecoveryScope
  as_created_at :: int
  as_source_plan :: "ustr option"
  as_state :: AssetState
  as_consistency :: ConsistencyClass
  as_restore_method :: RestoreMethod
  as_validation :: "RecoveryValidation option"
  as_retention :: RetentionPolicy
  as_cost :: RecoveryCost
  as_dependencies :: "ustr list"
  as_exclusions :: "RecoveryExclusion list"
  as_captured_state :: "ustr option"
  as_expires_at :: "int option"
  as_shares_failure_domain :: bool

definition show_int :: "int \<Rightarrow> ustr" where
  "show_int i = (if i < 0 then 45 # show_nat (nat (- i)) else show_nat (nat i))"

definition asset_proposed ::
    "(ustr \<Rightarrow> ustr option \<Rightarrow> ustr \<Rightarrow> ustr \<Rightarrow> ustr) \<Rightarrow> ustr \<Rightarrow> RecoveryAssetType \<Rightarrow> ustr \<Rightarrow>
     RecoveryScope \<Rightarrow> int \<Rightarrow> RecoveryAsset" where
  "asset_proposed aid provider ty reference scope created_at =
     \<lparr>as_id = aid provider None (sc_domain scope) (show_int created_at),
      as_provider = provider, as_type = ty, as_reference = reference, as_scope = scope,
      as_created_at = created_at, as_source_plan = None, as_state = AssetProposed,
      as_consistency = ConsistencyUnknown, as_restore_method = SelectiveFileRestore,
      as_validation = None, as_retention = retention_default, as_cost = cost_unknown,
      as_dependencies = [], as_exclusions = [], as_captured_state = None, as_expires_at = None,
      as_shares_failure_domain = False\<rparr>"

definition for_plan ::
    "(ustr \<Rightarrow> ustr option \<Rightarrow> ustr \<Rightarrow> ustr \<Rightarrow> ustr) \<Rightarrow> RecoveryAsset \<Rightarrow> ustr \<Rightarrow> RecoveryAsset" where
  "for_plan aid a plan =
     a\<lparr>as_id := aid (as_provider a) (Some plan) (sc_domain (as_scope a)) (show_int (as_created_at a)),
       as_source_plan := Some plan\<rparr>"

definition asset_validated :: "RecoveryAsset \<Rightarrow> RecoveryValidation \<Rightarrow> RecoveryAsset" where
  "asset_validated a v =
     a\<lparr>as_state := (if validation_is_complete v then AssetReady else AssetInvalid),
       as_validation := Some v\<rparr>"

text \<open>Every builder of an asset, as one step.\<close>

datatype asset_op =
    ForPlan ustr | AtConsistency ConsistencyClass | RestoredBy RestoreMethod
  | RetainedFor RetentionPolicy | Costing RecoveryCost | DependingOn ustr
  | Excluding RecoveryExclusion | Capturing ustr | Creating | Validated RecoveryValidation
  | FailedCreation | Invalidated | RemovedAsset | ExpiredAsset | ExpiringAt int
  | SharingFailureDomain

fun asset_step ::
    "(ustr \<Rightarrow> ustr option \<Rightarrow> ustr \<Rightarrow> ustr \<Rightarrow> ustr) \<Rightarrow> RecoveryAsset \<Rightarrow> asset_op \<Rightarrow> RecoveryAsset" where
  "asset_step aid a (ForPlan plan) = for_plan aid a plan"
| "asset_step aid a (AtConsistency c) = a\<lparr>as_consistency := c\<rparr>"
| "asset_step aid a (RestoredBy m) = a\<lparr>as_restore_method := m\<rparr>"
| "asset_step aid a (RetainedFor r) = a\<lparr>as_retention := r\<rparr>"
| "asset_step aid a (Costing c) = a\<lparr>as_cost := c\<rparr>"
| "asset_step aid a (DependingOn other) = a\<lparr>as_dependencies := as_dependencies a @ [other]\<rparr>"
| "asset_step aid a (Excluding e) = a\<lparr>as_exclusions := as_exclusions a @ [e]\<rparr>"
| "asset_step aid a (Capturing fingerprint) = a\<lparr>as_captured_state := Some fingerprint\<rparr>"
| "asset_step aid a Creating = a\<lparr>as_state := AssetCreating\<rparr>"
| "asset_step aid a (Validated v) = asset_validated a v"
| "asset_step aid a FailedCreation = a\<lparr>as_state := AssetFailed\<rparr>"
| "asset_step aid a Invalidated = a\<lparr>as_state := AssetInvalid\<rparr>"
| "asset_step aid a RemovedAsset = a\<lparr>as_state := AssetRemoved\<rparr>"
| "asset_step aid a ExpiredAsset = a\<lparr>as_state := AssetExpired\<rparr>"
| "asset_step aid a (ExpiringAt at) = a\<lparr>as_expires_at := Some at\<rparr>"
| "asset_step aid a SharingFailureDomain = a\<lparr>as_shares_failure_domain := True\<rparr>"

definition asset_is_usable :: "RecoveryAsset \<Rightarrow> bool" where
  "asset_is_usable a \<longleftrightarrow> state_is_usable (as_state a)"

definition is_local_recovery_point :: "RecoveryAsset \<Rightarrow> bool" where
  "is_local_recovery_point a \<longleftrightarrow> as_shares_failure_domain a \<or> type_shares_failure_domain (as_type a)"

definition is_fresh_for :: "RecoveryAsset \<Rightarrow> ustr \<Rightarrow> bool" where
  "is_fresh_for a fingerprint \<longleftrightarrow> as_captured_state a = Some fingerprint"

section \<open>Candidates and protection actions\<close>

record RecoveryCandidate =
  ca_provider :: ustr
  ca_scope :: RecoveryScope
  ca_domain :: EffectDomain
  ca_objective :: RecoveryObjective
  ca_consistency :: ConsistencyClass
  ca_restore_method :: RestoreMethod
  ca_cost :: RecoveryCost
  ca_exclusions :: "RecoveryExclusion list"
  ca_creation_requirements :: "ustr list"
  ca_restore_requirements :: "ustr list"
  ca_not_protecting :: "ustr list"
  ca_detail :: ustr

definition candidate_new ::
    "ustr \<Rightarrow> RecoveryScope \<Rightarrow> EffectDomain \<Rightarrow> RecoveryObjective \<Rightarrow> ustr \<Rightarrow> RecoveryCandidate" where
  "candidate_new provider scope d obj detail =
     \<lparr>ca_provider = provider, ca_scope = scope, ca_domain = d, ca_objective = obj,
      ca_consistency = ConsistencyUnknown, ca_restore_method = SelectiveFileRestore,
      ca_cost = cost_unknown, ca_exclusions = [], ca_creation_requirements = [],
      ca_restore_requirements = [], ca_not_protecting = [], ca_detail = detail\<rparr>"

definition scope_width :: "RecoveryCandidate \<Rightarrow> nat" where
  "scope_width c = length (sc_covers (ca_scope c))"

record ProtectionAction =
  pa_provider :: ustr
  pa_summary :: ustr
  pa_candidate :: RecoveryCandidate
  pa_proposed_asset :: RecoveryAsset
  pa_required :: bool

definition protection_action_new ::
    "ustr \<Rightarrow> ustr \<Rightarrow> RecoveryCandidate \<Rightarrow> RecoveryAsset \<Rightarrow> ProtectionAction" where
  "protection_action_new provider summary candidate asset =
     \<lparr>pa_provider = provider, pa_summary = summary, pa_candidate = candidate,
      pa_proposed_asset = asset, pa_required = True\<rparr>"

definition optional :: "ProtectionAction \<Rightarrow> ProtectionAction" where
  "optional a = a\<lparr>pa_required := False\<rparr>"

section \<open>Freshness\<close>

datatype Freshness = Fresh | StaleAcceptable | MustReplace

definition stale :: "bool \<Rightarrow> Freshness" where
  "stale require_fresh = (if require_fresh then MustReplace else StaleAcceptable)"

definition assess :: "RecoveryAsset \<Rightarrow> ustr option \<Rightarrow> bool \<Rightarrow> Freshness" where
  "assess asset current require_fresh =
     (if \<not> asset_is_usable asset then MustReplace
      else case as_captured_state asset of
        None \<Rightarrow> stale require_fresh
      | Some captured \<Rightarrow>
          (case current of
             None \<Rightarrow> stale require_fresh
           | Some now \<Rightarrow> if is_fresh_for asset now then Fresh else stale require_fresh))"

fun captured_unchanged :: "(ustr \<Rightarrow> ustr option) \<Rightarrow> (ustr \<times> ustr) list \<Rightarrow> bool" where
  "captured_unchanged current [] = True"
| "captured_unchanged current ((object, digest) # rest) =
     (case current object of
        None \<Rightarrow> False
      | Some now \<Rightarrow> if now \<noteq> digest then False else captured_unchanged current rest)"

definition assess_captured ::
    "RecoveryAsset \<Rightarrow> (ustr \<times> ustr) list \<Rightarrow> (ustr \<Rightarrow> ustr option) \<Rightarrow> bool \<Rightarrow> Freshness" where
  "assess_captured asset captured current require_fresh =
     (if \<not> asset_is_usable asset then MustReplace
      else if captured = [] then stale require_fresh
      else if captured_unchanged current captured then Fresh
      else stale require_fresh)"

section \<open>Retention\<close>

record PlanRetention =
  pr_plan :: ustr
  pr_state :: PlanState
  pr_verified_at :: "int option"
  pr_assets :: "ustr list"
  pr_advertises_recovery :: bool

definition plan_retention_new :: "ustr \<Rightarrow> PlanState \<Rightarrow> PlanRetention" where
  "plan_retention_new plan state =
     \<lparr>pr_plan = plan, pr_state = state, pr_verified_at = None, pr_assets = [],
      pr_advertises_recovery = is_recoverable state\<rparr>"

text \<open>The last instant \<open>jiff::Timestamp\<close> holds, in nanoseconds.\<close>

definition timestamp_max :: int where
  "timestamp_max = 253402207200999999999"

definition expires_at :: "RecoveryAsset \<Rightarrow> int option \<Rightarrow> int option" where
  "expires_at asset verified_at =
     (if rt_hold (as_retention asset) then None
      else case verified_at of
        None \<Rightarrow> None
      | Some verified \<Rightarrow>
          let window = rt_after_verification (as_retention asset) in
          if window div 1000000000 > 2 ^ 63 - 1 then None
          else if verified + int window \<le> timestamp_max then Some (verified + int window)
          else None)"

datatype CleanupVerdict =
    Removable | WithinRetention | RetainedAfterFailure | Held | Blocked | AlreadyGone

definition permits_automatic_removal :: "CleanupVerdict \<Rightarrow> bool" where
  "permits_automatic_removal v \<longleftrightarrow> v \<in> {Removable}"

record CleanupEntry =
  ce_asset :: ustr
  ce_verdict :: CleanupVerdict
  ce_unrecoverable :: "ustr list"
  ce_expires_at :: "int option"
  ce_reclaimable :: "nat option"

definition dependents_of :: "RecoveryAsset \<Rightarrow> PlanRetention list \<Rightarrow> PlanRetention list" where
  "dependents_of asset plans =
     filter (\<lambda>plan. list_ex (\<lambda>held. held = as_id asset) (pr_assets plan) \<or>
        as_source_plan asset = Some (pr_plan plan)) plans"

fun first_verification :: "PlanRetention list \<Rightarrow> int option" where
  "first_verification [] = None"
| "first_verification (p # ps) =
     (case pr_verified_at p of Some at \<Rightarrow> Some at | None \<Rightarrow> first_verification ps)"

definition entry_for :: "RecoveryAsset \<Rightarrow> PlanRetention list \<Rightarrow> int \<Rightarrow> CleanupEntry" where
  "entry_for asset plans now =
     (let dependents = dependents_of asset plans;
          expires = expires_at asset (first_verification dependents);
          stranded = map pr_plan (filter pr_advertises_recovery dependents);
          verdict =
            (if \<not> occupies_storage (as_state asset) then AlreadyGone
             else if stranded \<noteq> [] then Blocked
             else if rt_hold (as_retention asset) then Held
             else if list_ex (\<lambda>plan. retains_assets_indefinitely (pr_state plan)) dependents
             then RetainedAfterFailure
             else case expires of
               Some expiry \<Rightarrow> if expiry \<le> now then Removable else WithinRetention
             | None \<Rightarrow> WithinRetention)
      in \<lparr>ce_asset = as_id asset, ce_verdict = verdict, ce_unrecoverable = stranded,
          ce_expires_at = expires,
          ce_reclaimable = (if as_state asset = AssetRemoved then None
            else co_retained_bytes (as_cost asset))\<rparr>)"

definition cleanup_preview ::
    "RecoveryAsset list \<Rightarrow> PlanRetention list \<Rightarrow> int \<Rightarrow> CleanupEntry list" where
  "cleanup_preview assets plans now = map (\<lambda>asset. entry_for asset plans now) assets"

definition preview_entry :: "CleanupEntry list \<Rightarrow> ustr \<Rightarrow> CleanupEntry option" where
  "preview_entry entries asset = List.find (\<lambda>e. ce_asset e = asset) entries"

definition removable :: "CleanupEntry list \<Rightarrow> CleanupEntry list" where
  "removable entries = filter (\<lambda>e. permits_automatic_removal (ce_verdict e)) entries"

definition retained :: "CleanupEntry list \<Rightarrow> CleanupEntry list" where
  "retained entries =
     filter (\<lambda>e. \<not> permits_automatic_removal (ce_verdict e) \<and> ce_verdict e \<noteq> AlreadyGone) entries"

text \<open>The refusal names the asset and the plans whose recovery the removal would take away.\<close>

definition refusal_for :: "CleanupEntry list \<Rightarrow> ustr \<Rightarrow> (ustr \<times> ustr list) option" where
  "refusal_for entries asset =
     (case preview_entry entries asset of
        None \<Rightarrow> None
      | Some entry \<Rightarrow>
          if ce_verdict entry \<noteq> Blocked then None else Some (asset, ce_unrecoverable entry))"

definition preview_reclaimable :: "CleanupEntry list \<Rightarrow> nat" where
  "preview_reclaimable entries = sum_list (List.map_filter ce_reclaimable (removable entries))"

section \<open>Only a complete validation makes an asset usable\<close>

lemma validation_complete_iff:
  "validation_is_complete v \<longleftrightarrow> validation_failures v = []"
  "validation_is_complete v \<longleftrightarrow> list_all (\<lambda>check. passed v check = Some True) CHECKS"
  by (auto simp: validation_is_complete_def validation_failures_def CHECKS_def passed_def)

definition moves_state :: "asset_op \<Rightarrow> bool" where
  "moves_state op \<longleftrightarrow>
     (case op of
        Creating \<Rightarrow> True | Validated _ \<Rightarrow> True | FailedCreation \<Rightarrow> True | Invalidated \<Rightarrow> True
      | RemovedAsset \<Rightarrow> True | ExpiredAsset \<Rightarrow> True | _ \<Rightarrow> False)"

lemma asset_step_keeps:
  "\<not> moves_state op \<Longrightarrow>
     as_state (asset_step aid a op) = as_state a \<and> as_validation (asset_step aid a op) = as_validation a"
  by (cases op) (simp_all add: moves_state_def for_plan_def)

lemma asset_step_ready:
  "moves_state op \<Longrightarrow>
     as_state (asset_step aid a op) = AssetReady \<longleftrightarrow> (\<exists>v. op = Validated v \<and> validation_is_complete v)"
  by (cases op) (simp_all add: moves_state_def asset_validated_def)

lemma run_ready:
  "as_state (foldl (asset_step aid) a ops) = AssetReady \<longleftrightarrow>
     (as_state a = AssetReady \<and> (\<forall>op \<in> set ops. \<not> moves_state op)) \<or>
     (\<exists>pre v post. ops = pre @ Validated v # post \<and> validation_is_complete v \<and>
        (\<forall>op \<in> set post. \<not> moves_state op))"
proof (induction ops rule: rev_induct)
  case Nil
  then show ?case by simp
next
  case (snoc op ops)
  show ?case
  proof (cases "moves_state op")
    case True
    show ?thesis
    proof
      assume "as_state (foldl (asset_step aid) a (ops @ [op])) = AssetReady"
      then obtain v where "op = Validated v" "validation_is_complete v"
        using asset_step_ready[OF True] by auto
      then show "(as_state a = AssetReady \<and> (\<forall>op \<in> set (ops @ [op]). \<not> moves_state op)) \<or>
          (\<exists>pre v post. ops @ [op] = pre @ Validated v # post \<and> validation_is_complete v \<and>
            (\<forall>op \<in> set post. \<not> moves_state op))" by fastforce
    next
      assume r: "(as_state a = AssetReady \<and> (\<forall>op \<in> set (ops @ [op]). \<not> moves_state op)) \<or>
          (\<exists>pre v post. ops @ [op] = pre @ Validated v # post \<and> validation_is_complete v \<and>
            (\<forall>op \<in> set post. \<not> moves_state op))"
      then obtain pre v post where e: "ops @ [op] = pre @ Validated v # post"
        "validation_is_complete v" "\<forall>op \<in> set post. \<not> moves_state op" using True by auto
      have "post = []" using e(1,3) True by (cases post rule: rev_cases) auto
      with e have "op = Validated v" by simp
      with e(2) show "as_state (foldl (asset_step aid) a (ops @ [op])) = AssetReady"
        by (simp add: asset_validated_def)
    qed
  next
    case False
    have ext: "(\<exists>pre v post. ops @ [op] = pre @ Validated v # post \<and> validation_is_complete v \<and>
          (\<forall>op \<in> set post. \<not> moves_state op)) \<longleftrightarrow>
        (\<exists>pre v post. ops = pre @ Validated v # post \<and> validation_is_complete v \<and>
          (\<forall>op \<in> set post. \<not> moves_state op))" (is "?l \<longleftrightarrow> ?r")
    proof
      assume ?l
      then obtain pre v post where e: "ops @ [op] = pre @ Validated v # post"
        "validation_is_complete v" "\<forall>op \<in> set post. \<not> moves_state op" by auto
      have "post \<noteq> []" using e(1) False by (auto simp: moves_state_def)
      then obtain p where p: "post = p @ [op]" using e(1) by (cases post rule: rev_cases) auto
      with e show ?r by auto
    next
      assume ?r
      then obtain pre v post where e: "ops = pre @ Validated v # post"
        "validation_is_complete v" "\<forall>op \<in> set post. \<not> moves_state op" by auto
      then have "ops @ [op] = pre @ Validated v # (post @ [op])" by simp
      with e False show ?l by (metis Un_iff empty_iff list.set(1) set_ConsD set_append)
    qed
    show ?thesis using snoc asset_step_keeps[OF False] False by (simp only: foldl_append ext) auto
  qed
qed

text \<open>
  an asset is usable for recovery exactly when the last thing that moved its lifecycle
  was a validation in which every check passed.  No other builder leads there, and none of
  the steps that end an asset can be followed by use without a new validation.
\<close>

theorem asset_usable_iff_validated:
  "asset_is_usable (foldl (asset_step aid) (asset_proposed aid provider ty reference scope created) ops) \<longleftrightarrow>
     (\<exists>pre v post. ops = pre @ Validated v # post \<and> validation_failures v = [] \<and>
        (\<forall>op \<in> set post. \<not> moves_state op))"
  unfolding asset_is_usable_def state_is_usable_def validation_complete_iff(1)[symmetric]
  using run_ready[of aid "asset_proposed aid provider ty reference scope created" ops]
  by (simp add: asset_proposed_def)

theorem asset_usable_iff_validated_witness:
  "asset_is_usable (foldl (asset_step (\<lambda>p q d n. d))
     (asset_proposed (\<lambda>p q d n. d) [] ZfsSnapshot [] (scope_new [] [] []) 0)
     [Creating, Validated (validation_complete 5 (Say [])), Capturing [1]])"
  unfolding asset_usable_iff_validated
  by (rule exI[of _ "[Creating]"], rule exI[of _ "validation_complete 5 (Say [])"],
      rule exI[of _ "[Capturing [1]]"])
    (simp add: validation_failures_def validation_complete_def moves_state_def)

section \<open>What exists and what may be removed\<close>

lemma captured_unchanged_iff:
  "captured_unchanged current captured \<longleftrightarrow> (\<forall>(x, d) \<in> set captured. current x = Some d)"
  by (induction current captured rule: captured_unchanged.induct) (auto split: option.splits)

text \<open>
  an asset counts as a just-before-change recovery point only on evidence.  It is fresh
  exactly when it is usable and its recorded fingerprint is the current one, or, object by
  object, when it captured something and every object it captured still reads as captured;
  a missing fingerprint or an unreadable object is never fresh, and with fresh protection
  required everything else must be replaced.
\<close>

theorem fresh_iff_established:
  "(assess asset current require_fresh = Fresh \<longleftrightarrow>
      asset_is_usable asset \<and> as_captured_state asset \<noteq> None \<and> current = as_captured_state asset) \<and>
   (assess_captured asset captured now require_fresh = Fresh \<longleftrightarrow>
      asset_is_usable asset \<and> captured \<noteq> [] \<and> list_all (\<lambda>(x, d). now x = Some d) captured) \<and>
   assess asset current True \<noteq> StaleAcceptable \<and> assess_captured asset captured now True \<noteq> StaleAcceptable"
  by (auto simp: assess_def assess_captured_def stale_def is_fresh_for_def captured_unchanged_iff
      list_all_iff split: option.splits)

lemma expires_at_Some:
  "expires_at asset v = Some e \<Longrightarrow>
     \<exists>at. v = Some at \<and> e = at + int (rt_after_verification (as_retention asset)) \<and>
       \<not> rt_hold (as_retention asset)"
  by (auto simp: expires_at_def Let_def split: if_splits option.splits)

lemma first_verification_in:
  "first_verification ps = Some at \<Longrightarrow> \<exists>p \<in> set ps. pr_verified_at p = Some at"
  by (induction ps) (auto split: option.splits)

text \<open>
  cleanup removes nothing a plan still offers recovery from.  An asset is offered to
  automatic removal only when it occupies storage, carries no hold, no plan that rests on
  it or asked for it advertises recovery or ended in failure, and the retention window of a
  verification of such a plan has passed; and asking to remove an asset a plan does
  advertise is refused with that plan named.
\<close>

theorem cleanup_never_strands_a_plan:
  assumes "e = entry_for asset plans now"
  shows "(ce_verdict e = Removable \<longrightarrow>
       occupies_storage (as_state asset) \<and> \<not> rt_hold (as_retention asset) \<and>
       (\<forall>p \<in> set (dependents_of asset plans).
          \<not> pr_advertises_recovery p \<and> \<not> retains_assets_indefinitely (pr_state p)) \<and>
       (\<exists>p \<in> set (dependents_of asset plans). \<exists>at. pr_verified_at p = Some at \<and>
          at + int (rt_after_verification (as_retention asset)) \<le> now)) \<and>
     (occupies_storage (as_state asset) \<longrightarrow>
       (\<forall>p \<in> set plans. as_id asset \<in> set (pr_assets p) \<longrightarrow> pr_advertises_recovery p \<longrightarrow>
          (\<exists>stranded. refusal_for (cleanup_preview [asset] plans now) (as_id asset) =
             Some (as_id asset, stranded) \<and> pr_plan p \<in> set stranded)))"
proof (intro conjI impI ballI)
  assume rem: "ce_verdict e = Removable"
  note u = rem[unfolded assms entry_for_def Let_def, simplified]
  show "occupies_storage (as_state asset)" "\<not> rt_hold (as_retention asset)"
    using u by (auto split: if_splits)
  show "\<exists>p \<in> set (dependents_of asset plans). \<exists>at. pr_verified_at p = Some at \<and>
      at + int (rt_after_verification (as_retention asset)) \<le> now"
  proof -
    obtain ex where "expires_at asset (first_verification (dependents_of asset plans)) = Some ex"
      and le: "ex \<le> now"
      using u by (auto split: if_splits option.splits)
    then obtain at where "first_verification (dependents_of asset plans) = Some at"
      "ex = at + int (rt_after_verification (as_retention asset))"
      using expires_at_Some by blast
    then show ?thesis using first_verification_in[of "dependents_of asset plans" at] le by auto
  qed
  fix p assume "p \<in> set (dependents_of asset plans)"
  then show "\<not> pr_advertises_recovery p" "\<not> retains_assets_indefinitely (pr_state p)"
    using u by (auto simp: filter_empty_conv list_ex_iff split: if_splits)
next
  fix p
  assume occ: "occupies_storage (as_state asset)" and p: "p \<in> set plans"
    and held: "as_id asset \<in> set (pr_assets p)" and adv: "pr_advertises_recovery p"
  have dep: "p \<in> set (dependents_of asset plans)"
    using p held by (auto simp: dependents_of_def list_ex_iff)
  have "p \<in> set (filter pr_advertises_recovery (dependents_of asset plans))" using dep adv by simp
  then have str: "pr_plan p \<in> set (map pr_plan (filter pr_advertises_recovery (dependents_of asset plans)))"
    by simp
  then have "map pr_plan (filter pr_advertises_recovery (dependents_of asset plans)) \<noteq> []"
    by (metis empty_iff list.set(1))
  then have "ce_verdict (entry_for asset plans now) = Blocked"
    using occ by (simp add: entry_for_def Let_def)
  then have "refusal_for (cleanup_preview [asset] plans now) (as_id asset) =
      Some (as_id asset, map pr_plan (filter pr_advertises_recovery (dependents_of asset plans)))"
    by (simp add: refusal_for_def preview_entry_def cleanup_preview_def) (simp add: entry_for_def Let_def)
  with str show "\<exists>stranded. refusal_for (cleanup_preview [asset] plans now) (as_id asset) =
      Some (as_id asset, stranded) \<and> pr_plan p \<in> set stranded" by blast
qed

definition sample_asset :: RecoveryAsset where
  "sample_asset = asset_validated (asset_proposed (\<lambda>p q d n. asc ''r1'') (asc ''zfs'') ZfsSnapshot
     (asc ''rpool@x'') (scope_new (asc ''zfs-dataset'') (asc ''rpool'') (asc ''localhost'')) 0)
     (validation_complete 0 (Say []))"

definition sample_retention :: "PlanState \<Rightarrow> PlanRetention" where
  "sample_retention s = (plan_retention_new (asc ''p1'') s)\<lparr>pr_assets := [asc ''r1'']\<rparr>"

theorem cleanup_never_strands_a_plan_witness:
  "\<exists>stranded. refusal_for (cleanup_preview [sample_asset] [sample_retention Verified] 7) (as_id sample_asset) =
     Some (as_id sample_asset, stranded) \<and> pr_plan (sample_retention Verified) \<in> set stranded"
proof -
  have "occupies_storage (as_state sample_asset)"
    "as_id sample_asset \<in> set (pr_assets (sample_retention Verified))"
    "pr_advertises_recovery (sample_retention Verified)"
    by (simp_all add: sample_asset_def asset_validated_def validation_is_complete_def
        validation_complete_def occupies_storage_def asset_proposed_def sample_retention_def
        plan_retention_new_def is_recoverable_def)
  then show ?thesis
    using cleanup_never_strands_a_plan[OF refl, of sample_asset "[sample_retention Verified]" 7] by simp
qed

text \<open>
  A plan advertises recovery by its state alone, and the states in which its change or its
  recovery is under way do not: the asset such a plan rests on is not refused.
\<close>

lemma plan_in_flight_is_not_protected:
  assumes "s \<in> {Protected, Applying, Verifying, Recovering}"
  shows "refusal_for (cleanup_preview [sample_asset] [sample_retention s] now) (as_id sample_asset) = None"
    and "ce_unrecoverable (entry_for sample_asset [sample_retention s] now) = []"
proof -
  have "\<not> pr_advertises_recovery (sample_retention s)"
    using assms by (auto simp: sample_retention_def plan_retention_new_def is_recoverable_def)
  moreover have "dependents_of sample_asset [sample_retention s] = [sample_retention s]"
    by (simp add: dependents_of_def sample_asset_def asset_validated_def asset_proposed_def
        sample_retention_def plan_retention_new_def)
  ultimately have none: "filter pr_advertises_recovery (dependents_of sample_asset [sample_retention s]) = []"
    by simp
  then show "ce_unrecoverable (entry_for sample_asset [sample_retention s] now) = []"
    by (simp add: entry_for_def Let_def)
  have "ce_verdict (entry_for sample_asset [sample_retention s] now) \<noteq> Blocked"
    using none by (auto simp: entry_for_def Let_def split: option.splits)
  then show "refusal_for (cleanup_preview [sample_asset] [sample_retention s] now) (as_id sample_asset) = None"
    by (simp add: refusal_for_def preview_entry_def cleanup_preview_def split: if_splits)
qed

text \<open>The space of several assets is known exactly when the space of each is.\<close>

lemma compose_costs_space:
  "costs \<noteq> [] \<Longrightarrow>
     co_initial_bytes (compose_costs costs) = None \<longleftrightarrow> (\<exists>c \<in> set costs. co_initial_bytes c = None)"
proof -
  have "ct_initial (fold compose_step costs t) = None \<longleftrightarrow>
      ct_initial t = None \<or> (\<exists>c \<in> set costs. co_initial_bytes c = None)" for t
    by (induction costs arbitrary: t) (auto simp: compose_step_def add_bytes_def split: option.splits)
  moreover have "co_initial_bytes (compose_costs costs) = ct_initial (fold compose_step costs
      \<lparr>ct_initial = Some 0, ct_retained = Some 0, ct_latency = 0, ct_quiesce = None,
       ct_estimated = False, ct_reboot = False, ct_offline = False\<rparr>)" if "costs \<noteq> []"
    using that by (simp add: compose_costs_def Let_def with_latency_def with_space_def with_quiesce_def
        needing_reboot_def needing_offline_def split: option.splits)
  ultimately show "costs \<noteq> [] \<Longrightarrow>
     co_initial_bytes (compose_costs costs) = None \<longleftrightarrow> (\<exists>c \<in> set costs. co_initial_bytes c = None)"
    by simp
qed

end
