(* ===== verification/Provider_Registry.thy ===== *)
theory Provider_Registry
  imports Mount_Domain Recovery_Asset
begin

text \<open>
  The recovery providers a plan may ask (\<open>crates/ono-change-protection/src/registry.rs\<close> with
  the capabilities of \<open>crates/ono-change-core/src/provider.rs\<close>).  A provider is the record of
  what its trait methods answer; the methods themselves belong to the provider crates and
  are arguments here.  The theory shows that a registry never holds two providers of one id
  or one that cannot restore, and that a discovery says what it could not ask.
\<close>

section \<open>Capabilities\<close>

datatype RecoveryCapability =
    Discover | PrepareAsset | Restore | CleanupAsset | EstimateCost | Quiesce | Transaction

fun RecoveryCapability_as_str :: "RecoveryCapability \<Rightarrow> string" where
  "RecoveryCapability_as_str Discover = ''recovery.discover''"
| "RecoveryCapability_as_str PrepareAsset = ''recovery.prepare''"
| "RecoveryCapability_as_str Restore = ''recovery.restore''"
| "RecoveryCapability_as_str CleanupAsset = ''recovery.cleanup''"
| "RecoveryCapability_as_str EstimateCost = ''recovery.estimate-cost''"
| "RecoveryCapability_as_str Quiesce = ''recovery.quiesce''"
| "RecoveryCapability_as_str Transaction = ''recovery.transaction''"

definition REQUIRED :: "RecoveryCapability list" where
  "REQUIRED = [Discover, PrepareAsset, Restore, CleanupAsset, EstimateCost]"

definition recovery_mutates :: "RecoveryCapability \<Rightarrow> bool" where
  "recovery_mutates c \<longleftrightarrow> c \<in> {PrepareAsset, Restore, CleanupAsset, Quiesce, Transaction}"

datatype ChangeCapability = PlanRead | PlanContribute | ActionExecute | VerificationObserve

definition change_mutates :: "ChangeCapability \<Rightarrow> bool" where
  "change_mutates c \<longleftrightarrow> c \<in> {ActionExecute}"

record ProviderCapabilities =
  pc_provider :: ustr
  pc_conformance :: string
  pc_recovery :: "RecoveryCapability list"
  pc_change :: "ChangeCapability list"
  pc_tool_versions :: "(ustr \<times> ustr) list"

definition capabilities_new :: "ustr \<Rightarrow> ProviderCapabilities" where
  "capabilities_new provider =
     \<lparr>pc_provider = provider, pc_conformance = ''ono.recovery-provider/1'', pc_recovery = [],
      pc_change = [], pc_tool_versions = []\<rparr>"

definition recovering :: "ProviderCapabilities \<Rightarrow> RecoveryCapability \<Rightarrow> ProviderCapabilities" where
  "recovering p c =
     (if c \<in> set (pc_recovery p) then p else p\<lparr>pc_recovery := pc_recovery p @ [c]\<rparr>)"

definition changing :: "ProviderCapabilities \<Rightarrow> ChangeCapability \<Rightarrow> ProviderCapabilities" where
  "changing p c = (if c \<in> set (pc_change p) then p else p\<lparr>pc_change := pc_change p @ [c]\<rparr>)"

definition has_recovery :: "ProviderCapabilities \<Rightarrow> RecoveryCapability \<Rightarrow> bool" where
  "has_recovery p c \<longleftrightarrow> c \<in> set (pc_recovery p)"

definition has_change :: "ProviderCapabilities \<Rightarrow> ChangeCapability \<Rightarrow> bool" where
  "has_change p c \<longleftrightarrow> c \<in> set (pc_change p)"

definition missing_required :: "ProviderCapabilities \<Rightarrow> RecoveryCapability list" where
  "missing_required p = filter (\<lambda>c. \<not> has_recovery p c) REQUIRED"

definition may_execute :: "ProviderCapabilities \<Rightarrow> bool" where
  "may_execute p \<longleftrightarrow> has_change p ActionExecute"

datatype ProviderAvailability =
    Available ustr
  | Unavailable ustr
  | Unsupported ustr ustr

definition is_available :: "ProviderAvailability \<Rightarrow> bool" where
  "is_available a \<longleftrightarrow> (case a of Available _ \<Rightarrow> True | _ \<Rightarrow> False)"

fun availability_reason :: "ProviderAvailability \<Rightarrow> ustr option" where
  "availability_reason (Available _) = None"
| "availability_reason (Unavailable reason) = Some reason"
| "availability_reason (Unsupported _ reason) = Some reason"

section \<open>Providers and their registry\<close>

record ErrorValue =
  ev_code :: string
  ev_message :: sentence
  ev_help :: "sentence option"

definition provider_unavailable :: "ustr \<Rightarrow> sentence \<Rightarrow> ErrorValue" where
  "provider_unavailable provider reason =
     \<lparr>ev_code = ''recovery.provider_unavailable'',
      ev_message = Format ''the recovery provider cannot run here'' [Say provider],
      ev_help = Some (Format ''a provider degrades to unavailable'' [reason])\<rparr>"

record RecoveryProvider =
  rp_id :: ustr
  rp_capabilities :: ProviderCapabilities
  rp_availability :: ProviderAvailability
  rp_resolve_domain :: "ustr \<Rightarrow> ErrorValue + PersistenceDomain option"
  rp_discover :: "PersistenceDomain \<Rightarrow> RecoveryObjective \<Rightarrow> ErrorValue + RecoveryCandidate list"
  rp_plan_protection :: "RecoveryCandidate list \<Rightarrow> ProtectionMode \<Rightarrow> ErrorValue + ProtectionAction list"
  rp_validate :: "RecoveryAsset \<Rightarrow> ErrorValue + RecoveryValidation"

record ProviderRefusal =
  rf_provider :: ustr
  rf_reason :: sentence
  rf_error :: ErrorValue

record DiscoveryOutcome =
  do_candidates :: "RecoveryCandidate list"
  do_refusals :: "ProviderRefusal list"
  do_resolutions :: "(ustr \<times> PersistenceDomain) list"

definition is_conclusive :: "DiscoveryOutcome \<Rightarrow> bool" where
  "is_conclusive d \<longleftrightarrow> do_refusals d = []"

definition resolved_by :: "DiscoveryOutcome \<Rightarrow> ustr \<Rightarrow> PersistenceDomain option" where
  "resolved_by d provider = map_option snd (List.find (\<lambda>(i, _). i = provider) (do_resolutions d))"

definition push_refusal :: "ProviderRefusal \<Rightarrow> ProviderRefusal list \<Rightarrow> ProviderRefusal list" where
  "push_refusal r kept =
     (if list_ex (\<lambda>k. rf_provider k = rf_provider r) kept then kept else kept @ [r])"

definition merged_with :: "DiscoveryOutcome \<Rightarrow> DiscoveryOutcome \<Rightarrow> DiscoveryOutcome" where
  "merged_with a b =
     \<lparr>do_candidates = do_candidates a @ do_candidates b,
      do_refusals = fold push_refusal (do_refusals b) (do_refusals a),
      do_resolutions = do_resolutions a @ do_resolutions b\<rparr>"

type_synonym registry = "RecoveryProvider list"

definition register :: "registry \<Rightarrow> RecoveryProvider \<Rightarrow> ErrorValue + registry" where
  "register providers provider =
     (let missing = missing_required (rp_capabilities provider) in
      if missing \<noteq> [] then
        Inl (provider_unavailable (rp_id provider)
          (Format ''declares neither''
            (map (\<lambda>c. Say (asc (RecoveryCapability_as_str c))) missing)))
      else if list_ex (\<lambda>kept. rp_id kept = rp_id provider) providers then
        Inl (provider_unavailable (rp_id provider) (Format ''already registered'' []))
      else Inr (providers @ [provider]))"

definition registry_ids :: "registry \<Rightarrow> ustr list" where
  "registry_ids providers = map rp_id providers"

definition registry_get :: "registry \<Rightarrow> ustr \<Rightarrow> RecoveryProvider option" where
  "registry_get providers i = List.find (\<lambda>p. rp_id p = i) providers"

definition available :: "registry \<Rightarrow> RecoveryProvider list" where
  "available providers = filter (\<lambda>p. is_available (rp_availability p)) providers"

definition unavailable_refusal :: "RecoveryProvider \<Rightarrow> ProviderRefusal option" where
  "unavailable_refusal p =
     (case availability_reason (rp_availability p) of
        None \<Rightarrow> None
      | Some reason \<Rightarrow> Some \<lparr>rf_provider = rp_id p, rf_reason = Say reason,
          rf_error = provider_unavailable (rp_id p) (Say reason)\<rparr>)"

definition unavailable :: "registry \<Rightarrow> ProviderRefusal list" where
  "unavailable providers = List.map_filter unavailable_refusal providers"

definition refuse_with :: "RecoveryProvider \<Rightarrow> sentence \<Rightarrow> ErrorValue \<Rightarrow> DiscoveryOutcome \<Rightarrow> DiscoveryOutcome" where
  "refuse_with p reason err d =
     d\<lparr>do_refusals := do_refusals d @
        [\<lparr>rf_provider = rp_id p, rf_reason = reason, rf_error = err\<rparr>]\<rparr>"

definition ask ::
    "RecoveryProvider \<Rightarrow> PersistenceDomain \<Rightarrow> RecoveryObjective \<Rightarrow> DiscoveryOutcome \<Rightarrow> DiscoveryOutcome" where
  "ask p domain objective d =
     (case rp_discover p domain objective of
        Inr candidates \<Rightarrow> d\<lparr>do_candidates := do_candidates d @ candidates\<rparr>
      | Inl err \<Rightarrow> refuse_with p (ev_message err) err d)"

definition discover :: "registry \<Rightarrow> PersistenceDomain \<Rightarrow> RecoveryObjective \<Rightarrow> DiscoveryOutcome" where
  "discover providers domain objective =
     (let outcome = \<lparr>do_candidates = [], do_refusals = unavailable providers, do_resolutions = []\<rparr> in
      if \<not> is_protectable domain then outcome
      else fold (\<lambda>p d. ask p domain objective d) (available providers) outcome)"

definition display_point :: "ustr \<Rightarrow> ustr" where
  "display_point point =
     (let trimmed = trim_end_slashes point in if trimmed = [] then asc ''/'' else trimmed)"

definition same_mount :: "PersistenceDomain \<Rightarrow> PersistenceDomain \<Rightarrow> bool" where
  "same_mount l r \<longleftrightarrow>
     display_point (rm_mount_point (pd_mount l)) = display_point (rm_mount_point (pd_mount r))"

text \<open>One provider's turn: what it resolves, what it may be asked and what it answers.\<close>

definition discover_one ::
    "ustr \<Rightarrow> PersistenceDomain option \<Rightarrow> RecoveryObjective \<Rightarrow> RecoveryProvider \<Rightarrow>
     DiscoveryOutcome \<Rightarrow> DiscoveryOutcome" where
  "discover_one path fallback objective p d =
     (case (if starts_with [47] path then rp_resolve_domain p path else Inr None) of
        Inl err \<Rightarrow> refuse_with p
          (Format ''the persistence domain could not be established'' [Say path, ev_message err]) err d
      | Inr own \<Rightarrow>
          if (case (own, fallback) of
                (Some o1, Some f) \<Rightarrow> is_protectable o1 \<and> \<not> same_mount o1 f
              | _ \<Rightarrow> False)
          then
            let reason = Format ''resolved through another mount''
                  [Say path, Say (display_point (rm_mount_point (pd_mount (the own)))),
                   Say (display_point (rm_mount_point (pd_mount (the fallback))))]
            in refuse_with p reason (provider_unavailable (rp_id p) reason) d
          else
            (case (own, fallback) of
               (Some o1, _) \<Rightarrow>
                 let d' = d\<lparr>do_resolutions := do_resolutions d @ [(rp_id p, o1)]\<rparr> in
                 if \<not> is_protectable o1 then d' else ask p o1 objective d'
             | (None, Some f) \<Rightarrow> if \<not> is_protectable f then d else ask p f objective d
             | (None, None) \<Rightarrow> d))"

definition discover_at ::
    "registry \<Rightarrow> ustr \<Rightarrow> PersistenceDomain option \<Rightarrow> RecoveryObjective \<Rightarrow> DiscoveryOutcome" where
  "discover_at providers path fallback objective =
     (let outcome = \<lparr>do_candidates = [], do_refusals = unavailable providers, do_resolutions = []\<rparr> in
      if (case fallback of None \<Rightarrow> False | Some f \<Rightarrow> \<not> is_protectable f) then outcome
      else fold (discover_one path fallback objective) (available providers) outcome)"

definition own_domain :: "ustr \<Rightarrow> PersistenceDomain \<Rightarrow> RecoveryProvider \<Rightarrow> PersistenceDomain option" where
  "own_domain path fallback p =
     (case rp_resolve_domain p path of
        Inr (Some own) \<Rightarrow>
          if is_protectable own \<and> same_mount own fallback \<and>
             (case pd_object own of None \<Rightarrow> False | Some object \<Rightarrow> object \<noteq> path)
          then Some own else None
      | _ \<Rightarrow> None)"

definition registry_resolve_at :: "registry \<Rightarrow> ustr \<Rightarrow> PersistenceDomain \<Rightarrow> PersistenceDomain" where
  "registry_resolve_at providers path fallback =
     (if \<not> is_protectable fallback \<or> \<not> starts_with [47] path then fallback
      else case find_map (own_domain path fallback) (available providers) of
        None \<Rightarrow> fallback | Some own \<Rightarrow> own)"

definition revalidate :: "registry \<Rightarrow> RecoveryAsset \<Rightarrow> ErrorValue + RecoveryAsset" where
  "revalidate providers asset =
     (if as_state asset \<noteq> AssetReady then Inr asset
      else case registry_get providers (as_provider asset) of
        None \<Rightarrow> Inl (provider_unavailable (as_provider asset) (Format ''it is not registered here'' []))
      | Some p \<Rightarrow>
          (case rp_availability p of
             Unavailable reason \<Rightarrow> Inl (provider_unavailable (as_provider asset) (Say reason))
           | _ \<Rightarrow> and_then (rp_validate p asset) (\<lambda>v. Inr (asset_validated asset v))))"

definition registration_shortfall :: "ProviderCapabilities \<Rightarrow> string list" where
  "registration_shortfall p = map RecoveryCapability_as_str (missing_required p)"

section \<open>The registry invariant\<close>

text \<open>What every registry promises its clients: one provider per id, each able to restore.\<close>

definition registry_ok :: "registry \<Rightarrow> bool" where
  "registry_ok providers \<longleftrightarrow>
     distinct (registry_ids providers) \<and>
     list_all (\<lambda>p. \<forall>c \<in> set REQUIRED. has_recovery (rp_capabilities p) c) providers"

definition register_step :: "registry \<Rightarrow> RecoveryProvider \<Rightarrow> registry option" where
  "register_step providers p = (case register providers p of Inl _ \<Rightarrow> None | Inr r \<Rightarrow> Some r)"

lemma register_eq_Inr:
  "register providers p = Inr r \<longleftrightarrow>
     missing_required (rp_capabilities p) = [] \<and> rp_id p \<notin> set (registry_ids providers) \<and>
     r = providers @ [p]"
proof -
  have "list_ex (\<lambda>kept. rp_id kept = rp_id p) providers \<longleftrightarrow> rp_id p \<in> set (registry_ids providers)"
    by (induction providers) (auto simp: registry_ids_def)
  then show ?thesis by (auto simp: register_def Let_def)
qed

lemma missing_required_iff:
  "missing_required c = [] \<longleftrightarrow> (\<forall>r \<in> set REQUIRED. has_recovery c r)"
  by (auto simp: missing_required_def filter_empty_conv)

interpretation registrations: guarded_machine register_step registry_ok "\<lambda>_. True"
proof
  fix s e s'
  assume "registry_ok s" and "register_step s e = Some s'"
  then show "registry_ok s'"
    by (auto simp: register_step_def registry_ok_def register_eq_Inr missing_required_iff
        registry_ids_def split: sum.splits)
qed simp

lemma registry_get_registered:
  "distinct (registry_ids r) \<Longrightarrow> p \<in> set r \<Longrightarrow> registry_get r (rp_id p) = Some p"
proof (induction r)
  case (Cons q r)
  then show ?case by (auto simp: registry_get_def registry_ids_def)
qed simp

lemma register_run_members:
  "run_events register_step s ps = Some r \<Longrightarrow> r = s @ ps"
proof (induction ps arbitrary: s)
  case (Cons p ps)
  then obtain u where u: "register_step s p = Some u" "run_events register_step u ps = Some r"
    by (auto split: option.splits)
  then have "u = s @ [p]" by (auto simp: register_step_def register_eq_Inr split: sum.splits)
  with Cons.IH[OF u(2)] show ?case by simp
qed simp

text \<open>
  however providers are registered, a registry holds at most one provider of each id and
  none that lacks one of the five capabilities recovery needs, and asking it for the id of
  a provider that was accepted gives that provider.
\<close>

theorem registry_holds_only_recoverers:
  assumes "run_events register_step [] ps = Some r"
  shows "distinct (registry_ids r) \<and>
    (\<forall>p \<in> set r. \<forall>c \<in> set REQUIRED. has_recovery (rp_capabilities p) c) \<and>
    (\<forall>p \<in> set ps. registry_get r (rp_id p) = Some p)"
proof -
  have "registry_ok r"
    using registrations.run_good[OF _ assms] by (simp add: registry_ok_def registry_ids_def)
  moreover have "r = ps" using register_run_members[OF assms] by simp
  ultimately show ?thesis
    using registry_get_registered[of r] by (auto simp: registry_ok_def list_all_iff)
qed

definition sample_provider :: "string \<Rightarrow> ProviderAvailability \<Rightarrow> RecoveryProvider" where
  "sample_provider name a =
     \<lparr>rp_id = asc name,
      rp_capabilities = fold (\<lambda>c p. recovering p c) REQUIRED (capabilities_new (asc name)),
      rp_availability = a,
      rp_resolve_domain = (\<lambda>_. Inr None),
      rp_discover = (\<lambda>_ _. Inr []),
      rp_plan_protection = (\<lambda>_ _. Inr []),
      rp_validate = (\<lambda>_. Inr (validation_complete 0 (Say [])))\<rparr>"

lemma sample_provider_registers:
  "run_events register_step [] [sample_provider ''zfs'' a] = Some [sample_provider ''zfs'' a]"
  by (simp add: register_step_def register_def missing_required_def has_recovery_def REQUIRED_def
      sample_provider_def recovering_def capabilities_new_def)

theorem registry_holds_only_recoverers_witness:
  "distinct (registry_ids [sample_provider ''zfs'' (Available [])]) \<and>
   has_recovery (rp_capabilities (sample_provider ''zfs'' (Available []))) (hd REQUIRED) \<and>
   registry_get [sample_provider ''zfs'' (Available [])] (rp_id (sample_provider ''zfs'' (Available []))) =
     Some (sample_provider ''zfs'' (Available []))"
  using registry_holds_only_recoverers[OF sample_provider_registers, of "Available []"]
  by (simp add: REQUIRED_def)

section \<open>What a discovery establishes\<close>

text \<open>The domain a provider's \<open>discover\<close> is handed, and what it refuses.\<close>

definition own_resolution :: "ustr \<Rightarrow> RecoveryProvider \<Rightarrow> ErrorValue + PersistenceDomain option" where
  "own_resolution path p = (if starts_with [47] path then rp_resolve_domain p path else Inr None)"

definition asked_domain :: "ustr \<Rightarrow> PersistenceDomain option \<Rightarrow> RecoveryProvider \<Rightarrow> PersistenceDomain option" where
  "asked_domain path fallback p =
     (case own_resolution path p of
        Inl _ \<Rightarrow> None
      | Inr (Some own) \<Rightarrow>
          if is_protectable own \<and> (\<forall>f. fallback = Some f \<longrightarrow> same_mount own f) then Some own else None
      | Inr None \<Rightarrow> (case fallback of None \<Rightarrow> None | Some f \<Rightarrow> if is_protectable f then Some f else None))"

definition refuses :: "ustr \<Rightarrow> PersistenceDomain option \<Rightarrow> RecoveryObjective \<Rightarrow> RecoveryProvider \<Rightarrow> bool" where
  "refuses path fallback objective p \<longleftrightarrow>
     (case own_resolution path p of
        Inl _ \<Rightarrow> True
      | Inr own \<Rightarrow>
          (\<exists>o1 f. own = Some o1 \<and> fallback = Some f \<and> is_protectable o1 \<and> \<not> same_mount o1 f) \<or>
          (\<exists>target err. asked_domain path fallback p = Some target \<and> rp_discover p target objective = Inl err))"

definition offered :: "ustr \<Rightarrow> PersistenceDomain option \<Rightarrow> RecoveryObjective \<Rightarrow> RecoveryProvider \<Rightarrow>
    RecoveryCandidate list" where
  "offered path fallback objective p =
     (case asked_domain path fallback p of
        None \<Rightarrow> []
      | Some target \<Rightarrow> (case rp_discover p target objective of Inl _ \<Rightarrow> [] | Inr cs \<Rightarrow> cs))"

lemma discover_one_effect:
  "do_candidates (discover_one path fallback objective p d) =
     do_candidates d @ offered path fallback objective p"
  "do_refusals (discover_one path fallback objective p d) = [] \<longleftrightarrow>
     do_refusals d = [] \<and> \<not> refuses path fallback objective p"
proof -
  note defs = discover_one_def own_resolution_def[symmetric] offered_def refuses_def asked_domain_def
    refuse_with_def ask_def Let_def
  show "do_candidates (discover_one path fallback objective p d) =
      do_candidates d @ offered path fallback objective p"
    unfolding defs by (auto split: sum.splits option.splits if_splits)
  show "do_refusals (discover_one path fallback objective p d) = [] \<longleftrightarrow>
      do_refusals d = [] \<and> \<not> refuses path fallback objective p"
    unfolding defs by (auto split: sum.splits option.splits if_splits)
qed

lemma discover_fold_effect:
  "do_candidates (fold (discover_one path fallback objective) ps d) =
     do_candidates d @ concat (map (offered path fallback objective) ps)"
  "do_refusals (fold (discover_one path fallback objective) ps d) = [] \<longleftrightarrow>
     do_refusals d = [] \<and> list_all (\<lambda>p. \<not> refuses path fallback objective p) ps"
  by (induction ps arbitrary: d) (auto simp: discover_one_effect)

lemma unavailable_empty:
  "unavailable providers = [] \<longleftrightarrow> list_all (\<lambda>p. is_available (rp_availability p)) providers"
proof (induction providers)
  case (Cons p ps)
  then show ?case
    by (cases "rp_availability p")
      (auto simp: unavailable_def List.map_filter_simps unavailable_refusal_def is_available_def)
qed (simp add: unavailable_def List.map_filter_simps)

text \<open>
  an empty discovery is an answer only when everybody could be asked.  When a discovery
  over a protectable path refused nothing and found nothing, every registered provider can
  run here, resolved the path without error to a domain on the serving mount or left it to
  the mount table, and, asked over that domain, offered nothing.
\<close>

theorem empty_discovery_is_conclusive:
  assumes "is_conclusive (discover_at providers path (Some f) objective)"
    and "do_candidates (discover_at providers path (Some f) objective) = []"
    and "is_protectable f"
  shows "\<forall>p \<in> set providers. is_available (rp_availability p) \<and>
    (\<exists>own. own_resolution path p = Inr own \<and>
       (\<forall>target. own = Some target \<longrightarrow> is_protectable target \<longrightarrow> same_mount target f)) \<and>
    (\<forall>target. asked_domain path (Some f) p = Some target \<longrightarrow> rp_discover p target objective = Inr [])"
proof
  fix p assume p: "p \<in> set providers"
  let ?start = "\<lparr>do_candidates = [], do_refusals = unavailable providers, do_resolutions = []\<rparr>"
  have d: "discover_at providers path (Some f) objective =
      fold (discover_one path (Some f) objective) (available providers) ?start"
    using assms(3) by (simp add: discover_at_def)
  have none: "unavailable providers = []"
    and quiet: "list_all (\<lambda>p. \<not> refuses path (Some f) objective p) (available providers)"
    using assms(1) unfolding is_conclusive_def d discover_fold_effect by simp_all
  have empty: "\<forall>q \<in> set (available providers). offered path (Some f) objective q = []"
    using assms(2) unfolding d discover_fold_effect by simp
  have av: "is_available (rp_availability p)" using none p by (simp add: unavailable_empty list_all_iff)
  then have pa: "p \<in> set (available providers)" using p by (simp add: available_def)
  then have nr: "\<not> refuses path (Some f) objective p" using quiet by (simp add: list_all_iff)
  then obtain own where own: "own_resolution path p = Inr own"
    by (cases "own_resolution path p") (auto simp: refuses_def)
  have mount: "\<forall>target. own = Some target \<longrightarrow> is_protectable target \<longrightarrow> same_mount target f"
    using nr own by (auto simp: refuses_def)
  have "rp_discover p target objective = Inr []" if "asked_domain path (Some f) p = Some target" for target
    using that nr own empty pa
    by (cases "rp_discover p target objective") (auto simp: refuses_def offered_def)
  with av own mount show "is_available (rp_availability p) \<and>
    (\<exists>own. own_resolution path p = Inr own \<and>
       (\<forall>target. own = Some target \<longrightarrow> is_protectable target \<longrightarrow> same_mount target f)) \<and>
    (\<forall>target. asked_domain path (Some f) p = Some target \<longrightarrow> rp_discover p target objective = Inr [])"
    by blast
qed

definition sample_domain :: PersistenceDomain where
  "sample_domain = resolved_domain (asc ''/etc/x'')
     (mount_new (asc ''8:1'') (asc ''/'') (asc ''ext4'') (asc ''/dev/sda'') (asc ''/''))
     (asc ''filesystem'') (asc ''/dev/sda'') (Say [])"

lemma sample_domain_protectable: "is_protectable sample_domain"
  by (simp add: sample_domain_def mount_new_def of_mount_type_def strip_prefix_def fs_is_persistent_def)

theorem empty_discovery_is_conclusive_witness:
  "is_available (rp_availability (sample_provider ''zfs'' (Available []))) \<and>
   asked_domain (asc ''/etc/x'') (Some sample_domain) (sample_provider ''zfs'' (Available [])) = Some sample_domain \<and>
   rp_discover (sample_provider ''zfs'' (Available [])) sample_domain PreserveExact = Inr []"
proof -
  let ?p = "sample_provider ''zfs'' (Available [])"
  have "is_conclusive (discover_at [?p] (asc ''/etc/x'') (Some sample_domain) PreserveExact)"
    "do_candidates (discover_at [?p] (asc ''/etc/x'') (Some sample_domain) PreserveExact) = []"
    by (simp_all add: discover_at_def sample_domain_protectable available_def sample_provider_def
        is_available_def discover_one_def starts_with_def ask_def is_conclusive_def unavailable_def
        List.map_filter_simps unavailable_refusal_def)
  from empty_discovery_is_conclusive[OF this sample_domain_protectable]
  have "is_available (rp_availability ?p)"
    "\<And>t. asked_domain (asc ''/etc/x'') (Some sample_domain) ?p = Some t \<Longrightarrow> rp_discover ?p t PreserveExact = Inr []"
    by simp_all
  moreover have "asked_domain (asc ''/etc/x'') (Some sample_domain) ?p = Some sample_domain"
    by (simp add: asked_domain_def own_resolution_def sample_provider_def sample_domain_protectable)
  ultimately show ?thesis by blast
qed

text \<open>Every candidate was offered by a provider that can run here, over a domain it may claim.\<close>

lemma discovered_candidate_source:
  assumes "c \<in> set (do_candidates (discover_at providers path fallback objective))"
  shows "\<exists>p \<in> set (available providers). \<exists>target cs. asked_domain path fallback p = Some target \<and>
    rp_discover p target objective = Inr cs \<and> c \<in> set cs \<and> is_protectable target \<and>
    (\<forall>f. fallback = Some f \<longrightarrow> is_protectable f \<and> same_mount target f)"
proof -
  have fb: "\<forall>f. fallback = Some f \<longrightarrow> is_protectable f"
    using assms by (auto simp: discover_at_def Let_def split: if_splits option.splits)
  then obtain p where p: "p \<in> set (available providers)" and off: "c \<in> set (offered path fallback objective p)"
    using assms by (auto simp: discover_at_def Let_def discover_fold_effect split: if_splits)
  obtain target where t: "asked_domain path fallback p = Some target"
    using off by (cases "asked_domain path fallback p") (auto simp: offered_def)
  then obtain cs where "rp_discover p target objective = Inr cs" "c \<in> set cs"
    using off by (cases "rp_discover p target objective") (auto simp: offered_def)
  note target = t this
  have "is_protectable target \<and> (\<forall>f. fallback = Some f \<longrightarrow> same_mount target f)"
    using target(1) by (auto simp: asked_domain_def same_mount_def split: sum.splits option.splits if_splits)
  with p target fb show ?thesis by blast
qed

text \<open>
  An asset comes back ready only on a validation made now; a provider found at a version it
  does not support is asked all the same.
\<close>

lemma revalidated_ready:
  assumes "revalidate providers asset = Inr a" and "as_state a = AssetReady"
  shows "\<exists>p v. registry_get providers (as_provider asset) = Some p \<and> rp_validate p asset = Inr v \<and>
    validation_is_complete v \<and> a = asset_validated asset v"
proof -
  have ready: "as_state asset = AssetReady"
    using assms by (auto simp: revalidate_def split: if_splits)
  then obtain p where p: "registry_get providers (as_provider asset) = Some p"
    using assms(1) by (cases "registry_get providers (as_provider asset)") (auto simp: revalidate_def)
  then obtain v where v: "rp_validate p asset = Inr v" "a = asset_validated asset v"
    using assms(1) ready
    by (cases "rp_availability p") (auto simp: revalidate_def and_then_eq_Inr)
  then have "validation_is_complete v" using assms(2) by (simp add: asset_validated_def split: if_splits)
  with p v show ?thesis by blast
qed

lemma revalidate_asks_unsupported:
  "as_state asset = AssetReady \<Longrightarrow> as_provider asset = asc ''zfs'' \<Longrightarrow>
     revalidate [sample_provider ''zfs'' (Unsupported v reason)] asset =
       Inr (asset_validated asset (validation_complete 0 (Say [])))"
  by (simp add: revalidate_def registry_get_def sample_provider_def)

end
