(* ===== verification/Protection_Policy.thy ===== *)
theory Protection_Policy
  imports Recovery_Asset
begin

text \<open>
  The policy a coverage answer is judged by (\<open>crates/ono-change-protection/src/policy.rs\<close>) and
  the matrix of a plan over several hosts (\<open>hosts.rs\<close>).  A free-space floor holds a share of
  a file system as a binary floating-point number; the floor is opaque here and the stricter
  of two floors an argument \<open>stricter_floor\<close>, so every other part of the policy is modelled.
\<close>

typedecl FreeSpaceFloor

section \<open>Cost limits\<close>

datatype LimitBreach =
    EstimatedSize nat nat
  | TargetScope nat nat
  | QuiesceDuration nat nat
  | SnapshotCount nat

fun describe_breach :: "LimitBreach \<Rightarrow> sentence" where
  "describe_breach (EstimatedSize estimated limit) =
     Format ''the estimated size is above the configured limit'' [Say (show_nat estimated), Say (show_nat limit)]"
| "describe_breach (TargetScope objects limit) =
     Format ''the recovery scope covers too many objects'' [Say (show_nat objects), Say (show_nat limit)]"
| "describe_breach (QuiesceDuration needed limit) =
     Format ''the quiesce window is longer than the configured bound'' [Say (show_nat needed), Say (show_nat limit)]"
| "describe_breach (SnapshotCount limit) =
     Format ''the plan already proposes the configured maximum'' [Say (show_nat limit)]"

record CostLimits =
  cl_max_estimated_size :: "nat option"
  cl_max_scope_objects :: "nat option"
  cl_max_quiesce :: "nat option"
  cl_max_snapshot_count :: "nat option"
  cl_min_filesystem_free :: FreeSpaceFloor

definition limits_with_floor :: "FreeSpaceFloor \<Rightarrow> CostLimits" where
  "limits_with_floor floor =
     \<lparr>cl_max_estimated_size = None, cl_max_scope_objects = None, cl_max_quiesce = None,
      cl_max_snapshot_count = Some 32, cl_min_filesystem_free = floor\<rparr>"

definition bounds_key :: "CostLimits \<Rightarrow> string \<Rightarrow> bool option" where
  "bounds_key l key =
     (if key = ''estimated-size'' then Some (cl_max_estimated_size l \<noteq> None)
      else if key = ''target-scope'' then Some (cl_max_scope_objects l \<noteq> None)
      else if key = ''quiesce-duration'' then Some (cl_max_quiesce l \<noteq> None)
      else if key = ''snapshot-count'' then Some (cl_max_snapshot_count l \<noteq> None)
      else if key = ''filesystem-free-space-floor'' then Some True
      else None)"

definition breaches :: "CostLimits \<Rightarrow> RecoveryCost \<Rightarrow> nat \<Rightarrow> nat \<Rightarrow> LimitBreach list" where
  "breaches l cost scope_objects planned =
     (case (cl_max_estimated_size l, co_initial_bytes cost) of
        (Some limit, Some estimated) \<Rightarrow>
          if estimated > limit then [EstimatedSize estimated limit] else []
      | _ \<Rightarrow> []) @
     (case cl_max_scope_objects l of
        Some limit \<Rightarrow> if scope_objects > limit then [TargetScope scope_objects limit] else []
      | None \<Rightarrow> []) @
     (case (cl_max_quiesce l, co_quiesce cost) of
        (Some limit, Some needed) \<Rightarrow> if needed > limit then [QuiesceDuration needed limit] else []
      | _ \<Rightarrow> []) @
     (case cl_max_snapshot_count l of
        Some limit \<Rightarrow> if planned \<ge> limit then [SnapshotCount limit] else []
      | None \<Rightarrow> [])"

definition stricter :: "nat option \<Rightarrow> nat option \<Rightarrow> nat option" where
  "stricter l r =
     (case (l, r) of
        (Some a, Some b) \<Rightarrow> Some (if a \<le> b then a else b)
      | (Some a, None) \<Rightarrow> Some a
      | (None, Some b) \<Rightarrow> Some b
      | (None, None) \<Rightarrow> None)"

definition tightened_with ::
    "(FreeSpaceFloor \<Rightarrow> FreeSpaceFloor \<Rightarrow> FreeSpaceFloor) \<Rightarrow> CostLimits \<Rightarrow> CostLimits \<Rightarrow> CostLimits" where
  "tightened_with stricter_floor l other =
     \<lparr>cl_max_estimated_size = stricter (cl_max_estimated_size l) (cl_max_estimated_size other),
      cl_max_scope_objects = stricter (cl_max_scope_objects l) (cl_max_scope_objects other),
      cl_max_quiesce = stricter (cl_max_quiesce l) (cl_max_quiesce other),
      cl_max_snapshot_count = stricter (cl_max_snapshot_count l) (cl_max_snapshot_count other),
      cl_min_filesystem_free =
        stricter_floor (cl_min_filesystem_free l) (cl_min_filesystem_free other)\<rparr>"

section \<open>Profiles\<close>

datatype Profile = Interactive | Cautious | Fleet | Scripted

definition Profile_ALL :: "Profile list" where
  "Profile_ALL = [Interactive, Cautious, Fleet, Scripted]"

fun Profile_as_str :: "Profile \<Rightarrow> string" where
  "Profile_as_str Interactive = ''interactive''"
| "Profile_as_str Cautious = ''cautious''"
| "Profile_as_str Fleet = ''fleet''"
| "Profile_as_str Scripted = ''scripted''"

definition Profile_from_name :: "string \<Rightarrow> Profile option" where
  "Profile_from_name name = find (\<lambda>p. Profile_as_str p = name) Profile_ALL"

interpretation profiles: vocabulary Profile_ALL Profile_as_str
proof
  fix x y :: Profile
  show "x \<in> set Profile_ALL" by (cases x) (simp_all add: Profile_ALL_def)
  show "Profile_as_str x = Profile_as_str y \<Longrightarrow> x = y" by (cases x; cases y) simp_all
qed

definition profile_mode :: "Profile \<Rightarrow> ProtectionMode" where
  "profile_mode p = (if p = Cautious then Require else Prefer)"

definition profile_retention :: "Profile \<Rightarrow> nat" where
  "profile_retention p = (if p = Cautious then 72 * 60 * 60 * 1000000000 else DEFAULT_RETENTION)"

definition profile_limits :: "(Profile \<Rightarrow> FreeSpaceFloor) \<Rightarrow> Profile \<Rightarrow> CostLimits" where
  "profile_limits floors p = limits_with_floor (floors p)"

definition profile_prompts :: "Profile \<Rightarrow> bool" where
  "profile_prompts p \<longleftrightarrow> p \<notin> {Scripted}"

definition profile_strategy :: "Profile \<Rightarrow> string" where
  "profile_strategy p = (if p = Fleet then ''canary 1 then batch 10%'' else ''sequential'')"

section \<open>The policy of a plan\<close>

record ProtectionPolicy =
  po_mode :: ProtectionMode
  po_requested :: "ProtectionMode option"
  po_required_level :: ProtectionLevel
  po_retention :: RetentionPolicy
  po_limits :: CostLimits
  po_irrelevant_domains :: "EffectDomain list"
  po_excluded_hosts :: "ustr list"
  po_authorises_early_removal :: bool
  po_profile :: "Profile option"

definition policy_of :: "FreeSpaceFloor \<Rightarrow> ProtectionMode \<Rightarrow> ProtectionPolicy" where
  "policy_of floor mode =
     \<lparr>po_mode = mode, po_requested = None, po_required_level = LevelProtected,
      po_retention = retention_default, po_limits = limits_with_floor floor,
      po_irrelevant_domains = [], po_excluded_hosts = [], po_authorises_early_removal = False,
      po_profile = None\<rparr>"

definition asked_for :: "ProtectionPolicy \<Rightarrow> ProtectionMode \<Rightarrow> ProtectionPolicy" where
  "asked_for p requested = p\<lparr>po_requested := Some requested\<rparr>"

definition declaring_irrelevant :: "ProtectionPolicy \<Rightarrow> EffectDomain \<Rightarrow> ProtectionPolicy" where
  "declaring_irrelevant p d =
     (if d \<in> set (po_irrelevant_domains p) then p
      else p\<lparr>po_irrelevant_domains := po_irrelevant_domains p @ [d]\<rparr>)"

definition excluding_host :: "ProtectionPolicy \<Rightarrow> ustr \<Rightarrow> ProtectionPolicy" where
  "excluding_host p host =
     (if host \<in> set (po_excluded_hosts p) then p
      else p\<lparr>po_excluded_hosts := po_excluded_hosts p @ [host]\<rparr>)"

definition excludes_host :: "ProtectionPolicy \<Rightarrow> ustr \<Rightarrow> bool" where
  "excludes_host p host \<longleftrightarrow> list_ex (\<lambda>excluded. excluded = host) (po_excluded_hosts p)"

definition is_irrelevant :: "ProtectionPolicy \<Rightarrow> EffectDomain \<Rightarrow> bool" where
  "is_irrelevant p d \<longleftrightarrow> d \<in> set (po_irrelevant_domains p)"

fun mode_rank :: "ProtectionMode \<Rightarrow> nat" where
  "mode_rank Off = 0"
| "mode_rank Prefer = 1"
| "mode_rank Maximize = 2"
| "mode_rank Require = 3"

fun delivers :: "ProtectionMode \<Rightarrow> ProtectionMode \<Rightarrow> bool" where
  "delivers got Off \<longleftrightarrow> True"
| "delivers got Prefer \<longleftrightarrow> got \<noteq> Off"
| "delivers got Maximize \<longleftrightarrow> got = Maximize"
| "delivers got Require \<longleftrightarrow> got = Require"

fun level_rank :: "ProtectionLevel \<Rightarrow> nat" where
  "level_rank LevelUnknown = 0"
| "level_rank LevelUnprotected = 1"
| "level_rank LevelCompensatable = 2"
| "level_rank LevelPartiallyProtected = 3"
| "level_rank LevelProtected = 4"
| "level_rank LevelTransactional = 5"

definition effective_mode :: "ProtectionMode \<Rightarrow> ProtectionMode option \<Rightarrow> ProtectionMode" where
  "effective_mode configured requested =
     (case requested of
        Some r \<Rightarrow> if mode_rank r \<ge> mode_rank configured then r else configured
      | None \<Rightarrow> configured)"

definition narrowed :: "ProtectionPolicy \<Rightarrow> ProtectionMode option" where
  "narrowed p =
     (case po_requested p of
        Some r \<Rightarrow> if \<not> delivers (po_mode p) r then Some r else None
      | None \<Rightarrow> None)"

definition raised :: "ProtectionPolicy \<Rightarrow> ProtectionMode option" where
  "raised p =
     (case po_requested p of
        Some r \<Rightarrow> if r \<noteq> po_mode p \<and> delivers (po_mode p) r then Some r else None
      | None \<Rightarrow> None)"

definition tighten_with ::
    "(FreeSpaceFloor \<Rightarrow> FreeSpaceFloor \<Rightarrow> FreeSpaceFloor) \<Rightarrow> (Profile \<Rightarrow> FreeSpaceFloor) \<Rightarrow>
     ProtectionPolicy \<Rightarrow> Profile \<Rightarrow> ProtectionPolicy" where
  "tighten_with stricter_floor floors p profile =
     (let p1 = (if mode_rank (profile_mode profile) > mode_rank (po_mode p)
                then p\<lparr>po_mode := profile_mode profile\<rparr> else p);
          window = max (rt_after_verification (po_retention p1)) (profile_retention profile);
          retention = retention_of window;
          retention = (if rt_hold (po_retention p1) then holding retention else retention)
      in p1\<lparr>po_retention := retention,
            po_limits := tightened_with stricter_floor (po_limits p1) (profile_limits floors profile),
            po_profile := Some profile\<rparr>)"

definition is_satisfied_by :: "ProtectionPolicy \<Rightarrow> ProtectionSummary \<Rightarrow> bool" where
  "is_satisfied_by p summary \<longleftrightarrow>
     \<not> refuses_shortfall (po_mode p) \<or> level_rank (level summary) \<ge> level_rank (po_required_level p)"

text \<open>The refusal carries the level reached, the one required and the domains that fell short.\<close>

definition enforce ::
    "ProtectionPolicy \<Rightarrow> ProtectionSummary \<Rightarrow>
     (ProtectionLevel \<times> ProtectionLevel \<times> EffectDomain list) + unit" where
  "enforce p summary =
     (if is_satisfied_by p summary then Inr ()
      else Inl (level summary, po_required_level p, map row_domain (shortfall summary)))"

section \<open>A matrix over several hosts\<close>

record HostCoverage =
  hc_host :: ustr
  hc_analysis :: "ustr + ProtectionSummary"

definition host_level :: "HostCoverage \<Rightarrow> ProtectionLevel" where
  "host_level h = (case hc_analysis h of Inl _ \<Rightarrow> LevelUnknown | Inr s \<Rightarrow> level s)"

definition host_rows :: "HostCoverage \<Rightarrow> DomainCoverage list" where
  "host_rows h =
     (case hc_analysis h of
        Inr s \<Rightarrow> sum_rows s
      | Inl reason \<Rightarrow>
          [coverage_new RemoteSystem ObjectiveUnknown ProtectionUnknown
             [Format ''its protection could not be analysed'' [Say (hc_host h), Say reason]]])"

definition host_step ::
    "ProtectionPolicy \<Rightarrow> HostCoverage \<Rightarrow> DomainCoverage list \<times> CoverageExclusion list \<Rightarrow>
     DomainCoverage list \<times> CoverageExclusion list" where
  "host_step policy h acc =
     (let (rows, exclusions) = acc;
          excluded = excludes_host policy (hc_host h);
          rows = rows @ (if excluded then map declared_irrelevant (host_rows h) else host_rows h);
          exclusions = exclusions @
            (if excluded then [exclusion_new RemoteSystem (hc_host h) (Format ''the policy excludes this host'' [])]
             else []);
          exclusions = exclusions @
            (case hc_analysis h of Inl _ \<Rightarrow> [] | Inr s \<Rightarrow> sum_exclusions s)
      in (rows, exclusions))"

definition compose_hosts :: "HostCoverage list \<Rightarrow> ProtectionPolicy \<Rightarrow> ProtectionSummary" where
  "compose_hosts hosts policy =
     (let (rows, exclusions) = fold (host_step policy) hosts ([], [])
      in foldl summary_excluding (summary_of rows) exclusions)"

section \<open>Tightening never weakens\<close>

definition within_bound :: "nat option \<Rightarrow> nat \<Rightarrow> bool" where
  "within_bound bound n \<longleftrightarrow> (case bound of None \<Rightarrow> True | Some limit \<Rightarrow> n \<le> limit)"

lemma stricter_within: "within_bound (stricter l r) n \<longleftrightarrow> within_bound l n \<and> within_bound r n"
  by (auto simp: within_bound_def stricter_def split: option.splits)

lemma breaches_empty_iff:
  "breaches l cost width planned = [] \<longleftrightarrow>
     pred_option (within_bound (cl_max_estimated_size l)) (co_initial_bytes cost) \<and>
     within_bound (cl_max_scope_objects l) width \<and>
     pred_option (within_bound (cl_max_quiesce l)) (co_quiesce cost) \<and>
     within_bound (cl_max_snapshot_count l) (Suc planned)"
  by (cases "co_initial_bytes cost"; cases "co_quiesce cost")
    (auto simp: breaches_def within_bound_def split: option.splits)

lemma tightened_breaches:
  "breaches (tightened_with sf l r) cost width planned = [] \<longleftrightarrow>
     breaches l cost width planned = [] \<and> breaches r cost width planned = []"
  by (cases "co_initial_bytes cost"; cases "co_quiesce cost")
    (auto simp: breaches_empty_iff tightened_with_def stricter_within)

text \<open>
  applying a profile only ever makes a policy stricter.  The mode is at least as strict
  as before and as the profile's, the retention at least as long and a hold kept, a
  candidate the tightened limits admit was admitted by the limits before and by the
  profile's own, and nothing else of the policy moves, in particular no domain becomes
  irrelevant and no host excluded.
\<close>

theorem profile_never_weakens:
  "let q = tighten_with stricter_floor floors p profile in
    mode_rank (po_mode p) \<le> mode_rank (po_mode q) \<and>
    mode_rank (profile_mode profile) \<le> mode_rank (po_mode q) \<and>
    po_mode q \<in> {po_mode p, profile_mode profile} \<and>
    rt_after_verification (po_retention p) \<le> rt_after_verification (po_retention q) \<and>
    profile_retention profile \<le> rt_after_verification (po_retention q) \<and>
    rt_hold (po_retention q) = rt_hold (po_retention p) \<and>
    (breaches (po_limits q) cost width planned = [] \<longrightarrow>
       breaches (po_limits p) cost width planned = [] \<and>
       breaches (profile_limits floors profile) cost width planned = []) \<and>
    po_irrelevant_domains q = po_irrelevant_domains p \<and> po_excluded_hosts q = po_excluded_hosts p \<and>
    po_required_level q = po_required_level p"
proof -
  define q where "q = tighten_with stricter_floor floors p profile"
  have lim: "po_limits q = tightened_with stricter_floor (po_limits p) (profile_limits floors profile)"
    by (simp add: q_def tighten_with_def Let_def)
  have mode: "po_mode q = (if mode_rank (profile_mode profile) > mode_rank (po_mode p)
      then profile_mode profile else po_mode p)"
    by (simp add: q_def tighten_with_def Let_def)
  have ret: "po_retention q = (if rt_hold (po_retention p)
      then holding (retention_of (max (rt_after_verification (po_retention p)) (profile_retention profile)))
      else retention_of (max (rt_after_verification (po_retention p)) (profile_retention profile)))"
    by (simp add: q_def tighten_with_def Let_def)
  have rest: "po_irrelevant_domains q = po_irrelevant_domains p" "po_excluded_hosts q = po_excluded_hosts p"
    "po_required_level q = po_required_level p"
    by (simp_all add: q_def tighten_with_def Let_def)
  show ?thesis
    using tightened_breaches[of stricter_floor "po_limits p" "profile_limits floors profile"] lim
    unfolding q_def[symmetric] Let_def by (auto simp: mode ret rest holding_def retention_of_def)
qed

theorem profile_never_weakens_witness:
  "\<forall>floor. \<exists>q. q = tighten_with (\<lambda>a b. a) (\<lambda>_. floor) (policy_of floor Prefer) Cautious \<and>
    po_mode q = Require \<and> breaches (po_limits q) cost_unknown 1 0 = [] \<and>
    breaches (limits_with_floor floor) cost_unknown 1 0 = []"
proof
  fix floor
  let ?q = "tighten_with (\<lambda>a b. a) (\<lambda>_. floor) (policy_of floor Prefer) Cautious"
  have "breaches (po_limits ?q) cost_unknown 1 0 = []"
    by (simp add: breaches_def tighten_with_def tightened_with_def Let_def policy_of_def
        limits_with_floor_def profile_limits_def profile_mode_def cost_unknown_def stricter_def)
  moreover have "po_mode ?q = Require"
    by (simp add: tighten_with_def Let_def policy_of_def profile_mode_def)
  ultimately show "\<exists>q. q = ?q \<and> po_mode q = Require \<and> breaches (po_limits q) cost_unknown 1 0 = [] \<and>
      breaches (limits_with_floor floor) cost_unknown 1 0 = []"
    using profile_never_weakens[where p = "policy_of floor Prefer" and stricter_floor = "\<lambda>a b. a" and
        floors = "\<lambda>_. floor" and profile = Cautious and cost = cost_unknown and width = 1 and planned = 0]
    by (simp add: policy_of_def Let_def)
qed

text \<open>
  The mode a plan runs under is the stricter of the configured and the requested one.  It
  does all the request asked for, except that a request to maximise under a configuration
  that requires loses its breadth, and then \<open>narrowed\<close> says so.
\<close>

lemma effective_mode_delivers:
  assumes "po_mode p = effective_mode configured (Some requested)" and "po_requested p = Some requested"
  shows "mode_rank configured \<le> mode_rank (po_mode p)"
    and "mode_rank requested \<le> mode_rank (po_mode p)"
    and "narrowed p = (if requested = Maximize \<and> configured = Require then Some Maximize else None)"
    and "delivers (po_mode p) requested \<or> narrowed p = Some requested"
  using assms
  by (cases requested; cases configured; simp add: effective_mode_def narrowed_def)+

text \<open>
  a plan that requires protection applies only with it.  Under \<open>require\<close> with the
  default class, the policy accepts a plan exactly when the plan-level word covers its
  persistent state, so a plan it accepts leaves no required row unsatisfied.
\<close>

theorem require_admits_only_protected:
  assumes "po_mode p = Require" and "po_required_level p = LevelProtected"
  shows "(enforce p summary = Inr () \<longleftrightarrow> covers_persistent_state (level summary)) \<and>
    (enforce p summary = Inr () \<longrightarrow> shortfall summary = [])"
proof -
  have "level_rank l \<ge> 4 \<longleftrightarrow> covers_persistent_state l" for l
    by (cases l) (simp_all add: covers_persistent_state_def)
  then have iff: "enforce p summary = Inr () \<longleftrightarrow> covers_persistent_state (level summary)"
    using assms by (simp add: enforce_def is_satisfied_by_def refuses_shortfall_def)
  have "shortfall summary = []" if "covers_persistent_state (level summary)"
    using that
    by (auto simp: level_cases covers_persistent_state_def Let_def list_all_iff list_ex_iff
        shortfall_def filter_empty_conv split: if_splits)
  with iff show ?thesis by blast
qed

theorem require_admits_only_protected_witness:
  "\<forall>floor. enforce (policy_of floor Require)
     (summary_of [sample_row FilesystemPersistent PreserveExact DomainProtection.Protected]) = Inr ()"
proof
  fix floor
  let ?s = "summary_of [sample_row FilesystemPersistent PreserveExact DomainProtection.Protected]"
  have "level ?s = LevelProtected" by (rule digest_omits_assets(2))
  then show "enforce (policy_of floor Require) ?s = Inr ()"
    using require_admits_only_protected[of "policy_of floor Require" ?s]
    by (simp add: policy_of_def covers_persistent_state_def)
qed

text \<open>
  The refusal names the rows that fell short, and there need not be one: a plan none of
  whose rows requires recovery is refused with an empty list.
\<close>

lemma require_refuses_nothing_required:
  "enforce (policy_of floor Require)
     (summary_of [coverage_new NetworkRuntime NoRecoveryRequired Unprotected []]) =
     Inl (LevelUnprotected, LevelProtected, [])"
  by (simp add: enforce_def is_satisfied_by_def policy_of_def refuses_shortfall_def level_cases
      summary_of_def coverage_new_def required_rows_def row_is_required_def
      objective_is_required_def shortfall_def)

section \<open>Hosts\<close>

lemma compose_rows:
  "sum_rows (compose_hosts hosts policy) =
     concat (map (\<lambda>h. if excludes_host policy (hc_host h) then map declared_irrelevant (host_rows h)
                      else host_rows h) hosts)"
proof -
  have rows: "fst (fold (host_step policy) hs acc) = fst acc @
      concat (map (\<lambda>h. if excludes_host policy (hc_host h) then map declared_irrelevant (host_rows h)
        else host_rows h) hs)" for hs acc
    by (induction hs arbitrary: acc) (auto simp: host_step_def Let_def split: prod.splits)
  have keep: "sum_rows (foldl summary_excluding s es) = sum_rows s" for s es
    by (induction es arbitrary: s) (simp_all add: summary_excluding_def)
  show ?thesis
    using rows[of hosts "([], [])"] by (auto simp: compose_hosts_def keep summary_of_def split: prod.splits)
qed

text \<open>
  the reachable hosts never speak for the others.  When the matrix of a plan over
  several hosts is called protected or transactional, every host the policy does not
  exclude was analysed, and none of them leaves a required row of its own unsatisfied.
\<close>

theorem every_host_is_covered:
  assumes "covers_persistent_state (level (compose_hosts hosts policy))"
    and "h \<in> set hosts" and "\<not> excludes_host policy (hc_host h)"
  shows "\<exists>s. hc_analysis h = Inr s \<and> shortfall s = []"
proof -
  have all: "\<forall>row \<in> set (required_rows (compose_hosts hosts policy)). is_satisfied row"
    using assms(1) unfolding level_cases covers_persistent_state_def Let_def
    by (auto simp: list_all_iff split: if_splits)
  have sub: "set (host_rows h) \<subseteq> set (sum_rows (compose_hosts hosts policy))"
    using assms(2,3) unfolding compose_rows by auto
  have sat: "is_satisfied row" if "row \<in> set (host_rows h)" "row_is_required row" for row
    using all sub that by (auto simp: required_rows_def)
  show ?thesis
  proof (cases "hc_analysis h")
    case (Inl reason)
    have "\<not> is_satisfied (hd (host_rows h))" "row_is_required (hd (host_rows h))"
      and "hd (host_rows h) \<in> set (host_rows h)"
      by (simp_all add: host_rows_def Inl coverage_new_def is_satisfied_def row_is_required_def
          objective_is_required_def)
    with sat show ?thesis by blast
  next
    case (Inr s)
    then have "shortfall s = []"
      using sat by (auto simp: shortfall_def required_rows_def filter_empty_conv host_rows_def)
    with Inr show ?thesis by blast
  qed
qed

definition transaction_row :: DomainCoverage where
  "transaction_row = within_transaction
     (coverage_new ApplicationPersistent PreserveExact Transactional []) (asc ''kuang.postgresql'')"

text \<open>
  A transaction scope is the name of a provider, so the transactions of one provider on two
  hosts compose to one.
\<close>

lemma two_hosts_one_transaction:
  "level (compose_hosts
     [\<lparr>hc_host = asc ''a'', hc_analysis = Inr (summary_of [transaction_row])\<rparr>,
      \<lparr>hc_host = asc ''b'', hc_analysis = Inr (summary_of [transaction_row])\<rparr>]
     (policy_of floor Prefer)) = LevelTransactional"
proof -
  have rows: "sum_rows (compose_hosts
     [\<lparr>hc_host = asc ''a'', hc_analysis = Inr (summary_of [transaction_row])\<rparr>,
      \<lparr>hc_host = asc ''b'', hc_analysis = Inr (summary_of [transaction_row])\<rparr>]
     (policy_of floor Prefer)) = [transaction_row, transaction_row]"
    unfolding compose_rows
    by (simp add: host_rows_def excludes_host_def policy_of_def summary_of_def)
  show ?thesis
    unfolding level_cases required_rows_def rows
    by (simp add: transaction_row_def within_transaction_def coverage_new_def row_is_required_def
        objective_is_required_def is_satisfied_def is_state_image_def one_transaction_def)
qed

theorem every_host_is_covered_witness:
  "\<exists>s. hc_analysis \<lparr>hc_host = asc ''b'', hc_analysis = Inr (summary_of [transaction_row])\<rparr> = Inr s \<and>
    shortfall s = []"
  by (rule every_host_is_covered[of "[\<lparr>hc_host = asc ''a'', hc_analysis = Inr (summary_of [transaction_row])\<rparr>,
      \<lparr>hc_host = asc ''b'', hc_analysis = Inr (summary_of [transaction_row])\<rparr>]" "policy_of undefined Prefer"])
    (simp add: two_hosts_one_transaction[simplified] covers_persistent_state_def,
      simp_all add: excludes_host_def policy_of_def)

end
