(* ===== verification/Protection_Coverage.thy ===== *)
theory Protection_Coverage
  imports Provider_Registry Protection_Policy Plan_Action "HOL-Library.Multiset"
begin

text \<open>
  The coverage algorithm (\<open>crates/ono-change-protection/src/coverage.rs\<close>): the domains a plan
  changes, what recovery each needs, what the providers offer, which offer is taken, and the
  matrix that composes the answer.  The analysis is a state that every step returns
  updated.  The providers and the mount table come in through the request; a note is the
  list of the sentences written into it.
\<close>

section \<open>Mutation domains\<close>

record MutationDomain =
  mu_domain :: EffectDomain
  mu_kind :: EffectKind
  mu_subject :: ustr
  mu_compensation :: "ustr option"
  mu_detail :: sentence
  mu_recursive :: bool

definition mutation_new :: "EffectDomain \<Rightarrow> EffectKind \<Rightarrow> ustr \<Rightarrow> sentence \<Rightarrow> MutationDomain" where
  "mutation_new d k subject detail =
     \<lparr>mu_domain = d, mu_kind = k, mu_subject = subject, mu_compensation = None,
      mu_detail = detail, mu_recursive = False\<rparr>"

definition is_recursive :: "MutationDomain \<Rightarrow> bool" where
  "is_recursive m \<longleftrightarrow> mu_recursive m \<or> mu_kind m \<in> {Remove}"

definition from_effect :: "'v ProposedEffect \<Rightarrow> MutationDomain" where
  "from_effect e =
     \<lparr>mu_domain = eff_domain e, mu_kind = eff_kind e,
      mu_subject = (case eff_object e of Some x \<Rightarrow> x | None \<Rightarrow> eff_explanation e),
      mu_compensation = eff_compensation e, mu_detail = Say (eff_explanation e),
      mu_recursive = False\<rparr>"

definition objective_for :: "EffectDomain \<Rightarrow> EffectKind \<Rightarrow> RecoveryObjective" where
  "objective_for d k =
     (if k = Emit then NoRecoveryRequired
      else case d of
        FilesystemPersistent \<Rightarrow> PreserveExact
      | BlockStoragePersistent \<Rightarrow> PreserveExact
      | ApplicationPersistent \<Rightarrow> PreserveExact
      | IdentitySecurityState \<Rightarrow> PreserveExact
      | ProcessRuntime \<Rightarrow> RestoreSemantic
      | KernelRuntime \<Rightarrow> RestoreSemantic
      | ProviderTransactionState \<Rightarrow> RestoreSemantic
      | NetworkRuntime \<Rightarrow> NoRecoveryRequired
      | ExternalSideEffect \<Rightarrow> NoRecoveryRequired
      | RemoteSystem \<Rightarrow> Compensate
      | DomainUnknown \<Rightarrow> ObjectiveUnknown)"

definition mu_objective :: "MutationDomain \<Rightarrow> RecoveryObjective" where
  "mu_objective m = objective_for (mu_domain m) (mu_kind m)"

definition push_unique :: "MutationDomain \<Rightarrow> MutationDomain list \<Rightarrow> MutationDomain list" where
  "push_unique m domains =
     (if list_ex (\<lambda>x. mu_domain x = mu_domain m \<and> mu_subject x = mu_subject m) domains
      then domains else domains @ [m])"

definition action_domains ::
    "('ex, 'pre, 'v ProposedEffect) PlanAction \<Rightarrow> MutationDomain list \<Rightarrow> MutationDomain list" where
  "action_domains a domains =
     (if \<not> mutates_target (role a) then domains
      else if effects a = [] then
        push_unique
          (mutation_new DomainUnknown KindUnknown
             (case target a of Some x \<Rightarrow> x | None \<Rightarrow> summary a)
             (Format ''declares no effect'' [Say (summary a)])) domains
      else fold (\<lambda>e. push_unique (from_effect e)) (effects a) domains)"

definition mutation_domains ::
    "('ex, 'pre, 'v ProposedEffect) PlanAction list \<Rightarrow> MutationDomain list" where
  "mutation_domains actions =
     sort_key (\<lambda>m. (case position (\<lambda>d. d = mu_domain m) EffectDomain_ALL of
                      Some i \<Rightarrow> i | None \<Rightarrow> u64_max,
                    mu_subject m))
       (fold action_domains actions [])"

definition exclusion_for :: "MutationDomain \<Rightarrow> CoverageExclusion option" where
  "exclusion_for m =
     (if mu_domain m = ExternalSideEffect \<or> mu_kind m = Emit then
        Some (exclusion_irreversible (exclusion_new (mu_domain m) (mu_subject m)
          (Format ''the call has left the system'' [])))
      else if mu_domain m = NetworkRuntime then
        Some (exclusion_new (mu_domain m) (mu_subject m) (Format ''live sessions are not restored'' []))
      else if mu_domain m = DomainUnknown then
        Some (exclusion_new (mu_domain m) (mu_subject m) (Format ''a domain Ono cannot classify'' []))
      else None)"

section \<open>Rejections and the request\<close>

datatype RejectionReason =
    ObjectiveUnsupported | Dominated | CostLimit | ProtectionOff | Conflicting | NotPlannable
  | SnapshotOfMergedView

record RejectedCandidate =
  rj_candidate :: RecoveryCandidate
  rj_reason :: RejectionReason
  rj_detail :: sentence

record CoverageRequest =
  cr_registry :: registry
  cr_policy :: ProtectionPolicy
  cr_mutations :: "MutationDomain list"
  cr_persistence :: "PersistenceDomain list"
  cr_mounts :: "MountTable option"

text \<open>\<open>Iterator::max_by_key\<close>: of several greatest elements the last.\<close>

fun max_by_key :: "('a \<Rightarrow> nat) \<Rightarrow> 'a list \<Rightarrow> 'a option" where
  "max_by_key f [] = None"
| "max_by_key f (x # xs) =
     (case max_by_key f xs of
        None \<Rightarrow> Some x
      | Some y \<Rightarrow> if f x \<le> f y then Some y else Some x)"

definition persistence_for :: "CoverageRequest \<Rightarrow> ustr \<Rightarrow> PersistenceDomain option" where
  "persistence_for r subject =
     (case List.find (\<lambda>d. pd_path d = subject) (cr_persistence r) of
        Some exact \<Rightarrow> Some exact
      | None \<Rightarrow>
          (case (cr_mounts r, starts_with [47] subject) of
             (Some mounts, True) \<Rightarrow> Some (table_resolve mounts subject)
           | _ \<Rightarrow>
               (case max_by_key (\<lambda>point. blen (trim_end_slashes point))
                       (filter (\<lambda>point. point \<noteq> [] \<and> contains point subject)
                          (map (\<lambda>d. rm_mount_point (pd_mount d)) (cr_persistence r))) of
                  None \<Rightarrow> None
                | Some serving \<Rightarrow>
                    (case max_by_key (\<lambda>d. blen (pd_path d))
                            (filter (\<lambda>d. let path = trim_end_slashes (pd_path d) in
                                path \<noteq> [] \<and> starts_with (path @ [47]) subject) (cr_persistence r)) of
                       None \<Rightarrow> None
                     | Some d \<Rightarrow> if rm_mount_point (pd_mount d) = serving then Some d else None))))"

definition boundaries_reached_by :: "CoverageRequest \<Rightarrow> MutationDomain \<Rightarrow> MountBoundary list" where
  "boundaries_reached_by r m =
     (case cr_mounts r of
        Some mounts \<Rightarrow>
          if is_recursive m \<and> starts_with [47] (mu_subject m)
          then boundaries_beneath mounts (mu_subject m) else []
      | None \<Rightarrow> [])"

record CoverageAnalysis =
  an_summary :: ProtectionSummary
  an_actions :: "ProtectionAction list"
  an_rejected :: "RejectedCandidate list"
  an_available :: "RecoveryCandidate list"
  an_refusals :: "ProviderRefusal list"

definition analysis_default :: CoverageAnalysis where
  "analysis_default =
     \<lparr>an_summary = summary_empty, an_actions = [], an_rejected = [], an_available = [],
      an_refusals = []\<rparr>"

definition estimated_cost :: "CoverageAnalysis \<Rightarrow> RecoveryCost" where
  "estimated_cost a = compose_costs (map (\<lambda>x. ca_cost (pa_candidate x)) (an_actions a))"

definition reject ::
    "CoverageAnalysis \<Rightarrow> RecoveryCandidate \<Rightarrow> RejectionReason \<Rightarrow> sentence \<Rightarrow> CoverageAnalysis" where
  "reject a candidate reason detail =
     a\<lparr>an_rejected := an_rejected a @
        [\<lparr>rj_candidate = candidate, rj_reason = reason, rj_detail = detail\<rparr>]\<rparr>"

section \<open>What a candidate is worth\<close>

definition candidate_protection :: "RecoveryCandidate \<Rightarrow> DomainProtection" where
  "candidate_protection c =
     (if ca_consistency c = ConsistencyUnknown then ProtectionUnknown
      else if ca_consistency c = TransactionConsistent then Transactional
      else if restores_prior_state (ca_restore_method c) then DomainProtection.Protected
      else Compensatable)"

fun covers :: "RecoveryObjective \<Rightarrow> RecoveryObjective \<Rightarrow> bool" where
  "covers offer NoRecoveryRequired \<longleftrightarrow> True"
| "covers offer ObjectiveUnknown \<longleftrightarrow> False"
| "covers offer PreserveExact \<longleftrightarrow> offer = PreserveExact"
| "covers offer RestoreSemantic \<longleftrightarrow> offer \<in> {PreserveExact, RestoreSemantic}"
| "covers offer Compensate \<longleftrightarrow> offer \<in> {PreserveExact, RestoreSemantic, Compensate}"

definition satisfies :: "RecoveryCandidate \<Rightarrow> RecoveryObjective \<Rightarrow> bool" where
  "satisfies c objective \<longleftrightarrow>
     satisfied_by objective (candidate_protection c) \<and> covers (ca_objective c) objective"

definition consistency_rank :: "ConsistencyClass \<Rightarrow> nat" where
  "consistency_rank cl =
     length ConsistencyClass_ALL -
     length (filter (\<lambda>other. other \<noteq> cl \<and> weakest_of cl other = other) ConsistencyClass_ALL)"

definition downtime :: "RecoveryCandidate \<Rightarrow> nat" where
  "downtime c =
     (let quiesce = (case co_quiesce (ca_cost c) of None \<Rightarrow> 0 | Some w \<Rightarrow> w div 1000);
          reboot = (if co_requires_reboot (ca_cost c) then 1 else 0);
          offline = (if co_requires_offline (ca_cost c) then 1 else 0)
      in min u128_max (quiesce + (reboot + offline) * 60 * 60 * 1000000))"

definition preference_key ::
    "RecoveryCandidate \<Rightarrow> RecoveryObjective \<Rightarrow>
     nat \<times> nat \<times> nat \<times> nat \<times> nat \<times> nat \<times> nat \<times> nat" where
  "preference_key c objective =
     (if satisfies c objective then 0 else 1,
      if scope_width c = 0 then u64_max else scope_width c,
      consistency_rank (ca_consistency c),
      destructiveness (ca_restore_method c),
      case co_creation_latency (ca_cost c) of None \<Rightarrow> u128_max | Some l \<Rightarrow> l div 1000,
      case co_initial_bytes (ca_cost c) of None \<Rightarrow> u128_max | Some n \<Rightarrow> n,
      case co_retained_bytes (ca_cost c) of None \<Rightarrow> u128_max | Some n \<Rightarrow> n,
      downtime c)"

definition ranked :: "RecoveryCandidate list \<Rightarrow> RecoveryObjective \<Rightarrow> RecoveryCandidate list" where
  "ranked candidates objective =
     sort_key (\<lambda>c. (preference_key c objective, ca_provider c, sc_domain (ca_scope c))) candidates"

definition captures :: "RecoveryCandidate \<Rightarrow> MountBoundary \<Rightarrow> bool" where
  "captures c boundary \<longleftrightarrow>
     (case pd_object (mb_domain boundary) of
        None \<Rightarrow> False
      | Some object \<Rightarrow> sc_domain (ca_scope c) = object \<or> covers_object (ca_scope c) object) \<or>
     list_ex (\<lambda>covered. covered \<noteq> mb_mount_point boundary \<and> contains (mb_mount_point boundary) covered)
       (sc_covers (ca_scope c))"

section \<open>Discovery and choice\<close>

definition note_refusal :: "ProviderRefusal \<Rightarrow> CoverageAnalysis \<Rightarrow> CoverageAnalysis" where
  "note_refusal refusal a =
     (if list_ex (\<lambda>kept. rf_provider kept = rf_provider refusal) (an_refusals a) then a
      else a\<lparr>an_refusals := an_refusals a @ [refusal]\<rparr>)"

definition note_available :: "RecoveryCandidate \<Rightarrow> CoverageAnalysis \<Rightarrow> CoverageAnalysis" where
  "note_available c a =
     (if c \<in> set (an_available a) then a else a\<lparr>an_available := an_available a @ [c]\<rparr>)"

definition discover_candidates ::
    "CoverageRequest \<Rightarrow> MutationDomain \<Rightarrow> PersistenceDomain option \<Rightarrow> CoverageAnalysis \<Rightarrow>
     (RecoveryCandidate list \<times> sentence list \<times> CoverageExclusion list) \<times> CoverageAnalysis" where
  "discover_candidates r m persistence a =
     (let subject = mu_subject m;
          unresolved = [Format ''no persistence domain was resolved'' [Say subject]] in
      if (case persistence of None \<Rightarrow> False | Some d \<Rightarrow> \<not> is_protectable d) then
        let detail = pd_detail (the persistence)
        in (([], [Format ''no persistence domain a local provider may protect'' [Say subject, detail]],
            [exclusion_new (mu_domain m) subject detail]), a)
      else if persistence = None \<and> \<not> starts_with [47] subject then (([], unresolved, []), a)
      else
        let outcome = discover_at (cr_registry r) subject persistence (mu_objective m);
            a = fold note_refusal (do_refusals outcome) a
        in case (case persistence of
                   Some d \<Rightarrow> Some d
                 | None \<Rightarrow> (case do_resolutions outcome of [] \<Rightarrow> None | (_, d) # _ \<Rightarrow> Some d)) of
             None \<Rightarrow> (([], unresolved, []), a)
           | Some named \<Rightarrow>
               let candidates = filter (\<lambda>c. ca_domain c = mu_domain m) (do_candidates outcome);
                   a = fold note_available candidates a;
                   object = (case pd_object named of None \<Rightarrow> subject | Some x \<Rightarrow> x);
                   note =
                     (if candidates = [] then
                        (if is_conclusive outcome then
                           [Format ''no registered provider offers protection'' [Say object]]
                         else
                           [Format ''could not be asked''
                              (Say subject # concat (map (\<lambda>f. [Say (rf_provider f), rf_reason f])
                                 (do_refusals outcome)))])
                      else [Format ''covers'' [Say (pd_object_kind named), Say object]])
               in ((candidates, note, []), a))"

definition proposed_types :: "CoverageRequest \<Rightarrow> RecoveryCandidate \<Rightarrow> RecoveryAssetType list option" where
  "proposed_types r c =
     (case registry_get (cr_registry r) (ca_provider c) of
        None \<Rightarrow> None
      | Some p \<Rightarrow>
          (case rp_plan_protection p [c] Prefer of
             Inl _ \<Rightarrow> None
           | Inr actions \<Rightarrow> Some (map (\<lambda>x. as_type (pa_proposed_asset x)) actions)))"

fun copies_only ::
    "CoverageRequest \<Rightarrow> RecoveryCandidate list \<Rightarrow> CoverageAnalysis \<Rightarrow>
     RecoveryCandidate list \<times> CoverageAnalysis" where
  "copies_only r [] a = ([], a)"
| "copies_only r (c # cs) a =
     (if (case proposed_types r c of
            None \<Rightarrow> False
          | Some types \<Rightarrow> types \<noteq> [] \<and> list_all is_independent_copy types)
      then let (kept, a') = copies_only r cs a in (c # kept, a')
      else copies_only r cs
        (reject a c SnapshotOfMergedView
          (Format ''the writable layer of this overlay is not visible''
             [Say (ca_provider c), Say (sc_domain (ca_scope c))])))"

fun within_limits ::
    "CoverageRequest \<Rightarrow> RecoveryCandidate list \<Rightarrow> nat \<Rightarrow> CoverageAnalysis \<Rightarrow>
     RecoveryCandidate list \<times> CoverageAnalysis" where
  "within_limits r [] planned a = ([], a)"
| "within_limits r (c # cs) planned a =
     (if breaches (po_limits (cr_policy r)) (ca_cost c) (scope_width c) planned = []
      then let (fitting, a') = within_limits r cs planned a in (c # fitting, a')
      else within_limits r cs planned (reject a c CostLimit
        (Format '';'' (map describe_breach
          (breaches (po_limits (cr_policy r)) (ca_cost c) (scope_width c) planned)))))"

text \<open>The loop over the preference order, with what has been chosen so far.\<close>

fun choose_loop ::
    "ProtectionMode \<Rightarrow> RecoveryCandidate list \<Rightarrow> RecoveryCandidate list \<Rightarrow> CoverageAnalysis \<Rightarrow>
     RecoveryCandidate list \<times> CoverageAnalysis" where
  "choose_loop mode chosen [] a = (chosen, a)"
| "choose_loop mode chosen (c # cs) a =
     (case chosen of
        [] \<Rightarrow> choose_loop mode [c] cs a
      | winner # _ \<Rightarrow>
          if mode \<noteq> Maximize then
            choose_loop mode chosen cs
              (reject a c Dominated
                (Format ''was preferred'' [Say (ca_provider winner), Say (sc_domain (ca_scope winner))]))
          else if list_ex (\<lambda>kept. ca_provider kept = ca_provider c \<or>
                 sc_domain (ca_scope kept) = sc_domain (ca_scope c)) chosen then
            choose_loop mode chosen cs
              (reject a c Conflicting
                (Format ''already protects'' [Say (ca_provider winner), Say (sc_domain (ca_scope winner))]))
          else choose_loop mode (chosen @ [c]) cs a)"

definition choose_candidates ::
    "CoverageAnalysis \<Rightarrow> RecoveryCandidate list \<Rightarrow> ProtectionMode \<Rightarrow>
     RecoveryCandidate list \<times> CoverageAnalysis" where
  "choose_candidates a ordered mode = choose_loop mode [] ordered a"

fun unique_providers :: "RecoveryCandidate list \<Rightarrow> ustr list \<Rightarrow> ustr list" where
  "unique_providers [] acc = acc"
| "unique_providers (c # cs) acc =
     unique_providers cs (if ca_provider c \<in> set acc then acc else acc @ [ca_provider c])"

fun push_planned ::
    "ProtectionMode \<Rightarrow> ProtectionAction list \<Rightarrow> ProtectionAction list \<Rightarrow> ProtectionAction list" where
  "push_planned mode [] actions = actions"
| "push_planned mode (x # xs) actions =
     push_planned mode xs
       (actions @ [if mode = Maximize \<and> actions \<noteq> [] then optional x else x])"

definition reject_group ::
    "RecoveryCandidate list \<Rightarrow> sentence \<Rightarrow> CoverageAnalysis \<Rightarrow> CoverageAnalysis" where
  "reject_group cs message a = fold (\<lambda>c b. reject b c NotPlannable message) cs a"

fun plan_providers ::
    "CoverageRequest \<Rightarrow> RecoveryCandidate list \<Rightarrow> ProtectionMode \<Rightarrow> ustr list \<Rightarrow>
     ProtectionAction list \<Rightarrow> CoverageAnalysis \<Rightarrow> ProtectionAction list \<times> CoverageAnalysis" where
  "plan_providers r chosen mode [] actions a = (actions, a)"
| "plan_providers r chosen mode (i # ids) actions a =
     (let cs = filter (\<lambda>c. ca_provider c = i) chosen in
      case registry_get (cr_registry r) i of
        None \<Rightarrow> plan_providers r chosen mode ids actions
          (reject_group cs (Format ''offered a candidate and is not registered'' [Say i]) a)
      | Some p \<Rightarrow>
          (case rp_plan_protection p cs mode of
             Inr planned \<Rightarrow> plan_providers r chosen mode ids (push_planned mode planned actions) a
           | Inl err \<Rightarrow> plan_providers r chosen mode ids actions
               (reject_group cs (ev_message err)
                 (a\<lparr>an_refusals := an_refusals a @
                    [\<lparr>rf_provider = i, rf_reason = ev_message err, rf_error = err\<rparr>]\<rparr>))))"

definition plan_actions ::
    "CoverageRequest \<Rightarrow> RecoveryCandidate list \<Rightarrow> ProtectionMode \<Rightarrow> CoverageAnalysis \<Rightarrow>
     ProtectionAction list \<times> CoverageAnalysis" where
  "plan_actions r chosen mode a = plan_providers r chosen mode (unique_providers chosen []) [] a"

record Cover =
  cv_actions :: "ProtectionAction list"
  cv_note :: "sentence list"
  cv_unknown_semantics :: bool
  cv_exclusions :: "CoverageExclusion list"

definition cover_nothing :: "sentence list \<Rightarrow> Cover" where
  "cover_nothing note =
     \<lparr>cv_actions = [], cv_note = note, cv_unknown_semantics = False, cv_exclusions = []\<rparr>"

definition reject_unusable :: "RecoveryObjective \<Rightarrow> RecoveryCandidate \<Rightarrow> CoverageAnalysis \<Rightarrow> CoverageAnalysis" where
  "reject_unusable objective c a =
     reject a c ObjectiveUnsupported
       (if ca_consistency c = ConsistencyUnknown
        then Format ''could not establish the consistency'' [Say (ca_provider c)]
        else Format ''does not satisfy the objective'' [Say (asc (RecoveryObjective_as_str objective))])"

definition reject_off :: "RecoveryCandidate \<Rightarrow> CoverageAnalysis \<Rightarrow> CoverageAnalysis" where
  "reject_off c a =
     reject a c ProtectionOff
       (Format ''would have protected'' [Say (ca_provider c), Say (sc_domain (ca_scope c))])"

text \<open>The candidates in the order they are considered, best first.\<close>

definition considered ::
    "RecoveryCandidate list \<Rightarrow> RecoveryObjective \<Rightarrow> MountBoundary list \<Rightarrow> RecoveryCandidate list" where
  "considered fitting objective boundaries =
     (let ordered = ranked fitting objective in
      if boundaries \<noteq> [] then
        sort_key (\<lambda>c. length (filter (\<lambda>b. is_protectable (mb_domain b) \<and> \<not> captures c b) boundaries)) ordered
      else ordered)"

definition cover ::
    "CoverageRequest \<Rightarrow> CoverageAnalysis \<Rightarrow> MutationDomain \<Rightarrow> PersistenceDomain option \<Rightarrow>
     MountBoundary list \<Rightarrow> Cover \<times> CoverageAnalysis" where
  "cover r a m persistence boundaries =
     (let objective = mu_objective m;
          mode = po_mode (cr_policy r);
          ((candidates, note, exclusions), a) = discover_candidates r m persistence a;
          copy_only = (case persistence of None \<Rightarrow> False | Some d \<Rightarrow> reach_of d = CopyOnly);
          (candidates, a) = (if copy_only then copies_only r candidates a else (candidates, a));
          planned = length (an_actions a);
          (fitting, a) = within_limits r candidates planned a;
          ordered = considered fitting objective boundaries;
          usable = filter (\<lambda>c. satisfies c objective) ordered;
          unusable = filter (\<lambda>c. \<not> satisfies c objective) ordered;
          unknown = list_ex (\<lambda>c. ca_consistency c = ConsistencyUnknown) unusable;
          a = fold (reject_unusable objective) unusable a;
          (chosen, a) = (if creates_assets mode then choose_candidates a usable mode else ([], fold reject_off usable a));
          note = (if creates_assets mode then note else [Format ''protection is off'' []]);
          (actions, a) = plan_actions r chosen mode a;
          note = (if copy_only \<and> actions \<noteq> [] then note @ [Format ''the protection is container-local'' []]
                  else note)
      in (\<lparr>cv_actions = actions, cv_note = note, cv_unknown_semantics = unknown,
           cv_exclusions = exclusions\<rparr>, a))"

section \<open>Rows\<close>

record RowDraft =
  rd_domain :: EffectDomain
  rd_objective :: RecoveryObjective
  rd_protection :: DomainProtection
  rd_note :: "sentence list"
  rd_actions :: "ProtectionAction list"
  rd_consistency :: "ConsistencyClass option"
  rd_exclusions :: "CoverageExclusion list"
  rd_not_protected_by :: "ustr list"
  rd_irrelevant :: bool

definition protection_of ::
    "ProtectionAction list \<Rightarrow> MutationDomain \<Rightarrow> bool \<Rightarrow> sentence list \<Rightarrow> DomainProtection \<times> sentence list" where
  "protection_of actions m unknown note =
     (case actions of
        x # _ \<Rightarrow> (candidate_protection (pa_candidate x), note)
      | [] \<Rightarrow>
          if unknown then (ProtectionUnknown, [Format ''the only candidate had unknown semantics'' []])
          else case mu_compensation m of
            Some c \<Rightarrow> (Compensatable, [Format ''compensated by'' [Say c]])
          | None \<Rightarrow> (Unprotected, note))"

definition weakest_consistency :: "ProtectionAction list \<Rightarrow> ConsistencyClass option" where
  "weakest_consistency actions = reduce weakest_of (map (\<lambda>x. ca_consistency (pa_candidate x)) actions)"

definition push_unprotected ::
    "ProtectionAction list \<Rightarrow> ustr \<Rightarrow> ustr list \<Rightarrow> ustr list" where
  "push_unprotected actions object kept =
     (let captured = list_ex (\<lambda>x. sc_domain (ca_scope (pa_candidate x)) = object \<or>
            covers_object (ca_scope (pa_candidate x)) object) actions
      in if \<not> captured \<and> object \<notin> set kept then kept @ [object] else kept)"

definition draft_of :: "MutationDomain \<Rightarrow> Cover \<Rightarrow> bool \<Rightarrow> RowDraft" where
  "draft_of m cv irrelevant =
     (let actions = cv_actions cv;
          (protection, note) = protection_of actions m (cv_unknown_semantics cv) (cv_note cv);
          exclusions =
            (case exclusion_for m of None \<Rightarrow> [] | Some e \<Rightarrow> [e]) @
            concat (map (\<lambda>x. map (\<lambda>e. exclusion_new (mu_domain m) (re_subject e) (Say (re_reason e)))
              (ca_exclusions (pa_candidate x))) actions) @
            cv_exclusions cv
      in \<lparr>rd_domain = mu_domain m, rd_objective = mu_objective m, rd_protection = protection,
          rd_note = note, rd_actions = actions, rd_consistency = weakest_consistency actions,
          rd_exclusions = exclusions,
          rd_not_protected_by =
            fold (push_unprotected actions)
              (concat (map (\<lambda>x. ca_not_protecting (pa_candidate x)) actions)) [],
          rd_irrelevant = irrelevant\<rparr>)"

definition creation :: "RowDraft \<Rightarrow> RecoveryCandidate option" where
  "creation d = (case rd_actions d of [] \<Rightarrow> None | x # _ \<Rightarrow> Some (pa_candidate x))"

definition build :: "RowDraft \<Rightarrow> DomainCoverage" where
  "build d =
     (let row = coverage_new (rd_domain d) (rd_objective d) (rd_protection d) (rd_note d);
          row = (if rd_irrelevant d then declared_irrelevant row else row);
          row = fold (\<lambda>x w. by_asset w (as_id (pa_proposed_asset x))) (rd_actions d) row;
          row = (case rd_consistency d of None \<Rightarrow> row | Some c \<Rightarrow> at_consistency row c);
          row = (case rd_actions d of
                   x # _ \<Rightarrow> if rd_protection d = Transactional then within_transaction row (pa_provider x) else row
                 | [] \<Rightarrow> row);
          row = fold (\<lambda>e w. row_excluding w e) (rd_exclusions d) row
      in fold (\<lambda>x w. outside_of w x) (rd_not_protected_by d) row)"

definition creations_in :: "EffectDomain \<Rightarrow> RowDraft list \<Rightarrow> RecoveryCandidate list" where
  "creations_in d drafts =
     fold (\<lambda>c acc. if c \<in> set acc then acc else acc @ [c])
       (List.map_filter creation (filter (\<lambda>x. rd_domain x = d) drafts)) []"

definition lower_row :: "EffectDomain \<Rightarrow> nat \<Rightarrow> RowDraft \<Rightarrow> RowDraft" where
  "lower_row d number x =
     (if rd_domain x = d \<and> rd_actions x \<noteq> [] then
        let composed = (case rd_consistency x of
              None \<Rightarrow> CrashConsistent
            | Some c \<Rightarrow> weakest_of c CrashConsistent)
        in x\<lparr>rd_consistency := Some composed,
             rd_note := rd_note x @ [Format ''rests on assets created one after another''
               [Say (asc (EffectDomain_as_str d)), Say (show_nat number)]]\<rparr>
      else x)"

definition compose_domain :: "EffectDomain \<Rightarrow> RowDraft list \<Rightarrow> RowDraft list" where
  "compose_domain d drafts =
     (let number = length (creations_in d drafts)
      in if number < 2 then drafts else map (lower_row d number) drafts)"

definition compose_sequential :: "RowDraft list \<Rightarrow> RowDraft list" where
  "compose_sequential drafts = fold compose_domain EffectDomain_ALL drafts"

section \<open>The analysis\<close>

text \<open>The state of one mutation's pass over the file systems beneath it.\<close>

record tree_state =
  ts_analysis :: CoverageAnalysis
  ts_tree :: "ProtectionAction list"
  ts_parent :: RowDraft
  ts_children :: "RowDraft list"

definition boundary_child :: "MutationDomain \<Rightarrow> MountBoundary \<Rightarrow> MutationDomain" where
  "boundary_child m boundary =
     mutation_new (mu_domain m) (mu_kind m) (mb_mount_point boundary)
       (Format ''is mounted beneath'' [Say (mb_mount_point boundary), Say (mu_subject m)])"

definition boundary_row ::
    "CoverageRequest \<Rightarrow> MutationDomain \<Rightarrow> MountBoundary list \<Rightarrow> bool \<Rightarrow> MountBoundary \<Rightarrow>
     tree_state \<Rightarrow> tree_state" where
  "boundary_row r m beneath irrelevant boundary st =
     (let point = mb_mount_point boundary; domain = mb_domain boundary in
      if pd_refusal domain \<in> {Some ReasonVolatile, Some ReasonPseudo} then
        st\<lparr>ts_parent := (ts_parent st)\<lparr>rd_exclusions := rd_exclusions (ts_parent st) @
            [exclusion_new (mu_domain m) point
               (Format ''the mutation reaches'' [Say (mu_subject m), Say point, pd_detail domain])]\<rparr>\<rparr>
      else
        let child = boundary_child m boundary;
            capturing = filter (\<lambda>x. captures (pa_candidate x) boundary) (ts_tree st) in
        if is_protectable domain \<and> capturing \<noteq> [] then
          let draft = draft_of child
                \<lparr>cv_actions = capturing,
                 cv_note = [Format ''captured in the same operation''
                   [Say point, Say (mu_subject m), Say (pa_summary (hd capturing))]],
                 cv_unknown_semantics = False, cv_exclusions = []\<rparr> irrelevant
          in st\<lparr>ts_children := ts_children st @ [draft\<lparr>rd_exclusions := []\<rparr>]\<rparr>
        else
          let (found, a) = cover r (ts_analysis st) child (Some domain) beneath;
              exclusions =
                (if cv_actions found = [] \<and> cv_exclusions found = [] then
                   [exclusion_new (mu_domain m) point
                      (Format ''a separate filesystem nothing captures''
                        (Say (mu_subject m) # Say point # cv_note found))]
                 else cv_exclusions found);
              found = found\<lparr>cv_exclusions := exclusions,
                cv_note := [Format ''is a separate filesystem beneath''
                  (Say point # Say (mu_subject m) # cv_note found)]\<rparr>
          in \<lparr>ts_analysis = a\<lparr>an_actions := an_actions a @ cv_actions found\<rparr>,
              ts_tree = ts_tree st @ cv_actions found,
              ts_parent = ts_parent st,
              ts_children = ts_children st @ [draft_of child found irrelevant]\<rparr>)"

definition beneath_of :: "MountBoundary list \<Rightarrow> MountBoundary \<Rightarrow> MountBoundary list" where
  "beneath_of boundaries boundary =
     filter (\<lambda>other. mb_mount_point other \<noteq> mb_mount_point boundary \<and>
       contains (mb_mount_point boundary) (mb_mount_point other)) boundaries"

definition analyse_mutation ::
    "CoverageRequest \<Rightarrow> MutationDomain \<Rightarrow> CoverageAnalysis \<times> RowDraft list \<Rightarrow>
     CoverageAnalysis \<times> RowDraft list" where
  "analyse_mutation r m acc =
     (let (a, drafts) = acc;
          required = objective_is_required (mu_objective m);
          irrelevant = is_irrelevant (cr_policy r) (mu_domain m);
          boundaries = (if required then boundaries_reached_by r m else []);
          (found, a) =
            (if required then cover r a m (persistence_for r (mu_subject m)) boundaries
             else (cover_nothing [Format ''no recovery is required''
                     [Say (asc (EffectDomain_as_str (mu_domain m)))]], a));
          found =
            (if boundaries \<noteq> [] then
               found\<lparr>cv_note := cv_note found @ [Format ''the mutation reaches file systems mounted beneath''
                 [Say (show_nat (length boundaries)), Say (mu_subject m)]]\<rparr>
             else found);
          a = a\<lparr>an_actions := an_actions a @ cv_actions found\<rparr>;
          st = fold (\<lambda>b. boundary_row r m (beneath_of boundaries b) irrelevant b) boundaries
                 \<lparr>ts_analysis = a, ts_tree = cv_actions found,
                  ts_parent = draft_of m found irrelevant, ts_children = []\<rparr>
      in (ts_analysis st, drafts @ [ts_parent st] @ ts_children st))"

definition analyse :: "CoverageRequest \<Rightarrow> CoverageAnalysis" where
  "analyse r =
     (let (a, drafts) = fold (analyse_mutation r) (cr_mutations r) (analysis_default, [])
      in a\<lparr>an_summary := summary_of (map build (compose_sequential drafts))\<rparr>)"

definition protection_lost :: "ProtectionSummary \<Rightarrow> ProtectionSummary \<Rightarrow> EffectDomain list" where
  "protection_lost was fresh =
     map row_domain
       (filter (\<lambda>row. \<not> list_ex (\<lambda>now. row_domain now = row_domain row \<and> is_satisfied now) (sum_rows fresh))
         (filter (\<lambda>row. is_satisfied row \<and> row_protection row \<noteq> ProtectionUnknown) (sum_rows was)))"

section \<open>Every candidate is taken or rejected with a reason\<close>

definition rejects :: "CoverageAnalysis \<Rightarrow> RecoveryCandidate multiset" where
  "rejects a = image_mset rj_candidate (mset (an_rejected a))"

lemma reject_simps [simp]:
  "rejects (reject a c reason detail) = add_mset c (rejects a)"
  "an_actions (reject a c reason detail) = an_actions a"
  by (simp_all add: reject_def rejects_def)

lemma rejects_refusals [simp]:
  "rejects (a\<lparr>an_refusals := x\<rparr>) = rejects a" "rejects (a\<lparr>an_available := y\<rparr>) = rejects a"
  "rejects (a\<lparr>an_actions := z\<rparr>) = rejects a"
  by (simp_all add: rejects_def)

lemma copies_only_accounts:
  "copies_only r cs a = (kept, a') \<Longrightarrow>
     mset cs + rejects a = mset kept + rejects a' \<and> an_actions a' = an_actions a \<and> set kept \<subseteq> set cs"
  by (induction r cs a arbitrary: kept a' rule: copies_only.induct)
    (fastforce split: if_splits prod.splits)+

lemma within_limits_accounts:
  "within_limits r cs planned a = (kept, a') \<Longrightarrow>
     mset cs + rejects a = mset kept + rejects a' \<and> an_actions a' = an_actions a \<and> set kept \<subseteq> set cs"
  by (induction r cs planned a arbitrary: kept a' rule: within_limits.induct)
    (fastforce split: if_splits prod.splits)+

lemma choose_loop_accounts:
  "choose_loop mode chosen cs a = (chosen', a') \<Longrightarrow>
     mset chosen + mset cs + rejects a = mset chosen' + rejects a' \<and> an_actions a' = an_actions a \<and>
     set chosen' \<subseteq> set chosen \<union> set cs \<and> (chosen \<noteq> [] \<longrightarrow> chosen' \<noteq> [] \<and> hd chosen' = hd chosen)"
proof (induction cs arbitrary: chosen a)
  case Nil
  then show ?case by simp
next
  case (Cons c cs)
  note step = Cons.prems[unfolded choose_loop.simps]
  show ?case
  proof (cases chosen)
    case Nil
    then have "choose_loop mode [c] cs a = (chosen', a')" using step by simp
    from Cons.IH[OF this] Nil show ?thesis by auto
  next
    case (Cons winner ws)
    consider (turned) reason detail where "choose_loop mode chosen cs (reject a c reason detail) = (chosen', a')"
      | (taken) "choose_loop mode (chosen @ [c]) cs a = (chosen', a')"
      using step Cons by (auto split: if_splits)
    then show ?thesis
    proof cases
      case turned
      from Cons.IH[OF turned] Cons show ?thesis by auto
    next
      case taken
      from Cons.IH[OF taken] Cons show ?thesis by (auto simp: add_mset_commute)
    qed
  qed
qed

lemma fold_reject_accounts:
  "rejects (fold (reject_unusable obj) cs a) = mset cs + rejects a"
  "an_actions (fold (reject_unusable obj) cs a) = an_actions a"
  "rejects (fold reject_off cs a) = mset cs + rejects a"
  "an_actions (fold reject_off cs a) = an_actions a"
  "rejects (reject_group cs msg a) = mset cs + rejects a"
  "an_actions (reject_group cs msg a) = an_actions a"
  by (induction cs arbitrary: a) (simp_all add: reject_unusable_def reject_off_def reject_group_def)

lemma notes_account:
  "rejects (fold note_refusal fs a) = rejects a" "an_actions (fold note_refusal fs a) = an_actions a"
  "rejects (fold note_available cs a) = rejects a" "an_actions (fold note_available cs a) = an_actions a"
proof -
  show "rejects (fold note_refusal fs a) = rejects a" "an_actions (fold note_refusal fs a) = an_actions a"
    by (induction fs arbitrary: a) (simp_all add: note_refusal_def)
  show "rejects (fold note_available cs a) = rejects a" "an_actions (fold note_available cs a) = an_actions a"
    by (induction cs arbitrary: a) (simp_all add: note_available_def)
qed

lemma discover_candidates_accounts:
  assumes "discover_candidates r m persistence a = ((cs, note, exclusions), a')"
  shows "rejects a' = rejects a \<and> an_actions a' = an_actions a \<and> (\<forall>c \<in> set cs. ca_domain c = mu_domain m)"
  using assms unfolding discover_candidates_def Let_def
  by (auto simp: notes_account split: if_splits option.splits list.splits prod.splits)

lemma plan_providers_accounts:
  "plan_providers r chosen mode ids actions a = (actions', a') \<Longrightarrow> an_actions a' = an_actions a"
  by (induction r chosen mode ids actions a arbitrary: actions' a' rule: plan_providers.induct)
    (auto simp: fold_reject_accounts Let_def split: option.splits sum.splits)

section \<open>What a protected plan rests on\<close>

text \<open>
  What the algorithm relies on a provider for: \<open>plan_protection\<close> proposes actions for the
  candidates it was handed.
\<close>

definition honest_planners :: "registry \<Rightarrow> bool" where
  "honest_planners reg \<longleftrightarrow>
     (\<forall>p \<in> set reg. \<forall>cs mode xs. rp_plan_protection p cs mode = Inr xs \<longrightarrow>
        (\<forall>x \<in> set xs. pa_candidate x \<in> set cs))"

lemma push_planned_actions:
  "x \<in> set (push_planned mode xs actions) \<Longrightarrow>
     x \<in> set actions \<or> (\<exists>y \<in> set xs. pa_candidate x = pa_candidate y)"
  by (induction mode xs actions rule: push_planned.induct) (fastforce simp: optional_def split: if_splits)+

lemma plan_providers_actions:
  assumes honest: "honest_planners (cr_registry r)"
  shows "plan_providers r chosen mode ids actions a = (actions', a') \<Longrightarrow> x \<in> set actions' \<Longrightarrow>
     x \<in> set actions \<or> pa_candidate x \<in> set chosen"
proof (induction ids arbitrary: actions a)
  case Nil
  then show ?case by simp
next
  case (Cons i ids)
  let ?cs = "filter (\<lambda>c. ca_provider c = i) chosen"
  note step = Cons.prems(1)[unfolded plan_providers.simps Let_def]
  show ?case
  proof (cases "registry_get (cr_registry r) i")
    case None
    then show ?thesis using Cons.IH step Cons.prems(2) by simp
  next
    case (Some p)
    then have p: "p \<in> set (cr_registry r)" by (auto simp: registry_get_def find_Some_iff)
    show ?thesis
    proof (cases "rp_plan_protection p ?cs mode")
      case (Inl err)
      then show ?thesis using Cons.IH step Cons.prems(2) Some by simp
    next
      case (Inr xs)
      then have "plan_providers r chosen mode ids (push_planned mode xs actions) a = (actions', a')"
        using step Some by simp
      from Cons.IH[OF this Cons.prems(2)] push_planned_actions[of x mode xs actions]
      show ?thesis using honest p Inr unfolding honest_planners_def by fastforce
    qed
  qed
qed

text \<open>An action that answers a mutation of this domain and objective under the request's policy.\<close>

definition answers :: "CoverageRequest \<Rightarrow> EffectDomain \<Rightarrow> RecoveryObjective \<Rightarrow> ProtectionAction \<Rightarrow> bool" where
  "answers r d objective x \<longleftrightarrow>
     ca_domain (pa_candidate x) = d \<and> satisfies (pa_candidate x) objective \<and>
     creates_assets (po_mode (cr_policy r))"

lemma considered_set: "set (considered cs objective boundaries) = set cs"
  "mset (considered cs objective boundaries) = mset cs"
  by (simp_all add: considered_def ranked_def Let_def)

text \<open>Every candidate discovered for a mutation is chosen or rejected with a reason.\<close>

lemma cover_choice:
  assumes "cover r a m p boundaries = (found, a')"
  obtains cs words exclusions a1 chosen a5 where
    "discover_candidates r m p a = ((cs, words, exclusions), a1)"
    "plan_actions r chosen (po_mode (cr_policy r)) a5 = (cv_actions found, a')"
    "mset cs + rejects a = mset chosen + rejects a5" "an_actions a5 = an_actions a"
    "set chosen \<subseteq> {c \<in> set cs. satisfies c (mu_objective m)}"
    "creates_assets (po_mode (cr_policy r)) \<or> chosen = []"
proof -
  let ?mode = "po_mode (cr_policy r)" and ?ok = "\<lambda>c. satisfies c (mu_objective m)"
  obtain cs0 note0 ex0 a1 where s1: "discover_candidates r m p a = ((cs0, note0, ex0), a1)"
    by (metis prod.exhaust)
  define copy where "copy = (case p of None \<Rightarrow> False | Some d \<Rightarrow> reach_of d = CopyOnly)"
  obtain cs1 a2 where s2: "(if copy then copies_only r cs0 a1 else (cs0, a1)) = (cs1, a2)"
    by (metis prod.exhaust)
  obtain fit a3 where s3: "within_limits r cs1 (length (an_actions a2)) a2 = (fit, a3)"
    by (metis prod.exhaust)
  define ordered where "ordered = considered fit (mu_objective m) boundaries"
  define a4 where "a4 = fold (reject_unusable (mu_objective m)) (filter (\<lambda>c. \<not> ?ok c) ordered) a3"
  obtain chosen a5 where s5: "(if creates_assets ?mode then choose_candidates a4 (filter ?ok ordered) ?mode
      else ([], fold reject_off (filter ?ok ordered) a4)) = (chosen, a5)"
    by (metis prod.exhaust)
  obtain acts a6 where s6: "plan_actions r chosen ?mode a5 = (acts, a6)" by (metis prod.exhaust)
  have out: "cv_actions found = acts" "a' = a6"
    using assms s1 s2 s3 s5 s6
    by (auto simp: cover_def Let_def copy_def ordered_def a4_def split: if_splits)
  have a1: "rejects a1 = rejects a" "an_actions a1 = an_actions a"
    using discover_candidates_accounts[OF s1] by auto
  have cs1: "mset cs0 + rejects a1 = mset cs1 + rejects a2" "set cs1 \<subseteq> set cs0" "an_actions a2 = an_actions a1"
    using s2 copies_only_accounts[of r cs0 a1 cs1 a2] by (auto split: if_splits)
  have fit: "mset cs1 + rejects a2 = mset fit + rejects a3" "set fit \<subseteq> set cs1" "an_actions a3 = an_actions a2"
    using within_limits_accounts[OF s3] by auto
  have a4: "rejects a4 = mset (filter (\<lambda>c. \<not> ?ok c) ordered) + rejects a3" "an_actions a4 = an_actions a3"
    by (simp_all only: a4_def fold_reject_accounts)
  have chosen: "mset (filter ?ok ordered) + rejects a4 = mset chosen + rejects a5"
      "set chosen \<subseteq> set (filter ?ok ordered)" "an_actions a5 = an_actions a4"
      "creates_assets ?mode \<or> chosen = []"
    using s5 choose_loop_accounts[of ?mode "[]" "filter ?ok ordered" a4 chosen a5]
    by (auto simp: choose_candidates_def fold_reject_accounts split: if_splits)
  have "mset (filter ?ok ordered) + mset (filter (\<lambda>c. \<not> ?ok c) ordered) = mset fit"
    by (simp add: ordered_def considered_set)
  then have "mset fit + rejects a3 = mset chosen + rejects a5"
    using a4(1) chosen(1) by (metis union_assoc)
  then have "mset cs0 + rejects a = mset chosen + rejects a5" using cs1(1) fit(1) a1(1) by simp
  moreover have "set chosen \<subseteq> {c \<in> set cs0. ?ok c}"
    using chosen(2) fit(2) cs1(2) by (auto simp: ordered_def considered_set)
  moreover have "an_actions a5 = an_actions a" using chosen(3) a4(2) fit(3) cs1(3) a1(2) by simp
  ultimately show thesis using that[OF s1] s6 out chosen(4) by simp
qed

lemma cover_actions:
  assumes honest: "honest_planners (cr_registry r)"
    and eq: "cover r a m p boundaries = (found, a')"
  shows "an_actions a' = an_actions a"
    and "x \<in> set (cv_actions found) \<Longrightarrow> answers r (mu_domain m) (mu_objective m) x"
proof -
  obtain cs words exclusions a1 chosen a5 where
    found: "discover_candidates r m p a = ((cs, words, exclusions), a1)"
      "plan_actions r chosen (po_mode (cr_policy r)) a5 = (cv_actions found, a')"
      "mset cs + rejects a = mset chosen + rejects a5" "an_actions a5 = an_actions a" "set chosen \<subseteq> {c \<in> set cs. satisfies c (mu_objective m)}"
      "creates_assets (po_mode (cr_policy r)) \<or> chosen = []"
    by (rule cover_choice[OF eq])
  show "an_actions a' = an_actions a"
    using plan_providers_accounts found(2,4) by (simp add: plan_actions_def)
  assume "x \<in> set (cv_actions found)"
  then have "pa_candidate x \<in> set chosen"
    using plan_providers_actions[OF honest] found(2) by (fastforce simp: plan_actions_def)
  then show "answers r (mu_domain m) (mu_objective m) x"
    using found(5,6) discover_candidates_accounts[OF found(1)] by (auto simp: answers_def)
qed

text \<open>A drafted row claims no more than its first planned action delivers.\<close>

definition draft_ok :: "CoverageRequest \<Rightarrow> ProtectionAction list \<Rightarrow> RowDraft \<Rightarrow> bool" where
  "draft_ok r planned d \<longleftrightarrow>
     set (rd_actions d) \<subseteq> set planned \<and>
     (\<forall>x \<in> set (rd_actions d). answers r (rd_domain d) (rd_objective d) x) \<and>
     (if rd_actions d = [] then \<not> is_state_image (rd_protection d)
      else rd_protection d = candidate_protection (pa_candidate (hd (rd_actions d))))"

lemma draft_of_simps [simp]:
  "rd_domain (draft_of m cv i) = mu_domain m" "rd_objective (draft_of m cv i) = mu_objective m"
  "rd_actions (draft_of m cv i) = cv_actions cv" "rd_irrelevant (draft_of m cv i) = i"
  "rd_protection (draft_of m cv i) = fst (protection_of (cv_actions cv) m (cv_unknown_semantics cv) (cv_note cv))"
  by (simp_all add: draft_of_def Let_def split: prod.splits)

lemma draft_of_ok:
  assumes "set (cv_actions cv) \<subseteq> set planned"
    "\<forall>x \<in> set (cv_actions cv). answers r (mu_domain m) (mu_objective m) x"
  shows "draft_ok r planned (draft_of m cv i)"
  using assms
  by (auto simp: draft_ok_def protection_of_def is_state_image_def split: list.splits option.splits)

lemma draft_ok_mono: "draft_ok r planned d \<Longrightarrow> set planned \<subseteq> set planned' \<Longrightarrow> draft_ok r planned' d"
  by (auto simp: draft_ok_def)

lemma draft_ok_exclusions [simp]: "draft_ok r planned (d\<lparr>rd_exclusions := e\<rparr>) = draft_ok r planned d"
  by (simp add: draft_ok_def)

lemma boundary_child_simps [simp]:
  "mu_domain (boundary_child m b) = mu_domain m" "mu_kind (boundary_child m b) = mu_kind m"
  "mu_objective (boundary_child m b) = mu_objective m"
  by (simp_all add: boundary_child_def mutation_new_def mu_objective_def)

definition tree_ok :: "CoverageRequest \<Rightarrow> MutationDomain \<Rightarrow> RowDraft list \<Rightarrow> tree_state \<Rightarrow> bool" where
  "tree_ok r m drafts st \<longleftrightarrow>
     (\<forall>d \<in> set (drafts @ ts_parent st # ts_children st). draft_ok r (an_actions (ts_analysis st)) d) \<and>
     set (ts_tree st) \<subseteq> set (an_actions (ts_analysis st)) \<and>
     (\<forall>x \<in> set (ts_tree st). answers r (mu_domain m) (mu_objective m) x)"

lemma boundary_row_ok:
  assumes honest: "honest_planners (cr_registry r)" and ok: "tree_ok r m drafts st"
  shows "tree_ok r m drafts (boundary_row r m beneath i b st)"
proof -
  let ?child = "boundary_child m b"
  obtain found a where eq: "cover r (ts_analysis st) ?child (Some (mb_domain b)) beneath = (found, a)"
    by (metis prod.exhaust)
  note c = cover_actions[OF honest eq]
  show ?thesis
  proof (cases "pd_refusal (mb_domain b) \<in> {Some ReasonVolatile, Some ReasonPseudo}")
    case True
    then show ?thesis using ok by (auto simp: tree_ok_def boundary_row_def Let_def)
  next
    case False
    show ?thesis
    proof (cases "is_protectable (mb_domain b) \<and> filter (\<lambda>x. captures (pa_candidate x) b) (ts_tree st) \<noteq> []")
      case True
      with False ok show ?thesis
        by (auto simp: tree_ok_def boundary_row_def Let_def intro!: draft_of_ok)
    next
      case False': False
      have "tree_ok r m drafts
        \<lparr>ts_analysis = a\<lparr>an_actions := an_actions a @ cv_actions found\<rparr>, ts_tree = ts_tree st @ cv_actions found,
         ts_parent = ts_parent st, ts_children = ts_children st @ [draft_of ?child (found\<lparr>cv_exclusions := e, cv_note := n\<rparr>) i]\<rparr>" for e n
        using ok c by (auto simp: tree_ok_def intro: draft_ok_mono intro!: draft_of_ok)
      then show ?thesis using False False' eq by (auto simp: boundary_row_def Let_def)
    qed
  qed
qed

lemma boundary_fold_ok:
  assumes "honest_planners (cr_registry r)"
  shows "tree_ok r m drafts st \<Longrightarrow> tree_ok r m drafts (fold (\<lambda>b. boundary_row r m (f b) i b) bs st)"
  by (induction bs arbitrary: st) (simp_all add: boundary_row_ok[OF assms])

lemma analyse_mutation_ok:
  assumes honest: "honest_planners (cr_registry r)"
    and ok: "\<forall>d \<in> set drafts. draft_ok r (an_actions a) d"
    and eq: "analyse_mutation r m (a, drafts) = (a', drafts')"
  shows "\<forall>d \<in> set drafts'. draft_ok r (an_actions a') d"
proof -
  let ?i = "is_irrelevant (cr_policy r) (mu_domain m)"
  let ?bs = "if objective_is_required (mu_objective m) then boundaries_reached_by r m else []"
  let ?nothing = "cover_nothing [Format ''no recovery is required'' [Say (asc (EffectDomain_as_str (mu_domain m)))]]"
  obtain found a1 where found: "(if objective_is_required (mu_objective m)
      then cover r a m (persistence_for r (mu_subject m)) ?bs else (?nothing, a)) = (found, a1)"
    by (metis prod.exhaust)
  have acts: "an_actions a1 = an_actions a"
    "\<forall>x \<in> set (cv_actions found). answers r (mu_domain m) (mu_objective m) x"
    using found cover_actions[OF honest] by (auto simp: cover_nothing_def split: if_splits)
  define found' where "found' = (if ?bs \<noteq> [] then found\<lparr>cv_note := cv_note found @
      [Format ''the mutation reaches file systems mounted beneath''
        [Say (show_nat (length ?bs)), Say (mu_subject m)]]\<rparr> else found)"
  have f': "cv_actions found' = cv_actions found" by (simp add: found'_def)
  define st where "st = \<lparr>ts_analysis = a1\<lparr>an_actions := an_actions a1 @ cv_actions found'\<rparr>, ts_tree = cv_actions found',
      ts_parent = draft_of m found' ?i, ts_children = []\<rparr>"
  have "tree_ok r m drafts st"
    using ok acts by (auto simp: tree_ok_def st_def f' intro: draft_ok_mono intro!: draft_of_ok)
  then have "tree_ok r m drafts (fold (\<lambda>b. boundary_row r m (beneath_of ?bs b) ?i b) ?bs st)"
    by (rule boundary_fold_ok[OF honest])
  moreover have "(a', drafts') = (let st' = fold (\<lambda>b. boundary_row r m (beneath_of ?bs b) ?i b) ?bs st
      in (ts_analysis st', drafts @ [ts_parent st'] @ ts_children st'))"
    using eq found by (auto simp: analyse_mutation_def Let_def st_def found'_def split: prod.splits if_splits)
  ultimately show ?thesis by (auto simp: tree_ok_def Let_def)
qed

lemma analyse_fold_ok:
  assumes "honest_planners (cr_registry r)"
  shows "\<forall>d \<in> set drafts. draft_ok r (an_actions a) d \<Longrightarrow>
    fold (analyse_mutation r) ms (a, drafts) = (a', drafts') \<Longrightarrow>
    \<forall>d \<in> set drafts'. draft_ok r (an_actions a') d"
proof (induction ms arbitrary: a drafts)
  case (Cons m ms)
  obtain b ds where b: "analyse_mutation r m (a, drafts) = (b, ds)" by (metis prod.exhaust)
  show ?case using Cons.IH[of ds b] analyse_mutation_ok[OF assms Cons.prems(1) b] Cons.prems(2) b by simp
qed simp

lemma lower_row_simps [simp]:
  "rd_domain (lower_row d n x) = rd_domain x" "rd_objective (lower_row d n x) = rd_objective x"
  "rd_protection (lower_row d n x) = rd_protection x" "rd_actions (lower_row d n x) = rd_actions x"
  "rd_irrelevant (lower_row d n x) = rd_irrelevant x"
  by (simp_all add: lower_row_def Let_def)

text \<open>What lowering the consistency of a row leaves alone.\<close>

definition kept :: "RowDraft \<Rightarrow> EffectDomain \<times> RecoveryObjective \<times> DomainProtection \<times> ProtectionAction list \<times> bool" where
  "kept d = (rd_domain d, rd_objective d, rd_protection d, rd_actions d, rd_irrelevant d)"

lemma compose_sequential_kept: "map kept (compose_sequential drafts) = map kept drafts"
proof -
  have "map kept (fold compose_domain ds drafts) = map kept drafts" for ds
    by (induction ds arbitrary: drafts) (simp_all add: compose_domain_def Let_def kept_def comp_def)
  then show ?thesis by (simp add: compose_sequential_def)
qed

lemma fold_row [simp]:
  "row_domain (fold (\<lambda>x w. by_asset w (f x)) xs row) = row_domain row"
  "row_objective (fold (\<lambda>x w. by_asset w (f x)) xs row) = row_objective row"
  "row_protection (fold (\<lambda>x w. by_asset w (f x)) xs row) = row_protection row"
  "row_policy_irrelevant (fold (\<lambda>x w. by_asset w (f x)) xs row) = row_policy_irrelevant row"
  "row_assets (fold (\<lambda>x w. by_asset w (f x)) xs row) = row_assets row @ map f xs"
  "row_transaction_scope (fold (\<lambda>x w. by_asset w (f x)) xs row) = row_transaction_scope row"
  by (induction xs arbitrary: row) (simp_all add: by_asset_def)

lemma fold_excluding [simp]:
  "row_domain (fold (\<lambda>e w. row_excluding w e) es row) = row_domain row"
  "row_objective (fold (\<lambda>e w. row_excluding w e) es row) = row_objective row"
  "row_protection (fold (\<lambda>e w. row_excluding w e) es row) = row_protection row"
  "row_policy_irrelevant (fold (\<lambda>e w. row_excluding w e) es row) = row_policy_irrelevant row"
  "row_assets (fold (\<lambda>e w. row_excluding w e) es row) = row_assets row"
  "row_transaction_scope (fold (\<lambda>e w. row_excluding w e) es row) = row_transaction_scope row"
  "row_consistency (fold (\<lambda>e w. row_excluding w e) es row) = row_consistency row"
  by (induction es arbitrary: row) (simp_all add: row_excluding_def)

lemma fold_outside [simp]:
  "row_domain (fold (\<lambda>x w. outside_of w x) es row) = row_domain row"
  "row_objective (fold (\<lambda>x w. outside_of w x) es row) = row_objective row"
  "row_protection (fold (\<lambda>x w. outside_of w x) es row) = row_protection row"
  "row_policy_irrelevant (fold (\<lambda>x w. outside_of w x) es row) = row_policy_irrelevant row"
  "row_assets (fold (\<lambda>x w. outside_of w x) es row) = row_assets row"
  "row_transaction_scope (fold (\<lambda>x w. outside_of w x) es row) = row_transaction_scope row"
  "row_consistency (fold (\<lambda>x w. outside_of w x) es row) = row_consistency row"
  by (induction es arbitrary: row) (simp_all add: outside_of_def)

lemma by_asset_simps [simp]:
  "row_domain (by_asset row x) = row_domain row" "row_objective (by_asset row x) = row_objective row"
  "row_protection (by_asset row x) = row_protection row" "row_assets (by_asset row x) = row_assets row @ [x]"
  "row_policy_irrelevant (by_asset row x) = row_policy_irrelevant row"
  "row_transaction_scope (by_asset row x) = row_transaction_scope row"
  by (simp_all add: by_asset_def)

lemma build_simps [simp]:
  "row_domain (build d) = rd_domain d" "row_objective (build d) = rd_objective d"
  "row_protection (build d) = rd_protection d" "row_policy_irrelevant (build d) = rd_irrelevant d"
  "row_assets (build d) = map (\<lambda>x. as_id (pa_proposed_asset x)) (rd_actions d)"
  "row_transaction_scope (build d) =
     (if rd_protection d = Transactional \<and> rd_actions d \<noteq> [] then Some (pa_provider (hd (rd_actions d))) else None)"
  by (cases "rd_actions d"; cases "rd_consistency d"; simp add: build_def Let_def coverage_new_def
      declared_irrelevant_def at_consistency_def within_transaction_def)+

lemma satisfied_rows_rest_on_planned_actions:
  assumes "honest_planners (cr_registry r)"
    and "row \<in> set (sum_rows (an_summary (analyse r)))"
    and "row_objective row = PreserveExact" and "is_satisfied row"
  shows "creates_assets (po_mode (cr_policy r)) \<and>
    (\<exists>x \<in> set (an_actions (analyse r)).
       as_id (pa_proposed_asset x) \<in> set (row_assets row) \<and>
       ca_domain (pa_candidate x) = row_domain row \<and>
       candidate_protection (pa_candidate x) = row_protection row \<and>
       ca_consistency (pa_candidate x) \<noteq> ConsistencyUnknown \<and>
       ca_objective (pa_candidate x) = PreserveExact)"
proof -
  obtain a drafts where fold: "fold (analyse_mutation r) (cr_mutations r) (analysis_default, []) = (a, drafts)"
    by (metis prod.exhaust)
  have res: "an_summary (analyse r) = summary_of (map build (compose_sequential drafts))"
    "an_actions (analyse r) = an_actions a"
    by (simp_all add: analyse_def fold)
  obtain d where d: "d \<in> set (compose_sequential drafts)" "row = build d"
    using assms(2) res by (auto simp: summary_of_def)
  then have "kept d \<in> set (map kept (compose_sequential drafts))" by simp
  then have "kept d \<in> set (map kept drafts)" by (simp only: compose_sequential_kept)
  then obtain d' where d': "d' \<in> set drafts" "kept d = kept d'" by auto
  have "draft_ok r (an_actions a) d'" using analyse_fold_ok[OF assms(1) _ fold] d'(1) by simp
  then have ok: "draft_ok r (an_actions a) d" using d'(2) by (simp add: kept_def draft_ok_def)
  have image: "is_state_image (rd_protection d)" using assms(3,4) d(2) by (simp add: is_satisfied_def)
  with ok have some: "rd_actions d \<noteq> []" by (auto simp: draft_ok_def)
  let ?x = "hd (rd_actions d)"
  have x: "?x \<in> set (rd_actions d)" using some by simp
  with ok some have fx: "?x \<in> set (an_actions a)" "answers r (rd_domain d) (rd_objective d) ?x"
     "rd_protection d = candidate_protection (pa_candidate ?x)"
    by (auto simp: draft_ok_def)
  have row: "row_domain row = rd_domain d" "row_protection row = rd_protection d" "rd_objective d = PreserveExact"
     "as_id (pa_proposed_asset ?x) \<in> set (row_assets row)"
    using x assms(3) d(2) by simp_all
  have "ca_consistency (pa_candidate ?x) \<noteq> ConsistencyUnknown"
    using image fx(3) by (auto simp: candidate_protection_def is_state_image_def)
  moreover have "ca_objective (pa_candidate ?x) = PreserveExact" "creates_assets (po_mode (cr_policy r))"
     "ca_domain (pa_candidate ?x) = row_domain row"
    using fx(2) row by (simp_all add: answers_def satisfies_def)
  ultimately show ?thesis using fx(1,3) row res(2) by metis
qed

lemma boundary_fold_parent:
  "kept (ts_parent (fold (\<lambda>b. boundary_row r m (f b) i b) bs st)) = kept (ts_parent st)"
proof -
  have "kept (ts_parent (boundary_row r m beneath i b st)) = kept (ts_parent st)" for b beneath and st :: tree_state
    by (simp add: boundary_row_def Let_def kept_def split: prod.splits)
  then show ?thesis by (induction bs arbitrary: st) simp_all
qed

lemma analyse_mutation_row:
  "\<exists>d new. snd (analyse_mutation r m (a, drafts)) = drafts @ d # new \<and> rd_domain d = mu_domain m \<and>
     rd_objective d = mu_objective m \<and> rd_irrelevant d = is_irrelevant (cr_policy r) (mu_domain m)"
proof -
  have parent: "rd_domain (ts_parent (fold (\<lambda>b. boundary_row r m (f b) i b) bs st)) = rd_domain (ts_parent st)"
     "rd_objective (ts_parent (fold (\<lambda>b. boundary_row r m (f b) i b) bs st)) = rd_objective (ts_parent st)"
     "rd_irrelevant (ts_parent (fold (\<lambda>b. boundary_row r m (f b) i b) bs st)) = rd_irrelevant (ts_parent st)"
    for f i bs st
    using boundary_fold_parent[of r m f i bs st] by (simp_all add: kept_def)
  show ?thesis by (simp add: analyse_mutation_def Let_def parent split: prod.splits)
qed

lemma analyse_fold_rows:
  "\<exists>new. snd (fold (analyse_mutation r) ms acc) = snd acc @ new \<and>
     (\<forall>m \<in> set ms. \<exists>d \<in> set new. rd_domain d = mu_domain m \<and> rd_objective d = mu_objective m \<and>
        rd_irrelevant d = is_irrelevant (cr_policy r) (mu_domain m))"
proof (induction ms arbitrary: acc)
  case (Cons m ms)
  obtain a drafts where acc: "acc = (a, drafts)" by (cases acc)
  from analyse_mutation_row[of r m a drafts] Cons.IH[of "analyse_mutation r m acc"]
  show ?case by (fastforce simp: acc)
qed simp

lemma mutation_row:
  assumes "m \<in> set (cr_mutations r)"
  obtains row where "row \<in> set (sum_rows (an_summary (analyse r)))" "row_domain row = mu_domain m"
    "row_objective row = mu_objective m" "row_policy_irrelevant row = is_irrelevant (cr_policy r) (mu_domain m)"
proof -
  obtain a drafts where fold: "fold (analyse_mutation r) (cr_mutations r) (analysis_default, []) = (a, drafts)"
    by (metis prod.exhaust)
  obtain d where d: "d \<in> set drafts" "rd_domain d = mu_domain m" "rd_objective d = mu_objective m"
      "rd_irrelevant d = is_irrelevant (cr_policy r) (mu_domain m)"
    using analyse_fold_rows[of r "cr_mutations r" "(analysis_default, [])"] assms fold by auto
  from d(1) have "kept d \<in> set (map kept drafts)" by simp
  then have "kept d \<in> set (map kept (compose_sequential drafts))" by (simp only: compose_sequential_kept)
  then obtain e where e: "e \<in> set (compose_sequential drafts)" "kept d = kept e" by auto
  have "sum_rows (an_summary (analyse r)) = map build (compose_sequential drafts)"
    by (simp add: analyse_def fold summary_of_def)
  then show thesis using that[of "build e"] e d by (auto simp: kept_def)
qed

lemma covered_level_satisfies:
  "covers_persistent_state (level s) \<Longrightarrow> row \<in> set (required_rows s) \<Longrightarrow> is_satisfied row"
  by (auto simp: level_cases covers_persistent_state_def Let_def list_all_iff split: if_splits)


text \<open>The first choice is the least in the order of preference among the usable candidates.\<close>

lemma chosen_is_preferred:
  assumes "choose_candidates a (filter (\<lambda>c. satisfies c objective) (considered fitting objective [])) mode = (chosen, a')"
    and "c \<in> set fitting" "satisfies c objective"
  shows "chosen \<noteq> [] \<and> hd chosen \<in> set fitting \<and> satisfies (hd chosen) objective \<and>
    preference_key (hd chosen) objective \<le> preference_key c objective"
proof -
  define key where "key = (\<lambda>c. (preference_key c objective, ca_provider c, sc_domain (ca_scope c)))"
  let ?usable = "filter (\<lambda>c. satisfies c objective) (ranked fitting objective)"
  have usable: "set ?usable = {c \<in> set fitting. satisfies c objective}" by (auto simp: ranked_def)
  have order: "sorted (map key ?usable)" by (simp add: ranked_def key_def sorted_filter)
  obtain w ws where w: "?usable = w # ws" using assms(2,3) usable by (cases ?usable) auto
  have "choose_loop mode [w] ws a = (chosen, a')" using assms(1) w by (simp add: choose_candidates_def considered_def)
  from choose_loop_accounts[OF this] have hd: "chosen \<noteq> []" "hd chosen = w" by auto
  have c: "c \<in> set (w # ws)" using assms(2,3) usable w by auto
  have "key w \<le> key c" using order c unfolding w by auto
  then have "fst (key w) \<le> fst (key c)" by (auto simp only: less_eq_prod_def less_le)
  then have "preference_key w objective \<le> preference_key c objective" by (simp only: key_def fst_conv)
  moreover have "w \<in> set fitting" "satisfies w objective" using usable w by auto
  ultimately show ?thesis using hd by simp
qed


definition sample_candidate :: RecoveryCandidate where
  "sample_candidate =
     (candidate_new (asc ''zfs'') (scope_new (asc ''dataset'') (asc ''tank'') []) FilesystemPersistent
        PreserveExact [])\<lparr>ca_consistency := FilesystemConsistent\<rparr>"

definition sample_planned :: "RecoveryCandidate \<Rightarrow> ProtectionAction" where
  "sample_planned c = protection_action_new (asc ''zfs'') [] c
     (asset_proposed (\<lambda>_ _ _ _. asc ''a1'') (asc ''zfs'') ZfsSnapshot [] (ca_scope c) 0)"

definition snapshot_provider :: RecoveryProvider where
  "snapshot_provider = (sample_provider ''zfs'' (Available []))
     \<lparr>rp_discover := (\<lambda>_ _. Inr [sample_candidate]), rp_plan_protection := (\<lambda>cs _. Inr (map sample_planned cs))\<rparr>"

definition sample_mutation :: MutationDomain where
  "sample_mutation = mutation_new FilesystemPersistent Modify (asc ''/etc/x'') (Say [])"

definition sample_request :: "FreeSpaceFloor \<Rightarrow> CoverageRequest" where
  "sample_request floor =
     \<lparr>cr_registry = [snapshot_provider], cr_policy = policy_of floor Prefer, cr_mutations = [sample_mutation],
      cr_persistence = [sample_domain], cr_mounts = None\<rparr>"

lemma sample_honest: "honest_planners (cr_registry (sample_request floor))"
  by (simp add: sample_request_def honest_planners_def snapshot_provider_def sample_planned_def
      protection_action_new_def)

lemma snapshot_provider_simps [simp]:
  "rp_id snapshot_provider = asc ''zfs''" "rp_plan_protection snapshot_provider cs mode = Inr (map sample_planned cs)"
  "pa_candidate (sample_planned c) = c"
  by (simp_all add: snapshot_provider_def sample_provider_def sample_planned_def protection_action_new_def)

lemma sample_mutation_simps [simp]:
  "mu_objective sample_mutation = PreserveExact" "mu_domain sample_mutation = FilesystemPersistent"
  "mu_subject sample_mutation = asc ''/etc/x''" "mu_compensation sample_mutation = None"
  "exclusion_for sample_mutation = None"
  by (simp_all add: sample_mutation_def mutation_new_def mu_objective_def objective_for_def exclusion_for_def)

lemma sample_candidate_simps [simp]:
  "ca_domain sample_candidate = FilesystemPersistent" "satisfies sample_candidate PreserveExact"
  "candidate_protection sample_candidate = DomainProtection.Protected" "ca_provider sample_candidate = asc ''zfs''"
  "ca_cost sample_candidate = cost_unknown" "scope_width sample_candidate = 0"
  by (simp_all add: sample_candidate_def candidate_new_def satisfies_def candidate_protection_def
      restores_prior_state_def is_state_image_def scope_width_def scope_new_def)

lemma sample_discovered:
  "discover_at [snapshot_provider] (asc ''/etc/x'') (Some sample_domain) PreserveExact =
     \<lparr>do_candidates = [sample_candidate], do_refusals = [], do_resolutions = []\<rparr>"
  by (simp add: discover_at_def sample_domain_protectable available_def snapshot_provider_def sample_provider_def
      is_available_def discover_one_def starts_with_def ask_def unavailable_def List.map_filter_simps unavailable_refusal_def)

lemma sample_reach: "reach_of sample_domain \<noteq> CopyOnly" "pd_path sample_domain = asc ''/etc/x''"
  by (simp_all add: sample_domain_def reach_of_def resolved_domain_def mount_new_def of_mount_type_def strip_prefix_def)

lemma sample_limits: "breaches (limits_with_floor floor) cost_unknown 0 0 = []"
  by (simp add: breaches_def limits_with_floor_def cost_unknown_def)

lemma sample_covered:
  "\<exists>a' words. cover (sample_request floor) analysis_default sample_mutation (Some sample_domain) [] =
     (\<lparr>cv_actions = [sample_planned sample_candidate], cv_note = words, cv_unknown_semantics = False, cv_exclusions = []\<rparr>, a') \<and>
     an_actions a' = []"
  by (simp add: cover_def sample_request_def discover_candidates_def sample_domain_protectable sample_discovered[simplified]
    sample_reach policy_of_def sample_limits considered_def ranked_def creates_assets_def choose_candidates_def
    plan_actions_def registry_get_def analysis_default_def note_available_def Let_def)


text \<open>
  \<open>protection_lost\<close> compares the domains of two matrices: a row that lost its protection is
  not reported while another row of the same domain keeps its own.
\<close>

lemma loss_hidden_by_a_sibling:
  "protection_lost
     (summary_of [sample_row FilesystemPersistent PreserveExact DomainProtection.Protected,
        sample_row FilesystemPersistent PreserveExact DomainProtection.Protected])
     (summary_of [sample_row FilesystemPersistent PreserveExact DomainProtection.Protected,
        coverage_new FilesystemPersistent PreserveExact Unprotected []]) = []"
  by (simp add: protection_lost_def summary_of_def sample_row_def coverage_new_def is_satisfied_def is_state_image_def)

lemma protection_lost_iff:
  "d \<in> set (protection_lost was fresh) \<longleftrightarrow>
     (\<exists>row \<in> set (sum_rows was). row_domain row = d \<and> is_satisfied row \<and> row_protection row \<noteq> ProtectionUnknown) \<and>
     (\<forall>now \<in> set (sum_rows fresh). row_domain now = d \<longrightarrow> \<not> is_satisfied now)"
  by (auto simp: protection_lost_def list_ex_iff)

end
