(* ===== verification/Plan_Seal.thy ===== *)
theory Plan_Seal
  imports Recovery_Asset Plan_Resume Execution_Strategy
begin

text \<open>
  The change plan and its seal: \<open>crates/ono-change-core/src/plan.rs\<close> with the risk
  assessment of \<open>risk.rs\<close>, the contracts of \<open>verification.rs\<close>, the targets and preconditions of
  \<open>target.rs\<close>, the executions of \<open>action.rs\<close>, and the canonical text of \<open>digest.rs\<close> that the seal
  hashes.  The hash itself is an argument.
\<close>

section \<open>Values and targets\<close>

text \<open>
  The values a digest renders.  A value whose rendering belongs to a library (a float, an
  address, an instant, and the variants of the fallback) carries the tag and that rendering.
\<close>

datatype Value =
    VNull | VBool bool | VInt int | VString ustr | VPath ustr | VPort nat | VList "Value list"
  | VRendered ustr ustr

definition UNIT :: ustr where "UNIT = [31]"

definition SECTION :: ustr where "SECTION = [30]"

fun value_text :: "Value \<Rightarrow> ustr" where
  "value_text VNull = asc ''null''"
| "value_text (VBool b) = asc ''bool:'' @ (if b then asc ''true'' else asc ''false'')"
| "value_text (VInt n) = asc ''int:'' @ show_int n"
| "value_text (VString s) = asc ''string:'' @ s"
| "value_text (VPath s) = asc ''path:'' @ s"
| "value_text (VPort n) = asc ''port:'' @ show_nat n"
| "value_text (VList vs) = asc ''list:['' @ concat (map (\<lambda>v. value_text v @ asc '','') vs) @ asc '']''"
| "value_text (VRendered tag rendering) = tag @ asc '':'' @ rendering"

datatype PreconditionKind =
    Existence | ContentDigest | Generation | Version | PersistenceDomainHeld | ProviderAvailable
  | Capability | FieldHeld

fun PreconditionKind_as_str :: "PreconditionKind \<Rightarrow> string" where
  "PreconditionKind_as_str Existence = ''existence''"
| "PreconditionKind_as_str ContentDigest = ''content-digest''"
| "PreconditionKind_as_str Generation = ''generation''"
| "PreconditionKind_as_str Version = ''version''"
| "PreconditionKind_as_str PersistenceDomainHeld = ''persistence-domain''"
| "PreconditionKind_as_str ProviderAvailable = ''provider-available''"
| "PreconditionKind_as_str Capability = ''capability''"
| "PreconditionKind_as_str FieldHeld = ''field''"

record FrozenTarget =
  ft_schema :: ustr
  ft_identity :: ustr
  ft_label :: ustr
  ft_spatial_id :: "ustr option"
  ft_host :: "ustr option"
  ft_selector :: "ustr option"
  ft_persistence_domain :: "ustr option"

definition or_empty :: "ustr option \<Rightarrow> ustr" where
  "or_empty x = (case x of None \<Rightarrow> [] | Some s \<Rightarrow> s)"

definition flag :: "bool \<Rightarrow> ustr" where
  "flag b = (if b then asc ''1'' else asc ''0'')"

definition target_digest :: "FrozenTarget \<Rightarrow> ustr" where
  "target_digest t = ft_schema t @ UNIT @ ft_identity t @ UNIT @ or_empty (ft_host t)"

record Precondition =
  pc_kind :: PreconditionKind
  pc_subject :: ustr
  pc_field :: ustr
  pc_expected :: Value
  pc_material :: bool
  pc_detail :: ustr

definition precondition_new :: "PreconditionKind \<Rightarrow> ustr \<Rightarrow> ustr \<Rightarrow> Value \<Rightarrow> Precondition" where
  "precondition_new kind subject field expected =
     \<lparr>pc_kind = kind, pc_subject = subject, pc_field = field, pc_expected = expected,
      pc_material = True, pc_detail = []\<rparr>"

definition tolerant :: "Precondition \<Rightarrow> Precondition" where
  "tolerant p = p\<lparr>pc_material := False\<rparr>"

definition check_precondition :: "(Value \<Rightarrow> Value \<Rightarrow> bool) \<Rightarrow> Precondition \<Rightarrow> Value option \<Rightarrow> DriftVerdict" where
  "check_precondition same_data p observed =
     (case observed of
        None \<Rightarrow> DriftUnknown
      | Some v \<Rightarrow>
          if same_data v (pc_expected p) then Unchanged
          else if pc_material p then Material else Tolerated)"

definition precondition_digest :: "Precondition \<Rightarrow> ustr" where
  "precondition_digest p =
     asc (PreconditionKind_as_str (pc_kind p)) @ UNIT @ pc_subject p @ UNIT @ pc_field p @ UNIT @
     value_text (pc_expected p) @ UNIT @ flag (pc_material p)"

section \<open>Actions\<close>

datatype Execution =
    ProviderAction ustr ustr "(ustr \<times> Value) list"
  | Program ustr "ustr list"
  | RecoveryOperation ustr ustr "(ustr \<times> Value) list"
  | Opaque ustr "ustr option" "ustr list"

fun execution_actor :: "Execution \<Rightarrow> ustr" where
  "execution_actor (ProviderAction provider _ _) = provider"
| "execution_actor (RecoveryOperation provider _ _) = provider"
| "execution_actor (Program program _) = program"
| "execution_actor (Opaque _ program _) = (case program of None \<Rightarrow> asc ''opaque'' | Some p \<Rightarrow> p)"

fun is_opaque :: "Execution \<Rightarrow> bool" where
  "is_opaque (Opaque _ _ _) \<longleftrightarrow> True"
| "is_opaque _ \<longleftrightarrow> False"

definition join_unit :: "ustr list \<Rightarrow> ustr" where
  "join_unit xs = join_with 31 xs"

definition arguments_digest :: "(ustr \<times> Value) list \<Rightarrow> ustr" where
  "arguments_digest xs = concat (map (\<lambda>(name, v). UNIT @ name @ asc ''='' @ value_text v) xs)"

fun execution_digest :: "Execution \<Rightarrow> ustr" where
  "execution_digest (ProviderAction provider operation arguments) =
     provider @ UNIT @ operation @ arguments_digest arguments"
| "execution_digest (RecoveryOperation provider operation arguments) =
     provider @ UNIT @ operation @ arguments_digest arguments"
| "execution_digest (Program program argv) =
     asc ''program'' @ UNIT @ program @ UNIT @ join_unit argv"
| "execution_digest (Opaque description program argv) =
     asc ''opaque'' @ UNIT @ description @ UNIT @ or_empty program @ UNIT @ join_unit argv"

fun ActionRole_as_str :: "ActionRole \<Rightarrow> string" where
  "ActionRole_as_str Prepare = ''prepare''"
| "ActionRole_as_str Mutate = ''mutate''"
| "ActionRole_as_str Verify = ''verify''"
| "ActionRole_as_str Recover = ''recover''"
| "ActionRole_as_str Cleanup = ''cleanup''"

fun Idempotency_as_str :: "Idempotency \<Rightarrow> string" where
  "Idempotency_as_str Idempotent = ''idempotent''"
| "Idempotency_as_str RetrySafeWithToken = ''retry-safe-with-token''"
| "Idempotency_as_str NonIdempotent = ''non-idempotent''"
| "Idempotency_as_str IdemUnknown = ''unknown''"

fun EffectConfidence_as_str :: "EffectConfidence \<Rightarrow> string" where
  "EffectConfidence_as_str Guaranteed = ''guaranteed''"
| "EffectConfidence_as_str Expected = ''expected''"
| "EffectConfidence_as_str Possible = ''possible''"
| "EffectConfidence_as_str ConfidenceUnknown = ''unknown''"

definition effect_digest :: "Value ProposedEffect \<Rightarrow> ustr" where
  "effect_digest e =
     eff_id e @ UNIT @ asc (EffectDomain_as_str (eff_domain e)) @ UNIT @
     asc (EffectKind_as_str (eff_kind e)) @ UNIT @
     asc (EffectConfidence_as_str (eff_confidence e)) @ UNIT @
     or_empty (eff_object e) @ UNIT @ flag (eff_irreversible e)"

type_synonym plan_action = "(Execution, Precondition, Value ProposedEffect) PlanAction"

definition action_new ::
    "(ustr \<Rightarrow> nat \<Rightarrow> ustr \<Rightarrow> ustr) \<Rightarrow> ustr \<Rightarrow> nat \<Rightarrow> ActionRole \<Rightarrow> ustr \<Rightarrow> Execution \<Rightarrow> plan_action" where
  "action_new aid plan n r wording ex =
     \<lparr>act_id = aid plan n wording, ordinal = n, role = r, summary = wording, target = None, execution = ex,
      depends_on = [], preconditions = [], idempotency = IdemUnknown, effects = [],
      recovery_semantics = None, requires_privilege = False, act_status = ActPending\<rparr>"

definition action_digest :: "plan_action \<Rightarrow> ustr" where
  "action_digest a =
     act_id a @ UNIT @ asc (ActionRole_as_str (role a)) @ UNIT @ or_empty (target a) @ UNIT @
     execution_digest (execution a) @ UNIT @ asc (Idempotency_as_str (idempotency a)) @ UNIT @
     flag (requires_privilege a) @
     concat (map (\<lambda>d. UNIT @ d) (depends_on a)) @
     concat (map (\<lambda>p. UNIT @ precondition_digest p) (preconditions a)) @
     concat (map (\<lambda>e. UNIT @ effect_digest e) (effects a))"

section \<open>Risk\<close>

datatype RiskClass = RiskLow | RiskModerate | RiskHigh | RiskCritical | RiskUnknown

fun RiskClass_as_str :: "RiskClass \<Rightarrow> string" where
  "RiskClass_as_str RiskLow = ''low''"
| "RiskClass_as_str RiskModerate = ''moderate''"
| "RiskClass_as_str RiskHigh = ''high''"
| "RiskClass_as_str RiskCritical = ''critical''"
| "RiskClass_as_str RiskUnknown = ''unknown''"

fun risk_rank :: "RiskClass \<Rightarrow> nat" where
  "risk_rank RiskLow = 0"
| "risk_rank RiskModerate = 1"
| "risk_rank RiskUnknown = 2"
| "risk_rank RiskHigh = 3"
| "risk_rank RiskCritical = 4"

definition max_of :: "RiskClass \<Rightarrow> RiskClass \<Rightarrow> RiskClass" where
  "max_of a b = (if risk_rank a \<ge> risk_rank b then a else b)"

definition needs_acknowledgement :: "RiskClass \<Rightarrow> bool" where
  "needs_acknowledgement c \<longleftrightarrow> c \<in> {RiskHigh, RiskCritical}"

datatype RiskDimension =
    DimScope | DimPrivilege | DimDowntime | DimExternalSideEffects | DimIrreversibility
  | DimUnknownImpact | DimBulkCount | DimRemoteFanout | DimRecoveryComplexity | DimRebootRequirement

fun RiskDimension_as_str :: "RiskDimension \<Rightarrow> string" where
  "RiskDimension_as_str DimScope = ''scope''"
| "RiskDimension_as_str DimPrivilege = ''privilege''"
| "RiskDimension_as_str DimDowntime = ''downtime''"
| "RiskDimension_as_str DimExternalSideEffects = ''external-side-effects''"
| "RiskDimension_as_str DimIrreversibility = ''irreversibility''"
| "RiskDimension_as_str DimUnknownImpact = ''unknown-impact''"
| "RiskDimension_as_str DimBulkCount = ''bulk-count''"
| "RiskDimension_as_str DimRemoteFanout = ''remote-fanout''"
| "RiskDimension_as_str DimRecoveryComplexity = ''recovery-complexity''"
| "RiskDimension_as_str DimRebootRequirement = ''reboot-requirement''"

record RiskFinding =
  rk_dimension :: RiskDimension
  rk_class :: RiskClass
  rk_rule :: ustr
  rk_reason :: ustr

record RiskAssessment =
  ra_findings :: "RiskFinding list"
  ra_accepted_irreversible :: bool
  ra_accepted_risk :: bool

definition risk_empty :: RiskAssessment where
  "risk_empty = \<lparr>ra_findings = [], ra_accepted_irreversible = False, ra_accepted_risk = False\<rparr>"

definition risk_of :: "RiskFinding list \<Rightarrow> RiskAssessment" where
  "risk_of fs = \<lparr>ra_findings = fs, ra_accepted_irreversible = False, ra_accepted_risk = False\<rparr>"

definition risk_accepted :: "RiskAssessment \<Rightarrow> RiskAssessment" where
  "risk_accepted a = a\<lparr>ra_accepted_risk := True\<rparr>"

definition irreversible_accepted :: "RiskAssessment \<Rightarrow> RiskAssessment" where
  "irreversible_accepted a = a\<lparr>ra_accepted_irreversible := True\<rparr>"

definition classify_risk :: "RiskAssessment \<Rightarrow> RiskClass" where
  "classify_risk a = foldl max_of RiskLow (map rk_class (ra_findings a))"

definition leading :: "RiskAssessment \<Rightarrow> RiskFinding list" where
  "leading a = filter (\<lambda>f. rk_class f = classify_risk a) (ra_findings a)"

definition risk_has_irreversible :: "RiskAssessment \<Rightarrow> bool" where
  "risk_has_irreversible a \<longleftrightarrow> list_ex (\<lambda>f. rk_dimension f = DimIrreversibility) (ra_findings a)"

datatype RequiredAcknowledgement = AckRisk RiskClass | AckIrreversible

definition outstanding_acknowledgements :: "RiskAssessment \<Rightarrow> RequiredAcknowledgement list" where
  "outstanding_acknowledgements a =
     (if needs_acknowledgement (classify_risk a) \<and> \<not> ra_accepted_risk a
      then [AckRisk (classify_risk a)] else []) @
     (if risk_has_irreversible a \<and> \<not> ra_accepted_irreversible a then [AckIrreversible] else [])"

definition risk_digest :: "RiskAssessment \<Rightarrow> ustr" where
  "risk_digest a =
     asc (RiskClass_as_str (classify_risk a)) @ UNIT @ flag (ra_accepted_risk a) @ UNIT @
     flag (ra_accepted_irreversible a) @ UNIT @
     concat (map (\<lambda>f. rk_rule f @ asc '':'' @ asc (RiskDimension_as_str (rk_dimension f)) @ asc '':'' @
       asc (RiskClass_as_str (rk_class f)) @ UNIT) (ra_findings a))"

section \<open>Contracts\<close>

datatype EquivalenceDomain = EqPersistentState | EqRuntimeState | EqExternalSideEffect

record VerificationContract =
  vc_id :: ustr
  vc_class :: VerificationClass
  vc_subject :: ustr
  vc_expression :: ustr
  vc_expected :: "Value option"
  vc_timeout :: nat
  vc_timeout_is_failure :: bool
  vc_equivalence :: "EquivalenceDomain option"

definition DEFAULT_TIMEOUT :: nat where
  "DEFAULT_TIMEOUT = 30 * 1000000000"

definition contract_new ::
    "(ustr \<Rightarrow> ustr \<Rightarrow> ustr \<Rightarrow> ustr) \<Rightarrow> ustr \<Rightarrow> VerificationClass \<Rightarrow> ustr \<Rightarrow> ustr \<Rightarrow> VerificationContract" where
  "contract_new cid plan cl subject expression =
     \<lparr>vc_id = cid plan subject expression, vc_class = cl, vc_subject = subject,
      vc_expression = expression, vc_expected = None, vc_timeout = DEFAULT_TIMEOUT,
      vc_timeout_is_failure = (cl = Required), vc_equivalence = None\<rparr>"

definition timeout_status :: "VerificationContract \<Rightarrow> VerificationStatus" where
  "timeout_status c = (if vc_timeout_is_failure c then CheckFailed else CheckUnknown)"

fun VerificationClass_as_str :: "VerificationClass \<Rightarrow> string" where
  "VerificationClass_as_str Required = ''required''"
| "VerificationClass_as_str Advisory = ''advisory''"
| "VerificationClass_as_str Observational = ''observational''"

definition contract_digest :: "VerificationContract \<Rightarrow> ustr" where
  "contract_digest c =
     vc_id c @ UNIT @ asc (VerificationClass_as_str (vc_class c)) @ UNIT @ vc_subject c @ UNIT @
     vc_expression c @ UNIT @ show_nat (vc_timeout c div 1000000)"

definition verification_digest :: "VerificationContract list \<Rightarrow> ustr" where
  "verification_digest cs = concat (map (\<lambda>c. contract_digest c @ UNIT) cs)"

section \<open>The plan\<close>

datatype PlanKind = ChangeKind | RecoveryKind

fun PlanKind_as_str :: "PlanKind \<Rightarrow> string" where
  "PlanKind_as_str ChangeKind = ''change''"
| "PlanKind_as_str RecoveryKind = ''recovery''"

fun ProtectionMode_as_str :: "ProtectionMode \<Rightarrow> string" where
  "ProtectionMode_as_str Off = ''off''"
| "ProtectionMode_as_str Prefer = ''prefer''"
| "ProtectionMode_as_str Require = ''require''"
| "ProtectionMode_as_str Maximize = ''maximize''"

record ProviderBinding =
  pb_id :: ustr
  pb_version :: ustr

record 'i Plan = "(Execution, Precondition, Value ProposedEffect) ChangePlan" +
  cp_revision :: nat
  cp_kind :: PlanKind
  cp_intent_text :: ustr
  cp_intent_source :: ustr
  cp_session :: ustr
  cp_created_at :: int
  cp_sealed_at :: "int option"
  cp_expires_at :: "int option"
  cp_targets :: "FrozenTarget list"
  cp_impact :: 'i
  cp_protection :: ProtectionSummary
  cp_protection_mode :: ProtectionMode
  cp_risk :: RiskAssessment
  cp_strategy :: Strategy
  cp_verification :: "VerificationContract list"
  cp_providers :: "ProviderBinding list"
  cp_digest :: "ustr option"
  cp_supersedes :: "nat option"

datatype plan_error =
    PlanNotEditable ustr PlanState
  | ActionGraphCyclic ustr "ustr list"
  | VerificationMissing ustr
  | InvalidTransition ustr PlanState LifecycleEvent
  | OrderPanicked

definition draft_plan ::
    "(ustr \<Rightarrow> ustr \<Rightarrow> ustr \<Rightarrow> ustr) \<Rightarrow> 'i \<Rightarrow> ustr \<Rightarrow> ustr \<Rightarrow> ustr \<Rightarrow> int \<Rightarrow> ustr \<Rightarrow> 'i Plan" where
  "draft_plan pid no_impact wording source session created_at created_text =
     \<lparr>plan_id = pid session created_text wording, plan_state = Draft, plan_actions = [],
      cp_revision = 1, cp_kind = ChangeKind, cp_intent_text = wording, cp_intent_source = source,
      cp_session = session, cp_created_at = created_at, cp_sealed_at = None, cp_expires_at = None,
      cp_targets = [], cp_impact = no_impact, cp_protection = summary_empty,
      cp_protection_mode = Prefer, cp_risk = risk_empty, cp_strategy = Sequential,
      cp_verification = [], cp_providers = [], cp_digest = None, cp_supersedes = None\<rparr>"

definition as_recovery :: "'i Plan \<Rightarrow> 'i Plan" where
  "as_recovery p = p\<lparr>cp_kind := RecoveryKind\<rparr>"

definition resolve_plan :: "'i Plan \<Rightarrow> FrozenTarget list \<Rightarrow> plan_error + 'i Plan" where
  "resolve_plan p targets =
     (if is_sealed (plan_state p) then Inl (PlanNotEditable (plan_id p) (plan_state p))
      else Inr (p\<lparr>cp_targets := targets,
        plan_state := (case after (plan_state p) EvResolve of None \<Rightarrow> Resolved | Some s \<Rightarrow> s)\<rparr>))"

definition with_action :: "'i Plan \<Rightarrow> plan_action \<Rightarrow> plan_error + 'i Plan" where
  "with_action p a =
     (if is_sealed (plan_state p) then Inl (PlanNotEditable (plan_id p) (plan_state p))
      else Inr (p\<lparr>plan_actions := plan_actions p @ [a]\<rparr>))"

definition binding :: "'i Plan \<Rightarrow> ProviderBinding \<Rightarrow> 'i Plan" where
  "binding p b = (if b \<in> set (cp_providers p) then p else p\<lparr>cp_providers := cp_providers p @ [b]\<rparr>)"

definition plan_mutates :: "'i Plan \<Rightarrow> bool" where
  "plan_mutates p \<longleftrightarrow> list_ex (\<lambda>a. mutates_target (role a)) (plan_actions p)"

definition has_opaque_action :: "'i Plan \<Rightarrow> bool" where
  "has_opaque_action p \<longleftrightarrow> list_ex (\<lambda>a. is_opaque (execution a)) (plan_actions p)"

definition plan_needs_privilege :: "'i Plan \<Rightarrow> bool" where
  "plan_needs_privilege p \<longleftrightarrow> list_ex requires_privilege (plan_actions p)"

definition is_expired_at :: "'i Plan \<Rightarrow> int \<Rightarrow> bool" where
  "is_expired_at p now \<longleftrightarrow>
     plan_state p = Expired \<or> (case cp_expires_at p of None \<Rightarrow> False | Some at \<Rightarrow> now \<ge> at)"

section \<open>The canonical text\<close>

definition digest_section :: "string \<Rightarrow> ustr \<Rightarrow> ustr" where
  "digest_section name body = asc name @ UNIT @ body @ SECTION"

definition targets_text :: "FrozenTarget list \<Rightarrow> ustr" where
  "targets_text ts = concat (map (\<lambda>t. target_digest t @ UNIT) ts)"

definition actions_text :: "plan_action list \<Rightarrow> ustr" where
  "actions_text xs = concat (map (\<lambda>a. action_digest a @ UNIT) xs)"

definition providers_text :: "ProviderBinding list \<Rightarrow> ustr" where
  "providers_text bs = concat (map (\<lambda>b. pb_id b @ asc ''@'' @ pb_version b @ UNIT) bs)"

definition canonical_text :: "'i Plan \<Rightarrow> ustr" where
  "canonical_text p =
     digest_section ''revision'' (show_nat (cp_revision p)) @
     digest_section ''kind'' (asc (PlanKind_as_str (cp_kind p))) @
     digest_section ''intent'' (cp_intent_text p) @
     digest_section ''targets'' (targets_text (cp_targets p)) @
     digest_section ''actions'' (actions_text (plan_actions p)) @
     digest_section ''providers'' (providers_text (cp_providers p)) @
     digest_section ''protection-mode'' (asc (ProtectionMode_as_str (cp_protection_mode p))) @
     digest_section ''protection'' (summary_digest_text (cp_protection p)) @
     digest_section ''strategy'' (digest_text (cp_strategy p)) @
     digest_section ''verification'' (verification_digest (cp_verification p)) @
     digest_section ''risk'' (risk_digest (cp_risk p))"

definition compute_digest :: "(ustr \<Rightarrow> ustr) \<Rightarrow> 'i Plan \<Rightarrow> ustr" where
  "compute_digest sha p = sha (canonical_text p)"

definition digest_holds :: "(ustr \<Rightarrow> ustr) \<Rightarrow> 'i Plan \<Rightarrow> bool" where
  "digest_holds sha p \<longleftrightarrow> (case cp_digest p of None \<Rightarrow> False | Some d \<Rightarrow> d = compute_digest sha p)"

definition seal :: "(ustr \<Rightarrow> ustr) \<Rightarrow> 'i Plan \<Rightarrow> int \<Rightarrow> plan_error + 'i Plan" where
  "seal sha p at =
     (if is_sealed (plan_state p) then Inl (PlanNotEditable (plan_id p) (plan_state p))
      else case topological_order (plan_actions p) of
        None \<Rightarrow> Inl OrderPanicked
      | Some (Inl cycle) \<Rightarrow> Inl (ActionGraphCyclic (plan_id p) cycle)
      | Some (Inr _) \<Rightarrow>
          if plan_mutates p \<and> cp_verification p = [] then Inl (VerificationMissing (plan_id p))
          else Inr (let q = p\<lparr>cp_sealed_at := Some at, plan_state := Sealed\<rparr>
                    in q\<lparr>cp_digest := Some (compute_digest sha q)\<rparr>))"

definition revise :: "'i Plan \<Rightarrow> 'i Plan" where
  "revise p =
     p\<lparr>cp_revision := min (cp_revision p + 1) (2 ^ 32 - 1), cp_supersedes := Some (cp_revision p),
       plan_state := Draft, cp_sealed_at := None, cp_digest := None,
       plan_actions := map (\<lambda>a. a\<lparr>act_status := ActPending\<rparr>) (plan_actions p)\<rparr>"

definition advance :: "'i Plan \<Rightarrow> LifecycleEvent \<Rightarrow> plan_error + 'i Plan" where
  "advance p e =
     (case after (plan_state p) e of
        None \<Rightarrow> Inl (InvalidTransition (plan_id p) (plan_state p) e)
      | Some s \<Rightarrow> Inr (p\<lparr>plan_state := s\<rparr>))"

definition settle_action :: "(ustr \<times> ActionStatus) list \<Rightarrow> plan_action \<Rightarrow> plan_action" where
  "settle_action statuses a =
     (case List.find (\<lambda>(i, _). i = act_id a) statuses of
        None \<Rightarrow> a | Some (_, s) \<Rightarrow> a\<lparr>act_status := s\<rparr>)"

definition settled :: "'i Plan \<Rightarrow> (ustr \<times> ActionStatus) list \<Rightarrow> 'i Plan" where
  "settled p statuses = p\<lparr>plan_actions := map (settle_action statuses) (plan_actions p)\<rparr>"


section \<open>Reading the canonical text back\<close>

lemmas seal_text_defs = digest_section_def UNIT_def SECTION_def

text \<open>The sections of a plan, named, and their text.\<close>

definition sections_text :: "(string \<times> ustr) list \<Rightarrow> ustr" where
  "sections_text xs = concat (map (\<lambda>(n, b). digest_section n b) xs)"

definition canonical_sections :: "'i Plan \<Rightarrow> (string \<times> ustr) list" where
  "canonical_sections p =
     [(''revision'', show_nat (cp_revision p)), (''kind'', asc (PlanKind_as_str (cp_kind p))),
      (''intent'', cp_intent_text p), (''targets'', targets_text (cp_targets p)),
      (''actions'', actions_text (plan_actions p)), (''providers'', providers_text (cp_providers p)),
      (''protection-mode'', asc (ProtectionMode_as_str (cp_protection_mode p))),
      (''protection'', summary_digest_text (cp_protection p)),
      (''strategy'', digest_text (cp_strategy p)),
      (''verification'', verification_digest (cp_verification p)),
      (''risk'', risk_digest (cp_risk p))]"

lemma canonical_text_sections: "canonical_text p = sections_text (canonical_sections p)"
  by (simp add: canonical_text_def sections_text_def canonical_sections_def)

lemma section_split:
  assumes "digest_section n b @ r = digest_section n b' @ r'" "30 \<notin> set b" "30 \<notin> set b'"
  shows "b = b' \<and> r = r'"
proof -
  have "b @ 30 # r = b' @ 30 # r'" using assms(1) by (simp add: seal_text_defs)
  then have "split_once 30 (b @ 30 # r) = split_once 30 (b' @ 30 # r')" by simp
  then show ?thesis using assms(2,3) by (simp add: split_once_append)
qed

lemma sections_text_inj:
  assumes "length xs = length ys" "map fst xs = map fst ys"
    and "\<forall>x \<in> set xs \<union> set ys. 30 \<notin> set (snd x)" "sections_text xs = sections_text ys"
  shows "xs = ys"
  using assms
proof (induction xs ys rule: list_induct2)
  case (Cons x xs y ys)
  then have "digest_section (fst x) (snd x) @ sections_text xs = digest_section (fst x) (snd y) @ sections_text ys"
    by (simp add: sections_text_def case_prod_beta)
  from section_split[OF this] Cons show ?case by (simp add: prod_eq_iff)
qed simp

text \<open>A list of units, each closed by the separator.\<close>

definition units_text :: "ustr list \<Rightarrow> ustr" where
  "units_text us = concat (map (\<lambda>u. u @ UNIT) us)"

lemma units_text_simps [simp]:
  "units_text [] = []" "units_text (u # us) = u @ 31 # units_text us"
  "units_text (us @ vs) = units_text us @ units_text vs"
  by (simp_all add: units_text_def UNIT_def)

lemma units_text_inj:
  assumes "\<forall>u \<in> set us \<union> set vs. 31 \<notin> set u" "units_text us = units_text vs"
  shows "us = vs"
  using assms
proof (induction us arbitrary: vs)
  case Nil
  then show ?case by (cases vs) auto
next
  case (Cons u us)
  then obtain v vs' where vs: "vs = v # vs'" by (cases vs) auto
  have "split_once 31 (u @ 31 # units_text us) = split_once 31 (v @ 31 # units_text vs')"
    using Cons.prems vs by simp
  then have "u = v" "units_text us = units_text vs'"
    using Cons.prems(1) vs by (auto simp: split_once_append)
  then show ?case using Cons.IH[of vs'] Cons.prems(1) vs by simp
qed

lemma concat_chunks_inj:
  assumes "concat (map f xs) = concat (map f ys)" "\<And>x. length (f x) = n" "n > 0"
  shows "map f xs = map f ys"
proof -
  have len: "length (concat (map f zs)) = n * length zs" for zs
    by (induction zs) (auto simp: assms(2))
  have same: "length xs = length ys" using len[of xs] len[of ys] assms(1,3) by simp
  then show ?thesis using assms(1)
    by (induction xs ys rule: list_induct2) (simp_all add: append_eq_append_conv assms(2))
qed

definition target_units :: "FrozenTarget \<Rightarrow> ustr list" where
  "target_units t = [ft_schema t, ft_identity t, or_empty (ft_host t)]"

lemma targets_text_units: "targets_text ts = units_text (concat (map target_units ts))"
  by (induction ts) (simp_all add: targets_text_def target_digest_def target_units_def UNIT_def)

definition contract_units :: "VerificationContract \<Rightarrow> ustr list" where
  "contract_units c = [vc_id c, asc (VerificationClass_as_str (vc_class c)), vc_subject c,
     vc_expression c, show_nat (vc_timeout c div 1000000)]"

lemma verification_digest_units:
  "verification_digest cs = units_text (concat (map contract_units cs))"
  by (induction cs) (simp_all add: verification_digest_def contract_digest_def contract_units_def UNIT_def)

definition finding_unit :: "RiskFinding \<Rightarrow> ustr" where
  "finding_unit f = rk_rule f @ asc '':'' @ asc (RiskDimension_as_str (rk_dimension f)) @ asc '':'' @
     asc (RiskClass_as_str (rk_class f))"

definition risk_units :: "RiskAssessment \<Rightarrow> ustr list" where
  "risk_units a = [asc (RiskClass_as_str (classify_risk a)), flag (ra_accepted_risk a),
     flag (ra_accepted_irreversible a)] @ map finding_unit (ra_findings a)"

lemma risk_digest_units: "risk_digest a = units_text (risk_units a)"
proof -
  have "concat (map (\<lambda>f. rk_rule f @ asc '':'' @ asc (RiskDimension_as_str (rk_dimension f)) @ asc '':'' @
       asc (RiskClass_as_str (rk_class f)) @ UNIT) fs) = units_text (map finding_unit fs)" for fs
    by (induction fs) (simp_all add: finding_unit_def UNIT_def)
  then show ?thesis by (simp add: risk_digest_def risk_units_def UNIT_def)
qed

lemma digest_text_inj: "digest_text s = digest_text t \<longleftrightarrow> s = t"
proof
  assume eq: "digest_text s = digest_text t"
  have free: "58 \<notin> set (show_nat n)" for n by (rule show_nat_free) (simp add: is_ascii_digit_def)
  have "split_once 58 (digest_text s) = split_once 58 (digest_text t)" by (simp add: eq)
  then show "s = t" using eq
    by (cases s; cases t) (auto simp: show_nat_inj free split_once_append
        dest: arg_cong[where f = "split_once 58"])
qed simp

lemma as_str_inj:
  "PlanKind_as_str k = PlanKind_as_str k' \<longleftrightarrow> k = k'"
  "ProtectionMode_as_str m = ProtectionMode_as_str m' \<longleftrightarrow> m = m'"
  "VerificationClass_as_str c = VerificationClass_as_str c' \<longleftrightarrow> c = c'"
  "RiskClass_as_str r = RiskClass_as_str r' \<longleftrightarrow> r = r'"
  subgoal by (cases k; cases k'; simp)
  subgoal by (cases m; cases m'; simp)
  subgoal by (cases c; cases c'; simp)
  subgoal by (cases r; cases r'; simp)
  done

lemma asc_inj [simp]: "asc s = asc t \<longleftrightarrow> s = t"
proof
  have "inj (of_char :: char \<Rightarrow> nat)" by (rule inj_of_char)
  then show "asc s = asc t \<Longrightarrow> s = t" by (simp add: asc_def inj_map_eq_map)
qed simp

lemma flag_inj [simp]: "flag b = flag c \<longleftrightarrow> b = c"
  by (simp add: flag_def)


section \<open>What a seal binds\<close>

definition separator_free :: "'i Plan \<Rightarrow> bool" where
  "separator_free p \<longleftrightarrow>
     list_all (\<lambda>u. 30 \<notin> set u \<and> 31 \<notin> set u)
       (concat (map target_units (cp_targets p)) @ concat (map contract_units (cp_verification p)) @
        risk_units (cp_risk p)) \<and>
     30 \<notin> set (cp_intent_text p @ actions_text (plan_actions p) @ providers_text (cp_providers p) @
       summary_digest_text (cp_protection p))"

lemma units_text_free: "\<forall>u \<in> set us. 30 \<notin> set u \<Longrightarrow> 30 \<notin> set (units_text us)"
  by (induction us) auto

lemma digest_bodies_free:
  assumes "separator_free p"
  shows "30 \<notin> set (targets_text (cp_targets p))" "30 \<notin> set (verification_digest (cp_verification p))"
    "30 \<notin> set (risk_digest (cp_risk p))"
  unfolding targets_text_units verification_digest_units risk_digest_units
  using assms by (intro units_text_free; simp add: separator_free_def list_all_iff)+

lemma canonical_name_free:
  "30 \<notin> set (show_nat n)" "30 \<notin> set (asc (PlanKind_as_str k))"
  "30 \<notin> set (asc (ProtectionMode_as_str m))" "30 \<notin> set (digest_text s)"
proof -
  show free: "30 \<notin> set (show_nat n)" for n by (rule show_nat_free) (simp add: is_ascii_digit_def)
  show "30 \<notin> set (asc (PlanKind_as_str k))" by (cases k) simp_all
  show "30 \<notin> set (asc (ProtectionMode_as_str m))" by (cases m) simp_all
  show "30 \<notin> set (digest_text s)" by (cases s) (simp_all add: free)
qed

lemma canonical_section_free:
  "separator_free p \<Longrightarrow> x \<in> set (canonical_sections p) \<Longrightarrow> 30 \<notin> set (snd x)"
  using digest_bodies_free[of p]
  by (auto simp: canonical_sections_def canonical_name_free separator_free_def)

lemma canonical_bodies:
  assumes "separator_free p" "separator_free q" "canonical_text p = canonical_text q"
  shows "canonical_sections p = canonical_sections q"
proof (rule sections_text_inj)
  show "\<forall>x \<in> set (canonical_sections p) \<union> set (canonical_sections q). 30 \<notin> set (snd x)"
    using canonical_section_free[OF assms(1)] canonical_section_free[OF assms(2)] by blast
  show "sections_text (canonical_sections p) = sections_text (canonical_sections q)"
    using assms(3) by (simp add: canonical_text_sections)
qed (simp_all add: canonical_sections_def)

lemma sections_bind:
  assumes "separator_free p" "separator_free q" "canonical_sections p = canonical_sections q"
  shows "cp_revision p = cp_revision q" "cp_kind p = cp_kind q"
    "cp_intent_text p = cp_intent_text q" "cp_protection_mode p = cp_protection_mode q"
    "cp_strategy p = cp_strategy q"
    "map target_units (cp_targets p) = map target_units (cp_targets q)"
    "map contract_units (cp_verification p) = map contract_units (cp_verification q)"
    "risk_units (cp_risk p) = risk_units (cp_risk q)"
proof -
  show "cp_revision p = cp_revision q" "cp_kind p = cp_kind q"
    "cp_intent_text p = cp_intent_text q" "cp_protection_mode p = cp_protection_mode q"
    "cp_strategy p = cp_strategy q"
    using assms(3) by (simp_all add: canonical_sections_def show_nat_inj as_str_inj digest_text_inj)
  have free: "\<forall>u \<in> set (concat (map target_units (cp_targets p))) \<union> set (concat (map target_units (cp_targets q))). 31 \<notin> set u"
    "\<forall>u \<in> set (concat (map contract_units (cp_verification p))) \<union> set (concat (map contract_units (cp_verification q))). 31 \<notin> set u"
    "\<forall>u \<in> set (risk_units (cp_risk p)) \<union> set (risk_units (cp_risk q)). 31 \<notin> set u"
    using assms(1,2) unfolding separator_free_def list_all_iff by auto
  have eqs: "units_text (concat (map target_units (cp_targets p))) = units_text (concat (map target_units (cp_targets q)))"
    "units_text (concat (map contract_units (cp_verification p))) = units_text (concat (map contract_units (cp_verification q)))"
    "units_text (risk_units (cp_risk p)) = units_text (risk_units (cp_risk q))"
    using assms(3) by (simp_all add: canonical_sections_def flip: targets_text_units
        verification_digest_units risk_digest_units)
  show "map target_units (cp_targets p) = map target_units (cp_targets q)"
    by (rule concat_chunks_inj[OF units_text_inj[OF free(1) eqs(1)], where n = 3]) (simp_all add: target_units_def)
  show "map contract_units (cp_verification p) = map contract_units (cp_verification q)"
    by (rule concat_chunks_inj[OF units_text_inj[OF free(2) eqs(2)], where n = 5]) (simp_all add: contract_units_def)
  show "risk_units (cp_risk p) = risk_units (cp_risk q)"
    by (rule units_text_inj[OF free(3) eqs(3)])
qed


lemma risk_units_bind:
  assumes "risk_units a = risk_units b"
  shows "classify_risk a = classify_risk b" "ra_accepted_risk a = ra_accepted_risk b"
    "ra_accepted_irreversible a = ra_accepted_irreversible b"
  using assms by (simp_all add: risk_units_def as_str_inj)

section \<open>Lifecycle of a sealed plan\<close>

text \<open>What happens to a plan once it is sealed: lifecycle events and the outcomes of its actions.\<close>

inductive sealed_run :: "'i Plan \<Rightarrow> 'i Plan \<Rightarrow> bool" for q where
  start: "sealed_run q q"
| event: "sealed_run q r \<Longrightarrow> advance r e = Inr r' \<Longrightarrow> sealed_run q r'"
| outcome: "sealed_run q r \<Longrightarrow> sealed_run q (settled r statuses)"

lemma settle_action_digest [simp]: "action_digest (settle_action statuses a) = action_digest a"
  by (simp add: settle_action_def action_digest_def split: option.splits)

lemma settled_text [simp]: "canonical_text (settled p statuses) = canonical_text p"
  by (simp add: settled_def canonical_text_def actions_text_def comp_def)

lemma advance_Inr:
  "advance p e = Inr q \<longleftrightarrow> (\<exists>s. after (plan_state p) e = Some s \<and> q = p\<lparr>plan_state := s\<rparr>)"
  by (auto simp: advance_def split: option.splits)

lemma seal_Inr:
  "seal sha p at = Inr q \<longleftrightarrow>
     \<not> is_sealed (plan_state p) \<and> acyclic (dep_rel (plan_actions p)) \<and>
     \<not> (plan_mutates p \<and> cp_verification p = []) \<and>
     q = p\<lparr>cp_sealed_at := Some at, plan_state := Sealed, cp_digest := Some (compute_digest sha p)\<rparr>"
proof -
  have same: "compute_digest sha (p\<lparr>cp_sealed_at := Some at, plan_state := Sealed\<rparr>) = compute_digest sha p"
    by (simp add: compute_digest_def canonical_text_def)
  show ?thesis
    using topological_order_acyclic[of "plan_actions p"]
    by (auto simp: seal_def Let_def same split: option.splits sum.splits if_splits)
qed

lemma sealed_run_keeps:
  assumes "sealed_run q r" "is_sealed (plan_state q)"
  shows "is_sealed (plan_state r)" "canonical_text r = canonical_text q" "cp_digest r = cp_digest q"
    "plan_id r = plan_id q" "map act_id (plan_actions r) = map act_id (plan_actions q)"
  using assms
proof induction
  case (event r e r')
  { case 1 then show ?case using event by (auto simp: advance_Inr dest: after_is_sealed) }
  { case 2 then show ?case using event by (auto simp: advance_Inr canonical_text_def) }
  { case 3 then show ?case using event by (auto simp: advance_Inr) }
  { case 4 then show ?case using event by (auto simp: advance_Inr) }
  { case 5 then show ?case using event by (auto simp: advance_Inr) }
next
  case (outcome r statuses)
  have ids: "act_id (settle_action statuses a) = act_id a" for a
    by (simp add: settle_action_def split: option.splits)
  { case 1 then show ?case using outcome by (simp add: settled_def) }
  { case 2 then show ?case using outcome by simp }
  { case 3 then show ?case using outcome by (simp add: settled_def) }
  { case 4 then show ?case using outcome by (simp add: settled_def) }
  { case 5 then show ?case using outcome by (simp add: settled_def ids comp_def) }
qed simp_all

section \<open>Properties\<close>

text \<open>
  A plan can be sealed exactly when it is still editable, its dependencies are acyclic, and it
  carries a verification contract if any of its actions mutates; sealing changes nothing but the
  state, the time and the digest, and the digest holds of the result.
\<close>

theorem seal_decided:
  "(\<exists>q. seal sha p at = Inr q) \<longleftrightarrow>
     \<not> is_sealed (plan_state p) \<and> acyclic (dep_rel (plan_actions p)) \<and>
     \<not> (plan_mutates p \<and> cp_verification p = [])"
  by (auto simp: seal_Inr)

text \<open>
  From the seal on, whatever lifecycle events follow and whatever outcomes of actions are
  recorded, the plan stays sealed, the digest of the seal still describes it, it is the same plan
  with the same actions, and every edit is refused.
\<close>

theorem sealed_plan_stays_verifiable:
  assumes "seal sha p at = Inr q" "sealed_run q r"
  shows "digest_holds sha r \<and> cp_digest r = Some (compute_digest sha p) \<and>
    map act_id (plan_actions r) = map act_id (plan_actions p) \<and>
    resolve_plan r targets = Inl (PlanNotEditable (plan_id p) (plan_state r)) \<and>
    with_action r a = Inl (PlanNotEditable (plan_id p) (plan_state r)) \<and>
    seal sha r at' = Inl (PlanNotEditable (plan_id p) (plan_state r))"
proof -
  have q: "q = p\<lparr>cp_sealed_at := Some at, plan_state := Sealed, cp_digest := Some (compute_digest sha p)\<rparr>"
    using assms(1) by (simp add: seal_Inr)
  have same: "canonical_text q = canonical_text p" by (simp add: q canonical_text_def)
  have sealed: "is_sealed (plan_state q)" by (simp add: q is_sealed_def)
  note keeps = sealed_run_keeps[OF assms(2) sealed]
  have d: "cp_digest r = Some (compute_digest sha p)" using keeps(3) by (simp add: q)
  moreover have "digest_holds sha r" using keeps(2) d same by (simp add: digest_holds_def compute_digest_def)
  moreover have "map act_id (plan_actions r) = map act_id (plan_actions p)" using keeps(5) by (simp add: q)
  moreover have "plan_id r = plan_id p" using keeps(4) by (simp add: q)
  ultimately show ?thesis
    using keeps(1) by (simp add: resolve_plan_def with_action_def seal_def)
qed

text \<open>A small plan: one target, one mutation and one required contract.\<close>

definition sample_action :: "Execution \<Rightarrow> plan_action" where
  "sample_action ex = action_new (\<lambda>_ _ _. asc ''a1'') (asc ''p1'') 0 Mutate (asc ''restart'') ex"

definition sample_plan :: "unit Plan" where
  "sample_plan = (draft_plan (\<lambda>_ _ _. asc ''p1'') () (asc ''restart'') [] (asc ''s1'') 0 [])
     \<lparr>plan_actions := [sample_action (Program (asc ''sync'') [])],
      cp_verification := [contract_new (\<lambda>_ _ _. asc ''v1'') (asc ''p1'') Required (asc ''web'') (asc ''up'')]\<rparr>"

definition sealed_sample :: "unit Plan" where
  "sealed_sample = sample_plan\<lparr>cp_sealed_at := Some 7, plan_state := Sealed,
     cp_digest := Some (compute_digest id sample_plan)\<rparr>"

lemma seal_sample: "seal id sample_plan 7 = Inr sealed_sample"
proof -
  have "dep_rel (plan_actions sample_plan) = {}"
    by (auto simp: dep_rel_def sample_plan_def sample_action_def action_new_def)
  then have "acyclic (dep_rel (plan_actions sample_plan))" by (simp add: acyclic_def)
  then show ?thesis
    by (simp add: seal_Inr sealed_sample_def) (simp add: sample_plan_def draft_plan_def is_sealed_def)
qed

theorem sealed_plan_stays_verifiable_witness:
  "\<exists>r. advance sealed_sample EvExpire = Inr r \<and> digest_holds id r \<and>
     with_action r (sample_action (Program [] [])) = Inl (PlanNotEditable (asc ''p1'') Expired)"
proof -
  define r where "r = sealed_sample\<lparr>plan_state := Expired\<rparr>"
  have adv: "advance sealed_sample EvExpire = Inr r"
    by (simp add: advance_def r_def sealed_sample_def after_def)
  have "sealed_run sealed_sample r" using sealed_run.start adv by (rule sealed_run.event)
  from sealed_plan_stays_verifiable[OF seal_sample this] adv show ?thesis
    by (auto simp: r_def sample_plan_def draft_plan_def)
qed


lemma sample_free: "separator_free sealed_sample"
  by (simp add: separator_free_def sealed_sample_def sample_plan_def draft_plan_def sample_action_def
      action_new_def contract_new_def target_units_def contract_units_def risk_units_def risk_empty_def
      classify_risk_def flag_def actions_text_def action_digest_def or_empty_def providers_text_def
      summary_digest_text_def summary_empty_def join_unit_def UNIT_def DEFAULT_TIMEOUT_def
      show_nat_free is_ascii_digit_def)


section \<open>What a seal does not bind\<close>

text \<open>
  Nothing separates the arguments of a program from the fields that follow them: an action that
  runs another command line, and declares no effect, has the same digest text, although none of
  its contributions contains a separator.
\<close>

lemma action_digest_collides:
  defines "a \<equiv> (sample_action (Program (asc ''rm'') [asc ''old'']))
     \<lparr>effects := [(effect_new (\<lambda>_ _ _. asc ''e1'') (asc ''a1'') FilesystemPersistent Modify Expected [])\<lparr>eff_object := Some (asc ''unknown'')\<rparr>]\<rparr>"
    and "b \<equiv> sample_action (Program (asc ''rm'')
      [asc ''old'', asc ''unknown'', asc ''0'', asc ''e1'', asc (EffectDomain_as_str FilesystemPersistent), asc ''modify'', asc ''expected''])"
  shows "action_digest a = action_digest b" "execution a \<noteq> execution b" "effects b = []"
  unfolding a_def b_def
  by (simp_all add: action_digest_def sample_action_def action_new_def join_unit_def UNIT_def or_empty_def
      effect_digest_def effect_new_def flag_def is_inherently_irreversible_def)

text \<open>Two lists of values that differ render alike: the elements are joined without quoting.\<close>

lemma value_text_collides:
  "value_text (VList [VString (asc ''a''), VString (asc ''b'')]) = value_text (VList [VString (asc ''a,string:b'')])"
  by simp

text \<open>The digest of a contract leaves out the value it expects and what a timeout means.\<close>

lemma contract_digest_ignores_expectation:
  "contract_digest (c\<lparr>vc_expected := x, vc_timeout_is_failure := y, vc_equivalence := z\<rparr>) = contract_digest c"
  by (simp add: contract_digest_def)

text \<open>A revision that reached the largest number keeps it, and replaces itself.\<close>

lemma revision_saturates:
  "cp_revision p = 2 ^ 32 - 1 \<Longrightarrow> cp_revision (revise p) = cp_revision p \<and> cp_supersedes (revise p) = Some (cp_revision p)"
  by (simp add: revise_def)

end
