(* ===== verification/Plan_Secret.thy ===== *)
theory Plan_Secret
  imports Plan_Seal
begin

text \<open>
  The opaque handles that stand for secrets in a stored plan
  (\<open>crates/ono-change-plan/src/secrets.rs\<close>).  The hash is an argument that answers hexadecimal
  digits; the store's write path redacts the encoded action with the same functions, so one
  redaction of an action models both.
\<close>

section \<open>Names and handles\<close>

definition SENSITIVE_ARGUMENTS :: "ustr list" where
  "SENSITIVE_ARGUMENTS = map asc
     [''password'', ''passwd'', ''passphrase'', ''secret'', ''token'', ''access_token'',
      ''refresh_token'', ''api_key'', ''apikey'', ''private_key'', ''key_material'', ''credential'',
      ''credentials'', ''authorization'', ''auth_token'', ''pre_shared_key'', ''psk'', ''session_key'']"

definition HANDLE_PREFIX :: ustr where "HANDLE_PREFIX = asc ''secret:sha256-''"

definition HANDLE_WIDTH :: nat where "HANDLE_WIDTH = 16"

definition HANDLE_TAG :: ustr where "HANDLE_TAG = asc ''ono.plan-secret''"

definition to_ascii_lowercase :: "ustr \<Rightarrow> ustr" where
  "to_ascii_lowercase s = map (\<lambda>c. if 65 \<le> c \<and> c \<le> 90 then c + 32 else c) s"

definition is_ascii_hexdigit :: "nat \<Rightarrow> bool" where
  "is_ascii_hexdigit c \<longleftrightarrow> is_ascii_digit c \<or> (65 \<le> c \<and> c \<le> 70) \<or> (97 \<le> c \<and> c \<le> 102)"

definition normalise :: "ustr \<Rightarrow> ustr" where
  "normalise name =
     map (\<lambda>c. if c = 45 then 95 else c) (to_ascii_lowercase (dropWhile (\<lambda>c. c = 45) name))"

type_synonym SecretRedaction = "ustr list"

definition redaction_new :: SecretRedaction where
  "redaction_new = SENSITIVE_ARGUMENTS"

definition declaring_nothing :: SecretRedaction where
  "declaring_nothing = []"

definition declaring :: "SecretRedaction \<Rightarrow> ustr \<Rightarrow> SecretRedaction" where
  "declaring names name = List.insert (normalise name) names"

definition is_sensitive :: "SecretRedaction \<Rightarrow> ustr \<Rightarrow> bool" where
  "is_sensitive names name \<longleftrightarrow> normalise name \<in> set names"

definition is_handle :: "ustr \<Rightarrow> bool" where
  "is_handle t \<longleftrightarrow>
     (case strip_prefix HANDLE_PREFIX t of
        None \<Rightarrow> False
      | Some body \<Rightarrow> length body = HANDLE_WIDTH \<and> list_all is_ascii_hexdigit body)"

definition handle_body :: "(ustr \<Rightarrow> ustr) \<Rightarrow> ustr \<Rightarrow> Value \<Rightarrow> ustr" where
  "handle_body sha name v =
     take HANDLE_WIDTH (sha (HANDLE_TAG @ UNIT @ normalise name @ UNIT @ value_text v))"

definition already_handle :: "Value \<Rightarrow> bool" where
  "already_handle v \<longleftrightarrow> (case v of VString t \<Rightarrow> is_handle t | _ \<Rightarrow> False)"

definition handle :: "(ustr \<Rightarrow> ustr) \<Rightarrow> ustr \<Rightarrow> Value \<Rightarrow> Value" where
  "handle sha name v =
     (if already_handle v then v else VString (HANDLE_PREFIX @ handle_body sha name v))"

definition handle_text :: "(ustr \<Rightarrow> ustr) \<Rightarrow> ustr \<Rightarrow> ustr \<Rightarrow> ustr" where
  "handle_text sha name v =
     (case handle sha name (VString v) of VString h \<Rightarrow> h | other \<Rightarrow> value_text other)"

section \<open>Redaction\<close>

definition redact_arguments ::
    "(ustr \<Rightarrow> ustr) \<Rightarrow> SecretRedaction \<Rightarrow> (ustr \<times> Value) list \<Rightarrow> (ustr \<times> Value) list" where
  "redact_arguments sha names args =
     map (\<lambda>(name, v). if is_sensitive names name then (name, handle sha name v) else (name, v)) args"

definition awaits_value :: "SecretRedaction \<Rightarrow> ustr \<Rightarrow> ustr option" where
  "awaits_value names word =
     (if take 1 word = [45] \<and> is_sensitive names word then Some word else None)"

fun redact_words :: "(ustr \<Rightarrow> ustr) \<Rightarrow> SecretRedaction \<Rightarrow> ustr option \<Rightarrow> ustr list \<Rightarrow> ustr list" where
  "redact_words sha names pending [] = []"
| "redact_words sha names (Some name) (word # rest) =
     handle_text sha name word # redact_words sha names None rest"
| "redact_words sha names None (word # rest) =
     (case split_once 61 word of
        Some (name, v) \<Rightarrow>
          if is_sensitive names name
          then (name @ [61] @ handle_text sha name v) # redact_words sha names None rest
          else word # redact_words sha names (awaits_value names word) rest
      | None \<Rightarrow> word # redact_words sha names (awaits_value names word) rest)"

definition redact_argv :: "(ustr \<Rightarrow> ustr) \<Rightarrow> SecretRedaction \<Rightarrow> ustr list \<Rightarrow> ustr list" where
  "redact_argv sha names argv = redact_words sha names None argv"

fun redact_execution :: "(ustr \<Rightarrow> ustr) \<Rightarrow> SecretRedaction \<Rightarrow> Execution \<Rightarrow> Execution" where
  "redact_execution sha names (ProviderAction provider operation args) =
     ProviderAction provider operation (redact_arguments sha names args)"
| "redact_execution sha names (RecoveryOperation provider capability args) =
     RecoveryOperation provider capability (redact_arguments sha names args)"
| "redact_execution sha names (Program program argv) = Program program (redact_argv sha names argv)"
| "redact_execution sha names (Opaque description program argv) =
     Opaque description program (redact_argv sha names argv)"

definition redact_action :: "(ustr \<Rightarrow> ustr) \<Rightarrow> SecretRedaction \<Rightarrow> plan_action \<Rightarrow> plan_action" where
  "redact_action sha names a = a\<lparr>execution := redact_execution sha names (execution a)\<rparr>"

definition redact_plan :: "(ustr \<Rightarrow> ustr) \<Rightarrow> SecretRedaction \<Rightarrow> 'i Plan \<Rightarrow> 'i Plan" where
  "redact_plan sha names p = p\<lparr>plan_actions := map (redact_action sha names) (plan_actions p)\<rparr>"

section \<open>What redaction leaves\<close>

text \<open>No declared secret is left in the clear.\<close>

definition withheld_arguments :: "SecretRedaction \<Rightarrow> (ustr \<times> Value) list \<Rightarrow> bool" where
  "withheld_arguments names args \<longleftrightarrow>
     list_all (\<lambda>(name, v). is_sensitive names name \<longrightarrow> already_handle v) args"

fun withheld_words :: "SecretRedaction \<Rightarrow> bool \<Rightarrow> ustr list \<Rightarrow> bool" where
  "withheld_words names pending [] \<longleftrightarrow> True"
| "withheld_words names True (word # rest) \<longleftrightarrow> is_handle word \<and> withheld_words names False rest"
| "withheld_words names False (word # rest) \<longleftrightarrow>
     (case split_once 61 word of
        Some (name, v) \<Rightarrow>
          if is_sensitive names name then is_handle v \<and> withheld_words names False rest
          else withheld_words names (awaits_value names word \<noteq> None) rest
      | None \<Rightarrow> withheld_words names (awaits_value names word \<noteq> None) rest)"

fun withheld :: "SecretRedaction \<Rightarrow> Execution \<Rightarrow> bool" where
  "withheld names (ProviderAction _ _ args) \<longleftrightarrow> withheld_arguments names args"
| "withheld names (RecoveryOperation _ _ args) \<longleftrightarrow> withheld_arguments names args"
| "withheld names (Program _ argv) \<longleftrightarrow> withheld_words names False argv"
| "withheld names (Opaque _ _ argv) \<longleftrightarrow> withheld_words names False argv"

text \<open>What the code relies on of the hash: at least as many hexadecimal digits as a handle shows.\<close>

definition answers_hex :: "(ustr \<Rightarrow> ustr) \<Rightarrow> bool" where
  "answers_hex sha \<longleftrightarrow> (\<forall>t. HANDLE_WIDTH \<le> length (sha t) \<and> list_all is_ascii_hexdigit (sha t))"

lemma handle_is_handle:
  assumes "answers_hex sha"
  shows "already_handle (handle sha name v)"
proof (cases "already_handle v")
  case False
  have "list_all is_ascii_hexdigit (handle_body sha name v)" "length (handle_body sha name v) = HANDLE_WIDTH"
    using assms by (auto simp: answers_hex_def handle_body_def list_all_iff dest: in_set_takeD)
  then show ?thesis using False by (simp add: handle_def already_handle_def is_handle_def)
qed (simp add: handle_def)

lemma handle_id: "already_handle v \<Longrightarrow> handle sha name v = v"
  by (simp add: handle_def)

lemma handle_string:
  "handle sha name (VString v) =
     VString (if is_handle v then v else HANDLE_PREFIX @ handle_body sha name (VString v))"
  by (simp add: handle_def already_handle_def)

lemma handle_text_is_handle: "answers_hex sha \<Longrightarrow> is_handle (handle_text sha name v)"
  using handle_is_handle[of sha name "VString v"]
  unfolding handle_text_def handle_string by (simp only: already_handle_def Value.case)

lemma handle_text_id: "is_handle v \<Longrightarrow> handle_text sha name v = v"
  by (simp add: handle_text_def handle_string)

lemma redact_words_withheld:
  assumes "answers_hex sha"
  shows "withheld_words names (pending \<noteq> None) (redact_words sha names pending argv)"
proof (induction argv arbitrary: pending)
  case (Cons word rest)
  show ?case
  proof (cases pending)
    case None
    show ?thesis
    proof (cases "split_once 61 word")
      case (Some p)
      then obtain name v where p: "split_once 61 word = Some (name, v)" by (cases p) simp
      then have free: "61 \<notin> set name" by (simp add: split_once_Some)
      have "split_once 61 (name @ 61 # handle_text sha name v) = Some (name, handle_text sha name v)"
        using free by (rule split_once_append)
      then show ?thesis using p None Cons[of None] Cons[of "awaits_value names word"] handle_text_is_handle[OF assms] by simp
    qed (use None Cons[of "awaits_value names word"] in simp)
  qed (use Cons[of None] handle_text_is_handle[OF assms] in simp)
qed simp

lemma withheld_words_id:
  "withheld_words names (pending \<noteq> None) argv \<Longrightarrow> redact_words sha names pending argv = argv"
proof (induction argv arbitrary: pending)
  case (Cons word rest)
  have split: "word = name @ 61 # v" if "split_once 61 word = Some (name, v)" for name v
    using that by (simp add: split_once_Some)
  show ?case
  proof (cases pending)
    case None
    then show ?thesis using Cons.prems Cons.IH[of None] Cons.IH[of "awaits_value names word"]
      by (auto simp: handle_text_id dest: split split: option.splits prod.splits if_splits)
  qed (use Cons.prems Cons.IH[of None] in \<open>simp add: handle_text_id\<close>)
qed simp

lemma redact_execution_withholds:
  assumes "answers_hex sha"
  shows "withheld names (redact_execution sha names e)"
proof -
  have args: "withheld_arguments names (redact_arguments sha names args)" for args
    using handle_is_handle[OF assms]
    by (auto simp: withheld_arguments_def redact_arguments_def list_all_iff split: if_splits)
  have argv: "withheld_words names False (redact_argv sha names argv)" for argv
    using redact_words_withheld[OF assms, of names None argv] by (simp add: redact_argv_def)
  show ?thesis by (cases e) (simp_all add: args argv)
qed

lemma withheld_execution_id: "withheld names e \<Longrightarrow> redact_execution sha names e = e"
proof -
  have args: "withheld_arguments names args \<Longrightarrow> redact_arguments sha names args = args" for args
    by (induction args) (auto simp: withheld_arguments_def redact_arguments_def handle_id)
  have argv: "withheld_words names False argv \<Longrightarrow> redact_argv sha names argv = argv" for argv
    using withheld_words_id[of names None argv sha] by (simp add: redact_argv_def)
  show "withheld names e \<Longrightarrow> ?thesis" by (cases e) (simp_all add: args argv)
qed

lemma redact_action_idem:
  "answers_hex sha \<Longrightarrow> redact_action sha names (redact_action sha names a) = redact_action sha names a"
  by (simp add: redact_action_def withheld_execution_id redact_execution_withholds)

lemma redact_plan_idem:
  "answers_hex sha \<Longrightarrow> redact_plan sha names (redact_plan sha names p) = redact_plan sha names p"
  by (simp add: redact_plan_def redact_action_idem)

lemma redact_action_settle:
  "redact_action sha names (settle_action statuses a) = settle_action statuses (redact_action sha names a)"
  by (simp add: redact_action_def settle_action_def split: option.splits)

section \<open>Properties\<close>

text \<open>
  No declared secret is stored in the clear and none of it is redacted twice.  After
  redaction every argument under a declared name, and every word of a command line given under
  one, is a handle; redacting again changes nothing, so what a plan was sealed with is what is
  stored, and the digest taken over the redacted plan still describes it when it is read back.
\<close>

theorem redaction_withholds_once:
  assumes "answers_hex sha" "seal digest (redact_plan sha names p) at = Inr q"
  shows "(\<forall>a \<in> set (plan_actions q). withheld names (execution a)) \<and>
    redact_plan sha names q = q \<and> digest_holds digest (redact_plan sha names q)"
proof -
  have q: "q = (redact_plan sha names p)\<lparr>cp_sealed_at := Some at, plan_state := Sealed,
      cp_digest := Some (compute_digest digest (redact_plan sha names p))\<rparr>"
    using assms(2) by (simp add: seal_Inr)
  have "plan_actions q = map (redact_action sha names) (plan_actions p)"
    by (simp add: q redact_plan_def)
  then have w: "\<forall>a \<in> set (plan_actions q). withheld names (execution a)"
    using redact_execution_withholds[OF assms(1)] by (auto simp: redact_action_def)
  have "redact_action sha names a = a" if "a \<in> set (plan_actions q)" for a
    using w that by (simp add: redact_action_def withheld_execution_id)
  then have same: "redact_plan sha names q = q" by (simp add: redact_plan_def map_idI)
  have "canonical_text q = canonical_text (redact_plan sha names p)" by (simp add: q canonical_text_def)
  then have "digest_holds digest q" by (simp add: q digest_holds_def compute_digest_def)
  then show ?thesis using w same by simp
qed

definition zeros :: "ustr \<Rightarrow> ustr" where "zeros _ = replicate 64 48"

lemma zeros_hex: "answers_hex zeros"
  by (auto simp: answers_hex_def zeros_def HANDLE_WIDTH_def is_ascii_hexdigit_def list_all_iff)

definition secret_plan :: "unit Plan" where
  "secret_plan = sample_plan\<lparr>plan_actions :=
     [sample_action (Program (asc ''login'') [asc ''--password'', asc ''hunter2'', asc ''--token=abc''])]\<rparr>"

theorem redaction_withholds_once_witness:
  "\<exists>q. seal id (redact_plan zeros redaction_new secret_plan) 7 = Inr q \<and>
     redact_plan zeros redaction_new q = q \<and>
     execution (hd (plan_actions q)) =
       Program (asc ''login'') [asc ''--password'', asc ''secret:sha256-0000000000000000'',
         asc ''--token=secret:sha256-0000000000000000'']"
proof -
  let ?p = "redact_plan zeros redaction_new secret_plan"
  have "dep_rel (plan_actions ?p) = {}"
    by (auto simp: dep_rel_def redact_plan_def secret_plan_def redact_action_def sample_action_def action_new_def)
  then have ac: "acyclic (dep_rel (plan_actions ?p))" by (simp add: acyclic_def)
  define q where "q = ?p\<lparr>cp_sealed_at := Some 7, plan_state := Sealed, cp_digest := Some (compute_digest id ?p)\<rparr>"
  have s: "seal id ?p 7 = Inr q" unfolding seal_Inr
    using ac by (simp add: q_def redact_plan_def secret_plan_def sample_plan_def draft_plan_def is_sealed_def)
  have e: "execution (hd (plan_actions q)) = redact_execution zeros redaction_new
      (Program (asc ''login'') [asc ''--password'', asc ''hunter2'', asc ''--token=abc''])"
    by (simp add: q_def redact_plan_def secret_plan_def redact_action_def sample_action_def action_new_def)
  have "\<dots> = Program (asc ''login'') [asc ''--password'', asc ''secret:sha256-0000000000000000'',
         asc ''--token=secret:sha256-0000000000000000'']"
    by (simp add: redact_argv_def awaits_value_def is_sensitive_def redaction_new_def SENSITIVE_ARGUMENTS_def normalise_def
        to_ascii_lowercase_def handle_text_def handle_def already_handle_def is_handle_def strip_prefix_def
        HANDLE_PREFIX_def handle_body_def zeros_def HANDLE_WIDTH_def numeral_eq_Suc)
  with redaction_withholds_once[OF zeros_hex s] s e show ?thesis by auto
qed

text \<open>
  A handle given under a declared name passes through: a secret that is spelled like a handle is
  stored as it is.
\<close>

lemma handle_shaped_secret_kept: "is_handle v \<Longrightarrow> handle sha name (VString v) = VString v"
  by (simp add: handle_string)

end
