(* ===== verification/Plan_Store.thy ===== *)
theory Plan_Store
  imports Plan_Secret Provider_Registry "HOL-Library.AList"
    "HOL-Library.List_Lexorder" "HOL-Library.Product_Lexorder"
begin

text \<open>
  The persistent plan store (\<open>crates/ono-change-plan/src/store.rs\<close>) with the references of
  \<open>references.rs\<close> and the identities of \<open>crates/ono-change-core/src/id.rs\<close>.  A table is the list
  of its rows by primary key.  What the database answers to a call is an argument: the error it
  raises, or nothing; a call that fails changes no table, since each is one statement or one
  transaction.  A record is stored as what it decodes to.
\<close>

section \<open>Identities and references\<close>

definition ID_FULL :: nat where "ID_FULL = 16"

definition ID_SHORT :: nat where "ID_SHORT = 4"

definition is_hex :: "ustr \<Rightarrow> bool" where
  "is_hex t \<longleftrightarrow>
     t \<noteq> [] \<and> length t \<le> ID_FULL \<and> list_all (\<lambda>b. is_ascii_digit b \<or> (97 \<le> b \<and> b \<le> 102)) t"

definition PLAN_PREFIX :: ustr where "PLAN_PREFIX = asc ''plan/''"

definition ASSET_PREFIX :: ustr where "ASSET_PREFIX = asc ''recovery/''"

definition id_parse :: "ustr \<Rightarrow> ustr \<Rightarrow> ustr option" where
  "id_parse marker t =
     (let body = (case strip_prefix marker t of None \<Rightarrow> t | Some b \<Rightarrow> b)
      in if is_hex body then Some body else None)"

function widen :: "ustr list \<Rightarrow> nat \<Rightarrow> nat" where
  "widen ids width =
     (if width < ID_FULL
      then if distinct (map (take width) ids) then width else widen ids (width + 1)
      else ID_FULL)"
  by pat_completeness auto
termination
  by (relation "measure (\<lambda>(_, w). ID_FULL - w)") auto

declare widen.simps [simp del]

definition shortest_unique_prefixes :: "ustr list \<Rightarrow> nat \<Rightarrow> nat" where
  "shortest_unique_prefixes ids minimum = widen ids (max minimum 1)"

datatype ReferenceKind = RefPlan | RefRecovery | RefUnqualified

record Reference =
  ref_kind :: ReferenceKind
  ref_body :: ustr

definition plan_not_found :: "ustr \<Rightarrow> ErrorValue" where
  "plan_not_found reference =
     \<lparr>ev_code = ''change.plan_not_found'', ev_message = Format ''no plan matches'' [Say reference],
      ev_help = Some (Format ''a plan is referenced by its identity or an unambiguous prefix'' [])\<rparr>"

definition asset_not_found :: "ustr \<Rightarrow> ErrorValue" where
  "asset_not_found reference =
     \<lparr>ev_code = ''recovery.asset_not_found'',
      ev_message = Format ''no recovery asset matches'' [Say reference],
      ev_help = Some (Format ''get recovery lists the assets this shell knows about'' [])\<rparr>"

definition plan_reference_ambiguous :: "ustr \<Rightarrow> ustr list \<Rightarrow> ErrorValue" where
  "plan_reference_ambiguous reference candidates =
     (let width = shortest_unique_prefixes candidates ID_SHORT in
      \<lparr>ev_code = ''change.plan_reference_ambiguous'',
       ev_message = Format ''the reference matches several plans, so it names none of them''
         [Say reference, Say (show_nat (length candidates))],
       ev_help = Some (Format ''widen it'' (map (\<lambda>i. Say (take width i)) candidates))\<rparr>)"

definition record_malformed :: "string \<Rightarrow> ErrorValue" where
  "record_malformed field =
     \<lparr>ev_code = ''change.plan_store_corrupt'',
      ev_message = Format ''the stored record's field cannot be read'' [Say (asc field)],
      ev_help = None\<rparr>"

fun not_an_identity :: "ReferenceKind \<Rightarrow> ustr \<Rightarrow> ErrorValue" where
  "not_an_identity RefRecovery t = asset_not_found t"
| "not_an_identity _ t = plan_not_found t"

definition reference_parse :: "ustr \<Rightarrow> ErrorValue + Reference" where
  "reference_parse t =
     (let trimmed = trim t;
          (kind, body) =
            (case strip_prefix PLAN_PREFIX trimmed of
               Some b \<Rightarrow> (RefPlan, b)
             | None \<Rightarrow>
                 (case strip_prefix ASSET_PREFIX trimmed of
                    Some b \<Rightarrow> (RefRecovery, b)
                  | None \<Rightarrow> (RefUnqualified, trimmed)));
          parsed = (if kind = RefRecovery then id_parse ASSET_PREFIX body \<noteq> None
                    else id_parse PLAN_PREFIX body \<noteq> None)
      in if \<not> parsed then Inl (not_an_identity kind t)
         else Inr \<lparr>ref_kind = kind, ref_body = body\<rparr>)"

definition names_a_plan :: "Reference \<Rightarrow> bool" where
  "names_a_plan r \<longleftrightarrow> ref_kind r \<in> {RefPlan, RefUnqualified}"

definition names_an_asset :: "Reference \<Rightarrow> bool" where
  "names_an_asset r \<longleftrightarrow> ref_kind r \<in> {RefRecovery, RefUnqualified}"

definition reference_render :: "Reference \<Rightarrow> ustr" where
  "reference_render r =
     (case ref_kind r of
        RefPlan \<Rightarrow> PLAN_PREFIX @ ref_body r
      | RefRecovery \<Rightarrow> ASSET_PREFIX @ ref_body r
      | RefUnqualified \<Rightarrow> ref_body r)"

definition plan_reference_width :: "ustr list \<Rightarrow> nat" where
  "plan_reference_width ids = shortest_unique_prefixes ids ID_SHORT"

definition render_plan :: "ustr \<Rightarrow> nat \<Rightarrow> ustr" where
  "render_plan plan width = PLAN_PREFIX @ take width plan"

definition render_asset :: "ustr \<Rightarrow> nat \<Rightarrow> ustr" where
  "render_asset asset width = ASSET_PREFIX @ take width asset"

section \<open>Instants and leases\<close>

text \<open>The range of a \<open>jiff\<close> timestamp in nanoseconds, and of the 64-bit column it is stored in.\<close>

definition timestamp_min :: int where "timestamp_min = - 377705023201000000000"

definition timestamp_max :: int where "timestamp_max = 253402207200999999999"

definition i64_max :: int where "i64_max = 2 ^ 63 - 1"

definition nanos :: "int \<Rightarrow> int" where
  "nanos at = (if - (2 ^ 63) \<le> at \<and> at \<le> i64_max then at else i64_max)"

definition plus_lease :: "int \<Rightarrow> nat \<Rightarrow> int" where
  "plus_lease now lease =
     (let t = now + int lease in if timestamp_min \<le> t \<and> t \<le> timestamp_max then t else now)"

definition CLAIM_LEASE :: nat where "CLAIM_LEASE = 300 * 1000000000"

section \<open>The tables\<close>

record 'i plan_row =
  pr_record :: "'i Plan"
  pr_impact :: "'i option"
  pr_recovery :: "ustr option"
  pr_kind :: PlanKind
  pr_state :: PlanState
  pr_session :: ustr
  pr_intent :: ustr
  pr_created :: int
  pr_sealed :: "int option"
  pr_expires :: "int option"
  pr_digest :: "ustr option"

record status_row =
  sr_ordinal :: nat
  sr_status :: ActionStatus
  sr_settled :: int
  sr_detail :: "sentence option"

record claim_row =
  cl_session :: ustr
  cl_claimed :: int
  cl_expires :: int
  cl_pid :: "nat option"

record 'i Store =
  st_plans :: "((ustr \<times> nat) \<times> 'i plan_row) list"
  st_statuses :: "((ustr \<times> nat \<times> ustr) \<times> status_row) list"
  st_assets :: "(ustr \<times> RecoveryAsset) list"
  st_plan_assets :: "(ustr \<times> nat \<times> ustr) list"
  st_claims :: "(ustr \<times> claim_row) list"

text \<open>How a store is opened: its redaction with the hash it uses, and the graphs it need not keep.\<close>

record 'i StoreOptions =
  so_redaction :: SecretRedaction
  so_hash :: "ustr \<Rightarrow> ustr"
  so_no_impact :: 'i
  so_blank :: "'i \<Rightarrow> bool"

definition store_empty :: "'i Store" where
  "store_empty = \<lparr>st_plans = [], st_statuses = [], st_assets = [], st_plan_assets = [], st_claims = []\<rparr>"

section \<open>Plans\<close>

definition revisions_of :: "'i Store \<Rightarrow> ustr \<Rightarrow> nat list" where
  "revisions_of s plan = map (snd \<circ> fst) (filter (\<lambda>((i, _), _). i = plan) (st_plans s))"

definition max_revision :: "nat list \<Rightarrow> nat option" where
  "max_revision rs = (if rs = [] then None else Some (Max (set rs)))"

definition latest_revision :: "'i Store \<Rightarrow> ustr \<Rightarrow> ErrorValue + nat" where
  "latest_revision s plan =
     (case max_revision (revisions_of s plan) of
        None \<Rightarrow> Inl (plan_not_found (render_plan plan (length plan)))
      | Some r \<Rightarrow> Inr r)"

definition prior_recovery :: "'i Store \<Rightarrow> ustr \<Rightarrow> nat \<Rightarrow> ustr option" where
  "prior_recovery s plan revision =
     (case max_revision (filter (\<lambda>r. r < revision) (revisions_of s plan)) of
        None \<Rightarrow> None
      | Some r \<Rightarrow> (case map_of (st_plans s) (plan, r) of None \<Rightarrow> None | Some row \<Rightarrow> pr_recovery row))"

definition coalesce :: "'a option \<Rightarrow> 'a option \<Rightarrow> 'a option" where
  "coalesce a b = (case a of None \<Rightarrow> b | Some x \<Rightarrow> Some x)"

definition plan_row_of :: "'i StoreOptions \<Rightarrow> 'i Plan \<Rightarrow> ustr option \<Rightarrow> 'i plan_row" where
  "plan_row_of opts p recovery =
     \<lparr>pr_record = redact_plan (so_hash opts) (so_redaction opts) p,
      pr_impact = (if so_blank opts (cp_impact p) then None else Some (cp_impact p)),
      pr_recovery = recovery, pr_kind = cp_kind p, pr_state = plan_state p,
      pr_session = cp_session p, pr_intent = cp_intent_text p, pr_created = nanos (cp_created_at p),
      pr_sealed = map_option nanos (cp_sealed_at p), pr_expires = map_option nanos (cp_expires_at p),
      pr_digest = cp_digest p\<rparr>"

definition cited_assets :: "'i Plan \<Rightarrow> ustr list" where
  "cited_assets p = concat (map row_assets (sum_rows (cp_protection p)))"

definition put_revision ::
    "'i StoreOptions \<Rightarrow> ErrorValue option \<Rightarrow> 'i Plan \<Rightarrow> ustr option \<Rightarrow> 'i Store \<Rightarrow> ErrorValue + 'i Store" where
  "put_revision opts fault p recovery s =
     (case fault of
        Some e \<Rightarrow> Inl e
      | None \<Rightarrow>
          let key = (plan_id p, cp_revision p);
              excluded = coalesce recovery (prior_recovery s (plan_id p) (cp_revision p));
              kept = (case map_of (st_plans s) key of
                  None \<Rightarrow> excluded | Some row \<Rightarrow> coalesce excluded (pr_recovery row));
              others = filter (\<lambda>(i, r, _). (i, r) \<noteq> key) (st_plan_assets s);
              cited = remdups (map (\<lambda>a. (plan_id p, cp_revision p, a)) (cited_assets p))
          in Inr (s\<lparr>st_plans := AList.update key (plan_row_of opts p kept) (st_plans s),
                   st_plan_assets := others @ cited\<rparr>))"

definition put :: "'i StoreOptions \<Rightarrow> ErrorValue option \<Rightarrow> 'i Plan \<Rightarrow> 'i Store \<Rightarrow> ErrorValue + 'i Store" where
  "put opts fault p s = put_revision opts fault p None s"

definition action_statuses ::
    "ErrorValue option \<Rightarrow> ustr \<Rightarrow> nat \<Rightarrow> 'i Store \<Rightarrow> ErrorValue + (ustr \<rightharpoonup> ActionStatus)" where
  "action_statuses fault plan revision s =
     (case fault of
        Some e \<Rightarrow> Inl e
      | None \<Rightarrow> Inr (\<lambda>a. map_option sr_status (map_of (st_statuses s) (plan, revision, a))))"

definition overlay :: "(ustr \<rightharpoonup> ActionStatus) \<Rightarrow> plan_action \<Rightarrow> plan_action" where
  "overlay statuses a =
     (case statuses (act_id a) of None \<Rightarrow> a | Some st \<Rightarrow> a\<lparr>act_status := st\<rparr>)"

definition overlay_statuses :: "(ustr \<rightharpoonup> ActionStatus) \<Rightarrow> 'i Plan \<Rightarrow> 'i Plan" where
  "overlay_statuses statuses p = p\<lparr>plan_actions := map (overlay statuses) (plan_actions p)\<rparr>"

definition get_revision ::
    "'i StoreOptions \<Rightarrow> ErrorValue option \<Rightarrow> ustr \<Rightarrow> nat \<Rightarrow> 'i Store \<Rightarrow> ErrorValue + 'i Plan" where
  "get_revision opts fault plan revision s =
     (case fault of
        Some e \<Rightarrow> Inl e
      | None \<Rightarrow>
          (case map_of (st_plans s) (plan, revision) of
             None \<Rightarrow> Inl (plan_not_found (render_plan plan (length plan)))
           | Some row \<Rightarrow>
               (case action_statuses None plan revision s of
                  Inl e \<Rightarrow> Inl e
                | Inr statuses \<Rightarrow>
                    Inr ((overlay_statuses statuses (pr_record row))
                      \<lparr>cp_impact := (case pr_impact row of None \<Rightarrow> so_no_impact opts | Some g \<Rightarrow> g)\<rparr>))))"

definition get_plan :: "'i StoreOptions \<Rightarrow> ErrorValue option \<Rightarrow> ustr \<Rightarrow> 'i Store \<Rightarrow> ErrorValue + 'i Plan" where
  "get_plan opts fault plan s =
     (case latest_revision s plan of
        Inl e \<Rightarrow> Inl e
      | Inr revision \<Rightarrow> get_revision opts fault plan revision s)"

definition record_state ::
    "ErrorValue option \<Rightarrow> ustr \<Rightarrow> nat \<Rightarrow> PlanState \<Rightarrow> 'i Store \<Rightarrow> ErrorValue + 'i Store" where
  "record_state fault plan revision state s =
     (case fault of
        Some e \<Rightarrow> Inl e
      | None \<Rightarrow>
          (case map_of (st_plans s) (plan, revision) of
             None \<Rightarrow> Inl (plan_not_found (render_plan plan (length plan)))
           | Some row \<Rightarrow>
               Inr (s\<lparr>st_plans := AList.update (plan, revision)
                 (row\<lparr>pr_state := state, pr_record := (pr_record row)\<lparr>plan_state := state\<rparr>\<rparr>)
                 (st_plans s)\<rparr>)))"

definition foreign_key_failed :: ErrorValue where
  "foreign_key_failed =
     \<lparr>ev_code = ''change.plan_store_unavailable'', ev_message = Format ''the plan store cannot be read'' [],
      ev_help = Some (Format ''FOREIGN KEY constraint failed'' [])\<rparr>"

definition record_action_status ::
    "ErrorValue option \<Rightarrow> ustr \<Rightarrow> nat \<Rightarrow> ustr \<Rightarrow> nat \<Rightarrow> ActionStatus \<Rightarrow> int \<Rightarrow> sentence option \<Rightarrow>
     'i Store \<Rightarrow> ErrorValue + 'i Store" where
  "record_action_status fault plan revision action n status at detail s =
     (case fault of
        Some e \<Rightarrow> Inl e
      | None \<Rightarrow>
          if map_of (st_plans s) (plan, revision) = None then Inl foreign_key_failed
          else
            let key = (plan, revision, action);
                n' = (case map_of (st_statuses s) key of None \<Rightarrow> n | Some old \<Rightarrow> sr_ordinal old)
            in Inr (s\<lparr>st_statuses := AList.update key
                 \<lparr>sr_ordinal = n', sr_status = status, sr_settled = nanos at, sr_detail = detail\<rparr>
                 (st_statuses s)\<rparr>))"

definition applied_at :: "ErrorValue option \<Rightarrow> ustr \<Rightarrow> 'i Store \<Rightarrow> ErrorValue + int option" where
  "applied_at fault plan s =
     (case latest_revision s plan of
        Inl e \<Rightarrow> Inl e
      | Inr revision \<Rightarrow>
          (case fault of
             Some e \<Rightarrow> Inl e
           | None \<Rightarrow>
               let times = map (\<lambda>(_, r). sr_settled r) (filter (\<lambda>((i, v, _), r). i = plan \<and> v = revision \<and>
                     sr_status r \<in> {ActSucceeded, ActFailed, ActUnknown}) (st_statuses s))
               in Inr (if times = [] then None else Some (Max (set times)))))"

definition remove_plan :: "ErrorValue option \<Rightarrow> ustr \<Rightarrow> 'i Store \<Rightarrow> ErrorValue + 'i Store" where
  "remove_plan fault plan s =
     (case fault of
        Some e \<Rightarrow> Inl e
      | None \<Rightarrow>
          Inr (s\<lparr>st_plans := filter (\<lambda>((i, _), _). i \<noteq> plan) (st_plans s),
                st_statuses := filter (\<lambda>((i, _, _), _). i \<noteq> plan) (st_statuses s),
                st_plan_assets := filter (\<lambda>(i, _, _). i \<noteq> plan) (st_plan_assets s)\<rparr>))"

section \<open>The apply claim\<close>

definition plan_already_applying :: "ustr \<Rightarrow> ustr \<Rightarrow> ErrorValue" where
  "plan_already_applying plan holder =
     \<lparr>ev_code = ''change.plan_already_applying'',
      ev_message = Format ''plan is already being applied by session'' [Say (take ID_SHORT plan), Say holder],
      ev_help = Some (Format ''the plan store prevents two sessions from applying one sealed plan at once'' [])\<rparr>"

definition holder_is_alive :: "(nat \<Rightarrow> bool) \<Rightarrow> nat option \<Rightarrow> bool" where
  "holder_is_alive running pid \<longleftrightarrow> (case pid of None \<Rightarrow> True | Some p \<Rightarrow> running p)"

definition claim_holder ::
    "(nat \<Rightarrow> bool) \<Rightarrow> ErrorValue option \<Rightarrow> ustr \<Rightarrow> int \<Rightarrow> 'i Store \<Rightarrow> ErrorValue + ustr option" where
  "claim_holder running fault plan now s =
     (case fault of
        Some e \<Rightarrow> Inl e
      | None \<Rightarrow>
          Inr (case map_of (st_claims s) plan of
             None \<Rightarrow> None
           | Some c \<Rightarrow>
               if cl_expires c > nanos now \<and> holder_is_alive running (cl_pid c)
               then Some (cl_session c) else None))"

definition take_claim ::
    "(nat \<Rightarrow> bool) \<Rightarrow> nat \<Rightarrow> ErrorValue option \<Rightarrow> ustr \<Rightarrow> ustr \<Rightarrow> int \<Rightarrow> nat \<Rightarrow> 'i Store \<Rightarrow>
     ErrorValue + int \<times> 'i Store" where
  "take_claim running pid fault plan session now lease s =
     (let due = plus_lease now lease in
      case fault of
        Some e \<Rightarrow> Inl e
      | None \<Rightarrow>
          let free = Inr (due, s\<lparr>st_claims := AList.update plan
                \<lparr>cl_session = session, cl_claimed = nanos now, cl_expires = nanos due,
                 cl_pid = Some pid\<rparr> (st_claims s)\<rparr>)
          in (case map_of (st_claims s) plan of
                None \<Rightarrow> free
              | Some c \<Rightarrow>
                  if cl_expires c > nanos now \<and> cl_session c \<noteq> session \<and>
                     holder_is_alive running (cl_pid c)
                  then Inl (plan_already_applying plan (cl_session c))
                  else free))"

record Claim =
  claim_plan :: ustr
  claim_session :: ustr
  claim_at :: int
  claim_expires :: int

definition claim_for ::
    "(nat \<Rightarrow> bool) \<Rightarrow> nat \<Rightarrow> ErrorValue option \<Rightarrow> ustr \<Rightarrow> ustr \<Rightarrow> int \<Rightarrow> nat \<Rightarrow> 'i Store \<Rightarrow>
     ErrorValue + Claim \<times> 'i Store" where
  "claim_for running pid fault plan session now lease s =
     (case take_claim running pid fault plan session now lease s of
        Inl e \<Rightarrow> Inl e
      | Inr (due, s') \<Rightarrow>
          Inr (\<lparr>claim_plan = plan, claim_session = session, claim_at = now, claim_expires = due\<rparr>, s'))"

definition claim ::
    "(nat \<Rightarrow> bool) \<Rightarrow> nat \<Rightarrow> ErrorValue option \<Rightarrow> ustr \<Rightarrow> ustr \<Rightarrow> int \<Rightarrow> 'i Store \<Rightarrow>
     ErrorValue + Claim \<times> 'i Store" where
  "claim running pid fault plan session now s =
     claim_for running pid fault plan session now CLAIM_LEASE s"

definition renew ::
    "(nat \<Rightarrow> bool) \<Rightarrow> nat \<Rightarrow> ErrorValue option \<Rightarrow> Claim \<Rightarrow> int \<Rightarrow> 'i Store \<Rightarrow>
     ErrorValue + Claim \<times> 'i Store" where
  "renew running pid fault c now s =
     (case take_claim running pid fault (claim_plan c) (claim_session c) now CLAIM_LEASE s of
        Inl e \<Rightarrow> Inl e
      | Inr (due, s') \<Rightarrow> Inr (c\<lparr>claim_expires := due\<rparr>, s'))"

definition release :: "ErrorValue option \<Rightarrow> ustr \<Rightarrow> ustr \<Rightarrow> 'i Store \<Rightarrow> ErrorValue + 'i Store" where
  "release fault plan session s =
     (case fault of
        Some e \<Rightarrow> Inl e
      | None \<Rightarrow>
          Inr (s\<lparr>st_claims := filter (\<lambda>(i, c). \<not> (i = plan \<and> cl_session c = session)) (st_claims s)\<rparr>))"

section \<open>Assets\<close>

definition put_asset :: "ErrorValue option \<Rightarrow> RecoveryAsset \<Rightarrow> 'i Store \<Rightarrow> ErrorValue + 'i Store" where
  "put_asset fault a s =
     (case fault of
        Some e \<Rightarrow> Inl e
      | None \<Rightarrow> Inr (s\<lparr>st_assets := AList.update (as_id a) a (st_assets s)\<rparr>))"

definition get_asset :: "ErrorValue option \<Rightarrow> ustr \<Rightarrow> 'i Store \<Rightarrow> ErrorValue + RecoveryAsset" where
  "get_asset fault i s =
     (case fault of
        Some e \<Rightarrow> Inl e
      | None \<Rightarrow>
          (case map_of (st_assets s) i of
             None \<Rightarrow> Inl (asset_not_found (ASSET_PREFIX @ i)) | Some a \<Rightarrow> Inr a))"

definition list_assets :: "ErrorValue option \<Rightarrow> 'i Store \<Rightarrow> ErrorValue + RecoveryAsset list" where
  "list_assets fault s =
     (case fault of
        Some e \<Rightarrow> Inl e
      | None \<Rightarrow> Inr (sort_key (\<lambda>a. (- nanos (as_created_at a), as_id a)) (map snd (st_assets s))))"

definition sorted_ids :: "ustr list \<Rightarrow> ustr list" where
  "sorted_ids ids = sort (remdups ids)"

definition assets_for :: "ErrorValue option \<Rightarrow> ustr \<Rightarrow> 'i Store \<Rightarrow> ErrorValue + ustr list" where
  "assets_for fault plan s =
     (case fault of
        Some e \<Rightarrow> Inl e
      | None \<Rightarrow>
          Inr (List.map_filter (id_parse ASSET_PREFIX) (sorted_ids
            (map (\<lambda>(_, _, a). a) (filter (\<lambda>(i, _, _). i = plan) (st_plan_assets s)) @
             map fst (filter (\<lambda>(_, a). as_source_plan a = Some plan) (st_assets s))))))"

definition plans_depending_on :: "ErrorValue option \<Rightarrow> ustr \<Rightarrow> 'i Store \<Rightarrow> ErrorValue + ustr list" where
  "plans_depending_on fault asset s =
     (case fault of
        Some e \<Rightarrow> Inl e
      | None \<Rightarrow>
          Inr (List.map_filter (id_parse PLAN_PREFIX) (sorted_ids
            (map fst (filter (\<lambda>(_, _, a). a = asset) (st_plan_assets s)) @
             List.map_filter (\<lambda>(i, a). if i = asset then as_source_plan a else None) (st_assets s)))))"

section \<open>Resolving references\<close>

definition matching_ids :: "ustr list \<Rightarrow> ustr \<Rightarrow> ustr list" where
  "matching_ids column pre = sorted_ids (filter (\<lambda>i. take (length pre) i = pre) column)"

definition plan_ids :: "'i Store \<Rightarrow> ustr list" where
  "plan_ids s = map (fst \<circ> fst) (st_plans s)"

definition resolve_in :: "ustr \<Rightarrow> ustr list \<Rightarrow> ustr \<Rightarrow> (ustr \<Rightarrow> ErrorValue) \<Rightarrow> string \<Rightarrow> ErrorValue + ustr" where
  "resolve_in marker matches reference missing column =
     (case matches of
        [] \<Rightarrow> Inl (missing reference)
      | [i] \<Rightarrow> (case id_parse marker i of None \<Rightarrow> Inl (record_malformed column) | Some p \<Rightarrow> Inr p)
      | _ \<Rightarrow> Inl (plan_reference_ambiguous reference matches))"

definition resolve_reference :: "ErrorValue option \<Rightarrow> ustr \<Rightarrow> 'i Store \<Rightarrow> ErrorValue + ustr" where
  "resolve_reference fault reference s =
     (case reference_parse reference of
        Inl e \<Rightarrow> Inl e
      | Inr parsed \<Rightarrow>
          if \<not> names_a_plan parsed then Inl (plan_not_found reference)
          else case fault of
            Some e \<Rightarrow> Inl e
          | None \<Rightarrow> resolve_in PLAN_PREFIX (matching_ids (plan_ids s) (ref_body parsed)) reference
              plan_not_found ''plan_id'')"

definition resolve_asset :: "ErrorValue option \<Rightarrow> ustr \<Rightarrow> 'i Store \<Rightarrow> ErrorValue + ustr" where
  "resolve_asset fault reference s =
     (case reference_parse reference of
        Inl e \<Rightarrow> Inl e
      | Inr parsed \<Rightarrow>
          if \<not> names_an_asset parsed then Inl (asset_not_found reference)
          else case fault of
            Some e \<Rightarrow> Inl e
          | None \<Rightarrow> resolve_in ASSET_PREFIX (matching_ids (map fst (st_assets s)) (ref_body parsed)) reference
              asset_not_found ''asset_id'')"

definition reference_width :: "ErrorValue option \<Rightarrow> 'i Store \<Rightarrow> ErrorValue + nat" where
  "reference_width fault s =
     (case fault of Some e \<Rightarrow> Inl e | None \<Rightarrow> Inr (plan_reference_width (matching_ids (plan_ids s) [])))"

definition render_reference :: "ErrorValue option \<Rightarrow> ustr \<Rightarrow> 'i Store \<Rightarrow> ErrorValue + ustr" where
  "render_reference fault plan s =
     (case reference_width fault s of Inl e \<Rightarrow> Inl e | Inr width \<Rightarrow> Inr (render_plan plan width))"

definition render_asset_reference :: "ErrorValue option \<Rightarrow> ustr \<Rightarrow> 'i Store \<Rightarrow> ErrorValue + ustr" where
  "render_asset_reference fault asset s =
     (case fault of
        Some e \<Rightarrow> Inl e
      | None \<Rightarrow> Inr (render_asset asset (plan_reference_width (matching_ids (map fst (st_assets s)) []))))"

section \<open>Listing plans\<close>

record PlanFilter =
  pf_session :: "ustr option"
  pf_state :: "PlanState option"
  pf_kind :: "PlanKind option"
  pf_limit :: "nat option"
  pf_every_revision :: bool

record PlanSummary =
  su_id :: ustr
  su_revision :: nat
  su_kind :: PlanKind
  su_state :: PlanState
  su_session :: ustr
  su_intent :: ustr
  su_created :: int
  su_sealed :: "int option"
  su_expires :: "int option"
  su_digest :: "ustr option"
  su_reference :: ustr

definition summary_row :: "nat \<Rightarrow> (ustr \<times> nat) \<times> 'i plan_row \<Rightarrow> PlanSummary" where
  "summary_row width = (\<lambda>((i, r), row).
     \<lparr>su_id = i, su_revision = r, su_kind = pr_kind row, su_state = pr_state row,
      su_session = pr_session row, su_intent = pr_intent row, su_created = pr_created row,
      su_sealed = pr_sealed row, su_expires = pr_expires row, su_digest = pr_digest row,
      su_reference = render_plan i width\<rparr>)"

fun retain_first :: "ustr list \<Rightarrow> PlanSummary list \<Rightarrow> PlanSummary list" where
  "retain_first seen [] = []"
| "retain_first seen (r # rs) =
     (if su_id r \<in> set seen then retain_first seen rs else r # retain_first (seen @ [su_id r]) rs)"

definition selects :: "PlanFilter \<Rightarrow> PlanSummary \<Rightarrow> bool" where
  "selects f r \<longleftrightarrow>
     (case pf_session f of None \<Rightarrow> True | Some x \<Rightarrow> su_session r = x) \<and>
     (case pf_state f of None \<Rightarrow> True | Some x \<Rightarrow> su_state r = x) \<and>
     (case pf_kind f of None \<Rightarrow> True | Some x \<Rightarrow> su_kind r = x)"

definition list_plans :: "ErrorValue option \<Rightarrow> PlanFilter \<Rightarrow> 'i Store \<Rightarrow> ErrorValue + PlanSummary list" where
  "list_plans fault f s =
     (case reference_width fault s of
        Inl e \<Rightarrow> Inl e
      | Inr width \<Rightarrow>
          let ordered = sort_key (\<lambda>((i, r), row). (- pr_created row, i, - int r)) (st_plans s);
              rows = map (summary_row width) ordered;
              latest = (if pf_every_revision f then rows else retain_first [] rows);
              kept = filter (selects f) latest
          in if \<not> list_all (\<lambda>r. is_hex (su_id r)) rows then Inl (record_malformed ''plan_id'')
             else Inr (case pf_limit f of None \<Rightarrow> kept | Some n \<Rightarrow> take n kept))"

section \<open>Journal\<close>

lemma lookup_update [simp]: "map_of (AList.update k v xs) = (map_of xs)(k \<mapsto> v)"
  by (rule update_conv')

text \<open>The writes an apply makes against one revision, and what each does to the plan read back.\<close>

datatype journal_write = WState PlanState | WAction ustr nat ActionStatus int "sentence option"

fun journal :: "ustr \<Rightarrow> nat \<Rightarrow> journal_write \<Rightarrow> 'i Store \<Rightarrow> ErrorValue + 'i Store" where
  "journal plan revision (WState st) s = record_state None plan revision st s"
| "journal plan revision (WAction a n st at detail) s =
     record_action_status None plan revision a n st at detail s"

fun write_plan :: "journal_write \<Rightarrow> 'i Plan \<Rightarrow> 'i Plan" where
  "write_plan (WState st) p = p\<lparr>plan_state := st\<rparr>"
| "write_plan (WAction a n st at detail) p = overlay_statuses [a \<mapsto> st] p"

fun journal_all :: "ustr \<Rightarrow> nat \<Rightarrow> journal_write list \<Rightarrow> 'i Store \<Rightarrow> ErrorValue + 'i Store" where
  "journal_all plan revision [] s = Inr s"
| "journal_all plan revision (w # ws) s =
     (case journal plan revision w s of Inl e \<Rightarrow> Inl e | Inr s' \<Rightarrow> journal_all plan revision ws s')"

definition recorded_statuses :: "'i Store \<Rightarrow> ustr \<Rightarrow> nat \<Rightarrow> (ustr \<rightharpoonup> ActionStatus)" where
  "recorded_statuses s plan revision = (\<lambda>a. map_option sr_status (map_of (st_statuses s) (plan, revision, a)))"

lemma action_statuses_recorded [simp]:
  "action_statuses None plan revision s = Inr (recorded_statuses s plan revision)"
  by (simp add: action_statuses_def recorded_statuses_def)

lemma overlay_overlay: "overlay m' (overlay m a) = overlay (m ++ m') a"
  by (simp add: overlay_def map_add_def split: option.splits)

lemma overlay_statuses_overlay:
  "overlay_statuses m' (overlay_statuses m p) = overlay_statuses (m ++ m') p"
  by (simp add: overlay_statuses_def overlay_overlay comp_def)

lemma overlay_statuses_fields [simp]:
  "plan_state (overlay_statuses m p) = plan_state p" "cp_digest (overlay_statuses m p) = cp_digest p"
  "plan_id (overlay_statuses m p) = plan_id p" "cp_revision (overlay_statuses m p) = cp_revision p"
  "(overlay_statuses m p)\<lparr>cp_impact := i\<rparr> = overlay_statuses m (p\<lparr>cp_impact := i\<rparr>)"
  "(overlay_statuses m p)\<lparr>plan_state := x\<rparr> = overlay_statuses m (p\<lparr>plan_state := x\<rparr>)"
  by (simp_all add: overlay_statuses_def)

lemma overlay_digest [simp]: "action_digest (overlay m a) = action_digest a"
  by (simp add: overlay_def action_digest_def split: option.splits)

lemma overlay_text [simp]: "canonical_text (overlay_statuses m p) = canonical_text p"
  by (simp add: overlay_statuses_def canonical_text_def actions_text_def comp_def)

lemma get_revision_Inr:
  "get_revision opts None plan revision s = Inr p \<longleftrightarrow>
     (\<exists>row. map_of (st_plans s) (plan, revision) = Some row \<and>
        p = (overlay_statuses (recorded_statuses s plan revision) (pr_record row))
          \<lparr>cp_impact := (case pr_impact row of None \<Rightarrow> so_no_impact opts | Some g \<Rightarrow> g)\<rparr>)"
  by (auto simp: get_revision_def split: option.splits)

lemma plan_update_commute:
  "(p :: 'i Plan)\<lparr>cp_impact := g, plan_state := x\<rparr> = p\<lparr>plan_state := x, cp_impact := g\<rparr>"
  by (cases p) simp

lemma text_ignores [simp]:
  "canonical_text (p\<lparr>plan_state := x\<rparr>) = canonical_text p"
  "canonical_text (p\<lparr>cp_impact := g\<rparr>) = canonical_text p"
  by (simp_all add: canonical_text_def)

lemma journal_reads_back:
  assumes "get_revision opts None plan revision s = Inr p"
  obtains s' where "journal plan revision w s = Inr s'"
    "get_revision opts None plan revision s' = Inr (write_plan w p)"
proof -
  obtain row where row: "map_of (st_plans s) (plan, revision) = Some row"
    and p: "p = (overlay_statuses (recorded_statuses s plan revision) (pr_record row))
          \<lparr>cp_impact := (case pr_impact row of None \<Rightarrow> so_no_impact opts | Some g \<Rightarrow> g)\<rparr>"
    using assms by (auto simp: get_revision_Inr)
  show ?thesis
  proof (cases w)
    case (WState st)
    show ?thesis
      by (rule that) (auto simp: WState record_state_def row get_revision_Inr p recorded_statuses_def plan_update_commute)
  next
    case (WAction a n st at detail)
    define s' where "s' = s\<lparr>st_statuses := AList.update (plan, revision, a)
      \<lparr>sr_ordinal = (case map_of (st_statuses s) (plan, revision, a) of None \<Rightarrow> n | Some old \<Rightarrow> sr_ordinal old),
       sr_status = st, sr_settled = nanos at, sr_detail = detail\<rparr> (st_statuses s)\<rparr>"
    have "recorded_statuses s' plan revision = recorded_statuses s plan revision ++ [a \<mapsto> st]"
      by (auto simp: recorded_statuses_def s'_def map_add_def)
    then have "get_revision opts None plan revision s' = Inr (write_plan w p)"
      by (auto simp: get_revision_Inr WAction p overlay_statuses_overlay) (simp add: s'_def row)
    moreover have "journal plan revision w s = Inr s'"
      by (simp add: WAction record_action_status_def row s'_def Let_def)
    ultimately show ?thesis using that by blast
  qed
qed

lemma journal_all_reads_back:
  assumes "get_revision opts None plan revision s = Inr p"
  shows "\<exists>s'. journal_all plan revision ws s = Inr s' \<and>
    get_revision opts None plan revision s' = Inr (fold write_plan ws p)"
  using assms
proof (induction ws arbitrary: s p)
  case (Cons w ws)
  obtain s1 where "journal plan revision w s = Inr s1"
    "get_revision opts None plan revision s1 = Inr (write_plan w p)"
    using journal_reads_back[OF Cons.prems] by blast
  then show ?case using Cons.IH by simp
qed simp

lemma write_plan_text [simp]:
  "canonical_text (write_plan w p) = canonical_text p" "cp_digest (write_plan w p) = cp_digest p"
  by (cases w; simp)+

lemma write_all_text:
  "canonical_text (fold write_plan ws p) = canonical_text p" "cp_digest (fold write_plan ws p) = cp_digest p"
  by (induction ws arbitrary: p) simp_all

lemma put_reads_back:
  assumes "put_revision opts None p recovery s = Inr s'"
    and "redact_plan (so_hash opts) (so_redaction opts) p = p"
    and "so_blank opts (cp_impact p) \<Longrightarrow> cp_impact p = so_no_impact opts"
  shows "get_revision opts None (plan_id p) (cp_revision p) s' =
    Inr (overlay_statuses (recorded_statuses s (plan_id p) (cp_revision p)) p)"
  using assms
  by (auto simp: put_revision_def get_revision_Inr plan_row_of_def recorded_statuses_def Let_def)

section \<open>Sessions and their claims\<close>

text \<open>
  Sessions that share one store: the clock, the processes that run, and the lease each session
  holds.  A session dies with its process, and what it held dies with it.
\<close>

record 'i sessions =
  ss_store :: "'i Store"
  ss_now :: int
  ss_running :: "nat \<Rightarrow> bool"
  ss_held :: "ustr \<times> ustr \<rightharpoonup> int"

inductive claim_run :: "(ustr \<Rightarrow> nat) \<Rightarrow> 'i sessions \<Rightarrow> bool" for pid_of where
  start: "st_claims s = [] \<Longrightarrow> - (2 ^ 63) \<le> now \<Longrightarrow>
    claim_run pid_of \<lparr>ss_store = s, ss_now = now, ss_running = running, ss_held = Map.empty\<rparr>"
| claim: "claim_run pid_of z \<Longrightarrow> ss_running z (pid_of x) \<Longrightarrow>
    take_claim (ss_running z) (pid_of x) fault plan x (ss_now z) lease (ss_store z) = Inr (due, s') \<Longrightarrow>
    claim_run pid_of (z\<lparr>ss_store := s', ss_held := (ss_held z)((x, plan) \<mapsto> due)\<rparr>)"
| release: "claim_run pid_of z \<Longrightarrow> release fault plan x (ss_store z) = Inr s' \<Longrightarrow>
    claim_run pid_of (z\<lparr>ss_store := s', ss_held := (ss_held z)((x, plan) := None)\<rparr>)"
| forget: "claim_run pid_of z \<Longrightarrow>
    claim_run pid_of (z\<lparr>ss_held := (ss_held z)((x, plan) := None)\<rparr>)"
| store_write: "claim_run pid_of z \<Longrightarrow> st_claims s' = st_claims (ss_store z) \<Longrightarrow>
    claim_run pid_of (z\<lparr>ss_store := s'\<rparr>)"
| tick: "claim_run pid_of z \<Longrightarrow> ss_now z \<le> now \<Longrightarrow> claim_run pid_of (z\<lparr>ss_now := now\<rparr>)"
| spawn: "claim_run pid_of z \<Longrightarrow> claim_run pid_of (z\<lparr>ss_running := (ss_running z)(p := True)\<rparr>)"
| die: "claim_run pid_of z \<Longrightarrow>
    claim_run pid_of (z\<lparr>ss_running := (ss_running z)(p := False),
      ss_held := (\<lambda>(x, plan). if pid_of x = p then None else ss_held z (x, plan))\<rparr>)"

definition holds_claim :: "'i sessions \<Rightarrow> ustr \<Rightarrow> ustr \<Rightarrow> bool" where
  "holds_claim z x plan \<longleftrightarrow>
     (case ss_held z (x, plan) of None \<Rightarrow> False | Some due \<Rightarrow> nanos due > nanos (ss_now z))"

definition claim_inv :: "(ustr \<Rightarrow> nat) \<Rightarrow> 'i sessions \<Rightarrow> bool" where
  "claim_inv pid_of z \<longleftrightarrow>
     - (2 ^ 63) \<le> ss_now z \<and>
     (\<forall>x plan due. ss_held z (x, plan) = Some due \<longrightarrow> ss_running z (pid_of x) \<and>
        (nanos due > nanos (ss_now z) \<longrightarrow>
           (\<exists>c. map_of (st_claims (ss_store z)) plan = Some c \<and> cl_session c = x \<and>
              cl_expires c = nanos due \<and> cl_pid c = Some (pid_of x))))"

lemma nanos_mono: "- (2 ^ 63) \<le> a \<Longrightarrow> a \<le> b \<Longrightarrow> nanos a \<le> nanos b"
  by (auto simp: nanos_def i64_max_def)

lemma take_claim_Inr:
  "take_claim running pid fault plan session now lease s = Inr (due, s') \<longleftrightarrow>
     fault = None \<and> due = plus_lease now lease \<and>
     \<not> (\<exists>c. map_of (st_claims s) plan = Some c \<and> cl_expires c > nanos now \<and> cl_session c \<noteq> session \<and>
          holder_is_alive running (cl_pid c)) \<and>
     s' = s\<lparr>st_claims := AList.update plan \<lparr>cl_session = session, cl_claimed = nanos now,
       cl_expires = nanos due, cl_pid = Some pid\<rparr> (st_claims s)\<rparr>"
  by (auto simp: take_claim_def Let_def split: option.splits)

lemma claim_inv_take:
  assumes inv: "claim_inv pid_of z" and run: "ss_running z (pid_of x)"
    and taken: "take_claim (ss_running z) (pid_of x) fault plan x (ss_now z) lease (ss_store z) = Inr (due, s')"
  shows "claim_inv pid_of (z\<lparr>ss_store := s', ss_held := (ss_held z)((x, plan) \<mapsto> due)\<rparr>)"
proof -
  have only: "y = x \<or> nanos d \<le> nanos (ss_now z)" if held: "ss_held z (y, plan) = Some d" for y d
  proof (rule ccontr)
    assume "\<not> ?thesis"
    then have "y \<noteq> x" "nanos d > nanos (ss_now z)" by auto
    then obtain c where "map_of (st_claims (ss_store z)) plan = Some c" "cl_session c = y"
        "cl_expires c = nanos d" "cl_pid c = Some (pid_of y)" "ss_running z (pid_of y)"
      using inv held unfolding claim_inv_def by blast
    then show False using taken \<open>y \<noteq> x\<close> \<open>nanos d > nanos (ss_now z)\<close>
      by (auto simp: take_claim_Inr holder_is_alive_def)
  qed
  show ?thesis using inv run taken
    by (auto simp: claim_inv_def take_claim_Inr split: if_splits dest!: only)
qed

lemma claim_inv_release:
  assumes "claim_inv pid_of z" "release fault plan x (ss_store z) = Inr s'"
  shows "claim_inv pid_of (z\<lparr>ss_store := s', ss_held := (ss_held z)((x, plan) := None)\<rparr>)"
proof -
  have s': "s' = (ss_store z)\<lparr>st_claims := filter (\<lambda>(i, c). \<not> (i = plan \<and> cl_session c = x)) (st_claims (ss_store z))\<rparr>"
    using assms(2) by (auto simp: release_def split: option.splits)
  have kept: "map_of (filter (\<lambda>(i, c). \<not> (i = plan \<and> cl_session c = x)) cs) q = Some c"
    if "map_of cs q = Some c" "\<not> (q = plan \<and> cl_session c = x)" for cs q c
    using that by (induction cs) (auto split: if_splits)
  show ?thesis unfolding claim_inv_def
  proof (intro conjI allI impI, goal_cases)
    case 1
    then show ?case using assms(1) by (simp add: claim_inv_def)
  next
    case (2 y q d)
    then show ?case using assms(1) by (auto simp: claim_inv_def split: if_splits)
  next
    case (3 y q d)
    then have held: "ss_held z (y, q) = Some d" and other: "\<not> (y = x \<and> q = plan)"
      and live: "nanos d > nanos (ss_now z)" by (auto split: if_splits)
    obtain c where c: "map_of (st_claims (ss_store z)) q = Some c" "cl_session c = y"
        "cl_expires c = nanos d" "cl_pid c = Some (pid_of y)"
      using assms(1) held live unfolding claim_inv_def by blast
    have "map_of (st_claims s') q = Some c" unfolding s' using kept[OF c(1)] c(2) other by (auto simp del: de_Morgan_conj)
    then show ?case using c by auto
  qed
qed

lemma claim_run_inv: "claim_run pid_of z \<Longrightarrow> claim_inv pid_of z"
proof (induction rule: claim_run.induct)
  case (start s now running)
  then show ?case by (simp add: claim_inv_def)
next
  case (claim z x fault plan lease due s')
  then show ?case by (intro claim_inv_take)
next
  case (release z fault plan x s')
  then show ?case by (intro claim_inv_release)
next
  case (tick z now)
  then have "nanos (ss_now z) \<le> nanos now" by (auto simp: claim_inv_def intro: nanos_mono)
  moreover have "- (2 ^ 63) \<le> now" using tick by (auto simp: claim_inv_def)
  ultimately show ?case using tick.IH unfolding claim_inv_def
    by (auto dest: order.strict_trans1)
qed (auto simp: claim_inv_def split: if_splits)


lemma holds_claim_row:
  assumes "claim_run pid_of z" "holds_claim z x plan"
  obtains c where "map_of (st_claims (ss_store z)) plan = Some c" "cl_session c = x"
    "cl_expires c > nanos (ss_now z)" "cl_pid c = Some (pid_of x)" "ss_running z (pid_of x)"
proof -
  obtain due where "ss_held z (x, plan) = Some due" "nanos due > nanos (ss_now z)"
    using assms(2) by (auto simp: holds_claim_def split: option.splits)
  then show ?thesis using claim_run_inv[OF assms(1)] that unfolding claim_inv_def by metis
qed

section \<open>References\<close>

lemma widen_spec:
  assumes "width \<le> ID_FULL"
  shows "width \<le> widen ids width \<and> widen ids width \<le> ID_FULL \<and>
    (widen ids width < ID_FULL \<longrightarrow> distinct (map (take (widen ids width)) ids))"
  using assms
proof (induction ids width rule: widen.induct)
  case (1 ids width)
  show ?case
  proof (cases "width < ID_FULL \<and> \<not> distinct (map (take width) ids)")
    case True
    then show ?thesis using 1 by (subst (1 2 3 4) widen.simps) auto
  next
    case False
    then show ?thesis using 1(2) by (subst (1 2 3 4) widen.simps) auto
  qed
qed

lemma reference_width_distinct:
  assumes "distinct ids" "\<forall>i \<in> set ids. length i = ID_FULL"
  shows "distinct (map (take (plan_reference_width ids)) ids)"
    "ID_SHORT \<le> plan_reference_width ids" "plan_reference_width ids \<le> ID_FULL"
proof -
  have w: "plan_reference_width ids = widen ids ID_SHORT"
    by (simp add: plan_reference_width_def shortest_unique_prefixes_def ID_SHORT_def)
  note spec = widen_spec[of ID_SHORT ids]
  show "ID_SHORT \<le> plan_reference_width ids" "plan_reference_width ids \<le> ID_FULL"
    using spec by (simp_all add: w ID_SHORT_def ID_FULL_def)
  show "distinct (map (take (plan_reference_width ids)) ids)"
  proof (cases "widen ids ID_SHORT < ID_FULL")
    case False
    then have "widen ids ID_SHORT = ID_FULL" using spec by (simp add: ID_SHORT_def ID_FULL_def)
    then have "map (take (widen ids ID_SHORT)) ids = ids" using assms(2) by (simp add: map_idI)
    then show ?thesis using assms(1) by (simp add: w)
  qed (use spec in \<open>simp add: w ID_SHORT_def ID_FULL_def\<close>)
qed

lemma hex_no_space: "is_hex t \<Longrightarrow> c \<in> set t \<Longrightarrow> \<not> is_whitespace c"
  by (auto simp: is_hex_def list_all_iff is_ascii_digit_def is_whitespace_def)

lemma hex_unmarked: "is_hex t \<Longrightarrow> strip_prefix PLAN_PREFIX t = None" "is_hex t \<Longrightarrow> strip_prefix ASSET_PREFIX t = None"
  by (cases t; auto simp: is_hex_def strip_prefix_def PLAN_PREFIX_def ASSET_PREFIX_def is_ascii_digit_def)+

lemma id_parse_hex: "is_hex t \<Longrightarrow> id_parse PLAN_PREFIX t = Some t" "is_hex t \<Longrightarrow> id_parse ASSET_PREFIX t = Some t"
  by (simp_all add: id_parse_def hex_unmarked)

lemma hex_take: "is_hex t \<Longrightarrow> 0 < n \<Longrightarrow> is_hex (take n t)"
  by (auto simp: is_hex_def list_all_iff dest: in_set_takeD)

lemma reference_parse_rendered:
  assumes "is_hex body"
  shows "reference_parse (PLAN_PREFIX @ body) = Inr \<lparr>ref_kind = RefPlan, ref_body = body\<rparr>"
    "reference_parse (ASSET_PREFIX @ body) = Inr \<lparr>ref_kind = RefRecovery, ref_body = body\<rparr>"
proof -
  have plain: "\<forall>c \<in> set PLAN_PREFIX \<union> set ASSET_PREFIX. \<not> is_whitespace c"
    by (simp add: PLAN_PREFIX_def ASSET_PREFIX_def is_whitespace_def)
  have t: "trim (PLAN_PREFIX @ body) = PLAN_PREFIX @ body" "trim (ASSET_PREFIX @ body) = ASSET_PREFIX @ body"
    using hex_no_space[OF assms] plain by (auto intro!: trim_no_space)
  have n: "strip_prefix PLAN_PREFIX (ASSET_PREFIX @ body) = None"
    by (simp add: strip_prefix_def PLAN_PREFIX_def ASSET_PREFIX_def)
  show "reference_parse (PLAN_PREFIX @ body) = Inr \<lparr>ref_kind = RefPlan, ref_body = body\<rparr>"
    "reference_parse (ASSET_PREFIX @ body) = Inr \<lparr>ref_kind = RefRecovery, ref_body = body\<rparr>"
    using assms by (simp_all add: reference_parse_def t n id_parse_hex Let_def)
qed

lemma distinct_singleton_list: "distinct xs \<Longrightarrow> set xs = {i} \<Longrightarrow> xs = [i]"
proof (cases xs)
  case (Cons a ys)
  assume "distinct xs" "set xs = {i}"
  with Cons have "a = i" "i \<notin> set ys" "set ys \<subseteq> {i}" by auto
  then show ?thesis using Cons by (cases ys) auto
qed simp

lemma matching_unique:
  assumes "distinct (map (take w) (sorted_ids column))" "i \<in> set column" "w \<le> length i"
    and "\<forall>j \<in> set column. length j = length i"
  shows "matching_ids column (take w i) = [i]"
proof -
  have "j = i" if "j \<in> set column" "take w j = take w i" for j
    using assms(1,2) that by (auto simp: sorted_ids_def distinct_map inj_on_def)
  then have "set (filter (\<lambda>j. take (length (take w i)) j = take w i) column) = {i}"
    using assms(2,3) by auto
  then have "remdups (filter (\<lambda>j. take (length (take w i)) j = take w i) column) = [i]"
    by (intro distinct_singleton_list) simp_all
  then show ?thesis by (simp add: matching_ids_def sorted_ids_def)
qed


section \<open>Properties\<close>

text \<open>
  C3: Two sessions never apply one plan at once.  Whatever the sessions that share a store do, in
  whatever order, and whichever of them die, at most one holds an unexpired lease on a plan, its
  process is running, the store names it as the holder, and no other session can take the claim.
\<close>

theorem claim_is_exclusive:
  assumes "claim_run pid_of z" "holds_claim z x plan"
  shows "claim_holder (ss_running z) None plan (ss_now z) (ss_store z) = Inr (Some x) \<and>
    (holds_claim z y plan \<longrightarrow> y = x) \<and>
    (y \<noteq> x \<longrightarrow> take_claim (ss_running z) p None plan y (ss_now z) lease (ss_store z) =
       Inl (plan_already_applying plan x))"
proof -
  obtain c where c: "map_of (st_claims (ss_store z)) plan = Some c" "cl_session c = x"
    "cl_expires c > nanos (ss_now z)" "cl_pid c = Some (pid_of x)" "ss_running z (pid_of x)"
    using assms by (rule holds_claim_row)
  have "y = x" if "holds_claim z y plan" using holds_claim_row[OF assms(1) that] c by auto
  then show ?thesis using c by (auto simp: claim_holder_def take_claim_def holder_is_alive_def)
qed

text \<open>A store with one plan, for concrete instances.\<close>

definition plain_options :: "unit StoreOptions" where
  "plain_options = \<lparr>so_redaction = [], so_hash = id, so_no_impact = (), so_blank = (\<lambda>_. True)\<rparr>"

definition two_sessions :: "unit sessions" where
  "two_sessions = \<lparr>ss_store = store_empty, ss_now = 0, ss_running = (\<lambda>p. p \<in> {1, 2}), ss_held = Map.empty\<rparr>"

definition first_claims :: "unit sessions" where
  "first_claims = two_sessions\<lparr>ss_store := store_empty\<lparr>st_claims := [(asc ''p1'',
      \<lparr>cl_session = asc ''a'', cl_claimed = 0, cl_expires = 300000000000, cl_pid = Some 1\<rparr>)]\<rparr>,
    ss_held := [(asc ''a'', asc ''p1'') \<mapsto> 300000000000]\<rparr>"

definition pid_of_session :: "ustr \<Rightarrow> nat" where
  "pid_of_session x = (if x = asc ''a'' then 1 else 2)"

lemma first_claims_run: "claim_run pid_of_session first_claims"
proof -
  have "claim_run pid_of_session two_sessions"
    unfolding two_sessions_def by (rule claim_run.start) (simp_all add: store_empty_def)
  from claim_run.claim[OF this, of "asc ''a''" None "asc ''p1''" CLAIM_LEASE 300000000000
      "ss_store first_claims"] show ?thesis
    by (simp add: two_sessions_def first_claims_def take_claim_Inr store_empty_def pid_of_session_def
        plus_lease_def CLAIM_LEASE_def timestamp_min_def timestamp_max_def nanos_def i64_max_def Let_def)
qed

theorem claim_is_exclusive_witness:
  "claim_run pid_of_session first_claims \<and>
   take_claim (ss_running first_claims) 2 None (asc ''p1'') (asc ''b'') 0 CLAIM_LEASE (ss_store first_claims) =
     Inl (plan_already_applying (asc ''p1'') (asc ''a''))"
proof -
  have "holds_claim first_claims (asc ''a'') (asc ''p1'')"
    by (simp add: holds_claim_def first_claims_def two_sessions_def nanos_def i64_max_def)
  from claim_is_exclusive[OF first_claims_run this, of "asc ''b''" 2 CLAIM_LEASE] first_claims_run
  show ?thesis by (simp add: first_claims_def two_sessions_def)
qed

text \<open>
  No claim keeps a plan unappliable.  When the store answers, a
  session obtains the claim exactly when nobody else holds a live one: the holder released it, its
  lease ran out, or its process is gone.
\<close>

theorem claim_obtained_iff:
  "(\<exists>due s'. take_claim running pid None plan x now lease s = Inr (due, s')) \<longleftrightarrow>
     claim_holder running None plan now s \<in> {Inr None, Inr (Some x)}"
  by (auto simp: take_claim_Inr claim_holder_def split: option.splits)


definition stored_sample :: "unit Store" where
  "stored_sample = store_empty\<lparr>st_plans :=
     [((asc ''p1'', 1), plan_row_of plain_options sealed_sample None)]\<rparr>"

lemma put_sample: "put_revision plain_options None sealed_sample None store_empty = Inr stored_sample"
  by (simp add: put_revision_def stored_sample_def store_empty_def prior_recovery_def revisions_of_def
      max_revision_def coalesce_def cited_assets_def sealed_sample_def sample_plan_def draft_plan_def
      summary_empty_def)

lemma sample_unredacted: "redact_plan (so_hash plain_options) (so_redaction plain_options) sealed_sample = sealed_sample"
  by (simp add: redact_plan_def plain_options_def sealed_sample_def sample_plan_def redact_action_def
      sample_action_def action_new_def redact_argv_def)


text \<open>
  A printed reference can be typed back.  While the store's identities are full and
  hexadecimal, the reference printed for a stored plan resolves to that plan and to no other.
\<close>

theorem reference_resolves_back:
  assumes "\<forall>i \<in> set (plan_ids s). is_hex i \<and> length i = ID_FULL" "plan \<in> set (plan_ids s)"
  shows "\<exists>reference. render_reference None plan s = Inr reference \<and>
    resolve_reference None reference s = Inr plan"
proof -
  let ?ids = "sorted_ids (plan_ids s)" and ?w = "plan_reference_width (sorted_ids (plan_ids s))"
  have all: "matching_ids (plan_ids s) [] = ?ids" by (simp add: matching_ids_def)
  note w = reference_width_distinct[of ?ids]
  have ids: "distinct ?ids" "\<forall>i \<in> set ?ids. length i = ID_FULL" using assms(1) by (auto simp: sorted_ids_def)
  have hex: "is_hex plan" "length plan = ID_FULL" using assms by auto
  have "0 < ?w" using w(2)[OF ids] by (simp add: ID_SHORT_def)
  then have body: "is_hex (take ?w plan)" using hex by (intro hex_take)
  have one: "matching_ids (plan_ids s) (take ?w plan) = [plan]"
    using w(1,3)[OF ids] assms hex by (intro matching_unique) auto
  show ?thesis using reference_parse_rendered(1)[OF body] one hex
    by (simp add: render_reference_def reference_width_def all render_plan_def resolve_reference_def
        names_a_plan_def resolve_in_def id_parse_hex)
qed

definition two_plans :: "unit Store" where
  "two_plans = store_empty\<lparr>st_plans := map (\<lambda>i. ((asc i, 1), plan_row_of plain_options sealed_sample None))
     [''a82f000000000000'', ''a82f100000000000'']\<rparr>"

theorem reference_resolves_back_witness:
  "\<exists>reference. render_reference None (asc ''a82f100000000000'') two_plans = Inr reference \<and>
     resolve_reference None reference two_plans = Inr (asc ''a82f100000000000'')"
proof -
  have "\<forall>i \<in> set (plan_ids two_plans). is_hex i \<and> length i = ID_FULL" "asc ''a82f100000000000'' \<in> set (plan_ids two_plans)"
    by (simp_all add: plan_ids_def two_plans_def is_hex_def ID_FULL_def is_ascii_digit_def)
  then show ?thesis by (rule reference_resolves_back)
qed

text \<open>
  Which assets a plan rests on and which plans rest on an asset are one relation, asked from
  either side; so a preview of what a cleanup would strand and the assets of a plan agree.
\<close>

theorem asset_dependency_symmetric:
  assumes "\<forall>(i, _, a) \<in> set (st_plan_assets s). is_hex i \<and> is_hex a"
    and "\<forall>(i, a) \<in> set (st_assets s). is_hex i \<and> (\<forall>q. as_source_plan a = Some q \<longrightarrow> is_hex q)"
  shows "(\<exists>as. assets_for None plan s = Inr as \<and> asset \<in> set as) \<longleftrightarrow>
    (\<exists>ps. plans_depending_on None asset s = Inr ps \<and> plan \<in> set ps)"
proof -
  let ?rests = "(\<exists>r. (plan, r, asset) \<in> set (st_plan_assets s)) \<or>
    (\<exists>a. (asset, a) \<in> set (st_assets s) \<and> as_source_plan a = Some plan)"
  define cited where "cited = map (\<lambda>(_, _, a). a) (filter (\<lambda>(i, _, _). i = plan) (st_plan_assets s)) @
     map fst (filter (\<lambda>(_, a). as_source_plan a = Some plan) (st_assets s))"
  define citing where "citing = map fst (filter (\<lambda>(_, _, a). a = asset) (st_plan_assets s)) @
     List.map_filter (\<lambda>(i, a). if i = asset then as_source_plan a else None) (st_assets s)"
  have hex: "\<forall>x \<in> set cited. is_hex x" "\<forall>x \<in> set citing. is_hex x"
    using assms by (auto simp: cited_def citing_def List.map_filter_def split: if_splits)
  have parsed: "set (List.map_filter (id_parse m) (sorted_ids xs)) = set xs"
    if "\<forall>x \<in> set xs. is_hex x" "m = PLAN_PREFIX \<or> m = ASSET_PREFIX" for m xs
  proof -
    have "\<forall>x \<in> set xs. id_parse m x = Some x" using that id_parse_hex by auto
    then show ?thesis by (auto simp: List.map_filter_def sorted_ids_def image_iff)
  qed
  have "asset \<in> set cited \<longleftrightarrow> ?rests" by (force simp: cited_def)
  moreover have "plan \<in> set citing \<longleftrightarrow> ?rests" by (force simp: citing_def List.map_filter_def split: if_splits)
  ultimately show ?thesis
    using parsed[OF hex(1)] parsed[OF hex(2)]
    by (simp add: assets_for_def plans_depending_on_def flip: cited_def citing_def)
qed

lemma asset_table_hex_sample:
  "\<forall>(i, _, a) \<in> set (st_plan_assets (stored_sample\<lparr>st_plan_assets := [([97], 1, [98])]\<rparr>)). is_hex i \<and> is_hex a"
  by (simp add: is_hex_def ID_FULL_def)

theorem asset_dependency_symmetric_witness:
  "\<exists>ps. plans_depending_on None [98] (stored_sample\<lparr>st_plan_assets := [([97], 1, [98])]\<rparr>) = Inr ps \<and> [97] \<in> set ps"
proof -
  let ?s = "stored_sample\<lparr>st_plan_assets := [([97], 1, [98])]\<rparr>"
  have none: "\<forall>(i, a) \<in> set (st_assets ?s). is_hex i \<and> (\<forall>q. as_source_plan a = Some q \<longrightarrow> is_hex q)"
    by (simp add: stored_sample_def store_empty_def)
  have "assets_for None [97] ?s = Inr [[98]]"
    by (simp add: assets_for_def sorted_ids_def stored_sample_def store_empty_def List.map_filter_def
        id_parse_def strip_prefix_def ASSET_PREFIX_def is_hex_def ID_FULL_def)
  then show ?thesis using asset_dependency_symmetric[OF asset_table_hex_sample none, of "[97]" "[98]"] by simp
qed

section \<open>Where the code and its comments part\<close>

text \<open>
  A holder whose process is running loses its claim when one of its actions outlasts the lease:
  another session takes the plan while the action is still in flight.
\<close>

lemma live_holder_displaced:
  "ss_running first_claims (pid_of_session (asc ''a'')) \<and>
   (\<exists>due s'. take_claim (ss_running first_claims) 2 None (asc ''p1'') (asc ''b'') 300000000000 CLAIM_LEASE
      (ss_store first_claims) = Inr (due, s'))"
  by (simp add: take_claim_Inr first_claims_def two_sessions_def pid_of_session_def nanos_def i64_max_def)

text \<open>Removing a plan leaves the claim on it.\<close>

lemma removed_plan_keeps_claim:
  "remove_plan None plan s = Inr s' \<Longrightarrow> st_claims s' = st_claims s \<and> plan \<notin> set (plan_ids s')"
  by (auto simp: remove_plan_def plan_ids_def)

text \<open>An instant before the range of the column is stored as the last instant of it.\<close>

lemma nanos_wraps_past: "at < - (2 ^ 63) \<Longrightarrow> nanos at = i64_max"
  by (simp add: nanos_def)

end
