(* ===== verification/Plan_Prepare.thy ===== *)
theory Plan_Prepare
  imports Plan_Store
begin

text \<open>
  The preparation of an apply (\<open>crates/ono-change-executor/src/execute.rs\<close>, the first half): what
  a session may do, the rows a failure is told by, the quiesce window, the creation and validation
  of recovery assets, and the cleanup after a failed preparation.  The outside world is a record
  of functions that answer from, and move on, a state of their own.  Everything a run does is kept
  in a trace of events with the store as it stood after each: the states a killed shell can leave.
\<close>

section \<open>The outside world\<close>

datatype ExecutionOutcome = ExecSucceeded | ExecFailed ErrorValue | ExecUnknown ErrorValue

fun outcome_status :: "ExecutionOutcome \<Rightarrow> ActionStatus" where
  "outcome_status ExecSucceeded = ActSucceeded"
| "outcome_status (ExecFailed _) = ActFailed"
| "outcome_status (ExecUnknown _) = ActUnknown"

fun outcome_error :: "ExecutionOutcome \<Rightarrow> ErrorValue option" where
  "outcome_error ExecSucceeded = None"
| "outcome_error (ExecFailed e) = Some e"
| "outcome_error (ExecUnknown e) = Some e"

datatype Observation =
    Answered VerificationStatus "Value option"
  | TimedOut
  | Unobservable ErrorValue

record RevalidatedFinding = DriftFinding +
  drift_kind :: PreconditionKind

record 'w Env =
  env_pause :: "ustr \<Rightarrow> 'w \<Rightarrow> ErrorValue option \<times> 'w"
  env_unpause :: "ustr \<Rightarrow> 'w \<Rightarrow> ErrorValue option \<times> 'w"
  env_create :: "ustr \<Rightarrow> ProtectionAction \<Rightarrow> 'w \<Rightarrow> (ErrorValue + RecoveryAsset) \<times> 'w"
  env_validate :: "ustr \<Rightarrow> RecoveryAsset \<Rightarrow> 'w \<Rightarrow> (ErrorValue + RecoveryValidation) \<times> 'w"
  env_cleanup :: "ustr \<Rightarrow> RecoveryAsset \<Rightarrow> 'w \<Rightarrow> ErrorValue option \<times> 'w"
  env_revalidate :: "plan_action \<Rightarrow> 'w \<Rightarrow> (ErrorValue + RevalidatedFinding list) \<times> 'w"
  env_execute :: "plan_action \<Rightarrow> 'w \<Rightarrow> ExecutionOutcome \<times> 'w"
  env_observe :: "VerificationContract \<Rightarrow> 'w \<Rightarrow> Observation \<times> 'w"
  env_database :: "'w \<Rightarrow> ErrorValue option \<times> 'w"
  env_clock :: "'w \<Rightarrow> int \<times> 'w"
  env_running :: "'w \<Rightarrow> nat \<Rightarrow> bool"
  env_asset_id :: "ustr \<Rightarrow> ustr option \<Rightarrow> ustr \<Rightarrow> ustr \<Rightarrow> ustr"

datatype event =
    DidClaim bool | DidRelease | DidPause ustr bool | DidUnpause ustr bool
  | DidCreate ProtectionAction | DidProtect ProtectionAction RecoveryAsset | DidClean ustr bool
  | DidRevalidate ustr | DidRenew bool | DidRecord ustr ActionStatus bool
  | DidState PlanState bool | DidAsset ustr bool | DidExecute ustr ActionStatus | DidObserve ustr

record ('w, 'i) World =
  w_store :: "'i Store"
  w_env :: 'w
  w_trace :: "(event \<times> 'i Store) list"
  w_failures :: "ErrorValue list"

definition emit :: "event \<Rightarrow> ('w, 'i) World \<Rightarrow> ('w, 'i) World" where
  "emit e w = w\<lparr>w_trace := w_trace w @ [(e, w_store w)]\<rparr>"

definition call :: "('w \<Rightarrow> 'a \<times> 'w) \<Rightarrow> ('w, 'i) World \<Rightarrow> 'a \<times> ('w, 'i) World" where
  "call f w = (case f (w_env w) of (x, e) \<Rightarrow> (x, w\<lparr>w_env := e\<rparr>))"

text \<open>One write to the store: what the database answers, the change it makes, and the event.\<close>

definition store_write ::
    "'w Env \<Rightarrow> (ErrorValue option \<Rightarrow> 'i Store \<Rightarrow> ErrorValue + 'i Store) \<Rightarrow> (bool \<Rightarrow> event) \<Rightarrow>
     ('w, 'i) World \<Rightarrow> ErrorValue option \<times> ('w, 'i) World" where
  "store_write E write ev w =
     (case call (env_database E) w of (fault, w1) \<Rightarrow>
        case write fault (w_store w1) of
          Inl e \<Rightarrow> (Some e, emit (ev False) w1)
        | Inr s \<Rightarrow> (None, emit (ev True) (w1\<lparr>w_store := s\<rparr>)))"

definition keep_failure :: "ErrorValue option \<Rightarrow> ('w, 'i) World \<Rightarrow> ('w, 'i) World" where
  "keep_failure failure w =
     (case failure of None \<Rightarrow> w | Some e \<Rightarrow> w\<lparr>w_failures := w_failures w @ [e]\<rparr>)"

section \<open>Failure points and authority\<close>

datatype FailurePoint =
    FpClaim | FpPlanState | FpTargetRevalidation | FpPrivilegeCheck | FpRecoveryDiscovery | FpGate
  | FpRecoveryAssetCreation | FpRecoveryValidation | FpApplicationQuiesce | FpActionNotStarted
  | FpFirstMutateAction | FpMiddleMutateAction | FpRemoteDisconnect | FpUnknownOutcome
  | FpRequiredVerification | FpVerificationTimeout | FpRecoveryAction | FpRecoveryVerification
  | FpCleanup

definition point_may_have_mutated :: "FailurePoint \<Rightarrow> bool" where
  "point_may_have_mutated p \<longleftrightarrow>
     p \<in> {FpFirstMutateAction, FpMiddleMutateAction, FpRemoteDisconnect, FpUnknownOutcome,
          FpRequiredVerification, FpVerificationTimeout, FpRecoveryAction, FpRecoveryVerification}"

fun FailurePoint_as_str :: "FailurePoint \<Rightarrow> string" where
  "FailurePoint_as_str FpClaim = ''apply-claim''"
| "FailurePoint_as_str FpPlanState = ''plan-state''"
| "FailurePoint_as_str FpTargetRevalidation = ''target-revalidation''"
| "FailurePoint_as_str FpPrivilegeCheck = ''privilege-check''"
| "FailurePoint_as_str FpRecoveryDiscovery = ''recovery-discovery''"
| "FailurePoint_as_str FpGate = ''risk-gate''"
| "FailurePoint_as_str FpRecoveryAssetCreation = ''recovery-asset-creation''"
| "FailurePoint_as_str FpRecoveryValidation = ''recovery-validation''"
| "FailurePoint_as_str FpApplicationQuiesce = ''application-quiesce''"
| "FailurePoint_as_str FpActionNotStarted = ''action-not-started''"
| "FailurePoint_as_str FpFirstMutateAction = ''first-mutate-action''"
| "FailurePoint_as_str FpMiddleMutateAction = ''middle-mutate-action''"
| "FailurePoint_as_str FpRemoteDisconnect = ''remote-disconnect''"
| "FailurePoint_as_str FpUnknownOutcome = ''unknown-execution-outcome''"
| "FailurePoint_as_str FpRequiredVerification = ''verification-required-failed''"
| "FailurePoint_as_str FpVerificationTimeout = ''verification-timeout''"
| "FailurePoint_as_str FpRecoveryAction = ''recovery-action''"
| "FailurePoint_as_str FpRecoveryVerification = ''recovery-verification''"
| "FailurePoint_as_str FpCleanup = ''cleanup''"

record Authority =
  au_change :: "ChangeCapability list"
  au_recovery :: "RecoveryCapability list"
  au_elevated :: bool

definition authority_full :: Authority where
  "authority_full = \<lparr>au_change = [PlanRead, PlanContribute, ActionExecute, VerificationObserve],
     au_recovery = REQUIRED, au_elevated = True\<rparr>"

definition CAP_SYS_ADMIN :: nat where "CAP_SYS_ADMIN = 21"

definition for_session :: "nat \<Rightarrow> nat option \<Rightarrow> Authority" where
  "for_session effective_uid capabilities =
     authority_full\<lparr>au_elevated := (case capabilities of
        Some bits \<Rightarrow> odd (bits div 2 ^ CAP_SYS_ADMIN) | None \<Rightarrow> effective_uid = 0)\<rparr>"

definition planning_only :: Authority where
  "planning_only = \<lparr>au_change = [PlanRead], au_recovery = [], au_elevated = False\<rparr>"

definition au_changing :: "Authority \<Rightarrow> ChangeCapability \<Rightarrow> Authority" where
  "au_changing a c = (if c \<in> set (au_change a) then a else a\<lparr>au_change := au_change a @ [c]\<rparr>)"

definition au_recovering :: "Authority \<Rightarrow> RecoveryCapability \<Rightarrow> Authority" where
  "au_recovering a c = (if c \<in> set (au_recovery a) then a else a\<lparr>au_recovery := au_recovery a @ [c]\<rparr>)"

definition without_change :: "Authority \<Rightarrow> ChangeCapability \<Rightarrow> Authority" where
  "without_change a c = a\<lparr>au_change := filter (\<lambda>h. h \<noteq> c) (au_change a)\<rparr>"

definition without_recovery :: "Authority \<Rightarrow> RecoveryCapability \<Rightarrow> Authority" where
  "without_recovery a c = a\<lparr>au_recovery := filter (\<lambda>h. h \<noteq> c) (au_recovery a)\<rparr>"

definition unprivileged :: "Authority \<Rightarrow> Authority" where
  "unprivileged a = a\<lparr>au_elevated := False\<rparr>"

section \<open>Refusals\<close>

definition refusal_with :: "string \<Rightarrow> sentence list \<Rightarrow> ErrorValue" where
  "refusal_with code parts = \<lparr>ev_code = code, ev_message = Format code parts, ev_help = None\<rparr>"

definition capability_missing :: "ustr \<Rightarrow> string \<Rightarrow> bool \<Rightarrow> ErrorValue" where
  "capability_missing subject capability for_recovery =
     refusal_with ''change.capability_missing''
       [Say subject, Say (asc capability), Say (flag for_recovery)]"

definition asset_invalid :: "ustr \<Rightarrow> string list \<Rightarrow> ErrorValue" where
  "asset_invalid asset failures =
     refusal_with ''recovery.asset_invalid'' (Say asset # map (\<lambda>f. Say (asc f)) failures)"

definition asset_create_failed :: "string \<Rightarrow> string \<Rightarrow> ErrorValue" where
  "asset_create_failed provider scope =
     refusal_with ''recovery.asset_create_failed'' [Say (asc provider), Say (asc scope)]"

definition prepare_failed :: "ustr \<Rightarrow> FailurePoint \<Rightarrow> ErrorValue \<Rightarrow> ustr list \<Rightarrow> ErrorValue" where
  "prepare_failed plan point cause kept_ids =
     \<lparr>ev_code = ''change.prepare_failed'',
      ev_message = Format ''preparing the plan failed'' [Say plan, Say (asc (FailurePoint_as_str point))],
      ev_help = Some (Format ''cause'' (Say (asc (ev_code cause)) # ev_message cause # map Say kept_ids))\<rparr>"

section \<open>The requests and reports\<close>

record QuiesceReport =
  qr_application :: ustr
  qr_window :: nat
  qr_paused :: bool
  qr_resumed :: bool
  qr_critical :: "ErrorValue option"

datatype CleanupDecision = Retain | RemoveWherePermitted

record CleanupReport =
  cr_removed :: "ustr list"
  cr_retained :: "(ustr \<times> string) list"
  cr_failures :: "ErrorValue list"

record ProtectionShortfall =
  ps_provider :: ustr
  ps_summary :: ustr
  ps_asset :: "RecoveryAsset option"
  ps_reason :: ErrorValue

record 'i PrepareRequest =
  rq_plan :: "'i Plan"
  rq_protection :: "ProtectionAction list"
  rq_providers :: registry
  rq_now :: int
  rq_authority :: Authority
  rq_quiesce :: "(ustr \<times> nat) option"
  rq_cleanup :: CleanupDecision

text \<open>What a preparation writes back into its request.\<close>

record Preparation =
  pp_created :: "RecoveryAsset list"
  pp_shortfall :: "ProtectionShortfall list"
  pp_attempted :: "EffectDomain list"
  pp_protected :: "EffectDomain list"
  pp_failure :: "(FailurePoint \<times> ErrorValue) option"
  pp_quiesce :: "QuiesceReport option"
  pp_cleanup :: "CleanupReport option"

definition preparation_new :: Preparation where
  "preparation_new =
     \<lparr>pp_created = [], pp_shortfall = [], pp_attempted = [], pp_protected = [], pp_failure = None,
      pp_quiesce = None, pp_cleanup = None\<rparr>"

record Prepared =
  pd_assets :: "RecoveryAsset list"
  pd_shortfall :: "ProtectionShortfall list"
  pd_quiesce :: "QuiesceReport option"

definition prepared_nothing :: Prepared where
  "prepared_nothing = \<lparr>pd_assets = [], pd_shortfall = [], pd_quiesce = None\<rparr>"

definition retained_assets :: "Preparation \<Rightarrow> ustr list" where
  "retained_assets p =
     (let removed = (case pp_cleanup p of None \<Rightarrow> [] | Some r \<Rightarrow> cr_removed r)
      in map as_id (filter (\<lambda>a. as_id a \<notin> set removed) (pp_created p)))"

section \<open>Preparing\<close>

definition requires_protection :: "'i Plan \<Rightarrow> ProtectionAction \<Rightarrow> bool" where
  "requires_protection plan a \<longleftrightarrow> pa_required a \<or> refuses_shortfall (cp_protection_mode plan)"

definition shortfall_of :: "ProtectionAction \<Rightarrow> RecoveryAsset option \<Rightarrow> ErrorValue \<Rightarrow> ProtectionShortfall" where
  "shortfall_of a asset reason =
     \<lparr>ps_provider = pa_provider a, ps_summary = pa_summary a, ps_asset = asset, ps_reason = reason\<rparr>"

definition checked_asset :: "RecoveryAsset \<Rightarrow> int \<Rightarrow> ErrorValue + RecoveryValidation \<Rightarrow> RecoveryAsset" where
  "checked_asset asset now answer =
     asset_validated asset (case answer of
        Inr v \<Rightarrow> v
      | Inl err \<Rightarrow> (validation_none now (ev_message err))\<lparr>va_exists := True\<rparr>)"

definition create_and_validate ::
    "'w Env \<Rightarrow> registry \<Rightarrow> ProtectionAction \<Rightarrow> int \<Rightarrow> ('w, 'i) World \<Rightarrow>
     (ErrorValue + RecoveryAsset) \<times> ('w, 'i) World" where
  "create_and_validate E providers a now w =
     (case registry_get providers (pa_provider a) of
        None \<Rightarrow> (Inl (provider_unavailable (pa_provider a)
            (Format ''the plan named a recovery provider this session has not registered'' [])), w)
      | Some _ \<Rightarrow>
          (case call (env_create E (pa_provider a) a) w of (created, w1) \<Rightarrow>
             let w2 = emit (DidCreate a) w1 in
             case created of
               Inl e \<Rightarrow> (Inl e, w2)
             | Inr asset \<Rightarrow>
                 (case call (env_validate E (pa_provider a) asset) w2 of (answer, w3) \<Rightarrow>
                    (Inr (checked_asset asset now answer),
                     emit (DidProtect a (checked_asset asset now answer)) w3))))"

definition asset_refusal :: "RecoveryAsset \<Rightarrow> ErrorValue" where
  "asset_refusal asset =
     asset_invalid (as_id asset)
       (case as_validation asset of None \<Rightarrow> [] | Some v \<Rightarrow> validation_failures v)"

text \<open>One protection action, and the loop that stops at the first required failure.\<close>

definition prepare_one ::
    "'w Env \<Rightarrow> 'i PrepareRequest \<Rightarrow> ProtectionAction \<Rightarrow> Preparation \<Rightarrow> ('w, 'i) World \<Rightarrow>
     Preparation \<times> ('w, 'i) World" where
  "prepare_one E rq a p0 w =
     (let p = p0\<lparr>pp_attempted := pp_attempted p0 @ [ca_domain (pa_candidate a)]\<rparr>;
          required = requires_protection (rq_plan rq) a
      in if PrepareAsset \<notin> set (au_recovery (rq_authority rq)) then
           let err = capability_missing (plan_id (rq_plan rq)) (RecoveryCapability_as_str PrepareAsset) False
           in (if required then p\<lparr>pp_failure := Some (FpPrivilegeCheck, err)\<rparr>
               else p\<lparr>pp_shortfall := pp_shortfall p @ [shortfall_of a None err]\<rparr>, w)
         else
           (case create_and_validate E (rq_providers rq) a (rq_now rq) w of (answer, w1) \<Rightarrow>
              (case answer of
                 Inr asset \<Rightarrow>
                   let usable = asset_is_usable asset;
                       p1 = (if \<not> usable \<and> \<not> required
                             then p\<lparr>pp_shortfall := pp_shortfall p @
                               [shortfall_of a (Some asset) (asset_refusal asset)]\<rparr> else p);
                       p2 = (if usable
                             then p1\<lparr>pp_protected := pp_protected p1 @ [ca_domain (pa_candidate a)]\<rparr> else p1);
                       p3 = p2\<lparr>pp_created := pp_created p2 @ [asset]\<rparr>
                   in if \<not> usable \<and> required
                      then p3\<lparr>pp_failure := Some (FpRecoveryValidation, asset_refusal asset)\<rparr> else p3
               | Inl err \<Rightarrow>
                   if required then p\<lparr>pp_failure := Some (FpRecoveryAssetCreation, err)\<rparr>
                   else p\<lparr>pp_shortfall := pp_shortfall p @ [shortfall_of a None err]\<rparr>,
               w1)))"

fun prepare_loop ::
    "'w Env \<Rightarrow> 'i PrepareRequest \<Rightarrow> ProtectionAction list \<Rightarrow> Preparation \<Rightarrow> ('w, 'i) World \<Rightarrow>
     Preparation \<times> ('w, 'i) World" where
  "prepare_loop E rq [] p w = (p, w)"
| "prepare_loop E rq (a # rest) p w =
     (case prepare_one E rq a p w of (p1, w1) \<Rightarrow>
        if pp_failure p1 \<noteq> None then (p1, w1) else prepare_loop E rq rest p1 w1)"

definition lost_row :: "'i Plan \<Rightarrow> Preparation \<Rightarrow> DomainCoverage option" where
  "lost_row plan p =
     List.find (\<lambda>row. row_is_required row \<and> is_satisfied row \<and>
        row_domain row \<in> set (pp_attempted p) \<and> row_domain row \<notin> set (pp_protected p))
       (sum_rows (cp_protection plan))"

definition check_matrix :: "'i Plan \<Rightarrow> Preparation \<Rightarrow> Preparation" where
  "check_matrix plan p =
     (if pp_failure p \<noteq> None then p
      else case lost_row plan p of
        None \<Rightarrow> p
      | Some row \<Rightarrow>
          p\<lparr>pp_failure := Some (FpRecoveryAssetCreation,
              if pp_shortfall p = []
              then asset_create_failed ''the protection provider'' (EffectDomain_as_str (row_domain row))
              else ps_reason (last (pp_shortfall p)))\<rparr>)"

definition release_quiesce ::
    "'w Env \<Rightarrow> 'i PrepareRequest \<Rightarrow> Preparation \<Rightarrow> ('w, 'i) World \<Rightarrow>
     ErrorValue option \<times> Preparation \<times> ('w, 'i) World" where
  "release_quiesce E rq p w =
     (case (rq_quiesce rq, pp_quiesce p) of
        (Some (application, _), Some report) \<Rightarrow>
          if \<not> qr_paused report then (None, p, w)
          else (case call (env_unpause E application) w of (answer, w1) \<Rightarrow>
             (case answer of
                None \<Rightarrow> (None, p\<lparr>pp_quiesce := Some (report\<lparr>qr_resumed := True\<rparr>)\<rparr>,
                  emit (DidUnpause application True) w1)
              | Some e \<Rightarrow> (Some e, p\<lparr>pp_quiesce := Some (report\<lparr>qr_resumed := False, qr_critical := Some e\<rparr>)\<rparr>,
                  emit (DidUnpause application False) w1)))
      | _ \<Rightarrow> (None, p, w))"

section \<open>Cleaning up\<close>

definition retention_reason ::
    "'i PrepareRequest \<Rightarrow> RecoveryAsset \<Rightarrow> bool \<Rightarrow> ustr list \<Rightarrow> string option" where
  "retention_reason rq asset quiesce_holds depended_on =
     (if as_source_plan asset \<noteq> Some (plan_id (rq_plan rq))
      then Some ''it was not created solely for this prepare''
      else if \<not> (case registry_get (rq_providers rq) (as_provider asset) of
                   None \<Rightarrow> False | Some p \<Rightarrow> has_recovery (rp_capabilities p) CleanupAsset)
      then Some ''its provider does not declare recovery.cleanup''
      else if CleanupAsset \<notin> set (au_recovery (rq_authority rq))
      then Some ''this session does not hold recovery.cleanup''
      else if quiesce_holds
      then Some ''the quiesce window did not close, so the asset may still be needed''
      else if as_id asset \<in> set depended_on then Some ''another recovery asset depends on it''
      else if rt_hold (as_retention asset) then Some ''an explicit retention hold is on it''
      else None)"

definition remove_asset ::
    "'w Env \<Rightarrow> registry \<Rightarrow> RecoveryAsset \<Rightarrow> ('w, 'i) World \<Rightarrow> ErrorValue option \<times> ('w, 'i) World" where
  "remove_asset E providers asset w =
     (case registry_get providers (as_provider asset) of
        None \<Rightarrow> (Some (provider_unavailable (as_provider asset)
            (Format ''the provider that created the asset is not registered here'' [])), w)
      | Some _ \<Rightarrow>
          (case call (env_cleanup E (as_provider asset) asset) w of (answer, w1) \<Rightarrow>
             (answer, emit (DidClean (as_id asset) (answer = None)) w1)))"

fun cleanup_loop ::
    "'w Env \<Rightarrow> 'i PrepareRequest \<Rightarrow> bool \<Rightarrow> ustr list \<Rightarrow> RecoveryAsset list \<Rightarrow> CleanupReport \<Rightarrow>
     ('w, 'i) World \<Rightarrow> CleanupReport \<times> ('w, 'i) World" where
  "cleanup_loop E rq quiesce_holds depended_on [] r w = (r, w)"
| "cleanup_loop E rq quiesce_holds depended_on (asset # rest) r w =
     (case retention_reason rq asset quiesce_holds depended_on of
        Some reason \<Rightarrow>
          cleanup_loop E rq quiesce_holds depended_on rest
            (r\<lparr>cr_retained := cr_retained r @ [(as_id asset, reason)]\<rparr>) w
      | None \<Rightarrow>
          (case remove_asset E (rq_providers rq) asset w of (answer, w1) \<Rightarrow>
             cleanup_loop E rq quiesce_holds depended_on rest
               (case answer of
                  None \<Rightarrow> r\<lparr>cr_removed := cr_removed r @ [as_id asset]\<rparr>
                | Some e \<Rightarrow> r\<lparr>cr_failures := cr_failures r @ [e],
                    cr_retained := cr_retained r @ [(as_id asset, ''the provider could not remove it'')]\<rparr>) w1))"

definition run_cleanup ::
    "'w Env \<Rightarrow> 'i PrepareRequest \<Rightarrow> Preparation \<Rightarrow> ('w, 'i) World \<Rightarrow> Preparation \<times> ('w, 'i) World" where
  "run_cleanup E rq p w =
     (let empty = \<lparr>cr_removed = [], cr_retained = [], cr_failures = []\<rparr> in
      if rq_cleanup rq = RemoveWherePermitted then
        let quiesce_holds = (case pp_quiesce p of None \<Rightarrow> False | Some r \<Rightarrow> \<not> qr_resumed r);
            depended_on = concat (map as_dependencies (pp_created p))
        in (case cleanup_loop E rq quiesce_holds depended_on (pp_created p) empty w of (r, w1) \<Rightarrow>
              (p\<lparr>pp_cleanup := Some r\<rparr>, w1))
      else (p\<lparr>pp_cleanup := Some (empty\<lparr>cr_retained :=
              map (\<lambda>a. (as_id a, ''retained until a cleanup decision'')) (pp_created p)\<rparr>)\<rparr>, w))"

definition prepare_refusal :: "'i PrepareRequest \<Rightarrow> Preparation \<Rightarrow> FailurePoint \<Rightarrow> ErrorValue \<Rightarrow> ErrorValue" where
  "prepare_refusal rq p point cause =
     prepare_failed (plan_id (rq_plan rq)) point cause (retained_assets p)"

definition prepare_end ::
    "'w Env \<Rightarrow> 'i PrepareRequest \<Rightarrow> Preparation \<Rightarrow> ('w, 'i) World \<Rightarrow>
     (ErrorValue + Prepared) \<times> Preparation \<times> ('w, 'i) World" where
  "prepare_end E rq p w =
     (case release_quiesce E rq p w of (resume_failure, p1, w1) \<Rightarrow>
        (case (pp_failure p1, resume_failure) of
           (Some (point, err), _) \<Rightarrow>
             (case run_cleanup E rq p1 w1 of (p2, w2) \<Rightarrow>
                (Inl (prepare_refusal rq p2 point err), p2, w2))
         | (None, Some critical) \<Rightarrow>
             (case run_cleanup E rq (p1\<lparr>pp_failure := Some (FpApplicationQuiesce, critical)\<rparr>) w1 of (p2, w2) \<Rightarrow>
                (Inl critical, p2, w2))
         | (None, None) \<Rightarrow>
             (Inr \<lparr>pd_assets = filter asset_is_usable (pp_created p1), pd_shortfall = pp_shortfall p1,
                   pd_quiesce = pp_quiesce p1\<rparr>, p1, w1)))"

definition prepare ::
    "'w Env \<Rightarrow> 'i PrepareRequest \<Rightarrow> ('w, 'i) World \<Rightarrow>
     (ErrorValue + Prepared) \<times> Preparation \<times> ('w, 'i) World" where
  "prepare E rq w =
     (case rq_quiesce rq of
        None \<Rightarrow>
          (case prepare_loop E rq (rq_protection rq) preparation_new w of (p, w1) \<Rightarrow>
             prepare_end E rq (check_matrix (rq_plan rq) p) w1)
      | Some (application, window) \<Rightarrow>
          (case call (env_pause E application) w of (answer, w1) \<Rightarrow>
             let report = \<lparr>qr_application = application, qr_window = window, qr_paused = (answer = None),
                   qr_resumed = (answer \<noteq> None), qr_critical = None\<rparr>;
                 p0 = preparation_new\<lparr>pp_quiesce := Some report\<rparr>;
                 w2 = emit (DidPause application (answer = None)) w1
             in case answer of
                  Some e \<Rightarrow> (Inl e, p0\<lparr>pp_failure := Some (FpApplicationQuiesce, e)\<rparr>, w2)
                | None \<Rightarrow>
                    (case prepare_loop E rq (rq_protection rq) p0 w2 of (p, w3) \<Rightarrow>
                       prepare_end E rq (check_matrix (rq_plan rq) p) w3)))"

section \<open>What a step adds to the trace\<close>

text \<open>Between two worlds only events of one kind happened, and the store stayed as it was.\<close>

definition adds :: "(event \<Rightarrow> bool) \<Rightarrow> event list \<Rightarrow> ('w, 'i) World \<Rightarrow> ('w, 'i) World \<Rightarrow> bool" where
  "adds P es w w' \<longleftrightarrow>
     w_store w' = w_store w \<and> w_failures w' = w_failures w \<and>
     w_trace w' = w_trace w @ map (\<lambda>e. (e, w_store w)) es \<and> list_all P es"

lemma adds_refl [simp]: "adds P [] w w"
  by (simp add: adds_def)

lemma adds_trans: "adds P es w w1 \<Longrightarrow> adds P es' w1 w2 \<Longrightarrow> adds P (es @ es') w w2"
  by (simp add: adds_def)

lemma adds_emit: "P e \<Longrightarrow> adds P [e] w (emit e w)"
  by (simp add: adds_def emit_def)

lemma adds_call: "call f w = (x, w') \<Longrightarrow> adds P [] w w'"
  by (auto simp: adds_def call_def split: prod.splits)

lemma adds_mono: "adds P es w w' \<Longrightarrow> (\<And>e. P e \<Longrightarrow> Q e) \<Longrightarrow> adds Q es w w'"
  by (auto simp: adds_def list_all_iff)

lemma adds_call_emit: "call f w = (x, w1) \<Longrightarrow> P e \<Longrightarrow> adds P [e] w (emit e w1)"
  using adds_trans[of P "[]" w w1 "[e]"] by (simp add: adds_call adds_emit)

definition preparing_event :: "event \<Rightarrow> bool" where
  "preparing_event e \<longleftrightarrow> (case e of
     DidPause _ _ \<Rightarrow> True | DidUnpause _ _ \<Rightarrow> True | DidCreate _ \<Rightarrow> True | DidProtect _ _ \<Rightarrow> True
   | DidClean _ _ \<Rightarrow> True | _ \<Rightarrow> False)"

lemma preparing_simps [simp]:
  "preparing_event (DidPause x b)" "preparing_event (DidUnpause x b)" "preparing_event (DidCreate a)"
  "preparing_event (DidProtect a s)" "preparing_event (DidClean x b)"
  by (simp_all add: preparing_event_def)

lemma create_and_validate_adds:
  assumes "create_and_validate E providers a now w = (r, w')"
  shows "\<exists>es. adds preparing_event es w w' \<and> (\<forall>asset. r = Inr asset \<longrightarrow> DidProtect a asset \<in> set es)"
proof (cases "registry_get providers (pa_provider a)")
  case None
  then show ?thesis using assms by (auto simp: create_and_validate_def intro!: exI[of _ "[]"])
next
  case (Some prov)
  obtain created w1 where c: "call (env_create E (pa_provider a) a) w = (created, w1)" by fastforce
  have a1: "adds preparing_event [DidCreate a] w (emit (DidCreate a) w1)"
    by (rule adds_call_emit[OF c]) simp
  show ?thesis
  proof (cases created)
    case (Inl e)
    then show ?thesis using assms Some c a1 by (auto simp: create_and_validate_def Let_def)
  next
    case (Inr asset)
    obtain answer w3 where v: "call (env_validate E (pa_provider a) asset) (emit (DidCreate a) w1) = (answer, w3)"
      by fastforce
    have "adds preparing_event [DidCreate a, DidProtect a x] w (emit (DidProtect a x) w3)" for x
      using adds_trans[OF a1 adds_call_emit[OF v]] by simp
    then show ?thesis using assms Some c Inr v
      by (intro exI[of _ "[DidCreate a, DidProtect a (checked_asset asset now answer)]"])
        (auto simp: create_and_validate_def Let_def)
  qed
qed

section \<open>What a preparation has protected\<close>

definition backed :: "Preparation \<Rightarrow> event list \<Rightarrow> ProtectionAction \<Rightarrow> bool" where
  "backed p es a \<longleftrightarrow> (\<exists>asset \<in> set (pp_created p). asset_is_usable asset \<and> DidProtect a asset \<in> set es)"

definition prep_inv :: "'i PrepareRequest \<Rightarrow> ProtectionAction list \<Rightarrow> Preparation \<Rightarrow> event list \<Rightarrow> bool" where
  "prep_inv rq prior p es \<longleftrightarrow>
     pp_attempted p = map (\<lambda>a. ca_domain (pa_candidate a)) prior \<and>
     (pp_failure p = None \<longrightarrow> (\<forall>a \<in> set prior. requires_protection (rq_plan rq) a \<longrightarrow> backed p es a)) \<and>
     (\<forall>d \<in> set (pp_protected p). \<exists>a \<in> set prior. ca_domain (pa_candidate a) = d \<and> backed p es a)"

lemma backed_mono:
  "backed p es a \<Longrightarrow> set (pp_created p) \<subseteq> set (pp_created p') \<Longrightarrow> set es \<subseteq> set es' \<Longrightarrow> backed p' es' a"
  by (auto simp: backed_def)

lemma prepare_one_spec:
  assumes "prepare_one E rq a p w = (p', w')" "pp_failure p = None" "prep_inv rq prior p es"
  shows "\<exists>es'. adds preparing_event es' w w' \<and> prep_inv rq (prior @ [a]) p' (es @ es') \<and>
    pp_quiesce p' = pp_quiesce p \<and> pp_cleanup p' = pp_cleanup p"
proof (cases "PrepareAsset \<in> set (au_recovery (rq_authority rq))")
  case False
  then show ?thesis using assms
    by (intro exI[of _ "[]"]) (auto simp: prepare_one_def Let_def prep_inv_def backed_def split: if_splits)
next
  case True
  obtain r w1 where c: "create_and_validate E (rq_providers rq) a (rq_now rq) w = (r, w1)" by fastforce
  obtain es' where es': "adds preparing_event es' w w1"
    "\<And>asset. r = Inr asset \<Longrightarrow> DidProtect a asset \<in> set es'" using create_and_validate_adds[OF c] by blast
  have w': "w' = w1" using assms(1) True c by (auto simp: prepare_one_def Let_def)
  have grow: "backed q es x \<Longrightarrow> set (pp_created q) \<subseteq> set (pp_created q') \<Longrightarrow> backed q' (es @ es') x" for q q' x
    by (erule backed_mono) auto
  have "prep_inv rq (prior @ [a]) p' (es @ es') \<and> pp_quiesce p' = pp_quiesce p \<and> pp_cleanup p' = pp_cleanup p"
  proof (cases r)
    case (Inl e)
    have created: "pp_created p' = pp_created p"
      using assms(1) True c Inl by (auto simp: prepare_one_def Let_def split: if_splits)
    have old: "backed p es x \<Longrightarrow> backed p' (es @ es') x" for x by (erule grow) (auto simp: created)
    have facts: "pp_attempted p' = pp_attempted p @ [ca_domain (pa_candidate a)]" "pp_protected p' = pp_protected p"
      "pp_failure p' = None \<Longrightarrow> \<not> requires_protection (rq_plan rq) a"
      "pp_quiesce p' = pp_quiesce p" "pp_cleanup p' = pp_cleanup p"
      using assms(1) True c Inl by (auto simp: prepare_one_def Let_def split: if_splits)
    have "\<exists>x \<in> set (prior @ [a]). ca_domain (pa_candidate x) = d \<and> backed p' (es @ es') x"
      if "d \<in> set (pp_protected p')" for d using assms(3) that old facts(2) unfolding prep_inv_def by fastforce
    moreover have "backed p' (es @ es') x"
      if "pp_failure p' = None" "x \<in> set (prior @ [a])" "requires_protection (rq_plan rq) x" for x
      using assms(2,3) that old facts(3) unfolding prep_inv_def by auto
    ultimately show ?thesis using assms(3) facts unfolding prep_inv_def by simp
  next
    case (Inr asset)
    have created: "pp_created p' = pp_created p @ [asset]"
      using assms(1) True c Inr by (auto simp: prepare_one_def Let_def split: if_splits)
    have mine: "asset_is_usable asset \<Longrightarrow> backed p' (es @ es') a"
      using created es'(2)[OF Inr] by (auto simp: backed_def)
    have old: "backed p es x \<Longrightarrow> backed p' (es @ es') x" for x by (erule grow) (auto simp: created)
    have facts: "pp_attempted p' = pp_attempted p @ [ca_domain (pa_candidate a)]"
      "pp_protected p' = pp_protected p @ (if asset_is_usable asset then [ca_domain (pa_candidate a)] else [])"
      "pp_failure p' = None \<Longrightarrow> requires_protection (rq_plan rq) a \<Longrightarrow> asset_is_usable asset"
      "pp_quiesce p' = pp_quiesce p" "pp_cleanup p' = pp_cleanup p"
      using assms(1) True c Inr by (auto simp: prepare_one_def Let_def split: if_splits)
    have "\<exists>x \<in> set (prior @ [a]). ca_domain (pa_candidate x) = d \<and> backed p' (es @ es') x"
      if "d \<in> set (pp_protected p')" for d
      using assms(3) that old mine facts(2) unfolding prep_inv_def by (fastforce split: if_splits)
    moreover have "backed p' (es @ es') x"
      if "pp_failure p' = None" "x \<in> set (prior @ [a])" "requires_protection (rq_plan rq) x" for x
      using assms(2,3) that old mine facts(3) unfolding prep_inv_def by auto
    ultimately show ?thesis using assms(3) facts unfolding prep_inv_def by simp
  qed
  then show ?thesis using es'(1) w' by blast
qed

lemma prepare_loop_spec:
  assumes "prepare_loop E rq as p w = (p', w')" "pp_failure p = None" "prep_inv rq prior p es"
  shows "\<exists>es' ran. adds preparing_event es' w w' \<and> prep_inv rq ran p' (es @ es') \<and>
    (pp_failure p' = None \<longrightarrow> ran = prior @ as) \<and>
    pp_quiesce p' = pp_quiesce p \<and> pp_cleanup p' = pp_cleanup p"
  using assms
proof (induction as arbitrary: p w prior es)
  case Nil
  then show ?case by (intro exI[of _ "[]"] exI[of _ prior]) auto
next
  case (Cons a as)
  obtain p1 w1 where one: "prepare_one E rq a p w = (p1, w1)" by fastforce
  obtain es1 where es1: "adds preparing_event es1 w w1" "prep_inv rq (prior @ [a]) p1 (es @ es1)"
    "pp_quiesce p1 = pp_quiesce p" "pp_cleanup p1 = pp_cleanup p"
    using prepare_one_spec[OF one Cons.prems(2,3)] by blast
  show ?case
  proof (cases "pp_failure p1")
    case None
    then obtain es2 ran where "adds preparing_event es2 w1 w'" "prep_inv rq ran p' ((es @ es1) @ es2)"
      "pp_failure p' = None \<longrightarrow> ran = (prior @ [a]) @ as" "pp_quiesce p' = pp_quiesce p1" "pp_cleanup p' = pp_cleanup p1"
      using Cons.IH[of p1 w1 "prior @ [a]" "es @ es1"] Cons.prems(1) one es1 by auto
    then show ?thesis using es1 adds_trans[OF es1(1)]
      by (intro exI[of _ "es1 @ es2"] exI[of _ ran]) auto
  next
    case (Some f)
    then show ?thesis using Cons.prems(1) one es1 by auto
  qed
qed

section \<open>Closing the window and cleaning up\<close>

lemma release_quiesce_spec:
  assumes "release_quiesce E rq p w = (f, p', w')"
  shows "\<exists>es. adds preparing_event es w w' \<and> pp_created p' = pp_created p \<and> pp_failure p' = pp_failure p \<and>
    pp_shortfall p' = pp_shortfall p \<and> pp_protected p' = pp_protected p \<and> pp_attempted p' = pp_attempted p \<and>
    (\<forall>application window report. rq_quiesce rq = Some (application, window) \<longrightarrow>
       pp_quiesce p = Some report \<longrightarrow> qr_paused report \<longrightarrow>
       DidUnpause application (f = None) \<in> set es \<and>
       (\<exists>report'. pp_quiesce p' = Some report' \<and> qr_resumed report' = (f = None)))"
proof -
  consider "rq_quiesce rq = None \<or> pp_quiesce p = None"
    | x y report where "rq_quiesce rq = Some (x, y)" "pp_quiesce p = Some report"
    by (cases "rq_quiesce rq"; cases "pp_quiesce p") auto
  then show ?thesis
  proof cases
    case 1
    then show ?thesis using assms
      by (intro exI[of _ "[]"]) (auto simp: release_quiesce_def split: option.splits)
  next
    case (2 x y report)
    obtain answer w1 where c: "call (env_unpause E x) w = (answer, w1)" by fastforce
    have "adds preparing_event [DidUnpause x b] w (emit (DidUnpause x b) w1)" for b
      by (rule adds_call_emit[OF c]) simp
    note ev = this
    show ?thesis
    proof (cases "qr_paused report")
      case True
      then show ?thesis using assms 2 c ev[of "f = None"]
        by (intro exI[of _ "[DidUnpause x (f = None)]"]) (auto simp: release_quiesce_def split: option.splits)
    next
      case False
      then show ?thesis using assms 2 by (intro exI[of _ "[]"]) (auto simp: release_quiesce_def)
    qed
  qed
qed

lemma remove_asset_adds:
  assumes "remove_asset E providers asset w = (answer, w')"
  shows "\<exists>es. adds preparing_event es w w'"
proof (cases "registry_get providers (as_provider asset)")
  case None
  then show ?thesis using assms by (auto simp: remove_asset_def intro: exI[of _ "[]"])
next
  case (Some prov)
  obtain x w1 where c: "call (env_cleanup E (as_provider asset) asset) w = (x, w1)" by fastforce
  have "adds preparing_event [DidClean (as_id asset) b] w (emit (DidClean (as_id asset) b) w1)" for b
    by (rule adds_call_emit[OF c]) simp
  then show ?thesis using assms Some c by (auto simp: remove_asset_def)
qed

lemma cleanup_loop_spec:
  assumes "cleanup_loop E rq q d assets r w = (r', w')"
  shows "(\<exists>es. adds preparing_event es w w') \<and>
    set (cr_removed r) \<subseteq> set (cr_removed r') \<and> fst ` set (cr_retained r) \<subseteq> fst ` set (cr_retained r') \<and>
    (\<forall>a \<in> set assets. as_id a \<in> set (cr_removed r') \<or> as_id a \<in> fst ` set (cr_retained r')) \<and>
    (\<forall>i \<in> set (cr_removed r'). i \<in> set (cr_removed r) \<or>
       (\<exists>a \<in> set assets. as_id a = i \<and> retention_reason rq a q d = None))"
  using assms
proof (induction assets arbitrary: r w)
  case Nil
  then show ?case by (auto intro: exI[of _ "[]"])
next
  case (Cons a assets)
  show ?case
  proof (cases "retention_reason rq a q d")
    case (Some reason)
    then show ?thesis using Cons.IH[of "r\<lparr>cr_retained := cr_retained r @ [(as_id a, reason)]\<rparr>" w] Cons.prems
      by auto
  next
    case None
    obtain answer w1 where one: "remove_asset E (rq_providers rq) a w = (answer, w1)" by fastforce
    then obtain es1 where es1: "adds preparing_event es1 w w1" using remove_asset_adds by blast
    define r1 where "r1 = (case answer of None \<Rightarrow> r\<lparr>cr_removed := cr_removed r @ [as_id a]\<rparr>
      | Some e \<Rightarrow> r\<lparr>cr_failures := cr_failures r @ [e],
          cr_retained := cr_retained r @ [(as_id a, ''the provider could not remove it'')]\<rparr>)"
    have step: "cleanup_loop E rq q d assets r1 w1 = (r', w')"
      using Cons.prems None one by (simp add: r1_def)
    have r1: "set (cr_removed r) \<subseteq> set (cr_removed r1)" "fst ` set (cr_retained r) \<subseteq> fst ` set (cr_retained r1)"
      "as_id a \<in> set (cr_removed r1) \<or> as_id a \<in> fst ` set (cr_retained r1)"
      "set (cr_removed r1) \<subseteq> insert (as_id a) (set (cr_removed r))"
      by (auto simp: r1_def split: option.splits)
    note ih = Cons.IH[OF step]
    then obtain es2 where "adds preparing_event es2 w1 w'" by blast
    then have "\<exists>es. adds preparing_event es w w'" using adds_trans[OF es1] by blast
    moreover have "set (cr_removed r) \<subseteq> set (cr_removed r') \<and> fst ` set (cr_retained r) \<subseteq> fst ` set (cr_retained r')"
      using ih r1(1,2) by (meson subset_trans)
    moreover have "\<forall>x \<in> set (a # assets). as_id x \<in> set (cr_removed r') \<or> as_id x \<in> fst ` set (cr_retained r')"
    proof -
      have "as_id a \<in> set (cr_removed r') \<or> as_id a \<in> fst ` set (cr_retained r')" using ih r1(3) by blast
      then show ?thesis using ih by simp
    qed
    moreover have "\<forall>i \<in> set (cr_removed r'). i \<in> set (cr_removed r) \<or>
       (\<exists>x \<in> set (a # assets). as_id x = i \<and> retention_reason rq x q d = None)"
    proof
      fix i assume "i \<in> set (cr_removed r')"
      then have "i \<in> set (cr_removed r1) \<or> (\<exists>x \<in> set assets. as_id x = i \<and> retention_reason rq x q d = None)"
        using ih by blast
      then show "i \<in> set (cr_removed r) \<or> (\<exists>x \<in> set (a # assets). as_id x = i \<and> retention_reason rq x q d = None)"
        using r1(4) None by auto
    qed
    ultimately show ?thesis by blast
  qed
qed

lemma run_cleanup_spec:
  assumes "run_cleanup E rq p w = (p', w')"
  shows "\<exists>es report. adds preparing_event es w w' \<and> p' = p\<lparr>pp_cleanup := Some report\<rparr> \<and>
    (\<forall>a \<in> set (pp_created p). as_id a \<in> set (cr_removed report) \<or> as_id a \<in> fst ` set (cr_retained report)) \<and>
    (\<forall>i \<in> set (cr_removed report). rq_cleanup rq = RemoveWherePermitted \<and> (\<exists>a \<in> set (pp_created p). as_id a = i \<and>
       as_source_plan a = Some (plan_id (rq_plan rq)) \<and> \<not> rt_hold (as_retention a) \<and>
       i \<notin> set (concat (map as_dependencies (pp_created p)))))"
proof (cases "rq_cleanup rq = RemoveWherePermitted")
  case True
  define q where "q = (case pp_quiesce p of None \<Rightarrow> False | Some r \<Rightarrow> \<not> qr_resumed r)"
  define d where "d = concat (map as_dependencies (pp_created p))"
  obtain r w1 where loop: "cleanup_loop E rq q d (pp_created p)
      \<lparr>cr_removed = [], cr_retained = [], cr_failures = []\<rparr> w = (r, w1)" by fastforce
  have out: "p' = p\<lparr>pp_cleanup := Some r\<rparr>" "w' = w1"
    using assms True loop by (auto simp: run_cleanup_def Let_def q_def[symmetric] d_def[symmetric])
  have why: "retention_reason rq a q d = None \<Longrightarrow> as_source_plan a = Some (plan_id (rq_plan rq)) \<and>
      \<not> rt_hold (as_retention a) \<and> as_id a \<notin> set d" for a
    by (auto simp: retention_reason_def split: if_splits)
  note spec = cleanup_loop_spec[OF loop]
  then obtain es where es: "adds preparing_event es w w'" using out(2) by blast
  have kept: "\<forall>a \<in> set (pp_created p). as_id a \<in> set (cr_removed r) \<or> as_id a \<in> fst ` set (cr_retained r)"
    using spec by blast
  have gone: "\<forall>i \<in> set (cr_removed r). \<exists>a \<in> set (pp_created p). as_id a = i \<and> retention_reason rq a q d = None"
    using spec by simp
  have "\<forall>i \<in> set (cr_removed r). \<exists>a \<in> set (pp_created p). as_id a = i \<and>
       as_source_plan a = Some (plan_id (rq_plan rq)) \<and> \<not> rt_hold (as_retention a) \<and> i \<notin> set d"
    using gone why by metis
  then show ?thesis using es kept out(1) True unfolding d_def by blast
next
  case False
  then show ?thesis using assms
    by (intro exI[of _ "[]"] exI[of _ "\<lparr>cr_removed = [], cr_retained =
        map (\<lambda>a. (as_id a, ''retained until a cleanup decision'')) (pp_created p), cr_failures = []\<rparr>"])
      (auto simp: run_cleanup_def Let_def image_image)
qed

definition prepare_point :: "FailurePoint \<Rightarrow> bool" where
  "prepare_point x \<longleftrightarrow>
     x \<in> {FpPrivilegeCheck, FpRecoveryAssetCreation, FpRecoveryValidation, FpApplicationQuiesce}"

definition point_ok :: "Preparation \<Rightarrow> bool" where
  "point_ok p \<longleftrightarrow> (\<forall>x e. pp_failure p = Some (x, e) \<longrightarrow> prepare_point x)"

lemma prepare_one_point: "prepare_one E rq a p w = (p', w') \<Longrightarrow> point_ok p \<Longrightarrow> point_ok p'"
  by (auto simp: prepare_one_def point_ok_def prepare_point_def Let_def split: prod.splits sum.splits if_splits)

lemma prepare_loop_point: "prepare_loop E rq as p w = (p', w') \<Longrightarrow> point_ok p \<Longrightarrow> point_ok p'"
proof (induction as arbitrary: p w)
  case (Cons a as)
  obtain p1 w1 where one: "prepare_one E rq a p w = (p1, w1)" by fastforce
  then show ?case using Cons prepare_one_point[OF one] by (auto split: if_splits)
qed simp

lemma check_matrix_keeps:
  "pp_created (check_matrix plan p) = pp_created p" "pp_quiesce (check_matrix plan p) = pp_quiesce p"
  "pp_failure (check_matrix plan p) = None \<longleftrightarrow> pp_failure p = None \<and> lost_row plan p = None"
  "point_ok p \<Longrightarrow> point_ok (check_matrix plan p)"
  by (auto simp: check_matrix_def point_ok_def prepare_point_def split: option.splits)

definition cleaned_honestly :: "'i PrepareRequest \<Rightarrow> Preparation \<Rightarrow> bool" where
  "cleaned_honestly rq p \<longleftrightarrow>
     (\<forall>a \<in> set (pp_created p). as_id a \<notin> set (retained_assets p) \<longrightarrow>
        rq_cleanup rq = RemoveWherePermitted \<and>
        (\<exists>b \<in> set (pp_created p). as_id b = as_id a \<and> as_source_plan b = Some (plan_id (rq_plan rq)) \<and>
           \<not> rt_hold (as_retention b) \<and> as_id a \<notin> set (concat (map as_dependencies (pp_created p)))))"

lemma run_cleanup_honest:
  assumes "run_cleanup E rq p w = (p', w')"
  shows "cleaned_honestly rq p'"
proof -
  obtain report where p': "p' = p\<lparr>pp_cleanup := Some report\<rparr>"
    and gone: "\<forall>i \<in> set (cr_removed report). rq_cleanup rq = RemoveWherePermitted \<and> (\<exists>a \<in> set (pp_created p). as_id a = i \<and>
       as_source_plan a = Some (plan_id (rq_plan rq)) \<and> \<not> rt_hold (as_retention a) \<and>
       i \<notin> set (concat (map as_dependencies (pp_created p))))"
    using run_cleanup_spec[OF assms] by blast
  have "as_id a \<in> set (cr_removed report)" if "a \<in> set (pp_created p)" "as_id a \<notin> set (retained_assets p')" for a
    using that by (auto simp: retained_assets_def p')
  then show ?thesis using gone unfolding cleaned_honestly_def p' by fastforce
qed

definition window_closed :: "'i PrepareRequest \<Rightarrow> Preparation \<Rightarrow> event list \<Rightarrow> bool" where
  "window_closed rq p es \<longleftrightarrow>
     (\<forall>application window report. rq_quiesce rq = Some (application, window) \<longrightarrow>
        pp_quiesce p = Some report \<longrightarrow> qr_paused report \<longrightarrow> (\<exists>b. DidUnpause application b \<in> set es))"

text \<open>What a preparation that succeeded, and one that failed, answer.\<close>

definition ends_well :: "'i PrepareRequest \<Rightarrow> Preparation \<Rightarrow> QuiesceReport option \<Rightarrow> Prepared \<Rightarrow> bool" where
  "ends_well rq p q d \<longleftrightarrow>
     pp_failure p = None \<and> pd_assets d = filter asset_is_usable (pp_created p) \<and>
     (\<forall>x report. rq_quiesce rq = Some x \<longrightarrow> q = Some report \<longrightarrow> qr_paused report \<longrightarrow>
        (\<exists>report'. pd_quiesce d = Some report' \<and> qr_resumed report'))"

definition ends_badly :: "'i PrepareRequest \<Rightarrow> Preparation \<Rightarrow> ErrorValue \<Rightarrow> bool" where
  "ends_badly rq p e \<longleftrightarrow>
     cleaned_honestly rq p \<and>
     (\<exists>point cause. pp_failure p = Some (point, cause) \<and> prepare_point point \<and>
        (e = cause \<or> e = prepare_failed (plan_id (rq_plan rq)) point cause (retained_assets p)))"

lemma prepare_end_spec:
  assumes "prepare_end E rq p w = (r, p', w')" "point_ok p"
  shows "\<exists>es. adds preparing_event es w w' \<and> pp_created p' = pp_created p \<and> window_closed rq p es \<and>
    (pp_failure p \<noteq> None \<longrightarrow> pp_failure p' = pp_failure p) \<and>
    (\<forall>d. r = Inr d \<longrightarrow> ends_well rq p (pp_quiesce p) d) \<and> (\<forall>e. r = Inl e \<longrightarrow> ends_badly rq p' e)"
proof -
  obtain f p1 w1 where rel: "release_quiesce E rq p w = (f, p1, w1)" using prod_cases3 by blast
  obtain es1 where es1: "adds preparing_event es1 w w1" "pp_created p1 = pp_created p" "pp_failure p1 = pp_failure p"
    and closed: "\<forall>application window report. rq_quiesce rq = Some (application, window) \<longrightarrow>
       pp_quiesce p = Some report \<longrightarrow> qr_paused report \<longrightarrow>
       DidUnpause application (f = None) \<in> set es1 \<and>
       (\<exists>report'. pp_quiesce p1 = Some report' \<and> qr_resumed report' = (f = None))"
    using release_quiesce_spec[OF rel] by blast
  have win: "window_closed rq p (es1 @ es)" for es using closed by (fastforce simp: window_closed_def)
  show ?thesis
  proof (cases "pp_failure p1 = None \<and> f = None")
    case True
    then show ?thesis using assms(1) rel es1 closed win[of "[]"]
      by (intro exI[of _ es1]) (auto simp: prepare_end_def ends_well_def)
  next
    case False
    define p1' where "p1' = (if pp_failure p1 = None then p1\<lparr>pp_failure := map_option (Pair FpApplicationQuiesce) f\<rparr> else p1)"
    obtain p2 w2 where cl: "run_cleanup E rq p1' w1 = (p2, w2)" by fastforce
    obtain es2 report where es2: "adds preparing_event es2 w1 w2" "p2 = p1'\<lparr>pp_cleanup := Some report\<rparr>"
      using run_cleanup_spec[OF cl] by blast
    have out: "p' = p2" "w' = w2" "r = Inl (case pp_failure p1 of Some (x, c) \<Rightarrow> prepare_refusal rq p2 x c | None \<Rightarrow> the f)"
      using assms(1) rel cl False by (auto simp: prepare_end_def p1'_def split: option.splits if_splits)
    have "pp_failure p2 = (if pp_failure p = None then map_option (Pair FpApplicationQuiesce) f else pp_failure p)"
      "pp_created p2 = pp_created p" using es2(2) es1 by (simp_all add: p1'_def)
    then show ?thesis
      using es2 es1 out False win run_cleanup_honest[OF cl] adds_trans[OF es1(1) es2(1)] assms(2)
      by (intro exI[of _ "es1 @ es2"])
        (auto simp: ends_badly_def point_ok_def prepare_point_def prepare_refusal_def split: option.splits prod.splits)
  qed
qed

lemma prep_inv_mono:
  assumes "prep_inv rq prior p es"
  shows "prep_inv rq prior p (es @ es')"
proof -
  have "backed p es a \<Longrightarrow> backed p (es @ es') a" for a by (auto simp: backed_def)
  then show ?thesis using assms unfolding prep_inv_def by blast
qed

lemma prep_inv_start: "pp_created p = [] \<Longrightarrow> pp_attempted p = [] \<Longrightarrow> pp_protected p = [] \<Longrightarrow> prep_inv rq [] p []"
  by (simp add: prep_inv_def)

text \<open>The body of a preparation: the loop, the matrix and the end.\<close>

lemma prepare_body:
  assumes "prepare_loop E rq (rq_protection rq) p0 w = (p, w1)" "p0 = preparation_new\<lparr>pp_quiesce := q\<rparr>"
    and "prepare_end E rq (check_matrix (rq_plan rq) p) w1 = (r, p', w')"
  obtains es ran where "adds preparing_event es w w'" "prep_inv rq ran p es" "pp_created p' = pp_created p"
    "window_closed rq p0 es"
    "\<And>d. r = Inr d \<Longrightarrow> ran = rq_protection rq \<and> lost_row (rq_plan rq) p = None \<and> ends_well rq p q d"
    "\<And>e. r = Inl e \<Longrightarrow> ends_badly rq p' e"
proof -
  have p0: "pp_failure p0 = None" "prep_inv rq [] p0 []" "point_ok p0" "pp_quiesce p0 = q"
    by (simp_all add: assms(2) preparation_new_def prep_inv_start point_ok_def)
  obtain es1 ran where l: "adds preparing_event es1 w w1" "prep_inv rq ran p ([] @ es1)"
    "pp_failure p = None \<longrightarrow> ran = [] @ rq_protection rq" "pp_quiesce p = pp_quiesce p0"
    using prepare_loop_spec[OF assms(1) p0(1,2)] by (elim exE conjE) (rule that)
  have "point_ok p" using prepare_loop_point[OF assms(1) p0(3)] .
  from prepare_end_spec[OF assms(3) check_matrix_keeps(4)[OF this]]
  obtain es2 where es2: "adds preparing_event es2 w1 w'" "pp_created p' = pp_created p"
      "window_closed rq (check_matrix (rq_plan rq) p) es2"
    and ok: "\<forall>d. r = Inr d \<longrightarrow> ends_well rq (check_matrix (rq_plan rq) p) q d"
    and bad: "\<forall>e. r = Inl e \<longrightarrow> ends_badly rq p' e"
    unfolding check_matrix_keeps l(4) p0(4) by blast
  have ok': "ran = rq_protection rq \<and> lost_row (rq_plan rq) p = None \<and> ends_well rq p q d" if "r = Inr d" for d
    using ok that l(3) by (auto simp: ends_well_def check_matrix_keeps)
  have inv: "prep_inv rq ran p (es1 @ es2)"
    using l(2) by (auto intro: prep_inv_mono)
  have win: "window_closed rq p0 (es1 @ es2)"
    using es2(3) l(4) unfolding window_closed_def check_matrix_keeps by (fastforce simp: l(4))
  show ?thesis
    by (rule that[OF adds_trans[OF l(1) es2(1)] inv es2(2) win]) (use ok' bad in auto)
qed


lemma prepare_cases:
  assumes "prepare E rq w = (r, p', w')"
  obtains (refused) x y e where "rq_quiesce rq = Some (x, y)" "r = Inl e" "pp_created p' = []"
      "pp_failure p' = Some (FpApplicationQuiesce, e)" "pp_cleanup p' = None"
      "adds preparing_event [DidPause x False] w w'"
  | (ran) q es0 w2 p w3 where "adds preparing_event es0 w w2"
      "prepare_loop E rq (rq_protection rq) (preparation_new\<lparr>pp_quiesce := q\<rparr>) w2 = (p, w3)"
      "prepare_end E rq (check_matrix (rq_plan rq) p) w3 = (r, p', w')"
      "case rq_quiesce rq of None \<Rightarrow> q = None \<and> es0 = []
       | Some (x, y) \<Rightarrow> es0 = [DidPause x True] \<and> (\<exists>report. q = Some report \<and> qr_paused report)"
proof (cases "rq_quiesce rq")
  case None
  obtain p w3 where l: "prepare_loop E rq (rq_protection rq) preparation_new w = (p, w3)" by fastforce
  have "preparation_new\<lparr>pp_quiesce := None\<rparr> = preparation_new" by (simp add: preparation_new_def)
  then show ?thesis using assms None l by (intro ran[of "[]" w None p w3]) (simp_all add: prepare_def)
next
  case (Some xy)
  obtain x y where xy: "xy = (x, y)" by fastforce
  obtain answer w1 where c: "call (env_pause E x) w = (answer, w1)" by fastforce
  have ev: "adds preparing_event [DidPause x b] w (emit (DidPause x b) w1)" for b
    by (rule adds_call_emit[OF c]) simp
  show ?thesis
  proof (cases answer)
    case None
    define report where "report = \<lparr>qr_application = x, qr_window = y, qr_paused = True, qr_resumed = False, qr_critical = None\<rparr>"
    obtain p w3 where l: "prepare_loop E rq (rq_protection rq) (preparation_new\<lparr>pp_quiesce := Some report\<rparr>)
        (emit (DidPause x True) w1) = (p, w3)" by fastforce
    show ?thesis
    proof (rule ran[OF ev[of True] l])
      show "prepare_end E rq (check_matrix (rq_plan rq) p) w3 = (r, p', w')"
        using assms Some xy c None l by (simp add: prepare_def Let_def report_def)
    qed (simp add: Some xy report_def)
  next
    case (Some e)
    then show ?thesis using assms \<open>rq_quiesce rq = Some xy\<close> xy c ev[of False]
      by (intro refused[of x y e]) (auto simp: prepare_def Let_def preparation_new_def)
  qed
qed

section \<open>Properties\<close>



text \<open>A world where every call succeeds, and a plan protected by one snapshot.\<close>

definition calm :: "unit Env" where
  "calm = \<lparr>env_pause = (\<lambda>_ w. (None, w)), env_unpause = (\<lambda>_ w. (None, w)),
     env_create = (\<lambda>_ a w. (Inr (pa_proposed_asset a), w)),
     env_validate = (\<lambda>_ _ w. (Inr (validation_complete 0 (Say [])), w)),
     env_cleanup = (\<lambda>_ _ w. (None, w)), env_revalidate = (\<lambda>_ w. (Inr [], w)),
     env_execute = (\<lambda>_ w. (ExecSucceeded, w)), env_observe = (\<lambda>_ w. (Answered CheckPassed None, w)),
     env_database = (\<lambda>w. (None, w)), env_clock = (\<lambda>w. (0, w)), env_running = (\<lambda>_ _. True),
     env_asset_id = (\<lambda>_ _ _ _. asc ''b1'')\<rparr>"

definition snapshot_action :: ProtectionAction where
  "snapshot_action = protection_action_new (asc ''zfs'') (asc ''snapshot'')
     (candidate_new (asc ''zfs'') (scope_new (asc ''dataset'') (asc ''tank'') []) FilesystemPersistent PreserveExact [])
     (asset_proposed (\<lambda>_ _ _ _. asc ''b1'') (asc ''zfs'') ZfsSnapshot (asc ''tank@1'')
       (scope_new (asc ''dataset'') (asc ''tank'') []) 0)"

definition plain_provider :: RecoveryProvider where
  "plain_provider = \<lparr>rp_id = asc ''zfs'', rp_capabilities = (capabilities_new (asc ''zfs''))\<lparr>pc_recovery := REQUIRED\<rparr>,
     rp_availability = Available [], rp_resolve_domain = (\<lambda>_. Inr None), rp_discover = (\<lambda>_ _. Inr []),
     rp_plan_protection = (\<lambda>_ _. Inr []), rp_validate = (\<lambda>_. Inr (validation_complete 0 (Say [])))\<rparr>"

definition sample_request :: "unit PrepareRequest" where
  "sample_request = \<lparr>rq_plan = sealed_sample, rq_protection = [snapshot_action], rq_providers = [plain_provider],
     rq_now = 0, rq_authority = authority_full, rq_quiesce = Some (asc ''db'', 5), rq_cleanup = Retain\<rparr>"

definition fresh_world :: "'i Store \<Rightarrow> (unit, 'i) World" where
  "fresh_world s = \<lparr>w_store = s, w_env = (), w_trace = [], w_failures = []\<rparr>"

lemmas calm_run = calm_def call_def emit_def fresh_world_def sample_request_def snapshot_action_def
  protection_action_new_def candidate_new_def asset_proposed_def scope_new_def plain_provider_def
  registry_get_def requires_protection_def create_and_validate_def checked_asset_def asset_validated_def
  validation_complete_def validation_is_complete_def asset_is_usable_def state_is_usable_def
  authority_full_def REQUIRED_def preparation_new_def

lemma calm_prepares:
  "\<exists>d p w'. prepare calm sample_request (fresh_world stored_sample) = (Inr d, p, w') \<and>
     map as_state (pd_assets d) = [AssetReady]"
  by (simp add: prepare_def prepare_one_def prepare_end_def check_matrix_def lost_row_def release_quiesce_def
      sealed_sample_def sample_plan_def draft_plan_def summary_empty_def Let_def calm_run)


definition refusing :: "unit Env" where
  "refusing = calm\<lparr>env_create := (\<lambda>_ _ w. (Inl (asset_create_failed ''zfs'' ''tank''), w))\<rparr>"


end
