(* ===== verification/Plan_Execute.thy ===== *)
theory Plan_Execute
  imports Plan_Prepare
begin

text \<open>
  The lifecycle engine (\<open>crates/ono-change-executor/src/execute.rs\<close>): \<open>apply\<close> with its claim, its
  checks and its refusals, the mutating actions by waves, verification, and closing.  The waves
  run with a state: \<open>run_waves_with\<close> is \<open>strategy.rs\<close> where the closures change what they captured.
\<close>

section \<open>Requests and outcomes\<close>

record 'i ApplyRequest =
  ar_prepare :: "'i PrepareRequest"
  ar_options :: "'i StoreOptions"
  ar_digest :: "ustr \<Rightarrow> ustr"
  ar_session :: ustr
  ar_pid :: nat
  ar_resume :: bool
  ar_clocked :: bool

abbreviation ar_plan :: "'i ApplyRequest \<Rightarrow> 'i Plan" where
  "ar_plan rq \<equiv> rq_plan (ar_prepare rq)"

abbreviation ar_now :: "'i ApplyRequest \<Rightarrow> int" where
  "ar_now rq \<equiv> rq_now (ar_prepare rq)"

datatype EquivalenceState = EqRestored | EqDifferentAsExpected | EqNotRecoverable | EqNotRestored | EqStateUnknown

record VerificationResult =
  vr_plan :: ustr
  vr_check :: ustr
  vr_class :: VerificationClass
  vr_subject :: ustr
  vr_expression :: ustr
  vr_status :: VerificationStatus
  vr_observed :: "Value option"
  vr_expected :: "Value option"
  vr_evidence :: "ustr list"
  vr_detail :: "sentence option"
  vr_equivalence :: "EquivalenceDomain option"
  vr_equivalence_state :: "EquivalenceState option"
  vr_at :: int

definition result_new :: "ustr \<Rightarrow> VerificationContract \<Rightarrow> VerificationStatus \<Rightarrow> int \<Rightarrow> VerificationResult" where
  "result_new plan c status at =
     \<lparr>vr_plan = plan, vr_check = vc_id c, vr_class = vc_class c, vr_subject = vc_subject c,
      vr_expression = vc_expression c, vr_status = status, vr_observed = None,
      vr_expected = vc_expected c, vr_evidence = [], vr_detail = None, vr_equivalence = vc_equivalence c,
      vr_equivalence_state = None, vr_at = at\<rparr>"

record ApplyOutcome =
  ao_state :: PlanState
  ao_statuses :: "(ustr \<times> ActionStatus) list"
  ao_assets :: "RecoveryAsset list"
  ao_retained :: "ustr list"
  ao_verification :: "VerificationResult list"
  ao_touched :: "ustr list"
  ao_untouched :: "ustr list"
  ao_uncertain :: "ustr list"
  ao_point :: "FailurePoint option"
  ao_error :: "ErrorValue option"
  ao_quiesce :: "QuiesceReport option"
  ao_cleanup :: "CleanupReport option"
  ao_shortfall :: "ProtectionShortfall list"
  ao_executed :: bool

definition outcome_has_mutated :: "ApplyOutcome \<Rightarrow> bool" where
  "outcome_has_mutated oc =
     (case ao_point oc of
        None \<Rightarrow> has_mutated (ao_state oc)
      | Some p \<Rightarrow> if p = FpActionNotStarted then ao_executed oc else point_may_have_mutated p)"

definition status_of :: "ApplyOutcome \<Rightarrow> ustr \<Rightarrow> ActionStatus option" where
  "status_of oc a = map_of (ao_statuses oc) a"

definition is_outcome_unknown :: "ApplyOutcome \<Rightarrow> bool" where
  "is_outcome_unknown oc \<longleftrightarrow> ao_uncertain oc \<noteq> []"

definition is_success :: "ApplyOutcome \<Rightarrow> bool" where
  "is_success oc \<longleftrightarrow> ao_error oc = None \<and> ao_state oc \<in> {Verified, Recovered, RecoveryVerified}"

definition offers_recovery :: "ApplyOutcome \<Rightarrow> bool" where
  "offers_recovery oc \<longleftrightarrow> is_recoverable (ao_state oc)"

section \<open>Refusals\<close>

definition target_labels :: "'i Plan \<Rightarrow> ustr list" where
  "target_labels plan = map ft_identity (cp_targets plan)"

definition refused :: "'i Plan \<Rightarrow> FailurePoint \<Rightarrow> ErrorValue \<Rightarrow> ApplyOutcome" where
  "refused plan point e =
     \<lparr>ao_state = plan_state plan, ao_statuses = map (\<lambda>a. (act_id a, ActPending)) (plan_actions plan),
      ao_assets = [], ao_retained = [], ao_verification = [], ao_touched = [],
      ao_untouched = target_labels plan, ao_uncertain = [], ao_point = Some point, ao_error = Some e,
      ao_quiesce = None, ao_cleanup = None, ao_shortfall = [], ao_executed = False\<rparr>"

definition refused_on_evidence ::
    "'i Plan \<Rightarrow> FailurePoint \<Rightarrow> ErrorValue \<Rightarrow> PlanState \<Rightarrow> (ustr \<rightharpoonup> ActionStatus) \<Rightarrow> ApplyOutcome" where
  "refused_on_evidence plan point e durable rec =
     (let o1 = refused plan point e;
          statuses = map (\<lambda>(i, st). (i, case rec i of None \<Rightarrow> st | Some r \<Rightarrow> r)) (ao_statuses o1)
      in o1\<lparr>ao_state := durable, ao_statuses := statuses,
            ao_uncertain := map fst (filter (\<lambda>(_, st). st \<in> {ActUnknown, ActRunning}) statuses)\<rparr>)"

definition plan_error_with :: "string \<Rightarrow> ustr \<Rightarrow> sentence list \<Rightarrow> ErrorValue" where
  "plan_error_with code plan parts = refusal_with code (Say plan # parts)"

definition appliability :: "'i Plan \<Rightarrow> PlanState \<Rightarrow> int \<Rightarrow> bool \<Rightarrow> ErrorValue option" where
  "appliability plan state now resumed =
     (if is_expired_at plan now \<or> state = Expired
      then Some (plan_error_with ''change.plan_expired'' (plan_id plan) [])
      else if \<not> resumed
      then if is_appliable state then None
           else Some (plan_error_with ''change.plan_not_sealed'' (plan_id plan) [])
      else if is_appliable state \<or> state \<in> {Preparing, Applying, ApplyFailed, Verifying} then None
      else if is_terminal state \<or> is_verdict state
      then Some (plan_error_with ''change.resume_refused'' (plan_id plan) [])
      else Some (plan_error_with ''change.plan_not_sealed'' (plan_id plan) []))"

definition mutation_began :: "'i Plan \<Rightarrow> (ustr \<rightharpoonup> ActionStatus) \<Rightarrow> bool" where
  "mutation_began plan rec \<longleftrightarrow>
     list_ex (\<lambda>a. case rec (act_id a) of None \<Rightarrow> False | Some st \<Rightarrow> may_have_mutated st)
       (filter (\<lambda>a. mutates_target (role a)) (plan_actions plan))"

section \<open>Checks before preparation\<close>

definition drift_row :: "RevalidatedFinding \<Rightarrow> sentence list" where
  "drift_row f =
     [Say (drift_subject f), Say (drift_field f),
      Format (case drift_verdict f of
          Material \<Rightarrow> ''changed materially since the plan was sealed''
        | DriftUnknown \<Rightarrow> ''could not be observed, which is not a pass''
        | Tolerated \<Rightarrow> ''changed within the contract's declared tolerance''
        | Unchanged \<Rightarrow> ''still holds'') []]"

definition finding_step ::
    "RevalidatedFinding \<Rightarrow> sentence list list \<times> ustr option \<Rightarrow> sentence list list \<times> ustr option" where
  "finding_step f = (\<lambda>(blocking, vanished).
     if \<not> blocks_apply (drift_verdict f) then (blocking, vanished)
     else (blocking @ [drift_row f],
           if drift_kind f = Existence \<and> drift_verdict f = Material \<and> vanished = None
           then Some (drift_subject f) else vanished))"

fun revalidate_loop ::
    "'w Env \<Rightarrow> plan_action list \<Rightarrow> sentence list list \<times> ustr option \<Rightarrow> ('w, 'i) World \<Rightarrow>
     (sentence list list \<times> ustr option) \<times> ('w, 'i) World" where
  "revalidate_loop E [] acc w = (acc, w)"
| "revalidate_loop E (a # rest) acc w =
     (case call (env_revalidate E a) w of (answer, w1) \<Rightarrow>
        revalidate_loop E rest
          (case answer of
             Inr findings \<Rightarrow> fold finding_step findings acc
           | Inl e \<Rightarrow> (fst acc @ [[Say (case target a of None \<Rightarrow> summary a | Some t \<Rightarrow> t), Say (act_id a), ev_message e]],
                       snd acc))
          (emit (DidRevalidate (act_id a)) w1))"

definition revalidate_plan ::
    "'w Env \<Rightarrow> 'i Plan \<Rightarrow> (ustr \<rightharpoonup> ActionStatus) \<Rightarrow> ('w, 'i) World \<Rightarrow> ErrorValue option \<times> ('w, 'i) World" where
  "revalidate_plan E plan prior w =
     (case revalidate_loop E (filter (\<lambda>a. prior (act_id a) \<noteq> Some ActSucceeded) (plan_actions plan)) ([], None) w of
        ((blocking, vanished), w1) \<Rightarrow>
          (case vanished of
             Some subject \<Rightarrow> Some (refusal_with ''change.target_changed'' (Say subject # concat blocking))
           | None \<Rightarrow> if blocking = [] then None
                     else Some (plan_error_with ''change.plan_drift_detected'' (plan_id plan) (concat blocking)),
           w1))"

definition privilege_required :: "ustr \<Rightarrow> bool \<Rightarrow> ErrorValue" where
  "privilege_required subject for_recovery =
     refusal_with ''change.privilege_required'' [Say subject, Say (flag for_recovery)]"

fun ChangeCapability_as_str :: "ChangeCapability \<Rightarrow> string" where
  "ChangeCapability_as_str PlanRead = ''change.plan.read''"
| "ChangeCapability_as_str PlanContribute = ''change.plan.contribute''"
| "ChangeCapability_as_str ActionExecute = ''change.action.execute''"
| "ChangeCapability_as_str VerificationObserve = ''verification.observe''"

definition check_authority :: "'i Plan \<Rightarrow> Authority \<Rightarrow> ProtectionAction list \<Rightarrow> ErrorValue option" where
  "check_authority plan au protection =
     (if plan_mutates plan \<and> ActionExecute \<notin> set (au_change au)
      then Some (capability_missing (plan_id plan) (ChangeCapability_as_str ActionExecute) (cp_kind plan = RecoveryKind))
      else case List.find (\<lambda>a. requires_privilege a \<and> \<not> au_elevated au) (plan_actions plan) of
        Some a \<Rightarrow> Some (privilege_required (summary a) (cp_kind plan = RecoveryKind))
      | None \<Rightarrow>
          if list_ex (requires_protection plan) protection \<and> PrepareAsset \<notin> set (au_recovery au)
          then Some (capability_missing (plan_id plan) (RecoveryCapability_as_str PrepareAsset) False)
          else None)"

definition coverage_insufficient :: "'i Plan \<Rightarrow> sentence list \<Rightarrow> ErrorValue" where
  "coverage_insufficient plan parts =
     plan_error_with ''recovery.coverage_insufficient'' (plan_id plan) parts"

definition check_discovery :: "'i Plan \<Rightarrow> ProtectionAction list \<Rightarrow> ErrorValue option" where
  "check_discovery plan protection =
     (if \<not> refuses_shortfall (cp_protection_mode plan) \<or> \<not> plan_mutates plan then None
      else
        let missing = shortfall (cp_protection plan) in
        if list_ex (requires_protection plan) protection \<and> missing = [] then None
        else Some (coverage_insufficient plan
               (map (\<lambda>row. Say (asc (EffectDomain_as_str (row_domain row)))) missing)))"

definition check_gates :: "'i Plan \<Rightarrow> ErrorValue option" where
  "check_gates plan =
     (let outstanding = outstanding_acknowledgements (cp_risk plan) in
      if AckIrreversible \<in> set outstanding
      then Some (plan_error_with ''change.irreversible_not_accepted'' (plan_id plan)
             (map (\<lambda>f. Say (rk_reason f)) (ra_findings (cp_risk plan))))
      else case outstanding of
        [] \<Rightarrow> None
      | AckRisk c # _ \<Rightarrow> Some (plan_error_with ''change.risk_not_accepted'' (plan_id plan)
             (Say (asc (RiskClass_as_str c)) # map (\<lambda>f. Say (rk_reason f)) (leading (cp_risk plan))))
      | AckIrreversible # _ \<Rightarrow> None)"

section \<open>Waves with a state\<close>

fun run_waves_with_from ::
    "ustr list \<Rightarrow> (Wave \<Rightarrow> ustr list \<Rightarrow> 's \<Rightarrow> 'err TargetResult list \<times> 's) \<Rightarrow>
     (Wave \<Rightarrow> ustr list \<Rightarrow> 's \<Rightarrow> Verdict \<times> 's) \<Rightarrow> nat \<Rightarrow> Wave list \<Rightarrow> 'err StrategyRun \<Rightarrow> 's \<Rightarrow>
     'err StrategyRun \<times> 's" where
  "run_waves_with_from targets submit gate index [] run s = (run, s)"
| "run_waves_with_from targets submit gate index (w # ws) run s =
     (let wtargets = wave_slice targets w;
          rest = drop (wave_end targets w) targets
      in case submit w wtargets s of (rs, s1) \<Rightarrow>
        let run' = record_wave wtargets rs run
        in if (\<exists>r \<in> set rs. stops_the_run r) then (stop_run index rest run', s1)
           else if gated w
           then case gate w wtargets s1 of (v, s2) \<Rightarrow>
             let run'' = run'\<lparr>gate_verdict := Some v\<rparr>
             in if v \<noteq> VVerified then (stop_run index rest run'', s2)
                else run_waves_with_from targets submit gate (index + 1) ws run'' s2
           else run_waves_with_from targets submit gate (index + 1) ws run' s1)"

definition run_waves_with ::
    "Strategy \<Rightarrow> ustr list \<Rightarrow> (Wave \<Rightarrow> ustr list \<Rightarrow> 's \<Rightarrow> 'err TargetResult list \<times> 's) \<Rightarrow>
     (Wave \<Rightarrow> ustr list \<Rightarrow> 's \<Rightarrow> Verdict \<times> 's) \<Rightarrow> 's \<Rightarrow> 'err StrategyRun \<times> 's" where
  "run_waves_with strategy targets submit gate s =
     run_waves_with_from targets submit gate 0 (waves strategy (length targets)) empty_run s"

section \<open>Observing\<close>

definition build_result :: "'i Plan \<Rightarrow> VerificationContract \<Rightarrow> Observation \<Rightarrow> int \<Rightarrow> VerificationResult" where
  "build_result plan c observation now =
     (case observation of
        Answered status observed \<Rightarrow> (result_new (plan_id plan) c status now)\<lparr>vr_observed := observed\<rparr>
      | TimedOut \<Rightarrow> (result_new (plan_id plan) c (timeout_status c) now)
          \<lparr>vr_detail := Some (Format ''the check did not answer within'' [Say (show_nat (vc_timeout c))])\<rparr>
      | Unobservable e \<Rightarrow> (result_new (plan_id plan) c CheckUnknown now)\<lparr>vr_detail := Some (ev_message e)\<rparr>)"

definition observe_one ::
    "'w Env \<Rightarrow> 'i Plan \<Rightarrow> VerificationContract \<Rightarrow> int \<Rightarrow> ('w, 'i) World \<Rightarrow>
     (Observation \<times> VerificationResult) \<times> ('w, 'i) World" where
  "observe_one E plan c now w =
     (case call (env_observe E c) w of (observation, w1) \<Rightarrow>
        ((observation, build_result plan c observation now), emit (DidObserve (vc_id c)) w1))"

fun observe_all ::
    "'w Env \<Rightarrow> 'i Plan \<Rightarrow> int \<Rightarrow> VerificationContract list \<Rightarrow> ('w, 'i) World \<Rightarrow>
     (Observation \<times> VerificationResult) list \<times> ('w, 'i) World" where
  "observe_all E plan now [] w = ([], w)"
| "observe_all E plan now (c # cs) w =
     (case observe_one E plan c now w of (r, w1) \<Rightarrow>
        case observe_all E plan now cs w1 of (rs, w2) \<Rightarrow> (r # rs, w2))"

definition results_verdict :: "VerificationResult list \<Rightarrow> Verdict" where
  "results_verdict rs = verdict (map (\<lambda>r. (vr_class r, vr_status r)) rs)"

fun EquivalenceDomain_as_str :: "EquivalenceDomain \<Rightarrow> string" where
  "EquivalenceDomain_as_str EqPersistentState = ''persistent-state''"
| "EquivalenceDomain_as_str EqRuntimeState = ''runtime-state''"
| "EquivalenceDomain_as_str EqExternalSideEffect = ''external-side-effect''"

definition verification_refusal :: "'i Plan \<Rightarrow> VerificationResult list \<Rightarrow> bool \<Rightarrow> ErrorValue" where
  "verification_refusal plan rs recovery =
     (if recovery
      then refusal_with ''recovery.verification_failed''
             (map (\<lambda>r. Say (case vr_equivalence r of None \<Rightarrow> vr_subject r
                  | Some d \<Rightarrow> asc (EquivalenceDomain_as_str d)))
               (filter (\<lambda>r. vr_status r \<noteq> CheckPassed) rs))
      else plan_error_with ''change.verification_failed'' (plan_id plan)
             (concat (map (\<lambda>r. [Say (vr_subject r), Say (vr_expression r)])
               (filter (\<lambda>r. vr_class r = Required \<and> vr_status r \<noteq> CheckPassed) rs))))"

record VerifyOutcome =
  vo_results :: "VerificationResult list"
  vo_verdict :: Verdict
  vo_point :: "FailurePoint option"
  vo_error :: "ErrorValue option"
  vo_timed_out :: "ustr list"

definition state_for :: "VerifyOutcome \<Rightarrow> bool \<Rightarrow> PlanState" where
  "state_for oc recovery =
     (if recovery
      then (case vo_verdict oc of VVerified \<Rightarrow> RecoveryVerified | _ \<Rightarrow> RecoveryFailed)
      else (case vo_verdict oc of VVerified \<Rightarrow> Verified | VDegraded \<Rightarrow> Degraded | VFailed \<Rightarrow> PlanState.Failed))"

definition verify ::
    "'w Env \<Rightarrow> 'i Plan \<Rightarrow> int \<Rightarrow> ('w, 'i) World \<Rightarrow> VerifyOutcome \<times> ('w, 'i) World" where
  "verify E plan now w =
     (case observe_all E plan now (cp_verification plan) w of (pairs, w1) \<Rightarrow>
        let rs = map snd pairs;
            timed_out = map (\<lambda>(_, r). vr_subject r) (filter (\<lambda>(obs, _). obs = TimedOut) pairs);
            v = results_verdict rs;
            recovery = (cp_kind plan = RecoveryKind);
            point = (if v = VVerified then None
                     else if timed_out \<noteq> [] then Some FpVerificationTimeout
                     else if recovery then Some FpRecoveryVerification else Some FpRequiredVerification)
        in (\<lparr>vo_results = rs, vo_verdict = v, vo_point = point,
             vo_error = (if point = None then None else Some (verification_refusal plan rs recovery)),
             vo_timed_out = timed_out\<rparr>, w1))"

section \<open>Claim, evidence and records\<close>

definition stamp :: "'w Env \<Rightarrow> 'i ApplyRequest \<Rightarrow> ('w, 'i) World \<Rightarrow> int \<times> ('w, 'i) World" where
  "stamp E rq w = (if ar_clocked rq then call (env_clock E) w else (ar_now rq, w))"

definition claim_write ::
    "'w Env \<Rightarrow> ((nat \<Rightarrow> bool) \<Rightarrow> ErrorValue option \<Rightarrow> 'i Store \<Rightarrow> ErrorValue + Claim \<times> 'i Store) \<Rightarrow>
     (bool \<Rightarrow> event) \<Rightarrow> ('w, 'i) World \<Rightarrow> (ErrorValue + Claim) \<times> ('w, 'i) World" where
  "claim_write E attempt ev w =
     (case call (env_database E) w of (fault, w1) \<Rightarrow>
        case attempt (env_running E (w_env w1)) fault (w_store w1) of
          Inl e \<Rightarrow> (Inl e, emit (ev False) w1)
        | Inr (c, s) \<Rightarrow> (Inr c, emit (ev True) (w1\<lparr>w_store := s\<rparr>)))"

definition store_read ::
    "'w Env \<Rightarrow> (ErrorValue option \<Rightarrow> 'i Store \<Rightarrow> 'a) \<Rightarrow> ('w, 'i) World \<Rightarrow> 'a \<times> ('w, 'i) World" where
  "store_read E query w =
     (case call (env_database E) w of (fault, w1) \<Rightarrow> (query fault (w_store w1), w1))"

definition drop_claim :: "'w Env \<Rightarrow> Claim \<Rightarrow> ('w, 'i) World \<Rightarrow> ('w, 'i) World" where
  "drop_claim E c w =
     snd (store_write E (\<lambda>fault. release fault (claim_plan c) (claim_session c)) (\<lambda>_. DidRelease) w)"

definition durable_evidence ::
    "'w Env \<Rightarrow> 'i ApplyRequest \<Rightarrow> ('w, 'i) World \<Rightarrow>
     (ErrorValue + PlanState \<times> (ustr \<rightharpoonup> ActionStatus)) \<times> ('w, 'i) World" where
  "durable_evidence E rq w =
     (let plan = ar_plan rq in
      case store_read E (\<lambda>fault. get_revision (ar_options rq) fault (plan_id plan) (cp_revision plan)) w of
        (Inl e, w1) \<Rightarrow> (Inl e, w1)
      | (Inr kept, w1) \<Rightarrow>
          (case store_read E (\<lambda>fault. action_statuses fault (plan_id plan) (cp_revision plan)) w1 of
             (Inl e, w2) \<Rightarrow> (Inl e, w2)
           | (Inr statuses, w2) \<Rightarrow> (Inr (plan_state kept, statuses), w2)))"

definition write_state :: "'w Env \<Rightarrow> 'i ApplyRequest \<Rightarrow> PlanState \<Rightarrow> ('w, 'i) World \<Rightarrow> ('w, 'i) World" where
  "write_state E rq state w =
     (case store_write E (\<lambda>fault. record_state fault (plan_id (ar_plan rq)) (cp_revision (ar_plan rq)) state)
        (DidState state) w of (failure, w1) \<Rightarrow> keep_failure failure w1)"

definition attributed :: "'w Env \<Rightarrow> 'i Plan \<Rightarrow> RecoveryAsset \<Rightarrow> RecoveryAsset" where
  "attributed E plan a =
     (case as_source_plan a of Some _ \<Rightarrow> a | None \<Rightarrow> for_plan (env_asset_id E) a (plan_id plan))"

fun persist_assets ::
    "'w Env \<Rightarrow> 'i ApplyRequest \<Rightarrow> RecoveryAsset list \<Rightarrow> ('w, 'i) World \<Rightarrow> ('w, 'i) World" where
  "persist_assets E rq [] w = w"
| "persist_assets E rq (a # rest) w =
     (let a' = attributed E (ar_plan rq) a in
      case store_write E (\<lambda>fault. put_asset fault a') (DidAsset (as_id a')) w of (failure, w1) \<Rightarrow>
        persist_assets E rq rest (keep_failure failure w1))"

fun read_assets ::
    "'w Env \<Rightarrow> ustr list \<Rightarrow> ('w, 'i) World \<Rightarrow> RecoveryAsset list \<times> ('w, 'i) World" where
  "read_assets E [] w = ([], w)"
| "read_assets E (i # is) w =
     (case store_read E (\<lambda>fault. get_asset fault i) w of (answer, w1) \<Rightarrow>
        case read_assets E is w1 of (rest, w2) \<Rightarrow>
          ((case answer of Inl _ \<Rightarrow> rest | Inr a \<Rightarrow> a # rest), w2))"

fun recheck_assets ::
    "'w Env \<Rightarrow> registry \<Rightarrow> RecoveryAsset list \<Rightarrow> ProtectionAction list \<Rightarrow>
     RecoveryAsset list \<times> sentence list \<Rightarrow> ('w, 'i) World \<Rightarrow>
     (RecoveryAsset list \<times> sentence list) \<times> ('w, 'i) World" where
  "recheck_assets E providers stored [] acc w = (acc, w)"
| "recheck_assets E providers stored (a # rest) (assets, missing) w =
     (let domain = sc_domain (as_scope (pa_proposed_asset a)) in
      case List.find (\<lambda>x. as_provider x = pa_provider a \<and> sc_domain (as_scope x) = domain) stored of
        None \<Rightarrow> recheck_assets E providers stored rest
          (assets, missing @ [Format ''no recovery asset from the first run is recorded'' [Say domain]]) w
      | Some asset \<Rightarrow>
          (case registry_get providers (as_provider asset) of
             None \<Rightarrow> recheck_assets E providers stored rest
               (assets, missing @ [Format ''is not registered'' [Say domain, Say (as_provider asset), Say (as_id asset)]]) w
           | Some _ \<Rightarrow>
               (case call (env_validate E (as_provider asset) asset) w of (answer, w1) \<Rightarrow>
                  case answer of
                    Inl e \<Rightarrow> recheck_assets E providers stored rest
                      (assets, missing @ [Format ''domain'' [Say domain, ev_message e]]) w1
                  | Inr v \<Rightarrow>
                      let checked = asset_validated asset v;
                          w2 = emit (DidProtect a checked) w1
                      in if asset_is_usable checked
                         then recheck_assets E providers stored rest (assets @ [checked], missing) w2
                         else recheck_assets E providers stored rest
                           (assets, missing @ [Format ''no longer validates'' [Say domain, Say (as_id asset)]]) w2)))"

definition reestablish_protection ::
    "'w Env \<Rightarrow> 'i ApplyRequest \<Rightarrow> ('w, 'i) World \<Rightarrow> (ErrorValue + Prepared) \<times> ('w, 'i) World" where
  "reestablish_protection E rq w =
     (let plan = ar_plan rq;
          required = filter (requires_protection plan) (rq_protection (ar_prepare rq))
      in if required = [] then (Inr prepared_nothing, w)
         else case store_read E (\<lambda>fault. assets_for fault (plan_id plan)) w of
           (Inl e, w1) \<Rightarrow> (Inl e, w1)
         | (Inr ids, w1) \<Rightarrow>
             (case read_assets E ids w1 of (stored, w2) \<Rightarrow>
                case recheck_assets E (rq_providers (ar_prepare rq)) stored required ([], []) w2 of
                  ((assets, missing), w3) \<Rightarrow>
                    (if missing = [] then Inr (prepared_nothing\<lparr>pd_assets := assets\<rparr>)
                     else Inl (coverage_insufficient plan missing), w3)))"

section \<open>Which actions, and what depends on them\<close>

definition action_covers :: "plan_action \<Rightarrow> ustr \<Rightarrow> 'i Plan \<Rightarrow> bool" where
  "action_covers a t plan \<longleftrightarrow>
     (case target a of
        Some named \<Rightarrow> named = t
      | None \<Rightarrow> (case cp_targets plan of [] \<Rightarrow> False | first # _ \<Rightarrow> ft_identity first = t))"

definition ends_with :: "'a list \<Rightarrow> 'a list \<Rightarrow> bool" where
  "ends_with whole tail \<longleftrightarrow> length tail \<le> length whole \<and> drop (length whole - length tail) whole = tail"

definition about_reached :: "ustr \<Rightarrow> ustr list \<Rightarrow> ustr list \<Rightarrow> bool" where
  "about_reached subject targets reached =
     (let names = (\<lambda>t. subject = t \<or> ends_with subject (asc '' '' @ t))
      in \<not> list_ex names targets \<or> list_ex names reached)"

definition is_remote :: "plan_action \<Rightarrow> 'i Plan \<Rightarrow> bool" where
  "is_remote a plan \<longleftrightarrow>
     (case target a of
        None \<Rightarrow> False
      | Some identity \<Rightarrow> list_ex (\<lambda>t. ft_identity t = identity \<and> ft_host t \<noteq> None) (cp_targets plan))"

text \<open>One pass over the actions, and the loop until a pass adds nothing.\<close>

definition block_step :: "plan_action \<Rightarrow> ustr list \<Rightarrow> ustr list" where
  "block_step a held =
     (if act_id a \<in> set held then held
      else if list_ex (\<lambda>d. d \<in> set held) (depends_on a) then held @ [act_id a] else held)"

lemma block_step_length: "length held \<le> length (block_step a held)"
  by (simp add: block_step_def)

lemma block_pass_length: "length held \<le> length (fold block_step actions held)"
  by (induction actions arbitrary: held) (auto intro: order_trans[OF block_step_length])

lemma block_step_new: "set (block_step a held) \<subseteq> insert (act_id a) (set held)"
  by (auto simp: block_step_def)

lemma block_step_counts:
  "card (set (block_step a held)) + length held = card (set held) + length (block_step a held)"
  by (simp add: block_step_def)

lemma block_pass_new: "set (fold block_step actions held) \<subseteq> set held \<union> act_id ` set actions"
proof (induction actions arbitrary: held)
  case (Cons a rest)
  show ?case using Cons.IH[of "block_step a held"] block_step_new[of a held] by auto
qed simp

lemma block_pass_counts:
  "card (set (fold block_step actions held)) + length held = card (set held) + length (fold block_step actions held)"
proof (induction actions arbitrary: held)
  case (Cons a rest)
  show ?case using Cons.IH[of "block_step a held"] block_step_counts[of a held] by simp
qed simp

function block_loop :: "plan_action list \<Rightarrow> ustr list \<Rightarrow> ustr list" where
  "block_loop actions held =
     (let grown = fold block_step actions held
      in if length grown = length held then held else block_loop actions grown)"
  by pat_completeness auto
termination
proof (relation "measure (\<lambda>(actions, held). card (act_id ` set actions \<union> set held) - card (set held))")
  show "wf (measure (\<lambda>(actions, held). card (act_id ` set actions \<union> set held) - card (set held)))" by simp
next
  fix actions :: "plan_action list" and held grown
  assume grown: "grown = fold block_step actions held" and more: "length grown \<noteq> length held"
  have "card (set grown) > card (set held)"
    using block_pass_counts[of actions held] block_pass_length[of held actions] grown more by simp
  moreover have "act_id ` set actions \<union> set grown \<subseteq> act_id ` set actions \<union> set held"
    using block_pass_new[of actions held] grown by blast
  then have "card (act_id ` set actions \<union> set grown) \<le> card (act_id ` set actions \<union> set held)"
    by (intro card_mono) auto
  moreover have "card (set grown) \<le> card (act_id ` set actions \<union> set grown)" by (intro card_mono) auto
  ultimately show "((actions, grown), actions, held)
      \<in> measure (\<lambda>(actions, held). card (act_id ` set actions \<union> set held) - card (set held))"
    by auto
qed

declare block_loop.simps [simp del]

definition dependents_of_action :: "plan_action list \<Rightarrow> ustr \<Rightarrow> ustr list" where
  "dependents_of_action actions failed = filter (\<lambda>i. i \<noteq> failed) (block_loop actions [failed])"

section \<open>The mutating actions\<close>

text \<open>What the closures of \<open>mutate\<close> share: the world, and the cells they write.\<close>

record ('w, 'i) Run =
  r_world :: "('w, 'i) World"
  r_claim :: Claim
  r_lost :: bool
  r_executed :: bool
  r_statuses :: "(ustr \<times> ActionStatus) list"
  r_stop :: "(FailurePoint \<times> ErrorValue \<times> ustr) option"
  r_reached :: "ustr list"
  r_checks :: "VerificationResult list"

fun set_status :: "ustr \<Rightarrow> ActionStatus \<Rightarrow> (ustr \<times> ActionStatus) list \<Rightarrow> (ustr \<times> ActionStatus) list" where
  "set_status i st [] = []"
| "set_status i st ((j, old) # rest) = (if j = i then (j, st) # rest else (j, old) # set_status i st rest)"

definition journal_status ::
    "'w Env \<Rightarrow> 'i ApplyRequest \<Rightarrow> plan_action \<Rightarrow> ActionStatus \<Rightarrow> sentence option \<Rightarrow> ('w, 'i) World \<Rightarrow>
     ErrorValue option \<times> ('w, 'i) World" where
  "journal_status E rq a status detail w =
     (case stamp E rq w of (at, w1) \<Rightarrow>
        store_write E (\<lambda>fault. record_action_status fault (plan_id (ar_plan rq)) (cp_revision (ar_plan rq))
            (act_id a) (ordinal a) status at detail)
          (DidRecord (act_id a) status) w1)"

definition start_action ::
    "'w Env \<Rightarrow> 'i ApplyRequest \<Rightarrow> plan_action \<Rightarrow> ('w, 'i) Run \<Rightarrow> ErrorValue option \<times> ('w, 'i) Run" where
  "start_action E rq a r =
     (case stamp E rq (r_world r) of (at, w1) \<Rightarrow>
        case claim_write E (\<lambda>running fault. renew running (ar_pid rq) fault (r_claim r) at) DidRenew w1 of
          (Inl e, w2) \<Rightarrow> (Some e, r\<lparr>r_world := w2\<rparr>)
        | (Inr c, w2) \<Rightarrow>
            (case journal_status E rq a ActRunning None w2 of (failure, w3) \<Rightarrow>
               (failure, r\<lparr>r_world := w3, r_claim := c\<rparr>)))"

definition failed_at :: "(ustr \<times> ActionStatus) list \<Rightarrow> FailurePoint" where
  "failed_at statuses =
     (if list_ex (\<lambda>(_, seen). seen = ActSucceeded) statuses then FpMiddleMutateAction else FpFirstMutateAction)"

definition stop_of ::
    "'i Plan \<Rightarrow> plan_action \<Rightarrow> ExecutionOutcome \<Rightarrow> (ustr \<times> ActionStatus) list \<Rightarrow>
     (FailurePoint \<times> ErrorValue \<times> ustr) option" where
  "stop_of plan a outcome statuses =
     (case outcome of
        ExecSucceeded \<Rightarrow> None
      | ExecFailed e \<Rightarrow> Some (failed_at statuses, e, act_id a)
      | ExecUnknown e \<Rightarrow>
          Some (if is_remote a plan then FpRemoteDisconnect else FpUnknownOutcome, e, act_id a))"

text \<open>One action of one target: its start, its execution, and its record.\<close>

definition run_action ::
    "'w Env \<Rightarrow> 'i ApplyRequest \<Rightarrow> plan_action \<Rightarrow> ('w, 'i) Run \<Rightarrow> ActionStatus \<times> ('w, 'i) Run" where
  "run_action E rq a r =
     (case call (env_execute E a) (r_world r) of (outcome, w1) \<Rightarrow>
        let settled = outcome_status outcome;
            statuses = set_status (act_id a) settled (r_statuses r)
        in case journal_status E rq a settled (map_option ev_message (outcome_error outcome))
             (emit (DidExecute (act_id a) settled) w1) of (failure, w2) \<Rightarrow>
          (settled, r\<lparr>r_world := keep_failure failure w2, r_statuses := statuses,
                     r_stop := stop_of (ar_plan rq) a outcome statuses\<rparr>))"

definition submit_action ::
    "'w Env \<Rightarrow> 'i ApplyRequest \<Rightarrow> plan_action \<Rightarrow> ('w, 'i) Run \<Rightarrow> ActionStatus \<times> ('w, 'i) Run" where
  "submit_action E rq a r =
     (case start_action E rq a r of
        (Some failure, r1) \<Rightarrow>
          let r2 = (if ev_code failure = ''change.plan_already_applying'' then r1\<lparr>r_lost := True\<rparr>
                    else r1\<lparr>r_world := keep_failure (Some failure) (r_world r1)\<rparr>)
          in (ActSkipped, r2\<lparr>r_stop := Some (FpActionNotStarted, failure, act_id a)\<rparr>)
      | (None, r1) \<Rightarrow>
          run_action E rq a (r1\<lparr>r_statuses := set_status (act_id a) ActRunning (r_statuses r1),
                               r_executed := True\<rparr>))"

fun submit_actions ::
    "'w Env \<Rightarrow> 'i ApplyRequest \<Rightarrow> (ustr \<rightharpoonup> ActionStatus) \<Rightarrow> plan_action list \<Rightarrow> ActionStatus \<Rightarrow>
     ('w, 'i) Run \<Rightarrow> ActionStatus \<times> ('w, 'i) Run" where
  "submit_actions E rq prior [] status r = (status, r)"
| "submit_actions E rq prior (a # rest) status r =
     (if r_stop r \<noteq> None then (status, r)
      else if prior (act_id a) = Some ActSucceeded then submit_actions E rq prior rest ActSucceeded r
      else (case submit_action E rq a r of (status', r1) \<Rightarrow> submit_actions E rq prior rest status' r1))"

fun submit ::
    "'w Env \<Rightarrow> 'i ApplyRequest \<Rightarrow> (ustr \<rightharpoonup> ActionStatus) \<Rightarrow> plan_action list \<Rightarrow> ustr list \<Rightarrow>
     ('w, 'i) Run \<Rightarrow> ErrorValue TargetResult list \<times> ('w, 'i) Run" where
  "submit E rq prior mutating [] r = ([], r)"
| "submit E rq prior mutating (t # ts) r =
     (if r_stop r \<noteq> None then ([], r)
      else
        case submit_actions E rq prior (filter (\<lambda>a. action_covers a t (ar_plan rq)) mutating) ActSkipped r of
          (status, r1) \<Rightarrow>
            (case submit E rq prior mutating ts r1 of (rs, r2) \<Rightarrow>
               (\<lparr>res_target = t, res_status = status, res_error = map_option (fst \<circ> snd) (r_stop r1)\<rparr> # rs, r2)))"

definition gate_wave ::
    "'w Env \<Rightarrow> 'i ApplyRequest \<Rightarrow> ustr list \<Rightarrow> ('w, 'i) Run \<Rightarrow> Verdict \<times> ('w, 'i) Run" where
  "gate_wave E rq targets r =
     (let plan = ar_plan rq;
          reached = r_reached r @ targets;
          required = filter (\<lambda>c. vc_class c = Required \<and> about_reached (vc_subject c) (target_labels plan) reached)
            (cp_verification plan)
      in case observe_all E plan (ar_now rq) required (r_world r) of (pairs, w1) \<Rightarrow>
        (results_verdict (map snd pairs),
         r\<lparr>r_world := w1, r_reached := reached, r_checks := r_checks r @ map snd pairs\<rparr>))"

text \<open>The protection actions of the plan that preparation has already carried out.\<close>

definition settled_by :: "Prepared \<Rightarrow> plan_action \<Rightarrow> bool" where
  "settled_by d a \<longleftrightarrow>
     role a = Prepare \<and>
     (case target a of None \<Rightarrow> False | Some t \<Rightarrow> t \<in> set (map (\<lambda>x. sc_domain (as_scope x)) (pd_assets d)))"

fun settle_prepared ::
    "'w Env \<Rightarrow> 'i ApplyRequest \<Rightarrow> Prepared \<Rightarrow> plan_action list \<Rightarrow> ('w, 'i) World \<Rightarrow> ('w, 'i) World" where
  "settle_prepared E rq d [] w = w"
| "settle_prepared E rq d (a # rest) w =
     (if settled_by d a
      then (case journal_status E rq a ActSucceeded None w of (failure, w1) \<Rightarrow>
              settle_prepared E rq d rest (keep_failure failure w1))
      else settle_prepared E rq d rest w)"

definition first_statuses :: "'i Plan \<Rightarrow> Prepared \<Rightarrow> (ustr \<rightharpoonup> ActionStatus) \<Rightarrow> (ustr \<times> ActionStatus) list" where
  "first_statuses plan d prior =
     map (\<lambda>a. (act_id a, if settled_by d a then ActSucceeded
        else case prior (act_id a) of None \<Rightarrow> ActPending | Some st \<Rightarrow> st)) (plan_actions plan)"

definition mutating_actions :: "plan_action list \<Rightarrow> nat list \<Rightarrow> plan_action list" where
  "mutating_actions actions order = filter (\<lambda>a. mutates_target (role a)) (map (\<lambda>i. actions ! i) order)"

section \<open>What a run comes to\<close>

definition block_dependents ::
    "'i Plan \<Rightarrow> (FailurePoint \<times> ErrorValue \<times> ustr) option \<Rightarrow> (ustr \<times> ActionStatus) list \<Rightarrow>
     (ustr \<times> ActionStatus) list" where
  "block_dependents plan stopped statuses =
     (case stopped of
        None \<Rightarrow> statuses
      | Some (_, _, failed) \<Rightarrow>
          map (\<lambda>(i, st). (i, if st = ActPending \<and> i \<in> set (dependents_of_action (plan_actions plan) failed)
                             then ActSkipped else st)) statuses)"

definition kept_assets :: "Prepared \<Rightarrow> RecoveryAsset list" where
  "kept_assets d = pd_assets d @ List.map_filter ps_asset (pd_shortfall d)"

definition run_outcome ::
    "'i Plan \<Rightarrow> Prepared \<Rightarrow> Preparation \<Rightarrow> ErrorValue StrategyRun \<Rightarrow> ('w, 'i) Run \<Rightarrow> ApplyOutcome" where
  "run_outcome plan d p run r =
     (let statuses = block_dependents plan (r_stop r) (r_statuses r) in
      \<lparr>ao_state = Applying, ao_statuses = statuses, ao_assets = kept_assets d,
       ao_retained = map as_id (kept_assets d), ao_verification = r_checks r,
       ao_touched = touched run, ao_untouched = untouched run,
       ao_uncertain = map fst (filter (\<lambda>(_, st). st = ActUnknown) statuses),
       ao_point = None, ao_error = None, ao_quiesce = pp_quiesce p, ao_cleanup = pp_cleanup p,
       ao_shortfall = pd_shortfall d, ao_executed = r_executed r\<rparr>)"

definition state_not_started :: "'i Plan \<Rightarrow> Prepared \<Rightarrow> bool \<Rightarrow> PlanState" where
  "state_not_started plan d began =
     (if began \<and> cp_kind plan = RecoveryKind then RecoveryFailed
      else if began then ApplyFailed
      else if pd_assets d \<noteq> [] then PlanState.Protected
      else if is_appliable (plan_state plan) then plan_state plan
      else Sealed)"

definition apply_refusal :: "'i Plan \<Rightarrow> FailurePoint \<Rightarrow> ErrorValue \<Rightarrow> ApplyOutcome \<Rightarrow> bool \<Rightarrow> ErrorValue" where
  "apply_refusal plan point cause oc recovery =
     (let completed = length (filter (\<lambda>(_, st). st = ActSucceeded) (ao_statuses oc));
          not_executed = length (filter (\<lambda>(_, st). \<not> is_settled st) (ao_statuses oc))
      in if point \<in> {FpRemoteDisconnect, FpUnknownOutcome}
         then if ev_code cause = ''change.remote_state_unknown'' then cause
              else refusal_with ''change.remote_state_unknown''
                [Say (case ao_untouched oc of [] \<Rightarrow> asc ''this host'' | t # _ \<Rightarrow> t), ev_message cause]
         else if recovery
         then refusal_with ''recovery.apply_failed'' [Say (asc (FailurePoint_as_str point)), ev_message cause]
         else plan_error_with ''change.apply_failed'' (plan_id plan)
           [Say (asc (FailurePoint_as_str point)), Say (show_nat completed), Say (show_nat not_executed)])"

definition outcome_not_started ::
    "'i Plan \<Rightarrow> Prepared \<Rightarrow> plan_action list \<Rightarrow> ErrorValue \<Rightarrow> ApplyOutcome \<Rightarrow> ApplyOutcome" where
  "outcome_not_started plan d mutating e oc =
     (let began = list_ex (\<lambda>a. case status_of oc (act_id a) of None \<Rightarrow> False | Some st \<Rightarrow> may_have_mutated st) mutating
      in oc\<lparr>ao_point := Some FpActionNotStarted, ao_state := state_not_started plan d began,
            ao_error := Some e\<rparr>)"

definition outcome_stopped :: "'i Plan \<Rightarrow> FailurePoint \<Rightarrow> ErrorValue \<Rightarrow> ApplyOutcome \<Rightarrow> ApplyOutcome" where
  "outcome_stopped plan point e oc =
     (let recovery = (cp_kind plan = RecoveryKind);
          oc1 = oc\<lparr>ao_point := Some point,
                  ao_state := (if point \<in> {FpRemoteDisconnect, FpUnknownOutcome} then Applying
                               else if recovery then RecoveryFailed else ApplyFailed)\<rparr>
      in oc1\<lparr>ao_error := Some (apply_refusal plan point e oc1 recovery)\<rparr>)"

definition outcome_gated :: "'i Plan \<Rightarrow> Verdict \<Rightarrow> ApplyOutcome \<Rightarrow> ApplyOutcome" where
  "outcome_gated plan v oc =
     (let recovery = (cp_kind plan = RecoveryKind)
      in oc\<lparr>ao_point := Some FpRequiredVerification,
            ao_state := (if recovery then RecoveryFailed
                         else if v = VFailed then PlanState.Failed else Degraded),
            ao_error := Some (verification_refusal plan (ao_verification oc) recovery)\<rparr>)"

definition outcome_verified :: "'i Plan \<Rightarrow> VerifyOutcome \<Rightarrow> ApplyOutcome \<Rightarrow> ApplyOutcome" where
  "outcome_verified plan v oc =
     oc\<lparr>ao_verification := vo_results v, ao_state := state_for v (cp_kind plan = RecoveryKind),
        ao_point := vo_point v, ao_error := vo_error v\<rparr>"

definition run_start ::
    "'w Env \<Rightarrow> 'i ApplyRequest \<Rightarrow> Prepared \<Rightarrow> (ustr \<rightharpoonup> ActionStatus) \<Rightarrow> Claim \<Rightarrow> ('w, 'i) World \<Rightarrow>
     ('w, 'i) Run" where
  "run_start E rq d prior c w =
     \<lparr>r_world = settle_prepared E rq d (plan_actions (ar_plan rq)) w, r_claim = c, r_lost = False,
      r_executed = False, r_statuses = first_statuses (ar_plan rq) d prior, r_stop = None,
      r_reached = [], r_checks = []\<rparr>"

definition finish_run ::
    "'w Env \<Rightarrow> 'i ApplyRequest \<Rightarrow> Prepared \<Rightarrow> Preparation \<Rightarrow> plan_action list \<Rightarrow>
     ErrorValue StrategyRun \<Rightarrow> ('w, 'i) Run \<Rightarrow> ApplyOutcome \<times> ('w, 'i) World" where
  "finish_run E rq d p mutating run r =
     (let plan = ar_plan rq; oc = run_outcome plan d p run r in
      case r_stop r of
        Some (point, e, _) \<Rightarrow>
          (if point = FpActionNotStarted then outcome_not_started plan d mutating e oc
           else outcome_stopped plan point e oc, r_world r)
      | None \<Rightarrow>
          (case gate_verdict run of
             Some VDegraded \<Rightarrow> (outcome_gated plan VDegraded oc, r_world r)
           | Some VFailed \<Rightarrow> (outcome_gated plan VFailed oc, r_world r)
           | _ \<Rightarrow> (case verify E plan (ar_now rq) (r_world r) of (v, w1) \<Rightarrow> (outcome_verified plan v oc, w1))))"

text \<open>
  \<open>mutate\<close>.  \<open>topological_order\<close> never panics (\<open>topological_order_returns\<close>), so its \<open>None\<close> is no
  branch of its own.  The answer ends with the claim as it was last renewed.
\<close>

definition mutate ::
    "'w Env \<Rightarrow> 'i ApplyRequest \<Rightarrow> Prepared \<Rightarrow> Preparation \<Rightarrow> (ustr \<rightharpoonup> ActionStatus) \<Rightarrow> Claim \<Rightarrow>
     ('w, 'i) World \<Rightarrow> ApplyOutcome \<times> bool \<times> Claim \<times> ('w, 'i) World" where
  "mutate E rq d p prior c w =
     (let plan = ar_plan rq in
      case topological_order (plan_actions plan) of
        Some (Inr order) \<Rightarrow>
          let mutating = mutating_actions (plan_actions plan) order
          in (case run_waves_with (cp_strategy plan) (target_labels plan)
                    (\<lambda>_. submit E rq prior mutating) (\<lambda>_. gate_wave E rq) (run_start E rq d prior c w) of
                (run, r) \<Rightarrow>
                  (case finish_run E rq d p mutating run r of (oc, w1) \<Rightarrow> (oc, \<not> r_lost r, r_claim r, w1)))
      | cyclic \<Rightarrow>
          ((refused plan FpPlanState (plan_error_with ''change.action_not_plannable'' (plan_id plan)
             (case cyclic of Some (Inl ids) \<Rightarrow> map Say ids | _ \<Rightarrow> [])))\<lparr>ao_assets := pd_assets d\<rparr>,
           True, c, w))"

section \<open>Apply\<close>

fun refusal_value :: "ErrorValue Refusal \<Rightarrow> ErrorValue" where
  "refusal_value (StoreRefused e) = e"
| "refusal_value (DriftDetected plan rows) =
     plan_error_with ''change.plan_drift_detected'' plan
       (concat (map (\<lambda>(x, y, z). [Say x, Say y, Say z]) rows))"
| "refusal_value (ResumeRefused plan reasons state ids) =
     plan_error_with ''change.resume_refused'' plan (concat (map (\<lambda>(x, y). [Say x, Say y]) reasons))"

text \<open>The checks under the claim that come before preparation, in their order.\<close>

definition precheck ::
    "'w Env \<Rightarrow> 'i ApplyRequest \<Rightarrow> (ustr \<rightharpoonup> ActionStatus) \<Rightarrow> ('w, 'i) World \<Rightarrow>
     ApplyOutcome option \<times> ('w, 'i) World" where
  "precheck E rq prior w =
     (let plan = ar_plan rq; protection = rq_protection (ar_prepare rq) in
      case revalidate_plan E plan prior w of
        (Some e, w1) \<Rightarrow> (Some (refused plan FpTargetRevalidation e), w1)
      | (None, w1) \<Rightarrow>
          (case check_authority plan (rq_authority (ar_prepare rq)) protection of
             Some e \<Rightarrow> (Some (refused plan FpPrivilegeCheck e), w1)
           | None \<Rightarrow>
               (case check_discovery plan protection of
                  Some e \<Rightarrow> (Some (refused plan FpRecoveryDiscovery e), w1)
                | None \<Rightarrow>
                    (case check_gates plan of
                       Some e \<Rightarrow> (Some (refused plan FpGate e), w1)
                     | None \<Rightarrow> (None, w1)))))"

text \<open>What a resume may go on from: the records, or the refusal.\<close>

definition resume_prior ::
    "'w Env \<Rightarrow> 'i ApplyRequest \<Rightarrow> (ustr \<rightharpoonup> ActionStatus) \<Rightarrow> ('w, 'i) World \<Rightarrow>
     (ErrorValue + (ustr \<rightharpoonup> ActionStatus)) \<times> ('w, 'i) World" where
  "resume_prior E rq rec w =
     (if ar_resume rq
      then (case store_read E (\<lambda>fault. action_statuses fault (plan_id (ar_plan rq)) (cp_revision (ar_plan rq))) w of
              (answer, w1) \<Rightarrow>
                (case refusal (resume (ChangePlan.truncate (ar_plan rq)) answer) of
                   Some e \<Rightarrow> (Inl (refusal_value e), w1)
                 | None \<Rightarrow> (Inr rec, w1)))
      else (Inr Map.empty, w))"

definition prepare_failure :: "'i Plan \<Rightarrow> Preparation \<Rightarrow> ErrorValue \<Rightarrow> ApplyOutcome" where
  "prepare_failure plan p e =
     (refused plan (case pp_failure p of None \<Rightarrow> FpRecoveryAssetCreation | Some (point, _) \<Rightarrow> point) e)
       \<lparr>ao_state := PrepareFailed, ao_assets := pp_created p, ao_retained := retained_assets p,
        ao_quiesce := pp_quiesce p, ao_cleanup := pp_cleanup p, ao_shortfall := pp_shortfall p\<rparr>"

definition protect ::
    "'w Env \<Rightarrow> 'i ApplyRequest \<Rightarrow> bool \<Rightarrow> PlanState \<Rightarrow> (ustr \<rightharpoonup> ActionStatus) \<Rightarrow> ('w, 'i) World \<Rightarrow>
     (ApplyOutcome + Prepared \<times> Preparation) \<times> ('w, 'i) World" where
  "protect E rq began durable rec w =
     (let plan = ar_plan rq in
      if began then
        (case reestablish_protection E rq w of
           (Inl e, w1) \<Rightarrow> (Inl (refused_on_evidence plan FpRecoveryValidation e durable rec), w1)
         | (Inr d, w1) \<Rightarrow> (Inr (d, preparation_new), w1))
      else if rq_protection (ar_prepare rq) = [] then (Inr (prepared_nothing, preparation_new), w)
      else
        (case prepare E (ar_prepare rq) (write_state E rq Preparing w) of
           (Inr d, p, w1) \<Rightarrow> (Inr (d, p), w1)
         | (Inl e, p, w1) \<Rightarrow>
             (Inl (prepare_failure plan p e),
              write_state E rq PrepareFailed (persist_assets E rq (pp_created p) w1))))"

text \<open>Everything under the claim.\<close>

definition apply_claimed ::
    "'w Env \<Rightarrow> 'i ApplyRequest \<Rightarrow> Claim \<Rightarrow> ('w, 'i) World \<Rightarrow> ApplyOutcome \<times> Claim \<times> ('w, 'i) World" where
  "apply_claimed E rq c w =
     (let plan = ar_plan rq in
      case durable_evidence E rq w of
        (Inl e, w1) \<Rightarrow> (refused plan FpPlanState e, c, w1)
      | (Inr (durable, rec), w1) \<Rightarrow>
          (let on_evidence = (\<lambda>e. refused_on_evidence plan FpPlanState e durable rec);
               began = mutation_began plan rec
           in case appliability plan durable (ar_now rq) (ar_resume rq) of
             Some e \<Rightarrow> (on_evidence e, c, w1)
           | None \<Rightarrow>
               if began \<and> \<not> ar_resume rq
               then (on_evidence (plan_error_with ''change.plan_not_sealed'' (plan_id plan) []), c, w1)
               else
                 (case resume_prior E rq rec w1 of
                    (Inl e, w2) \<Rightarrow> (on_evidence e, c, w2)
                  | (Inr prior, w2) \<Rightarrow>
                      (case precheck E rq prior w2 of
                         (Some oc, w3) \<Rightarrow> (oc, c, w3)
                       | (None, w3) \<Rightarrow>
                           (case protect E rq began durable rec w3 of
                              (Inl oc, w4) \<Rightarrow> (oc, c, w4)
                            | (Inr (d, p), w4) \<Rightarrow>
                                (case mutate E rq d p prior c
                                        (write_state E rq Applying (persist_assets E rq (kept_assets d) w4)) of
                                   (oc, held, c', w5) \<Rightarrow>
                                     (oc, c', if held then write_state E rq (ao_state oc) w5 else w5)))))))"

definition apply_plan ::
    "'w Env \<Rightarrow> 'i ApplyRequest \<Rightarrow> ('w, 'i) World \<Rightarrow> ApplyOutcome \<times> ('w, 'i) World" where
  "apply_plan E rq w =
     (let plan = ar_plan rq;
          in_flight = (plan_state plan \<in> {Preparing, Applying, Verifying});
          early = (if \<not> in_flight \<or> ar_resume rq
                   then appliability plan (plan_state plan) (ar_now rq) (ar_resume rq) else None)
      in case early of
           Some e \<Rightarrow> (refused plan FpPlanState e, w)
         | None \<Rightarrow>
             if \<not> digest_holds (ar_digest rq) plan
             then (refused plan FpPlanState
               (refusal_with ''change.plan_store_corrupt'' [Say (take ID_SHORT (plan_id plan))]), w)
             else
               (case claim_write E (\<lambda>running fault. claim running (ar_pid rq) fault (plan_id plan)
                      (ar_session rq) (ar_now rq)) DidClaim w of
                  (Inl e, w1) \<Rightarrow> (refused plan FpClaim e, w1)
                | (Inr c, w1) \<Rightarrow>
                    (case apply_claimed E rq c w1 of (oc, c', w2) \<Rightarrow> (oc, drop_claim E c' w2))))"

section \<open>Closing\<close>

record 'i CloseRequest =
  cq_plan :: "'i Plan"
  cq_providers :: registry
  cq_assets :: "RecoveryAsset list"
  cq_remove :: bool

record CloseOutcome =
  co_state :: PlanState
  co_removed :: "ustr list"
  co_retained :: "ustr list"
  co_failures :: "ErrorValue list"
  co_point :: "FailurePoint option"

definition is_closed_with_assets :: "CloseOutcome \<Rightarrow> bool" where
  "is_closed_with_assets oc \<longleftrightarrow> co_state oc = Closed \<and> co_retained oc \<noteq> []"

fun close_loop ::
    "'w Env \<Rightarrow> 'i CloseRequest \<Rightarrow> RecoveryAsset list \<Rightarrow> CloseOutcome \<Rightarrow> ('w, 'i) World \<Rightarrow>
     CloseOutcome \<times> ('w, 'i) World" where
  "close_loop E cq [] oc w = (oc, w)"
| "close_loop E cq (a # rest) oc w =
     (if retains_assets_indefinitely (plan_state (cq_plan cq)) \<or> rt_hold (as_retention a)
      then close_loop E cq rest (oc\<lparr>co_retained := co_retained oc @ [as_id a]\<rparr>) w
      else (case remove_asset E (cq_providers cq) a w of
              (None, w1) \<Rightarrow> close_loop E cq rest (oc\<lparr>co_removed := co_removed oc @ [as_id a]\<rparr>) w1
            | (Some e, w1) \<Rightarrow>
                close_loop E cq rest
                  (oc\<lparr>co_failures := co_failures oc @ [e], co_retained := co_retained oc @ [as_id a]\<rparr>) w1))"

definition close_plan ::
    "'w Env \<Rightarrow> 'i CloseRequest \<Rightarrow> ('w, 'i) World \<Rightarrow> CloseOutcome \<times> ('w, 'i) World" where
  "close_plan E cq w =
     (let state = (case after (plan_state (cq_plan cq)) EvClose of None \<Rightarrow> Closed | Some st \<Rightarrow> st);
          start = \<lparr>co_state = state, co_removed = [], co_retained = [], co_failures = [], co_point = None\<rparr>
      in case (if cq_remove cq then close_loop E cq (cq_assets cq) start w
               else (start\<lparr>co_retained := map as_id (cq_assets cq)\<rparr>, w)) of
        (oc, w1) \<Rightarrow> (oc\<lparr>co_point := (if co_failures oc = [] then None else Some FpCleanup)\<rparr>, w1))"

end
