(* ===== verification/Apply_Steps.thy ===== *)
theory Apply_Steps
  imports Plan_Execute
begin

text \<open>
  The apply as a state machine.  \<open>apply_step\<close> is the relation of the small steps an apply is made of
  (a call that moves the outside world, an event, a write to the store, an execution); the engine
  of \<open>execute.rs\<close> refines it, and what holds of every run is proved by rule induction over the steps.
\<close>

section \<open>The steps\<close>

definition evidence_kept :: "ustr \<Rightarrow> nat \<Rightarrow> 'i Store \<Rightarrow> 'i Store \<Rightarrow> bool" where
  "evidence_kept i n s s' \<longleftrightarrow>
     (\<forall>a st. recorded_statuses s i n a = Some st \<and> may_have_mutated st \<longrightarrow>
        (\<exists>st'. recorded_statuses s' i n a = Some st' \<and> may_have_mutated st'))"

fun quiet :: "event \<Rightarrow> bool" where
  "quiet (DidExecute _ _) = False"
| "quiet (DidRenew ok) = (\<not> ok)"
| "quiet (DidRecord _ _ ok) = (\<not> ok)"
| "quiet _ = True"

definition claimed_by :: "ustr \<Rightarrow> ustr \<Rightarrow> 'i Store \<Rightarrow> bool" where
  "claimed_by i session s \<longleftrightarrow> (\<exists>row. map_of (st_claims s) i = Some row \<and> cl_session row = session)"

text \<open>
  A step of session \<open>me\<close> on revision \<open>n\<close> of plan \<open>i\<close>, where \<open>X\<close> holds the actions it may execute.
  A renewal is a write that leaves this session in the claim; an execution follows directly on a
  renewal and on the record that the action is running.
\<close>

inductive apply_step ::
    "ustr \<Rightarrow> nat \<Rightarrow> ustr \<Rightarrow> ustr set \<Rightarrow> ('w, 'i) World \<Rightarrow> ('w, 'i) World \<Rightarrow> bool"
    for i n me X where
  moved: "apply_step i n me X w (w\<lparr>w_env := e\<rparr>)"
| failed: "apply_step i n me X w (w\<lparr>w_failures := fs\<rparr>)"
| said: "quiet e \<Longrightarrow> apply_step i n me X w (emit e w)"
| wrote: "quiet e \<Longrightarrow> evidence_kept i n (w_store w) s \<Longrightarrow> apply_step i n me X w (emit e (w\<lparr>w_store := s\<rparr>))"
| renewed: "evidence_kept i n (w_store w) s \<Longrightarrow> claimed_by i me s \<Longrightarrow>
    apply_step i n me X w (emit (DidRenew True) (w\<lparr>w_store := s\<rparr>))"
| recorded: "evidence_kept i n (w_store w) s \<Longrightarrow> recorded_statuses s i n a = Some st \<Longrightarrow>
    st_claims s = st_claims (w_store w) \<Longrightarrow> may_have_mutated st \<Longrightarrow>
    apply_step i n me X w (emit (DidRecord a st True) (w\<lparr>w_store := s\<rparr>))"
| executed: "a \<in> X \<Longrightarrow> w_trace w = pre @ [(DidRenew True, s), (DidRecord a ActRunning True, w_store w)] \<Longrightarrow>
    claimed_by i me (w_store w) \<Longrightarrow> recorded_statuses (w_store w) i n a = Some ActRunning \<Longrightarrow>
    apply_step i n me X w (emit (DidExecute a st) w)"

abbreviation apply_steps where
  "apply_steps i n me X \<equiv> (apply_step i n me X)\<^sup>*\<^sup>*"

lemma evidence_refl [simp]: "evidence_kept i n s s"
  by (auto simp: evidence_kept_def)

lemma evidence_trans: "evidence_kept i n s s' \<Longrightarrow> evidence_kept i n s' s'' \<Longrightarrow> evidence_kept i n s s''"
  by (fastforce simp: evidence_kept_def)

lemma step_mono: "apply_step i n me X w w' \<Longrightarrow> X \<subseteq> Y \<Longrightarrow> apply_step i n me Y w w'"
  by (induction rule: apply_step.induct) (auto intro: apply_step.intros)

lemma steps_mono: "apply_steps i n me X w w' \<Longrightarrow> X \<subseteq> Y \<Longrightarrow> apply_steps i n me Y w w'"
  by (induction rule: rtranclp_induct) (auto intro: step_mono rtranclp.rtrancl_into_rtrancl)

section \<open>What every run keeps\<close>

lemma step_store:
  "apply_step i n me X w w' \<Longrightarrow> evidence_kept i n (w_store w) (w_store w')"
  by (induction rule: apply_step.induct) (auto simp: emit_def)

text \<open>A trace grows by entries, each with the store as it stood, and the evidence only grows.\<close>

definition grows :: "ustr \<Rightarrow> nat \<Rightarrow> ('w, 'i) World \<Rightarrow> ('w, 'i) World \<Rightarrow> (event \<times> 'i Store) list \<Rightarrow> bool" where
  "grows i n w w' new \<longleftrightarrow>
     w_trace w' = w_trace w @ new \<and> evidence_kept i n (w_store w) (w_store w') \<and>
     sorted_wrt (\<lambda>x y. evidence_kept i n (snd x) (snd y)) new \<and>
     (\<forall>x \<in> set new. evidence_kept i n (w_store w) (snd x) \<and> evidence_kept i n (snd x) (w_store w'))"

lemma step_grows:
  assumes "apply_step i n me X w w'"
  shows "\<exists>new. grows i n w w' new \<and> (\<forall>a st. (\<exists>s. (DidExecute a st, s) \<in> set new) \<longrightarrow> a \<in> X)"
  using assms
proof cases
  case (executed a pre s st)
  then show ?thesis by (intro exI[of _ "[(DidExecute a st, w_store w)]"]) (auto simp: grows_def emit_def)
next
  case (said e)
  then show ?thesis by (intro exI[of _ "[(e, w_store w)]"]) (auto simp: grows_def emit_def)
next
  case (wrote e s)
  then show ?thesis by (intro exI[of _ "[(e, s)]"]) (auto simp: grows_def emit_def)
next
  case (renewed s)
  then show ?thesis by (intro exI[of _ "[(DidRenew True, s)]"]) (auto simp: grows_def emit_def)
next
  case (recorded s a st)
  then show ?thesis by (intro exI[of _ "[(DidRecord a st True, s)]"]) (auto simp: grows_def emit_def)
qed (auto intro!: exI[of _ "[]"] simp: grows_def)

lemma grows_trans: "grows i n w w1 new \<Longrightarrow> grows i n w1 w2 new' \<Longrightarrow> grows i n w w2 (new @ new')"
  unfolding grows_def by (simp add: sorted_wrt_append Ball_def) (meson evidence_trans)

lemma steps_grow:
  assumes "apply_steps i n me X w w'"
  shows "\<exists>new. grows i n w w' new \<and> (\<forall>a st. (\<exists>s. (DidExecute a st, s) \<in> set new) \<longrightarrow> a \<in> X)"
  using assms
proof (induction rule: rtranclp_induct)
  case base
  show ?case by (intro exI[of _ "[]"]) (simp add: grows_def)
next
  case (step w1 w2)
  obtain new where new: "grows i n w w1 new" "\<And>a st s. (DidExecute a st, s) \<in> set new \<Longrightarrow> a \<in> X"
    using step.IH by blast
  obtain more where more: "grows i n w1 w2 more" "\<And>a st s. (DidExecute a st, s) \<in> set more \<Longrightarrow> a \<in> X"
    using step_grows[OF step.hyps(2)] by blast
  show ?case using new more by (intro exI[of _ "new @ more"]) (auto intro: grows_trans)
qed

text \<open>Every execution is written ahead.\<close>

definition written_ahead :: "ustr \<Rightarrow> nat \<Rightarrow> ustr \<Rightarrow> (event \<times> 'i Store) list \<Rightarrow> nat \<Rightarrow> bool" where
  "written_ahead i n me trace k \<longleftrightarrow>
     (\<forall>a st s. trace ! k = (DidExecute a st, s) \<longrightarrow>
        2 \<le> k \<and> fst (trace ! (k - 2)) = DidRenew True \<and> trace ! (k - 1) = (DidRecord a ActRunning True, s) \<and>
        claimed_by i me s \<and> recorded_statuses s i n a = Some ActRunning)"

lemma written_ahead_append: "k < length trace \<Longrightarrow> written_ahead i n me (trace @ later) k \<longleftrightarrow> written_ahead i n me trace k"
  by (auto simp: written_ahead_def nth_append)

lemma step_written_ahead:
  assumes "apply_step i n me X w w'" "\<forall>k \<in> {m..<length (w_trace w)}. written_ahead i n me (w_trace w) k"
  shows "\<forall>k \<in> {m..<length (w_trace w')}. written_ahead i n me (w_trace w') k"
proof -
  have one: "\<forall>k \<in> {m..<length (w_trace w @ [(e, s)])}. written_ahead i n me (w_trace w @ [(e, s)]) k"
    if "written_ahead i n me (w_trace w @ [(e, s)]) (length (w_trace w))" for e s
  proof
    fix k assume "k \<in> {m..<length (w_trace w @ [(e, s)])}"
    then show "written_ahead i n me (w_trace w @ [(e, s)]) k"
      using that assms(2) by (cases "k = length (w_trace w)") (auto simp: written_ahead_append)
  qed
  have calm: "written_ahead i n me (w_trace w @ [(e, s)]) (length (w_trace w))"
    if "\<And>a st. e \<noteq> DidExecute a st" for e s using that by (simp add: written_ahead_def)
  show ?thesis using assms(1)
  proof cases
    case (executed a pre s st)
    have "written_ahead i n me (w_trace w @ [(DidExecute a st, w_store w)]) (length (w_trace w))"
      using executed by (simp add: written_ahead_def nth_append)
    then show ?thesis using one executed(1) by (simp add: emit_def)
  next
    case (said e)
    then have "\<And>a st. e \<noteq> DidExecute a st" by auto
    from one[OF calm[OF this]] show ?thesis using said(1) by (simp add: emit_def)
  next
    case (wrote e s)
    then have "\<And>a st. e \<noteq> DidExecute a st" by auto
    from one[OF calm[OF this]] show ?thesis using wrote(1) by (simp add: emit_def)
  next
    case (renewed s)
    then show ?thesis using one[OF calm] by (simp add: emit_def)
  next
    case (recorded s a st)
    then show ?thesis using one[OF calm] by (simp add: emit_def)
  qed (use assms(2) in auto)
qed

lemma steps_written_ahead:
  assumes "apply_steps i n me X w w'" "length (w_trace w) \<le> k" "k < length (w_trace w')"
  shows "written_ahead i n me (w_trace w') k"
proof -
  have "\<forall>k \<in> {length (w_trace w)..<length (w_trace w')}. written_ahead i n me (w_trace w') k"
    using assms(1)
  proof (induction rule: rtranclp_induct)
    case (step w1 w2)
    then show ?case using step_written_ahead[OF step.hyps(2) step.IH] by blast
  qed simp
  then show ?thesis using assms(2,3) by simp
qed

section \<open>The engine takes only such steps\<close>

lemma one_step: "apply_step i n me X w w' \<Longrightarrow> apply_steps i n me X w w'"
  by simp

lemma call_steps: "call f w = (x, w') \<Longrightarrow> apply_steps i n me X w w'"
  by (auto simp: call_def split: prod.splits intro!: one_step moved)

lemma keep_failure_steps: "apply_steps i n me X w (keep_failure f w)"
  by (auto simp: keep_failure_def split: option.splits intro!: one_step failed)

lemma emit_list_steps:
  "list_all quiet es \<Longrightarrow> apply_steps i n me X w (w\<lparr>w_trace := w_trace w @ map (\<lambda>e. (e, w_store w)) es\<rparr>)"
proof (induction es rule: rev_induct)
  case (snoc e es)
  let ?w = "w\<lparr>w_trace := w_trace w @ map (\<lambda>e. (e, w_store w)) es\<rparr>"
  have "apply_step i n me X ?w (emit e ?w)" using snoc.prems by (intro said) simp
  then show ?case using snoc by (simp add: emit_def rtranclp.rtrancl_into_rtrancl)
qed simp

lemma adds_steps:
  assumes "adds P es w w'" "\<And>e. P e \<Longrightarrow> quiet e"
  shows "apply_steps i n me X w w'"
proof -
  have "list_all quiet es" using assms by (auto simp: adds_def list_all_iff)
  then have "apply_steps i n me X w (w\<lparr>w_trace := w_trace w @ map (\<lambda>e. (e, w_store w)) es\<rparr>)"
    by (rule emit_list_steps)
  also have "apply_step i n me X \<dots> (w\<lparr>w_trace := w_trace w @ map (\<lambda>e. (e, w_store w)) es, w_env := w_env w'\<rparr>)"
    using moved[of i n me X "w\<lparr>w_trace := w_trace w @ map (\<lambda>e. (e, w_store w)) es\<rparr>" "w_env w'"] by simp
  also have "w\<lparr>w_trace := w_trace w @ map (\<lambda>e. (e, w_store w)) es, w_env := w_env w'\<rparr> = w'"
    using assms(1) by (auto simp: adds_def)
  finally show ?thesis .
qed

lemma preparing_quiet: "preparing_event e \<Longrightarrow> quiet e"
  by (cases e) (simp_all add: preparing_event_def)

lemma store_read_steps: "store_read E query w = (x, w') \<Longrightarrow> apply_steps i n me X w w'"
  by (auto simp: store_read_def split: prod.splits intro: call_steps)

lemma store_write_steps:
  assumes "store_write E wr ev w = (r, w')" "quiet (ev True)" "quiet (ev False)"
    "\<And>fault s s'. wr fault s = Inr s' \<Longrightarrow> evidence_kept i n s s'"
  shows "apply_steps i n me X w w'"
proof -
  obtain fault w1 where c: "call (env_database E) w = (fault, w1)" by fastforce
  have "apply_step i n me X w1 w'"
  proof (cases "wr fault (w_store w1)")
    case (Inl e)
    then show ?thesis using assms(1,3) c by (auto simp: store_write_def intro: said)
  next
    case (Inr s)
    then show ?thesis using assms c by (auto simp: store_write_def intro: wrote)
  qed
  then show ?thesis using call_steps[OF c] by (rule rtranclp.rtrancl_into_rtrancl[rotated])
qed

lemma stamp_steps: "stamp E rq w = (at, w') \<Longrightarrow> apply_steps i n me X w w'"
  by (auto simp: stamp_def split: if_splits intro: call_steps)

lemma statuses_kept: "st_statuses s' = st_statuses s \<Longrightarrow> evidence_kept i n s s'"
  by (simp add: evidence_kept_def recorded_statuses_def)

lemma release_kept: "release fault p me' s = Inr s' \<Longrightarrow> evidence_kept i n s s'"
  by (intro statuses_kept) (auto simp: release_def split: option.splits)

lemma record_state_kept: "record_state fault p k st s = Inr s' \<Longrightarrow> evidence_kept i n s s'"
  by (intro statuses_kept) (auto simp: record_state_def split: option.splits)

lemma put_asset_kept: "put_asset fault a s = Inr s' \<Longrightarrow> evidence_kept i n s s'"
  by (intro statuses_kept) (auto simp: put_asset_def split: option.splits)

lemma take_claim_kept:
  "take_claim running pid fault p me' now lease s = Inr (due, s') \<Longrightarrow>
     evidence_kept i n s s' \<and> claimed_by p me' s'"
  by (auto simp: take_claim_def Let_def claimed_by_def split: option.splits if_splits intro!: statuses_kept)

lemma drop_claim_steps: "apply_steps i n me X w (drop_claim E c w)"
proof -
  obtain r w' where "store_write E (\<lambda>fault. release fault (claim_plan c) (claim_session c)) (\<lambda>_. DidRelease) w = (r, w')"
    by fastforce
  then show ?thesis unfolding drop_claim_def by (auto intro!: store_write_steps release_kept)
qed

lemma write_state_steps: "apply_steps i n me X w (write_state E rq st w)"
proof -
  obtain r w' where w: "store_write E (\<lambda>fault. record_state fault (plan_id (ar_plan rq)) (cp_revision (ar_plan rq)) st)
      (DidState st) w = (r, w')" by fastforce
  have "apply_steps i n me X w w'" by (rule store_write_steps[OF w]) (auto intro: record_state_kept)
  then show ?thesis using w by (auto simp: write_state_def intro: rtranclp_trans keep_failure_steps)
qed

lemma persist_assets_steps: "apply_steps i n me X w (persist_assets E rq as w)"
proof (induction as arbitrary: w)
  case (Cons a as)
  let ?a = "attributed E (ar_plan rq) a"
  obtain r w' where w: "store_write E (\<lambda>fault. put_asset fault ?a) (DidAsset (as_id ?a)) w = (r, w')" by fastforce
  have "apply_steps i n me X w w'" by (rule store_write_steps[OF w]) (auto intro: put_asset_kept)
  also have "apply_steps i n me X w' (keep_failure r w')" by (rule keep_failure_steps)
  also have "apply_steps i n me X \<dots> (persist_assets E rq as (keep_failure r w'))" by (rule Cons.IH)
  finally show ?case using w by (simp add: Let_def)
qed simp

lemma revalidate_loop_steps: "revalidate_loop E as acc w = (r, w') \<Longrightarrow> apply_steps i n me X w w'"
proof (induction as arbitrary: acc w)
  case (Cons a as)
  obtain answer w1 where c: "call (env_revalidate E a) w = (answer, w1)" by fastforce
  have "apply_steps i n me X w w1" by (rule call_steps[OF c])
  also have "apply_step i n me X w1 (emit (DidRevalidate (act_id a)) w1)" by (rule said) simp
  also have "apply_steps i n me X \<dots> w'" using Cons.IH Cons.prems c by simp
  finally show ?case .
qed simp

lemma revalidate_plan_steps: "revalidate_plan E plan prior w = (r, w') \<Longrightarrow> apply_steps i n me X w w'"
  by (auto simp: revalidate_plan_def split: prod.splits intro: revalidate_loop_steps)

lemma observe_all_steps: "observe_all E plan now cs w = (r, w') \<Longrightarrow> apply_steps i n me X w w'"
proof (induction cs arbitrary: w r)
  case (Cons c cs)
  obtain obs w1 where c: "call (env_observe E c) w = (obs, w1)" by fastforce
  obtain rs where rest: "observe_all E plan now cs (emit (DidObserve (vc_id c)) w1) = (rs, w')"
    using Cons.prems c by (auto simp: observe_one_def split: prod.splits)
  have "apply_steps i n me X w w1" by (rule call_steps[OF c])
  also have "apply_step i n me X w1 (emit (DidObserve (vc_id c)) w1)" by (rule said) simp
  also have "apply_steps i n me X \<dots> w'" by (rule Cons.IH[OF rest])
  finally show ?case .
qed simp

lemma verify_steps: "verify E plan now w = (v, w') \<Longrightarrow> apply_steps i n me X w w'"
  by (auto simp: verify_def Let_def split: prod.splits intro: observe_all_steps)

lemma durable_evidence_steps: "durable_evidence E rq w = (r, w') \<Longrightarrow> apply_steps i n me X w w'"
  by (auto simp: durable_evidence_def Let_def split: prod.splits sum.splits
      intro: store_read_steps rtranclp_trans[OF store_read_steps store_read_steps])

lemma resume_prior_steps: "resume_prior E rq rec w = (r, w') \<Longrightarrow> apply_steps i n me X w w'"
  by (auto simp: resume_prior_def split: prod.splits option.splits if_splits intro: store_read_steps)

lemma precheck_steps: "precheck E rq prior w = (r, w') \<Longrightarrow> apply_steps i n me X w w'"
  by (auto simp: precheck_def Let_def split: prod.splits option.splits intro: revalidate_plan_steps)

lemma read_assets_steps: "read_assets E ids w = (r, w') \<Longrightarrow> apply_steps i n me X w w'"
proof (induction ids arbitrary: w r)
  case (Cons j js)
  obtain answer w1 where c: "store_read E (\<lambda>fault. get_asset fault j) w = (answer, w1)" by fastforce
  obtain rs where "read_assets E js w1 = (rs, w')" using Cons.prems c by (auto split: prod.splits)
  then show ?case using Cons.IH store_read_steps[OF c] by (blast intro: rtranclp_trans)
qed simp

section \<open>Protection\<close>

text \<open>Every required protection action has a usable asset, checked between two worlds.\<close>

definition checked_since :: "RecoveryAsset list \<Rightarrow> (event \<times> 'i Store) list \<Rightarrow> ProtectionAction \<Rightarrow> bool" where
  "checked_since assets new a \<longleftrightarrow>
     (\<exists>asset \<in> set assets. asset_is_usable asset \<and> (\<exists>s. (DidProtect a asset, s) \<in> set new))"

lemma checked_since_mono:
  "checked_since assets new a \<Longrightarrow> set assets \<subseteq> set assets' \<Longrightarrow> set new \<subseteq> set new' \<Longrightarrow> checked_since assets' new' a"
  unfolding checked_since_def by blast

definition protected_since ::
    "'i ApplyRequest \<Rightarrow> RecoveryAsset list \<Rightarrow> (event \<times> 'i Store) list \<Rightarrow> bool" where
  "protected_since rq assets new \<longleftrightarrow>
     (\<forall>a \<in> set (rq_protection (ar_prepare rq)). requires_protection (ar_plan rq) a \<longrightarrow>
        checked_since assets new a)"

lemma protected_since_mono:
  "protected_since rq assets new \<Longrightarrow> set new \<subseteq> set new' \<Longrightarrow> protected_since rq assets new'"
  unfolding protected_since_def by (blast intro: checked_since_mono)

lemma prepare_adds:
  assumes "prepare E rq w = (r, p, w')"
  shows "\<exists>es. adds preparing_event es w w' \<and>
    (\<forall>d. r = Inr d \<longrightarrow> (\<forall>a \<in> set (rq_protection rq). requires_protection (rq_plan rq) a \<longrightarrow>
       (\<exists>asset \<in> set (pd_assets d). asset_is_usable asset \<and> DidProtect a asset \<in> set es))) \<and>
    (\<forall>e. r = Inl e \<longrightarrow> (\<exists>point cause. pp_failure p = Some (point, cause) \<and> prepare_point point))"
  using assms
proof (cases rule: prepare_cases)
  case (refused x y e)
  then show ?thesis by (intro exI[of _ "[DidPause x False]"]) (simp add: prepare_point_def)
next
  case (ran q es0 w2 pl w3)
  show ?thesis
  proof (cases r)
    case (Inl e)
    obtain es where es: "adds preparing_event es w2 w'" "ends_badly rq p e"
      using prepare_body[OF ran(2) refl ran(3)] Inl by metis
    then show ?thesis using adds_trans[OF ran(1) es(1)] Inl unfolding ends_badly_def by blast
  next
    case (Inr d)
    obtain es where es: "adds preparing_event es w2 w'" "prep_inv rq (rq_protection rq) pl es" "ends_well rq pl q d"
      using prepare_body[OF ran(2) refl ran(3)] Inr by metis
    have "\<exists>asset \<in> set (pd_assets d). asset_is_usable asset \<and> DidProtect a asset \<in> set (es0 @ es)"
      if "a \<in> set (rq_protection rq)" "requires_protection (rq_plan rq) a" for a
      using es(2,3) that by (fastforce simp: prep_inv_def ends_well_def backed_def)
    then show ?thesis using adds_trans[OF ran(1) es(1)] Inr by blast
  qed
qed

lemma adds_new: "adds P es w w' \<Longrightarrow> e \<in> set es \<Longrightarrow> \<exists>s. (e, s) \<in> set (drop (length (w_trace w)) (w_trace w'))"
  by (auto simp: adds_def)

lemma steps_trace:
  assumes "apply_steps i n me X w w'"
  shows "w_trace w' = w_trace w @ drop (length (w_trace w)) (w_trace w')"
proof -
  obtain new where "grows i n w w' new" using steps_grow[OF assms] by blast
  then show ?thesis by (simp add: grows_def)
qed

lemma steps_new:
  assumes "apply_steps i n me X w w1" "apply_steps i n me Y w1 w2"
  shows "drop (length (w_trace w)) (w_trace w2) =
    drop (length (w_trace w)) (w_trace w1) @ drop (length (w_trace w1)) (w_trace w2)"
proof -
  have "w_trace w2 = w_trace w @ drop (length (w_trace w)) (w_trace w1) @ drop (length (w_trace w1)) (w_trace w2)"
    using steps_trace[OF assms(1)] steps_trace[OF assms(2)] by (metis append.assoc)
  then show ?thesis by (metis append_eq_conv_conj)
qed

lemma recheck_assets_steps:
  assumes "recheck_assets E providers stored as acc w = (acc', w')"
  shows "apply_steps i n me X w w' \<and> set (fst acc) \<subseteq> set (fst acc') \<and> (snd acc' = [] \<longrightarrow> snd acc = [] \<and>
    (\<forall>a \<in> set as. checked_since (fst acc') (drop (length (w_trace w)) (w_trace w')) a))"
  using assms
proof (induction as arbitrary: acc w)
  case (Cons a as)
  obtain assets missing where acc: "acc = (assets, missing)" by fastforce
  let ?find = "List.find (\<lambda>x. as_provider x = pa_provider a \<and>
    sc_domain (as_scope x) = sc_domain (as_scope (pa_proposed_asset a))) stored"
  have lost: ?case if "recheck_assets E providers stored as (assets, missing @ [m]) w1 = (acc', w')"
    "apply_steps i n me X w w1" for m w1
    using Cons.IH[OF that(1)] rtranclp_trans[OF that(2)] acc by simp
  show ?case
  proof (cases ?find)
    case None
    then show ?thesis using lost[of _ w] Cons.prems acc by (simp add: Let_def)
  next
    case (Some asset)
    show ?thesis
    proof (cases "registry_get providers (as_provider asset)")
      case None
      then show ?thesis using lost[of _ w] Cons.prems acc Some by (simp add: Let_def)
    next
      case reg: (Some prov)
      obtain answer w1 where c: "call (env_validate E (as_provider asset) asset) w = (answer, w1)" by fastforce
      have s1: "apply_steps i n me X w w1" by (rule call_steps[OF c])
      show ?thesis
      proof (cases answer)
        case (Inl e)
        then show ?thesis using lost[OF _ s1] Cons.prems acc Some reg c by (simp add: Let_def)
      next
        case (Inr v)
        let ?c = "asset_validated asset v"
        let ?w2 = "emit (DidProtect a ?c) w1"
        have s2: "apply_steps i n me X w ?w2" using s1 by (rule rtranclp.rtrancl_into_rtrancl) (rule said, simp)
        show ?thesis
        proof (cases "asset_is_usable ?c")
          case False
          then show ?thesis using lost[OF _ s2] Cons.prems acc Some reg c Inr by (simp add: Let_def)
        next
          case True
          have run: "recheck_assets E providers stored as (assets @ [?c], missing) ?w2 = (acc', w')"
            using Cons.prems acc Some reg c Inr True by (simp add: Let_def)
          note ih = Cons.IH[OF run]
          have steps: "apply_steps i n me X ?w2 w'" using ih by blast
          have "w_trace w1 = w_trace w" using c by (auto simp: call_def split: prod.splits)
          then have here: "(DidProtect a ?c, w_store w1) \<in> set (drop (length (w_trace w)) (w_trace ?w2))"
            by (simp add: emit_def)
          note new = steps_new[OF s2 steps]
          have "checked_since (fst acc') (drop (length (w_trace w)) (w_trace w')) a"
            unfolding checked_since_def new using ih here True by (intro bexI[of _ ?c]) auto
          moreover have "checked_since (fst acc') (drop (length (w_trace w)) (w_trace w')) b"
            if "checked_since (fst acc') (drop (length (w_trace ?w2)) (w_trace w')) b" for b
            unfolding new by (rule checked_since_mono[OF that]) auto
          ultimately show ?thesis using ih rtranclp_trans[OF s2 steps] acc by simp
        qed
      qed
    qed
  qed
qed simp

lemma reestablish_steps:
  assumes "reestablish_protection E rq w = (r, w')"
  shows "apply_steps i n me X w w' \<and>
    (\<forall>d. r = Inr d \<longrightarrow> protected_since rq (pd_assets d) (drop (length (w_trace w)) (w_trace w')))"
proof -
  let ?required = "filter (requires_protection (ar_plan rq)) (rq_protection (ar_prepare rq))"
  show ?thesis
  proof (cases "?required = []")
    case True
    then show ?thesis using assms by (auto simp: reestablish_protection_def Let_def protected_since_def filter_empty_conv)
  next
    case False
    obtain answer w1 where q: "store_read E (\<lambda>fault. assets_for fault (plan_id (ar_plan rq))) w = (answer, w1)" by fastforce
    have s1: "apply_steps i n me X w w1" by (rule store_read_steps[OF q])
    show ?thesis
    proof (cases answer)
      case (Inl e)
      then show ?thesis using assms False q s1 by (auto simp: reestablish_protection_def Let_def)
    next
      case (Inr ids)
      obtain stored w2 where ra: "read_assets E ids w1 = (stored, w2)" by fastforce
      obtain assets missing w3 where rc: "recheck_assets E (rq_providers (ar_prepare rq)) stored ?required ([], []) w2 = ((assets, missing), w3)"
        by (metis surj_pair)
      have w': "w' = w3" "r = (if missing = [] then Inr (prepared_nothing\<lparr>pd_assets := assets\<rparr>) else Inl (coverage_insufficient (ar_plan rq) missing))"
        using assms False q Inr ra rc by (auto simp: reestablish_protection_def Let_def)
      have s2: "apply_steps i n me X w w2" using s1 read_assets_steps[OF ra] by (rule rtranclp_trans)
      note ch = recheck_assets_steps[OF rc, of i n me X]
      have s3: "apply_steps i n me X w2 w3" using ch by blast
      have more: "set (drop (length (w_trace w2)) (w_trace w3)) \<subseteq> set (drop (length (w_trace w)) (w_trace w3))"
        unfolding steps_new[OF s2 s3] by simp
      have "protected_since rq assets (drop (length (w_trace w)) (w_trace w3))" if "missing = []"
        unfolding protected_since_def
      proof (intro ballI impI)
        fix a assume "a \<in> set (rq_protection (ar_prepare rq))" "requires_protection (ar_plan rq) a"
        then have "checked_since assets (drop (length (w_trace w2)) (w_trace w3)) a" using ch that by simp
        then show "checked_since assets (drop (length (w_trace w)) (w_trace w3)) a"
          by (rule checked_since_mono) (use more in auto)
      qed
      then show ?thesis using w' ch rtranclp_trans[OF s2] by (simp add: prepared_nothing_def)
    qed
  qed
qed

lemma protect_steps:
  assumes "protect E rq began durable rec w = (r, w')"
  shows "apply_steps i n me X w w' \<and>
    (\<forall>d p. r = Inr (d, p) \<longrightarrow> protected_since rq (pd_assets d) (drop (length (w_trace w)) (w_trace w'))) \<and>
    (\<forall>oc. r = Inl oc \<longrightarrow> (\<exists>point. ao_point oc = Some point \<and> (prepare_point point \<or> point = FpRecoveryValidation)))"
proof (cases began)
  case True
  obtain q w1 where "reestablish_protection E rq w = (q, w1)" by fastforce
  then show ?thesis using assms True reestablish_steps[of E rq w q w1]
    by (auto simp: protect_def Let_def refused_on_evidence_def refused_def split: sum.splits)
next
  case fresh: False
  show ?thesis
  proof (cases "rq_protection (ar_prepare rq) = []")
    case True
    then show ?thesis using assms fresh by (auto simp: protect_def Let_def protected_since_def)
  next
    case False
    let ?w1 = "write_state E rq Preparing w"
    obtain q p w2 where run: "prepare E (ar_prepare rq) ?w1 = (q, p, w2)" by (metis surj_pair)
    obtain es where es: "adds preparing_event es ?w1 w2"
      "\<And>d a. q = Inr d \<Longrightarrow> a \<in> set (rq_protection (ar_prepare rq)) \<Longrightarrow> requires_protection (ar_plan rq) a \<Longrightarrow>
        \<exists>asset \<in> set (pd_assets d). asset_is_usable asset \<and> DidProtect a asset \<in> set es"
      "\<And>e. q = Inl e \<Longrightarrow> \<exists>point cause. pp_failure p = Some (point, cause) \<and> prepare_point point"
      using prepare_adds[OF run] by blast
    have s1: "apply_steps i n me X w ?w1" by (rule write_state_steps)
    have s2: "apply_steps i n me X ?w1 w2" by (rule adds_steps[OF es(1)]) (rule preparing_quiet)
    have new: "set (drop (length (w_trace ?w1)) (w_trace w2)) \<subseteq> set (drop (length (w_trace w)) (w_trace w2))"
      unfolding steps_new[OF s1 s2] by simp
    show ?thesis
    proof (cases q)
      case (Inl e)
      have "w' = write_state E rq PrepareFailed (persist_assets E rq (pp_created p) w2)" "r = Inl (prepare_failure (ar_plan rq) p e)"
        using assms fresh False run Inl by (auto simp: protect_def Let_def)
      moreover have "apply_steps i n me X w2 (write_state E rq PrepareFailed (persist_assets E rq (pp_created p) w2))"
        by (rule rtranclp_trans[OF persist_assets_steps write_state_steps])
      moreover obtain point cause where "pp_failure p = Some (point, cause)" "prepare_point point" using es(3)[OF Inl] by blast
      ultimately show ?thesis using rtranclp_trans[OF rtranclp_trans[OF s1 s2]] by (simp add: prepare_failure_def refused_def)
    next
      case (Inr d)
      have "w' = w2" "r = Inr (d, p)" using assms fresh False run Inr by (auto simp: protect_def Let_def)
      moreover have "protected_since rq (pd_assets d) (drop (length (w_trace ?w1)) (w_trace w2))"
        unfolding protected_since_def checked_since_def using es(2)[OF Inr] adds_new[OF es(1)] by blast
      ultimately show ?thesis using rtranclp_trans[OF s1 s2] protected_since_mono[OF _ new] by simp
    qed
  qed
qed

section \<open>Actions\<close>

lemma record_kept:
  assumes "record_action_status fault i n a k st at detail s = Inr s'" "may_have_mutated st"
  shows "evidence_kept i n s s' \<and> recorded_statuses s' i n a = Some st \<and> st_claims s' = st_claims s"
  using assms by (auto simp: record_action_status_def evidence_kept_def recorded_statuses_def Let_def
      split: option.splits if_splits)

lemma journal_status_steps:
  assumes "journal_status E rq a st detail w = (r, w')" "may_have_mutated st"
  defines "i \<equiv> plan_id (ar_plan rq)" and "n \<equiv> cp_revision (ar_plan rq)"
  shows "apply_steps i n me X w w' \<and> (r = None \<longrightarrow>
    w_trace w' = w_trace w @ [(DidRecord (act_id a) st True, w_store w')] \<and>
    st_claims (w_store w') = st_claims (w_store w) \<and> recorded_statuses (w_store w') i n (act_id a) = Some st)"
proof -
  obtain at w1 where t: "stamp E rq w = (at, w1)" by fastforce
  obtain fault w2 where c: "call (env_database E) w1 = (fault, w2)" by fastforce
  have same: "w_trace w2 = w_trace w" "w_store w2 = w_store w"
    using t c by (auto simp: stamp_def call_def split: prod.splits if_splits)
  have s2: "apply_steps i n me X w w2" by (rule rtranclp_trans[OF stamp_steps[OF t] call_steps[OF c]])
  show ?thesis
  proof (cases "record_action_status fault i n (act_id a) (ordinal a) st at detail (w_store w2)")
    case (Inl e)
    then have eq: "w' = emit (DidRecord (act_id a) st False) w2" "r = Some e"
      using assms(1) t c by (auto simp: journal_status_def store_write_def i_def n_def)
    have "apply_step i n me X w2 w'" unfolding eq by (rule said) simp
    then show ?thesis using s2 eq by (auto intro: rtranclp.rtrancl_into_rtrancl)
  next
    case (Inr s)
    then have eq: "w' = emit (DidRecord (act_id a) st True) (w2\<lparr>w_store := s\<rparr>)" "r = None"
      using assms(1) t c by (auto simp: journal_status_def store_write_def i_def n_def)
    note k = record_kept[OF Inr assms(2)]
    have "apply_step i n me X w2 w'" unfolding eq by (rule recorded) (use k assms(2) in auto)
    then show ?thesis using s2 eq k same by (auto simp: emit_def intro: rtranclp.rtrancl_into_rtrancl)
  qed
qed

definition run_ok :: "'i ApplyRequest \<Rightarrow> ustr set \<Rightarrow> ('w, 'i) World \<Rightarrow> ('w, 'i) Run \<Rightarrow> bool" where
  "run_ok rq X w0 r \<longleftrightarrow>
     claim_plan (r_claim r) = plan_id (ar_plan rq) \<and> claim_session (r_claim r) = ar_session rq \<and>
     apply_steps (plan_id (ar_plan rq)) (cp_revision (ar_plan rq)) (ar_session rq)
       (if r_executed r then X else {}) w0 (r_world r) \<and>
     (\<forall>p e a. r_stop r = Some (p, e, a) \<longrightarrow> p \<in> {FpActionNotStarted, FpFirstMutateAction,
        FpMiddleMutateAction, FpRemoteDisconnect, FpUnknownOutcome})"

lemma start_action_steps:
  assumes "start_action E rq a r = (failure, r')"
    "claim_plan (r_claim r) = plan_id (ar_plan rq)" "claim_session (r_claim r) = ar_session rq"
  defines "i \<equiv> plan_id (ar_plan rq)" and "n \<equiv> cp_revision (ar_plan rq)" and "me \<equiv> ar_session rq"
  shows "apply_steps i n me X (r_world r) (r_world r') \<and>
    claim_plan (r_claim r') = i \<and> claim_session (r_claim r') = me \<and>
    r_executed r' = r_executed r \<and> r_stop r' = r_stop r \<and> r_statuses r' = r_statuses r \<and>
    (failure = None \<longrightarrow> claimed_by i me (w_store (r_world r')) \<and>
       recorded_statuses (w_store (r_world r')) i n (act_id a) = Some ActRunning \<and>
       (\<exists>pre s. w_trace (r_world r') =
          pre @ [(DidRenew True, s), (DidRecord (act_id a) ActRunning True, w_store (r_world r'))]))"
proof -
  obtain at w1 where t: "stamp E rq (r_world r) = (at, w1)" by fastforce
  obtain fault w2 where c: "call (env_database E) w1 = (fault, w2)" by fastforce
  have s2: "apply_steps i n me X (r_world r) w2" by (rule rtranclp_trans[OF stamp_steps[OF t] call_steps[OF c]])
  show ?thesis
  proof (cases "renew (env_running E (w_env w2)) (ar_pid rq) fault (r_claim r) at (w_store w2)")
    case (Inl e)
    then have eq: "r' = r\<lparr>r_world := emit (DidRenew False) w2\<rparr>" "failure = Some e"
      using assms(1) t c by (auto simp: start_action_def claim_write_def)
    have "apply_step i n me X w2 (emit (DidRenew False) w2)" by (rule said) simp
    then show ?thesis using s2 eq assms(2,3) by (auto simp: i_def me_def intro: rtranclp.rtrancl_into_rtrancl)
  next
    case (Inr cs)
    obtain c' s where cs: "cs = (c', s)" by fastforce
    have taken: "evidence_kept i n (w_store w2) s \<and> claimed_by i me s"
      "claim_plan c' = i" "claim_session c' = me"
      using Inr cs assms(2,3)
      by (auto simp: renew_def i_def me_def n_def split: sum.splits dest: take_claim_kept)
    let ?w3 = "emit (DidRenew True) (w2\<lparr>w_store := s\<rparr>)"
    have "apply_step i n me X w2 ?w3" by (rule renewed) (use taken in auto)
    with s2 have s3: "apply_steps i n me X (r_world r) ?w3" by (rule rtranclp.rtrancl_into_rtrancl)
    obtain f w4 where j: "journal_status E rq a ActRunning None ?w3 = (f, w4)" by fastforce
    have eq: "r' = r\<lparr>r_world := w4, r_claim := c'\<rparr>" "failure = f"
      using assms(1) t c Inr cs j by (auto simp: start_action_def claim_write_def)
    note js = journal_status_steps[OF j, of me X, folded i_def n_def]
    have "may_have_mutated ActRunning" by (simp add: may_have_mutated_def)
    then show ?thesis using js s3 eq taken by (auto simp: emit_def claimed_by_def intro: rtranclp_trans)
  qed
qed

lemma stop_of_points:
  "stop_of plan a outcome sts = Some (p, e, x) \<Longrightarrow>
     p \<in> {FpFirstMutateAction, FpMiddleMutateAction, FpRemoteDisconnect, FpUnknownOutcome}"
  by (cases outcome) (auto simp: stop_of_def failed_at_def split: if_splits)

lemma outcome_mutated [simp]: "may_have_mutated (outcome_status out)"
  by (cases out) (auto simp: may_have_mutated_def)

lemma submit_action_ok:
  assumes "submit_action E rq a r = (st, r')" "run_ok rq X w0 r" "act_id a \<in> X"
  shows "run_ok rq X w0 r'"
proof -
  let ?i = "plan_id (ar_plan rq)" and ?n = "cp_revision (ar_plan rq)" and ?me = "ar_session rq"
  have inv: "claim_plan (r_claim r) = ?i" "claim_session (r_claim r) = ?me"
    "apply_steps ?i ?n ?me (if r_executed r then X else {}) w0 (r_world r)"
    using assms(2) by (auto simp: run_ok_def)
  obtain failure r1 where sa: "start_action E rq a r = (failure, r1)" by fastforce
  note start = start_action_steps[OF sa inv(1,2)]
  show ?thesis
  proof (cases failure)
    case (Some e)
    have "apply_steps ?i ?n ?me (if r_executed r then X else {}) w0 (r_world r1)"
      using inv(3) start by (blast intro: rtranclp_trans)
    moreover have "apply_steps ?i ?n ?me (if r_executed r then X else {}) (r_world r1) (keep_failure (Some e) (r_world r1))"
      by (rule keep_failure_steps)
    ultimately show ?thesis using assms(1) sa Some start[of "{}"]
      by (auto simp: submit_action_def run_ok_def Let_def intro: rtranclp_trans)
  next
    case None
    obtain out w2 where c: "call (env_execute E a) (r_world r1) = (out, w2)" by fastforce
    let ?w3 = "emit (DidExecute (act_id a) (outcome_status out)) w2"
    obtain f w4 where j: "journal_status E rq a (outcome_status out) (map_option ev_message (outcome_error out)) ?w3 = (f, w4)"
      by fastforce
    have same: "w_trace w2 = w_trace (r_world r1)" "w_store w2 = w_store (r_world r1)"
      using c by (auto simp: call_def split: prod.splits)
    have "apply_steps ?i ?n ?me X w0 (r_world r)" using inv(3) by (rule steps_mono) auto
    also have "apply_steps ?i ?n ?me X (r_world r) (r_world r1)" using start by blast
    also have "apply_steps ?i ?n ?me X (r_world r1) w2" by (rule call_steps[OF c])
    also have "apply_step ?i ?n ?me X w2 ?w3"
      using start[of X] None assms(3) unfolding same[symmetric] by (auto intro: executed)
    also have "apply_steps ?i ?n ?me X ?w3 w4" using journal_status_steps[OF j] by simp
    also have "apply_steps ?i ?n ?me X w4 (keep_failure f w4)" by (rule keep_failure_steps)
    finally have "apply_steps ?i ?n ?me X w0 (keep_failure f w4)" .
    moreover have "r_world r' = keep_failure f w4" "r_executed r'" "r_claim r' = r_claim r1"
      "\<exists>sts. r_stop r' = stop_of (ar_plan rq) a out sts"
      using assms(1) sa None c j by (auto simp: submit_action_def run_action_def Let_def)
    moreover have "claim_plan (r_claim r1) = ?i" "claim_session (r_claim r1) = ?me" using start by auto
    ultimately show ?thesis unfolding run_ok_def by (auto dest: stop_of_points[OF sym])
  qed
qed

lemma submit_actions_ok:
  assumes "submit_actions E rq prior as st r = (st', r')" "run_ok rq X w0 r"
    "\<And>a. a \<in> set as \<Longrightarrow> prior (act_id a) \<noteq> Some ActSucceeded \<Longrightarrow> act_id a \<in> X"
  shows "run_ok rq X w0 r'"
  using assms
proof (induction as arbitrary: st r)
  case (Cons a as)
  show ?case
  proof (cases "r_stop r \<noteq> None \<or> prior (act_id a) = Some ActSucceeded")
    case True
    then show ?thesis using Cons by (auto split: if_splits)
  next
    case False
    obtain st1 r1 where s: "submit_action E rq a r = (st1, r1)" by fastforce
    have "run_ok rq X w0 r1" by (rule submit_action_ok[OF s Cons.prems(2)]) (use Cons.prems(3) False in auto)
    then show ?thesis using Cons.IH[of st1 r1] Cons.prems False s by (auto split: if_splits)
  qed
qed simp

lemma submit_ok:
  assumes "submit E rq prior mutating ts r = (rs, r')" "run_ok rq X w0 r"
    "\<And>a t. a \<in> set mutating \<Longrightarrow> action_covers a t (ar_plan rq) \<Longrightarrow> prior (act_id a) \<noteq> Some ActSucceeded \<Longrightarrow> act_id a \<in> X"
  shows "run_ok rq X w0 r'"
  using assms
proof (induction ts arbitrary: r rs)
  case (Cons t ts)
  show ?case
  proof (cases "r_stop r")
    case None
    obtain st r1 where s: "submit_actions E rq prior (filter (\<lambda>a. action_covers a t (ar_plan rq)) mutating) ActSkipped r = (st, r1)"
      by fastforce
    have "run_ok rq X w0 r1" by (rule submit_actions_ok[OF s Cons.prems(2)]) (use Cons.prems(3) in auto)
    then show ?thesis using Cons.IH[of r1] Cons.prems None s by (auto split: prod.splits)
  qed (use Cons.prems in auto)
qed simp

lemma gate_wave_ok: "gate_wave E rq ts r = (v, r') \<Longrightarrow> run_ok rq X w0 r \<Longrightarrow> run_ok rq X w0 r'"
  by (auto simp: gate_wave_def run_ok_def Let_def split: prod.splits
      intro: rtranclp_trans[OF _ observe_all_steps])

text \<open>Whatever the submission and the gate keep of their state, the run over the waves keeps.\<close>

lemma run_waves_from_inv:
  assumes "\<And>w ts s rs s'. sub w ts s = (rs, s') \<Longrightarrow> I s \<Longrightarrow> I s'"
    and "\<And>w ts s v s'. gate w ts s = (v, s') \<Longrightarrow> I s \<Longrightarrow> I s'"
    and "run_waves_with_from targets sub gate k ws run0 s = (run, s')" and "I s"
  shows "I s'"
  using assms(3,4)
proof (induction ws arbitrary: k run0 s)
  case (Cons w ws)
  obtain rs s1 where s: "sub w (wave_slice targets w) s = (rs, s1)" by fastforce
  obtain v s2 where g: "gate w (wave_slice targets w) s1 = (v, s2)" by fastforce
  have "I s1" "I s2" using assms(1)[OF s] assms(2)[OF g] Cons.prems(2) by auto
  then show ?case using Cons.prems(1) s g Cons.IH by (auto simp: Let_def split: if_splits)
qed simp

lemma run_waves_with_inv:
  assumes "\<And>w ts s rs s'. sub w ts s = (rs, s') \<Longrightarrow> I s \<Longrightarrow> I s'"
    and "\<And>w ts s v s'. gate w ts s = (v, s') \<Longrightarrow> I s \<Longrightarrow> I s'"
    and "run_waves_with strategy targets sub gate s = (run, s')" and "I s"
  shows "I s'"
  by (rule run_waves_from_inv[of sub I gate, OF assms(1) assms(2) assms(3)[unfolded run_waves_with_def] assms(4)])

lemma settle_prepared_steps: 
  "apply_steps (plan_id (ar_plan rq)) (cp_revision (ar_plan rq)) me X w (settle_prepared E rq d as w)"
proof (induction as arbitrary: w)
  case (Cons a as)
  obtain f w1 where j: "journal_status E rq a ActSucceeded None w = (f, w1)" by fastforce
  have "apply_steps (plan_id (ar_plan rq)) (cp_revision (ar_plan rq)) me X w (keep_failure f w1)"
    by (rule rtranclp_trans[OF _ keep_failure_steps])
      (use journal_status_steps[OF j, of me X] in \<open>simp add: may_have_mutated_def\<close>)
  then show ?case using Cons.IH j by (auto intro: rtranclp_trans)
qed simp

section \<open>The whole apply\<close>

lemma order_members:
  "topological_order actions = Some (Inr order) \<Longrightarrow> set (mutating_actions actions order) =
     {a \<in> set actions. mutates_target (role a)}"
proof -
  assume "topological_order actions = Some (Inr order)"
  then have "set order = {..<length actions}" using ordering_decided[of actions] by (auto split: if_splits)
  then show ?thesis by (auto simp: mutating_actions_def in_set_conv_nth)
qed

definition unsettled :: "'i ApplyRequest \<Rightarrow> (ustr \<rightharpoonup> ActionStatus) \<Rightarrow> ustr set" where
  "unsettled rq prior = {act_id a | a. a \<in> set (plan_actions (ar_plan rq)) \<and> mutates_target (role a) \<and>
     (\<exists>t. action_covers a t (ar_plan rq)) \<and> prior (act_id a) \<noteq> Some ActSucceeded}"

lemma run_start_ok:
  "claim_plan c = plan_id (ar_plan rq) \<Longrightarrow> claim_session c = ar_session rq \<Longrightarrow>
     run_ok rq X w (run_start E rq d prior c w)"
  by (simp add: run_ok_def run_start_def settle_prepared_steps)

lemma verdict_mutated: "vo_verdict v = VVerified \<Longrightarrow> has_mutated (state_for v recovery)"
  by (simp add: state_for_def has_mutated_def)

lemma verify_point:
  assumes "verify E plan now w = (v, w')"
  shows "case vo_point v of None \<Rightarrow> vo_verdict v = VVerified | Some p \<Rightarrow> point_may_have_mutated p"
  using assms by (auto simp: verify_def Let_def point_may_have_mutated_def split: prod.splits)

lemma finish_run_steps:
  assumes "finish_run E rq d p mutating run r = (oc, w')" "run_ok rq X w0 r"
  shows "apply_steps i n me Y (r_world r) w' \<and> (\<not> outcome_has_mutated oc \<longrightarrow> \<not> r_executed r)"
proof (cases "r_stop r")
  case (Some x)
  obtain point e a where x: "x = (point, e, a)" by (metis surj_pair)
  have "point \<in> {FpActionNotStarted, FpFirstMutateAction, FpMiddleMutateAction, FpRemoteDisconnect, FpUnknownOutcome}"
    using assms(2) Some x by (simp add: run_ok_def)
  then show ?thesis using assms(1) Some x
    by (auto simp: finish_run_def Let_def outcome_not_started_def outcome_stopped_def outcome_has_mutated_def
        run_outcome_def point_may_have_mutated_def)
next
  case None
  obtain v w1 where v: "verify E (ar_plan rq) (ar_now rq) (r_world r) = (v, w1)" by fastforce
  have "outcome_has_mutated (outcome_verified (ar_plan rq) v oc')" for oc'
    using verify_point[OF v] by (auto simp: outcome_has_mutated_def outcome_verified_def verdict_mutated
        point_may_have_mutated_def split: option.splits)
  moreover have "outcome_has_mutated (outcome_gated (ar_plan rq) g oc')" for g oc'
    by (simp add: outcome_has_mutated_def outcome_gated_def Let_def point_may_have_mutated_def)
  moreover have "apply_steps i n me Y (r_world r) w1" by (rule verify_steps[OF v])
  ultimately show ?thesis using assms(1) None v
    by (auto simp: finish_run_def Let_def split: option.splits Verdict.splits)
qed

lemma mutate_steps:
  assumes "mutate E rq d p prior c w = (oc, held, c', w')"
    "claim_plan c = plan_id (ar_plan rq)" "claim_session c = ar_session rq"
  shows "\<exists>X. X \<subseteq> unsettled rq prior \<and> (\<not> outcome_has_mutated oc \<longrightarrow> X = {}) \<and>
    apply_steps (plan_id (ar_plan rq)) (cp_revision (ar_plan rq)) (ar_session rq) X w w'"
proof (cases "\<exists>order. topological_order (plan_actions (ar_plan rq)) = Some (Inr order)")
  case True
  then obtain order where order: "topological_order (plan_actions (ar_plan rq)) = Some (Inr order)" by blast
  let ?m = "mutating_actions (plan_actions (ar_plan rq)) order"
  let ?X = "unsettled rq prior"
  obtain run r where run: "run_waves_with (cp_strategy (ar_plan rq)) (target_labels (ar_plan rq))
      (\<lambda>_. submit E rq prior ?m) (\<lambda>_. gate_wave E rq) (run_start E rq d prior c w) = (run, r)" by fastforce
  have ok: "run_ok rq ?X w r"
  proof (rule run_waves_with_inv[OF _ _ run])
    show "run_ok rq ?X w (run_start E rq d prior c w)" using assms(2,3) by (rule run_start_ok)
    show "submit E rq prior ?m ts s = (rs, s') \<Longrightarrow> run_ok rq ?X w s \<Longrightarrow> run_ok rq ?X w s'" for ts s rs s'
      by (erule submit_ok) (auto simp: unsettled_def order_members[OF order])
  qed (rule gate_wave_ok)
  obtain oc1 w1 where fin: "finish_run E rq d p ?m run r = (oc1, w1)" by fastforce
  have eq: "oc = oc1" "w' = w1" using assms(1) order run fin by (auto simp: mutate_def Let_def)
  let ?Y = "if r_executed r then ?X else {}"
  have "apply_steps (plan_id (ar_plan rq)) (cp_revision (ar_plan rq)) (ar_session rq) ?Y w (r_world r)"
    using ok by (simp add: run_ok_def)
  then have "apply_steps (plan_id (ar_plan rq)) (cp_revision (ar_plan rq)) (ar_session rq) ?Y w w1"
    using finish_run_steps[OF fin ok] by (blast intro: rtranclp_trans)
  then show ?thesis using finish_run_steps[OF fin ok] eq by (intro exI[of _ ?Y]) auto
next
  case False
  then have "w' = w" using assms(1) by (auto simp: mutate_def Let_def split: option.splits sum.splits)
  then show ?thesis by (intro exI[of _ "{}"]) auto
qed

text \<open>The actions a run may execute, by what the store records of them when it starts.\<close>

definition may_run :: "'i ApplyRequest \<Rightarrow> 'i Store \<Rightarrow> ustr set" where
  "may_run rq s = {act_id a | a. a \<in> set (plan_actions (ar_plan rq)) \<and> mutates_target (role a) \<and>
     (\<exists>t. action_covers a t (ar_plan rq)) \<and>
     (case recorded_statuses s (plan_id (ar_plan rq)) (cp_revision (ar_plan rq)) (act_id a) of
        None \<Rightarrow> True | Some st \<Rightarrow> rerunnable st (idempotency a))}"

lemma store_read_store: "store_read E query w = (x, w') \<Longrightarrow> w_store w' = w_store w"
  by (auto simp: store_read_def call_def split: prod.splits)

lemma durable_evidence_Inr:
  assumes "durable_evidence E rq w = (Inr (durable, rec), w')"
  shows "rec = recorded_statuses (w_store w) (plan_id (ar_plan rq)) (cp_revision (ar_plan rq)) \<and> w_store w' = w_store w"
  using assms
  by (auto simp: durable_evidence_def Let_def store_read_def call_def action_statuses_def recorded_statuses_def
      split: prod.splits sum.splits option.splits)

lemma resume_refuses_blocked:
  assumes "refusal (resume plan (Inr sts) :: ErrorValue ResumeOutcome) = None" "a \<in> set (plan_actions plan)"
  shows "Plan_Resume.recorded sts a = ActSucceeded \<or> rerunnable (Plan_Resume.recorded sts a) (idempotency a)"
proof -
  let ?out = "resume_with plan (Inr sts) [] :: ErrorValue ResumeOutcome"
  have "decision ?out \<in> {ResContinue, ResAlreadyComplete}"
    using assms(1) unfolding resume_def resume_with_decision(2) .
  then have "blocked ?out = []" unfolding resume_with_decision(1) by (auto split: if_splits)
  then show ?thesis using assms(2) by (auto simp: resume_with_lists filter_empty_conv)
qed

lemma resume_prior_Inr:
  assumes "resume_prior E rq rec w = (Inr prior, w')" "mutation_began (ar_plan rq) rec \<Longrightarrow> ar_resume rq"
    "rec = recorded_statuses (w_store w) (plan_id (ar_plan rq)) (cp_revision (ar_plan rq))"
  shows "unsettled rq prior \<subseteq> may_run rq (w_store w)"
proof (cases "ar_resume rq")
  case True
  obtain answer w1 where q: "store_read E (\<lambda>fault. action_statuses fault (plan_id (ar_plan rq)) (cp_revision (ar_plan rq))) w = (answer, w1)"
    by fastforce
  have r: "refusal (resume (ChangePlan.truncate (ar_plan rq)) answer) = None" "prior = rec"
    using assms(1) True q by (auto simp: resume_prior_def split: option.splits)
  have answer: "answer = Inr rec"
  proof (cases answer)
    case (Inl e)
    then show ?thesis using r(1) by (simp add: resume_def resume_with_def)
  next
    case (Inr sts)
    then show ?thesis using q assms(3) by (auto simp: store_read_def call_def action_statuses_def recorded_statuses_def
        split: prod.splits option.splits)
  qed
  have "rerunnable st (idempotency a)" if "a \<in> set (plan_actions (ar_plan rq))" "rec (act_id a) = Some st" "st \<noteq> ActSucceeded" for a st
    using resume_refuses_blocked[of "ChangePlan.truncate (ar_plan rq)" rec a] r(1) answer that
    by (simp add: Plan_Resume.recorded_def ChangePlan.defs)
  then show ?thesis using assms(3) r(2) unfolding unsettled_def may_run_def by (auto split: option.splits)
next
  case False
  then have "\<not> mutation_began (ar_plan rq) rec" using assms(2) by blast
  then have "rerunnable st (idempotency a)"
    if "a \<in> set (plan_actions (ar_plan rq))" "mutates_target (role a)" "rec (act_id a) = Some st" for a st
    using that by (cases st) (fastforce simp: mutation_began_def list_ex_iff may_have_mutated_def rerunnable_def)+
  then show ?thesis using assms(3) unfolding unsettled_def may_run_def by (auto split: option.splits)
qed

text \<open>
  What an apply comes to: a part that executes nothing, and a part that executes only actions the
  records permit, after the protection was checked, and nothing when the outcome denies mutation.
\<close>

definition apply_shape ::
    "'i ApplyRequest \<Rightarrow> ('w, 'i) World \<Rightarrow> ApplyOutcome \<Rightarrow> ('w, 'i) World \<Rightarrow> bool" where
  "apply_shape rq w oc w' \<longleftrightarrow>
     (let steps = apply_steps (plan_id (ar_plan rq)) (cp_revision (ar_plan rq)) (ar_session rq)
      in \<exists>mid X. steps {} w mid \<and> steps X mid w' \<and> X \<subseteq> may_run rq (w_store w) \<and>
           (\<not> outcome_has_mutated oc \<longrightarrow> X = {}) \<and>
           (\<not> ar_resume rq \<and> mutation_began (ar_plan rq) (recorded_statuses (w_store w)
              (plan_id (ar_plan rq)) (cp_revision (ar_plan rq))) \<longrightarrow> X = {}) \<and>
           (X \<noteq> {} \<longrightarrow> (\<exists>assets. protected_since rq assets (drop (length (w_trace w)) (w_trace mid)))))"

lemma shape_quiet:
  "apply_steps (plan_id (ar_plan rq)) (cp_revision (ar_plan rq)) (ar_session rq) {} w w' \<Longrightarrow> apply_shape rq w oc w'"
  unfolding apply_shape_def Let_def by (rule exI[of _ w'], rule exI[of _ "{}"]) simp

lemma apply_claimed_shape:
  assumes "apply_claimed E rq c w = (oc, c', w')"
    "claim_plan c = plan_id (ar_plan rq)" "claim_session c = ar_session rq"
  shows "apply_shape rq w oc w'"
proof -
  let ?S = "apply_steps (plan_id (ar_plan rq)) (cp_revision (ar_plan rq)) (ar_session rq)"
  obtain q w1 where ev: "durable_evidence E rq w = (q, w1)" by fastforce
  have s1: "?S {} w w1" by (rule durable_evidence_steps[OF ev])
  note quiet = shape_quiet
  show ?thesis
  proof (cases q)
    case (Inl e)
    then show ?thesis using assms(1) ev s1 quiet by (auto simp: apply_claimed_def Let_def)
  next
    case (Inr dr)
    obtain durable rec where dr: "q = Inr (durable, rec)" using Inr by (cases dr) auto
    note evd = durable_evidence_Inr[OF ev[unfolded dr]]
    show ?thesis
    proof (cases "appliability (ar_plan rq) durable (ar_now rq) (ar_resume rq) \<noteq> None \<or>
        mutation_began (ar_plan rq) rec \<and> \<not> ar_resume rq")
      case True
      then have "w' = w1" using assms(1) ev dr by (auto simp: apply_claimed_def Let_def split: option.splits)
      then show ?thesis using quiet[OF s1] by simp
    next
      case ok: False
      obtain pr w2 where rp: "resume_prior E rq rec w1 = (pr, w2)" by fastforce
      have s2: "?S {} w w2" by (rule rtranclp_trans[OF s1 resume_prior_steps[OF rp]])
      show ?thesis
      proof (cases pr)
        case (Inl e)
        then show ?thesis using assms(1) ev dr ok rp s2 quiet by (auto simp: apply_claimed_def Let_def)
      next
        case prior: (Inr prior)
        obtain pc w3 where pc: "precheck E rq prior w2 = (pc, w3)" by fastforce
        have s3: "?S {} w w3" by (rule rtranclp_trans[OF s2 precheck_steps[OF pc]])
        show ?thesis
        proof (cases pc)
          case (Some oc1)
          then show ?thesis using assms(1) ev dr ok rp prior pc s3 quiet by (auto simp: apply_claimed_def Let_def)
        next
          case None
          obtain pt w4 where pt: "protect E rq (mutation_began (ar_plan rq) rec) durable rec w3 = (pt, w4)" by fastforce
          note prot = protect_steps[OF pt]
          have s34: "?S {} w3 w4" and s4: "?S {} w w4" using prot rtranclp_trans[OF s3] by auto
          show ?thesis
          proof (cases pt)
            case (Inl oc1)
            then show ?thesis using assms(1) ev dr ok rp prior pc None pt s4 quiet by (auto simp: apply_claimed_def Let_def)
          next
            case (Inr dp)
            obtain d p where dp: "pt = Inr (d, p)" using Inr by (cases dp) auto
            let ?w5 = "write_state E rq Applying (persist_assets E rq (kept_assets d) w4)"
            have s5: "?S {} w4 ?w5" by (rule rtranclp_trans[OF persist_assets_steps write_state_steps])
            obtain oc1 held c1 w6 where mu: "mutate E rq d p prior c ?w5 = (oc1, held, c1, w6)" by (metis surj_pair)
            obtain X where X: "X \<subseteq> unsettled rq prior" "\<not> outcome_has_mutated oc1 \<longrightarrow> X = {}" "?S X ?w5 w6"
              using mutate_steps[OF mu assms(2,3)] by blast
            have eq: "oc = oc1" "w' = (if held then write_state E rq (ao_state oc1) w6 else w6)"
              using assms(1) ev dr ok rp prior pc None pt dp mu by (auto simp: apply_claimed_def Let_def)
            have "?S X w6 w'" unfolding eq by (simp add: write_state_steps)
            then have "?S X ?w5 w'" using X(3) by (rule rtranclp_trans[rotated])
            moreover have "unsettled rq prior \<subseteq> may_run rq (w_store w)"
              using resume_prior_Inr[OF rp[unfolded prior]] evd ok by auto
            moreover have "set (drop (length (w_trace w3)) (w_trace w4)) \<subseteq> set (drop (length (w_trace w)) (w_trace ?w5))"
              unfolding steps_new[OF s4 s5] steps_new[OF s3 s34] by auto
            then have "protected_since rq (pd_assets d) (drop (length (w_trace w)) (w_trace ?w5))"
              by (rule protected_since_mono[rotated]) (use prot dp in simp)
            moreover have "\<not> (\<not> ar_resume rq \<and> mutation_began (ar_plan rq) rec)" using ok by blast
            ultimately show ?thesis unfolding apply_shape_def Let_def
              using rtranclp_trans[OF s4 s5] X eq(1) evd by blast
          qed
        qed
      qed
    qed
  qed
qed

lemma shape_around:
  assumes "apply_shape rq w1 oc w2" "st_statuses (w_store w1) = st_statuses (w_store w)"
    "apply_steps (plan_id (ar_plan rq)) (cp_revision (ar_plan rq)) (ar_session rq) {} w w1"
    "\<And>X. apply_steps (plan_id (ar_plan rq)) (cp_revision (ar_plan rq)) (ar_session rq) X w2 w3"
  shows "apply_shape rq w oc w3"
proof -
  let ?S = "apply_steps (plan_id (ar_plan rq)) (cp_revision (ar_plan rq)) (ar_session rq)"
  obtain mid X where m: "?S {} w1 mid" "?S X mid w2" "X \<subseteq> may_run rq (w_store w1)" "\<not> outcome_has_mutated oc \<longrightarrow> X = {}"
    "X \<noteq> {} \<longrightarrow> (\<exists>assets. protected_since rq assets (drop (length (w_trace w1)) (w_trace mid)))"
    "\<not> ar_resume rq \<and> mutation_began (ar_plan rq) (recorded_statuses (w_store w1)
              (plan_id (ar_plan rq)) (cp_revision (ar_plan rq))) \<longrightarrow> X = {}"
    using assms(1) unfolding apply_shape_def Let_def by blast
  have rec: "recorded_statuses (w_store w1) p k = recorded_statuses (w_store w) p k" for p k
    using assms(2) by (simp add: recorded_statuses_def)
  have "set (drop (length (w_trace w1)) (w_trace mid)) \<subseteq> set (drop (length (w_trace w)) (w_trace mid))"
    unfolding steps_new[OF assms(3) m(1)] by simp
  then have "X \<noteq> {} \<longrightarrow> (\<exists>assets. protected_since rq assets (drop (length (w_trace w)) (w_trace mid)))"
    using m(5) protected_since_mono by blast
  then show ?thesis unfolding apply_shape_def Let_def
    using rtranclp_trans[OF assms(3) m(1)] rtranclp_trans[OF m(2) assms(4)] m(3,4,6)[unfolded may_run_def rec]
    unfolding may_run_def by blast
qed

lemma claim_write_claim:
  assumes "claim_write E (\<lambda>running fault. claim running pid fault p me now) DidClaim w = (answer, w1)"
  shows "apply_steps i n me' X w w1 \<and> st_statuses (w_store w1) = st_statuses (w_store w) \<and>
    (\<forall>c. answer = Inr c \<longrightarrow> claim_plan c = p \<and> claim_session c = me)"
proof -
  obtain fault w0 where c: "call (env_database E) w = (fault, w0)" by fastforce
  have same: "w_store w0 = w_store w" using c by (auto simp: call_def split: prod.splits)
  have s0: "apply_steps i n me' X w w0" by (rule call_steps[OF c])
  show ?thesis
  proof (cases "claim (env_running E (w_env w0)) pid fault p me now (w_store w0)")
    case (Inl e)
    then have eq: "w1 = emit (DidClaim False) w0" "answer = Inl e" using assms c by (auto simp: claim_write_def)
    have "apply_step i n me' X w0 w1" unfolding eq by (rule said) simp
    then show ?thesis using s0 eq same by (auto simp: emit_def intro: rtranclp.rtrancl_into_rtrancl)
  next
    case (Inr cs)
    obtain c' s where cs: "cs = (c', s)" by fastforce
    have eq: "w1 = emit (DidClaim True) (w0\<lparr>w_store := s\<rparr>)" "answer = Inr c'" using assms c Inr cs by (auto simp: claim_write_def)
    have kept: "st_statuses s = st_statuses (w_store w0)" "claim_plan c' = p" "claim_session c' = me"
      using Inr cs by (auto simp: claim_def claim_for_def take_claim_def Let_def split: sum.splits option.splits if_splits)
    have "apply_step i n me' X w0 w1" unfolding eq by (rule wrote) (use kept in \<open>auto intro: statuses_kept\<close>)
    then show ?thesis using s0 eq same kept by (auto simp: emit_def intro: rtranclp.rtrancl_into_rtrancl)
  qed
qed

lemma apply_plan_shape:
  assumes "apply_plan E rq w = (oc, w')"
  shows "apply_shape rq w oc w'"
proof -
  let ?early = "if \<not> plan_state (ar_plan rq) \<in> {Preparing, Applying, Verifying} \<or> ar_resume rq
    then appliability (ar_plan rq) (plan_state (ar_plan rq)) (ar_now rq) (ar_resume rq) else None"
  obtain answer w1 where cw: "claim_write E (\<lambda>running fault. claim running (ar_pid rq) fault
      (plan_id (ar_plan rq)) (ar_session rq) (ar_now rq)) DidClaim w = (answer, w1)" by fastforce
  note claimed = claim_write_claim[OF cw]
  show ?thesis
  proof (cases "?early \<noteq> None \<or> \<not> digest_holds (ar_digest rq) (ar_plan rq)")
    case True
    have "w' = w"
    proof (cases ?early)
      case None
      then show ?thesis using assms True unfolding apply_plan_def Let_def None by simp
    next
      case (Some e)
      show ?thesis using assms unfolding apply_plan_def Let_def Some by simp
    qed
    then show ?thesis by (simp add: shape_quiet)
  next
    case False
    then have ready: "?early = None" "digest_holds (ar_digest rq) (ar_plan rq)" by blast+
    note run = assms[unfolded apply_plan_def Let_def ready(1)]
    show ?thesis
    proof (cases answer)
      case (Inl e)
      then have "w' = w1" using run ready(2) cw by simp
      then show ?thesis using claimed by (auto intro: shape_quiet)
    next
      case (Inr c)
      obtain oc1 c1 w2 where ac: "apply_claimed E rq c w1 = (oc1, c1, w2)" by (metis surj_pair)
      have eq: "oc = oc1" "w' = drop_claim E c1 w2"
        using run ready(2) cw Inr ac by simp_all
      have "apply_shape rq w1 oc1 w2" by (rule apply_claimed_shape[OF ac]) (use claimed Inr in auto)
      then show ?thesis unfolding eq
        by (rule shape_around) (use claimed in \<open>auto simp: drop_claim_steps\<close>)
    qed
  qed
qed

section \<open>Reading the shape\<close>

lemma shape_grows:
  assumes "apply_shape rq w oc w'"
  shows "\<exists>new. grows (plan_id (ar_plan rq)) (cp_revision (ar_plan rq)) w w' new"
proof -
  let ?S = "apply_steps (plan_id (ar_plan rq)) (cp_revision (ar_plan rq)) (ar_session rq)"
  obtain mid X where "?S {} w mid" "?S X mid w'" using assms unfolding apply_shape_def Let_def by blast
  then have "?S X w w'" using steps_mono[of _ _ _ "{}" w mid X] by (meson empty_subsetI rtranclp_trans)
  then show ?thesis using steps_grow by blast
qed

lemma shape_executes:
  assumes "apply_shape rq w oc w'" "w_trace w = []" "(DidExecute a st, s) \<in> set (w_trace w')"
  shows "a \<in> may_run rq (w_store w)" "outcome_has_mutated oc"
    "ar_resume rq \<or> \<not> mutation_began (ar_plan rq) (recorded_statuses (w_store w) (plan_id (ar_plan rq)) (cp_revision (ar_plan rq)))"
    "\<exists>assets before after. w_trace w' = before @ after \<and> (DidExecute a st, s) \<in> set after \<and> protected_since rq assets before \<and>
       (\<forall>b st s. (DidExecute b st, s) \<notin> set before)"
proof -
  let ?S = "apply_steps (plan_id (ar_plan rq)) (cp_revision (ar_plan rq)) (ar_session rq)"
  obtain mid X where m: "?S {} w mid" "?S X mid w'" "X \<subseteq> may_run rq (w_store w)" "\<not> outcome_has_mutated oc \<longrightarrow> X = {}"
    "\<not> ar_resume rq \<and> mutation_began (ar_plan rq) (recorded_statuses (w_store w)
              (plan_id (ar_plan rq)) (cp_revision (ar_plan rq))) \<longrightarrow> X = {}"
    "X \<noteq> {} \<longrightarrow> (\<exists>assets. protected_since rq assets (drop (length (w_trace w)) (w_trace mid)))"
    using assms(1) unfolding apply_shape_def Let_def by blast
  obtain new where new: "grows (plan_id (ar_plan rq)) (cp_revision (ar_plan rq)) w mid new" "\<And>b st s. (DidExecute b st, s) \<notin> set new"
    using steps_grow[OF m(1)] by blast
  obtain new' where new': "grows (plan_id (ar_plan rq)) (cp_revision (ar_plan rq)) mid w' new'"
    "\<And>b st s. (DidExecute b st, s) \<in> set new' \<Longrightarrow> b \<in> X" using steps_grow[OF m(2)] by blast
  have traces: "w_trace mid = new" "w_trace w' = new @ new'" using new(1) new'(1) assms(2) by (auto simp: grows_def)
  have here: "(DidExecute a st, s) \<in> set new'" using assms(3) new(2) traces by auto
  then have X: "a \<in> X" by (rule new'(2))
  then show "a \<in> may_run rq (w_store w)" "outcome_has_mutated oc"
    "ar_resume rq \<or> \<not> mutation_began (ar_plan rq) (recorded_statuses (w_store w) (plan_id (ar_plan rq)) (cp_revision (ar_plan rq)))"
    using m(3,4,5) by auto
  obtain assets where "protected_since rq assets new" using m(6) X traces assms(2) by auto
  then show "\<exists>assets before after. w_trace w' = before @ after \<and> (DidExecute a st, s) \<in> set after \<and>
      protected_since rq assets before \<and> (\<forall>b st s. (DidExecute b st, s) \<notin> set before)"
    using traces(2) here new(2) by blast
qed

lemma shape_written_ahead:
  assumes "apply_shape rq w oc w'" "w_trace w = []" "k < length (w_trace w')"
  shows "written_ahead (plan_id (ar_plan rq)) (cp_revision (ar_plan rq)) (ar_session rq) (w_trace w') k"
proof -
  let ?S = "apply_steps (plan_id (ar_plan rq)) (cp_revision (ar_plan rq)) (ar_session rq)"
  obtain mid X where "?S {} w mid" "?S X mid w'" using assms(1) unfolding apply_shape_def Let_def by blast
  then have "?S X w w'" using steps_mono[of _ _ _ "{}" w mid X] by (meson empty_subsetI rtranclp_trans)
  then show ?thesis using assms(2,3) by (intro steps_written_ahead) auto
qed

lemma evidence_remains:
  assumes "apply_shape rq w oc w'" "w_trace w = []" "w_trace w' ! k = (DidExecute a st, s)" "k \<le> j" "j < length (w_trace w')"
  shows "\<exists>st'. recorded_statuses (snd (w_trace w' ! j)) (plan_id (ar_plan rq)) (cp_revision (ar_plan rq)) a = Some st' \<and>
    may_have_mutated st'"
proof -
  obtain new where new: "grows (plan_id (ar_plan rq)) (cp_revision (ar_plan rq)) w w' new" using shape_grows[OF assms(1)] by blast
  then have trace: "w_trace w' = new" using assms(2) by (simp add: grows_def)
  have running: "recorded_statuses s (plan_id (ar_plan rq)) (cp_revision (ar_plan rq)) a = Some ActRunning"
    using shape_written_ahead[OF assms(1,2), of k] assms(3-5) unfolding written_ahead_def by force
  have "evidence_kept (plan_id (ar_plan rq)) (cp_revision (ar_plan rq)) s (snd (w_trace w' ! j))"
  proof (cases "k = j")
    case True
    then show ?thesis using assms(3) by simp
  next
    case False
    then show ?thesis using new assms(3-5) trace sorted_wrt_nth_less[of _ new k j] by (fastforce simp: grows_def)
  qed
  then show ?thesis using running unfolding evidence_kept_def by (fastforce simp: may_have_mutated_def)
qed

end
