(* ===== verification/Apply_Progress.thy ===== *)
theory Apply_Progress
  imports Apply_Steps
begin

text \<open>
  Applies that nothing hinders: when the store, the providers and the targets answer well, an apply
  runs every action that covers a target and ends verified.  The properties of the executor, which
  rest on the steps of \<open>Apply_Steps\<close>, are stated at the end with such a run as their instance.
\<close>

section \<open>A healthy world\<close>

definition healthy :: "'w Env \<Rightarrow> bool" where
  "healthy E \<longleftrightarrow>
     (\<forall>w. fst (env_database E w) = None \<and>
        (\<forall>a. fst (env_execute E a w) = ExecSucceeded) \<and>
        (\<forall>a. \<exists>fs. fst (env_revalidate E a w) = Inr fs \<and> (\<forall>f \<in> set fs. \<not> blocks_apply (drift_verdict f))) \<and>
        (\<forall>c. \<exists>seen. fst (env_observe E c w) = Answered CheckPassed seen) \<and>
        (\<forall>x b. \<exists>asset. fst (env_create E x b w) = Inr asset) \<and>
        (\<forall>x asset. \<exists>v. fst (env_validate E x asset w) = Inr v \<and> validation_is_complete v) \<and>
        (\<forall>x. fst (env_pause E x w) = None \<and> fst (env_unpause E x w) = None))"

text \<open>The world goes on: the plan is still stored, this session still holds it, and the trace grows.\<close>

definition goes_on :: "'i ApplyRequest \<Rightarrow> ('w, 'i) World \<Rightarrow> ('w, 'i) World \<Rightarrow> bool" where
  "goes_on rq w w' \<longleftrightarrow>
     (map_of (st_plans (w_store w)) (plan_id (ar_plan rq), cp_revision (ar_plan rq)) \<noteq> None \<longrightarrow>
        map_of (st_plans (w_store w')) (plan_id (ar_plan rq), cp_revision (ar_plan rq)) \<noteq> None) \<and>
     (claimed_by (plan_id (ar_plan rq)) (ar_session rq) (w_store w) \<longrightarrow>
        claimed_by (plan_id (ar_plan rq)) (ar_session rq) (w_store w')) \<and>
     fst ` set (w_trace w) \<subseteq> fst ` set (w_trace w')"

definition ready :: "'i ApplyRequest \<Rightarrow> ('w, 'i) World \<Rightarrow> bool" where
  "ready rq w \<longleftrightarrow>
     map_of (st_plans (w_store w)) (plan_id (ar_plan rq), cp_revision (ar_plan rq)) \<noteq> None \<and>
     claimed_by (plan_id (ar_plan rq)) (ar_session rq) (w_store w)"

lemma goes_on_refl [simp]: "goes_on rq w w"
  by (simp add: goes_on_def)

lemma goes_on_trans: "goes_on rq w w1 \<Longrightarrow> goes_on rq w1 w2 \<Longrightarrow> goes_on rq w w2"
  unfolding goes_on_def by blast

lemma goes_on_ready: "goes_on rq w w' \<Longrightarrow> ready rq w \<Longrightarrow> ready rq w'"
  unfolding goes_on_def ready_def by blast

lemma goes_on_same:
  "w_store w' = w_store w \<Longrightarrow> fst ` set (w_trace w) \<subseteq> fst ` set (w_trace w') \<Longrightarrow> goes_on rq w w'"
  by (simp add: goes_on_def)

lemma call_same: "call f w = (x, w') \<Longrightarrow> x = fst (f (w_env w)) \<and> w_store w' = w_store w \<and> w_trace w' = w_trace w"
  by (auto simp: call_def split: prod.splits)

lemma goes_on_call: "call f w = (x, w') \<Longrightarrow> goes_on rq w w'"
  using call_same[of f w x w'] by (intro goes_on_same) auto

lemma goes_on_emit: "goes_on rq w (emit e w)"
  by (rule goes_on_same) (auto simp: emit_def)

lemma goes_on_keep_failure: "goes_on rq w (keep_failure f w)"
  by (rule goes_on_same) (auto simp: keep_failure_def split: option.splits)

lemma goes_on_adds: "adds P es w w' \<Longrightarrow> goes_on rq w w'"
  by (auto simp: adds_def intro!: goes_on_same)

lemma goes_on_store:
  assumes "map_of (st_plans (w_store w)) (plan_id (ar_plan rq), cp_revision (ar_plan rq)) \<noteq> None \<Longrightarrow>
      map_of (st_plans s) (plan_id (ar_plan rq), cp_revision (ar_plan rq)) \<noteq> None"
    and "claimed_by (plan_id (ar_plan rq)) (ar_session rq) (w_store w) \<Longrightarrow> claimed_by (plan_id (ar_plan rq)) (ar_session rq) s"
  shows "goes_on rq w (emit e (w\<lparr>w_store := s\<rparr>))"
  using assms by (auto simp: goes_on_def emit_def)

lemma store_write_well:
  assumes "healthy E" "\<And>s. P s \<Longrightarrow> \<exists>s'. wr None s = Inr s'" "P (w_store w)"
    and "\<And>s'. wr None (w_store w) = Inr s' \<Longrightarrow> st_claims s' = st_claims (w_store w)"
    and "\<And>s'. wr None (w_store w) = Inr s' \<Longrightarrow>
      dom (map_of (st_plans (w_store w))) \<subseteq> dom (map_of (st_plans s'))"
  shows "\<exists>w'. store_write E wr ev w = (None, w') \<and> goes_on rq w w' \<and> ev True \<in> fst ` set (w_trace w')"
proof -
  obtain x w1 where c: "call (env_database E) w = (x, w1)" by fastforce
  note same = call_same[OF c]
  have x: "x = None" using same assms(1) by (simp add: healthy_def)
  obtain s' where s': "wr None (w_store w) = Inr s'" using assms(2,3) by blast
  have "goes_on rq w1 (emit (ev True) (w1\<lparr>w_store := s'\<rparr>))"
    by (rule goes_on_store) (use same assms(4,5)[OF s'] in \<open>auto simp: claimed_by_def\<close>)
  then show ?thesis using c x s' same goes_on_trans[OF goes_on_call[OF c]]
    by (auto simp: store_write_def emit_def)
qed

lemma stamp_well: "\<exists>at w'. stamp E rq w = (at, w') \<and> goes_on rq w w' \<and> w_store w' = w_store w"
  by (cases "call (env_clock E) w") (auto simp: stamp_def dest: call_same intro: goes_on_call)

lemma write_state_well: "goes_on rq w (write_state E rq st w)"
proof -
  obtain x w1 where c: "call (env_database E) w = (x, w1)" by fastforce
  let ?i = "plan_id (ar_plan rq)" and ?n = "cp_revision (ar_plan rq)"
  show ?thesis
  proof (cases "record_state x ?i ?n st (w_store w1)")
    case (Inl e)
    then show ?thesis using c goes_on_trans[OF goes_on_call[OF c] goes_on_trans[OF goes_on_emit goes_on_keep_failure]]
      by (simp add: write_state_def store_write_def)
  next
    case (Inr s)
    have "goes_on rq w1 (emit (DidState st True) (w1\<lparr>w_store := s\<rparr>))"
      by (rule goes_on_store) (use Inr in \<open>auto simp: record_state_def claimed_by_def split: option.splits\<close>)
    then have "goes_on rq w (keep_failure None (emit (DidState st True) (w1\<lparr>w_store := s\<rparr>)))"
      using goes_on_trans[OF goes_on_call[OF c] goes_on_trans[OF _ goes_on_keep_failure]] by blast
    then show ?thesis using c Inr by (simp add: write_state_def store_write_def)
  qed
qed

lemma persist_assets_well: "goes_on rq w (persist_assets E rq' as w)"
proof (induction as arbitrary: w)
  case (Cons a as)
  let ?a = "attributed E (ar_plan rq') a"
  obtain x w1 where c: "call (env_database E) w = (x, w1)" by fastforce
  obtain f w2 where wr: "store_write E (\<lambda>fault. put_asset fault ?a) (DidAsset (as_id ?a)) w = (f, w2)" by fastforce
  have "goes_on rq w1 w2"
  proof (cases "put_asset x ?a (w_store w1)")
    case (Inl e)
    then show ?thesis using wr c by (auto simp: store_write_def intro: goes_on_emit)
  next
    case (Inr s)
    have "goes_on rq w1 (emit (DidAsset (as_id ?a) True) (w1\<lparr>w_store := s\<rparr>))"
      by (rule goes_on_store) (use Inr in \<open>auto simp: put_asset_def claimed_by_def split: option.splits\<close>)
    then show ?thesis using wr c Inr by (auto simp: store_write_def)
  qed
  then have "goes_on rq w (keep_failure f w2)"
    using goes_on_trans[OF goes_on_call[OF c] goes_on_trans[OF _ goes_on_keep_failure]] by blast
  then show ?case using Cons.IH[of "keep_failure f w2"] wr by (simp add: Let_def goes_on_trans)
qed simp

section \<open>Actions succeed\<close>

lemma journal_status_well:
  assumes "healthy E" "ready rq w"
  shows "\<exists>w'. journal_status E rq a st detail w = (None, w') \<and> goes_on rq w w'"
proof -
  let ?i = "plan_id (ar_plan rq)" and ?n = "cp_revision (ar_plan rq)"
  obtain at w1 where t: "stamp E rq w = (at, w1)" "goes_on rq w w1" "w_store w1 = w_store w" using stamp_well by blast
  have "\<exists>w'. store_write E (\<lambda>fault. record_action_status fault ?i ?n (act_id a) (ordinal a) st at detail)
      (DidRecord (act_id a) st) w1 = (None, w') \<and> goes_on rq w1 w' \<and> DidRecord (act_id a) st True \<in> fst ` set (w_trace w')"
    by (rule store_write_well[OF assms(1), where P = "\<lambda>s. map_of (st_plans s) (?i, ?n) \<noteq> None"])
      (use assms(2) t(3) in \<open>auto simp: record_action_status_def ready_def Let_def split: if_splits\<close>)
  then show ?thesis using t goes_on_trans[OF t(2)] by (auto simp: journal_status_def)
qed

definition run_well :: "'i ApplyRequest \<Rightarrow> ('w, 'i) Run \<Rightarrow> bool" where
  "run_well rq r \<longleftrightarrow>
     ready rq (r_world r) \<and> r_stop r = None \<and> \<not> r_lost r \<and>
     claim_plan (r_claim r) = plan_id (ar_plan rq) \<and> claim_session (r_claim r) = ar_session rq"

lemma start_action_well:
  assumes "healthy E" "run_well rq r"
  shows "\<exists>r'. start_action E rq a r = (None, r') \<and> run_well rq r' \<and> goes_on rq (r_world r) (r_world r')"
proof -
  let ?i = "plan_id (ar_plan rq)"
  obtain at w1 where t: "stamp E rq (r_world r) = (at, w1)" "goes_on rq (r_world r) w1" "w_store w1 = w_store (r_world r)"
    using stamp_well by blast
  obtain x w2 where c: "call (env_database E) w1 = (x, w2)" by fastforce
  note same = call_same[OF c]
  have x: "x = None" using same assms(1) by (simp add: healthy_def)
  have own: "claim_plan (r_claim r) = ?i" "claim_session (r_claim r) = ar_session rq" "ready rq (r_world r)"
    using assms(2) by (auto simp: run_well_def)
  then obtain row where row: "map_of (st_claims (w_store w2)) ?i = Some row" "cl_session row = ar_session rq"
    using t(3) same by (auto simp: ready_def claimed_by_def)
  obtain due s where tk: "take_claim (env_running E (w_env w2)) (ar_pid rq) None ?i (ar_session rq) at CLAIM_LEASE (w_store w2) = Inr (due, s)"
    using row by (auto simp: take_claim_def Let_def)
  have kept: "claimed_by ?i (ar_session rq) s" "st_plans s = st_plans (w_store w2)"
    using take_claim_kept[OF tk] tk by (auto simp: take_claim_def Let_def split: option.splits if_splits)
  let ?w3 = "emit (DidRenew True) (w2\<lparr>w_store := s\<rparr>)"
  have g3: "goes_on rq (r_world r) ?w3"
    using goes_on_trans[OF t(2) goes_on_trans[OF goes_on_call[OF c] goes_on_store]] kept by simp
  obtain w4 where j: "journal_status E rq a ActRunning None ?w3 = (None, w4)" "goes_on rq ?w3 w4"
    using journal_status_well[OF assms(1)] goes_on_ready[OF g3 own(3)] by blast
  have "start_action E rq a r = (None, r\<lparr>r_world := w4, r_claim := (r_claim r)\<lparr>claim_expires := due\<rparr>\<rparr>)"
    using t c x own tk j by (simp add: start_action_def claim_write_def renew_def)
  then show ?thesis using assms(2) goes_on_trans[OF g3 j(2)] goes_on_ready own by (auto simp: run_well_def)
qed

lemma submit_action_well:
  assumes "healthy E" "run_well rq r"
  shows "\<exists>r'. submit_action E rq a r = (ActSucceeded, r') \<and> run_well rq r' \<and> goes_on rq (r_world r) (r_world r') \<and>
    DidExecute (act_id a) ActSucceeded \<in> fst ` set (w_trace (r_world r'))"
proof -
  obtain r1 where s: "start_action E rq a r = (None, r1)" "run_well rq r1" "goes_on rq (r_world r) (r_world r1)"
    using start_action_well[OF assms] by blast
  obtain x w1 where c: "call (env_execute E a) (r_world r1) = (x, w1)" by fastforce
  have x: "x = ExecSucceeded" using call_same[OF c] assms(1) by (simp add: healthy_def)
  let ?w2 = "emit (DidExecute (act_id a) ActSucceeded) w1"
  have g2: "goes_on rq (r_world r1) ?w2" by (rule goes_on_trans[OF goes_on_call[OF c] goes_on_emit])
  have "ready rq ?w2" using goes_on_ready[OF g2] s(2) by (simp add: run_well_def)
  then obtain w3 where j: "journal_status E rq a ActSucceeded None ?w2 = (None, w3)" "goes_on rq ?w2 w3"
    using journal_status_well[OF assms(1)] by blast
  have "DidExecute (act_id a) ActSucceeded \<in> fst ` set (w_trace ?w2)" by (simp add: emit_def)
  then have here: "DidExecute (act_id a) ActSucceeded \<in> fst ` set (w_trace w3)" using j(2) unfolding goes_on_def by blast
  let ?sts = "set_status (act_id a) ActSucceeded (set_status (act_id a) ActRunning (r_statuses r1))"
  have run: "submit_action E rq a r = (ActSucceeded, r1\<lparr>r_executed := True, r_world := w3, r_statuses := ?sts, r_stop := None\<rparr>)"
    using s(1) c x j(1) by (simp add: submit_action_def run_action_def Let_def stop_of_def keep_failure_def)
  have "goes_on rq (r_world r) w3" using goes_on_trans[OF s(3) goes_on_trans[OF g2 j(2)]] .
  moreover have "ready rq w3" using goes_on_ready[OF goes_on_trans[OF g2 j(2)]] s(2) by (simp add: run_well_def)
  ultimately show ?thesis using run here s(2) by (auto simp: run_well_def)
qed

definition done_in :: "(ustr \<rightharpoonup> ActionStatus) \<Rightarrow> ('w, 'i) World \<Rightarrow> plan_action \<Rightarrow> bool" where
  "done_in prior w a \<longleftrightarrow> prior (act_id a) = Some ActSucceeded \<or> DidExecute (act_id a) ActSucceeded \<in> fst ` set (w_trace w)"

lemma done_in_goes_on: "done_in prior w a \<Longrightarrow> goes_on rq w w' \<Longrightarrow> done_in prior w' a"
  unfolding done_in_def goes_on_def by blast

lemma submit_actions_well:
  assumes "healthy E" "run_well rq r" "status \<in> {ActSkipped, ActSucceeded}"
  shows "\<exists>status' r'. submit_actions E rq prior as status r = (status', r') \<and> status' \<in> {ActSkipped, ActSucceeded} \<and>
    run_well rq r' \<and> goes_on rq (r_world r) (r_world r') \<and> (\<forall>a \<in> set as. done_in prior (r_world r') a)"
  using assms(2,3)
proof (induction as arbitrary: r status)
  case (Cons a as)
  have free: "r_stop r = None" using Cons.prems(1) by (simp add: run_well_def)
  show ?case
  proof (cases "prior (act_id a) = Some ActSucceeded")
    case True
    then show ?thesis using Cons.IH[OF Cons.prems(1), of ActSucceeded] free by (auto simp: done_in_def)
  next
    case False
    obtain r1 where s: "submit_action E rq a r = (ActSucceeded, r1)" "run_well rq r1" "goes_on rq (r_world r) (r_world r1)"
      "DidExecute (act_id a) ActSucceeded \<in> fst ` set (w_trace (r_world r1))"
      using submit_action_well[OF assms(1) Cons.prems(1)] by blast
    obtain st' r' where ih: "submit_actions E rq prior as ActSucceeded r1 = (st', r')" "st' \<in> {ActSkipped, ActSucceeded}"
      "run_well rq r'" "goes_on rq (r_world r1) (r_world r')" "\<forall>a \<in> set as. done_in prior (r_world r') a"
      using Cons.IH[OF s(2), of ActSucceeded] by blast
    have "done_in prior (r_world r') a" using s(4) done_in_goes_on[OF _ ih(4)] by (auto simp: done_in_def)
    then show ?thesis using ih s False free goes_on_trans[OF s(3) ih(4)] by auto
  qed
qed auto

lemma submit_well:
  assumes "healthy E" "run_well rq r"
  shows "\<exists>rs r'. submit E rq prior mutating ts r = (rs, r') \<and> list_all (\<lambda>x. \<not> stops_the_run x) rs \<and>
    run_well rq r' \<and> goes_on rq (r_world r) (r_world r') \<and>
    (\<forall>a \<in> set mutating. \<forall>t \<in> set ts. action_covers a t (ar_plan rq) \<longrightarrow> done_in prior (r_world r') a)"
  using assms(2)
proof (induction ts arbitrary: r)
  case (Cons t ts)
  have free: "r_stop r = None" using Cons.prems by (simp add: run_well_def)
  let ?as = "filter (\<lambda>a. action_covers a t (ar_plan rq)) mutating"
  obtain st r1 where s: "submit_actions E rq prior ?as ActSkipped r = (st, r1)" "st \<in> {ActSkipped, ActSucceeded}"
    "run_well rq r1" "goes_on rq (r_world r) (r_world r1)" "\<forall>a \<in> set ?as. done_in prior (r_world r1) a"
    using submit_actions_well[OF assms(1) Cons.prems, of ActSkipped] by blast
  obtain rs r' where ih: "submit E rq prior mutating ts r1 = (rs, r')" "list_all (\<lambda>x. \<not> stops_the_run x) rs"
    "run_well rq r'" "goes_on rq (r_world r1) (r_world r')"
    "\<forall>a \<in> set mutating. \<forall>t \<in> set ts. action_covers a t (ar_plan rq) \<longrightarrow> done_in prior (r_world r') a"
    using Cons.IH[OF s(3)] by blast
  have "\<forall>a \<in> set ?as. done_in prior (r_world r') a" using s(5) done_in_goes_on[OF _ ih(4)] by blast
  then show ?case using ih s free goes_on_trans[OF s(4) ih(4)] by (auto simp: stops_the_run_def)
qed simp

section \<open>Checks pass\<close>

lemma observe_all_well:
  assumes "healthy E"
  shows "\<exists>pairs w'. observe_all E plan now cs w = (pairs, w') \<and> goes_on rq w w' \<and>
    (\<forall>(obs, r) \<in> set pairs. vr_status r = CheckPassed \<and> obs \<noteq> TimedOut)"
proof (induction cs arbitrary: w)
  case (Cons c cs)
  obtain x w1 where call: "call (env_observe E c) w = (x, w1)" by fastforce
  obtain seen where x: "x = Answered CheckPassed seen"
    using call_same[OF call] assms unfolding healthy_def by metis
  obtain pairs w' where ih: "observe_all E plan now cs (emit (DidObserve (vc_id c)) w1) = (pairs, w')"
    "goes_on rq (emit (DidObserve (vc_id c)) w1) w'" "\<forall>(obs, r) \<in> set pairs. vr_status r = CheckPassed \<and> obs \<noteq> TimedOut"
    using Cons.IH by blast
  have "goes_on rq w w'" using goes_on_trans[OF goes_on_call[OF call] goes_on_trans[OF goes_on_emit ih(2)]] .
  then show ?case using call x ih(1,3) by (simp add: observe_one_def build_result_def result_new_def)
qed simp

lemma passed_verdict: "\<forall>r \<in> set rs. vr_status r = CheckPassed \<Longrightarrow> results_verdict rs = VVerified"
proof (induction rs)
  case (Cons r rs)
  have "contribution (vr_class r) CheckPassed = VVerified" by (cases "vr_class r") simp_all
  then show ?case using Cons by (simp add: results_verdict_def verdict_Cons)
qed (simp add: results_verdict_def verdict_def)

lemma gate_wave_well:
  assumes "healthy E" "run_well rq r"
  shows "\<exists>r'. gate_wave E rq ts r = (VVerified, r') \<and> run_well rq r' \<and> goes_on rq (r_world r) (r_world r')"
proof -
  let ?cs = "filter (\<lambda>c. vc_class c = Required \<and> about_reached (vc_subject c) (target_labels (ar_plan rq)) (r_reached r @ ts))
    (cp_verification (ar_plan rq))"
  obtain pairs w' where o: "observe_all E (ar_plan rq) (ar_now rq) ?cs (r_world r) = (pairs, w')" "goes_on rq (r_world r) w'"
    "\<forall>(obs, x) \<in> set pairs. vr_status x = CheckPassed \<and> obs \<noteq> TimedOut" using observe_all_well[OF assms(1)] by blast
  have "results_verdict (map snd pairs) = VVerified" using o(3) by (intro passed_verdict) auto
  then show ?thesis using o(1,2) assms(2) goes_on_ready[OF o(2)] by (auto simp: gate_wave_def Let_def run_well_def)
qed

lemma verify_well:
  assumes "healthy E"
  shows "\<exists>v w'. verify E plan now w = (v, w') \<and> goes_on rq w w' \<and> vo_verdict v = VVerified \<and> vo_point v = None \<and> vo_error v = None"
proof -
  obtain pairs w' where o: "observe_all E plan now (cp_verification plan) w = (pairs, w')" "goes_on rq w w'"
    "\<forall>(obs, x) \<in> set pairs. vr_status x = CheckPassed \<and> obs \<noteq> TimedOut" using observe_all_well[OF assms] by blast
  have "results_verdict (map snd pairs) = VVerified" using o(3) by (intro passed_verdict) auto
  then show ?thesis using o(1,2) by (auto simp: verify_def Let_def)
qed

lemma waves_well:
  assumes "healthy E" "run_well rq r" "gate_verdict run0 \<in> {None, Some VVerified}"
  shows "\<exists>run r'. run_waves_with_from targets (\<lambda>_. submit E rq prior mutating) (\<lambda>_. gate_wave E rq) k ws run0 r = (run, r') \<and>
    run_well rq r' \<and> goes_on rq (r_world r) (r_world r') \<and> gate_verdict run \<in> {None, Some VVerified} \<and>
    (\<forall>a \<in> set mutating. \<forall>t \<in> set (concat (map (wave_slice targets) ws)).
       action_covers a t (ar_plan rq) \<longrightarrow> done_in prior (r_world r') a)"
  using assms(2,3)
proof (induction ws arbitrary: k run0 r)
  case (Cons w ws)
  let ?ts = "wave_slice targets w"
  obtain rs r1 where s: "submit E rq prior mutating ?ts r = (rs, r1)" "list_all (\<lambda>x. \<not> stops_the_run x) rs" "run_well rq r1"
    "goes_on rq (r_world r) (r_world r1)"
    "\<forall>a \<in> set mutating. \<forall>t \<in> set ?ts. action_covers a t (ar_plan rq) \<longrightarrow> done_in prior (r_world r1) a"
    using submit_well[OF assms(1) Cons.prems(1)] by blast
  obtain r2 where g: "gate_wave E rq ?ts r1 = (VVerified, r2)" "run_well rq r2" "goes_on rq (r_world r1) (r_world r2)"
    using gate_wave_well[OF assms(1) s(3)] by blast
  define r3 where "r3 = (if gated w then r2 else r1)"
  define run1 where "run1 = (let x = record_wave ?ts rs run0 in if gated w then x\<lparr>gate_verdict := Some VVerified\<rparr> else x)"
  have r3: "run_well rq r3" "goes_on rq (r_world r1) (r_world r3)" using s(3) g(2,3) by (auto simp: r3_def)
  have "gate_verdict run1 \<in> {None, Some VVerified}" using Cons.prems(2) by (simp add: run1_def Let_def record_wave_def)
  from Cons.IH[OF r3(1) this, of "k + 1"] obtain run r' where ih:
    "run_waves_with_from targets (\<lambda>_. submit E rq prior mutating) (\<lambda>_. gate_wave E rq) (k + 1) ws run1 r3 = (run, r')"
    "run_well rq r'" "goes_on rq (r_world r3) (r_world r')" "gate_verdict run \<in> {None, Some VVerified}"
    "\<forall>a \<in> set mutating. \<forall>t \<in> set (concat (map (wave_slice targets) ws)). action_covers a t (ar_plan rq) \<longrightarrow> done_in prior (r_world r') a"
    by (elim exE conjE)
  have g1: "goes_on rq (r_world r1) (r_world r')" using goes_on_trans[OF r3(2) ih(3)] .
  have "run_waves_with_from targets (\<lambda>_. submit E rq prior mutating) (\<lambda>_. gate_wave E rq) k (w # ws) run0 r = (run, r')"
    using s(1,2) g(1) ih(1) by (auto simp: Let_def r3_def run1_def list_all_iff split: if_splits)
  moreover have "done_in prior (r_world r') a"
    if "a \<in> set mutating" "t \<in> set ?ts" "action_covers a t (ar_plan rq)" for a t
    using s(5) that done_in_goes_on[OF _ g1] by blast
  ultimately show ?case using ih(2,4,5) goes_on_trans[OF s(4) g1] by (intro exI conjI) auto
qed auto

lemma settle_prepared_well: "healthy E \<Longrightarrow> ready rq w \<Longrightarrow> goes_on rq w (settle_prepared E rq d as w)"
proof (induction as arbitrary: w)
  case (Cons a as)
  obtain w1 where j: "journal_status E rq a ActSucceeded None w = (None, w1)" "goes_on rq w w1"
    using journal_status_well[OF Cons.prems] by blast
  then show ?case using Cons.IH[OF Cons.prems] Cons.IH[OF Cons.prems(1) goes_on_ready[OF j(2) Cons.prems(2)]]
      goes_on_trans[OF j(2)] by (simp add: keep_failure_def)
qed simp

lemma mutate_well:
  assumes "healthy E" "ready rq w" "claim_plan c = plan_id (ar_plan rq)" "claim_session c = ar_session rq"
    "acyclic (dep_rel (plan_actions (ar_plan rq)))"
  shows "\<exists>oc c' w'. mutate E rq d p prior c w = (oc, True, c', w') \<and> goes_on rq w w' \<and> is_success oc \<and> ao_point oc = None \<and>
    (\<forall>a \<in> set (plan_actions (ar_plan rq)). \<forall>t \<in> set (target_labels (ar_plan rq)).
       mutates_target (role a) \<and> action_covers a t (ar_plan rq) \<longrightarrow> done_in prior w' a)"
proof -
  let ?ts = "target_labels (ar_plan rq)"
  obtain order where order: "topological_order (plan_actions (ar_plan rq)) = Some (Inr order)"
    using assms(5) topological_order_acyclic by blast
  let ?m = "mutating_actions (plan_actions (ar_plan rq)) order"
  let ?r0 = "run_start E rq d prior c w"
  have g0: "goes_on rq w (r_world ?r0)" using settle_prepared_well[OF assms(1,2)] by (simp add: run_start_def)
  have r0: "run_well rq ?r0" using goes_on_ready[OF g0 assms(2)] assms(3,4) by (simp add: run_well_def run_start_def)
  have no_gate: "gate_verdict (empty_run :: ErrorValue StrategyRun) \<in> {None, Some VVerified}" by (simp add: empty_run_def)
  obtain run r where run: "run_waves_with (cp_strategy (ar_plan rq)) ?ts (\<lambda>_. submit E rq prior ?m) (\<lambda>_. gate_wave E rq) ?r0 = (run, r)"
    and r: "run_well rq r" "goes_on rq (r_world ?r0) (r_world r)" "gate_verdict run \<in> {None, Some VVerified}"
    and ran: "\<forall>a \<in> set ?m. \<forall>t \<in> set (concat (map (wave_slice ?ts) (waves (cp_strategy (ar_plan rq)) (length ?ts)))).
       action_covers a t (ar_plan rq) \<longrightarrow> done_in prior (r_world r) a"
    using waves_well[OF assms(1) r0 no_gate, of ?ts prior ?m 0 "waves (cp_strategy (ar_plan rq)) (length ?ts)"]
    unfolding run_waves_with_def by (elim exE conjE)
  have slices: "concat (map (wave_slice ?ts) (waves (cp_strategy (ar_plan rq)) (length ?ts))) = ?ts"
    using contiguous_slices[OF waves_contiguous[of "length ?ts" "cp_strategy (ar_plan rq)"]] by simp
  obtain v w' where v: "verify E (ar_plan rq) (ar_now rq) (r_world r) = (v, w')" "goes_on rq (r_world r) w'"
    "vo_verdict v = VVerified" "vo_point v = None" "vo_error v = None" using verify_well[OF assms(1)] by blast
  define oc where "oc = outcome_verified (ar_plan rq) v (run_outcome (ar_plan rq) d p run r)"
  have "finish_run E rq d p ?m run r = (oc, w')"
    using r(1,3) v(1) by (auto simp: finish_run_def Let_def run_well_def oc_def)
  then have "mutate E rq d p prior c w = (oc, True, r_claim r, w')"
    using order run r(1) by (simp add: mutate_def Let_def run_well_def)
  moreover have "is_success oc" "ao_point oc = None" using v(3-5) by (simp_all add: oc_def is_success_def outcome_verified_def state_for_def)
  moreover have "goes_on rq w w'" using goes_on_trans[OF g0 goes_on_trans[OF r(2) v(2)]] .
  moreover have "done_in prior w' a" if "a \<in> set (plan_actions (ar_plan rq))" "mutates_target (role a)"
    "t \<in> set ?ts" "action_covers a t (ar_plan rq)" for a t
  proof -
    have "a \<in> set ?m" using that order_members[OF order] by simp
    then show ?thesis using ran that slices done_in_goes_on[OF _ v(2)] by auto
  qed
  ultimately show ?thesis by blast
qed

section \<open>Preparation succeeds\<close>

definition preparable :: "'i PrepareRequest \<Rightarrow> bool" where
  "preparable rq \<longleftrightarrow> PrepareAsset \<in> set (au_recovery (rq_authority rq)) \<and>
     (\<forall>a \<in> set (rq_protection rq). registry_get (rq_providers rq) (pa_provider a) \<noteq> None)"

definition prep_well :: "Preparation \<Rightarrow> bool" where
  "prep_well p \<longleftrightarrow> pp_failure p = None \<and> set (pp_attempted p) \<subseteq> set (pp_protected p)"

lemma prepare_one_well:
  assumes "healthy E" "preparable rq" "a \<in> set (rq_protection rq)" "prep_well p"
  shows "\<exists>p' w'. prepare_one E rq a p w = (p', w') \<and> prep_well p' \<and> pp_quiesce p' = pp_quiesce p"
proof -
  obtain prov where prov: "registry_get (rq_providers rq) (pa_provider a) = Some prov"
    using assms(2,3) by (auto simp: preparable_def)
  obtain x w1 where c: "call (env_create E (pa_provider a) a) w = (x, w1)" by fastforce
  obtain asset where x: "x = Inr asset" using call_same[OF c] assms(1) unfolding healthy_def by metis
  obtain y w2 where v: "call (env_validate E (pa_provider a) asset) (emit (DidCreate a) w1) = (y, w2)" by fastforce
  obtain check where y: "y = Inr check" "validation_is_complete check" using call_same[OF v] assms(1) unfolding healthy_def by metis
  let ?asset = "asset_validated asset check"
  have "asset_is_usable ?asset" using y(2) by (simp add: asset_validated_def asset_is_usable_def state_is_usable_def)
  moreover have "create_and_validate E (rq_providers rq) a (rq_now rq) w = (Inr ?asset, emit (DidProtect a ?asset) w2)"
    using prov c x v y(1) by (simp add: create_and_validate_def Let_def checked_asset_def)
  ultimately show ?thesis using assms(2,4) by (auto simp: prepare_one_def Let_def preparable_def prep_well_def)
qed

lemma prepare_loop_well:
  assumes "healthy E" "preparable rq" "set as \<subseteq> set (rq_protection rq)" "prep_well p"
  shows "\<exists>p' w'. prepare_loop E rq as p w = (p', w') \<and> prep_well p' \<and> pp_quiesce p' = pp_quiesce p"
  using assms(3,4)
proof (induction as arbitrary: p w)
  case (Cons a as)
  obtain p1 w1 where s: "prepare_one E rq a p w = (p1, w1)" "prep_well p1" "pp_quiesce p1 = pp_quiesce p"
    using prepare_one_well[OF assms(1,2) _ Cons.prems(2)] Cons.prems(1) by (metis list.set_intros(1) subsetD)
  have sub: "set as \<subseteq> set (rq_protection rq)" using Cons.prems(1) by simp
  have "pp_failure p1 = None" using s(2) by (simp add: prep_well_def)
  then show ?case using Cons.IH[OF sub s(2), of w1] s by simp
qed simp

lemma release_quiesce_well:
  assumes "healthy E"
  shows "\<exists>p' w'. release_quiesce E rq p w = (None, p', w') \<and> pp_failure p' = pp_failure p"
proof (cases "\<exists>x y report. rq_quiesce rq = Some (x, y) \<and> pp_quiesce p = Some report \<and> qr_paused report")
  case True
  then obtain x y report where q: "rq_quiesce rq = Some (x, y)" "pp_quiesce p = Some report" "qr_paused report" by blast
  obtain a w1 where c: "call (env_unpause E x) w = (a, w1)" by fastforce
  have "a = None" using call_same[OF c] assms by (simp add: healthy_def)
  then show ?thesis using q c by (simp add: release_quiesce_def)
next
  case False
  then have "release_quiesce E rq p w = (None, p, w)" by (auto simp: release_quiesce_def split: option.splits)
  then show ?thesis by simp
qed

lemma prepare_end_well:
  assumes "healthy E" "prep_well p"
  shows "\<exists>d p' w'. prepare_end E rq (check_matrix plan p) w = (Inr d, p', w')"
proof -
  have "lost_row plan p = None" using assms(2) by (auto simp: lost_row_def prep_well_def find_None_iff)
  then have cm: "check_matrix plan p = p" "pp_failure p = None" using assms(2) by (auto simp: check_matrix_def prep_well_def)
  obtain p1 w1 where "release_quiesce E rq p w = (None, p1, w1)" "pp_failure p1 = pp_failure p"
    using release_quiesce_well[OF assms(1)] by blast
  then show ?thesis using cm by (simp add: prepare_end_def)
qed

lemma prepare_well:
  assumes "healthy E" "preparable rq"
  shows "\<exists>d p w'. prepare E rq w = (Inr d, p, w')"
proof (cases "rq_quiesce rq")
  case None
  have "prep_well preparation_new" by (simp add: prep_well_def preparation_new_def)
  from prepare_loop_well[OF assms subset_refl this]
  obtain p w1 where "prepare_loop E rq (rq_protection rq) preparation_new w = (p, w1)" "prep_well p" by blast
  then show ?thesis using prepare_end_well[OF assms(1)] None by (simp add: prepare_def)
next
  case (Some xy)
  obtain x y where xy: "xy = (x, y)" by fastforce
  obtain q w1 where c: "call (env_pause E x) w = (q, w1)" by fastforce
  have q: "q = None" using call_same[OF c] assms(1) by (simp add: healthy_def)
  let ?p = "preparation_new\<lparr>pp_quiesce := Some \<lparr>qr_application = x, qr_window = y, qr_paused = True, qr_resumed = False, qr_critical = None\<rparr>\<rparr>"
  have "prep_well ?p" by (simp add: prep_well_def preparation_new_def)
  from prepare_loop_well[OF assms subset_refl this]
  obtain p w2 where "prepare_loop E rq (rq_protection rq) ?p (emit (DidPause x True) w1) = (p, w2)" "prep_well p" by blast
  then show ?thesis using prepare_end_well[OF assms(1)] Some xy c q by (simp add: prepare_def Let_def)
qed

section \<open>The apply succeeds\<close>

text \<open>A plan that is sealed, unclaimed and never begun, asked for with the authority it needs.\<close>

definition applies :: "'i ApplyRequest \<Rightarrow> 'i Store \<Rightarrow> bool" where
  "applies rq s \<longleftrightarrow>
     \<not> ar_resume rq \<and> digest_holds (ar_digest rq) (ar_plan rq) \<and>
     appliability (ar_plan rq) (plan_state (ar_plan rq)) (ar_now rq) False = None \<and>
     (\<exists>row. map_of (st_plans s) (plan_id (ar_plan rq), cp_revision (ar_plan rq)) = Some row \<and>
        appliability (ar_plan rq) (plan_state (pr_record row)) (ar_now rq) False = None) \<and>
     \<not> mutation_began (ar_plan rq) (recorded_statuses s (plan_id (ar_plan rq)) (cp_revision (ar_plan rq))) \<and>
     map_of (st_claims s) (plan_id (ar_plan rq)) = None \<and>
     check_authority (ar_plan rq) (rq_authority (ar_prepare rq)) (rq_protection (ar_prepare rq)) = None \<and>
     check_discovery (ar_plan rq) (rq_protection (ar_prepare rq)) = None \<and> check_gates (ar_plan rq) = None \<and>
     (rq_protection (ar_prepare rq) \<noteq> [] \<longrightarrow> preparable (ar_prepare rq)) \<and>
     acyclic (dep_rel (plan_actions (ar_plan rq)))"

lemma finding_fold_well: "\<forall>f \<in> set fs. \<not> blocks_apply (drift_verdict f) \<Longrightarrow> fold finding_step fs acc = acc"
  by (induction fs) (auto simp: finding_step_def split: prod.splits)

lemma revalidate_well: "healthy E \<Longrightarrow> \<exists>w'. revalidate_loop E as acc w = (acc, w') \<and> goes_on rq w w'"
proof (induction as arbitrary: w)
  case (Cons a as)
  obtain x w1 where c: "call (env_revalidate E a) w = (x, w1)" by fastforce
  obtain fs where x: "x = Inr fs" "\<forall>f \<in> set fs. \<not> blocks_apply (drift_verdict f)"
    using call_same[OF c] Cons.prems unfolding healthy_def by metis
  obtain w' where ih: "revalidate_loop E as acc (emit (DidRevalidate (act_id a)) w1) = (acc, w')"
    "goes_on rq (emit (DidRevalidate (act_id a)) w1) w'" using Cons by blast
  have "goes_on rq w w'" using goes_on_trans[OF goes_on_call[OF c] goes_on_trans[OF goes_on_emit ih(2)]] .
  then show ?case using c x ih(1) by (simp add: finding_fold_well)
qed simp

lemma precheck_well:
  assumes "healthy E" "applies rq s"
  shows "\<exists>w'. precheck E rq prior w = (None, w') \<and> goes_on rq w w'"
proof -
  let ?as = "filter (\<lambda>a. prior (act_id a) \<noteq> Some ActSucceeded) (plan_actions (ar_plan rq))"
  obtain w' where "revalidate_loop E ?as ([], None) w = (([], None), w')" "goes_on rq w w'"
    using revalidate_well[OF assms(1)] by blast
  then show ?thesis using assms(2) by (simp add: precheck_def Let_def revalidate_plan_def applies_def)
qed

lemma protect_well:
  assumes "healthy E" "applies rq s"
  shows "\<exists>d p w'. protect E rq False durable rec w = (Inr (d, p), w') \<and> goes_on rq w w'"
proof (cases "rq_protection (ar_prepare rq) = []")
  case True
  then show ?thesis by (simp add: protect_def Let_def)
next
  case False
  then have "preparable (ar_prepare rq)" using assms(2) by (simp add: applies_def)
  from prepare_well[OF assms(1) this] obtain d p w' where
    run: "prepare E (ar_prepare rq) (write_state E rq Preparing w) = (Inr d, p, w')" by blast
  obtain es where "adds preparing_event es (write_state E rq Preparing w) w'" using prepare_adds[OF run] by blast
  then have "goes_on rq w w'" using goes_on_trans[OF write_state_well goes_on_adds] by blast
  then show ?thesis using False run by (simp add: protect_def Let_def)
qed

lemma durable_evidence_well:
  assumes "healthy E" "map_of (st_plans (w_store w)) (plan_id (ar_plan rq), cp_revision (ar_plan rq)) = Some row"
  shows "\<exists>w'. durable_evidence E rq w = (Inr (plan_state (pr_record row),
      recorded_statuses (w_store w) (plan_id (ar_plan rq)) (cp_revision (ar_plan rq))), w') \<and> goes_on rq w w' \<and> w_store w' = w_store w"
proof -
  obtain x w1 where c1: "call (env_database E) w = (x, w1)" by fastforce
  obtain y w2 where c2: "call (env_database E) w1 = (y, w2)" by fastforce
  have "x = None" "y = None" "w_store w1 = w_store w" "w_store w2 = w_store w"
    using call_same[OF c1] call_same[OF c2] assms(1) by (auto simp: healthy_def)
  moreover have "goes_on rq w w2" using goes_on_trans[OF goes_on_call[OF c1] goes_on_call[OF c2]] .
  ultimately show ?thesis using c1 c2 assms(2)
    by (simp add: durable_evidence_def store_read_def Let_def get_revision_def)
qed

lemma apply_claimed_well:
  assumes "healthy E" "applies rq s" "st_plans (w_store w) = st_plans s" "st_statuses (w_store w) = st_statuses s"
    "ready rq w" "claim_plan c = plan_id (ar_plan rq)" "claim_session c = ar_session rq"
  shows "\<exists>oc c' w'. apply_claimed E rq c w = (oc, c', w') \<and> is_success oc \<and> ao_point oc = None \<and>
    (\<forall>a \<in> set (plan_actions (ar_plan rq)). \<forall>t \<in> set (target_labels (ar_plan rq)).
       mutates_target (role a) \<and> action_covers a t (ar_plan rq) \<longrightarrow> DidExecute (act_id a) ActSucceeded \<in> fst ` set (w_trace w'))"
proof -
  let ?i = "plan_id (ar_plan rq)" and ?n = "cp_revision (ar_plan rq)"
  obtain row where row: "map_of (st_plans (w_store w)) (?i, ?n) = Some row"
    "appliability (ar_plan rq) (plan_state (pr_record row)) (ar_now rq) False = None"
    using assms(2,3) by (auto simp: applies_def)
  have began: "\<not> mutation_began (ar_plan rq) (recorded_statuses (w_store w) ?i ?n)" "\<not> ar_resume rq"
    using assms(2,4) by (auto simp: applies_def recorded_statuses_def)
  obtain w1 where e: "durable_evidence E rq w = (Inr (plan_state (pr_record row), recorded_statuses (w_store w) ?i ?n), w1)"
    "goes_on rq w w1" using durable_evidence_well[OF assms(1) row(1)] by blast
  obtain w2 where p: "precheck E rq Map.empty w1 = (None, w2)" "goes_on rq w1 w2" using precheck_well[OF assms(1,2)] by blast
  obtain d pr w3 where t: "protect E rq False (plan_state (pr_record row)) (recorded_statuses (w_store w) ?i ?n) w2 = (Inr (d, pr), w3)"
    "goes_on rq w2 w3" using protect_well[OF assms(1,2)] by blast
  let ?w4 = "write_state E rq Applying (persist_assets E rq (kept_assets d) w3)"
  have "goes_on rq w ?w4"
    using goes_on_trans[OF e(2) goes_on_trans[OF p(2) goes_on_trans[OF t(2) goes_on_trans[OF persist_assets_well write_state_well]]]] .
  then have ready: "ready rq ?w4" using goes_on_ready assms(5) by blast
  have "acyclic (dep_rel (plan_actions (ar_plan rq)))" using assms(2) by (simp add: applies_def)
  from mutate_well[OF assms(1) ready assms(6,7) this]
  obtain oc c' w5 where m: "mutate E rq d pr Map.empty c ?w4 = (oc, True, c', w5)" "is_success oc" "ao_point oc = None"
    and ran: "\<forall>a \<in> set (plan_actions (ar_plan rq)). \<forall>t \<in> set (target_labels (ar_plan rq)).
       mutates_target (role a) \<and> action_covers a t (ar_plan rq) \<longrightarrow> done_in Map.empty w5 a" by blast
  have "apply_claimed E rq c w = (oc, c', write_state E rq (ao_state oc) w5)"
    using e(1) p(1) t(1) m(1) began row(2) by (simp add: apply_claimed_def Let_def resume_prior_def)
  moreover have "DidExecute (act_id a) ActSucceeded \<in> fst ` set (w_trace (write_state E rq (ao_state oc) w5))"
    if "done_in Map.empty w5 a" for a using that write_state_well[of rq w5 E "ao_state oc"] by (auto simp: done_in_def goes_on_def)
  ultimately show ?thesis using m ran by blast
qed

lemma apply_well:
  assumes "healthy E" "applies rq (w_store w)"
  shows "\<exists>oc w'. apply_plan E rq w = (oc, w') \<and> is_success oc \<and> ao_point oc = None \<and>
    (\<forall>a \<in> set (plan_actions (ar_plan rq)). \<forall>t \<in> set (target_labels (ar_plan rq)).
       mutates_target (role a) \<and> action_covers a t (ar_plan rq) \<longrightarrow> DidExecute (act_id a) ActSucceeded \<in> fst ` set (w_trace w'))"
proof -
  let ?i = "plan_id (ar_plan rq)"
  obtain x w0 where call: "call (env_database E) w = (x, w0)" by fastforce
  note same = call_same[OF call]
  have x: "x = None" using same assms(1) by (simp add: healthy_def)
  have unclaimed: "map_of (st_claims (w_store w0)) ?i = None" using same assms(2) by (simp add: applies_def)
  obtain c s where cl: "claim (env_running E (w_env w0)) (ar_pid rq) None ?i (ar_session rq) (ar_now rq) (w_store w0) = Inr (c, s)"
    "claim_plan c = ?i" "claim_session c = ar_session rq" "st_plans s = st_plans (w_store w)" "st_statuses s = st_statuses (w_store w)"
    "claimed_by ?i (ar_session rq) s"
    using unclaimed same by (auto simp: claim_def claim_for_def take_claim_def Let_def claimed_by_def)
  let ?w1 = "emit (DidClaim True) (w0\<lparr>w_store := s\<rparr>)"
  have "ready rq ?w1" using cl(4,6) assms(2) by (auto simp: ready_def emit_def applies_def)
  from apply_claimed_well[OF assms _ _ this cl(2,3)] cl(4,5)
  obtain oc c' w2 where ac: "apply_claimed E rq c ?w1 = (oc, c', w2)" "is_success oc" "ao_point oc = None"
    "\<forall>a \<in> set (plan_actions (ar_plan rq)). \<forall>t \<in> set (target_labels (ar_plan rq)).
       mutates_target (role a) \<and> action_covers a t (ar_plan rq) \<longrightarrow> DidExecute (act_id a) ActSucceeded \<in> fst ` set (w_trace w2)"
    by (auto simp: emit_def)
  have run: "apply_plan E rq w = (oc, drop_claim E c' w2)"
    using assms(2) call x cl(1) ac(1) by (simp add: apply_plan_def Let_def claim_write_def applies_def)
  obtain later where "w_trace (drop_claim E c' w2) = w_trace w2 @ later"
    using steps_trace[OF drop_claim_steps] by blast
  then have "e \<in> fst ` set (w_trace w2) \<Longrightarrow> e \<in> fst ` set (w_trace (drop_claim E c' w2))" for e by auto
  then show ?thesis unfolding run using ac(2-4) by (intro exI conjI ballI impI) (rule refl, assumption, assumption, blast)
qed

section \<open>Success means that everything was done\<close>

lemma run_ok_here: "run_ok rq X w0 r \<Longrightarrow> run_ok rq X (r_world r) r"
  by (simp add: run_ok_def)

lemma run_ok_events:
  assumes "run_ok rq X w0 r"
  shows "fst ` set (w_trace w0) \<subseteq> fst ` set (w_trace (r_world r))"
proof -
  obtain later where "w_trace (r_world r) = w_trace w0 @ later"
    using assms steps_trace unfolding run_ok_def by blast
  then show ?thesis by auto
qed

lemma submit_action_done:
  assumes "submit_action E rq a r = (st, r')" "r_stop r' = None"
  shows "st = ActSucceeded \<and> DidExecute (act_id a) ActSucceeded \<in> fst ` set (w_trace (r_world r'))"
proof -
  obtain failure r1 where s: "start_action E rq a r = (failure, r1)" by fastforce
  show ?thesis
  proof (cases failure)
    case (Some e)
    then show ?thesis using assms s by (auto simp: submit_action_def Let_def)
  next
    case None
    obtain out w1 where c: "call (env_execute E a) (r_world r1) = (out, w1)" by fastforce
    let ?w2 = "emit (DidExecute (act_id a) (outcome_status out)) w1"
    obtain f w3 where j: "journal_status E rq a (outcome_status out) (map_option ev_message (outcome_error out)) ?w2 = (f, w3)"
      by fastforce
    have run: "st = outcome_status out" "r_world r' = keep_failure f w3" "\<exists>sts. r_stop r' = stop_of (ar_plan rq) a out sts"
      using assms(1) s None c j by (auto simp: submit_action_def run_action_def Let_def)
    have out: "out = ExecSucceeded" using run(3) assms(2) by (cases out) (auto simp: stop_of_def)
    have "apply_steps (plan_id (ar_plan rq)) (cp_revision (ar_plan rq)) me UNIV ?w2 w3" for me
      using journal_status_steps[OF j] by simp
    then obtain later where "w_trace w3 = w_trace ?w2 @ later" using steps_trace by blast
    then show ?thesis using run out by (auto simp: emit_def keep_failure_def split: option.splits)
  qed
qed

lemma submit_actions_stopped: "r_stop r \<noteq> None \<Longrightarrow> submit_actions E rq prior as st r = (st, r)"
  by (cases as) auto

lemma submit_actions_done:
  assumes "submit_actions E rq prior as st r = (st', r')" "r_stop r' = None" "run_ok rq UNIV w0 r"
    "st \<in> {ActSkipped, ActSucceeded}"
  shows "st' \<in> {ActSkipped, ActSucceeded} \<and> (\<forall>a \<in> set as. done_in prior (r_world r') a)"
  using assms
proof (induction as arbitrary: st r)
  case (Cons a as)
  have free: "r_stop r = None" using Cons.prems(1,2) submit_actions_stopped[of r E rq prior "a # as" st]
    by (metis Pair_inject)
  show ?case
  proof (cases "prior (act_id a) = Some ActSucceeded")
    case True
    then show ?thesis using Cons.IH[of ActSucceeded r] Cons.prems free by (simp add: done_in_def)
  next
    case False
    obtain st1 r1 where s: "submit_action E rq a r = (st1, r1)" by fastforce
    have rest: "submit_actions E rq prior as st1 r1 = (st', r')" using Cons.prems(1) free False s by simp
    have stop: "r_stop r1 = None" using submit_actions_stopped[of r1 E rq prior as st1] rest Cons.prems(2) by (metis Pair_inject)
    have ok1: "run_ok rq UNIV w0 r1" by (rule submit_action_ok[OF s Cons.prems(3)]) simp
    note mine = submit_action_done[OF s stop]
    have "run_ok rq UNIV (r_world r1) r'" by (rule submit_actions_ok[OF rest run_ok_here[OF ok1]]) simp
    then have "done_in prior (r_world r') a" using mine run_ok_events unfolding done_in_def by blast
    then show ?thesis using Cons.IH[OF rest Cons.prems(2) ok1] mine by simp
  qed
qed simp

lemma submit_stopped: "r_stop r \<noteq> None \<Longrightarrow> submit E rq prior mutating ts r = ([], r)"
  by (cases ts) auto

lemma submit_done:
  assumes "submit E rq prior mutating ts r = (rs, r')" "r_stop r' = None" "run_ok rq UNIV w0 r"
  shows "list_all (\<lambda>x. \<not> stops_the_run x) rs \<and>
    (\<forall>a \<in> set mutating. \<forall>t \<in> set ts. action_covers a t (ar_plan rq) \<longrightarrow> done_in prior (r_world r') a)"
  using assms
proof (induction ts arbitrary: r rs)
  case (Cons t ts)
  have free: "r_stop r = None" using Cons.prems(1,2) submit_stopped[of r E rq prior mutating "t # ts"]
    by (metis Pair_inject)
  let ?as = "filter (\<lambda>a. action_covers a t (ar_plan rq)) mutating"
  obtain st r1 where s: "submit_actions E rq prior ?as ActSkipped r = (st, r1)" by fastforce
  obtain rs1 where rest: "submit E rq prior mutating ts r1 = (rs1, r')" and
    rs: "rs = \<lparr>res_target = t, res_status = st, res_error = map_option (fst \<circ> snd) (r_stop r1)\<rparr> # rs1"
    using Cons.prems(1) free s by (auto split: prod.splits)
  have stop: "r_stop r1 = None" using submit_stopped[of r1 E rq prior mutating ts] rest Cons.prems(2) by (metis Pair_inject)
  have ok1: "run_ok rq UNIV w0 r1" by (rule submit_actions_ok[OF s Cons.prems(3)]) simp
  have mine: "st \<in> {ActSkipped, ActSucceeded}" "\<forall>a \<in> set ?as. done_in prior (r_world r1) a"
    using submit_actions_done[OF s stop Cons.prems(3)] by auto
  have "run_ok rq UNIV (r_world r1) r'" by (rule submit_ok[OF rest run_ok_here[OF ok1]]) simp
  then have "\<forall>a \<in> set ?as. done_in prior (r_world r') a" using mine(2) run_ok_events unfolding done_in_def by blast
  then show ?case using Cons.IH[OF rest Cons.prems(2) ok1] mine(1) rs by (auto simp: stops_the_run_def)
qed simp

lemma gate_wave_stop: "gate_wave E rq ts r = (v, r') \<Longrightarrow> r_stop r' = r_stop r"
  by (auto simp: gate_wave_def Let_def split: prod.splits)

lemma waves_stay_stopped:
  assumes "run_waves_with_from targets (\<lambda>_. submit E rq prior mutating) (\<lambda>_. gate_wave E rq) k ws run0 r = (run, r')"
    "r_stop r \<noteq> None"
  shows "r_stop r' \<noteq> None"
  using assms
proof (induction ws arbitrary: k run0 r)
  case (Cons w ws)
  obtain v r2 where g: "gate_wave E rq (wave_slice targets w) r = (v, r2)" by fastforce
  then show ?case using Cons submit_stopped[OF Cons.prems(2)] gate_wave_stop[OF g]
    by (auto simp: Let_def split: if_splits)
qed simp

lemma waves_done:
  assumes "run_waves_with_from targets (\<lambda>_. submit E rq prior mutating) (\<lambda>_. gate_wave E rq) k ws run0 r = (run, r')"
    "r_stop r' = None" "gate_verdict run \<in> {None, Some VVerified}" "run_ok rq UNIV w0 r"
  shows "\<forall>a \<in> set mutating. \<forall>t \<in> set (concat (map (wave_slice targets) ws)).
       action_covers a t (ar_plan rq) \<longrightarrow> done_in prior (r_world r') a"
  using assms
proof (induction ws arbitrary: k run0 r)
  case (Cons w ws)
  let ?ts = "wave_slice targets w"
  obtain rs r1 where s: "submit E rq prior mutating ?ts r = (rs, r1)" by fastforce
  obtain v r2 where g: "gate_wave E rq ?ts r1 = (v, r2)" by fastforce
  define r3 where "r3 = (if gated w then r2 else r1)"
  define run1 where "run1 = (let x = record_wave ?ts rs run0 in if gated w then x\<lparr>gate_verdict := Some v\<rparr> else x)"
  have ok1: "run_ok rq UNIV w0 r1" by (rule submit_ok[OF s Cons.prems(4)]) simp
  have ok3: "run_ok rq UNIV w0 r3" using ok1 gate_wave_ok[OF g ok1] by (simp add: r3_def)
  have stop: "r_stop r1 = None"
  proof (rule ccontr)
    assume held: "r_stop r1 \<noteq> None"
    then have "r_stop r3 \<noteq> None" using gate_wave_stop[OF g] by (simp add: r3_def)
    moreover have "r' = r1 \<or> r' = r2 \<or> (\<exists>j run2. run_waves_with_from targets (\<lambda>_. submit E rq prior mutating)
        (\<lambda>_. gate_wave E rq) j ws run2 r3 = (run, r'))"
      using Cons.prems(1) s g by (auto simp: Let_def r3_def split: if_splits)
    ultimately show False using held Cons.prems(2) gate_wave_stop[OF g] waves_stay_stopped by metis
  qed
  note mine = submit_done[OF s stop Cons.prems(4)]
  have rest: "run_waves_with_from targets (\<lambda>_. submit E rq prior mutating) (\<lambda>_. gate_wave E rq) (k + 1) ws run1 r3 = (run, r')"
    using Cons.prems(1,3) s g mine by (auto simp: Let_def r3_def run1_def list_all_iff stop_run_def split: if_splits)
  have "run_ok rq UNIV (r_world r1) r3" using run_ok_here[OF ok1] gate_wave_ok[OF g run_ok_here[OF ok1]] by (simp add: r3_def)
  then have "run_ok rq UNIV (r_world r1) r'"
  proof -
    have "run_waves_with_from targets (\<lambda>_. submit E rq prior mutating) (\<lambda>_. gate_wave E rq) j us run2 r4 = (run, r') \<Longrightarrow>
        run_ok rq UNIV (r_world r1) r4 \<Longrightarrow> run_ok rq UNIV (r_world r1) r'" for j us run2 r4
      by (rule run_waves_from_inv[where I = "run_ok rq UNIV (r_world r1)"]) (auto intro: submit_ok gate_wave_ok)
    then show ?thesis using rest \<open>run_ok rq UNIV (r_world r1) r3\<close> by blast
  qed
  then have "done_in prior (r_world r') a" if "a \<in> set mutating" "t \<in> set ?ts" "action_covers a t (ar_plan rq)" for a t
    using that mine run_ok_events unfolding done_in_def by blast
  then show ?case using Cons.IH[OF rest Cons.prems(2,3) ok3] by auto
qed simp

definition check_ok :: "VerificationResult \<Rightarrow> bool" where
  "check_ok r \<longleftrightarrow> vr_class r = Observational \<or> vr_status r \<in> {CheckPassed, CheckSkipped}"

lemma worse_of_verified: "worse_of u v = VVerified \<longleftrightarrow> u = VVerified \<and> v = VVerified"
  by (cases u; cases v) simp_all

lemma contribution_verified:
  "contribution c st = VVerified \<longleftrightarrow> c = Observational \<or> st \<in> {CheckPassed, CheckSkipped}"
  by (cases c; cases st) simp_all

lemma verified_results: "results_verdict rs = VVerified \<Longrightarrow> \<forall>r \<in> set rs. check_ok r"
proof (induction rs)
  case (Cons r rs)
  then show ?case
    by (auto simp: results_verdict_def verdict_Cons worse_of_verified contribution_verified check_ok_def)
qed simp

lemma verify_ok:
  assumes "verify E plan now w = (v, w')" "vo_error v = None"
  shows "\<forall>r \<in> set (vo_results v). check_ok r"
proof -
  have "results_verdict (vo_results v) = VVerified"
    using assms by (auto simp: verify_def Let_def split: prod.splits if_splits)
  then show ?thesis by (rule verified_results)
qed

lemma mutate_done:
  assumes "mutate E rq d p prior c w = (oc, held, c', w')" "ao_error oc = None"
    "claim_plan c = plan_id (ar_plan rq)" "claim_session c = ar_session rq"
  shows "(\<forall>a \<in> set (plan_actions (ar_plan rq)). \<forall>t \<in> set (target_labels (ar_plan rq)).
       mutates_target (role a) \<and> action_covers a t (ar_plan rq) \<longrightarrow> done_in prior w' a) \<and>
    (\<forall>r \<in> set (ao_verification oc). check_ok r)"
proof -
  let ?ts = "target_labels (ar_plan rq)"
  obtain order where order: "topological_order (plan_actions (ar_plan rq)) = Some (Inr order)"
    using assms(1,2) by (auto simp: mutate_def Let_def refused_def split: option.splits sum.splits)
  let ?m = "mutating_actions (plan_actions (ar_plan rq)) order"
  obtain run r where run: "run_waves_with (cp_strategy (ar_plan rq)) ?ts
      (\<lambda>_. submit E rq prior ?m) (\<lambda>_. gate_wave E rq) (run_start E rq d prior c w) = (run, r)" by fastforce
  have start: "run_ok rq UNIV w (run_start E rq d prior c w)" using assms(3,4) by (rule run_start_ok)
  have fin: "finish_run E rq d p ?m run r = (oc, w')"
    using assms(1) order run by (auto simp: mutate_def Let_def split: prod.splits)
  have stop: "r_stop r = None"
    using fin assms(2) by (auto simp: finish_run_def Let_def outcome_not_started_def outcome_stopped_def split: option.splits if_splits)
  have gate: "gate_verdict run \<in> {None, Some VVerified}"
    using fin assms(2) stop by (auto simp: finish_run_def Let_def outcome_gated_def split: option.splits Verdict.splits)
  obtain v w1 where v: "verify E (ar_plan rq) (ar_now rq) (r_world r) = (v, w1)" by fastforce
  have eq: "oc = outcome_verified (ar_plan rq) v (run_outcome (ar_plan rq) d p run r)" "w' = w1"
    using fin stop gate v by (auto simp: finish_run_def Let_def)
  have "\<forall>a \<in> set ?m. \<forall>t \<in> set (concat (map (wave_slice ?ts) (waves (cp_strategy (ar_plan rq)) (length ?ts)))).
       action_covers a t (ar_plan rq) \<longrightarrow> done_in prior (r_world r) a"
    using waves_done[OF run[unfolded run_waves_with_def] stop gate start] .
  moreover have "concat (map (wave_slice ?ts) (waves (cp_strategy (ar_plan rq)) (length ?ts))) = ?ts"
    using contiguous_slices[OF waves_contiguous[of "length ?ts" "cp_strategy (ar_plan rq)"]] by simp
  moreover have "done_in prior w' a" if "done_in prior (r_world r) a" for a
  proof -
    have "apply_steps [] 0 [] {} (r_world r) w1" by (rule verify_steps[OF v])
    then obtain later where "w_trace w1 = w_trace (r_world r) @ later" using steps_trace by blast
    then show ?thesis using that eq(2) by (auto simp: done_in_def)
  qed
  moreover have "\<forall>x \<in> set (ao_verification oc). check_ok x"
    using verify_ok[OF v] assms(2) eq(1) by (simp add: outcome_verified_def)
  ultimately show ?thesis using order_members[OF order] by auto
qed

definition all_done :: "'i ApplyRequest \<Rightarrow> 'i Store \<Rightarrow> ApplyOutcome \<Rightarrow> ('w, 'i) World \<Rightarrow> bool" where
  "all_done rq s oc w' \<longleftrightarrow>
     (\<forall>a \<in> set (plan_actions (ar_plan rq)). \<forall>t \<in> set (target_labels (ar_plan rq)).
       mutates_target (role a) \<and> action_covers a t (ar_plan rq) \<longrightarrow>
       done_in (recorded_statuses s (plan_id (ar_plan rq)) (cp_revision (ar_plan rq))) w' a) \<and>
     (\<forall>r \<in> set (ao_verification oc). check_ok r)"

lemma refused_error [simp]: "ao_error (refused plan point e) = Some e" "ao_error (refused_on_evidence plan point e d rec) = Some e"
  "ao_error (prepare_failure plan p e) = Some e"
  by (simp_all add: refused_def refused_on_evidence_def prepare_failure_def Let_def)

lemma precheck_error: "precheck E rq prior w = (Some oc, w') \<Longrightarrow> ao_error oc \<noteq> None"
  by (auto simp: precheck_def Let_def split: prod.splits option.splits)

lemma protect_error: "protect E rq began durable rec w = (Inl oc, w') \<Longrightarrow> ao_error oc \<noteq> None"
  by (auto simp: protect_def Let_def split: prod.splits sum.splits if_splits)

lemma write_state_events: "fst ` set (w_trace w) \<subseteq> fst ` set (w_trace (write_state E rq st w))"
  using write_state_well[of rq w E st] by (simp add: goes_on_def)

lemma apply_claimed_done:
  assumes "apply_claimed E rq c w = (oc, c', w')" "ao_error oc = None"
    "claim_plan c = plan_id (ar_plan rq)" "claim_session c = ar_session rq"
  shows "all_done rq (w_store w) oc w'"
proof -
  let ?rec = "recorded_statuses (w_store w) (plan_id (ar_plan rq)) (cp_revision (ar_plan rq))"
  obtain q w1 where ev: "durable_evidence E rq w = (q, w1)" by fastforce
  then obtain durable rec where q: "q = Inr (durable, rec)" using assms(1,2) by (cases q) (auto simp: apply_claimed_def Let_def)
  have rec: "rec = ?rec" using durable_evidence_Inr[OF ev[unfolded q]] by simp
  have ok: "appliability (ar_plan rq) durable (ar_now rq) (ar_resume rq) = None" "\<not> (mutation_began (ar_plan rq) rec \<and> \<not> ar_resume rq)"
    using assms(1,2) ev q by (auto simp: apply_claimed_def Let_def split: option.splits if_splits)
  obtain pr w2 where rp: "resume_prior E rq rec w1 = (pr, w2)" by fastforce
  then obtain prior where prior: "pr = Inr prior" using assms(1,2) ev q ok by (cases pr) (auto simp: apply_claimed_def Let_def)
  have sub: "prior x = Some ActSucceeded \<Longrightarrow> ?rec x = Some ActSucceeded" for x
    using rp prior rec by (auto simp: resume_prior_def split: if_splits prod.splits option.splits)
  obtain pc w3 where pc: "precheck E rq prior w2 = (pc, w3)" by fastforce
  then have none: "pc = None" using assms(1,2) ev q ok rp prior by (cases pc) (auto simp: apply_claimed_def Let_def dest!: precheck_error)
  obtain pt w4 where pt: "protect E rq (mutation_began (ar_plan rq) rec) durable rec w3 = (pt, w4)" by fastforce
  then obtain d p where dp: "pt = Inr (d, p)"
    using assms(1,2) ev q ok rp prior pc none by (cases pt) (auto simp: apply_claimed_def Let_def dest!: protect_error)
  let ?w5 = "write_state E rq Applying (persist_assets E rq (kept_assets d) w4)"
  obtain oc1 held c1 w6 where mu: "mutate E rq d p prior c ?w5 = (oc1, held, c1, w6)" by (metis surj_pair)
  have eq: "oc = oc1" "w' = (if held then write_state E rq (ao_state oc1) w6 else w6)"
    using assms(1) ev q ok rp prior pc none pt dp mu by (auto simp: apply_claimed_def Let_def)
  have "fst ` set (w_trace w6) \<subseteq> fst ` set (w_trace w')" using eq(2) write_state_events[of w6 E rq "ao_state oc1"] by simp
  then have carry: "done_in prior w6 a \<Longrightarrow> done_in ?rec w' a" for a using sub by (auto simp: done_in_def)
  have "ao_error oc1 = None" using assms(2) eq(1) by simp
  from mutate_done[OF mu this assms(3,4)] show ?thesis unfolding all_done_def eq(1) using carry by blast
qed

lemma apply_plan_done:
  assumes "apply_plan E rq w = (oc, w')" "ao_error oc = None"
  shows "all_done rq (w_store w) oc w'"
proof -
  obtain answer w1 where cw: "claim_write E (\<lambda>running fault. claim running (ar_pid rq) fault
      (plan_id (ar_plan rq)) (ar_session rq) (ar_now rq)) DidClaim w = (answer, w1)" by fastforce
  note claimed = claim_write_claim[OF cw]
  obtain c where c: "answer = Inr c"
    using assms cw by (cases answer) (auto simp: apply_plan_def Let_def split: option.splits if_splits)
  obtain oc1 c1 w2 where ac: "apply_claimed E rq c w1 = (oc1, c1, w2)" by (metis surj_pair)
  have eq: "oc = oc1" "w' = drop_claim E c1 w2"
    using assms cw c ac by (auto simp: apply_plan_def Let_def split: option.splits if_splits)
  have "all_done rq (w_store w1) oc w2" using apply_claimed_done[OF ac] assms(2) claimed c eq(1) by auto
  moreover obtain later where "w_trace w' = w_trace w2 @ later"
    unfolding eq using steps_trace[OF drop_claim_steps] by blast
  moreover have "recorded_statuses (w_store w1) = recorded_statuses (w_store w)"
    using claimed by (auto simp: recorded_statuses_def intro!: ext)
  ultimately show ?thesis by (auto simp: all_done_def done_in_def)
qed

section \<open>What depends on a failed action\<close>

definition id_deps :: "plan_action list \<Rightarrow> (ustr \<times> ustr) set" where
  "id_deps actions = {(act_id a, d) | a d. a \<in> set actions \<and> d \<in> set (depends_on a)}"

lemma block_step_sound:
  "\<forall>i \<in> set held. (i, failed) \<in> (id_deps actions)\<^sup>* \<Longrightarrow> a \<in> set actions \<Longrightarrow>
     \<forall>i \<in> set (block_step a held). (i, failed) \<in> (id_deps actions)\<^sup>*"
  by (auto simp: block_step_def list_ex_iff id_deps_def intro: converse_rtrancl_into_rtrancl)

lemma block_pass_sound:
  "\<forall>i \<in> set held. (i, failed) \<in> (id_deps actions)\<^sup>* \<Longrightarrow> set as \<subseteq> set actions \<Longrightarrow>
     \<forall>i \<in> set (fold block_step as held). (i, failed) \<in> (id_deps actions)\<^sup>*"
proof (induction as arbitrary: held)
  case (Cons a as)
  have "\<forall>i \<in> set (block_step a held). (i, failed) \<in> (id_deps actions)\<^sup>*"
    by (rule block_step_sound) (use Cons.prems in auto)
  then show ?case using Cons.IH Cons.prems(2) by simp
qed simp

lemma block_pass_keeps: "set held \<subseteq> set (fold block_step as held)"
proof (induction as arbitrary: held)
  case (Cons a as)
  have "set held \<subseteq> set (block_step a held)" by (auto simp: block_step_def)
  then show ?case using Cons.IH[of "block_step a held"] by simp
qed simp

lemma block_pass_closed:
  assumes "length (fold block_step as held) = length held" "a \<in> set as" "d \<in> set (depends_on a)" "d \<in> set held"
  shows "act_id a \<in> set held"
  using assms
proof (induction as)
  case (Cons b as)
  have "length (block_step b held) \<le> length (fold block_step as (block_step b held))" by (rule block_pass_length)
  then have len: "length (block_step b held) = length held"
    using Cons.prems(1) block_step_length[of held b] by simp
  then have "block_step b held = held" by (auto simp: block_step_def split: if_splits)
  moreover have "act_id b \<in> set held" if "d \<in> set (depends_on b)" using len that Cons.prems(4)
    by (auto simp: block_step_def list_ex_iff split: if_splits)
  ultimately show ?case using Cons by auto
qed simp

lemma block_loop_exact:
  assumes "\<forall>i \<in> set held. (i, failed) \<in> (id_deps actions)\<^sup>*" "failed \<in> set held"
  shows "set (block_loop actions held) = {i. (i, failed) \<in> (id_deps actions)\<^sup>*}"
  using assms
proof (induction actions held rule: block_loop.induct)
  case (1 actions held)
  let ?grown = "fold block_step actions held"
  show ?case
  proof (cases "length ?grown = length held")
    case True
    have "i \<in> set held" if "(i, failed) \<in> (id_deps actions)\<^sup>*" for i
      using that
    proof (induction rule: converse_rtrancl_induct)
      case (step x y)
      then show ?case using block_pass_closed[OF True] by (auto simp: id_deps_def)
    qed (rule "1.prems"(2))
    then show ?thesis using True "1.prems" by (subst block_loop.simps) auto
  next
    case False
    have "failed \<in> set ?grown" using "1.prems"(2) block_pass_keeps by blast
    then show ?thesis using "1.IH"[OF refl False] block_pass_sound[OF "1.prems"(1) subset_refl] False
      by (subst block_loop.simps) (simp add: Let_def)
  qed
qed

section \<open>Properties\<close>

text \<open>
  C7: An apply that says nothing may have changed has executed nothing.  Whatever refused it (the
  plan's state, its digest, another session's claim, drift, a missing capability, the risk gate, a
  failed preparation, an action that could not be started first), no action of the run was executed.
\<close>

theorem denied_mutation_is_true:
  assumes "apply_plan E rq w = (oc, w')" "w_trace w = []" "\<not> outcome_has_mutated oc"
  shows "(DidExecute a st, s) \<notin> set (w_trace w')"
  using shape_executes(2)[OF apply_plan_shape[OF assms(1)] assms(2)] assms(3) by blast

text \<open>
  C2: Every execution is written ahead.  Directly before an action runs, the claim was renewed and the
  action was recorded as running; at that moment the store names this session as the plan's holder.
  From then on, wherever the shell is killed, the store records that the action may have mutated.
\<close>

theorem executions_are_written_ahead:
  assumes "apply_plan E rq w = (oc, w')" "w_trace w = []"
    and "k < length (w_trace w')" "w_trace w' ! k = (DidExecute a st, s)"
  defines "evidence \<equiv> \<lambda>x. recorded_statuses x (plan_id (ar_plan rq)) (cp_revision (ar_plan rq)) a"
  shows "2 \<le> k \<and> fst (w_trace w' ! (k - 2)) = DidRenew True \<and>
    w_trace w' ! (k - 1) = (DidRecord a ActRunning True, s) \<and>
    claimed_by (plan_id (ar_plan rq)) (ar_session rq) s \<and>
    (\<forall>j \<in> {k..<length (w_trace w')}. \<exists>st'. evidence (snd (w_trace w' ! j)) = Some st' \<and> may_have_mutated st')"
proof -
  note shape = apply_plan_shape[OF assms(1)]
  show ?thesis using shape_written_ahead[OF shape assms(2,3)] evidence_remains[OF shape assms(2,4)] assms(4)
    unfolding written_ahead_def evidence_def by auto
qed


text \<open>
  C8: An apply executes only what the records permit.  Every action it executes is a mutating action of
  the plan, and by what the store recorded of it before the run, if anything, it never ran, or its
  contract is idempotent and it did not succeed; so a resumed apply repeats no completed action.
\<close>

theorem apply_executes_only_rerunnable:
  assumes "apply_plan E rq w = (oc, w')" "w_trace w = []" "(DidExecute i st, s) \<in> set (w_trace w')"
  shows "\<exists>a \<in> set (plan_actions (ar_plan rq)). act_id a = i \<and> mutates_target (role a) \<and>
    (case recorded_statuses (w_store w) (plan_id (ar_plan rq)) (cp_revision (ar_plan rq)) i of
       None \<Rightarrow> True | Some st \<Rightarrow> rerunnable st (idempotency a))"
  using shape_executes(1)[OF apply_plan_shape[OF assms(1)] assms(2,3)] unfolding may_run_def by blast

text \<open>
  C4: Nothing is changed before it is protected.  Before the first action an apply executes, every
  protection action the plan requires has an asset that its provider checked in this very run and
  found usable; on a resume that is the asset of the first run, checked again.
\<close>

theorem protection_comes_first:
  assumes "apply_plan E rq w = (oc, w')" "w_trace w = []" "(DidExecute i st, s) \<in> set (w_trace w')"
  shows "\<exists>before after. w_trace w' = before @ after \<and> (\<forall>b x y. (DidExecute b x, y) \<notin> set before) \<and>
    (\<forall>a \<in> set (rq_protection (ar_prepare rq)). requires_protection (ar_plan rq) a \<longrightarrow>
       (\<exists>asset x. asset_is_usable asset \<and> (DidProtect a asset, x) \<in> set before))"
  using shape_executes(4)[OF apply_plan_shape[OF assms(1)] assms(2,3)]
  unfolding protected_since_def checked_since_def by metis




text \<open>
  C35: The actions an apply marks as skipped after a failure are exactly those that depend on the
  failed action, directly or through others.
\<close>

theorem dependents_are_exact:
  "set (dependents_of_action actions failed) = {i. (i, failed) \<in> (id_deps actions)\<^sup>+ \<and> i \<noteq> failed}"
proof -
  have "set (block_loop actions [failed]) = {i. (i, failed) \<in> (id_deps actions)\<^sup>*}"
    by (rule block_loop_exact) auto
  then show ?thesis by (auto simp: dependents_of_action_def rtrancl_eq_or_trancl)
qed

section \<open>A concrete apply\<close>

definition web_target :: FrozenTarget where
  "web_target = \<lparr>ft_schema = asc ''service'', ft_identity = asc ''web'', ft_label = asc ''web'', ft_spatial_id = None,
     ft_host = None, ft_selector = None, ft_persistence_domain = None\<rparr>"

definition sealed_over :: "FrozenTarget list \<Rightarrow> unit Plan" where
  "sealed_over ts = (let p = sample_plan\<lparr>cp_targets := ts\<rparr>
     in p\<lparr>cp_sealed_at := Some 7, plan_state := Sealed, cp_digest := Some (compute_digest id p)\<rparr>)"

definition stored_over :: "FrozenTarget list \<Rightarrow> unit Store" where
  "stored_over ts = store_empty\<lparr>st_plans := [((asc ''p1'', 1), plan_row_of plain_options (sealed_over ts) None)]\<rparr>"

definition apply_over :: "FrozenTarget list \<Rightarrow> unit ApplyRequest" where
  "apply_over ts = \<lparr>ar_prepare = sample_request\<lparr>rq_plan := sealed_over ts\<rparr>, ar_options = plain_options,
     ar_digest = id, ar_session = asc ''s1'', ar_pid = 1, ar_resume = False, ar_clocked = False\<rparr>"

lemma sealed_over_fields [simp]:
  "plan_id (sealed_over ts) = asc ''p1''" "plan_state (sealed_over ts) = Sealed" "cp_revision (sealed_over ts) = 1"
  "cp_targets (sealed_over ts) = ts" "plan_actions (sealed_over ts) = [sample_action (Program (asc ''sync'') [])]"
  "cp_expires_at (sealed_over ts) = None" "cp_protection_mode (sealed_over ts) = Prefer" "cp_risk (sealed_over ts) = risk_empty"
  "digest_holds id (sealed_over ts)"
  by (simp_all add: sealed_over_def sample_plan_def draft_plan_def Let_def digest_holds_def compute_digest_def canonical_text_def)

lemma apply_over_fields [simp]: "ar_plan (apply_over ts) = sealed_over ts" "ar_resume (apply_over ts) = False"
  "ar_digest (apply_over ts) = id" "ar_now (apply_over ts) = 0"
  "rq_authority (ar_prepare (apply_over ts)) = authority_full" "rq_protection (ar_prepare (apply_over ts)) = [snapshot_action]"
  by (simp_all add: apply_over_def sample_request_def)

lemma calm_healthy: "healthy calm"
  by (simp add: healthy_def calm_def validation_complete_def validation_is_complete_def)

lemma over_applies: "applies (apply_over ts) (stored_over ts)"
proof -
  have deps: "dep_rel [sample_action (Program (asc ''sync'') [])] = {}"
    by (auto simp: dep_rel_def sample_action_def action_new_def)
  have "preparable (ar_prepare (apply_over ts))"
    by (simp add: preparable_def apply_over_def sample_request_def authority_full_def REQUIRED_def registry_get_def
        plain_provider_def snapshot_action_def protection_action_new_def)
  moreover have "check_authority (sealed_over ts) authority_full [snapshot_action] = None"
    by (simp add: check_authority_def authority_full_def REQUIRED_def sample_action_def action_new_def)
  moreover have "check_discovery (sealed_over ts) [snapshot_action] = None" by (simp add: check_discovery_def refuses_shortfall_def)
  moreover have "check_gates (sealed_over ts) = None"
    by (simp add: check_gates_def Let_def risk_empty_def outstanding_acknowledgements_def needs_acknowledgement_def
        classify_risk_def risk_has_irreversible_def)
  moreover have "plan_state (pr_record (plan_row_of plain_options (sealed_over ts) None)) = Sealed"
    by (simp add: plan_row_of_def redact_plan_def)
  ultimately show ?thesis using deps
    by (simp add: applies_def stored_over_def store_empty_def appliability_def is_expired_at_def is_appliable_def
        mutation_began_def recorded_statuses_def acyclic_def del: sealed_over_fields(5))
      (simp add: acyclic_def)
qed

lemma web_runs:
  "\<exists>oc w' s. apply_plan calm (apply_over [web_target]) (fresh_world (stored_over [web_target])) = (oc, w') \<and>
     is_success oc \<and> (DidExecute (asc ''a1'') ActSucceeded, s) \<in> set (w_trace w')"
proof -
  have "applies (apply_over [web_target]) (w_store (fresh_world (stored_over [web_target])))"
    by (simp add: over_applies fresh_world_def)
  from apply_well[OF calm_healthy this]
  obtain oc w' where run: "apply_plan calm (apply_over [web_target]) (fresh_world (stored_over [web_target])) = (oc, w')" "is_success oc"
    and ran: "\<forall>a \<in> set (plan_actions (sealed_over [web_target])). \<forall>t \<in> set (target_labels (sealed_over [web_target])).
      mutates_target (role a) \<and> action_covers a t (sealed_over [web_target]) \<longrightarrow> DidExecute (act_id a) ActSucceeded \<in> fst ` set (w_trace w')"
    by auto
  have "DidExecute (asc ''a1'') ActSucceeded \<in> fst ` set (w_trace w')"
    using ran by (simp add: target_labels_def action_covers_def web_target_def sample_action_def action_new_def mutates_target_def)
  then show ?thesis using run by force
qed

lemma fresh_trace [simp]: "w_trace (fresh_world s) = []" "w_store (fresh_world s) = s"
  by (simp_all add: fresh_world_def)

theorem denied_mutation_is_true_witness:
  "\<exists>oc w'. apply_plan calm (apply_over []\<lparr>ar_prepare := sample_request\<lparr>rq_plan := sample_plan\<rparr>\<rparr>) (fresh_world store_empty) = (oc, w') \<and>
     \<not> outcome_has_mutated oc \<and> (DidExecute (asc ''a1'') ActSucceeded, store_empty) \<notin> set (w_trace w')"
proof -
  let ?rq = "apply_over []\<lparr>ar_prepare := sample_request\<lparr>rq_plan := sample_plan\<rparr>\<rparr>"
  obtain oc w' where run: "apply_plan calm ?rq (fresh_world store_empty) = (oc, w')" by fastforce
  moreover have "\<not> outcome_has_mutated oc"
    using run by (auto simp: apply_plan_def Let_def apply_over_def sample_plan_def draft_plan_def appliability_def is_expired_at_def
        is_appliable_def refused_def outcome_has_mutated_def point_may_have_mutated_def sample_request_def)
  ultimately show ?thesis using denied_mutation_is_true[OF run] by auto
qed

theorem executions_are_written_ahead_witness:
  "\<exists>oc w' k s. apply_plan calm (apply_over [web_target]) (fresh_world (stored_over [web_target])) = (oc, w') \<and>
     w_trace w' ! k = (DidExecute (asc ''a1'') ActSucceeded, s) \<and> claimed_by (asc ''p1'') (asc ''s1'') s \<and>
     w_trace w' ! (k - 1) = (DidRecord (asc ''a1'') ActRunning True, s)"
proof -
  obtain oc w' s where run: "apply_plan calm (apply_over [web_target]) (fresh_world (stored_over [web_target])) = (oc, w')"
    "(DidExecute (asc ''a1'') ActSucceeded, s) \<in> set (w_trace w')" using web_runs by blast
  obtain k where k: "k < length (w_trace w')" "w_trace w' ! k = (DidExecute (asc ''a1'') ActSucceeded, s)"
    using run(2) by (metis in_set_conv_nth)
  show ?thesis using executions_are_written_ahead[OF run(1) _ k] run(1) k(2) by (auto simp: apply_over_def)
qed


theorem apply_executes_only_rerunnable_witness:
  "\<exists>oc w' s. apply_plan calm (apply_over [web_target]) (fresh_world (stored_over [web_target])) = (oc, w') \<and>
     (DidExecute (asc ''a1'') ActSucceeded, s) \<in> set (w_trace w') \<and>
     list_ex (\<lambda>a. act_id a = asc ''a1'' \<and> mutates_target (role a)) (plan_actions (sealed_over [web_target]))"
proof -
  obtain oc w' s where run: "apply_plan calm (apply_over [web_target]) (fresh_world (stored_over [web_target])) = (oc, w')"
    "(DidExecute (asc ''a1'') ActSucceeded, s) \<in> set (w_trace w')" using web_runs by blast
  show ?thesis using apply_executes_only_rerunnable[OF run(1) _ run(2)] run unfolding list_ex_iff by auto
qed

theorem protection_comes_first_witness:
  "\<exists>oc w' before after asset x. apply_plan calm (apply_over [web_target]) (fresh_world (stored_over [web_target])) = (oc, w') \<and>
     w_trace w' = before @ after \<and> asset_is_usable asset \<and> (DidProtect snapshot_action asset, x) \<in> set before"
proof -
  obtain oc w' s where run: "apply_plan calm (apply_over [web_target]) (fresh_world (stored_over [web_target])) = (oc, w')"
    "(DidExecute (asc ''a1'') ActSucceeded, s) \<in> set (w_trace w')" using web_runs by blast
  have "requires_protection (sealed_over [web_target]) snapshot_action"
    by (simp add: requires_protection_def snapshot_action_def protection_action_new_def)
  then show ?thesis using protection_comes_first[OF run(1) _ run(2)] run(1) by auto
qed



section \<open>What an apply does not do\<close>

text \<open>
  A mutating action that names no target belongs to the first target; in a plan without targets it
  belongs to none.  Such a plan applies, executes nothing, and is reported verified.
\<close>

lemma verified_without_running:
  "\<exists>oc w'. apply_plan calm (apply_over []) (fresh_world (stored_over [])) = (oc, w') \<and> is_success oc \<and>
     plan_mutates (sealed_over []) \<and> (\<forall>i st s. (DidExecute i st, s) \<notin> set (w_trace w'))"
proof -
  have "applies (apply_over []) (w_store (fresh_world (stored_over [])))" by (simp add: over_applies)
  from apply_well[OF calm_healthy this]
  obtain oc w' where run: "apply_plan calm (apply_over []) (fresh_world (stored_over [])) = (oc, w')" "is_success oc" by blast
  have "\<not> action_covers (sample_action ex) t (sealed_over [])" for ex t
    by (simp add: action_covers_def sample_action_def action_new_def)
  then have "may_run (apply_over []) (stored_over []) = {}" by (auto simp: may_run_def)
  then have "(DidExecute i st, s) \<notin> set (w_trace w')" for i st s
    using shape_executes(1)[OF apply_plan_shape[OF run(1)]] by auto
  moreover have "plan_mutates (sealed_over [])" by (simp add: plan_mutates_def sample_action_def action_new_def mutates_target_def)
  ultimately show ?thesis using run by blast
qed

text \<open>
  A target whose first action succeeded and whose second could not be started is reported as one
  the run never touched.
\<close>

lemma changed_target_untouched:
  assumes "submit_action E rq a r = (ActSucceeded, r1)" "submit_action E rq b r1 = (ActSkipped, r2)"
    and "r_stop r = None" "r_stop r1 = None" "r_stop r2 \<noteq> None"
    and "action_covers a t (ar_plan rq)" "action_covers b t (ar_plan rq)"
  shows "\<exists>rs. submit E rq Map.empty [a, b] [t] r = (rs, r2) \<and>
    touched (record_wave [t] rs empty_run) = [] \<and> untouched (record_wave [t] rs empty_run) = [t]"
  using assms by (auto simp: record_wave_def empty_run_def)

lemma set_status_keeps: "x \<in> set sts \<Longrightarrow> fst x \<noteq> i \<Longrightarrow> x \<in> set (set_status i st sts)"
  by (induction i st sts rule: set_status.induct) auto

text \<open>
  The first mutating action that fails is reported as a later one when the plan carries a protection
  action that preparation has settled: the settled action counts as one that succeeded.
\<close>

lemma first_failure_reported_as_middle:
  assumes "p \<in> set (plan_actions plan)" "settled_by d p" "act_id p \<noteq> act_id a"
  shows "failed_at (set_status (act_id a) ActFailed (first_statuses plan d Map.empty)) = FpMiddleMutateAction"
proof -
  have "(act_id p, ActSucceeded) \<in> set (first_statuses plan d Map.empty)"
    using assms(1,2) by (force simp: first_statuses_def)
  then have "(act_id p, ActSucceeded) \<in> set (set_status (act_id a) ActFailed (first_statuses plan d Map.empty))"
    by (rule set_status_keeps) (simp add: assms(3))
  then show ?thesis by (force simp: failed_at_def list_ex_iff)
qed

text \<open>
  Actions run target by target.  An action on the first target that depends on an action on the
  second is submitted before it: the first submission holds it alone.
\<close>

lemma dependency_across_targets_ignored:
  defines "base \<equiv> sample_action (Program [] [])"
  defines "later \<equiv> base\<lparr>act_id := asc ''a2'', target := Some (asc ''db'')\<rparr>"
    and "first \<equiv> base\<lparr>target := Some (asc ''web''), depends_on := [asc ''a2'']\<rparr>"
  shows "filter (\<lambda>a. action_covers a (asc ''web'') plan) [later, first] = [first]" "act_id later \<in> set (depends_on first)"
  by (simp_all add: base_def later_def first_def action_covers_def)

end
