(* ===== verification/Recovery_Plan.thy ===== *)
theory Recovery_Plan
  imports Plan_Execute
begin

text \<open>
  Recovery planning, its data and its decisions: what a recovery would do to newer state
  (\<open>crates/ono-change-core/src/recovery.rs\<close>), the analysis of that state
  (\<open>crates/ono-change-recovery/src/conflict.rs\<close>), the gate in front of a destructive recovery
  (\<open>gate.rs\<close>) and the choice of a restore method (\<open>method.rs\<close>).  What a provider plans is an
  argument.  The theory shows that the gate passes exactly what loses nothing or was accepted, and
  that the method chosen is the least destructive one that meets the goal.
\<close>

section \<open>Goals, newer state and what cannot be reversed\<close>

datatype RecoveryGoal =
    RestoreChangedObjects | RestoreDomain | CompensateSemantics | RestoreServiceHealth

fun RecoveryGoal_as_str :: "RecoveryGoal \<Rightarrow> string" where
  "RecoveryGoal_as_str RestoreChangedObjects = ''restore-changed-objects''"
| "RecoveryGoal_as_str RestoreDomain = ''restore-domain''"
| "RecoveryGoal_as_str CompensateSemantics = ''compensate-semantics''"
| "RecoveryGoal_as_str RestoreServiceHealth = ''restore-service-health''"

fun RestoreMethod_as_str :: "RestoreMethod \<Rightarrow> string" where
  "RestoreMethod_as_str ProviderNativeRestore = ''provider-native-restore''"
| "RestoreMethod_as_str SelectiveFileRestore = ''selective-file-restore''"
| "RestoreMethod_as_str CloneAndCopy = ''clone-and-copy''"
| "RestoreMethod_as_str SubvolumeReplacement = ''subvolume-replacement''"
| "RestoreMethod_as_str DatasetRollback = ''dataset-rollback''"
| "RestoreMethod_as_str OfflineRootRecovery = ''offline-root-recovery''"
| "RestoreMethod_as_str Compensation = ''compensation''"

definition RestoreMethod_ALL :: "RestoreMethod list" where
  "RestoreMethod_ALL = [ProviderNativeRestore, SelectiveFileRestore, CloneAndCopy,
     SubvolumeReplacement, DatasetRollback, OfflineRootRecovery, Compensation]"

definition RestoreMethod_from_name :: "ustr \<Rightarrow> RestoreMethod option" where
  "RestoreMethod_from_name name = List.find (\<lambda>m. asc (RestoreMethod_as_str m) = name) RestoreMethod_ALL"

datatype NewerStateClass = PreservedByMethod | DiscardedByMethod | Conflicting | NewerUnknown

definition is_loss :: "NewerStateClass \<Rightarrow> bool" where
  "is_loss c \<longleftrightarrow> c \<in> {DiscardedByMethod, Conflicting}"

definition requires_acceptance :: "NewerStateClass \<Rightarrow> bool" where
  "requires_acceptance c \<longleftrightarrow> c \<notin> {PreservedByMethod}"

record NewerStateItem =
  ni_object :: ustr
  ni_class :: NewerStateClass
  ni_changed_at :: "int option"
  ni_detail :: sentence

definition item_new :: "ustr \<Rightarrow> NewerStateClass \<Rightarrow> sentence \<Rightarrow> NewerStateItem" where
  "item_new object c detail = \<lparr>ni_object = object, ni_class = c, ni_changed_at = None, ni_detail = detail\<rparr>"

record NewerStateImpact =
  nx_items :: "NewerStateItem list"
  nx_destroyed_assets :: "ustr list"
  nx_discarded_bytes :: "nat option"
  nx_complete :: bool

definition unanalysed :: NewerStateImpact where
  "unanalysed = \<lparr>nx_items = [], nx_destroyed_assets = [], nx_discarded_bytes = None, nx_complete = False\<rparr>"

definition analysed :: "NewerStateItem list \<Rightarrow> NewerStateImpact" where
  "analysed items = \<lparr>nx_items = items, nx_destroyed_assets = [], nx_discarded_bytes = None, nx_complete = True\<rparr>"

definition impact_destroying :: "NewerStateImpact \<Rightarrow> ustr \<Rightarrow> NewerStateImpact" where
  "impact_destroying x asset = x\<lparr>nx_destroyed_assets := nx_destroyed_assets x @ [asset]\<rparr>"

definition impact_discarding :: "NewerStateImpact \<Rightarrow> nat \<Rightarrow> NewerStateImpact" where
  "impact_discarding x bytes = x\<lparr>nx_discarded_bytes := Some bytes\<rparr>"

definition losses :: "NewerStateImpact \<Rightarrow> NewerStateItem list" where
  "losses x = filter (\<lambda>i. is_loss (ni_class i)) (nx_items x)"

definition preserved :: "NewerStateImpact \<Rightarrow> NewerStateItem list" where
  "preserved x = filter (\<lambda>i. ni_class i = PreservedByMethod) (nx_items x)"

definition requires_destructive_acceptance :: "NewerStateImpact \<Rightarrow> bool" where
  "requires_destructive_acceptance x \<longleftrightarrow>
     \<not> nx_complete x \<or> nx_destroyed_assets x \<noteq> [] \<or>
     list_ex (\<lambda>i. requires_acceptance (ni_class i)) (nx_items x)"

record UnrecoverableEffect =
  ue_subject :: ustr
  ue_domain :: EffectDomain
  ue_reason :: sentence
  ue_compensation :: "ustr option"

definition unrecoverable_new :: "ustr \<Rightarrow> EffectDomain \<Rightarrow> sentence \<Rightarrow> UnrecoverableEffect" where
  "unrecoverable_new subject domain reason =
     \<lparr>ue_subject = subject, ue_domain = domain, ue_reason = reason, ue_compensation = None\<rparr>"

definition ue_compensated_by :: "UnrecoverableEffect \<Rightarrow> ustr \<Rightarrow> UnrecoverableEffect" where
  "ue_compensated_by u action = u\<lparr>ue_compensation := Some action\<rparr>"

record MetadataCoverage =
  md_content :: bool
  md_mode :: bool
  md_owner :: bool
  md_acl :: bool
  md_xattrs :: bool
  md_capabilities :: bool
  md_selinux :: bool
  md_hardlinks :: bool

definition metadata_none :: MetadataCoverage where
  "metadata_none = \<lparr>md_content = False, md_mode = False, md_owner = False, md_acl = False,
     md_xattrs = False, md_capabilities = False, md_selinux = False, md_hardlinks = False\<rparr>"

definition content_only :: MetadataCoverage where
  "content_only = metadata_none\<lparr>md_content := True\<rparr>"

definition metadata_pieces :: "MetadataCoverage \<Rightarrow> (bool \<times> string) list" where
  "metadata_pieces m =
     [(md_content m, ''content''), (md_mode m, ''mode''), (md_owner m, ''owner/group''),
      (md_acl m, ''ACLs''), (md_xattrs m, ''extended attributes''),
      (md_capabilities m, ''file capabilities''), (md_selinux m, ''SELinux labels''),
      (md_hardlinks m, ''hard-link relationships'')]"

definition gaps_of_metadata :: "MetadataCoverage \<Rightarrow> string list" where
  "gaps_of_metadata m = map snd (filter (\<lambda>(present, _). \<not> present) (metadata_pieces m))"

datatype DirectoryRestorePolicy = KeepExtraFiles | ExactTree

record RecoveryPlanFragment =
  fr_provider :: ustr
  fr_method :: RestoreMethod
  fr_actions :: "plan_action list"
  fr_newer_state :: NewerStateImpact
  fr_unrecoverable :: "UnrecoverableEffect list"
  fr_verification :: "VerificationContract list"
  fr_captured :: "(ustr \<times> ustr) list"
  fr_metadata :: MetadataCoverage
  fr_directory_policy :: DirectoryRestorePolicy
  fr_requires_reboot :: bool
  fr_requires_offline :: bool

definition fragment_new :: "ustr \<Rightarrow> RestoreMethod \<Rightarrow> RecoveryPlanFragment" where
  "fragment_new provider method =
     \<lparr>fr_provider = provider, fr_method = method, fr_actions = [], fr_newer_state = unanalysed,
      fr_unrecoverable = [], fr_verification = [], fr_captured = [], fr_metadata = metadata_none,
      fr_directory_policy = KeepExtraFiles, fr_requires_reboot = False, fr_requires_offline = False\<rparr>"

record 'i RecoveryPlan =
  rv_plan :: "'i Plan"
  rv_source_plan :: "ustr option"
  rv_source_assets :: "ustr list"
  rv_goal :: RecoveryGoal
  rv_method :: RestoreMethod
  rv_target_state :: ustr
  rv_restores :: "ustr list"
  rv_newer_state :: NewerStateImpact
  rv_unrecoverable :: "UnrecoverableEffect list"
  rv_metadata :: MetadataCoverage
  rv_directory_policy :: DirectoryRestorePolicy
  rv_requires_reboot :: bool
  rv_requires_offline :: bool
  rv_destructive_accepted :: bool

definition recovery_new :: "'i Plan \<Rightarrow> RecoveryGoal \<Rightarrow> RestoreMethod \<Rightarrow> ustr \<Rightarrow> 'i RecoveryPlan" where
  "recovery_new plan goal method state =
     \<lparr>rv_plan = as_recovery plan, rv_source_plan = None, rv_source_assets = [], rv_goal = goal,
      rv_method = method, rv_target_state = state, rv_restores = [], rv_newer_state = unanalysed,
      rv_unrecoverable = [], rv_metadata = metadata_none, rv_directory_policy = KeepExtraFiles,
      rv_requires_reboot = False, rv_requires_offline = False, rv_destructive_accepted = False\<rparr>"

definition destruction_accepted :: "'i RecoveryPlan \<Rightarrow> 'i RecoveryPlan" where
  "destruction_accepted rv = rv\<lparr>rv_destructive_accepted := True\<rparr>"

definition needs_destructive_acceptance :: "'i RecoveryPlan \<Rightarrow> bool" where
  "needs_destructive_acceptance rv \<longleftrightarrow>
     requires_destructive_acceptance (rv_newer_state rv) \<and> \<not> rv_destructive_accepted rv"

definition recovery_is_complete :: "'i RecoveryPlan \<Rightarrow> bool" where
  "recovery_is_complete rv \<longleftrightarrow> rv_unrecoverable rv = [] \<and> nx_complete (rv_newer_state rv)"

definition goal_satisfied :: "RecoveryGoal \<Rightarrow> RestoreMethod \<Rightarrow> bool" where
  "goal_satisfied goal m \<longleftrightarrow>
     (case goal of
        RestoreChangedObjects \<Rightarrow> m \<in> {ProviderNativeRestore, SelectiveFileRestore, CloneAndCopy,
          SubvolumeReplacement, DatasetRollback, OfflineRootRecovery}
      | RestoreDomain \<Rightarrow> m \<in> {SubvolumeReplacement, DatasetRollback, OfflineRootRecovery}
      | CompensateSemantics \<Rightarrow> m \<in> {Compensation}
      | RestoreServiceHealth \<Rightarrow> m \<in> {Compensation, ProviderNativeRestore})"

definition choose_method :: "RecoveryGoal \<Rightarrow> RestoreMethod list \<Rightarrow> RestoreMethod option" where
  "choose_method goal candidates =
     (case sort_key destructiveness (filter (goal_satisfied goal) candidates) of
        [] \<Rightarrow> None | m # _ \<Rightarrow> Some m)"

section \<open>The newer state of the restore scope\<close>

datatype ObservedState =
    Present "int option" ustr
  | Absent "int option"
  | Unestablished ustr

fun observed_changed_at :: "ObservedState \<Rightarrow> int option" where
  "observed_changed_at (Present at _) = at"
| "observed_changed_at (Absent at) = at"
| "observed_changed_at (Unestablished _) = None"

fun observed_digest :: "ObservedState \<Rightarrow> ustr option" where
  "observed_digest (Present _ digest) = Some digest"
| "observed_digest (Absent _) = None"
| "observed_digest (Unestablished _) = None"

record ObjectObservation =
  ob_object :: ustr
  ob_state :: ObservedState

record ConflictRequest =
  cf_method :: RestoreMethod
  cf_captured_at :: int
  cf_applied_at :: "int option"
  cf_observations :: "ObjectObservation list"
  cf_captured :: "(ustr \<times> ustr) list"
  cf_restore_set :: "ustr list"
  cf_directory_policy :: DirectoryRestorePolicy
  cf_destroyed_assets :: "ustr list"
  cf_discarded_bytes :: "nat option"

definition conflict_new :: "RestoreMethod \<Rightarrow> int \<Rightarrow> ObjectObservation list \<Rightarrow> ConflictRequest" where
  "conflict_new method captured_at observations =
     \<lparr>cf_method = method, cf_captured_at = captured_at, cf_applied_at = None,
      cf_observations = observations, cf_captured = [], cf_restore_set = [],
      cf_directory_policy = KeepExtraFiles, cf_destroyed_assets = [], cf_discarded_bytes = None\<rparr>"

definition captured_digest :: "ConflictRequest \<Rightarrow> ustr \<Rightarrow> ustr option" where
  "captured_digest rq object = map_option snd (List.find (\<lambda>(name, _). name = object) (cf_captured rq))"

definition restores :: "ConflictRequest \<Rightarrow> ustr \<Rightarrow> bool" where
  "restores rq object \<longleftrightarrow> list_ex (\<lambda>name. name = object) (cf_restore_set rq)"

definition under_restored_directory :: "ConflictRequest \<Rightarrow> ustr \<Rightarrow> bool" where
  "under_restored_directory rq object \<longleftrightarrow>
     list_ex (\<lambda>directory. length object > length directory \<and> starts_with directory object \<and>
        starts_with [47] (drop (length directory) object)) (cf_restore_set rq)"

text \<open>Whether the object changed since the asset; nothing where that could not be established.\<close>

definition changed_since :: "ConflictRequest \<Rightarrow> ObjectObservation \<Rightarrow> bool option" where
  "changed_since rq ob =
     (case (captured_digest rq (ob_object ob), observed_digest (ob_state ob)) of
        (Some captured, Some current) \<Rightarrow> Some (captured \<noteq> current)
      | (Some _, None) \<Rightarrow> Some True
      | (None, _) \<Rightarrow>
          (case observed_changed_at (ob_state ob) of
             Some at \<Rightarrow> Some (at > cf_captured_at rq)
           | None \<Rightarrow> None))"

definition at_phrase :: "int option \<Rightarrow> sentence list" where
  "at_phrase at = (case at of None \<Rightarrow> [] | Some t \<Rightarrow> [Format ''made at'' [Say (show_int t)]])"

definition restored_object_item :: "ConflictRequest \<Rightarrow> ustr \<Rightarrow> int option \<Rightarrow> NewerStateItem option" where
  "restored_object_item rq object at =
     (if (case (cf_applied_at rq, at) of (Some applied, Some t) \<Rightarrow> t \<le> applied | _ \<Rightarrow> False)
      then None
      else Some (item_new object Conflicting
        (Format ''recovery would discard the edit'' (at_phrase at))))"

text \<open>What happens to an object that changed.\<close>

definition newer_item :: "ConflictRequest \<Rightarrow> ustr \<Rightarrow> int option \<Rightarrow> NewerStateItem option" where
  "newer_item rq object at =
     (if restores rq object then restored_object_item rq object at
      else if discards_newer_state (cf_method rq)
      then Some (item_new object DiscardedByMethod
        (Format ''rewinds the whole domain'' (Say (asc (RestoreMethod_as_str (cf_method rq))) # at_phrase at)))
      else if cf_directory_policy rq = ExactTree \<and> under_restored_directory rq object
      then Some (item_new object DiscardedByMethod
        (Format ''the objective asked for exact-tree equivalence'' []))
      else Some (item_new object PreservedByMethod
        (Format ''outside the restore set'' [Say (asc (RestoreMethod_as_str (cf_method rq)))])))"

definition classify_observation :: "ConflictRequest \<Rightarrow> ObjectObservation \<Rightarrow> NewerStateItem option" where
  "classify_observation rq ob =
     (let object = ob_object ob; at = observed_changed_at (ob_state ob) in
      case ob_state ob of
        Unestablished reason \<Rightarrow>
          Some (item_new object NewerUnknown
            (Format ''the current state could not be established'' [Say object, Say reason]))
      | _ \<Rightarrow>
          (case changed_since rq ob of
             None \<Rightarrow> Some (item_new object NewerUnknown
               (Format ''whether it changed since the recovery point could not be established'' [Say object]))
           | Some False \<Rightarrow> None
           | Some True \<Rightarrow>
               map_option (\<lambda>item. case at of None \<Rightarrow> item | Some t \<Rightarrow> item\<lparr>ni_changed_at := Some t\<rparr>)
                 (newer_item rq object at)))"

definition analyse_conflicts :: "ConflictRequest \<Rightarrow> NewerStateImpact" where
  "analyse_conflicts rq =
     (let impact = analysed (List.map_filter (classify_observation rq) (cf_observations rq));
          destroyed = foldl impact_destroying impact (cf_destroyed_assets rq)
      in case cf_discarded_bytes rq of None \<Rightarrow> destroyed | Some n \<Rightarrow> impact_discarding destroyed n)"

section \<open>The gate\<close>

definition recovery_plan_incomplete :: "string \<Rightarrow> sentence list \<Rightarrow> ErrorValue" where
  "recovery_plan_incomplete missing details =
     refusal_with ''recovery.plan_incomplete'' (Say (asc missing) # details)"

definition destroyed_objects :: "'i RecoveryPlan \<Rightarrow> ustr list" where
  "destroyed_objects rv = nx_destroyed_assets (rv_newer_state rv)"

definition conflicting_objects :: "'i RecoveryPlan \<Rightarrow> sentence list" where
  "conflicting_objects rv =
     map (\<lambda>i. Format ''object'' [Say (ni_object i), ni_detail i]) (losses (rv_newer_state rv))"

definition unestablished_objects :: "'i RecoveryPlan \<Rightarrow> sentence list" where
  "unestablished_objects rv =
     map (\<lambda>i. Format ''object'' [Say (ni_object i), ni_detail i])
       (filter (\<lambda>i. ni_class i = NewerUnknown) (nx_items (rv_newer_state rv)))"

definition gate_check :: "'i RecoveryPlan \<Rightarrow> ErrorValue option" where
  "gate_check rv =
     (if \<not> nx_complete (rv_newer_state rv)
      then Some (recovery_plan_incomplete
        ''what this recovery would do to state written since the recovery point'' [])
      else if unestablished_objects rv \<noteq> []
      then Some (recovery_plan_incomplete
        ''the current state of every object in the restore scope'' (unestablished_objects rv))
      else if \<not> needs_destructive_acceptance rv then None
      else if destroyed_objects rv \<noteq> []
      then Some (refusal_with ''recovery.destructive_history_not_accepted'' (map Say (destroyed_objects rv)))
      else if conflicting_objects rv \<noteq> []
      then Some (refusal_with ''recovery.newer_state_conflict'' (conflicting_objects rv))
      else None)"

section \<open>Offers of restore methods\<close>

record MethodOffer =
  mo_provider :: ustr
  mo_asset :: ustr
  mo_reference :: ustr
  mo_fragment :: RecoveryPlanFragment
  mo_preserves :: "ustr list"

definition offer_new :: "ustr \<Rightarrow> ustr \<Rightarrow> ustr \<Rightarrow> RecoveryPlanFragment \<Rightarrow> MethodOffer" where
  "offer_new provider asset reference fragment =
     \<lparr>mo_provider = provider, mo_asset = asset, mo_reference = reference, mo_fragment = fragment,
      mo_preserves = []\<rparr>"

definition preserving :: "MethodOffer \<Rightarrow> ustr \<Rightarrow> MethodOffer" where
  "preserving m semantic = m\<lparr>mo_preserves := mo_preserves m @ [semantic]\<rparr>"

abbreviation offer_method :: "MethodOffer \<Rightarrow> RestoreMethod" where
  "offer_method m \<equiv> fr_method (mo_fragment m)"

record MethodOffers =
  mf_offers :: "MethodOffer list"
  mf_refusals :: "ProviderRefusal list"

definition offers_conclusive :: "MethodOffers \<Rightarrow> bool" where
  "offers_conclusive m \<longleftrightarrow> mf_refusals m = []"

text \<open>What the providers would plan is the argument \<open>planner\<close>, by provider.\<close>

type_synonym 'i planner =
  "ustr \<Rightarrow> RecoveryAsset \<Rightarrow> 'i Plan option \<Rightarrow> RecoveryGoal \<Rightarrow> ErrorValue + RecoveryPlanFragment"

definition offers_refusing :: "MethodOffers \<Rightarrow> ustr \<Rightarrow> sentence \<Rightarrow> ErrorValue \<Rightarrow> MethodOffers" where
  "offers_refusing m provider reason e =
     m\<lparr>mf_refusals := mf_refusals m @ [\<lparr>rf_provider = provider, rf_reason = reason, rf_error = e\<rparr>]\<rparr>"

definition offer_of ::
    "registry \<Rightarrow> 'i planner \<Rightarrow> 'i Plan option \<Rightarrow> RecoveryGoal \<Rightarrow> RecoveryAsset \<Rightarrow> MethodOffers \<Rightarrow> MethodOffers" where
  "offer_of registry planner source goal asset answer =
     (case registry_get registry (as_provider asset) of
        None \<Rightarrow>
          let reason = Format ''no provider with this id is registered'' [Say (as_reference asset)]
          in offers_refusing answer (as_provider asset) reason (provider_unavailable (as_provider asset) reason)
      | Some provider \<Rightarrow>
          if \<not> is_available (rp_availability provider)
          then let reason = Say (case availability_reason (rp_availability provider) of
                     None \<Rightarrow> asc ''the provider did not say why'' | Some r \<Rightarrow> r)
               in offers_refusing answer (rp_id provider) reason (provider_unavailable (rp_id provider) reason)
          else (case planner (rp_id provider) asset source goal of
                  Inr fragment \<Rightarrow> answer\<lparr>mf_offers := mf_offers answer @
                    [offer_new (rp_id provider) (as_id asset) (as_reference asset) fragment]\<rparr>
                | Inl e \<Rightarrow> offers_refusing answer (rp_id provider) (ev_message e) e))"

definition offers ::
    "registry \<Rightarrow> 'i planner \<Rightarrow> RecoveryAsset list \<Rightarrow> 'i Plan option \<Rightarrow> RecoveryGoal \<Rightarrow> MethodOffers" where
  "offers registry planner assets source goal =
     fold (offer_of registry planner source goal) assets \<lparr>mf_offers = [], mf_refusals = []\<rparr>"

section \<open>Choosing a method\<close>

datatype MethodRejection = GoalUnsatisfied | MetadataShortfall | SemanticShortfall | Dominated

fun MethodRejection_as_str :: "MethodRejection \<Rightarrow> string" where
  "MethodRejection_as_str GoalUnsatisfied = ''goal-unsatisfied''"
| "MethodRejection_as_str MetadataShortfall = ''metadata-shortfall''"
| "MethodRejection_as_str SemanticShortfall = ''semantic-shortfall''"
| "MethodRejection_as_str Dominated = ''dominated''"

record RejectedMethod =
  rj_provider :: ustr
  rj_method :: RestoreMethod
  rj_reason :: MethodRejection
  rj_unmet :: "ustr list"
  rj_detail :: sentence

record MethodRequest =
  mq_goal :: RecoveryGoal
  mq_offers :: MethodOffers
  mq_required_metadata :: MetadataCoverage
  mq_required_semantics :: "ustr list"
  mq_forced :: "ustr option"

definition method_request_new :: "RecoveryGoal \<Rightarrow> MethodOffers \<Rightarrow> MethodRequest" where
  "method_request_new goal os =
     \<lparr>mq_goal = goal, mq_offers = os, mq_required_metadata = content_only, mq_required_semantics = [],
      mq_forced = None\<rparr>"

record MethodSelection =
  ms_chosen :: MethodOffer
  ms_rejected :: "RejectedMethod list"

definition metadata_gaps :: "MethodSelection \<Rightarrow> string list" where
  "metadata_gaps s = gaps_of_metadata (fr_metadata (mo_fragment (ms_chosen s)))"

definition unmet_metadata :: "MetadataCoverage \<Rightarrow> MetadataCoverage \<Rightarrow> string list" where
  "unmet_metadata wanted given =
     List.map_filter (\<lambda>((wanted, name), (present, _)). if wanted \<and> \<not> present then Some name else None)
       (zip (metadata_pieces wanted) (metadata_pieces given))"

definition unmet_semantics :: "ustr list \<Rightarrow> ustr list \<Rightarrow> ustr list" where
  "unmet_semantics required kept = filter (\<lambda>wanted. \<not> list_ex (\<lambda>k. k = wanted) kept) required"

definition dominated :: "MethodOffer \<Rightarrow> sentence \<Rightarrow> RejectedMethod" where
  "dominated m detail =
     \<lparr>rj_provider = mo_provider m, rj_method = offer_method m, rj_reason = Dominated, rj_unmet = [],
      rj_detail = detail\<rparr>"

definition unknown_method :: "ustr \<Rightarrow> ErrorValue" where
  "unknown_method name =
     refusal_with ''change.action_not_plannable''
       (Say name # map (\<lambda>m. Say (asc (RestoreMethod_as_str m))) RestoreMethod_ALL)"

definition nothing_meets_the_goal :: "MethodRequest \<Rightarrow> RejectedMethod list \<Rightarrow> ErrorValue" where
  "nothing_meets_the_goal rq rejections =
     recovery_plan_incomplete ''a restore method that meets the recovery goal''
       (Say (show_nat (length (mf_offers (mq_offers rq)))) #
        Say (asc (RecoveryGoal_as_str (mq_goal rq))) #
        map rj_detail rejections @
        map (\<lambda>r. Format ''could not be asked'' [Say (rf_provider r), rf_reason r]) (mf_refusals (mq_offers rq)))"

text \<open>Why an offer cannot be used, or nothing where it can.\<close>

definition rejection_of :: "MethodRequest \<Rightarrow> RestoreMethod option \<Rightarrow> MethodOffer \<Rightarrow> RejectedMethod option" where
  "rejection_of rq forced m =
     (if (case forced of None \<Rightarrow> False | Some method \<Rightarrow> offer_method m \<noteq> method)
      then Some (dominated m (Format ''the operator named a different method'' []))
      else if choose_method (mq_goal rq) [offer_method m] = None
      then Some \<lparr>rj_provider = mo_provider m, rj_method = offer_method m, rj_reason = GoalUnsatisfied,
        rj_unmet = [asc (RecoveryGoal_as_str (mq_goal rq))], rj_detail = Format ''cannot achieve''
          [Say (asc (RestoreMethod_as_str (offer_method m))), Say (asc (RecoveryGoal_as_str (mq_goal rq)))]\<rparr>
      else
        let metadata = unmet_metadata (mq_required_metadata rq) (fr_metadata (mo_fragment m)) in
        if metadata \<noteq> []
        then Some \<lparr>rj_provider = mo_provider m, rj_method = offer_method m, rj_reason = MetadataShortfall,
          rj_unmet = map asc metadata, rj_detail = Format ''does not restore''
            (Say (asc (RestoreMethod_as_str (offer_method m))) # map (\<lambda>n. Say (asc n)) metadata)\<rparr>
        else
          let semantics = unmet_semantics (mq_required_semantics rq) (mo_preserves m) in
          if semantics \<noteq> []
          then Some \<lparr>rj_provider = mo_provider m, rj_method = offer_method m, rj_reason = SemanticShortfall,
            rj_unmet = semantics, rj_detail = Format ''cannot preserve''
              (Say (asc (RestoreMethod_as_str (offer_method m))) # map Say semantics)\<rparr>
          else None)"

fun walk_offers ::
    "MethodRequest \<Rightarrow> RestoreMethod option \<Rightarrow> MethodOffer list \<Rightarrow> MethodOffer list \<times> RejectedMethod list" where
  "walk_offers rq forced [] = ([], [])"
| "walk_offers rq forced (m # ms) =
     (case walk_offers rq forced ms of (acceptable, rejected) \<Rightarrow>
        (case rejection_of rq forced m of
           Some r \<Rightarrow> (acceptable, r # rejected)
         | None \<Rightarrow> (m # acceptable, rejected)))"

fun take_winner ::
    "RestoreMethod \<Rightarrow> MethodOffer list \<Rightarrow> MethodOffer option \<Rightarrow> MethodOffer option \<times> RejectedMethod list" where
  "take_winner winner [] chosen = (chosen, [])"
| "take_winner winner (m # ms) chosen =
     (if chosen = None \<and> offer_method m = winner then take_winner winner ms (Some m)
      else (case take_winner winner ms chosen of (c, rejected) \<Rightarrow>
              (c, dominated m (Format ''reaches the same goal and risks less unrelated state''
                     [Say (asc (RestoreMethod_as_str winner))]) # rejected)))"

definition select_with :: "MethodRequest \<Rightarrow> RestoreMethod option \<Rightarrow> ErrorValue + MethodSelection" where
  "select_with rq forced =
     (case walk_offers rq forced (mf_offers (mq_offers rq)) of (acceptable, rejected) \<Rightarrow>
        (case choose_method (mq_goal rq) (map offer_method acceptable) of
           None \<Rightarrow> Inl (nothing_meets_the_goal rq rejected)
         | Some winner \<Rightarrow>
             (case take_winner winner acceptable None of
                (Some chosen, dominations) \<Rightarrow> Inr \<lparr>ms_chosen = chosen, ms_rejected = rejected @ dominations\<rparr>
              | (None, _) \<Rightarrow> Inl (nothing_meets_the_goal rq []))))"

definition select_method :: "MethodRequest \<Rightarrow> ErrorValue + MethodSelection" where
  "select_method rq =
     (case mq_forced rq of
        None \<Rightarrow> select_with rq None
      | Some name \<Rightarrow>
          (case RestoreMethod_from_name name of
             None \<Rightarrow> Inl (unknown_method name)
           | Some method \<Rightarrow> select_with rq (Some method)))"

section \<open>What the analysis finds\<close>

text \<open>
  An observed object that the recovery leaves as it is: its state is known, and it did not change
  since the asset, or the change is the plan's own, or the method does not touch it.
\<close>

definition is_established :: "ObservedState \<Rightarrow> bool" where
  "is_established s \<longleftrightarrow> (case s of Unestablished _ \<Rightarrow> False | _ \<Rightarrow> True)"

definition own_write :: "ConflictRequest \<Rightarrow> ObjectObservation \<Rightarrow> bool" where
  "own_write rq ob \<longleftrightarrow>
     (\<exists>applied t. cf_applied_at rq = Some applied \<and> observed_changed_at (ob_state ob) = Some t \<and> t \<le> applied)"

definition left_alone :: "ConflictRequest \<Rightarrow> ObjectObservation \<Rightarrow> bool" where
  "left_alone rq ob \<longleftrightarrow>
     is_established (ob_state ob) \<and>
     (changed_since rq ob = Some False \<or>
      changed_since rq ob = Some True \<and>
        (if ob_object ob \<in> set (cf_restore_set rq) then own_write rq ob
         else \<not> discards_newer_state (cf_method rq) \<and>
           \<not> (cf_directory_policy rq = ExactTree \<and> under_restored_directory rq (ob_object ob))))"

lemma restores_iff [simp]: "restores rq object \<longleftrightarrow> object \<in> set (cf_restore_set rq)"
  by (auto simp: restores_def list_ex_iff)

lemma classified_class:
  "\<not> left_alone rq ob \<Longrightarrow> \<exists>i. classify_observation rq ob = Some i \<and> ni_class i \<noteq> PreservedByMethod"
  "classify_observation rq ob = Some i \<Longrightarrow> left_alone rq ob \<Longrightarrow> ni_class i = PreservedByMethod"
  by (auto simp: classify_observation_def left_alone_def is_established_def newer_item_def
      restored_object_item_def own_write_def item_new_def Let_def
      split: ObservedState.splits option.splits bool.splits if_splits)

lemma classified_object: "classify_observation rq ob = Some i \<Longrightarrow> ni_object i = ob_object ob"
  by (auto simp: classify_observation_def newer_item_def restored_object_item_def item_new_def Let_def
      split: ObservedState.splits option.splits bool.splits if_splits)

lemma foldl_destroying:
  "nx_items (foldl impact_destroying x ds) = nx_items x"
  "nx_complete (foldl impact_destroying x ds) = nx_complete x"
  "nx_destroyed_assets (foldl impact_destroying x ds) = nx_destroyed_assets x @ ds"
  "nx_discarded_bytes (foldl impact_destroying x ds) = nx_discarded_bytes x"
  by (induction ds arbitrary: x) (simp_all add: impact_destroying_def)

lemma analyse_conflicts_parts:
  "nx_items (analyse_conflicts rq) = List.map_filter (classify_observation rq) (cf_observations rq)"
  "nx_complete (analyse_conflicts rq)"
  "nx_destroyed_assets (analyse_conflicts rq) = cf_destroyed_assets rq"
  "nx_discarded_bytes (analyse_conflicts rq) = cf_discarded_bytes rq"
  by (simp_all add: analyse_conflicts_def foldl_destroying analysed_def impact_discarding_def Let_def
      split: option.splits)

lemma map_filter_members: "set (List.map_filter f xs) = {y. \<exists>x \<in> set xs. f x = Some y}"
  by (induction xs) (auto simp: split: option.splits)

lemma nothing_lost_iff:
  "(\<forall>i \<in> set (nx_items (analyse_conflicts rq)). ni_class i = PreservedByMethod) \<longleftrightarrow>
   (\<forall>ob \<in> set (cf_observations rq). left_alone rq ob)"
  unfolding analyse_conflicts_parts map_filter_members using classified_class by fastforce

section \<open>What the gate lets through\<close>

lemma class_cases:
  "is_loss c \<or> c = NewerUnknown \<longleftrightarrow> c \<noteq> PreservedByMethod" "requires_acceptance c \<longleftrightarrow> c \<noteq> PreservedByMethod"
  by (cases c; simp add: is_loss_def requires_acceptance_def)+

lemma gate_passes_iff:
  "gate_check rv = None \<longleftrightarrow>
     nx_complete (rv_newer_state rv) \<and>
     (\<forall>i \<in> set (nx_items (rv_newer_state rv)). ni_class i \<noteq> NewerUnknown) \<and>
     (rv_destructive_accepted rv \<or>
      nx_destroyed_assets (rv_newer_state rv) = [] \<and>
      (\<forall>i \<in> set (nx_items (rv_newer_state rv)). ni_class i = PreservedByMethod))"
  using class_cases
  by (auto simp: gate_check_def unestablished_objects_def destroyed_objects_def conflicting_objects_def
      needs_destructive_acceptance_def requires_destructive_acceptance_def losses_def filter_empty_conv list_ex_iff)

section \<open>The method chosen\<close>

lemma choose_method_None [simp]:
  "choose_method goal ms = None \<longleftrightarrow> (\<forall>m \<in> set ms. \<not> goal_satisfied goal m)"
proof -
  have "sort_key destructiveness (filter (goal_satisfied goal) ms) = [] \<longleftrightarrow> filter (goal_satisfied goal) ms = []"
    by (metis length_0_conv length_sort)
  then show ?thesis by (auto simp: choose_method_def filter_empty_conv split: list.splits)
qed

lemma choose_method_Some:
  assumes "choose_method goal ms = Some m"
  shows "m \<in> set ms" "goal_satisfied goal m"
    and "\<And>n. n \<in> set ms \<Longrightarrow> goal_satisfied goal n \<Longrightarrow> destructiveness m \<le> destructiveness n"
proof -
  let ?us = "filter (goal_satisfied goal) ms"
  obtain rest where sorted: "sort_key destructiveness ?us = m # rest"
    using assms by (auto simp: choose_method_def split: list.splits)
  have "set (m # rest) = set ?us" using sorted by (metis set_sort)
  then show "m \<in> set ms" "goal_satisfied goal m" by auto
  fix n assume n: "n \<in> set ms" "goal_satisfied goal n"
  have "sorted (map destructiveness (m # rest))" using sorted by (metis sorted_sort_key)
  moreover have "n \<in> set (m # rest)" using \<open>set (m # rest) = set ?us\<close> n by auto
  ultimately show "destructiveness m \<le> destructiveness n" by auto
qed

text \<open>An offer that meets everything a request asks for.\<close>

definition meets_request :: "MethodRequest \<Rightarrow> MethodOffer \<Rightarrow> bool" where
  "meets_request rq m \<longleftrightarrow>
     goal_satisfied (mq_goal rq) (offer_method m) \<and>
     list_all2 (\<lambda>(wanted, _) (present, _). wanted \<longrightarrow> present)
       (metadata_pieces (mq_required_metadata rq)) (metadata_pieces (fr_metadata (mo_fragment m))) \<and>
     set (mq_required_semantics rq) \<subseteq> set (mo_preserves m) \<and>
     (case mq_forced rq of None \<Rightarrow> True | Some name \<Rightarrow> asc (RestoreMethod_as_str (offer_method m)) = name)"

lemma unmet_metadata_iff:
  "unmet_metadata wanted given = [] \<longleftrightarrow>
   list_all2 (\<lambda>(wanted, _) (present, _). wanted \<longrightarrow> present) (metadata_pieces wanted) (metadata_pieces given)"
  by (simp add: unmet_metadata_def metadata_pieces_def)

lemma unmet_semantics_iff: "unmet_semantics required kept = [] \<longleftrightarrow> set required \<subseteq> set kept"
  by (auto simp: unmet_semantics_def filter_empty_conv list_ex_iff)

lemma method_str_inj [simp]: "RestoreMethod_as_str m = RestoreMethod_as_str n \<longleftrightarrow> m = n"
  by (cases m; cases n; simp)

lemma from_name_Some: "RestoreMethod_from_name name = Some m \<longleftrightarrow> asc (RestoreMethod_as_str m) = name"
proof -
  have all: "m \<in> set RestoreMethod_ALL" for m by (cases m) (simp_all add: RestoreMethod_ALL_def)
  have "List.find (\<lambda>m. asc (RestoreMethod_as_str m) = name) xs = Some m \<longleftrightarrow>
      m \<in> set xs \<and> asc (RestoreMethod_as_str m) = name" for xs
    by (induction xs) auto
  then show ?thesis by (simp add: RestoreMethod_from_name_def all)
qed

definition forced_matches :: "MethodRequest \<Rightarrow> RestoreMethod option \<Rightarrow> bool" where
  "forced_matches rq forced \<longleftrightarrow>
     (case mq_forced rq of None \<Rightarrow> forced = None
      | Some name \<Rightarrow> (case forced of None \<Rightarrow> False | Some m \<Rightarrow> asc (RestoreMethod_as_str m) = name))"

lemma rejection_None_iff:
  assumes "forced_matches rq forced"
  shows "rejection_of rq forced m = None \<longleftrightarrow> meets_request rq m"
  using assms
  by (auto simp: rejection_of_def meets_request_def forced_matches_def unmet_metadata_iff
      unmet_semantics_iff Let_def split: option.splits)

abbreviation offer_key :: "MethodOffer \<Rightarrow> ustr \<times> RestoreMethod" where
  "offer_key m \<equiv> (mo_provider m, offer_method m)"

abbreviation rejected_key :: "RejectedMethod \<Rightarrow> ustr \<times> RestoreMethod" where
  "rejected_key r \<equiv> (rj_provider r, rj_method r)"

lemma rejection_key: "rejection_of rq forced m = Some r \<Longrightarrow> rejected_key r = offer_key m"
  by (auto simp: rejection_of_def dominated_def Let_def split: option.splits if_splits)

lemma walk_offers_parts:
  assumes "walk_offers rq forced ms = (acceptable, rejected)"
  shows "acceptable = filter (\<lambda>m. rejection_of rq forced m = None) ms"
    and "mset (map rejected_key rejected) + mset (map offer_key acceptable) = mset (map offer_key ms)"
  using assms
  by (induction ms arbitrary: acceptable rejected)
    (auto split: option.splits prod.splits simp: rejection_key)

lemma dominated_key [simp]:
  "rj_provider (dominated m d) = mo_provider m" "rj_method (dominated m d) = offer_method m"
  by (simp_all add: dominated_def)

lemma take_winner_some:
  "take_winner w ms (Some c) =
     (Some c, map (\<lambda>m. dominated m (Format ''reaches the same goal and risks less unrelated state''
        [Say (asc (RestoreMethod_as_str w))])) ms)"
  by (induction ms) simp_all

lemma take_winner_none:
  assumes "take_winner w ms None = (c, rejected)" "w \<in> set (map offer_method ms)"
  shows "\<exists>m \<in> set ms. c = Some m \<and> offer_method m = w \<and>
    mset (map rejected_key rejected) + {#offer_key m#} = mset (map offer_key ms)"
  using assms
proof (induction ms arbitrary: c rejected)
  case (Cons m ms)
  show ?case
  proof (cases "offer_method m = w")
    case True
    then have "c = Some m" "map rejected_key rejected = map offer_key ms"
      using Cons.prems(1) by (auto simp: take_winner_some)
    then show ?thesis using True by (auto simp del: mset_map)
  next
    case False
    then obtain rest where "take_winner w ms None = (c, rest)"
      "rejected = dominated m (Format ''reaches the same goal and risks less unrelated state''
        [Say (asc (RestoreMethod_as_str w))]) # rest"
      using Cons.prems(1) by (auto split: prod.splits)
    with Cons.IH[of c rest] Cons.prems(2) False show ?thesis by auto
  qed
qed simp

lemma select_with_Inr:
  assumes "forced_matches rq forced" "select_with rq forced = Inr s"
  shows "ms_chosen s \<in> set (mf_offers (mq_offers rq))" "meets_request rq (ms_chosen s)"
    and "\<And>m. m \<in> set (mf_offers (mq_offers rq)) \<Longrightarrow> meets_request rq m \<Longrightarrow>
      destructiveness (offer_method (ms_chosen s)) \<le> destructiveness (offer_method m)"
    and "mset (map rejected_key (ms_rejected s)) + {#offer_key (ms_chosen s)#} =
      mset (map offer_key (mf_offers (mq_offers rq)))"
proof -
  obtain acceptable rejected where walk: "walk_offers rq forced (mf_offers (mq_offers rq)) = (acceptable, rejected)"
    by force
  obtain winner where win: "choose_method (mq_goal rq) (map offer_method acceptable) = Some winner"
    using assms(2) walk by (auto simp: select_with_def split: option.splits)
  obtain chosen dominations where taken: "take_winner winner acceptable None = (Some chosen, dominations)"
    and s: "s = \<lparr>ms_chosen = chosen, ms_rejected = rejected @ dominations\<rparr>"
    using assms(2) walk win by (auto simp: select_with_def split: option.splits prod.splits)
  note best = choose_method_Some[OF win]
  from take_winner_none[OF taken best(1)] have chosen: "chosen \<in> set acceptable" "offer_method chosen = winner"
    "mset (map rejected_key dominations) + {#offer_key chosen#} = mset (map offer_key acceptable)" by auto
  have acceptable: "set acceptable = {m \<in> set (mf_offers (mq_offers rq)). meets_request rq m}"
    using walk_offers_parts(1)[OF walk] rejection_None_iff[OF assms(1)] by auto
  show "ms_chosen s \<in> set (mf_offers (mq_offers rq))" "meets_request rq (ms_chosen s)"
    using chosen(1) acceptable s by auto
  show "destructiveness (offer_method (ms_chosen s)) \<le> destructiveness (offer_method m)"
    if "m \<in> set (mf_offers (mq_offers rq))" "meets_request rq m" for m
    using best(3)[of "offer_method m"] acceptable that chosen(2) s by (auto simp: meets_request_def)
  show "mset (map rejected_key (ms_rejected s)) + {#offer_key (ms_chosen s)#} =
      mset (map offer_key (mf_offers (mq_offers rq)))"
    unfolding walk_offers_parts(2)[OF walk, symmetric] chosen(3)[symmetric] s by (simp add: ac_simps)
qed

lemma select_with_Inl:
  assumes "forced_matches rq forced" "select_with rq forced = Inl e"
  shows "\<forall>m \<in> set (mf_offers (mq_offers rq)). \<not> meets_request rq m"
proof -
  obtain acceptable rejected where walk: "walk_offers rq forced (mf_offers (mq_offers rq)) = (acceptable, rejected)"
    by force
  have acceptable: "set acceptable = {m \<in> set (mf_offers (mq_offers rq)). meets_request rq m}"
    using walk_offers_parts(1)[OF walk] rejection_None_iff[OF assms(1)] by auto
  have "choose_method (mq_goal rq) (map offer_method acceptable) = None"
  proof (cases "choose_method (mq_goal rq) (map offer_method acceptable)")
    case (Some winner)
    note win = this
    from take_winner_none[OF _ choose_method_Some(1)[OF win]] have False
      using assms(2) walk win by (fastforce simp: select_with_def split: option.splits prod.splits)
    then show ?thesis ..
  qed
  then have "\<forall>m \<in> set acceptable. \<not> goal_satisfied (mq_goal rq) (offer_method m)" by auto
  then show ?thesis using acceptable by (auto simp: meets_request_def)
qed

lemma select_method_forced:
  "select_method rq = Inr s \<Longrightarrow> \<exists>forced. forced_matches rq forced \<and> select_with rq forced = Inr s"
  "select_method rq = Inl e \<Longrightarrow> (\<exists>forced. forced_matches rq forced \<and> select_with rq forced = Inl e) \<or>
     (\<exists>name. mq_forced rq = Some name \<and> RestoreMethod_from_name name = None)"
  by (auto simp: select_method_def forced_matches_def from_name_Some split: option.splits)

text \<open>
  C13: A recovery uses the least destructive method that can do the job.  The method selected is
  one that was offered, reaches the goal, puts back the metadata and keeps the semantics that are
  required, and is the one the operator named if one was named; no other offer that does all this
  is less destructive.  Every other offer is listed as rejected, none twice and none forgotten.
  A method is selected exactly when some offer meets the request.
\<close>

theorem least_destructive_method:
  "(select_method rq = Inr s \<longrightarrow>
      ms_chosen s \<in> set (mf_offers (mq_offers rq)) \<and> meets_request rq (ms_chosen s) \<and>
      (\<forall>m \<in> set (mf_offers (mq_offers rq)). meets_request rq m \<longrightarrow>
         destructiveness (offer_method (ms_chosen s)) \<le> destructiveness (offer_method m)) \<and>
      mset (map rejected_key (ms_rejected s)) + {#offer_key (ms_chosen s)#} =
        mset (map offer_key (mf_offers (mq_offers rq)))) \<and>
   ((\<exists>s. select_method rq = Inr s) \<longleftrightarrow> (\<exists>m \<in> set (mf_offers (mq_offers rq)). meets_request rq m))"
proof -
  have none: "\<not> meets_request rq m"
    if "mq_forced rq = Some name" "RestoreMethod_from_name name = None" for name m
    using that from_name_Some[of name "offer_method m"] by (simp add: meets_request_def)
  show ?thesis
  proof (cases "select_method rq")
    case (Inl e)
    then have "\<forall>m \<in> set (mf_offers (mq_offers rq)). \<not> meets_request rq m"
      using select_method_forced(2)[OF Inl] select_with_Inl none by blast
    then show ?thesis using Inl by auto
  next
    case (Inr t)
    then obtain forced where "forced_matches rq forced" "select_with rq forced = Inr t"
      using select_method_forced(1) by blast
    note parts = select_with_Inr[OF this]
    have "s = t" if "select_method rq = Inr s" using that Inr by simp
    with Inr parts show ?thesis by blast
  qed
qed

definition two_offers :: MethodOffers where
  "two_offers = \<lparr>mf_offers =
     [offer_new (asc ''zfs'') (asc ''a1'') (asc ''rpool@ono'') ((fragment_new (asc ''zfs'') DatasetRollback)\<lparr>fr_metadata := content_only\<rparr>),
      offer_new (asc ''files'') (asc ''a2'') (asc ''store'') ((fragment_new (asc ''files'') SelectiveFileRestore)\<lparr>fr_metadata := content_only\<rparr>)],
     mf_refusals = []\<rparr>"

lemma least_destructive_method_witness:
  "case select_method (method_request_new RestoreChangedObjects two_offers) of
     Inl _ \<Rightarrow> False
   | Inr s \<Rightarrow> offer_method (ms_chosen s) = SelectiveFileRestore \<and>
       ms_chosen s \<in> set (mf_offers two_offers) \<and> length (ms_rejected s) = 1"
proof -
  let ?rq = "method_request_new RestoreChangedObjects two_offers"
  let ?m = "offer_new (asc ''files'') (asc ''a2'') (asc ''store'') ((fragment_new (asc ''files'') SelectiveFileRestore)\<lparr>fr_metadata := content_only\<rparr>)"
  have m: "?m \<in> set (mf_offers (mq_offers ?rq))" "meets_request ?rq ?m"
    by (simp_all add: method_request_new_def two_offers_def meets_request_def offer_new_def fragment_new_def
        goal_satisfied_def metadata_pieces_def content_only_def metadata_none_def)
  then obtain s where s: "select_method ?rq = Inr s" using least_destructive_method[of ?rq] by blast
  note all = least_destructive_method[of ?rq s, THEN conjunct1, rule_format, OF s]
  have "destructiveness (offer_method (ms_chosen s)) \<le> 1"
    using all m by (force simp: offer_new_def fragment_new_def)
  moreover have "ms_chosen s \<in> set (mf_offers two_offers)" using all by (simp add: method_request_new_def)
  ultimately have "offer_method (ms_chosen s) = SelectiveFileRestore"
    by (auto simp: two_offers_def offer_new_def fragment_new_def)
  moreover have "size (mset (map rejected_key (ms_rejected s)) + {#offer_key (ms_chosen s)#}) = 2"
    using all by (simp add: method_request_new_def two_offers_def)
  ultimately show ?thesis using s \<open>ms_chosen s \<in> _\<close> by simp
qed

end
