(* ===== verification/Recovery_Builder.thy ===== *)
theory Recovery_Builder
  imports Recovery_Plan
begin

text \<open>
  Building a recovery plan (\<open>crates/ono-change-recovery/src/builder.rs\<close>), what may declare automatic
  recovery (\<open>auto.rs\<close>) and what a recovery is verified to have achieved (\<open>verify.rs\<close>).  The identities,
  the hash and the impact graph are arguments; the world is the observation function, as in the
  source.
\<close>

section \<open>The request\<close>

record 'i Makers =
  mk_plan_id :: "ustr \<Rightarrow> ustr \<Rightarrow> ustr \<Rightarrow> ustr"
  mk_action_id :: "ustr \<Rightarrow> nat \<Rightarrow> ustr \<Rightarrow> ustr"
  mk_check_id :: "ustr \<Rightarrow> ustr \<Rightarrow> ustr \<Rightarrow> ustr"
  mk_effect_id :: "ustr \<Rightarrow> ustr \<Rightarrow> ustr \<Rightarrow> ustr"
  mk_digest :: "ustr \<Rightarrow> ustr"
  mk_instant :: "int \<Rightarrow> ustr"
  mk_no_impact :: 'i
  mk_direct_impact :: "FrozenTarget list \<Rightarrow> 'i"

record 'i RecoveryRequest =
  rr_registry :: registry
  rr_planner :: "'i planner"
  rr_assets :: "RecoveryAsset list"
  rr_observe :: "ustr \<Rightarrow> ObservedState"
  rr_goal :: RecoveryGoal
  rr_session :: ustr
  rr_now :: int
  rr_source :: "'i Plan option"
  rr_applied_at :: "int option"
  rr_forced_method :: "ustr option"
  rr_required_metadata :: MetadataCoverage
  rr_required_semantics :: "ustr list"
  rr_restore_set :: "ustr list"
  rr_directory_policy :: "DirectoryRestorePolicy option"
  rr_captured :: "(ustr \<times> ustr) list"
  rr_destroyed_assets :: "ustr list"
  rr_discarded_bytes :: "nat option"
  rr_impact :: "(FrozenTarget list \<Rightarrow> plan_action list \<Rightarrow> 'i) option"

section \<open>What is restored and what is observed\<close>

definition dedupe :: "ustr list \<Rightarrow> ustr list" where
  "dedupe objects = fold (\<lambda>object kept. if object \<in> set kept then kept else kept @ [object]) objects []"

definition asset_usable :: "RecoveryAsset \<Rightarrow> ErrorValue option" where
  "asset_usable a =
     (case as_state a of
        AssetReady \<Rightarrow> None
      | AssetExpired \<Rightarrow> Some (refusal_with ''recovery.asset_expired'' [Say (as_id a),
          (case as_expires_at a of None \<Rightarrow> Say (asc ''an instant the store did not record'') | Some t \<Rightarrow> Say (show_int t))])
      | AssetRemoved \<Rightarrow> Some (asset_not_found (as_reference a))
      | AssetFailed \<Rightarrow> Some (asset_invalid (as_id a)
          [''the asset's creation did not succeed, so it holds no state to restore''])
      | AssetInvalid \<Rightarrow> Some (asset_invalid (as_id a)
          (case as_validation a of
             None \<Rightarrow> [''the asset exists and can no longer satisfy protection'']
           | Some v \<Rightarrow> if validation_failures v = []
               then [''the asset exists and can no longer satisfy protection''] else validation_failures v))
      | _ \<Rightarrow> Some (asset_invalid (as_id a) [''the asset has not been created and validated yet'']))"

definition covered :: "'i RecoveryRequest \<Rightarrow> ustr \<Rightarrow> bool" where
  "covered rr object \<longleftrightarrow> list_ex (\<lambda>a. covers_object (as_scope a) object) (rr_assets rr)"

definition plan_effects :: "'i Plan \<Rightarrow> Value ProposedEffect list" where
  "plan_effects p = concat (map effects (plan_actions p))"

definition changed_objects :: "'i RecoveryRequest \<Rightarrow> 'i Plan \<Rightarrow> ustr list" where
  "changed_objects rr source =
     filter (covered rr)
       (List.map_filter eff_object (filter (\<lambda>e. domain_is_persistent (eff_domain e)) (plan_effects source)))"

definition restore_set :: "'i RecoveryRequest \<Rightarrow> ustr list" where
  "restore_set rr =
     (if rr_restore_set rr \<noteq> [] then dedupe (rr_restore_set rr)
      else
        let changed = (case rr_source rr of None \<Rightarrow> [] | Some source \<Rightarrow> changed_objects rr source) in
        if changed \<noteq> [] then dedupe changed
        else dedupe (concat (map (\<lambda>a. sc_covers (as_scope a)) (rr_assets rr))))"

definition scope_objects :: "'i RecoveryRequest \<Rightarrow> ustr list \<Rightarrow> ustr list" where
  "scope_objects rr objects =
     sort (dedupe (objects @ concat (map (\<lambda>a. sc_covers (as_scope a)) (rr_assets rr))))"

definition observations :: "'i RecoveryRequest \<Rightarrow> ustr list \<Rightarrow> RecoveryPlanFragment \<Rightarrow> ObjectObservation list" where
  "observations rr objects fragment =
     map (\<lambda>object. \<lparr>ob_object = object, ob_state = rr_observe rr object\<rparr>)
       (filter (\<lambda>object. \<not> nx_complete (fr_newer_state fragment) \<or> starts_with [47] object)
         (scope_objects rr objects))"

definition destroyed_by :: "'i RecoveryRequest \<Rightarrow> MethodSelection \<Rightarrow> ustr list" where
  "destroyed_by rr s =
     (let established = fr_newer_state (mo_fragment (ms_chosen s)) in
      dedupe (rr_destroyed_assets rr @
        (if nx_complete established then nx_destroyed_assets established else [])))"

definition discarded_bytes :: "'i RecoveryRequest \<Rightarrow> MethodSelection \<Rightarrow> nat option" where
  "discarded_bytes rr s =
     (let established = fr_newer_state (mo_fragment (ms_chosen s)) in
      case rr_discarded_bytes rr of
        Some n \<Rightarrow> Some n
      | None \<Rightarrow> if nx_complete established then nx_discarded_bytes established else None)"

definition chosen_policy :: "'i RecoveryRequest \<Rightarrow> MethodSelection \<Rightarrow> DirectoryRestorePolicy" where
  "chosen_policy rr s =
     (case rr_directory_policy rr of Some p \<Rightarrow> p | None \<Rightarrow> fr_directory_policy (mo_fragment (ms_chosen s)))"

definition captured_at :: "'i RecoveryRequest \<Rightarrow> int" where
  "captured_at rr =
     (case map as_created_at (rr_assets rr) of [] \<Rightarrow> rr_now rr | t # ts \<Rightarrow> fold max ts t)"

definition conflict_request ::
    "'i RecoveryRequest \<Rightarrow> MethodSelection \<Rightarrow> ustr list \<Rightarrow> ObjectObservation list \<Rightarrow> ConflictRequest" where
  "conflict_request rr s objects obs =
     \<lparr>cf_method = offer_method (ms_chosen s), cf_captured_at = captured_at rr,
      cf_applied_at = rr_applied_at rr, cf_observations = obs,
      cf_captured = rr_captured rr @ fr_captured (mo_fragment (ms_chosen s)),
      cf_restore_set = objects, cf_directory_policy = chosen_policy rr s,
      cf_destroyed_assets = destroyed_by rr s, cf_discarded_bytes = discarded_bytes rr s\<rparr>"

fun add_provider_items ::
    "ObjectObservation list \<Rightarrow> NewerStateItem list \<Rightarrow> NewerStateItem list \<Rightarrow> NewerStateItem list" where
  "add_provider_items asked [] items = items"
| "add_provider_items asked (item # rest) items =
     add_provider_items asked rest
       (if \<not> list_ex (\<lambda>ob. ob_object ob = ni_object item) asked \<and>
           \<not> list_ex (\<lambda>kept. ni_object kept = ni_object item) items
        then items @ [item] else items)"

definition with_provider_items ::
    "NewerStateImpact \<Rightarrow> NewerStateImpact \<Rightarrow> ObjectObservation list \<Rightarrow> NewerStateImpact" where
  "with_provider_items observed provider asked =
     (if \<not> nx_complete provider then observed
      else
        let merged = foldl impact_destroying
              (analysed (add_provider_items asked (nx_items provider) (nx_items observed)))
              (nx_destroyed_assets observed)
        in case nx_discarded_bytes observed of None \<Rightarrow> merged | Some n \<Rightarrow> impact_discarding merged n)"

section \<open>What cannot be reversed\<close>

definition push_unique :: "UnrecoverableEffect list \<Rightarrow> UnrecoverableEffect \<Rightarrow> UnrecoverableEffect list" where
  "push_unique kept u =
     (if list_ex (\<lambda>k. ue_subject k = ue_subject u \<and> ue_domain k = ue_domain u) kept then kept else kept @ [u])"

definition classify_effect ::
    "Value ProposedEffect \<Rightarrow> ustr list \<Rightarrow> 'i RecoveryRequest \<Rightarrow> UnrecoverableEffect option" where
  "classify_effect e objects rr =
     (let subject = (case eff_object e of None \<Rightarrow> eff_explanation e | Some x \<Rightarrow> x);
          beyond = (\<lambda>reason. unrecoverable_new subject (eff_domain e) (Format reason []))
      in if eff_kind e = Emit
         then Some (case eff_compensation e of
                None \<Rightarrow> beyond ''the call left the system''
              | Some c \<Rightarrow> ue_compensated_by (beyond ''the call left the system'') c)
         else if eff_domain e \<in> {ExternalSideEffect, RemoteSystem}
         then Some (beyond ''an effect outside this machine is not recoverable through a local snapshot'')
         else if eff_domain e = NetworkRuntime
         then Some (beyond ''live sessions and in-flight connections are not restored'')
         else if eff_domain e = DomainUnknown
         then Some (beyond ''the provider declared a domain Ono cannot classify'')
         else if domain_is_persistent (eff_domain e)
         then if subject \<in> set objects \<and> covered rr subject then None
              else Some (beyond ''the source assets cover only part of what the plan changed'')
         else if eff_irreversible e
         then Some (beyond ''the plan declared this effect irreversible'')
         else None)"

definition push_effect ::
    "'i RecoveryRequest \<Rightarrow> ustr list \<Rightarrow> Value ProposedEffect \<Rightarrow> UnrecoverableEffect list \<Rightarrow> UnrecoverableEffect list" where
  "push_effect rr objects e kept =
     (case classify_effect e objects rr of None \<Rightarrow> kept | Some u \<Rightarrow> push_unique kept u)"

definition push_action ::
    "'i RecoveryRequest \<Rightarrow> ustr list \<Rightarrow> plan_action \<Rightarrow> UnrecoverableEffect list \<Rightarrow> UnrecoverableEffect list" where
  "push_action rr objects a kept =
     (if \<not> mutates_target (role a) then kept
      else fold (push_effect rr objects) (effects a)
        (if act_status a = ActUnknown
         then push_unique kept (unrecoverable_new (summary a) DomainUnknown
           (Format ''what this action did could not be established'' []))
         else kept))"

definition unrecoverable :: "'i RecoveryRequest \<Rightarrow> MethodSelection \<Rightarrow> ustr list \<Rightarrow> UnrecoverableEffect list" where
  "unrecoverable rr s objects =
     (let declared = foldl push_unique [] (fr_unrecoverable (mo_fragment (ms_chosen s))) in
      case rr_source rr of
        None \<Rightarrow> declared
      | Some source \<Rightarrow> fold (push_action rr objects) (plan_actions source) declared)"

section \<open>The plan of a recovery\<close>

definition recover_action ::
    "'i Makers \<Rightarrow> ustr \<Rightarrow> nat \<Rightarrow> plan_action \<Rightarrow> (ustr \<times> ustr) list \<Rightarrow> plan_action" where
  "recover_action mk plan index a mapping =
     (let base = action_new (mk_action_id mk) plan (index + 1) Recover (summary a) (execution a) in
      base\<lparr>idempotency := idempotency a, target := target a,
           effects := map (\<lambda>e. for_action (mk_effect_id mk) e (act_id base)) (effects a),
           recovery_semantics := recovery_semantics a, requires_privilege := requires_privilege a,
           preconditions := preconditions a,
           depends_on := List.map_filter
             (\<lambda>d. map_option snd (List.find (\<lambda>(original, _). original = d) mapping)) (depends_on a)\<rparr>)"

fun recover_actions ::
    "'i Makers \<Rightarrow> ustr \<Rightarrow> nat \<Rightarrow> plan_action list \<Rightarrow> (ustr \<times> ustr) list \<Rightarrow> plan_action list" where
  "recover_actions mk plan index [] mapping = []"
| "recover_actions mk plan index (a # rest) mapping =
     (let rebuilt = recover_action mk plan index a mapping
      in rebuilt # recover_actions mk plan (index + 1) rest (mapping @ [(act_id a, act_id rebuilt)]))"

fun with_actions :: "'i Plan \<Rightarrow> plan_action list \<Rightarrow> plan_error + 'i Plan" where
  "with_actions p [] = Inr p"
| "with_actions p (a # rest) =
     (case with_action p a of Inl e \<Rightarrow> Inl e | Inr q \<Rightarrow> with_actions q rest)"

fun split_at_whitespace :: "ustr \<Rightarrow> (ustr \<times> ustr) option" where
  "split_at_whitespace [] = None"
| "split_at_whitespace (c # cs) =
     (if is_whitespace c then Some ([], cs)
      else map_option (\<lambda>(before, rest). (c # before, rest)) (split_at_whitespace cs))"

definition is_about :: "ustr \<Rightarrow> ustr \<Rightarrow> bool" where
  "is_about subject object \<longleftrightarrow>
     subject = object \<or>
     (case split_at_whitespace subject of None \<Rightarrow> False | Some (_, identity) \<Rightarrow> trim identity = object)"

definition rebind :: "'i Makers \<Rightarrow> ustr \<Rightarrow> VerificationContract \<Rightarrow> VerificationContract" where
  "rebind mk plan c =
     (let base = contract_new (mk_check_id mk) plan (vc_class c) (vc_subject c) (vc_expression c) in
      base\<lparr>vc_timeout := vc_timeout c, vc_expected := vc_expected c, vc_equivalence := vc_equivalence c,
           vc_timeout_is_failure := (if timeout_status c = CheckUnknown then False else vc_timeout_is_failure base)\<rparr>)"

definition object_contract :: "'i Makers \<Rightarrow> 'i RecoveryRequest \<Rightarrow> ustr \<Rightarrow> ustr \<Rightarrow> VerificationContract" where
  "object_contract mk rr plan object =
     (let digest = map_option snd (List.find (\<lambda>(name, _). name = object) (rr_captured rr));
          subject = (if starts_with [47] object then asc ''file '' @ object else object);
          base = contract_new (mk_check_id mk) plan Required subject
            (case digest of None \<Rightarrow> asc ''exists == true'' | Some d \<Rightarrow> asc ''sha256 == '' @ d)
      in base\<lparr>vc_equivalence := Some EqPersistentState,
              vc_expected := map_option VString digest\<rparr>)"

definition verification ::
    "'i Makers \<Rightarrow> ustr \<Rightarrow> MethodSelection \<Rightarrow> ustr list \<Rightarrow> 'i RecoveryRequest \<Rightarrow> VerificationContract list" where
  "verification mk plan s objects rr =
     fold (\<lambda>object set_so_far.
         if list_ex (\<lambda>c. is_about (vc_subject c) object) set_so_far then set_so_far
         else set_so_far @ [object_contract mk rr plan object])
       objects (map (rebind mk plan) (fr_verification (mo_fragment (ms_chosen s))))"

fun method_risk :: "RestoreMethod \<Rightarrow> RiskClass" where
  "method_risk ProviderNativeRestore = RiskModerate"
| "method_risk SelectiveFileRestore = RiskModerate"
| "method_risk CloneAndCopy = RiskModerate"
| "method_risk Compensation = RiskModerate"
| "method_risk SubvolumeReplacement = RiskHigh"
| "method_risk DatasetRollback = RiskHigh"
| "method_risk OfflineRootRecovery = RiskCritical"

definition recovery_risk :: "'i RecoveryRequest \<Rightarrow> MethodSelection \<Rightarrow> RiskAssessment" where
  "recovery_risk rr s =
     (let m = offer_method (ms_chosen s); fragment = mo_fragment (ms_chosen s);
          found = (\<lambda>dimension c rule reason.
            \<lparr>rk_dimension = dimension, rk_class = c, rk_rule = asc rule, rk_reason = reason\<rparr>)
      in risk_of
        ([found DimRecoveryComplexity (method_risk m) ''recovery.method''
            (asc ''recovery by '' @ asc (RestoreMethod_as_str m) @ asc '', which restores '' @
             (if restores_prior_state m then asc ''prior state''
              else asc ''an acceptable semantic state through inverse actions ('' @ [167] @ asc ''27.4)''))] @
         (if destroyed_by rr s \<noteq> []
          then [found DimScope RiskHigh ''recovery.destroyed-history''
            (show_nat (length (destroyed_by rr s)) @ asc '' provider-native object(s) would be destroyed ('' @
             [167] @ asc ''13.6)'')] else []) @
         (if fr_requires_offline fragment
          then [found DimDowntime RiskHigh ''recovery.offline''
            (asc ''the filesystem must be taken offline for this recovery ('' @ [167] @ asc ''13.7, '' @ [167] @ asc ''14.6)'')]
          else []) @
         (if fr_requires_reboot fragment
          then [found DimRebootRequirement RiskHigh ''recovery.reboot''
            (asc ''the recovery takes effect on the next boot ('' @ [167] @ asc ''13.7, '' @ [167] @ asc ''14.6)'')]
          else [])))"

definition recovery_bindings :: "'i RecoveryRequest \<Rightarrow> MethodSelection \<Rightarrow> ProviderBinding list" where
  "recovery_bindings rr s =
     (case registry_get (rr_registry rr) (mo_provider (ms_chosen s)) of
        None \<Rightarrow> []
      | Some p \<Rightarrow>
          (case rp_availability p of
             Available version \<Rightarrow> [\<lparr>pb_id = rp_id p, pb_version = version\<rparr>]
           | Unsupported version _ \<Rightarrow> [\<lparr>pb_id = rp_id p, pb_version = version\<rparr>]
           | Unavailable _ \<Rightarrow> []))"

definition describe_objects :: "ustr list \<Rightarrow> ustr" where
  "describe_objects objects =
     (case objects of
        [] \<Rightarrow> asc ''the captured state''
      | [only] \<Rightarrow> only
      | first # rest \<Rightarrow> first @ asc '' and '' @ show_nat (length rest) @ asc '' more object(s)'')"

definition recovery_target :: "MethodSelection \<Rightarrow> ustr \<Rightarrow> FrozenTarget" where
  "recovery_target s object =
     \<lparr>ft_schema = asc ''ono.recovery.object'', ft_identity = object, ft_label = object, ft_spatial_id = None,
      ft_host = None, ft_selector = None, ft_persistence_domain = Some (mo_reference (ms_chosen s))\<rparr>"

definition impact_of :: "'i Makers \<Rightarrow> 'i RecoveryRequest \<Rightarrow> 'i Plan \<Rightarrow> 'i" where
  "impact_of mk rr plan =
     (case rr_impact rr of
        Some derive \<Rightarrow> derive (cp_targets plan) (plan_actions plan)
      | None \<Rightarrow> mk_direct_impact mk (cp_targets plan))"

fun plan_refusal :: "plan_error \<Rightarrow> ErrorValue" where
  "plan_refusal (PlanNotEditable plan state) = plan_error_with ''change.plan_sealed'' plan []"
| "plan_refusal (ActionGraphCyclic plan ids) = plan_error_with ''change.action_not_plannable'' plan (map Say ids)"
| "plan_refusal (VerificationMissing plan) = plan_error_with ''change.verification_missing'' plan []"
| "plan_refusal (InvalidTransition plan state event) = plan_error_with ''change.plan_sealed'' plan []"
| "plan_refusal OrderPanicked = refusal_with ''panic'' []"

definition recovery_draft ::
    "'i Makers \<Rightarrow> 'i RecoveryRequest \<Rightarrow> MethodSelection \<Rightarrow> ustr list \<Rightarrow> 'i Plan" where
  "recovery_draft mk rr s objects =
     as_recovery (draft_plan (mk_plan_id mk) (mk_no_impact mk)
       (asc ''restore '' @ describe_objects objects @ asc '' from '' @ mo_reference (ms_chosen s))
       (case rr_source rr of
          None \<Rightarrow> asc ''recover '' @ mo_reference (ms_chosen s)
        | Some source \<Rightarrow> asc ''recover plan/'' @ take ID_SHORT (plan_id source))
       (rr_session rr) (rr_now rr) (mk_instant mk (rr_now rr)))"

text \<open>What the built plan carries, once its actions are in it.\<close>

definition furnished ::
    "'i Makers \<Rightarrow> 'i RecoveryRequest \<Rightarrow> MethodSelection \<Rightarrow> ustr list \<Rightarrow> 'i Plan \<Rightarrow> 'i Plan" where
  "furnished mk rr s objects plan =
     (let p1 = plan\<lparr>cp_verification := verification mk (plan_id plan) s objects rr, cp_risk := recovery_risk rr s\<rparr>;
          p2 = foldl binding p1 (recovery_bindings rr s)
      in p2\<lparr>cp_impact := impact_of mk rr p2\<rparr>)"

definition change_plan ::
    "'i Makers \<Rightarrow> 'i RecoveryRequest \<Rightarrow> MethodSelection \<Rightarrow> ustr list \<Rightarrow> ErrorValue + 'i Plan" where
  "change_plan mk rr s objects =
     (let fragment = mo_fragment (ms_chosen s) in
      if fr_actions fragment = []
      then Inl (recovery_plan_incomplete ''the actions that would carry the recovery out''
        [Say (mo_provider (ms_chosen s)), Say (asc (RestoreMethod_as_str (offer_method (ms_chosen s))))])
      else
        case resolve_plan (recovery_draft mk rr s objects) (map (recovery_target s) objects) of
          Inl e \<Rightarrow> Inl (plan_refusal e)
        | Inr resolved \<Rightarrow>
            (case with_actions resolved (recover_actions mk (plan_id resolved) 0 (fr_actions fragment) []) of
               Inl e \<Rightarrow> Inl (plan_refusal e)
             | Inr acting \<Rightarrow>
                 (case seal (mk_digest mk) (furnished mk rr s objects acting) (rr_now rr) of
                    Inl e \<Rightarrow> Inl (plan_refusal e)
                  | Inr sealed \<Rightarrow> Inr sealed)))"

section \<open>The recovery plan\<close>

definition method_request :: "'i RecoveryRequest \<Rightarrow> MethodRequest" where
  "method_request rr =
     \<lparr>mq_goal = rr_goal rr,
      mq_offers = offers (rr_registry rr) (rr_planner rr) (rr_assets rr) (rr_source rr) (rr_goal rr),
      mq_required_metadata = rr_required_metadata rr,
      mq_required_semantics = rr_required_semantics rr, mq_forced = rr_forced_method rr\<rparr>"

definition recovery_of ::
    "'i RecoveryRequest \<Rightarrow> MethodSelection \<Rightarrow> ustr list \<Rightarrow> NewerStateImpact \<Rightarrow> UnrecoverableEffect list \<Rightarrow>
     'i Plan \<Rightarrow> 'i RecoveryPlan" where
  "recovery_of rr s objects impact beyond plan =
     (let fragment = mo_fragment (ms_chosen s);
          base = recovery_new plan (rr_goal rr) (offer_method (ms_chosen s)) (mo_reference (ms_chosen s))
      in base\<lparr>rv_newer_state := impact, rv_metadata := fr_metadata fragment,
              rv_directory_policy := chosen_policy rr s, rv_source_plan := map_option plan_id (rr_source rr),
              rv_source_assets := map as_id (rr_assets rr), rv_restores := objects,
              rv_unrecoverable := beyond, rv_requires_reboot := fr_requires_reboot fragment,
              rv_requires_offline := fr_requires_offline fragment\<rparr>)"

definition newer_state_of ::
    "'i RecoveryRequest \<Rightarrow> MethodSelection \<Rightarrow> ustr list \<Rightarrow> NewerStateImpact" where
  "newer_state_of rr s objects =
     (let fragment = mo_fragment (ms_chosen s); obs = observations rr objects fragment
      in with_provider_items (analyse_conflicts (conflict_request rr s objects obs))
           (fr_newer_state fragment) obs)"

definition plan_recovery_explained ::
    "'i Makers \<Rightarrow> 'i RecoveryRequest \<Rightarrow> ErrorValue + 'i RecoveryPlan \<times> MethodSelection" where
  "plan_recovery_explained mk rr =
     (if rr_assets rr = [] then Inl (recovery_plan_incomplete ''a recovery asset to restore from'' [])
      else case List.map_filter asset_usable (rr_assets rr) of
        e # _ \<Rightarrow> Inl e
      | [] \<Rightarrow>
          (case select_method (method_request rr) of
             Inl e \<Rightarrow> Inl e
           | Inr s \<Rightarrow>
               let objects = restore_set rr;
                   impact = newer_state_of rr s objects;
                   beyond = unrecoverable rr s objects
               in (case change_plan mk rr s objects of
                     Inl e \<Rightarrow> Inl e
                   | Inr plan \<Rightarrow> Inr (recovery_of rr s objects impact beyond plan, s))))"

definition plan_recovery :: "'i Makers \<Rightarrow> 'i RecoveryRequest \<Rightarrow> ErrorValue + 'i RecoveryPlan" where
  "plan_recovery mk rr = map_sum id fst (plan_recovery_explained mk rr)"

section \<open>Automatic recovery\<close>

definition fully_constructed :: "'i RecoveryPlan \<Rightarrow> bool" where
  "fully_constructed rv \<longleftrightarrow>
     is_sealed (plan_state (rv_plan rv)) \<and>
     filter (\<lambda>a. role a = Recover) (plan_actions (rv_plan rv)) \<noteq> [] \<and> nx_complete (rv_newer_state rv)"

definition irreversible_external :: "'i Plan \<Rightarrow> 'i RecoveryPlan option \<Rightarrow> ustr list" where
  "irreversible_external plan rv =
     (let found = map (\<lambda>e. case eff_object e of None \<Rightarrow> eff_explanation e | Some x \<Rightarrow> x)
            (filter (\<lambda>e. eff_kind e = Emit \<or> eff_irreversible e \<and> is_external (eff_domain e)) (plan_effects plan))
      in fold (\<lambda>u kept. if is_external (ue_domain u) \<and> ue_subject u \<notin> set kept then kept @ [ue_subject u] else kept)
           (case rv of None \<Rightarrow> [] | Some r \<Rightarrow> rv_unrecoverable r) found)"

definition unrelated_newer_state :: "'i RecoveryPlan \<Rightarrow> ustr list" where
  "unrelated_newer_state rv =
     map ni_object (filter (\<lambda>i. ni_class i = DiscardedByMethod) (nx_items (rv_newer_state rv))) @
     nx_destroyed_assets (rv_newer_state rv)"

definition protection_shortfall :: "'i Plan \<Rightarrow> sentence list" where
  "protection_shortfall plan =
     (if required_rows (cp_protection plan) = []
      then [Format ''no mutation domain carries a coverage row at all'' []]
      else map (\<lambda>row. Format (EffectDomain_as_str (row_domain row))
               [Say (asc (case row_protection row of
                    Unprotected \<Rightarrow> ''unprotected'' | Compensatable \<Rightarrow> ''compensatable''
                  | ProtectionUnknown \<Rightarrow> ''unknown'' | _ \<Rightarrow> ''covered''))])
             (filter (\<lambda>row. \<not> is_state_image (row_protection row)) (required_rows (cp_protection plan))))"

definition recovery_verification_exists :: "'i RecoveryPlan \<Rightarrow> bool" where
  "recovery_verification_exists rv \<longleftrightarrow> list_ex (\<lambda>c. vc_equivalence c \<noteq> None) (cp_verification (rv_plan rv))"

definition unmet_conditions :: "'i Plan \<Rightarrow> 'i RecoveryPlan option \<Rightarrow> bool \<Rightarrow> sentence list" where
  "unmet_conditions plan rv policy_enabled =
     (case rv of
        None \<Rightarrow> [Format ''no recovery asset exists until the plan's protection is created'' []]
      | Some r \<Rightarrow> if fully_constructed r then []
          else [Format ''the recovery plan cannot be fully constructed before mutation'' []]) @
     (if irreversible_external plan rv \<noteq> []
      then [Format ''known irreversible external side effects exist'' (map Say (irreversible_external plan rv))] else []) @
     (let destroyed = (case rv of None \<Rightarrow> [] | Some r \<Rightarrow> unrelated_newer_state r)
      in if destroyed \<noteq> [] then [Format ''recovery would destroy unrelated newer state'' (map Say destroyed)] else []) @
     (if protection_shortfall plan \<noteq> []
      then [Format ''protection is neither PROTECTED nor TRANSACTIONAL'' (protection_shortfall plan)] else []) @
     (if \<not> (case rv of None \<Rightarrow> False | Some r \<Rightarrow> recovery_verification_exists r)
      then [Format ''the recovery carries no verification that states which equivalence domain it establishes'' []] else []) @
     (if \<not> policy_enabled then [Format ''user policy does not enable automatic recovery'' []] else [])"

definition admits_auto_recovery :: "'i Plan \<Rightarrow> 'i RecoveryPlan option \<Rightarrow> bool \<Rightarrow> ErrorValue option" where
  "admits_auto_recovery plan rv policy_enabled =
     (if unmet_conditions plan rv policy_enabled = [] then None
      else Some (plan_error_with ''change.auto_recovery_rejected'' (plan_id plan)
        (unmet_conditions plan rv policy_enabled)))"

section \<open>What a recovery achieved\<close>

record RecoveryOutcome =
  ro_persistent :: "(ustr \<times> EquivalenceState) list"
  ro_runtime :: "(ustr \<times> EquivalenceState) list"
  ro_external :: "(ustr \<times> EquivalenceState) list"

definition outcome_empty :: RecoveryOutcome where
  "outcome_empty = \<lparr>ro_persistent = [], ro_runtime = [], ro_external = []\<rparr>"

fun recording :: "EquivalenceDomain \<Rightarrow> ustr \<Rightarrow> EquivalenceState \<Rightarrow> RecoveryOutcome \<Rightarrow> RecoveryOutcome" where
  "recording EqPersistentState subject state ro = ro\<lparr>ro_persistent := ro_persistent ro @ [(subject, state)]\<rparr>"
| "recording EqRuntimeState subject state ro = ro\<lparr>ro_runtime := ro_runtime ro @ [(subject, state)]\<rparr>"
| "recording EqExternalSideEffect subject state ro = ro\<lparr>ro_external := ro_external ro @ [(subject, state)]\<rparr>"

definition persistent_state_verified :: "RecoveryOutcome \<Rightarrow> bool" where
  "persistent_state_verified ro \<longleftrightarrow>
     ro_persistent ro \<noteq> [] \<and> list_all (\<lambda>(_, state). state = EqRestored) (ro_persistent ro)"

definition has_unrecoverable :: "RecoveryOutcome \<Rightarrow> bool" where
  "has_unrecoverable ro \<longleftrightarrow>
     list_ex (\<lambda>(_, state). state = EqNotRecoverable) (ro_persistent ro @ ro_runtime ro @ ro_external ro)"

definition equivalence_state :: "VerificationContract \<Rightarrow> VerificationStatus \<Rightarrow> EquivalenceState" where
  "equivalence_state c status =
     (case vc_equivalence c of
        None \<Rightarrow> EqStateUnknown
      | Some domain \<Rightarrow>
          (case status of
             CheckPassed \<Rightarrow> EqRestored
           | CheckUnknown \<Rightarrow> EqStateUnknown
           | CheckSkipped \<Rightarrow> EqStateUnknown
           | CheckFailed \<Rightarrow>
               if vc_class c \<noteq> Required \<and> domain = EqRuntimeState then EqDifferentAsExpected
               else EqNotRestored))"

definition recovery_results ::
    "'i RecoveryPlan \<Rightarrow> (VerificationContract \<Rightarrow> VerificationStatus) \<Rightarrow> int \<Rightarrow> VerificationResult list" where
  "recovery_results rv observe now =
     map (\<lambda>c. (result_new (plan_id (rv_plan rv)) c (observe c) now)
             \<lparr>vr_equivalence_state := Some (equivalence_state c (observe c))\<rparr>)
       (cp_verification (rv_plan rv))"

fun effect_equivalence :: "EffectDomain \<Rightarrow> EquivalenceDomain" where
  "effect_equivalence ExternalSideEffect = EqExternalSideEffect"
| "effect_equivalence RemoteSystem = EqExternalSideEffect"
| "effect_equivalence ProcessRuntime = EqRuntimeState"
| "effect_equivalence KernelRuntime = EqRuntimeState"
| "effect_equivalence NetworkRuntime = EqRuntimeState"
| "effect_equivalence ProviderTransactionState = EqRuntimeState"
| "effect_equivalence _ = EqPersistentState"

definition outcome_of :: "'i RecoveryPlan \<Rightarrow> VerificationResult list \<Rightarrow> RecoveryOutcome" where
  "outcome_of rv rs =
     fold (\<lambda>u. recording (effect_equivalence (ue_domain u)) (ue_subject u) EqNotRecoverable) (rv_unrecoverable rv)
       (fold (\<lambda>r. recording (case vr_equivalence r of None \<Rightarrow> EqPersistentState | Some d \<Rightarrow> d) (vr_subject r)
            (case vr_equivalence_state r of None \<Rightarrow> EqStateUnknown | Some st \<Rightarrow> st)) rs outcome_empty)"

definition verify_recovery ::
    "'i RecoveryPlan \<Rightarrow> (VerificationContract \<Rightarrow> VerificationStatus) \<Rightarrow> int \<Rightarrow> RecoveryOutcome" where
  "verify_recovery rv observe now = outcome_of rv (recovery_results rv observe now)"

definition failed_domain :: "VerificationResult list \<Rightarrow> EquivalenceDomain \<Rightarrow> bool" where
  "failed_domain rs domain \<longleftrightarrow>
     list_ex (\<lambda>r. vr_class r = Required \<and>
        (case vr_equivalence r of None \<Rightarrow> EqPersistentState | Some d \<Rightarrow> d) = domain \<and>
        vr_equivalence_state r \<in> {Some EqNotRestored, Some EqStateUnknown}) rs"

definition refusal_for :: "VerificationResult list \<Rightarrow> ErrorValue option" where
  "refusal_for rs =
     (let domains = filter (failed_domain rs) [EqPersistentState, EqRuntimeState, EqExternalSideEffect] in
      if domains = [] then None
      else Some (refusal_with ''recovery.verification_failed''
        (map (\<lambda>d. Say (asc (EquivalenceDomain_as_str d))) domains)))"

record RecoveryFailure =
  rx_error :: ErrorValue
  rx_retained_assets :: "ustr list"
  rx_settled_actions :: "ustr list"
  rx_method :: RestoreMethod

definition recovery_failed :: "'i RecoveryPlan \<Rightarrow> ustr \<Rightarrow> sentence \<Rightarrow> RecoveryFailure" where
  "recovery_failed rv action detail =
     \<lparr>rx_error = refusal_with ''recovery.apply_failed'' [Say action, detail],
      rx_retained_assets = rv_source_assets rv,
      rx_settled_actions = map summary (filter (\<lambda>a. is_settled (act_status a)) (plan_actions (rv_plan rv))),
      rx_method = rv_method rv\<rparr>"

section \<open>What the gate sees\<close>

lemma planned_parts:
  assumes "plan_recovery_explained mk rr = Inr (rv, s)"
  shows "select_method (method_request rr) = Inr s" "rv_restores rv = restore_set rr"
    and "rv_newer_state rv = newer_state_of rr s (rv_restores rv)"
    and "rv_unrecoverable rv = unrecoverable rr s (rv_restores rv)"
    and "\<not> rv_destructive_accepted rv" "rv_method rv = offer_method (ms_chosen s)"
    and "\<exists>plan. change_plan mk rr s (rv_restores rv) = Inr plan \<and> rv_plan rv = as_recovery plan"
  using assms
  by (auto simp: plan_recovery_explained_def recovery_of_def recovery_new_def Let_def
      split: if_splits list.splits sum.splits)

lemma add_provider_items_keeps: "set items \<subseteq> set (add_provider_items asked ps items)"
proof (induction ps arbitrary: items)
  case (Cons p ps)
  let ?items = "if \<not> list_ex (\<lambda>ob. ob_object ob = ni_object p) asked \<and>
      \<not> list_ex (\<lambda>kept. ni_object kept = ni_object p) items then items @ [p] else items"
  have "set items \<subseteq> set ?items" by auto
  also have "\<dots> \<subseteq> set (add_provider_items asked ps ?items)" by (rule Cons.IH)
  finally show ?case by simp
qed simp

lemma add_provider_items_shows:
  assumes "i \<in> set ps" "\<forall>ob \<in> set asked. ob_object ob \<noteq> ni_object i"
  shows "\<exists>kept \<in> set (add_provider_items asked ps items). ni_object kept = ni_object i"
  using assms(1)
proof (induction ps arbitrary: items)
  case (Cons p ps)
  let ?items = "if \<not> list_ex (\<lambda>ob. ob_object ob = ni_object p) asked \<and>
      \<not> list_ex (\<lambda>kept. ni_object kept = ni_object p) items then items @ [p] else items"
  have step: "add_provider_items asked (p # ps) items = add_provider_items asked ps ?items" by simp
  show ?case
  proof (cases "i = p")
    case True
    then have "\<exists>kept \<in> set ?items. ni_object kept = ni_object i" using assms(2) by (auto simp: list_ex_iff)
    then show ?thesis unfolding step using add_provider_items_keeps[of ?items asked ps] by blast
  next
    case False
    then show ?thesis unfolding step using Cons.IH[of ?items] Cons.prems by simp
  qed
qed simp

lemma add_provider_items_only:
  "k \<in> set (add_provider_items asked ps items) \<Longrightarrow> k \<in> set items \<or> k \<in> set ps"
  by (induction ps arbitrary: items) (auto split: if_splits, fastforce+)

lemma newer_state_parts:
  fixes rr s objects
  defines "obs \<equiv> observations rr objects (mo_fragment (ms_chosen s))"
  defines "cf \<equiv> conflict_request rr s objects obs"
  defines "own \<equiv> fr_newer_state (mo_fragment (ms_chosen s))"
  shows "nx_complete (newer_state_of rr s objects)"
    and "nx_destroyed_assets (newer_state_of rr s objects) = destroyed_by rr s"
    and "nx_items (newer_state_of rr s objects) =
      (if nx_complete own then add_provider_items obs (nx_items own) (nx_items (analyse_conflicts cf))
       else nx_items (analyse_conflicts cf))"
  by (simp_all add: newer_state_of_def with_provider_items_def Let_def foldl_destroying analysed_def
      analyse_conflicts_parts impact_discarding_def conflict_request_def obs_def cf_def own_def
      split: option.splits)

lemma dedupe_set [simp]: "set (dedupe xs) = set xs"
proof -
  have "set (fold (\<lambda>object kept. if object \<in> set kept then kept else kept @ [object]) xs ys) = set ys \<union> set xs" for ys
    by (induction xs arbitrary: ys) auto
  then show ?thesis by (simp add: dedupe_def)
qed

lemma dedupe_Nil [simp]: "dedupe xs = [] \<longleftrightarrow> xs = []"
  by (metis dedupe_set set_empty)

text \<open>The question an object in scope is put to, and the objects it is put about.\<close>

abbreviation question :: "'i RecoveryRequest \<Rightarrow> MethodSelection \<Rightarrow> ustr list \<Rightarrow> ConflictRequest" where
  "question rr s objects \<equiv> conflict_request rr s objects (observations rr objects (mo_fragment (ms_chosen s)))"

definition asked :: "'i RecoveryRequest \<Rightarrow> MethodSelection \<Rightarrow> ustr list \<Rightarrow> ustr \<Rightarrow> bool" where
  "asked rr s objects object \<longleftrightarrow>
     object \<in> set objects \<union> (\<Union>a \<in> set (rr_assets rr). set (sc_covers (as_scope a))) \<and>
     (nx_complete (fr_newer_state (mo_fragment (ms_chosen s))) \<longrightarrow> starts_with [47] object)"

lemma asked_observed:
  "set (observations rr objects (mo_fragment (ms_chosen s))) =
     (\<lambda>object. \<lparr>ob_object = object, ob_state = rr_observe rr object\<rparr>) ` {object. asked rr s objects object}"
  by (auto simp: observations_def scope_objects_def asked_def)

lemma question_observations [simp]:
  "cf_observations (question rr s objects) = observations rr objects (mo_fragment (ms_chosen s))"
  by (simp add: conflict_request_def)

lemma observed_items_shown:
  "set (nx_items (analyse_conflicts (question rr s objects))) \<subseteq> set (nx_items (newer_state_of rr s objects))"
  using newer_state_parts(3)[of rr s objects] add_provider_items_keeps by auto

text \<open>An item the provider found itself is shown as it is when the provider names its object once.\<close>

lemma provider_item_shown:
  assumes complete: "nx_complete (fr_newer_state (mo_fragment (ms_chosen s)))"
    and once: "distinct (map ni_object (nx_items (fr_newer_state (mo_fragment (ms_chosen s)))))"
    and i: "i \<in> set (nx_items (fr_newer_state (mo_fragment (ms_chosen s))))" "\<not> asked rr s objects (ni_object i)"
  shows "i \<in> set (nx_items (newer_state_of rr s objects))"
proof -
  let ?own = "fr_newer_state (mo_fragment (ms_chosen s))" and ?cf = "question rr s objects"
  let ?obs = "observations rr objects (mo_fragment (ms_chosen s))"
  note items = newer_state_parts(3)[of rr s objects]
  have other: "\<forall>ob \<in> set ?obs. ob_object ob \<noteq> ni_object i" using i(2) unfolding asked_observed by auto
  from add_provider_items_shows[OF i(1) this, of "nx_items (analyse_conflicts ?cf)"]
  obtain k where k: "k \<in> set (nx_items (newer_state_of rr s objects))" "ni_object k = ni_object i"
    using items complete by auto
  have "k \<notin> set (nx_items (analyse_conflicts ?cf))"
    using k(2) other classified_object by (fastforce simp: analyse_conflicts_parts map_filter_members)
  then have "k \<in> set (nx_items ?own)" using k(1) add_provider_items_only items complete by fastforce
  then have "k = i" using once i(1) k(2) by (simp add: distinct_map inj_on_def)
  then show ?thesis using k(1) by simp
qed

lemma unestablished_shown:
  assumes "asked rr s objects object" "\<not> is_established (rr_observe rr object)"
  shows "\<exists>i \<in> set (nx_items (newer_state_of rr s objects)). ni_class i = NewerUnknown"
proof -
  let ?ob = "\<lparr>ob_object = object, ob_state = rr_observe rr object\<rparr>"
  obtain i where i: "classify_observation (question rr s objects) ?ob = Some i" "ni_class i = NewerUnknown"
    using assms(2) by (auto simp: is_established_def classify_observation_def item_new_def split: ObservedState.splits)
  have "?ob \<in> set (observations rr objects (mo_fragment (ms_chosen s)))"
    using assms(1) unfolding asked_observed by auto
  then have "i \<in> set (nx_items (analyse_conflicts (question rr s objects)))"
    using i(1) by (auto simp: analyse_conflicts_parts map_filter_members)
  then show ?thesis using i(2) observed_items_shown by blast
qed


section \<open>What is restored and what is not\<close>

lemma fold_establishes:
  assumes "x \<in> set xs" "\<And>k. P (f x k)" "\<And>y k. P k \<Longrightarrow> P (f y k)"
  shows "P (fold f xs k)"
proof -
  have kept: "P k \<Longrightarrow> P (fold f ys k)" for ys k by (induction ys arbitrary: k) (simp_all add: assms(3))
  show ?thesis using assms(1) by (induction xs arbitrary: k) (auto intro: kept assms(2))
qed

lemma fold_keeps:
  assumes "P k" "\<And>y k. P k \<Longrightarrow> P (f y k)"
  shows "P (fold f xs k)"
  using assms(1) by (induction xs arbitrary: k) (simp_all add: assms(2))

definition declared :: "ustr \<Rightarrow> EffectDomain \<Rightarrow> UnrecoverableEffect list \<Rightarrow> bool" where
  "declared subject domain us \<longleftrightarrow> (\<exists>u \<in> set us. ue_subject u = subject \<and> ue_domain u = domain)"

lemma push_unique_declares:
  "declared (ue_subject u) (ue_domain u) (push_unique kept u)"
  "declared x d kept \<Longrightarrow> declared x d (push_unique kept u)"
  by (auto simp: push_unique_def list_ex_iff declared_def)

lemma push_effect_keeps: "declared x d kept \<Longrightarrow> declared x d (push_effect rr objects e kept)"
  by (auto simp: push_effect_def push_unique_declares split: option.splits)

lemma push_action_keeps: "declared x d kept \<Longrightarrow> declared x d (push_action rr objects a kept)"
  unfolding push_action_def
  by (auto intro: fold_keeps[where P = "declared x d"] push_effect_keeps push_unique_declares(2))

lemma push_action_declares:
  assumes "mutates_target (role a)" "e \<in> set (effects a)" "classify_effect e objects rr = Some u"
  shows "declared (ue_subject u) (ue_domain u) (push_action rr objects a kept)"
proof -
  have "declared (ue_subject u) (ue_domain u) (push_effect rr objects e k)" for k
    using assms(3) push_unique_declares(1)[where u = u] by (simp add: push_effect_def)
  then have "declared (ue_subject u) (ue_domain u) (fold (push_effect rr objects) (effects a) k)" for k
    using assms(2) push_effect_keeps by (intro fold_establishes[where P = "declared (ue_subject u) (ue_domain u)"])
  then show ?thesis using assms(1) by (simp add: push_action_def)
qed

lemma push_action_uncertain:
  assumes "mutates_target (role a)" "act_status a = ActUnknown"
  shows "declared (summary a) DomainUnknown (push_action rr objects a kept)"
proof -
  let ?u = "unrecoverable_new (summary a) DomainUnknown (Format ''what this action did could not be established'' [])"
  have "declared (summary a) DomainUnknown (push_unique kept ?u)"
    using push_unique_declares(1)[where u = ?u and kept = kept] by (simp add: unrecoverable_new_def)
  then show ?thesis using assms unfolding push_action_def
    by (auto intro!: fold_keeps[where P = "declared (summary a) DomainUnknown"] push_effect_keeps)
qed

lemma unrecoverable_declares:
  assumes "rr_source rr = Some source" "a \<in> set (plan_actions source)"
    "\<And>kept. declared x d (push_action rr objects a kept)"
  shows "declared x d (unrecoverable rr s objects)"
  using assms(1) unfolding unrecoverable_def
  by (auto simp: Let_def intro!: fold_establishes[OF assms(2), where P = "declared x d"] assms(3) push_action_keeps)

abbreviation effect_subject :: "Value ProposedEffect \<Rightarrow> ustr" where
  "effect_subject e \<equiv> (case eff_object e of None \<Rightarrow> eff_explanation e | Some x \<Rightarrow> x)"

lemma classify_effect_key:
  "classify_effect e objects rr = Some u \<Longrightarrow> ue_subject u = effect_subject e \<and> ue_domain u = eff_domain e"
  by (auto simp: classify_effect_def unrecoverable_new_def ue_compensated_by_def Let_def
      split: if_splits option.splits)

lemma classify_effect_None:
  "classify_effect e objects rr = None \<Longrightarrow>
     eff_kind e \<noteq> Emit \<and> \<not> is_external (eff_domain e) \<and>
     (domain_is_persistent (eff_domain e) \<and> effect_subject e \<in> set objects \<and> covered rr (effect_subject e) \<or>
      \<not> domain_is_persistent (eff_domain e) \<and> \<not> eff_irreversible e)"
  by (auto simp: classify_effect_def is_external_def Let_def split: if_splits option.splits)


section \<open>The plan a recovery is\<close>

lemma with_actions_appends:
  "\<not> is_sealed (plan_state p) \<Longrightarrow> with_actions p as = Inr (p\<lparr>plan_actions := plan_actions p @ as\<rparr>)"
  by (induction as arbitrary: p) (simp_all add: with_action_def)

lemma recover_action_parts [simp]:
  "role (recover_action mk plan n a m) = Recover" "execution (recover_action mk plan n a m) = execution a"
  "target (recover_action mk plan n a m) = target a" "idempotency (recover_action mk plan n a m) = idempotency a"
  "preconditions (recover_action mk plan n a m) = preconditions a"
  "requires_privilege (recover_action mk plan n a m) = requires_privilege a"
  by (simp_all add: recover_action_def action_new_def Let_def)

lemma recover_actions_map:
  "map role (recover_actions mk plan n as m) = map (\<lambda>_. Recover) as"
  "map execution (recover_actions mk plan n as m) = map execution as"
  "map target (recover_actions mk plan n as m) = map target as"
  by (induction as arbitrary: n m) (simp_all add: Let_def)

lemma binding_keeps [simp]:
  "plan_actions (foldl binding p bs) = plan_actions p" "cp_kind (foldl binding p bs) = cp_kind p"
  "cp_targets (foldl binding p bs) = cp_targets p" "cp_verification (foldl binding p bs) = cp_verification p"
  "plan_state (foldl binding p bs) = plan_state p" "plan_id (foldl binding p bs) = plan_id p"
  by (induction bs arbitrary: p) (simp_all add: binding_def)

lemma change_plan_Inr:
  assumes "change_plan mk rr s objects = Inr plan"
  shows "plan_state plan = Sealed" "digest_holds (mk_digest mk) plan" "cp_kind plan = RecoveryKind"
    and "cp_targets plan = map (recovery_target s) objects"
    and "plan_actions plan = recover_actions mk (plan_id plan) 0 (fr_actions (mo_fragment (ms_chosen s))) []"
    and "cp_verification plan = verification mk (plan_id plan) s objects rr"
    and "\<exists>order. topological_order (plan_actions plan) = Some (Inr order)"
    and "fr_actions (mo_fragment (ms_chosen s)) \<noteq> []"
proof -
  let ?as = "recover_actions mk (plan_id (recovery_draft mk rr s objects)) 0 (fr_actions (mo_fragment (ms_chosen s))) []"
  have draft: "resolve_plan (recovery_draft mk rr s objects) (map (recovery_target s) objects) =
      Inr (recovery_draft mk rr s objects\<lparr>cp_targets := map (recovery_target s) objects, plan_state := Resolved\<rparr>)"
    by (simp add: resolve_plan_def recovery_draft_def as_recovery_def draft_plan_def is_sealed_def after_def)
  let ?p = "recovery_draft mk rr s objects\<lparr>cp_targets := map (recovery_target s) objects, plan_state := Resolved,
      plan_actions := plan_actions (recovery_draft mk rr s objects) @ ?as\<rparr>"
  have acting: "with_actions (recovery_draft mk rr s objects\<lparr>cp_targets := map (recovery_target s) objects,
      plan_state := Resolved\<rparr>) ?as = Inr ?p"
    by (subst with_actions_appends) (simp_all add: is_sealed_def)
  have sealed: "seal (mk_digest mk) (furnished mk rr s objects ?p) (rr_now rr) = Inr plan"
    and some: "fr_actions (mo_fragment (ms_chosen s)) \<noteq> []"
    using assms draft acting by (auto simp: change_plan_def Let_def split: if_splits sum.splits)
  then have plan: "plan = furnished mk rr s objects ?p\<lparr>cp_sealed_at := Some (rr_now rr), plan_state := Sealed,
      cp_digest := Some (compute_digest (mk_digest mk) (furnished mk rr s objects ?p))\<rparr>"
    and acyclic: "acyclic (dep_rel (plan_actions (furnished mk rr s objects ?p)))"
    unfolding seal_Inr by auto
  show "plan_state plan = Sealed" "digest_holds (mk_digest mk) plan"
    unfolding plan by (simp_all add: digest_holds_def compute_digest_def canonical_text_def)
  show "cp_kind plan = RecoveryKind" "cp_targets plan = map (recovery_target s) objects"
    "plan_actions plan = recover_actions mk (plan_id plan) 0 (fr_actions (mo_fragment (ms_chosen s))) []"
    "cp_verification plan = verification mk (plan_id plan) s objects rr"
    unfolding plan by (simp_all add: Let_def furnished_def recovery_draft_def as_recovery_def draft_plan_def)
  show "\<exists>order. topological_order (plan_actions plan) = Some (Inr order)"
    using acyclic by (simp add: plan topological_order_acyclic)
  show "fr_actions (mo_fragment (ms_chosen s)) \<noteq> []" by (rule some)
qed

lemma verification_covers:
  assumes "object \<in> set objects"
  shows "\<exists>c \<in> set (verification mk plan s objects rr).
    is_about (vc_subject c) object \<or> c = object_contract mk rr plan object"
  unfolding verification_def
  using assms
  by (intro fold_establishes[where P = "\<lambda>cs. \<exists>c \<in> set cs. is_about (vc_subject c) object \<or> c = object_contract mk rr plan object"])
    (auto simp: list_ex_iff)

text \<open>
  C14: What recovery planning produces is a change plan like any other, ready to be applied.  It is
  a sealed recovery plan whose digest holds, its targets are the objects it restores, its actions
  are the provider's, in their order, all in the role of recovery, and can be ordered; and every
  object it restores has a check that is about it.
\<close>

theorem recovery_is_a_sealed_plan:
  assumes "plan_recovery_explained mk rr = Inr (rv, s)"
  shows "plan_state (rv_plan rv) = Sealed \<and> digest_holds (mk_digest mk) (rv_plan rv) \<and>
    cp_kind (rv_plan rv) = RecoveryKind \<and> plan_mutates (rv_plan rv) \<and>
    map ft_identity (cp_targets (rv_plan rv)) = rv_restores rv \<and>
    map execution (plan_actions (rv_plan rv)) = map execution (fr_actions (mo_fragment (ms_chosen s))) \<and>
    (\<forall>a \<in> set (plan_actions (rv_plan rv)). role a = Recover) \<and>
    (\<exists>order. topological_order (plan_actions (rv_plan rv)) = Some (Inr order)) \<and>
    (\<forall>object \<in> set (rv_restores rv). \<exists>c \<in> set (cp_verification (rv_plan rv)).
       is_about (vc_subject c) object \<or> c = object_contract mk rr (plan_id (rv_plan rv)) object)"
proof -
  from planned_parts(7)[OF assms] obtain plan where
    plan: "change_plan mk rr s (rv_restores rv) = Inr plan" "rv_plan rv = as_recovery plan" by auto
  note parts = change_plan_Inr[OF plan(1)]
  have same: "as_recovery plan = plan" using parts(3) by (simp add: as_recovery_def)
  have roles: "map role (plan_actions plan) = map (\<lambda>_. Recover) (fr_actions (mo_fragment (ms_chosen s)))"
    by (simp add: parts(5) recover_actions_map)
  then have role: "\<forall>a \<in> set (plan_actions plan). role a = Recover"
    by (metis (no_types, lifting) image_iff list.set_map)
  moreover have "plan_actions plan \<noteq> []" using roles parts(8) by auto
  ultimately have "plan_mutates plan"
    by (cases "plan_actions plan") (simp_all add: plan_mutates_def mutates_target_def)
  moreover have "map ft_identity (cp_targets plan) = rv_restores rv"
    by (simp add: parts(4) recovery_target_def comp_def)
  moreover have "map execution (plan_actions plan) = map execution (fr_actions (mo_fragment (ms_chosen s)))"
    by (simp add: parts(5) recover_actions_map)
  ultimately show ?thesis
    using parts(1,2,3,7) role plan(2) same verification_covers parts(6) by auto
qed

section \<open>What a recovery may claim\<close>

lemma fold_recording_persistent:
  "ro_persistent (fold (\<lambda>x. recording (d x) (n x) (st x)) xs ro) =
     ro_persistent ro @ map (\<lambda>x. (n x, st x)) (filter (\<lambda>x. d x = EqPersistentState) xs)"
proof (induction xs arbitrary: ro)
  case (Cons x xs)
  then show ?case by (cases "d x") simp_all
qed simp

lemma refusal_for_None: "refusal_for rs = None \<longleftrightarrow> (\<forall>d. \<not> failed_domain rs d)"
proof
  assume "refusal_for rs = None"
  then have "\<not> failed_domain rs EqPersistentState" "\<not> failed_domain rs EqRuntimeState"
    "\<not> failed_domain rs EqExternalSideEffect"
    by (simp_all add: refusal_for_def Let_def split: if_splits)
  then show "\<forall>d. \<not> failed_domain rs d" by (intro allI) (case_tac d; simp)
qed (simp add: refusal_for_def)

abbreviation reported_domain :: "VerificationContract \<Rightarrow> EquivalenceDomain" where
  "reported_domain c \<equiv> (case vc_equivalence c of None \<Rightarrow> EqPersistentState | Some d \<Rightarrow> d)"

lemma reported_persistent:
  "reported_domain c = EqPersistentState \<longleftrightarrow> vc_equivalence c = None \<or> vc_equivalence c = Some EqPersistentState"
  by (cases "vc_equivalence c") simp_all

lemma restored_state: "equivalence_state c st = EqRestored \<longleftrightarrow> vc_equivalence c \<noteq> None \<and> st = CheckPassed"
  by (simp add: equivalence_state_def split: option.split VerificationStatus.split)

lemma required_state:
  "vc_class c = Required \<Longrightarrow>
     equivalence_state c st = EqNotRestored \<or> equivalence_state c st = EqStateUnknown \<longleftrightarrow>
     vc_equivalence c = None \<or> st \<noteq> CheckPassed"
  by (simp add: equivalence_state_def split: option.split VerificationStatus.split)

lemma failed_domain_iff:
  "failed_domain (recovery_results rv observe now) d \<longleftrightarrow>
     (\<exists>c \<in> set (cp_verification (rv_plan rv)). vc_class c = Required \<and> reported_domain c = d \<and>
        (vc_equivalence c = None \<or> observe c \<noteq> CheckPassed))"
  by (simp add: failed_domain_def recovery_results_def result_new_def list_ex_iff required_state cong: conj_cong)

lemma verified_entries:
  "ro_persistent (verify_recovery rv observe now) =
     map (\<lambda>c. (vc_subject c, equivalence_state c (observe c)))
       (filter (\<lambda>c. vc_equivalence c = None \<or> vc_equivalence c = Some EqPersistentState) (cp_verification (rv_plan rv))) @
     map (\<lambda>u. (ue_subject u, EqNotRecoverable))
       (filter (\<lambda>u. effect_equivalence (ue_domain u) = EqPersistentState) (rv_unrecoverable rv))"
  by (simp add: verify_recovery_def outcome_of_def fold_recording_persistent outcome_empty_def
      recovery_results_def result_new_def filter_map comp_def reported_persistent)

lemma persistent_state_verified_iff:
  "persistent_state_verified (verify_recovery rv observe now) \<longleftrightarrow>
     (\<exists>c \<in> set (cp_verification (rv_plan rv)). vc_equivalence c = Some EqPersistentState) \<and>
     (\<forall>c \<in> set (cp_verification (rv_plan rv)). vc_equivalence c \<noteq> None \<and>
        (vc_equivalence c = Some EqPersistentState \<longrightarrow> observe c = CheckPassed)) \<and>
     (\<forall>u \<in> set (rv_unrecoverable rv). effect_equivalence (ue_domain u) \<noteq> EqPersistentState)"
    (is "?lhs \<longleftrightarrow> ?rhs")
proof
  assume ?lhs
  then have nonempty: "ro_persistent (verify_recovery rv observe now) \<noteq> []"
    and all: "\<And>x st. (x, st) \<in> set (ro_persistent (verify_recovery rv observe now)) \<Longrightarrow> st = EqRestored"
    by (auto simp: persistent_state_verified_def list_all_iff)
  have held: "vc_equivalence c \<noteq> None \<and> observe c = CheckPassed"
    if "c \<in> set (cp_verification (rv_plan rv))" "vc_equivalence c = None \<or> vc_equivalence c = Some EqPersistentState" for c
    using all[of "vc_subject c" "equivalence_state c (observe c)"] that unfolding verified_entries
    by (auto simp: restored_state)
  have clear: "effect_equivalence (ue_domain u) \<noteq> EqPersistentState" if "u \<in> set (rv_unrecoverable rv)" for u
    using all[of "ue_subject u" EqNotRecoverable] that unfolding verified_entries by auto
  have "\<exists>c \<in> set (cp_verification (rv_plan rv)). vc_equivalence c = None \<or> vc_equivalence c = Some EqPersistentState"
    using nonempty clear unfolding verified_entries by (auto simp: filter_empty_conv)
  then show ?rhs using held clear by metis
next
  assume ?rhs
  then show ?lhs
    by (auto simp: persistent_state_verified_def verified_entries list_all_iff filter_empty_conv restored_state)
qed

text \<open>
  C15: A recovery claims only what was observed.  No refusal is raised exactly when every required
  check names the kind of equivalence it establishes and has passed; and persistent state is
  called verified exactly when a check of persistent state exists, all of them passed, no check
  leaves open what it is about, and nothing persistent was declared unrecoverable.
\<close>

theorem recovery_claims_are_exact:
  "(refusal_for (recovery_results rv observe now) = None \<longleftrightarrow>
      (\<forall>c \<in> set (cp_verification (rv_plan rv)).
         vc_class c = Required \<longrightarrow> vc_equivalence c \<noteq> None \<and> observe c = CheckPassed)) \<and>
   (persistent_state_verified (verify_recovery rv observe now) \<longleftrightarrow>
      (\<exists>c \<in> set (cp_verification (rv_plan rv)). vc_equivalence c = Some EqPersistentState) \<and>
      (\<forall>c \<in> set (cp_verification (rv_plan rv)). vc_equivalence c \<noteq> None \<and>
         (vc_equivalence c = Some EqPersistentState \<longrightarrow> observe c = CheckPassed)) \<and>
      (\<forall>u \<in> set (rv_unrecoverable rv). effect_equivalence (ue_domain u) \<noteq> EqPersistentState))"
proof (intro conjI persistent_state_verified_iff)
  show "refusal_for (recovery_results rv observe now) = None \<longleftrightarrow>
      (\<forall>c \<in> set (cp_verification (rv_plan rv)).
         vc_class c = Required \<longrightarrow> vc_equivalence c \<noteq> None \<and> observe c = CheckPassed)"
    unfolding refusal_for_None failed_domain_iff by metis
qed

text \<open>A plan may declare automatic recovery exactly when all six conditions hold.\<close>

lemma auto_recovery_admitted_iff:
  "admits_auto_recovery plan rv enabled = None \<longleftrightarrow>
     (\<exists>r. rv = Some r \<and> fully_constructed r \<and> unrelated_newer_state r = [] \<and> recovery_verification_exists r) \<and>
     irreversible_external plan rv = [] \<and> protection_shortfall plan = [] \<and> enabled"
  by (auto simp: admits_auto_recovery_def unmet_conditions_def Let_def split: option.splits)

section \<open>A recovery in full\<close>

definition file_asset :: RecoveryAsset where
  "file_asset = (asset_proposed (\<lambda>_ _ _ _. asc ''b1'') (asc ''zfs'') ZfsSnapshot (asc ''tank@1'')
     (covering (scope_new (asc ''dataset'') (asc ''tank'') []) (asc ''/etc/a'')) 10)\<lparr>as_state := AssetReady\<rparr>"

definition sample_makers :: "unit Makers" where
  "sample_makers = \<lparr>mk_plan_id = (\<lambda>_ _ _. asc ''r1''), mk_action_id = (\<lambda>_ _ _. asc ''a1''),
     mk_check_id = (\<lambda>_ _ _. asc ''v1''), mk_effect_id = (\<lambda>_ _ _. asc ''e1''), mk_digest = id,
     mk_instant = (\<lambda>_. []), mk_no_impact = (), mk_direct_impact = (\<lambda>_. ())\<rparr>"

definition changing_plan :: "unit Plan" where
  "changing_plan = sealed_sample\<lparr>plan_actions :=
     [(sample_action (Program (asc ''sync'') []))
        \<lparr>effects := [effect_on (\<lambda>_ _ _. []) (effect_new (\<lambda>_ _ _. []) [] FilesystemPersistent Modify Guaranteed []) (asc ''/etc/a''),
                    effect_new (\<lambda>_ _ _. []) [] ExternalSideEffect Emit Guaranteed (asc ''webhook'')]\<rparr>]\<rparr>"

definition restore_fragment :: "RestoreMethod \<Rightarrow> RecoveryPlanFragment" where
  "restore_fragment m = (fragment_new (asc ''zfs'') m)\<lparr>fr_metadata := content_only,
     fr_actions := [sample_action (Program (asc ''restore'') [])]\<rparr>"

definition recovery_request :: "RestoreMethod \<Rightarrow> unit RecoveryRequest" where
  "recovery_request m = \<lparr>rr_registry = [plain_provider], rr_planner = (\<lambda>_ _ _ _. Inr (restore_fragment m)),
     rr_assets = [file_asset], rr_observe = (\<lambda>_. Present (Some 5) []), rr_goal = RestoreChangedObjects,
     rr_session = asc ''s1'', rr_now = 20, rr_source = Some changing_plan, rr_applied_at = None,
     rr_forced_method = None, rr_required_metadata = content_only, rr_required_semantics = [],
     rr_restore_set = [], rr_directory_policy = None, rr_captured = [], rr_destroyed_assets = [],
     rr_discarded_bytes = None, rr_impact = None\<rparr>"

lemmas recovery_run = recovery_request_def restore_fragment_def fragment_new_def file_asset_def asset_proposed_def
  covering_def scope_new_def plain_provider_def sample_makers_def changing_plan_def sealed_sample_def
  sample_plan_def draft_plan_def sample_action_def action_new_def effect_on_def effect_new_def

lemma sample_offers:
  "method_request (recovery_request m) =
     (method_request_new RestoreChangedObjects \<lparr>mf_offers = [offer_new (asc ''zfs'') (asc ''b1'') (asc ''tank@1'') (restore_fragment m)],
        mf_refusals = []\<rparr>)"
  by (simp add: method_request_def method_request_new_def offers_def offer_of_def registry_get_def is_available_def recovery_run)

lemma sample_restores: "restore_set (recovery_request m) = [asc ''/etc/a'']"
  by (simp add: restore_set_def changed_objects_def plan_effects_def covered_def covers_object_def
      domain_is_persistent_def dedupe_def recovery_run)

lemma sample_select:
  assumes "goal_satisfied RestoreChangedObjects m"
  shows "\<exists>s. select_method (method_request (recovery_request m)) = Inr s \<and>
    ms_chosen s = offer_new (asc ''zfs'') (asc ''b1'') (asc ''tank@1'') (restore_fragment m)"
proof -
  have "unmet_metadata content_only content_only = []"
    by (simp add: unmet_metadata_def metadata_pieces_def)
  then show ?thesis using assms
    by (simp add: sample_offers select_method_def select_with_def method_request_new_def rejection_of_def
        choose_method_def unmet_semantics_def offer_new_def restore_fragment_def fragment_new_def Let_def)
qed

lemma sample_change_plan:
  assumes "ms_chosen s = offer_new (asc ''zfs'') (asc ''b1'') (asc ''tank@1'') (restore_fragment m)"
  shows "\<exists>plan. change_plan sample_makers (recovery_request m) s [asc ''/etc/a''] = Inr plan"
proof -
  let ?rr = "recovery_request m" and ?a = "sample_action (Program (asc ''restore'') [])"
  let ?as = "[recover_action sample_makers (asc ''r1'') 0 ?a []]"
  have "dep_rel ?as = {}"
    by (auto simp: dep_rel_def recover_action_def sample_action_def action_new_def Let_def)
  then have acyclic: "acyclic (dep_rel ?as)" by (simp add: acyclic_def)
  have draft: "plan_id (recovery_draft sample_makers ?rr s [asc ''/etc/a'']) = asc ''r1''"
    "plan_actions (recovery_draft sample_makers ?rr s [asc ''/etc/a'']) = []"
    "plan_state (recovery_draft sample_makers ?rr s [asc ''/etc/a'']) = Draft"
    by (simp_all add: recovery_draft_def as_recovery_def draft_plan_def sample_makers_def)
  obtain p where p: "resolve_plan (recovery_draft sample_makers ?rr s [asc ''/etc/a'']) (map (recovery_target s) [asc ''/etc/a'']) = Inr p"
    "plan_id p = asc ''r1''" "plan_actions p = []" "\<not> is_sealed (plan_state p)"
    using draft by (simp add: resolve_plan_def is_sealed_def after_def)
  have covered: "verification sample_makers (asc ''r1'') s [asc ''/etc/a''] ?rr \<noteq> []"
    using verification_covers[of "asc ''/etc/a''" "[asc ''/etc/a'']" sample_makers "asc ''r1''" s ?rr] by auto
  let ?q = "furnished sample_makers ?rr s [asc ''/etc/a''] (p\<lparr>plan_actions := ?as\<rparr>)"
  have "\<exists>plan. seal (mk_digest sample_makers) ?q (rr_now ?rr) = Inr plan"
    using p acyclic covered unfolding seal_Inr by (simp add: furnished_def Let_def)
  moreover have "with_actions p ?as = Inr (p\<lparr>plan_actions := ?as\<rparr>)"
    using with_actions_appends[OF p(4), of ?as] p(3) by simp
  ultimately show ?thesis using p assms
    by (auto simp: change_plan_def Let_def offer_new_def restore_fragment_def fragment_new_def)
qed

lemma sample_recovery:
  assumes "goal_satisfied RestoreChangedObjects m"
  shows "\<exists>rv s. plan_recovery_explained sample_makers (recovery_request m) = Inr (rv, s) \<and>
    rv_restores rv = [asc ''/etc/a''] \<and> ms_chosen s = offer_new (asc ''zfs'') (asc ''b1'') (asc ''tank@1'') (restore_fragment m)"
proof -
  obtain s where s: "select_method (method_request (recovery_request m)) = Inr s"
    "ms_chosen s = offer_new (asc ''zfs'') (asc ''b1'') (asc ''tank@1'') (restore_fragment m)"
    using sample_select[OF assms] by blast
  obtain plan where plan: "change_plan sample_makers (recovery_request m) s [asc ''/etc/a''] = Inr plan"
    using sample_change_plan[OF s(2)] by blast
  have "List.map_filter asset_usable (rr_assets (recovery_request m)) = []" "rr_assets (recovery_request m) \<noteq> []"
    by (simp_all add: asset_usable_def recovery_run)
  then show ?thesis using s plan
    by (simp add: plan_recovery_explained_def sample_restores Let_def recovery_of_def recovery_new_def)
qed

lemma sample_gate:
  assumes "plan_recovery_explained sample_makers (recovery_request m) = Inr (rv, s)"
    "ms_chosen s = offer_new (asc ''zfs'') (asc ''b1'') (asc ''tank@1'') (restore_fragment m)"
  shows "gate_check rv = None"
proof -
  let ?rr = "recovery_request m"
  note planned = planned_parts[OF assms(1)]
  have "\<not> nx_complete (fr_newer_state (mo_fragment (ms_chosen s)))"
    using assms(2) by (simp add: offer_new_def restore_fragment_def fragment_new_def unanalysed_def)
  then have items: "nx_items (rv_newer_state rv) = nx_items (analyse_conflicts (question ?rr s (rv_restores rv)))"
    and none: "nx_destroyed_assets (rv_newer_state rv) = []"
    using planned(3) newer_state_parts[of ?rr s "rv_restores rv"]
    by (simp_all add: destroyed_by_def recovery_request_def dedupe_def)
  have "captured_at ?rr = 10" "rr_captured ?rr = []"
    by (simp_all add: captured_at_def recovery_request_def file_asset_def asset_proposed_def)
  moreover have "fr_captured (mo_fragment (ms_chosen s)) = []"
    using assms(2) by (simp add: offer_new_def restore_fragment_def fragment_new_def)
  moreover have "ob_state ob = Present (Some 5) []"
    if "ob \<in> set (observations ?rr (rv_restores rv) (mo_fragment (ms_chosen s)))" for ob
    using that by (auto simp: observations_def recovery_request_def)
  ultimately have "left_alone (question ?rr s (rv_restores rv)) ob"
    if "ob \<in> set (observations ?rr (rv_restores rv) (mo_fragment (ms_chosen s)))" for ob
    using that by (simp add: left_alone_def is_established_def changed_since_def captured_digest_def conflict_request_def)
  then have "\<forall>i \<in> set (nx_items (rv_newer_state rv)). ni_class i = PreservedByMethod"
    unfolding items nothing_lost_iff by simp
  then show ?thesis using none planned(3) newer_state_parts(1)[of ?rr s "rv_restores rv"]
    by (simp add: gate_passes_iff)
qed



theorem recovery_is_a_sealed_plan_witness:
  "\<exists>rv s. plan_recovery_explained sample_makers (recovery_request SelectiveFileRestore) = Inr (rv, s) \<and>
     plan_state (rv_plan rv) = Sealed \<and> map ft_identity (cp_targets (rv_plan rv)) = [asc ''/etc/a'']"
proof -
  obtain rv s where run: "plan_recovery_explained sample_makers (recovery_request SelectiveFileRestore) = Inr (rv, s)"
    "rv_restores rv = [asc ''/etc/a'']"
    using sample_recovery[of SelectiveFileRestore] by (auto simp: goal_satisfied_def)
  then show ?thesis using recovery_is_a_sealed_plan[OF run(1)] by auto
qed

theorem recovery_claims_are_exact_witness:
  "\<exists>rv s. plan_recovery_explained sample_makers (recovery_request SelectiveFileRestore) = Inr (rv, s) \<and>
     refusal_for (recovery_results rv (\<lambda>_. CheckUnknown) 0) \<noteq> None"
proof -
  obtain rv s where run: "plan_recovery_explained sample_makers (recovery_request SelectiveFileRestore) = Inr (rv, s)"
    "rv_restores rv = [asc ''/etc/a'']" "ms_chosen s = offer_new (asc ''zfs'') (asc ''b1'') (asc ''tank@1'') (restore_fragment SelectiveFileRestore)"
    using sample_recovery[of SelectiveFileRestore] by (auto simp: goal_satisfied_def)
  from planned_parts(7)[OF run(1)] obtain plan where
    plan: "change_plan sample_makers (recovery_request SelectiveFileRestore) s (rv_restores rv) = Inr plan" "rv_plan rv = as_recovery plan" by auto
  have "cp_verification (rv_plan rv) =
      [object_contract sample_makers (recovery_request SelectiveFileRestore) (plan_id plan) (asc ''/etc/a'')]"
    using change_plan_Inr(6)[OF plan(1)] plan(2) run(2,3)
    by (simp add: as_recovery_def verification_def offer_new_def restore_fragment_def fragment_new_def)
  moreover have "vc_class (object_contract sample_makers (recovery_request SelectiveFileRestore) (plan_id plan) (asc ''/etc/a'')) = Required"
    by (simp add: object_contract_def contract_new_def Let_def)
  ultimately have "refusal_for (recovery_results rv (\<lambda>_. CheckUnknown) 0) \<noteq> None"
    using recovery_claims_are_exact[of rv "\<lambda>_. CheckUnknown" 0] by simp
  then show ?thesis using run(1) by blast
qed

section \<open>Where the planning falls short\<close>

text \<open>
  A dataset rollback discards everything written to the dataset since the snapshot.  When the
  provider has not analysed newer state, only the objects the asset names are looked at, and the
  recovery passes the gate as analysed.
\<close>

lemma unanalysed_rollback_passes:
  "\<exists>rv s. plan_recovery_explained sample_makers (recovery_request DatasetRollback) = Inr (rv, s) \<and>
     rv_method rv = DatasetRollback \<and> fr_newer_state (mo_fragment (ms_chosen s)) = unanalysed \<and> gate_check rv = None"
proof -
  obtain rv s where run: "plan_recovery_explained sample_makers (recovery_request DatasetRollback) = Inr (rv, s)"
    "ms_chosen s = offer_new (asc ''zfs'') (asc ''b1'') (asc ''tank@1'') (restore_fragment DatasetRollback)"
    using sample_recovery[of DatasetRollback] by (auto simp: goal_satisfied_def)
  then show ?thesis using sample_gate[OF run] planned_parts(6)[OF run(1)]
    by (auto simp: offer_new_def restore_fragment_def fragment_new_def)
qed

text \<open>
  With assets of different ages, a change between them is not seen: every object is compared with
  the time of the newest asset.
\<close>

lemma fold_max_ge: "x \<in> set ts \<or> x \<le> t \<Longrightarrow> x \<le> fold max ts (t :: int)"
  by (induction ts arbitrary: t) (auto simp: le_max_iff_disj)

lemma change_between_assets_missed:
  assumes "b \<in> set (rr_assets rr)" "t \<le> as_created_at b"
    and "captured_digest (conflict_request rr s objects obs) object = None"
  shows "changed_since (conflict_request rr s objects obs) \<lparr>ob_object = object, ob_state = Present (Some t) digest\<rparr> = Some False"
proof -
  have "as_created_at b \<le> captured_at rr"
    using assms(1) fold_max_ge[of "as_created_at b"]
    by (cases "rr_assets rr") (auto simp: captured_at_def)
  then show ?thesis using assms(2,3) by (simp add: changed_since_def conflict_request_def)
qed

text \<open>A dependency on an action the provider lists later is dropped.\<close>

lemma forward_dependency_dropped:
  "depends_on (hd (recover_actions mk plan n (a # rest) [])) = []"
  by (simp add: recover_action_def Let_def List.map_filter_def)

text \<open>Of two findings a provider reports about one object, the second is dropped, even a loss.\<close>

lemma second_finding_dropped:
  "add_provider_items [] [item_new x PreservedByMethod d, item_new x DiscardedByMethod e] [] =
     [item_new x PreservedByMethod d]"
  by (simp add: item_new_def)

end
