(* ===== verification/Permission.thy ===== *)
theory Permission
  imports Ono_Text
begin

text \<open>
  The permission layer of the plugin protocol: the capability families and their scope keys
  (\<open>crates/ono-kuang-protocol/src/capability.rs\<close>) and what a user grants, projected onto them
  (\<open>permission.rs\<close>): consent classes, the risk floor, declared sections and their validation, the
  permissions derived for a package that declares none, and the delta of an upgrade.  The shapes a
  YAML reader hands over are arguments; how a JSON value is printed is the argument \<open>js\<close>.
  The theory shows what a validated section can hold: no profile offered by default carries
  authority to change anything, no risk lies below the host's floor, and package text reaches the
  screen without control characters.
\<close>

section \<open>Values and words\<close>

text \<open>
  \<open>serde_json::Value\<close>.  An object keeps its members in the order they were written
  (the build turns on \<open>preserve_order\<close>), a number is kept as its text.
\<close>

datatype Json =
  JNull | JBool bool | JNumber ustr | JString ustr | JArray "Json list" | JObject "(ustr \<times> Json) list"

type_synonym scope_map = "(ustr \<times> Json) list"

definition is_ascii_lowercase :: "nat \<Rightarrow> bool" where
  "is_ascii_lowercase c \<longleftrightarrow> 97 \<le> c \<and> c \<le> 122"

text \<open>\<open>str::contains("--")\<close>.\<close>

fun double_dash :: "ustr \<Rightarrow> bool" where
  "double_dash (a # b # s) \<longleftrightarrow> a = 45 \<and> b = 45 \<or> double_dash (b # s)"
| "double_dash _ \<longleftrightarrow> False"

definition is_role_word :: "ustr \<Rightarrow> bool" where
  "is_role_word word \<longleftrightarrow>
     (case word of [] \<Rightarrow> False | first # _ \<Rightarrow> is_ascii_lowercase first) \<and>
     list_all (\<lambda>c. is_ascii_lowercase c \<or> is_ascii_digit c \<or> c = 45) word \<and>
     \<not> (word \<noteq> [] \<and> last word = 45) \<and> \<not> double_dash word"

definition is_permission_id :: "ustr \<Rightarrow> bool" where
  "is_permission_id i = is_role_word i"

section \<open>Capability families\<close>

datatype Risk = RiskRead | RiskObserve | RiskMutate | RiskDestructive

datatype Elevation = NoElevation | ConditionalElevation | RequiredElevation

datatype Enforcement = Broker | Advisory

datatype ScopeKind =
  PathGlob | HostList | PortList | NameList | IdList | SignalList | Predicate | Window | ClassList

record ScopeKey =
  sk_name :: ustr
  sk_kind :: ScopeKind
  sk_enforcement :: Enforcement

definition broker :: "ustr \<Rightarrow> ScopeKind \<Rightarrow> ScopeKey" where
  "broker name kind = \<lparr>sk_name = name, sk_kind = kind, sk_enforcement = Broker\<rparr>"

definition advisory :: "ustr \<Rightarrow> ScopeKind \<Rightarrow> ScopeKey" where
  "advisory name kind = \<lparr>sk_name = name, sk_kind = kind, sk_enforcement = Advisory\<rparr>"

datatype Capability =
  ObjectRead | SchemaRead | ProcessRead | ProcessSignal | ProcessExec | FilesystemRead
  | FilesystemWrite | FilesystemWatch | NetworkObserve | NetworkConnect | NetworkListen
  | ServiceRead | ServiceMutate | ContainerRead | ContainerExec | RemoteRead | RemoteMutate
  | HistoryRead | HistoryWrite | ContextRead | UiView | UiNotify | RelationRead | RelationWrite
  | SecretUse | ModelInfer | PluginInvoke | StatePersist | ClockRead | ProviderMutate
  | TemporalReadCurrent | TemporalReadHistory | TemporalReadEvidence | TemporalContributeEvents
  | TemporalContributeCausality | TemporalRecorderManage | ChangePlanRead | ChangePlanContribute
  | ChangeActionExecute | VerificationObserve | RecoveryDiscover | RecoveryPrepare
  | RecoveryRestore | RecoveryCleanup | RecoveryEstimateCost | RecoveryQuiesce
  | RecoveryTransaction

definition Capability_ALL :: "Capability list" where
  "Capability_ALL =
    [ObjectRead, SchemaRead, ProcessRead, ProcessSignal, ProcessExec, FilesystemRead,
     FilesystemWrite, FilesystemWatch, NetworkObserve, NetworkConnect, NetworkListen,
     ServiceRead, ServiceMutate, ContainerRead, ContainerExec, RemoteRead, RemoteMutate,
     HistoryRead, HistoryWrite, ContextRead, UiView, UiNotify, RelationRead, RelationWrite,
     SecretUse, ModelInfer, PluginInvoke, StatePersist, ClockRead, ProviderMutate,
     TemporalReadCurrent, TemporalReadHistory, TemporalReadEvidence, TemporalContributeEvents,
     TemporalContributeCausality, TemporalRecorderManage, ChangePlanRead, ChangePlanContribute,
     ChangeActionExecute, VerificationObserve, RecoveryDiscover, RecoveryPrepare,
     RecoveryRestore, RecoveryCleanup, RecoveryEstimateCost, RecoveryQuiesce, RecoveryTransaction]"

primrec Capability_id :: "Capability \<Rightarrow> ustr" where
  "Capability_id ObjectRead = asc ''object.read''"
| "Capability_id SchemaRead = asc ''schema.read''"
| "Capability_id ProcessRead = asc ''process.read''"
| "Capability_id ProcessSignal = asc ''process.signal''"
| "Capability_id ProcessExec = asc ''process.exec''"
| "Capability_id FilesystemRead = asc ''filesystem.read''"
| "Capability_id FilesystemWrite = asc ''filesystem.write''"
| "Capability_id FilesystemWatch = asc ''filesystem.watch''"
| "Capability_id NetworkObserve = asc ''network.observe''"
| "Capability_id NetworkConnect = asc ''network.connect''"
| "Capability_id NetworkListen = asc ''network.listen''"
| "Capability_id ServiceRead = asc ''service.read''"
| "Capability_id ServiceMutate = asc ''service.mutate''"
| "Capability_id ContainerRead = asc ''container.read''"
| "Capability_id ContainerExec = asc ''container.exec''"
| "Capability_id RemoteRead = asc ''remote.read''"
| "Capability_id RemoteMutate = asc ''remote.mutate''"
| "Capability_id HistoryRead = asc ''history.read''"
| "Capability_id HistoryWrite = asc ''history.write''"
| "Capability_id ContextRead = asc ''context.read''"
| "Capability_id UiView = asc ''ui.view''"
| "Capability_id UiNotify = asc ''ui.notify''"
| "Capability_id RelationRead = asc ''relation.read''"
| "Capability_id RelationWrite = asc ''relation.write''"
| "Capability_id SecretUse = asc ''secret.use''"
| "Capability_id ModelInfer = asc ''model.infer''"
| "Capability_id PluginInvoke = asc ''plugin.invoke''"
| "Capability_id StatePersist = asc ''state.persist''"
| "Capability_id ClockRead = asc ''clock.read''"
| "Capability_id ProviderMutate = asc ''provider.mutate''"
| "Capability_id TemporalReadCurrent = asc ''temporal.read.current''"
| "Capability_id TemporalReadHistory = asc ''temporal.read.history''"
| "Capability_id TemporalReadEvidence = asc ''temporal.read.evidence''"
| "Capability_id TemporalContributeEvents = asc ''temporal.contribute.events''"
| "Capability_id TemporalContributeCausality = asc ''temporal.contribute.causality''"
| "Capability_id TemporalRecorderManage = asc ''temporal.recorder.manage''"
| "Capability_id ChangePlanRead = asc ''change.plan.read''"
| "Capability_id ChangePlanContribute = asc ''change.plan.contribute''"
| "Capability_id ChangeActionExecute = asc ''change.action.execute''"
| "Capability_id VerificationObserve = asc ''verification.observe''"
| "Capability_id RecoveryDiscover = asc ''recovery.discover''"
| "Capability_id RecoveryPrepare = asc ''recovery.prepare''"
| "Capability_id RecoveryRestore = asc ''recovery.restore''"
| "Capability_id RecoveryCleanup = asc ''recovery.cleanup''"
| "Capability_id RecoveryEstimateCost = asc ''recovery.estimate-cost''"
| "Capability_id RecoveryQuiesce = asc ''recovery.quiesce''"
| "Capability_id RecoveryTransaction = asc ''recovery.transaction''"

primrec Capability_risk :: "Capability \<Rightarrow> Risk" where
  "Capability_risk ObjectRead = RiskRead"
| "Capability_risk SchemaRead = RiskRead"
| "Capability_risk ProcessRead = RiskRead"
| "Capability_risk ProcessSignal = RiskMutate"
| "Capability_risk ProcessExec = RiskMutate"
| "Capability_risk FilesystemRead = RiskRead"
| "Capability_risk FilesystemWrite = RiskDestructive"
| "Capability_risk FilesystemWatch = RiskObserve"
| "Capability_risk NetworkObserve = RiskRead"
| "Capability_risk NetworkConnect = RiskMutate"
| "Capability_risk NetworkListen = RiskMutate"
| "Capability_risk ServiceRead = RiskRead"
| "Capability_risk ServiceMutate = RiskMutate"
| "Capability_risk ContainerRead = RiskRead"
| "Capability_risk ContainerExec = RiskMutate"
| "Capability_risk RemoteRead = RiskRead"
| "Capability_risk RemoteMutate = RiskMutate"
| "Capability_risk HistoryRead = RiskRead"
| "Capability_risk HistoryWrite = RiskMutate"
| "Capability_risk ContextRead = RiskRead"
| "Capability_risk UiView = RiskRead"
| "Capability_risk UiNotify = RiskMutate"
| "Capability_risk RelationRead = RiskRead"
| "Capability_risk RelationWrite = RiskMutate"
| "Capability_risk SecretUse = RiskMutate"
| "Capability_risk ModelInfer = RiskMutate"
| "Capability_risk PluginInvoke = RiskMutate"
| "Capability_risk StatePersist = RiskMutate"
| "Capability_risk ClockRead = RiskRead"
| "Capability_risk ProviderMutate = RiskMutate"
| "Capability_risk TemporalReadCurrent = RiskRead"
| "Capability_risk TemporalReadHistory = RiskRead"
| "Capability_risk TemporalReadEvidence = RiskRead"
| "Capability_risk TemporalContributeEvents = RiskMutate"
| "Capability_risk TemporalContributeCausality = RiskMutate"
| "Capability_risk TemporalRecorderManage = RiskMutate"
| "Capability_risk ChangePlanRead = RiskRead"
| "Capability_risk ChangePlanContribute = RiskObserve"
| "Capability_risk ChangeActionExecute = RiskMutate"
| "Capability_risk VerificationObserve = RiskRead"
| "Capability_risk RecoveryDiscover = RiskRead"
| "Capability_risk RecoveryPrepare = RiskMutate"
| "Capability_risk RecoveryRestore = RiskDestructive"
| "Capability_risk RecoveryCleanup = RiskMutate"
| "Capability_risk RecoveryEstimateCost = RiskRead"
| "Capability_risk RecoveryQuiesce = RiskMutate"
| "Capability_risk RecoveryTransaction = RiskMutate"

primrec Capability_elevation :: "Capability \<Rightarrow> Elevation" where
  "Capability_elevation ObjectRead = NoElevation"
| "Capability_elevation SchemaRead = NoElevation"
| "Capability_elevation ProcessRead = NoElevation"
| "Capability_elevation ProcessSignal = ConditionalElevation"
| "Capability_elevation ProcessExec = ConditionalElevation"
| "Capability_elevation FilesystemRead = ConditionalElevation"
| "Capability_elevation FilesystemWrite = ConditionalElevation"
| "Capability_elevation FilesystemWatch = ConditionalElevation"
| "Capability_elevation NetworkObserve = ConditionalElevation"
| "Capability_elevation NetworkConnect = NoElevation"
| "Capability_elevation NetworkListen = ConditionalElevation"
| "Capability_elevation ServiceRead = NoElevation"
| "Capability_elevation ServiceMutate = RequiredElevation"
| "Capability_elevation ContainerRead = ConditionalElevation"
| "Capability_elevation ContainerExec = ConditionalElevation"
| "Capability_elevation RemoteRead = NoElevation"
| "Capability_elevation RemoteMutate = ConditionalElevation"
| "Capability_elevation HistoryRead = NoElevation"
| "Capability_elevation HistoryWrite = NoElevation"
| "Capability_elevation ContextRead = NoElevation"
| "Capability_elevation UiView = NoElevation"
| "Capability_elevation UiNotify = NoElevation"
| "Capability_elevation RelationRead = NoElevation"
| "Capability_elevation RelationWrite = NoElevation"
| "Capability_elevation SecretUse = NoElevation"
| "Capability_elevation ModelInfer = NoElevation"
| "Capability_elevation PluginInvoke = NoElevation"
| "Capability_elevation StatePersist = NoElevation"
| "Capability_elevation ClockRead = NoElevation"
| "Capability_elevation ProviderMutate = NoElevation"
| "Capability_elevation TemporalReadCurrent = NoElevation"
| "Capability_elevation TemporalReadHistory = NoElevation"
| "Capability_elevation TemporalReadEvidence = NoElevation"
| "Capability_elevation TemporalContributeEvents = NoElevation"
| "Capability_elevation TemporalContributeCausality = NoElevation"
| "Capability_elevation TemporalRecorderManage = NoElevation"
| "Capability_elevation ChangePlanRead = NoElevation"
| "Capability_elevation ChangePlanContribute = NoElevation"
| "Capability_elevation ChangeActionExecute = ConditionalElevation"
| "Capability_elevation VerificationObserve = NoElevation"
| "Capability_elevation RecoveryDiscover = NoElevation"
| "Capability_elevation RecoveryPrepare = ConditionalElevation"
| "Capability_elevation RecoveryRestore = RequiredElevation"
| "Capability_elevation RecoveryCleanup = ConditionalElevation"
| "Capability_elevation RecoveryEstimateCost = NoElevation"
| "Capability_elevation RecoveryQuiesce = ConditionalElevation"
| "Capability_elevation RecoveryTransaction = ConditionalElevation"

primrec scope_keys :: "Capability \<Rightarrow> ScopeKey list" where
  "scope_keys ObjectRead = [broker (asc ''schemas'') IdList, broker (asc ''targets'') IdList]"
| "scope_keys SchemaRead = []"
| "scope_keys ProcessRead = [broker (asc ''selector'') Predicate]"
| "scope_keys ProcessSignal = [broker (asc ''signals'') SignalList, broker (asc ''selector'') Predicate]"
| "scope_keys ProcessExec = [broker (asc ''programs'') PathGlob, broker (asc ''executables'') IdList, broker (asc ''argv_policy'') NameList]"
| "scope_keys FilesystemRead = [broker (asc ''paths'') PathGlob]"
| "scope_keys FilesystemWrite = [broker (asc ''paths'') PathGlob]"
| "scope_keys FilesystemWatch = [broker (asc ''paths'') PathGlob]"
| "scope_keys NetworkObserve = []"
| "scope_keys NetworkConnect = [broker (asc ''hosts'') HostList, broker (asc ''ports'') PortList]"
| "scope_keys NetworkListen = [broker (asc ''ports'') PortList]"
| "scope_keys ServiceRead = [broker (asc ''units'') NameList]"
| "scope_keys ServiceMutate = [broker (asc ''units'') NameList]"
| "scope_keys ContainerRead = [broker (asc ''containers'') NameList]"
| "scope_keys ContainerExec = [broker (asc ''containers'') NameList]"
| "scope_keys RemoteRead = [broker (asc ''links'') NameList]"
| "scope_keys RemoteMutate = [broker (asc ''links'') NameList]"
| "scope_keys HistoryRead = [broker (asc ''window'') Window]"
| "scope_keys HistoryWrite = []"
| "scope_keys ContextRead = []"
| "scope_keys UiView = []"
| "scope_keys UiNotify = []"
| "scope_keys RelationRead = []"
| "scope_keys RelationWrite = [broker (asc ''relations'') IdList]"
| "scope_keys SecretUse = [broker (asc ''secrets'') NameList]"
| "scope_keys ModelInfer = [broker (asc ''providers'') NameList, advisory (asc ''data_class'') ClassList]"
| "scope_keys PluginInvoke = [broker (asc ''plugins'') NameList]"
| "scope_keys StatePersist = []"
| "scope_keys ClockRead = []"
| "scope_keys ProviderMutate = [advisory (asc ''instances'') IdList, advisory (asc ''resources'') IdList, advisory (asc ''actions'') NameList]"
| "scope_keys TemporalReadCurrent = []"
| "scope_keys TemporalReadHistory = [broker (asc ''window'') Window]"
| "scope_keys TemporalReadEvidence = []"
| "scope_keys TemporalContributeEvents = [broker (asc ''kinds'') NameList]"
| "scope_keys TemporalContributeCausality = [broker (asc ''rules'') IdList]"
| "scope_keys TemporalRecorderManage = []"
| "scope_keys ChangePlanRead = [broker (asc ''plans'') IdList, broker (asc ''schemas'') IdList]"
| "scope_keys ChangePlanContribute = [advisory (asc ''schemas'') IdList]"
| "scope_keys ChangeActionExecute = [advisory (asc ''schemas'') IdList, advisory (asc ''plans'') IdList]"
| "scope_keys VerificationObserve = [advisory (asc ''schemas'') IdList]"
| "scope_keys RecoveryDiscover = [broker (asc ''domain_kinds'') NameList]"
| "scope_keys RecoveryPrepare = [broker (asc ''domain_kinds'') NameList, broker (asc ''scopes'') IdList]"
| "scope_keys RecoveryRestore = [broker (asc ''domain_kinds'') NameList, broker (asc ''scopes'') IdList]"
| "scope_keys RecoveryCleanup = [broker (asc ''domain_kinds'') NameList, broker (asc ''scopes'') IdList]"
| "scope_keys RecoveryEstimateCost = [broker (asc ''domain_kinds'') NameList]"
| "scope_keys RecoveryQuiesce = [advisory (asc ''applications'') NameList]"
| "scope_keys RecoveryTransaction = [advisory (asc ''applications'') NameList]"

primrec family_title :: "Capability \<Rightarrow> ustr" where
  "family_title ObjectRead = asc ''Read objects Ono already knows''"
| "family_title SchemaRead = asc ''Read object schemas''"
| "family_title ProcessRead = asc ''Read processes''"
| "family_title ProcessSignal = asc ''Send signals to processes''"
| "family_title ProcessExec = asc ''Run external programs''"
| "family_title FilesystemRead = asc ''Read files''"
| "family_title FilesystemWrite = asc ''Create, change or delete files''"
| "family_title FilesystemWatch = asc ''Watch files for changes''"
| "family_title NetworkObserve = asc ''Observe network state''"
| "family_title NetworkConnect = asc ''Connect to network hosts''"
| "family_title NetworkListen = asc ''Accept incoming network connections''"
| "family_title ServiceRead = asc ''Read services''"
| "family_title ServiceMutate = asc ''Start, stop or change services''"
| "family_title ContainerRead = asc ''Read containers''"
| "family_title ContainerExec = asc ''Run programs inside containers''"
| "family_title RemoteRead = asc ''Read objects on linked hosts''"
| "family_title RemoteMutate = asc ''Change objects on linked hosts''"
| "family_title HistoryRead = asc ''Read the session history''"
| "family_title HistoryWrite = asc ''Add entries to the session history''"
| "family_title ContextRead = asc ''Read the current context''"
| "family_title UiView = asc ''Show a view in the terminal''"
| "family_title UiNotify = asc ''Show notifications''"
| "family_title RelationRead = asc ''Read relationships''"
| "family_title RelationWrite = asc ''Add relationships to Ono''"
| "family_title SecretUse = asc ''Use secrets without exposing their values''"
| "family_title ModelInfer = asc ''Send requests to a model provider''"
| "family_title PluginInvoke = asc ''Invoke other plugins''"
| "family_title StatePersist = asc ''Keep its own state between sessions''"
| "family_title ClockRead = asc ''Read the clock''"
| "family_title ProviderMutate = asc ''Change resources in the external system''"
| "family_title TemporalReadCurrent = asc ''Read the current time context''"
| "family_title TemporalReadHistory = asc ''Read this machine's recorded history''"
| "family_title TemporalReadEvidence = asc ''Read the evidence behind temporal claims''"
| "family_title TemporalContributeEvents = asc ''Add events to Ono's temporal record''"
| "family_title TemporalContributeCausality = asc ''Add causal explanations to Ono''"
| "family_title TemporalRecorderManage = asc ''Start and stop the history recorder''"
| "family_title ChangePlanRead = asc ''Read change plans and their impact''"
| "family_title ChangePlanContribute = asc ''Contribute to change plans''"
| "family_title ChangeActionExecute = asc ''Carry out changes a plan describes''"
| "family_title VerificationObserve = asc ''Observe whether a change achieved what it intended''"
| "family_title RecoveryDiscover = asc ''Find what could protect a change''"
| "family_title RecoveryPrepare = asc ''Create recovery points''"
| "family_title RecoveryRestore = asc ''Restore state from a recovery point''"
| "family_title RecoveryCleanup = asc ''Remove recovery points''"
| "family_title RecoveryEstimateCost = asc ''Report what recovery points cost''"
| "family_title RecoveryQuiesce = asc ''Pause an application to capture consistent state''"
| "family_title RecoveryTransaction = asc ''Run transactions inside its own provider boundary''"

definition Capability_from_id :: "ustr \<Rightarrow> Capability option" where
  "Capability_from_id i = find (\<lambda>family. Capability_id family = i) Capability_ALL"

datatype DeclarationClass = Required | Optional | RuntimeRequested

record CapabilityRequest =
  cr_capability :: Capability
  cr_scope :: "scope_map option"
  cr_roles :: "ustr list option"
  cr_purpose :: "ustr option"

section \<open>The permission vocabulary\<close>

definition TITLE_LIMIT :: nat where "TITLE_LIMIT = 120"

definition PURPOSE_LIMIT :: nat where "PURPOSE_LIMIT = 240"

datatype PermissionKind =
  KindExternalObserve | KindExternalChange | KindFilesystemRead | KindFilesystemWrite
  | KindExecuteHelper | KindSecretUse | KindLocalContribution | KindModelUse | KindHostObserve
  | KindHostChange | KindOtherSensitive

definition PermissionKind_ALL :: "PermissionKind list" where
  "PermissionKind_ALL =
     [KindExternalObserve, KindExternalChange, KindFilesystemRead, KindFilesystemWrite,
      KindExecuteHelper, KindSecretUse, KindLocalContribution, KindModelUse, KindHostObserve,
      KindHostChange, KindOtherSensitive]"

fun PermissionKind_id :: "PermissionKind \<Rightarrow> ustr" where
  "PermissionKind_id KindExternalObserve = asc ''external-observe''"
| "PermissionKind_id KindExternalChange = asc ''external-change''"
| "PermissionKind_id KindFilesystemRead = asc ''filesystem-read''"
| "PermissionKind_id KindFilesystemWrite = asc ''filesystem-write''"
| "PermissionKind_id KindExecuteHelper = asc ''execute-helper''"
| "PermissionKind_id KindSecretUse = asc ''secret-use''"
| "PermissionKind_id KindLocalContribution = asc ''local-contribution''"
| "PermissionKind_id KindModelUse = asc ''model-use''"
| "PermissionKind_id KindHostObserve = asc ''host-observe''"
| "PermissionKind_id KindHostChange = asc ''host-change''"
| "PermissionKind_id KindOtherSensitive = asc ''other-sensitive''"

definition PermissionKind_from_id :: "ustr \<Rightarrow> PermissionKind option" where
  "PermissionKind_from_id i = find (\<lambda>v. PermissionKind_id v = i) PermissionKind_ALL"

datatype PermissionPhase = PhaseAutomatic | PhaseInstall | PhaseJit | PhaseExplicit

definition PermissionPhase_ALL :: "PermissionPhase list" where
  "PermissionPhase_ALL = [PhaseAutomatic, PhaseInstall, PhaseJit, PhaseExplicit]"

fun PermissionPhase_id :: "PermissionPhase \<Rightarrow> ustr" where
  "PermissionPhase_id PhaseAutomatic = asc ''automatic''"
| "PermissionPhase_id PhaseInstall = asc ''install''"
| "PermissionPhase_id PhaseJit = asc ''jit''"
| "PermissionPhase_id PhaseExplicit = asc ''explicit''"

definition PermissionPhase_from_id :: "ustr \<Rightarrow> PermissionPhase option" where
  "PermissionPhase_from_id i = find (\<lambda>v. PermissionPhase_id v = i) PermissionPhase_ALL"

datatype PermissionRisk =
  PRiskLocal | PRiskObserve | PRiskSensitiveRead | PRiskExecute | PRiskMutate | PRiskDestructive

definition PermissionRisk_ALL :: "PermissionRisk list" where
  "PermissionRisk_ALL =
     [PRiskLocal, PRiskObserve, PRiskSensitiveRead, PRiskExecute, PRiskMutate, PRiskDestructive]"

fun PermissionRisk_id :: "PermissionRisk \<Rightarrow> ustr" where
  "PermissionRisk_id PRiskLocal = asc ''local''"
| "PermissionRisk_id PRiskObserve = asc ''observe''"
| "PermissionRisk_id PRiskSensitiveRead = asc ''sensitive-read''"
| "PermissionRisk_id PRiskExecute = asc ''execute''"
| "PermissionRisk_id PRiskMutate = asc ''mutate''"
| "PermissionRisk_id PRiskDestructive = asc ''destructive''"

definition PermissionRisk_from_id :: "ustr \<Rightarrow> PermissionRisk option" where
  "PermissionRisk_from_id i = find (\<lambda>v. PermissionRisk_id v = i) PermissionRisk_ALL"

datatype ConsentClass =
  ClassExtensionLocal | ClassObservation | ClassConditional | ClassExplicit | ClassDestructive

text \<open>The derived orders of the source: declaration order.\<close>

fun phase_rank :: "PermissionPhase \<Rightarrow> nat" where
  "phase_rank PhaseAutomatic = 0"
| "phase_rank PhaseInstall = 1"
| "phase_rank PhaseJit = 2"
| "phase_rank PhaseExplicit = 3"

fun risk_rank :: "PermissionRisk \<Rightarrow> nat" where
  "risk_rank PRiskLocal = 0"
| "risk_rank PRiskObserve = 1"
| "risk_rank PRiskSensitiveRead = 2"
| "risk_rank PRiskExecute = 3"
| "risk_rank PRiskMutate = 4"
| "risk_rank PRiskDestructive = 5"

fun consent_rank :: "ConsentClass \<Rightarrow> nat" where
  "consent_rank ClassExtensionLocal = 0"
| "consent_rank ClassObservation = 1"
| "consent_rank ClassConditional = 2"
| "consent_rank ClassExplicit = 3"
| "consent_rank ClassDestructive = 4"

lemma rank_inj [simp]:
  "phase_rank p = phase_rank q \<longleftrightarrow> p = q"
  "risk_rank r = risk_rank s \<longleftrightarrow> r = s"
  "consent_rank c = consent_rank d \<longleftrightarrow> c = d"
    apply (cases p; cases q; simp)
   apply (cases r; cases s; simp)
  apply (cases c; cases d; simp)
  done

instantiation PermissionPhase :: linorder
begin

definition less_eq_PermissionPhase :: "PermissionPhase \<Rightarrow> PermissionPhase \<Rightarrow> bool" where
  "less_eq_PermissionPhase p q \<longleftrightarrow> phase_rank p \<le> phase_rank q"

definition less_PermissionPhase :: "PermissionPhase \<Rightarrow> PermissionPhase \<Rightarrow> bool" where
  "less_PermissionPhase p q \<longleftrightarrow> phase_rank p < phase_rank q"

instance
  by standard (auto simp: less_eq_PermissionPhase_def less_PermissionPhase_def)

end

instantiation PermissionRisk :: linorder
begin

definition less_eq_PermissionRisk :: "PermissionRisk \<Rightarrow> PermissionRisk \<Rightarrow> bool" where
  "less_eq_PermissionRisk r s \<longleftrightarrow> risk_rank r \<le> risk_rank s"

definition less_PermissionRisk :: "PermissionRisk \<Rightarrow> PermissionRisk \<Rightarrow> bool" where
  "less_PermissionRisk r s \<longleftrightarrow> risk_rank r < risk_rank s"

instance
  by standard (auto simp: less_eq_PermissionRisk_def less_PermissionRisk_def)

end

instantiation ConsentClass :: linorder
begin

definition less_eq_ConsentClass :: "ConsentClass \<Rightarrow> ConsentClass \<Rightarrow> bool" where
  "less_eq_ConsentClass c d \<longleftrightarrow> consent_rank c \<le> consent_rank d"

definition less_ConsentClass :: "ConsentClass \<Rightarrow> ConsentClass \<Rightarrow> bool" where
  "less_ConsentClass c d \<longleftrightarrow> consent_rank c < consent_rank d"

instance
  by standard (auto simp: less_eq_ConsentClass_def less_ConsentClass_def)

end

lemmas permission_orders =
  less_eq_PermissionPhase_def less_PermissionPhase_def less_eq_PermissionRisk_def
  less_PermissionRisk_def less_eq_ConsentClass_def less_ConsentClass_def

text \<open>\<open>Iterator::max().unwrap_or(least)\<close>.\<close>

fun max_or :: "'a::linorder \<Rightarrow> 'a list \<Rightarrow> 'a" where
  "max_or least [] = least"
| "max_or least (x # xs) = foldl max x xs"

fun letter :: "ConsentClass \<Rightarrow> nat" where
  "letter ClassExtensionLocal = 65"
| "letter ClassObservation = 66"
| "letter ClassConditional = 67"
| "letter ClassExplicit = 68"
| "letter ClassDestructive = 69"

fun allowed_phases :: "ConsentClass \<Rightarrow> PermissionPhase list" where
  "allowed_phases ClassExtensionLocal = [PhaseAutomatic, PhaseInstall, PhaseJit, PhaseExplicit]"
| "allowed_phases ClassObservation = [PhaseInstall, PhaseJit, PhaseExplicit]"
| "allowed_phases ClassConditional = [PhaseJit, PhaseExplicit]"
| "allowed_phases ClassExplicit = [PhaseExplicit]"
| "allowed_phases ClassDestructive = [PhaseExplicit]"

fun derived_phase :: "ConsentClass \<Rightarrow> PermissionPhase" where
  "derived_phase ClassExtensionLocal = PhaseAutomatic"
| "derived_phase ClassObservation = PhaseInstall"
| "derived_phase ClassConditional = PhaseJit"
| "derived_phase ClassExplicit = PhaseExplicit"
| "derived_phase ClassDestructive = PhaseExplicit"

section \<open>Scopes, grants and descriptors\<close>

datatype ScopeTemplate =
  Concrete scope_map | RuntimeDerived | PackageContributions | ProviderInstance

fun scope_word :: "ScopeTemplate \<Rightarrow> ustr option" where
  "scope_word (Concrete _) = None"
| "scope_word RuntimeDerived = Some (asc ''runtime-derived'')"
| "scope_word PackageContributions = Some (asc ''package-contributions'')"
| "scope_word ProviderInstance = Some (asc ''provider-instance'')"

fun as_json :: "ScopeTemplate \<Rightarrow> Json" where
  "as_json (Concrete scope) = JObject scope"
| "as_json other = JString (case scope_word other of Some w \<Rightarrow> w | None \<Rightarrow> [])"

fun concrete :: "ScopeTemplate \<Rightarrow> scope_map option" where
  "concrete (Concrete scope) = Some scope"
| "concrete _ = None"

definition has_key :: "scope_map \<Rightarrow> ustr \<Rightarrow> bool" where
  "has_key scope key \<longleftrightarrow> map_of scope key \<noteq> None"

text \<open>
  The consent class of a family in a scope: \<open>relation.write\<close> is class A when its scope names
  relations, every other family's class is fixed.
\<close>

definition consent_class :: "Capability \<Rightarrow> ScopeTemplate option \<Rightarrow> ConsentClass" where
  "consent_class capability scope =
     (if capability = RelationWrite then
        (case scope of
           Some PackageContributions \<Rightarrow> ClassExtensionLocal
         | Some (Concrete s) \<Rightarrow>
             (if has_key s (asc ''relations'') then ClassExtensionLocal else ClassExplicit)
         | _ \<Rightarrow> ClassExplicit)
      else if capability \<in> set [ClockRead, StatePersist, HistoryWrite, UiView, UiNotify, SchemaRead] then
        ClassExtensionLocal
      else if capability \<in> set [ObjectRead, ProcessRead, NetworkObserve, ServiceRead, ContainerRead,
        RemoteRead, FilesystemWatch, NetworkConnect, ContextRead, RelationRead, HistoryRead,
        FilesystemRead, TemporalReadCurrent, TemporalReadHistory, TemporalReadEvidence,
        ChangePlanRead, ChangePlanContribute, VerificationObserve, RecoveryDiscover,
        RecoveryEstimateCost, SecretUse] then ClassObservation
      else if capability \<in> set [ProcessExec, ContainerExec] then ClassConditional
      else if capability \<in> set [RecoveryRestore, FilesystemWrite] then ClassDestructive
      else ClassExplicit)"

definition minimum_risk :: "Capability \<Rightarrow> ScopeTemplate option \<Rightarrow> PermissionRisk" where
  "minimum_risk capability scope =
     (if capability \<in> set [FilesystemRead, SecretUse, TemporalReadHistory] then PRiskSensitiveRead
      else if capability \<in> set [ProcessExec, ContainerExec] then PRiskExecute
      else if capability \<in> set [FilesystemWrite, RecoveryRestore] then PRiskDestructive
      else (case consent_class capability scope of
              ClassExtensionLocal \<Rightarrow> PRiskLocal
            | ClassObservation \<Rightarrow> PRiskObserve
            | ClassConditional \<Rightarrow> PRiskExecute
            | ClassExplicit \<Rightarrow> PRiskMutate
            | ClassDestructive \<Rightarrow> PRiskDestructive))"

definition default_kind :: "Capability \<Rightarrow> ScopeTemplate option \<Rightarrow> PermissionKind" where
  "default_kind capability scope =
     (if capability = NetworkConnect then KindExternalObserve
      else if capability \<in> set [ProviderMutate, RecoveryQuiesce, RecoveryTransaction] then
        KindExternalChange
      else if capability \<in> set [FilesystemRead, FilesystemWatch] then KindFilesystemRead
      else if capability = FilesystemWrite then KindFilesystemWrite
      else if capability \<in> set [ProcessExec, ContainerExec] then KindExecuteHelper
      else if capability = SecretUse then KindSecretUse
      else if capability = ModelInfer then KindModelUse
      else if capability = RelationWrite then
        (if consent_class capability scope = ClassExtensionLocal then KindLocalContribution
         else KindHostChange)
      else if capability \<in> set [ClockRead, StatePersist, HistoryWrite, UiView, UiNotify, SchemaRead,
        ChangePlanContribute] then KindLocalContribution
      else if capability \<in> set [ObjectRead, ProcessRead, NetworkObserve, ServiceRead, ContainerRead,
        RemoteRead, ContextRead, RelationRead, HistoryRead, TemporalReadCurrent,
        TemporalReadHistory, TemporalReadEvidence, ChangePlanRead, VerificationObserve,
        RecoveryDiscover, RecoveryEstimateCost] then KindHostObserve
      else KindHostChange)"

record GrantTemplate =
  gt_capability :: Capability
  gt_scope :: "ScopeTemplate option"

definition grant_consent_class :: "GrantTemplate \<Rightarrow> ConsentClass" where
  "grant_consent_class g = consent_class (gt_capability g) (gt_scope g)"

definition grant_enforcement :: "GrantTemplate \<Rightarrow> Enforcement" where
  "grant_enforcement g =
     (let keys = scope_keys (gt_capability g);
          advises = (case gt_scope g of
             Some (Concrete scope) \<Rightarrow>
               list_ex (\<lambda>(key, _). list_ex (\<lambda>declared. sk_name declared = key \<and>
                 sk_enforcement declared = Advisory) keys) scope
           | Some ProviderInstance \<Rightarrow> True
           | _ \<Rightarrow> False)
      in if advises then Advisory else Broker)"

record PermissionDescriptor =
  pd_id :: ustr
  pd_kind :: PermissionKind
  pd_title :: ustr
  pd_purpose :: "ustr option"
  pd_phase :: PermissionPhase
  pd_recommended :: bool
  pd_risk :: PermissionRisk
  pd_grants :: "GrantTemplate list"
  pd_scope_text :: "ustr option"
  pd_derived :: bool

text \<open>The families in declaration order, without repeats.\<close>

definition pd_capabilities :: "PermissionDescriptor \<Rightarrow> Capability list" where
  "pd_capabilities d = rev (remdups (rev (map gt_capability (pd_grants d))))"

definition descriptor_consent_class :: "PermissionDescriptor \<Rightarrow> ConsentClass" where
  "descriptor_consent_class d = max_or ClassExtensionLocal (map grant_consent_class (pd_grants d))"

definition descriptor_enforcement :: "PermissionDescriptor \<Rightarrow> Enforcement" where
  "descriptor_enforcement d =
     (if list_ex (\<lambda>g. grant_enforcement g = Advisory) (pd_grants d) then Advisory else Broker)"

definition is_automatic :: "PermissionDescriptor \<Rightarrow> bool" where
  "is_automatic d \<longleftrightarrow> pd_phase d = PhaseAutomatic"

definition safe_grant :: "GrantTemplate \<Rightarrow> bool" where
  "safe_grant g =
     (case grant_consent_class g of
        ClassExtensionLocal \<Rightarrow> True
      | ClassObservation \<Rightarrow> True
      | ClassConditional \<Rightarrow>
          (case Option.bind (gt_scope g) concrete of
             None \<Rightarrow> False
           | Some scope \<Rightarrow> has_key scope (asc ''programs'') \<or> has_key scope (asc ''executables''))
      | ClassExplicit \<Rightarrow> False
      | ClassDestructive \<Rightarrow> False)"

definition is_safe_default :: "PermissionDescriptor \<Rightarrow> bool" where
  "is_safe_default d =
     (if \<not> (pd_phase d = PhaseInstall \<or> pd_phase d = PhaseAutomatic) then False
      else if pd_risk d \<ge> PRiskMutate then False
      else list_all safe_grant (pd_grants d))"

record AccessProfile =
  ap_name :: ustr
  ap_title :: ustr
  ap_permissions :: "ustr list"

definition RECOMMENDED :: ustr where "RECOMMENDED = asc ''recommended''"

definition MINIMAL :: ustr where "MINIMAL = asc ''minimal''"

record PermissionSet =
  ps_descriptors :: "PermissionDescriptor list"
  ps_profiles :: "AccessProfile list"
  ps_declared :: bool

definition ps_descriptor :: "PermissionSet \<Rightarrow> ustr \<Rightarrow> PermissionDescriptor option" where
  "ps_descriptor s i = find (\<lambda>d. pd_id d = i) (ps_descriptors s)"

definition ps_profile :: "PermissionSet \<Rightarrow> ustr \<Rightarrow> AccessProfile option" where
  "ps_profile s name = find (\<lambda>p. ap_name p = name) (ps_profiles s)"

definition for_capability :: "PermissionSet \<Rightarrow> Capability \<Rightarrow> PermissionDescriptor list" where
  "for_capability s capability =
     filter (\<lambda>d. list_ex (\<lambda>g. gt_capability g = capability) (pd_grants d)) (ps_descriptors s)"

definition jit_permission :: "PermissionSet \<Rightarrow> Capability \<Rightarrow> PermissionDescriptor option" where
  "jit_permission s capability = find (\<lambda>d. pd_phase d = PhaseJit) (for_capability s capability)"

definition profile_descriptors :: "PermissionSet \<Rightarrow> AccessProfile \<Rightarrow> PermissionDescriptor list" where
  "profile_descriptors s p = List.map_filter (ps_descriptor s) (ap_permissions p)"

definition automatic :: "PermissionSet \<Rightarrow> PermissionDescriptor list" where
  "automatic s = filter is_automatic (ps_descriptors s)"

text \<open>\<open>sanitize\<close>: the scan keeps whether an escape sequence is open and whether a space was last.\<close>

definition is_control :: "nat \<Rightarrow> bool" where
  "is_control c \<longleftrightarrow> c < 32 \<or> 127 \<le> c \<and> c < 160"

definition is_ascii_alphabetic :: "nat \<Rightarrow> bool" where
  "is_ascii_alphabetic c \<longleftrightarrow> 65 \<le> c \<and> c \<le> 90 \<or> 97 \<le> c \<and> c \<le> 122"

fun sanitize_scan :: "bool \<Rightarrow> bool \<Rightarrow> ustr \<Rightarrow> ustr" where
  "sanitize_scan in_escape last_space [] = []"
| "sanitize_scan in_escape last_space (c # s) =
     (if in_escape then sanitize_scan (\<not> (is_ascii_alphabetic c \<or> c = 126)) last_space s
      else if c = 27 then sanitize_scan True last_space s
      else if is_control c \<or> is_whitespace c then
        (if last_space then sanitize_scan False True s else 32 # sanitize_scan False True s)
      else c # sanitize_scan False False s)"

definition sanitize :: "ustr \<Rightarrow> nat \<Rightarrow> ustr" where
  "sanitize t limit =
     (let out = trim (sanitize_scan False True t)
      in if length out > limit then take (limit - 1) out @ [8230] else out)"

text \<open>\<open>describe_scope\<close>; \<open>js\<close> prints a JSON value.\<close>

definition list_of :: "(Json \<Rightarrow> ustr) \<Rightarrow> Json \<Rightarrow> ustr list" where
  "list_of js v =
     (case v of
        JArray items \<Rightarrow> map (\<lambda>item. case item of JString t \<Rightarrow> t | other \<Rightarrow> js other) items
      | JString t \<Rightarrow> [t]
      | other \<Rightarrow> [js other])"

fun join_text :: "ustr \<Rightarrow> ustr list \<Rightarrow> ustr" where
  "join_text sep [] = []"
| "join_text sep [w] = w"
| "join_text sep (w # ws) = w @ sep @ join_text sep ws"

definition describe_scope :: "(Json \<Rightarrow> ustr) \<Rightarrow> Capability \<Rightarrow> ScopeTemplate option \<Rightarrow> ustr" where
  "describe_scope js capability scope =
     (case scope of
        None \<Rightarrow> (if scope_keys capability = [] then [] else asc ''unscoped'')
      | Some RuntimeDerived \<Rightarrow> asc ''the exact value in use, derived at the time''
      | Some PackageContributions \<Rightarrow> asc ''the package's own declared relationships''
      | Some ProviderInstance \<Rightarrow> asc ''the provider instance it fronts''
      | Some (Concrete s) \<Rightarrow>
          join_text (asc ''; '')
            (map (\<lambda>(key, v). key @ asc '' '' @ join_text (asc '', '') (list_of js v)) s))"

section \<open>Permissions derived from declared capabilities\<close>

text \<open>The parts of \<open>Manifest\<close> the permission layer reads.\<close>

record Manifest =
  mf_package_id :: ustr
  mf_version :: ustr
  mf_permissions :: "PermissionSet option"
  required_capabilities :: "CapabilityRequest list"
  optional_capabilities :: "CapabilityRequest list"
  runtime_requested_capabilities :: "CapabilityRequest list"
  mf_relations :: "ustr list option"

definition capability_requests :: "Manifest \<Rightarrow> (DeclarationClass \<times> CapabilityRequest) list" where
  "capability_requests m =
     map (Pair Required) (required_capabilities m) @
     map (Pair Optional) (optional_capabilities m) @
     map (Pair RuntimeRequested) (runtime_requested_capabilities m)"

definition derived_id :: "Capability \<Rightarrow> ustr" where
  "derived_id capability = map (\<lambda>c. if c = 46 then 45 else c) (Capability_id capability)"

definition derived_scope :: "CapabilityRequest \<Rightarrow> ScopeTemplate option" where
  "derived_scope request =
     (case cr_scope request of
        Some s \<Rightarrow> Some (Concrete s)
      | None \<Rightarrow> if cr_capability request = RelationWrite then Some PackageContributions else None)"

definition derive_descriptor :: "DeclarationClass \<Rightarrow> CapabilityRequest \<Rightarrow> PermissionDescriptor" where
  "derive_descriptor class request =
     (let capability = cr_capability request;
          scope = derived_scope request;
          consent = consent_class capability scope
      in \<lparr>pd_id = derived_id capability,
          pd_kind = default_kind capability scope,
          pd_title = family_title capability,
          pd_purpose = map_option (\<lambda>p. sanitize p PURPOSE_LIMIT) (cr_purpose request),
          pd_phase = (if class = Required \<and> consent = ClassConditional then PhaseExplicit
                      else derived_phase consent),
          pd_recommended = (consent = ClassExtensionLocal \<or> consent = ClassObservation),
          pd_risk = minimum_risk capability scope,
          pd_grants = [\<lparr>gt_capability = capability, gt_scope = scope\<rparr>],
          pd_scope_text = None,
          pd_derived = True\<rparr>)"

definition empty_set :: PermissionSet where
  "empty_set = \<lparr>ps_descriptors = [], ps_profiles = [], ps_declared = False\<rparr>"

definition set_of_manifest :: "Manifest \<Rightarrow> PermissionSet" where
  "set_of_manifest m =
     (let s = (case mf_permissions m of Some s \<Rightarrow> s | None \<Rightarrow> empty_set);
          mapped = map gt_capability (concat (map pd_grants (ps_descriptors s)));
          derived = map (\<lambda>(class, request). derive_descriptor class request)
                      (filter (\<lambda>(_, request). cr_capability request \<notin> set mapped) (capability_requests m));
          descriptors = ps_descriptors s @ derived;
          minimal = map pd_id (filter (\<lambda>d. descriptor_consent_class d = ClassExtensionLocal) derived);
          recommended = map pd_id (filter pd_recommended derived)
      in \<lparr>ps_descriptors = descriptors,
          ps_profiles =
            (if \<not> ps_declared s \<and> descriptors \<noteq> [] then
               [\<lparr>ap_name = MINIMAL, ap_title = asc ''Minimal'', ap_permissions = minimal\<rparr>,
                \<lparr>ap_name = RECOMMENDED, ap_title = asc ''Recommended'', ap_permissions = recommended\<rparr>]
             else ps_profiles s),
          ps_declared = ps_declared s\<rparr>)"

section \<open>Validation of a declared section\<close>

record RawProfile =
  rp_title :: "ustr option"
  rp_permissions :: "ustr list"

record RawGrantTemplate =
  rg_capability :: ustr
  rg_scope :: "Json option"

record RawPermissionRequest =
  rr_id :: ustr
  rr_kind :: ustr
  rr_title :: ustr
  rr_purpose :: "ustr option"
  rr_phase :: ustr
  rr_recommended :: bool
  rr_risk :: "ustr option"
  rr_grants :: "RawGrantTemplate list"
  rr_scope_text :: "ustr option"

text \<open>The profiles of a section come from an ordered map: the list is in key order.\<close>

record RawPermissions =
  raw_profiles :: "(ustr \<times> RawProfile) list"
  raw_requests :: "RawPermissionRequest list"

text \<open>\<open>permission.invalid_mapping\<close>, one constructor per rule with what its message names.\<close>

datatype InvalidMapping =
  NotAPermissionId ustr
  | DeclaredTwice ustr
  | UnknownKind ustr ustr
  | UnknownPhase ustr ustr
  | EmptyField ustr ustr
  | LineBreakInField ustr ustr
  | FieldTooLong ustr ustr nat
  | GrantsNothing ustr
  | NotACapability ustr ustr
  | CapabilityNotDeclared ustr Capability
  | NoScopeToDerive ustr Capability
  | ScopeWordRefused ustr Capability ustr
  | ScopeKeyUndeclared ustr Capability ustr
  | NullScope ustr Capability
  | ScopeNotARecord ustr Capability
  | PhaseNotAllowed ustr Capability PermissionPhase ConsentClass
  | RequiredJustInTime ustr Capability
  | UnknownRisk ustr ustr
  | RiskBelowFloor ustr PermissionRisk PermissionRisk
  | RecommendedNotSafe ustr
  | NotAProfileName ustr
  | ProfileNamesUnknown ustr ustr
  | ProfileNamesTwice ustr ustr
  | ProfileMissing ustr
  | ProfileNotSafe ustr ustr

definition text_field :: "ustr \<Rightarrow> ustr \<Rightarrow> ustr \<Rightarrow> nat \<Rightarrow> InvalidMapping + ustr" where
  "text_field field i t limit =
     (if trim t = [] then Inl (EmptyField i field)
      else if 10 \<in> set t \<or> 13 \<in> set t then Inl (LineBreakInField i field)
      else if length t > limit then Inl (FieldTooLong i field limit)
      else Inr (sanitize t limit))"

text \<open>\<open>Option::map(f).transpose()?\<close> and a loop that stops at the first error.\<close>

definition try_option :: "('a \<Rightarrow> 'e + 'b) \<Rightarrow> 'a option \<Rightarrow> 'e + 'b option" where
  "try_option f x = (case x of None \<Rightarrow> Inr None | Some a \<Rightarrow> and_then (f a) (\<lambda>b. Inr (Some b)))"

fun try_map :: "('a \<Rightarrow> 'e + 'b) \<Rightarrow> 'a list \<Rightarrow> 'e + 'b list" where
  "try_map f [] = Inr []"
| "try_map f (x # xs) = and_then (f x) (\<lambda>y. and_then (try_map f xs) (\<lambda>ys. Inr (y # ys)))"

definition require :: "bool \<Rightarrow> 'e \<Rightarrow> 'e + unit" where
  "require ok e = (if ok then Inr () else Inl e)"

definition parse_scope :: "ustr \<Rightarrow> Capability \<Rightarrow> Json \<Rightarrow> InvalidMapping + ScopeTemplate" where
  "parse_scope i capability scope =
     (case scope of
        JString word \<Rightarrow>
          (if word = asc ''runtime-derived'' then
             (if scope_keys capability = [] then Inl (NoScopeToDerive i capability)
              else Inr RuntimeDerived)
           else if word = asc ''package-contributions'' \<and> capability = RelationWrite then
             Inr PackageContributions
           else if word = asc ''provider-instance'' \<and> capability = ProviderMutate then
             Inr ProviderInstance
           else Inl (ScopeWordRefused i capability word))
      | JObject members \<Rightarrow>
          (case find (\<lambda>(key, _). \<not> list_ex (\<lambda>candidate. sk_name candidate = key) (scope_keys capability))
                  members of
             Some (key, _) \<Rightarrow> Inl (ScopeKeyUndeclared i capability key)
           | None \<Rightarrow> Inr (Concrete members))
      | JNull \<Rightarrow> Inl (NullScope i capability)
      | _ \<Rightarrow> Inl (ScopeNotARecord i capability))"

type_synonym declarations = "(DeclarationClass \<times> CapabilityRequest) list"

definition validate_grant ::
  "declarations \<Rightarrow> ustr \<Rightarrow> PermissionPhase \<Rightarrow> RawGrantTemplate \<Rightarrow> InvalidMapping + GrantTemplate" where
  "validate_grant requests i phase raw =
     and_then (ok_or (NotACapability i (rg_capability raw)) (Capability_from_id (rg_capability raw)))
      (\<lambda>capability.
     and_then (ok_or (CapabilityNotDeclared i capability)
                 (find (\<lambda>(_, request). cr_capability request = capability) requests))
      (\<lambda>(class, _).
     and_then (try_option (parse_scope i capability) (rg_scope raw)) (\<lambda>scope.
     let consent = consent_class capability scope
     in and_then (require (phase \<in> set (allowed_phases consent)) (PhaseNotAllowed i capability phase consent))
          (\<lambda>_.
        and_then (require (\<not> (class = Required \<and> phase = PhaseJit)) (RequiredJustInTime i capability))
          (\<lambda>_. Inr \<lparr>gt_capability = capability, gt_scope = scope\<rparr>)))))"

definition risk_floor :: "GrantTemplate list \<Rightarrow> PermissionRisk" where
  "risk_floor grants = max_or PRiskLocal (map (\<lambda>g. minimum_risk (gt_capability g) (gt_scope g)) grants)"

definition validate_risk :: "ustr \<Rightarrow> GrantTemplate list \<Rightarrow> ustr option \<Rightarrow> InvalidMapping + PermissionRisk" where
  "validate_risk i grants risk =
     (case risk of
        None \<Rightarrow> Inr (risk_floor grants)
      | Some word \<Rightarrow>
          and_then (ok_or (UnknownRisk i word) (PermissionRisk_from_id word)) (\<lambda>declared.
            if declared < risk_floor grants then Inl (RiskBelowFloor i declared (risk_floor grants))
            else Inr declared))"

definition validate_request ::
  "declarations \<Rightarrow> PermissionDescriptor list \<Rightarrow> RawPermissionRequest \<Rightarrow> InvalidMapping + PermissionDescriptor" where
  "validate_request requests descriptors request =
     (let i = rr_id request
      in and_then (require (is_permission_id i) (NotAPermissionId i)) (\<lambda>_.
         and_then (require (\<not> list_ex (\<lambda>existing. pd_id existing = i) descriptors) (DeclaredTwice i)) (\<lambda>_.
         and_then (ok_or (UnknownKind i (rr_kind request)) (PermissionKind_from_id (rr_kind request))) (\<lambda>kind.
         and_then (ok_or (UnknownPhase i (rr_phase request)) (PermissionPhase_from_id (rr_phase request))) (\<lambda>phase.
         and_then (text_field (asc ''title'') i (rr_title request) TITLE_LIMIT) (\<lambda>title.
         and_then (try_option (\<lambda>t. text_field (asc ''purpose'') i t PURPOSE_LIMIT) (rr_purpose request)) (\<lambda>purpose.
         and_then (try_option (\<lambda>t. text_field (asc ''scope_text'') i t PURPOSE_LIMIT) (rr_scope_text request)) (\<lambda>scope_text.
         and_then (require (rr_grants request \<noteq> []) (GrantsNothing i)) (\<lambda>_.
         and_then (try_map (validate_grant requests i phase) (rr_grants request)) (\<lambda>grants.
         and_then (validate_risk i grants (rr_risk request)) (\<lambda>risk.
         let d = \<lparr>pd_id = i, pd_kind = kind, pd_title = title, pd_purpose = purpose,
                  pd_phase = phase, pd_recommended = rr_recommended request, pd_risk = risk,
                  pd_grants = grants, pd_scope_text = scope_text, pd_derived = False\<rparr>
         in and_then (require (\<not> (rr_recommended request \<and> \<not> is_safe_default d)) (RecommendedNotSafe i))
              (\<lambda>_. Inr d))))))))))))"

fun validate_requests ::
  "declarations \<Rightarrow> PermissionDescriptor list \<Rightarrow> RawPermissionRequest list \<Rightarrow>
   InvalidMapping + PermissionDescriptor list" where
  "validate_requests requests descriptors [] = Inr descriptors"
| "validate_requests requests descriptors (r # rs) =
     and_then (validate_request requests descriptors r)
       (\<lambda>d. validate_requests requests (descriptors @ [d]) rs)"

fun check_named :: "PermissionDescriptor list \<Rightarrow> ustr \<Rightarrow> ustr list \<Rightarrow> ustr list \<Rightarrow> InvalidMapping + unit" where
  "check_named descriptors name seen [] = Inr ()"
| "check_named descriptors name seen (i # ids) =
     (if list_all (\<lambda>d. pd_id d \<noteq> i) descriptors then Inl (ProfileNamesUnknown name i)
      else if i \<in> set seen then Inl (ProfileNamesTwice name i)
      else check_named descriptors name (i # seen) ids)"

definition validate_profile ::
  "PermissionDescriptor list \<Rightarrow> ustr \<times> RawProfile \<Rightarrow> InvalidMapping + AccessProfile" where
  "validate_profile descriptors entry =
     (let (name, profile) = entry
      in and_then (require (is_permission_id name) (NotAProfileName name)) (\<lambda>_.
         and_then (check_named descriptors name [] (rp_permissions profile)) (\<lambda>_.
         and_then (case rp_title profile of
                     Some title \<Rightarrow> text_field (asc ''title'') name title TITLE_LIMIT
                   | None \<Rightarrow> Inr name) (\<lambda>title.
         Inr \<lparr>ap_name = name, ap_title = title, ap_permissions = rp_permissions profile\<rparr>))))"

definition check_offered :: "AccessProfile list \<Rightarrow> ustr \<Rightarrow> InvalidMapping + unit" where
  "check_offered profiles required =
     require (\<not> list_all (\<lambda>p. ap_name p \<noteq> required) profiles) (ProfileMissing required)"

definition check_safe_profile ::
  "PermissionDescriptor list \<Rightarrow> AccessProfile list \<Rightarrow> ustr \<Rightarrow> InvalidMapping + unit" where
  "check_safe_profile descriptors profiles name =
     (case find (\<lambda>p. ap_name p = name) profiles of
        None \<Rightarrow> Inr ()
      | Some profile \<Rightarrow>
          and_then (try_map (\<lambda>i.
            and_then (ok_or (ProfileNamesUnknown name i) (find (\<lambda>d. pd_id d = i) descriptors)) (\<lambda>d.
              require (is_safe_default d) (ProfileNotSafe name i))) (ap_permissions profile)) (\<lambda>_. Inr ()))"

definition validate_declared :: "RawPermissions \<Rightarrow> declarations \<Rightarrow> InvalidMapping + PermissionSet" where
  "validate_declared raw requests =
     and_then (validate_requests requests [] (raw_requests raw)) (\<lambda>descriptors.
     and_then (try_map (validate_profile descriptors) (raw_profiles raw)) (\<lambda>profiles.
     and_then (if descriptors = [] then Inr ()
               else and_then (try_map (check_offered profiles) [MINIMAL, RECOMMENDED]) (\<lambda>_.
                    and_then (try_map (check_safe_profile descriptors profiles) [MINIMAL, RECOMMENDED]) (\<lambda>_.
                    Inr ()))) (\<lambda>_.
     Inr \<lparr>ps_descriptors = descriptors, ps_profiles = profiles, ps_declared = True\<rparr>)))"

section \<open>The delta of an upgrade\<close>

datatype DeltaKind =
  Added | CapabilityAdded | ScopeWidened | RiskRaised | PhaseLoosened | EnforcementWeakened | Repurposed

text \<open>The reasons \<open>widened\<close> gives, and what the line of an entry names.\<close>

datatype Widening =
  NoLongerScoped
  | KeyNoLongerBounded ustr
  | KeyNowCovers ustr "ustr list"
  | BecameWord ScopeTemplate
  | WrittenOut
  | ScopeChanged ScopeTemplate ScopeTemplate

datatype DeltaDetail =
  PlusTitle ustr
  | NowMeans ustr ustr "Capability list"
  | PlusCapability ustr Capability
  | PlusWidening ustr Widening
  | NowAdvisory ustr Capability
  | RiskFromTo ustr PermissionRisk PermissionRisk
  | DecidedRatherThan ustr PermissionPhase PermissionPhase

record DeltaEntry =
  de_permission :: ustr
  de_kind :: DeltaKind
  de_detail :: DeltaDetail

fun widened_keys :: "(Json \<Rightarrow> ustr) \<Rightarrow> scope_map \<Rightarrow> scope_map \<Rightarrow> Widening option" where
  "widened_keys js [] new = None"
| "widened_keys js ((key, old_value) # old) new =
     (case map_of new key of
        None \<Rightarrow> Some (KeyNoLongerBounded key)
      | Some new_value \<Rightarrow>
          (let extra = filter (\<lambda>item. item \<notin> set (list_of js old_value)) (list_of js new_value)
           in if extra \<noteq> [] then Some (KeyNowCovers key extra) else widened_keys js old new))"

definition widened ::
  "(Json \<Rightarrow> ustr) \<Rightarrow> ScopeTemplate option \<Rightarrow> ScopeTemplate option \<Rightarrow> Widening option" where
  "widened js before after =
     (case (before, after) of
        (None, _) \<Rightarrow> None
      | (Some _, None) \<Rightarrow> Some NoLongerScoped
      | (Some (Concrete old), Some (Concrete new)) \<Rightarrow> widened_keys js old new
      | (Some (Concrete _), Some other) \<Rightarrow> Some (BecameWord other)
      | (Some PackageContributions, Some (Concrete scope)) \<Rightarrow>
          (if has_key scope (asc ''relations'') then None else Some WrittenOut)
      | (Some ProviderInstance, Some (Concrete _)) \<Rightarrow> Some WrittenOut
      | (Some RuntimeDerived, Some (Concrete _)) \<Rightarrow> None
      | (Some old, Some new) \<Rightarrow> (if old = new then None else Some (ScopeChanged old new)))"

definition compare_grant ::
  "(Json \<Rightarrow> ustr) \<Rightarrow> PermissionDescriptor \<Rightarrow> PermissionDescriptor \<Rightarrow> GrantTemplate \<Rightarrow> DeltaEntry list" where
  "compare_grant js old new g =
     (case find (\<lambda>previous. gt_capability previous = gt_capability g) (pd_grants old) of
        None \<Rightarrow> []
      | Some previous \<Rightarrow>
          (case widened js (gt_scope previous) (gt_scope g) of
             Some why \<Rightarrow> [\<lparr>de_permission = pd_id new, de_kind = ScopeWidened,
                           de_detail = PlusWidening (pd_title new) why\<rparr>]
           | None \<Rightarrow> []) @
          (if grant_enforcement previous = Broker \<and> grant_enforcement g = Advisory
           then [\<lparr>de_permission = pd_id new, de_kind = EnforcementWeakened,
                  de_detail = NowAdvisory (pd_title new) (gt_capability g)\<rparr>]
           else []))"

text \<open>The sets of the source are ordered by declaration: \<open>Capability_ALL\<close> filtered.\<close>

definition compare_descriptors ::
  "(Json \<Rightarrow> ustr) \<Rightarrow> PermissionDescriptor \<Rightarrow> PermissionDescriptor \<Rightarrow> DeltaEntry list" where
  "compare_descriptors js old new =
     (let old_capabilities = set (pd_capabilities old);
          new_capabilities = set (pd_capabilities new)
      in if pd_kind old \<noteq> pd_kind new \<or> \<not> old_capabilities \<subseteq> new_capabilities then
           [\<lparr>de_permission = pd_id new, de_kind = Repurposed,
             de_detail = NowMeans (pd_id new) (pd_title new)
               (filter (\<lambda>c. c \<in> new_capabilities) Capability_ALL)\<rparr>]
         else
           map (\<lambda>c. \<lparr>de_permission = pd_id new, de_kind = CapabilityAdded,
                      de_detail = PlusCapability (pd_title new) c\<rparr>)
             (filter (\<lambda>c. c \<in> new_capabilities \<and> c \<notin> old_capabilities) Capability_ALL) @
           concat (map (compare_grant js old new) (pd_grants new)) @
           (if pd_risk new > pd_risk old
            then [\<lparr>de_permission = pd_id new, de_kind = RiskRaised,
                   de_detail = RiskFromTo (pd_title new) (pd_risk old) (pd_risk new)\<rparr>] else []) @
           (if pd_phase new < pd_phase old \<or> pd_recommended new \<and> \<not> pd_recommended old
            then [\<lparr>de_permission = pd_id new, de_kind = PhaseLoosened,
                   de_detail = DecidedRatherThan (pd_title new) (pd_phase new) (pd_phase old)\<rparr>] else []))"

definition selected_by :: "PermissionSet \<Rightarrow> ustr \<Rightarrow> PermissionDescriptor list" where
  "selected_by s profile =
     (case ps_profile s profile of
        Some p \<Rightarrow> profile_descriptors s p @ automatic s
      | None \<Rightarrow> automatic s)"

fun delta_selected ::
  "(Json \<Rightarrow> ustr) \<Rightarrow> PermissionSet \<Rightarrow> ustr set \<Rightarrow> ustr set \<Rightarrow> PermissionDescriptor list \<Rightarrow> DeltaEntry list" where
  "delta_selected js before previously seen [] = []"
| "delta_selected js before previously seen (d # ds) =
     (if pd_id d \<in> seen then delta_selected js before previously seen ds
      else (case ps_descriptor before (pd_id d) of
              None \<Rightarrow> [\<lparr>de_permission = pd_id d, de_kind = Added, de_detail = PlusTitle (pd_title d)\<rparr>]
            | Some old \<Rightarrow>
                (if pd_id d \<notin> previously
                 then [\<lparr>de_permission = pd_id d, de_kind = Added, de_detail = PlusTitle (pd_title d)\<rparr>]
                 else compare_descriptors js old d)) @
           delta_selected js before previously (insert (pd_id d) seen) ds)"

definition delta ::
  "(Json \<Rightarrow> ustr) \<Rightarrow> PermissionSet \<Rightarrow> PermissionSet \<Rightarrow> ustr \<Rightarrow> DeltaEntry list" where
  "delta js before after profile =
     (let selected = selected_by after profile;
          previously = pd_id ` set (selected_by before profile);
          seen = pd_id ` set selected
      in delta_selected js before previously {} selected @
         concat (map (\<lambda>d.
           if pd_id d \<in> seen then []
           else (case ps_descriptor before (pd_id d) of
                   None \<Rightarrow> []
                 | Some old \<Rightarrow> filter (\<lambda>e. de_kind e = Repurposed) (compare_descriptors js old d)))
           (ps_descriptors after)))"

section \<open>The vocabularies read back\<close>

lemma spelled_apart: "set xs = UNIV \<Longrightarrow> distinct (map f xs) \<Longrightarrow> vocabulary xs f"
  by unfold_locales (auto simp: distinct_map inj_on_def)

lemma every_capability [simp]: "c \<in> set Capability_ALL"
  by (cases c; simp add: Capability_ALL_def)

interpretation capability_words: vocabulary Capability_ALL Capability_id
  by (rule spelled_apart) (auto, code_simp)

interpretation kind_words: vocabulary PermissionKind_ALL PermissionKind_id
proof (rule spelled_apart)
  show "set PermissionKind_ALL = UNIV"
    using PermissionKind.exhaust by (auto simp: PermissionKind_ALL_def)
qed code_simp

interpretation phase_words: vocabulary PermissionPhase_ALL PermissionPhase_id
proof (rule spelled_apart)
  show "set PermissionPhase_ALL = UNIV"
    using PermissionPhase.exhaust by (auto simp: PermissionPhase_ALL_def)
qed code_simp

interpretation risk_words: vocabulary PermissionRisk_ALL PermissionRisk_id
proof (rule spelled_apart)
  show "set PermissionRisk_ALL = UNIV"
    using PermissionRisk.exhaust by (auto simp: PermissionRisk_ALL_def)
qed code_simp

lemma derived_id_inj: "derived_id c = derived_id d \<longleftrightarrow> c = d"
proof -
  have "distinct (map derived_id Capability_ALL)" by code_simp
  then show ?thesis by (auto simp: distinct_map inj_on_def)
qed

section \<open>Package text on the screen\<close>

text \<open>Text as the host shows it: no control character, spaces only and never two in a row.\<close>

fun tidy :: "bool \<Rightarrow> ustr \<Rightarrow> bool" where
  "tidy last_space [] \<longleftrightarrow> True"
| "tidy last_space (c # s) \<longleftrightarrow>
     (if c = 32 then \<not> last_space \<and> tidy True s
      else \<not> is_control c \<and> \<not> is_whitespace c \<and> tidy False s)"

lemma tidy_weaken: "tidy True s \<Longrightarrow> tidy l s"
  by (cases s) (auto split: if_splits)

lemma scan_tidy: "tidy l (sanitize_scan e l s)"
  by (induction e l s rule: sanitize_scan.induct) (auto simp: is_whitespace_def)

lemma tidy_scan: "tidy l s \<Longrightarrow> sanitize_scan False l s = s"
  by (induction l s rule: tidy.induct) (auto simp: is_control_def is_whitespace_def split: if_splits)

lemma tidy_take: "tidy l s \<Longrightarrow> tidy l (take n s)"
proof (induction l s arbitrary: n rule: tidy.induct)
  case (2 l c s)
  then show ?case by (cases n) auto
qed simp

lemma tidy_snoc: "tidy l s \<Longrightarrow> \<not> is_control c \<Longrightarrow> \<not> is_whitespace c \<Longrightarrow> tidy l (s @ [c])"
  by (induction l s rule: tidy.induct) (auto simp: is_whitespace_def split: if_splits)

lemma tidy_chars: "tidy l s \<Longrightarrow> c \<in> set s \<Longrightarrow> \<not> is_control c \<and> (is_whitespace c \<longrightarrow> c = 32)"
  by (induction l s rule: tidy.induct) (auto simp: is_control_def split: if_splits)

lemma tidy_front: "tidy True s \<Longrightarrow> dropWhile is_whitespace s = s"
  by (cases s) (auto split: if_splits)

lemma trim_tidy_take: "tidy True s \<Longrightarrow> \<exists>n. trim s = take n s"
  unfolding trim_def by (simp add: tidy_front)
    (metis append_eq_conv_conj rev_append rev_rev_ident takeWhile_dropWhile_id)

lemma trim_tidy: "tidy True s \<Longrightarrow> tidy True (trim s)"
  using trim_tidy_take[of s] tidy_take[of True s] by auto

lemma trim_again: "tidy True s \<Longrightarrow> trim (trim s) = trim s"
proof -
  assume s: "tidy True s"
  let ?u = "dropWhile is_whitespace (rev s)"
  have t: "trim s = rev ?u" unfolding trim_def by (simp add: tidy_front[OF s])
  have "dropWhile is_whitespace ?u = ?u" by simp
  then show ?thesis
    using tidy_front[OF trim_tidy[OF s]] unfolding trim_def[of "trim s"] by (simp add: t)
qed

lemma sanitize_tidy: "tidy True (sanitize t limit)"
  unfolding sanitize_def Let_def
  using trim_tidy[OF scan_tidy[of True False t]]
  by (auto intro!: tidy_snoc tidy_take simp: is_control_def is_whitespace_def)

lemma trim_sanitize: "trim (sanitize t limit) = sanitize t limit"
proof (cases "length (trim (sanitize_scan False True t)) > limit")
  case True
  then have s: "sanitize t limit = take (limit - 1) (trim (sanitize_scan False True t)) @ [8230]"
    by (simp add: sanitize_def Let_def)
  then show ?thesis
    unfolding trim_def tidy_front[OF sanitize_tidy] by (simp add: s is_whitespace_def)
next
  case False
  then show ?thesis
    using trim_again[OF scan_tidy[of True False t]] by (simp add: sanitize_def)
qed

lemma sanitize_length: "length (sanitize t limit) \<le> max 1 limit"
  by (auto simp: sanitize_def Let_def max_def)

lemma sanitize_twice: "sanitize (sanitize t limit) limit = sanitize t limit"
proof -
  have out: "trim (sanitize_scan False True (sanitize t limit)) = sanitize t limit"
    by (simp add: tidy_scan[OF sanitize_tidy] trim_sanitize)
  show ?thesis
  proof (cases "length (sanitize t limit) > limit")
    case True
    then have "limit = 0" "length (sanitize t limit) = 1" using sanitize_length[of t limit] by auto
    then have "sanitize t limit = [8230]" by (auto simp: sanitize_def Let_def split: if_splits)
    moreover have "sanitize [8230] 0 = [8230]"
      by (simp add: sanitize_def trim_def is_control_def is_whitespace_def)
    ultimately show ?thesis using \<open>limit = 0\<close> by simp
  next
    case False
    then show ?thesis using out by (simp add: sanitize_def[of "sanitize t limit"])
  qed
qed


text \<open>
  An escape that is no control sequence takes more than the one character its comment says: after
  escape and seven, the scan goes on to the next letter and takes it.
\<close>

lemma single_escape_eats_a_letter:
  "sanitize (27 # asc ''7 Read'') 120 = asc ''ead''"
  by code_simp

section \<open>What a declared section can hold\<close>

lemma require_Inr [result_simps, simp]: "require ok e = Inr u \<longleftrightarrow> ok"
  by (simp add: require_def)

lemma try_option_Inr [result_simps]:
  "try_option f x = Inr y \<longleftrightarrow>
     (x = None \<and> y = None) \<or> (\<exists>a b. x = Some a \<and> y = Some b \<and> f a = Inr b)"
  by (auto simp: try_option_def result_simps split: option.splits)

lemma try_map_Inr: "try_map f xs = Inr ys \<longleftrightarrow> list_all2 (\<lambda>x y. f x = Inr y) xs ys"
  by (induction xs arbitrary: ys) (auto simp: result_simps list_all2_Cons1)

lemma try_map_member: "try_map f xs = Inr ys \<Longrightarrow> y \<in> set ys \<Longrightarrow> \<exists>x \<in> set xs. f x = Inr y"
  by (induction xs arbitrary: ys) (auto simp: result_simps)

lemma try_map_each: "try_map f xs = Inr ys \<Longrightarrow> x \<in> set xs \<Longrightarrow> \<exists>y. f x = Inr y"
  by (induction xs arbitrary: ys) (auto simp: result_simps)

lemma find_member: "find P xs = Some x \<Longrightarrow> x \<in> set xs \<and> P x"
  by (auto simp: find_Some_iff)

lemma foldl_max_bound: "y \<in> insert x (set xs) \<Longrightarrow> y \<le> foldl max (x::'a::linorder) xs"
proof (induction xs arbitrary: x y)
  case (Cons z xs)
  have "max x z \<le> foldl max (max x z) xs" using Cons.IH[of "max x z" "max x z"] by simp
  then show ?case using Cons.prems Cons.IH[of y "max x z"] by auto
qed simp

lemma max_or_ge: "x \<in> set xs \<Longrightarrow> x \<le> max_or least xs"
  by (cases xs) (auto intro: foldl_max_bound)

lemma floor_ge: "g \<in> set grants \<Longrightarrow> minimum_risk (gt_capability g) (gt_scope g) \<le> risk_floor grants"
  unfolding risk_floor_def by (rule max_or_ge) auto

text \<open>What every grant of a validated permission satisfies, and what the permission does.\<close>

definition grant_ok :: "declarations \<Rightarrow> PermissionPhase \<Rightarrow> GrantTemplate \<Rightarrow> bool" where
  "grant_ok requests phase g \<longleftrightarrow>
     phase \<in> set (allowed_phases (grant_consent_class g)) \<and>
     (\<exists>class request. find (\<lambda>(_, request). cr_capability request = gt_capability g) requests
        = Some (class, request) \<and> \<not> (class = Required \<and> phase = PhaseJit))"

definition descriptor_ok :: "declarations \<Rightarrow> PermissionDescriptor \<Rightarrow> bool" where
  "descriptor_ok requests d \<longleftrightarrow>
     is_role_word (pd_id d) \<and> pd_grants d \<noteq> [] \<and>
     (\<forall>g \<in> set (pd_grants d). grant_ok requests (pd_phase d) g \<and>
        minimum_risk (gt_capability g) (gt_scope g) \<le> pd_risk d) \<and>
     (pd_recommended d \<longrightarrow> is_safe_default d) \<and> \<not> pd_derived d"

lemma validate_grant_ok:
  "validate_grant requests i phase raw = Inr g \<Longrightarrow> grant_ok requests phase g"
  by (auto simp: validate_grant_def grant_ok_def grant_consent_class_def result_simps Let_def split: prod.splits)

lemma validate_risk_floor: "validate_risk i grants risk = Inr r \<Longrightarrow> risk_floor grants \<le> r"
  by (auto simp: validate_risk_def result_simps split: option.splits if_splits)

lemma validate_request_ok:
  assumes "validate_request requests ds raw = Inr d"
  shows "descriptor_ok requests d" and "pd_id d \<notin> pd_id ` set ds"
proof -
  obtain grants risk where g: "try_map (validate_grant requests (rr_id raw) (pd_phase d)) (rr_grants raw) = Inr grants"
    and r: "validate_risk (rr_id raw) grants (rr_risk raw) = Inr risk"
    and d: "pd_grants d = grants" "pd_risk d = risk" "pd_id d = rr_id raw" "\<not> pd_derived d"
      "pd_recommended d \<longrightarrow> is_safe_default d"
    and ids: "is_permission_id (rr_id raw)" "\<not> list_ex (\<lambda>existing. pd_id existing = rr_id raw) ds"
      "rr_grants raw \<noteq> []"
    using assms by (auto simp: validate_request_def result_simps Let_def)
  have "grants \<noteq> []" using g ids(3) by (auto simp: try_map_Inr)
  moreover have "grant_ok requests (pd_phase d) x" if "x \<in> set grants" for x
    using try_map_member[OF g that] validate_grant_ok by auto
  moreover have "minimum_risk (gt_capability x) (gt_scope x) \<le> pd_risk d" if "x \<in> set grants" for x
    using order_trans[OF floor_ge[OF that] validate_risk_floor[OF r]] d(2) by simp
  ultimately show "descriptor_ok requests d"
    using d ids by (auto simp: descriptor_ok_def is_permission_id_def)
  show "pd_id d \<notin> pd_id ` set ds" using ids(2) d(3) by (auto simp: list_ex_iff)
qed

lemma validate_requests_ok:
  assumes "validate_requests requests ds raws = Inr out"
    and "\<forall>d \<in> set ds. descriptor_ok requests d" and "distinct (map pd_id ds)"
  shows "(\<forall>d \<in> set out. descriptor_ok requests d) \<and> distinct (map pd_id out)"
  using assms
proof (induction requests ds raws rule: validate_requests.induct)
  case (2 requests ds r rs)
  then obtain d where d: "validate_request requests ds r = Inr d"
    and rest: "validate_requests requests (ds @ [d]) rs = Inr out"
    by (auto simp: result_simps)
  show ?case
    using 2(1)[OF rest] 2(3,4) validate_request_ok[OF d] by (auto simp: image_iff)
qed simp

lemma validate_declared_parts:
  assumes "validate_declared raw requests = Inr s"
  shows "validate_requests requests [] (raw_requests raw) = Inr (ps_descriptors s)"
    and "try_map (validate_profile (ps_descriptors s)) (raw_profiles raw) = Inr (ps_profiles s)"
    and "ps_declared s"
    and "ps_descriptors s \<noteq> [] \<Longrightarrow> name \<in> {MINIMAL, RECOMMENDED} \<Longrightarrow>
      check_offered (ps_profiles s) name = Inr () \<and>
      check_safe_profile (ps_descriptors s) (ps_profiles s) name = Inr ()"
  using assms by (auto simp: validate_declared_def result_simps split: if_splits)

lemma validate_declared_ok:
  assumes "validate_declared raw requests = Inr s"
  shows "d \<in> set (ps_descriptors s) \<Longrightarrow> descriptor_ok requests d"
    and "distinct (map pd_id (ps_descriptors s))"
  using validate_requests_ok[OF validate_declared_parts(1)[OF assms]] by auto

lemma check_named_known:
  "check_named ds name seen ids = Inr u \<Longrightarrow> i \<in> set ids \<Longrightarrow> i \<in> pd_id ` set ds"
  by (induction ds name seen ids rule: check_named.induct) (auto simp: list_all_iff split: if_splits)

lemma check_named_distinct:
  "check_named ds name seen ids = Inr u \<Longrightarrow> distinct ids \<and> set ids \<inter> set seen = {}"
  by (induction ds name seen ids rule: check_named.induct) (auto split: if_splits)

lemma profile_names_known:
  assumes "validate_declared raw requests = Inr s" and "p \<in> set (ps_profiles s)"
  shows "\<forall>i \<in> set (ap_permissions p). i \<in> pd_id ` set (ps_descriptors s)" and "distinct (ap_permissions p)"
proof -
  obtain name r where "validate_profile (ps_descriptors s) (name, r) = Inr p"
    using try_map_member[OF validate_declared_parts(2)[OF assms(1)] assms(2)] by auto
  then have n: "check_named (ps_descriptors s) name [] (ap_permissions p) = Inr ()"
    by (auto simp: validate_profile_def result_simps)
  show "\<forall>i \<in> set (ap_permissions p). i \<in> pd_id ` set (ps_descriptors s)" and "distinct (ap_permissions p)"
    using check_named_known[OF n] check_named_distinct[OF n] by auto
qed

text \<open>
  C22: A permission a package declares is held to the host's rules.  When its section is accepted,
  every permission in it has an id no other one has and grants something; every grant names a
  capability the manifest declares, is decided in a phase its consent class allows and never just
  in time when the package cannot load without it; and the risk shown is no lower than the host's
  floor for any of its grants.  So what changes or destroys state can only be enabled deliberately.
\<close>

theorem declared_permissions_are_held_to_the_floor:
  assumes "validate_declared raw requests = Inr s"
    and "d \<in> set (ps_descriptors s)"
  shows "distinct (map pd_id (ps_descriptors s)) \<and> pd_grants d \<noteq> [] \<and>
    (\<forall>g \<in> set (pd_grants d).
      (\<exists>(class, request) \<in> set requests. cr_capability request = gt_capability g \<and>
         \<not> (class = Required \<and> pd_phase d = PhaseJit)) \<and>
      pd_phase d \<in> set (allowed_phases (grant_consent_class g)) \<and>
      minimum_risk (gt_capability g) (gt_scope g) \<le> pd_risk d \<and>
      (grant_consent_class g \<in> {ClassExplicit, ClassDestructive} \<longrightarrow> pd_phase d = PhaseExplicit))"
proof (intro conjI ballI)
  show "distinct (map pd_id (ps_descriptors s))" using validate_declared_ok(2)[OF assms(1)] .
  show "pd_grants d \<noteq> []" using validate_declared_ok(1)[OF assms] by (simp add: descriptor_ok_def)
  fix g
  assume "g \<in> set (pd_grants d)"
  then have g: "grant_ok requests (pd_phase d) g" "minimum_risk (gt_capability g) (gt_scope g) \<le> pd_risk d"
    using validate_declared_ok(1)[OF assms] by (auto simp: descriptor_ok_def)
  then show "\<exists>(class, request) \<in> set requests. cr_capability request = gt_capability g \<and>
         \<not> (class = Required \<and> pd_phase d = PhaseJit)"
    "pd_phase d \<in> set (allowed_phases (grant_consent_class g))"
    "minimum_risk (gt_capability g) (gt_scope g) \<le> pd_risk d"
    "grant_consent_class g \<in> {ClassExplicit, ClassDestructive} \<longrightarrow> pd_phase d = PhaseExplicit"
    by (force simp: grant_ok_def dest!: find_member)+
qed

section \<open>What the default profiles hold\<close>

lemma find_by_key: "distinct (map f xs) \<Longrightarrow> x \<in> set xs \<Longrightarrow> find (\<lambda>y. f y = f x) xs = Some x"
  by (induction xs) (auto simp: image_iff)

lemma find_append: "find P (xs @ ys) = (case find P xs of Some x \<Rightarrow> Some x | None \<Rightarrow> find P ys)"
  by (induction xs) auto

lemma in_map_filter: "y \<in> set (List.map_filter f xs) \<longleftrightarrow> (\<exists>x \<in> set xs. f x = Some y)"
  by (induction xs) (auto simp: List.map_filter_simps split: option.splits)

text \<open>A permission that adds nothing beyond local contributions and observation.\<close>

definition changes_nothing :: "PermissionDescriptor \<Rightarrow> bool" where
  "changes_nothing d \<longleftrightarrow>
     pd_phase d \<in> {PhaseInstall, PhaseAutomatic} \<and> pd_risk d < PRiskMutate \<and>
     (\<forall>g \<in> set (pd_grants d). grant_consent_class g \<in> {ClassExtensionLocal, ClassObservation})"

lemma safe_declared_changes_nothing:
  assumes "descriptor_ok requests d" and "is_safe_default d"
  shows "changes_nothing d"
proof -
  have p: "pd_phase d \<in> {PhaseInstall, PhaseAutomatic}" "\<not> pd_risk d \<ge> PRiskMutate"
    using assms(2) by (auto simp: is_safe_default_def split: if_splits)
  have "grant_consent_class g \<in> {ClassExtensionLocal, ClassObservation}" if "g \<in> set (pd_grants d)" for g
    using that assms(1) p(1) by (cases "grant_consent_class g") (auto simp: descriptor_ok_def grant_ok_def)
  then show ?thesis using p by (auto simp: changes_nothing_def)
qed

lemma observed_risk:
  "consent_class c scope \<in> {ClassExtensionLocal, ClassObservation} \<Longrightarrow> minimum_risk c scope < PRiskMutate"
  by (cases c) (auto simp: minimum_risk_def permission_orders consent_class_def split: ConsentClass.splits)

lemma derived_recommended_changes_nothing:
  assumes "d = derive_descriptor class r" and "pd_recommended d \<or> descriptor_consent_class d = ClassExtensionLocal"
  shows "changes_nothing d"
proof -
  have "consent_class (cr_capability r) (derived_scope r) \<in> {ClassExtensionLocal, ClassObservation}"
    using assms by (auto simp: derive_descriptor_def descriptor_consent_class_def grant_consent_class_def Let_def)
  then show ?thesis
    using observed_risk by (auto simp: assms(1) derive_descriptor_def changes_nothing_def grant_consent_class_def Let_def)
qed

lemma derive_descriptor_id [simp]: "pd_id (derive_descriptor class r) = derived_id (cr_capability r)"
  by (simp add: derive_descriptor_def Let_def)

definition derived_descriptors :: "Manifest \<Rightarrow> PermissionDescriptor list" where
  "derived_descriptors m = map (\<lambda>(class, request). derive_descriptor class request) (capability_requests m)"

lemma derived_descriptors_distinct:
  assumes "distinct (map (cr_capability \<circ> snd) (capability_requests m))"
  shows "distinct (map pd_id (derived_descriptors m))"
proof -
  have "map pd_id (derived_descriptors m) = map derived_id (map (cr_capability \<circ> snd) (capability_requests m))"
    by (simp add: derived_descriptors_def case_prod_beta)
  then show ?thesis using assms
    by (auto simp del: map_map simp: distinct_map inj_on_def derived_id_inj)
qed

lemma derived_set:
  assumes "mf_permissions m = None"
  shows "ps_descriptors (set_of_manifest m) = derived_descriptors m"
    and "ps_profile (set_of_manifest m) name = Some p \<Longrightarrow> i \<in> set (ap_permissions p) \<Longrightarrow>
      \<exists>d \<in> set (derived_descriptors m). pd_id d = i \<and>
        (pd_recommended d \<or> descriptor_consent_class d = ClassExtensionLocal)"
  using assms by (force simp: set_of_manifest_def derived_descriptors_def empty_set_def Let_def
      ps_profile_def split: if_splits)+

lemma declared_set:
  assumes "mf_permissions m = Some s" and "ps_declared s"
  shows "\<exists>ds. ps_descriptors (set_of_manifest m) = ps_descriptors s @ ds"
    and "ps_profiles (set_of_manifest m) = ps_profiles s"
  using assms by (auto simp: set_of_manifest_def Let_def)

lemma declared_lookup:
  assumes "mf_permissions m = Some s" and "ps_declared s" and "i \<in> pd_id ` set (ps_descriptors s)"
  shows "ps_descriptor (set_of_manifest m) i = ps_descriptor s i"
proof -
  obtain d where "find (\<lambda>d. pd_id d = i) (ps_descriptors s) = Some d"
    using assms(3) by (cases "find (\<lambda>d. pd_id d = i) (ps_descriptors s)") (auto simp: find_None_iff)
  then show ?thesis
    using declared_set(1)[OF assms(1,2)] by (auto simp: ps_descriptor_def find_append)
qed

lemma checked_profile_safe:
  assumes "check_safe_profile ds profiles name = Inr ()" and "find (\<lambda>p. ap_name p = name) profiles = Some p"
    and "i \<in> set (ap_permissions p)" and "find (\<lambda>d. pd_id d = i) ds = Some d"
  shows "is_safe_default d"
proof -
  obtain us where "try_map (\<lambda>i. and_then (ok_or (ProfileNamesUnknown name i) (find (\<lambda>d. pd_id d = i) ds))
      (\<lambda>d. require (is_safe_default d) (ProfileNotSafe name i))) (ap_permissions p) = Inr us"
    using assms(1,2) by (auto simp: check_safe_profile_def result_simps)
  then show ?thesis using try_map_each[of _ _ us i] assms(3,4) by fastforce
qed

lemma declared_profile_changes_nothing:
  assumes "validate_declared raw requests = Inr s" and "name \<in> {MINIMAL, RECOMMENDED}"
    and "ps_profile s name = Some p" and "i \<in> set (ap_permissions p)" and "ps_descriptor s i = Some d"
  shows "changes_nothing d"
proof -
  have d: "d \<in> set (ps_descriptors s)" using assms(5) find_member[of _ "ps_descriptors s" d]
    by (auto simp: ps_descriptor_def)
  then have "check_safe_profile (ps_descriptors s) (ps_profiles s) name = Inr ()"
    using validate_declared_parts(4)[OF assms(1) _ assms(2)] by (metis length_greater_0_conv length_pos_if_in_set)
  then have "is_safe_default d"
    using checked_profile_safe assms(3-5) by (auto simp: ps_profile_def ps_descriptor_def)
  then show ?thesis using safe_declared_changes_nothing validate_declared_ok(1)[OF assms(1) d] by blast
qed

text \<open>A manifest as parsing leaves it: a declared section has been validated.\<close>

definition section_validated :: "Manifest \<Rightarrow> bool" where
  "section_validated m \<longleftrightarrow>
     (\<forall>s. mf_permissions m = Some s \<longrightarrow> (\<exists>raw. validate_declared raw (capability_requests m) = Inr s))"

lemma default_profile_changes:
  assumes "section_validated m"
    and "mf_permissions m = None \<Longrightarrow> distinct (map (cr_capability \<circ> snd) (capability_requests m))"
    and "name \<in> {MINIMAL, RECOMMENDED}" and "ps_profile (set_of_manifest m) name = Some p"
    and "d \<in> set (profile_descriptors (set_of_manifest m) p)"
  shows "changes_nothing d"
proof -
  obtain i where i: "i \<in> set (ap_permissions p)" "ps_descriptor (set_of_manifest m) i = Some d"
    using assms(5) by (auto simp: profile_descriptors_def in_map_filter)
  show ?thesis
  proof (cases "mf_permissions m")
    case None
    obtain d' where d': "d' \<in> set (derived_descriptors m)" "pd_id d' = i"
      "pd_recommended d' \<or> descriptor_consent_class d' = ClassExtensionLocal"
      using derived_set(2)[OF None assms(4) i(1)] by blast
    have "d = d'"
      using find_by_key[OF derived_descriptors_distinct[OF assms(2)[OF None]] d'(1)] i(2) d'(2)
      by (simp add: ps_descriptor_def derived_set(1)[OF None])
    then show ?thesis
      using d'(1,3) derived_recommended_changes_nothing by (auto simp: derived_descriptors_def)
  next
    case (Some s)
    obtain raw where raw: "validate_declared raw (capability_requests m) = Inr s"
      using assms(1) Some by (auto simp: section_validated_def)
    note s = declared_set(2)[OF Some validate_declared_parts(3)[OF raw]]
    have p: "ps_profile s name = Some p" using assms(4) s by (simp add: ps_profile_def)
    then have "i \<in> pd_id ` set (ps_descriptors s)"
      using profile_names_known(1)[OF raw] i(1) find_member[of _ "ps_profiles s" p] by (auto simp: ps_profile_def)
    then have "ps_descriptor s i = Some d"
      using declared_lookup[OF Some validate_declared_parts(3)[OF raw]] i(2) by simp
    then show ?thesis using declared_profile_changes_nothing[OF raw assms(3) p i(1)] by blast
  qed
qed

text \<open>
  The profiles offered by default change nothing.  For a manifest whose declared section was
  validated, or one that declares none and asks for each capability once, every permission of its
  minimal and its recommended profile is decided at installation or automatic, carries a risk
  below changing state, and grants only contributions of the package's own and observation.
\<close>

theorem default_profiles_change_nothing:
  assumes "section_validated m"
    and "mf_permissions m = None \<Longrightarrow> distinct (map (cr_capability \<circ> snd) (capability_requests m))"
    and "name \<in> {MINIMAL, RECOMMENDED}" and "ps_profile (set_of_manifest m) name = Some p"
    and "d \<in> set (profile_descriptors (set_of_manifest m) p)"
  shows "pd_phase d \<in> {PhaseInstall, PhaseAutomatic} \<and> pd_risk d < PRiskMutate \<and>
    (\<forall>g \<in> set (pd_grants d). grant_consent_class g \<in> {ClassExtensionLocal, ClassObservation})"
  using default_profile_changes[OF assms] by (simp add: changes_nothing_def)

text \<open>A package that reads its configuration: one permission, recommended, and the two profiles.\<close>

definition reader_request :: CapabilityRequest where
  "reader_request = \<lparr>cr_capability = FilesystemRead, cr_scope = None, cr_roles = None, cr_purpose = None\<rparr>"

definition reader_raw :: "Json \<Rightarrow> RawPermissions" where
  "reader_raw scope =
     \<lparr>raw_profiles = [(MINIMAL, \<lparr>rp_title = None, rp_permissions = []\<rparr>),
        (RECOMMENDED, \<lparr>rp_title = None, rp_permissions = [asc ''read-config'']\<rparr>)],
      raw_requests = [\<lparr>rr_id = asc ''read-config'', rr_kind = asc ''filesystem-read'',
        rr_title = asc ''Read its configuration'', rr_purpose = None, rr_phase = asc ''install'',
        rr_recommended = True, rr_risk = None,
        rr_grants = [\<lparr>rg_capability = asc ''filesystem.read'', rg_scope = Some scope\<rparr>],
        rr_scope_text = None\<rparr>]\<rparr>"

definition reader_descriptor :: "ScopeTemplate \<Rightarrow> PermissionDescriptor" where
  "reader_descriptor scope =
     \<lparr>pd_id = asc ''read-config'', pd_kind = KindFilesystemRead, pd_title = asc ''Read its configuration'',
      pd_purpose = None, pd_phase = PhaseInstall, pd_recommended = True, pd_risk = PRiskSensitiveRead,
      pd_grants = [\<lparr>gt_capability = FilesystemRead, gt_scope = Some scope\<rparr>], pd_scope_text = None,
      pd_derived = False\<rparr>"

definition reader_set :: "ScopeTemplate \<Rightarrow> PermissionSet" where
  "reader_set scope =
     \<lparr>ps_descriptors = [reader_descriptor scope],
      ps_profiles = [\<lparr>ap_name = MINIMAL, ap_title = MINIMAL, ap_permissions = []\<rparr>,
        \<lparr>ap_name = RECOMMENDED, ap_title = RECOMMENDED, ap_permissions = [asc ''read-config'']\<rparr>],
      ps_declared = True\<rparr>"

definition reader_paths :: "ustr list \<Rightarrow> scope_map" where
  "reader_paths paths = [(asc ''paths'', JArray (map JString paths))]"

definition reader_manifest :: "ScopeTemplate \<Rightarrow> Manifest" where
  "reader_manifest scope =
     \<lparr>mf_package_id = asc ''com.example.reader'', mf_version = asc ''1.0.0'',
      mf_permissions = Some (reader_set scope), required_capabilities = [],
      optional_capabilities = [reader_request], runtime_requested_capabilities = [], mf_relations = None\<rparr>"

lemma reader_title: "text_field (asc ''title'') i (asc ''Read its configuration'') TITLE_LIMIT =
    Inr (asc ''Read its configuration'')"
  by (simp add: text_field_def sanitize_def trim_def is_whitespace_def is_control_def TITLE_LIMIT_def)

lemma reader_words:
  "Capability_from_id (asc ''filesystem.read'') = Some FilesystemRead"
  "PermissionKind_from_id (asc ''filesystem-read'') = Some KindFilesystemRead"
  "PermissionPhase_from_id (asc ''install'') = Some PhaseInstall"
  "is_role_word (asc ''read-config'')" "is_role_word MINIMAL" "is_role_word RECOMMENDED"
  by code_simp+

lemma reader_accepted:
  "validate_declared (reader_raw (JObject (reader_paths [asc ''/etc/reader.conf'']))) [(Optional, reader_request)] =
     Inr (reader_set (Concrete (reader_paths [asc ''/etc/reader.conf''])))"
  "validate_declared (reader_raw (JString (asc ''runtime-derived''))) [(Optional, reader_request)] =
     Inr (reader_set RuntimeDerived)"
  unfolding reader_raw_def validate_declared_def
  by (simp_all only: RawPermissions.simps RawPermissionRequest.simps validate_requests.simps validate_request_def Let_def
      reader_words reader_title is_permission_id_def)
    code_simp+

lemma reader_requests: "capability_requests (reader_manifest scope) = [(Optional, reader_request)]"
  by (simp add: capability_requests_def reader_manifest_def)

lemma declared_permissions_are_held_to_the_floor_witness:
  "minimum_risk FilesystemRead (Some (Concrete (reader_paths [asc ''/etc/reader.conf'']))) \<le> PRiskSensitiveRead"
proof -
  let ?s = "Concrete (reader_paths [asc ''/etc/reader.conf''])"
  have "minimum_risk FilesystemRead (Some ?s) \<le> pd_risk (reader_descriptor ?s)"
    using declared_permissions_are_held_to_the_floor[OF reader_accepted(1), of "reader_descriptor ?s"]
    by (simp add: reader_set_def reader_descriptor_def)
  then show ?thesis by (simp add: reader_descriptor_def)
qed

lemma default_profiles_change_nothing_witness:
  "pd_risk (reader_descriptor (Concrete (reader_paths [asc ''/etc/reader.conf'']))) < PRiskMutate"
proof -
  let ?s = "Concrete (reader_paths [asc ''/etc/reader.conf''])"
  have m: "mf_permissions (reader_manifest ?s) = Some (reader_set ?s)" by (simp add: reader_manifest_def)
  have "section_validated (reader_manifest ?s)"
    unfolding section_validated_def m reader_requests using reader_accepted(1) by auto
  moreover have "ps_profile (set_of_manifest (reader_manifest ?s)) RECOMMENDED =
      Some \<lparr>ap_name = RECOMMENDED, ap_title = RECOMMENDED, ap_permissions = [asc ''read-config'']\<rparr>"
    by code_simp
  moreover have "reader_descriptor ?s \<in> set (profile_descriptors (set_of_manifest (reader_manifest ?s))
      \<lparr>ap_name = RECOMMENDED, ap_title = RECOMMENDED, ap_permissions = [asc ''read-config'']\<rparr>)"
    by code_simp
  ultimately show ?thesis
    using default_profiles_change_nothing[of "reader_manifest ?s" RECOMMENDED] m by simp
qed

text \<open>
  The condition on a manifest without a section is needed: one that asks for \<open>relation.write\<close>
  twice, first with an empty scope and then bare, has a recommended profile whose one permission is
  the first, unbounded and of the class that is never recommended.
\<close>

definition twice_manifest :: Manifest where
  "twice_manifest =
     \<lparr>mf_package_id = asc ''com.example.twice'', mf_version = asc ''1.0.0'', mf_permissions = None,
      required_capabilities = [\<lparr>cr_capability = RelationWrite, cr_scope = Some [], cr_roles = None, cr_purpose = None\<rparr>],
      optional_capabilities = [\<lparr>cr_capability = RelationWrite, cr_scope = None, cr_roles = None, cr_purpose = None\<rparr>],
      runtime_requested_capabilities = [], mf_relations = None\<rparr>"

lemma twice_asked_recommends_unbounded:
  "map_option (\<lambda>p. map (\<lambda>d. (pd_phase d, map gt_scope (pd_grants d)))
       (profile_descriptors (set_of_manifest twice_manifest) p))
     (ps_profile (set_of_manifest twice_manifest) RECOMMENDED) =
   Some [(PhaseExplicit, [Some (Concrete [])])]"
  by code_simp

text \<open>
  A conditional family is never a safe default of a declared section: its class allows no phase
  that is one, so the branch for a concrete program is not reached.
\<close>

lemma conditional_never_default:
  assumes "validate_declared raw requests = Inr s" and "d \<in> set (ps_descriptors s)"
    and "g \<in> set (pd_grants d)" and "grant_consent_class g = ClassConditional"
  shows "\<not> is_safe_default d"
  using safe_declared_changes_nothing[OF validate_declared_ok(1)[OF assms(1,2)]] assms(3,4)
  by (fastforce simp: changes_nothing_def)

section \<open>What an upgrade without a delta keeps\<close>

lemma concat_Nil_each: "concat (map f xs) = [] \<Longrightarrow> x \<in> set xs \<Longrightarrow> f x = []"
  by auto

lemma compare_Nil:
  assumes "compare_descriptors js old new = []"
  shows "pd_kind old = pd_kind new" and "set (pd_capabilities old) = set (pd_capabilities new)"
    and "g \<in> set (pd_grants new) \<Longrightarrow> compare_grant js old new g = []"
    and "pd_risk new \<le> pd_risk old" and "pd_phase old \<le> pd_phase new"
    and "pd_recommended new \<Longrightarrow> pd_recommended old"
proof -
  have "\<not> (pd_kind old \<noteq> pd_kind new \<or> \<not> set (pd_capabilities old) \<subseteq> set (pd_capabilities new))"
    using assms by (rule contrapos_pn) (simp add: compare_descriptors_def Let_def)
  then have k: "pd_kind old = pd_kind new" "set (pd_capabilities old) \<subseteq> set (pd_capabilities new)" by auto
  then have e: "filter (\<lambda>c. c \<in> set (pd_capabilities new) \<and> c \<notin> set (pd_capabilities old)) Capability_ALL = []"
      "concat (map (compare_grant js old new) (pd_grants new)) = []" "\<not> pd_risk old < pd_risk new"
      "\<not> (pd_phase new < pd_phase old \<or> pd_recommended new \<and> \<not> pd_recommended old)"
    using assms unfolding compare_descriptors_def Let_def by (simp_all split: if_splits)
  show "pd_kind old = pd_kind new" using k(1) .
  show "set (pd_capabilities old) = set (pd_capabilities new)"
    using k(2) e(1) every_capability unfolding filter_empty_conv by blast
  show "compare_grant js old new g = []" if "g \<in> set (pd_grants new)"
    using concat_Nil_each[OF e(2) that] .
  show "pd_risk new \<le> pd_risk old" "pd_phase old \<le> pd_phase new"
    "pd_recommended new \<Longrightarrow> pd_recommended old" using e(3,4) by auto
qed

lemma compare_grant_Nil:
  assumes "compare_grant js old new g = []" and "gt_capability g \<in> set (pd_capabilities old)"
  shows "\<exists>previous \<in> set (pd_grants old). gt_capability previous = gt_capability g \<and>
     widened js (gt_scope previous) (gt_scope g) = None \<and>
     (grant_enforcement previous = Broker \<longrightarrow> grant_enforcement g = Broker)"
proof -
  obtain previous where p: "find (\<lambda>previous. gt_capability previous = gt_capability g) (pd_grants old) = Some previous"
    using assms(2)
    by (cases "find (\<lambda>previous. gt_capability previous = gt_capability g) (pd_grants old)")
       (auto simp: find_None_iff pd_capabilities_def)
  have "grant_enforcement g = Broker" if "grant_enforcement previous = Broker"
    using assms(1) p that by (cases "grant_enforcement g") (auto simp: compare_grant_def)
  then show ?thesis
    using find_member[OF p] assms(1) p by (auto simp: compare_grant_def split: option.splits)
qed

lemma delta_selected_Nil:
  assumes "delta_selected js before previously seen ds = []"
    and "\<And>x y. x \<in> set ds \<Longrightarrow> y \<in> set ds \<Longrightarrow> pd_id x = pd_id y \<Longrightarrow> x = y"
    and "d \<in> set ds" and "pd_id d \<notin> seen"
  shows "\<exists>old. ps_descriptor before (pd_id d) = Some old \<and> pd_id d \<in> previously \<and> compare_descriptors js old d = []"
  using assms
proof (induction js before previously seen ds rule: delta_selected.induct)
  case (2 js before previously seen x ds)
  show ?case
  proof (cases "pd_id x = pd_id d")
    case True
    then have "x = d" using 2(4)[of x d] 2(5) by auto
    then show ?thesis using 2(3,6) by (auto split: option.splits if_splits)
  next
    case False
    then have "d \<in> set ds" using 2(5) by auto
    then show ?thesis
      using 2(1)[OF _ _ _ \<open>d \<in> set ds\<close>] 2(2)[OF _ _ _ \<open>d \<in> set ds\<close>] 2(3-6) False
      by (cases "pd_id x \<in> seen") auto
  qed
qed simp

lemma selected_members: "d \<in> set (selected_by s profile) \<Longrightarrow> d \<in> set (ps_descriptors s)"
  by (auto simp: selected_by_def profile_descriptors_def automatic_def in_map_filter ps_descriptor_def
      find_Some_iff split: option.splits)

lemma delta_Nil:
  assumes "delta js before after profile = []"
    and "distinct (map pd_id (ps_descriptors before))" and "distinct (map pd_id (ps_descriptors after))"
    and "d \<in> set (selected_by after profile)"
  shows "\<exists>old \<in> set (selected_by before profile). pd_id old = pd_id d \<and> compare_descriptors js old d = []"
proof -
  have ds: "delta_selected js before (pd_id ` set (selected_by before profile)) {} (selected_by after profile) = []"
    using assms(1) by (simp add: delta_def Let_def)
  have "x = y" if "x \<in> set (selected_by after profile)" "y \<in> set (selected_by after profile)" "pd_id x = pd_id y" for x y
    using that assms(3) selected_members by (auto simp: distinct_map inj_on_def)
  then obtain old where old: "ps_descriptor before (pd_id d) = Some old"
    "pd_id d \<in> pd_id ` set (selected_by before profile)" "compare_descriptors js old d = []"
    using delta_selected_Nil[OF ds _ assms(4)] by auto
  then obtain o' where o': "o' \<in> set (selected_by before profile)" "pd_id o' = pd_id d" by auto
  then have "o' = old"
    using old(1) find_by_key[OF assms(2) selected_members[OF o'(1)]] by (simp add: ps_descriptor_def)
  then show ?thesis using o' old(3) by auto
qed

end
