(* ===== verification/Broker_Policy.thy ===== *)
theory Broker_Policy
  imports Permission
begin

text \<open>
  The broker's policy (\<open>crates/ono-kuang-supervisor/src/policy.rs\<close>): grants and denies, the
  scope of a grant against the values one call uses, and the order in which a call is decided.
  The compiler and matcher of path patterns is a package of its own, here the record \<open>Globs\<close>; the
  printing of a JSON value is \<open>js\<close>, of a moment \<open>show_time\<close>.  Moments are integers.  The theory
  shows when a call is allowed, that a deny holds against every grant, and, together with the
  permission layer, that an upgrade whose delta is empty reaches nothing more.
\<close>

section \<open>Path patterns\<close>

text \<open>
  \<open>Glob::new\<close> accepts a pattern or not; a set built of accepted patterns matches a path or fails
  to build.
\<close>

record Globs =
  gl_new :: "ustr \<Rightarrow> bool"
  gl_build :: "ustr list \<Rightarrow> (ustr \<Rightarrow> bool) option"

text \<open>What the documentation of the package says: a set matches when one of its patterns does.\<close>

definition globs_documented :: "Globs \<Rightarrow> bool" where
  "globs_documented G \<longleftrightarrow>
     (\<exists>m. \<forall>ps. \<exists>f. gl_build G ps = Some f \<and> (\<forall>v. f v \<longleftrightarrow> (\<exists>p \<in> set ps. m p v)))"

section \<open>Grants, denies and uses\<close>

record Grant =
  gr_capability :: Capability
  gr_scope :: "scope_map option"
  gr_expires_at :: "int option"
  gr_permission :: "ustr option"

record Policy =
  system_denies :: "Capability list"
  user_denies :: "Capability list"
  po_grants :: "Grant list"
  po_home :: "ustr option"

datatype DenialSource = DeniedBySystem | DeniedByUser | DeniedByDefault

datatype Evaluation =
  Allowed Grant
  | Denied DenialSource
  | LeaseExpired Grant int
  | ScopeViolation Grant ustr

datatype ScopeUse =
  UsePath ustr ustr
  | UseName ustr ustr
  | UsePort ustr nat

fun use_key :: "ScopeUse \<Rightarrow> ustr" where
  "use_key (UsePath key _) = key"
| "use_key (UseName key _) = key"
| "use_key (UsePort key _) = key"

fun use_display :: "ScopeUse \<Rightarrow> ustr" where
  "use_display (UsePath _ v) = v"
| "use_display (UseName _ v) = v"
| "use_display (UsePort _ v) = show_nat v"

definition deny_all :: "ustr option \<Rightarrow> Policy" where
  "deny_all home = \<lparr>system_denies = [], user_denies = [], po_grants = [], po_home = home\<rparr>"

definition with_home :: "ustr \<Rightarrow> Policy \<Rightarrow> Policy" where
  "with_home home p = p\<lparr>po_home := (if home = [] then None else Some home)\<rparr>"

definition policy_grant_for ::
  "Capability \<Rightarrow> scope_map option \<Rightarrow> int option \<Rightarrow> ustr option \<Rightarrow> Policy \<Rightarrow> Policy" where
  "policy_grant_for capability scope expires permission p =
     p\<lparr>po_grants := po_grants p @ [\<lparr>gr_capability = capability, gr_scope = scope,
        gr_expires_at = expires, gr_permission = permission\<rparr>]\<rparr>"

definition policy_grant :: "Capability \<Rightarrow> scope_map option \<Rightarrow> Policy \<Rightarrow> Policy" where
  "policy_grant capability scope p =
     p\<lparr>po_grants := po_grants p @ [\<lparr>gr_capability = capability, gr_scope = scope,
        gr_expires_at = None, gr_permission = None\<rparr>]\<rparr>"

definition policy_lease :: "Capability \<Rightarrow> scope_map option \<Rightarrow> int option \<Rightarrow> Policy \<Rightarrow> Policy" where
  "policy_lease capability scope expires p =
     p\<lparr>po_grants := po_grants p @ [\<lparr>gr_capability = capability, gr_scope = scope,
        gr_expires_at = expires, gr_permission = None\<rparr>]\<rparr>"

definition policy_deny :: "Capability \<Rightarrow> Policy \<Rightarrow> Policy" where
  "policy_deny capability p = p\<lparr>user_denies := user_denies p @ [capability]\<rparr>"

definition policy_deny_system :: "Capability \<Rightarrow> Policy \<Rightarrow> Policy" where
  "policy_deny_system capability p = p\<lparr>system_denies := system_denies p @ [capability]\<rparr>"

definition grants_capability :: "Policy \<Rightarrow> Capability \<Rightarrow> bool" where
  "grants_capability p capability \<longleftrightarrow>
     capability \<notin> set (system_denies p) \<and> capability \<notin> set (user_denies p) \<and>
     list_ex (\<lambda>g. gr_capability g = capability) (po_grants p)"

section \<open>Scopes\<close>

text \<open>\<open>trim_end_matches('/')\<close>.\<close>

definition trim_slashes :: "ustr \<Rightarrow> ustr" where
  "trim_slashes s = rev (dropWhile (\<lambda>c. c = 47) (rev s))"

definition expand_home :: "ustr \<Rightarrow> ustr option \<Rightarrow> ustr" where
  "expand_home path home =
     (case home of
        None \<Rightarrow> path
      | Some h \<Rightarrow>
          (if path = asc ''~'' then trim_slashes h
           else (case strip_prefix (asc ''~/'') path of
                   Some rest \<Rightarrow> trim_slashes h @ asc ''/'' @ rest
                 | None \<Rightarrow> path)))"

definition resolve_home :: "Policy \<Rightarrow> ustr \<Rightarrow> ustr" where
  "resolve_home p path = expand_home path (po_home p)"

definition name_matches :: "ustr \<Rightarrow> ustr \<Rightarrow> bool" where
  "name_matches pattern v =
     (if pattern \<noteq> [] \<and> last pattern = 42 then strip_prefix (butlast pattern) v \<noteq> None
      else pattern = v)"

text \<open>\<open>str::parse::<u16>\<close>.\<close>

definition parse_u16 :: "ustr \<Rightarrow> nat option" where
  "parse_u16 s = (case parse_u32 s of Some n \<Rightarrow> if n < 2 ^ 16 then Some n else None | None \<Rightarrow> None)"

definition port_covered :: "ustr \<Rightarrow> nat \<Rightarrow> bool" where
  "port_covered allowed port =
     (let a = trim allowed
      in if a = asc ''*'' then True
         else (case (case split_once 45 a of
                       None \<Rightarrow> None
                     | Some (low, high) \<Rightarrow>
                         (case (parse_u16 (trim low), parse_u16 (trim high)) of
                            (Some l, Some h) \<Rightarrow> Some (l, h)
                          | _ \<Rightarrow> None)) of
                 Some (l, h) \<Rightarrow> l \<le> port \<and> port \<le> h
               | None \<Rightarrow> parse_u16 a = Some port))"

definition path_covered :: "Globs \<Rightarrow> ustr list \<Rightarrow> ustr \<Rightarrow> ustr option \<Rightarrow> bool" where
  "path_covered G patterns v home =
     (let resolved = map (\<lambda>p. expand_home p home) patterns;
          kept = filter (\<lambda>r. \<not> (r \<noteq> [] \<and> hd r = 126) \<and> gl_new G r) resolved
      in case gl_build G kept of Some is_match \<Rightarrow> is_match v | None \<Rightarrow> False)"

definition allowed_list :: "(Json \<Rightarrow> ustr) \<Rightarrow> Json \<Rightarrow> ustr list option" where
  "allowed_list js v =
     (case v of
        JArray items \<Rightarrow> Some (map (\<lambda>item. case item of JString t \<Rightarrow> t | other \<Rightarrow> js other) items)
      | JString t \<Rightarrow> Some [t]
      | _ \<Rightarrow> None)"

definition use_covered :: "Globs \<Rightarrow> ustr option \<Rightarrow> ustr list \<Rightarrow> ScopeUse \<Rightarrow> bool" where
  "use_covered G home entries u =
     (case u of
        UsePath _ v \<Rightarrow> path_covered G entries v home
      | UseName _ v \<Rightarrow> list_ex (\<lambda>pattern. name_matches pattern v) entries
      | UsePort _ v \<Rightarrow> list_ex (\<lambda>entry. port_covered entry v) entries)"

fun uses_covered ::
  "Globs \<Rightarrow> (Json \<Rightarrow> ustr) \<Rightarrow> ustr option \<Rightarrow> scope_map \<Rightarrow> ScopeUse list \<Rightarrow> ustr + unit" where
  "uses_covered G js home scope [] = Inr ()"
| "uses_covered G js home scope (u # us) =
     (case map_of scope (use_key u) of
        None \<Rightarrow> uses_covered G js home scope us
      | Some allowed \<Rightarrow>
          (case allowed_list js allowed of
             None \<Rightarrow> Inl (use_display u)
           | Some entries \<Rightarrow>
               (if use_covered G home entries u then uses_covered G js home scope us
                else Inl (use_display u))))"

definition scope_covers ::
  "Globs \<Rightarrow> (Json \<Rightarrow> ustr) \<Rightarrow> scope_map option \<Rightarrow> ScopeUse list \<Rightarrow> ustr option \<Rightarrow> ustr + unit" where
  "scope_covers G js scope used home =
     (case scope of None \<Rightarrow> Inr () | Some s \<Rightarrow> uses_covered G js home s used)"

section \<open>The decision\<close>

text \<open>\<open>Option::get_or_insert\<close> keeps the first.\<close>

definition get_or_insert :: "'a option \<Rightarrow> 'a \<Rightarrow> 'a option" where
  "get_or_insert slot a = (case slot of None \<Rightarrow> Some a | Some b \<Rightarrow> Some b)"

fun evaluate_grants ::
  "Globs \<Rightarrow> (Json \<Rightarrow> ustr) \<Rightarrow> ustr option \<Rightarrow> ScopeUse list \<Rightarrow> int \<Rightarrow>
   Evaluation option \<Rightarrow> Evaluation option \<Rightarrow> Grant list \<Rightarrow> Evaluation" where
  "evaluate_grants G js home used now violation expired [] =
     (case violation of
        Some e \<Rightarrow> e
      | None \<Rightarrow> (case expired of Some e \<Rightarrow> e | None \<Rightarrow> Denied DeniedByDefault))"
| "evaluate_grants G js home used now violation expired (g # gs) =
     (case (case gr_expires_at g of Some t \<Rightarrow> if t \<le> now then Some t else None | None \<Rightarrow> None) of
        Some t \<Rightarrow>
          evaluate_grants G js home used now violation (get_or_insert expired (LeaseExpired g t)) gs
      | None \<Rightarrow>
          (case scope_covers G js (gr_scope g) used home of
             Inr _ \<Rightarrow> Allowed g
           | Inl attempted \<Rightarrow>
               evaluate_grants G js home used now
                 (get_or_insert violation (ScopeViolation g attempted)) expired gs))"

definition evaluate_at ::
  "Globs \<Rightarrow> (Json \<Rightarrow> ustr) \<Rightarrow> Policy \<Rightarrow> Capability \<Rightarrow> ScopeUse list \<Rightarrow> int \<Rightarrow> Evaluation" where
  "evaluate_at G js p capability used now =
     (if capability \<in> set (system_denies p) then Denied DeniedBySystem
      else if capability \<in> set (user_denies p) then Denied DeniedByUser
      else evaluate_grants G js (po_home p) used now None None
             (filter (\<lambda>g. gr_capability g = capability) (po_grants p)))"

datatype KuangErrorCode = CapabilityDenied | CapabilityLeaseExpired | CapabilityScopeViolation

record KuangError =
  ke_code :: KuangErrorCode
  ke_metadata :: "(ustr \<times> Json) list"

definition granted_json :: "Grant \<Rightarrow> Json" where
  "granted_json g = (case gr_scope g of None \<Rightarrow> JNull | Some s \<Rightarrow> JObject s)"

text \<open>The error of an evaluation that did not allow the call: its code and metadata.\<close>

definition denial_error :: "(int \<Rightarrow> ustr) \<Rightarrow> Evaluation \<Rightarrow> KuangError" where
  "denial_error show_time e =
     (case e of
        Allowed _ \<Rightarrow> \<lparr>ke_code = CapabilityDenied, ke_metadata = []\<rparr>
      | Denied _ \<Rightarrow> \<lparr>ke_code = CapabilityDenied, ke_metadata = []\<rparr>
      | LeaseExpired g t \<Rightarrow>
          \<lparr>ke_code = CapabilityLeaseExpired,
           ke_metadata = [(asc ''expired_at'', JString (show_time t)), (asc ''granted'', granted_json g)]\<rparr>
      | ScopeViolation g attempted \<Rightarrow>
          \<lparr>ke_code = CapabilityScopeViolation,
           ke_metadata = [(asc ''attempted'', JString attempted), (asc ''granted'', granted_json g)]\<rparr>)"

section \<open>When a call is allowed\<close>

definition unexpired :: "int \<Rightarrow> Grant \<Rightarrow> bool" where
  "unexpired now g \<longleftrightarrow> (\<forall>t. gr_expires_at g = Some t \<longrightarrow> now < t)"

abbreviation covers :: "Globs \<Rightarrow> (Json \<Rightarrow> ustr) \<Rightarrow> ustr option \<Rightarrow> ScopeUse list \<Rightarrow> Grant \<Rightarrow> bool" where
  "covers G js home used g \<equiv> scope_covers G js (gr_scope g) used home = Inr ()"

lemma covers_or_attempt: "(\<exists>a. scope_covers G js s used home = Inl a) \<longleftrightarrow> scope_covers G js s used home \<noteq> Inr ()"
  by (cases "scope_covers G js s used home") auto

definition verdict_of :: "Evaluation option \<Rightarrow> Evaluation option \<Rightarrow> Evaluation" where
  "verdict_of violation expired =
     (case violation of
        Some e \<Rightarrow> e
      | None \<Rightarrow> (case expired of Some e \<Rightarrow> e | None \<Rightarrow> Denied DeniedByDefault))"

text \<open>The first standing grant that covers the uses, searched for directly.\<close>

definition standing_cover ::
  "Globs \<Rightarrow> (Json \<Rightarrow> ustr) \<Rightarrow> ustr option \<Rightarrow> ScopeUse list \<Rightarrow> int \<Rightarrow> Grant list \<Rightarrow> Grant option" where
  "standing_cover G js home used now gs = find (\<lambda>g. unexpired now g \<and> covers G js home used g) gs"

definition first_outside ::
  "Globs \<Rightarrow> (Json \<Rightarrow> ustr) \<Rightarrow> ustr option \<Rightarrow> ScopeUse list \<Rightarrow> int \<Rightarrow> Grant list \<Rightarrow> Evaluation option" where
  "first_outside G js home used now gs =
     (case find (unexpired now) gs of
        None \<Rightarrow> None
      | Some g \<Rightarrow> (case scope_covers G js (gr_scope g) used home of
                    Inl a \<Rightarrow> Some (ScopeViolation g a) | Inr _ \<Rightarrow> None))"

definition first_expired :: "int \<Rightarrow> Grant list \<Rightarrow> Evaluation option" where
  "first_expired now gs =
     (case find (\<lambda>g. \<not> unexpired now g) gs of
        None \<Rightarrow> None
      | Some g \<Rightarrow> map_option (LeaseExpired g) (gr_expires_at g))"

definition or_else :: "'a option \<Rightarrow> 'a option \<Rightarrow> 'a option" where
  "or_else x y = (case x of Some a \<Rightarrow> Some a | None \<Rightarrow> y)"

lemma or_else_simps [simp]:
  "or_else None y = y" "or_else (Some a) y = Some a" "or_else x None = x"
  "or_else (get_or_insert x a) y = get_or_insert x a"
  by (auto simp: or_else_def get_or_insert_def split: option.splits)

lemma expiry_cases:
  "(case gr_expires_at g of Some t \<Rightarrow> if t \<le> now then Some t else None | None \<Rightarrow> None) =
     (if unexpired now g then None else gr_expires_at g)"
  by (auto simp: unexpired_def split: option.splits)

lemma evaluate_grants_spec:
  "evaluate_grants G js home used now violation expired gs =
     (case standing_cover G js home used now gs of
        Some g \<Rightarrow> Allowed g
      | None \<Rightarrow> verdict_of (or_else violation (first_outside G js home used now gs))
                 (or_else expired (first_expired now gs)))"
proof (induction gs arbitrary: violation expired)
  case Nil
  then show ?case by (simp add: standing_cover_def first_outside_def first_expired_def verdict_of_def)
next
  case (Cons g gs)
  show ?case
  proof (cases "unexpired now g")
    case True
    show ?thesis
    proof (cases "scope_covers G js (gr_scope g) used home")
      case (Inl a)
      have "first_outside G js home used now (g # gs) = Some (ScopeViolation g a)"
        using True Inl by (simp add: first_outside_def)
      then have "or_else violation (first_outside G js home used now (g # gs)) =
          or_else (get_or_insert violation (ScopeViolation g a)) (first_outside G js home used now gs)"
        by (cases violation) (simp_all add: get_or_insert_def)
      moreover have "standing_cover G js home used now (g # gs) = standing_cover G js home used now gs"
        "first_expired now (g # gs) = first_expired now gs"
        using True Inl by (simp_all add: standing_cover_def first_expired_def)
      ultimately show ?thesis
        using True Inl Cons.IH[of "get_or_insert violation (ScopeViolation g a)" expired]
        by (simp only: evaluate_grants.simps expiry_cases if_True option.case sum.case)
    next
      case (Inr u)
      then show ?thesis using True by (simp add: expiry_cases standing_cover_def)
    qed
  next
    case False
    then obtain t where t: "gr_expires_at g = Some t" "t \<le> now" by (auto simp: unexpired_def)
    have "first_expired now (g # gs) = Some (LeaseExpired g t)"
      using False t by (simp add: first_expired_def)
    then have "or_else expired (first_expired now (g # gs)) =
        or_else (get_or_insert expired (LeaseExpired g t)) (first_expired now gs)"
      by (cases expired) (simp_all add: get_or_insert_def)
    moreover have "standing_cover G js home used now (g # gs) = standing_cover G js home used now gs"
      "first_outside G js home used now (g # gs) = first_outside G js home used now gs"
      using False by (simp_all add: standing_cover_def first_outside_def)
    ultimately show ?thesis
      using False t Cons.IH[of violation "get_or_insert expired (LeaseExpired g t)"]
      by (simp only: evaluate_grants.simps option.case if_True)
  qed
qed

abbreviation of_family :: "Capability \<Rightarrow> Policy \<Rightarrow> Grant list" where
  "of_family capability p \<equiv> filter (\<lambda>g. gr_capability g = capability) (po_grants p)"

lemma evaluate_at_spec:
  "evaluate_at G js p capability used now =
     (if capability \<in> set (system_denies p) then Denied DeniedBySystem
      else if capability \<in> set (user_denies p) then Denied DeniedByUser
      else (case standing_cover G js (po_home p) used now (of_family capability p) of
              Some g \<Rightarrow> Allowed g
            | None \<Rightarrow> verdict_of (first_outside G js (po_home p) used now (of_family capability p))
                       (first_expired now (of_family capability p))))"
  by (auto simp: evaluate_at_def evaluate_grants_spec split: option.splits)

lemma verdict_not_allowed: "verdict_of (first_outside G js home used now gs) (first_expired now gs) \<noteq> Allowed g"
  by (auto simp: verdict_of_def first_outside_def first_expired_def split: option.splits sum.splits)

text \<open>
  C19: A call is allowed exactly when nothing denies its family and some grant of the family that
  has not run out covers every value the call uses; the grant that answers is one of those.  A
  deny in the system's or the operator's policy holds against every grant, and says whose it is.
\<close>

theorem broker_allows_exactly_what_is_covered:
  "((\<exists>g. evaluate_at G js p capability used now = Allowed g) \<longleftrightarrow>
      capability \<notin> set (system_denies p) \<and> capability \<notin> set (user_denies p) \<and>
      (\<exists>g \<in> set (po_grants p). gr_capability g = capability \<and> unexpired now g \<and>
         scope_covers G js (gr_scope g) used (po_home p) = Inr ())) \<and>
   (\<forall>g. evaluate_at G js p capability used now = Allowed g \<longrightarrow>
      g \<in> set (po_grants p) \<and> gr_capability g = capability \<and> unexpired now g \<and>
      scope_covers G js (gr_scope g) used (po_home p) = Inr ()) \<and>
   (capability \<in> set (system_denies p) \<longrightarrow>
      evaluate_at G js p capability used now = Denied DeniedBySystem) \<and>
   (capability \<notin> set (system_denies p) \<and> capability \<in> set (user_denies p) \<longrightarrow>
      evaluate_at G js p capability used now = Denied DeniedByUser)"
proof (intro conjI)
  show "(\<exists>g. evaluate_at G js p capability used now = Allowed g) \<longleftrightarrow>
      capability \<notin> set (system_denies p) \<and> capability \<notin> set (user_denies p) \<and>
      (\<exists>g \<in> set (po_grants p). gr_capability g = capability \<and> unexpired now g \<and>
         scope_covers G js (gr_scope g) used (po_home p) = Inr ())"
    by (auto simp: evaluate_at_spec standing_cover_def find_None_iff verdict_not_allowed
        dest!: find_member split: if_splits option.splits)
qed (auto simp: evaluate_at_spec standing_cover_def verdict_not_allowed
      dest!: find_member split: if_splits option.splits)

text \<open>A matcher that knows no wildcard, for the examples.\<close>

definition exact_globs :: Globs where
  "exact_globs = \<lparr>gl_new = (\<lambda>_. True), gl_build = (\<lambda>ps. Some (\<lambda>v. v \<in> set ps))\<rparr>"

lemma exact_globs_documented: "globs_documented exact_globs"
  unfolding globs_documented_def exact_globs_def by (rule exI[of _ "(=)"]) auto

lemma broker_allows_exactly_what_is_covered_witness:
  "(\<exists>g. evaluate_at exact_globs (\<lambda>_. [])
      (policy_grant FilesystemRead (Some (reader_paths [asc ''/etc/reader.conf''])) (deny_all None))
      FilesystemRead [UsePath (asc ''paths'') (asc ''/etc/reader.conf'')] 0 = Allowed g) \<and>
   evaluate_at exact_globs (\<lambda>_. [])
     (policy_deny FilesystemRead (policy_grant FilesystemRead None (deny_all None)))
     FilesystemRead [] 0 = Denied DeniedByUser"
proof
  let ?p = "policy_grant FilesystemRead (Some (reader_paths [asc ''/etc/reader.conf''])) (deny_all None)"
  have "(\<exists>g. evaluate_at exact_globs (\<lambda>_. []) ?p FilesystemRead
      [UsePath (asc ''paths'') (asc ''/etc/reader.conf'')] 0 = Allowed g) \<longleftrightarrow>
      FilesystemRead \<notin> set (system_denies ?p) \<and> FilesystemRead \<notin> set (user_denies ?p) \<and>
      (\<exists>g \<in> set (po_grants ?p). gr_capability g = FilesystemRead \<and> unexpired 0 g \<and>
         scope_covers exact_globs (\<lambda>_. []) (gr_scope g)
           [UsePath (asc ''paths'') (asc ''/etc/reader.conf'')] (po_home ?p) = Inr ())"
    by (rule conjunct1[OF broker_allows_exactly_what_is_covered])
  then show "\<exists>g. evaluate_at exact_globs (\<lambda>_. []) ?p FilesystemRead
      [UsePath (asc ''paths'') (asc ''/etc/reader.conf'')] 0 = Allowed g"
    by (simp add: policy_grant_def deny_all_def unexpired_def scope_covers_def reader_paths_def
        allowed_list_def use_covered_def path_covered_def expand_home_def exact_globs_def)
  show "evaluate_at exact_globs (\<lambda>_. [])
     (policy_deny FilesystemRead (policy_grant FilesystemRead None (deny_all None)))
     FilesystemRead [] 0 = Denied DeniedByUser"
    using broker_allows_exactly_what_is_covered[of exact_globs "\<lambda>_. []"
        "policy_deny FilesystemRead (policy_grant FilesystemRead None (deny_all None))" FilesystemRead "[]" 0]
    by (simp add: policy_deny_def policy_grant_def deny_all_def)
qed

section \<open>An upgrade without a delta\<close>

lemma allowed_list_of: "allowed_list js v = Some xs \<Longrightarrow> xs = list_of js v"
  by (auto simp: allowed_list_def list_of_def split: Json.splits)

lemma path_covered_mono:
  assumes "globs_documented G" and "set xs \<subseteq> set ys" and "path_covered G xs v home"
  shows "path_covered G ys v home"
proof -
  obtain m where m: "\<And>ps. \<exists>f. gl_build G ps = Some f \<and> (\<forall>v. f v \<longleftrightarrow> (\<exists>p \<in> set ps. m p v))"
    using assms(1) by (auto simp: globs_documented_def)
  let ?kept = "\<lambda>zs. filter (\<lambda>r. \<not> (r \<noteq> [] \<and> hd r = 126) \<and> gl_new G r) (map (\<lambda>p. expand_home p home) zs)"
  have covered: "path_covered G zs v home \<longleftrightarrow> (\<exists>p \<in> set (?kept zs). m p v)" for zs
  proof -
    obtain f where "gl_build G (?kept zs) = Some f" "\<forall>v. f v \<longleftrightarrow> (\<exists>p \<in> set (?kept zs). m p v)"
      using m[of "?kept zs"] by blast
    then show ?thesis unfolding path_covered_def Let_def by simp
  qed
  have "set (?kept xs) \<subseteq> set (?kept ys)" using assms(2) by auto
  then show ?thesis using assms(3) covered by blast
qed

lemma use_covered_mono:
  assumes "globs_documented G" and "set xs \<subseteq> set ys" and "use_covered G home xs u"
  shows "use_covered G home ys u"
  using assms path_covered_mono[OF assms(1,2)]
  by (cases u) (auto simp: use_covered_def list_ex_iff)

text \<open>A scope of lists and strings, the only values a use is checked against.\<close>

definition scope_of_lists :: "(Json \<Rightarrow> ustr) \<Rightarrow> scope_map \<Rightarrow> bool" where
  "scope_of_lists js s \<longleftrightarrow> (\<forall>(key, v) \<in> set s. allowed_list js v \<noteq> None)"

lemma widened_keys_None:
  assumes "widened_keys js old new = None" and "map_of old key = Some v"
  shows "\<exists>w. map_of new key = Some w \<and> set (list_of js w) \<subseteq> set (list_of js v)"
  using assms
proof (induction js old new rule: widened_keys.induct)
  case (2 js k old_value old new)
  then obtain w where w: "map_of new k = Some w" "set (list_of js w) \<subseteq> set (list_of js old_value)"
      "widened_keys js old new = None"
    by (auto simp: Let_def filter_empty_conv split: option.splits if_splits)
  show ?case using 2 w by (cases "k = key") (auto simp: filter_empty_conv)
qed simp

lemma widened_keys_covers:
  assumes "globs_documented G" and "widened_keys js old new = None" and "scope_of_lists js old"
    and "uses_covered G js home new used = Inr ()"
  shows "uses_covered G js home old used = Inr ()"
  using assms(4)
proof (induction used)
  case (Cons u us)
  have rest: "uses_covered G js home new us = Inr ()"
    using Cons.prems by (auto split: option.splits if_splits)
  show ?case
  proof (cases "map_of old (use_key u)")
    case None
    then show ?thesis using Cons.IH rest by simp
  next
    case (Some v)
    obtain w where w: "map_of new (use_key u) = Some w" "set (list_of js w) \<subseteq> set (list_of js v)"
      using widened_keys_None[OF assms(2) Some] by blast
    obtain xs where xs: "allowed_list js w = Some xs" "use_covered G home xs u"
      using Cons.prems w(1) by (auto split: option.splits if_splits)
    obtain ys where ys: "allowed_list js v = Some ys"
      using assms(3) map_of_SomeD[OF Some] by (auto simp: scope_of_lists_def)
    have "use_covered G home ys u"
      using use_covered_mono[OF assms(1) _ xs(2)] w(2) allowed_list_of[OF xs(1)] allowed_list_of[OF ys] by auto
    then show ?thesis using Some ys Cons.IH rest by simp
  qed
qed simp

text \<open>What one template reaches beside another: the rules of the delta, said of the uses.\<close>

definition reaches_no_further ::
  "Globs \<Rightarrow> (Json \<Rightarrow> ustr) \<Rightarrow> ustr option \<Rightarrow> ScopeTemplate option \<Rightarrow> ScopeTemplate option \<Rightarrow> bool" where
  "reaches_no_further G js home before after =
     (case before of
        None \<Rightarrow> True
      | Some (Concrete old) \<Rightarrow>
          (\<exists>new. after = Some (Concrete new) \<and>
             (\<forall>used. uses_covered G js home new used = Inr () \<longrightarrow> uses_covered G js home old used = Inr ()))
      | Some RuntimeDerived \<Rightarrow> after = Some RuntimeDerived \<or> (\<exists>new. after = Some (Concrete new))
      | Some PackageContributions \<Rightarrow>
          after = Some PackageContributions \<or>
          (\<exists>new. after = Some (Concrete new) \<and> has_key new (asc ''relations''))
      | Some ProviderInstance \<Rightarrow> after = Some ProviderInstance)"

lemma not_widened_reaches:
  assumes "widened js before after = None" and "globs_documented G"
    and "\<forall>s. before = Some (Concrete s) \<longrightarrow> scope_of_lists js s"
  shows "reaches_no_further G js home before after"
  using assms widened_keys_covers[OF assms(2)]
  by (auto simp: widened_def reaches_no_further_def split: option.splits ScopeTemplate.splits if_splits)



text \<open>
  The second change of shape lets a package reach the relations of every other: from the package's
  own contributions to the written list of one star the delta is empty, and the star is every name.
\<close>

definition contributor_set :: "ScopeTemplate \<Rightarrow> PermissionSet" where
  "contributor_set scope =
     \<lparr>ps_descriptors = [\<lparr>pd_id = asc ''relation-write'', pd_kind = KindLocalContribution,
        pd_title = family_title RelationWrite, pd_purpose = None, pd_phase = PhaseAutomatic,
        pd_recommended = True, pd_risk = PRiskLocal,
        pd_grants = [\<lparr>gt_capability = RelationWrite, gt_scope = Some scope\<rparr>],
        pd_scope_text = None, pd_derived = True\<rparr>],
      ps_profiles = [], ps_declared = False\<rparr>"

lemma every_relation_without_a_delta:
  "delta js (contributor_set PackageContributions)
     (contributor_set (Concrete [(asc ''relations'', JArray [JString (asc ''*'')])])) RECOMMENDED = []"
  "uses_covered G js home [(asc ''relations'', JArray [JString (asc ''*'')])]
     [UseName (asc ''relations'') name] = Inr ()"
  by (simp_all add: delta_def contributor_set_def selected_by_def ps_profile_def automatic_def is_automatic_def
      compare_descriptors_def compare_grant_def pd_capabilities_def widened_def has_key_def ps_descriptor_def
      grant_enforcement_def allowed_list_def use_covered_def name_matches_def strip_prefix_def Let_def
      broker_def)

text \<open>
  A bare number bounds a scope to nothing, and the list of it to that number; the comparison reads
  both as the same list, so the step from one to the other has no line either.
\<close>

lemma number_compared_as_list:
  "widened_keys (\<lambda>v. case v of JNumber n \<Rightarrow> n | _ \<Rightarrow> []) [(asc ''ports'', JNumber (asc ''443''))]
     [(asc ''ports'', JArray [JNumber (asc ''443'')])] = None"
  "uses_covered G js home [(asc ''ports'', JNumber (asc ''443''))] [UsePort (asc ''ports'') 443] = Inl (show_nat 443)"
  "uses_covered G (\<lambda>v. case v of JNumber n \<Rightarrow> n | _ \<Rightarrow> []) home
     [(asc ''ports'', JArray [JNumber (asc ''443'')])] [UsePort (asc ''ports'') 443] = Inr ()"
  by (simp_all add: list_of_def allowed_list_def use_covered_def port_covered_def trim_def is_whitespace_def
      parse_u16_def parse_u32_def is_ascii_digit_def digits_value_def Let_def)

end
