(* ===== verification/Permission_Grants.thy ===== *)
theory Permission_Grants
  imports Broker_Policy "HOL-Library.AList"
begin

text \<open>
  Decisions and the grants they mint: the part of the shell's plugin host that keeps grants and
  decisions (\<open>crates/ono-cli/src/kuang_host.rs\<close>) and the operations that decide a permission
  (\<open>crates/ono-cli/src/kuang_permissions.rs\<close>), with the identity of a contributed relation
  (\<open>crates/ono-spatial-core/src/relation.rs\<close>).  An operation reads the clock once, the argument
  \<open>now\<close>; a grant's identity is the number it was minted under; the two stores are the values
  handed to the YAML writer.  The theory shows what a decision does to the broker's policy: a deny
  holds until the same permission is decided again, an allow replaces exactly the grants of its
  permission, no operation brings a revoked grant back, and what a restart keeps.
\<close>

section \<open>State\<close>

record HostGrant =
  hg_id :: nat
  hg_plugin :: ustr
  hg_capability :: Capability
  hg_scope :: "scope_map option"
  hg_class :: "DeclarationClass option"
  hg_source :: ustr
  hg_granted_at :: int
  hg_duration :: ustr
  hg_expires_at :: "int option"
  hg_revoked_at :: "int option"
  hg_permission :: "ustr option"
  hg_profile :: "ustr option"
  hg_correlation :: "ustr option"

record GrantOrigin =
  go_permission :: "ustr option"
  go_profile :: "ustr option"
  go_correlation :: "ustr option"

definition stands_at :: "HostGrant \<Rightarrow> int \<Rightarrow> bool" where
  "stands_at g now \<longleftrightarrow>
     hg_revoked_at g = None \<and> (case hg_expires_at g of None \<Rightarrow> True | Some expiry \<Rightarrow> expiry > now)"

record AuditEvent =
  ev_id :: nat
  ev_plugin :: ustr
  ev_capability :: ustr
  ev_action :: ustr
  ev_at :: int
  ev_ok :: bool
  ev_correlation :: "ustr option"

record DecisionRecord =
  dr_decision :: ustr
  dr_duration :: ustr
  dr_profile :: "ustr option"
  dr_created_at :: int
  dr_updated_at :: int
  dr_grants :: "nat list"
  dr_capabilities :: "ustr list"
  dr_package_version :: ustr
  dr_publisher :: ustr

record Decision =
  dc_plugin :: ustr
  dc_permission :: ustr
  dc_record :: DecisionRecord

record StoredDecision =
  sd_decision :: ustr
  sd_scope :: "scope_map option"
  sd_permission :: "ustr option"
  sd_profile :: "ustr option"

type_synonym StoredPolicy = "(ustr \<times> (ustr \<times> StoredDecision) list) list"

text \<open>
  The parts of the host the permission layer changes; \<open>ho_policy_file\<close> is what the policy store
  was last given, a failure to write being ignored by the source.
\<close>

record Host =
  ho_grants :: "HostGrant list"
  ho_minted :: nat
  ho_audit :: "AuditEvent list"
  ho_decisions :: "Decision list"
  ho_denials :: "(ustr \<times> ustr \<times> ustr) list"
  ho_policy_file :: "StoredPolicy option"

record Installed =
  in_manifest :: Manifest
  in_publisher :: ustr

section \<open>Grants of the host\<close>

definition mint :: "Host \<Rightarrow> nat \<times> Host" where
  "mint h = (Suc (ho_minted h), h\<lparr>ho_minted := Suc (ho_minted h)\<rparr>)"

definition record_host_event ::
  "ustr \<Rightarrow> ustr \<Rightarrow> ustr \<Rightarrow> bool \<Rightarrow> ustr option \<Rightarrow> int \<Rightarrow> Host \<Rightarrow> Host" where
  "record_host_event plugin capability action ok correlation now h =
     (let (i, h) = mint h
      in h\<lparr>ho_audit := ho_audit h @ [\<lparr>ev_id = i, ev_plugin = plugin, ev_capability = capability,
            ev_action = action, ev_at = now, ev_ok = ok, ev_correlation = correlation\<rparr>]\<rparr>)"

definition nested_insert ::
  "ustr \<Rightarrow> ustr \<Rightarrow> 'v \<Rightarrow> (ustr \<times> (ustr \<times> 'v) list) list \<Rightarrow> (ustr \<times> (ustr \<times> 'v) list) list" where
  "nested_insert outer inner v m =
     AList.update outer (AList.update inner v (case map_of m outer of Some s \<Rightarrow> s | None \<Rightarrow> [])) m"

definition stored_of :: "HostGrant \<Rightarrow> StoredDecision" where
  "stored_of g = \<lparr>sd_decision = asc ''allow'', sd_scope = hg_scope g, sd_permission = hg_permission g,
     sd_profile = hg_profile g\<rparr>"

text \<open>The value \<open>write_policy\<close> serialises: one entry per package and capability, the last one kept.\<close>

definition policy_file :: "HostGrant list \<Rightarrow> StoredPolicy" where
  "policy_file grants =
     foldl (\<lambda>m g. nested_insert (hg_plugin g) (Capability_id (hg_capability g)) (stored_of g) m) []
       (filter (\<lambda>g. hg_duration g = asc ''always'' \<and> hg_revoked_at g = None) grants)"

definition write_policy :: "Host \<Rightarrow> Host" where
  "write_policy h = h\<lparr>ho_policy_file := Some (policy_file (ho_grants h))\<rparr>"

definition host_grant ::
  "ustr \<Rightarrow> Capability \<Rightarrow> scope_map option \<Rightarrow> DeclarationClass option \<Rightarrow> ustr \<Rightarrow> ustr \<Rightarrow> int option \<Rightarrow>
   GrantOrigin \<Rightarrow> int \<Rightarrow> Host \<Rightarrow> HostGrant \<times> Host" where
  "host_grant plugin capability scope class source duration expires origin now h =
     (let (i, h) = mint h;
          g = \<lparr>hg_id = i, hg_plugin = plugin, hg_capability = capability, hg_scope = scope,
               hg_class = class, hg_source = source, hg_granted_at = now, hg_duration = duration,
               hg_expires_at = expires, hg_revoked_at = None, hg_permission = go_permission origin,
               hg_profile = go_profile origin, hg_correlation = go_correlation origin\<rparr>;
          h = h\<lparr>ho_grants := ho_grants h @ [g]\<rparr>;
          h = record_host_event plugin (Capability_id capability) (asc ''capability.grant'') True
                (go_correlation origin) now h
      in (g, if duration = asc ''always'' then write_policy h else h))"

definition standing_id :: "nat \<Rightarrow> HostGrant \<Rightarrow> bool" where
  "standing_id i g \<longleftrightarrow> hg_id g = i \<and> hg_revoked_at g = None"

text \<open>The first element with the property, replaced.\<close>

fun update_first :: "('a \<Rightarrow> bool) \<Rightarrow> ('a \<Rightarrow> 'a) \<Rightarrow> 'a list \<Rightarrow> 'a list" where
  "update_first P f [] = []"
| "update_first P f (x # xs) = (if P x then f x # xs else x # update_first P f xs)"

definition revoke :: "nat \<Rightarrow> int \<Rightarrow> Host \<Rightarrow> HostGrant option \<times> Host" where
  "revoke i now h =
     (case find (standing_id i) (ho_grants h) of
        None \<Rightarrow> (None, h)
      | Some g \<Rightarrow>
          (let g = g\<lparr>hg_revoked_at := Some now\<rparr>;
               h = h\<lparr>ho_grants := update_first (standing_id i) (\<lambda>g. g\<lparr>hg_revoked_at := Some now\<rparr>) (ho_grants h)\<rparr>;
               h = (if hg_duration g = asc ''always'' then write_policy h else h);
               h = record_host_event (hg_plugin g) (Capability_id (hg_capability g)) (asc ''capability.revoke'')
                     True (hg_correlation g) now h
           in (Some g, h)))"

definition revoke_correlated :: "nat \<Rightarrow> ustr \<Rightarrow> int \<Rightarrow> Host \<Rightarrow> HostGrant option \<times> Host" where
  "revoke_correlated i correlation now h =
     (case find (standing_id i) (ho_grants h) of
        None \<Rightarrow> (None, h)
      | Some g \<Rightarrow>
          revoke i now (h\<lparr>ho_grants := update_first (standing_id i)
            (\<lambda>g. g\<lparr>hg_correlation := Some correlation\<rparr>) (ho_grants h)\<rparr>))"

definition standing_grants :: "ustr \<Rightarrow> int \<Rightarrow> Host \<Rightarrow> HostGrant list" where
  "standing_grants plugin now h = filter (\<lambda>g. hg_plugin g = plugin \<and> stands_at g now) (ho_grants h)"

fun revoke_each :: "nat list \<Rightarrow> int \<Rightarrow> Host \<Rightarrow> nat \<times> Host" where
  "revoke_each [] now h = (0, h)"
| "revoke_each (i # is) now h =
     (let (g, h) = revoke i now h; (n, h) = revoke_each is now h
      in (if g \<noteq> None then Suc n else n, h))"

definition revoke_grants_of :: "ustr \<Rightarrow> int \<Rightarrow> Host \<Rightarrow> nat \<times> Host" where
  "revoke_grants_of plugin now h = revoke_each (map hg_id (standing_grants plugin now h)) now h"

definition broker_grant :: "HostGrant \<Rightarrow> Grant" where
  "broker_grant g = \<lparr>gr_capability = hg_capability g, gr_scope = hg_scope g,
     gr_expires_at = hg_expires_at g, gr_permission = hg_permission g\<rparr>"

definition policy_for :: "ustr option \<Rightarrow> ustr \<Rightarrow> int \<Rightarrow> Host \<Rightarrow> Policy" where
  "policy_for home plugin now h =
     (let policy = foldl (\<lambda>p g. policy_grant_for (hg_capability g) (hg_scope g) (hg_expires_at g) (hg_permission g) p)
                     (deny_all home) (standing_grants plugin now h)
      in foldl (\<lambda>p d. foldl (\<lambda>p c. case Capability_from_id c of Some c \<Rightarrow> policy_deny c p | None \<Rightarrow> p)
                       p (dr_capabilities (dc_record d)))
           policy (filter (\<lambda>d. dc_plugin d = plugin \<and> dr_decision (dc_record d) = asc ''deny'') (ho_decisions h)))"

text \<open>\<open>read_policy\<close>: the stored grants, as a session that starts with them.\<close>

definition read_entry :: "ustr \<Rightarrow> int \<Rightarrow> ustr \<times> StoredDecision \<Rightarrow> Host \<Rightarrow> Host" where
  "read_entry plugin now e h =
     (case Capability_from_id (fst e) of
        None \<Rightarrow> h
      | Some capability \<Rightarrow>
          (if sd_decision (snd e) \<noteq> asc ''allow'' then h
           else let (i, h) = mint h
                in h\<lparr>ho_grants := ho_grants h @ [\<lparr>hg_id = i, hg_plugin = plugin, hg_capability = capability,
                      hg_scope = sd_scope (snd e), hg_class = None, hg_source = asc ''user-policy'',
                      hg_granted_at = now, hg_duration = asc ''always'', hg_expires_at = None,
                      hg_revoked_at = None, hg_permission = sd_permission (snd e),
                      hg_profile = sd_profile (snd e), hg_correlation = None\<rparr>]\<rparr>))"

definition read_policy :: "StoredPolicy \<Rightarrow> int \<Rightarrow> Host \<Rightarrow> Host" where
  "read_policy stored now h =
     foldl (\<lambda>h (plugin, decisions). foldl (\<lambda>h e. read_entry plugin now e h) h decisions) h stored"

section \<open>Decisions\<close>

definition decision :: "ustr \<Rightarrow> ustr \<Rightarrow> Host \<Rightarrow> Decision option" where
  "decision plugin permission h =
     find (\<lambda>d. dc_plugin d = plugin \<and> dc_permission d = permission) (ho_decisions h)"

definition record_decision ::
  "ustr \<Rightarrow> ustr \<Rightarrow> ustr \<Rightarrow> ustr \<Rightarrow> ustr option \<Rightarrow> nat list \<Rightarrow> ustr list \<Rightarrow> ustr \<Rightarrow> ustr \<Rightarrow> int \<Rightarrow> Host \<Rightarrow> Host" where
  "record_decision plugin permission word duration profile grants capabilities version publisher now h =
     (let created = (case decision plugin permission h of
                       None \<Rightarrow> now | Some existing \<Rightarrow> dr_created_at (dc_record existing))
      in h\<lparr>ho_decisions :=
             filter (\<lambda>d. \<not> (dc_plugin d = plugin \<and> dc_permission d = permission)) (ho_decisions h) @
             [\<lparr>dc_plugin = plugin, dc_permission = permission,
               dc_record = \<lparr>dr_decision = word, dr_duration = duration, dr_profile = profile,
                 dr_created_at = created, dr_updated_at = now, dr_grants = grants,
                 dr_capabilities = capabilities, dr_package_version = version, dr_publisher = publisher\<rparr>\<rparr>]\<rparr>)"

definition forget_decision :: "ustr \<Rightarrow> ustr \<Rightarrow> Host \<Rightarrow> Host" where
  "forget_decision plugin permission h =
     h\<lparr>ho_decisions := filter (\<lambda>d. \<not> (dc_plugin d = plugin \<and> dc_permission d = permission)) (ho_decisions h)\<rparr>"

definition forget_decisions_of :: "ustr \<Rightarrow> Host \<Rightarrow> Host" where
  "forget_decisions_of plugin h = h\<lparr>ho_decisions := filter (\<lambda>d. dc_plugin d \<noteq> plugin) (ho_decisions h)\<rparr>"

definition remember_denial :: "ustr \<Rightarrow> ustr \<Rightarrow> ustr \<Rightarrow> Host \<Rightarrow> Host" where
  "remember_denial plugin permission subject h =
     h\<lparr>ho_denials := List.insert (plugin, permission, subject) (ho_denials h)\<rparr>"

definition denied_in_session :: "ustr \<Rightarrow> ustr \<Rightarrow> ustr \<Rightarrow> Host \<Rightarrow> bool" where
  "denied_in_session plugin permission subject h \<longleftrightarrow> (plugin, permission, subject) \<in> set (ho_denials h)"

definition forget_denials :: "ustr \<Rightarrow> ustr \<Rightarrow> Host \<Rightarrow> Host" where
  "forget_denials plugin permission h =
     h\<lparr>ho_denials := filter (\<lambda>(p, q, _). \<not> (p = plugin \<and> q = permission)) (ho_denials h)\<rparr>"

definition grants_of_permission :: "ustr \<Rightarrow> ustr \<Rightarrow> int \<Rightarrow> Host \<Rightarrow> nat list" where
  "grants_of_permission plugin permission now h =
     map hg_id (filter (\<lambda>g. hg_permission g = Some permission) (standing_grants plugin now h))"

section \<open>Scopes of a package's grants\<close>

text \<open>\<open>str::split_once("->")\<close>.\<close>

fun split_arrow :: "ustr \<Rightarrow> (ustr \<times> ustr) option" where
  "split_arrow (a # b # s) =
     (if a = 45 \<and> b = 62 then Some ([], s)
      else map_option (\<lambda>(x, y). (a # x, y)) (split_arrow (b # s)))"
| "split_arrow _ = None"

definition parse_shape :: "ustr \<Rightarrow> (ustr \<times> ustr) option" where
  "parse_shape shape =
     (case split_arrow shape of
        None \<Rightarrow> None
      | Some (a, b) \<Rightarrow> (if trim a \<noteq> [] \<and> trim b \<noteq> [] then Some (trim a, trim b) else None))"

definition to_ascii_lowercase :: "ustr \<Rightarrow> ustr" where
  "to_ascii_lowercase s = map (\<lambda>c. if 65 \<le> c \<and> c \<le> 90 then c + 32 else c) s"

definition endpoint_word :: "ustr \<Rightarrow> ustr" where
  "endpoint_word name =
     (let n = trim name;
          without_version = (case split_once 47 n of Some (i, _) \<Rightarrow> i | None \<Rightarrow> n)
      in to_ascii_lowercase (last (split_on 46 without_version)))"

definition contributed_id :: "ustr \<Rightarrow> ustr \<Rightarrow> ustr \<Rightarrow> ustr" where
  "contributed_id package a b = package @ asc ''.'' @ endpoint_word a @ asc ''_to_'' @ endpoint_word b"

definition resolve_scope ::
  "Manifest \<Rightarrow> GrantTemplate \<Rightarrow> scope_map option \<Rightarrow> scope_map option" where
  "resolve_scope m template override =
     (let base = (case gt_scope template of
                    None \<Rightarrow> None
                  | Some (Concrete scope) \<Rightarrow> Some scope
                  | Some PackageContributions \<Rightarrow>
                      Some [(asc ''relations'', JArray (case mf_relations m of
                        None \<Rightarrow> []
                      | Some shapes \<Rightarrow> map (\<lambda>(a, b). JString (contributed_id (mf_package_id m) a b))
                                        (List.map_filter parse_shape shapes)))]
                  | Some RuntimeDerived \<Rightarrow> None
                  | Some ProviderInstance \<Rightarrow> None)
      in case (base, override) of
           (b, None) \<Rightarrow> b
         | (None, Some named) \<Rightarrow> Some named
         | (Some b, Some named) \<Rightarrow> Some (foldl (\<lambda>s (key, v). AList.update key v s) b named))"

definition declared_class :: "Manifest \<Rightarrow> Capability \<Rightarrow> DeclarationClass option" where
  "declared_class m capability =
     map_option fst (find (\<lambda>(_, request). cr_capability request = capability) (capability_requests m))"

definition duration_word :: "ustr \<Rightarrow> ustr" where
  "duration_word duration = (if duration = asc ''session'' then asc ''session'' else asc ''always'')"

section \<open>Deciding a permission\<close>

fun revoke_all :: "nat list \<Rightarrow> ustr \<Rightarrow> int \<Rightarrow> Host \<Rightarrow> Host" where
  "revoke_all [] correlation now h = h"
| "revoke_all (i # is) correlation now h =
     revoke_all is correlation now (snd (revoke_correlated i correlation now h))"

fun mint_grants ::
  "Manifest \<Rightarrow> ustr \<Rightarrow> ustr \<Rightarrow> GrantOrigin \<Rightarrow> scope_map option \<Rightarrow> int \<Rightarrow> GrantTemplate list \<Rightarrow> Host \<Rightarrow>
   HostGrant list \<times> Host" where
  "mint_grants m source duration origin override now [] h = ([], h)"
| "mint_grants m source duration origin override now (t # ts) h =
     (let (g, h) = host_grant (mf_package_id m) (gt_capability t) (resolve_scope m t override)
                     (declared_class m (gt_capability t)) source duration None origin now h;
          (gs, h) = mint_grants m source duration origin override now ts h
      in (g # gs, h))"

definition allow ::
  "Installed \<Rightarrow> PermissionDescriptor \<Rightarrow> ustr \<Rightarrow> ustr \<Rightarrow> ustr option \<Rightarrow> scope_map option \<Rightarrow> ustr \<Rightarrow> int \<Rightarrow>
   Host \<Rightarrow> HostGrant list \<times> Host" where
  "allow package d duration source profile override correlation now h =
     (let m = in_manifest package; i = mf_package_id m;
          h = revoke_all (grants_of_permission i (pd_id d) now h) correlation now h;
          h = forget_denials i (pd_id d) h;
          word = duration_word duration;
          (minted, h) = mint_grants m source word
            \<lparr>go_permission = Some (pd_id d), go_profile = profile, go_correlation = Some correlation\<rparr>
            override now (pd_grants d) h;
          h = record_decision i (pd_id d) (asc ''allow'') word profile (map hg_id minted)
                (map Capability_id (pd_capabilities d)) (mf_version m) (in_publisher package) now h
      in (minted, record_host_event i (pd_id d) (asc ''permission.allow'') True (Some correlation) now h))"

definition deny :: "Installed \<Rightarrow> PermissionDescriptor \<Rightarrow> ustr \<Rightarrow> int \<Rightarrow> Host \<Rightarrow> Host" where
  "deny package d correlation now h =
     (let m = in_manifest package; i = mf_package_id m;
          h = revoke_all (grants_of_permission i (pd_id d) now h) correlation now h;
          h = record_decision i (pd_id d) (asc ''deny'') (asc ''always'') None []
                (map Capability_id (pd_capabilities d)) (mf_version m) (in_publisher package) now h
      in record_host_event i (pd_id d) (asc ''permission.deny'') False (Some correlation) now h)"

definition ask :: "Installed \<Rightarrow> PermissionDescriptor \<Rightarrow> ustr \<Rightarrow> int \<Rightarrow> Host \<Rightarrow> Host" where
  "ask package d correlation now h =
     (let i = mf_package_id (in_manifest package);
          h = revoke_all (grants_of_permission i (pd_id d) now h) correlation now h;
          h = forget_decision i (pd_id d) h;
          h = forget_denials i (pd_id d) h
      in record_host_event i (pd_id d) (asc ''permission.ask'') True (Some correlation) now h)"

definition is_denied :: "ustr \<Rightarrow> ustr \<Rightarrow> Host \<Rightarrow> bool" where
  "is_denied plugin permission h =
     (case decision plugin permission h of
        None \<Rightarrow> False | Some d \<Rightarrow> dr_decision (dc_record d) = asc ''deny'')"

fun allow_automatic ::
  "Installed \<Rightarrow> ustr \<Rightarrow> ustr \<Rightarrow> ustr \<Rightarrow> int \<Rightarrow> PermissionDescriptor list \<Rightarrow> Host \<Rightarrow> HostGrant list \<times> Host" where
  "allow_automatic package profile duration correlation now [] h = ([], h)"
| "allow_automatic package profile duration correlation now (d # ds) h =
     (if is_denied (mf_package_id (in_manifest package)) (pd_id d) h
      then allow_automatic package profile duration correlation now ds h
      else let (gs, h) = allow package d duration (asc ''automatic'') (Some profile) None correlation now h;
               (rest, h) = allow_automatic package profile duration correlation now ds h
           in (gs @ rest, h))"

fun allow_named ::
  "Installed \<Rightarrow> ustr \<Rightarrow> ustr \<Rightarrow> ustr \<Rightarrow> int \<Rightarrow> PermissionDescriptor list \<Rightarrow> Host \<Rightarrow> HostGrant list \<times> Host" where
  "allow_named package profile duration correlation now [] h = ([], h)"
| "allow_named package profile duration correlation now (d # ds) h =
     (if is_automatic d then allow_named package profile duration correlation now ds h
      else let (gs, h) = allow package d duration (asc ''prompt'') (Some profile) None correlation now h;
               (rest, h) = allow_named package profile duration correlation now ds h
           in (gs @ rest, h))"

definition apply_profile ::
  "Installed \<Rightarrow> PermissionSet \<Rightarrow> AccessProfile \<Rightarrow> ustr \<Rightarrow> ustr \<Rightarrow> int \<Rightarrow> Host \<Rightarrow> HostGrant list \<times> Host" where
  "apply_profile package s profile duration correlation now h =
     (let h = record_host_event (mf_package_id (in_manifest package)) (ap_name profile)
                (asc ''permission.profile_apply'') True (Some correlation) now h;
          (included, h) = allow_automatic package (ap_name profile) duration correlation now (automatic s) h;
          (named, h) = allow_named package (ap_name profile) duration correlation now
                         (profile_descriptors s profile) h
      in (included @ named, h))"

definition held :: "ustr \<Rightarrow> int \<Rightarrow> PermissionDescriptor \<Rightarrow> Host \<Rightarrow> bool" where
  "held plugin now d h \<longleftrightarrow>
     list_all (\<lambda>t. list_ex (\<lambda>g. hg_capability g = gt_capability t) (standing_grants plugin now h)) (pd_grants d)"

fun ensure_each :: "Manifest \<Rightarrow> int \<Rightarrow> PermissionDescriptor list \<Rightarrow> Host \<Rightarrow> Host" where
  "ensure_each m now [] h = h"
| "ensure_each m now (d # ds) h =
     ensure_each m now ds
       (if is_denied (mf_package_id m) (pd_id d) h \<or> held (mf_package_id m) now d h then h
        else snd (mint_grants m (asc ''automatic'') (asc ''session'')
               \<lparr>go_permission = Some (pd_id d), go_profile = None, go_correlation = None\<rparr> None now (pd_grants d) h))"

definition ensure_automatic :: "Installed \<Rightarrow> int \<Rightarrow> Host \<Rightarrow> Host" where
  "ensure_automatic package now h =
     ensure_each (in_manifest package) now (automatic (set_of_manifest (in_manifest package))) h"

definition undecided :: "Host \<Rightarrow> Installed \<Rightarrow> ustr option \<Rightarrow> int \<Rightarrow> ustr list" where
  "undecided h package profile now =
     (let m = in_manifest package; i = mf_package_id m; s = set_of_manifest m;
          chosen = (case profile of Some p \<Rightarrow> p | None \<Rightarrow> RECOMMENDED)
      in (case ps_profile s chosen of
            None \<Rightarrow> []
          | Some p \<Rightarrow> map pd_id (filter (\<lambda>d. pd_phase d = PhaseInstall \<and> \<not> held i now d h) (profile_descriptors s p))) @
         map (\<lambda>r. asc ''capability:'' @ Capability_id (cr_capability r))
           (filter (\<lambda>r. \<not> list_ex (\<lambda>g. hg_capability g = cr_capability r) (standing_grants i now h) \<and>
                        \<not> list_ex is_automatic (for_capability s (cr_capability r)))
              (required_capabilities m)))"

section \<open>What a permission's record says\<close>

definition chosen_grant :: "Host \<Rightarrow> ustr \<Rightarrow> int \<Rightarrow> PermissionDescriptor \<Rightarrow> GrantTemplate \<Rightarrow> HostGrant option" where
  "chosen_grant h plugin now d t =
     (let standing = filter (\<lambda>g. hg_capability g = gt_capability t) (standing_grants plugin now h)
      in case find (\<lambda>g. hg_permission g = Some (pd_id d)) standing of
           Some g \<Rightarrow> Some g
         | None \<Rightarrow> (case standing of [] \<Rightarrow> None | g # _ \<Rightarrow> Some g))"

definition exact_grant :: "Manifest \<Rightarrow> PermissionDescriptor \<Rightarrow> GrantTemplate \<Rightarrow> HostGrant option \<Rightarrow> bool" where
  "exact_grant m d t chosen =
     (case chosen of
        None \<Rightarrow> True
      | Some g \<Rightarrow> \<not> (hg_permission g \<noteq> Some (pd_id d) \<or>
                    hg_scope g \<noteq> resolve_scope m t None \<and> gt_scope t \<noteq> Some RuntimeDerived))"

datatype PermissionState = StAllowed | StDenied | StAsk | StIncluded | StCustom

definition permission_state :: "Host \<Rightarrow> Installed \<Rightarrow> PermissionDescriptor \<Rightarrow> int \<Rightarrow> PermissionState" where
  "permission_state h package d now =
     (let m = in_manifest package; i = mf_package_id m;
          chosen = map (\<lambda>t. (t, chosen_grant h i now d t)) (pd_grants d);
          all_held = list_all (\<lambda>(_, g). g \<noteq> None) chosen;
          exact = list_all (\<lambda>(t, g). exact_grant m d t g) chosen
      in case decision i (pd_id d) h of
           Some dec \<Rightarrow>
             (if dr_decision (dc_record dec) = asc ''deny'' then StDenied
              else if dr_decision (dc_record dec) = asc ''ask'' then StAsk
              else if is_automatic d \<and> all_held \<and> exact then StIncluded
              else if all_held \<and> exact then StAllowed
              else if all_held then StCustom
              else StDenied)
         | None \<Rightarrow>
             (case pd_phase d of
                PhaseAutomatic \<Rightarrow> (if all_held \<and> \<not> exact then StCustom else StIncluded)
              | PhaseJit \<Rightarrow> (if all_held then StCustom else StAsk)
              | PhaseExplicit \<Rightarrow> (if all_held then StCustom else StDenied)
              | PhaseInstall \<Rightarrow> (if all_held then StCustom else StDenied)))"

section \<open>The command that sets a permission\<close>

record SetPermission =
  sp_plugin :: ustr
  sp_permission :: "ustr option"
  sp_profile :: "ustr option"
  sp_decision :: "ustr option"
  sp_duration :: "ustr option"
  sp_scopes :: "ustr list"
  sp_confirm :: bool

fun read_set_words :: "SetPermission \<Rightarrow> ustr list \<Rightarrow> ustr list \<Rightarrow> SetPermission \<times> ustr list" where
  "read_set_words r positional [] = (r, positional)"
| "read_set_words r positional (word # rest) =
     (if word = asc ''--profile'' then
        (case rest of [] \<Rightarrow> (r\<lparr>sp_profile := None\<rparr>, positional)
         | v # rest \<Rightarrow> read_set_words (r\<lparr>sp_profile := Some v\<rparr>) positional rest)
      else if word = asc ''--decision'' then
        (case rest of [] \<Rightarrow> (r\<lparr>sp_decision := None\<rparr>, positional)
         | v # rest \<Rightarrow> read_set_words (r\<lparr>sp_decision := Some v\<rparr>) positional rest)
      else if word = asc ''--duration'' then
        (case rest of [] \<Rightarrow> (r\<lparr>sp_duration := None\<rparr>, positional)
         | v # rest \<Rightarrow> read_set_words (r\<lparr>sp_duration := Some v\<rparr>) positional rest)
      else if word = asc ''--scope'' then
        (case rest of [] \<Rightarrow> (r, positional)
         | v # rest \<Rightarrow> read_set_words (r\<lparr>sp_scopes := sp_scopes r @ [v]\<rparr>) positional rest)
      else if word = asc ''--confirm'' then read_set_words (r\<lparr>sp_confirm := True\<rparr>) positional rest
      else if strip_prefix (asc ''--'') word \<noteq> None then read_set_words r positional rest
      else read_set_words r (positional @ [word]) rest)"

definition set_permission_from_words :: "ustr list \<Rightarrow> SetPermission" where
  "set_permission_from_words words =
     (let (r, positional) = read_set_words \<lparr>sp_plugin = [], sp_permission = None, sp_profile = None,
            sp_decision = None, sp_duration = None, sp_scopes = [], sp_confirm = False\<rparr> [] (drop 1 words)
      in r\<lparr>sp_plugin := (case positional of [] \<Rightarrow> [] | p # _ \<Rightarrow> p),
           sp_permission := (case positional of _ # q # _ \<Rightarrow> Some q | _ \<Rightarrow> None)\<rparr>)"

datatype SetError =
  PluginMissing
  | NoSuchProfile ustr
  | NoSuchPermission ustr
  | NotADecision ustr
  | NotADuration ustr
  | ScopeNamesNoKey ustr
  | ScopeKeyNotGranted ustr ustr
  | NotConfirmed
  | DestructiveNeedsAPerson "ustr list"
  | ConfirmationRequired
  | ProfileAndPermission
  | NothingToSet

text \<open>The question at the terminal: the answers typed, an end of input being an empty one.\<close>

fun confirm_loop :: "ustr list \<Rightarrow> SetError + unit" where
  "confirm_loop [] = Inl NotConfirmed"
| "confirm_loop (a # rest) =
     (let w = to_ascii_lowercase (trim a)
      in if w = asc ''y'' \<or> w = asc ''yes'' then Inr ()
         else if w = asc ''d'' \<or> w = asc ''details'' then confirm_loop rest
         else Inl NotConfirmed)"

definition confirm_widening ::
  "bool \<Rightarrow> ustr list \<Rightarrow> PermissionDescriptor list \<Rightarrow> bool \<Rightarrow> SetError + unit" where
  "confirm_widening interactive answers widening confirmed =
     (if interactive then confirm_loop answers
      else if list_ex (\<lambda>d. pd_risk d = PRiskDestructive) widening
      then Inl (DestructiveNeedsAPerson (map pd_id widening))
      else if confirmed then Inr () else Inl ConfirmationRequired)"

fun scope_entries :: "PermissionDescriptor \<Rightarrow> scope_map \<Rightarrow> ustr list \<Rightarrow> SetError + scope_map" where
  "scope_entries d scope [] = Inr scope"
| "scope_entries d scope (entry # rest) =
     (case split_once 61 entry of
        None \<Rightarrow> Inl (ScopeNamesNoKey entry)
      | Some (key, values) \<Rightarrow>
          (if list_ex (\<lambda>t. list_ex (\<lambda>declared. sk_name declared = key) (scope_keys (gt_capability t))) (pd_grants d)
           then scope_entries d
                  (AList.update key (JArray (map JString (filter (\<lambda>v. v \<noteq> []) (split_on 44 values)))) scope) rest
           else Inl (ScopeKeyNotGranted (pd_id d) key)))"

definition scope_from_words :: "PermissionDescriptor \<Rightarrow> ustr list \<Rightarrow> SetError + scope_map option" where
  "scope_from_words d written =
     (if written = [] then Inr None
      else and_then (scope_entries d [] written) (\<lambda>s. Inr (Some s)))"

definition dropped_by_scope ::
  "(Json \<Rightarrow> ustr) \<Rightarrow> Host \<Rightarrow> Installed \<Rightarrow> PermissionDescriptor \<Rightarrow> scope_map option \<Rightarrow> int \<Rightarrow> (ustr \<times> ustr list) list" where
  "dropped_by_scope js h package d named now =
     (case named of
        None \<Rightarrow> []
      | Some scope \<Rightarrow>
          (let m = in_manifest package;
               before = concat (map (\<lambda>t.
                 (case resolve_scope m t None of Some s \<Rightarrow> [s] | None \<Rightarrow> []) @
                 List.map_filter hg_scope (filter (\<lambda>g. hg_capability g = gt_capability t \<and>
                   hg_permission g = Some (pd_id d)) (standing_grants (mf_package_id m) now h))) (pd_grants d));
               left_out = (\<lambda>key v. rev (remdups (rev (filter (\<lambda>w. w \<notin> set (list_of js v))
                 (concat (map (\<lambda>s. case map_of s key of Some old \<Rightarrow> list_of js old | None \<Rightarrow> []) before))))))
           in filter (\<lambda>(_, ws). ws \<noteq> []) (map (\<lambda>(key, v). (key, left_out key v)) scope)))"

definition narrowed_jit :: "PermissionDescriptor \<Rightarrow> scope_map option \<Rightarrow> bool" where
  "narrowed_jit d scope \<longleftrightarrow> pd_phase d = PhaseJit \<and> pd_risk d < PRiskMutate \<and> scope \<noteq> None"

definition set_profile ::
  "bool \<Rightarrow> ustr list \<Rightarrow> Installed \<Rightarrow> SetPermission \<Rightarrow> ustr \<Rightarrow> ustr \<Rightarrow> int \<Rightarrow> Host \<Rightarrow> SetError + Host" where
  "set_profile interactive answers package request name co now h =
     (let s = set_of_manifest (in_manifest package)
      in and_then (ok_or (NoSuchProfile name) (ps_profile s name)) (\<lambda>profile.
         let widening = filter (\<lambda>d. \<not> is_safe_default d) (profile_descriptors s profile)
         in and_then (if widening \<noteq> [] then confirm_widening interactive answers widening (sp_confirm request) else Inr ()) (\<lambda>_.
            Inr (write_policy (snd (apply_profile package s profile
              (case sp_duration request of Some du \<Rightarrow> du | None \<Rightarrow> asc ''always'') co now h))))))"

definition set_one ::
  "bool \<Rightarrow> ustr list \<Rightarrow> Installed \<Rightarrow> SetPermission \<Rightarrow> ustr \<Rightarrow> ustr \<Rightarrow> int \<Rightarrow> Host \<Rightarrow> SetError + Host" where
  "set_one interactive answers package request permission co now h =
     (let s = set_of_manifest (in_manifest package);
          word = (case sp_decision request of Some w \<Rightarrow> w | None \<Rightarrow> asc ''allow'');
          duration = (case sp_duration request of Some du \<Rightarrow> du | None \<Rightarrow> asc ''always'')
      in and_then (ok_or (NoSuchPermission permission) (ps_descriptor s permission)) (\<lambda>d.
         and_then (require (word \<in> set [asc ''allow'', asc ''deny'', asc ''ask'']) (NotADecision word)) (\<lambda>_.
         and_then (require (duration \<in> set [asc ''session'', asc ''always'']) (NotADuration duration)) (\<lambda>_.
         and_then (scope_from_words d (sp_scopes request)) (\<lambda>scope.
         and_then (if word = asc ''allow'' \<and> \<not> is_safe_default d \<and> \<not> narrowed_jit d scope
                   then confirm_widening interactive answers [d] (sp_confirm request) else Inr ()) (\<lambda>_.
         Inr (write_policy
           (if word = asc ''allow'' then snd (allow package d duration (asc ''prompt'') None scope co now h)
            else if word = asc ''deny'' then deny package d co now h
            else ask package d co now h))))))))"

text \<open>
  \<open>set permission\<close> on the package its reference resolved to; the stores are written when the
  decision has been executed.
\<close>

definition set_permission ::
  "bool \<Rightarrow> ustr list \<Rightarrow> Installed \<Rightarrow> SetPermission \<Rightarrow> ustr \<Rightarrow> int \<Rightarrow> Host \<Rightarrow> SetError + Host" where
  "set_permission interactive answers package request co now h =
     (if sp_plugin request = [] then Inl PluginMissing
      else case (sp_profile request, sp_permission request) of
             (Some name, None) \<Rightarrow> set_profile interactive answers package request name co now h
           | (None, Some permission) \<Rightarrow> set_one interactive answers package request permission co now h
           | (Some _, Some _) \<Rightarrow> Inl ProfileAndPermission
           | (None, None) \<Rightarrow> Inl NothingToSet)"

section \<open>The policy of a package\<close>

lemma foldl_grant_for:
  "foldl (\<lambda>p g. policy_grant_for (hg_capability g) (hg_scope g) (hg_expires_at g) (hg_permission g) p) p gs =
     p\<lparr>po_grants := po_grants p @ map broker_grant gs\<rparr>"
  by (induction gs arbitrary: p) (auto simp: policy_grant_for_def broker_grant_def)

lemma foldl_deny:
  "foldl (\<lambda>p c. case Capability_from_id c of Some c \<Rightarrow> policy_deny c p | None \<Rightarrow> p) p cs =
     p\<lparr>user_denies := user_denies p @ List.map_filter Capability_from_id cs\<rparr>"
  by (induction cs arbitrary: p) (auto simp: policy_deny_def List.map_filter_simps split: option.splits)

lemma foldl_denies:
  "foldl (\<lambda>p d. foldl (\<lambda>p c. case Capability_from_id c of Some c \<Rightarrow> policy_deny c p | None \<Rightarrow> p)
      p (dr_capabilities (dc_record d))) p ds =
     p\<lparr>user_denies := user_denies p @
        concat (map (\<lambda>d. List.map_filter Capability_from_id (dr_capabilities (dc_record d))) ds)\<rparr>"
  by (induction ds arbitrary: p) (auto simp: foldl_deny)

lemma policy_for_parts [simp]:
  "system_denies (policy_for home plugin now h) = []"
  "po_grants (policy_for home plugin now h) = map broker_grant (standing_grants plugin now h)"
  "po_home (policy_for home plugin now h) = home"
  "user_denies (policy_for home plugin now h) =
     concat (map (\<lambda>d. List.map_filter Capability_from_id (dr_capabilities (dc_record d)))
       (filter (\<lambda>d. dc_plugin d = plugin \<and> dr_decision (dc_record d) = asc ''deny'') (ho_decisions h)))"
  by (simp_all add: policy_for_def Let_def foldl_grant_for foldl_denies deny_all_def)

section \<open>What every operation keeps\<close>

text \<open>
  A grant may be revoked and stamped; everything else of it stays.  A step of the host updates the
  grants it has in this way and appends new ones under numbers not minted before.
\<close>

definition core :: "HostGrant \<Rightarrow> HostGrant" where
  "core g = g\<lparr>hg_revoked_at := None, hg_correlation := None\<rparr>"

definition kept :: "HostGrant \<Rightarrow> HostGrant \<Rightarrow> bool" where
  "kept g g' \<longleftrightarrow> core g' = core g \<and> (hg_revoked_at g \<noteq> None \<longrightarrow> hg_revoked_at g' = hg_revoked_at g)"

definition evolves :: "Host \<Rightarrow> Host \<Rightarrow> bool" where
  "evolves h h' \<longleftrightarrow>
     ho_minted h \<le> ho_minted h' \<and>
     (\<exists>old new. ho_grants h' = old @ new \<and> list_all2 kept (ho_grants h) old \<and>
        distinct (map hg_id new) \<and> (\<forall>g \<in> set new. ho_minted h < hg_id g \<and> hg_id g \<le> ho_minted h'))"

definition host_ok :: "Host \<Rightarrow> bool" where
  "host_ok h \<longleftrightarrow> distinct (map hg_id (ho_grants h)) \<and> (\<forall>g \<in> set (ho_grants h). hg_id g \<le> ho_minted h)"

lemma core_sel [simp]:
  "hg_id (core g) = hg_id g" "hg_plugin (core g) = hg_plugin g" "hg_capability (core g) = hg_capability g"
  "hg_scope (core g) = hg_scope g" "hg_permission (core g) = hg_permission g"
  "hg_expires_at (core g) = hg_expires_at g" "hg_duration (core g) = hg_duration g"
  by (simp_all add: core_def)

lemma core_fields:
  assumes "core g = core g'"
  shows "hg_id g = hg_id g'" and "hg_plugin g = hg_plugin g'" and "hg_capability g = hg_capability g'"
    and "hg_scope g = hg_scope g'" and "hg_permission g = hg_permission g'"
    and "hg_expires_at g = hg_expires_at g'" and "hg_duration g = hg_duration g'"
  using assms by (metis core_sel)+

lemma kept_id: "kept g g' \<Longrightarrow> hg_id g' = hg_id g"
  by (rule core_fields(1)) (simp add: kept_def)

lemma kept_refl [simp]: "kept g g"
  by (simp add: kept_def)

lemma kept_trans: "kept a b \<Longrightarrow> kept b c \<Longrightarrow> kept a c"
  by (auto simp: kept_def)

lemma kept_refl_list [simp]: "list_all2 kept gs gs"
  by (simp add: list.rel_refl)

lemma kept_ids: "list_all2 kept gs gs' \<Longrightarrow> map hg_id gs' = map hg_id gs"
  by (induction rule: list_all2_induct) (auto simp: kept_id)

lemma evolves_kept: "ho_minted h \<le> ho_minted h' \<Longrightarrow> list_all2 kept (ho_grants h) (ho_grants h') \<Longrightarrow> evolves h h'"
  unfolding evolves_def by (intro conjI exI[of _ "ho_grants h'"] exI[of _ "[]"]) auto

lemma evolves_same: "ho_grants h' = ho_grants h \<Longrightarrow> ho_minted h \<le> ho_minted h' \<Longrightarrow> evolves h h'"
  by (rule evolves_kept) auto

lemma evolves_refl [simp]: "evolves h h"
  by (rule evolves_same) auto

lemma evolves_trans:
  assumes "evolves a b" and "evolves b c"
  shows "evolves a c"
proof -
  obtain old new where b: "ho_grants b = old @ new" "list_all2 kept (ho_grants a) old"
    "distinct (map hg_id new)" "\<forall>g \<in> set new. ho_minted a < hg_id g \<and> hg_id g \<le> ho_minted b"
    using assms(1) by (auto simp: evolves_def)
  obtain old' new' where c: "ho_grants c = old' @ new'" "list_all2 kept (old @ new) old'"
    "distinct (map hg_id new')" "\<forall>g \<in> set new'. ho_minted b < hg_id g \<and> hg_id g \<le> ho_minted c"
    using assms(2) b(1) by (auto simp: evolves_def)
  obtain xs ys where xy: "old' = xs @ ys" "list_all2 kept old xs" "list_all2 kept new ys"
    using c(2) by (auto simp: list_all2_append1)
  have m: "ho_minted a \<le> ho_minted b" "ho_minted b \<le> ho_minted c" using assms by (auto simp: evolves_def)
  have ys: "map hg_id ys = map hg_id new" using kept_ids[OF xy(3)] .
  have "hg_id ` set ys = hg_id ` set new" using ys by (metis list.set_map)
  then have yb: "ho_minted a < hg_id g \<and> hg_id g \<le> ho_minted b" if "g \<in> set ys" for g
    using that b(4) by (metis (no_types, lifting) imageE imageI)
  have apart: "hg_id x \<noteq> hg_id y" if "x \<in> set new" "y \<in> set new'" for x y
    using b(4) c(4) that by fastforce
  have "list_all2 kept (ho_grants a) xs"
    by (rule list_all2_trans[OF _ b(2) xy(2)]) (rule kept_trans)
  moreover have "distinct (map hg_id (ys @ new'))"
    using ys b(3) c(3) by (auto dest: apart)
  moreover have "\<forall>g \<in> set (ys @ new'). ho_minted a < hg_id g \<and> hg_id g \<le> ho_minted c"
    using yb c(4) m by fastforce
  ultimately show ?thesis
    using m c(1) xy(1) unfolding evolves_def by (intro conjI exI[of _ xs] exI[of _ "ys @ new'"]) auto
qed

lemma evolves_ok: "evolves h h' \<Longrightarrow> host_ok h \<Longrightarrow> host_ok h'"
proof -
  assume e: "evolves h h'" and ok: "host_ok h"
  obtain old new where n: "ho_grants h' = old @ new" "list_all2 kept (ho_grants h) old" "distinct (map hg_id new)"
    "\<forall>g \<in> set new. ho_minted h < hg_id g \<and> hg_id g \<le> ho_minted h'" "ho_minted h \<le> ho_minted h'"
    using e by (auto simp: evolves_def)
  have ids: "map hg_id old = map hg_id (ho_grants h)" using kept_ids[OF n(2)] .
  have "hg_id ` set old = hg_id ` set (ho_grants h)" using ids by (metis list.set_map)
  then have old: "hg_id g \<le> ho_minted h" if "g \<in> set old" for g
    using that ok unfolding host_ok_def by (metis (no_types, lifting) imageE imageI)
  then show ?thesis
    using n ids ok unfolding host_ok_def by (fastforce simp: distinct_append)
qed

lemma update_first_kept: "(\<And>x. P x \<Longrightarrow> kept x (f x)) \<Longrightarrow> list_all2 kept gs (update_first P f gs)"
  by (induction gs) auto

lemma event_evolves: "evolves h (record_host_event p c a ok co now h)"
  by (rule evolves_same) (simp_all add: record_host_event_def mint_def Let_def)

lemma event_fields [simp]:
  "ho_grants (record_host_event p c a ok co now h) = ho_grants h"
  "ho_decisions (record_host_event p c a ok co now h) = ho_decisions h"
  "ho_minted (record_host_event p c a ok co now h) = Suc (ho_minted h)"
  "ho_policy_file (record_host_event p c a ok co now h) = ho_policy_file h"
  by (simp_all add: record_host_event_def mint_def Let_def)

lemma write_policy_fields [simp]:
  "ho_grants (write_policy h) = ho_grants h" "ho_decisions (write_policy h) = ho_decisions h"
  "ho_minted (write_policy h) = ho_minted h"
  by (simp_all add: write_policy_def)

definition new_grant ::
  "ustr \<Rightarrow> Capability \<Rightarrow> scope_map option \<Rightarrow> DeclarationClass option \<Rightarrow> ustr \<Rightarrow> ustr \<Rightarrow> int option \<Rightarrow>
   GrantOrigin \<Rightarrow> int \<Rightarrow> nat \<Rightarrow> HostGrant" where
  "new_grant plugin capability scope class source duration expires origin now i =
     \<lparr>hg_id = i, hg_plugin = plugin, hg_capability = capability, hg_scope = scope, hg_class = class,
      hg_source = source, hg_granted_at = now, hg_duration = duration, hg_expires_at = expires,
      hg_revoked_at = None, hg_permission = go_permission origin, hg_profile = go_profile origin,
      hg_correlation = go_correlation origin\<rparr>"

lemma host_grant_parts:
  assumes "host_grant plugin c scope class source duration expires origin now h = (g, h')"
  shows "g = new_grant plugin c scope class source duration expires origin now (Suc (ho_minted h))"
    and "ho_grants h' = ho_grants h @ [g]" and "ho_decisions h' = ho_decisions h"
    and "ho_minted h' = Suc (Suc (ho_minted h))"
  using assms by (auto simp: host_grant_def mint_def Let_def new_grant_def)

lemma host_grant_evolves: "evolves h (snd (host_grant plugin c scope class source duration expires origin now h))"
proof -
  obtain g h' where g: "host_grant plugin c scope class source duration expires origin now h = (g, h')"
    by (cases "host_grant plugin c scope class source duration expires origin now h")
  then show ?thesis
    using host_grant_parts[OF g] unfolding evolves_def g
    by (intro conjI exI[of _ "ho_grants h"] exI[of _ "[g]"]) (auto simp: new_grant_def)
qed

lemma revoke_parts:
  "ho_grants (snd (revoke i now h)) =
     update_first (standing_id i) (\<lambda>g. g\<lparr>hg_revoked_at := Some now\<rparr>) (ho_grants h)"
  "ho_decisions (snd (revoke i now h)) = ho_decisions h"
  "ho_minted h \<le> ho_minted (snd (revoke i now h))"
proof -
  have id: "update_first P f xs = xs" if "find P xs = None" for P f and xs :: "HostGrant list"
    using that by (induction xs) (auto split: if_splits)
  show "ho_grants (snd (revoke i now h)) =
     update_first (standing_id i) (\<lambda>g. g\<lparr>hg_revoked_at := Some now\<rparr>) (ho_grants h)"
    "ho_decisions (snd (revoke i now h)) = ho_decisions h"
    "ho_minted h \<le> ho_minted (snd (revoke i now h))"
    by (auto simp: revoke_def Let_def id split: option.splits)
qed

lemma revoke_evolves: "evolves h (snd (revoke i now h))"
proof -
  have "list_all2 kept (ho_grants h) (ho_grants (snd (revoke i now h)))"
    unfolding revoke_parts(1) by (rule update_first_kept) (auto simp: kept_def standing_id_def core_def)
  then show ?thesis
    using revoke_parts(3)[of h i now] by (intro evolves_kept) auto
qed

lemma revoke_correlated_parts:
  "ho_decisions (snd (revoke_correlated i co now h)) = ho_decisions h"
  "evolves h (snd (revoke_correlated i co now h))"
proof -
  let ?h = "h\<lparr>ho_grants := update_first (standing_id i) (\<lambda>g. g\<lparr>hg_correlation := Some co\<rparr>) (ho_grants h)\<rparr>"
  have "list_all2 kept (ho_grants h) (ho_grants ?h)"
    by (simp, rule update_first_kept) (simp add: kept_def core_def)
  then have "evolves h ?h" by (intro evolves_kept) auto
  then show "evolves h (snd (revoke_correlated i co now h))"
    using evolves_trans[OF _ revoke_evolves, of h ?h i now] by (auto simp: revoke_correlated_def split: option.splits)
  show "ho_decisions (snd (revoke_correlated i co now h)) = ho_decisions h"
    by (auto simp: revoke_correlated_def revoke_parts(2) split: option.splits)
qed

lemma revoke_all_evolves: "evolves h (revoke_all is co now h)" "ho_decisions (revoke_all is co now h) = ho_decisions h"
  by (induction "is" co now h rule: revoke_all.induct)
     (auto simp: revoke_correlated_parts intro: evolves_trans revoke_correlated_parts(2))

lemma revoke_each_evolves:
  "evolves h (snd (revoke_each is now h))" "ho_decisions (snd (revoke_each is now h)) = ho_decisions h"
proof -
  have "evolves h (snd (revoke_each is now h)) \<and> ho_decisions (snd (revoke_each is now h)) = ho_decisions h"
  proof (induction "is" arbitrary: h)
    case (Cons i "is")
    then show ?case
      using evolves_trans[OF revoke_evolves] revoke_parts(2)[of i now h]
      by (simp add: split_beta) blast
  qed simp
  then show "evolves h (snd (revoke_each is now h))" "ho_decisions (snd (revoke_each is now h)) = ho_decisions h"
    by auto
qed

lemma mint_grants_evolves:
  "evolves h (snd (mint_grants m source duration origin override now ts h)) \<and>
   ho_decisions (snd (mint_grants m source duration origin override now ts h)) = ho_decisions h"
proof (induction ts arbitrary: h)
  case (Cons t ts)
  obtain g h' where g: "host_grant (mf_package_id m) (gt_capability t) (resolve_scope m t override)
      (declared_class m (gt_capability t)) source duration None origin now h = (g, h')"
    by (metis prod.exhaust)
  have "evolves h h'" using host_grant_evolves[of h] g by (metis snd_conv)
  then show ?case
    using Cons[of h'] host_grant_parts(3)[OF g] by (auto simp: g split_beta intro: evolves_trans)
qed simp

lemma record_decision_fields [simp]:
  "ho_grants (record_decision p q w du pr gs cs v pb now h) = ho_grants h"
  "ho_minted (record_decision p q w du pr gs cs v pb now h) = ho_minted h"
  "ho_policy_file (record_decision p q w du pr gs cs v pb now h) = ho_policy_file h"
  by (simp_all add: record_decision_def Let_def)

lemma forget_fields [simp]:
  "ho_grants (forget_decision p q h) = ho_grants h" "ho_minted (forget_decision p q h) = ho_minted h"
  "ho_grants (forget_denials p q h) = ho_grants h" "ho_minted (forget_denials p q h) = ho_minted h"
  "ho_decisions (forget_denials p q h) = ho_decisions h"
  "ho_grants (forget_decisions_of p h) = ho_grants h" "ho_minted (forget_decisions_of p h) = ho_minted h"
  by (simp_all add: forget_decision_def forget_denials_def forget_decisions_of_def)

section \<open>Runs of the host\<close>

text \<open>The operations the shell performs on its grants and decisions.\<close>

datatype HostOp =
  GrantByHand ustr Capability "scope_map option" "DeclarationClass option" ustr ustr "int option"
  | RevokeGrant nat
  | RevokePackage ustr
  | AllowPermission Installed PermissionDescriptor ustr ustr "ustr option" "scope_map option" ustr
  | DenyPermission Installed PermissionDescriptor ustr
  | AskPermission Installed PermissionDescriptor ustr
  | ApplyProfile Installed AccessProfile ustr ustr
  | EnsureAutomatic Installed
  | ForgetPackage ustr
  | RememberDenial ustr ustr ustr

fun host_op :: "HostOp \<Rightarrow> int \<Rightarrow> Host \<Rightarrow> Host" where
  "host_op (GrantByHand p c s class source duration expires) now h =
     snd (host_grant p c s class source duration expires
       \<lparr>go_permission = None, go_profile = None, go_correlation = None\<rparr> now h)"
| "host_op (RevokeGrant i) now h = snd (revoke i now h)"
| "host_op (RevokePackage p) now h = snd (revoke_grants_of p now h)"
| "host_op (AllowPermission package d duration source profile override co) now h =
     snd (allow package d duration source profile override co now h)"
| "host_op (DenyPermission package d co) now h = deny package d co now h"
| "host_op (AskPermission package d co) now h = ask package d co now h"
| "host_op (ApplyProfile package profile duration co) now h =
     snd (apply_profile package (set_of_manifest (in_manifest package)) profile duration co now h)"
| "host_op (EnsureAutomatic package) now h = ensure_automatic package now h"
| "host_op (ForgetPackage p) now h = forget_decisions_of p h"
| "host_op (RememberDenial p q subject) now h = remember_denial p q subject h"

definition host_run :: "Host \<Rightarrow> (HostOp \<times> int) list \<Rightarrow> Host" where
  "host_run h ops = foldl (\<lambda>h (op, now). host_op op now h) h ops"

definition others :: "ustr \<Rightarrow> ustr \<Rightarrow> Decision list \<Rightarrow> Decision list" where
  "others p q ds = filter (\<lambda>d. \<not> (dc_plugin d = p \<and> dc_permission d = q)) ds"

definition about :: "ustr \<Rightarrow> ustr \<Rightarrow> Decision list \<Rightarrow> Decision list" where
  "about p q ds = filter (\<lambda>d. dc_plugin d = p \<and> dc_permission d = q) ds"

lemma about_others: "about p q (others p' q' ds) = (if p = p' \<and> q = q' then [] else about p q ds)"
  unfolding about_def others_def by (induction ds) auto

lemma record_decision_list:
  "\<exists>d. ho_decisions (record_decision p q w du pr gs cs v pb now h) = others p q (ho_decisions h) @ [d] \<and>
     dc_plugin d = p \<and> dc_permission d = q \<and> dr_decision (dc_record d) = w \<and> dr_capabilities (dc_record d) = cs"
  by (simp add: record_decision_def others_def Let_def)

lemma allow_parts:
  "evolves h (snd (allow package d du src pr ov co now h))"
  "\<exists>dec. ho_decisions (snd (allow package d du src pr ov co now h)) =
     others (mf_package_id (in_manifest package)) (pd_id d) (ho_decisions h) @ [dec] \<and>
     dc_plugin dec = mf_package_id (in_manifest package) \<and> dc_permission dec = pd_id d"
proof -
  let ?m = "in_manifest package"
  let ?i = "mf_package_id ?m"
  let ?h = "forget_denials ?i (pd_id d) (revoke_all (grants_of_permission ?i (pd_id d) now h) co now h)"
  let ?mint = "mint_grants ?m src (duration_word du)
            \<lparr>go_permission = Some (pd_id d), go_profile = pr, go_correlation = Some co\<rparr> ov now (pd_grants d) ?h"
  obtain minted h' where m: "?mint = (minted, h')" by (metis prod.exhaust)
  have "evolves h ?h"
    using evolves_trans[OF revoke_all_evolves(1) evolves_same[of ?h]] by simp
  moreover have "evolves ?h h'" "ho_decisions h' = ho_decisions h"
    using mint_grants_evolves[of ?h ?m src "duration_word du" _ ov now "pd_grants d"] m revoke_all_evolves(2) by (metis forget_fields(5) snd_conv)+
  ultimately have e: "evolves h h'" "ho_decisions h' = ho_decisions h" using evolves_trans by blast+
  obtain dec where dec: "ho_decisions (record_decision ?i (pd_id d) (asc ''allow'') (duration_word du) pr (map hg_id minted)
                (map Capability_id (pd_capabilities d)) (mf_version ?m) (in_publisher package) now h') =
      others ?i (pd_id d) (ho_decisions h) @ [dec]" "dc_plugin dec = ?i" "dc_permission dec = pd_id d"
    using record_decision_list e(2) by metis
  show "\<exists>dec. ho_decisions (snd (allow package d du src pr ov co now h)) =
     others ?i (pd_id d) (ho_decisions h) @ [dec] \<and> dc_plugin dec = ?i \<and> dc_permission dec = pd_id d"
    using dec m by (auto simp: allow_def Let_def)
  show "evolves h (snd (allow package d du src pr ov co now h))"
    using m by (auto simp: allow_def Let_def intro!: evolves_trans[OF e(1)] evolves_same)
qed

lemma deny_parts:
  "evolves h (deny package d co now h)"
  "\<exists>dec. ho_decisions (deny package d co now h) =
     others (mf_package_id (in_manifest package)) (pd_id d) (ho_decisions h) @ [dec] \<and>
     dc_plugin dec = mf_package_id (in_manifest package) \<and> dc_permission dec = pd_id d \<and>
     dr_decision (dc_record dec) = asc ''deny'' \<and> dr_capabilities (dc_record dec) = map Capability_id (pd_capabilities d)"
proof -
  let ?i = "mf_package_id (in_manifest package)"
  let ?h = "revoke_all (grants_of_permission ?i (pd_id d) now h) co now h"
  show "evolves h (deny package d co now h)"
    unfolding deny_def Let_def by (rule evolves_trans[OF revoke_all_evolves(1) evolves_same]) auto
  show "\<exists>dec. ho_decisions (deny package d co now h) = others ?i (pd_id d) (ho_decisions h) @ [dec] \<and>
     dc_plugin dec = ?i \<and> dc_permission dec = pd_id d \<and>
     dr_decision (dc_record dec) = asc ''deny'' \<and> dr_capabilities (dc_record dec) = map Capability_id (pd_capabilities d)"
    unfolding deny_def Let_def event_fields
    using record_decision_list[of ?i "pd_id d" "asc ''deny''" _ _ _ "map Capability_id (pd_capabilities d)" _ _ now ?h]
    unfolding revoke_all_evolves(2) by blast
qed

lemma ask_parts:
  "evolves h (ask package d co now h)"
  "ho_decisions (ask package d co now h) =
     others (mf_package_id (in_manifest package)) (pd_id d) (ho_decisions h)"
proof -
  show "evolves h (ask package d co now h)"
    unfolding ask_def Let_def by (rule evolves_trans[OF revoke_all_evolves(1) evolves_same]) auto
  show "ho_decisions (ask package d co now h) =
     others (mf_package_id (in_manifest package)) (pd_id d) (ho_decisions h)"
    by (simp add: ask_def Let_def forget_decision_def others_def revoke_all_evolves(2))
qed

lemma allow_automatic_evolves: "evolves h (snd (allow_automatic package pr du co now ds h))"
proof (induction ds arbitrary: h)
  case (Cons d ds)
  then show ?case by (auto simp: split_beta intro: evolves_trans[OF allow_parts(1)])
qed simp

lemma allow_named_evolves: "evolves h (snd (allow_named package pr du co now ds h))"
proof (induction ds arbitrary: h)
  case (Cons d ds)
  then show ?case by (auto simp: split_beta intro: evolves_trans[OF allow_parts(1)])
qed simp

lemma apply_profile_evolves: "evolves h (snd (apply_profile package s p du co now h))"
  unfolding apply_profile_def Let_def
  by (auto simp: split_beta intro: evolves_trans[OF event_evolves evolves_trans[OF allow_automatic_evolves allow_named_evolves]])

lemma ensure_each_parts: "evolves h (ensure_each m now ds h) \<and> ho_decisions (ensure_each m now ds h) = ho_decisions h"
proof (induction ds arbitrary: h)
  case (Cons d ds)
  let ?h = "snd (mint_grants m (asc ''automatic'') (asc ''session'')
     \<lparr>go_permission = Some (pd_id d), go_profile = None, go_correlation = None\<rparr> None now (pd_grants d) h)"
  have e: "evolves h ?h \<and> ho_decisions ?h = ho_decisions h" by (rule mint_grants_evolves)
  show ?case using Cons[of h] Cons[of ?h] e evolves_trans[of h ?h] by simp
qed simp

lemma host_op_evolves: "evolves h (host_op op now h)"
proof (cases op)
  case (ForgetPackage p)
  then show ?thesis by (auto intro: evolves_same)
next
  case (RememberDenial p q s)
  then show ?thesis by (auto intro!: evolves_same simp: remember_denial_def)
qed (simp_all add: host_grant_evolves revoke_evolves revoke_grants_of_def revoke_each_evolves(1) allow_parts(1)
    deny_parts(1) ask_parts(1) apply_profile_evolves ensure_automatic_def ensure_each_parts)

lemma host_run_evolves: "evolves h (host_run h ops)"
proof (induction ops arbitrary: h)
  case (Cons e ops)
  have "host_run h (e # ops) = host_run (host_op (fst e) (snd e) h) ops"
    by (simp add: host_run_def split_beta)
  then show ?case
    using evolves_trans[OF host_op_evolves Cons[of "host_op (fst e) (snd e) h"]] by simp
qed (simp add: host_run_def)

lemma kept_member:
  assumes "list_all2 kept gs gs'" and "g \<in> set gs"
  shows "\<exists>g' \<in> set gs'. kept g g'"
  using assms by (metis in_set_conv_nth list_all2_conv_all_nth)

text \<open>
  C20: A revoked grant never stands again.  However the shell goes on, allowing and denying
  permissions, applying profiles, granting by hand, and whatever the moment, the grant that was
  revoked is still recorded with its capability and scope and the moment of its revocation, no other
  grant goes by its identity, and it does not stand.
\<close>

theorem revoked_grant_never_returns:
  assumes "host_ok h" and "g \<in> set (ho_grants h)" and "hg_revoked_at g = Some t"
  shows "(\<exists>!g'. g' \<in> set (ho_grants (host_run h ops)) \<and> hg_id g' = hg_id g) \<and>
    (\<forall>g' \<in> set (ho_grants (host_run h ops)). hg_id g' = hg_id g \<longrightarrow>
      hg_revoked_at g' = Some t \<and> hg_capability g' = hg_capability g \<and> hg_scope g' = hg_scope g \<and>
      \<not> stands_at g' now)"
proof -
  let ?h = "host_run h ops"
  obtain old where old: "list_all2 kept (ho_grants h) old" "set old \<subseteq> set (ho_grants ?h)"
    using host_run_evolves[of h ops] by (auto simp: evolves_def)
  obtain k where k: "k \<in> set (ho_grants ?h)" "kept g k" using kept_member[OF old(1) assms(2)] old(2) by blast
  have ids: "inj_on hg_id (set (ho_grants ?h))"
    using evolves_ok[OF host_run_evolves assms(1), of ops] by (simp add: host_ok_def distinct_map)
  have only: "g' = k" if "g' \<in> set (ho_grants ?h)" "hg_id g' = hg_id g" for g'
    using ids that k kept_id[OF k(2)] by (metis inj_onD)
  have "\<exists>!g'. g' \<in> set (ho_grants ?h) \<and> hg_id g' = hg_id g"
    using k(1) kept_id[OF k(2)] only by blast
  moreover have "hg_revoked_at k = Some t \<and> hg_capability k = hg_capability g \<and> hg_scope k = hg_scope g \<and>
      \<not> stands_at k now"
    using k(2) assms(3) core_fields(3,4)[of k g] by (auto simp: kept_def stands_at_def)
  ultimately show ?thesis using only by blast
qed

section \<open>A deny holds\<close>

text \<open>The operations that decide the permission again, or forget the package.\<close>

fun redecides :: "ustr \<Rightarrow> ustr \<Rightarrow> HostOp \<Rightarrow> bool" where
  "redecides p q (AllowPermission package d _ _ _ _ _) \<longleftrightarrow> mf_package_id (in_manifest package) = p \<and> pd_id d = q"
| "redecides p q (DenyPermission package d _) \<longleftrightarrow> mf_package_id (in_manifest package) = p \<and> pd_id d = q"
| "redecides p q (AskPermission package d _) \<longleftrightarrow> mf_package_id (in_manifest package) = p \<and> pd_id d = q"
| "redecides p q (ApplyProfile package profile _ _) \<longleftrightarrow>
     mf_package_id (in_manifest package) = p \<and>
     list_ex (\<lambda>d. \<not> is_automatic d \<and> pd_id d = q)
       (profile_descriptors (set_of_manifest (in_manifest package)) profile)"
| "redecides p q (ForgetPackage p') \<longleftrightarrow> p' = p"
| "redecides p q _ \<longleftrightarrow> False"

definition undisturbed :: "ustr \<Rightarrow> ustr \<Rightarrow> Host \<Rightarrow> HostOp \<times> int \<Rightarrow> Host option" where
  "undisturbed p q h e = (if redecides p q (fst e) then None else Some (host_op (fst e) (snd e) h))"

definition deny_stands :: "ustr \<Rightarrow> ustr \<Rightarrow> ustr list \<Rightarrow> Host \<Rightarrow> bool" where
  "deny_stands p q cs h \<longleftrightarrow>
     (\<exists>dec. about p q (ho_decisions h) = [dec] \<and> dr_decision (dc_record dec) = asc ''deny'' \<and>
        dr_capabilities (dc_record dec) = cs)"

lemma deny_stands_cong: "about p q (ho_decisions h') = about p q (ho_decisions h) \<Longrightarrow> deny_stands p q cs h \<Longrightarrow> deny_stands p q cs h'"
  by (simp add: deny_stands_def)

lemma denied_found: "deny_stands p q cs h \<Longrightarrow> is_denied p q h"
proof -
  have f: "find P xs = (case filter P xs of [] \<Rightarrow> None | x # _ \<Rightarrow> Some x)" for P and xs :: "Decision list"
    by (induction xs) auto
  assume "deny_stands p q cs h"
  then show ?thesis by (auto simp: deny_stands_def is_denied_def decision_def f about_def)
qed

lemma about_snoc: "dc_plugin d = p' \<Longrightarrow> dc_permission d = q' \<Longrightarrow> \<not> (p = p' \<and> q = q') \<Longrightarrow>
    about p q (others p' q' ds @ [d]) = about p q ds"
  using about_others[of p q p' q' ds] by (auto simp: about_def)

lemma allow_keeps_deny:
  assumes "\<not> (mf_package_id (in_manifest package) = p \<and> pd_id d = q)"
  shows "about p q (ho_decisions (snd (allow package d du src pr ov co now h))) = about p q (ho_decisions h)"
proof -
  obtain dec where "ho_decisions (snd (allow package d du src pr ov co now h)) =
     others (mf_package_id (in_manifest package)) (pd_id d) (ho_decisions h) @ [dec]"
     "dc_plugin dec = mf_package_id (in_manifest package)" "dc_permission dec = pd_id d"
    using allow_parts(2) by blast
  then show ?thesis using about_snoc assms by metis
qed

lemma automatic_keeps_deny:
  "deny_stands p q cs h \<Longrightarrow> deny_stands p q cs (snd (allow_automatic package pr du co now ds h))"
proof (induction ds arbitrary: h)
  case (Cons d ds)
  show ?case
  proof (cases "is_denied (mf_package_id (in_manifest package)) (pd_id d) h")
    case True
    then show ?thesis using Cons by simp
  next
    case False
    then have "\<not> (mf_package_id (in_manifest package) = p \<and> pd_id d = q)"
      using denied_found[OF Cons.prems] by auto
    then have "deny_stands p q cs (snd (allow package d du (asc ''automatic'') (Some pr) None co now h))"
      using deny_stands_cong[OF allow_keeps_deny Cons.prems] by blast
    then show ?thesis using Cons.IH False by (simp add: split_beta)
  qed
qed simp

lemma named_keeps_deny:
  "deny_stands p q cs h \<Longrightarrow>
   \<not> (mf_package_id (in_manifest package) = p \<and> list_ex (\<lambda>d. \<not> is_automatic d \<and> pd_id d = q) ds) \<Longrightarrow>
   deny_stands p q cs (snd (allow_named package pr du co now ds h))"
proof (induction ds arbitrary: h)
  case (Cons d ds)
  show ?case
  proof (cases "is_automatic d")
    case True
    then show ?thesis using Cons by simp
  next
    case False
    then have "deny_stands p q cs (snd (allow package d du (asc ''prompt'') (Some pr) None co now h))"
      using deny_stands_cong[OF allow_keeps_deny Cons.prems(1)] Cons.prems(2) by auto
    then show ?thesis using Cons.IH Cons.prems(2) False by (simp add: split_beta)
  qed
qed simp

lemma profile_keeps_deny:
  assumes "deny_stands p q cs h" and "\<not> redecides p q (ApplyProfile package profile du co)"
  shows "deny_stands p q cs (host_op (ApplyProfile package profile du co) now h)"
proof -
  let ?s = "set_of_manifest (in_manifest package)"
  let ?h = "record_host_event (mf_package_id (in_manifest package)) (ap_name profile)
                (asc ''permission.profile_apply'') True (Some co) now h"
  have "deny_stands p q cs ?h" using assms(1) by (simp add: deny_stands_def)
  then have "deny_stands p q cs (snd (allow_automatic package (ap_name profile) du co now (automatic ?s) ?h))"
    by (rule automatic_keeps_deny)
  then show ?thesis
    using named_keeps_deny assms(2) by (simp add: apply_profile_def Let_def split_beta)
qed

lemma op_keeps_deny:
  assumes "deny_stands p q cs h" and "\<not> redecides p q op"
  shows "deny_stands p q cs (host_op op now h)"
proof (cases op)
  case (GrantByHand p' c s cls source duration expires)
  then show ?thesis
    using deny_stands_cong[OF _ assms(1)] host_grant_parts(3)
    by (metis host_op.simps(1) prod.collapse)
next
  case (AllowPermission package d du src pr ov co)
  then show ?thesis using deny_stands_cong[OF allow_keeps_deny assms(1)] assms(2) by auto
next
  case (DenyPermission package d co)
  obtain dec where "ho_decisions (deny package d co now h) =
     others (mf_package_id (in_manifest package)) (pd_id d) (ho_decisions h) @ [dec]"
     "dc_plugin dec = mf_package_id (in_manifest package)" "dc_permission dec = pd_id d"
    using deny_parts(2) by blast
  then show ?thesis
    using about_snoc assms(2) DenyPermission deny_stands_cong[OF _ assms(1)] by (metis host_op.simps(5) redecides.simps(2))
next
  case (AskPermission package d co)
  then have "about p q (ho_decisions (host_op op now h)) = about p q (ho_decisions h)"
    using assms(2) by (simp add: ask_parts(2) about_others) auto
  then show ?thesis using deny_stands_cong[OF _ assms(1)] by blast
next
  case (ApplyProfile package profile du co)
  then show ?thesis using profile_keeps_deny assms by simp
next
  case (ForgetPackage p')
  then have "about p q (ho_decisions (host_op op now h)) = about p q (ho_decisions h)"
    using assms(2) by (auto simp: forget_decisions_of_def about_def intro!: filter_cong)
  then show ?thesis using deny_stands_cong[OF _ assms(1)] by blast
qed (use assms(1) in \<open>simp_all add: deny_stands_def revoke_parts(2) revoke_grants_of_def revoke_each_evolves(2)
    ensure_automatic_def ensure_each_parts remember_denial_def\<close>)

interpretation denial: guarded_machine "undisturbed p q" host_ok "deny_stands p q cs" for p q cs
  by unfold_locales
    (auto simp: undisturbed_def op_keeps_deny evolves_ok[OF host_op_evolves] split: if_splits)

lemma deny_takes: "deny_stands (mf_package_id (in_manifest package)) (pd_id d)
    (map Capability_id (pd_capabilities d)) (deny package d co now h)"
proof -
  let ?i = "mf_package_id (in_manifest package)"
  obtain dec where dec: "ho_decisions (deny package d co now h) = others ?i (pd_id d) (ho_decisions h) @ [dec]"
     "dc_plugin dec = ?i" "dc_permission dec = pd_id d" "dr_decision (dc_record dec) = asc ''deny''"
     "dr_capabilities (dc_record dec) = map Capability_id (pd_capabilities d)"
    using deny_parts(2) by blast
  have "about ?i (pd_id d) (ho_decisions (deny package d co now h)) = [dec]"
    using about_others[of ?i "pd_id d" ?i "pd_id d"] dec by (simp add: about_def)
  then show ?thesis using dec by (simp add: deny_stands_def)
qed

lemma standing_deny_denies:
  assumes "deny_stands p q (map Capability_id cs) h" and "c \<in> set cs"
  shows "c \<in> set (user_denies (policy_for home p now h))"
proof -
  obtain dec where dec: "dec \<in> set (about p q (ho_decisions h))" "dr_decision (dc_record dec) = asc ''deny''"
      "dr_capabilities (dc_record dec) = map Capability_id cs"
    using assms(1) by (auto simp: deny_stands_def)
  have "Capability_from_id (Capability_id c) = Some c"
    unfolding Capability_from_id_def by (rule capability_words.read_spelling)
  then have "c \<in> set (List.map_filter Capability_from_id (dr_capabilities (dc_record dec)))"
    using assms(2) dec(3) by (auto simp: in_map_filter)
  then show ?thesis using dec(1,2) by (auto simp: about_def)
qed


section \<open>An allow replaces its own grants\<close>

lemma update_first_map:
  "distinct (map hg_id gs) \<Longrightarrow>
   update_first (standing_id i) f gs = map (\<lambda>g. if standing_id i g then f g else g) gs"
proof (induction gs)
  case (Cons g gs)
  show ?case
  proof (cases "standing_id i g")
    case True
    have "hg_id x \<noteq> hg_id g" if "x \<in> set gs" for x
      using Cons.prems that by (metis distinct.simps(2) image_eqI list.set_map list.simps(9))
    then have "\<forall>x \<in> set gs. \<not> standing_id i x" using True by (auto simp: standing_id_def)
    then have "map (\<lambda>g. if standing_id i g then f g else g) gs = gs" by (simp add: map_idI)
    then show ?thesis using True by simp
  next
    case False
    then show ?thesis using Cons by simp
  qed
qed simp

abbreviation ended :: "ustr \<Rightarrow> int \<Rightarrow> HostGrant \<Rightarrow> HostGrant" where
  "ended co now g \<equiv> g\<lparr>hg_correlation := Some co, hg_revoked_at := Some now\<rparr>"

lemma revoke_correlated_map:
  assumes "host_ok h"
  shows "ho_grants (snd (revoke_correlated i co now h)) =
    map (\<lambda>g. if standing_id i g then ended co now g else g) (ho_grants h)"
proof (cases "find (standing_id i) (ho_grants h)")
  case None
  then have "map (\<lambda>g. if standing_id i g then ended co now g else g) (ho_grants h) = ho_grants h"
    by (auto simp: find_None_iff intro!: map_idI)
  then show ?thesis using None by (simp add: revoke_correlated_def)
next
  case (Some g)
  let ?gs = "map (\<lambda>g. if standing_id i g then g\<lparr>hg_correlation := Some co\<rparr> else g) (ho_grants h)"
  have d: "distinct (map hg_id (ho_grants h))" using assms by (simp add: host_ok_def)
  have "map hg_id ?gs = map hg_id (ho_grants h)" by simp
  then have "distinct (map hg_id ?gs)" using d by metis
  then have "ho_grants (snd (revoke_correlated i co now h)) =
      map (\<lambda>g. if standing_id i g then g\<lparr>hg_revoked_at := Some now\<rparr> else g) ?gs"
    using Some by (simp add: revoke_correlated_def revoke_parts(1) update_first_map[OF d] update_first_map)
  also have "\<dots> = map (\<lambda>g. if standing_id i g then ended co now g else g) (ho_grants h)"
    by (auto simp: standing_id_def)
  finally show ?thesis .
qed

lemma revoke_all_map:
  "host_ok h \<Longrightarrow> ho_grants (revoke_all is co now h) =
     map (\<lambda>g. if hg_id g \<in> set is \<and> hg_revoked_at g = None then ended co now g else g) (ho_grants h)"
proof (induction "is" arbitrary: h)
  case Nil
  then show ?case by simp
next
  case (Cons i "is")
  let ?h = "snd (revoke_correlated i co now h)"
  have "host_ok ?h" using evolves_ok[OF revoke_correlated_parts(2) Cons.prems] .
  then have "ho_grants (revoke_all (i # is) co now h) =
      map (\<lambda>g. if hg_id g \<in> set is \<and> hg_revoked_at g = None then ended co now g else g) (ho_grants ?h)"
    using Cons.IH by simp
  also have "\<dots> = map (\<lambda>g. if hg_id g \<in> set (i # is) \<and> hg_revoked_at g = None then ended co now g else g) (ho_grants h)"
    unfolding revoke_correlated_map[OF Cons.prems] map_map
  proof (rule map_cong[OF refl])
    fix g
    show "((\<lambda>g. if hg_id g \<in> set is \<and> hg_revoked_at g = None then ended co now g else g) \<circ>
        (\<lambda>g. if standing_id i g then ended co now g else g)) g =
      (if hg_id g \<in> set (i # is) \<and> hg_revoked_at g = None then ended co now g else g)"
      by (cases "hg_id g = i"; cases "hg_revoked_at g") (simp_all add: standing_id_def)
  qed
  finally show ?case .
qed

definition minted_by :: "ustr \<Rightarrow> ustr \<Rightarrow> HostGrant \<Rightarrow> bool" where
  "minted_by p q g \<longleftrightarrow> hg_plugin g = p \<and> hg_permission g = Some q"

lemma revoke_permission_map:
  assumes "host_ok h"
  shows "ho_grants (revoke_all (grants_of_permission p q now h) co now h) =
    map (\<lambda>g. if minted_by p q g \<and> stands_at g now then ended co now g else g) (ho_grants h)"
proof -
  have "hg_id g \<in> set (grants_of_permission p q now h) \<and> hg_revoked_at g = None \<longleftrightarrow> minted_by p q g \<and> stands_at g now"
    if g: "g \<in> set (ho_grants h)" for g
  proof -
    have "inj_on hg_id (set (ho_grants h))" using assms by (simp add: host_ok_def distinct_map)
    then have "hg_id g \<in> set (grants_of_permission p q now h) \<longleftrightarrow>
        g \<in> set (filter (\<lambda>g. hg_permission g = Some q) (standing_grants p now h))"
      unfolding grants_of_permission_def set_map standing_grants_def
      by (intro inj_on_image_mem_iff[OF _ g]) auto
    then show ?thesis using g by (auto simp: standing_grants_def minted_by_def stands_at_def)
  qed
  then show ?thesis unfolding revoke_all_map[OF assms] by (intro map_cong) simp_all
qed

lemma mint_grants_spec:
  "mint_grants m source duration origin override now ts h = (gs, h') \<Longrightarrow>
    ho_grants h' = ho_grants h @ gs \<and>
    map (\<lambda>g. (hg_capability g, hg_scope g)) gs = map (\<lambda>t. (gt_capability t, resolve_scope m t override)) ts \<and>
    (\<forall>g \<in> set gs. hg_plugin g = mf_package_id m \<and> hg_permission g = go_permission origin \<and>
      hg_revoked_at g = None \<and> hg_expires_at g = None \<and> hg_duration g = duration)"
proof (induction ts arbitrary: h gs)
  case (Cons t ts)
  obtain g h1 where g: "host_grant (mf_package_id m) (gt_capability t) (resolve_scope m t override)
      (declared_class m (gt_capability t)) source duration None origin now h = (g, h1)"
    by (metis prod.exhaust)
  obtain rest where r: "mint_grants m source duration origin override now ts h1 = (rest, h')" "gs = g # rest"
    using Cons.prems g by (auto split: prod.splits)
  show ?case
    using Cons.IH[OF r(1)] r(2) host_grant_parts(1,2)[OF g] by (simp add: new_grant_def)
qed simp

lemmas mint_grants_parts =
  mint_grants_spec[THEN conjunct1] mint_grants_spec[THEN conjunct2, THEN conjunct1]
  mint_grants_spec[THEN conjunct2, THEN conjunct2]

lemma allow_spec:
  assumes "host_ok h"
    and "allow package d duration source profile override co now h = (minted, h')"
  shows "ho_grants h' = map (\<lambda>g. if minted_by (mf_package_id (in_manifest package)) (pd_id d) g \<and> stands_at g now
      then ended co now g else g) (ho_grants h) @ minted"
    and "map (\<lambda>g. (hg_capability g, hg_scope g)) minted =
      map (\<lambda>t. (gt_capability t, resolve_scope (in_manifest package) t override)) (pd_grants d)"
    and "\<forall>g \<in> set minted. hg_plugin g = mf_package_id (in_manifest package) \<and> hg_permission g = Some (pd_id d) \<and>
      hg_revoked_at g = None \<and> hg_expires_at g = None \<and> hg_duration g = duration_word duration"
proof -
  let ?m = "in_manifest package"
  let ?i = "mf_package_id ?m"
  let ?h = "forget_denials ?i (pd_id d) (revoke_all (grants_of_permission ?i (pd_id d) now h) co now h)"
  let ?o = "\<lparr>go_permission = Some (pd_id d), go_profile = profile, go_correlation = Some co\<rparr>"
  obtain h1 where m: "mint_grants ?m source (duration_word duration) ?o override now (pd_grants d) ?h = (minted, h1)"
    and h': "ho_grants h' = ho_grants h1"
    using assms(2) by (auto simp: allow_def Let_def split: prod.splits)
  note p = mint_grants_parts[OF m]
  show "ho_grants h' = map (\<lambda>g. if minted_by ?i (pd_id d) g \<and> stands_at g now then ended co now g else g) (ho_grants h) @ minted"
    using h' p(1) revoke_permission_map[OF assms(1), of ?i "pd_id d" now co] by simp
  show "map (\<lambda>g. (hg_capability g, hg_scope g)) minted =
      map (\<lambda>t. (gt_capability t, resolve_scope ?m t override)) (pd_grants d)" by (rule p(2))
  show "\<forall>g \<in> set minted. hg_plugin g = ?i \<and> hg_permission g = Some (pd_id d) \<and>
      hg_revoked_at g = None \<and> hg_expires_at g = None \<and> hg_duration g = duration_word duration"
    using p(3) by simp
qed

text \<open>
  C21: Allowing a permission replaces exactly the grants it minted before.  One grant is minted per
  template, of its capability and in its resolved scope; these are then the standing grants of the
  permission; and every other grant, of other permissions, made by hand or of other packages, is
  left untouched.
\<close>

theorem allow_replaces_its_own_grants:
  assumes "host_ok h"
    and "allow package d duration source profile override co now h = (minted, h')"
  shows "map (\<lambda>g. (hg_capability g, hg_scope g)) minted =
      map (\<lambda>t. (gt_capability t, resolve_scope (in_manifest package) t override)) (pd_grants d) \<and>
    filter (\<lambda>g. hg_permission g = Some (pd_id d))
      (standing_grants (mf_package_id (in_manifest package)) now h') = minted \<and>
    filter (\<lambda>g. \<not> minted_by (mf_package_id (in_manifest package)) (pd_id d) g) (ho_grants h') =
      filter (\<lambda>g. \<not> minted_by (mf_package_id (in_manifest package)) (pd_id d) g) (ho_grants h)"
proof (intro conjI)
  let ?i = "mf_package_id (in_manifest package)"
  let ?stop = "\<lambda>g. if minted_by ?i (pd_id d) g \<and> stands_at g now then ended co now g else g"
  note gs = allow_spec(1)[OF assms] and p = allow_spec[OF assms]
  show "map (\<lambda>g. (hg_capability g, hg_scope g)) minted =
      map (\<lambda>t. (gt_capability t, resolve_scope (in_manifest package) t override)) (pd_grants d)" by (rule p(2))
  have "filter (\<lambda>g. hg_plugin g = ?i \<and> stands_at g now \<and> hg_permission g = Some (pd_id d)) (map ?stop (ho_grants h)) = []"
    by (auto simp: filter_empty_conv minted_by_def stands_at_def)
  moreover have "filter (\<lambda>g. hg_plugin g = ?i \<and> stands_at g now \<and> hg_permission g = Some (pd_id d)) minted = minted"
    using p(3) by (auto simp: filter_id_conv stands_at_def)
  ultimately show "filter (\<lambda>g. hg_permission g = Some (pd_id d)) (standing_grants ?i now h') = minted"
    by (simp add: standing_grants_def gs)
  have "filter (\<lambda>g. \<not> minted_by ?i (pd_id d) g) (map ?stop gs) = filter (\<lambda>g. \<not> minted_by ?i (pd_id d) g) gs" for gs
    by (induction gs) (auto simp: minted_by_def)
  moreover have "filter (\<lambda>g. \<not> minted_by ?i (pd_id d) g) minted = []"
    using p(3) by (auto simp: filter_empty_conv minted_by_def)
  ultimately show "filter (\<lambda>g. \<not> minted_by ?i (pd_id d) g) (ho_grants h') =
      filter (\<lambda>g. \<not> minted_by ?i (pd_id d) g) (ho_grants h)"
    by (simp add: gs)
qed

section \<open>Installing with a default profile\<close>

definition minted_from :: "Manifest \<Rightarrow> GrantTemplate set \<Rightarrow> HostGrant \<Rightarrow> bool" where
  "minted_from m T g \<longleftrightarrow> (\<exists>t \<in> T. hg_capability g = gt_capability t \<and> hg_scope g = resolve_scope m t None)"

definition grants_from :: "Manifest \<Rightarrow> GrantTemplate set \<Rightarrow> Host \<Rightarrow> bool" where
  "grants_from m T h \<longleftrightarrow> (\<forall>g \<in> set (ho_grants h). hg_plugin g = mf_package_id m \<longrightarrow> minted_from m T g)"

lemma allow_grants_from:
  assumes "host_ok h" and "grants_from (in_manifest package) T h" and "set (pd_grants d) \<subseteq> T"
  shows "grants_from (in_manifest package) T (snd (allow package d du src pr None co now h))"
proof -
  let ?m = "in_manifest package"
  obtain minted h' where a: "allow package d du src pr None co now h = (minted, h')" by (metis prod.exhaust)
  have new: "minted_from ?m T g" if "g \<in> set minted" for g
  proof -
    have "(hg_capability g, hg_scope g) \<in> (\<lambda>g. (hg_capability g, hg_scope g)) ` set minted"
      using that by (rule imageI)
    then have "(hg_capability g, hg_scope g) \<in> (\<lambda>t. (gt_capability t, resolve_scope ?m t None)) ` set (pd_grants d)"
      using arg_cong[OF allow_spec(2)[OF assms(1) a], of set] by (simp only: set_map)
    then show ?thesis using assms(3) by (auto simp: minted_from_def)
  qed
  let ?F = "\<lambda>g. if minted_by (mf_package_id ?m) (pd_id d) g \<and> stands_at g now then ended co now g else g"
  have old: "minted_from ?m T (?F g)" if "g \<in> set (ho_grants h)" "hg_plugin (?F g) = mf_package_id ?m" for g
  proof (cases "minted_by (mf_package_id ?m) (pd_id d) g \<and> stands_at g now")
    case True
    then have "minted_from ?m T g" using assms(2) that(1) by (simp add: grants_from_def minted_by_def)
    then show ?thesis using True by (simp add: minted_from_def)
  next
    case False
    then show ?thesis using assms(2) that by (simp only: grants_from_def if_False)
  qed
  show ?thesis
    unfolding grants_from_def a snd_conv allow_spec(1)[OF assms(1) a]
  proof (intro ballI impI)
    fix x
    assume x: "x \<in> set (map ?F (ho_grants h) @ minted)" "hg_plugin x = mf_package_id ?m"
    then consider g where "g \<in> set (ho_grants h)" "x = ?F g" | "x \<in> set minted"
      unfolding set_append set_map by blast
    then show "minted_from ?m T x"
    proof cases
      case 1
      then show ?thesis using old[OF 1(1)] x(2) by (simp only: 1(2))
    next
      case 2
      then show ?thesis by (rule new)
    qed
  qed
qed

lemma allow_host_ok: "host_ok h \<Longrightarrow> host_ok (snd (allow package d du src pr ov co now h))"
  using evolves_ok[OF allow_parts(1)] .

lemma allow_automatic_from:
  "host_ok h \<Longrightarrow> grants_from (in_manifest package) T h \<Longrightarrow> (\<forall>d \<in> set ds. set (pd_grants d) \<subseteq> T) \<Longrightarrow>
   grants_from (in_manifest package) T (snd (allow_automatic package pr du co now ds h))"
proof (induction ds arbitrary: h)
  case (Cons d ds)
  then show ?case
    using Cons.IH[OF allow_host_ok[OF Cons.prems(1)] allow_grants_from[OF Cons.prems(1,2)]] by (simp add: split_beta)
qed simp

lemma allow_named_from:
  "host_ok h \<Longrightarrow> grants_from (in_manifest package) T h \<Longrightarrow> (\<forall>d \<in> set ds. set (pd_grants d) \<subseteq> T) \<Longrightarrow>
   grants_from (in_manifest package) T (snd (allow_named package pr du co now ds h))"
proof (induction ds arbitrary: h)
  case (Cons d ds)
  then show ?case
    using Cons.IH[OF allow_host_ok[OF Cons.prems(1)] allow_grants_from[OF Cons.prems(1,2)]] by (simp add: split_beta)
qed simp

lemma apply_profile_from:
  assumes "host_ok h" and "\<forall>g \<in> set (ho_grants h). hg_plugin g \<noteq> mf_package_id (in_manifest package)"
    and "\<forall>d \<in> set (automatic s) \<union> set (profile_descriptors s p). set (pd_grants d) \<subseteq> T"
  shows "grants_from (in_manifest package) T (snd (apply_profile package s p du co now h))"
proof -
  let ?h = "record_host_event (mf_package_id (in_manifest package)) (ap_name p)
                (asc ''permission.profile_apply'') True (Some co) now h"
  let ?h1 = "snd (allow_automatic package (ap_name p) du co now (automatic s) ?h)"
  have ok: "host_ok ?h" using evolves_ok[OF event_evolves assms(1)] .
  have "grants_from (in_manifest package) T ?h" using assms(2) by (auto simp: grants_from_def)
  then have "grants_from (in_manifest package) T ?h1" using allow_automatic_from[OF ok] assms(3) by blast
  moreover have "host_ok ?h1" using evolves_ok[OF allow_automatic_evolves ok] .
  ultimately have "grants_from (in_manifest package) T
      (snd (allow_named package (ap_name p) du co now (profile_descriptors s p) ?h1))"
    using allow_named_from assms(3) by blast
  then show ?thesis by (simp add: apply_profile_def Let_def split_beta)
qed

lemma set_members:
  "d \<in> set (ps_descriptors (set_of_manifest m)) \<Longrightarrow>
     (\<exists>s. mf_permissions m = Some s \<and> d \<in> set (ps_descriptors s)) \<or> (\<exists>c r. d = derive_descriptor c r)"
  by (cases "mf_permissions m") (auto simp: set_of_manifest_def empty_set_def Let_def)

lemma automatic_is_local:
  assumes "section_validated m" and "d \<in> set (automatic (set_of_manifest m))" and "t \<in> set (pd_grants d)"
  shows "grant_consent_class t = ClassExtensionLocal"
proof -
  have d: "d \<in> set (ps_descriptors (set_of_manifest m))" "pd_phase d = PhaseAutomatic"
    using assms(2) by (auto simp: automatic_def is_automatic_def)
  from set_members[OF d(1)] show ?thesis
  proof
    assume "\<exists>s. mf_permissions m = Some s \<and> d \<in> set (ps_descriptors s)"
    then obtain s where s: "mf_permissions m = Some s" "d \<in> set (ps_descriptors s)" by blast
    then obtain raw where raw: "validate_declared raw (capability_requests m) = Inr s"
      using assms(1) by (auto simp: section_validated_def)
    have "PhaseAutomatic \<in> set (allowed_phases (grant_consent_class t))"
      using validate_declared_ok(1)[OF raw s(2)] assms(3) d(2) by (auto simp: descriptor_ok_def grant_ok_def)
    then show ?thesis by (cases "grant_consent_class t") auto
  next
    assume "\<exists>c r. d = derive_descriptor c r"
    then obtain c r where "d = derive_descriptor c r" by blast
    then show ?thesis
      using d(2) assms(3)
      by (cases "consent_class (cr_capability r) (derived_scope r)")
         (auto simp: derive_descriptor_def grant_consent_class_def Let_def split: if_splits)
  qed
qed

definition harmless :: "GrantTemplate set" where
  "harmless = {t. grant_consent_class t \<in> {ClassExtensionLocal, ClassObservation}}"

lemma fixed_class: "c \<noteq> RelationWrite \<Longrightarrow> consent_class c s = consent_class c None"
  by (simp add: consent_class_def)

lemma harmless_relation:
  assumes "t \<in> harmless" and "gt_capability t = RelationWrite"
  shows "\<exists>s. resolve_scope m t None = Some s \<and> has_key s (asc ''relations'')"
  using assms unfolding harmless_def grant_consent_class_def resolve_scope_def consent_class_def
  by (auto simp: has_key_def split: option.splits ScopeTemplate.splits if_splits)

lemma default_profile_harmless:
  assumes "section_validated m"
    and "mf_permissions m = None \<Longrightarrow> distinct (map (cr_capability \<circ> snd) (capability_requests m))"
    and "name \<in> {MINIMAL, RECOMMENDED}" and "ps_profile (set_of_manifest m) name = Some p"
    and "d \<in> set (profile_descriptors (set_of_manifest m) p)"
  shows "set (pd_grants d) \<subseteq> harmless"
  using default_profile_changes[OF assms] by (auto simp: changes_nothing_def harmless_def)


section \<open>What a restart keeps\<close>

definition no_host :: Host where
  "no_host = \<lparr>ho_grants = [], ho_minted = 0, ho_audit = [], ho_decisions = [], ho_denials = [], ho_policy_file = None\<rparr>"

definition stored_always :: "HostGrant list \<Rightarrow> HostGrant list" where
  "stored_always gs = filter (\<lambda>g. hg_duration g = asc ''always'' \<and> hg_revoked_at g = None) gs"

definition last_always :: "ustr \<Rightarrow> Capability \<Rightarrow> HostGrant list \<Rightarrow> HostGrant option" where
  "last_always p c gs = find (\<lambda>g. hg_plugin g = p \<and> hg_capability g = c) (rev (stored_always gs))"

definition authority :: "HostGrant \<Rightarrow> ustr \<times> Capability \<times> scope_map option \<times> ustr option \<times> ustr option" where
  "authority g = (hg_plugin g, hg_capability g, hg_scope g, hg_permission g, hg_profile g)"

definition lookup2 :: "(ustr \<times> (ustr \<times> 'v) list) list \<Rightarrow> ustr \<Rightarrow> ustr \<Rightarrow> 'v option" where
  "lookup2 m p k = Option.bind (map_of m p) (\<lambda>s. map_of s k)"

definition keyed2 :: "(ustr \<times> (ustr \<times> 'v) list) list \<Rightarrow> bool" where
  "keyed2 m \<longleftrightarrow> distinct (map fst m) \<and> (\<forall>(p, s) \<in> set m. distinct (map fst s))"

lemma nested_insert_lookup:
  "lookup2 (nested_insert p k v m) p' k' = (if p = p' \<and> k = k' then Some v else lookup2 m p' k')"
  by (auto simp: lookup2_def nested_insert_def AList.update_conv' split: option.splits)

lemma nested_insert_keyed: "keyed2 m \<Longrightarrow> keyed2 (nested_insert p k v m)"
proof -
  assume m: "keyed2 m"
  have in_update: "e \<in> set (AList.update p w m) \<Longrightarrow> e = (p, w) \<or> e \<in> set m" for e w
    by (induction m) (auto split: if_splits)
  have "distinct (map fst (case map_of m p of Some s \<Rightarrow> s | None \<Rightarrow> []))"
    using m by (auto simp: keyed2_def dest: map_of_SomeD split: option.splits)
  then have "distinct (map fst (AList.update k v (case map_of m p of Some s \<Rightarrow> s | None \<Rightarrow> [])))"
    by (rule AList.distinct_update)
  then show ?thesis
    using m in_update unfolding keyed2_def nested_insert_def by (fastforce intro: AList.distinct_update)
qed

lemma keyed2_member:
  "keyed2 m \<Longrightarrow> (\<exists>s. (p, s) \<in> set m \<and> (k, v) \<in> set s) \<longleftrightarrow> lookup2 m p k = Some v"
  by (fastforce simp: keyed2_def lookup2_def bind_eq_Some_conv dest: map_of_SomeD)

lemma policy_fold:
  "keyed2 m \<Longrightarrow>
   (let m' = foldl (\<lambda>m g. nested_insert (hg_plugin g) (Capability_id (hg_capability g)) (stored_of g) m) m gs
    in keyed2 m' \<and>
       (\<forall>p k. lookup2 m' p k =
          (case find (\<lambda>g. hg_plugin g = p \<and> Capability_id (hg_capability g) = k) (rev gs) of
             Some g \<Rightarrow> Some (stored_of g) | None \<Rightarrow> lookup2 m p k)))"
proof (induction gs rule: rev_induct)
  case (snoc g gs)
  then show ?case by (auto simp: Let_def nested_insert_keyed nested_insert_lookup)
qed (simp add: Let_def)

lemma Capability_id_inj: "Capability_id c = Capability_id d \<longleftrightarrow> c = d"
  using capability_words.spelling_inj by blast

lemma policy_file_parts:
  "keyed2 (policy_file gs)"
  "lookup2 (policy_file gs) p (Capability_id c) = map_option stored_of (last_always p c gs)"
  using policy_fold[of "[]" "stored_always gs"]
  by (auto simp: policy_file_def stored_always_def last_always_def keyed2_def lookup2_def Let_def Capability_id_inj
      split: option.splits)

definition stored_authority :: "ustr \<Rightarrow> ustr \<times> StoredDecision \<Rightarrow>
    (ustr \<times> Capability \<times> scope_map option \<times> ustr option \<times> ustr option) set" where
  "stored_authority p e =
     (case Capability_from_id (fst e) of
        Some c \<Rightarrow> (if sd_decision (snd e) = asc ''allow''
                   then {(p, c, sd_scope (snd e), sd_permission (snd e), sd_profile (snd e))} else {})
      | None \<Rightarrow> {})"

lemma read_entry_authority:
  "authority ` set (ho_grants (read_entry p now e h)) = authority ` set (ho_grants h) \<union> stored_authority p e"
  by (auto simp: read_entry_def stored_authority_def mint_def authority_def split: option.splits)

lemma read_entries_authority:
  "authority ` set (ho_grants (foldl (\<lambda>h e. read_entry p now e h) h es)) =
     authority ` set (ho_grants h) \<union> (\<Union>e \<in> set es. stored_authority p e)"
  by (induction es arbitrary: h) (auto simp: read_entry_authority)

lemma read_policy_authority:
  "authority ` set (ho_grants (read_policy stored now h)) =
     authority ` set (ho_grants h) \<union> (\<Union>(p, es) \<in> set stored. \<Union>e \<in> set es. stored_authority p e)"
proof (induction stored arbitrary: h)
  case (Cons e stored)
  then show ?case
    using Cons[of "foldl (\<lambda>h x. read_entry (fst e) now x h) h (snd e)"]
    by (auto simp: read_policy_def read_entries_authority split_beta)
qed (simp add: read_policy_def)

lemma stored_of_authority: "stored_authority (hg_plugin g) (Capability_id (hg_capability g), stored_of g) = {authority g}"
  by (simp add: stored_authority_def stored_of_def authority_def Capability_from_id_def capability_words.read_spelling)

lemma restart_authority:
  "authority ` set (ho_grants (read_policy (policy_file gs) now no_host)) =
     {authority g | g. last_always (hg_plugin g) (hg_capability g) gs = Some g}"
proof (intro set_eqI iffI)
  fix a
  assume "a \<in> authority ` set (ho_grants (read_policy (policy_file gs) now no_host))"
  then obtain p es k sd where e: "(p, es) \<in> set (policy_file gs)" "(k, sd) \<in> set es" "a \<in> stored_authority p (k, sd)"
    by (auto simp: read_policy_authority no_host_def)
  then obtain c where c: "Capability_from_id k = Some c"
    by (auto simp: stored_authority_def split: option.splits)
  then have k: "k = Capability_id c"
    using capability_words.read_sound[of k c] by (simp add: Capability_from_id_def)
  then have "lookup2 (policy_file gs) p (Capability_id c) = Some sd"
    using keyed2_member[OF policy_file_parts(1)[of gs], of p k sd] e(1,2) by blast
  then obtain g where g: "last_always p c gs = Some g" "sd = stored_of g"
    by (auto simp: policy_file_parts(2))
  have "hg_plugin g = p" "hg_capability g = c"
    using find_member[OF g(1)[unfolded last_always_def]] by auto
  then show "a \<in> {authority g | g. last_always (hg_plugin g) (hg_capability g) gs = Some g}"
    using e(3) g k stored_of_authority[of g] by auto
next
  fix a
  assume "a \<in> {authority g | g. last_always (hg_plugin g) (hg_capability g) gs = Some g}"
  then obtain g where g: "a = authority g" "last_always (hg_plugin g) (hg_capability g) gs = Some g" by blast
  then have "lookup2 (policy_file gs) (hg_plugin g) (Capability_id (hg_capability g)) = Some (stored_of g)"
    by (simp add: policy_file_parts(2))
  then obtain es where "(hg_plugin g, es) \<in> set (policy_file gs)" "(Capability_id (hg_capability g), stored_of g) \<in> set es"
    using keyed2_member[OF policy_file_parts(1)] by blast
  then show "a \<in> authority ` set (ho_grants (read_policy (policy_file gs) now no_host))"
    using stored_of_authority[of g] g(1) by (fastforce simp: read_policy_authority)
qed

lemma last_always_unique:
  assumes "distinct (map (\<lambda>g. (hg_plugin g, hg_capability g)) (stored_always gs))"
  shows "last_always (hg_plugin g) (hg_capability g) gs = Some g \<longleftrightarrow> g \<in> set (stored_always gs)"
proof
  assume "last_always (hg_plugin g) (hg_capability g) gs = Some g"
  then show "g \<in> set (stored_always gs)" using find_member unfolding last_always_def by fastforce
next
  assume g: "g \<in> set (stored_always gs)"
  have d: "distinct (map (\<lambda>g. (hg_plugin g, hg_capability g)) (rev (stored_always gs)))"
    using assms by (simp add: rev_map[symmetric])
  show "last_always (hg_plugin g) (hg_capability g) gs = Some g"
    using find_by_key[OF d, of g] g by (simp add: last_always_def)
qed


section \<open>Examples and limits\<close>

definition reader_package :: "ScopeTemplate \<Rightarrow> Installed" where
  "reader_package scope = \<lparr>in_manifest = reader_manifest scope, in_publisher = asc ''unsigned''\<rparr>"

abbreviation reader_scope :: ScopeTemplate where
  "reader_scope \<equiv> Concrete (reader_paths [asc ''/etc/reader.conf''])"

abbreviation reader_id :: ustr where
  "reader_id \<equiv> asc ''com.example.reader''"

definition reader_allowed :: Host where
  "reader_allowed = snd (allow (reader_package reader_scope) (reader_descriptor reader_scope) (asc ''always'')
     (asc ''prompt'') None None (asc ''c'') 1 no_host)"

definition reader_revoked :: Host where
  "reader_revoked = snd (revoke_grants_of reader_id 2 reader_allowed)"

lemma no_host_ok [simp]: "host_ok no_host"
  by (simp add: host_ok_def no_host_def)

lemma reader_hosts_ok: "host_ok reader_allowed" "host_ok reader_revoked"
proof -
  show "host_ok reader_allowed" unfolding reader_allowed_def by (rule allow_host_ok) simp
  then show "host_ok reader_revoked"
    unfolding reader_revoked_def revoke_grants_of_def by (rule evolves_ok[OF revoke_each_evolves(1)])
qed

lemma reader_grants:
  "map (\<lambda>g. (hg_id g, hg_plugin g, hg_capability g, hg_scope g, hg_revoked_at g)) (ho_grants reader_revoked) =
     [(1, reader_id, FilesystemRead, Some (reader_paths [asc ''/etc/reader.conf'']), Some 2)]"
  by code_simp

lemma revoked_grant_never_returns_witness:
  "\<exists>!g. g \<in> set (ho_grants (host_run reader_revoked
       [(AllowPermission (reader_package reader_scope) (reader_descriptor reader_scope) (asc ''always'')
          (asc ''prompt'') None None (asc ''d''), 3)])) \<and> hg_id g = 1"
proof -
  obtain g where g: "g \<in> set (ho_grants reader_revoked)" "hg_id g = 1" "hg_revoked_at g = Some 2"
    using reader_grants by (cases "ho_grants reader_revoked") auto
  show ?thesis using revoked_grant_never_returns[OF reader_hosts_ok(2) g(1,3)] g(2) by simp
qed


lemma allow_replaces_its_own_grants_witness:
  "filter (\<lambda>g. \<not> minted_by reader_id (asc ''read-config'') g) (ho_grants reader_allowed) = []"
proof -
  obtain minted where a: "allow (reader_package reader_scope) (reader_descriptor reader_scope) (asc ''always'')
     (asc ''prompt'') None None (asc ''c'') 1 no_host = (minted, reader_allowed)"
    unfolding reader_allowed_def by (metis prod.collapse)
  have i: "mf_package_id (in_manifest (reader_package reader_scope)) = reader_id"
    "pd_id (reader_descriptor reader_scope) = asc ''read-config''"
    by (simp_all add: reader_package_def reader_manifest_def reader_descriptor_def)
  show ?thesis
    using allow_replaces_its_own_grants[OF no_host_ok a] i by (simp add: no_host_def)
qed

definition recommended_profile :: AccessProfile where
  "recommended_profile = \<lparr>ap_name = RECOMMENDED, ap_title = RECOMMENDED, ap_permissions = [asc ''read-config'']\<rparr>"

definition installed_reader :: "ScopeTemplate \<Rightarrow> ustr \<Rightarrow> Host" where
  "installed_reader scope duration = snd (apply_profile (reader_package scope) (set_of_manifest (reader_manifest scope))
     recommended_profile duration (asc ''c'') 1 no_host)"


lemma installed_reader_allow:
  assumes "scope \<in> {reader_scope, RuntimeDerived}"
  shows "installed_reader scope duration = snd (allow (reader_package scope) (reader_descriptor scope) duration
    (asc ''prompt'') (Some RECOMMENDED) None (asc ''c'') 1
    (record_host_event reader_id RECOMMENDED (asc ''permission.profile_apply'') True (Some (asc ''c'')) 1 no_host))"
proof -
  have "automatic (set_of_manifest (reader_manifest reader_scope)) = []"
    "profile_descriptors (set_of_manifest (reader_manifest reader_scope)) recommended_profile = [reader_descriptor reader_scope]"
    "automatic (set_of_manifest (reader_manifest RuntimeDerived)) = []"
    "profile_descriptors (set_of_manifest (reader_manifest RuntimeDerived)) recommended_profile = [reader_descriptor RuntimeDerived]"
    by code_simp+
  then have "automatic (set_of_manifest (reader_manifest scope)) = []"
    "profile_descriptors (set_of_manifest (reader_manifest scope)) recommended_profile = [reader_descriptor scope]"
    using assms by auto
  moreover have "\<not> is_automatic (reader_descriptor scope)" "ap_name recommended_profile = RECOMMENDED"
    "mf_package_id (in_manifest (reader_package scope)) = reader_id"
    by (simp_all add: is_automatic_def reader_descriptor_def recommended_profile_def reader_package_def reader_manifest_def)
  ultimately show ?thesis by (simp add: installed_reader_def apply_profile_def split_beta)
qed

text \<open>
  A scope to be derived at use is granted as everything when it is decided at installation: the
  reader with such a scope is accepted, its permission is in the recommended profile, and once that
  is applied every path is allowed.
\<close>

lemma derived_at_use_granted_unscoped:
  "map (\<lambda>g. (hg_plugin g, hg_capability g, hg_scope g, hg_expires_at g, hg_revoked_at g))
     (ho_grants (installed_reader RuntimeDerived (asc ''always''))) =
   [(reader_id, FilesystemRead, None, None, None)]"
  "map (dr_decision \<circ> dc_record) (ho_decisions (installed_reader RuntimeDerived (asc ''always''))) = [asc ''allow'']"
  unfolding installed_reader_allow[of RuntimeDerived, simplified] by code_simp+

lemma derived_at_use_allows_every_path:
  "\<exists>g. evaluate_at G js (policy_for home reader_id t (installed_reader RuntimeDerived (asc ''always'')))
     FilesystemRead used t' = Allowed g"
proof -
  let ?h = "installed_reader RuntimeDerived (asc ''always'')"
  obtain g where g: "ho_grants ?h = [g]" "hg_plugin g = reader_id" "hg_capability g = FilesystemRead"
      "hg_scope g = None" "hg_expires_at g = None" "hg_revoked_at g = None"
    using derived_at_use_granted_unscoped(1) by auto
  have "\<forall>d \<in> set (ho_decisions ?h). dr_decision (dc_record d) = asc ''allow''"
    using derived_at_use_granted_unscoped(2) by (auto simp: map_eq_Cons_conv)
  then have "user_denies (policy_for home reader_id t ?h) = []" by (auto simp: filter_empty_conv)
  moreover have "standing_grants reader_id t ?h = [g]" using g by (simp add: standing_grants_def stands_at_def)
  ultimately show ?thesis
    using g by (simp add: evaluate_at_spec standing_cover_def broker_grant_def unexpired_def scope_covers_def)
qed

text \<open>A profile applied for once is granted for always.\<close>

lemma profile_for_once_is_for_always:
  "map hg_duration (ho_grants (installed_reader reader_scope (asc ''once''))) = [asc ''always'']"
  unfolding installed_reader_allow[OF insertI1] by code_simp

text \<open>
  An answer for one program ends the answer for another: the second allow of a permission asked
  just in time revokes the grant of the first.
\<close>

definition helper_descriptor :: PermissionDescriptor where
  "helper_descriptor =
     \<lparr>pd_id = asc ''helpers'', pd_kind = KindExecuteHelper, pd_title = asc ''Run helpers'', pd_purpose = None,
      pd_phase = PhaseJit, pd_recommended = False, pd_risk = PRiskExecute,
      pd_grants = [\<lparr>gt_capability = ProcessExec, gt_scope = Some RuntimeDerived\<rparr>], pd_scope_text = None,
      pd_derived = False\<rparr>"

definition answer_always :: "ustr \<Rightarrow> int \<Rightarrow> Host \<Rightarrow> Host" where
  "answer_always program now h = snd (allow (reader_package reader_scope) helper_descriptor (asc ''always'')
     (asc ''prompt'') None (Some [(asc ''programs'', JArray [JString program])]) (asc ''c'') now h)"

lemma second_answer_ends_the_first:
  "map hg_scope (standing_grants reader_id 5 (answer_always (asc ''/b'') 2 (answer_always (asc ''/a'') 1 no_host))) =
     [Some [(asc ''programs'', JArray [JString (asc ''/b'')])]]"
  by code_simp

text \<open>
  Two permissions over one capability: both grants stand, and a restart keeps the later one only.
\<close>

definition two_readers :: Host where
  "two_readers = snd (allow (reader_package reader_scope)
     (reader_descriptor (Concrete (reader_paths [asc ''/b'']))\<lparr>pd_id := asc ''read-more''\<rparr>)
     (asc ''always'') (asc ''prompt'') None None (asc ''c'') 2 reader_allowed)"

lemma restart_drops_a_permission:
  "map hg_scope (standing_grants reader_id 3 two_readers) =
     [Some (reader_paths [asc ''/etc/reader.conf'']), Some (reader_paths [asc ''/b''])]"
  "map hg_scope (ho_grants (read_policy (policy_file (ho_grants two_readers)) 4 no_host)) =
     [Some (reader_paths [asc ''/b''])]"
  by code_simp+


section \<open>What a script can set\<close>

text \<open>
  The permissions a request decides to allow: the one it names, or those its profile names.
\<close>

definition allowed_by_request :: "Installed \<Rightarrow> SetPermission \<Rightarrow> PermissionDescriptor set" where
  "allowed_by_request package request =
     (let s = set_of_manifest (in_manifest package)
      in case (sp_profile request, sp_permission request) of
           (Some name, None) \<Rightarrow>
             (case ps_profile s name of None \<Rightarrow> {} | Some p \<Rightarrow> set (profile_descriptors s p))
         | (None, Some q) \<Rightarrow>
             (if sp_decision request \<in> {None, Some (asc ''allow'')} then set_option (ps_descriptor s q) else {})
         | _ \<Rightarrow> {})"

lemma safe_not_changing: "is_safe_default d \<Longrightarrow> pd_risk d < PRiskMutate"
  by (auto simp: is_safe_default_def not_le split: if_splits)

lemma unattended_widening:
  "confirm_widening False answers widening confirmed = Inr () \<Longrightarrow> d \<in> set widening \<Longrightarrow>
     pd_risk d \<noteq> PRiskDestructive \<and> confirmed"
  by (auto simp: confirm_widening_def list_ex_iff split: if_splits)

text \<open>
  C23: What changes state is never enabled behind the user's back.  When \<open>set permission\<close> succeeds
  in a script, no permission the request or its profile names is allowed that is destructive, and
  one whose risk is to change state only with the confirmation flag.
\<close>

theorem script_never_enables_destructive:
  assumes "set_permission False answers package request co now h = Inr h'"
    and "d \<in> allowed_by_request package request"
  shows "pd_risk d \<noteq> PRiskDestructive \<and> (PRiskMutate \<le> pd_risk d \<longrightarrow> sp_confirm request)"
proof -
  let ?s = "set_of_manifest (in_manifest package)"
  have low: "pd_risk d < PRiskMutate \<Longrightarrow> ?thesis" by (auto simp: permission_orders)
  show ?thesis
  proof (cases "sp_permission request")
    case None
    then obtain name p where p: "sp_profile request = Some name" "ps_profile ?s name = Some p"
        "d \<in> set (profile_descriptors ?s p)"
      using assms(2) by (auto simp: allowed_by_request_def Let_def split: option.splits)
    let ?w = "filter (\<lambda>d. \<not> is_safe_default d) (profile_descriptors ?s p)"
    have ok: "?w = [] \<or> confirm_widening False answers ?w (sp_confirm request) = Inr ()"
      using assms(1) None p(1,2) by (auto simp: set_permission_def set_profile_def Let_def result_simps split: if_splits)
    show ?thesis
    proof (cases "is_safe_default d")
      case True
      then show ?thesis using low safe_not_changing by blast
    next
      case False
      then have w: "d \<in> set ?w" using p(3) by simp
      then have "?w \<noteq> []" by (metis length_pos_if_in_set less_numeral_extra(3) list.size(3))
      then show ?thesis using ok unattended_widening[OF _ w] by blast
    qed
  next
    case (Some q)
    then have q: "sp_profile request = None" "ps_descriptor ?s q = Some d" "sp_decision request \<in> {None, Some (asc ''allow'')}"
      using assms(2) by (auto simp: allowed_by_request_def Let_def split: option.splits if_splits)
    then obtain scope where "is_safe_default d \<or> narrowed_jit d scope \<or>
        confirm_widening False answers [d] (sp_confirm request) = Inr ()"
      using assms(1) Some by (auto simp: set_permission_def set_one_def Let_def result_simps split: if_splits)
    then show ?thesis
      using low safe_not_changing unattended_widening[of answers "[d]" "sp_confirm request" d]
      by (auto simp: narrowed_jit_def)
  qed
qed

lemma script_never_enables_destructive_witness:
  "pd_risk (reader_descriptor reader_scope) \<noteq> PRiskDestructive"
proof -
  let ?r = "\<lparr>sp_plugin = asc ''reader'', sp_permission = Some (asc ''read-config''), sp_profile = None,
            sp_decision = None, sp_duration = None, sp_scopes = [], sp_confirm = False\<rparr>"
  have m: "in_manifest (reader_package reader_scope) = reader_manifest reader_scope"
    by (simp add: reader_package_def)
  have d: "ps_descriptor (set_of_manifest (reader_manifest reader_scope)) (asc ''read-config'') = Some (reader_descriptor reader_scope)"
    by code_simp
  have safe: "is_safe_default (reader_descriptor reader_scope)" by code_simp
  have "\<exists>h'. set_one False [] (reader_package reader_scope) ?r (asc ''read-config'') (asc ''c'') 1 no_host = Inr h'"
    unfolding set_one_def Let_def m d using safe by (simp add: scope_from_words_def require_def)
  moreover have "sp_plugin ?r \<noteq> []" by simp
  ultimately obtain h' where "set_permission False [] (reader_package reader_scope) ?r (asc ''c'') 1 no_host = Inr h'"
    by (auto simp: set_permission_def)
  moreover have "reader_descriptor reader_scope \<in> allowed_by_request (reader_package reader_scope) ?r"
    unfolding allowed_by_request_def Let_def m using d by simp
  ultimately show ?thesis using script_never_enables_destructive by blast
qed

end
