(* ===== verification/Spec2Isabelle.thy ===== *)
theory Spec2Isabelle
  imports Plan_State Plan_Action Plan_Resume Execution_Strategy Decimal Plugin_Lifecycle
    Api_Version Wire_Frame Link_Flow Budget Map_Value Line_Buffer Coverage Trust_Store Authorization Shell_Lexer Token_Access Provider_Registry Protection_Policy Protection_Coverage Plan_Seal Plan_Secret Plan_Store Plan_Prepare Plan_Execute Apply_Progress Recovery_Plan
    Recovery_Builder Permission_Grants
begin

text \<open>
  A verification library for ono-sendai, a Linux shell whose commands answer with typed
  values, whose changes are planned before they are made, and whose protection and recovery
  are stated rather than assumed.  Source paths below are relative to \<open>src/\<close>.

  \<^bold>\<open>The program.\<close>  A line the user types is read by the lexer and the recoverable parser
  (\<open>crates/ono-parser\<close>) from the text the line editor holds (\<open>crates/ono-editor\<close>); commands
  answer with values (\<open>crates/ono-value\<close>), under a budget that bounds what one command may
  hold.  A command that changes the system is turned into a plan of actions
  (\<open>crates/ono-change-core\<close>), whose lifecycle is a state machine; before it applies, the
  protection subsystem (\<open>crates/ono-change-protection\<close>) asks the recovery providers what they
  can restore and composes the answer into a matrix and one word; the executor
  (\<open>crates/ono-change-executor\<close>) runs the actions in waves, journals what it did, and can
  resume an interrupted run.  Plugins (\<open>crates/ono-kuang-protocol\<close>) live in a lifecycle of
  their own behind a versioned interface.  Remote machines are reached over a framed protocol
  (\<open>crates/ono-protocol\<close>) with host keys, client authorization and credit-based flow control.
  The recorder's history answers questions about the past with the coverage it has
  (\<open>crates/ono-temporal-core\<close>).

  \<^bold>\<open>Shared theories.\<close>  \<open>Ono_Prelude\<close> holds the result type, the checked and saturating
  arithmetic of the machine integers, event runs, and the two interfaces most components
  provide: the locale \<open>guarded_machine\<close> (a partial step function with an invariant and a
  guard) and the locale \<open>vocabulary\<close> (an enumeration with a spelling per member).  \<open>Ono_Text\<close>
  is text as Rust has it: lists of scalar values with UTF-8 lengths, trimming, splitting,
  lines, and integer parsing.

  \<^bold>\<open>Plans.\<close>  \<open>Plan_State\<close> is \<open>state.rs\<close>: the nineteen states, every event and the history a
  plan keeps; a plan has mutated exactly when it began to apply, and it applies only sealed
  and prepared.  \<open>Plan_Action\<close> is \<open>action.rs\<close> with \<open>topological_order\<close> (Kahn's loop, with the
  number of remaining actions as its measure) and the verdict of \<open>verification.rs\<close>.
  \<open>Execution_Strategy\<close> is \<open>strategy.rs\<close> and the executor's run over the waves: every target is
  accounted for and a failed canary stops the run.  \<open>Plan_Resume\<close> is
  \<open>ono-change-executor/src/resume.rs\<close>: what an interrupted run may do again.

  \<^bold>\<open>Protection.\<close>  \<open>Protection\<close> is the vocabulary and the matrix of \<open>protection.rs\<close> and
  \<open>effect.rs\<close>; the word a plan carries never overstates its rows.  \<open>Mount_Table\<close> decodes the
  kernel's mount table and \<open>/etc/fstab\<close> (\<open>ono-provider-linux/src/storage.rs\<close>) and rewrites
  the latter.  \<open>Mount_Domain\<close> (\<open>domain.rs\<close> of both change crates) finds what holds the state of
  a path, through bind mounts and overlays.  \<open>Recovery_Asset\<close> is \<open>asset.rs\<close>, the candidates and
  actions of \<open>provider.rs\<close>, and the cost, freshness and retention rules.  \<open>Provider_Registry\<close> is
  \<open>registry.rs\<close>, \<open>Protection_Policy\<close> is \<open>policy.rs\<close> and \<open>hosts.rs\<close>, and \<open>Protection_Coverage\<close> is
  the whole of \<open>coverage.rs\<close>: a plan whose word covers persistent state has a planned action
  behind every mutation that must be recoverable exactly.

  \<^bold>\<open>Remote links.\<close>  \<open>Wire_Frame\<close> is \<open>limits.rs\<close>, \<open>frame.rs\<close> and \<open>connection.rs\<close>: what one end
  sends the other receives, whatever the chunks.  \<open>Link_Flow\<close> is the stream table and the
  credit of \<open>link.rs\<close> and the producing side of \<open>service.rs\<close>.  \<open>Trust_Store\<close> is \<open>trust.rs\<close>:
  which host key a link accepts, with every failure of the file it is kept in.
  \<open>Authorization\<close> is \<open>authorization.rs\<close> with the commands of \<open>ono-cli/src/trust.rs\<close>, a
  refinement of a partial map from keys to grants.

  \<^bold>\<open>Values, text and plugins.\<close>  \<open>Decimal\<close> is the 128-bit fixed-point arithmetic of
  \<open>decimal.rs\<close>, \<open>Map_Value\<close> the insertion-ordered map, \<open>Budget\<close> the shared ceilings,
  \<open>Line_Buffer\<close> the editor's buffer and kill ring, \<open>Coverage\<close> the temporal coverage that lets
  an absence be proved.  \<open>Shell_Lexer\<close> is the whole mode-sensitive lexer and \<open>Token_Access\<close> the
  parser's reading and recovery loops.  \<open>Plugin_Lifecycle\<close> and \<open>Api_Version\<close> are the plugin
  protocol's \<open>lifecycle.rs\<close> and \<open>version.rs\<close>.

  \<^bold>\<open>Sealing, storing and applying.\<close>  \<open>Plan_Seal\<close> is \<open>plan.rs\<close> with \<open>risk.rs\<close>, \<open>target.rs\<close> and the
  canonical text of \<open>digest.rs\<close>: a sealed plan cannot change without its digest changing.
  \<open>Plan_Secret\<close> and \<open>Plan_Store\<close> are \<open>secrets.rs\<close> and \<open>store.rs\<close> of \<open>ono-change-plan\<close>: what was
  stored reads back, and one claim excludes another.  \<open>Plan_Prepare\<close> and \<open>Plan_Execute\<close> are the
  two halves of \<open>ono-change-executor/src/execute.rs\<close>; \<open>Apply_Steps\<close> gives the run of an apply as
  a relation of small steps with its invariant, and \<open>Apply_Progress\<close> states what follows:
  every execution is written ahead, protection precedes mutation, a plan whose apply broke off
  is not run again, success means that every action is done, and an unhindered apply succeeds.

  \<^bold>\<open>Recovery.\<close>  \<open>Recovery_Plan\<close> is \<open>recovery.rs\<close> with \<open>conflict.rs\<close>, \<open>gate.rs\<close> and \<open>method.rs\<close> of
  \<open>ono-change-recovery\<close>; \<open>Recovery_Builder\<close> is its \<open>builder.rs\<close>, \<open>auto.rs\<close> and \<open>verify.rs\<close>: newer
  state is never discarded unaccepted, the least destructive method is chosen, and what a
  recovery claims to have restored is exactly what its checks saw.

  \<^bold>\<open>Permissions.\<close>  \<open>Permission\<close> is \<open>capability.rs\<close> and \<open>permission.rs\<close> of the plugin protocol,
  \<open>Broker_Policy\<close> the supervisor's \<open>policy.rs\<close>, and \<open>Permission_Grants\<close> the decisions and grants
  the shell keeps (\<open>ono-cli/src/kuang_host.rs\<close> and \<open>kuang_permissions.rs\<close>): a default install
  changes nothing, a denial outlasts every later grant, an upgrade that asks nothing reaches no
  further, and the broker allows exactly what a standing grant covers.

  \<^bold>\<open>How code becomes definitions.\<close>  A struct is a record, an enum a datatype with the
  source's variants (renamed only where two enums share a variant), a builder or setter a
  function from the record to the record, a method with \<open>&mut self\<close> a function that returns
  the new state beside its answer.  \<open>Result\<close> is the sum type with the error on the left, a
  panic is \<open>None\<close> or a named error, and machine integers are words, or numbers with the wrap,
  check or saturation written out.  A file or a process outside the program is an argument:
  the text it held, and what the operation does when a call fails.  Hash functions, floating
  point, clocks and providers are arguments too.  A diagnostic sentence is named with what
  it mentions (\<open>Format\<close> and \<open>Say\<close>), not spelled out; the code, the class and the data of an
  error are kept.

  \<^bold>\<open>Bounds and loops.\<close>  Loops that may not end are \<open>partial_function (option)\<close> and are proved
  to return: the lexer and the token reader on every source shorter than 4 GiB, which is the
  limit of the 32-bit spans they carry; the framed reader on every stream of chunks.  The
  overlay resolution ends because its depth is bounded by \<open>MAX_OVERLAY_DEPTH\<close>, the ordering of
  actions because each round removes an action.  Everything else is structural recursion or a
  fold, so it is total.

  \<^bold>\<open>Not modelled.\<close>  System calls and the services behind them (the kernel, netlink, D-Bus, the
  container runtime, the snapshot tools), process control and terminals, the event loop of
  the shell, SQLite, rendering, and asynchronous scheduling: where a component's logic can
  be told apart from these it is modelled over their answers, and its component entry says
  what is left.  The grammar above the lexer, the streaming engine, the spatial index and the
  plugin supervisor's process handling are not modelled.
\<close>

end
